(* ===== verification/Prelude.thy ===== *)
theory Prelude
  imports Main "HOL-Library.AList" "HOL-Library.Char_ord" "HOL-Library.List_Lexorder"
begin

text \<open>
  Shared vocabulary of the development: the result type of code that may raise, Python's
  insertion-ordered dictionaries as association lists, the interface the components use
  them through, and the named collections of rewrite rules the component proofs draw on.
  Python strings are lists of characters (code points up to 255), Python integers are \<open>int\<close>.
\<close>

named_theorems dict_simps \<open>rewriting of ordered-dictionary operations\<close>
named_theorems result_simps \<open>rewriting of computations that may raise\<close>

type_synonym py_str = string
type_synonym ('k, 'v) dict = "('k \<times> 'v) list"

section \<open>Computations that may raise\<close>

text \<open>
  The built-in exceptions that the modelled code can run into; the exceptions a component
  raises itself are a datatype of that component. \<open>LibraryError\<close> stands for an exception of a library
  that the code lets through.
  A computation that may raise is a sum: \<open>Inl e\<close> is the raised exception, \<open>Inr x\<close> the
  returned value. Sequencing stops at the first exception.
\<close>

datatype py_error = KeyError | IndexError | ValueError | LibraryError

definition bind_result :: "'e + 'a \<Rightarrow> ('a \<Rightarrow> 'e + 'b) \<Rightarrow> 'e + 'b" where
  "bind_result r f = (case r of Inl e \<Rightarrow> Inl e | Inr x \<Rightarrow> f x)"

lemma bind_result_simps [simp, result_simps]:
  "bind_result (Inl e) f = Inl e"
  "bind_result (Inr x) f = f x"
  by (simp_all add: bind_result_def)

lemma bind_result_Inr_iff [result_simps]:
  "bind_result r f = Inr y \<longleftrightarrow> (\<exists>x. r = Inr x \<and> f x = Inr y)"
  by (cases r) auto

lemma bind_result_Inl_iff [result_simps]:
  "bind_result r f = Inl e \<longleftrightarrow> r = Inl e \<or> (\<exists>x. r = Inr x \<and> f x = Inl e)"
  by (cases r) auto

lemma bind_result_cong [fundef_cong]:
  "r = r' \<Longrightarrow> (\<And>x. r' = Inr x \<Longrightarrow> f x = g x) \<Longrightarrow> bind_result r f = bind_result r' g"
  by (cases r') auto

section \<open>Insertion-ordered dictionaries\<close>

text \<open>
  A Python dict keeps the order in which its keys were first stored. Storing under a present
  key replaces the value in place; storing under a new key appends; \<open>pop\<close> removes the key.
\<close>

abbreviation dict_get :: "('k, 'v) dict \<Rightarrow> 'k \<Rightarrow> 'v option" where
  "dict_get d k \<equiv> map_of d k"

abbreviation dict_set :: "'k \<Rightarrow> 'v \<Rightarrow> ('k, 'v) dict \<Rightarrow> ('k, 'v) dict" where
  "dict_set k v d \<equiv> AList.update k v d"

abbreviation dict_del :: "'k \<Rightarrow> ('k, 'v) dict \<Rightarrow> ('k, 'v) dict" where
  "dict_del k d \<equiv> AList.delete k d"

definition dict_keys :: "('k, 'v) dict \<Rightarrow> 'k list" where
  "dict_keys d = map fst d"

definition dict_ok :: "('k, 'v) dict \<Rightarrow> bool" where
  "dict_ok d \<longleftrightarrow> distinct (map fst d)"

text \<open>\<open>d.get(k, default)\<close>.\<close>

definition dict_get_default :: "('k, 'v) dict \<Rightarrow> 'k \<Rightarrow> 'v \<Rightarrow> 'v" where
  "dict_get_default d k v = (case dict_get d k of None \<Rightarrow> v | Some x \<Rightarrow> x)"

text \<open>\<open>d.setdefault(k, []).append(x)\<close>, also the append on a \<open>defaultdict(list)\<close>.\<close>

definition dict_append :: "'k \<Rightarrow> 'a \<Rightarrow> ('k, 'a list) dict \<Rightarrow> ('k, 'a list) dict" where
  "dict_append k x d = dict_set k (dict_get_default d k [] @ [x]) d"

lemma dict_keys_set [dict_simps]:
  "dict_keys (dict_set k v d) = (if k \<in> set (dict_keys d) then dict_keys d else dict_keys d @ [k])"
  by (simp add: dict_keys_def update_keys)

lemma dict_keys_del [dict_simps]: "dict_keys (dict_del k d) = filter (\<lambda>x. x \<noteq> k) (dict_keys d)"
  by (simp add: dict_keys_def delete_keys removeAll_filter_not_eq) (metis (lifting))

lemma dict_get_set [dict_simps]: "dict_get (dict_set k v d) = (dict_get d)(k \<mapsto> v)"
  by (rule update_conv')

lemma dict_get_del [dict_simps]: "dict_get (dict_del k d) = (dict_get d)(k := None)"
  by (rule delete_conv')

lemma dict_ok_set [simp, intro]: "dict_ok d \<Longrightarrow> dict_ok (dict_set k v d)"
  by (simp add: dict_ok_def distinct_update)

lemma dict_ok_del [simp, intro]: "dict_ok d \<Longrightarrow> dict_ok (dict_del k d)"
  by (simp add: dict_ok_def distinct_delete)

lemma set_update_mem: "(k, e) \<in> set (dict_set j w c) \<Longrightarrow> (k, e) \<in> set c \<or> k = j \<and> e = w"
  by (induction c) (auto split: if_splits)

lemma dict_ok_Nil [simp, intro]: "dict_ok []"
  by (simp add: dict_ok_def)

lemma dict_get_append [dict_simps]:
  "dict_get_default (dict_append k x d) j [] =
     dict_get_default d j [] @ (if j = k then [x] else [])"
  by (simp add: dict_append_def dict_get_default_def dict_get_set)

lemma in_dict_keys_iff: "k \<in> set (dict_keys d) \<longleftrightarrow> dict_get d k \<noteq> None"
  by (auto simp: dict_keys_def map_of_eq_None_iff)

lemma dict_mem_get: "dict_ok d \<Longrightarrow> (k, v) \<in> set d \<longleftrightarrow> dict_get d k = Some v"
  by (auto simp: dict_ok_def map_of_eq_Some_iff)

text \<open>
  The interface the components rely on: a store that answers a lookup with the last value
  stored and enumerates its keys in the order of their first storage.
\<close>

locale ordered_store =
  fixes get :: "'d \<Rightarrow> 'k \<Rightarrow> 'v option"
    and put :: "'k \<Rightarrow> 'v \<Rightarrow> 'd \<Rightarrow> 'd"
    and del :: "'k \<Rightarrow> 'd \<Rightarrow> 'd"
    and keys :: "'d \<Rightarrow> 'k list"
    and invar :: "'d \<Rightarrow> bool"
  assumes get_put: "get (put k v d) = (get d)(k \<mapsto> v)"
    and get_del: "get (del k d) = (get d)(k := None)"
    and keys_put: "keys (put k v d) = (if k \<in> set (keys d) then keys d else keys d @ [k])"
    and keys_del: "keys (del k d) = filter (\<lambda>x. x \<noteq> k) (keys d)"
    and keys_get: "k \<in> set (keys d) \<longleftrightarrow> get d k \<noteq> None"
    and invar_put: "invar d \<Longrightarrow> invar (put k v d)"
    and invar_del: "invar d \<Longrightarrow> invar (del k d)"
    and invar_keys: "invar d \<Longrightarrow> distinct (keys d)"
begin

lemma put_fresh_appends: "get d k = None \<Longrightarrow> keys (put k v d) = keys d @ [k]"
  by (simp add: keys_put keys_get)

lemma put_present_keeps_order: "get d k = Some w \<Longrightarrow> keys (put k v d) = keys d"
  by (simp add: keys_put keys_get)

lemma del_put_keys: "get d k = None \<Longrightarrow> keys (del k (put k v d)) = keys d"
  by (simp add: put_fresh_appends keys_del filter_id_conv) (metis keys_get)

end

interpretation od: ordered_store dict_get dict_set dict_del dict_keys dict_ok
proof
  fix k :: 'a and v :: 'b and d :: "('a, 'b) dict"
  show "dict_get (dict_set k v d) = (dict_get d)(k \<mapsto> v)" by (rule dict_get_set)
  show "dict_get (dict_del k d) = (dict_get d)(k := None)" by (rule dict_get_del)
  show "dict_keys (dict_set k v d) =
      (if k \<in> set (dict_keys d) then dict_keys d else dict_keys d @ [k])" by (rule dict_keys_set)
  show "dict_keys (dict_del k d) = filter (\<lambda>x. x \<noteq> k) (dict_keys d)" by (rule dict_keys_del)
  show "k \<in> set (dict_keys d) \<longleftrightarrow> dict_get d k \<noteq> None" by (rule in_dict_keys_iff)
  assume "dict_ok d"
  then show "dict_ok (dict_set k v d)" and "dict_ok (dict_del k d)" and "distinct (dict_keys d)"
    by (auto simp: dict_ok_def dict_keys_def distinct_update distinct_delete)
qed

section \<open>Searching lists\<close>

lemma find_SomeD: "find P xs = Some x \<Longrightarrow> x \<in> set xs \<and> P x"
  by (metis find_Some_iff nth_mem)

section \<open>Strings\<close>

text \<open>\<open>sep.join(xs)\<close>.\<close>

fun join :: "py_str \<Rightarrow> py_str list \<Rightarrow> py_str" where
  "join sep [] = []"
| "join sep [x] = x"
| "join sep (x # y # xs) = x @ sep @ join sep (y # xs)"

section \<open>Raw Python values\<close>

text \<open>
  The values a decorator or an untyped keyword argument can carry, as far as the code
  distinguishes them: \<open>PSeq\<close> is a list or a tuple.
\<close>

datatype py_val = PNone | PBool bool | PInt int | PStr py_str | PSeq "py_val list"

text \<open>\<open>bool(v)\<close>.\<close>

fun truthy :: "py_val \<Rightarrow> bool" where
  "truthy PNone = False"
| "truthy (PBool b) = b"
| "truthy (PInt n) = (n \<noteq> 0)"
| "truthy (PStr s) = (s \<noteq> [])"
| "truthy (PSeq vs) = (vs \<noteq> [])"

section \<open>Decimal numerals\<close>

text \<open>\<open>str(n)\<close> for a non-negative integer, and \<open>int(s)\<close> for a string of ASCII digits.\<close>

definition digit_char :: "nat \<Rightarrow> char" where
  "digit_char d = ''0123456789'' ! d"

definition is_digit :: "char \<Rightarrow> bool" where
  "is_digit c \<longleftrightarrow> c \<in> set ''0123456789''"

definition digit_val :: "char \<Rightarrow> nat" where
  "digit_val c = length (takeWhile (\<lambda>x. x \<noteq> c) ''0123456789'')"

fun nat_str :: "nat \<Rightarrow> py_str" where
  "nat_str n = (if n < 10 then [digit_char n] else nat_str (n div 10) @ [digit_char (n mod 10)])"

definition str_nat :: "py_str \<Rightarrow> nat" where
  "str_nat s = foldl (\<lambda>acc c. 10 * acc + digit_val c) 0 s"

declare nat_str.simps [simp del]

lemma less_10_cases:
  "(d::nat) < 10 \<Longrightarrow> d = 0 \<or> d = 1 \<or> d = 2 \<or> d = 3 \<or> d = 4 \<or> d = 5 \<or> d = 6 \<or> d = 7 \<or> d = 8 \<or> d = 9"
  by arith

lemma digit_val_char [simp]: "d < 10 \<Longrightarrow> digit_val (digit_char d) = d"
  by (drule less_10_cases) (auto simp: digit_val_def digit_char_def)

lemma is_digit_char [simp]: "d < 10 \<Longrightarrow> is_digit (digit_char d)"
  by (drule less_10_cases) (auto simp: is_digit_def digit_char_def)

lemma nat_str_digits: "\<forall>c \<in> set (nat_str n). is_digit c"
proof (induction n rule: nat_str.induct)
  case (1 n)
  then show ?case by (subst nat_str.simps) auto
qed

lemma nat_str_nonempty [simp]: "nat_str n \<noteq> []"
  by (subst nat_str.simps) simp

lemma str_nat_snoc: "str_nat (s @ [c]) = 10 * str_nat s + digit_val c"
  by (simp add: str_nat_def)

lemma str_nat_nat_str [simp]: "str_nat (nat_str n) = n"
proof (induction n rule: nat_str.induct)
  case (1 n)
  show ?case
  proof (cases "n < 10")
    case True
    then show ?thesis by (subst nat_str.simps) (simp add: str_nat_def)
  next
    case False
    with 1 show ?thesis by (subst nat_str.simps) (simp add: str_nat_snoc)
  qed
qed

lemma nat_str_inject [simp]: "nat_str m = nat_str n \<longleftrightarrow> m = n"
  by (metis str_nat_nat_str)

end
