(* ===== verification/Sched_States.thy ===== *)
theory Sched_States
  imports Prelude
begin

text \<open>
  The environment states of the test scheduler
  (\<^verbatim>\<open>test_suite/scheduler/states.py\<close>): the enumeration, its string values, the
  conversion \<open>State(raw)\<close> and the order Python gives the members, which compare as strings.
\<close>

datatype State =
    NO_BUNDLE
  | NO_CONTROLLER
  | NO_MODEL
  | EMPTY_MODEL
  | DEPLOYED
  | DEPLOYED_HA
  | NEIGHBOR_ONLY
  | DEPLOYED_WITH_OLD_REVISION
  | DEPLOYED_WITH_UPGRADED_CONTROLLER

primrec state_value :: "State \<Rightarrow> py_str" where
  "state_value NO_BUNDLE = ''no_bundle''"
| "state_value NO_CONTROLLER = ''no_controller''"
| "state_value NO_MODEL = ''no_model''"
| "state_value EMPTY_MODEL = ''empty_model''"
| "state_value DEPLOYED = ''deployed''"
| "state_value DEPLOYED_HA = ''deployed_ha''"
| "state_value NEIGHBOR_ONLY = ''neighbor_only''"
| "state_value DEPLOYED_WITH_OLD_REVISION = ''deployed_with_old_revision''"
| "state_value DEPLOYED_WITH_UPGRADED_CONTROLLER = ''deployed_with_upgraded_controller''"

definition all_states :: "State list" where
  "all_states = [NO_BUNDLE, NO_CONTROLLER, NO_MODEL, EMPTY_MODEL, DEPLOYED, DEPLOYED_HA,
     NEIGHBOR_ONLY, DEPLOYED_WITH_OLD_REVISION, DEPLOYED_WITH_UPGRADED_CONTROLLER]"

definition STATES_WITHOUT_EXISTING_CONTROLLER :: "State list" where
  "STATES_WITHOUT_EXISTING_CONTROLLER = [NO_BUNDLE, NO_CONTROLLER]"

definition STATES_WITHOUT_EXISTING_MODEL :: "State list" where
  "STATES_WITHOUT_EXISTING_MODEL = [NO_BUNDLE, NO_CONTROLLER, NO_MODEL]"

text \<open>
  \<open>State(raw)\<close>: lookup by value. A member is a string equal to its value, so a member and
  its value are the same argument. Anything that is not a valid string raises \<open>ValueError\<close>.
\<close>

definition state_of_str :: "py_str \<Rightarrow> State option" where
  "state_of_str s = find (\<lambda>m. state_value m = s) all_states"

fun state_of_val :: "py_val \<Rightarrow> State option" where
  "state_of_val (PStr s) = state_of_str s"
| "state_of_val _ = None"

section \<open>The members as an ordered finite type\<close>

lemma all_states_UNIV: "set all_states = UNIV"
proof -
  have "m \<in> set all_states" for m by (cases m) (simp_all add: all_states_def)
  then show ?thesis by auto
qed

lemma inj_state_value [simp]: "state_value a = state_value b \<longleftrightarrow> a = b"
  by (cases a; cases b; simp)

instantiation State :: finite
begin
instance
proof
  show "finite (UNIV :: State set)" by (metis List.finite_set all_states_UNIV)
qed
end

text \<open>\<open>class State(str, Enum)\<close>: comparison is comparison of the value strings.\<close>

instantiation State :: linorder
begin
definition less_eq_State :: "State \<Rightarrow> State \<Rightarrow> bool" where
  "less_eq_State a b \<longleftrightarrow> state_value a \<le> state_value b"
definition less_State :: "State \<Rightarrow> State \<Rightarrow> bool" where
  "less_State a b \<longleftrightarrow> state_value a < state_value b"
instance
  by standard (auto simp: less_eq_State_def less_State_def less_le)
end

lemma state_of_str_value [simp]: "state_of_str (state_value m) = Some m"
  by (cases m) (simp_all add: state_of_str_def all_states_def)

lemma state_of_str_Some_iff: "state_of_str s = Some m \<longleftrightarrow> s = state_value m"
  by (auto simp: state_of_str_def find_Some_iff)
     (metis state_of_str_def state_of_str_value find_Some_iff)

lemma without_controller_without_model:
  "set STATES_WITHOUT_EXISTING_CONTROLLER \<subseteq> set STATES_WITHOUT_EXISTING_MODEL"
  by (simp add: STATES_WITHOUT_EXISTING_CONTROLLER_def STATES_WITHOUT_EXISTING_MODEL_def)

end
