(* ===== verification/Sched_Graph.thy ===== *)
theory Sched_Graph
  imports Sched_States "HOL-Library.Multiset" "HOL-Library.Product_Lexorder"
begin

text \<open>
  The state graph of the scheduler and its randomised Dijkstra search
  (\<^verbatim>\<open>test_suite/scheduler/graph.py\<close>). The definitions follow the code: the lazy-deletion
  heap, the \<open>dist\<close> and \<open>parents\<close> dictionaries, the early return when the target is popped
  and the backwards reconstruction that draws one parent at random at every step. The random
  draws are a parameter: \<open>r k\<close> is the \<open>k\<close>-th draw. The two loops are partial functions:
  \<open>None\<close> means that the loop does not end, which zero or negative costs can cause; with
  positive costs (every edge the plugin registers has cost 1) the search is proved total,
  and its answer a cheapest path.
\<close>

section \<open>The graph\<close>

record StateTransition =
  from_state :: State
  to_state :: State
  cost :: int

definition transition :: "State \<Rightarrow> State \<Rightarrow> StateTransition" where
  "transition a b = \<lparr>from_state = a, to_state = b, cost = 1\<rparr>"

definition transition_lt :: "StateTransition \<Rightarrow> StateTransition \<Rightarrow> bool" where
  "transition_lt x y \<longleftrightarrow> (from_state x, to_state x) < (from_state y, to_state y)"

type_synonym 'i edge = "StateTransition \<times> 'i"
type_synonym 'i StateGraph = "(State, 'i edge list) dict"

definition register_transition :: "StateTransition \<Rightarrow> 'i \<Rightarrow> 'i StateGraph \<Rightarrow> 'i StateGraph" where
  "register_transition t item g = dict_append (from_state t) (t, item) g"

definition known_states :: "'i StateGraph \<Rightarrow> State set" where
  "known_states g = (\<Union>(s, edges) \<in> set g. insert s ((\<lambda>e. to_state (fst e)) ` set edges))"

definition edges_from :: "'i StateGraph \<Rightarrow> State \<Rightarrow> 'i edge list" where
  "edges_from g s = dict_get_default g s []"

section \<open>The heap\<close>

text \<open>
  The code uses \<open>heapq\<close> on \<open>(cost, state)\<close> tuples. Equal tuples cannot be told apart, so
  only the multiset of entries and the minimum matter; the model keeps the entries sorted.
\<close>

definition heappush :: "'a::linorder \<Rightarrow> 'a list \<Rightarrow> 'a list" where
  "heappush x h = insort x h"

fun heappop :: "'a list \<Rightarrow> ('a \<times> 'a list) option" where
  "heappop [] = None"
| "heappop (x # h) = Some (x, h)"

locale min_heap =
  fixes push :: "'a::linorder \<Rightarrow> 'h \<Rightarrow> 'h"
    and pop :: "'h \<Rightarrow> ('a \<times> 'h) option"
    and entries :: "'h \<Rightarrow> 'a multiset"
    and heap_ok :: "'h \<Rightarrow> bool"
  assumes entries_push: "heap_ok h \<Longrightarrow> entries (push x h) = add_mset x (entries h)"
    and ok_push: "heap_ok h \<Longrightarrow> heap_ok (push x h)"
    and pop_None: "heap_ok h \<Longrightarrow> pop h = None \<longleftrightarrow> entries h = {#}"
    and pop_Some: "heap_ok h \<Longrightarrow> pop h = Some (x, h') \<Longrightarrow>
      entries h = add_mset x (entries h') \<and> heap_ok h' \<and> (\<forall>y \<in># entries h. x \<le> y)"
begin

lemma pop_min: "heap_ok h \<Longrightarrow> pop h = Some (x, h') \<Longrightarrow> y \<in># entries h \<Longrightarrow> x \<le> y"
  using pop_Some by blast

lemma pop_in: "heap_ok h \<Longrightarrow> pop h = Some (x, h') \<Longrightarrow> x \<in># entries h"
  using pop_Some [of h x h'] by simp

lemma pop_mem_iff:
  "heap_ok h \<Longrightarrow> pop h = Some (x, h') \<Longrightarrow> y \<in># entries h \<longleftrightarrow> y = x \<or> y \<in># entries h'"
  using pop_Some [of h x h'] by auto

end

lemma heappop_eq: "heappop h = (case h of [] \<Rightarrow> None | x # xs \<Rightarrow> Some (x, xs))"
  by (cases h) auto

interpretation hq: min_heap heappush heappop mset sorted
proof
  fix h h' :: "'a::linorder list" and x
  assume ok: "sorted h"
  show "mset (heappush x h) = add_mset x (mset h)"
    by (simp add: heappush_def)
  show "sorted (heappush x h)" using ok by (simp add: heappush_def sorted_insort)
  show "heappop h = None \<longleftrightarrow> mset h = {#}" by (cases h) auto
  assume "heappop h = Some (x, h')"
  then have "h = x # h'" by (cases h) auto
  with ok show "mset h = add_mset x (mset h') \<and> sorted h' \<and> (\<forall>y \<in># mset h. x \<le> y)" by auto
qed

section \<open>The search\<close>

text \<open>\<open>random.choice\<close>: an element of a non-empty sequence, \<open>IndexError\<close> for an empty one.\<close>

definition random_choice :: "(nat \<Rightarrow> nat) \<Rightarrow> nat \<Rightarrow> 'a list \<Rightarrow> py_error + 'a" where
  "random_choice r k xs = (if xs = [] then Inl IndexError else Inr (xs ! (r k mod length xs)))"

record 'i search_state =
  dist :: "State \<rightharpoonup> int"
  parents :: "State \<rightharpoonup> 'i edge list"
  heap :: "(int \<times> State) list"

text \<open>The body of the loop over the edges of a popped state.\<close>

definition relax_edge ::
    "StateTransition set \<Rightarrow> int \<Rightarrow> 'i edge \<Rightarrow> 'i search_state \<Rightarrow> py_error + 'i search_state" where
  "relax_edge avoid c e st =
     (if fst e \<in> avoid then Inr st
      else
        let new_cost = c + cost (fst e);
            neighbor = to_state (fst e);
            found_dist = dist st neighbor
        in if (case found_dist of None \<Rightarrow> True | Some d \<Rightarrow> new_cost \<le> d)
           then
             let st1 = st\<lparr>dist := (dist st)(neighbor \<mapsto> new_cost)\<rparr>;
                 st2 = (if (case found_dist of None \<Rightarrow> True | Some d \<Rightarrow> new_cost < d)
                        then st1\<lparr>heap := heappush (new_cost, neighbor) (heap st1),
                                 parents := (parents st1)(neighbor \<mapsto> [])\<rparr>
                        else st1)
             in case parents st2 neighbor of
                  None \<Rightarrow> Inl KeyError
                | Some ps \<Rightarrow> Inr (st2\<lparr>parents := (parents st2)(neighbor \<mapsto> ps @ [e])\<rparr>)
           else Inr st)"

fun relax_edges ::
    "StateTransition set \<Rightarrow> int \<Rightarrow> 'i edge list \<Rightarrow> 'i search_state \<Rightarrow> py_error + 'i search_state" where
  "relax_edges avoid c [] st = Inr st"
| "relax_edges avoid c (e # es) st =
     bind_result (relax_edge avoid c e st) (\<lambda>st'. relax_edges avoid c es st')"

text \<open>
  The backwards reconstruction. \<open>acc\<close> is the code's \<open>path\<close> reversed, so its head is
  \<open>path[-1]\<close> and \<open>acc\<close> itself is the returned \<open>path[::-1]\<close>. \<open>k\<close> counts the draws.
\<close>

partial_function (option) rebuild_path ::
    "(nat \<Rightarrow> nat) \<Rightarrow> (State \<rightharpoonup> 'i edge list) \<Rightarrow> State \<Rightarrow> nat \<Rightarrow> 'i edge list \<Rightarrow>
       (py_error + 'i edge list \<times> nat) option" where
  "rebuild_path r ps src k acc =
     (case acc of
        [] \<Rightarrow> Some (Inl IndexError)
      | e # _ \<Rightarrow>
          if from_state (fst e) = src then Some (Inr (acc, k))
          else case ps (from_state (fst e)) of
                 None \<Rightarrow> Some (Inl KeyError)
               | Some cands \<Rightarrow>
                   (case random_choice r k cands of
                      Inl err \<Rightarrow> Some (Inl err)
                    | Inr x \<Rightarrow> rebuild_path r ps src (Suc k) (x # acc)))"

definition reconstruct ::
    "(nat \<Rightarrow> nat) \<Rightarrow> (State \<rightharpoonup> 'i edge list) \<Rightarrow> State \<Rightarrow> State \<Rightarrow> nat \<Rightarrow>
       (py_error + 'i edge list \<times> nat) option" where
  "reconstruct r ps src target k =
     (case ps target of
        None \<Rightarrow> Some (Inl KeyError)
      | Some cands \<Rightarrow>
          (case random_choice r k cands of
             Inl err \<Rightarrow> Some (Inl err)
           | Inr x \<Rightarrow> rebuild_path r ps src (Suc k) [x]))"

partial_function (option) search_loop ::
    "(nat \<Rightarrow> nat) \<Rightarrow> 'i StateGraph \<Rightarrow> StateTransition set \<Rightarrow> State \<Rightarrow> State \<Rightarrow> nat \<Rightarrow> 'i search_state \<Rightarrow>
       (py_error + 'i edge list option \<times> nat) option" where
  "search_loop r g avoid src target k st =
     (case heappop (heap st) of
        None \<Rightarrow> Some (Inr (None, k))
      | Some ((c, s), h) \<Rightarrow>
          if s = target
          then (case reconstruct r (parents st) src target k of
                  None \<Rightarrow> None
                | Some (Inl err) \<Rightarrow> Some (Inl err)
                | Some (Inr (p, k')) \<Rightarrow> Some (Inr (Some p, k')))
          else if (case dist st s of None \<Rightarrow> False | Some d \<Rightarrow> d < c)
          then search_loop r g avoid src target k (st\<lparr>heap := h\<rparr>)
          else (case relax_edges avoid c (edges_from g s) (st\<lparr>heap := h\<rparr>) of
                  Inl err \<Rightarrow> Some (Inl err)
                | Inr st' \<Rightarrow> search_loop r g avoid src target k st'))"

definition init_search :: "State \<Rightarrow> 'i search_state" where
  "init_search src = \<lparr>dist = [src \<mapsto> 0], parents = [src \<mapsto> []], heap = [(0, src)]\<rparr>"

definition shortest_path ::
    "(nat \<Rightarrow> nat) \<Rightarrow> nat \<Rightarrow> 'i StateGraph \<Rightarrow> State \<Rightarrow> State \<Rightarrow> StateTransition set \<Rightarrow>
       (py_error + 'i edge list option \<times> nat) option" where
  "shortest_path r k g src target avoid =
     (if src = target then Some (Inr (Some [], k))
      else search_loop r g avoid src target k (init_search src))"

declare rebuild_path.simps [code] search_loop.simps [code]

end
