(* ===== verification/Sched_Graph_Correct.thy ===== *)
theory Sched_Graph_Correct
  imports Sched_Graph
begin

text \<open>
  Correctness of the scheduler's path search: with positive edge costs the search returns,
  raises nothing, and answers with a cheapest path or with \<open>None\<close> exactly when there is no
  path. The proof is an invariant of the heap loop over the settled states and a
  lexicographic measure (undiscovered states, total distance, heap size).
\<close>

section \<open>Paths\<close>

definition usable :: "'i StateGraph \<Rightarrow> StateTransition set \<Rightarrow> 'i edge \<Rightarrow> bool" where
  "usable g avoid e \<longleftrightarrow> e \<in> set (edges_from g (from_state (fst e))) \<and> fst e \<notin> avoid"

fun is_path :: "'i StateGraph \<Rightarrow> StateTransition set \<Rightarrow> State \<Rightarrow> 'i edge list \<Rightarrow> State \<Rightarrow> bool" where
  "is_path g avoid a [] b \<longleftrightarrow> a = b"
| "is_path g avoid a (e # es) b \<longleftrightarrow>
     from_state (fst e) = a \<and> usable g avoid e \<and> is_path g avoid (to_state (fst e)) es b"

definition path_cost :: "'i edge list \<Rightarrow> int" where
  "path_cost p = sum_list (map (\<lambda>e. cost (fst e)) p)"

text \<open>Every edge is stored under its source state, and costs something.\<close>

definition graph_ok :: "'i StateGraph \<Rightarrow> bool" where
  "graph_ok g \<longleftrightarrow> (\<forall>s. \<forall>e \<in> set (edges_from g s). from_state (fst e) = s)"

definition positive_costs :: "'i StateGraph \<Rightarrow> bool" where
  "positive_costs g \<longleftrightarrow> (\<forall>s. \<forall>e \<in> set (edges_from g s). 0 < cost (fst e))"

lemma is_path_append:
  "is_path g avoid a (p @ q) b \<longleftrightarrow> (\<exists>m. is_path g avoid a p m \<and> is_path g avoid m q b)"
  by (induction p arbitrary: a) auto

lemma path_cost_simps [simp]:
  "path_cost [] = 0"
  "path_cost (e # p) = cost (fst e) + path_cost p"
  "path_cost (p @ q) = path_cost p + path_cost q"
  by (simp_all add: path_cost_def)

lemma usable_positive: "positive_costs g \<Longrightarrow> usable g avoid e \<Longrightarrow> 0 < cost (fst e)"
  by (auto simp: positive_costs_def usable_def)

lemma path_cost_nonneg: "positive_costs g \<Longrightarrow> is_path g avoid a p b \<Longrightarrow> 0 \<le> path_cost p"
proof (induction p arbitrary: a)
  case (Cons e p)
  then have "0 < cost (fst e)" and "0 \<le> path_cost p"
    by (auto intro: usable_positive)
  then show ?case by simp
qed simp

lemma edges_from_register:
  "edges_from (register_transition t i g) s = edges_from g s @ (if s = from_state t then [(t, i)] else [])"
  by (simp add: edges_from_def register_transition_def dict_get_append)

lemma graph_ok_register: "graph_ok g \<Longrightarrow> graph_ok (register_transition t i g)"
  by (auto simp: graph_ok_def edges_from_register)

lemma positive_costs_register:
  "positive_costs g \<Longrightarrow> 0 < cost t \<Longrightarrow> positive_costs (register_transition t i g)"
  by (auto simp: positive_costs_def edges_from_register)

lemma graph_ok_Nil [simp]: "graph_ok []" and positive_costs_Nil [simp]: "positive_costs []"
  by (simp_all add: graph_ok_def positive_costs_def edges_from_def dict_get_default_def)

section \<open>The invariant of the search\<close>

text \<open>
  \<open>S\<close> are the settled states, \<open>R\<close> the relaxed edges. Every discovered, unsettled state has
  its current distance in the heap; every heap entry is an upper bound of a distance and is
  not below the distance of a settled state; recorded parents realise the recorded distance.
\<close>

definition parents_ok ::
    "'i StateGraph \<Rightarrow> StateTransition set \<Rightarrow> State \<Rightarrow> State set \<Rightarrow> 'i search_state \<Rightarrow> bool" where
  "parents_ok g avoid src S st \<longleftrightarrow>
     (\<forall>v d. dist st v = Some d \<and> v \<noteq> src \<longrightarrow>
        (\<exists>ps. parents st v = Some ps \<and> ps \<noteq> [] \<and>
           (\<forall>e \<in> set ps. to_state (fst e) = v \<and> usable g avoid e \<and> from_state (fst e) \<in> S \<and>
              dist st (from_state (fst e)) = Some (d - cost (fst e)))))"

definition search_inv ::
    "'i StateGraph \<Rightarrow> StateTransition set \<Rightarrow> State \<Rightarrow> State set \<Rightarrow> 'i edge set \<Rightarrow> 'i search_state \<Rightarrow> bool" where
  "search_inv g avoid src S R st \<longleftrightarrow>
     dist st src = Some 0 \<and>
     (\<forall>v d. dist st v = Some d \<longrightarrow> 0 \<le> d \<and> parents st v \<noteq> None) \<and>
     (\<forall>v \<in> S. dist st v \<noteq> None) \<and>
     (\<forall>e \<in> R. from_state (fst e) \<in> S \<and>
        (\<exists>d'. dist st (to_state (fst e)) = Some d' \<and>
           d' \<le> the (dist st (from_state (fst e))) + cost (fst e))) \<and>
     (\<forall>v d. dist st v = Some d \<and> v \<notin> S \<longrightarrow> (d, v) \<in> set (heap st)) \<and>
     (\<forall>(c, v) \<in> set (heap st). (\<exists>d. dist st v = Some d \<and> d \<le> c) \<and>
        (\<forall>u \<in> S. the (dist st u) \<le> c)) \<and>
     parents_ok g avoid src S st \<and>
     sorted (heap st)"

lemma search_invD:
  assumes "search_inv g avoid src S R st"
  shows "dist st src = Some 0"
    and "dist st v = Some d \<Longrightarrow> 0 \<le> d"
    and "dist st v = Some d \<Longrightarrow> \<exists>ps. parents st v = Some ps"
    and "v \<in> S \<Longrightarrow> \<exists>d. dist st v = Some d"
    and "e \<in> R \<Longrightarrow> from_state (fst e) \<in> S"
    and "e \<in> R \<Longrightarrow> \<exists>d'. dist st (to_state (fst e)) = Some d' \<and>
           d' \<le> the (dist st (from_state (fst e))) + cost (fst e)"
    and "dist st v = Some d \<Longrightarrow> v \<notin> S \<Longrightarrow> (d, v) \<in> set (heap st)"
    and "(c, v) \<in> set (heap st) \<Longrightarrow> \<exists>d. dist st v = Some d \<and> d \<le> c"
    and "(c, v) \<in> set (heap st) \<Longrightarrow> u \<in> S \<Longrightarrow> the (dist st u) \<le> c"
    and "parents_ok g avoid src S st"
    and "sorted (heap st)"
  using assms unfolding search_inv_def by (blast | fastforce)+

lemma search_invI:
  assumes "dist st src = Some 0"
    and "\<And>v d. dist st v = Some d \<Longrightarrow> 0 \<le> d \<and> parents st v \<noteq> None"
    and "\<And>v. v \<in> S \<Longrightarrow> dist st v \<noteq> None"
    and "\<And>e. e \<in> R \<Longrightarrow> from_state (fst e) \<in> S \<and>
        (\<exists>d'. dist st (to_state (fst e)) = Some d' \<and>
           d' \<le> the (dist st (from_state (fst e))) + cost (fst e))"
    and "\<And>v d. dist st v = Some d \<Longrightarrow> v \<notin> S \<Longrightarrow> (d, v) \<in> set (heap st)"
    and "\<And>c v. (c, v) \<in> set (heap st) \<Longrightarrow> (\<exists>d. dist st v = Some d \<and> d \<le> c) \<and>
        (\<forall>u \<in> S. the (dist st u) \<le> c)"
    and "parents_ok g avoid src S st"
    and "sorted (heap st)"
  shows "search_inv g avoid src S R st"
  using assms unfolding search_inv_def by blast

lemma init_search_inv: "search_inv g avoid src {} {} (init_search src)"
  by (auto simp: search_inv_def init_search_def parents_ok_def split: if_splits)

text \<open>Settling a popped, current entry.\<close>

lemma settle_inv:
  assumes inv: "search_inv g avoid src S R st" and hp: "heap st = (c, u) # h"
    and cur: "\<not> (\<exists>d. dist st u = Some d \<and> d < c)"
  shows "search_inv g avoid src (insert u S) R (st\<lparr>heap := h\<rparr>)"
    and "dist st u = Some c"
    and "v \<in> S \<Longrightarrow> the (dist st v) \<le> c"
proof -
  have mem: "(c, u) \<in> set (heap st)" by (simp add: hp)
  obtain d where "dist st u = Some d" "d \<le> c" using search_invD(8) [OF inv mem] by blast
  with cur show du: "dist st u = Some c" by auto
  show "the (dist st v) \<le> c" if "v \<in> S" for v using search_invD(9) [OF inv mem that] .
  have le: "c \<le> c'" if "(c', v) \<in> set h" for c' v
  proof -
    have "(c, u) \<le> (c', v)" using search_invD(11) [OF inv] that by (auto simp: hp)
    then show ?thesis by auto
  qed
  have ne: "(d, v) \<in> set h" if "dist st v = Some d" "v \<notin> S" "v \<noteq> u" for d v
    using search_invD(7) [OF inv that(1,2)] that(3) by (auto simp: hp)
  have up: "\<exists>d. dist st v = Some d \<and> d \<le> c'" if "(c', v) \<in> set h" for c' v
    using search_invD(8) [OF inv, of c' v] that by (simp add: hp)
  have lo: "the (dist st w) \<le> c'" if "(c', v) \<in> set h" "w \<in> S" for c' v w
    using search_invD(9) [OF inv, of c' v w] that by (simp add: hp)
  have par: "parents_ok g avoid src (insert u S) (st\<lparr>heap := h\<rparr>)"
    using search_invD(10) [OF inv] by (fastforce simp: parents_ok_def)
  show "search_inv g avoid src (insert u S) R (st\<lparr>heap := h\<rparr>)"
    unfolding search_inv_def
    using search_invD(1-6) [OF inv] search_invD(11) [OF inv] du le ne up lo par
    by (auto simp: hp)
qed

text \<open>Dropping a stale entry.\<close>

lemma drop_stale_inv:
  assumes inv: "search_inv g avoid src S R st" and hp: "heap st = (c, u) # h"
    and stale: "dist st u = Some d" "d < c"
  shows "search_inv g avoid src S R (st\<lparr>heap := h\<rparr>)"
proof -
  have ne: "(d', v) \<in> set h" if "dist st v = Some d'" "v \<notin> S" for d' v
    using search_invD(7) [OF inv that] that stale by (auto simp: hp)
  have up: "\<exists>d. dist st v = Some d \<and> d \<le> c'" if "(c', v) \<in> set h" for c' v
    using search_invD(8) [OF inv, of c' v] that by (simp add: hp)
  have lo: "the (dist st w) \<le> c'" if "(c', v) \<in> set h" "w \<in> S" for c' v w
    using search_invD(9) [OF inv, of c' v w] that by (simp add: hp)
  have par: "parents_ok g avoid src S (st\<lparr>heap := h\<rparr>)"
    using search_invD(10) [OF inv] by (simp add: parents_ok_def)
  show ?thesis
    unfolding search_inv_def
    using search_invD(1-6) [OF inv] search_invD(11) [OF inv] ne up lo par
    by (auto simp: hp)
qed

section \<open>Relaxing an edge\<close>

lemma parents_ok_improve:
  assumes "parents_ok g avoid src S st" and "to_state (fst e) \<notin> S" and "usable g avoid e"
    and "from_state (fst e) \<in> S" and "dist st (from_state (fst e)) = Some c"
  shows "parents_ok g avoid src S (st\<lparr>dist := (dist st)(to_state (fst e) \<mapsto> c + cost (fst e)),
    heap := h, parents := (parents st)(to_state (fst e) \<mapsto> [e])\<rparr>)"
  unfolding parents_ok_def
proof (intro allI impI, elim conjE, goal_cases)
  case (1 v d)
  show ?case
  proof (cases "v = to_state (fst e)")
    case True
    with 1 assms show ?thesis by auto
  next
    case False
    with 1 have "dist st v = Some d" by simp
    with 1(2) assms(1) obtain ps where "parents st v = Some ps" "ps \<noteq> []"
      "\<forall>x \<in> set ps. to_state (fst x) = v \<and> usable g avoid x \<and> from_state (fst x) \<in> S \<and>
         dist st (from_state (fst x)) = Some (d - cost (fst x))"
      unfolding parents_ok_def by blast
    with False assms(2) show ?thesis by auto
  qed
qed

lemma parents_ok_tie:
  assumes "parents_ok g avoid src S st" and "usable g avoid e" and "parents st (to_state (fst e)) = Some ps"
    and "from_state (fst e) \<in> S" and "dist st (from_state (fst e)) = Some c"
    and "dist st (to_state (fst e)) = Some (c + cost (fst e))"
  shows "parents_ok g avoid src S (st\<lparr>parents := (parents st)(to_state (fst e) \<mapsto> ps @ [e])\<rparr>)"
  using assms unfolding parents_ok_def by (auto split: if_splits) force+

text \<open>A shorter way to an unsettled state was found.\<close>

lemma improve_inv:
  assumes inv: "search_inv g avoid src S R st" and u: "from_state (fst e) \<in> S" "dist st (from_state (fst e)) = Some c"
    and far: "\<And>v. v \<in> S \<Longrightarrow> the (dist st v) \<le> c"
    and e: "usable g avoid e" "0 < cost (fst e)"
    and v: "v = to_state (fst e)" "v \<notin> S" "v \<noteq> src" and n: "n = c + cost (fst e)"
    and better: "\<And>d. dist st v = Some d \<Longrightarrow> n \<le> d"
  shows "search_inv g avoid src S (insert e R)
    (st\<lparr>dist := (dist st)(v \<mapsto> n), heap := heappush (n, v) (heap st), parents := (parents st)(v \<mapsto> [e])\<rparr>)"
    (is "search_inv _ _ _ _ _ ?st")
proof (rule search_invI)
  show "dist ?st src = Some 0" using search_invD(1) [OF inv] v by simp
next
  fix w d assume "dist ?st w = Some d"
  then show "0 \<le> d \<and> parents ?st w \<noteq> None"
    using search_invD(2,3) [OF inv] e(2) n u(2) by (fastforce split: if_splits)
next
  fix x assume "x \<in> insert e R"
  then show "from_state (fst x) \<in> S \<and> (\<exists>d'. dist ?st (to_state (fst x)) = Some d' \<and>
      d' \<le> the (dist ?st (from_state (fst x))) + cost (fst x))"
    using search_invD(5,6) [OF inv, of x] v better u n by auto
next
  fix w d assume "dist ?st w = Some d" "w \<notin> S"
  then show "(d, w) \<in> set (heap ?st)"
    using search_invD(7) [OF inv] by (auto simp: heappush_def set_insort_key split: if_splits)
next
  fix c' w assume in_h: "(c', w) \<in> set (heap ?st)"
  show "(\<exists>d. dist ?st w = Some d \<and> d \<le> c') \<and> (\<forall>u\<in>S. the (dist ?st u) \<le> c')"
  proof (cases "(c', w) \<in> set (heap st)")
    case True
    with search_invD(8,9) [OF inv True] v(2) better show ?thesis by auto
  next
    case False
    with in_h have "c' = n" "w = v" by (auto simp: heappush_def set_insort_key)
    with far v(2) n e(2) show ?thesis by fastforce
  qed
next
  show "parents_ok g avoid src S ?st"
    using parents_ok_improve [OF search_invD(10) [OF inv] _ e(1) u] v n by simp
next
  show "sorted (heap ?st)"
    using hq.ok_push [OF search_invD(11) [OF inv]] by simp
qed (use search_invD(4) [OF inv] in auto)

text \<open>Another way of the same cost was found, or a worse one.\<close>

lemma tie_inv:
  assumes inv: "search_inv g avoid src S R st" and u: "from_state (fst e) \<in> S" "dist st (from_state (fst e)) = Some c"
    and d: "dist st (to_state (fst e)) = Some d" "d \<le> c + cost (fst e)"
    and par: "parents_ok g avoid src S (st\<lparr>parents := q\<rparr>)" and dom: "\<And>v. parents st v \<noteq> None \<Longrightarrow> q v \<noteq> None"
  shows "search_inv g avoid src S (insert e R) (st\<lparr>parents := q\<rparr>)"
proof -
  have "q v \<noteq> None" if "dist st v = Some d'" for v d'
    using dom search_invD(3) [OF inv that] by auto
  then show ?thesis
    using inv par u d unfolding search_inv_def by auto
qed

lemma relax_edge_inv:
  assumes inv: "search_inv g avoid src S R st" and u: "from_state (fst e) \<in> S" "dist st (from_state (fst e)) = Some c"
    and far: "\<And>v. v \<in> S \<Longrightarrow> the (dist st v) \<le> c"
    and e: "usable g avoid e" "0 < cost (fst e)"
  obtains st' where "relax_edge avoid c e st = Inr st'" "search_inv g avoid src S (insert e R) st'"
    "\<And>v. v \<in> S \<Longrightarrow> dist st' v = dist st v"
proof -
  let ?v = "to_state (fst e)" and ?n = "c + cost (fst e)"
  have c0: "0 \<le> c" using search_invD(2) [OF inv u(2)] .
  have ok: "fst e \<notin> avoid" using e by (simp add: usable_def)
  consider (better) "\<And>d. dist st ?v = Some d \<Longrightarrow> ?n < d"
    | (tie) "dist st ?v = Some ?n" | (worse) d where "dist st ?v = Some d" "d < ?n"
    by (cases "dist st ?v") (auto, metis linorder_less_linear)
  then show ?thesis
  proof cases
    case better
    have vS: "?v \<notin> S"
    proof
      assume "?v \<in> S"
      with search_invD(4) [OF inv] obtain d where "dist st ?v = Some d" by blast
      with better [of d] far [OF \<open>?v \<in> S\<close>] e(2) show False by simp
    qed
    moreover have "?v \<noteq> src" using better [of 0] search_invD(1) [OF inv] c0 e(2) by auto
    ultimately have inv': "search_inv g avoid src S (insert e R) (st\<lparr>dist := (dist st)(?v \<mapsto> ?n),
        heap := heappush (?n, ?v) (heap st), parents := (parents st)(?v \<mapsto> [e])\<rparr>)"
      using better by (intro improve_inv [OF inv u far e refl _ _ refl]) (auto simp: less_imp_le)
    have step: "relax_edge avoid c e st = Inr (st\<lparr>dist := (dist st)(?v \<mapsto> ?n),
        heap := heappush (?n, ?v) (heap st), parents := (parents st)(?v \<mapsto> [e])\<rparr>)"
      using better ok by (auto simp: relax_edge_def Let_def split: option.splits)
    show ?thesis using vS by (intro that [OF step inv']) auto
  next
    case tie
    obtain ps where ps: "parents st ?v = Some ps" using search_invD(3) [OF inv tie] by blast
    have step: "relax_edge avoid c e st = Inr (st\<lparr>parents := (parents st)(?v \<mapsto> ps @ [e])\<rparr>)"
      using tie ps ok by (simp add: relax_edge_def Let_def fun_upd_idem)
    show ?thesis
      using tie_inv [OF inv u tie order_refl parents_ok_tie [OF search_invD(10) [OF inv] e(1) ps u tie]]
      by (intro that [OF step]) auto
  next
    case worse
    then have step: "relax_edge avoid c e st = Inr st" using ok by (simp add: relax_edge_def Let_def)
    show ?thesis
      using tie_inv [OF inv u worse(1), of "parents st"] worse(2) search_invD(10) [OF inv]
      by (intro that [OF step]) auto
  qed
qed

lemma relax_edges_inv:
  assumes inv: "search_inv g avoid src S R st" and u: "u \<in> S" "dist st u = Some c"
    and far: "\<And>v. v \<in> S \<Longrightarrow> the (dist st v) \<le> c"
    and es: "\<And>e. e \<in> set es \<Longrightarrow> e \<in> set (edges_from g u) \<and> from_state (fst e) = u \<and> 0 < cost (fst e)"
  shows "\<exists>st'. relax_edges avoid c es st = Inr st' \<and>
    search_inv g avoid src S (R \<union> {e \<in> set es. fst e \<notin> avoid}) st'"
  using inv u far es
proof (induction es arbitrary: R st)
  case (Cons e es)
  note e = Cons.prems(5) [of e, simplified]
  show ?case
  proof (cases "fst e \<in> avoid")
    case True
    then have "{x. (x = e \<or> x \<in> set es) \<and> fst x \<notin> avoid} = {x \<in> set es. fst x \<notin> avoid}" by auto
    with True Cons show ?thesis by (simp add: relax_edge_def)
  next
    case False
    with e have "usable g avoid e" by (simp add: usable_def)
    then obtain st1 where st1: "relax_edge avoid c e st = Inr st1"
      "search_inv g avoid src S (insert e R) st1" "\<And>v. v \<in> S \<Longrightarrow> dist st1 v = dist st v"
      using relax_edge_inv [OF Cons.prems(1), of e c] Cons.prems(2-4) e by auto
    have "R \<union> {x \<in> set (e # es). fst x \<notin> avoid} = insert e R \<union> {x \<in> set es. fst x \<notin> avoid}"
      using False by auto
    with Cons.IH [OF st1(2)] Cons.prems st1 show ?thesis by simp
  qed
qed auto

section \<open>The measure\<close>

definition undiscovered :: "'i search_state \<Rightarrow> nat" where
  "undiscovered st = card {s. dist st s = None}"

definition total_dist :: "'i search_state \<Rightarrow> nat" where
  "total_dist st = (\<Sum>s \<in> UNIV. nat (case dist st s of None \<Rightarrow> 0 | Some d \<Rightarrow> d))"

definition search_rank :: "'i search_state \<Rightarrow> nat \<times> nat \<times> nat" where
  "search_rank st = (undiscovered st, total_dist st, length (heap st))"

lemma rank_discover:
  assumes "dist st v = None"
  shows "search_rank (st\<lparr>dist := (dist st)(v \<mapsto> n), heap := h, parents := q\<rparr>) < search_rank st"
proof -
  have "{s. ((dist st)(v \<mapsto> n)) s = None} \<subset> {s. dist st s = None}" using assms by auto
  then have "card {s. ((dist st)(v \<mapsto> n)) s = None} < card {s. dist st s = None}"
    by (intro psubset_card_mono) auto
  then show ?thesis by (simp add: search_rank_def undiscovered_def)
qed

lemma rank_improve:
  assumes "dist st v = Some d" and "0 \<le> n" and "n < d"
  shows "search_rank (st\<lparr>dist := (dist st)(v \<mapsto> n), heap := h, parents := q\<rparr>) < search_rank st"
proof -
  have "{s. ((dist st)(v \<mapsto> n)) s = None} = {s. dist st s = None}" using assms by auto
  moreover have "(\<Sum>s \<in> UNIV. nat (case ((dist st)(v \<mapsto> n)) s of None \<Rightarrow> 0 | Some d \<Rightarrow> d))
      < (\<Sum>s \<in> UNIV. nat (case dist st s of None \<Rightarrow> 0 | Some d \<Rightarrow> d))"
    using assms by (intro sum_strict_mono_ex1) (auto intro!: bexI [of _ v])
  ultimately show ?thesis by (simp add: search_rank_def undiscovered_def total_dist_def)
qed

lemma relax_edge_rank:
  assumes "relax_edge avoid c e st = Inr st'" and "0 \<le> c" and "0 < cost (fst e)"
  shows "search_rank st' \<le> search_rank st"
proof -
  let ?v = "to_state (fst e)" and ?n = "c + cost (fst e)"
  consider "dist st' = dist st" "heap st' = heap st"
    | ps h where "st' = st\<lparr>dist := (dist st)(?v \<mapsto> ?n), heap := h, parents := ps\<rparr>"
        "dist st ?v = None \<or> (\<exists>d. dist st ?v = Some d \<and> ?n < d)"
    using assms(1)
    by (auto simp: relax_edge_def Let_def split: if_splits option.splits) fastforce+
  then show ?thesis
  proof cases
    case 1
    then show ?thesis by (simp add: search_rank_def undiscovered_def total_dist_def)
  next
    case 2
    then show ?thesis
      using assms(2,3) by (auto intro: less_imp_le [OF rank_discover] less_imp_le [OF rank_improve])
  qed
qed

lemma relax_edges_rank:
  assumes "relax_edges avoid c es st = Inr st'" and "0 \<le> c" and "\<And>e. e \<in> set es \<Longrightarrow> 0 < cost (fst e)"
  shows "search_rank st' \<le> search_rank st"
  using assms
proof (induction es arbitrary: st)
  case (Cons e es)
  from Cons.prems(1) obtain st1 where "relax_edge avoid c e st = Inr st1" "relax_edges avoid c es st1 = Inr st'"
    by (auto simp: bind_result_Inr_iff)
  with Cons relax_edge_rank [of avoid c e st st1] show ?case
    by (metis list.set_intros order_trans)
qed simp

lemma rank_pop: "heap st = x # h \<Longrightarrow> search_rank (st\<lparr>heap := h\<rparr>) < search_rank st"
  by (simp add: search_rank_def undiscovered_def total_dist_def)

section \<open>Reconstruction\<close>

lemma random_choice_mem: "xs \<noteq> [] \<Longrightarrow> \<exists>x. random_choice r k xs = Inr x \<and> x \<in> set xs"
  by (auto simp: random_choice_def)

lemma rebuild_path_ok:
  assumes inv: "search_inv g avoid src S R st" and pos: "positive_costs g"
  shows "dist st (from_state (fst e)) = Some d \<Longrightarrow> is_path g avoid (from_state (fst e)) (e # acc) b \<Longrightarrow>
    \<exists>p k'. rebuild_path r (parents st) src k (e # acc) = Some (Inr (p, k')) \<and>
      is_path g avoid src p b \<and> path_cost p = d + path_cost (e # acc)"
proof (induction "nat d" arbitrary: d e acc k rule: less_induct)
  case less
  let ?u = "from_state (fst e)"
  show ?case
  proof (cases "?u = src")
    case True
    with less.prems search_invD(1) [OF inv] show ?thesis
      by (auto simp: rebuild_path.simps)
  next
    case False
    with less.prems(1) search_invD(10) [OF inv] obtain ps where ps: "parents st ?u = Some ps" "ps \<noteq> []"
      "\<forall>x \<in> set ps. to_state (fst x) = ?u \<and> usable g avoid x \<and>
         dist st (from_state (fst x)) = Some (d - cost (fst x))"
      unfolding parents_ok_def by blast
    obtain x where x: "random_choice r k ps = Inr x" "x \<in> set ps"
      using random_choice_mem [OF ps(2)] by blast
    have ux: "to_state (fst x) = ?u" "usable g avoid x" "dist st (from_state (fst x)) = Some (d - cost (fst x))"
      using ps(3) x(2) by auto
    have "nat (d - cost (fst x)) < nat d"
      using usable_positive [OF pos ux(2)] search_invD(2) [OF inv ux(3)] by auto
    moreover have "is_path g avoid (from_state (fst x)) (x # e # acc) b"
      using ux less.prems(2) by simp
    ultimately obtain p k' where "rebuild_path r (parents st) src (Suc k) (x # e # acc) = Some (Inr (p, k'))"
      "is_path g avoid src p b" "path_cost p = d - cost (fst x) + path_cost (x # e # acc)"
      using less.hyps [OF _ ux(3)] by blast
    with False ps(1) x(1) show ?thesis by (subst rebuild_path.simps) simp
  qed
qed

lemma reconstruct_ok:
  assumes inv: "search_inv g avoid src S R st" and pos: "positive_costs g"
    and d: "dist st b = Some d" "b \<noteq> src"
  shows "\<exists>p k'. reconstruct r (parents st) src b k = Some (Inr (p, k')) \<and>
    is_path g avoid src p b \<and> path_cost p = d"
proof -
  from d search_invD(10) [OF inv] obtain ps where ps: "parents st b = Some ps" "ps \<noteq> []"
    "\<forall>x \<in> set ps. to_state (fst x) = b \<and> usable g avoid x \<and>
       dist st (from_state (fst x)) = Some (d - cost (fst x))"
    unfolding parents_ok_def by blast
  obtain x where x: "random_choice r k ps = Inr x" "x \<in> set ps"
    using random_choice_mem [OF ps(2)] by blast
  have "\<exists>p k'. rebuild_path r (parents st) src (Suc k) [x] = Some (Inr (p, k')) \<and>
      is_path g avoid src p b \<and> path_cost p = d - cost (fst x) + path_cost [x]"
    using ps(3) x(2) by (intro rebuild_path_ok [OF inv pos]) auto
  with ps(1) x(1) show ?thesis by (simp add: reconstruct_def)
qed

section \<open>The loop\<close>

text \<open>Any path out of the settled states costs at least some unsettled distance.\<close>

lemma path_leaves_settled:
  assumes inv: "search_inv g avoid src S R st" and R: "R = {e. usable g avoid e \<and> from_state (fst e) \<in> S}"
    and pos: "positive_costs g"
  shows "is_path g avoid src p b \<Longrightarrow> (b \<in> S \<and> the (dist st b) \<le> path_cost p) \<or>
    (\<exists>v d. v \<notin> S \<and> dist st v = Some d \<and> d \<le> path_cost p)"
proof (induction p arbitrary: b rule: rev_induct)
  case Nil
  then show ?case using search_invD(1) [OF inv] by (cases "b \<in> S") auto
next
  case (snoc e p)
  from snoc.prems have e: "is_path g avoid src p (from_state (fst e))" "usable g avoid e" "to_state (fst e) = b"
    by (auto simp: is_path_append)
  have c: "0 < cost (fst e)" using usable_positive [OF pos e(2)] .
  show ?case
  proof (cases "from_state (fst e) \<in> S")
    case True
    then have "e \<in> R" using R e(2) by simp
    from search_invD(6) [OF inv this] obtain d' where
      d': "dist st b = Some d'" "d' \<le> the (dist st (from_state (fst e))) + cost (fst e)"
      using e(3) by auto
    from snoc.IH [OF e(1)] show ?thesis
    proof
      assume "from_state (fst e) \<in> S \<and> the (dist st (from_state (fst e))) \<le> path_cost p"
      with d' show ?thesis by (cases "b \<in> S") auto
    next
      assume "\<exists>v d. v \<notin> S \<and> dist st v = Some d \<and> d \<le> path_cost p"
      with c show ?thesis by fastforce
    qed
  next
    case False
    with snoc.IH [OF e(1)] c show ?thesis by fastforce
  qed
qed

definition path_answer :: "'i StateGraph \<Rightarrow> StateTransition set \<Rightarrow> State \<Rightarrow> State \<Rightarrow> 'i edge list option \<Rightarrow> bool" where
  "path_answer g avoid src target res \<longleftrightarrow>
     (case res of
        None \<Rightarrow> \<nexists>p. is_path g avoid src p target
      | Some p \<Rightarrow> is_path g avoid src p target \<and>
          (\<forall>q. is_path g avoid src q target \<longrightarrow> path_cost p \<le> path_cost q))"

lemma heap_empty_answer:
  assumes inv: "search_inv g avoid src S R st" and R: "R = {e. usable g avoid e \<and> from_state (fst e) \<in> S}"
    and pos: "positive_costs g" and b: "b \<notin> S" and hp: "heap st = []"
  shows "path_answer g avoid src b None"
  using path_leaves_settled [OF inv R pos, of _ b] search_invD(7) [OF inv] b hp
  by (auto simp: path_answer_def)

lemma popped_target_answer:
  assumes inv: "search_inv g avoid src S R st" and R: "R = {e. usable g avoid e \<and> from_state (fst e) \<in> S}"
    and pos: "positive_costs g" and b: "b \<notin> S" "b \<noteq> src" and hp: "heap st = (c, b) # h"
  shows "\<exists>p k'. reconstruct r (parents st) src b k = Some (Inr (p, k')) \<and>
    path_answer g avoid src b (Some p)"
proof -
  have least: "c \<le> c'" if "(c', v) \<in> set (heap st)" for c' v
  proof -
    have "(c, b) \<le> (c', v)" using search_invD(11) [OF inv] that by (auto simp: hp)
    then show ?thesis by auto
  qed
  obtain d where d: "dist st b = Some d" "d \<le> c" using search_invD(8) [OF inv, of c b] hp by auto
  with least search_invD(7) [OF inv d(1) b(1)] have dc: "d = c" by fastforce
  have min: "d \<le> path_cost q" if "is_path g avoid src q b" for q
    using path_leaves_settled [OF inv R pos that] b(1) search_invD(7) [OF inv] least dc by fastforce
  from reconstruct_ok [OF inv pos d(1) b(2)] min show ?thesis by (fastforce simp: path_answer_def)
qed

lemma settle_relax_inv:
  assumes inv: "search_inv g avoid src S R st" and R: "R = {e. usable g avoid e \<and> from_state (fst e) \<in> S}"
    and ok: "graph_ok g" and pos: "positive_costs g" and hp: "heap st = (c, u) # h"
    and cur: "\<not> (\<exists>d. dist st u = Some d \<and> d < c)"
  obtains st' where "relax_edges avoid c (edges_from g u) (st\<lparr>heap := h\<rparr>) = Inr st'"
    "search_inv g avoid src (insert u S) {e. usable g avoid e \<and> from_state (fst e) \<in> insert u S} st'"
    "search_rank st' < search_rank st"
proof -
  note settled = settle_inv [OF inv hp cur]
  have es: "e \<in> set (edges_from g u) \<Longrightarrow> from_state (fst e) = u \<and> 0 < cost (fst e)" for e
    using ok pos by (auto simp: graph_ok_def positive_costs_def)
  have far: "the (dist (st\<lparr>heap := h\<rparr>) v) \<le> c" if "v \<in> insert u S" for v
    using that settled(2,3) by auto
  obtain st' where st': "relax_edges avoid c (edges_from g u) (st\<lparr>heap := h\<rparr>) = Inr st'"
    "search_inv g avoid src (insert u S) (R \<union> {e \<in> set (edges_from g u). fst e \<notin> avoid}) st'"
    using relax_edges_inv [OF settled(1) _ _ far, of u "edges_from g u"] settled(2) es by auto
  have "R \<union> {e \<in> set (edges_from g u). fst e \<notin> avoid} =
      {e. usable g avoid e \<and> from_state (fst e) \<in> insert u S}"
    using es by (auto simp: R usable_def)
  moreover have "search_rank st' < search_rank st"
    using relax_edges_rank [OF st'(1)] search_invD(2) [OF inv settled(2)] es rank_pop [OF hp]
    by (meson order_le_less_trans)
  ultimately show ?thesis using that st' by simp
qed

lemma search_loop_ok:
  assumes "search_inv g avoid src S {e. usable g avoid e \<and> from_state (fst e) \<in> S} st"
    and ok: "graph_ok g" and pos: "positive_costs g" and "b \<notin> S" and b: "b \<noteq> src"
  shows "\<exists>res k'. search_loop r g avoid src b k st = Some (Inr (res, k')) \<and> path_answer g avoid src b res"
  using assms(1,4)
proof (induction "search_rank st" arbitrary: st S rule: less_induct)
  case less
  note inv = less.prems(1)
  show ?case
  proof (cases "heap st")
    case Nil
    with heap_empty_answer [OF inv refl pos less.prems(2)] show ?thesis
      by (simp add: search_loop.simps)
  next
    case (Cons x h)
    obtain c u where hp: "heap st = (c, u) # h" using Cons by (cases x) auto
    consider (target) "u = b" | (stale) d where "u \<noteq> b" "dist st u = Some d" "d < c"
      | (settle) "u \<noteq> b" "\<not> (\<exists>d. dist st u = Some d \<and> d < c)" by blast
    then show ?thesis
    proof cases
      case target
      with popped_target_answer [OF inv refl pos less.prems(2) b, of c h r k] hp show ?thesis
        by (subst search_loop.simps) auto
    next
      case stale
      have "\<exists>res k'. search_loop r g avoid src b k (st\<lparr>heap := h\<rparr>) = Some (Inr (res, k')) \<and>
          path_answer g avoid src b res"
        using drop_stale_inv [OF inv hp stale(2,3)] rank_pop [OF hp] less.prems(2)
        by (intro less.hyps) auto
      with stale hp show ?thesis by (subst search_loop.simps) simp
    next
      case settle
      obtain st' where st': "relax_edges avoid c (edges_from g u) (st\<lparr>heap := h\<rparr>) = Inr st'"
        "search_inv g avoid src (insert u S) {e. usable g avoid e \<and> from_state (fst e) \<in> insert u S} st'"
        "search_rank st' < search_rank st"
        using settle_relax_inv [OF inv refl ok pos hp settle(2)] by blast
      then have "\<exists>res k'. search_loop r g avoid src b k st' = Some (Inr (res, k')) \<and>
          path_answer g avoid src b res"
        using settle(1) less.prems(2) by (intro less.hyps [of _ "insert u S"]) auto
      with settle hp st'(1) show ?thesis by (subst search_loop.simps) (auto split: option.splits)
    qed
  qed
qed

lemma shortest_path_total:
  assumes "graph_ok g" and "positive_costs g"
  shows "\<exists>res k'. shortest_path r k g src b avoid = Some (Inr (res, k')) \<and> path_answer g avoid src b res"
proof (cases "src = b")
  case True
  then show ?thesis
    using path_cost_nonneg [OF assms(2)] by (auto simp: shortest_path_def path_answer_def)
next
  case False
  have "search_inv g avoid src {} {e. usable g avoid e \<and> from_state (fst e) \<in> {}} (init_search src)"
    using init_search_inv by auto
  from search_loop_ok [OF this assms] False show ?thesis by (simp add: shortest_path_def)
qed

section \<open>Properties\<close>

text \<open>
  C10. With positive edge costs, \<open>shortest_path\<close> always returns, raises nothing whatever the
  random draws are, and its answer is right: \<open>None\<close> exactly when no path avoids the excluded
  edges, otherwise a path over registered, not excluded edges that no other such path beats.
\<close>

theorem shortest_path_correct:
  assumes "graph_ok g" and "positive_costs g"
  shows "\<exists>res k'. shortest_path r k g src b avoid = Some (Inr (res, k')) \<and>
    (res = None \<longleftrightarrow> (\<nexists>p. is_path g avoid src p b)) \<and>
    (\<forall>p. res = Some p \<longrightarrow> is_path g avoid src p b \<and>
       (\<forall>q. is_path g avoid src q b \<longrightarrow> path_cost p \<le> path_cost q))"
proof -
  obtain res k' where "shortest_path r k g src b avoid = Some (Inr (res, k'))"
    "path_answer g avoid src b res"
    using shortest_path_total [OF assms] by blast
  then show ?thesis by (cases res) (auto simp: path_answer_def)
qed

definition demo_graph :: "nat StateGraph" where
  "demo_graph =
     register_transition (transition EMPTY_MODEL DEPLOYED) 1
       (register_transition (transition DEPLOYED DEPLOYED_HA) 2
         (register_transition \<lparr>from_state = EMPTY_MODEL, to_state = DEPLOYED_HA, cost = 3\<rparr> 3 []))"

lemma demo_graph_ok: "graph_ok demo_graph" and demo_graph_positive: "positive_costs demo_graph"
  by (auto simp: demo_graph_def transition_def intro!: graph_ok_register positive_costs_register)

theorem shortest_path_correct_witness:
  "shortest_path (\<lambda>_. 0) 0 demo_graph EMPTY_MODEL DEPLOYED_HA {} =
     Some (Inr (Some [(transition EMPTY_MODEL DEPLOYED, 1), (transition DEPLOYED DEPLOYED_HA, 2)], 2)) \<and>
   \<not> (\<exists>q. is_path demo_graph {} EMPTY_MODEL q DEPLOYED_HA \<and> path_cost q < 2)"
    (is "?run \<and> ?min")
proof
  show run: ?run by code_simp
  show ?min
    using shortest_path_correct [OF demo_graph_ok demo_graph_positive,
      of "\<lambda>_. 0" 0 EMPTY_MODEL DEPLOYED_HA "{}"] run by (auto simp: transition_def)
qed

end
