(* ===== verification/Sched_Markers.thy ===== *)
theory Sched_Markers
  imports Sched_States
begin

text \<open>
  The \<open>@pytest.mark.state\<close> marker (\<^verbatim>\<open>test_suite/scheduler/markers.py\<close>): the parsed
  marker, and \<open>read_state_marker\<close> with every way it raises. The argument is what
  \<open>item.get_closest_marker("state")\<close> gives: nothing, or the marker's keyword arguments.
\<close>

record StateMarker =
  requires :: "State list"
  provides :: State
  bridge_only :: bool

definition is_transition :: "StateMarker \<Rightarrow> bool" where
  "is_transition m \<longleftrightarrow> provides m \<notin> set (requires m)"

type_synonym mark_kwargs = "(py_str, py_val) dict"

datatype marker_error =
    RequiresMissing
  | RequiresInvalid py_val
  | ProvidesMissing
  | ProvidesInvalid py_val
  | MarkerIndexError

text \<open>Which of them are \<open>ValueError\<close>, the exception the function documents and callers catch.\<close>

fun is_value_error :: "marker_error \<Rightarrow> bool" where
  "is_value_error MarkerIndexError = False"
| "is_value_error _ = True"

fun as_sequence :: "py_val \<Rightarrow> py_val list" where
  "as_sequence (PSeq vs) = vs"
| "as_sequence v = [v]"

fun parse_requires :: "py_val list \<Rightarrow> marker_error + State list" where
  "parse_requires [] = Inr []"
| "parse_requires (raw # raws) =
     (case state_of_val raw of
        None \<Rightarrow> Inl (RequiresInvalid raw)
      | Some s \<Rightarrow> bind_result (parse_requires raws) (\<lambda>ss. Inr (s # ss)))"

definition raw_provides :: "mark_kwargs \<Rightarrow> py_val list \<Rightarrow> State list \<Rightarrow> marker_error + py_val" where
  "raw_provides kwargs seq reqs =
     (case dict_get kwargs ''provides'' of
        Some p \<Rightarrow> Inr p
      | None \<Rightarrow>
          if 1 < length reqs then Inl ProvidesMissing
          else (case seq of [] \<Rightarrow> Inl MarkerIndexError | raw # _ \<Rightarrow> Inr raw))"

definition parse_state_marker :: "mark_kwargs \<Rightarrow> marker_error + StateMarker" where
  "parse_state_marker kwargs =
     (case dict_get kwargs ''requires'' of
        None \<Rightarrow> Inl RequiresMissing
      | Some PNone \<Rightarrow> Inl RequiresMissing
      | Some raw_requires \<Rightarrow>
          let seq = as_sequence raw_requires in
          bind_result (parse_requires seq) (\<lambda>reqs.
          bind_result (raw_provides kwargs seq reqs) (\<lambda>raw.
          case state_of_val raw of
            None \<Rightarrow> Inl (ProvidesInvalid raw)
          | Some prov \<Rightarrow>
              Inr \<lparr>requires = reqs, provides = prov,
                   bridge_only = truthy (dict_get_default kwargs ''bridge_only'' (PBool False))\<rparr>)))"

definition read_state_marker :: "mark_kwargs option \<Rightarrow> marker_error + StateMarker option" where
  "read_state_marker mark =
     (case mark of
        None \<Rightarrow> Inr None
      | Some kwargs \<Rightarrow> bind_result (parse_state_marker kwargs) (\<lambda>m. Inr (Some m)))"

text \<open>The keyword arguments that spell a marker out.\<close>

definition marker_kwargs :: "StateMarker \<Rightarrow> mark_kwargs" where
  "marker_kwargs m =
     [(''requires'', PSeq (map (\<lambda>s. PStr (state_value s)) (requires m))),
      (''provides'', PStr (state_value (provides m))),
      (''bridge_only'', PBool (bridge_only m))]"

section \<open>Lemmas\<close>

lemma parse_requires_Inr_iff:
  "parse_requires raws = Inr ss \<longleftrightarrow> raws = map (\<lambda>s. PStr (state_value s)) ss"
proof (induction raws arbitrary: ss)
  case Nil
  then show ?case by auto
next
  case (Cons raw raws)
  have raw: "state_of_val raw = Some s \<longleftrightarrow> raw = PStr (state_value s)" for s
    by (cases raw) (auto simp: state_of_str_Some_iff)
  show ?case
  proof (cases "state_of_val raw")
    case None
    with raw show ?thesis by (auto simp: Cons_eq_map_conv)
  next
    case (Some s)
    then have "raw = PStr (state_value s)" using raw [of s] by simp
    with Some Cons show ?thesis by (auto simp: bind_result_Inr_iff Cons_eq_map_conv)
  qed
qed

lemma parse_requires_Inl: "parse_requires raws = Inl e \<Longrightarrow> is_value_error e"
  by (induction raws) (auto simp: bind_result_Inl_iff split: option.splits)

section \<open>Properties\<close>

text \<open>
  Reading back the keyword arguments of a marker gives the marker: every marker, also one
  with several accepted states or with none, survives the round trip.
\<close>

theorem read_marker_roundtrip: "read_state_marker (Some (marker_kwargs m)) = Inr (Some m)"
proof -
  have "parse_requires (map (\<lambda>s. PStr (state_value s)) (requires m)) = Inr (requires m)"
    by (simp add: parse_requires_Inr_iff)
  then show ?thesis
    by (simp add: read_state_marker_def parse_state_marker_def marker_kwargs_def raw_provides_def
        dict_get_default_def)
qed

text \<open>
  Which exceptions \<open>read_state_marker\<close> raises. It documents \<open>ValueError\<close>; the one
  other outcome is an \<open>IndexError\<close>, exactly for an empty \<open>requires\<close> sequence without
  \<open>provides\<close>, which the callers' \<open>except ValueError\<close> does not catch.
\<close>

theorem read_marker_errors:
  "read_state_marker mark = Inl e \<and> \<not> is_value_error e \<longleftrightarrow>
     e = MarkerIndexError \<and>
     (\<exists>kwargs. mark = Some kwargs \<and> dict_get kwargs ''requires'' = Some (PSeq []) \<and>
        dict_get kwargs ''provides'' = None)"
proof -
  have seq: "as_sequence v = [] \<longleftrightarrow> v = PSeq []" for v by (cases v) auto
  have raw: "raw_provides kwargs s reqs = Inl e \<and> \<not> is_value_error e \<longleftrightarrow>
      e = MarkerIndexError \<and> s = [] \<and> dict_get kwargs ''provides'' = None"
    if "parse_requires s = Inr reqs" for kwargs s reqs
    using that by (cases s) (auto simp: raw_provides_def parse_requires_Inr_iff split: option.splits)
  have parse: "parse_state_marker kwargs = Inl e \<and> \<not> is_value_error e \<longleftrightarrow>
      e = MarkerIndexError \<and> dict_get kwargs ''requires'' = Some (PSeq []) \<and>
        dict_get kwargs ''provides'' = None" for kwargs
  proof (cases "dict_get kwargs ''requires''")
    case None
    then show ?thesis by (auto simp: parse_state_marker_def)
  next
    case (Some v)
    show ?thesis
    proof (cases "v = PNone")
      case True
      with Some show ?thesis by (auto simp: parse_state_marker_def)
    next
      case False
      with Some have "parse_state_marker kwargs = Inl e \<and> \<not> is_value_error e \<longleftrightarrow>
          (\<exists>reqs. parse_requires (as_sequence v) = Inr reqs \<and>
             raw_provides kwargs (as_sequence v) reqs = Inl e \<and> \<not> is_value_error e)"
        by (cases v) (auto simp: parse_state_marker_def Let_def bind_result_Inl_iff parse_requires_Inl
            split: option.splits)
      with Some raw seq [of v] show ?thesis
        by (metis option.inject parse_requires.simps(1))
    qed
  qed
  show ?thesis
    using parse by (cases mark) (auto simp: read_state_marker_def bind_result_Inl_iff)
qed

text \<open>
  A test that declares a single state and no \<open>provides\<close> is a pure test: it leaves the
  state it requires and is not a transition.
\<close>

theorem single_requires_is_pure:
  assumes "dict_get kwargs ''requires'' = Some (PStr (state_value s))"
    and "dict_get kwargs ''provides'' = None"
  shows "\<exists>m. read_state_marker (Some kwargs) = Inr (Some m) \<and>
    requires m = [s] \<and> provides m = s \<and> \<not> is_transition m"
  using assms
  by (simp add: read_state_marker_def parse_state_marker_def raw_provides_def is_transition_def)

theorem single_requires_is_pure_witness:
  "\<exists>m. read_state_marker (Some [(''requires'', PStr ''deployed'')]) = Inr (Some m) \<and>
    requires m = [DEPLOYED] \<and> provides m = DEPLOYED \<and> \<not> is_transition m"
  using single_requires_is_pure [of "[(''requires'', PStr ''deployed'')]" DEPLOYED] by simp

end
