(* ===== verification/Sched_Items.thy ===== *)
theory Sched_Items
  imports Sched_Graph Sched_Markers
begin

text \<open>
  The pytest items the scheduler handles and their labelling (the helpers at the end of
  \<^verbatim>\<open>test_suite/scheduler/plugin.py\<close>). Items are objects with identity: the store is a list
  of objects and an item is its index in the list, which stands for \<open>id(item)\<close>. Mutation
  replaces the object in the store, \<open>copy.copy\<close> appends a new one. The attributes are those
  the scheduler reads or writes; the lists the duplicate gets copies of are values here, which
  is what the explicit copies in the code achieve.
\<close>

type_synonym oid = nat

record pitem =
  item_name :: py_str
  item_nodeid :: py_str
  state_mark :: "mark_kwargs option"
  own_markers :: "py_str list"
  item_keywords :: "py_str list"
  stash :: "py_str list"
  user_properties :: "py_str list"
  report_sections :: "py_str list"

text \<open>The labelling state: the objects, \<open>_injected_item_ids\<close>, \<open>_duplicate_original_ids\<close>.\<close>

record label_state =
  objs :: "pitem list"
  injected_item_ids :: "oid set"
  duplicate_original_ids :: "oid \<rightharpoonup> oid"

definition obj :: "'a label_state_scheme \<Rightarrow> oid \<Rightarrow> pitem" where
  "obj ls i = objs ls ! i"

definition set_obj :: "oid \<Rightarrow> pitem \<Rightarrow> 'a label_state_scheme \<Rightarrow> 'a label_state_scheme" where
  "set_obj i p ls = ls\<lparr>objs := (objs ls)[i := p]\<rparr>"

definition original_id :: "'a label_state_scheme \<Rightarrow> oid \<Rightarrow> oid" where
  "original_id ls i = (case duplicate_original_ids ls i of None \<Rightarrow> i | Some j \<Rightarrow> j)"

text \<open>\<open>s.rpartition("::")\<close>: split at the last occurrence.\<close>

fun last_colons :: "py_str \<Rightarrow> (py_str \<times> py_str) option" where
  "last_colons [] = None"
| "last_colons (c # cs) =
     (case last_colons cs of
        Some (p, t) \<Rightarrow> Some (c # p, t)
      | None \<Rightarrow> (case cs of
            [] \<Rightarrow> None
          | d # ds \<Rightarrow> if c = CHR '':'' \<and> d = CHR '':'' then Some ([], ds) else None))"

definition rpartition_colons :: "py_str \<Rightarrow> py_str \<times> py_str \<times> py_str" where
  "rpartition_colons s =
     (case last_colons s of None \<Rightarrow> ('''', '''', s) | Some (p, t) \<Rightarrow> (p, ''::'', t))"

definition mark_as_injected :: "oid \<Rightarrow> 'a label_state_scheme \<Rightarrow> 'a label_state_scheme" where
  "mark_as_injected i ls =
     (let ls' = ls\<lparr>injected_item_ids := insert i (injected_item_ids ls)\<rparr>; item = obj ls i in
      if i \<in> injected_item_ids ls \<or> ''injected'' \<in> set (own_markers item) then ls'
      else
        let original_name = item_name item;
            (path_prefix, separator, _) = rpartition_colons (item_nodeid item)
        in set_obj i (item\<lparr>own_markers := own_markers item @ [''injected''],
                           item_keywords := item_keywords item @ [''injected''],
                           item_name := ''[injected] '' @ original_name,
                           item_nodeid := path_prefix @ separator @ ''[injected] '' @ original_name\<rparr>) ls')"

definition occurrence_label :: "py_str \<Rightarrow> nat \<Rightarrow> py_str" where
  "occurrence_label base n = base @ ''['' @ nat_str n @ '']''"

definition label_occurrence ::
    "oid \<Rightarrow> py_str \<Rightarrow> py_str \<Rightarrow> nat \<Rightarrow> 'a label_state_scheme \<Rightarrow> 'a label_state_scheme" where
  "label_occurrence i base_name base_nodeid n ls =
     set_obj i ((obj ls i)\<lparr>item_name := occurrence_label base_name n,
                           item_nodeid := occurrence_label base_nodeid n\<rparr>) ls"

text \<open>
  The duplicate: a copy with its own (emptied) stash, properties and report sections, its own
  label, and the keywords of the template under the new name; its original is recorded.
\<close>

definition duplicate_item_for_repeat ::
    "oid \<Rightarrow> nat \<Rightarrow> py_str option \<Rightarrow> py_str option \<Rightarrow> 'a label_state_scheme \<Rightarrow> oid \<times> 'a label_state_scheme" where
  "duplicate_item_for_repeat i occurrence base_name base_nodeid ls =
     (let item = obj ls i;
          dup = length (objs ls);
          copy = item\<lparr>stash := [], user_properties := [], report_sections := []\<rparr>;
          ls1 = ls\<lparr>objs := objs ls @ [copy],
                   duplicate_original_ids := (duplicate_original_ids ls)(dup \<mapsto> original_id ls i)\<rparr>;
          ls2 = label_occurrence dup
                  (case base_name of None \<Rightarrow> item_name item | Some b \<Rightarrow> b)
                  (case base_nodeid of None \<Rightarrow> item_nodeid item | Some b \<Rightarrow> b) occurrence ls1;
          renamed = obj ls2 dup;
          ls3 = set_obj dup (renamed\<lparr>item_keywords :=
                  item_name renamed # filter (\<lambda>k. k \<noteq> item_name item \<and> k \<noteq> item_name renamed) (item_keywords item)\<rparr>) ls2
      in (dup, ls3))"

text \<open>
  Disambiguation of a plan. The loop keeps the base labels and the count of the occurrences
  seen so far, per item; \<open>occ\<close> is the number of occurrences in the whole plan.
\<close>

record occ_state =
  base_names :: "oid \<rightharpoonup> py_str"
  base_nodeids :: "oid \<rightharpoonup> py_str"
  occurrence_counts :: "oid \<Rightarrow> nat"

definition setdefault :: "('k \<rightharpoonup> 'v) \<Rightarrow> 'k \<Rightarrow> 'v \<Rightarrow> ('k \<rightharpoonup> 'v)" where
  "setdefault m k v = (case m k of None \<Rightarrow> m(k \<mapsto> v) | Some _ \<Rightarrow> m)"

fun disambiguate_loop ::
    "(oid \<Rightarrow> nat) \<Rightarrow> oid list \<Rightarrow> occ_state \<Rightarrow> 'a label_state_scheme \<Rightarrow> oid list \<times> 'a label_state_scheme" where
  "disambiguate_loop occ [] os ls = ([], ls)"
| "disambiguate_loop occ (i # plan) os ls =
     (if occ i = 1
      then (let (rest, ls') = disambiguate_loop occ plan os ls in (i # rest, ls'))
      else
        let names = setdefault (base_names os) i (item_name (obj ls i));
            nodeids = setdefault (base_nodeids os) i (item_nodeid (obj ls i));
            occurrence = Suc (occurrence_counts os i);
            os' = \<lparr>base_names = names, base_nodeids = nodeids,
                   occurrence_counts = (occurrence_counts os)(i := occurrence)\<rparr>;
            (j, ls1) = (if occurrence = 1
                        then (i, label_occurrence i (the (names i)) (the (nodeids i)) occurrence ls)
                        else duplicate_item_for_repeat i occurrence (names i) (nodeids i) ls);
            (rest, ls') = disambiguate_loop occ plan os' ls1
        in (j # rest, ls'))"

definition disambiguate_repeated_items ::
    "oid list \<Rightarrow> 'a label_state_scheme \<Rightarrow> oid list \<times> 'a label_state_scheme" where
  "disambiguate_repeated_items plan ls =
     disambiguate_loop (count_list plan) plan
       \<lparr>base_names = Map.empty, base_nodeids = Map.empty, occurrence_counts = (\<lambda>_. 0)\<rparr> ls"

section \<open>Lemmas\<close>

definition valid_ids :: "'a label_state_scheme \<Rightarrow> oid list \<Rightarrow> bool" where
  "valid_ids ls is \<longleftrightarrow> (\<forall>i \<in> set is. i < length (objs ls))"

text \<open>Every recorded duplicate is an object of the store.\<close>

definition dups_ok :: "'a label_state_scheme \<Rightarrow> bool" where
  "dups_ok ls \<longleftrightarrow> (\<forall>i \<in> dom (duplicate_original_ids ls). i < length (objs ls))"

lemma obj_set_obj [simp]:
  "i < length (objs ls) \<Longrightarrow> obj (set_obj i p ls) j = (if j = i then p else obj ls j)"
  by (simp add: obj_def set_obj_def)

lemma set_obj_frame [simp]:
  "length (objs (set_obj i p ls)) = length (objs ls)"
  "injected_item_ids (set_obj i p ls) = injected_item_ids ls"
  "duplicate_original_ids (set_obj i p ls) = duplicate_original_ids ls"
  by (simp_all add: set_obj_def)

lemma label_occurrence_frame [simp]:
  "length (objs (label_occurrence i b n k ls)) = length (objs ls)"
  "injected_item_ids (label_occurrence i b n k ls) = injected_item_ids ls"
  "duplicate_original_ids (label_occurrence i b n k ls) = duplicate_original_ids ls"
  by (simp_all add: label_occurrence_def)

lemma label_occurrence_obj [simp]:
  "i < length (objs ls) \<Longrightarrow> obj (label_occurrence i b n k ls) j =
     (if j = i then (obj ls i)\<lparr>item_name := occurrence_label b k, item_nodeid := occurrence_label n k\<rparr>
      else obj ls j)"
  by (simp add: label_occurrence_def)

lemma occurrence_label_inject [simp]:
  "occurrence_label b m = occurrence_label b n \<longleftrightarrow> m = n"
  by (simp add: occurrence_label_def)

text \<open>What duplicating an item does: a fresh object, everything older untouched.\<close>

lemma duplicate_item_spec:
  assumes "duplicate_item_for_repeat i n b c ls = (j, ls')" and "i < length (objs ls)"
  shows "j = length (objs ls)" and "length (objs ls') = Suc (length (objs ls))"
    and "k < length (objs ls) \<Longrightarrow> obj ls' k = obj ls k"
    and "injected_item_ids ls' = injected_item_ids ls"
    and "duplicate_original_ids ls' = (duplicate_original_ids ls)(j \<mapsto> original_id ls i)"
    and "item_nodeid (obj ls' j) =
      occurrence_label (case c of None \<Rightarrow> item_nodeid (obj ls i) | Some x \<Rightarrow> x) n"
    and "item_name (obj ls' j) =
      occurrence_label (case b of None \<Rightarrow> item_name (obj ls i) | Some x \<Rightarrow> x) n"
    and "state_mark (obj ls' j) = state_mark (obj ls i)"
    and "own_markers (obj ls' j) = own_markers (obj ls i)"
    and "stash (obj ls' j) = []" and "user_properties (obj ls' j) = []" and "report_sections (obj ls' j) = []"
proof -
  define ls1 where "ls1 = ls\<lparr>objs := objs ls @ [(obj ls i)\<lparr>stash := [], user_properties := [], report_sections := []\<rparr>],
    duplicate_original_ids := (duplicate_original_ids ls)(length (objs ls) \<mapsto> original_id ls i)\<rparr>"
  have ls1: "length (objs ls1) = Suc (length (objs ls))" "\<And>k. k < length (objs ls) \<Longrightarrow> obj ls1 k = obj ls k"
    "obj ls1 (length (objs ls)) = (obj ls i)\<lparr>stash := [], user_properties := [], report_sections := []\<rparr>"
    by (auto simp: ls1_def obj_def nth_append)
  have ls1': "injected_item_ids ls1 = injected_item_ids ls"
    "duplicate_original_ids ls1 = (duplicate_original_ids ls)(length (objs ls) \<mapsto> original_id ls i)"
    by (simp_all add: ls1_def)
  have eq: "j = length (objs ls)"
    "ls' = (let l2 = label_occurrence j (case b of None \<Rightarrow> item_name (obj ls i) | Some x \<Rightarrow> x)
              (case c of None \<Rightarrow> item_nodeid (obj ls i) | Some x \<Rightarrow> x) n ls1
            in set_obj j ((obj l2 j)\<lparr>item_keywords := item_name (obj l2 j) #
              filter (\<lambda>k. k \<noteq> item_name (obj ls i) \<and> k \<noteq> item_name (obj l2 j)) (item_keywords (obj ls i))\<rparr>) l2)"
    using assms(1) by (auto simp: duplicate_item_for_repeat_def Let_def ls1_def)
  note eqs = eq ls1 ls1' Let_def
  show "j = length (objs ls)" by (rule eq)
  show "length (objs ls') = Suc (length (objs ls))" by (simp add: eqs)
  show "obj ls' k = obj ls k" if "k < length (objs ls)" using that by (simp add: eqs)
  show "injected_item_ids ls' = injected_item_ids ls" by (simp add: eqs)
  show "duplicate_original_ids ls' = (duplicate_original_ids ls)(j \<mapsto> original_id ls i)" by (simp add: eqs)
  show "item_nodeid (obj ls' j) = occurrence_label (case c of None \<Rightarrow> item_nodeid (obj ls i) | Some x \<Rightarrow> x) n"
    by (simp add: eqs)
  show "item_name (obj ls' j) = occurrence_label (case b of None \<Rightarrow> item_name (obj ls i) | Some x \<Rightarrow> x) n"
    by (simp add: eqs)
  show "state_mark (obj ls' j) = state_mark (obj ls i)" "own_markers (obj ls' j) = own_markers (obj ls i)"
    "stash (obj ls' j) = []" "user_properties (obj ls' j) = []" "report_sections (obj ls' j) = []"
    by (simp_all add: eqs)
qed

lemma last_colons_split: "last_colons s = Some (p, t) \<Longrightarrow> s = p @ ''::'' @ t"
proof (induction s arbitrary: p)
  case (Cons c cs)
  show ?case
  proof (cases "last_colons cs")
    case None
    with Cons.prems have "(case cs of [] \<Rightarrow> None
        | d # ds \<Rightarrow> if c = CHR '':'' \<and> d = CHR '':'' then Some ([], ds) else None) = Some (p, t)" by simp
    then show ?thesis by (cases cs) (auto split: if_splits)
  next
    case (Some q)
    then obtain p' t' where q: "last_colons cs = Some (p', t')" by (cases q) auto
    with Cons.prems have "p = c # p'" "t' = t" by auto
    with Cons.IH [of p'] q show ?thesis by simp
  qed
qed simp

lemma rpartition_colons_split: "rpartition_colons s = (p, sep, t) \<Longrightarrow> s = p @ sep @ t"
  by (auto simp: rpartition_colons_def dest: last_colons_split split: option.splits)

lemma original_id_mono:
  assumes "duplicate_original_ids ls' = (duplicate_original_ids ls)(j \<mapsto> x)" and "i \<noteq> j"
  shows "original_id ls' i = original_id ls i"
  using assms by (simp add: original_id_def)

text \<open>
  The loop of the disambiguation, for a suffix of the plan whose items are below \<open>N\<close>:
  \<open>nid\<close> gives the node ids before any labelling, \<open>cnt\<close> the occurrences already seen.
\<close>

definition occ_ok :: "nat \<Rightarrow> (oid \<Rightarrow> py_str) \<Rightarrow> occ_state \<Rightarrow> 'a label_state_scheme \<Rightarrow> bool" where
  "occ_ok N nid os ls \<longleftrightarrow>
     (\<forall>i < N. if occurrence_counts os i = 0
          then base_nodeids os i = None \<and> item_nodeid (obj ls i) = nid i
          else base_nodeids os i = Some (nid i))"

definition occ_label :: "(oid \<Rightarrow> nat) \<Rightarrow> (oid \<Rightarrow> py_str) \<Rightarrow> (oid \<Rightarrow> nat) \<Rightarrow> oid list \<Rightarrow> nat \<Rightarrow> py_str" where
  "occ_label occ nid cnt plan p =
     (if occ (plan ! p) = 1 then nid (plan ! p)
      else occurrence_label (nid (plan ! p)) (cnt (plan ! p) + count_list (take (Suc p) plan) (plan ! p)))"

definition loop_post ::
    "(oid \<Rightarrow> nat) \<Rightarrow> (oid \<Rightarrow> py_str) \<Rightarrow> (oid \<Rightarrow> nat) \<Rightarrow> oid list \<Rightarrow> 'a label_state_scheme \<Rightarrow> oid list \<Rightarrow>
       'a label_state_scheme \<Rightarrow> bool" where
  "loop_post occ nid cnt plan ls res ls' \<longleftrightarrow>
     length res = length plan \<and> length (objs ls) \<le> length (objs ls') \<and> distinct res \<and>
     (\<forall>j \<in> set res. (j \<in> set plan \<and> cnt j = 0) \<or> (length (objs ls) \<le> j \<and> j < length (objs ls'))) \<and>
     (\<forall>k < length (objs ls). original_id ls' k = original_id ls k \<and>
        (k \<in> set plan \<and> cnt k = 0 \<or> obj ls' k = obj ls k)) \<and>
     (\<forall>p < length plan. original_id ls' (res ! p) = original_id ls (plan ! p) \<and>
        item_nodeid (obj ls' (res ! p)) = occ_label occ nid cnt plan p)"

lemma loop_post_once:
  assumes "loop_post occ nid cnt plan ls rest ls'" and "occ i = 1" and "i \<notin> set plan" and "cnt i = 0"
    and "i < length (objs ls)" and "item_nodeid (obj ls i) = nid i"
  shows "loop_post occ nid cnt (i # plan) ls (i # rest) ls'"
proof -
  have "occ_label occ nid cnt (i # plan) (Suc q) = occ_label occ nid cnt plan q" if "q < length plan" for q
    using that assms(3) by (auto simp: occ_label_def)
  then show ?thesis
    using assms unfolding loop_post_def
    by (auto simp: less_Suc_eq_0_disj occ_label_def [of _ _ _ _ 0])
qed

lemma loop_post_first:
  assumes "loop_post occ nid (cnt(i := Suc 0)) plan (label_occurrence i b (nid i) 1 ls) rest ls'"
    and "occ i \<noteq> 1" and "cnt i = 0" and "i < length (objs ls)"
  shows "loop_post occ nid cnt (i # plan) ls (i # rest) ls'"
proof -
  have lab: "occ_label occ nid cnt (i # plan) (Suc q) = occ_label occ nid (cnt(i := Suc 0)) plan q"
    if "q < length plan" for q
    using assms(3) by (auto simp: occ_label_def)
  have orig: "original_id (label_occurrence i b (nid i) 1 ls) k = original_id ls k" for k
    by (simp add: original_id_def)
  show ?thesis
    using assms lab unfolding loop_post_def orig
    by (auto simp: less_Suc_eq_0_disj occ_label_def [of _ _ _ _ 0] split: if_splits)
qed

lemma loop_post_dup:
  assumes "loop_post occ nid (cnt(i := Suc (cnt i))) plan ls1 rest ls'"
    and dup: "duplicate_item_for_repeat i (Suc (cnt i)) b (Some (nid i)) ls = (j, ls1)"
    and "occ i \<noteq> 1" and "cnt i \<noteq> 0" and "i < length (objs ls)" and "\<forall>k \<in> set plan. k < length (objs ls)"
  shows "loop_post occ nid cnt (i # plan) ls (j # rest) ls'"
proof -
  note d = duplicate_item_spec [OF dup assms(5)]
  have lab: "occ_label occ nid cnt (i # plan) (Suc q) = occ_label occ nid (cnt(i := Suc (cnt i))) plan q"
    if "q < length plan" for q
    by (auto simp: occ_label_def)
  have orig: "original_id ls1 k = original_id ls k" if "k < length (objs ls)" for k
    using that original_id_mono [OF d(5)] d(1) by auto
  have origj: "original_id ls1 j = original_id ls i" by (simp add: original_id_def d(5))
  note post = assms(1) [unfolded loop_post_def d(2)]
  have len: "length (objs ls) < length (objs ls')" using post by auto
  have old: "original_id ls' k = original_id ls k \<and>
      (k \<in> set (i # plan) \<and> cnt k = 0 \<or> obj ls' k = obj ls k)" if "k < length (objs ls)" for k
  proof -
    from that have "k < Suc (length (objs ls))" by simp
    with post have "original_id ls' k = original_id ls1 k \<and>
      (k \<in> set plan \<and> (cnt(i := Suc (cnt i))) k = 0 \<or> obj ls' k = obj ls1 k)" by blast
    with orig [OF that] d(3) [OF that] show ?thesis by (auto split: if_splits)
  qed
  have new: "original_id ls' j = original_id ls i" "obj ls' j = obj ls1 j"
    using post origj assms(6) d(1) by (auto split: if_splits)
  have "j \<notin> set rest" using post assms(6) d(1) by fastforce
  moreover have "\<forall>x \<in> set (j # rest). x \<in> set (i # plan) \<and> cnt x = 0 \<or>
      length (objs ls) \<le> x \<and> x < length (objs ls')"
    using post d(1) len by (force split: if_splits)
  moreover have "\<forall>p < length (i # plan). original_id ls' ((j # rest) ! p) = original_id ls ((i # plan) ! p) \<and>
      item_nodeid (obj ls' ((j # rest) ! p)) = occ_label occ nid cnt (i # plan) p"
    using post new d(6) lab orig assms(3,6)
    by (auto simp: less_Suc_eq_0_disj occ_label_def [of _ _ _ _ 0])
  ultimately show ?thesis unfolding loop_post_def using post len old by auto
qed

text \<open>One iteration on a repeated item.\<close>

lemma disambiguate_step:
  assumes run: "disambiguate_loop occ (i # plan) os ls = (res, ls')"
    and "occ i \<noteq> 1" and "i < N" "N \<le> length (objs ls)" and ok: "occ_ok N nid os ls"
  obtains j ls1 os' rest b where "res = j # rest" "disambiguate_loop occ plan os' ls1 = (rest, ls')"
    "occurrence_counts os' = (occurrence_counts os)(i := Suc (occurrence_counts os i))"
    "occ_ok N nid os' ls1" "N \<le> length (objs ls1)"
    "if occurrence_counts os i = 0 then j = i \<and> ls1 = label_occurrence i b (nid i) 1 ls
     else duplicate_item_for_repeat i (Suc (occurrence_counts os i)) (Some b) (Some (nid i)) ls = (j, ls1)"
proof -
  let ?c = "occurrence_counts os i"
  define names where "names = setdefault (base_names os) i (item_name (obj ls i))"
  define nodeids where "nodeids = setdefault (base_nodeids os) i (item_nodeid (obj ls i))"
  obtain b where b: "names i = Some b" by (cases "base_names os i") (auto simp: names_def setdefault_def)
  have nid: "nodeids i = Some (nid i)" and nid': "\<And>k. k \<noteq> i \<Longrightarrow> nodeids k = base_nodeids os k"
    using ok assms(3) by (auto simp: nodeids_def setdefault_def occ_ok_def split: option.splits if_splits)
  define os' where "os' = \<lparr>base_names = names, base_nodeids = nodeids,
    occurrence_counts = (occurrence_counts os)(i := Suc ?c)\<rparr>"
  obtain j ls1 where j: "(if Suc ?c = 1 then (i, label_occurrence i b (nid i) (Suc ?c) ls)
      else duplicate_item_for_repeat i (Suc ?c) (Some b) (Some (nid i)) ls) = (j, ls1)" by fastforce
  obtain rest ls2 where rest: "disambiguate_loop occ plan os' ls1 = (rest, ls2)" by fastforce
  have "res = j # rest" "ls2 = ls'"
    using run assms(2) j rest b nid
    by (auto simp: Let_def names_def [symmetric] nodeids_def [symmetric] os'_def split: if_splits)
  moreover have len: "N \<le> length (objs ls1)"
    using j assms(3,4) duplicate_item_spec(2) [of i _ _ _ ls j ls1] by (fastforce split: if_splits)
  moreover have "occ_ok N nid os' ls1"
    using ok j nid nid' assms(3,4) duplicate_item_spec(3) [of i _ _ _ ls j ls1]
    by (fastforce simp: occ_ok_def os'_def split: if_splits)
  ultimately show ?thesis
    using j rest by (intro that [of j rest os' ls1 b]) (auto simp: os'_def split: if_splits)
qed

lemma disambiguate_loop_post:
  assumes "disambiguate_loop occ plan os ls = (res, ls')"
    and "\<forall>i \<in> set plan. i < N" and "N \<le> length (objs ls)"
    and "\<forall>i. occ i = 1 \<longrightarrow> count_list plan i \<le> 1 \<and> occurrence_counts os i = 0"
    and "occ_ok N nid os ls"
  shows "loop_post occ nid (occurrence_counts os) plan ls res ls'"
  using assms
proof (induction plan arbitrary: os ls res)
  case Nil
  then show ?case by (simp add: loop_post_def)
next
  case (Cons i plan)
  have iN: "i < N" "\<forall>k \<in> set plan. k < N" using Cons.prems(2) by auto
  have "count_list plan k \<le> count_list (i # plan) k" for k by simp
  then have cnt: "\<forall>k. occ k = 1 \<longrightarrow> count_list plan k \<le> 1 \<and> occurrence_counts os k = 0"
    using Cons.prems(4) order_trans by blast
  show ?case
  proof (cases "occ i = 1")
    case True
    with Cons.prems(1) obtain rest where r: "res = i # rest" "disambiguate_loop occ plan os ls = (rest, ls')"
      by (auto simp: Let_def split: prod.splits)
    have "count_list (i # plan) i \<le> 1" "occurrence_counts os i = 0" using Cons.prems(4) True by blast+
    then have ni: "i \<notin> set plan" "occurrence_counts os i = 0" by (simp_all add: count_list_0_iff)
    have "loop_post occ nid (occurrence_counts os) plan ls rest ls'"
      by (rule Cons.IH [OF r(2) iN(2) Cons.prems(3) cnt Cons.prems(5)])
    with loop_post_once [OF this True ni] iN Cons.prems(3,5) ni(2) show ?thesis
      by (auto simp: r occ_ok_def)
  next
    case False
    obtain j ls1 os' rest b where
      r: "res = j # rest" "disambiguate_loop occ plan os' ls1 = (rest, ls')"
      and os': "occurrence_counts os' = (occurrence_counts os)(i := Suc (occurrence_counts os i))"
      and ok: "occ_ok N nid os' ls1" "N \<le> length (objs ls1)"
      and j: "if occurrence_counts os i = 0 then j = i \<and> ls1 = label_occurrence i b (nid i) 1 ls
        else duplicate_item_for_repeat i (Suc (occurrence_counts os i)) (Some b) (Some (nid i)) ls = (j, ls1)"
      by (rule disambiguate_step [OF Cons.prems(1) False iN(1) Cons.prems(3,5)]) metis
    have "\<forall>k. occ k = 1 \<longrightarrow> count_list plan k \<le> 1 \<and> occurrence_counts os' k = 0"
      using cnt False unfolding os' by auto
    from Cons.IH [OF r(2) iN(2) ok(2) this ok(1)]
    have lp: "loop_post occ nid ((occurrence_counts os)(i := Suc (occurrence_counts os i))) plan ls1 rest ls'"
      unfolding os' .
    have b: "i < length (objs ls)" "\<forall>k \<in> set plan. k < length (objs ls)"
      using iN Cons.prems(3) by auto
    show ?thesis
    proof (cases "occurrence_counts os i = 0")
      case True
      then have j': "j = i" "ls1 = label_occurrence i b (nid i) 1 ls" using j by simp_all
      from lp have "loop_post occ nid ((occurrence_counts os)(i := Suc 0)) plan (label_occurrence i b (nid i) 1 ls) rest ls'"
        unfolding True j'(2) .
      then show ?thesis
        unfolding r(1) j'(1) by (rule loop_post_first) (use False True b in blast)+
    next
      case first: False
      then have "duplicate_item_for_repeat i (Suc (occurrence_counts os i)) (Some b) (Some (nid i)) ls = (j, ls1)"
        using j by simp
      from loop_post_dup [OF lp this False first b] show ?thesis unfolding r(1) .
    qed
  qed
qed

lemma disambiguate_post:
  assumes "disambiguate_repeated_items plan ls = (res, ls')" and "valid_ids ls plan"
  shows "loop_post (count_list plan) (\<lambda>i. item_nodeid (obj ls i)) (\<lambda>_. 0) plan ls res ls'"
  using disambiguate_loop_post [OF assms(1) [unfolded disambiguate_repeated_items_def],
      of "length (objs ls)" "\<lambda>i. item_nodeid (obj ls i)"] assms(2)
  by (simp add: valid_ids_def occ_ok_def)

section \<open>Properties\<close>

text \<open>
  Labelling an item as injected is idempotent, and it only rewrites the trailing
  test-name segment of the node id: whatever stood before the last \<open>::\<close> of the node id is
  kept, the name and the new trailing segment carry the \<open>[injected]\<close> prefix exactly once,
  and no other item changes.
\<close>

theorem mark_as_injected_once:
  assumes "i < length (objs ls)"
  shows "mark_as_injected i (mark_as_injected i ls) = mark_as_injected i ls
    \<and> i \<in> injected_item_ids (mark_as_injected i ls)
    \<and> (\<forall>j. j \<noteq> i \<longrightarrow> obj (mark_as_injected i ls) j = obj ls j)
    \<and> (i \<notin> injected_item_ids ls \<and> ''injected'' \<notin> set (own_markers (obj ls i)) \<longrightarrow>
        (let item = obj (mark_as_injected i ls) i; (prefix, sep, old) = rpartition_colons (item_nodeid (obj ls i)) in
           item_nodeid (obj ls i) = prefix @ sep @ old
         \<and> item_nodeid item = prefix @ sep @ ''[injected] '' @ item_name (obj ls i)
         \<and> item_name item = ''[injected] '' @ item_name (obj ls i)
         \<and> ''injected'' \<in> set (own_markers item)))"
  using assms
  by (auto simp: mark_as_injected_def Let_def set_obj_def obj_def dest: rpartition_colons_split
      split: prod.splits)

definition demo_item :: pitem where
  "demo_item = \<lparr>item_name = ''test_up'', item_nodeid = ''a/b.py::test_up'', state_mark = None, own_markers = [],
     item_keywords = [''test_up''], stash = [''s''], user_properties = [], report_sections = []\<rparr>"

theorem mark_as_injected_once_witness:
  "let ls = \<lparr>objs = [demo_item], injected_item_ids = {}, duplicate_original_ids = Map.empty\<rparr> in
     mark_as_injected 0 (mark_as_injected 0 ls) = mark_as_injected 0 ls
   \<and> item_nodeid (obj (mark_as_injected 0 ls) 0) = ''a/b.py::[injected] test_up''"
proof -
  let ?ls = "\<lparr>objs = [demo_item], injected_item_ids = {}, duplicate_original_ids = Map.empty\<rparr>"
  from mark_as_injected_once [of 0 ?ls] have "mark_as_injected 0 (mark_as_injected 0 ?ls) = mark_as_injected 0 ?ls"
    by simp
  moreover have "item_nodeid (obj (mark_as_injected 0 ?ls) 0) = ''a/b.py::[injected] test_up''" by code_simp
  ultimately show ?thesis by (simp add: Let_def)
qed

text \<open>
  Disambiguating a plan keeps its length and the test behind every position: each scheduled
  item is a distinct object, it traces back to the item the plan had there, an item scheduled
  once keeps its node id, and the \<open>n\<close>-th occurrence of an item scheduled more than once gets
  the index \<open>[n]\<close> on its original node id, the first occurrence included.
\<close>

theorem disambiguate_labels:
  assumes "disambiguate_repeated_items plan ls = (res, ls')" and "valid_ids ls plan"
  shows "length res = length plan \<and> distinct res
    \<and> (\<forall>p < length plan.
         original_id ls' (res ! p) = original_id ls (plan ! p)
       \<and> item_nodeid (obj ls' (res ! p)) =
           (if count_list plan (plan ! p) = 1 then item_nodeid (obj ls (plan ! p))
            else item_nodeid (obj ls (plan ! p)) @ ''['' @ nat_str (count_list (take (Suc p) plan) (plan ! p)) @ '']''))"
  using disambiguate_post [OF assms] by (simp add: loop_post_def occ_label_def occurrence_label_def)

theorem disambiguate_labels_witness:
  "let ls = \<lparr>objs = [demo_item, demo_item], injected_item_ids = {}, duplicate_original_ids = Map.empty\<rparr>;
       (res, ls') = disambiguate_repeated_items [0, 1, 0] ls
   in length res = 3 \<and> distinct res \<and> original_id ls' (res ! 2) = 0
    \<and> item_nodeid (obj ls' (res ! 2)) = ''a/b.py::test_up[2]''"
proof -
  let ?ls = "\<lparr>objs = [demo_item, demo_item], injected_item_ids = {}, duplicate_original_ids = Map.empty\<rparr>"
  obtain res ls' where r: "disambiguate_repeated_items [0, 1, 0] ?ls = (res, ls')" by fastforce
  have v: "valid_ids ?ls [0, 1, 0]" by (simp add: valid_ids_def)
  have n: "nat_str (Suc (Suc 0)) = ''2''" by code_simp
  note d = disambiguate_labels [OF r v]
  have "original_id ls' (res ! 2) = 0" "item_nodeid (obj ls' (res ! 2)) = ''a/b.py::test_up[2]''"
    using d [THEN conjunct2, THEN conjunct2, rule_format, of 2]
    by (simp_all add: original_id_def obj_def demo_item_def n)
  moreover have "length res = 3" "distinct res" using d by simp_all
  ultimately show ?thesis using r by (simp add: Let_def)
qed

end
