(* ===== verification/Sched_Plan.thy ===== *)
theory Sched_Plan
  imports Sched_Graph_Correct Sched_Items
begin

text \<open>
  The planner of the scheduler (\<open>_build_execution_plan\<close> in
  \<^verbatim>\<open>test_suite/scheduler/plugin.py\<close>): an exhaustive backtracking search over the states that
  still have selected tests, with shortest paths as bridges, a memo of dead ends and an
  in-flight set of search keys that breaks cycles. The nested functions become functions of the
  context they close over; the mutable plan, scheduled set and injected set of a branch are one
  record; the memo and the number of random draws are threaded through the calls; the set
  \<open>visiting\<close>, which every call restores before it returns, is an argument.
\<close>

record plan_ctx =
  pure_clusters :: "(State, oid list) dict"
  selected_transitions :: "(StateTransition, oid list) dict"
  all_transitions :: "(StateTransition, oid list) dict"
  full_graph :: "oid StateGraph"

record branch =
  b_plan :: "oid list"
  b_scheduled :: "oid set"
  b_injected :: "oid set"

datatype plan_error =
    UnreachableStateError State "State set"
  | PlanRaised py_error

type_synonym memo_key = "State \<times> State set"

definition all_selected_at :: "plan_ctx \<Rightarrow> State \<Rightarrow> oid list" where
  "all_selected_at ctx s =
     dict_get_default (pure_clusters ctx) s [] @
     concat (map snd (filter (\<lambda>(st, items). from_state st = s) (selected_transitions ctx)))"

definition all_destinations :: "plan_ctx \<Rightarrow> State list" where
  "all_destinations ctx = dict_keys (pure_clusters ctx) @ map from_state (dict_keys (selected_transitions ctx))"

definition unscheduled_destinations :: "plan_ctx \<Rightarrow> oid set \<Rightarrow> State set" where
  "unscheduled_destinations ctx scheduled =
     set (filter (\<lambda>s. \<exists>it \<in> set (all_selected_at ctx s). it \<notin> scheduled) (all_destinations ctx))"

definition schedule :: "oid \<Rightarrow> branch \<Rightarrow> branch" where
  "schedule i b = b\<lparr>b_plan := b_plan b @ [i], b_scheduled := insert i (b_scheduled b)\<rparr>"

fun schedule_pure :: "oid list \<Rightarrow> branch \<Rightarrow> branch" where
  "schedule_pure [] b = b"
| "schedule_pure (i # is) b = schedule_pure is (if i \<notin> b_scheduled b then schedule i b else b)"

text \<open>The nested loops over the selected transitions, which return at the first hit.\<close>

fun first_transition ::
    "State \<Rightarrow> oid set \<Rightarrow> (StateTransition \<times> oid list) list \<Rightarrow> (StateTransition \<times> oid) option" where
  "first_transition s scheduled [] = None"
| "first_transition s scheduled ((st, items) # rest) =
     (if from_state st = s
      then (case find (\<lambda>i. i \<notin> scheduled) items of
              Some i \<Rightarrow> Some (st, i)
            | None \<Rightarrow> first_transition s scheduled rest)
      else first_transition s scheduled rest)"

definition run_selected_at :: "plan_ctx \<Rightarrow> State \<Rightarrow> branch \<Rightarrow> State \<times> branch" where
  "run_selected_at ctx s b =
     (let b1 = schedule_pure (dict_get_default (pure_clusters ctx) s []) b
      in case first_transition s (b_scheduled b1) (selected_transitions ctx) of
           Some (st, i) \<Rightarrow> (to_state st, schedule i b1)
         | None \<Rightarrow> (s, b1))"

text \<open>One edge of a bridge: an unscheduled selected test of the edge, else the first of the full suite.\<close>

definition bridge_edge :: "plan_ctx \<Rightarrow> StateTransition \<Rightarrow> branch \<Rightarrow> branch" where
  "bridge_edge ctx t b =
     (case find (\<lambda>i. i \<notin> b_scheduled b) (dict_get_default (selected_transitions ctx) t []) of
        Some i \<Rightarrow> schedule i b
      | None \<Rightarrow>
          (case dict_get (all_transitions ctx) t of
             Some (bridge_item # _) \<Rightarrow>
               b\<lparr>b_injected := insert bridge_item (b_injected b), b_plan := b_plan b @ [bridge_item]\<rparr>
           | _ \<Rightarrow> b))"

fun inject_bridge :: "plan_ctx \<Rightarrow> oid edge list \<Rightarrow> branch \<Rightarrow> branch" where
  "inject_bridge ctx [] b = b"
| "inject_bridge ctx ((t, _) # path) b = inject_bridge ctx path (bridge_edge ctx t b)"

function backtrack_search ::
    "(nat \<Rightarrow> nat) \<Rightarrow> plan_ctx \<Rightarrow> memo_key set \<Rightarrow> State \<Rightarrow> branch \<Rightarrow> memo_key set \<Rightarrow> nat \<Rightarrow>
       (py_error + branch option \<times> memo_key set \<times> nat) option"
  and try_targets ::
    "(nat \<Rightarrow> nat) \<Rightarrow> plan_ctx \<Rightarrow> memo_key set \<Rightarrow> State \<Rightarrow> branch \<Rightarrow> memo_key set \<Rightarrow> nat \<Rightarrow> State list \<Rightarrow>
       (py_error + branch option \<times> memo_key set \<times> nat) option" where
  "backtrack_search r ctx visiting s b dead k =
     (let remaining = unscheduled_destinations ctx (b_scheduled b);
          key = (s, remaining)
      in if remaining = {} then Some (Inr (Some b, dead, k))
         else if key \<in> dead then Some (Inr (None, dead, k))
         else if key \<in> visiting then Some (Inr (None, dead, k))
         else (case try_targets r ctx (insert key visiting) s b dead k (sorted_list_of_set remaining) of
                 Some (Inr (None, dead', k')) \<Rightarrow> Some (Inr (None, insert key dead', k'))
               | res \<Rightarrow> res))"
| "try_targets r ctx visiting s b dead k [] = Some (Inr (None, dead, k))"
| "try_targets r ctx visiting s b dead k (target # targets) =
     (case shortest_path r k (full_graph ctx) s target {} of
        None \<Rightarrow> None
      | Some (Inl err) \<Rightarrow> Some (Inl err)
      | Some (Inr (None, k1)) \<Rightarrow> try_targets r ctx visiting s b dead k1 targets
      | Some (Inr (Some path, k1)) \<Rightarrow>
          (let (s', b') = run_selected_at ctx target (inject_bridge ctx path b)
           in case backtrack_search r ctx visiting s' b' dead k1 of
                Some (Inr (None, dead', k2)) \<Rightarrow> try_targets r ctx visiting s b dead' k2 targets
              | res \<Rightarrow> res))"
  by pat_completeness auto

termination
proof (relation "measures
    [\<lambda>x. case x of Inl (r, ctx, v, _) \<Rightarrow> card (- v) | Inr (r, ctx, v, _) \<Rightarrow> card (- v),
     \<lambda>x. case x of Inl _ \<Rightarrow> 0 | Inr (_, _, _, _, _, _, _, ts) \<Rightarrow> Suc (length ts)]", goal_cases)
  case (2 r ctx visiting s b dead k remaining key)
  then have "- insert key visiting \<subset> - visiting" by auto
  then have "card (- insert key visiting) < card (- visiting)" by (rule psubset_card_mono [rotated]) simp
  then show ?case by simp
qed auto

declare backtrack_search.simps [simp del]

definition mark_injected_items :: "oid list \<Rightarrow> oid set \<Rightarrow> 'a label_state_scheme \<Rightarrow> 'a label_state_scheme" where
  "mark_injected_items plan ids ls = foldl (\<lambda>l i. if i \<in> ids then mark_as_injected i l else l) ls plan"

definition build_execution_plan ::
    "(nat \<Rightarrow> nat) \<Rightarrow> nat \<Rightarrow> plan_ctx \<Rightarrow> State \<Rightarrow> 'a label_state_scheme \<Rightarrow>
       (plan_error + oid list \<times> 'a label_state_scheme \<times> nat) option" where
  "build_execution_plan r k ctx current_state ls =
     (let b0 = \<lparr>b_plan = [], b_scheduled = {}, b_injected = {}\<rparr>;
          (state, b) = (if current_state \<in> unscheduled_destinations ctx {}
                        then run_selected_at ctx current_state b0 else (current_state, b0));
          remaining = unscheduled_destinations ctx (b_scheduled b)
      in if remaining = {}
         then (let (res, ls') = disambiguate_repeated_items (b_plan b) ls in Some (Inr (res, ls', k)))
         else (case backtrack_search r ctx {} state (b\<lparr>b_injected := {}\<rparr>) {} k of
                 None \<Rightarrow> None
               | Some (Inl err) \<Rightarrow> Some (Inl (PlanRaised err))
               | Some (Inr (None, _, _)) \<Rightarrow> Some (Inl (UnreachableStateError state remaining))
               | Some (Inr (Some found, _, k')) \<Rightarrow>
                   (let (res, ls') = disambiguate_repeated_items (b_plan found)
                                       (mark_injected_items (b_plan found) (b_injected found) ls)
                    in Some (Inr (res, ls', k')))))"

section \<open>What a plan is\<close>

text \<open>
  The specification: a plan is a run of the environment. A selected pure test runs in a state of
  its cluster and leaves the state; a transition test leads along its edge.
\<close>

definition offers :: "plan_ctx \<Rightarrow> StateTransition \<Rightarrow> oid \<Rightarrow> bool" where
  "offers ctx t i \<longleftrightarrow> i \<in> set (dict_get_default (selected_transitions ctx) t []) \<or>
     i \<in> set (dict_get_default (all_transitions ctx) t [])"

inductive valid_run :: "plan_ctx \<Rightarrow> State \<Rightarrow> oid list \<Rightarrow> State \<Rightarrow> bool" for ctx a where
  valid_empty: "valid_run ctx a [] a"
| valid_pure: "valid_run ctx a p s \<Longrightarrow> i \<in> set (dict_get_default (pure_clusters ctx) s []) \<Longrightarrow>
    valid_run ctx a (p @ [i]) s"
| valid_move: "valid_run ctx a p (from_state t) \<Longrightarrow> offers ctx t i \<Longrightarrow> valid_run ctx a (p @ [i]) (to_state t)"

definition selected_items :: "plan_ctx \<Rightarrow> oid set" where
  "selected_items ctx = (\<Union>s. set (all_selected_at ctx s))"

text \<open>
  The context the collection hook builds: dictionaries without duplicate keys, and every edge
  of the graph has a transition test in the full suite.
\<close>

definition ctx_ok :: "plan_ctx \<Rightarrow> bool" where
  "ctx_ok ctx \<longleftrightarrow> dict_ok (selected_transitions ctx) \<and> graph_ok (full_graph ctx) \<and>
     positive_costs (full_graph ctx) \<and>
     (\<forall>s. \<forall>e \<in> set (edges_from (full_graph ctx) s). dict_get_default (all_transitions ctx) (fst e) [] \<noteq> [])"

definition branch_ok :: "plan_ctx \<Rightarrow> State \<Rightarrow> State \<Rightarrow> branch \<Rightarrow> bool" where
  "branch_ok ctx a s b \<longleftrightarrow> valid_run ctx a (b_plan b) s \<and> b_scheduled b \<subseteq> set (b_plan b) \<and>
     b_scheduled b \<subseteq> selected_items ctx \<and> set (b_plan b) \<subseteq> b_scheduled b \<union> b_injected b"

lemma unscheduled_empty_iff:
  "unscheduled_destinations ctx sch = {} \<longleftrightarrow> selected_items ctx \<subseteq> sch"
proof -
  have "s \<in> set (all_destinations ctx)" if "it \<in> set (all_selected_at ctx s)" for s it
    using that
    by (cases "dict_get (pure_clusters ctx) s")
       (force simp: all_selected_at_def all_destinations_def dict_keys_def dict_get_default_def
         dest: map_of_SomeD)+
  then show ?thesis
    unfolding unscheduled_destinations_def selected_items_def by (simp add: filter_empty_conv) blast
qed

lemma selected_pure: "i \<in> set (dict_get_default (pure_clusters ctx) s []) \<Longrightarrow> i \<in> selected_items ctx"
  by (auto simp: selected_items_def all_selected_at_def)

lemma selected_transition:
  "(t, is) \<in> set (selected_transitions ctx) \<Longrightarrow> i \<in> set is \<Longrightarrow> i \<in> selected_items ctx"
  by (force simp: selected_items_def all_selected_at_def)

lemma selected_get:
  "i \<in> set (dict_get_default (selected_transitions ctx) t []) \<Longrightarrow> i \<in> selected_items ctx"
  by (cases "dict_get (selected_transitions ctx) t")
     (auto simp: dict_get_default_def intro: selected_transition dest: map_of_SomeD)

lemma schedule_fields [simp]:
  "b_plan (schedule i b) = b_plan b @ [i]" "b_scheduled (schedule i b) = insert i (b_scheduled b)"
  "b_injected (schedule i b) = b_injected b"
  by (simp_all add: schedule_def)

lemma schedule_pure_ok:
  assumes "branch_ok ctx a s b" and "set is \<subseteq> set (dict_get_default (pure_clusters ctx) s [])"
  shows "branch_ok ctx a s (schedule_pure is b)"
  using assms
proof (induction "is" arbitrary: b)
  case (Cons i "is")
  then have "branch_ok ctx a s (schedule i b)"
    by (auto simp: branch_ok_def intro: valid_pure selected_pure)
  with Cons show ?case by simp
qed simp

lemma schedule_pure_scheduled: "b_scheduled (schedule_pure is b) = b_scheduled b \<union> set is"
  by (induction "is" arbitrary: b) auto

lemma first_transition_SomeD:
  "first_transition s sch ts = Some (t, i) \<Longrightarrow>
     from_state t = s \<and> i \<notin> sch \<and> (\<exists>is. (t, is) \<in> set ts \<and> i \<in> set is)"
  by (induction ts) (fastforce dest: find_SomeD split: if_splits option.splits)+

lemma first_transition_NoneD:
  "first_transition s sch ts = None \<Longrightarrow> (t, is) \<in> set ts \<Longrightarrow> from_state t = s \<Longrightarrow> set is \<subseteq> sch"
  by (induction ts) (auto simp: find_None_iff split: if_splits option.splits)

lemma run_selected_at_ok:
  assumes "branch_ok ctx a s b" and "dict_ok (selected_transitions ctx)"
    and run: "run_selected_at ctx s b = (s', b')"
  shows "branch_ok ctx a s' b'"
proof -
  define b1 where "b1 = schedule_pure (dict_get_default (pure_clusters ctx) s []) b"
  have b1: "branch_ok ctx a s b1" using schedule_pure_ok [OF assms(1)] by (simp add: b1_def)
  show ?thesis
  proof (cases "first_transition s (b_scheduled b1) (selected_transitions ctx)")
    case None
    with run b1 show ?thesis by (auto simp: run_selected_at_def b1_def [symmetric])
  next
    case (Some ti)
    then obtain t i where ti: "first_transition s (b_scheduled b1) (selected_transitions ctx) = Some (t, i)"
      by (cases ti) auto
    then have e: "s' = to_state t" "b' = schedule i b1"
      using run by (simp_all add: run_selected_at_def b1_def Let_def)
    from first_transition_SomeD [OF ti] obtain "is" where
      t: "from_state t = s" "(t, is) \<in> set (selected_transitions ctx)" "i \<in> set is" by auto
    then have "offers ctx t i" using assms(2) by (simp add: offers_def dict_get_default_def dict_mem_get)
    with valid_move [of ctx a "b_plan b1" t i] b1 t selected_transition [OF t(2,3)] show ?thesis
      by (auto simp: e branch_ok_def)
  qed
qed

lemma bridge_edge_ok:
  assumes "branch_ok ctx a (from_state t) b" and "dict_get_default (all_transitions ctx) t [] \<noteq> []"
  shows "branch_ok ctx a (to_state t) (bridge_edge ctx t b)"
proof (cases "find (\<lambda>i. i \<notin> b_scheduled b) (dict_get_default (selected_transitions ctx) t [])")
  case (Some j)
  then have j: "j \<in> set (dict_get_default (selected_transitions ctx) t [])" by (auto dest: find_SomeD)
  with assms(1) valid_move [of ctx a "b_plan b" t j] selected_get [OF j] show ?thesis
    by (auto simp: bridge_edge_def Some branch_ok_def offers_def)
next
  case None
  obtain x xs where x: "dict_get (all_transitions ctx) t = Some (x # xs)"
    using assms(2) by (auto simp: dict_get_default_def neq_Nil_conv split: option.splits)
  then have "offers ctx t x" by (simp add: offers_def dict_get_default_def)
  with assms(1) valid_move [of ctx a "b_plan b" t x] show ?thesis
    by (auto simp: bridge_edge_def None x branch_ok_def)
qed

lemma inject_bridge_ok:
  assumes "branch_ok ctx a s b" and "is_path (full_graph ctx) {} s path t" and "ctx_ok ctx"
  shows "branch_ok ctx a t (inject_bridge ctx path b)"
  using assms(1,2)
proof (induction path arbitrary: s b)
  case (Cons e path)
  obtain tr i where e: "e = (tr, i)" by (cases e)
  with Cons.prems have s: "from_state tr = s" and p: "is_path (full_graph ctx) {} (to_state tr) path t"
    and u: "e \<in> set (edges_from (full_graph ctx) s)" by (auto simp: usable_def)
  have "dict_get_default (all_transitions ctx) tr [] \<noteq> []"
    using assms(3) u e unfolding ctx_ok_def by fastforce
  with Cons.prems(1) s have "branch_ok ctx a (to_state tr) (bridge_edge ctx tr b)"
    by (intro bridge_edge_ok) simp_all
  from Cons.IH [OF this p] show ?case by (simp add: e)
qed simp

section \<open>The search\<close>

definition search_answer :: "plan_ctx \<Rightarrow> State \<Rightarrow> (py_error + branch option \<times> memo_key set \<times> nat) option \<Rightarrow> bool" where
  "search_answer ctx a ans \<longleftrightarrow>
     (\<exists>res dead k. ans = Some (Inr (res, dead, k)) \<and>
        (\<forall>b. res = Some b \<longrightarrow> (\<exists>s. branch_ok ctx a s b) \<and> selected_items ctx \<subseteq> b_scheduled b))"

lemma shortest_path_in_ctx:
  assumes "ctx_ok ctx"
  obtains res k' where "shortest_path r k (full_graph ctx) s t {} = Some (Inr (res, k'))"
    "path_answer (full_graph ctx) {} s t res"
  using shortest_path_total assms unfolding ctx_ok_def by blast

lemma search_ok:
  "ctx_ok ctx \<Longrightarrow> branch_ok ctx a s b \<Longrightarrow> search_answer ctx a (backtrack_search r ctx visiting s b dead k)"
  "ctx_ok ctx \<Longrightarrow> branch_ok ctx a s b \<Longrightarrow> search_answer ctx a (try_targets r ctx visiting s b dead k targets)"
proof (induction r ctx visiting s b dead k and r ctx visiting s b dead k targets
    rule: backtrack_search_try_targets.induct)
  case (1 r ctx visiting s b dead k)
  let ?rem = "unscheduled_destinations ctx (b_scheduled b)"
  show ?case
  proof (cases "?rem = {} \<or> (s, ?rem) \<in> dead \<or> (s, ?rem) \<in> visiting")
    case True
    then show ?thesis using "1.prems" by (subst backtrack_search.simps) (auto simp: search_answer_def Let_def unscheduled_empty_iff)
  next
    case False
    then have "search_answer ctx a
        (try_targets r ctx (insert (s, ?rem) visiting) s b dead k (sorted_list_of_set ?rem))"
      using "1.IH" "1.prems" by simp
    with False show ?thesis
      by (subst backtrack_search.simps) (auto simp: search_answer_def Let_def split: option.splits)
  qed
next
  case (2 r ctx visiting s b dead k)
  then show ?case by (simp add: search_answer_def)
next
  case (3 r ctx visiting s b dead k target targets)
  obtain res k1 where sp: "shortest_path r k (full_graph ctx) s target {} = Some (Inr (res, k1))"
    and ans: "path_answer (full_graph ctx) {} s target res"
    using shortest_path_in_ctx [OF "3.prems"(1)] by blast
  show ?case
  proof (cases res)
    case None
    with "3.IH"(1) [OF sp refl refl] "3.prems" show ?thesis by (simp add: sp)
  next
    case (Some path)
    obtain s' b' where run: "run_selected_at ctx target (inject_bridge ctx path b) = (s', b')" by fastforce
    have path: "is_path (full_graph ctx) {} s path target" using ans Some by (simp add: path_answer_def)
    have b': "branch_ok ctx a s' b'"
      using run_selected_at_ok [OF inject_bridge_ok [OF "3.prems"(2) path "3.prems"(1)] _ run] "3.prems"(1)
      by (simp add: ctx_ok_def)
    have "search_answer ctx a (backtrack_search r ctx visiting s' b' dead k1)"
      using "3.IH"(2) [OF sp refl, unfolded Some] run b' "3.prems"(1) by simp
    then obtain res2 dead2 k2 where bt: "backtrack_search r ctx visiting s' b' dead k1 = Some (Inr (res2, dead2, k2))"
      and res2: "\<forall>b. res2 = Some b \<longrightarrow> (\<exists>s. branch_ok ctx a s b) \<and> selected_items ctx \<subseteq> b_scheduled b"
      by (auto simp: search_answer_def)
    show ?thesis
    proof (cases res2)
      case None
      have "search_answer ctx a (try_targets r ctx visiting s b dead2 k2 targets)"
        using "3.IH"(3) [OF sp refl, unfolded Some] run bt "3.prems" unfolding None by simp
      then show ?thesis by (simp add: sp Some run bt None)
    next
      case (Some b2)
      then show ?thesis using res2
        by (simp add: sp \<open>res = Some path\<close> run bt search_answer_def)
    qed
  qed
qed

section \<open>Labels do not disturb the plan\<close>

lemma mark_as_injected_frame [simp]:
  "length (objs (mark_as_injected i ls)) = length (objs ls)"
  "duplicate_original_ids (mark_as_injected i ls) = duplicate_original_ids ls"
  by (simp_all add: mark_as_injected_def Let_def set_obj_def split: prod.splits)

lemma mark_injected_items_frame [simp]:
  "length (objs (mark_injected_items plan ids ls)) = length (objs ls)"
  "duplicate_original_ids (mark_injected_items plan ids ls) = duplicate_original_ids ls"
  unfolding mark_injected_items_def by (induction plan arbitrary: ls) auto

lemma mark_injected_items_none [simp]: "mark_injected_items plan {} ls = ls"
  unfolding mark_injected_items_def by (induction plan) auto

lemma schedule_pure_injected [simp]: "b_injected (schedule_pure is b) = b_injected b"
  by (induction "is" arbitrary: b) auto

definition ctx_ids_ok :: "plan_ctx \<Rightarrow> 'a label_state_scheme \<Rightarrow> bool" where
  "ctx_ids_ok ctx ls \<longleftrightarrow>
     (\<forall>i \<in> selected_items ctx. i < length (objs ls)) \<and> (\<forall>t i. offers ctx t i \<longrightarrow> i < length (objs ls))"

lemma valid_run_ids: "valid_run ctx a p s \<Longrightarrow> ctx_ids_ok ctx ls \<Longrightarrow> valid_ids ls p"
proof (induction rule: valid_run.induct)
  case (valid_pure p s i)
  then have "i < length (objs ls)" using selected_pure [OF valid_pure.hyps(2)] by (simp add: ctx_ids_ok_def)
  with valid_pure show ?case by (simp add: valid_ids_def)
next
  case (valid_move p t i)
  then have "i < length (objs ls)" unfolding ctx_ids_ok_def by blast
  with valid_move show ?case by (simp add: valid_ids_def)
qed (simp add: valid_ids_def)

text \<open>What the planner hands back, before and after labelling.\<close>

definition realises :: "'a label_state_scheme \<Rightarrow> oid list \<Rightarrow> 'a label_state_scheme \<Rightarrow> oid list \<Rightarrow> bool" where
  "realises ls plan ls' res \<longleftrightarrow> length res = length plan \<and> distinct res \<and>
     (\<forall>p < length plan. original_id ls' (res ! p) = original_id ls (plan ! p))"

lemma disambiguate_realises:
  assumes "disambiguate_repeated_items plan (mark_injected_items plan ids ls) = (res, ls')" and "valid_ids ls plan"
  shows "realises ls plan ls' res"
  using disambiguate_post [OF assms(1)] assms(2)
  by (simp add: realises_def loop_post_def valid_ids_def original_id_def)

lemma build_execution_plan_cases:
  assumes "ctx_ok ctx"
  shows "(\<exists>b s res ls' k'. build_execution_plan r k ctx current ls = Some (Inr (res, ls', k')) \<and>
            branch_ok ctx current s b \<and> selected_items ctx \<subseteq> b_scheduled b \<and>
            (\<exists>ids. disambiguate_repeated_items (b_plan b) (mark_injected_items (b_plan b) ids ls) = (res, ls'))) \<or>
         (\<exists>s rem. build_execution_plan r k ctx current ls = Some (Inl (UnreachableStateError s rem)))"
proof -
  let ?b0 = "\<lparr>b_plan = [], b_scheduled = {}, b_injected = {}\<rparr>"
  obtain s b where b: "(if current \<in> unscheduled_destinations ctx {} then run_selected_at ctx current ?b0
      else (current, ?b0)) = (s, b)" by fastforce
  have b0: "branch_ok ctx current current ?b0" by (simp add: branch_ok_def valid_empty)
  from b have ok: "branch_ok ctx current s b"
    using run_selected_at_ok [OF b0] b0 assms by (auto simp: ctx_ok_def split: if_splits)
  have inj: "b_injected b = {}"
    using b by (auto simp: run_selected_at_def Let_def split: if_splits option.splits)
  show ?thesis
  proof (cases "unscheduled_destinations ctx (b_scheduled b) = {}")
    case True
    obtain res ls' where "disambiguate_repeated_items (b_plan b) ls = (res, ls')" by fastforce
    moreover from this have "disambiguate_repeated_items (b_plan b) (mark_injected_items (b_plan b) {} ls) = (res, ls')"
      by simp
    ultimately have "build_execution_plan r k ctx current ls = Some (Inr (res, ls', k))"
        "\<exists>ids. disambiguate_repeated_items (b_plan b) (mark_injected_items (b_plan b) ids ls) = (res, ls')"
      using True b by (simp add: build_execution_plan_def Let_def, blast)
    with True ok show ?thesis unfolding unscheduled_empty_iff by blast
  next
    case False
    have "search_answer ctx current (backtrack_search r ctx {} s (b\<lparr>b_injected := {}\<rparr>) {} k)"
      using search_ok(1) [OF assms] ok inj by (simp add: branch_ok_def)
    then obtain found dead k' where bt: "backtrack_search r ctx {} s (b\<lparr>b_injected := {}\<rparr>) {} k = Some (Inr (found, dead, k'))"
      and f: "\<forall>b. found = Some b \<longrightarrow> (\<exists>s. branch_ok ctx current s b) \<and> selected_items ctx \<subseteq> b_scheduled b"
      by (auto simp: search_answer_def)
    show ?thesis
    proof (cases found)
      case None
      with bt False b show ?thesis
        by (intro disjI2) (simp add: build_execution_plan_def Let_def)
    next
      case (Some bf)
      obtain res ls' where d: "disambiguate_repeated_items (b_plan bf)
          (mark_injected_items (b_plan bf) (b_injected bf) ls) = (res, ls')" by fastforce
      from f Some obtain s' where "branch_ok ctx current s' bf" "selected_items ctx \<subseteq> b_scheduled bf" by auto
      with bt False b Some d show ?thesis
        by (intro disjI1) (auto simp: build_execution_plan_def Let_def)
    qed
  qed
qed

section \<open>When the search succeeds\<close>

lemma schedule_pure_mono: "b_scheduled b \<subseteq> b_scheduled (schedule_pure is b)"
  by (simp add: schedule_pure_scheduled)

lemma bridge_edge_mono: "b_scheduled b \<subseteq> b_scheduled (bridge_edge ctx t b)"
  by (auto simp: bridge_edge_def split: option.splits list.splits)

lemma inject_bridge_mono: "b_scheduled b \<subseteq> b_scheduled (inject_bridge ctx path b)"
proof (induction path arbitrary: b)
  case (Cons e path)
  with bridge_edge_mono [of b ctx "fst e"] show ?case by (cases e) (auto dest: subsetD)
qed simp

definition selected_transitions_at :: "plan_ctx \<Rightarrow> State \<Rightarrow> oid list" where
  "selected_transitions_at ctx s =
     concat (map snd (filter (\<lambda>(st, items). from_state st = s) (selected_transitions ctx)))"

lemma run_selected_at_progress:
  assumes run: "run_selected_at ctx s b = (s', b')" and one: "length (selected_transitions_at ctx s) \<le> 1"
  shows "set (all_selected_at ctx s) \<subseteq> b_scheduled b'" and "b_scheduled b \<subseteq> b_scheduled b'"
    and "s' = s \<or> s' \<in> to_state ` set (dict_keys (selected_transitions ctx))"
proof -
  define b1 where "b1 = schedule_pure (dict_get_default (pure_clusters ctx) s []) b"
  have b1: "b_scheduled b1 = b_scheduled b \<union> set (dict_get_default (pure_clusters ctx) s [])"
    by (simp add: b1_def schedule_pure_scheduled)
  have sel: "set (all_selected_at ctx s) = set (dict_get_default (pure_clusters ctx) s []) \<union> set (selected_transitions_at ctx s)"
    by (simp add: all_selected_at_def selected_transitions_at_def)
  have mem: "i \<in> set (selected_transitions_at ctx s) \<longleftrightarrow>
      (\<exists>t is. (t, is) \<in> set (selected_transitions ctx) \<and> from_state t = s \<and> i \<in> set is)" for i
    by (force simp: selected_transitions_at_def)
  show "set (all_selected_at ctx s) \<subseteq> b_scheduled b'" and "b_scheduled b \<subseteq> b_scheduled b'"
    and "s' = s \<or> s' \<in> to_state ` set (dict_keys (selected_transitions ctx))"
  proof (atomize (full), cases "first_transition s (b_scheduled b1) (selected_transitions ctx)", goal_cases)
    case 1
    then have "b' = b1" "s' = s" using run by (simp_all add: run_selected_at_def b1_def [symmetric])
    moreover have "set (selected_transitions_at ctx s) \<subseteq> b_scheduled b1"
      using first_transition_NoneD [OF 1] mem by blast
    ultimately show ?case using b1 sel by auto
  next
    case (2 ti)
    then obtain t i where ti: "first_transition s (b_scheduled b1) (selected_transitions ctx) = Some (t, i)"
      by (cases ti) auto
    then have e: "b' = schedule i b1" "s' = to_state t"
      using run by (simp_all add: run_selected_at_def b1_def [symmetric])
    from first_transition_SomeD [OF ti] mem have "i \<in> set (selected_transitions_at ctx s)"
      and t: "t \<in> set (dict_keys (selected_transitions ctx))" by (auto simp: dict_keys_def image_iff) force
    with one have "set (selected_transitions_at ctx s) = {i}"
      by (cases "selected_transitions_at ctx s") auto
    with e b1 sel t show ?case by auto
  qed
qed

text \<open>
  One selected transition per state, and every destination reachable from every state the run
  can be left in.
\<close>

definition plan_states :: "plan_ctx \<Rightarrow> State \<Rightarrow> State set" where
  "plan_states ctx current =
     insert current (set (all_destinations ctx) \<union> to_state ` set (dict_keys (selected_transitions ctx)))"

definition well_connected :: "plan_ctx \<Rightarrow> State \<Rightarrow> bool" where
  "well_connected ctx current \<longleftrightarrow>
     (\<forall>s. length (selected_transitions_at ctx s) \<le> 1) \<and>
     (\<forall>s \<in> plan_states ctx current. \<forall>t \<in> set (all_destinations ctx). \<exists>p. is_path (full_graph ctx) {} s p t)"

lemma unscheduled_mono:
  "sch \<subseteq> sch' \<Longrightarrow> unscheduled_destinations ctx sch' \<subseteq> unscheduled_destinations ctx sch"
  by (auto simp: unscheduled_destinations_def)

lemma search_complete:
  assumes "ctx_ok ctx" and "well_connected ctx cur" and "s \<in> plan_states ctx cur"
    and "\<forall>(_, R) \<in> visiting. unscheduled_destinations ctx (b_scheduled b) \<subset> R"
  shows "\<exists>b' k'. backtrack_search r ctx visiting s b {} k = Some (Inr (Some b', {}, k'))"
  using assms(3,4)
proof (induction "card (unscheduled_destinations ctx (b_scheduled b))" arbitrary: visiting s b k rule: less_induct)
  case less
  let ?rem = "unscheduled_destinations ctx (b_scheduled b)"
  show ?case
  proof (cases "?rem = {}")
    case True
    then show ?thesis by (simp add: Let_def backtrack_search.simps)
  next
    case False
    then obtain t ts where ts: "sorted_list_of_set ?rem = t # ts"
      by (cases "sorted_list_of_set ?rem") auto
    then have t: "t \<in> ?rem" by (metis finite list.set_intros(1) set_sorted_list_of_set)
    then have td: "t \<in> set (all_destinations ctx)" by (simp add: unscheduled_destinations_def)
    then obtain p where p: "is_path (full_graph ctx) {} s p t"
      using assms(2) less.prems(1) unfolding well_connected_def by blast
    obtain res k1 where sp0: "shortest_path r k (full_graph ctx) s t {} = Some (Inr (res, k1))"
      and ans: "path_answer (full_graph ctx) {} s t res"
      using shortest_path_in_ctx [OF assms(1)] by blast
    from ans p obtain path where "res = Some path" by (cases res) (auto simp: path_answer_def)
    with sp0 have sp: "shortest_path r k (full_graph ctx) s t {} = Some (Inr (Some path, k1))" by simp
    obtain s' b' where run: "run_selected_at ctx t (inject_bridge ctx path b) = (s', b')" by fastforce
    have "length (selected_transitions_at ctx t) \<le> 1" using assms(2) by (simp add: well_connected_def)
    note prog = run_selected_at_progress [OF run this]
    let ?rem' = "unscheduled_destinations ctx (b_scheduled b')"
    have "t \<notin> ?rem'" using prog(1) by (auto simp: unscheduled_destinations_def)
    moreover have "?rem' \<subseteq> ?rem" using unscheduled_mono prog(2) inject_bridge_mono by (meson order_trans)
    ultimately have sub: "?rem' \<subset> ?rem" using t by auto
    then have card: "card ?rem' < card ?rem" by (intro psubset_card_mono) (simp_all add: unscheduled_destinations_def)
    have s': "s' \<in> plan_states ctx cur" using prog(3) td by (auto simp: plan_states_def)
    have "?rem' \<subset> R" if "(x, R) \<in> insert (s, ?rem) visiting" for x R
    proof -
      from that less.prems(2) have "?rem \<subseteq> R" by auto
      with sub show ?thesis by (rule psubset_subset_trans)
    qed
    then have "\<forall>(_, R) \<in> insert (s, ?rem) visiting. ?rem' \<subset> R" by blast
    from less.hyps [OF card s' this] obtain b'' k'' where
      bt: "backtrack_search r ctx (insert (s, ?rem) visiting) s' b' {} k1 = Some (Inr (Some b'', {}, k''))" by blast
    have "(s, ?rem) \<notin> visiting" using less.prems(2) by auto
    then show ?thesis
      using False bt by (subst backtrack_search.simps) (simp add: Let_def ts sp run)
  qed
qed

section \<open>Properties\<close>

text \<open>
  C9. A plan the planner returns is sound: it is a labelling of a run of the environment that
  starts in the current state, in which every pure test runs in a state of its cluster, every
  transition test starts in the source state of its edge, bridges included, and every selected
  test occurs; each position of the result is a distinct item that traces back to the test the
  run has there.
\<close>

theorem execution_plan_sound:
  assumes "ctx_ok ctx" and "ctx_ids_ok ctx ls"
    and "build_execution_plan r k ctx current ls = Some (Inr (res, ls', k'))"
  shows "\<exists>plan final. valid_run ctx current plan final \<and> selected_items ctx \<subseteq> set plan \<and> realises ls plan ls' res"
proof -
  obtain b s ids where b: "branch_ok ctx current s b" "selected_items ctx \<subseteq> b_scheduled b"
    and d: "disambiguate_repeated_items (b_plan b) (mark_injected_items (b_plan b) ids ls) = (res, ls')"
    using build_execution_plan_cases [OF assms(1), of r k current ls] assms(3) by auto
  then have run: "valid_run ctx current (b_plan b) s" by (simp add: branch_ok_def)
  with disambiguate_realises [OF d] assms(2) have "realises ls (b_plan b) ls' res" by (blast intro: valid_run_ids)
  with run b show ?thesis unfolding branch_ok_def by blast
qed

definition plan_demo_items :: label_state where
  "plan_demo_items = \<lparr>objs = replicate 5 demo_item, injected_item_ids = {}, duplicate_original_ids = Map.empty\<rparr>"

definition upgrade_edge :: StateTransition where
  "upgrade_edge = transition DEPLOYED_WITH_OLD_REVISION DEPLOYED"

definition redeploy_edge :: StateTransition where
  "redeploy_edge = transition DEPLOYED DEPLOYED_WITH_OLD_REVISION"

text \<open>Pure test 0 in the deployed state, upgrade tests among 1, 2, 3, and test 4 that redeploys.\<close>

definition plan_demo :: "oid list \<Rightarrow> plan_ctx" where
  "plan_demo upgrades = \<lparr>pure_clusters = [(DEPLOYED, [0])],
     selected_transitions = [(upgrade_edge, upgrades)],
     all_transitions = [(upgrade_edge, [1, 2, 3]), (redeploy_edge, [4])],
     full_graph = register_transition upgrade_edge 1 (register_transition redeploy_edge 4 [])\<rparr>"

lemma plan_demo_ok: "ctx_ok (plan_demo ups)"
proof -
  have "graph_ok (full_graph (plan_demo ups))" "positive_costs (full_graph (plan_demo ups))"
    by (auto simp: plan_demo_def upgrade_edge_def redeploy_edge_def transition_def
        intro!: graph_ok_register positive_costs_register)
  moreover have "dict_get_default (all_transitions (plan_demo ups)) (fst e) [] \<noteq> []"
    if "e \<in> set (edges_from (full_graph (plan_demo ups)) s)" for e s
    using that by (auto simp: plan_demo_def edges_from_register dict_get_default_def edges_from_def
        register_transition_def dict_append_def upgrade_edge_def redeploy_edge_def transition_def split: if_splits)
  ultimately show ?thesis by (auto simp: ctx_ok_def plan_demo_def dict_ok_def)
qed

lemma plan_demo_ids: "set ups \<subseteq> {1, 2, 3} \<Longrightarrow> ctx_ids_ok (plan_demo ups) plan_demo_items"
  by (auto simp: ctx_ids_ok_def plan_demo_def plan_demo_items_def selected_items_def all_selected_at_def
      offers_def dict_get_default_def split: if_splits)

theorem execution_plan_sound_witness:
  "\<exists>res ls' k' plan final.
     build_execution_plan (\<lambda>_. 0) 0 (plan_demo [1, 2]) DEPLOYED_WITH_OLD_REVISION plan_demo_items = Some (Inr (res, ls', k'))
   \<and> valid_run (plan_demo [1, 2]) DEPLOYED_WITH_OLD_REVISION plan final \<and> {0, 1, 2} \<subseteq> set plan \<and> realises plan_demo_items plan ls' res"
proof -
  have "(case build_execution_plan (\<lambda>_. 0) 0 (plan_demo [1, 2]) DEPLOYED_WITH_OLD_REVISION plan_demo_items of
      Some (Inr (res, ls', k')) \<Rightarrow> res = [1, 0, 4, 2] | _ \<Rightarrow> False)" by code_simp
  then obtain res ls' k' where run: "build_execution_plan (\<lambda>_. 0) 0 (plan_demo [1, 2]) DEPLOYED_WITH_OLD_REVISION plan_demo_items =
      Some (Inr (res, ls', k'))" by (auto split: option.splits sum.splits)
  have sel: "{0, 1, 2} \<subseteq> selected_items (plan_demo [1, 2])"
  proof -
    have "0 \<in> set (all_selected_at (plan_demo [1, 2]) DEPLOYED)"
      "{1, 2} \<subseteq> set (all_selected_at (plan_demo [1, 2]) DEPLOYED_WITH_OLD_REVISION)"
      by code_simp+
    then show ?thesis by (auto simp: selected_items_def)
  qed
  from execution_plan_sound [OF plan_demo_ok plan_demo_ids run] sel run show ?thesis by auto
qed

text \<open>
  C22. The planner always comes back: on a context the collection hook builds it ends, raises
  none of Python's own errors, and either returns a plan or raises \<open>_UnreachableStateError\<close>.
\<close>

theorem execution_plan_total:
  assumes "ctx_ok ctx"
  shows "(\<exists>res ls' k'. build_execution_plan r k ctx current ls = Some (Inr (res, ls', k'))) \<or>
    (\<exists>s rem. build_execution_plan r k ctx current ls = Some (Inl (UnreachableStateError s rem)))"
  using build_execution_plan_cases [OF assms, of r k current ls] by blast

theorem execution_plan_total_witness:
  "\<exists>s rem. build_execution_plan (\<lambda>_. 0) 0 (plan_demo [1]) EMPTY_MODEL plan_demo_items = Some (Inl (UnreachableStateError s rem))"
proof -
  have "(case build_execution_plan (\<lambda>_. 0) 0 (plan_demo [1]) EMPTY_MODEL plan_demo_items of
      Some (Inr (res, ls', k')) \<Rightarrow> False | _ \<Rightarrow> True)" by code_simp
  with execution_plan_total [OF plan_demo_ok, of "\<lambda>_. 0" 0 "[1]" EMPTY_MODEL plan_demo_items] show ?thesis
    by auto
qed

text \<open>
  C23. The planner finds a plan whenever no state has more than one selected transition test and
  every state with selected tests can be reached from the current state, from every state with
  selected tests and from every state a selected transition ends in.
\<close>

theorem execution_plan_complete:
  assumes "ctx_ok ctx" and "well_connected ctx current"
  shows "\<exists>res ls' k'. build_execution_plan r k ctx current ls = Some (Inr (res, ls', k'))"
proof -
  let ?b0 = "\<lparr>b_plan = [], b_scheduled = {}, b_injected = {}\<rparr>"
  obtain s b where b: "(if current \<in> unscheduled_destinations ctx {} then run_selected_at ctx current ?b0
      else (current, ?b0)) = (s, b)" by fastforce
  have "length (selected_transitions_at ctx current) \<le> 1" using assms(2) by (simp add: well_connected_def)
  with b run_selected_at_progress(3) [of ctx current ?b0] have s: "s \<in> plan_states ctx current"
    by (auto simp: plan_states_def split: if_splits)
  obtain b' k' where "backtrack_search r ctx {} s (b\<lparr>b_injected := {}\<rparr>) {} k = Some (Inr (Some b', {}, k'))"
    using search_complete [OF assms s, of "{}" "b\<lparr>b_injected := {}\<rparr>" r k] by auto
  with b show ?thesis by (simp add: build_execution_plan_def Let_def split: prod.splits)
qed

theorem execution_plan_complete_witness:
  "\<exists>res ls' k'. build_execution_plan (\<lambda>_. 0) 0 (plan_demo [3]) DEPLOYED plan_demo_items = Some (Inr (res, ls', k'))"
proof (rule execution_plan_complete [OF plan_demo_ok])
  let ?g = "full_graph (plan_demo [3])"
  have up: "is_path ?g {} DEPLOYED_WITH_OLD_REVISION [(upgrade_edge, 1)] DEPLOYED"
    and down: "is_path ?g {} DEPLOYED [(redeploy_edge, 4)] DEPLOYED_WITH_OLD_REVISION"
    by (simp_all add: plan_demo_def usable_def edges_from_register upgrade_edge_def redeploy_edge_def transition_def)
  have dest: "set (all_destinations (plan_demo [3])) = {DEPLOYED, DEPLOYED_WITH_OLD_REVISION}"
    "plan_states (plan_demo [3]) DEPLOYED = {DEPLOYED, DEPLOYED_WITH_OLD_REVISION}"
    by (auto simp: all_destinations_def plan_states_def plan_demo_def dict_keys_def upgrade_edge_def transition_def)
  have "is_path ?g {} s [] s" for s by simp
  with up down have "\<exists>p. is_path ?g {} s p t"
    if "s \<in> {DEPLOYED, DEPLOYED_WITH_OLD_REVISION}" "t \<in> {DEPLOYED, DEPLOYED_WITH_OLD_REVISION}" for s t
    using that by blast
  moreover have "length (selected_transitions_at (plan_demo [3]) s) \<le> 1" for s
    by (simp add: selected_transitions_at_def plan_demo_def)
  ultimately show "well_connected (plan_demo [3]) DEPLOYED" unfolding well_connected_def dest by blast
qed

end
