(* ===== verification/Sched_Runtime.thy ===== *)
theory Sched_Runtime
  imports Sched_Plan
begin

text \<open>
  The run-time half of the scheduler plugin (the hooks of
  \<^verbatim>\<open>test_suite/scheduler/plugin.py\<close>). The module-level globals and the part of the pytest
  session the hooks write are one record that extends the labelling state. Each hook is a
  function of that record; a raised exception carries the state it leaves behind. What pytest
  does between the hooks (running the test, tearing down towards an item) enters as an argument:
  the report of a phase, and what \<open>teardown_exact\<close> raises.
\<close>

record sched_state = label_state +
  all_collected :: "oid list"
  failed_state_test :: "oid option"
  current_state :: "State option"
  sched_graph :: "oid StateGraph option"
  sched_transitions :: "(StateTransition, oid list) dict"
  recovery_counter :: nat
  skipped_transitions :: "StateTransition set"
  skipped_transition_item_ids :: "StateTransition \<rightharpoonup> oid set"
  session_items :: "oid list"
  testscollected :: int
  testsfailed :: int
  maxfail :: int
  shouldfail :: "int option"
  draws :: nat

section \<open>Exceptions of the recovery\<close>

text \<open>
  The exceptions the recovery tells apart: an ordinary \<open>Exception\<close>, the outcomes of
  \<open>pytest.skip\<close> and \<open>pytest.fail\<close>, the outcome of \<open>pytest.exit\<close>, other \<open>BaseException\<close>s
  such as \<open>KeyboardInterrupt\<close>, and groups. \<open>split\<close> is that of \<open>BaseExceptionGroup\<close>.
\<close>

datatype exc_kind = OrdinaryException | SkippedOutcome | FailedOutcome | ExitOutcome | AbortException

datatype exc = Leaf exc_kind | Group "exc list"

fun is_recoverable_reconciliation_failure :: "exc \<Rightarrow> bool" where
  "is_recoverable_reconciliation_failure (Group _) = False"
| "is_recoverable_reconciliation_failure (Leaf k) = (k \<noteq> ExitOutcome \<and> k \<noteq> AbortException)"

fun split_exc :: "(exc \<Rightarrow> bool) \<Rightarrow> exc \<Rightarrow> exc option \<times> exc option"
  and split_excs :: "(exc \<Rightarrow> bool) \<Rightarrow> exc list \<Rightarrow> exc list \<times> exc list" where
  "split_exc p (Leaf k) = (if p (Leaf k) then (Some (Leaf k), None) else (None, Some (Leaf k)))"
| "split_exc p (Group es) =
     (if p (Group es) then (Some (Group es), None)
      else let (m, r) = split_excs p es
           in (if m = [] then None else Some (Group m), if r = [] then None else Some (Group r)))"
| "split_excs p [] = ([], [])"
| "split_excs p (e # es) =
     (let (m, r) = split_exc p e; (ms, rs) = split_excs p es
      in ((case m of None \<Rightarrow> ms | Some x \<Rightarrow> x # ms), (case r of None \<Rightarrow> rs | Some x \<Rightarrow> x # rs)))"

section \<open>Reading the marker of an item\<close>

datatype exit_reason =
    InvalidCurrentState py_str
  | InvalidMarker marker_error
  | NoPlan State "State set"

datatype hook_error =
    MarkerRaised marker_error
  | PyRaised py_error
  | Propagated exc
  | SessionExit exit_reason

definition item_marker :: "'a label_state_scheme \<Rightarrow> oid \<Rightarrow> marker_error + StateMarker option" where
  "item_marker ls i = read_state_marker (state_mark (obj ls i))"

text \<open>\<open>try: read_state_marker(item) except ValueError: None\<close>; the \<open>IndexError\<close> escapes.\<close>

definition marker_or_none :: "'a label_state_scheme \<Rightarrow> oid \<Rightarrow> marker_error + StateMarker option" where
  "marker_or_none ls i =
     (case item_marker ls i of
        Inl e \<Rightarrow> if is_value_error e then Inr None else Inl e
      | Inr m \<Rightarrow> Inr m)"

section \<open>Reports\<close>

datatype phase = SetupPhase | CallPhase | TeardownPhase
datatype outcome = Passed | Failed | Skipped

record report =
  rep_when :: phase
  rep_outcome :: outcome
  wasxfail :: bool

definition skipped_ids :: "sched_state \<Rightarrow> StateTransition \<Rightarrow> oid set" where
  "skipped_ids st edge = (case skipped_transition_item_ids st edge of None \<Rightarrow> {} | Some ids \<Rightarrow> ids)"

definition record_skipped_transition_candidate :: "StateTransition \<Rightarrow> oid \<Rightarrow> sched_state \<Rightarrow> sched_state" where
  "record_skipped_transition_candidate edge i st =
     (let ids = insert (original_id st i) (skipped_ids st edge);
          st' = st\<lparr>skipped_transition_item_ids := (skipped_transition_item_ids st)(edge \<mapsto> ids)\<rparr>;
          candidates = dict_get_default (sched_transitions st) edge []
      in if candidates \<noteq> [] \<and> set candidates \<subseteq> ids
         then st'\<lparr>skipped_transitions := insert edge (skipped_transitions st)\<rparr> else st')"

definition record_skip :: "StateMarker \<Rightarrow> oid \<Rightarrow> sched_state \<Rightarrow> sched_state" where
  "record_skip m i st =
     foldl (\<lambda>s req. if Some req = current_state s
                    then record_skipped_transition_candidate (transition req (provides m)) i s else s)
       st (requires m)"

definition runtest_makereport :: "sched_state \<Rightarrow> oid \<Rightarrow> report \<Rightarrow> marker_error + sched_state" where
  "runtest_makereport st i rep =
     (if current_state st = None then Inr st
      else bind_result (marker_or_none st i) (\<lambda>marker.
        case marker of
          None \<Rightarrow> Inr st
        | Some m \<Rightarrow>
            if rep_outcome rep = Failed \<or> rep_outcome rep = Skipped \<and> wasxfail rep
            then Inr (st\<lparr>failed_state_test := Some i, current_state := None\<rparr>)
            else if rep_when rep = CallPhase \<and> rep_outcome rep = Passed
            then Inr (st\<lparr>current_state := Some (provides m)\<rparr>)
            else if rep_outcome rep = Skipped \<and> is_transition m then Inr (record_skip m i st)
            else Inr st))"

section \<open>Setup\<close>

datatype skip_reason =
    StateUnknown "oid option"
  | RequiresUnmet State "State list"
  | AlreadySkipped State State

datatype setup_outcome = RunTest | SkipTest skip_reason

definition runtest_setup :: "sched_state \<Rightarrow> oid \<Rightarrow> marker_error + setup_outcome" where
  "runtest_setup st i =
     (if failed_state_test st = Some i then Inr RunTest
      else bind_result (marker_or_none st i) (\<lambda>marker.
        case marker of
          None \<Rightarrow> Inr RunTest
        | Some m \<Rightarrow>
            (case current_state st of
               None \<Rightarrow> Inr (SkipTest (StateUnknown (failed_state_test st)))
             | Some cur \<Rightarrow>
                 if cur \<notin> set (requires m) then Inr (SkipTest (RequiresUnmet cur (requires m)))
                 else if is_transition m \<and> original_id st i \<in> skipped_ids st (transition cur (provides m))
                 then Inr (SkipTest (AlreadySkipped cur (provides m)))
                 else Inr RunTest)))"

section \<open>Recovery\<close>

definition handle_reconciliation_failure :: "oid \<Rightarrow> sched_state \<Rightarrow> sched_state" where
  "handle_reconciliation_failure i st =
     (let failed = testsfailed st + 1;
          st' = st\<lparr>testsfailed := failed\<rparr>;
          st'' = (if maxfail st \<noteq> 0 \<and> maxfail st \<le> failed then st'\<lparr>shouldfail := Some failed\<rparr> else st')
      in st''\<lparr>current_state := None, failed_state_test := Some i\<rparr>)"

fun shortest_path_to_any ::
    "(nat \<Rightarrow> nat) \<Rightarrow> nat \<Rightarrow> 'i StateGraph \<Rightarrow> State \<Rightarrow> State list \<Rightarrow> StateTransition set \<Rightarrow>
       ('i edge list \<times> int) option \<Rightarrow> (py_error + 'i edge list option \<times> nat) option" where
  "shortest_path_to_any r k g src [] avoid best = Some (Inr (map_option fst best, k))"
| "shortest_path_to_any r k g src (target # targets) avoid best =
     (case shortest_path r k g src target avoid of
        None \<Rightarrow> None
      | Some (Inl err) \<Rightarrow> Some (Inl err)
      | Some (Inr (None, k1)) \<Rightarrow> shortest_path_to_any r k1 g src targets avoid best
      | Some (Inr (Some path, k1)) \<Rightarrow>
          (let c = sum_list (map (\<lambda>e. cost (fst e)) path) in
           shortest_path_to_any r k1 g src targets avoid
             (case best of
                None \<Rightarrow> Some (path, c)
              | Some (bp, bc) \<Rightarrow> if c < bc then Some (path, c) else Some (bp, bc))))"

text \<open>
  The loop of \<open>_find_recovery_bridge\<close> over the edges of the path: a candidate that has not
  skipped if there is one, else the first; duplicated under a fresh name and marked as injected.
\<close>

definition recovery_template :: "StateTransition \<Rightarrow> oid \<Rightarrow> oid list \<Rightarrow> sched_state \<Rightarrow> oid" where
  "recovery_template t c cs st =
     (case find (\<lambda>x. x \<notin> skipped_ids st t) (c # cs) of None \<Rightarrow> c | Some x \<Rightarrow> x)"

definition recovery_duplicate :: "oid \<Rightarrow> sched_state \<Rightarrow> oid \<times> sched_state" where
  "recovery_duplicate template st =
     (let n = Suc (recovery_counter st);
          (dup, st1) = duplicate_item_for_repeat template n
             (Some (item_name (obj st template) @ ''(recovered)''))
             (Some (item_nodeid (obj st template) @ ''(recovered)'')) (st\<lparr>recovery_counter := n\<rparr>)
      in (dup, mark_as_injected dup st1))"

fun bridge_templates :: "oid edge list \<Rightarrow> sched_state \<Rightarrow> oid list option \<times> sched_state" where
  "bridge_templates [] st = (Some [], st)"
| "bridge_templates ((t, _) # path) st =
     (case dict_get_default (sched_transitions st) t [] of
        [] \<Rightarrow> (None, st)
      | c # cs \<Rightarrow>
          let (dup, st1) = recovery_duplicate (recovery_template t c cs st) st;
              (rest, st2) = bridge_templates path st1
          in (map_option (\<lambda>ds. dup # ds) rest, st2))"

definition find_recovery_bridge ::
    "(nat \<Rightarrow> nat) \<Rightarrow> oid StateGraph \<Rightarrow> State \<Rightarrow> State list \<Rightarrow> sched_state \<Rightarrow>
       (py_error + oid list option \<times> sched_state) option" where
  "find_recovery_bridge r g src targets st =
     (case shortest_path_to_any r (draws st) g src targets (skipped_transitions st) None of
        None \<Rightarrow> None
      | Some (Inl err) \<Rightarrow> Some (Inl err)
      | Some (Inr (None, k)) \<Rightarrow> Some (Inr (None, st\<lparr>draws := k\<rparr>))
      | Some (Inr (Some path, k)) \<Rightarrow> Some (Inr (bridge_templates path (st\<lparr>draws := k\<rparr>))))"

text \<open>The states a next item may still start from.\<close>

definition candidate_requires :: "sched_state \<Rightarrow> oid \<Rightarrow> StateMarker \<Rightarrow> State list" where
  "candidate_requires st i m =
     (if is_transition m
      then filter (\<lambda>s. original_id st i \<notin> skipped_ids st (transition s (provides m))) (requires m)
      else requires m)"

text \<open>\<open>session_items.index(item)\<close>.\<close>

fun index_of :: "'a \<Rightarrow> 'a list \<Rightarrow> nat option" where
  "index_of x [] = None"
| "index_of x (y # ys) = (if x = y then Some 0 else map_option Suc (index_of x ys))"

definition reconcile :: "oid \<Rightarrow> exc option \<Rightarrow> sched_state \<Rightarrow> hook_error \<times> sched_state + sched_state" where
  "reconcile i raised st =
     (case raised of
        None \<Rightarrow> Inr st
      | Some (Group es) \<Rightarrow>
          (case split_exc is_recoverable_reconciliation_failure (Group es) of
             (_, Some unrecoverable) \<Rightarrow> Inl (Propagated unrecoverable, st)
           | (_, None) \<Rightarrow> Inr (handle_reconciliation_failure i st))
      | Some (Leaf k) \<Rightarrow>
          (if k = ExitOutcome \<or> k = AbortException then Inl (Propagated (Leaf k), st)
           else Inr (handle_reconciliation_failure i st)))"

definition runtest_protocol ::
    "(nat \<Rightarrow> nat) \<Rightarrow> (oid \<Rightarrow> exc option) \<Rightarrow> sched_state \<Rightarrow> oid \<Rightarrow> oid option \<Rightarrow>
       (hook_error \<times> sched_state + sched_state) option" where
  "runtest_protocol r teardown_exact st i nextitem =
     (case (nextitem, current_state st, sched_graph st) of
        (Some nxt, Some cur, Some g) \<Rightarrow>
          (case marker_or_none st nxt of
             Inl e \<Rightarrow> Some (Inl (MarkerRaised e, st))
           | Inr None \<Rightarrow> Some (Inr st)
           | Inr (Some m) \<Rightarrow>
               let targets = candidate_requires st nxt m in
               if cur \<in> set targets \<or> targets = [] then Some (Inr st)
               else
                 (case find_recovery_bridge r g cur targets st of
                    None \<Rightarrow> None
                  | Some (Inl err) \<Rightarrow> Some (Inl (PyRaised err, st))
                  | Some (Inr (None, st1)) \<Rightarrow> Some (Inr st1)
                  | Some (Inr (Some bridge, st1)) \<Rightarrow>
                      (case index_of i (session_items st1) of
                         None \<Rightarrow> Some (Inl (PyRaised ValueError, st1))
                       | Some n \<Rightarrow>
                           let st2 = st1\<lparr>session_items := take (Suc n) (session_items st1) @ bridge @ drop (Suc n) (session_items st1),
                                         testscollected := testscollected st1 + int (length bridge)\<rparr>
                           in (case bridge of
                                 [] \<Rightarrow> Some (Inl (PyRaised IndexError, st2))
                               | first # _ \<Rightarrow> Some (reconcile i (teardown_exact first) st2)))))
      | _ \<Rightarrow> Some (Inr st))"

section \<open>Collection\<close>

fun register_item_edges :: "State list \<Rightarrow> State \<Rightarrow> oid \<Rightarrow>
    oid StateGraph \<times> (StateTransition, oid list) dict \<Rightarrow> oid StateGraph \<times> (StateTransition, oid list) dict" where
  "register_item_edges [] prov i acc = acc"
| "register_item_edges (req # reqs) prov i (g, edge_items) =
     register_item_edges reqs prov i
       (register_transition (transition req prov) i g, dict_append (transition req prov) i edge_items)"

fun collect_graph :: "'a label_state_scheme \<Rightarrow> oid list \<Rightarrow>
    oid StateGraph \<times> (StateTransition, oid list) dict \<Rightarrow>
    marker_error + oid StateGraph \<times> (StateTransition, oid list) dict" where
  "collect_graph ls [] acc = Inr acc"
| "collect_graph ls (i # is) acc =
     bind_result (item_marker ls i) (\<lambda>marker.
       collect_graph ls is
         (case marker of
            Some m \<Rightarrow> if is_transition m then register_item_edges (requires m) (provides m) i acc else acc
          | None \<Rightarrow> acc))"

fun partition_items :: "'a label_state_scheme \<Rightarrow> oid list \<Rightarrow> marker_error + (oid \<times> StateMarker) list \<times> oid list" where
  "partition_items ls [] = Inr ([], [])"
| "partition_items ls (i # is) =
     bind_result (item_marker ls i) (\<lambda>marker.
     bind_result (partition_items ls is) (\<lambda>(marked, unmarked).
       case marker of
         Some m \<Rightarrow> Inr ((i, m) # marked, unmarked)
       | None \<Rightarrow> Inr (marked, i # unmarked)))"

definition add_cluster :: "oid \<times> StateMarker \<Rightarrow> (State, oid list) dict \<times> (StateTransition, oid list) dict \<Rightarrow>
    (State, oid list) dict \<times> (StateTransition, oid list) dict" where
  "add_cluster im acc =
     (let (i, m) = im; (pure, sel) = acc in
      if bridge_only m then acc
      else if is_transition m
      then (pure, fold (\<lambda>req. dict_append (transition req (provides m)) i) (requires m) sel)
      else (fold (\<lambda>req. dict_append req i) (requires m) pure, sel))"

definition build_clusters :: "(oid \<times> StateMarker) list \<Rightarrow> (State, oid list) dict \<times> (StateTransition, oid list) dict" where
  "build_clusters marked = fold add_cluster marked ([], [])"

text \<open>A marker error reaches \<open>pytest.exit\<close> if it is a \<open>ValueError\<close>, and escapes otherwise.\<close>

definition marker_failure :: "marker_error \<Rightarrow> hook_error" where
  "marker_failure e = (if is_value_error e then SessionExit (InvalidMarker e) else MarkerRaised e)"

definition publish :: "oid StateGraph \<Rightarrow> (StateTransition, oid list) dict \<Rightarrow> State \<Rightarrow> sched_state \<Rightarrow> sched_state" where
  "publish g edge_items cur st = st\<lparr>sched_graph := Some g, sched_transitions := edge_items, current_state := Some cur,
     failed_state_test := None, recovery_counter := 0, skipped_transitions := {},
     skipped_transition_item_ids := Map.empty\<rparr>"

text \<open>The hook returns the new content of \<open>items\<close>; pytest makes it the session's items.\<close>

definition collection_modifyitems ::
    "(nat \<Rightarrow> nat) \<Rightarrow> py_str \<Rightarrow> oid list \<Rightarrow> sched_state \<Rightarrow> (hook_error \<times> sched_state + oid list \<times> sched_state) option" where
  "collection_modifyitems r raw_state items st =
     (case state_of_str raw_state of
        None \<Rightarrow> Some (Inl (SessionExit (InvalidCurrentState raw_state), st))
      | Some cur \<Rightarrow>
          (case collect_graph st (all_collected st) ([], []) of
             Inl e \<Rightarrow> Some (Inl (marker_failure e, st))
           | Inr (g, edge_items) \<Rightarrow>
               let st1 = publish g edge_items cur st in
               (case partition_items st1 items of
                  Inl e \<Rightarrow> Some (Inl (marker_failure e, st1))
                | Inr (marked, unmarked) \<Rightarrow>
                    if marked = [] then Some (Inr (items, st1))
                    else
                      let (pure, sel) = build_clusters marked;
                          ctx = \<lparr>pure_clusters = pure, selected_transitions = sel, all_transitions = edge_items, full_graph = g\<rparr>
                      in (case build_execution_plan r (draws st1) ctx cur st1 of
                            None \<Rightarrow> None
                          | Some (Inl (UnreachableStateError s rem)) \<Rightarrow> Some (Inl (SessionExit (NoPlan s rem), st1))
                          | Some (Inl (PlanRaised err)) \<Rightarrow> Some (Inl (PyRaised err, st1))
                          | Some (Inr (ordered, st2, k)) \<Rightarrow> Some (Inr (ordered @ unmarked, st2\<lparr>draws := k\<rparr>))))))"

definition itemcollected :: "oid \<Rightarrow> sched_state \<Rightarrow> sched_state" where
  "itemcollected i st = st\<lparr>all_collected := all_collected st @ [i]\<rparr>"

definition sessionfinish :: "sched_state \<Rightarrow> sched_state" where
  "sessionfinish st = st\<lparr>all_collected := [], injected_item_ids := {}, duplicate_original_ids := Map.empty,
     failed_state_test := None, current_state := None, sched_graph := None, sched_transitions := [],
     recovery_counter := 0, skipped_transitions := {}, skipped_transition_item_ids := Map.empty\<rparr>"

end
