(* ===== verification/Sched_Runtime_Correct.thy ===== *)
theory Sched_Runtime_Correct
  imports Sched_Runtime
begin

text \<open>
  What the hooks of the scheduler guarantee: the exceptions of the reconciliation, the unknown
  state, the bookkeeping of skipped transitions, the recovery bridge, and the agreement between
  the plan of the collection hook and the run-time checks of the setup hook.
\<close>

section \<open>Exceptions\<close>

fun leaves :: "exc \<Rightarrow> exc_kind list" where
  "leaves (Leaf k) = [k]"
| "leaves (Group es) = concat (map leaves es)"

definition aborts :: "exc_kind \<Rightarrow> bool" where
  "aborts k \<longleftrightarrow> k = ExitOutcome \<or> k = AbortException"

definition opt_leaves :: "exc option \<Rightarrow> exc_kind list" where
  "opt_leaves o' = (case o' of None \<Rightarrow> [] | Some e \<Rightarrow> leaves e)"

lemma split_exc_leaves:
  "opt_leaves (snd (split_exc is_recoverable_reconciliation_failure e)) = filter aborts (leaves e)"
  "concat (map leaves (snd (split_excs is_recoverable_reconciliation_failure es))) =
     filter aborts (concat (map leaves es))"
proof (induction "is_recoverable_reconciliation_failure" e and "is_recoverable_reconciliation_failure" es
    rule: split_exc_split_excs.induct)
  case (1 k)
  then show ?case by (simp add: opt_leaves_def aborts_def)
next
  case (2 es)
  then show ?case by (auto simp: opt_leaves_def Let_def split: prod.splits)
next
  case 3
  then show ?case by simp
next
  case (4 e es)
  then show ?case by (auto simp: opt_leaves_def Let_def split: prod.splits option.splits)
qed

lemma split_exc_rest:
  "snd (split_exc is_recoverable_reconciliation_failure e) = Some u \<Longrightarrow> leaves u \<noteq> []"
  "\<forall>u \<in> set (snd (split_excs is_recoverable_reconciliation_failure es)). leaves u \<noteq> []"
proof (induction "is_recoverable_reconciliation_failure" e and "is_recoverable_reconciliation_failure" es
    arbitrary: u rule: split_exc_split_excs.induct)
  case (2 es)
  then show ?case by (auto simp: Let_def split: prod.splits if_splits)
next
  case (4 e es)
  then show ?case by (auto simp: Let_def split: prod.splits option.splits)
qed (auto split: if_splits)

section \<open>Frame rules\<close>

lemma record_skipped_frame [simp]:
  "current_state (record_skipped_transition_candidate e i st) = current_state st"
  "failed_state_test (record_skipped_transition_candidate e i st) = failed_state_test st"
  "sched_graph (record_skipped_transition_candidate e i st) = sched_graph st"
  "sched_transitions (record_skipped_transition_candidate e i st) = sched_transitions st"
  "objs (record_skipped_transition_candidate e i st) = objs st"
  "duplicate_original_ids (record_skipped_transition_candidate e i st) = duplicate_original_ids st"
  by (simp_all add: record_skipped_transition_candidate_def Let_def)

lemma record_skipped_ids:
  "skipped_ids (record_skipped_transition_candidate e i st) e' =
     (if e' = e then insert (original_id st i) (skipped_ids st e) else skipped_ids st e')"
  by (simp add: record_skipped_transition_candidate_def Let_def skipped_ids_def)

text \<open>A property of the state that every recording keeps is kept by a skipped report.\<close>

lemma record_skip_induct:
  assumes "P st" and "\<And>s req. P s \<Longrightarrow> current_state s = Some req \<Longrightarrow> req \<in> set (requires m) \<Longrightarrow>
      P (record_skipped_transition_candidate (transition req (provides m)) i s)"
  shows "P (record_skip m i st)"
proof -
  have "P (foldl (\<lambda>s req. if Some req = current_state s
      then record_skipped_transition_candidate (transition req (provides m)) i s else s) st reqs)"
    if "set reqs \<subseteq> set (requires m)" for reqs
    using that assms(1)
  proof (induction reqs arbitrary: st)
    case (Cons req reqs)
    have "P (if Some req = current_state st
        then record_skipped_transition_candidate (transition req (provides m)) i st else st)"
      using assms(2) [of st req] Cons.prems by simp
    with Cons.IH Cons.prems(1) show ?case by simp
  qed simp
  then show ?thesis by (simp add: record_skip_def)
qed

lemma record_skip_frame [simp]:
  "current_state (record_skip m i st) = current_state st"
  "failed_state_test (record_skip m i st) = failed_state_test st"
  "sched_graph (record_skip m i st) = sched_graph st"
  "sched_transitions (record_skip m i st) = sched_transitions st"
  "objs (record_skip m i st) = objs st"
  "duplicate_original_ids (record_skip m i st) = duplicate_original_ids st"
proof -
  have "current_state (record_skip m i st) = current_state st \<and>
      failed_state_test (record_skip m i st) = failed_state_test st \<and>
      sched_graph (record_skip m i st) = sched_graph st \<and>
      sched_transitions (record_skip m i st) = sched_transitions st \<and> objs (record_skip m i st) = objs st \<and>
      duplicate_original_ids (record_skip m i st) = duplicate_original_ids st"
    by (rule record_skip_induct) simp_all
  then show "current_state (record_skip m i st) = current_state st"
    "failed_state_test (record_skip m i st) = failed_state_test st"
    "sched_graph (record_skip m i st) = sched_graph st"
    "sched_transitions (record_skip m i st) = sched_transitions st" "objs (record_skip m i st) = objs st"
    "duplicate_original_ids (record_skip m i st) = duplicate_original_ids st" by simp_all
qed

lemma record_skip_records:
  assumes "current_state st = Some cur" and "cur \<in> set (requires m)"
  shows "original_id st i \<in> skipped_ids (record_skip m i st) (transition cur (provides m))"
proof -
  let ?e = "transition cur (provides m)"
  define f where "f = (\<lambda>s req. if Some req = current_state s
    then record_skipped_transition_candidate (transition req (provides m)) i s else s)"
  have f: "skipped_ids s e \<subseteq> skipped_ids (f s q) e" for s q e by (auto simp: f_def record_skipped_ids)
  have keep: "skipped_ids s e \<subseteq> skipped_ids (foldl f s reqs) e" for s reqs e
  proof (induction reqs arbitrary: s)
    case (Cons q reqs)
    with f [of s e q] show ?case by (metis foldl_Cons subset_trans)
  qed simp
  have "original_id st i \<in> skipped_ids (foldl f s reqs) ?e"
    if "cur \<in> set reqs" "current_state s = Some cur" "duplicate_original_ids s = duplicate_original_ids st" for s reqs
    using that
  proof (induction reqs arbitrary: s)
    case (Cons q reqs)
    show ?case
    proof (cases "q = cur")
      case True
      with Cons.prems have "original_id st i \<in> skipped_ids (f s q) ?e"
        by (simp add: f_def record_skipped_ids original_id_def)
      then show ?thesis using keep [of "f s q" ?e reqs] by auto
    next
      case False
      with Cons show ?thesis by (simp add: f_def)
    qed
  qed simp
  with assms show ?thesis by (simp add: record_skip_def f_def)
qed

text \<open>What a passed or failed or skipped report can do to the state.\<close>

lemma makereport_cases:
  assumes "runtest_makereport st i rep = Inr st'"
  obtains (same) "st' = st"
  | (failed) "current_state st \<noteq> None" "st' = st\<lparr>failed_state_test := Some i, current_state := None\<rparr>"
  | (advance) m where "current_state st \<noteq> None" "marker_or_none st i = Inr (Some m)"
      "st' = st\<lparr>current_state := Some (provides m)\<rparr>"
  | (skip) m where "current_state st \<noteq> None" "marker_or_none st i = Inr (Some m)" "is_transition m"
      "st' = record_skip m i st"
proof (cases "current_state st")
  case None
  with assms have "st' = st" by (simp add: runtest_makereport_def)
  then show ?thesis by (rule same)
next
  case cur: (Some c)
  with assms obtain marker where m: "marker_or_none st i = Inr marker"
    by (auto simp: runtest_makereport_def bind_result_Inr_iff)
  note run = assms [unfolded runtest_makereport_def cur m, simplified]
  show ?thesis
  proof (cases marker)
    case None
    with run same show ?thesis by simp
  next
    case (Some mk)
    note run' = run [unfolded Some, simplified]
    consider "st' = st" | "st' = st\<lparr>failed_state_test := Some i, current_state := None\<rparr>"
      | "st' = st\<lparr>current_state := Some (provides mk)\<rparr>" | "is_transition mk" "st' = record_skip mk i st"
      using run' by (auto split: if_splits)
    then show ?thesis
    proof cases
      case 1
      then show ?thesis by (rule same)
    next
      case 2
      then show ?thesis using failed cur by simp
    next
      case 3
      then show ?thesis using advance [of mk] cur m Some by simp
    next
      case 4
      then show ?thesis using skip [of mk] cur m Some by simp
    qed
  qed
qed

text \<open>The fields that labelling and recovery leave alone.\<close>

definition same_belief :: "sched_state \<Rightarrow> sched_state \<Rightarrow> bool" where
  "same_belief st st' \<longleftrightarrow> failed_state_test st' = failed_state_test st \<and> current_state st' = current_state st
     \<and> sched_graph st' = sched_graph st \<and> sched_transitions st' = sched_transitions st
     \<and> skipped_transitions st' = skipped_transitions st
     \<and> skipped_transition_item_ids st' = skipped_transition_item_ids st
     \<and> session_items st' = session_items st \<and> testscollected st' = testscollected st
     \<and> testsfailed st' = testsfailed st \<and> maxfail st' = maxfail st \<and> shouldfail st' = shouldfail st"

lemma same_belief_trans: "same_belief a b \<Longrightarrow> same_belief b c \<Longrightarrow> same_belief a c"
  by (simp add: same_belief_def)

lemma same_belief_skipped_ids: "same_belief a b \<Longrightarrow> skipped_ids b = skipped_ids a"
  by (rule ext) (simp add: same_belief_def skipped_ids_def)

lemma same_belief_label:
  "same_belief st (set_obj i p st)" "same_belief st (mark_as_injected i st)"
  "same_belief st (label_occurrence i b n k st)"
  "same_belief st (st\<lparr>recovery_counter := c\<rparr>)" "same_belief st (st\<lparr>draws := c\<rparr>)"
  by (auto simp: same_belief_def set_obj_def mark_as_injected_def label_occurrence_def Let_def split: prod.splits)

lemma same_belief_duplicate:
  "duplicate_item_for_repeat i n b c st = (j, st') \<Longrightarrow> same_belief st st'"
  by (auto simp: duplicate_item_for_repeat_def Let_def same_belief_def set_obj_def label_occurrence_def)

lemma same_belief_recovery_duplicate:
  assumes "recovery_duplicate tm st = (dup, st')"
  shows "same_belief st st'"
proof -
  obtain d st1 where d: "duplicate_item_for_repeat tm (Suc (recovery_counter st))
      (Some (item_name (obj st tm) @ ''(recovered)'')) (Some (item_nodeid (obj st tm) @ ''(recovered)''))
      (st\<lparr>recovery_counter := Suc (recovery_counter st)\<rparr>) = (d, st1)" by fastforce
  then have "st' = mark_as_injected d st1" using assms by (auto simp: recovery_duplicate_def Let_def)
  with same_belief_duplicate [OF d] show ?thesis by (metis same_belief_trans same_belief_label(2,4))
qed

lemma same_belief_templates: "bridge_templates path st = (res, st') \<Longrightarrow> same_belief st st'"
proof (induction path st arbitrary: res rule: bridge_templates.induct)
  case (2 t x path st)
  show ?case
  proof (cases "dict_get_default (sched_transitions st) t []")
    case Nil
    with 2 show ?thesis by (simp add: same_belief_def)
  next
    case (Cons c cs)
    obtain dup st1 where d: "recovery_duplicate (recovery_template t c cs st) st = (dup, st1)" by fastforce
    obtain rest st2 where r: "bridge_templates path st1 = (rest, st2)" by fastforce
    from 2 Cons d r have "st' = st2" "same_belief st1 st2" by simp_all
    with same_belief_recovery_duplicate [OF d] show ?thesis by (blast intro: same_belief_trans)
  qed
qed (simp add: same_belief_def)

lemma same_belief_bridge:
  assumes "find_recovery_bridge r g src ts st = Some (Inr (res, st'))"
  shows "same_belief st st'"
proof -
  obtain p k where "shortest_path_to_any r (draws st) g src ts (skipped_transitions st) None = Some (Inr (p, k))"
    using assms by (auto simp: find_recovery_bridge_def split: option.splits sum.splits)
  with assms have "(case p of None \<Rightarrow> (None, st\<lparr>draws := k\<rparr>) | Some path \<Rightarrow> bridge_templates path (st\<lparr>draws := k\<rparr>)) =
      (res, st')"
    by (cases p) (simp_all add: find_recovery_bridge_def)
  with same_belief_label(5) [of st k] show ?thesis
    by (cases p) (auto dest: same_belief_templates intro: same_belief_trans)
qed

definition splice :: "nat \<Rightarrow> oid list \<Rightarrow> sched_state \<Rightarrow> sched_state" where
  "splice n bridge st = st\<lparr>session_items := take (Suc n) (session_items st) @ bridge @ drop (Suc n) (session_items st),
     testscollected := testscollected st + int (length bridge)\<rparr>"

lemma protocol_cases:
  assumes run: "runtest_protocol r td st i nextitem = Some (Inr st')"
  obtains (same) "st' = st"
  | (no_bridge) "same_belief st st'"
  | (bridge) nxt cur g m bridge st1 n where "nextitem = Some nxt" "current_state st = Some cur"
      "sched_graph st = Some g" "marker_or_none st nxt = Inr (Some m)"
      "cur \<notin> set (candidate_requires st nxt m)" "bridge \<noteq> []"
      "find_recovery_bridge r g cur (candidate_requires st nxt m) st = Some (Inr (Some bridge, st1))"
      "index_of i (session_items st) = Some n" "reconcile i (td (hd bridge)) (splice n bridge st1) = Inr st'"
proof (cases "nextitem = None \<or> current_state st = None \<or> sched_graph st = None")
  case True
  with run have "st' = st" by (auto simp: runtest_protocol_def split: option.splits)
  then show ?thesis by (rule same)
next
  case False
  then obtain nxt cur g where c: "nextitem = Some nxt" "current_state st = Some cur" "sched_graph st = Some g" by auto
  obtain marker where mk: "marker_or_none st nxt = Inr marker"
    using run by (cases "marker_or_none st nxt") (auto simp: runtest_protocol_def c)
  show ?thesis
  proof (cases "marker = None \<or> cur \<in> set (candidate_requires st nxt (the marker)) \<or> candidate_requires st nxt (the marker) = []")
    case True
    with run have "st' = st" by (cases marker) (auto simp: runtest_protocol_def c mk)
    then show ?thesis by (rule same)
  next
    case False
    then obtain m where m: "marker = Some m" "cur \<notin> set (candidate_requires st nxt m)" "candidate_requires st nxt m \<noteq> []"
      by auto
    note run1 = run [unfolded runtest_protocol_def c, simplified, unfolded mk m(1), simplified, unfolded Let_def,
      simplified m(2,3), simplified]
    then obtain res st1 where f: "find_recovery_bridge r g cur (candidate_requires st nxt m) st = Some (Inr (res, st1))"
      by (auto split: option.splits sum.splits)
    note sb = same_belief_bridge [OF f]
    show ?thesis
    proof (cases res)
      case None
      with run1 f have "st' = st1" by simp
      with sb show ?thesis using no_bridge by simp
    next
      case (Some bridge)
      have "index_of i (session_items st1) \<noteq> None" using run1 f Some by (auto split: option.splits)
      then obtain n where n: "index_of i (session_items st1) = Some n" by blast
      have "bridge \<noteq> []" and rec: "reconcile i (td (hd bridge)) (splice n bridge st1) = Inr st'"
        using run1 f Some n by (auto simp: splice_def split: list.splits)
      moreover have "session_items st1 = session_items st" using sb by (simp add: same_belief_def)
      ultimately show ?thesis using bridge [OF c _ m(2)] mk m(1) f Some n by simp
    qed
  qed
qed

lemma reconcile_cases:
  assumes "reconcile i raised st = Inr st'"
  obtains "raised = None" "st' = st" | "raised \<noteq> None" "st' = handle_reconciliation_failure i st"
  using assms by (auto simp: reconcile_def split: option.splits exc.splits prod.splits if_splits)

lemma handle_failure_frame [simp]:
  "current_state (handle_reconciliation_failure i st) = None"
  "failed_state_test (handle_reconciliation_failure i st) = Some i"
  "testsfailed (handle_reconciliation_failure i st) = testsfailed st + 1"
  "sched_transitions (handle_reconciliation_failure i st) = sched_transitions st"
  "skipped_transitions (handle_reconciliation_failure i st) = skipped_transitions st"
  "skipped_transition_item_ids (handle_reconciliation_failure i st) = skipped_transition_item_ids st"
  by (simp_all add: handle_reconciliation_failure_def Let_def)

section \<open>The run as a sequence of hook calls\<close>

inductive runtime_step :: "(nat \<Rightarrow> nat) \<Rightarrow> sched_state \<Rightarrow> sched_state \<Rightarrow> bool" for r where
  report_step: "runtest_makereport st i rep = Inr st' \<Longrightarrow> runtime_step r st st'"
| protocol_step: "runtest_protocol r td st i nextitem = Some (Inr st') \<Longrightarrow> runtime_step r st st'"

inductive_cases runtime_stepE: "runtime_step r st st'"

definition skip_inv :: "sched_state \<Rightarrow> bool" where
  "skip_inv st \<longleftrightarrow> (\<forall>e. e \<in> skipped_transitions st \<longleftrightarrow>
     dict_get_default (sched_transitions st) e [] \<noteq> [] \<and>
     set (dict_get_default (sched_transitions st) e []) \<subseteq> skipped_ids st e)"

lemma skip_inv_record: "skip_inv st \<Longrightarrow> skip_inv (record_skipped_transition_candidate e i st)"
  unfolding skip_inv_def record_skipped_ids record_skipped_frame
  by (auto simp: record_skipped_transition_candidate_def Let_def)

lemma skip_inv_same: "same_belief st st' \<Longrightarrow> skip_inv st' = skip_inv st"
  unfolding skip_inv_def by (simp add: same_belief_skipped_ids) (simp add: same_belief_def)

text \<open>What one step keeps: the bookkeeping, the candidates, and every skip already recorded.\<close>

definition step_keeps :: "sched_state \<Rightarrow> sched_state \<Rightarrow> bool" where
  "step_keeps st st' \<longleftrightarrow> (skip_inv st \<longrightarrow> skip_inv st') \<and> sched_transitions st' = sched_transitions st \<and>
     (\<forall>e. skipped_ids st e \<subseteq> skipped_ids st' e) \<and>
     (current_state st = None \<longrightarrow> st' = st) \<and>
     (failed_state_test st = None \<longrightarrow> current_state st' \<noteq> None \<longrightarrow> failed_state_test st' = None)"

lemma step_keeps_same: "same_belief st st' \<Longrightarrow> (current_state st = None \<Longrightarrow> st' = st) \<Longrightarrow> step_keeps st st'"
  unfolding step_keeps_def by (simp add: skip_inv_same same_belief_skipped_ids) (simp add: same_belief_def)

lemma step_keeps_report:
  assumes "runtest_makereport st i rep = Inr st'"
  shows "step_keeps st st'"
  using assms
proof (cases rule: makereport_cases)
  case (skip m)
  have "skip_inv (record_skip m i st)" if "skip_inv st"
    using that by (rule record_skip_induct) (rule skip_inv_record)
  moreover have "skipped_ids st e \<subseteq> skipped_ids (record_skip m i st) e" for e
    by (rule record_skip_induct) (auto simp: record_skipped_ids)
  ultimately show ?thesis using skip by (auto simp: step_keeps_def)
qed (auto simp: step_keeps_def skip_inv_def skipped_ids_def)

lemma step_keeps_protocol:
  assumes "runtest_protocol r td st i nextitem = Some (Inr st')"
  shows "step_keeps st st'"
proof (cases "current_state st = None")
  case True
  with assms have "st' = st" by (auto simp: runtest_protocol_def split: option.splits)
  then show ?thesis by (simp add: step_keeps_def)
next
  case False
  from assms show ?thesis
  proof (cases rule: protocol_cases)
    case same
    then show ?thesis by (simp add: step_keeps_def)
  next
    case no_bridge
    with False show ?thesis by (intro step_keeps_same) simp_all
  next
    case (bridge nxt cur g m b st1 n)
    have sb: "same_belief st st1" by (rule same_belief_bridge [OF bridge(7)])
    have "skip_inv (splice n b st1) = skip_inv st1" "skipped_ids (splice n b st1) = skipped_ids st1"
      by (simp_all add: skip_inv_def skipped_ids_def [abs_def] splice_def)
    with bridge(9) sb False show ?thesis
      by (elim reconcile_cases)
        (auto simp: step_keeps_def skip_inv_same [OF sb] same_belief_skipped_ids [OF sb]
          skip_inv_def skipped_ids_def same_belief_def splice_def)
  qed
qed

lemma step_keeps_step: "runtime_step r st st' \<Longrightarrow> step_keeps st st'"
  by (erule runtime_stepE) (auto intro: step_keeps_report step_keeps_protocol)

lemma step_keeps_steps: "(runtime_step r)\<^sup>*\<^sup>* st st' \<Longrightarrow> step_keeps st st'"
proof (induction rule: rtranclp_induct)
  case base
  then show ?case by (simp add: step_keeps_def)
next
  case (step s2 s3)
  with step_keeps_step [OF step(2)] show ?case
    unfolding step_keeps_def by (metis subset_trans)
qed

section \<open>The recovery bridge\<close>

text \<open>
  The published data the recovery works on: a graph with positive costs whose edges all have
  candidates, and candidates that are items whose marker is a transition along the edge.
\<close>

definition candidate_ok :: "'a label_state_scheme \<Rightarrow> StateTransition \<Rightarrow> oid \<Rightarrow> bool" where
  "candidate_ok ls t i \<longleftrightarrow> i < length (objs ls) \<and>
     (\<exists>m. item_marker ls i = Inr (Some m) \<and> is_transition m \<and> from_state t \<in> set (requires m) \<and>
        t = transition (from_state t) (provides m))"

definition recovery_ok :: "sched_state \<Rightarrow> oid StateGraph \<Rightarrow> bool" where
  "recovery_ok st g \<longleftrightarrow> graph_ok g \<and> positive_costs g \<and> skip_inv st \<and>
     (\<forall>s. \<forall>e \<in> set (edges_from g s). dict_get_default (sched_transitions st) (fst e) [] \<noteq> []) \<and>
     (\<forall>t. \<forall>i \<in> set (dict_get_default (sched_transitions st) t []). candidate_ok st t i \<and> original_id st i = i)"

definition best_answer :: "'i StateGraph \<Rightarrow> StateTransition set \<Rightarrow> State \<Rightarrow> State list \<Rightarrow> 'i edge list option \<Rightarrow> bool" where
  "best_answer g avoid src targets res \<longleftrightarrow>
     (case res of
        None \<Rightarrow> \<not> (\<exists>t \<in> set targets. \<exists>p. is_path g avoid src p t)
      | Some p \<Rightarrow> (\<exists>t \<in> set targets. is_path g avoid src p t) \<and>
          (\<forall>t \<in> set targets. \<forall>q. is_path g avoid src q t \<longrightarrow> path_cost p \<le> path_cost q))"

lemma shortest_path_to_any_ok:
  assumes "graph_ok g" "positive_costs g"
    and "best_answer g avoid src seen (map_option fst best)" and "\<forall>p c. best = Some (p, c) \<longrightarrow> c = path_cost p"
  shows "\<exists>res k'. shortest_path_to_any r k g src targets avoid best = Some (Inr (res, k')) \<and>
     best_answer g avoid src (seen @ targets) res"
  using assms(3,4)
proof (induction targets arbitrary: k best seen)
  case Nil
  then show ?case by simp
next
  case (Cons t targets)
  obtain res k1 where sp: "shortest_path r k g src t avoid = Some (Inr (res, k1))" "path_answer g avoid src t res"
    using shortest_path_total [OF assms(1,2)] by blast
  show ?case
  proof (cases res)
    case None
    then have "best_answer g avoid src (seen @ [t]) (map_option fst best)"
      using Cons.prems(1) sp(2) by (auto simp: best_answer_def path_answer_def split: option.splits)
    from Cons.IH [OF this Cons.prems(2), of k1] show ?thesis using sp None by simp
  next
    case (Some p)
    define best' where "best' = (case best of None \<Rightarrow> Some (p, path_cost p)
      | Some (bp, bc) \<Rightarrow> if path_cost p < bc then Some (p, path_cost p) else Some (bp, bc))"
    have "best_answer g avoid src (seen @ [t]) (map_option fst best')"
    proof (cases best)
      case None
      with Cons.prems(1) sp(2) Some show ?thesis by (auto simp: best'_def best_answer_def path_answer_def)
    next
      case (Some b)
      then obtain bp where b: "best = Some (bp, path_cost bp)" using Cons.prems(2) by (cases b) auto
      with Cons.prems(1) sp(2) \<open>res = Some p\<close> show ?thesis
        by (auto simp: best'_def best_answer_def path_answer_def) force+
    qed
    moreover have "\<forall>p c. best' = Some (p, c) \<longrightarrow> c = path_cost p"
      using Cons.prems(2) by (auto simp: best'_def split: option.splits if_splits)
    ultimately obtain res' k' where "shortest_path_to_any r k1 g src targets avoid best' = Some (Inr (res', k'))"
      "best_answer g avoid src ((seen @ [t]) @ targets) res'"
      using Cons.IH by blast
    then show ?thesis using sp Some by (simp add: best'_def path_cost_def [symmetric] Let_def)
  qed
qed

lemma find_bridge_path:
  assumes "graph_ok g" "positive_costs g"
  obtains res k where "shortest_path_to_any r (draws st) g src targets (skipped_transitions st) None = Some (Inr (res, k))"
    "best_answer g (skipped_transitions st) src targets res"
  using shortest_path_to_any_ok [OF assms, of "skipped_transitions st" src "[]" None r "draws st" targets]
  by (auto simp: best_answer_def)

text \<open>What one recovery duplicate is: a fresh object with the marker and the origin of its template.\<close>

lemma mark_as_injected_obj:
  assumes "i < length (objs ls)"
  shows "state_mark (obj (mark_as_injected i ls) j) = state_mark (obj ls j)"
    and "j \<noteq> i \<Longrightarrow> obj (mark_as_injected i ls) j = obj ls j"
  using assms by (auto simp: mark_as_injected_def Let_def set_obj_def obj_def nth_list_update split: prod.splits)

lemma recovery_duplicate_spec:
  assumes run: "recovery_duplicate tm st = (dup, st')" and "tm < length (objs st)"
  shows "dup = length (objs st)" and "length (objs st') = Suc (length (objs st))"
    and "state_mark (obj st' dup) = state_mark (obj st tm)" and "original_id st' dup = original_id st tm"
    and "k < length (objs st) \<Longrightarrow> obj st' k = obj st k \<and> original_id st' k = original_id st k"
    and "same_belief st st'"
proof -
  obtain st1 where d: "duplicate_item_for_repeat tm (Suc (recovery_counter st))
      (Some (item_name (obj st tm) @ ''(recovered)'')) (Some (item_nodeid (obj st tm) @ ''(recovered)''))
      (st\<lparr>recovery_counter := Suc (recovery_counter st)\<rparr>) = (dup, st1)" and st': "st' = mark_as_injected dup st1"
    using run by (auto simp: recovery_duplicate_def Let_def split: prod.splits)
  have [simp]: "obj (st\<lparr>recovery_counter := n\<rparr>) = obj st" "original_id (st\<lparr>recovery_counter := n\<rparr>) = original_id st" for n
    by (simp_all add: obj_def [abs_def] original_id_def [abs_def])
  note s = duplicate_item_spec [OF d, simplified, OF assms(2)]
  show "dup = length (objs st)" and "length (objs st') = Suc (length (objs st))" using s(1,2) st' by simp_all
  have dl: "dup < length (objs st1)" using s(1,2) by simp
  show "state_mark (obj st' dup) = state_mark (obj st tm)"
    using s(8) mark_as_injected_obj [OF dl] by (simp add: st')
  have "duplicate_original_ids st1 dup = Some (original_id st tm)" by (simp add: s(5))
  then show "original_id st' dup = original_id st tm" by (simp add: original_id_def [of "mark_as_injected dup st1"] st')
  show "obj st' k = obj st k \<and> original_id st' k = original_id st k" if "k < length (objs st)"
    using that s(1,3,5) mark_as_injected_obj(2) [OF dl] by (auto simp: st' original_id_def)
  show "same_belief st st'" by (rule same_belief_recovery_duplicate [OF run])
qed

definition bridges :: "sched_state \<Rightarrow> sched_state \<Rightarrow> oid edge \<Rightarrow> oid \<Rightarrow> bool" where
  "bridges st st' e d \<longleftrightarrow> length (objs st) \<le> d \<and> d < length (objs st') \<and> candidate_ok st' (fst e) d \<and>
     (\<exists>tm \<in> set (dict_get_default (sched_transitions st) (fst e) []).
        tm \<notin> skipped_ids st (fst e) \<and> original_id st' d = original_id st tm)"

definition templates_ok :: "sched_state \<Rightarrow> oid edge list \<Rightarrow> bool" where
  "templates_ok st path \<longleftrightarrow> (\<forall>e \<in> set path.
     (\<exists>x \<in> set (dict_get_default (sched_transitions st) (fst e) []). x \<notin> skipped_ids st (fst e)) \<and>
     (\<forall>x \<in> set (dict_get_default (sched_transitions st) (fst e) []). candidate_ok st (fst e) x))"

lemma candidate_ok_same:
  "candidate_ok st t i \<Longrightarrow> state_mark (obj st' j) = state_mark (obj st i) \<Longrightarrow> j < length (objs st') \<Longrightarrow>
     candidate_ok st' t j"
  by (auto simp: candidate_ok_def item_marker_def)

lemma templates_ok_mono:
  assumes "templates_ok st path" "same_belief st st'" "length (objs st) \<le> length (objs st')"
    "\<And>k. k < length (objs st) \<Longrightarrow> obj st' k = obj st k"
  shows "templates_ok st' path"
proof -
  have "candidate_ok st' t x" if "candidate_ok st t x" for t x
    using that assms(3,4) by (auto simp: candidate_ok_def item_marker_def)
  with assms(1,2) same_belief_skipped_ids [OF assms(2)] show ?thesis
    by (simp add: templates_ok_def same_belief_def)
qed

lemma recovery_template_ok:
  assumes "dict_get_default (sched_transitions st) t [] = c # cs" and "templates_ok st ((t, x) # path)"
  shows "recovery_template t c cs st \<in> set (c # cs)" and "recovery_template t c cs st \<notin> skipped_ids st t"
proof -
  from assms obtain y where "y \<in> set (c # cs)" "y \<notin> skipped_ids st t" by (auto simp: templates_ok_def)
  then have "find (\<lambda>x. x \<notin> skipped_ids st t) (c # cs) \<noteq> None"
    unfolding find_None_iff by blast
  then obtain z where "find (\<lambda>x. x \<notin> skipped_ids st t) (c # cs) = Some z" by blast
  with find_SomeD [OF this] show "recovery_template t c cs st \<in> set (c # cs)"
    and "recovery_template t c cs st \<notin> skipped_ids st t" by (simp_all add: recovery_template_def)
qed

lemma bridge_templates_ok:
  assumes "bridge_templates path st = (res, st')" and "templates_ok st path"
  shows "\<exists>ds. res = Some ds \<and> list_all2 (bridges st st') path ds \<and> distinct ds \<and>
     length (objs st) \<le> length (objs st') \<and>
     (\<forall>k < length (objs st). obj st' k = obj st k \<and> original_id st' k = original_id st k)"
  using assms
proof (induction path st arbitrary: res st' rule: bridge_templates.induct)
  case (2 t x path st)
  from "2.prems"(2) obtain c cs where c: "dict_get_default (sched_transitions st) t [] = c # cs"
    by (cases "dict_get_default (sched_transitions st) t []") (auto simp: templates_ok_def)
  let ?tm = "recovery_template t c cs st"
  obtain dup st1 where d: "recovery_duplicate ?tm st = (dup, st1)" by fastforce
  obtain rest st2 where r: "bridge_templates path st1 = (rest, st2)" by fastforce
  have eq: "res = map_option (\<lambda>ds. dup # ds) rest" "st' = st2" using "2.prems"(1) c d r by simp_all
  note tm = recovery_template_ok [OF c "2.prems"(2)]
  have tmok: "candidate_ok st t ?tm" using tm(1) "2.prems"(2) c by (auto simp: templates_ok_def)
  then have tml: "?tm < length (objs st)" by (simp add: candidate_ok_def)
  note s = recovery_duplicate_spec [OF d tml]
  have "templates_ok st path" using "2.prems"(2) by (simp add: templates_ok_def)
  then have t1: "templates_ok st1 path"
    by (rule templates_ok_mono [OF _ s(6)]) (use s(2,5) in simp_all)
  from "2.IH" [OF c d [symmetric] refl, simplified, OF r t1] obtain ds where
    ds: "rest = Some ds" "list_all2 (bridges st1 st2) path ds" "distinct ds" "length (objs st1) \<le> length (objs st2)"
      "\<forall>k < length (objs st1). obj st2 k = obj st1 k \<and> original_id st2 k = original_id st1 k" by auto
  have sk: "skipped_ids st1 = skipped_ids st" "sched_transitions st1 = sched_transitions st"
    using same_belief_skipped_ids [OF s(6)] s(6) by (simp_all add: same_belief_def)
  have dl: "dup < length (objs st1)" using s(1,2) by simp
  have "bridges st st2 (t, x) dup"
  proof -
    have "state_mark (obj st2 dup) = state_mark (obj st ?tm)" "original_id st2 dup = original_id st ?tm"
      using ds(5) dl s(3,4) by simp_all
    moreover have "dup < length (objs st2)" using dl ds(4) by simp
    ultimately show ?thesis
      using candidate_ok_same [OF tmok] tm s(1) c unfolding bridges_def by (auto intro!: bexI [of _ ?tm])
  qed
  moreover have "bridges st st2 e d'" if "bridges st1 st2 e d'" "e \<in> set path" for e d'
  proof -
    from that(2) "2.prems"(2) have "candidate_ok st (fst e) y"
      if "y \<in> set (dict_get_default (sched_transitions st) (fst e) [])" for y
      using that by (auto simp: templates_ok_def)
    then have "y < length (objs st)" if "y \<in> set (dict_get_default (sched_transitions st) (fst e) [])" for y
      using that by (auto simp: candidate_ok_def)
    with that(1) sk s(2,5) show ?thesis unfolding bridges_def by fastforce
  qed
  then have "list_all2 (bridges st st2) path ds"
    using ds(2) unfolding list_all2_conv_all_nth by simp
  moreover have "dup \<notin> set ds" using ds(2) dl by (fastforce simp: list_all2_conv_all_nth in_set_conv_nth bridges_def)
  ultimately show ?case using eq ds s(2,5) by auto
qed auto

section \<open>Runs in which every test passes\<close>

definition passed :: "phase \<Rightarrow> report" where
  "passed ph = \<lparr>rep_when = ph, rep_outcome = Passed, wasxfail = False\<rparr>"

text \<open>The reports of a passing test, one per phase.\<close>

definition reports_passed :: "sched_state \<Rightarrow> oid \<Rightarrow> marker_error + sched_state" where
  "reports_passed st i =
     bind_result (runtest_makereport st i (passed SetupPhase)) (\<lambda>s1.
     bind_result (runtest_makereport s1 i (passed CallPhase)) (\<lambda>s2.
     runtest_makereport s2 i (passed TeardownPhase)))"

text \<open>
  The hook calls of a stretch of passing tests: the setup hook lets each run, and after its
  reports the protocol hook has nothing to recover for the test that follows.
\<close>

fun runs_clean :: "(nat \<Rightarrow> nat) \<Rightarrow> (oid \<Rightarrow> exc option) \<Rightarrow> sched_state \<Rightarrow> oid list \<Rightarrow> bool" where
  "runs_clean r td st [] = True"
| "runs_clean r td st (i # is) =
     (runtest_setup st i = Inr RunTest \<and>
      (case reports_passed st i of
         Inl _ \<Rightarrow> False
       | Inr st' \<Rightarrow> runtest_protocol r td st' i (case is of [] \<Rightarrow> None | j # _ \<Rightarrow> Some j) = Some (Inr st')
           \<and> runs_clean r td st' is))"

fun marked_run :: "sched_state \<Rightarrow> State \<Rightarrow> oid list \<Rightarrow> bool" where
  "marked_run st cur [] = True"
| "marked_run st cur (i # is) =
     (case item_marker st i of
        Inl _ \<Rightarrow> False
      | Inr None \<Rightarrow> marked_run st cur is
      | Inr (Some m) \<Rightarrow> cur \<in> set (requires m) \<and>
          (is_transition m \<longrightarrow> original_id st i \<notin> skipped_ids st (transition cur (provides m))) \<and>
          marked_run st (provides m) is)"

lemma belief_update [simp]:
  "item_marker (st\<lparr>current_state := c\<rparr>) i = item_marker st i"
  "marker_or_none (st\<lparr>current_state := c\<rparr>) i = marker_or_none st i"
  "original_id (st\<lparr>current_state := c\<rparr>) i = original_id st i"
  "skipped_ids (st\<lparr>current_state := c\<rparr>) e = skipped_ids st e"
  by (simp_all add: item_marker_def marker_or_none_def obj_def original_id_def skipped_ids_def)

lemma marked_run_update [simp]: "marked_run (st\<lparr>current_state := c\<rparr>) cur is = marked_run st cur is"
  by (induction st cur "is" rule: marked_run.induct) (auto split: sum.splits option.splits)

lemma marker_or_none_Inr: "item_marker st i = Inr m \<Longrightarrow> marker_or_none st i = Inr m"
  by (simp add: marker_or_none_def)

lemma runtest_setup_ready:
  assumes "marked_run st cur (i # is)" and "current_state st = Some cur" and "failed_state_test st = None"
  shows "runtest_setup st i = Inr RunTest"
  using assms by (auto simp: runtest_setup_def marker_or_none_def split: sum.splits option.splits)

lemma reports_passed_eq:
  assumes "item_marker st i = Inr marker" and "current_state st = Some cur"
  shows "reports_passed st i = Inr (case marker of None \<Rightarrow> st | Some m \<Rightarrow> st\<lparr>current_state := Some (provides m)\<rparr>)"
  using assms by (cases marker) (simp_all add: reports_passed_def runtest_makereport_def marker_or_none_def passed_def)

lemma protocol_ready:
  assumes "marked_run st cur is" and "current_state st = Some cur"
  shows "runtest_protocol r td st i (case is of [] \<Rightarrow> None | j # _ \<Rightarrow> Some j) = Some (Inr st)"
proof (cases "is")
  case (Cons j js)
  show ?thesis
  proof (cases "sched_graph st")
    case (Some g)
    from assms(1) Cons obtain marker where "item_marker st j = Inr marker" by (auto split: sum.splits)
    with assms Cons Some show ?thesis
      by (cases marker)
        (auto simp: runtest_protocol_def marker_or_none_def candidate_requires_def Let_def)
  qed (simp add: runtest_protocol_def Cons assms(2))
qed (simp add: runtest_protocol_def)

lemma marked_run_clean:
  assumes "marked_run st cur is" and "current_state st = Some cur" and "failed_state_test st = None"
  shows "runs_clean r td st is"
  using assms
proof (induction "is" arbitrary: st cur)
  case (Cons i "is")
  from Cons.prems(1) obtain marker where m: "item_marker st i = Inr marker" by (auto split: sum.splits)
  define st' where "st' = (case marker of None \<Rightarrow> st | Some m \<Rightarrow> st\<lparr>current_state := Some (provides m)\<rparr>)"
  define cur' where "cur' = (case marker of None \<Rightarrow> cur | Some m \<Rightarrow> provides m)"
  have st': "marked_run st' cur' is" "current_state st' = Some cur'" "failed_state_test st' = None"
    using Cons.prems m by (auto simp: st'_def cur'_def split: option.splits)
  have "reports_passed st i = Inr st'" using reports_passed_eq [OF m Cons.prems(2)] by (simp add: st'_def)
  with runtest_setup_ready [OF Cons.prems] protocol_ready [OF st'(1,2)] Cons.IH [OF st'] show ?case by simp
qed simp

lemma marked_run_append:
  "marked_run st cur (xs @ ys) \<Longrightarrow> marked_run st cur xs"
  by (induction st cur xs rule: marked_run.induct) (auto split: sum.splits option.splits)

text \<open>A bridge along a path, followed by an item that accepts the end of the path.\<close>

lemma marked_run_bridge:
  assumes "is_path g avoid cur path t" and "list_all2 (\<lambda>e d. candidate_ok st (fst e) d \<and>
      original_id st d \<notin> skipped_ids st (fst e)) path ds" and "marked_run st t rest"
  shows "marked_run st cur (ds @ rest)"
  using assms(1,2)
proof (induction path arbitrary: cur ds)
  case (Cons e path)
  then obtain d ds' where ds: "ds = d # ds'" by (cases ds) auto
  from Cons.prems ds obtain m where m: "item_marker st d = Inr (Some m)" "cur \<in> set (requires m)"
    "fst e = transition cur (provides m)" "original_id st d \<notin> skipped_ids st (fst e)"
    by (auto simp: candidate_ok_def)
  then have "to_state (fst e) = provides m" by (simp add: transition_def)
  with Cons m ds show ?case by simp
qed (use assms(3) in simp)

lemma recovery_templates_ok:
  assumes "recovery_ok st g" and "is_path g (skipped_transitions st) a path b"
  shows "templates_ok st path"
proof -
  have "usable g (skipped_transitions st) e" if "e \<in> set path" for e
    using assms(2) that by (induction path arbitrary: a) auto
  then have e: "e \<in> set (edges_from g (from_state (fst e)))" "fst e \<notin> skipped_transitions st" if "e \<in> set path" for e
    using that by (auto simp: usable_def)
  show ?thesis
    unfolding templates_ok_def
  proof (intro ballI conjI)
    fix e assume "e \<in> set path"
    with e assms(1) have "dict_get_default (sched_transitions st) (fst e) [] \<noteq> []"
      and "\<not> set (dict_get_default (sched_transitions st) (fst e) []) \<subseteq> skipped_ids st (fst e)"
      unfolding recovery_ok_def skip_inv_def by blast+
    then show "\<exists>x\<in>set (dict_get_default (sched_transitions st) (fst e) []). x \<notin> skipped_ids st (fst e)" by blast
    fix x assume "x \<in> set (dict_get_default (sched_transitions st) (fst e) [])"
    with assms(1) show "candidate_ok st (fst e) x" by (simp add: recovery_ok_def)
  qed
qed

lemma draws_update [simp]:
  "skipped_ids (st\<lparr>draws := k\<rparr>) = skipped_ids st" "templates_ok (st\<lparr>draws := k\<rparr>) = templates_ok st"
  "bridges (st\<lparr>draws := k\<rparr>) = bridges st" "obj (st\<lparr>draws := k\<rparr>) = obj st" "original_id (st\<lparr>draws := k\<rparr>) = original_id st"
  by (auto simp: fun_eq_iff skipped_ids_def templates_ok_def bridges_def candidate_ok_def item_marker_def obj_def original_id_def)

lemma find_recovery_bridge_ok:
  assumes "recovery_ok st g"
  obtains (none) st' where "find_recovery_bridge r g src targets st = Some (Inr (None, st'))"
      "\<not> (\<exists>t \<in> set targets. \<exists>p. is_path g (skipped_transitions st) src p t)"
  | (found) path bridge st' where "find_recovery_bridge r g src targets st = Some (Inr (Some bridge, st'))"
      "best_answer g (skipped_transitions st) src targets (Some path)"
      "list_all2 (bridges st st') path bridge" "distinct bridge" "length (objs st) \<le> length (objs st')"
      "\<forall>k < length (objs st). obj st' k = obj st k \<and> original_id st' k = original_id st k"
proof -
  have "graph_ok g" "positive_costs g" using assms by (simp_all add: recovery_ok_def)
  then obtain res k where sp: "shortest_path_to_any r (draws st) g src targets (skipped_transitions st) None = Some (Inr (res, k))"
    and ans: "best_answer g (skipped_transitions st) src targets res" by (rule find_bridge_path)
  show ?thesis
  proof (cases res)
    case None
    with sp ans show ?thesis by (intro none) (simp_all add: find_recovery_bridge_def best_answer_def)
  next
    case (Some path)
    then obtain t where "is_path g (skipped_transitions st) src path t" using ans by (auto simp: best_answer_def)
    then have t: "templates_ok (st\<lparr>draws := k\<rparr>) path" using recovery_templates_ok [OF assms] by simp
    obtain res2 st' where b: "bridge_templates path (st\<lparr>draws := k\<rparr>) = (res2, st')" by fastforce
    from bridge_templates_ok [OF b t] obtain ds where "res2 = Some ds" "list_all2 (bridges st st') path ds" "distinct ds"
      "length (objs st) \<le> length (objs st')"
      "\<forall>k < length (objs st). obj st' k = obj st k \<and> original_id st' k = original_id st k" by auto
    with sp ans Some b show ?thesis by (intro found) (simp_all add: find_recovery_bridge_def)
  qed
qed

lemma splice_frame [simp]:
  "obj (splice n b st) = obj st" "objs (splice n b st) = objs st" "original_id (splice n b st) = original_id st"
  "skipped_ids (splice n b st) = skipped_ids st" "current_state (splice n b st) = current_state st"
  "failed_state_test (splice n b st) = failed_state_test st" "item_marker (splice n b st) = item_marker st"
  by (auto simp: fun_eq_iff splice_def skipped_ids_def item_marker_def obj_def original_id_def)

lemma bridge_marked_run:
  assumes ok: "recovery_ok st g" and sb: "same_belief st st'"
    and path: "is_path g (skipped_transitions st) cur path t" and br: "list_all2 (bridges st st') path bridge"
    and old: "obj st' nxt = obj st nxt" "original_id st' nxt = original_id st nxt"
    and m: "marker_or_none st nxt = Inr (Some m)" and t: "t \<in> set (candidate_requires st nxt m)"
  shows "marked_run (splice n bridge st') cur (bridge @ [nxt])"
proof (rule marked_run_bridge [OF path])
  have sk: "skipped_ids st' = skipped_ids st" by (rule same_belief_skipped_ids [OF sb])
  have "candidate_ok (splice n bridge st') (fst e) d \<and>
      original_id (splice n bridge st') d \<notin> skipped_ids (splice n bridge st') (fst e)"
    if "bridges st st' e d" for e d
  proof -
    from that obtain tm where "tm \<in> set (dict_get_default (sched_transitions st) (fst e) [])"
      "tm \<notin> skipped_ids st (fst e)" "original_id st' d = original_id st tm" "candidate_ok st' (fst e) d"
      by (auto simp: bridges_def)
    with ok sk show ?thesis by (simp add: recovery_ok_def candidate_ok_def)
  qed
  with br show "list_all2 (\<lambda>e d. candidate_ok (splice n bridge st') (fst e) d \<and>
      original_id (splice n bridge st') d \<notin> skipped_ids (splice n bridge st') (fst e)) path bridge"
    by (rule list_all2_mono)
  have "item_marker st nxt = Inr (Some m)"
    using m by (auto simp: marker_or_none_def split: sum.splits if_splits)
  with t old sk show "marked_run (splice n bridge st') t [nxt]"
    by (auto simp: item_marker_def candidate_requires_def split: if_splits)
qed

section \<open>Properties\<close>

text \<open>
  The reconciliation never swallows an abort: if the exception of \<open>teardown_exact\<close> holds,
  at any depth of nested groups, a \<open>pytest.exit\<close> or another abort, exactly those are raised
  again and the state is untouched; otherwise the failure is counted, the environment state
  becomes unknown and the item is remembered as the failed one.
\<close>

theorem reconcile_aborts:
  "case reconcile i (Some e) st of
     Inl (err, st') \<Rightarrow> \<exists>u. err = Propagated u \<and> leaves u = filter aborts (leaves e) \<and> leaves u \<noteq> [] \<and> st' = st
   | Inr st' \<Rightarrow> filter aborts (leaves e) = [] \<and> current_state st' = None \<and> failed_state_test st' = Some i
       \<and> testsfailed st' = testsfailed st + 1
       \<and> (maxfail st > 0 \<and> testsfailed st + 1 \<ge> maxfail st \<longrightarrow> shouldfail st' = Some (testsfailed st + 1))"
proof (cases e)
  case (Leaf k)
  then show ?thesis by (auto simp: reconcile_def aborts_def handle_reconciliation_failure_def Let_def)
next
  case (Group es)
  obtain m u where sp: "split_exc is_recoverable_reconciliation_failure (Group es) = (m, u)" by fastforce
  have l: "opt_leaves u = filter aborts (leaves e)"
    using split_exc_leaves(1) [of "Group es"] sp Group by simp
  show ?thesis
  proof (cases u)
    case None
    then show ?thesis using sp l Group
      by (simp add: reconcile_def opt_leaves_def handle_reconciliation_failure_def Let_def del: split_exc.simps)
  next
    case (Some x)
    with split_exc_rest(1) [of "Group es" x] sp l Group show ?thesis
      by (simp add: reconcile_def opt_leaves_def del: split_exc.simps)
  qed
qed

theorem reconcile_aborts_witness:
  "\<exists>st'. reconcile 7 (Some (Group [Leaf OrdinaryException, Group [Leaf ExitOutcome]])) st' =
     Inl (Propagated (Group [Group [Leaf ExitOutcome]]), st')"
proof -
  have "reconcile 7 (Some (Group [Leaf OrdinaryException, Group [Leaf ExitOutcome]])) st =
     Inl (Propagated (Group [Group [Leaf ExitOutcome]]), st)" for st
    using reconcile_aborts [where i = 7 and e = "Group [Leaf OrdinaryException, Group [Leaf ExitOutcome]]" and st = st]
    by (simp add: reconcile_def)
  then show ?thesis by blast
qed

text \<open>
  Once a state-marked test fails in any phase, or is skipped by an expected failure, the
  environment state is unknown for the rest of the run: whatever reports and recoveries follow,
  the setup hook skips every state-marked test other than the failed one.
\<close>

theorem failed_test_blocks_run:
  assumes "runtest_makereport st i rep = Inr st1" and "marker_or_none st i = Inr (Some m)"
    and "current_state st \<noteq> None"
    and "rep_outcome rep = Failed \<or> rep_outcome rep = Skipped \<and> wasxfail rep"
    and "(runtime_step r)\<^sup>*\<^sup>* st1 st2" and "j \<noteq> i" and "marker_or_none st2 j = Inr (Some mj)"
  shows "current_state st2 = None \<and> runtest_setup st2 j = Inr (SkipTest (StateUnknown (Some i)))"
proof -
  have st1: "st1 = st\<lparr>failed_state_test := Some i, current_state := None\<rparr>"
    using assms(1-4) by (auto simp: runtest_makereport_def)
  then have "st2 = st1" using step_keeps_steps [OF assms(5)] by (simp add: step_keeps_def)
  then show ?thesis using assms(6,7) st1 by (simp add: runtest_setup_def)
qed

definition demo_marked :: "StateMarker \<Rightarrow> pitem" where
  "demo_marked m = demo_item\<lparr>state_mark := Some (marker_kwargs m)\<rparr>"

definition upgrade_marker :: StateMarker where
  "upgrade_marker = \<lparr>requires = [DEPLOYED_WITH_OLD_REVISION], provides = DEPLOYED, bridge_only = False\<rparr>"

definition redeploy_marker :: StateMarker where
  "redeploy_marker = \<lparr>requires = [DEPLOYED], provides = DEPLOYED_WITH_OLD_REVISION, bridge_only = True\<rparr>"

definition deployed_marker :: StateMarker where
  "deployed_marker = \<lparr>requires = [DEPLOYED], provides = DEPLOYED, bridge_only = False\<rparr>"

definition demo_edges :: "oid StateGraph" where
  "demo_edges = register_transition redeploy_edge 2 (register_transition upgrade_edge 1 (register_transition upgrade_edge 0 []))"

text \<open>A session with two upgrade tests, a redeploying helper, a test of the deployed state and an unmarked test.\<close>

definition demo_session :: sched_state where
  "demo_session = \<lparr>objs = [demo_marked upgrade_marker, demo_marked upgrade_marker, demo_marked redeploy_marker,
       demo_marked deployed_marker, demo_item], injected_item_ids = {}, duplicate_original_ids = Map.empty,
     all_collected = [0, 1, 2, 3, 4], failed_state_test = None, current_state = Some DEPLOYED,
     sched_graph = Some demo_edges,
     sched_transitions = [(upgrade_edge, [0, 1]), (redeploy_edge, [2])], recovery_counter = 0, skipped_transitions = {},
     skipped_transition_item_ids = Map.empty, session_items = [3, 0, 1, 4], testscollected = 4, testsfailed = 0, maxfail = 0,
     shouldfail = None, draws = 0\<rparr>"

lemma demo_session_markers:
  "item_marker demo_session 0 = Inr (Some upgrade_marker)" "item_marker demo_session 1 = Inr (Some upgrade_marker)"
  "item_marker demo_session (Suc 0) = Inr (Some upgrade_marker)"
  "item_marker demo_session 2 = Inr (Some redeploy_marker)" "item_marker demo_session 3 = Inr (Some deployed_marker)"
  "item_marker demo_session 4 = Inr None"
  by code_simp+

theorem failed_test_blocks_run_witness:
  "\<exists>st1. runtest_makereport demo_session 3 \<lparr>rep_when = CallPhase, rep_outcome = Failed, wasxfail = False\<rparr> = Inr st1
     \<and> runtest_setup st1 0 = Inr (SkipTest (StateUnknown (Some 3)))"
proof -
  let ?rep = "\<lparr>rep_when = CallPhase, rep_outcome = Failed, wasxfail = False\<rparr>"
  let ?st1 = "demo_session\<lparr>failed_state_test := Some 3, current_state := None\<rparr>"
  have cur: "current_state demo_session \<noteq> None" by (simp add: demo_session_def)
  have mk: "marker_or_none demo_session i = Inr m" if "item_marker demo_session i = Inr m" for i m
    using that by (rule marker_or_none_Inr)
  have run: "runtest_makereport demo_session 3 ?rep = Inr ?st1"
    using cur by (auto simp: runtest_makereport_def mk [OF demo_session_markers(5)])
  have "marker_or_none ?st1 0 = Inr (Some upgrade_marker)"
    using mk [OF demo_session_markers(1)] by (simp add: marker_or_none_def item_marker_def obj_def)
  from failed_test_blocks_run [OF run mk [OF demo_session_markers(5)] cur _ rtranclp.rtrancl_refl _ this]
  show ?thesis using run by simp
qed

text \<open>
  C31. The bookkeeping of skipped transitions: however the run continues, an edge is excluded
  from recovery exactly when it has candidates and all of them have skipped; and a transition
  test that skipped in a state it accepts is never retried there: whenever the environment is in
  that state again, the setup hook skips every later occurrence of the test.
\<close>

theorem skipped_candidates_not_retried:
  assumes "skip_inv st" and "failed_state_test st = None"
    and "marker_or_none st i = Inr (Some m)" and "is_transition m"
    and "current_state st = Some cur" and "cur \<in> set (requires m)"
    and "rep_outcome rep = Skipped" and "\<not> wasxfail rep" and "runtest_makereport st i rep = Inr st1"
    and "(runtime_step r)\<^sup>*\<^sup>* st1 st2" and "current_state st2 = Some cur"
    and "marker_or_none st2 j = Inr (Some m)" and "original_id st2 j = original_id st i"
  shows "runtest_setup st2 j = Inr (SkipTest (AlreadySkipped cur (provides m)))
    \<and> (\<forall>e. e \<in> skipped_transitions st2 \<longleftrightarrow> dict_get_default (sched_transitions st2) e [] \<noteq> []
          \<and> set (dict_get_default (sched_transitions st2) e []) \<subseteq> skipped_ids st2 e)"
proof -
  let ?e = "transition cur (provides m)"
  have st1: "st1 = record_skip m i st" using assms(3-9) by (simp add: runtest_makereport_def)
  have "original_id st i \<in> skipped_ids (record_skip m i st) ?e"
    using assms(5,6) by (rule record_skip_records)
  moreover note k = step_keeps_report [OF assms(9)] step_keeps_steps [OF assms(10)]
  ultimately have "original_id st2 j \<in> skipped_ids st2 ?e" using st1 assms(13) unfolding step_keeps_def by auto
  moreover have "failed_state_test st2 = None" using k assms(2,11) st1 by (simp add: step_keeps_def)
  moreover have "skip_inv st2" using k assms(1) by (simp add: step_keeps_def)
  ultimately show ?thesis
    using assms(4,6,11,12) unfolding skip_inv_def by (simp add: runtest_setup_def)
qed

lemma demo_session_skip_inv: "skip_inv demo_session"
  by (simp add: skip_inv_def demo_session_def skipped_ids_def)

theorem skipped_candidates_not_retried_witness:
  "let st = demo_session\<lparr>current_state := Some DEPLOYED_WITH_OLD_REVISION\<rparr>;
       rep = \<lparr>rep_when = CallPhase, rep_outcome = Skipped, wasxfail = False\<rparr>
   in \<exists>st1. runtest_makereport st 0 rep = Inr st1 \<and> upgrade_edge \<notin> skipped_transitions st1
      \<and> runtest_setup st1 0 = Inr (SkipTest (AlreadySkipped DEPLOYED_WITH_OLD_REVISION DEPLOYED))"
proof -
  let ?st = "demo_session\<lparr>current_state := Some DEPLOYED_WITH_OLD_REVISION\<rparr>"
  let ?rep = "\<lparr>rep_when = CallPhase, rep_outcome = Skipped, wasxfail = False\<rparr>"
  have mk: "marker_or_none ?st 0 = Inr (Some upgrade_marker)"
    using marker_or_none_Inr [OF demo_session_markers(1)] by simp
  have tr: "is_transition upgrade_marker" by (simp add: is_transition_def upgrade_marker_def)
  define st1 where "st1 = record_skip upgrade_marker 0 ?st"
  have run: "runtest_makereport ?st 0 ?rep = Inr st1" using mk tr by (simp add: runtest_makereport_def st1_def)
  have inv: "skip_inv ?st" and f: "failed_state_test ?st = None"
    using demo_session_skip_inv by (simp_all add: skip_inv_def) (simp add: demo_session_def)
  have r: "DEPLOYED_WITH_OLD_REVISION \<in> set (requires upgrade_marker)" by (simp add: upgrade_marker_def)
  have "marker_or_none st1 0 = Inr (Some upgrade_marker)" "original_id st1 0 = original_id ?st 0" "current_state st1 = current_state ?st"
    using mk by (simp_all add: st1_def marker_or_none_def item_marker_def obj_def original_id_def)
  with skipped_candidates_not_retried [OF inv f mk tr _ r _ _ run rtranclp.rtrancl_refl, of 0]
  have "runtest_setup st1 0 = Inr (SkipTest (AlreadySkipped DEPLOYED_WITH_OLD_REVISION DEPLOYED))"
    by (simp add: upgrade_marker_def)
  moreover have "upgrade_edge \<notin> skipped_transitions st1"
    by (simp add: st1_def record_skip_def upgrade_marker_def record_skipped_transition_candidate_def Let_def
        demo_session_def skipped_ids_def original_id_def dict_get_default_def upgrade_edge_def transition_def redeploy_edge_def)
  ultimately show ?thesis using run by (auto simp: Let_def)
qed

text \<open>
  C30. The recovery bridge: it is missing exactly when no acceptable state can be reached over
  edges that are not exhausted; otherwise it follows a cheapest such path to one of the acceptable
  states, with one fresh duplicate per edge, all distinct, each a transition test along its edge
  whose template has not skipped that edge before.
\<close>

theorem recovery_bridge_correct:
  assumes "recovery_ok st g"
  shows "\<exists>res st'. find_recovery_bridge r g src targets st = Some (Inr (res, st'))
    \<and> (res = None \<longleftrightarrow> \<not> (\<exists>t \<in> set targets. \<exists>p. is_path g (skipped_transitions st) src p t))
    \<and> (\<forall>bridge. res = Some bridge \<longrightarrow> distinct bridge \<and> (\<exists>path.
          (\<exists>t \<in> set targets. is_path g (skipped_transitions st) src path t)
        \<and> (\<forall>t \<in> set targets. \<forall>q. is_path g (skipped_transitions st) src q t \<longrightarrow> path_cost path \<le> path_cost q)
        \<and> list_all2 (bridges st st') path bridge))"
  using assms
proof (cases rule: find_recovery_bridge_ok [where r = r and src = src and targets = targets])
  case (none st')
  then show ?thesis by auto
next
  case (found path bridge st')
  then have "\<exists>t \<in> set targets. \<exists>p. is_path g (skipped_transitions st) src p t" by (auto simp: best_answer_def)
  with found show ?thesis by (auto simp: best_answer_def)
qed

lemma demo_session_recovery_ok:
  "recovery_ok demo_session demo_edges"
proof -
  have g: "graph_ok demo_edges" "positive_costs demo_edges"
    by (auto simp: demo_edges_def upgrade_edge_def redeploy_edge_def transition_def intro!: graph_ok_register positive_costs_register)
  have tr: "sched_transitions demo_session = [(upgrade_edge, [0, 1]), (redeploy_edge, [2])]" by (simp add: demo_session_def)
  have ne: "redeploy_edge \<noteq> upgrade_edge" by (simp add: upgrade_edge_def redeploy_edge_def transition_def)
  have ids: "length (objs demo_session) = 5" "original_id demo_session i = i" for i
    by (simp_all add: demo_session_def original_id_def)
  have edges: "fst e = upgrade_edge \<or> fst e = redeploy_edge" if "e \<in> set (edges_from demo_edges s)" for e s
    using that by (auto simp: demo_edges_def edges_from_register split: if_splits)
       (simp add: edges_from_def dict_get_default_def)
  have "candidate_ok demo_session upgrade_edge 0" "candidate_ok demo_session upgrade_edge (Suc 0)" "candidate_ok demo_session redeploy_edge 2"
    by (simp_all add: candidate_ok_def ids demo_session_markers is_transition_def upgrade_marker_def redeploy_marker_def
        upgrade_edge_def redeploy_edge_def transition_def)
  then show ?thesis
    using g demo_session_skip_inv ne ids edges
    by (auto simp: recovery_ok_def tr dict_get_default_def split: if_splits)
qed

lemma demo_bridge_path:
  "\<exists>t \<in> set [DEPLOYED_WITH_OLD_REVISION]. \<exists>p. is_path demo_edges (skipped_transitions demo_session) DEPLOYED p t"
proof -
  have "is_path demo_edges (skipped_transitions demo_session) DEPLOYED [(redeploy_edge, 2)] DEPLOYED_WITH_OLD_REVISION"
    by (simp add: demo_edges_def usable_def edges_from_register redeploy_edge_def upgrade_edge_def transition_def demo_session_def)
  then have "\<exists>p. is_path demo_edges (skipped_transitions demo_session) DEPLOYED p DEPLOYED_WITH_OLD_REVISION" by (rule exI)
  then show ?thesis by simp
qed

theorem recovery_bridge_correct_witness:
  "\<exists>bridge st'. find_recovery_bridge (\<lambda>_. 0) demo_edges DEPLOYED [DEPLOYED_WITH_OLD_REVISION] demo_session =
      Some (Inr (Some bridge, st')) \<and> distinct bridge"
  using recovery_bridge_correct [OF demo_session_recovery_ok, of "\<lambda>_. 0" DEPLOYED "[DEPLOYED_WITH_OLD_REVISION]"]
    demo_bridge_path by auto

text \<open>
  C33. A gap is recovered before the next test: if the environment is not in an acceptable state
  of the next test but one can be reached over edges that are not exhausted, the protocol hook
  inserts a non-empty bridge right after the finished item, counts it as collected, and if the
  teardown towards it and the bridge tests succeed, none of the bridge tests and not the next
  test is skipped.
\<close>

theorem protocol_recovers:
  assumes ok: "recovery_ok st g" and "sched_graph st = Some g" and cur: "current_state st = Some cur"
    and "failed_state_test st = None" and m: "marker_or_none st nxt = Inr (Some m)" and "nxt < length (objs st)"
    and nc: "cur \<notin> set (candidate_requires st nxt m)"
    and reach: "\<exists>t \<in> set (candidate_requires st nxt m). \<exists>p. is_path g (skipped_transitions st) cur p t"
    and n: "index_of i (session_items st) = Some n" and td: "\<forall>j. td j = None"
  shows "\<exists>bridge st'. runtest_protocol r td st i (Some nxt) = Some (Inr st') \<and> bridge \<noteq> []
    \<and> session_items st' = take (Suc n) (session_items st) @ bridge @ drop (Suc n) (session_items st)
    \<and> testscollected st' = testscollected st + int (length bridge)
    \<and> runs_clean r td st' (bridge @ [nxt])"
  using ok
proof (cases rule: find_recovery_bridge_ok [where r = r and src = cur and targets = "candidate_requires st nxt m"])
  case none
  with reach show ?thesis by simp
next
  case (found path bridge st1)
  from found(2) obtain t where t: "t \<in> set (candidate_requires st nxt m)" "is_path g (skipped_transitions st) cur path t"
    by (auto simp: best_answer_def)
  have sb: "same_belief st st1" by (rule same_belief_bridge [OF found(1)])
  have "path \<noteq> []" using t nc by auto
  then have ne: "bridge \<noteq> []" using found(3) by auto
  have "marked_run (splice n bridge st1) cur (bridge @ [nxt])"
    using bridge_marked_run [OF ok sb t(2) found(3) _ _ m t(1)] found(6) assms(6) by simp
  then have clean: "runs_clean r td (splice n bridge st1) (bridge @ [nxt])"
    by (rule marked_run_clean) (use sb assms(3,4) in \<open>simp_all add: same_belief_def\<close>)
  have s1: "session_items st1 = session_items st" "testscollected st1 = testscollected st" using sb by (simp_all add: same_belief_def)
  have "candidate_requires st nxt m \<noteq> []" using t(1) by auto
  then have "runtest_protocol r td st i (Some nxt) = Some (Inr (splice n bridge st1))"
    using assms(2) cur m nc found(1) n ne td s1
    by (cases bridge) (simp_all add: runtest_protocol_def Let_def reconcile_def splice_def)
  with clean ne s1 show ?thesis by (intro exI [of _ bridge] exI [of _ "splice n bridge st1"]) (simp add: splice_def)
qed

theorem protocol_recovers_witness:
  "\<exists>bridge st'. runtest_protocol (\<lambda>_. 0) (\<lambda>_. None) demo_session 3 (Some 0) = Some (Inr st') \<and> bridge \<noteq> []
    \<and> session_items st' = [3] @ bridge @ [0, 1, 4]"
proof -
  have req: "candidate_requires demo_session 0 upgrade_marker = [DEPLOYED_WITH_OLD_REVISION]"
    by (simp add: candidate_requires_def upgrade_marker_def is_transition_def skipped_ids_def demo_session_def)
  have s: "sched_graph demo_session = Some demo_edges" "current_state demo_session = Some DEPLOYED" "failed_state_test demo_session = None"
    "0 < length (objs demo_session)" "session_items demo_session = [3, 0, 1, 4]"
    by (simp_all add: demo_session_def)
  then have n: "index_of 3 (session_items demo_session) = Some 0" by simp
  from protocol_recovers [OF demo_session_recovery_ok s(1,2,3) marker_or_none_Inr [OF demo_session_markers(1)] s(4) _
      demo_bridge_path [folded req] n,
    of "\<lambda>_. None" "\<lambda>_. 0"]
  show ?thesis by (auto simp: req s(5))
qed

end
