(* ===== verification/Sched_Collect.thy ===== *)
theory Sched_Collect
  imports Sched_Runtime_Correct
begin

text \<open>
  The collection hook of the scheduler against the planner and the run-time hooks: what the
  collected graph, the candidates and the clusters contain, that they satisfy what the planner
  and the recovery rely on, and that the scheduled order passes the run-time checks.
\<close>

section \<open>Appending under keys\<close>

lemma in_dict_append [dict_simps]:
  "x \<in> set (dict_get_default (dict_append k y d) j []) \<longleftrightarrow> x \<in> set (dict_get_default d j []) \<or> j = k \<and> x = y"
  by (auto simp: dict_get_append)

lemma in_fold_dict_append [dict_simps]:
  "x \<in> set (dict_get_default (fold (\<lambda>q. dict_append (f q) i) qs d) j []) \<longleftrightarrow>
     x \<in> set (dict_get_default d j []) \<or> x = i \<and> (\<exists>q \<in> set qs. f q = j)"
  by (induction qs arbitrary: d) (auto simp: in_dict_append)

lemma dict_ok_append [simp, intro]: "dict_ok d \<Longrightarrow> dict_ok (dict_append k x d)"
  by (simp add: dict_append_def)

lemma dict_ok_fold_append: "dict_ok d \<Longrightarrow> dict_ok (fold (\<lambda>q. dict_append (f q) i) qs d)"
  by (induction qs arbitrary: d) auto

section \<open>The graph and its candidates\<close>

definition graph_inv :: "'a label_state_scheme \<Rightarrow> oid StateGraph \<Rightarrow> (StateTransition, oid list) dict \<Rightarrow> bool" where
  "graph_inv ls g et \<longleftrightarrow> graph_ok g \<and> positive_costs g \<and>
     (\<forall>s. \<forall>e \<in> set (edges_from g s). snd e \<in> set (dict_get_default et (fst e) [])) \<and>
     (\<forall>t. \<forall>i \<in> set (dict_get_default et t []). candidate_ok ls t i)"

lemma graph_inv_register:
  assumes "graph_inv ls g et" and "candidate_ok ls (transition req prov) i"
  shows "graph_inv ls (register_transition (transition req prov) i g) (dict_append (transition req prov) i et)"
  using assms unfolding graph_inv_def
  by (auto simp: edges_from_register in_dict_append transition_def intro!: graph_ok_register positive_costs_register
      split: if_splits)

lemma register_item_edges_inv:
  assumes "graph_inv ls (fst acc) (snd acc)" and "\<forall>req \<in> set reqs. candidate_ok ls (transition req prov) i"
  shows "graph_inv ls (fst (register_item_edges reqs prov i acc)) (snd (register_item_edges reqs prov i acc))"
  using assms
  by (induction reqs prov i acc rule: register_item_edges.induct) (auto intro: graph_inv_register)

lemma candidate_ok_marker:
  "item_marker ls i = Inr (Some m) \<Longrightarrow> is_transition m \<Longrightarrow> i < length (objs ls) \<Longrightarrow> req \<in> set (requires m) \<Longrightarrow>
     candidate_ok ls (transition req (provides m)) i"
  by (auto simp: candidate_ok_def transition_def)

lemma collect_graph_inv:
  assumes "collect_graph ls is acc = Inr (g, et)" and "\<forall>i \<in> set is. i < length (objs ls)"
    and "graph_inv ls (fst acc) (snd acc)"
  shows "graph_inv ls g et"
  using assms
proof (induction "is" arbitrary: acc)
  case (Cons i "is")
  then obtain marker where m: "item_marker ls i = Inr marker" by (auto simp: bind_result_Inr_iff)
  let ?acc = "case marker of Some m \<Rightarrow> if is_transition m then register_item_edges (requires m) (provides m) i acc else acc
    | None \<Rightarrow> acc"
  have "graph_inv ls (fst ?acc) (snd ?acc)"
    using Cons.prems(2,3) m
    by (auto split: option.splits intro: register_item_edges_inv candidate_ok_marker)
  with Cons.IH [of ?acc] Cons.prems m show ?case by simp
qed simp

lemma graph_inv_Nil: "graph_inv ls [] []"
  by (simp add: graph_inv_def edges_from_def dict_get_default_def)

section \<open>The selected items\<close>

lemma partition_items_spec:
  assumes "partition_items ls is = Inr (marked, unmarked)"
  shows "(i, m) \<in> set marked \<longleftrightarrow> i \<in> set is \<and> item_marker ls i = Inr (Some m)"
    and "unmarked = filter (\<lambda>i. item_marker ls i = Inr None) is"
    and "\<forall>i \<in> set is. \<exists>marker. item_marker ls i = Inr marker"
  using assms
  by (atomize (full), induction "is" arbitrary: marked unmarked)
     (auto simp: bind_result_Inr_iff split: option.splits prod.splits)

definition pure_of :: "(State, oid list) dict \<times> (StateTransition, oid list) dict \<Rightarrow> State \<Rightarrow> oid list" where
  "pure_of acc s = dict_get_default (fst acc) s []"

definition sel_of :: "(State, oid list) dict \<times> (StateTransition, oid list) dict \<Rightarrow> StateTransition \<Rightarrow> oid list" where
  "sel_of acc t = dict_get_default (snd acc) t []"

lemma add_cluster_spec:
  "i \<in> set (pure_of (add_cluster (j, m) acc) s) \<longleftrightarrow> i \<in> set (pure_of acc s) \<or>
     i = j \<and> \<not> bridge_only m \<and> \<not> is_transition m \<and> s \<in> set (requires m)"
  "i \<in> set (sel_of (add_cluster (j, m) acc) t) \<longleftrightarrow> i \<in> set (sel_of acc t) \<or>
     i = j \<and> \<not> bridge_only m \<and> is_transition m \<and> (\<exists>q \<in> set (requires m). transition q (provides m) = t)"
  by (auto simp: add_cluster_def pure_of_def sel_of_def Let_def in_fold_dict_append
      in_fold_dict_append [where f = "\<lambda>q. q"] split: prod.splits)

lemma fold_add_cluster_spec:
  "i \<in> set (pure_of (fold add_cluster marked acc) s) \<longleftrightarrow> i \<in> set (pure_of acc s) \<or>
     (\<exists>m. (i, m) \<in> set marked \<and> \<not> bridge_only m \<and> \<not> is_transition m \<and> s \<in> set (requires m))"
  "i \<in> set (sel_of (fold add_cluster marked acc) t) \<longleftrightarrow> i \<in> set (sel_of acc t) \<or>
     (\<exists>m. (i, m) \<in> set marked \<and> \<not> bridge_only m \<and> is_transition m \<and> (\<exists>q \<in> set (requires m). transition q (provides m) = t))"
  by (induction marked arbitrary: acc) (auto simp: add_cluster_spec)

lemma add_cluster_dict_ok: "dict_ok (snd acc) \<Longrightarrow> dict_ok (snd (add_cluster im acc))"
  by (auto simp: add_cluster_def Let_def dict_ok_fold_append split: prod.splits)

lemma build_clusters_spec:
  assumes "build_clusters marked = (pure, sel)"
  shows "i \<in> set (dict_get_default pure s []) \<longleftrightarrow>
      (\<exists>m. (i, m) \<in> set marked \<and> \<not> bridge_only m \<and> \<not> is_transition m \<and> s \<in> set (requires m))"
    and "i \<in> set (dict_get_default sel t []) \<longleftrightarrow>
      (\<exists>m. (i, m) \<in> set marked \<and> \<not> bridge_only m \<and> is_transition m \<and> (\<exists>q \<in> set (requires m). transition q (provides m) = t))"
    and "dict_ok sel"
proof -
  have acc: "fold add_cluster marked ([], []) = (pure, sel)" using assms by (simp add: build_clusters_def)
  show "i \<in> set (dict_get_default pure s []) \<longleftrightarrow>
      (\<exists>m. (i, m) \<in> set marked \<and> \<not> bridge_only m \<and> \<not> is_transition m \<and> s \<in> set (requires m))"
    using fold_add_cluster_spec(1) [of i marked "([], [])" s] by (simp add: acc pure_of_def dict_get_default_def)
  show "i \<in> set (dict_get_default sel t []) \<longleftrightarrow>
      (\<exists>m. (i, m) \<in> set marked \<and> \<not> bridge_only m \<and> is_transition m \<and> (\<exists>q \<in> set (requires m). transition q (provides m) = t))"
    using fold_add_cluster_spec(2) [of i marked "([], [])" t] by (simp add: acc sel_of_def dict_get_default_def)
  have "dict_ok (snd (fold add_cluster marked acc))" if "dict_ok (snd acc)" for acc
    using that by (induction marked arbitrary: acc) (simp_all add: add_cluster_dict_ok)
  from this [of "([], [])"] acc show "dict_ok sel" by simp
qed

text \<open>The context handed to the planner.\<close>

lemma clusters_ctx_ok:
  assumes "build_clusters marked = (pure, sel)" and "graph_inv ls g et"
    and "\<forall>(i, m) \<in> set marked. i < length (objs ls)"
  defines "ctx \<equiv> \<lparr>pure_clusters = pure, selected_transitions = sel, all_transitions = et, full_graph = g\<rparr>"
  shows "ctx_ok ctx" and "ctx_ids_ok ctx ls"
proof -
  note spec = build_clusters_spec [OF assms(1)]
  show "ctx_ok ctx" using assms(2) spec(3) by (fastforce simp: ctx_ok_def ctx_def graph_inv_def)
  have sel: "i < length (objs ls)" if "i \<in> set (dict_get_default sel t [])" for i t
    using that spec(2) assms(3) by fastforce
  have pure: "i < length (objs ls)" if "i \<in> set (dict_get_default pure t [])" for i t
    using that spec(1) assms(3) by fastforce
  have all: "i < length (objs ls)" if "i \<in> set (dict_get_default et t [])" for i t
    using that assms(2) by (auto simp: graph_inv_def candidate_ok_def)
  have "i < length (objs ls)" if "i \<in> selected_items ctx" for i
  proof -
    from that obtain s where "i \<in> set (dict_get_default pure s []) \<or> (\<exists>t is. (t, is) \<in> set sel \<and> i \<in> set is)"
      by (auto simp: selected_items_def all_selected_at_def ctx_def)
    then show ?thesis
    proof
      assume "\<exists>t is. (t, is) \<in> set sel \<and> i \<in> set is"
      then obtain t "is" where "(t, is) \<in> set sel" "i \<in> set is" by blast
      then have "i \<in> set (dict_get_default sel t [])" using spec(3) by (simp add: dict_get_default_def dict_mem_get)
      then show ?thesis by (rule sel)
    qed (rule pure)
  qed
  with sel all show "ctx_ids_ok ctx ls" by (auto simp: ctx_ids_ok_def offers_def ctx_def)
qed

section \<open>Labelling keeps the markers and the scheduler's belief\<close>

definition same_marks :: "sched_state \<Rightarrow> sched_state \<Rightarrow> bool" where
  "same_marks st st' \<longleftrightarrow> same_belief st st' \<and> length (objs st) \<le> length (objs st') \<and>
     (\<forall>k < length (objs st). state_mark (obj st' k) = state_mark (obj st k))"

lemma same_marks_refl [simp]: "same_marks st st"
  by (simp add: same_marks_def same_belief_def)

lemma same_marks_trans: "same_marks a b \<Longrightarrow> same_marks b c \<Longrightarrow> same_marks a c"
  unfolding same_marks_def using same_belief_trans by (auto simp: less_le_trans)

lemma same_marks_mark: "i < length (objs st) \<Longrightarrow> same_marks st (mark_as_injected i st)"
  by (simp add: same_marks_def same_belief_label mark_as_injected_obj)

lemma same_marks_mark_items:
  assumes "\<forall>i \<in> set plan. i < length (objs st)"
  shows "same_marks st (mark_injected_items plan ids st)"
  unfolding mark_injected_items_def using assms
proof (induction plan arbitrary: st)
  case (Cons i plan)
  let ?st = "if i \<in> ids then mark_as_injected i st else st"
  have 1: "same_marks st ?st" using Cons.prems same_marks_mark by simp
  have 2: "same_marks ?st (foldl (\<lambda>l i. if i \<in> ids then mark_as_injected i l else l) ?st plan)"
    by (rule Cons.IH) (use Cons.prems in simp)
  show ?case using same_marks_trans [OF 1 2] by simp
qed simp

lemma same_marks_label: "i < length (objs st) \<Longrightarrow> same_marks st (label_occurrence i b n k st)"
  by (simp add: same_marks_def same_belief_label)

lemma same_marks_duplicate:
  assumes "duplicate_item_for_repeat i n b c st = (j, st')" and "i < length (objs st)"
  shows "same_marks st st'" and "state_mark (obj st' j) = state_mark (obj st i)" and "j < length (objs st')"
  using duplicate_item_spec [OF assms] same_belief_duplicate [OF assms(1)] by (auto simp: same_marks_def)

lemma disambiguate_loop_marks:
  assumes "disambiguate_loop occ plan os st = (res, st')" and "\<forall>i \<in> set plan. i < N" and "N \<le> length (objs st)"
  shows "same_marks st st' \<and> list_all2 (\<lambda>i j. j < length (objs st') \<and> state_mark (obj st' j) = state_mark (obj st i)) plan res"
  using assms
proof (induction plan arbitrary: os st res)
  case (Cons i plan)
  have iN: "i < length (objs st)" using Cons.prems by auto
  obtain j st1 os' rest where step: "res = j # rest" "disambiguate_loop occ plan os' st1 = (rest, st')"
    "same_marks st st1" "state_mark (obj st1 j) = state_mark (obj st i)" "j < length (objs st1)"
  proof (cases "occ i = 1")
    case True
    with Cons.prems(1) that [of i _ os st] iN show ?thesis by (auto split: prod.splits)
  next
    case False
    define names where "names = setdefault (base_names os) i (item_name (obj st i))"
    define nodeids where "nodeids = setdefault (base_nodeids os) i (item_nodeid (obj st i))"
    define occurrence where "occurrence = Suc (occurrence_counts os i)"
    define os' where "os' = \<lparr>base_names = names, base_nodeids = nodeids,
      occurrence_counts = (occurrence_counts os)(i := occurrence)\<rparr>"
    obtain j st1 where j: "(if occurrence = 1 then (i, label_occurrence i (the (names i)) (the (nodeids i)) occurrence st)
      else duplicate_item_for_repeat i occurrence (names i) (nodeids i) st) = (j, st1)" by fastforce
    obtain rest st2 where rest: "disambiguate_loop occ plan os' st1 = (rest, st2)" by fastforce
    have "res = j # rest" "st2 = st'" using Cons.prems(1) False j rest
      unfolding names_def nodeids_def occurrence_def os'_def by (auto simp: Let_def)
    moreover have "same_marks st st1 \<and> state_mark (obj st1 j) = state_mark (obj st i) \<and> j < length (objs st1)"
    proof (cases "occurrence = 1")
      case True
      with j have e: "j = i" "st1 = label_occurrence i (the (names i)) (the (nodeids i)) occurrence st" by auto
      show ?thesis unfolding e using same_marks_label [OF iN] iN by simp
    next
      case False
      with j same_marks_duplicate [of i occurrence "names i" "nodeids i" st j st1] iN show ?thesis by simp
    qed
    ultimately show ?thesis using that [of j rest os' st1] rest by blast
  qed
  have "N \<le> length (objs st1)" using step(3) Cons.prems(3) by (simp add: same_marks_def)
  with Cons.IH [OF step(2)] Cons.prems(2) have IH: "same_marks st1 st'"
    "list_all2 (\<lambda>i j. j < length (objs st') \<and> state_mark (obj st' j) = state_mark (obj st1 i)) plan rest" by auto
  have "list_all2 (\<lambda>i j. j < length (objs st') \<and> state_mark (obj st' j) = state_mark (obj st i)) plan rest"
  proof -
    have "plan ! p < length (objs st)" if "p < length plan" for p
      using that Cons.prems(2,3) nth_mem [of p plan] by (meson less_le_trans list.set_intros(2))
    then show ?thesis using IH(2) step(3) by (auto simp: list_all2_conv_all_nth same_marks_def)
  qed
  moreover have "j < length (objs st') \<and> state_mark (obj st' j) = state_mark (obj st i)"
    using IH(1) step(4,5) by (auto simp: same_marks_def)
  ultimately show ?case using step(1,3) IH(1) same_marks_trans by auto
qed simp

section \<open>From plans to runs of the hooks\<close>

lemma valid_run_marked:
  assumes "valid_run ctx a plan s"
    and pure: "\<And>i s. i \<in> set (dict_get_default (pure_clusters ctx) s []) \<Longrightarrow>
        \<exists>m. item_marker st i = Inr (Some m) \<and> \<not> is_transition m \<and> requires m = [s]"
    and move: "\<And>t i. offers ctx t i \<Longrightarrow> candidate_ok st t i"
    and none: "\<And>e. skipped_ids st e = {}"
    and "marked_run st s rest"
  shows "marked_run st a (plan @ rest)"
  using assms(1,5)
proof (induction arbitrary: rest rule: valid_run.induct)
  case (valid_pure p s i)
  from pure [OF valid_pure.hyps(2)] obtain m where m: "item_marker st i = Inr (Some m)" "\<not> is_transition m" "requires m = [s]"
    by blast
  then have "marked_run st s (i # rest)" using valid_pure.prems by (simp add: is_transition_def)
  from valid_pure.IH [OF this] show ?case by simp
next
  case (valid_move p t i)
  from move [OF valid_move.hyps(2)] obtain m where m: "item_marker st i = Inr (Some m)" "from_state t \<in> set (requires m)"
    "t = transition (from_state t) (provides m)" unfolding candidate_ok_def by blast
  then have "to_state t = provides m" by (metis StateTransition.select_convs(2) transition_def)
  then have "marked_run st (from_state t) (i # rest)" using m valid_move.prems none by simp
  from valid_move.IH [OF this] show ?case by simp
qed simp

lemma marked_run_transfer:
  assumes "list_all2 (\<lambda>i j. item_marker st' j = item_marker st i) is js" and "\<And>e. skipped_ids st' e = {}"
    and "marked_run st a is"
  shows "marked_run st' a js"
  using assms(1,3)
proof (induction "is" arbitrary: a js)
  case (Cons i "is")
  then obtain j js' where "js = j # js'" "item_marker st' j = item_marker st i"
    "list_all2 (\<lambda>i j. item_marker st' j = item_marker st i) is js'" by (cases js) auto
  with Cons assms(2) show ?case by (auto split: sum.splits option.splits)
qed simp

lemma marked_run_unmarked: "\<forall>i \<in> set is. item_marker st i = Inr None \<Longrightarrow> marked_run st a is"
  by (induction "is") auto

definition single_pure :: "'a label_state_scheme \<Rightarrow> oid list \<Rightarrow> bool" where
  "single_pure ls is \<longleftrightarrow> (\<forall>i \<in> set is. \<forall>m. item_marker ls i = Inr (Some m) \<longrightarrow> \<not> is_transition m \<longrightarrow> length (requires m) = 1)"

text \<open>The shape of a successful collection.\<close>

lemma collection_cases:
  assumes "collection_modifyitems r raw items st = Some (Inr (items', st'))"
  obtains (unmarked) cur g et where "state_of_str raw = Some cur" "collect_graph st (all_collected st) ([], []) = Inr (g, et)"
      "partition_items (publish g et cur st) items = Inr ([], items)" "items' = items" "st' = publish g et cur st"
  | (planned) cur g et marked unmarked pure sel ordered st2 k where "state_of_str raw = Some cur"
      "collect_graph st (all_collected st) ([], []) = Inr (g, et)"
      "partition_items (publish g et cur st) items = Inr (marked, unmarked)" "build_clusters marked = (pure, sel)"
      "build_execution_plan r (draws st) \<lparr>pure_clusters = pure, selected_transitions = sel, all_transitions = et, full_graph = g\<rparr>
         cur (publish g et cur st) = Some (Inr (ordered, st2, k))"
      "items' = ordered @ unmarked" "st' = st2\<lparr>draws := k\<rparr>"
proof -
  obtain cur where cur: "state_of_str raw = Some cur"
    using assms by (cases "state_of_str raw") (auto simp: collection_modifyitems_def)
  obtain g et where g: "collect_graph st (all_collected st) ([], []) = Inr (g, et)"
    using assms cur by (cases "collect_graph st (all_collected st) ([], [])") (auto simp: collection_modifyitems_def)
  note run1 = assms [unfolded collection_modifyitems_def cur, simplified, unfolded g, simplified, unfolded Let_def]
  obtain marked unmarked where p: "partition_items (publish g et cur st) items = Inr (marked, unmarked)"
    using run1 by (cases "partition_items (publish g et cur st) items") auto
  note run2 = run1 [unfolded p, simplified]
  show ?thesis
  proof (cases "marked = []")
    case True
    have "item_marker (publish g et cur st) i = Inr None" if i: "i \<in> set items" for i
    proof -
      obtain marker where "item_marker (publish g et cur st) i = Inr marker"
        using partition_items_spec(3) [OF p] i by blast
      then show ?thesis using partition_items_spec(1) [OF p, of i] i True by (cases marker) auto
    qed
    then have "unmarked = items" using partition_items_spec(2) [OF p] by (simp add: filter_id_conv)
    with p True have p': "partition_items (publish g et cur st) items = Inr ([], items)" by blast
    from run2 have "items' = items" "st' = publish g et cur st" unfolding True by simp_all
    then show ?thesis by (rule that(1) [OF cur g p'])
  next
    case False
    obtain pure sel where c: "build_clusters marked = (pure, sel)" by fastforce
    have d: "draws (publish g et cur st) = draws st" by (simp add: publish_def)
    note run3 = run2 [simplified False c d, simplified]
    obtain ordered st2 k where b: "build_execution_plan r (draws st)
        \<lparr>pure_clusters = pure, selected_transitions = sel, all_transitions = et, full_graph = g\<rparr>
        cur (publish g et cur st) = Some (Inr (ordered, st2, k))"
      using run3 by (auto split: option.splits sum.splits plan_error.splits)
    from run3 b have "items' = ordered @ unmarked" "st' = st2\<lparr>draws := k\<rparr>" by simp_all
    then show ?thesis by (rule that(2) [OF cur g p c b])
  qed
qed

lemma publish_frame [simp]:
  "objs (publish g et cur st) = objs st" "item_marker (publish g et cur st) i = item_marker st i"
  "duplicate_original_ids (publish g et cur st) = duplicate_original_ids st"
  "skipped_ids (publish g et cur st) e = {}" "current_state (publish g et cur st) = Some cur"
  "failed_state_test (publish g et cur st) = None" "sched_graph (publish g et cur st) = Some g"
  "sched_transitions (publish g et cur st) = et" "skipped_transitions (publish g et cur st) = {}"
  "candidate_ok (publish g et cur st) t i = candidate_ok st t i"
  "graph_inv (publish g et cur st) g' et' = graph_inv st g' et'"
  by (simp_all add: publish_def item_marker_def obj_def skipped_ids_def candidate_ok_def graph_inv_def)

definition ids_ok :: "oid list \<Rightarrow> sched_state \<Rightarrow> bool" where
  "ids_ok items st \<longleftrightarrow> (\<forall>i \<in> set (all_collected st) \<union> set items. i < length (objs st))"

text \<open>Everything known about a planned collection.\<close>

lemma planned_collection:
  assumes "collect_graph st (all_collected st) ([], []) = Inr (g, et)"
    and "partition_items (publish g et cur st) items = Inr (marked, unmarked)" and "build_clusters marked = (pure, sel)"
    and plan: "build_execution_plan r k0 \<lparr>pure_clusters = pure, selected_transitions = sel, all_transitions = et, full_graph = g\<rparr>
         cur (publish g et cur st) = Some (Inr (ordered, st2, k))"
    and "ids_ok items st"
  obtains order final where
    "valid_run \<lparr>pure_clusters = pure, selected_transitions = sel, all_transitions = et, full_graph = g\<rparr> cur order final"
    "selected_items \<lparr>pure_clusters = pure, selected_transitions = sel, all_transitions = et, full_graph = g\<rparr> \<subseteq> set order"
    "realises st order st2 ordered" "same_marks (publish g et cur st) st2" "valid_ids st order"
    "list_all2 (\<lambda>i j. j < length (objs st2) \<and> state_mark (obj st2 j) = state_mark (obj st i)) order ordered"
    "\<forall>i < length (objs st). original_id st2 i = original_id st i"
proof -
  let ?ctx = "\<lparr>pure_clusters = pure, selected_transitions = sel, all_transitions = et, full_graph = g\<rparr>"
  let ?st1 = "publish g et cur st"
  have inv: "graph_inv st g et"
    using collect_graph_inv [OF assms(1)] assms(5) by (simp add: ids_ok_def graph_inv_Nil)
  have "\<forall>(i, m) \<in> set marked. i < length (objs st)"
    using partition_items_spec(1) [OF assms(2)] assms(5) by (auto simp: ids_ok_def)
  note ok = clusters_ctx_ok [OF assms(3) inv this]
  obtain b s ids where b: "branch_ok ?ctx cur s b" "selected_items ?ctx \<subseteq> b_scheduled b"
    and d: "disambiguate_repeated_items (b_plan b) (mark_injected_items (b_plan b) ids ?st1) = (ordered, st2)"
    using build_execution_plan_cases [OF ok(1), of r k0 cur ?st1] plan by auto
  have run: "valid_run ?ctx cur (b_plan b) s" and sub: "selected_items ?ctx \<subseteq> set (b_plan b)"
    using b by (auto simp: branch_ok_def)
  have ids: "valid_ids st (b_plan b)" by (rule valid_run_ids [OF run ok(2)])
  then have ids1: "\<forall>i \<in> set (b_plan b). i < length (objs ?st1)" by (simp add: valid_ids_def)
  let ?stm = "mark_injected_items (b_plan b) ids ?st1"
  have sm: "same_marks ?st1 ?stm" by (rule same_marks_mark_items [OF ids1])
  have dm: "same_marks ?stm st2 \<and> list_all2 (\<lambda>i j. j < length (objs st2) \<and> state_mark (obj st2 j) = state_mark (obj ?stm i)) (b_plan b) ordered"
    by (rule disambiguate_loop_marks [OF d [unfolded disambiguate_repeated_items_def] ids1]) simp
  have "realises ?st1 (b_plan b) st2 ordered"
    using disambiguate_realises [OF d] ids by (simp add: valid_ids_def)
  then have real: "realises st (b_plan b) st2 ordered" by (simp add: realises_def original_id_def)
  have "state_mark (obj ?stm i) = state_mark (obj st i)" if "i \<in> set (b_plan b)" for i
    using sm that ids1 by (simp add: same_marks_def obj_def)
  then have "list_all2 (\<lambda>i j. j < length (objs st2) \<and> state_mark (obj st2 j) = state_mark (obj st i)) (b_plan b) ordered"
    using dm by (auto simp: list_all2_conv_all_nth)
  moreover have "\<forall>i < length (objs st). original_id st2 i = original_id st i"
    using disambiguate_post [OF d] ids by (simp add: valid_ids_def loop_post_def original_id_def)
  ultimately show ?thesis using run sub real same_marks_trans [OF sm] dm ids by (intro that) auto
qed

section \<open>Properties\<close>

text \<open>
  C11. The scheduled order agrees with the run-time checks: after a successful collection in
  which every selected state-preserving test accepts a single state, if every test passes then
  no test of the session is skipped by the setup hook and the protocol hook never has to
  recover; the plan's bridges and the trailing unmarked tests included.
\<close>

theorem collected_order_runs:
  assumes "collection_modifyitems r raw items st = Some (Inr (items', st'))"
    and "ids_ok items st" and "single_pure st items"
  shows "runs_clean r' td st' items'"
  using assms(1)
proof (cases rule: collection_cases)
  case (unmarked cur g et)
  have "\<forall>i \<in> set items. item_marker st' i = Inr None"
    using partition_items_spec(2) [OF unmarked(3)] unmarked(5) by (auto simp: filter_id_conv eq_commute [of items])
  then have "marked_run st' cur items'" using marked_run_unmarked unmarked(4) by blast
  then show ?thesis by (rule marked_run_clean) (simp_all add: unmarked(5))
next
  case (planned cur g et marked unmarked pure sel ordered st2 k)
  let ?ctx = "\<lparr>pure_clusters = pure, selected_transitions = sel, all_transitions = et, full_graph = g\<rparr>"
  let ?st1 = "publish g et cur st"
  obtain order final where o: "valid_run ?ctx cur order final" "same_marks ?st1 st2" "valid_ids st order"
    "list_all2 (\<lambda>i j. j < length (objs st2) \<and> state_mark (obj st2 j) = state_mark (obj st i)) order ordered"
    by (rule planned_collection [OF planned(2-5) assms(2)])
  have inv: "graph_inv st g et"
    using collect_graph_inv [OF planned(2)] assms(2) by (simp add: ids_ok_def graph_inv_Nil)
  note part = partition_items_spec [OF planned(3), simplified]
  note cl = build_clusters_spec [OF planned(4)]
  have pure: "\<exists>m. item_marker ?st1 i = Inr (Some m) \<and> \<not> is_transition m \<and> requires m = [s]"
    if "i \<in> set (dict_get_default (pure_clusters ?ctx) s [])" for i s
  proof -
    from that cl(1) obtain m where "(i, m) \<in> set marked" "\<not> is_transition m" "s \<in> set (requires m)" by auto
    with part(1) assms(3) have "item_marker st i = Inr (Some m)" "length (requires m) = 1" by (auto simp: single_pure_def)
    with \<open>s \<in> set (requires m)\<close> \<open>\<not> is_transition m\<close> show ?thesis by (auto simp: length_Suc_conv)
  qed
  have move: "candidate_ok ?st1 t i" if "offers ?ctx t i" for t i
    using that cl(2) part(1) inv assms(2) by (auto simp: offers_def graph_inv_def ids_ok_def intro: candidate_ok_marker)
  have un: "\<forall>i \<in> set unmarked. item_marker ?st1 i = Inr None" using part(2) by simp
  have "marked_run ?st1 cur (order @ unmarked)"
    by (rule valid_run_marked [OF o(1) pure move]) (use marked_run_unmarked [OF un] in simp_all)
  moreover have "list_all2 (\<lambda>i j. item_marker st' j = item_marker ?st1 i) (order @ unmarked) items'"
  proof -
    have "item_marker st' k = item_marker st k" if "k \<in> set unmarked" for k
      using that o(2) part(2) assms(2) by (simp add: planned(7) item_marker_def same_marks_def obj_def ids_ok_def)
    moreover have "list_all2 (\<lambda>i j. item_marker st' j = item_marker st i) order ordered"
      using o(4) by (rule list_all2_mono) (simp add: planned(7) item_marker_def)
    ultimately show ?thesis unfolding planned(6) by (simp add: list_all2_appendI list_all2_same)
  qed
  moreover have sb: "same_belief ?st1 st'" using o(2) by (simp add: same_marks_def same_belief_def planned(7))
  ultimately have "marked_run st' cur items'"
    using marked_run_transfer [of st' ?st1 "order @ unmarked" items' cur] same_belief_skipped_ids [OF sb] by simp
  then show ?thesis by (rule marked_run_clean) (use sb in \<open>simp_all add: same_belief_def\<close>)
qed

lemma demo_collection:
  obtains st' where "collection_modifyitems (\<lambda>_. 0) ''deployed_with_old_revision'' [3, 0, 1, 4] demo_session =
    Some (Inr ([0, 3, 2, 1, 4], st'))"
proof -
  have "(case collection_modifyitems (\<lambda>_. 0) ''deployed_with_old_revision'' [3, 0, 1, 4] demo_session of
      Some (Inr (items', st')) \<Rightarrow> items' = [0, 3, 2, 1, 4] | _ \<Rightarrow> False)" by code_simp
  then show ?thesis by (auto split: option.splits sum.splits intro: that)
qed

lemma demo_ids_ok: "ids_ok [3, 0, 1, 4] demo_session"
  by (simp add: ids_ok_def demo_session_def)

theorem collected_order_runs_witness:
  "\<exists>st'. collection_modifyitems (\<lambda>_. 0) ''deployed_with_old_revision'' [3, 0, 1, 4] demo_session =
      Some (Inr ([0, 3, 2, 1, 4], st')) \<and> runs_clean (\<lambda>_. 0) (\<lambda>_. None) st' [0, 3, 2, 1, 4]"
proof -
  obtain st' where run: "collection_modifyitems (\<lambda>_. 0) ''deployed_with_old_revision'' [3, 0, 1, 4] demo_session =
      Some (Inr ([0, 3, 2, 1, 4], st'))" by (rule demo_collection)
  have "single_pure demo_session [3, 0, 1, 4]"
    by (auto simp: single_pure_def demo_session_markers upgrade_marker_def deployed_marker_def is_transition_def)
  with collected_order_runs [OF run demo_ids_ok] run show ?thesis by blast
qed

text \<open>
  Nothing selected is lost: in the order a successful collection returns, every selected
  state-marked test that is not a bridge-only helper and accepts some state occurs, in person or
  as a labelled duplicate; the unmarked tests follow at the end in their original order; and the
  published graph and candidates are what the run-time recovery relies on.
\<close>

theorem collection_keeps_selection:
  assumes "collection_modifyitems r raw items st = Some (Inr (items', st'))"
    and "ids_ok items st" and "duplicate_original_ids st = Map.empty"
  shows "(\<forall>i \<in> set items. \<forall>m. item_marker st i = Inr (Some m) \<and> \<not> bridge_only m \<and> requires m \<noteq> [] \<longrightarrow>
      i \<in> original_id st' ` set items')
    \<and> (\<exists>ordered. items' = ordered @ filter (\<lambda>i. item_marker st i = Inr None) items)
    \<and> (\<exists>g. sched_graph st' = Some g \<and> recovery_ok st' g)"
  using assms(1)
proof (cases rule: collection_cases)
  case (unmarked cur g et)
  have un: "\<forall>i \<in> set items. item_marker st i = Inr None" "items = filter (\<lambda>i. item_marker st i = Inr None) items"
    using partition_items_spec(2) [OF unmarked(3)] by (auto simp: filter_id_conv eq_commute [of items])
  have inv: "graph_inv st g et" using collect_graph_inv [OF unmarked(2)] assms(2) by (simp add: ids_ok_def graph_inv_Nil)
  then have "recovery_ok st' g"
    using assms(3) by (fastforce simp: recovery_ok_def unmarked(5) graph_inv_def skip_inv_def original_id_def)
  with un unmarked(4,5) show ?thesis by auto
next
  case (planned cur g et marked unmarked pure sel ordered st2 k)
  let ?ctx = "\<lparr>pure_clusters = pure, selected_transitions = sel, all_transitions = et, full_graph = g\<rparr>"
  let ?st1 = "publish g et cur st"
  obtain order final where o: "selected_items ?ctx \<subseteq> set order" "realises st order st2 ordered" "same_marks ?st1 st2"
    "\<forall>i < length (objs st). original_id st2 i = original_id st i"
    by (rule planned_collection [OF planned(2-5) assms(2)])
  note part = partition_items_spec [OF planned(3), simplified]
  note cl = build_clusters_spec [OF planned(4)]
  have keep: "i \<in> original_id st' ` set items'" if "i \<in> set order" for i
  proof -
    from that obtain p where p: "p < length order" "i = order ! p" by (auto simp: in_set_conv_nth)
    then have "original_id st2 (ordered ! p) = i" "ordered ! p \<in> set ordered"
      using o(2) assms(3) by (simp_all add: realises_def original_id_def [of st])
    then show ?thesis by (force simp: planned(6,7) original_id_def)
  qed
  have sel: "i \<in> selected_items ?ctx" if "i \<in> set items" "item_marker st i = Inr (Some m)" "\<not> bridge_only m" "requires m \<noteq> []" for i m
  proof -
    from that part(1) have mem: "(i, m) \<in> set marked" by simp
    from that(4) obtain s where s: "s \<in> set (requires m)" by (cases "requires m") auto
    show ?thesis
    proof (cases "is_transition m")
      case True
      then have "i \<in> set (dict_get_default sel (transition s (provides m)) [])" using cl(2) mem s that(3) by blast
      then show ?thesis using selected_get [of i ?ctx] by simp
    next
      case False
      then have "i \<in> set (dict_get_default pure s [])" using cl(1) mem s that(3) by blast
      then show ?thesis using selected_pure [of i ?ctx] by simp
    qed
  qed
  have inv: "graph_inv st g et" using collect_graph_inv [OF planned(2)] assms(2) by (simp add: ids_ok_def graph_inv_Nil)
  have sb: "same_belief ?st1 st'" using o(3) by (simp add: same_marks_def same_belief_def planned(7))
  have cand: "candidate_ok st' t i \<and> original_id st' i = i" if "i \<in> set (dict_get_default et t [])" for t i
  proof -
    have c: "candidate_ok st t i" using that inv by (simp add: graph_inv_def)
    then have il: "i < length (objs st)" by (simp add: candidate_ok_def)
    with o(3) have "i < length (objs st')" "state_mark (obj st' i) = state_mark (obj st i)"
      by (simp_all add: same_marks_def planned(7) obj_def)
    moreover have "original_id st' i = i" using o(4) il assms(3) by (simp add: planned(7) original_id_def)
    ultimately show ?thesis using candidate_ok_same [OF c] by simp
  qed
  have "dict_get_default et (fst e) [] \<noteq> []" if "e \<in> set (edges_from g s)" for e s
    using inv that by (fastforce simp: graph_inv_def)
  then have "recovery_ok st' g" using inv sb cand same_belief_skipped_ids [OF sb]
    by (auto simp: recovery_ok_def graph_inv_def skip_inv_def same_belief_def)
  moreover have "sched_graph st' = Some g" using sb by (simp add: same_belief_def)
  moreover have "items' = ordered @ filter (\<lambda>i. item_marker st i = Inr None) items" using part(2) planned(6) by simp
  ultimately show ?thesis using keep sel o(1) by blast
qed

theorem collection_keeps_selection_witness:
  "\<exists>st'. collection_modifyitems (\<lambda>_. 0) ''deployed_with_old_revision'' [3, 0, 1, 4] demo_session =
      Some (Inr ([0, 3, 2, 1, 4], st')) \<and> 1 \<in> original_id st' ` {0, 1, 2, 3, 4} \<and> (\<exists>g. sched_graph st' = Some g \<and> recovery_ok st' g)"
proof -
  obtain st' where run: "collection_modifyitems (\<lambda>_. 0) ''deployed_with_old_revision'' [3, 0, 1, 4] demo_session =
      Some (Inr ([0, 3, 2, 1, 4], st'))" by (rule demo_collection)
  have dup: "duplicate_original_ids demo_session = Map.empty" by (simp add: demo_session_def)
  note keep = collection_keeps_selection [OF run demo_ids_ok dup]
  have "\<not> bridge_only upgrade_marker \<and> requires upgrade_marker \<noteq> []" by (simp add: upgrade_marker_def)
  with keep have "1 \<in> original_id st' ` set [0, 3, 2, 1, 4]" using demo_session_markers(2) by auto
  moreover have "set [0, 3, 2, 1, 4] = {0, 1, 2, 3, 4::nat}" by auto
  ultimately show ?thesis using run keep by auto
qed

text \<open>
  The collection hook always comes back, with a new order or with a refusal: it stops the
  session for an invalid current state, an invalid marker or an unreachable state, and the only
  exception that escapes it is the \<open>IndexError\<close> of a marker without any required state.
\<close>

theorem collection_total:
  assumes "ids_ok items st"
  shows "\<exists>res. collection_modifyitems r raw items st = Some res \<and>
    (case res of
       Inl (err, st') \<Rightarrow> (\<exists>reason. err = SessionExit reason) \<or> err = MarkerRaised MarkerIndexError
     | Inr (items', st') \<Rightarrow> True)"
proof -
  have fail: "(\<exists>reason. marker_failure e = SessionExit reason) \<or> marker_failure e = MarkerRaised MarkerIndexError" for e
    by (cases e) (simp_all add: marker_failure_def)
  show ?thesis
  proof (cases "state_of_str raw")
    case None
    then show ?thesis by (simp add: collection_modifyitems_def)
  next
    case cur: (Some cur)
    show ?thesis
    proof (cases "collect_graph st (all_collected st) ([], [])")
      case (Inl e)
      then show ?thesis using fail by (simp add: collection_modifyitems_def cur)
    next
      case (Inr get)
      obtain g et where g: "collect_graph st (all_collected st) ([], []) = Inr (g, et)" using Inr by (cases get) auto
      show ?thesis
      proof (cases "partition_items (publish g et cur st) items")
        case (Inl e)
        then show ?thesis using fail by (simp add: collection_modifyitems_def cur g Let_def)
      next
        case (Inr mu)
        obtain marked unmarked where p: "partition_items (publish g et cur st) items = Inr (marked, unmarked)"
          using Inr by (cases mu) auto
        obtain pure sel where c: "build_clusters marked = (pure, sel)" by fastforce
        have "graph_inv st g et" using collect_graph_inv [OF g] assms by (simp add: ids_ok_def graph_inv_Nil)
        moreover have "\<forall>(i, m) \<in> set marked. i < length (objs st)"
          using partition_items_spec(1) [OF p] assms by (auto simp: ids_ok_def)
        ultimately have "ctx_ok \<lparr>pure_clusters = pure, selected_transitions = sel, all_transitions = et, full_graph = g\<rparr>"
          by (rule clusters_ctx_ok(1) [OF c])
        from build_execution_plan_cases [OF this, of r "draws (publish g et cur st)" cur "publish g et cur st"]
        show ?thesis by (auto simp: collection_modifyitems_def cur g p c Let_def)
      qed
    qed
  qed
qed

theorem collection_total_witness:
  "\<exists>res. collection_modifyitems (\<lambda>_. 0) ''deploid'' [3, 0, 1, 4] demo_session = Some res \<and> res = Inl (SessionExit (InvalidCurrentState ''deploid''), demo_session)"
proof -
  have "state_of_str ''deploid'' = None" by code_simp
  then have "collection_modifyitems (\<lambda>_. 0) ''deploid'' [3, 0, 1, 4] demo_session =
      Some (Inl (SessionExit (InvalidCurrentState ''deploid''), demo_session))"
    by (simp add: collection_modifyitems_def)
  with collection_total [OF demo_ids_ok, of "\<lambda>_. 0" "''deploid''"] show ?thesis by auto
qed

end
