(* ===== verification/DSL_Syntax.thy ===== *)
theory DSL_Syntax
  imports Prelude
begin

text \<open>
  The constraint language of the bundle builder
  (\<^verbatim>\<open>bundle_builder_x/constraints_dsl.py\<close>): token kinds, the tokenizer and the abstract
  syntax. The alternatives of the token pattern become an ordered table of matchers; a matcher
  gives the length of the longest match at the start of a inp, as the pattern's alternative
  does. Characters are code points up to 255, which covers every character the pattern
  mentions; the two digit and letter classes of the pattern are ASCII.
\<close>

section \<open>Errors and types\<close>

datatype DSLType =
    TY_INT | TY_BOOL | TY_STR | TY_RELATION_SET | TY_CHARM_SET | TY_UNIT_SET | TY_SET_STR | TY_SET_INT
  | TY_RUNTIME | TY_PENDING

datatype TokenKind =
    TK_IDENT | TK_INT | TK_STR | TK_LBRACKET | TK_RBRACKET | TK_LPAREN | TK_RPAREN | TK_LBRACE | TK_RBRACE
  | TK_COMMA | TK_PLUS | TK_MINUS | TK_STAR | TK_PIPE | TK_AMP | TK_EQ | TK_NEQ | TK_LT | TK_LE | TK_GT | TK_GE
  | TK_IMPLIES | TK_EOF

record Token =
  tok_kind :: TokenKind
  tok_value :: py_str
  tok_pos :: nat

text \<open>
  The reasons of a \<open>DSLSyntaxError\<close>, a \<open>DSLTypeError\<close>, and two outcomes that never reach the
  caller: running off the token list and running out of fuel.
\<close>

datatype syntax_error =
    UnexpectedChar char nat
  | Expected TokenKind Token
  | UnsupportedCall py_str nat
  | UnexpectedIdent py_str nat
  | UnexpectedToken Token
  | MixedSet
  | ExpectedLiteral Token

datatype dsl_error =
    DSLSyntaxError syntax_error
  | DSLTypeError
  | ParserIndexError
  | OutOfFuel

section \<open>The tokenizer\<close>

type_synonym matcher = "py_str \<Rightarrow> nat option"

definition span_match :: "(char \<Rightarrow> bool) \<Rightarrow> matcher" where
  "span_match P inp = (let n = length (takeWhile P inp) in if n = 0 then None else Some n)"

definition lit_match :: "py_str \<Rightarrow> matcher" where
  "lit_match s inp = (if s \<noteq> [] \<and> take (length s) inp = s then Some (length s) else None)"

definition is_space :: "char \<Rightarrow> bool" where
  "is_space c \<longleftrightarrow> c = CHR '' '' \<or> c = CHR 0x09 \<or> c = CHR 0x0A"

definition is_ident_start :: "char \<Rightarrow> bool" where
  "is_ident_start c \<longleftrightarrow> c \<in> set ''abcdefghijklmnopqrstuvwxyzABCDEFGHIJKLMNOPQRSTUVWXYZ_''"

definition is_ident_char :: "char \<Rightarrow> bool" where
  "is_ident_char c \<longleftrightarrow> is_ident_start c \<or> is_digit c \<or> c = CHR ''-''"

text \<open>The rest of a string literal after its opening quote: up to the first quote not escaped.\<close>

fun str_rest :: "py_str \<Rightarrow> nat option" where
  "str_rest [] = None"
| "str_rest (c # cs) =
     (if c = CHR 0x22 then Some 1
      else if c = CHR 0x5C
      then (case cs of
              [] \<Rightarrow> None
            | d # ds \<Rightarrow> if d = CHR 0x0A then None else map_option (\<lambda>n. n + 2) (str_rest ds))
      else map_option Suc (str_rest cs))"

fun str_match :: matcher where
  "str_match (c # cs) = (if c = CHR 0x22 then map_option Suc (str_rest cs) else None)"
| "str_match [] = None"

fun int_match :: matcher where
  "int_match (c # cs) =
     (if c = CHR ''-'' then map_option Suc (span_match is_digit cs) else span_match is_digit (c # cs))"
| "int_match [] = None"

fun ident_match :: matcher where
  "ident_match (c # cs) = (if is_ident_start c then Some (Suc (length (takeWhile is_ident_char cs))) else None)"
| "ident_match [] = None"

text \<open>The alternatives of \<open>_TOKEN_RE\<close> in their order; \<open>None\<close> is the white space.\<close>

definition token_table :: "(TokenKind option \<times> matcher) list" where
  "token_table =
     [(None, span_match is_space),
      (Some TK_IMPLIES, lit_match ''=>''), (Some TK_EQ, lit_match ''==''), (Some TK_NEQ, lit_match ''!=''),
      (Some TK_GE, lit_match ''>=''), (Some TK_LE, lit_match ''<=''), (Some TK_GT, lit_match ''>''),
      (Some TK_LT, lit_match ''<''), (Some TK_LBRACKET, lit_match ''[''), (Some TK_RBRACKET, lit_match '']''),
      (Some TK_LPAREN, lit_match ''(''), (Some TK_RPAREN, lit_match '')''), (Some TK_LBRACE, lit_match ''{''),
      (Some TK_RBRACE, lit_match ''}''), (Some TK_COMMA, lit_match '',''), (Some TK_PLUS, lit_match ''+''),
      (Some TK_MINUS, lit_match ''-''), (Some TK_STAR, lit_match ''*''), (Some TK_PIPE, lit_match ''|''),
      (Some TK_AMP, lit_match ''&''), (Some TK_STR, str_match), (Some TK_INT, int_match), (Some TK_IDENT, ident_match)]"

fun first_match :: "(TokenKind option \<times> matcher) list \<Rightarrow> py_str \<Rightarrow> (TokenKind option \<times> nat) option" where
  "first_match [] inp = None"
| "first_match ((k, mt) # rest) inp = (case mt inp of Some n \<Rightarrow> Some (k, n) | None \<Rightarrow> first_match rest inp)"

definition next_token :: "py_str \<Rightarrow> (TokenKind option \<times> nat) option" where
  "next_token inp = first_match token_table inp"

text \<open>The value of a token: the matched text, for a string literal without its quotes.\<close>

definition token_value :: "TokenKind \<Rightarrow> py_str \<Rightarrow> py_str" where
  "token_value k lexeme = (if k = TK_STR then butlast (tl lexeme) else lexeme)"

lemma span_match_pos: "span_match P inp = Some n \<Longrightarrow> 0 < n"
  by (auto simp: span_match_def Let_def split: if_splits)

lemma lit_match_pos: "lit_match s inp = Some n \<Longrightarrow> 0 < n"
  by (auto simp: lit_match_def split: if_splits)

lemma str_match_pos: "str_match inp = Some n \<Longrightarrow> 0 < n"
  by (cases inp) (auto split: if_splits)

lemma int_match_pos: "int_match inp = Some n \<Longrightarrow> 0 < n"
  by (cases inp) (auto split: if_splits dest: span_match_pos)

lemma ident_match_pos: "ident_match inp = Some n \<Longrightarrow> 0 < n"
  by (cases inp) (auto split: if_splits)

lemma first_match_SomeD:
  "first_match table inp = Some (k, n) \<Longrightarrow> \<exists>mt. (k, mt) \<in> set table \<and> mt inp = Some n"
  by (induction table) (auto split: option.splits)

lemma next_token_pos: "next_token inp = Some (k, n) \<Longrightarrow> 0 < n"
  unfolding next_token_def
  by (drule first_match_SomeD)
     (auto simp: token_table_def dest: span_match_pos lit_match_pos str_match_pos int_match_pos ident_match_pos)

function tokenize_from :: "nat \<Rightarrow> py_str \<Rightarrow> dsl_error + Token list" where
  "tokenize_from pos [] = Inr [\<lparr>tok_kind = TK_EOF, tok_value = [], tok_pos = pos\<rparr>]"
| "tokenize_from pos (c # cs) =
     (case next_token (c # cs) of
        None \<Rightarrow> Inl (DSLSyntaxError (UnexpectedChar c pos))
      | Some (k, n) \<Rightarrow>
          bind_result (tokenize_from (pos + n) (drop n (c # cs))) (\<lambda>toks.
            case k of
              None \<Rightarrow> Inr toks
            | Some kind \<Rightarrow> Inr (\<lparr>tok_kind = kind, tok_value = token_value kind (take n (c # cs)), tok_pos = pos\<rparr> # toks)))"
  by pat_completeness auto

termination
  by (relation "measure (\<lambda>(pos, inp). length inp)") (auto dest!: next_token_pos)

definition tokenize :: "py_str \<Rightarrow> dsl_error + Token list" where
  "tokenize inp = tokenize_from 0 inp"

section \<open>Abstract syntax\<close>

datatype arith_op = AddOp | SubOp | MulOp
datatype cmp_op = EqOp | NeqOp | LtOp | LeOp | GtOp | GeOp
datatype set_op = UnionOp | InterOp | DiffOp

datatype expr =
    IntLit int
  | StrLit py_str
  | IntLiteralSet "int set"
  | StrLiteralSet "py_str set"
  | SelfExpr
  | EndpointExpr py_str
  | ConfigExpr py_str
  | SetConfigExpr py_str
  | ResourceExpr py_str
  | SetResourceExpr py_str
  | LenExpr expr
  | BoolFunc expr
  | CharmsExpr expr
  | FeaturesExpr expr
  | ReachableExpr expr
  | CrossModelExpr expr
  | TracksExpr expr
  | RisksExpr expr
  | ChannelsExpr expr
  | RevisionsExpr expr
  | UnitsExpr expr
  | ArithExpr arith_op expr expr
  | CompareExpr cmp_op expr expr
  | SetOpExpr DSLType set_op expr expr
  | InExpr expr expr bool
  | NotExpr expr
  | AndExpr expr expr
  | OrExpr expr expr
  | ImpliesExpr expr expr

text \<open>The \<open>dsl_type\<close> attribute of a node.\<close>

primrec dsl_type :: "expr \<Rightarrow> DSLType" where
  "dsl_type (IntLit n) = TY_INT"
| "dsl_type (StrLit s) = TY_STR"
| "dsl_type (IntLiteralSet ns) = TY_SET_INT"
| "dsl_type (StrLiteralSet ss) = TY_SET_STR"
| "dsl_type SelfExpr = TY_CHARM_SET"
| "dsl_type (EndpointExpr n) = TY_RELATION_SET"
| "dsl_type (ConfigExpr k) = TY_RUNTIME"
| "dsl_type (SetConfigExpr k) = TY_BOOL"
| "dsl_type (ResourceExpr k) = TY_RUNTIME"
| "dsl_type (SetResourceExpr k) = TY_BOOL"
| "dsl_type (LenExpr e) = TY_INT"
| "dsl_type (BoolFunc e) = TY_BOOL"
| "dsl_type (CharmsExpr e) = TY_CHARM_SET"
| "dsl_type (FeaturesExpr e) = TY_SET_STR"
| "dsl_type (ReachableExpr e) = TY_CHARM_SET"
| "dsl_type (CrossModelExpr e) = TY_RELATION_SET"
| "dsl_type (TracksExpr e) = TY_SET_STR"
| "dsl_type (RisksExpr e) = TY_SET_STR"
| "dsl_type (ChannelsExpr e) = TY_SET_STR"
| "dsl_type (RevisionsExpr e) = TY_SET_INT"
| "dsl_type (UnitsExpr e) = TY_UNIT_SET"
| "dsl_type (ArithExpr op l r) = TY_INT"
| "dsl_type (CompareExpr op l r) = TY_BOOL"
| "dsl_type (SetOpExpr ty op l r) = ty"
| "dsl_type (InExpr e c neg) = TY_BOOL"
| "dsl_type (NotExpr e) = TY_BOOL"
| "dsl_type (AndExpr l r) = TY_BOOL"
| "dsl_type (OrExpr l r) = TY_BOOL"
| "dsl_type (ImpliesExpr a c) = TY_BOOL"

end
