(* ===== verification/DSL_Parser.thy ===== *)
theory DSL_Parser
  imports DSL_Syntax
begin

text \<open>
  The recursive-descent parser of the constraint language (class \<open>_Parser\<close> in
  \<^verbatim>\<open>bundle_builder_x/constraints_dsl.py\<close>). The parser state is the list of tokens from
  the current position on; looking past its end is the \<open>IndexError\<close> that list indexing would
  raise. One definition per production, and one per loop of a production, takes the parser of
  the other productions as an argument; \<open>parse_at\<close> ties the knot. The recursion is not
  structural, so it carries fuel; the fuel the entry point starts with is proved to be enough
  for every token list.
\<close>

type_synonym 'a parser = "Token list \<Rightarrow> dsl_error + 'a \<times> Token list"

datatype production =
    PImplies | POr | POrLoop expr | PAnd | PAndLoop expr | PNot | PIn | PCompare
  | PSetOp | PSetOpLoop expr | PAdd | PAddLoop expr | PMul | PMulLoop expr | PAtom

section \<open>Helpers\<close>

fun peek :: "Token list \<Rightarrow> dsl_error + Token" where
  "peek [] = Inl ParserIndexError"
| "peek (t # ts) = Inr t"

fun expect :: "TokenKind \<Rightarrow> Token parser" where
  "expect k [] = Inl ParserIndexError"
| "expect k (t # ts) = (if tok_kind t \<noteq> k then Inl (DSLSyntaxError (Expected k t)) else Inr (t, ts))"

definition is_ident :: "py_str \<Rightarrow> Token list \<Rightarrow> dsl_error + bool" where
  "is_ident v ts = bind_result (peek ts) (\<lambda>t. Inr (tok_kind t = TK_IDENT \<and> tok_value t = v))"

fun is_next_ident :: "py_str \<Rightarrow> Token list \<Rightarrow> bool" where
  "is_next_ident v (_ # t # _) = (tok_kind t = TK_IDENT \<and> tok_value t = v)"
| "is_next_ident v _ = False"

section \<open>Productions\<close>

type_synonym rec_parser = "production \<Rightarrow> expr parser"

definition implies_expr :: "rec_parser \<Rightarrow> expr parser" where
  "implies_expr rp ts =
     bind_result (rp POr ts) (\<lambda>(left, ts1).
     bind_result (peek ts1) (\<lambda>t.
       if tok_kind t = TK_IMPLIES
       then bind_result (rp PImplies (tl ts1)) (\<lambda>(right, ts2). Inr (ImpliesExpr left right, ts2))
       else Inr (left, ts1)))"

definition or_expr :: "rec_parser \<Rightarrow> expr parser" where
  "or_expr rp ts = bind_result (rp PAnd ts) (\<lambda>(left, ts1). rp (POrLoop left) ts1)"

definition or_loop :: "rec_parser \<Rightarrow> expr \<Rightarrow> expr parser" where
  "or_loop rp left ts =
     bind_result (is_ident ''or'' ts) (\<lambda>b.
       if b then bind_result (rp PAnd (tl ts)) (\<lambda>(right, ts1). rp (POrLoop (OrExpr left right)) ts1)
       else Inr (left, ts))"

definition and_expr :: "rec_parser \<Rightarrow> expr parser" where
  "and_expr rp ts = bind_result (rp PNot ts) (\<lambda>(left, ts1). rp (PAndLoop left) ts1)"

definition and_loop :: "rec_parser \<Rightarrow> expr \<Rightarrow> expr parser" where
  "and_loop rp left ts =
     bind_result (is_ident ''and'' ts) (\<lambda>b.
       if b then bind_result (rp PNot (tl ts)) (\<lambda>(right, ts1). rp (PAndLoop (AndExpr left right)) ts1)
       else Inr (left, ts))"

definition not_expr :: "rec_parser \<Rightarrow> expr parser" where
  "not_expr rp ts =
     bind_result (is_ident ''not'' ts) (\<lambda>b.
       if b \<and> \<not> is_next_ident ''in'' ts
       then bind_result (rp PNot (tl ts)) (\<lambda>(arg, ts1). Inr (NotExpr arg, ts1))
       else rp PIn ts)"

definition in_expr :: "rec_parser \<Rightarrow> expr parser" where
  "in_expr rp ts =
     bind_result (rp PCompare ts) (\<lambda>(left, ts1).
     bind_result (is_ident ''not'' ts1) (\<lambda>neg.
       if neg \<and> is_next_ident ''in'' ts1
       then bind_result (rp PCompare (tl (tl ts1))) (\<lambda>(right, ts2). Inr (InExpr left right True, ts2))
       else
         bind_result (is_ident ''in'' ts1) (\<lambda>b.
           if b then bind_result (rp PCompare (tl ts1)) (\<lambda>(right, ts2). Inr (InExpr left right False, ts2))
           else Inr (left, ts1))))"

fun cmp_ops :: "TokenKind \<Rightarrow> cmp_op option" where
  "cmp_ops TK_EQ = Some EqOp"
| "cmp_ops TK_NEQ = Some NeqOp"
| "cmp_ops TK_LT = Some LtOp"
| "cmp_ops TK_LE = Some LeOp"
| "cmp_ops TK_GT = Some GtOp"
| "cmp_ops TK_GE = Some GeOp"
| "cmp_ops _ = None"

definition compare_expr :: "rec_parser \<Rightarrow> expr parser" where
  "compare_expr rp ts =
     bind_result (rp PSetOp ts) (\<lambda>(left, ts1).
     bind_result (peek ts1) (\<lambda>t.
       case cmp_ops (tok_kind t) of
         Some op \<Rightarrow> bind_result (rp PSetOp (tl ts1)) (\<lambda>(right, ts2). Inr (CompareExpr op left right, ts2))
       | None \<Rightarrow> Inr (left, ts1)))"

fun set_ops :: "TokenKind \<Rightarrow> set_op option" where
  "set_ops TK_PIPE = Some UnionOp"
| "set_ops TK_AMP = Some InterOp"
| "set_ops TK_MINUS = Some DiffOp"
| "set_ops _ = None"

definition set_op_expr :: "rec_parser \<Rightarrow> expr parser" where
  "set_op_expr rp ts = bind_result (rp PAdd ts) (\<lambda>(left, ts1). rp (PSetOpLoop left) ts1)"

definition set_op_loop :: "rec_parser \<Rightarrow> expr \<Rightarrow> expr parser" where
  "set_op_loop rp left ts =
     bind_result (peek ts) (\<lambda>t.
       case set_ops (tok_kind t) of
         Some op \<Rightarrow> bind_result (rp PAdd (tl ts)) (\<lambda>(right, ts1). rp (PSetOpLoop (SetOpExpr TY_PENDING op left right)) ts1)
       | None \<Rightarrow> Inr (left, ts))"

definition add_expr :: "rec_parser \<Rightarrow> expr parser" where
  "add_expr rp ts = bind_result (rp PMul ts) (\<lambda>(left, ts1). rp (PAddLoop left) ts1)"

definition add_loop :: "rec_parser \<Rightarrow> expr \<Rightarrow> expr parser" where
  "add_loop rp left ts =
     bind_result (peek ts) (\<lambda>t.
       if tok_kind t = TK_PLUS
       then bind_result (rp PMul (tl ts)) (\<lambda>(right, ts1). rp (PAddLoop (ArithExpr AddOp left right)) ts1)
       else Inr (left, ts))"

definition mul_expr :: "rec_parser \<Rightarrow> expr parser" where
  "mul_expr rp ts = bind_result (rp PAtom ts) (\<lambda>(left, ts1). rp (PMulLoop left) ts1)"

definition mul_loop :: "rec_parser \<Rightarrow> expr \<Rightarrow> expr parser" where
  "mul_loop rp left ts =
     bind_result (peek ts) (\<lambda>t.
       if tok_kind t = TK_STAR
       then bind_result (rp PAtom (tl ts)) (\<lambda>(right, ts1). rp (PMulLoop (ArithExpr MulOp left right)) ts1)
       else Inr (left, ts))"

section \<open>Atoms\<close>

definition call_names :: "py_str list" where
  "call_names = [''len'', ''bool'', ''charms'', ''features'', ''reachable'', ''cross_model'', ''tracks'', ''risks'',
     ''channels'', ''revisions'', ''units'', ''set'']"

definition make_call :: "py_str \<Rightarrow> nat \<Rightarrow> expr \<Rightarrow> dsl_error + expr" where
  "make_call name pos arg =
     (if name = ''set'' then
        (case arg of
           ConfigExpr key \<Rightarrow> Inr (SetConfigExpr key)
         | ResourceExpr key \<Rightarrow> Inr (SetResourceExpr key)
         | _ \<Rightarrow> Inl (DSLSyntaxError (UnsupportedCall name pos)))
      else if name = ''len'' then Inr (LenExpr arg)
      else if name = ''bool'' then Inr (BoolFunc arg)
      else if name = ''charms'' then Inr (CharmsExpr arg)
      else if name = ''features'' then Inr (FeaturesExpr arg)
      else if name = ''reachable'' then Inr (ReachableExpr arg)
      else if name = ''cross_model'' then Inr (CrossModelExpr arg)
      else if name = ''tracks'' then Inr (TracksExpr arg)
      else if name = ''risks'' then Inr (RisksExpr arg)
      else if name = ''channels'' then Inr (ChannelsExpr arg)
      else if name = ''revisions'' then Inr (RevisionsExpr arg)
      else if name = ''units'' then Inr (UnitsExpr arg)
      else Inl (DSLSyntaxError (UnsupportedCall name pos)))"

definition call_expr :: "rec_parser \<Rightarrow> Token \<Rightarrow> expr parser" where
  "call_expr rp t ts =
     bind_result (expect TK_LPAREN ts) (\<lambda>(_, ts1).
     bind_result (rp PImplies ts1) (\<lambda>(arg, ts2).
     bind_result (expect TK_RPAREN ts2) (\<lambda>(_, ts3).
     bind_result (make_call (tok_value t) (tok_pos t) arg) (\<lambda>e. Inr (e, ts3)))))"

text \<open>\<open>NAME '[' IDENT ']'\<close> after the name.\<close>

definition bracketed :: "py_str parser" where
  "bracketed ts =
     bind_result (expect TK_LBRACKET ts) (\<lambda>(_, ts1).
     bind_result (expect TK_IDENT ts1) (\<lambda>(name, ts2).
     bind_result (expect TK_RBRACKET ts2) (\<lambda>(_, ts3). Inr (tok_value name, ts3))))"

text \<open>\<open>int(token.value)\<close> for an optional minus sign and digits.\<close>

fun int_of_lexeme :: "py_str \<Rightarrow> int" where
  "int_of_lexeme (c # cs) = (if c = CHR ''-'' then - int (str_nat cs) else int (str_nat (c # cs)))"
| "int_of_lexeme [] = 0"

datatype literal = LInt int | LStr py_str

definition literal_of :: "Token \<Rightarrow> dsl_error + literal" where
  "literal_of t =
     (if tok_kind t = TK_INT then Inr (LInt (int_of_lexeme (tok_value t)))
      else if tok_kind t = TK_STR then Inr (LStr (tok_value t))
      else Inl (DSLSyntaxError (ExpectedLiteral t)))"

fun more_literals :: "literal list parser" where
  "more_literals [] = Inl ParserIndexError"
| "more_literals [t] = (if tok_kind t = TK_COMMA then Inl ParserIndexError else Inr ([], [t]))"
| "more_literals (t # u # ts) =
     (if tok_kind t \<noteq> TK_COMMA then Inr ([], t # u # ts)
      else if tok_kind u = TK_RBRACE then Inr ([], u # ts)
      else bind_result (literal_of u) (\<lambda>l. bind_result (more_literals ts) (\<lambda>(ls, ts1). Inr (l # ls, ts1))))"

fun as_int :: "literal \<Rightarrow> int option" where
  "as_int (LInt n) = Some n"
| "as_int (LStr s) = None"

fun as_str :: "literal \<Rightarrow> py_str option" where
  "as_str (LStr s) = Some s"
| "as_str (LInt n) = None"

definition literal_set :: "literal \<Rightarrow> literal list \<Rightarrow> dsl_error + expr" where
  "literal_set l ls =
     (case l of
        LInt n \<Rightarrow> if \<exists>x \<in> set ls. as_int x = None then Inl (DSLSyntaxError MixedSet)
                  else Inr (IntLiteralSet (set (map (\<lambda>x. the (as_int x)) (l # ls))))
      | LStr s \<Rightarrow> if \<exists>x \<in> set ls. as_str x = None then Inl (DSLSyntaxError MixedSet)
                  else Inr (StrLiteralSet (set (map (\<lambda>x. the (as_str x)) (l # ls)))))"

definition brace_expr :: "expr parser" where
  "brace_expr ts =
     bind_result (expect TK_LBRACE ts) (\<lambda>(_, ts1).
     bind_result (is_ident ''self'' ts1) (\<lambda>b.
       if b then bind_result (expect TK_RBRACE (tl ts1)) (\<lambda>(_, ts2). Inr (SelfExpr, ts2))
       else
         bind_result (peek ts1) (\<lambda>t.
         bind_result (literal_of t) (\<lambda>l.
         bind_result (more_literals (tl ts1)) (\<lambda>(ls, ts2).
         bind_result (expect TK_RBRACE ts2) (\<lambda>(_, ts3).
         bind_result (literal_set l ls) (\<lambda>e. Inr (e, ts3))))))))"

definition atom :: "rec_parser \<Rightarrow> expr parser" where
  "atom rp ts =
     bind_result (peek ts) (\<lambda>t.
       if tok_kind t = TK_LPAREN then
         bind_result (rp PImplies (tl ts)) (\<lambda>(node, ts1).
         bind_result (expect TK_RPAREN ts1) (\<lambda>(_, ts2). Inr (node, ts2)))
       else if tok_kind t = TK_IDENT then
         (if tok_value t \<in> set call_names then call_expr rp t (tl ts)
          else if tok_value t = ''endpoint'' then bind_result (bracketed (tl ts)) (\<lambda>(n, ts1). Inr (EndpointExpr n, ts1))
          else if tok_value t = ''config'' then bind_result (bracketed (tl ts)) (\<lambda>(n, ts1). Inr (ConfigExpr n, ts1))
          else if tok_value t = ''resource'' then bind_result (bracketed (tl ts)) (\<lambda>(n, ts1). Inr (ResourceExpr n, ts1))
          else Inl (DSLSyntaxError (UnexpectedIdent (tok_value t) (tok_pos t))))
       else if tok_kind t = TK_LBRACE then brace_expr ts
       else if tok_kind t = TK_STR then Inr (StrLit (tok_value t), tl ts)
       else if tok_kind t = TK_INT then Inr (IntLit (int_of_lexeme (tok_value t)), tl ts)
       else Inl (DSLSyntaxError (UnexpectedToken t)))"

section \<open>The parser\<close>

fun run_production :: "rec_parser \<Rightarrow> production \<Rightarrow> expr parser" where
  "run_production rp PImplies = implies_expr rp"
| "run_production rp POr = or_expr rp"
| "run_production rp (POrLoop e) = or_loop rp e"
| "run_production rp PAnd = and_expr rp"
| "run_production rp (PAndLoop e) = and_loop rp e"
| "run_production rp PNot = not_expr rp"
| "run_production rp PIn = in_expr rp"
| "run_production rp PCompare = compare_expr rp"
| "run_production rp PSetOp = set_op_expr rp"
| "run_production rp (PSetOpLoop e) = set_op_loop rp e"
| "run_production rp PAdd = add_expr rp"
| "run_production rp (PAddLoop e) = add_loop rp e"
| "run_production rp PMul = mul_expr rp"
| "run_production rp (PMulLoop e) = mul_loop rp e"
| "run_production rp PAtom = atom rp"

fun parse_at :: "nat \<Rightarrow> production \<Rightarrow> expr parser" where
  "parse_at 0 p ts = Inl OutOfFuel"
| "parse_at (Suc n) p ts = run_production (parse_at n) p ts"

definition parse_fuel :: "Token list \<Rightarrow> nat" where
  "parse_fuel ts = 15 * length ts + 15"

definition parse_tree :: "Token list \<Rightarrow> dsl_error + expr" where
  "parse_tree ts =
     bind_result (parse_at (parse_fuel ts) PImplies ts) (\<lambda>(node, ts1).
     bind_result (expect TK_EOF ts1) (\<lambda>_. Inr node))"

lemmas production_defs =
  implies_expr_def or_expr_def or_loop_def and_expr_def and_loop_def not_expr_def in_expr_def compare_expr_def
  set_op_expr_def set_op_loop_def add_expr_def add_loop_def mul_expr_def mul_loop_def

end
