(* ===== verification/DSL_Parser_Correct.thy ===== *)
theory DSL_Parser_Correct
  imports DSL_Parser
begin

text \<open>
  Safety of the parser: on a token list that ends in the end marker it never runs off the list,
  the fuel of the entry point is enough, and the tokens left over are again such a list.
\<close>

section \<open>Token lists with an end marker\<close>

definition good :: "Token list \<Rightarrow> bool" where
  "good ts \<longleftrightarrow> (\<exists>xs t. ts = xs @ [t] \<and> tok_kind t = TK_EOF \<and> (\<forall>x \<in> set xs. tok_kind x \<noteq> TK_EOF))"

lemma good_tl: "good (t # ts) \<Longrightarrow> tok_kind t \<noteq> TK_EOF \<Longrightarrow> good ts"
  unfolding good_def by (auto simp: Cons_eq_append_conv)

lemma good_not_Nil [simp]: "\<not> good []"
  by (simp add: good_def)

lemma good_cases:
  assumes "good ts"
  obtains (eof) t where "ts = [t]" "tok_kind t = TK_EOF"
  | (cons) t ts' where "ts = t # ts'" "tok_kind t \<noteq> TK_EOF" "good ts'"
proof (cases ts)
  case Nil
  with assms show ?thesis by simp
next
  case (Cons t ts')
  show ?thesis
  proof (cases "tok_kind t = TK_EOF")
    case True
    with assms Cons have "ts' = []" by (auto simp: good_def Cons_eq_append_conv)
    with Cons True eof show ?thesis by simp
  next
    case False
    with assms Cons cons good_tl show ?thesis by blast
  qed
qed

text \<open>
  A safe outcome on \<open>ts\<close>: no index error, no lack of fuel if \<open>b\<close> says the fuel is enough, and
  leftover tokens that are again good and not more than before.
\<close>

fun safe :: "Token list \<Rightarrow> bool \<Rightarrow> dsl_error + 'a \<times> Token list \<Rightarrow> bool" where
  "safe ts b (Inl e) = (e \<noteq> ParserIndexError \<and> e \<noteq> DSLTypeError \<and> (b \<longrightarrow> e \<noteq> OutOfFuel))"
| "safe ts b (Inr (x, ts')) = (good ts' \<and> length ts' \<le> length ts)"

lemma safe_weaken: "safe ts b r \<Longrightarrow> length ts \<le> length ts' \<Longrightarrow> (b' \<Longrightarrow> b) \<Longrightarrow> safe ts' b' r"
  by (cases "(ts, b, r)" rule: safe.cases) auto

lemma safe_bind:
  assumes "safe ts b r" and "\<And>x ts'. r = Inr (x, ts') \<Longrightarrow> good ts' \<Longrightarrow> length ts' \<le> length ts \<Longrightarrow> safe ts b (f (x, ts'))"
  shows "safe ts b (bind_result r f)"
  using assms by (cases "(ts, b, r)" rule: safe.cases) auto

text \<open>The lexicographic measure of a call, as a number: tokens first, then the production.\<close>

fun prod_rank :: "production \<Rightarrow> nat" where
  "prod_rank PAtom = 0"
| "prod_rank (PMulLoop _) = 1"
| "prod_rank PMul = 2"
| "prod_rank (PAddLoop _) = 3"
| "prod_rank PAdd = 4"
| "prod_rank (PSetOpLoop _) = 5"
| "prod_rank PSetOp = 6"
| "prod_rank PCompare = 7"
| "prod_rank PIn = 8"
| "prod_rank PNot = 9"
| "prod_rank (PAndLoop _) = 10"
| "prod_rank PAnd = 11"
| "prod_rank (POrLoop _) = 12"
| "prod_rank POr = 13"
| "prod_rank PImplies = 14"

definition enough :: "nat \<Rightarrow> Token list \<Rightarrow> production \<Rightarrow> bool" where
  "enough n ts p \<longleftrightarrow> 15 * length ts + prod_rank p < n"

definition safe_rec :: "nat \<Rightarrow> rec_parser \<Rightarrow> bool" where
  "safe_rec n rp \<longleftrightarrow> (\<forall>p ts. good ts \<longrightarrow> safe ts (enough n ts p) (rp p ts))"

lemma prod_rank_bound: "prod_rank p \<le> 14"
  by (cases p) auto

lemma safe_expect: "good ts \<Longrightarrow> k \<noteq> TK_EOF \<Longrightarrow> safe ts b (expect k ts)"
  by (erule good_cases) auto

lemma good_peek: "good ts \<Longrightarrow> \<exists>t. peek ts = Inr t \<and> (tok_kind t \<noteq> TK_EOF \<longrightarrow> good (tl ts) \<and> length (tl ts) < length ts)"
  by (erule good_cases) auto

lemma good_is_ident:
  "good ts \<Longrightarrow> \<exists>c. is_ident v ts = Inr c \<and> (c \<longrightarrow> good (tl ts) \<and> length (tl ts) < length ts)"
  by (erule good_cases) (auto simp: is_ident_def)

lemma safe_peek:
  assumes "good ts" and "\<And>t. peek ts = Inr t \<Longrightarrow> (tok_kind t \<noteq> TK_EOF \<Longrightarrow> good (tl ts) \<and> length (tl ts) < length ts) \<Longrightarrow> safe us b (f t)"
  shows "safe us b (bind_result (peek ts) f)"
  using good_peek [OF assms(1)] assms(2) by auto

lemma safe_is_ident:
  assumes "good ts" and "\<And>c. (c \<Longrightarrow> good (tl ts) \<and> length (tl ts) < length ts) \<Longrightarrow> is_ident v ts = Inr c \<Longrightarrow> safe us b (f c)"
  shows "safe us b (bind_result (is_ident v ts) f)"
  using good_is_ident [OF assms(1), of v] assms(2) by auto

lemma safe_bind_expect:
  assumes "good us" "k \<noteq> TK_EOF" "length us \<le> length ts"
    and "\<And>t ts'. good ts' \<Longrightarrow> length ts' < length us \<Longrightarrow> safe ts b (f (t, ts'))"
  shows "safe ts b (bind_result (expect k us) f)"
  using assms(1)
proof (cases rule: good_cases)
  case (cons t ts')
  then show ?thesis using assms(4) [of ts' t] by simp
qed (use assms(2) in auto)

lemma safe_bind_pure:
  "(\<And>e. r = Inl e \<Longrightarrow> e \<noteq> ParserIndexError \<and> e \<noteq> DSLTypeError \<and> e \<noteq> OutOfFuel) \<Longrightarrow> (\<And>x. r = Inr x \<Longrightarrow> safe ts b (f x)) \<Longrightarrow>
     safe ts b (bind_result r f)"
  by (cases r) auto

lemma make_call_errors: "make_call name pos arg = Inl e \<Longrightarrow> e \<noteq> ParserIndexError \<and> e \<noteq> DSLTypeError \<and> e \<noteq> OutOfFuel"
  by (auto simp: make_call_def split: if_splits expr.splits)

lemma safe_bind_make_call:
  "(\<And>x. make_call name pos arg = Inr x \<Longrightarrow> safe ts b (f x)) \<Longrightarrow> safe ts b (bind_result (make_call name pos arg) f)"
  by (rule safe_bind_pure) (auto dest: make_call_errors)

lemma literal_of_errors: "literal_of t = Inl e \<Longrightarrow> e \<noteq> ParserIndexError \<and> e \<noteq> DSLTypeError \<and> e \<noteq> OutOfFuel"
  by (auto simp: literal_of_def split: if_splits)

lemma literal_of_eof: "literal_of t = Inr l \<Longrightarrow> tok_kind t \<noteq> TK_EOF"
  by (auto simp: literal_of_def split: if_splits)

lemma literal_set_errors: "literal_set l ls = Inl e \<Longrightarrow> e \<noteq> ParserIndexError \<and> e \<noteq> DSLTypeError \<and> e \<noteq> OutOfFuel"
  by (auto simp: literal_set_def split: if_splits literal.splits)

lemma safe_bind_literal:
  "(\<And>x. literal_of t = Inr x \<Longrightarrow> safe ts b (f x)) \<Longrightarrow> safe ts b (bind_result (literal_of t) f)"
  "(\<And>x. literal_set l ls = Inr x \<Longrightarrow> safe ts b (g x)) \<Longrightarrow> safe ts b (bind_result (literal_set l ls) g)"
  by (rule safe_bind_pure; auto dest: literal_of_errors literal_set_errors)+

lemma safe_more_literals: "good ts \<Longrightarrow> safe ts True (more_literals ts)"
proof (induction ts rule: more_literals.induct)
  case (2 t)
  then show ?case by (auto elim: good_cases)
next
  case (3 t u ts)
  then have g: "good (u # ts)" if "tok_kind t = TK_COMMA" using that good_tl by force
  show ?case
  proof (cases "tok_kind t = TK_COMMA \<and> tok_kind u \<noteq> TK_RBRACE")
    case True
    show ?thesis
    proof (cases "literal_of u")
      case (Inl e)
      with True literal_of_errors show ?thesis by auto
    next
      case (Inr l)
      with True g literal_of_eof have "good ts" using good_tl by blast
      with 3 True have "safe ts True (more_literals ts)" using Inr by simp
      with True Inr show ?thesis by (cases "(ts, True, more_literals ts)" rule: safe.cases) auto
    qed
  next
    case False
    with 3 g show ?thesis by auto
  qed
qed simp

lemma cmp_ops_eof: "cmp_ops k = Some op \<Longrightarrow> k \<noteq> TK_EOF"
  by (cases k) auto

lemma set_ops_eof: "set_ops k = Some op \<Longrightarrow> k \<noteq> TK_EOF"
  by (cases k) auto

lemma next_ident_good: "is_next_ident v ts \<Longrightarrow> good (tl ts) \<Longrightarrow> good (tl (tl ts))"
  by (cases "(v, ts)" rule: is_next_ident.cases) (auto intro: good_tl)

section \<open>Every production is safe\<close>

text \<open>
  What a production relies on of the parser of the others: it is safe on every good token list,
  and does not lack fuel when the fuel exceeds the measure of the call.
\<close>

locale safe_parser =
  fixes n :: nat and rp :: rec_parser
  assumes rec_safe: "good ts \<Longrightarrow> safe ts (enough n ts p) (rp p ts)"
begin

text \<open>A recursive call on the same tokens for a lower production, or on fewer tokens.\<close>

lemma call_safe:
  assumes "good us" "length us \<le> length ts" "length us < length ts \<or> prod_rank q < prod_rank p"
  shows "safe ts (enough (Suc n) ts p) (rp q us)"
proof (rule safe_weaken [OF rec_safe [OF assms(1)] assms(2)])
  assume e: "enough (Suc n) ts p"
  have "prod_rank q \<le> 14" "prod_rank p \<le> 14" by (rule prod_rank_bound)+
  with e assms(2,3) show "enough n us q" unfolding enough_def by linarith
qed

lemma bind_safe:
  assumes "good us" "length us \<le> length ts" "length us < length ts \<or> prod_rank q < prod_rank p"
    and "\<And>x ts'. good ts' \<Longrightarrow> length ts' \<le> length us \<Longrightarrow> safe ts (enough (Suc n) ts p) (f (x, ts'))"
  shows "safe ts (enough (Suc n) ts p) (bind_result (rp q us) f)"
proof (rule safe_bind [OF call_safe [OF assms(1-3)]])
  fix x ts' assume "rp q us = Inr (x, ts')" "good ts'"
  with rec_safe [OF assms(1), of q] show "safe ts (enough (Suc n) ts p) (f (x, ts'))" using assms(4) by simp
qed

lemmas safe_intros = bind_safe safe_peek safe_is_ident call_safe next_ident_good

lemma safe_implies_expr: "good ts \<Longrightarrow> safe ts (enough (Suc n) ts PImplies) (implies_expr rp ts)"
  by (auto simp: implies_expr_def intro!: safe_intros)

lemma safe_or_expr: "good ts \<Longrightarrow> safe ts (enough (Suc n) ts POr) (or_expr rp ts)"
  by (auto simp: or_expr_def intro!: safe_intros)

lemma safe_or_loop: "good ts \<Longrightarrow> safe ts (enough (Suc n) ts (POrLoop e)) (or_loop rp e ts)"
  by (auto simp: or_loop_def intro!: safe_intros)

lemma safe_and_expr: "good ts \<Longrightarrow> safe ts (enough (Suc n) ts PAnd) (and_expr rp ts)"
  by (auto simp: and_expr_def intro!: safe_intros)

lemma safe_and_loop: "good ts \<Longrightarrow> safe ts (enough (Suc n) ts (PAndLoop e)) (and_loop rp e ts)"
  by (auto simp: and_loop_def intro!: safe_intros)

lemma safe_not_expr: "good ts \<Longrightarrow> safe ts (enough (Suc n) ts PNot) (not_expr rp ts)"
  by (auto simp: not_expr_def intro!: safe_intros)

lemma safe_in_expr:
  assumes "good ts"
  shows "safe ts (enough (Suc n) ts PIn) (in_expr rp ts)"
  unfolding in_expr_def
proof (rule bind_safe [OF assms], goal_cases)
  case (3 left ts1)
  have tail: "safe ts (enough (Suc n) ts PIn) (bind_result (rp PCompare us) (\<lambda>(right, ts2). Inr (g right, ts2)))"
    if "good us" "length us < length ts1" for us and g :: "expr \<Rightarrow> expr"
    using that 3 by (auto intro!: bind_safe)
  have two: "length (tl (tl ts1)) < length ts1" if "good (tl ts1)" "length (tl ts1) < length ts1"
    using that by (cases "tl ts1") auto
  have not_in: "good (tl (tl ts1))" "length (tl (tl ts1)) < length ts1" if "is_next_ident ''in'' ts1" "good (tl ts1) \<and> length (tl ts1) < length ts1"
    using that next_ident_good two by auto
  show ?case
    using 3 by (auto simp del: length_tl intro!: safe_is_ident tail not_in)
qed simp_all

lemma safe_compare_expr: "good ts \<Longrightarrow> safe ts (enough (Suc n) ts PCompare) (compare_expr rp ts)"
  by (auto simp: compare_expr_def intro!: safe_intros dest: cmp_ops_eof set_ops_eof split: option.split)

lemma safe_set_op_expr: "good ts \<Longrightarrow> safe ts (enough (Suc n) ts PSetOp) (set_op_expr rp ts)"
  by (auto simp: set_op_expr_def intro!: safe_intros)

lemma safe_set_op_loop: "good ts \<Longrightarrow> safe ts (enough (Suc n) ts (PSetOpLoop e)) (set_op_loop rp e ts)"
  by (auto simp: set_op_loop_def intro!: safe_intros dest: cmp_ops_eof set_ops_eof split: option.split)

lemma safe_add_expr: "good ts \<Longrightarrow> safe ts (enough (Suc n) ts PAdd) (add_expr rp ts)"
  by (auto simp: add_expr_def intro!: safe_intros)

lemma safe_add_loop: "good ts \<Longrightarrow> safe ts (enough (Suc n) ts (PAddLoop e)) (add_loop rp e ts)"
  by (auto simp: add_loop_def intro!: safe_intros)

lemma safe_mul_expr: "good ts \<Longrightarrow> safe ts (enough (Suc n) ts PMul) (mul_expr rp ts)"
  by (auto simp: mul_expr_def intro!: safe_intros)

lemma safe_mul_loop: "good ts \<Longrightarrow> safe ts (enough (Suc n) ts (PMulLoop e)) (mul_loop rp e ts)"
  by (auto simp: mul_loop_def intro!: safe_intros)

lemma safe_call_expr:
  assumes "good us" "length us < length ts"
  shows "safe ts (enough (Suc n) ts PAtom) (call_expr rp t us)"
  unfolding call_expr_def using assms
  by (auto intro!: safe_bind_expect bind_safe safe_bind_make_call)

end

lemma safe_bracketed: "good us \<Longrightarrow> length us \<le> length ts \<Longrightarrow> safe ts b (bracketed us)"
  unfolding bracketed_def by (auto intro!: safe_bind_expect)

lemma safe_brace_expr: "good ts \<Longrightarrow> safe ts b (brace_expr ts)"
proof -
  have lits: "safe ts b (bind_result (more_literals us) f)"
    if "good us" "length us \<le> length ts" "\<And>x ts'. good ts' \<Longrightarrow> length ts' \<le> length us \<Longrightarrow> safe ts b (f (x, ts'))"
    for us and f :: "literal list \<times> Token list \<Rightarrow> dsl_error + expr \<times> Token list"
  proof (rule safe_bind)
    from safe_more_literals [OF that(1)] that(2) show "safe ts b (more_literals us)" by (auto intro: safe_weaken)
    fix x ts' assume "more_literals us = Inr (x, ts')" "good ts'"
    with safe_more_literals [OF that(1)] that(3) show "safe ts b (f (x, ts'))" by simp
  qed
  assume "good ts"
  then show ?thesis
    unfolding brace_expr_def
    by (auto intro!: safe_bind_expect safe_is_ident safe_peek safe_bind_literal lits dest: literal_of_eof)
qed

lemma safe_parser_bracketed:
  "good us \<Longrightarrow> length us < length ts \<Longrightarrow> safe ts b (bind_result (bracketed us) (\<lambda>(k, ts1). Inr (f k, ts1)))"
  by (rule safe_bind) (auto intro: safe_bracketed)

context safe_parser
begin

lemma safe_paren:
  assumes "good us" "length us < length ts"
  shows "safe ts (enough (Suc n) ts PAtom)
    (bind_result (rp PImplies us) (\<lambda>(node, ts1). bind_result (expect TK_RPAREN ts1) (\<lambda>(_, ts2). Inr (node, ts2))))"
  using assms by (auto intro!: bind_safe safe_bind_expect)

lemma safe_atom:
  assumes "good ts"
  shows "safe ts (enough (Suc n) ts PAtom) (atom rp ts)"
  unfolding atom_def
proof (rule safe_peek [OF assms])
  fix t assume t: "peek ts = Inr t" "tok_kind t \<noteq> TK_EOF \<Longrightarrow> good (tl ts) \<and> length (tl ts) < length ts"
  show "safe ts (enough (Suc n) ts PAtom) (if tok_kind t = TK_LPAREN then
         bind_result (rp PImplies (tl ts)) (\<lambda>(node, ts1).
         bind_result (expect TK_RPAREN ts1) (\<lambda>(_, ts2). Inr (node, ts2)))
       else if tok_kind t = TK_IDENT then
         (if tok_value t \<in> set call_names then call_expr rp t (tl ts)
          else if tok_value t = ''endpoint'' then bind_result (bracketed (tl ts)) (\<lambda>(n, ts1). Inr (EndpointExpr n, ts1))
          else if tok_value t = ''config'' then bind_result (bracketed (tl ts)) (\<lambda>(n, ts1). Inr (ConfigExpr n, ts1))
          else if tok_value t = ''resource'' then bind_result (bracketed (tl ts)) (\<lambda>(n, ts1). Inr (ResourceExpr n, ts1))
          else Inl (DSLSyntaxError (UnexpectedIdent (tok_value t) (tok_pos t))))
       else if tok_kind t = TK_LBRACE then brace_expr ts
       else if tok_kind t = TK_STR then Inr (StrLit (tok_value t), tl ts)
       else if tok_kind t = TK_INT then Inr (IntLit (int_of_lexeme (tok_value t)), tl ts)
       else Inl (DSLSyntaxError (UnexpectedToken t)))"
  proof (cases "tok_kind t = TK_EOF")
    case False
    then have "good (tl ts)" "length (tl ts) < length ts" using t(2) by auto
    moreover from this have "safe ts (enough (Suc n) ts PAtom) (bind_result (bracketed (tl ts)) (\<lambda>(k, ts1). Inr (f k, ts1)))" for f
      by (rule safe_parser_bracketed)
    note this [of EndpointExpr] this [of ConfigExpr] this [of ResourceExpr]
    ultimately show ?thesis
      using assms safe_paren safe_call_expr safe_brace_expr by (simp del: length_tl)
  qed simp
qed

lemma safe_production: "good ts \<Longrightarrow> safe ts (enough (Suc n) ts p) (run_production rp p ts)"
  by (cases p) (simp_all add: safe_implies_expr safe_or_expr safe_or_loop safe_and_expr safe_and_loop safe_not_expr safe_in_expr
      safe_compare_expr safe_set_op_expr safe_set_op_loop safe_add_expr safe_add_loop safe_mul_expr safe_mul_loop safe_atom)

end

lemma parse_at_safe: "safe_parser n (parse_at n)"
proof (induction n)
  case 0
  then show ?case by unfold_locales (simp add: enough_def)
next
  case (Suc n)
  then show ?case by unfold_locales (simp add: safe_parser.safe_production)
qed

interpretation pp: safe_parser n "parse_at n" for n
  by (rule parse_at_safe)

lemma parse_tree_safe:
  assumes "good ts" "parse_tree ts = Inl e"
  shows "\<exists>se. e = DSLSyntaxError se"
proof -
  have en: "enough (parse_fuel ts) ts PImplies" by (simp add: enough_def parse_fuel_def)
  have s: "safe ts (enough (parse_fuel ts) ts PImplies) (parse_at (parse_fuel ts) PImplies ts)"
    by (rule pp.rec_safe [OF assms(1)])
  show ?thesis
  proof (cases "parse_at (parse_fuel ts) PImplies ts")
    case (Inl e')
    with s en assms(2) show ?thesis by (cases e') (auto simp: parse_tree_def)
  next
    case (Inr nt)
    then obtain node ts1 where r: "parse_at (parse_fuel ts) PImplies ts = Inr (node, ts1)" by (cases nt) auto
    with s have "good ts1" by simp
    then show ?thesis by (cases rule: good_cases) (use assms(2) r in \<open>auto simp: parse_tree_def\<close>)
  qed
qed

end
