(* ===== verification/DSL_Types.thy ===== *)
theory DSL_Types
  imports DSL_Parser_Correct
begin

text \<open>
  The type checker of the constraint language and the public entry point
  (\<open>_check_types\<close> and \<open>parse_constraint\<close> in
  \<^verbatim>\<open>bundle_builder_x/constraints_dsl.py\<close>), the typing rules as an inductive
  predicate, and what the checker guarantees with respect to them.
\<close>

definition SET_TYPES :: "DSLType list" where
  "SET_TYPES = [TY_RELATION_SET, TY_CHARM_SET, TY_SET_STR, TY_SET_INT]"

section \<open>The checker\<close>

text \<open>The comparison operators: which operand types they accept.\<close>

definition compare_ok :: "cmp_op \<Rightarrow> DSLType \<Rightarrow> DSLType \<Rightarrow> bool" where
  "compare_ok op lt rt =
     (if op = LtOp \<or> op = GtOp then lt = TY_INT \<and> rt = TY_INT
      else if op = GeOp \<or> op = LeOp then
        (let is_numeric = lt = TY_INT \<and> rt = TY_INT;
             is_set = lt \<in> set SET_TYPES \<and> rt \<in> set SET_TYPES
         in \<not> (is_set \<and> lt \<noteq> rt) \<and> \<not> (\<not> is_numeric \<and> \<not> is_set))
      else \<not> (lt \<noteq> rt \<and> lt \<noteq> TY_RUNTIME \<and> rt \<noteq> TY_RUNTIME) \<and> \<not> (lt = TY_UNIT_SET \<or> rt = TY_UNIT_SET))"

definition in_ok :: "DSLType \<Rightarrow> DSLType \<Rightarrow> bool" where
  "in_ok et ct =
     (if et = TY_STR \<and> ct = TY_STR then True
      else if ct = TY_SET_INT then et = TY_INT \<or> et = TY_RUNTIME
      else if ct = TY_SET_STR then et = TY_STR \<or> et = TY_RUNTIME
      else False)"

definition require :: "bool \<Rightarrow> expr \<Rightarrow> dsl_error + expr" where
  "require c e = (if c then Inr e else Inl DSLTypeError)"

primrec is_endpoint :: "expr \<Rightarrow> bool" where
  "is_endpoint (EndpointExpr n) = True"
| "is_endpoint (IntLit n) = False" | "is_endpoint (StrLit s) = False" | "is_endpoint (IntLiteralSet ns) = False"
| "is_endpoint (StrLiteralSet ss) = False" | "is_endpoint SelfExpr = False" | "is_endpoint (ConfigExpr k) = False"
| "is_endpoint (SetConfigExpr k) = False" | "is_endpoint (ResourceExpr k) = False" | "is_endpoint (SetResourceExpr k) = False"
| "is_endpoint (LenExpr e) = False" | "is_endpoint (BoolFunc e) = False" | "is_endpoint (CharmsExpr e) = False"
| "is_endpoint (FeaturesExpr e) = False" | "is_endpoint (ReachableExpr e) = False" | "is_endpoint (CrossModelExpr e) = False"
| "is_endpoint (TracksExpr e) = False" | "is_endpoint (RisksExpr e) = False" | "is_endpoint (ChannelsExpr e) = False"
| "is_endpoint (RevisionsExpr e) = False" | "is_endpoint (UnitsExpr e) = False" | "is_endpoint (ArithExpr op l r) = False"
| "is_endpoint (CompareExpr op l r) = False" | "is_endpoint (SetOpExpr t op l r) = False" | "is_endpoint (InExpr e c b) = False"
| "is_endpoint (NotExpr e) = False" | "is_endpoint (AndExpr l r) = False" | "is_endpoint (OrExpr l r) = False"
| "is_endpoint (ImpliesExpr l r) = False"

text \<open>The node built for a set operator: subtraction on integers, else a typed set operation.\<close>

definition check_set_op :: "set_op \<Rightarrow> expr \<Rightarrow> expr \<Rightarrow> dsl_error + expr" where
  "check_set_op op l r =
     (let lt = dsl_type l; rt = dsl_type r in
      if lt = TY_INT \<and> rt = TY_INT then Inr (ArithExpr SubOp l r)
      else if lt \<notin> set SET_TYPES \<or> rt \<notin> set SET_TYPES then Inl DSLTypeError
      else if lt \<noteq> rt then Inl DSLTypeError
      else Inr (SetOpExpr lt op l r))"

primrec check_types :: "expr \<Rightarrow> dsl_error + expr" where
  "check_types (IntLit n) = Inr (IntLit n)"
| "check_types (StrLit s) = Inr (StrLit s)"
| "check_types (IntLiteralSet ns) = Inr (IntLiteralSet ns)"
| "check_types (StrLiteralSet ss) = Inr (StrLiteralSet ss)"
| "check_types SelfExpr = Inr SelfExpr"
| "check_types (EndpointExpr n) = Inr (EndpointExpr n)"
| "check_types (ConfigExpr k) = Inr (ConfigExpr k)"
| "check_types (SetConfigExpr k) = Inr (SetConfigExpr k)"
| "check_types (ResourceExpr k) = Inr (ResourceExpr k)"
| "check_types (SetResourceExpr k) = Inr (SetResourceExpr k)"
| "check_types (LenExpr e) = bind_result (check_types e) (\<lambda>a.
     require (dsl_type a = TY_RELATION_SET \<or> dsl_type a = TY_UNIT_SET) (LenExpr a))"
| "check_types (BoolFunc e) = bind_result (check_types e) (\<lambda>a. require (dsl_type a = TY_RELATION_SET) (BoolFunc a))"
| "check_types (CharmsExpr e) = bind_result (check_types e) (\<lambda>a. require (dsl_type a = TY_RELATION_SET) (CharmsExpr a))"
| "check_types (FeaturesExpr e) = bind_result (check_types e) (\<lambda>a. require (dsl_type a = TY_RELATION_SET) (FeaturesExpr a))"
| "check_types (ReachableExpr e) = bind_result (check_types e) (\<lambda>a. require (is_endpoint a) (ReachableExpr a))"
| "check_types (CrossModelExpr e) = bind_result (check_types e) (\<lambda>a. require (dsl_type a = TY_RELATION_SET) (CrossModelExpr a))"
| "check_types (TracksExpr e) = bind_result (check_types e) (\<lambda>a. require (dsl_type a = TY_CHARM_SET) (TracksExpr a))"
| "check_types (RisksExpr e) = bind_result (check_types e) (\<lambda>a. require (dsl_type a = TY_CHARM_SET) (RisksExpr a))"
| "check_types (ChannelsExpr e) = bind_result (check_types e) (\<lambda>a. require (dsl_type a = TY_CHARM_SET) (ChannelsExpr a))"
| "check_types (RevisionsExpr e) = bind_result (check_types e) (\<lambda>a. require (dsl_type a = TY_CHARM_SET) (RevisionsExpr a))"
| "check_types (UnitsExpr e) = bind_result (check_types e) (\<lambda>a. require (dsl_type a = TY_CHARM_SET) (UnitsExpr a))"
| "check_types (ArithExpr op l r) = bind_result (check_types l) (\<lambda>a. bind_result (check_types r) (\<lambda>b.
     require (dsl_type a = TY_INT \<and> dsl_type b = TY_INT) (ArithExpr op a b)))"
| "check_types (CompareExpr op l r) = bind_result (check_types l) (\<lambda>a. bind_result (check_types r) (\<lambda>b.
     require (compare_ok op (dsl_type a) (dsl_type b)) (CompareExpr op a b)))"
| "check_types (SetOpExpr ty op l r) = bind_result (check_types l) (\<lambda>a. bind_result (check_types r) (\<lambda>b. check_set_op op a b))"
| "check_types (InExpr e c neg) = bind_result (check_types e) (\<lambda>a. bind_result (check_types c) (\<lambda>b.
     require (in_ok (dsl_type a) (dsl_type b)) (InExpr a b neg)))"
| "check_types (NotExpr e) = bind_result (check_types e) (\<lambda>a.
     require (dsl_type a = TY_BOOL \<or> dsl_type a = TY_RUNTIME) (NotExpr a))"
| "check_types (AndExpr l r) = bind_result (check_types l) (\<lambda>a. bind_result (check_types r) (\<lambda>b.
     require (dsl_type a = TY_BOOL \<and> dsl_type b = TY_BOOL) (AndExpr a b)))"
| "check_types (OrExpr l r) = bind_result (check_types l) (\<lambda>a. bind_result (check_types r) (\<lambda>b.
     require (dsl_type a = TY_BOOL \<and> dsl_type b = TY_BOOL) (OrExpr a b)))"
| "check_types (ImpliesExpr l r) = bind_result (check_types l) (\<lambda>a. bind_result (check_types r) (\<lambda>b.
     require (dsl_type a = TY_BOOL \<and> dsl_type b = TY_BOOL) (ImpliesExpr a b)))"

definition parse_constraint :: "py_str \<Rightarrow> dsl_error + expr" where
  "parse_constraint inp =
     bind_result (tokenize inp) (\<lambda>tokens. bind_result (parse_tree tokens) (\<lambda>tree. check_types tree))"

section \<open>Typing rules\<close>

text \<open>
  The rules the code applies. They differ from the language reference
  (\<^verbatim>\<open>docs/reference/constraint-dsl.rst\<close>) in the treatment of configuration and resource values, whose
  type is known at run time only: there is no rule for a test \<open>s in config[k]\<close>, which the
  reference has as an example, and equality takes such a value together with an operand of any
  other type, sets included, where the reference asks for equal types.
\<close>

definition is_set_type :: "DSLType \<Rightarrow> bool" where
  "is_set_type t \<longleftrightarrow> t = TY_RELATION_SET \<or> t = TY_CHARM_SET \<or> t = TY_SET_STR \<or> t = TY_SET_INT"

inductive has_type :: "expr \<Rightarrow> DSLType \<Rightarrow> bool" where
  ty_int: "has_type (IntLit n) TY_INT"
| ty_str: "has_type (StrLit s) TY_STR"
| ty_ints: "has_type (IntLiteralSet ns) TY_SET_INT"
| ty_strs: "has_type (StrLiteralSet ss) TY_SET_STR"
| ty_self: "has_type SelfExpr TY_CHARM_SET"
| ty_endpoint: "has_type (EndpointExpr n) TY_RELATION_SET"
| ty_config: "has_type (ConfigExpr k) TY_RUNTIME"
| ty_set_config: "has_type (SetConfigExpr k) TY_BOOL"
| ty_resource: "has_type (ResourceExpr k) TY_RUNTIME"
| ty_set_resource: "has_type (SetResourceExpr k) TY_BOOL"
| ty_len_rel: "has_type e TY_RELATION_SET \<Longrightarrow> has_type (LenExpr e) TY_INT"
| ty_len_unit: "has_type e TY_UNIT_SET \<Longrightarrow> has_type (LenExpr e) TY_INT"
| ty_bool: "has_type e TY_RELATION_SET \<Longrightarrow> has_type (BoolFunc e) TY_BOOL"
| ty_charms: "has_type e TY_RELATION_SET \<Longrightarrow> has_type (CharmsExpr e) TY_CHARM_SET"
| ty_features: "has_type e TY_RELATION_SET \<Longrightarrow> has_type (FeaturesExpr e) TY_SET_STR"
| ty_reachable: "has_type (ReachableExpr (EndpointExpr n)) TY_CHARM_SET"
| ty_cross: "has_type e TY_RELATION_SET \<Longrightarrow> has_type (CrossModelExpr e) TY_RELATION_SET"
| ty_tracks: "has_type e TY_CHARM_SET \<Longrightarrow> has_type (TracksExpr e) TY_SET_STR"
| ty_risks: "has_type e TY_CHARM_SET \<Longrightarrow> has_type (RisksExpr e) TY_SET_STR"
| ty_channels: "has_type e TY_CHARM_SET \<Longrightarrow> has_type (ChannelsExpr e) TY_SET_STR"
| ty_revisions: "has_type e TY_CHARM_SET \<Longrightarrow> has_type (RevisionsExpr e) TY_SET_INT"
| ty_units: "has_type e TY_CHARM_SET \<Longrightarrow> has_type (UnitsExpr e) TY_UNIT_SET"
| ty_arith: "has_type l TY_INT \<Longrightarrow> has_type r TY_INT \<Longrightarrow> has_type (ArithExpr op l r) TY_INT"
| ty_less: "has_type l TY_INT \<Longrightarrow> has_type r TY_INT \<Longrightarrow> op \<in> {LtOp, LeOp, GtOp, GeOp} \<Longrightarrow>
    has_type (CompareExpr op l r) TY_BOOL"
| ty_subset: "has_type l t \<Longrightarrow> has_type r t \<Longrightarrow> is_set_type t \<Longrightarrow> op \<in> {LeOp, GeOp} \<Longrightarrow>
    has_type (CompareExpr op l r) TY_BOOL"
| ty_equal: "has_type l t \<Longrightarrow> has_type r t' \<Longrightarrow> t = t' \<or> t = TY_RUNTIME \<or> t' = TY_RUNTIME \<Longrightarrow>
    t \<noteq> TY_UNIT_SET \<Longrightarrow> t' \<noteq> TY_UNIT_SET \<Longrightarrow> op \<in> {EqOp, NeqOp} \<Longrightarrow> has_type (CompareExpr op l r) TY_BOOL"
| ty_set_op: "has_type l t \<Longrightarrow> has_type r t \<Longrightarrow> is_set_type t \<Longrightarrow> has_type (SetOpExpr t op l r) t"
| ty_substring: "has_type e TY_STR \<Longrightarrow> has_type c TY_STR \<Longrightarrow> has_type (InExpr e c neg) TY_BOOL"
| ty_in_ints: "has_type e t \<Longrightarrow> t = TY_INT \<or> t = TY_RUNTIME \<Longrightarrow> has_type c TY_SET_INT \<Longrightarrow> has_type (InExpr e c neg) TY_BOOL"
| ty_in_strs: "has_type e t \<Longrightarrow> t = TY_STR \<or> t = TY_RUNTIME \<Longrightarrow> has_type c TY_SET_STR \<Longrightarrow> has_type (InExpr e c neg) TY_BOOL"
| ty_not: "has_type e t \<Longrightarrow> t = TY_BOOL \<or> t = TY_RUNTIME \<Longrightarrow> has_type (NotExpr e) TY_BOOL"
| ty_and: "has_type l TY_BOOL \<Longrightarrow> has_type r TY_BOOL \<Longrightarrow> has_type (AndExpr l r) TY_BOOL"
| ty_or: "has_type l TY_BOOL \<Longrightarrow> has_type r TY_BOOL \<Longrightarrow> has_type (OrExpr l r) TY_BOOL"
| ty_implies: "has_type l TY_BOOL \<Longrightarrow> has_type r TY_BOOL \<Longrightarrow> has_type (ImpliesExpr l r) TY_BOOL"

section \<open>Lemmas\<close>

lemma set_types [simp]: "t \<in> set SET_TYPES \<longleftrightarrow> is_set_type t"
  by (auto simp: SET_TYPES_def is_set_type_def)

lemma require_Inr [simp]: "require c e = Inr e' \<longleftrightarrow> c \<and> e' = e"
  by (auto simp: require_def)

lemma require_Inl [simp]: "require c e = Inl x \<longleftrightarrow> \<not> c \<and> x = DSLTypeError"
  by (auto simp: require_def)

lemma is_endpoint_iff: "is_endpoint e \<longleftrightarrow> (\<exists>n. e = EndpointExpr n)"
  by (cases e) simp_all

lemma has_type_unique: "has_type e t \<Longrightarrow> t = dsl_type e"
  by (induction rule: has_type.induct) simp_all

lemma compare_typed:
  assumes "has_type l (dsl_type l)" "has_type r (dsl_type r)" "compare_ok op (dsl_type l) (dsl_type r)"
  shows "has_type (CompareExpr op l r) TY_BOOL"
proof (cases "op = LtOp \<or> op = GtOp \<or> (op = LeOp \<or> op = GeOp) \<and> dsl_type l = TY_INT \<and> dsl_type r = TY_INT")
  case True
  then have "dsl_type l = TY_INT" "dsl_type r = TY_INT" "op \<in> {LtOp, LeOp, GtOp, GeOp}"
    using assms(3) by (auto simp: compare_ok_def Let_def)
  with assms show ?thesis by (auto intro: ty_less)
next
  case False
  show ?thesis
  proof (cases "op = LeOp \<or> op = GeOp")
    case True
    then have "is_set_type (dsl_type l)" "dsl_type l = dsl_type r" "op \<in> {LeOp, GeOp}"
      using False assms(3) by (auto simp: compare_ok_def Let_def)
    then show ?thesis using assms(1,2) by (metis ty_subset)
  next
    case eq: False
    then have "op \<in> {EqOp, NeqOp}" using False by (cases op) auto
    moreover have "dsl_type l = dsl_type r \<or> dsl_type l = TY_RUNTIME \<or> dsl_type r = TY_RUNTIME"
      "dsl_type l \<noteq> TY_UNIT_SET" "dsl_type r \<noteq> TY_UNIT_SET"
      using False eq assms(3) by (auto simp: compare_ok_def)
    ultimately show ?thesis using assms(1,2) by (metis ty_equal)
  qed
qed

lemma in_typed:
  assumes "has_type e (dsl_type e)" "has_type c (dsl_type c)" "in_ok (dsl_type e) (dsl_type c)"
  shows "has_type (InExpr e c neg) TY_BOOL"
  using assms by (auto simp: in_ok_def split: if_splits intro: ty_substring ty_in_ints ty_in_strs)

lemma set_op_typed:
  assumes "has_type l (dsl_type l)" "has_type r (dsl_type r)" "check_set_op op l r = Inr e"
  shows "has_type e (dsl_type e)"
  using assms by (auto simp: check_set_op_def Let_def split: if_splits intro: ty_arith ty_set_op)

lemma check_types_typed: "check_types e = Inr e' \<Longrightarrow> has_type e' (dsl_type e')"
proof (induction e arbitrary: e')
  case (CompareExpr op l r)
  then show ?case by (auto simp: bind_result_Inr_iff intro: compare_typed)
next
  case (InExpr e c neg)
  then show ?case by (auto simp: bind_result_Inr_iff intro: in_typed)
next
  case (SetOpExpr ty op l r)
  then show ?case by (auto simp: bind_result_Inr_iff intro: set_op_typed)
qed (fastforce simp: bind_result_Inr_iff is_endpoint_iff intro: has_type.intros)+

lemma check_types_errors: "check_types e = Inl err \<Longrightarrow> err = DSLTypeError"
proof (induction e arbitrary: err)
  case (SetOpExpr ty op l r)
  then show ?case by (auto simp: bind_result_Inl_iff check_set_op_def Let_def split: if_splits)
qed (auto simp: bind_result_Inl_iff)

end
