(* ===== verification/DSL_Print.thy ===== *)
theory DSL_Print
  imports DSL_Types
begin

text \<open>
  A printer for parse trees and the lemmas behind the round trip: derivations of the parser
  that do not mention fuel, their rules per production, and the printer's tokens. The printer is
  a specification device; the repository has no printer for constraints.
\<close>

section \<open>Derivations without fuel\<close>

text \<open>More fuel never changes an outcome other than the lack of fuel.\<close>

definition less_fuel :: "dsl_error + 'a \<Rightarrow> dsl_error + 'a \<Rightarrow> bool" where
  "less_fuel r r' \<longleftrightarrow> r = Inl OutOfFuel \<or> r' = r"

lemma less_fuel_refl [simp]: "less_fuel r r"
  by (simp add: less_fuel_def)

lemma less_fuel_bind:
  "less_fuel r r' \<Longrightarrow> (\<And>x. less_fuel (f x) (f' x)) \<Longrightarrow> less_fuel (bind_result r f) (bind_result r' f')"
  by (cases r) (auto simp: less_fuel_def)

lemma less_fuel_case_prod: "(\<And>a b. less_fuel (f a b) (f' a b)) \<Longrightarrow> less_fuel (case p of (a, b) \<Rightarrow> f a b) (case p of (a, b) \<Rightarrow> f' a b)"
  by (cases p) simp

lemma less_fuel_production:
  assumes rp: "\<And>p ts. less_fuel (rp p ts) (rp' p ts)"
  shows "less_fuel (run_production rp p ts) (run_production rp' p ts)"
proof -
  have call: "less_fuel (call_expr rp t us) (call_expr rp' t us)" for t us
    unfolding call_expr_def by (intro less_fuel_bind less_fuel_case_prod rp) simp_all
  have "less_fuel (atom rp ts) (atom rp' ts)" for ts
    unfolding atom_def using call by (intro less_fuel_bind) (auto intro!: less_fuel_bind less_fuel_case_prod rp)
  then show ?thesis
    by (cases p) (auto simp: production_defs intro!: less_fuel_bind less_fuel_case_prod rp split: option.split)
qed

lemma less_fuel_parse: "less_fuel (parse_at n p ts) (parse_at (n + k) p ts)"
proof (induction n arbitrary: p ts)
  case 0
  then show ?case by (simp add: less_fuel_def)
next
  case (Suc n)
  then show ?case using less_fuel_production [of "parse_at n" "parse_at (n + k)"] by simp
qed

definition parses :: "production \<Rightarrow> Token list \<Rightarrow> expr \<Rightarrow> Token list \<Rightarrow> bool" where
  "parses p ts e rest \<longleftrightarrow> (\<exists>n. \<forall>k. parse_at (n + k) p ts = Inr (e, rest))"

lemma parsesI:
  assumes "\<And>k. run_production (parse_at (n + k)) p ts = Inr (e, rest)"
  shows "parses p ts e rest"
  unfolding parses_def using assms by (intro exI [of _ "Suc n"]) simp

lemma parses_parse_at:
  assumes "parses p ts e rest" "parse_at n p ts \<noteq> Inl OutOfFuel"
  shows "parse_at n p ts = Inr (e, rest)"
proof -
  from assms(1) obtain m where "parse_at (m + n) p ts = Inr (e, rest)" by (auto simp: parses_def)
  moreover have "parse_at (n + m) p ts = parse_at n p ts"
    using less_fuel_parse [of n p ts m] assms(2) by (simp add: less_fuel_def)
  ultimately show ?thesis by (simp add: add.commute)
qed

text \<open>Two derivations have a common fuel.\<close>

lemma parses_two:
  assumes "parses p ts e rest" "parses q us f rest'"
  obtains n where "\<And>k. parse_at (n + k) p ts = Inr (e, rest)" "\<And>k. parse_at (n + k) q us = Inr (f, rest')"
proof -
  from assms obtain a b where ab: "\<And>k. parse_at (a + k) p ts = Inr (e, rest)" "\<And>k. parse_at (b + k) q us = Inr (f, rest')"
    by (auto simp: parses_def)
  have "parse_at (a + b + k) p ts = Inr (e, rest)" "parse_at (a + b + k) q us = Inr (f, rest')" for k
    using ab(1) [of "b + k"] ab(2) [of "a + k"] by (simp_all add: ac_simps)
  then show ?thesis by (rule that)
qed

lemma parses_one:
  assumes "parses p ts e rest"
  obtains n where "\<And>k. parse_at (n + k) p ts = Inr (e, rest)"
  using assms by (auto simp: parses_def)

text \<open>Deriving a production from the derivations it calls.\<close>

lemma parses1:
  assumes "parses p ts e r" and "\<And>n. parse_at n p ts = Inr (e, r) \<Longrightarrow> run_production (parse_at n) q us = Inr (f, r')"
  shows "parses q us f r'"
proof -
  from assms(1) obtain n where "\<And>k. parse_at (n + k) p ts = Inr (e, r)" by (rule parses_one) blast
  then show ?thesis using assms(2) by (intro parsesI [of n]) blast
qed

lemma parses2:
  assumes "parses p ts e r" "parses p' ts' e' r'"
    and "\<And>n. parse_at n p ts = Inr (e, r) \<Longrightarrow> parse_at n p' ts' = Inr (e', r') \<Longrightarrow> run_production (parse_at n) q us = Inr (f, s)"
  shows "parses q us f s"
proof -
  obtain n where "\<And>k. parse_at (n + k) p ts = Inr (e, r)" "\<And>k. parse_at (n + k) p' ts' = Inr (e', r')"
    using parses_two [OF assms(1,2)] by blast
  then show ?thesis using assms(3) by (intro parsesI [of n]) blast
qed

section \<open>Rules per production\<close>

definition ident :: "py_str \<Rightarrow> Token \<Rightarrow> bool" where
  "ident v t \<longleftrightarrow> tok_kind t = TK_IDENT \<and> tok_value t = v"

lemma is_ident_Cons [simp]: "is_ident v (t # ts) = Inr (ident v t)"
  by (simp add: is_ident_def ident_def)

lemma is_next_ident_Cons2: "is_next_ident v (s # t # ts) = ident v t"
  by (simp add: ident_def)

declare is_next_ident.simps(1) [simp del]

lemma ident_inj: "ident v t \<Longrightarrow> ident w t \<longleftrightarrow> v = w"
  by (auto simp: ident_def)

text \<open>The loops stop at a token that does not continue them.\<close>

lemma loop_stop:
  "tok_kind t \<noteq> TK_STAR \<Longrightarrow> parses (PMulLoop e) (t # ts) e (t # ts)"
  "tok_kind t \<noteq> TK_PLUS \<Longrightarrow> parses (PAddLoop e) (t # ts) e (t # ts)"
  "set_ops (tok_kind t) = None \<Longrightarrow> parses (PSetOpLoop e) (t # ts) e (t # ts)"
  "\<not> ident ''and'' t \<Longrightarrow> parses (PAndLoop e) (t # ts) e (t # ts)"
  "\<not> ident ''or'' t \<Longrightarrow> parses (POrLoop e) (t # ts) e (t # ts)"
  by (rule parsesI [of 0]; simp add: production_defs)+

text \<open>An operand and its loop, and one turn of a loop.\<close>

lemma operand:
  "parses PAtom ts l us \<Longrightarrow> parses (PMulLoop l) us e r \<Longrightarrow> parses PMul ts e r"
  "parses PMul ts l us \<Longrightarrow> parses (PAddLoop l) us e r \<Longrightarrow> parses PAdd ts e r"
  "parses PAdd ts l us \<Longrightarrow> parses (PSetOpLoop l) us e r \<Longrightarrow> parses PSetOp ts e r"
  "parses PNot ts l us \<Longrightarrow> parses (PAndLoop l) us e r \<Longrightarrow> parses PAnd ts e r"
  "parses PAnd ts l us \<Longrightarrow> parses (POrLoop l) us e r \<Longrightarrow> parses POr ts e r"
  by (erule (1) parses2, simp add: production_defs)+

lemma loop_turn:
  "tok_kind t = TK_STAR \<Longrightarrow> parses PAtom ts x us \<Longrightarrow> parses (PMulLoop (ArithExpr MulOp l x)) us e r \<Longrightarrow>
     parses (PMulLoop l) (t # ts) e r"
  "tok_kind t = TK_PLUS \<Longrightarrow> parses PMul ts x us \<Longrightarrow> parses (PAddLoop (ArithExpr AddOp l x)) us e r \<Longrightarrow>
     parses (PAddLoop l) (t # ts) e r"
  "set_ops (tok_kind t) = Some op \<Longrightarrow> parses PAdd ts x us \<Longrightarrow> parses (PSetOpLoop (SetOpExpr TY_PENDING op l x)) us e r \<Longrightarrow>
     parses (PSetOpLoop l) (t # ts) e r"
  "ident ''and'' t \<Longrightarrow> parses PNot ts x us \<Longrightarrow> parses (PAndLoop (AndExpr l x)) us e r \<Longrightarrow> parses (PAndLoop l) (t # ts) e r"
  "ident ''or'' t \<Longrightarrow> parses PAnd ts x us \<Longrightarrow> parses (POrLoop (OrExpr l x)) us e r \<Longrightarrow> parses (POrLoop l) (t # ts) e r"
  by (erule (1) parses2, simp add: production_defs)+

lemma compare_rules:
  "parses PSetOp ts l (t # us) \<Longrightarrow> cmp_ops (tok_kind t) = None \<Longrightarrow> parses PCompare ts l (t # us)"
  "parses PSetOp ts l (t # us) \<Longrightarrow> cmp_ops (tok_kind t) = Some op \<Longrightarrow> parses PSetOp us x r \<Longrightarrow>
     parses PCompare ts (CompareExpr op l x) r"
  by (erule parses1, simp add: production_defs) (erule (1) parses2, simp add: production_defs)

lemma in_rules:
  "parses PCompare ts l (t # us) \<Longrightarrow> \<not> ident ''not'' t \<Longrightarrow> \<not> ident ''in'' t \<Longrightarrow> parses PIn ts l (t # us)"
  "parses PCompare ts l (t # us) \<Longrightarrow> ident ''in'' t \<Longrightarrow> parses PCompare us x r \<Longrightarrow> parses PIn ts (InExpr l x False) r"
  "parses PCompare ts l (s # t # us) \<Longrightarrow> ident ''not'' s \<Longrightarrow> ident ''in'' t \<Longrightarrow> parses PCompare us x r \<Longrightarrow>
     parses PIn ts (InExpr l x True) r"
  by (erule parses1, simp add: production_defs)
     (erule (1) parses2, simp add: production_defs ident_inj,
      erule (1) parses2, simp add: production_defs is_next_ident_Cons2)

lemma not_rules:
  "parses PIn (t # ts) e r \<Longrightarrow> \<not> ident ''not'' t \<Longrightarrow> parses PNot (t # ts) e r"
  "parses PNot (u # ts) e r \<Longrightarrow> ident ''not'' t \<Longrightarrow> \<not> ident ''in'' u \<Longrightarrow> parses PNot (t # u # ts) (NotExpr e) r"
  by (erule parses1, simp add: production_defs is_next_ident_Cons2)+

lemma implies_rules:
  "parses POr ts l (t # us) \<Longrightarrow> tok_kind t \<noteq> TK_IMPLIES \<Longrightarrow> parses PImplies ts l (t # us)"
  "parses POr ts l (t # us) \<Longrightarrow> tok_kind t = TK_IMPLIES \<Longrightarrow> parses PImplies us x r \<Longrightarrow> parses PImplies ts (ImpliesExpr l x) r"
  by (erule parses1, simp add: production_defs) (erule (1) parses2, simp add: production_defs)

lemma atom_rules:
  "tok_kind t = TK_LPAREN \<Longrightarrow> tok_kind u = TK_RPAREN \<Longrightarrow> parses PImplies ts e (u # r) \<Longrightarrow> parses PAtom (t # ts) e r"
  "tok_kind t = TK_STR \<Longrightarrow> parses PAtom (t # r) (StrLit (tok_value t)) r"
  "tok_kind t = TK_INT \<Longrightarrow> parses PAtom (t # r) (IntLit (int_of_lexeme (tok_value t))) r"
  "tok_kind t = TK_LBRACE \<Longrightarrow> brace_expr (t # ts) = Inr (e, r) \<Longrightarrow> parses PAtom (t # ts) e r"
  by (erule parses1, simp add: atom_def) (rule parsesI [of 0], simp add: atom_def)+

lemma call_rule:
  assumes "ident name t" "name \<in> set call_names" "tok_kind p = TK_LPAREN" "tok_kind q = TK_RPAREN"
    and "parses PImplies ts a (q # r)" "make_call name (tok_pos t) a = Inr e"
  shows "parses PAtom (t # p # ts) e r"
  using assms(5) by (rule parses1) (use assms in \<open>simp add: atom_def ident_def call_expr_def\<close>)

lemma bracket_rule:
  assumes "tok_kind p = TK_LBRACKET" "tok_kind x = TK_IDENT" "tok_kind q = TK_RBRACKET"
  shows "ident ''endpoint'' t \<Longrightarrow> parses PAtom (t # p # x # q # r) (EndpointExpr (tok_value x)) r"
    and "ident ''config'' t \<Longrightarrow> parses PAtom (t # p # x # q # r) (ConfigExpr (tok_value x)) r"
    and "ident ''resource'' t \<Longrightarrow> parses PAtom (t # p # x # q # r) (ResourceExpr (tok_value x)) r"
  using assms by (intro parsesI [of 0]; simp add: atom_def ident_def bracketed_def call_names_def)+

section \<open>From atoms to looser productions\<close>

text \<open>An atom followed by a token that stops every production up to the given one.\<close>

definition stops :: "production \<Rightarrow> Token \<Rightarrow> bool" where
  "stops p t \<longleftrightarrow> tok_kind t \<noteq> TK_STAR
     \<and> (4 \<le> prod_rank p \<longrightarrow> tok_kind t \<noteq> TK_PLUS)
     \<and> (6 \<le> prod_rank p \<longrightarrow> set_ops (tok_kind t) = None)
     \<and> (7 \<le> prod_rank p \<longrightarrow> cmp_ops (tok_kind t) = None)
     \<and> (8 \<le> prod_rank p \<longrightarrow> \<not> ident ''not'' t \<and> \<not> ident ''in'' t)
     \<and> (11 \<le> prod_rank p \<longrightarrow> \<not> ident ''and'' t)
     \<and> (13 \<le> prod_rank p \<longrightarrow> \<not> ident ''or'' t)
     \<and> (14 \<le> prod_rank p \<longrightarrow> tok_kind t \<noteq> TK_IMPLIES)"

lemma stops_mono: "stops p t \<Longrightarrow> prod_rank q \<le> prod_rank p \<Longrightarrow> stops q t"
  by (auto simp: stops_def)

lemma mul_up: "parses PAtom ts e (t # r) \<Longrightarrow> stops PMul t \<Longrightarrow> parses PMul ts e (t # r)"
  using operand(1) loop_stop(1) by (simp add: stops_def)

lemma add_up: "parses PMul ts e (t # r) \<Longrightarrow> stops PAdd t \<Longrightarrow> parses PAdd ts e (t # r)"
  using operand(2) loop_stop(2) by (simp add: stops_def)

lemma set_up: "parses PAdd ts e (t # r) \<Longrightarrow> stops PSetOp t \<Longrightarrow> parses PSetOp ts e (t # r)"
  using operand(3) loop_stop(3) by (simp add: stops_def)

lemma compare_up: "parses PSetOp ts e (t # r) \<Longrightarrow> stops PCompare t \<Longrightarrow> parses PCompare ts e (t # r)"
  using compare_rules(1) by (simp add: stops_def)

lemma in_up: "parses PCompare ts e (t # r) \<Longrightarrow> stops PIn t \<Longrightarrow> parses PIn ts e (t # r)"
  using in_rules(1) by (simp add: stops_def)

lemma not_up: "parses PIn (s # ts) e r \<Longrightarrow> \<not> ident ''not'' s \<Longrightarrow> parses PNot (s # ts) e r"
  by (rule not_rules(1))

lemma and_up: "parses PNot ts e (t # r) \<Longrightarrow> stops PAnd t \<Longrightarrow> parses PAnd ts e (t # r)"
  using operand(4) loop_stop(4) by (simp add: stops_def)

lemma or_up: "parses PAnd ts e (t # r) \<Longrightarrow> stops POr t \<Longrightarrow> parses POr ts e (t # r)"
  using operand(5) loop_stop(5) by (simp add: stops_def)

lemma implies_up: "parses POr ts e (t # r) \<Longrightarrow> stops PImplies t \<Longrightarrow> parses PImplies ts e (t # r)"
  using implies_rules(1) by (simp add: stops_def)

text \<open>The whole way up from an atom that does not start with \<open>not\<close>.\<close>

lemma atom_up:
  assumes "parses PAtom (s # ts) e (t # r)" "\<not> ident ''not'' s"
  shows "stops PMul t \<Longrightarrow> parses PMul (s # ts) e (t # r)"
    and "stops PAdd t \<Longrightarrow> parses PAdd (s # ts) e (t # r)"
    and "stops PSetOp t \<Longrightarrow> parses PSetOp (s # ts) e (t # r)"
    and "stops PCompare t \<Longrightarrow> parses PCompare (s # ts) e (t # r)"
    and "stops PNot t \<Longrightarrow> parses PNot (s # ts) e (t # r)"
    and "stops PAnd t \<Longrightarrow> parses PAnd (s # ts) e (t # r)"
    and "stops POr t \<Longrightarrow> parses POr (s # ts) e (t # r)"
    and "stops PImplies t \<Longrightarrow> parses PImplies (s # ts) e (t # r)"
proof -
  have m: "stops q t" if "stops p t" "prod_rank q \<le> prod_rank p" for p q using that by (rule stops_mono)
  show mul: "parses PMul (s # ts) e (t # r)" if "stops PMul t" using mul_up [OF assms(1) that] .
  show add: "parses PAdd (s # ts) e (t # r)" if "stops PAdd t" using add_up mul m that by simp
  show st: "parses PSetOp (s # ts) e (t # r)" if "stops PSetOp t" using set_up add m that by simp
  show cp: "parses PCompare (s # ts) e (t # r)" if "stops PCompare t" using compare_up st m that by simp
  show no: "parses PNot (s # ts) e (t # r)" if "stops PNot t"
    using not_up in_up cp m [OF that, of PIn] m [OF that, of PCompare] assms(2) by simp
  show an: "parses PAnd (s # ts) e (t # r)" if "stops PAnd t" using and_up no m that by simp
  show "parses POr (s # ts) e (t # r)" if "stops POr t" using or_up an m that by simp
  show "parses PImplies (s # ts) e (t # r)" if "stops PImplies t"
    using implies_up or_up an m [OF that, of POr] m [OF that, of PAnd] that by simp
qed

section \<open>The printer\<close>

type_synonym lexeme = "TokenKind \<times> py_str"

definition lex_of :: "Token \<Rightarrow> lexeme" where
  "lex_of t = (tok_kind t, tok_value t)"

abbreviation kw :: "py_str \<Rightarrow> lexeme" where
  "kw s \<equiv> (TK_IDENT, s)"

definition paren :: "lexeme list \<Rightarrow> lexeme list" where
  "paren ls = (TK_LPAREN, ''('') # ls @ [(TK_RPAREN, '')'')]"

definition int_lexeme :: "int \<Rightarrow> lexeme" where
  "int_lexeme n = (TK_INT, nat_str (nat n))"

fun comma_sep :: "lexeme list \<Rightarrow> lexeme list" where
  "comma_sep [] = []"
| "comma_sep [l] = [l]"
| "comma_sep (l # m # ls) = l # (TK_COMMA, '','') # comma_sep (m # ls)"

definition braces :: "lexeme list \<Rightarrow> lexeme list" where
  "braces ls = (TK_LBRACE, ''{'') # comma_sep ls @ [(TK_RBRACE, ''}'')]"

definition access :: "py_str \<Rightarrow> py_str \<Rightarrow> lexeme list" where
  "access name key = [kw name, (TK_LBRACKET, ''[''), (TK_IDENT, key), (TK_RBRACKET, '']'')]"

fun cmp_lexeme :: "cmp_op \<Rightarrow> lexeme" where
  "cmp_lexeme EqOp = (TK_EQ, ''=='')"
| "cmp_lexeme NeqOp = (TK_NEQ, ''!='')"
| "cmp_lexeme LtOp = (TK_LT, ''<'')"
| "cmp_lexeme LeOp = (TK_LE, ''<='')"
| "cmp_lexeme GtOp = (TK_GT, ''>'')"
| "cmp_lexeme GeOp = (TK_GE, ''>='')"

fun set_lexeme :: "set_op \<Rightarrow> lexeme" where
  "set_lexeme UnionOp = (TK_PIPE, ''|'')"
| "set_lexeme InterOp = (TK_AMP, ''&'')"
| "set_lexeme DiffOp = (TK_MINUS, ''-'')"

fun arith_lexeme :: "arith_op \<Rightarrow> lexeme" where
  "arith_lexeme AddOp = (TK_PLUS, ''+'')"
| "arith_lexeme MulOp = (TK_STAR, ''*'')"
| "arith_lexeme SubOp = (TK_MINUS, ''-'')"

primrec show_expr :: "expr \<Rightarrow> lexeme list" where
  "show_expr (IntLit n) = [int_lexeme n]"
| "show_expr (StrLit s) = [(TK_STR, s)]"
| "show_expr (IntLiteralSet ns) = braces (map int_lexeme (sorted_list_of_set ns))"
| "show_expr (StrLiteralSet ss) = braces (map (\<lambda>s. (TK_STR, s)) (sorted_list_of_set ss))"
| "show_expr SelfExpr = [(TK_LBRACE, ''{''), kw ''self'', (TK_RBRACE, ''}'')]"
| "show_expr (EndpointExpr n) = access ''endpoint'' n"
| "show_expr (ConfigExpr k) = access ''config'' k"
| "show_expr (SetConfigExpr k) = kw ''set'' # paren (access ''config'' k)"
| "show_expr (ResourceExpr k) = access ''resource'' k"
| "show_expr (SetResourceExpr k) = kw ''set'' # paren (access ''resource'' k)"
| "show_expr (LenExpr e) = kw ''len'' # paren (show_expr e)"
| "show_expr (BoolFunc e) = kw ''bool'' # paren (show_expr e)"
| "show_expr (CharmsExpr e) = kw ''charms'' # paren (show_expr e)"
| "show_expr (FeaturesExpr e) = kw ''features'' # paren (show_expr e)"
| "show_expr (ReachableExpr e) = kw ''reachable'' # paren (show_expr e)"
| "show_expr (CrossModelExpr e) = kw ''cross_model'' # paren (show_expr e)"
| "show_expr (TracksExpr e) = kw ''tracks'' # paren (show_expr e)"
| "show_expr (RisksExpr e) = kw ''risks'' # paren (show_expr e)"
| "show_expr (ChannelsExpr e) = kw ''channels'' # paren (show_expr e)"
| "show_expr (RevisionsExpr e) = kw ''revisions'' # paren (show_expr e)"
| "show_expr (UnitsExpr e) = kw ''units'' # paren (show_expr e)"
| "show_expr (ArithExpr op l r) = paren (show_expr l @ arith_lexeme op # show_expr r)"
| "show_expr (CompareExpr op l r) = paren (show_expr l @ cmp_lexeme op # show_expr r)"
| "show_expr (SetOpExpr ty op l r) = paren (show_expr l @ set_lexeme op # show_expr r)"
| "show_expr (InExpr e c neg) = paren (show_expr e @ (if neg then [kw ''not'', kw ''in''] else [kw ''in'']) @ show_expr c)"
| "show_expr (NotExpr e) = paren (kw ''not'' # show_expr e)"
| "show_expr (AndExpr l r) = paren (show_expr l @ kw ''and'' # show_expr r)"
| "show_expr (OrExpr l r) = paren (show_expr l @ kw ''or'' # show_expr r)"
| "show_expr (ImpliesExpr l r) = paren (show_expr l @ (TK_IMPLIES, ''=>'') # show_expr r)"

text \<open>
  The trees the parser produces and the printer can print: literals without sign, non-empty
  literal sets, \<open>-\<close> as a set operator still to be typed, names and strings the tokenizer accepts.
\<close>

definition str_ok :: "py_str \<Rightarrow> bool" where
  "str_ok s \<longleftrightarrow> str_rest (s @ [CHR 0x22]) = Some (Suc (length s))"

definition ident_ok :: "py_str \<Rightarrow> bool" where
  "ident_ok s \<longleftrightarrow> s \<noteq> [] \<and> is_ident_start (hd s) \<and> list_all is_ident_char (tl s)"

primrec printable :: "expr \<Rightarrow> bool" where
  "printable (IntLit n) = (0 \<le> n)"
| "printable (StrLit s) = str_ok s"
| "printable (IntLiteralSet ns) = (finite ns \<and> ns \<noteq> {} \<and> (\<forall>n \<in> ns. 0 \<le> n))"
| "printable (StrLiteralSet ss) = (finite ss \<and> ss \<noteq> {} \<and> (\<forall>s \<in> ss. str_ok s))"
| "printable SelfExpr = True"
| "printable (EndpointExpr n) = ident_ok n"
| "printable (ConfigExpr k) = ident_ok k"
| "printable (SetConfigExpr k) = ident_ok k"
| "printable (ResourceExpr k) = ident_ok k"
| "printable (SetResourceExpr k) = ident_ok k"
| "printable (LenExpr e) = printable e"
| "printable (BoolFunc e) = printable e"
| "printable (CharmsExpr e) = printable e"
| "printable (FeaturesExpr e) = printable e"
| "printable (ReachableExpr e) = printable e"
| "printable (CrossModelExpr e) = printable e"
| "printable (TracksExpr e) = printable e"
| "printable (RisksExpr e) = printable e"
| "printable (ChannelsExpr e) = printable e"
| "printable (RevisionsExpr e) = printable e"
| "printable (UnitsExpr e) = printable e"
| "printable (ArithExpr op l r) = (op \<noteq> SubOp \<and> printable l \<and> printable r)"
| "printable (CompareExpr op l r) = (printable l \<and> printable r)"
| "printable (SetOpExpr ty op l r) = (ty = TY_PENDING \<and> printable l \<and> printable r)"
| "printable (InExpr e c neg) = (printable e \<and> printable c)"
| "printable (NotExpr e) = printable e"
| "printable (AndExpr l r) = (printable l \<and> printable r)"
| "printable (OrExpr l r) = (printable l \<and> printable r)"
| "printable (ImpliesExpr l r) = (printable l \<and> printable r)"

section \<open>Parsing what is printed\<close>

text \<open>The tokens \<open>ts\<close> spell the tree \<open>e\<close>, wherever they stand.\<close>

definition spells :: "Token list \<Rightarrow> lexeme list \<Rightarrow> bool" where
  "spells ts ls \<longleftrightarrow> map lex_of ts = ls"

lemma spells_Nil [simp]: "spells ts [] \<longleftrightarrow> ts = []"
  by (simp add: spells_def)

lemma spells_Cons [simp]: "spells ts (l # ls) \<longleftrightarrow> (\<exists>t us. ts = t # us \<and> tok_kind t = fst l \<and> tok_value t = snd l \<and> spells us ls)"
  by (auto simp: spells_def map_eq_Cons_conv lex_of_def)

lemma spells_append [simp]: "spells ts (ls @ ms) \<longleftrightarrow> (\<exists>us vs. ts = us @ vs \<and> spells us ls \<and> spells vs ms)"
  by (auto simp: spells_def map_eq_append_conv)

text \<open>A printed tree starts with a token that is neither \<open>not\<close> nor \<open>in\<close>.\<close>

lemma show_expr_start:
  assumes "printable e" "spells ts (show_expr e)"
  obtains t us where "ts = t # us" "\<not> ident ''not'' t" "\<not> ident ''in'' t"
proof -
  have "\<exists>l ls. show_expr e = l # ls \<and> l \<noteq> kw ''not'' \<and> l \<noteq> kw ''in''"
    by (cases e) (simp_all add: int_lexeme_def braces_def access_def paren_def)
  then show ?thesis using assms(2) that by (auto simp: ident_def)
qed

lemma int_of_nat_str [simp]: "int_of_lexeme (nat_str n) = int n"
proof (cases "nat_str n")
  case (Cons c cs)
  then have "is_digit c" using nat_str_digits [of n] by simp
  then have "c \<noteq> CHR ''-''" by (auto simp: is_digit_def)
  then show ?thesis using Cons str_nat_nat_str [of n] by simp
qed simp

definition reads :: "expr \<Rightarrow> bool" where
  "reads e \<longleftrightarrow> printable e \<and> (\<forall>ts rest. spells ts (show_expr e) \<longrightarrow> parses PAtom (ts @ rest) e rest)"

lemma reads_up:
  assumes "reads e" "spells ts (show_expr e)"
  shows "stops PMul t \<Longrightarrow> parses PMul (ts @ t # r) e (t # r)"
    and "stops PAdd t \<Longrightarrow> parses PAdd (ts @ t # r) e (t # r)"
    and "stops PSetOp t \<Longrightarrow> parses PSetOp (ts @ t # r) e (t # r)"
    and "stops PCompare t \<Longrightarrow> parses PCompare (ts @ t # r) e (t # r)"
    and "stops PNot t \<Longrightarrow> parses PNot (ts @ t # r) e (t # r)"
    and "stops PAnd t \<Longrightarrow> parses PAnd (ts @ t # r) e (t # r)"
    and "stops POr t \<Longrightarrow> parses POr (ts @ t # r) e (t # r)"
    and "stops PImplies t \<Longrightarrow> parses PImplies (ts @ t # r) e (t # r)"
    and "parses PAtom (ts @ t # r) e (t # r)"
proof -
  from assms obtain s us where s: "ts = s # us" "\<not> ident ''not'' s" using show_expr_start unfolding reads_def by metis
  show a: "parses PAtom (ts @ t # r) e (t # r)" using assms by (simp add: reads_def)
  note up = atom_up [OF a [unfolded s(1), simplified] s(2)]
  show "stops PMul t \<Longrightarrow> parses PMul (ts @ t # r) e (t # r)"
    and "stops PAdd t \<Longrightarrow> parses PAdd (ts @ t # r) e (t # r)"
    and "stops PSetOp t \<Longrightarrow> parses PSetOp (ts @ t # r) e (t # r)"
    and "stops PCompare t \<Longrightarrow> parses PCompare (ts @ t # r) e (t # r)"
    and "stops PNot t \<Longrightarrow> parses PNot (ts @ t # r) e (t # r)"
    and "stops PAnd t \<Longrightarrow> parses PAnd (ts @ t # r) e (t # r)"
    and "stops POr t \<Longrightarrow> parses POr (ts @ t # r) e (t # r)"
    and "stops PImplies t \<Longrightarrow> parses PImplies (ts @ t # r) e (t # r)"
    using up by (simp_all add: s(1))
qed

lemma stops_rparen: "tok_kind q = TK_RPAREN \<Longrightarrow> stops p q"
  by (simp add: stops_def ident_def)

text \<open>A parenthesised operator: what stands between the parentheses is parsed as the operator's node.\<close>

lemma reads_paren:
  assumes "printable e"
    and "\<And>us q rest. spells us inner \<Longrightarrow> tok_kind q = TK_RPAREN \<Longrightarrow> parses PImplies (us @ q # rest) e (q # rest)"
    and "show_expr e = paren inner"
  shows "reads e"
  using assms by (auto simp: reads_def paren_def intro!: atom_rules(1))

lemma reads_call:
  assumes "reads a" "printable e" "show_expr e = kw name # paren (show_expr a)" "name \<in> set call_names"
    and "\<And>pos. make_call name pos a = Inr e"
  shows "reads e"
  unfolding reads_def
proof (intro conjI allI impI)
  fix ts rest assume "spells ts (show_expr e)"
  then obtain t p us q where ts: "ts = t # p # us @ [q]" "tok_kind t = TK_IDENT" "tok_value t = name"
    "tok_kind p = TK_LPAREN" "tok_kind q = TK_RPAREN" "spells us (show_expr a)"
    using assms(3) by (auto simp: paren_def)
  have "parses PImplies (us @ q # rest) a (q # rest)" by (rule reads_up(8) [OF assms(1) ts(6) stops_rparen [OF ts(5)]])
  then show "parses PAtom (ts @ rest) e rest"
    using call_rule [of name t p q "us @ q # rest" a rest e] ts assms(4,5) by (simp add: ident_def)
qed (rule assms(2))

text \<open>The looser productions of a node that ends at the closing parenthesis.\<close>

lemma up_to_implies:
  assumes "tok_kind q = TK_RPAREN"
  shows "parses POr ts e (q # r) \<Longrightarrow> parses PImplies ts e (q # r)"
    and "parses PAnd ts e (q # r) \<Longrightarrow> parses PImplies ts e (q # r)"
    and "parses PNot ts e (q # r) \<Longrightarrow> parses PImplies ts e (q # r)"
    and "parses PIn (s # us) e (q # r) \<Longrightarrow> \<not> ident ''not'' s \<Longrightarrow> parses PImplies (s # us) e (q # r)"
    and "parses PCompare (s # us) e (q # r) \<Longrightarrow> \<not> ident ''not'' s \<Longrightarrow> parses PImplies (s # us) e (q # r)"
    and "parses PSetOp (s # us) e (q # r) \<Longrightarrow> \<not> ident ''not'' s \<Longrightarrow> parses PImplies (s # us) e (q # r)"
    and "parses PAdd (s # us) e (q # r) \<Longrightarrow> \<not> ident ''not'' s \<Longrightarrow> parses PImplies (s # us) e (q # r)"
    and "parses PMul (s # us) e (q # r) \<Longrightarrow> \<not> ident ''not'' s \<Longrightarrow> parses PImplies (s # us) e (q # r)"
  using stops_rparen [OF assms]
  by (blast intro: implies_up or_up and_up not_up in_up compare_up set_up add_up)+

lemma reads_starts:
  assumes "reads l" "spells us (show_expr l)"
  obtains s us' where "us = s # us'" "\<not> ident ''not'' s" "\<not> ident ''in'' s"
  using assms show_expr_start unfolding reads_def by blast

lemma reads_implies: assumes "reads l" "reads r" shows "reads (ImpliesExpr l r)"
proof (rule reads_paren [OF _ _ show_expr.simps(29)])
  fix ts rest and q :: Token assume q: "tok_kind q = TK_RPAREN" and "spells ts (show_expr l @ (TK_IMPLIES, ''=>'') # show_expr r)"
  then obtain us t vs where ts: "ts = us @ t # vs" "spells us (show_expr l)" "tok_kind t = TK_IMPLIES" "spells vs (show_expr r)" by auto
  have "stops POr t" using ts(3) by (simp add: stops_def ident_def)
  from implies_rules(2) [OF reads_up(7) [OF assms(1) ts(2) this] ts(3) reads_up(8) [OF assms(2) ts(4) stops_rparen [OF q]]]
  show "parses PImplies (ts @ q # rest) (ImpliesExpr l r) (q # rest)" by (simp add: ts(1))
qed (use assms in \<open>simp add: reads_def\<close>)

lemma reads_or: assumes "reads l" "reads r" shows "reads (OrExpr l r)"
proof (rule reads_paren [OF _ _ show_expr.simps(28)])
  fix ts rest and q :: Token assume q: "tok_kind q = TK_RPAREN" and "spells ts (show_expr l @ kw ''or'' # show_expr r)"
  then obtain us t vs where ts: "ts = us @ t # vs" "spells us (show_expr l)" "ident ''or'' t" "spells vs (show_expr r)"
    by (auto simp: ident_def)
  have "stops PAnd t" using ts(3) by (simp add: stops_def ident_def)
  from operand(5) [OF reads_up(6) [OF assms(1) ts(2) this] loop_turn(5) [OF ts(3) reads_up(6) [OF assms(2) ts(4) stops_rparen [OF q]]
      loop_stop(5)]]
  have "parses POr (us @ t # vs @ q # rest) (OrExpr l r) (q # rest)" using q by (simp add: ident_def)
  then show "parses PImplies (ts @ q # rest) (OrExpr l r) (q # rest)" using up_to_implies(1) [OF q] by (simp add: ts(1))
qed (use assms in \<open>simp add: reads_def\<close>)

lemma reads_and: assumes "reads l" "reads r" shows "reads (AndExpr l r)"
proof (rule reads_paren [OF _ _ show_expr.simps(27)])
  fix ts rest and q :: Token assume q: "tok_kind q = TK_RPAREN" and "spells ts (show_expr l @ kw ''and'' # show_expr r)"
  then obtain us t vs where ts: "ts = us @ t # vs" "spells us (show_expr l)" "ident ''and'' t" "spells vs (show_expr r)"
    by (auto simp: ident_def)
  have "stops PNot t" using ts(3) by (simp add: stops_def ident_def)
  from operand(4) [OF reads_up(5) [OF assms(1) ts(2) this] loop_turn(4) [OF ts(3) reads_up(5) [OF assms(2) ts(4) stops_rparen [OF q]]
      loop_stop(4)]]
  have "parses PAnd (us @ t # vs @ q # rest) (AndExpr l r) (q # rest)" using q by (simp add: ident_def)
  then show "parses PImplies (ts @ q # rest) (AndExpr l r) (q # rest)" using up_to_implies(2) [OF q] by (simp add: ts(1))
qed (use assms in \<open>simp add: reads_def\<close>)

lemma reads_not: assumes "reads e" shows "reads (NotExpr e)"
proof (rule reads_paren [OF _ _ show_expr.simps(26)])
  fix ts rest and q :: Token assume q: "tok_kind q = TK_RPAREN" and "spells ts (kw ''not'' # show_expr e)"
  then obtain t us where ts: "ts = t # us" "ident ''not'' t" "spells us (show_expr e)" by (auto simp: ident_def)
  obtain u us' where u: "us = u # us'" "\<not> ident ''in'' u" by (rule reads_starts [OF assms ts(3)])
  have "parses PNot (u # us' @ q # rest) e (q # rest)" using reads_up(5) [OF assms ts(3) stops_rparen [OF q]] u by simp
  from up_to_implies(3) [OF q not_rules(2) [OF this ts(2) u(2)]]
  show "parses PImplies (ts @ q # rest) (NotExpr e) (q # rest)" by (simp add: ts(1) u(1))
qed (use assms in \<open>simp add: reads_def\<close>)

lemma reads_in: assumes "reads e" "reads c" shows "reads (InExpr e c neg)"
proof (rule reads_paren [OF _ _ show_expr.simps(25)])
  fix ts rest and q :: Token assume q: "tok_kind q = TK_RPAREN"
    and sp: "spells ts (show_expr e @ (if neg then [kw ''not'', kw ''in''] else [kw ''in'']) @ show_expr c)"
  then obtain us ws vs where ts: "ts = us @ ws @ vs" "spells us (show_expr e)" "spells vs (show_expr c)"
    "spells ws (if neg then [kw ''not'', kw ''in''] else [kw ''in''])" by auto
  obtain s us' where u: "us = s # us'" "\<not> ident ''not'' s" by (rule reads_starts [OF assms(1) ts(2)])
  have right: "parses PCompare (vs @ q # rest) c (q # rest)" by (rule reads_up(4) [OF assms(2) ts(3) stops_rparen [OF q]])
  have "parses PIn (us @ ws @ vs @ q # rest) (InExpr e c neg) (q # rest)"
  proof (cases neg)
    case True
    with ts(4) obtain s t where w: "ws = [s, t]" "ident ''not'' s" "ident ''in'' t" by (auto simp: ident_def)
    have "stops PCompare s" using w(2) by (simp add: stops_def ident_def)
    from in_rules(3) [OF reads_up(4) [OF assms(1) ts(2) this] w(2,3) right] show ?thesis using True w(1) by simp
  next
    case False
    with ts(4) obtain t where w: "ws = [t]" "ident ''in'' t" by (auto simp: ident_def)
    have "stops PCompare t" using w(2) by (simp add: stops_def ident_def)
    from in_rules(2) [OF reads_up(4) [OF assms(1) ts(2) this] w(2) right] show ?thesis using False w(1) by simp
  qed
  then show "parses PImplies (ts @ q # rest) (InExpr e c neg) (q # rest)"
    using up_to_implies(4) [OF q _ u(2)] by (simp add: ts(1) u(1))
qed (use assms in \<open>simp add: reads_def\<close>)

lemma cmp_lexeme_op [simp]: "cmp_ops (fst (cmp_lexeme op)) = Some op"
  by (cases op) simp_all

lemma set_lexeme_op [simp]: "set_ops (fst (set_lexeme op)) = Some op"
  by (cases op) simp_all

lemma cmp_lexeme_stops: "tok_kind t = fst (cmp_lexeme op) \<Longrightarrow> stops PSetOp t"
  by (cases op) (simp_all add: stops_def)

lemma set_lexeme_stops: "tok_kind t = fst (set_lexeme op) \<Longrightarrow> stops PAdd t"
  by (cases op) (simp_all add: stops_def)

lemma reads_compare: assumes "reads l" "reads r" shows "reads (CompareExpr op l r)"
proof (rule reads_paren [OF _ _ show_expr.simps(23)])
  fix ts rest and q :: Token assume q: "tok_kind q = TK_RPAREN" and "spells ts (show_expr l @ cmp_lexeme op # show_expr r)"
  then obtain us t vs where ts: "ts = us @ t # vs" "spells us (show_expr l)" "tok_kind t = fst (cmp_lexeme op)" "spells vs (show_expr r)"
    by auto
  obtain s us' where u: "us = s # us'" "\<not> ident ''not'' s" by (rule reads_starts [OF assms(1) ts(2)])
  have "cmp_ops (tok_kind t) = Some op" using ts(3) by simp
  from compare_rules(2) [OF reads_up(3) [OF assms(1) ts(2) cmp_lexeme_stops [OF ts(3)]] this
      reads_up(3) [OF assms(2) ts(4) stops_rparen [OF q]]]
  show "parses PImplies (ts @ q # rest) (CompareExpr op l r) (q # rest)"
    using up_to_implies(5) [OF q _ u(2)] by (simp add: ts(1) u(1))
qed (use assms in \<open>simp add: reads_def\<close>)

lemma reads_set_op: assumes "reads l" "reads r" shows "reads (SetOpExpr TY_PENDING op l r)"
proof (rule reads_paren [OF _ _ show_expr.simps(24)])
  fix ts rest and q :: Token assume q: "tok_kind q = TK_RPAREN" and "spells ts (show_expr l @ set_lexeme op # show_expr r)"
  then obtain us t vs where ts: "ts = us @ t # vs" "spells us (show_expr l)" "tok_kind t = fst (set_lexeme op)" "spells vs (show_expr r)"
    by auto
  obtain s us' where u: "us = s # us'" "\<not> ident ''not'' s" by (rule reads_starts [OF assms(1) ts(2)])
  have op: "set_ops (tok_kind t) = Some op" using ts(3) by simp
  have end_: "parses (PSetOpLoop (SetOpExpr TY_PENDING op l r)) (q # rest) (SetOpExpr TY_PENDING op l r) (q # rest)"
    using q by (intro loop_stop(3)) simp
  from operand(3) [OF reads_up(2) [OF assms(1) ts(2) set_lexeme_stops [OF ts(3)]]
      loop_turn(3) [OF op reads_up(2) [OF assms(2) ts(4) stops_rparen [OF q]] end_]]
  show "parses PImplies (ts @ q # rest) (SetOpExpr TY_PENDING op l r) (q # rest)"
    using up_to_implies(6) [OF q _ u(2)] by (simp add: ts(1) u(1))
qed (use assms in \<open>simp add: reads_def\<close>)

lemma reads_arith: assumes "reads l" "reads r" "op \<noteq> SubOp" shows "reads (ArithExpr op l r)"
proof (rule reads_paren [OF _ _ show_expr.simps(22)])
  fix ts rest and q :: Token assume q: "tok_kind q = TK_RPAREN" and "spells ts (show_expr l @ arith_lexeme op # show_expr r)"
  then obtain us t vs where ts: "ts = us @ t # vs" "spells us (show_expr l)" "tok_kind t = fst (arith_lexeme op)" "spells vs (show_expr r)"
    by auto
  obtain s us' where u: "us = s # us'" "\<not> ident ''not'' s" by (rule reads_starts [OF assms(1) ts(2)])
  show "parses PImplies (ts @ q # rest) (ArithExpr op l r) (q # rest)"
  proof (cases "op = AddOp")
    case True
    have "stops PMul t" using ts(3) True by (simp add: stops_def)
    note left = reads_up(1) [OF assms(1) ts(2) this]
    have end_: "parses (PAddLoop (ArithExpr AddOp l r)) (q # rest) (ArithExpr AddOp l r) (q # rest)"
      using q by (intro loop_stop(2)) simp
    from operand(2) [OF left loop_turn(2) [OF _ reads_up(1) [OF assms(2) ts(4) stops_rparen [OF q]] end_]]
    show ?thesis using up_to_implies(7) [OF q _ u(2)] True ts(3) by (simp add: ts(1) u(1))
  next
    case False
    then have op: "op = MulOp" using assms(3) by (cases op) auto
    have end_: "parses (PMulLoop (ArithExpr MulOp l r)) (q # rest) (ArithExpr MulOp l r) (q # rest)"
      using q by (intro loop_stop(1)) simp
    from operand(1) [OF reads_up(9) [OF assms(1) ts(2)] loop_turn(1) [OF _ reads_up(9) [OF assms(2) ts(4)] end_]]
    show ?thesis using up_to_implies(8) [OF q _ u(2)] op ts(3) by (simp add: ts(1) u(1))
  qed
qed (use assms in \<open>simp add: reads_def\<close>)

text \<open>Literal sets.\<close>

definition lit_lex :: "lexeme \<Rightarrow> literal \<Rightarrow> bool" where
  "lit_lex l x \<longleftrightarrow> (\<forall>t. tok_kind t = fst l \<and> tok_value t = snd l \<longrightarrow> literal_of t = Inr x) \<and> (fst l = TK_INT \<or> fst l = TK_STR)"

definition commas :: "lexeme list \<Rightarrow> lexeme list" where
  "commas ls = concat (map (\<lambda>l. [(TK_COMMA, '',''), l]) ls)"

lemma comma_sep_Cons: "comma_sep (l # ls) = l # commas ls"
  by (induction "l # ls" arbitrary: l ls rule: comma_sep.induct) (simp_all add: commas_def)

lemma more_literals_commas:
  assumes "spells us (commas ls)" "list_all2 lit_lex ls xs" "tok_kind q = TK_RBRACE"
  shows "more_literals (us @ q # r) = Inr (xs, q # r)"
  using assms
proof (induction ls arbitrary: us xs)
  case Nil
  then show ?case by (cases r) (auto simp: commas_def)
next
  case (Cons l ls)
  then obtain x xs' where x: "xs = x # xs'" "lit_lex l x" "list_all2 lit_lex ls xs'" by (auto simp: list_all2_Cons1)
  from Cons.prems(1) obtain c t us' where us: "us = c # t # us'" "tok_kind c = TK_COMMA" "tok_kind t = fst l" "tok_value t = snd l"
    "spells us' (commas ls)" by (auto simp: commas_def)
  have "literal_of t = Inr x" "tok_kind t \<noteq> TK_RBRACE" using x(2) us(3,4) by (auto simp: lit_lex_def)
  with Cons.IH [OF us(5) x(3) Cons.prems(3)] us x show ?case by simp
qed

lemma brace_expr_literals:
  assumes "spells ts (braces (l # ls))" "lit_lex l x" "list_all2 lit_lex ls xs" "literal_set x xs = Inr e"
  shows "parses PAtom (ts @ rest) e rest"
proof -
  from assms(1) obtain b t us q where ts: "ts = b # t # us @ [q]" "tok_kind b = TK_LBRACE" "tok_kind q = TK_RBRACE"
    "tok_kind t = fst l" "tok_value t = snd l" "spells us (commas ls)"
    by (auto simp: braces_def comma_sep_Cons)
  have t: "literal_of t = Inr x" "\<not> ident ''self'' t" using assms(2) ts(4,5) by (auto simp: lit_lex_def ident_def)
  have "brace_expr (b # t # us @ q # rest) = Inr (e, rest)"
    using ts(2,3) t more_literals_commas [OF ts(6) assms(3) ts(3), of rest] assms(4) by (simp add: brace_expr_def)
  from atom_rules(4) [OF ts(2) this] show ?thesis by (simp add: ts(1))
qed

lemma lit_lex_int: "0 \<le> n \<Longrightarrow> lit_lex (int_lexeme n) (LInt n)"
  by (auto simp: lit_lex_def int_lexeme_def literal_of_def)

lemma lit_lex_str: "lit_lex (TK_STR, s) (LStr s)"
  by (auto simp: lit_lex_def literal_of_def)

lemma literal_set_ints: "literal_set (LInt n) (map LInt ns) = Inr (IntLiteralSet (set (n # ns)))"
  by (auto simp: literal_set_def image_image)

lemma literal_set_strs: "literal_set (LStr n) (map LStr ns) = Inr (StrLiteralSet (set (n # ns)))"
  by (auto simp: literal_set_def image_image)

lemma reads_int_set: assumes "printable (IntLiteralSet ns)" shows "reads (IntLiteralSet ns)"
proof -
  obtain n xs where xs: "sorted_list_of_set ns = n # xs" "set (n # xs) = ns"
    using assms by (cases "sorted_list_of_set ns") (auto dest: arg_cong [of _ _ set])
  then have "0 \<le> n" "list_all2 lit_lex (map int_lexeme xs) (map LInt xs)"
    using assms by (auto simp: list_all2_conv_all_nth intro!: lit_lex_int)
  then show ?thesis
    using assms brace_expr_literals [OF _ lit_lex_int _ literal_set_ints, of _ n "map int_lexeme xs" xs] xs by (simp add: reads_def)
qed

lemma reads_str_set: assumes "printable (StrLiteralSet ss)" shows "reads (StrLiteralSet ss)"
proof -
  obtain n xs where xs: "sorted_list_of_set ss = n # xs" "set (n # xs) = ss"
    using assms by (cases "sorted_list_of_set ss") (auto dest: arg_cong [of _ _ set])
  have "list_all2 lit_lex (map (\<lambda>s. (TK_STR, s)) xs) (map LStr xs)"
    by (auto simp: list_all2_conv_all_nth intro!: lit_lex_str)
  then show ?thesis
    using assms brace_expr_literals [OF _ lit_lex_str _ literal_set_strs, of _ n "map (\<lambda>s. (TK_STR, s)) xs" xs] xs
    by (simp add: reads_def)
qed

lemma reads_leaves:
  "0 \<le> n \<Longrightarrow> reads (IntLit n)" "str_ok s \<Longrightarrow> reads (StrLit s)" "reads SelfExpr"
  "ident_ok k \<Longrightarrow> reads (EndpointExpr k)" "ident_ok k \<Longrightarrow> reads (ConfigExpr k)" "ident_ok k \<Longrightarrow> reads (ResourceExpr k)"
proof -
  show "reads (IntLit n)" if "0 \<le> n"
    using that atom_rules(3) by (auto simp: reads_def int_lexeme_def) (metis int_of_nat_str nat_0_le)
  show "reads (StrLit s)" if "str_ok s" using that atom_rules(2) by (auto simp: reads_def)
  have "brace_expr (b # t # q # rest) = Inr (SelfExpr, rest)"
    if "tok_kind b = TK_LBRACE" "ident ''self'' t" "tok_kind q = TK_RBRACE" for b t q :: Token and rest
    using that by (simp add: brace_expr_def)
  then show "reads SelfExpr" by (auto simp: reads_def ident_def intro!: atom_rules(4))
  show "ident_ok k \<Longrightarrow> reads (EndpointExpr k)" "ident_ok k \<Longrightarrow> reads (ConfigExpr k)" "ident_ok k \<Longrightarrow> reads (ResourceExpr k)"
    using bracket_rule by (auto simp: reads_def access_def ident_def)
qed

lemma reads_calls:
  assumes "reads e"
  shows "reads (LenExpr e)"
    and "reads (BoolFunc e)"
    and "reads (CharmsExpr e)"
    and "reads (FeaturesExpr e)"
    and "reads (ReachableExpr e)"
    and "reads (CrossModelExpr e)"
    and "reads (TracksExpr e)"
    and "reads (RisksExpr e)"
    and "reads (ChannelsExpr e)"
    and "reads (RevisionsExpr e)"
    and "reads (UnitsExpr e)"
proof -
  have p: "printable e" using assms by (simp add: reads_def)
  show "reads (LenExpr e)"
    by (rule reads_call [OF assms, where name = "''len''"]) (simp_all add: p call_names_def make_call_def)
  show "reads (BoolFunc e)"
    by (rule reads_call [OF assms, where name = "''bool''"]) (simp_all add: p call_names_def make_call_def)
  show "reads (CharmsExpr e)"
    by (rule reads_call [OF assms, where name = "''charms''"]) (simp_all add: p call_names_def make_call_def)
  show "reads (FeaturesExpr e)"
    by (rule reads_call [OF assms, where name = "''features''"]) (simp_all add: p call_names_def make_call_def)
  show "reads (ReachableExpr e)"
    by (rule reads_call [OF assms, where name = "''reachable''"]) (simp_all add: p call_names_def make_call_def)
  show "reads (CrossModelExpr e)"
    by (rule reads_call [OF assms, where name = "''cross_model''"]) (simp_all add: p call_names_def make_call_def)
  show "reads (TracksExpr e)"
    by (rule reads_call [OF assms, where name = "''tracks''"]) (simp_all add: p call_names_def make_call_def)
  show "reads (RisksExpr e)"
    by (rule reads_call [OF assms, where name = "''risks''"]) (simp_all add: p call_names_def make_call_def)
  show "reads (ChannelsExpr e)"
    by (rule reads_call [OF assms, where name = "''channels''"]) (simp_all add: p call_names_def make_call_def)
  show "reads (RevisionsExpr e)"
    by (rule reads_call [OF assms, where name = "''revisions''"]) (simp_all add: p call_names_def make_call_def)
  show "reads (UnitsExpr e)"
    by (rule reads_call [OF assms, where name = "''units''"]) (simp_all add: p call_names_def make_call_def)
qed

lemma reads_printable: "printable e \<Longrightarrow> reads e"
proof (induction e)
  case (SetConfigExpr k)
  then have "reads (ConfigExpr k)" using reads_leaves by simp
  from reads_call [OF this] SetConfigExpr show ?case by (simp add: call_names_def make_call_def)
next
  case (SetResourceExpr k)
  then have "reads (ResourceExpr k)" using reads_leaves by simp
  from reads_call [OF this] SetResourceExpr show ?case by (simp add: call_names_def make_call_def)
next
  case (IntLiteralSet ns)
  then show ?case by (rule reads_int_set)
next
  case (StrLiteralSet ss)
  then show ?case by (rule reads_str_set)
qed (simp_all add: reads_leaves reads_calls reads_arith reads_compare reads_set_op reads_in reads_not reads_and reads_or reads_implies)

end
