(* ===== verification/DSL_Correct.thy ===== *)
theory DSL_Correct
  imports DSL_Print
begin

text \<open>
  The properties of the constraint language: the tokenizer cuts the text without loss, the
  parser and the checker end with a typed tree or a documented error, the checker implements
  the typing rules, and every well-typed tree can be written down and is read back.
\<close>

section \<open>The tokenizer\<close>

lemma span_match_le:
  assumes "span_match P s = Some n"
  shows "n \<le> length s" and "list_all P (take n s)"
proof -
  have n: "n = length (takeWhile P s)" using assms by (auto simp: span_match_def Let_def split: if_splits)
  then have "take n s = takeWhile P s" by (simp add: takeWhile_eq_take [symmetric])
  then show "n \<le> length s" "list_all P (take n s)" using n by (auto simp: length_takeWhile_le list_all_iff dest: set_takeWhileD)
qed

lemma str_rest_le: "str_rest s = Some n \<Longrightarrow> n \<le> length s"
  by (induction s arbitrary: n rule: str_rest.induct) (fastforce split: if_splits list.splits)+

lemma str_match_le: "str_match s = Some n \<Longrightarrow> n \<le> length s"
  by (cases s) (auto split: if_splits dest: str_rest_le)

lemma int_match_le: "int_match s = Some n \<Longrightarrow> n \<le> length s"
  by (cases s) (auto split: if_splits dest: span_match_le)

lemma ident_match_le: "ident_match s = Some n \<Longrightarrow> n \<le> length s"
  by (cases s) (auto split: if_splits simp: length_takeWhile_le)

lemma lit_match_le: "lit_match w s = Some n \<Longrightarrow> n \<le> length s"
  by (auto simp: lit_match_def split: if_splits)

lemma next_token_le: "next_token s = Some (k, n) \<Longrightarrow> n \<le> length s"
  unfolding next_token_def
  by (drule first_match_SomeD)
     (auto simp: token_table_def dest: span_match_le lit_match_le str_match_le int_match_le ident_match_le)

lemma next_token_space: "next_token s = Some (None, n) \<Longrightarrow> list_all is_space (take n s)"
  unfolding next_token_def by (drule first_match_SomeD) (auto simp: token_table_def dest: span_match_le)

lemma next_token_kind: "next_token s = Some (Some k, n) \<Longrightarrow> k \<noteq> TK_EOF"
  unfolding next_token_def by (drule first_match_SomeD) (auto simp: token_table_def)

lemma tokenize_good: "tokenize_from pos s = Inr toks \<Longrightarrow> good toks"
proof (induction pos s arbitrary: toks rule: tokenize_from.induct)
  case (1 pos)
  then show ?case by (auto simp: good_def)
next
  case (2 pos c cs)
  then obtain k n us where kn: "next_token (c # cs) = Some (k, n)" "tokenize_from (pos + n) (drop n (c # cs)) = Inr us"
    and toks: "toks = (case k of None \<Rightarrow> us
      | Some kind \<Rightarrow> \<lparr>tok_kind = kind, tok_value = token_value kind (take n (c # cs)), tok_pos = pos\<rparr> # us)"
    by (auto simp: bind_result_Inr_iff split: option.splits)
  have "good us" by (rule "2.IH" [OF kn(1) refl kn(2)])
  moreover have "good (t # us)" if "tok_kind t \<noteq> TK_EOF" "good us" for t
    using that unfolding good_def by (metis append_Cons set_ConsD)
  ultimately show ?case using next_token_kind kn(1) by (auto simp: toks split: option.split)
qed

text \<open>
  The text is the lexemes of the tokens with white space between them: each token starts where
  its lexeme starts, and the end marker stands at the end.
\<close>

fun covers :: "nat \<Rightarrow> Token list \<Rightarrow> py_str \<Rightarrow> bool" where
  "covers pos [] s = False"
| "covers pos [t] s = (list_all is_space s \<and> t = \<lparr>tok_kind = TK_EOF, tok_value = [], tok_pos = pos + length s\<rparr>)"
| "covers pos (t # u # ts) s = (\<exists>sp lx rest. s = sp @ lx @ rest \<and> list_all is_space sp \<and> lx \<noteq> [] \<and>
     tok_pos t = pos + length sp \<and> tok_value t = token_value (tok_kind t) lx \<and>
     covers (pos + length sp + length lx) (u # ts) rest)"

lemma covers_space:
  assumes "covers (pos + length sp) toks s" "list_all is_space sp"
  shows "covers pos toks (sp @ s)"
proof (cases "(pos, toks, s)" rule: covers.cases)
  case (3 pos' t u ts s')
  with assms(1) obtain sp' lx rest where "s = sp' @ lx @ rest" "list_all is_space sp'" "lx \<noteq> []"
    "tok_pos t = pos + length sp + length sp'" "tok_value t = token_value (tok_kind t) lx"
    "covers (pos + length sp + length sp' + length lx) (u # ts) rest" by auto
  with 3 assms(2) show ?thesis
    by (simp, intro exI [of _ "sp @ sp'"] exI [of _ lx] exI [of _ rest]) (simp add: add.assoc)
qed (use assms in \<open>auto\<close>)

lemma covers_token:
  assumes "covers (pos + length lx) toks s" "lx \<noteq> []"
  shows "covers pos (\<lparr>tok_kind = k, tok_value = token_value k lx, tok_pos = pos\<rparr> # toks) (lx @ s)"
proof (cases toks)
  case (Cons u us)
  with assms show ?thesis by (simp, intro exI [of _ "[]"] exI [of _ lx] exI [of _ s]) simp
qed (use assms in simp)

lemma tokenize_covers: "tokenize_from pos s = Inr toks \<Longrightarrow> covers pos toks s"
proof (induction pos s arbitrary: toks rule: tokenize_from.induct)
  case (2 pos c cs)
  then obtain k n us where kn: "next_token (c # cs) = Some (k, n)" "tokenize_from (pos + n) (drop n (c # cs)) = Inr us"
    and toks: "toks = (case k of None \<Rightarrow> us
      | Some kind \<Rightarrow> \<lparr>tok_kind = kind, tok_value = token_value kind (take n (c # cs)), tok_pos = pos\<rparr> # us)"
    by (auto simp: bind_result_Inr_iff split: option.splits)
  define lx where "lx = take n (c # cs)"
  define rest where "rest = drop n (c # cs)"
  have s: "c # cs = lx @ rest" "length lx = n" "lx \<noteq> []"
    using next_token_le [OF kn(1)] next_token_pos [OF kn(1)] by (auto simp: lx_def rest_def)
  have IH: "covers (pos + length lx) us rest" using "2.IH" [OF kn(1) refl kn(2)] s(2) by (simp add: rest_def)
  show ?case
  proof (cases k)
    case None
    with next_token_space kn(1) have "list_all is_space lx" by (simp add: lx_def)
    with covers_space [OF IH] s(1) None show ?thesis by (simp add: toks)
  next
    case (Some kind)
    with covers_token [OF IH s(3), of kind] show ?thesis unfolding toks s(1) using s(2) by simp
  qed
qed simp

section \<open>Text of a token list\<close>

fun lexeme_text :: "lexeme \<Rightarrow> py_str" where
  "lexeme_text (k, v) = (if k = TK_STR then CHR 0x22 # v @ [CHR 0x22] else v)"

definition render :: "lexeme list \<Rightarrow> py_str" where
  "render ls = concat (map (\<lambda>l. lexeme_text l @ [CHR '' '']) ls)"

definition lex_ok :: "lexeme \<Rightarrow> bool" where
  "lex_ok l \<longleftrightarrow> lexeme_text l \<noteq> [] \<and> token_value (fst l) (lexeme_text l) = snd l \<and>
     (\<forall>rest. next_token (lexeme_text l @ CHR '' '' # rest) = Some (Some (fst l), length (lexeme_text l)))"

lemma next_token_space_Cons: "is_space c \<Longrightarrow> next_token (c # cs) = Some (None, length (takeWhile is_space (c # cs)))"
  by (simp add: next_token_def token_table_def span_match_def)

lemma lex_ok_start: "lex_ok l \<Longrightarrow> \<not> is_space (hd (lexeme_text l))"
proof
  assume l: "lex_ok l" "is_space (hd (lexeme_text l))"
  then obtain c cs where c: "lexeme_text l = c # cs" by (cases "lexeme_text l") (auto simp: lex_ok_def)
  with l next_token_space_Cons [of c "cs @ [CHR '' '']"] show False unfolding lex_ok_def by fastforce
qed

lemma render_start:
  assumes "list_all lex_ok ls"
  shows "takeWhile is_space (render ls) = []"
proof (cases ls)
  case (Cons l ls')
  then have "lexeme_text l \<noteq> []" "\<not> is_space (hd (lexeme_text l))" using assms lex_ok_start by (auto simp: lex_ok_def)
  then show ?thesis by (cases "lexeme_text l") (simp_all add: Cons render_def)
qed (simp add: render_def)

lemma tokenize_space:
  assumes "takeWhile is_space s = []"
  shows "tokenize_from pos (CHR '' '' # s) = tokenize_from (Suc pos) s"
proof -
  have "is_space (CHR '' '')" by (simp add: is_space_def)
  then have "next_token (CHR '' '' # s) = Some (None, 1)" using next_token_space_Cons [of "CHR '' ''" s] assms by simp
  moreover have "bind_result r Inr = r" for r :: "dsl_error + Token list" by (cases r) simp_all
  ultimately show ?thesis by simp
qed

lemma tokenize_render:
  assumes "list_all lex_ok ls"
  shows "\<exists>ts e. tokenize_from pos (render ls) = Inr (ts @ [e]) \<and> spells ts ls \<and> tok_kind e = TK_EOF"
  using assms
proof (induction ls arbitrary: pos)
  case Nil
  then show ?case by (auto simp: render_def)
next
  case (Cons l ls)
  let ?lx = "lexeme_text l"
  have l: "?lx \<noteq> []" "token_value (fst l) ?lx = snd l" and nt: "next_token (?lx @ CHR '' '' # render ls) = Some (Some (fst l), length ?lx)"
    using Cons.prems by (auto simp: lex_ok_def)
  obtain c cs where c: "?lx @ CHR '' '' # render ls = c # cs" using l(1) by (cases ?lx) auto
  have ls: "list_all lex_ok ls" using Cons.prems by simp
  from Cons.IH [OF ls, of "Suc (pos + length ?lx)"] obtain ts e where
    r: "tokenize_from (Suc (pos + length ?lx)) (render ls) = Inr (ts @ [e])" "spells ts ls" "tok_kind e = TK_EOF" by blast
  have d: "drop (length ?lx) (c # cs) = CHR '' '' # render ls" "take (length ?lx) (c # cs) = ?lx" using c [symmetric] by simp_all
  have "tokenize_from (pos + length ?lx) (CHR '' '' # render ls) = Inr (ts @ [e])"
    using r(1) tokenize_space [OF render_start [OF ls]] by simp
  then have "tokenize_from pos (c # cs) = Inr (\<lparr>tok_kind = fst l, tok_value = snd l, tok_pos = pos\<rparr> # ts @ [e])"
    using nt l(2) d unfolding c by (simp del: drop_Suc_Cons take_Suc_Cons)
  moreover have "render (l # ls) = c # cs" using c by (simp add: render_def)
  ultimately show ?case using r(2,3)
    by (intro exI [of _ "\<lparr>tok_kind = fst l, tok_value = snd l, tok_pos = pos\<rparr> # ts"] exI [of _ e]) simp
qed

text \<open>Every lexeme the printer uses is cut out again by the tokenizer.\<close>

lemma lit_match_differ: "c \<noteq> d \<Longrightarrow> lit_match (d # ds) (c # cs) = None"
  by (simp add: lit_match_def)

lemma is_digit_cases: "is_digit c \<Longrightarrow> c \<notin> set '' =!><[](){},+-*|&'' \<and> c \<noteq> CHR 0x22 \<and> c \<noteq> CHR 0x09 \<and> c \<noteq> CHR 0x0A"
  by (auto simp: is_digit_def)

lemma is_ident_start_cases:
  "is_ident_start c \<Longrightarrow> c \<notin> set '' =!><[](){},+-*|&'' \<and> c \<noteq> CHR 0x22 \<and> c \<noteq> CHR 0x09 \<and> c \<noteq> CHR 0x0A \<and> \<not> is_digit c"
  by (auto simp: is_ident_start_def is_digit_def)

lemma next_token_late:
  assumes "c \<notin> set '' =!><[](){},+-*|&''" "c \<noteq> CHR 0x09" "c \<noteq> CHR 0x0A"
  shows "next_token (c # cs) =
    first_match [(Some TK_STR, str_match), (Some TK_INT, int_match), (Some TK_IDENT, ident_match)] (c # cs)"
  using assms by (simp add: next_token_def token_table_def lit_match_differ span_match_def is_space_def)

lemma takeWhile_space:
  assumes "list_all P s" "\<not> P (CHR '' '')"
  shows "takeWhile P (s @ CHR '' '' # rest) = s"
  using assms by (induction s) auto

lemma lex_ok_int: "lex_ok (TK_INT, nat_str n)"
proof (cases "nat_str n")
  case (Cons c cs)
  have d: "list_all is_digit (c # cs)" using nat_str_digits [of n] Cons by (simp add: list_all_iff)
  then have c: "is_digit c" by simp
  have sp: "\<not> is_digit (CHR '' '')" by (simp add: is_digit_def)
  have "next_token (c # cs @ CHR '' '' # rest) = Some (Some TK_INT, Suc (length cs))" for rest
    using next_token_late [of c] is_digit_cases [OF c] takeWhile_space [OF d sp, of rest] c by (simp add: span_match_def)
  then show ?thesis by (simp add: lex_ok_def Cons token_value_def)
qed simp

lemma lex_ok_ident:
  assumes "ident_ok s"
  shows "lex_ok (TK_IDENT, s)"
proof -
  obtain c cs where s: "s = c # cs" "is_ident_start c" "list_all is_ident_char cs" using assms by (cases s) (auto simp: ident_ok_def)
  have sp: "\<not> is_ident_char (CHR '' '')" by (simp add: is_ident_char_def is_ident_start_def is_digit_def)
  have "next_token (c # cs @ CHR '' '' # rest) = Some (Some TK_IDENT, Suc (length cs))" for rest
    using next_token_late [of c] is_ident_start_cases [OF s(2)] takeWhile_space [OF s(3) sp, of rest] s(2) by (simp add: span_match_def)
  then show ?thesis by (simp add: lex_ok_def s(1) token_value_def)
qed

lemma str_rest_append: "str_rest s = Some n \<Longrightarrow> str_rest (s @ r) = Some n"
  by (induction s arbitrary: n rule: str_rest.induct) (auto split: if_splits list.splits)

lemma lex_ok_str:
  assumes "str_ok s"
  shows "lex_ok (TK_STR, s)"
proof -
  have "str_rest (s @ CHR 0x22 # CHR '' '' # rest) = Some (Suc (length s))" for rest
    using str_rest_append [of "s @ [CHR 0x22]" "Suc (length s)" "CHR '' '' # rest"] assms by (simp add: str_ok_def)
  then have "next_token (CHR 0x22 # s @ CHR 0x22 # CHR '' '' # rest) = Some (Some TK_STR, Suc (Suc (length s)))" for rest
    using next_token_late [of "CHR 0x22"] by simp
  then show ?thesis by (simp add: lex_ok_def token_value_def)
qed

lemmas lex_symbol_defs = lex_ok_def token_value_def next_token_def token_table_def lit_match_def span_match_def is_space_def

lemma lex_ok_symbols:
  "lex_ok (TK_LPAREN, ''('')" "lex_ok (TK_RPAREN, '')'')" "lex_ok (TK_LBRACE, ''{'')" "lex_ok (TK_RBRACE, ''}'')"
  "lex_ok (TK_LBRACKET, ''['')" "lex_ok (TK_RBRACKET, '']'')" "lex_ok (TK_COMMA, '','')" "lex_ok (TK_IMPLIES, ''=>'')"
  by (simp_all add: lex_symbol_defs)

lemma lex_ok_operators: "lex_ok (cmp_lexeme cop)" "lex_ok (set_lexeme sop)" "lex_ok (arith_lexeme aop)"
proof -
  show "lex_ok (cmp_lexeme cop)" by (cases cop) (simp_all add: lex_symbol_defs)
  show "lex_ok (set_lexeme sop)" by (cases sop) (simp_all add: lex_symbol_defs)
  show "lex_ok (arith_lexeme aop)" by (cases aop) (simp_all add: lex_symbol_defs)
qed

lemma lex_ok_keywords:
  "s \<in> set (call_names @ [''endpoint'', ''config'', ''resource'', ''self'', ''not'', ''in'', ''and'', ''or'']) \<Longrightarrow> lex_ok (TK_IDENT, s)"
proof (rule lex_ok_ident)
  have "list_all ident_ok (call_names @ [''endpoint'', ''config'', ''resource'', ''self'', ''not'', ''in'', ''and'', ''or''])"
    by code_simp
  then show "s \<in> set (call_names @ [''endpoint'', ''config'', ''resource'', ''self'', ''not'', ''in'', ''and'', ''or'']) \<Longrightarrow> ident_ok s"
    by (simp only: list_all_iff)
qed

lemma lex_ok_comma_sep: "list_all lex_ok ls \<Longrightarrow> list_all lex_ok (comma_sep ls)"
  by (induction ls rule: comma_sep.induct) (auto simp: lex_ok_symbols)

lemma lex_ok_access: "name \<in> {''endpoint'', ''config'', ''resource''} \<Longrightarrow> ident_ok k \<Longrightarrow> list_all lex_ok (access name k)"
  by (auto simp: access_def lex_ok_symbols intro: lex_ok_ident lex_ok_keywords)

lemma lex_ok_paren: "list_all lex_ok (paren ls) = list_all lex_ok ls"
  by (simp add: paren_def lex_ok_symbols)

lemma lex_ok_kw:
  "lex_ok (kw ''len'')" "lex_ok (kw ''bool'')" "lex_ok (kw ''charms'')" "lex_ok (kw ''features'')" "lex_ok (kw ''reachable'')"
  "lex_ok (kw ''cross_model'')" "lex_ok (kw ''tracks'')" "lex_ok (kw ''risks'')" "lex_ok (kw ''channels'')" "lex_ok (kw ''revisions'')"
  "lex_ok (kw ''units'')" "lex_ok (kw ''set'')" "lex_ok (kw ''self'')" "lex_ok (kw ''not'')" "lex_ok (kw ''in'')" "lex_ok (kw ''and'')"
  "lex_ok (kw ''or'')"
  by (rule lex_ok_keywords, simp add: call_names_def)+

lemma lex_ok_show: "printable e \<Longrightarrow> list_all lex_ok (show_expr e)"
proof (induction e)
  case (IntLiteralSet ns)
  have "list_all lex_ok (comma_sep (map int_lexeme (sorted_list_of_set ns)))"
    by (intro lex_ok_comma_sep) (simp add: list_all_iff int_lexeme_def lex_ok_int)
  then show ?case by (simp add: braces_def lex_ok_symbols)
next
  case (StrLiteralSet ss)
  then have "list_all lex_ok (comma_sep (map (\<lambda>s. (TK_STR, s)) (sorted_list_of_set ss)))"
    by (intro lex_ok_comma_sep) (auto simp: list_all_iff lex_ok_str)
  then show ?case by (simp add: braces_def lex_ok_symbols)
qed (simp_all add: lex_ok_paren lex_ok_kw lex_ok_operators lex_ok_symbols lex_ok_access lex_ok_str int_lexeme_def lex_ok_int)

lemma parse_render:
  assumes "printable e"
  shows "\<exists>ts. tokenize (render (show_expr e)) = Inr ts \<and> parse_tree ts = Inr e"
proof -
  obtain ts q where t: "tokenize_from 0 (render (show_expr e)) = Inr (ts @ [q])" "spells ts (show_expr e)" "tok_kind q = TK_EOF"
    using tokenize_render [OF lex_ok_show [OF assms]] by blast
  have "stops PImplies q" using t(3) by (simp add: stops_def ident_def)
  then have p: "parses PImplies (ts @ [q]) e [q]" using reads_up(8) [OF reads_printable [OF assms] t(2)] by simp
  have g: "good (ts @ [q])" by (rule tokenize_good [OF t(1)])
  have "enough (parse_fuel (ts @ [q])) (ts @ [q]) PImplies" by (simp add: enough_def parse_fuel_def)
  with pp.rec_safe [OF g, of "parse_fuel (ts @ [q])" PImplies]
  have "parse_at (parse_fuel (ts @ [q])) PImplies (ts @ [q]) \<noteq> Inl OutOfFuel" by auto
  from parses_parse_at [OF p this] t show ?thesis by (simp add: tokenize_def parse_tree_def)
qed

section \<open>The raw form of a typed tree\<close>

text \<open>What the parser produces for a typed tree: untyped set operators, and \<open>-\<close> as one of them.\<close>

primrec raw :: "expr \<Rightarrow> expr" where
  "raw (IntLit n) = IntLit n"
| "raw (StrLit s) = StrLit s"
| "raw (IntLiteralSet ns) = IntLiteralSet ns"
| "raw (StrLiteralSet ss) = StrLiteralSet ss"
| "raw SelfExpr = SelfExpr"
| "raw (EndpointExpr n) = EndpointExpr n"
| "raw (ConfigExpr k) = ConfigExpr k"
| "raw (SetConfigExpr k) = SetConfigExpr k"
| "raw (ResourceExpr k) = ResourceExpr k"
| "raw (SetResourceExpr k) = SetResourceExpr k"
| "raw (LenExpr e) = LenExpr (raw e)"
| "raw (BoolFunc e) = BoolFunc (raw e)"
| "raw (CharmsExpr e) = CharmsExpr (raw e)"
| "raw (FeaturesExpr e) = FeaturesExpr (raw e)"
| "raw (ReachableExpr e) = ReachableExpr (raw e)"
| "raw (CrossModelExpr e) = CrossModelExpr (raw e)"
| "raw (TracksExpr e) = TracksExpr (raw e)"
| "raw (RisksExpr e) = RisksExpr (raw e)"
| "raw (ChannelsExpr e) = ChannelsExpr (raw e)"
| "raw (RevisionsExpr e) = RevisionsExpr (raw e)"
| "raw (UnitsExpr e) = UnitsExpr (raw e)"
| "raw (ArithExpr op l r) = (if op = SubOp then SetOpExpr TY_PENDING DiffOp (raw l) (raw r) else ArithExpr op (raw l) (raw r))"
| "raw (CompareExpr op l r) = CompareExpr op (raw l) (raw r)"
| "raw (SetOpExpr ty op l r) = SetOpExpr TY_PENDING op (raw l) (raw r)"
| "raw (InExpr e c neg) = InExpr (raw e) (raw c) neg"
| "raw (NotExpr e) = NotExpr (raw e)"
| "raw (AndExpr l r) = AndExpr (raw l) (raw r)"
| "raw (OrExpr l r) = OrExpr (raw l) (raw r)"
| "raw (ImpliesExpr l r) = ImpliesExpr (raw l) (raw r)"

lemma has_type_dsl_type: "has_type e t \<Longrightarrow> dsl_type e = t"
  using has_type_unique by auto

lemma check_raw: "has_type e t \<Longrightarrow> check_types (raw e) = Inr e"
proof (induction rule: has_type.induct)
  case (ty_equal l t r t' op)
  then show ?case by (auto simp: has_type_dsl_type compare_ok_def)
next
  case (ty_subset l t r op)
  then show ?case by (auto simp: has_type_dsl_type compare_ok_def)
next
  case (ty_set_op l t r op)
  then show ?case by (auto simp: has_type_dsl_type check_set_op_def is_set_type_def)
qed (auto simp: has_type_dsl_type compare_ok_def check_set_op_def in_ok_def)

lemma check_typed: "has_type e t \<Longrightarrow> check_types e = Inr e"
proof (induction rule: has_type.induct)
  case (ty_equal l t r t' op)
  then show ?case by (auto simp: has_type_dsl_type compare_ok_def)
next
  case (ty_subset l t r op)
  then show ?case by (auto simp: has_type_dsl_type compare_ok_def)
next
  case (ty_set_op l t r op)
  then show ?case by (auto simp: has_type_dsl_type check_set_op_def is_set_type_def)
qed (auto simp: has_type_dsl_type compare_ok_def check_set_op_def in_ok_def)

text \<open>No node of a typed tree is left untyped.\<close>

primrec no_pending :: "expr \<Rightarrow> bool" where
  "no_pending (IntLit n) = True"
| "no_pending (StrLit s) = True"
| "no_pending (IntLiteralSet ns) = True"
| "no_pending (StrLiteralSet ss) = True"
| "no_pending SelfExpr = True"
| "no_pending (EndpointExpr n) = True"
| "no_pending (ConfigExpr k) = True"
| "no_pending (SetConfigExpr k) = True"
| "no_pending (ResourceExpr k) = True"
| "no_pending (SetResourceExpr k) = True"
| "no_pending (LenExpr e) = no_pending e"
| "no_pending (BoolFunc e) = no_pending e"
| "no_pending (CharmsExpr e) = no_pending e"
| "no_pending (FeaturesExpr e) = no_pending e"
| "no_pending (ReachableExpr e) = no_pending e"
| "no_pending (CrossModelExpr e) = no_pending e"
| "no_pending (TracksExpr e) = no_pending e"
| "no_pending (RisksExpr e) = no_pending e"
| "no_pending (ChannelsExpr e) = no_pending e"
| "no_pending (RevisionsExpr e) = no_pending e"
| "no_pending (UnitsExpr e) = no_pending e"
| "no_pending (ArithExpr op l r) = (no_pending l \<and> no_pending r)"
| "no_pending (CompareExpr op l r) = (no_pending l \<and> no_pending r)"
| "no_pending (SetOpExpr ty op l r) = (ty \<noteq> TY_PENDING \<and> no_pending l \<and> no_pending r)"
| "no_pending (InExpr e c neg) = (no_pending e \<and> no_pending c)"
| "no_pending (NotExpr e) = no_pending e"
| "no_pending (AndExpr l r) = (no_pending l \<and> no_pending r)"
| "no_pending (OrExpr l r) = (no_pending l \<and> no_pending r)"
| "no_pending (ImpliesExpr l r) = (no_pending l \<and> no_pending r)"

lemma typed_no_pending: "has_type e t \<Longrightarrow> no_pending e"
  by (induction rule: has_type.induct) (auto simp: is_set_type_def)

lemma tokenize_from_error:
  "tokenize_from pos s = Inl err \<Longrightarrow> \<exists>i. i < length s \<and> err = DSLSyntaxError (UnexpectedChar (s ! i) (pos + i)) \<and> next_token (drop i s) = None"
proof (induction pos s rule: tokenize_from.induct)
  case (2 pos c cs)
  show ?case
  proof (cases "next_token (c # cs)")
    case None
    with 2 show ?thesis by (intro exI [of _ 0]) simp
  next
    case (Some kn)
    then obtain k n where kn: "next_token (c # cs) = Some (k, n)" by (cases kn) auto
    with 2 have "tokenize_from (pos + n) (drop n (c # cs)) = Inl err" by (auto simp: bind_result_Inl_iff split: option.splits)
    from "2.IH" [OF kn refl this] obtain i where i: "i < length (drop n (c # cs))"
      "err = DSLSyntaxError (UnexpectedChar (drop n (c # cs) ! i) (pos + n + i))" "next_token (drop i (drop n (c # cs))) = None" by blast
    have "n + i < length (c # cs)" using i(1) by simp
    with i show ?thesis by (intro exI [of _ "n + i"]) (simp add: add.assoc add.commute del: drop_Suc_Cons)
  qed
qed simp

lemma int_token_digits:
  assumes "next_token s = Some (Some TK_INT, n)"
  shows "list_all is_digit (take n s)"
proof (cases s)
  case Nil
  then show ?thesis by simp
next
  case (Cons c cs)
  have "c \<noteq> CHR ''-''"
  proof
    assume "c = CHR ''-''"
    then have "next_token s = Some (Some TK_MINUS, 1)"
      by (simp add: Cons next_token_def token_table_def lit_match_def span_match_def is_space_def)
    with assms show False by simp
  qed
  moreover have "int_match s = Some n"
    using assms first_match_SomeD [of token_table s "Some TK_INT" n] by (auto simp: next_token_def token_table_def)
  ultimately show ?thesis using span_match_le(2) by (simp add: Cons)
qed

lemma tokenize_from_ints: "tokenize_from pos s = Inr toks \<Longrightarrow> t \<in> set toks \<Longrightarrow> tok_kind t = TK_INT \<Longrightarrow> list_all is_digit (tok_value t)"
proof (induction pos s arbitrary: toks rule: tokenize_from.induct)
  case (2 pos c cs)
  then obtain k n us where kn: "next_token (c # cs) = Some (k, n)" "tokenize_from (pos + n) (drop n (c # cs)) = Inr us"
    and toks: "toks = (case k of None \<Rightarrow> us
      | Some kind \<Rightarrow> \<lparr>tok_kind = kind, tok_value = token_value kind (take n (c # cs)), tok_pos = pos\<rparr> # us)"
    by (auto simp: bind_result_Inr_iff split: option.splits)
  show ?case
  proof (cases "t \<in> set us")
    case True
    then show ?thesis using "2.IH" [OF kn(1) refl kn(2)] "2.prems"(3) by blast
  next
    case False
    with "2.prems"(2,3) toks have "k = Some TK_INT" "tok_value t = token_value TK_INT (take n (c # cs))" by (auto split: option.splits)
    with int_token_digits kn(1) show ?thesis by (simp add: token_value_def del: take_Suc_Cons)
  qed
qed auto

section \<open>Properties\<close>

text \<open>
  The tokenizer cuts the text without loss: the tokens' lexemes, at the positions the tokens
  carry and with only white space between them, make up the whole text, and exactly the last
  token is the end marker. If it fails, the reported position is inside the text, holds the
  reported character, and no token pattern matches there.
\<close>

theorem tokenize_exact:
  "case tokenize s of
     Inr toks \<Rightarrow> covers 0 toks s \<and> good toks
   | Inl err \<Rightarrow> \<exists>i. i < length s \<and> err = DSLSyntaxError (UnexpectedChar (s ! i) i) \<and> next_token (drop i s) = None"
proof (cases "tokenize s")
  case (Inl err)
  then show ?thesis using tokenize_from_error [of 0 s err] by (simp add: tokenize_def)
next
  case (Inr toks)
  then show ?thesis using tokenize_covers tokenize_good by (simp add: tokenize_def)
qed

text \<open>
  C26. Parsing a constraint always ends in one of the documented ways: a tree that is well typed
  under the typing rules and in which no set operator is left untyped, a \<open>DSLSyntaxError\<close> or a
  \<open>DSLTypeError\<close>. The parser never runs past the end of the tokens and its fuel is enough.
\<close>

theorem parse_constraint_total:
  "case parse_constraint s of
     Inr e \<Rightarrow> has_type e (dsl_type e) \<and> no_pending e
   | Inl err \<Rightarrow> err = DSLTypeError \<or> (\<exists>reason. err = DSLSyntaxError reason)"
proof (cases "tokenize s")
  case (Inl err)
  then show ?thesis using tokenize_from_error [of 0 s err] by (auto simp: parse_constraint_def tokenize_def)
next
  case (Inr toks)
  have g: "good toks" using tokenize_good Inr by (simp add: tokenize_def)
  show ?thesis
  proof (cases "parse_tree toks")
    case (Inl err)
    then show ?thesis using parse_tree_safe [OF g] Inr by (auto simp: parse_constraint_def)
  next
    case tree: (Inr tree)
    then show ?thesis
      using Inr check_types_typed [of tree] check_types_errors [of tree] typed_no_pending
      by (cases "check_types tree") (auto simp: parse_constraint_def)
  qed
qed

text \<open>
  C24. The checker implements the typing rules: a tree it accepts comes back well typed and is
  accepted unchanged when checked again; and every well-typed tree is what the checker makes of
  its raw form, in which set operators are untyped and integer subtraction is a set operator. The
  rules are those of \<open>DSL_Types\<close>, which differ from the language reference for configuration values:
  \<open>documented_example_rejected\<close> is its example of a substring test.
\<close>

theorem check_types_implements_typing:
  "(\<forall>e'. check_types e = Inr e' \<longrightarrow> has_type e' (dsl_type e') \<and> check_types e' = Inr e') \<and>
   (\<forall>t. has_type e t \<longrightarrow> check_types (raw e) = Inr e \<and> dsl_type e = t)"
  using check_types_typed check_typed check_raw has_type_dsl_type by blast

lemma documented_example_rejected:
  "parse_constraint ([CHR 0x22] @ ''broker'' @ [CHR 0x22] @ '' in config[roles]'') = Inl DSLTypeError"
  by code_simp

theorem check_types_implements_typing_witness:
  "let e = CompareExpr GeOp (LenExpr (UnitsExpr SelfExpr)) (ArithExpr SubOp (IntLit 4) (IntLit 1)) in
     has_type e TY_BOOL \<and> check_types (raw e) = Inr e"
proof -
  let ?e = "CompareExpr GeOp (LenExpr (UnitsExpr SelfExpr)) (ArithExpr SubOp (IntLit 4) (IntLit 1))"
  have "has_type ?e TY_BOOL" by (intro ty_less ty_len_unit ty_units ty_self ty_arith ty_int) simp
  with check_types_implements_typing [of ?e] show ?thesis by (simp add: Let_def)
qed

text \<open>
  C25. Round trip: a well-typed tree whose literals and names can be written in the language is
  read back from its text, operators in parentheses and tokens separated by single spaces, as
  exactly that tree.
\<close>

theorem constraint_roundtrip:
  assumes "has_type e t" and "printable (raw e)"
  shows "parse_constraint (render (show_expr (raw e))) = Inr e"
  using parse_render [OF assms(2)] check_raw [OF assms(1)] by (auto simp: parse_constraint_def)

theorem constraint_roundtrip_witness:
  "parse_constraint ''( endpoint [ db ] - endpoint [ cache ] ) '' =
     Inr (SetOpExpr TY_RELATION_SET DiffOp (EndpointExpr ''db'') (EndpointExpr ''cache''))"
proof -
  let ?e = "SetOpExpr TY_RELATION_SET DiffOp (EndpointExpr ''db'') (EndpointExpr ''cache'')"
  have "has_type ?e TY_RELATION_SET" by (intro ty_set_op ty_endpoint) (simp add: is_set_type_def)
  moreover have "printable (raw ?e)" by (simp add: ident_ok_def is_ident_start_def is_ident_char_def)
  moreover have "render (show_expr (raw ?e)) = ''( endpoint [ db ] - endpoint [ cache ] ) ''" by code_simp
  ultimately show ?thesis using constraint_roundtrip [of ?e TY_RELATION_SET] by simp
qed

text \<open>
  On integers the operators for union and intersection silently mean subtraction: whatever
  set operator stands between two operands of type Int, the checker returns the same
  subtraction node.
\<close>

theorem int_set_operators_subtract:
  assumes "check_types l = Inr l'" and "check_types r = Inr r'" and "dsl_type l' = TY_INT" and "dsl_type r' = TY_INT"
  shows "check_types (SetOpExpr ty op l r) = Inr (ArithExpr SubOp l' r')"
  using assms by (simp add: check_set_op_def)

theorem int_set_operators_subtract_witness:
  "check_types (SetOpExpr TY_PENDING UnionOp (IntLit 1) (IntLit 2)) = Inr (ArithExpr SubOp (IntLit 1) (IntLit 2))
   \<and> parse_constraint ''(1 | 2) == 3'' = Inr (CompareExpr EqOp (ArithExpr SubOp (IntLit 1) (IntLit 2)) (IntLit 3))"
proof
  show "check_types (SetOpExpr TY_PENDING UnionOp (IntLit 1) (IntLit 2)) = Inr (ArithExpr SubOp (IntLit 1) (IntLit 2))"
    by (rule int_set_operators_subtract) simp_all
  show "parse_constraint ''(1 | 2) == 3'' = Inr (CompareExpr EqOp (ArithExpr SubOp (IntLit 1) (IntLit 2)) (IntLit 3))"
    by code_simp
qed

text \<open>
  Integer tokens are never negative: the sign of the integer pattern cannot match, because
  the minus pattern comes first. So a literal set with a negative number is a syntax error.
\<close>

theorem int_tokens_unsigned:
  "(case tokenize s of
      Inr toks \<Rightarrow> filter (\<lambda>t. tok_kind t = TK_INT \<and> \<not> list_all is_digit (tok_value t)) toks = []
    | Inl _ \<Rightarrow> True)
   \<and> (case parse_constraint ''{-1}'' of Inl (DSLSyntaxError _) \<Rightarrow> True | _ \<Rightarrow> False)"
proof
  show "case tokenize s of
      Inr toks \<Rightarrow> filter (\<lambda>t. tok_kind t = TK_INT \<and> \<not> list_all is_digit (tok_value t)) toks = []
    | Inl _ \<Rightarrow> True"
    using tokenize_from_ints [of 0 s] by (cases "tokenize s") (auto simp: tokenize_def filter_empty_conv)
  show "case parse_constraint ''{-1}'' of Inl (DSLSyntaxError _) \<Rightarrow> True | _ \<Rightarrow> False" by code_simp
qed

end
