(* ===== verification/Resource_Registry.thy ===== *)
theory Resource_Registry
  imports Prelude
begin

text \<open>
  The resource registry (\<^verbatim>\<open>resource_registry/registry.py\<close> and \<^verbatim>\<open>path.py\<close>): which resources
  a session created, which of them live inside which, and how they are torn down. The log
  collectors and the destroyers are code the registry is handed; they are identified by number
  and what they do is an argument \<open>env\<close>: whether a collector supports a handle, and what a call
  raises, which may depend on the calls made before (the trace). They do not call the registry
  back, as none of those the repository registers does. Creation times are not modelled: no
  operation reads them.
\<close>

section \<open>State\<close>

record ResourceHandle =
  resource_id :: py_str
  resource_type :: py_str

text \<open>
  What a callback raises: an \<open>Exception\<close>, which the teardown catches, or another
  \<open>BaseException\<close> such as \<open>KeyboardInterrupt\<close>, which passes through; each with a tag.
\<close>

datatype callback_exc = CaughtExc nat | AbortExc nat

record ResourceEntry =
  handle :: ResourceHandle
  destroyer :: "nat option"
  parent_id :: "py_str option"
  collectors :: "nat list"
  logs_collected :: bool
  destroyed :: bool

text \<open>The calls the registry makes, in order, and the warnings it issues.\<close>

datatype event = CollectCall nat py_str | DestroyCall py_str | TeardownWarning py_str callback_exc

record registry =
  global_collectors :: "nat list"
  entries :: "(py_str, ResourceEntry) dict"
  children :: "(py_str, py_str list) dict"
  trace :: "event list"

record callbacks =
  supports :: "nat \<Rightarrow> ResourceHandle \<Rightarrow> bool"
  collect_raises :: "nat \<Rightarrow> ResourceHandle \<Rightarrow> event list \<Rightarrow> callback_exc option"
  destroy_raises :: "nat \<Rightarrow> event list \<Rightarrow> callback_exc option"

text \<open>A raised exception and its \<open>__cause__\<close>.\<close>

type_synonym raised = "callback_exc \<times> callback_exc option"

datatype registry_error = AlreadyRegistered | ParentNotRegistered

section \<open>Registering and deregistering\<close>

definition register :: "ResourceHandle \<Rightarrow> nat option \<Rightarrow> nat list option \<Rightarrow> ResourceHandle option \<Rightarrow> registry
    \<Rightarrow> registry_error + registry" where
  "register h d cs parent reg =
     (if dict_get (entries reg) (resource_id h) \<noteq> None then Inl AlreadyRegistered
      else
        let pid = map_option resource_id parent in
        if pid \<noteq> None \<and> dict_get (entries reg) (the pid) = None then Inl ParentNotRegistered
        else
          let entry = \<lparr>handle = h, destroyer = d, parent_id = pid,
                 collectors = (case cs of None \<Rightarrow> [] | Some l \<Rightarrow> l), logs_collected = False, destroyed = False\<rparr>;
              reg' = reg\<lparr>entries := dict_set (resource_id h) entry (entries reg)\<rparr>
          in Inr (case pid of None \<Rightarrow> reg'
                  | Some p \<Rightarrow> reg'\<lparr>children := dict_append p (resource_id h) (children reg')\<rparr>))"

fun orphan_children :: "py_str list \<Rightarrow> (py_str, ResourceEntry) dict \<Rightarrow> (py_str, ResourceEntry) dict" where
  "orphan_children [] es = es"
| "orphan_children (c # cs) es =
     orphan_children cs (case dict_get es c of
        None \<Rightarrow> es | Some e \<Rightarrow> dict_set c (e\<lparr>parent_id := None\<rparr>) es)"

definition drop_sibling :: "py_str \<Rightarrow> py_str \<Rightarrow> (py_str, py_str list) dict \<Rightarrow> (py_str, py_str list) dict" where
  "drop_sibling p i ch =
     (case dict_get ch p of
        None \<Rightarrow> ch
      | Some siblings \<Rightarrow>
          let rest = filter (\<lambda>c. c \<noteq> i) siblings
          in if rest = [] then dict_del p ch else dict_set p rest ch)"

definition deregister :: "ResourceHandle \<Rightarrow> registry \<Rightarrow> registry" where
  "deregister h reg =
     (let i = resource_id h in
      case dict_get (entries reg) i of
        None \<Rightarrow> reg
      | Some entry \<Rightarrow>
          let orphans = dict_get_default (children reg) i [];
              es = orphan_children orphans (dict_del i (entries reg));
              ch = dict_del i (children reg)
          in reg\<lparr>entries := es,
                 children := (case parent_id entry of None \<Rightarrow> ch | Some p \<Rightarrow> drop_sibling p i ch)\<rparr>)"

section \<open>Collecting logs\<close>

fun run_collectors :: "callbacks \<Rightarrow> ResourceHandle \<Rightarrow> nat list \<Rightarrow> event list \<Rightarrow> callback_exc option \<times> event list" where
  "run_collectors env h [] tr = (None, tr)"
| "run_collectors env h (c # cs) tr =
     (case collect_raises env c h tr of
        Some x \<Rightarrow> (Some x, tr @ [CollectCall c (resource_id h)])
      | None \<Rightarrow> run_collectors env h cs (tr @ [CollectCall c (resource_id h)]))"

definition collect_logs :: "callbacks \<Rightarrow> ResourceHandle \<Rightarrow> registry \<Rightarrow> callback_exc option \<times> registry" where
  "collect_logs env h reg =
     (case dict_get (entries reg) (resource_id h) of
        None \<Rightarrow> (None, reg)
      | Some entry \<Rightarrow>
          let cs = filter (\<lambda>c. supports env c h) (collectors entry)
                   @ filter (\<lambda>c. supports env c h) (global_collectors reg);
              (x, tr) = run_collectors env h cs (trace reg);
              reg' = reg\<lparr>trace := tr\<rparr>
          in case x of
               Some e \<Rightarrow> (Some e, reg')
             | None \<Rightarrow> (None, reg'\<lparr>entries := dict_set (resource_id h) (entry\<lparr>logs_collected := True\<rparr>) (entries reg')\<rparr>))"

section \<open>Teardown\<close>

text \<open>Running the destroyer of an entry that has one and is not destroyed yet.\<close>

definition destroy_entry :: "callbacks \<Rightarrow> ResourceEntry \<Rightarrow> py_str \<Rightarrow> registry \<Rightarrow> callback_exc option \<times> registry" where
  "destroy_entry env entry i reg =
     (if destroyed entry then (None, reg)
      else case destroyer entry of
        None \<Rightarrow> (None, reg)
      | Some d \<Rightarrow>
          let reg' = reg\<lparr>trace := trace reg @ [DestroyCall i]\<rparr>
          in case destroy_raises env d (trace reg) of
               Some e \<Rightarrow> (Some e, reg')
             | None \<Rightarrow> (None, reg'\<lparr>entries := (case dict_get (entries reg') i of
                   None \<Rightarrow> entries reg'
                 | Some e \<Rightarrow> dict_set i (e\<lparr>destroyed := True\<rparr>) (entries reg'))\<rparr>))"

text \<open>
  What \<open>teardown\<close> does with the resource itself, once its children are gone. An \<open>Exception\<close>
  of the log collection is kept until the destroyer has run; other exceptions pass at once.
\<close>

definition teardown_self :: "callbacks \<Rightarrow> ResourceEntry \<Rightarrow> ResourceHandle \<Rightarrow> registry \<Rightarrow> raised option \<times> registry" where
  "teardown_self env entry h reg =
     (let (log_exc, reg1) = (if logs_collected entry then (None, reg) else collect_logs env h reg) in
      case log_exc of
        Some (AbortExc a) \<Rightarrow> (Some (AbortExc a, None), reg1)
      | _ \<Rightarrow>
          let (destroy_exc, reg2) = destroy_entry env entry (resource_id h) reg1 in
          case destroy_exc of
            Some (AbortExc a) \<Rightarrow> (Some (AbortExc a, None), reg2)
          | Some d \<Rightarrow> (Some (d, log_exc), deregister h reg2)
          | None \<Rightarrow> (map_option (\<lambda>x. (x, None)) log_exc, deregister h reg2))"

text \<open>
  The loop over the children, with the teardown of one child as an argument. The first exception
  ends it. \<open>None\<close> stands for a recursion that has not ended within its fuel.
\<close>

fun teardown_children :: "(ResourceHandle \<Rightarrow> registry \<Rightarrow> (raised option \<times> registry) option)
    \<Rightarrow> py_str list \<Rightarrow> registry \<Rightarrow> (raised option \<times> registry) option" where
  "teardown_children td [] reg = Some (None, reg)"
| "teardown_children td (c # cs) reg =
     (case dict_get (entries reg) c of
        None \<Rightarrow> teardown_children td cs reg
      | Some child_entry \<Rightarrow>
          (case td (handle child_entry) reg of
             None \<Rightarrow> None
           | Some (Some x, reg') \<Rightarrow> Some (Some x, reg')
           | Some (None, reg') \<Rightarrow> teardown_children td cs reg'))"

fun teardown_at :: "callbacks \<Rightarrow> nat \<Rightarrow> ResourceHandle \<Rightarrow> registry \<Rightarrow> (raised option \<times> registry) option" where
  "teardown_at env 0 h reg = None"
| "teardown_at env (Suc n) h reg =
     (case dict_get (entries reg) (resource_id h) of
        None \<Rightarrow> Some (None, reg)
      | Some entry \<Rightarrow>
          (case teardown_children (teardown_at env n) (dict_get_default (children reg) (resource_id h) []) reg of
             None \<Rightarrow> None
           | Some (Some x, reg') \<Rightarrow> Some (Some x, reg')
           | Some (None, reg') \<Rightarrow> Some (teardown_self env entry h reg')))"

text \<open>Chains of parents are no longer than the number of entries, so this fuel is enough.\<close>

definition teardown :: "callbacks \<Rightarrow> ResourceHandle \<Rightarrow> registry \<Rightarrow> (raised option \<times> registry) option" where
  "teardown env h reg = teardown_at env (Suc (length (entries reg))) h reg"

fun teardown_roots :: "callbacks \<Rightarrow> py_str list \<Rightarrow> registry \<Rightarrow> (raised option \<times> registry) option" where
  "teardown_roots env [] reg = Some (None, reg)"
| "teardown_roots env (i # is) reg =
     (case dict_get (entries reg) i of
        None \<Rightarrow> teardown_roots env is reg
      | Some entry \<Rightarrow>
          (case teardown env (handle entry) reg of
             None \<Rightarrow> None
           | Some (None, reg') \<Rightarrow> teardown_roots env is reg'
           | Some (Some (CaughtExc x, _), reg') \<Rightarrow>
               teardown_roots env is (reg'\<lparr>trace := trace reg' @ [TeardownWarning i (CaughtExc x)]\<rparr>)
           | Some (Some x, reg') \<Rightarrow> Some (Some x, reg')))"

definition root_ids :: "registry \<Rightarrow> py_str list" where
  "root_ids reg = map fst (filter (\<lambda>(i, e). parent_id e = None) (entries reg))"

definition teardown_all :: "callbacks \<Rightarrow> registry \<Rightarrow> (raised option \<times> registry) option" where
  "teardown_all env reg = teardown_roots env (rev (root_ids reg)) reg"

section \<open>Queries\<close>

definition registered_handles :: "registry \<Rightarrow> ResourceHandle list" where
  "registered_handles reg = map (handle \<circ> snd) (entries reg)"

definition children_of :: "ResourceHandle \<Rightarrow> registry \<Rightarrow> ResourceHandle list" where
  "children_of h reg = List.map_filter (\<lambda>c. map_option handle (dict_get (entries reg) c))
     (dict_get_default (children reg) (resource_id h) [])"

definition is_registered :: "ResourceHandle \<Rightarrow> registry \<Rightarrow> bool" where
  "is_registered h reg = (dict_get (entries reg) (resource_id h) \<noteq> None)"

definition empty_registry :: "nat list \<Rightarrow> registry" where
  "empty_registry gs = \<lparr>global_collectors = gs, entries = [], children = [], trace = []\<rparr>"

text \<open>\<^verbatim>\<open>path.py\<close>: characters other than ASCII letters, digits, underscore and dash become dashes.\<close>

definition safe_path_char :: "char \<Rightarrow> bool" where
  "safe_path_char c = (c \<in> set ''abcdefghijklmnopqrstuvwxyzABCDEFGHIJKLMNOPQRSTUVWXYZ0123456789_-'')"

definition sanitize_path_segment :: "py_str \<Rightarrow> py_str" where
  "sanitize_path_segment s = map (\<lambda>c. if safe_path_char c then c else CHR ''-'') s"

end
