(* ===== verification/Resource_Registry_Correct.thy ===== *)
theory Resource_Registry_Correct
  imports Resource_Registry
begin

text \<open>
  The registry keeps a forest: every parent is registered before its children, the children
  lists hold exactly the children in registration order, and every operation keeps this so.
  Teardown ends, removes whole subtrees bottom-up and runs every destroyer at most once.
\<close>

section \<open>The invariant\<close>

definition links :: "(py_str, ResourceEntry) dict \<Rightarrow> (py_str \<times> py_str option) list" where
  "links es = map (\<lambda>(k, e). (k, parent_id e)) es"

fun parents_first :: "py_str set \<Rightarrow> (py_str \<times> py_str option) list \<Rightarrow> bool" where
  "parents_first S [] = True"
| "parents_first S ((k, q) # ls) = ((case q of None \<Rightarrow> True | Some p \<Rightarrow> p \<in> S) \<and> parents_first (insert k S) ls)"

definition kids :: "py_str \<Rightarrow> (py_str \<times> py_str option) list \<Rightarrow> py_str list" where
  "kids p ls = map fst (filter (\<lambda>(k, q). q = Some p) ls)"

definition reg_wf :: "registry \<Rightarrow> bool" where
  "reg_wf reg \<longleftrightarrow> dict_ok (entries reg) \<and> dict_ok (children reg)
     \<and> (\<forall>(k, e) \<in> set (entries reg). resource_id (handle e) = k)
     \<and> parents_first {} (links (entries reg))
     \<and> (\<forall>p. dict_get_default (children reg) p [] = kids p (links (entries reg)))
     \<and> (\<forall>(p, cs) \<in> set (children reg). cs \<noteq> [])"

lemma map_fst_links [simp]: "map fst (links es) = map fst es"
  by (simp add: links_def comp_def case_prod_unfold)

lemma links_append [simp]: "links (xs @ ys) = links xs @ links ys"
  by (simp add: links_def)

lemma kids_append [simp]: "kids p (xs @ ys) = kids p xs @ kids p ys"
  by (simp add: kids_def)

lemma parents_first_append:
  "parents_first S (xs @ ys) \<longleftrightarrow> parents_first S xs \<and> parents_first (S \<union> fst ` set xs) ys"
  by (induction xs arbitrary: S) (auto simp: insert_commute)

lemma parents_first_parent:
  "parents_first S ls \<Longrightarrow> (k, Some p) \<in> set ls \<Longrightarrow> p \<in> S \<or> p \<in> fst ` set ls"
proof (induction ls arbitrary: S)
  case (Cons a ls)
  show ?case
  proof (cases "a = (k, Some p)")
    case True
    with Cons.prems show ?thesis by simp
  next
    case False
    obtain j q where a: "a = (j, q)" by fastforce
    have "(k, Some p) \<in> set ls" and "parents_first (insert j S) ls" using Cons.prems a False by auto
    then have "p \<in> insert j S \<or> p \<in> fst ` set ls" by (intro Cons.IH)
    then show ?thesis using a by auto
  qed
qed simp

lemma dict_set_fresh: "dict_get d k = None \<Longrightarrow> dict_set k v d = d @ [(k, v)]"
  by (induction d) (auto split: if_splits)

lemma dict_set_present:
  "dict_ok d \<Longrightarrow> dict_get d k = Some w \<Longrightarrow> dict_set k v d = map (\<lambda>(j, x). (j, if j = k then v else x)) d"
proof (induction d)
  case (Cons a d)
  obtain j x where a: "a = (j, x)" by fastforce
  show ?case
  proof (cases "j = k")
    case True
    then have "k \<notin> fst ` set d" using Cons.prems a by (auto simp: dict_ok_def)
    then show ?thesis using True a by (force intro!: map_idI [symmetric])
  next
    case False
    then show ?thesis using Cons a by (simp add: dict_ok_def)
  qed
qed simp

lemma links_set_flag:
  assumes "dict_ok es" and "dict_get es k = Some e" and "parent_id e' = parent_id e"
  shows "links (dict_set k e' es) = links es"
proof -
  have "parent_id b = parent_id e" if "(k, b) \<in> set es" for b
    using that assms dict_mem_get [OF assms(1), of k b] by simp
  then show ?thesis using assms by (auto simp: dict_set_present links_def)
qed

text \<open>Changing the flags of an entry is invisible to the invariant.\<close>

lemma reg_wf_set_flag:
  assumes wf: "reg_wf reg" and e: "dict_get (entries reg) k = Some e"
    and same: "parent_id e' = parent_id e" "handle e' = handle e"
  shows "reg_wf (reg\<lparr>entries := dict_set k e' (entries reg)\<rparr>)"
proof -
  have ok: "dict_ok (entries reg)" using wf by (simp add: reg_wf_def)
  have "resource_id (handle x) = j" if "(j, x) \<in> set (dict_set k e' (entries reg))" for j x
    using that wf same e dict_mem_get [OF ok, of k e]
    by (auto simp: dict_set_present [OF ok e] reg_wf_def split: if_splits)
  then show ?thesis using wf links_set_flag [OF ok e same(1)] by (auto simp: reg_wf_def)
qed

lemma reg_wf_trace [simp]: "reg_wf (reg\<lparr>trace := t\<rparr>) = reg_wf reg"
  by (simp add: reg_wf_def)

lemma reg_wf_empty [simp]: "reg_wf (empty_registry gs)"
  by (simp add: reg_wf_def empty_registry_def links_def kids_def dict_get_default_def)

section \<open>Registering\<close>

lemma dict_append_get:
  "dict_get (dict_append k x d) j = (if j = k then Some (dict_get_default d k [] @ [x]) else dict_get d j)"
  by (simp add: dict_append_def dict_get_set)

lemma parents_first_registered:
  assumes "parents_first {} ls" and "p \<notin> fst ` set ls" shows "kids p ls = []"
proof -
  have "(k, Some p) \<notin> set ls" for k using parents_first_parent [OF assms(1)] assms(2) by blast
  then show ?thesis by (auto simp: kids_def filter_empty_conv)
qed

lemma register_wf:
  assumes wf: "reg_wf reg" and r: "register h d cs parent reg = Inr reg'"
  shows "reg_wf reg'"
proof -
  let ?i = "resource_id h"
  let ?pid = "map_option resource_id parent"
  let ?e = "\<lparr>handle = h, destroyer = d, parent_id = ?pid, collectors = (case cs of None \<Rightarrow> [] | Some l \<Rightarrow> l),
     logs_collected = False, destroyed = False\<rparr>"
  have new: "dict_get (entries reg) ?i = None"
    and par: "?pid = None \<or> dict_get (entries reg) (the ?pid) \<noteq> None"
    using r by (auto simp: register_def Let_def split: if_splits)
  have es: "entries reg' = entries reg @ [(?i, ?e)]"
    and ch: "children reg' = (case ?pid of None \<Rightarrow> children reg | Some p \<Rightarrow> dict_append p ?i (children reg))"
    using r new par by (auto simp: register_def Let_def dict_set_fresh split: if_splits option.splits)
  have ks: "?i \<notin> fst ` set (entries reg)" using new by (simp add: map_of_eq_None_iff)
  have l: "links (entries reg') = links (entries reg) @ [(?i, ?pid)]" by (simp add: es links_def)
  have lk: "fst ` set (links (entries reg)) = fst ` set (entries reg)" by (metis map_fst_links set_map)
  have "parents_first {} (links (entries reg'))"
    using wf par by (auto simp: l lk parents_first_append reg_wf_def dest!: map_of_SomeD intro: rev_image_eqI split: option.splits)
  moreover have "dict_get_default (children reg') p [] = kids p (links (entries reg'))" for p
  proof (cases ?pid)
    case None
    then show ?thesis using wf by (simp add: ch l reg_wf_def) (simp add: kids_def)
  next
    case (Some q)
    then show ?thesis using wf by (auto simp: ch l reg_wf_def dict_get_append) (simp_all add: kids_def)
  qed
  moreover have "dict_ok (entries reg')" using wf ks by (simp add: es reg_wf_def dict_ok_def)
  moreover have cok: "dict_ok (children reg')" using wf by (auto simp: ch reg_wf_def dict_append_def split: option.splits)
  moreover have "c \<noteq> []" if "(p, c) \<in> set (children reg')" for p c
  proof -
    have "dict_get (children reg') p = Some c" using that cok by (simp add: dict_mem_get)
    then show ?thesis using wf
      by (auto simp: ch reg_wf_def dict_append_get dest!: map_of_SomeD split: option.splits if_splits)
  qed
  moreover have "\<forall>(k, e) \<in> set (entries reg'). resource_id (handle e) = k" using wf by (auto simp: es reg_wf_def)
  ultimately show ?thesis unfolding reg_wf_def by blast
qed

section \<open>Deregistering\<close>

definition unlink :: "py_str \<Rightarrow> (py_str \<times> py_str option) list \<Rightarrow> (py_str \<times> py_str option) list" where
  "unlink i ls = map (\<lambda>(k, q). (k, if q = Some i then None else q)) (filter (\<lambda>(k, q). k \<noteq> i) ls)"

lemma orphan_children_map:
  "dict_ok es \<Longrightarrow> orphan_children cs es = map (\<lambda>(k, e). (k, if k \<in> set cs then e\<lparr>parent_id := None\<rparr> else e)) es"
proof (induction cs arbitrary: es)
  case (Cons c cs)
  show ?case
  proof (cases "dict_get es c")
    case None
    then have "c \<notin> fst ` set es" by (simp add: map_of_eq_None_iff)
    then show ?thesis using Cons None by (force intro!: map_cong)
  next
    case (Some e)
    have "b = e" if "(c, b) \<in> set es" for b using that Some dict_mem_get [OF Cons.prems] by simp
    then have eq: "dict_set c (e\<lparr>parent_id := None\<rparr>) es = map (\<lambda>(k, x). (k, if k = c then x\<lparr>parent_id := None\<rparr> else x)) es"
      using dict_set_present [OF Cons.prems Some] by (auto intro!: map_cong)
    have "orphan_children (c # cs) es = map (\<lambda>(k, x). (k, if k \<in> set cs then x\<lparr>parent_id := None\<rparr> else x))
        (dict_set c (e\<lparr>parent_id := None\<rparr>) es)"
      using Cons.IH [OF dict_ok_set [OF Cons.prems]] Some by simp
    then show ?thesis unfolding eq by (auto intro!: map_cong)
  qed
qed simp

lemma dict_del_filter: "dict_del i d = filter (\<lambda>(k, e). k \<noteq> i) d"
  by (induction d) auto

lemma in_kids: "k \<in> set (kids p ls) \<longleftrightarrow> (k, Some p) \<in> set ls"
  by (force simp: kids_def)

lemma in_links: "(k, q) \<in> set (links es) \<longleftrightarrow> (\<exists>e. (k, e) \<in> set es \<and> parent_id e = q)"
  by (auto simp: links_def)

lemma deregister_entries:
  assumes wf: "reg_wf reg" and e: "dict_get (entries reg) (resource_id h) = Some e"
  shows "entries (deregister h reg) =
     map (\<lambda>(k, x). (k, if parent_id x = Some (resource_id h) then x\<lparr>parent_id := None\<rparr> else x))
       (filter (\<lambda>(k, x). k \<noteq> resource_id h) (entries reg))"
proof -
  have ok: "dict_ok (entries reg)" using wf by (simp add: reg_wf_def)
  have "k \<in> set (dict_get_default (children reg) p []) \<longleftrightarrow> parent_id x = Some p" if "(k, x) \<in> set (entries reg)" for k x p
    using that wf dict_mem_get [OF ok] by (auto simp: reg_wf_def in_kids in_links)
  then show ?thesis using e dict_ok_del [OF ok, of "resource_id h"]
    by (auto simp: deregister_def Let_def orphan_children_map dict_del_filter intro!: map_cong)
qed

lemma links_unlink:
  "links (map (\<lambda>(k, x). (k, if parent_id x = Some i then x\<lparr>parent_id := None\<rparr> else x)) (filter (\<lambda>(k, x). k \<noteq> i) es))
     = unlink i (links es)"
  by (induction es) (auto simp: links_def unlink_def)

lemma parents_first_unlink: "parents_first S ls \<Longrightarrow> parents_first (S - {i}) (unlink i ls)"
proof (induction ls arbitrary: S)
  case (Cons a ls)
  obtain k q where a: "a = (k, q)" by fastforce
  have "parents_first (insert k S - {i}) (unlink i ls)" using Cons a by simp
  then show ?case using Cons.prems a by (cases "k = i") (auto simp: unlink_def insert_Diff_if split: option.splits)
qed (simp add: unlink_def)

lemma kids_unlink: "kids p (unlink i ls) = (if p = i then [] else filter (\<lambda>k. k \<noteq> i) (kids p ls))"
  by (induction ls) (auto simp: kids_def unlink_def split: if_splits)

lemma drop_sibling_get:
  "dict_get_default (drop_sibling p i ch) j [] =
     (if j = p then filter (\<lambda>c. c \<noteq> i) (dict_get_default ch j []) else dict_get_default ch j [])"
  by (auto simp: drop_sibling_def dict_get_default_def Let_def dict_simps split: option.splits)

lemma drop_sibling_ok: "dict_ok ch \<Longrightarrow> dict_ok (drop_sibling p i ch)"
  by (auto simp: drop_sibling_def Let_def split: option.splits)

lemma drop_sibling_nonempty:
  assumes "dict_ok ch" and "\<forall>(q, cs) \<in> set ch. cs \<noteq> []"
  shows "\<forall>(q, cs) \<in> set (drop_sibling p i ch). cs \<noteq> []"
proof -
  have "cs \<noteq> []" if "dict_get (drop_sibling p i ch) q = Some cs" for q cs
    using that assms(2) by (auto simp: drop_sibling_def Let_def dict_simps dest!: map_of_SomeD split: option.splits if_splits)
  then show ?thesis using dict_mem_get [OF drop_sibling_ok [OF assms(1), of p i]] by blast
qed

lemma deregister_children:
  assumes wf: "reg_wf reg" and e: "dict_get (entries reg) (resource_id h) = Some e"
  shows "dict_get_default (children (deregister h reg)) p [] = kids p (unlink (resource_id h) (links (entries reg)))"
    and "dict_ok (children (deregister h reg))" and "\<forall>(p, cs) \<in> set (children (deregister h reg)). cs \<noteq> []"
proof -
  let ?i = "resource_id h"
  have ok: "dict_ok (entries reg)" and ck: "dict_ok (children reg)" using wf by (simp_all add: reg_wf_def)
  have ch: "children (deregister h reg) = (case parent_id e of None \<Rightarrow> dict_del ?i (children reg)
      | Some q \<Rightarrow> drop_sibling q ?i (dict_del ?i (children reg)))"
    using e by (simp add: deregister_def Let_def)
  have del: "dict_get_default (dict_del ?i (children reg)) p [] = (if p = ?i then [] else kids p (links (entries reg)))" for p
    using wf by (auto simp: dict_get_default_def dict_simps reg_wf_def)
  have "?i \<in> set (kids q (links (entries reg))) \<longleftrightarrow> parent_id e = Some q" for q
    using e dict_mem_get [OF ok] by (auto simp: in_kids in_links)
  then have same: "parent_id e \<noteq> Some q \<Longrightarrow> filter (\<lambda>k. k \<noteq> ?i) (kids q (links (entries reg))) = kids q (links (entries reg))" for q
    by (auto simp: filter_id_conv)
  show "dict_get_default (children (deregister h reg)) p [] = kids p (unlink ?i (links (entries reg)))"
    using same by (auto simp: ch del kids_unlink drop_sibling_get split: option.splits)
  have ne: "\<forall>(p, cs) \<in> set (dict_del ?i (children reg)). cs \<noteq> []"
    using wf by (auto simp: reg_wf_def dict_del_filter)
  show "dict_ok (children (deregister h reg))" and "\<forall>(p, cs) \<in> set (children (deregister h reg)). cs \<noteq> []"
    using ck ne drop_sibling_ok drop_sibling_nonempty [OF dict_ok_del [OF ck] ne] by (auto simp: ch split: option.splits)
qed

lemma deregister_wf:
  assumes wf: "reg_wf reg" shows "reg_wf (deregister h reg)"
proof (cases "dict_get (entries reg) (resource_id h)")
  case None
  with wf show ?thesis by (simp add: deregister_def)
next
  case (Some e)
  note es = deregister_entries [OF wf Some]
  have l: "links (entries (deregister h reg)) = unlink (resource_id h) (links (entries reg))"
    by (simp add: es links_unlink)
  have "dict_ok (entries (deregister h reg))" using wf
    by (auto simp: es reg_wf_def dict_ok_def case_prod_unfold comp_def distinct_map_filter)
  moreover have "\<forall>(k, x) \<in> set (entries (deregister h reg)). resource_id (handle x) = k"
    using wf by (auto simp: es reg_wf_def)
  moreover have "parents_first {} (links (entries (deregister h reg)))"
    using wf parents_first_unlink [of "{}" "links (entries reg)"] by (simp add: l reg_wf_def)
  ultimately show ?thesis using deregister_children [OF wf Some] by (auto simp: reg_wf_def l)
qed

lemma run_collectors_result: "run_collectors env h cs tr = (x, tr') \<Longrightarrow>
    \<exists>evs. tr' = tr @ evs \<and> (\<forall>ev \<in> set evs. \<exists>c. ev = CollectCall c (resource_id h))"
  by (induction cs arbitrary: tr) (fastforce split: option.splits)+

lemma collect_logs_wf: "reg_wf reg \<Longrightarrow> reg_wf (snd (collect_logs env h reg))"
  using reg_wf_set_flag [of "reg\<lparr>trace := t\<rparr>" for t]
  by (auto simp: collect_logs_def Let_def split: option.splits prod.splits)

section \<open>The forest of a registry\<close>

definition parent_rel :: "registry \<Rightarrow> (py_str \<times> py_str) set" where
  "parent_rel reg = {(c, p). \<exists>e. dict_get (entries reg) c = Some e \<and> parent_id e = Some p}"

text \<open>A resource and everything that lives inside it.\<close>

definition subtree :: "registry \<Rightarrow> py_str \<Rightarrow> py_str set" where
  "subtree reg i = {c. (c, i) \<in> (parent_rel reg)\<^sup>*}"

definition rank :: "py_str list \<Rightarrow> py_str \<Rightarrow> nat" where
  "rank ks i = length (dropWhile (\<lambda>k. k \<noteq> i) ks)"

lemma rank_Cons: "rank (k # ks) i = (if k = i then Suc (length ks) else rank ks i)"
  by (simp add: rank_def)

lemma rank_le: "rank ks i \<le> length ks"
  by (simp add: rank_def length_dropWhile_le)

lemma rank_parent:
  "parents_first S ls \<Longrightarrow> distinct (map fst ls) \<Longrightarrow> (c, Some p) \<in> set ls \<Longrightarrow> p \<notin> S
    \<Longrightarrow> rank (map fst ls) c < rank (map fst ls) p"
proof (induction ls arbitrary: S)
  case (Cons a ls)
  obtain k q where a: "a = (k, q)" by fastforce
  have ca: "c \<in> fst ` set ls" if "(c, Some p) \<noteq> a" using that Cons.prems(3) by (force intro: rev_image_eqI)
  show ?case
  proof (cases "(c, Some p) = a")
    case True
    then show ?thesis using Cons.prems a by auto
  next
    case False
    then have ck: "c \<noteq> k" using ca Cons.prems(2) a by auto
    have "rank (map fst ls) c < rank (map fst ls) p" if "p \<noteq> k"
      using that False Cons.prems a by (intro Cons.IH [of "insert k S"]) auto
    then show ?thesis using a ck rank_le [of "map fst ls" c] by (auto simp: rank_Cons)
  qed
qed simp

lemma parent_rel_links: "dict_ok (entries reg) \<Longrightarrow> (c, p) \<in> parent_rel reg \<longleftrightarrow> (c, Some p) \<in> set (links (entries reg))"
  by (auto simp: parent_rel_def in_links dict_mem_get)

lemma parent_rank:
  assumes "reg_wf reg" and "(c, p) \<in> parent_rel reg"
  shows "rank (dict_keys (entries reg)) c < rank (dict_keys (entries reg)) p"
  using assms rank_parent [of "{}" "links (entries reg)" c p]
  by (simp add: reg_wf_def parent_rel_links dict_keys_def dict_ok_def)

lemma ancestor_rank:
  assumes "reg_wf reg" and "(c, p) \<in> (parent_rel reg)\<^sup>+"
  shows "rank (dict_keys (entries reg)) c < rank (dict_keys (entries reg)) p"
  using assms(2) by (induction rule: trancl_induct) (use parent_rank [OF assms(1)] in force)+

lemma forest_acyclic: "reg_wf reg \<Longrightarrow> (c, c) \<notin> (parent_rel reg)\<^sup>+"
  using ancestor_rank by blast

lemma parent_unique: "(c, p) \<in> parent_rel reg \<Longrightarrow> (c, q) \<in> parent_rel reg \<Longrightarrow> p = q"
  by (auto simp: parent_rel_def)

text \<open>The ancestors of a resource form a chain.\<close>

lemma ancestors_chain:
  assumes "(b, x) \<in> (parent_rel reg)\<^sup>*" and "(b, y) \<in> (parent_rel reg)\<^sup>*"
  shows "(x, y) \<in> (parent_rel reg)\<^sup>* \<or> (y, x) \<in> (parent_rel reg)\<^sup>*"
  using assms
proof (induction rule: converse_rtrancl_induct)
  case (step b b')
  from step.prems show ?case
  proof (cases rule: converse_rtranclE)
    case base
    then show ?thesis using step.hyps by (meson converse_rtrancl_into_rtrancl)
  next
    case (step z)
    then show ?thesis using step.IH parent_unique [OF \<open>(b, b') \<in> parent_rel reg\<close>] by blast
  qed
qed simp

text \<open>Different children of one resource share no descendants, and none is inside the other.\<close>

lemma siblings_apart:
  assumes wf: "reg_wf reg" and c: "(c, i) \<in> parent_rel reg" and d: "(d, i) \<in> parent_rel reg" and ne: "c \<noteq> d"
  shows "subtree reg c \<inter> subtree reg d = {}"
    and "a \<in> subtree reg c \<Longrightarrow> b \<in> subtree reg d \<Longrightarrow> (b, a) \<notin> (parent_rel reg)\<^sup>+"
proof -
  have no: "(u, v) \<notin> (parent_rel reg)\<^sup>*" if "u \<noteq> v" "(u, i) \<in> parent_rel reg" "(v, i) \<in> parent_rel reg" for u v
  proof
    assume "(u, v) \<in> (parent_rel reg)\<^sup>*"
    then have "(u, v) \<in> (parent_rel reg)\<^sup>+" using that(1) by (simp add: rtrancl_eq_or_trancl)
    then obtain z where "(u, z) \<in> parent_rel reg" and "(z, v) \<in> (parent_rel reg)\<^sup>*" by (meson tranclD)
    then have "(i, v) \<in> (parent_rel reg)\<^sup>*" using parent_unique that(2) by metis
    then show False using that(3) forest_acyclic [OF wf, of v] by (meson rtrancl_into_trancl2)
  qed
  show apart: "subtree reg c \<inter> subtree reg d = {}"
    using no [OF ne c d] no [OF _ d c] ne ancestors_chain by (fastforce simp: subtree_def)
  assume a: "a \<in> subtree reg c" and b: "b \<in> subtree reg d"
  show "(b, a) \<notin> (parent_rel reg)\<^sup>+"
  proof
    assume "(b, a) \<in> (parent_rel reg)\<^sup>+"
    then have "b \<in> subtree reg c" using a by (auto simp: subtree_def)
    with b apart show False by blast
  qed
qed

lemma subtree_unfold: "subtree reg i = insert i (\<Union>c \<in> {c. (c, i) \<in> parent_rel reg}. subtree reg c)"
  by (auto simp: subtree_def elim: rtranclE intro: rtrancl_into_rtrancl)

section \<open>What a teardown leaves and does\<close>

definition unflag :: "ResourceEntry \<Rightarrow> ResourceEntry" where
  "unflag e = e\<lparr>logs_collected := False\<rparr>"

text \<open>
  \<open>left_of R D reg\<close>: the registry \<open>reg\<close> holds what is left of \<open>R\<close> once the resources in \<open>D\<close>
  are gone, in the same order; only the log flags may differ.
\<close>

definition left_of :: "registry \<Rightarrow> py_str set \<Rightarrow> registry \<Rightarrow> bool" where
  "left_of R D reg \<longleftrightarrow> map (map_prod id unflag) (entries reg) = map (map_prod id unflag) (filter (\<lambda>(k, e). k \<notin> D) (entries R))"

definition below_closed :: "registry \<Rightarrow> py_str set \<Rightarrow> bool" where
  "below_closed R D \<longleftrightarrow> (\<forall>(c, p) \<in> parent_rel R. p \<in> D \<longrightarrow> c \<in> D)"

fun event_id :: "event \<Rightarrow> py_str" where
  "event_id (CollectCall c i) = i"
| "event_id (DestroyCall i) = i"
| "event_id (TeardownWarning i x) = i"

fun destroy_ids :: "event list \<Rightarrow> py_str list" where
  "destroy_ids [] = []"
| "destroy_ids (DestroyCall i # evs) = i # destroy_ids evs"
| "destroy_ids (ev # evs) = destroy_ids evs"

definition destroyable :: "registry \<Rightarrow> py_str set" where
  "destroyable reg = {i. \<exists>e. dict_get (entries reg) i = Some e \<and> destroyer e \<noteq> None \<and> \<not> destroyed e}"

text \<open>
  The calls \<open>evs\<close> of a teardown within \<open>S\<close> that takes the missing resources from \<open>D\<close> to \<open>D'\<close>:
  each destroyer runs at most once, after those of everything inside the resource, and
  everything inside is gone; a resource that goes has had its destroyer called.
\<close>

definition torn :: "registry \<Rightarrow> py_str set \<Rightarrow> py_str set \<Rightarrow> py_str set \<Rightarrow> event list \<Rightarrow> bool" where
  "torn R S D D' evs \<longleftrightarrow> D \<subseteq> D' \<and> D' \<subseteq> D \<union> S \<and> below_closed R D'
     \<and> event_id ` set evs \<subseteq> S \<and> distinct (destroy_ids evs)
     \<and> sorted_wrt (\<lambda>a b. (b, a) \<notin> (parent_rel R)\<^sup>+) (destroy_ids evs)
     \<and> set (destroy_ids evs) \<subseteq> destroyable R \<and> (D' - D) \<inter> destroyable R \<subseteq> set (destroy_ids evs)
     \<and> (\<forall>p \<in> set (destroy_ids evs). \<forall>c. (c, p) \<in> (parent_rel R)\<^sup>+ \<longrightarrow> c \<in> D')"

lemma destroy_ids_append [simp]: "destroy_ids (xs @ ys) = destroy_ids xs @ destroy_ids ys"
  by (induction xs rule: destroy_ids.induct) auto

lemma destroy_ids_event: "i \<in> set (destroy_ids evs) \<Longrightarrow> i \<in> event_id ` set evs"
  by (induction evs rule: destroy_ids.induct) auto

lemma destroy_ids_collect: "\<forall>ev \<in> set evs. \<exists>c. ev = CollectCall c i \<Longrightarrow> destroy_ids evs = []"
  by (induction evs rule: destroy_ids.induct) auto

lemma below_closed_trancl:
  assumes "(c, p) \<in> (parent_rel R)\<^sup>+" and "below_closed R D" and "p \<in> D" shows "c \<in> D"
  using assms by (induction rule: converse_trancl_induct) (auto simp: below_closed_def)

lemma tornD:
  assumes "torn R S D D' evs"
  shows "D \<subseteq> D'" and "D' \<subseteq> D \<union> S" and "below_closed R D'" and "event_id ` set evs \<subseteq> S"
    and "distinct (destroy_ids evs)" and "sorted_wrt (\<lambda>a b. (b, a) \<notin> (parent_rel R)\<^sup>+) (destroy_ids evs)"
    and "set (destroy_ids evs) \<subseteq> destroyable R" and "(D' - D) \<inter> destroyable R \<subseteq> set (destroy_ids evs)"
    and "p \<in> set (destroy_ids evs) \<Longrightarrow> (c, p) \<in> (parent_rel R)\<^sup>+ \<Longrightarrow> c \<in> D'"
    and "set (destroy_ids evs) \<subseteq> S"
proof -
  show "p \<in> set (destroy_ids evs) \<Longrightarrow> (c, p) \<in> (parent_rel R)\<^sup>+ \<Longrightarrow> c \<in> D'" and ids: "event_id ` set evs \<subseteq> S"
    using assms by (simp_all add: torn_def)
  show "set (destroy_ids evs) \<subseteq> S" using ids destroy_ids_event [of _ evs] by blast
qed (use assms in \<open>simp_all add: torn_def\<close>)

lemma torn_refl: "below_closed R D \<Longrightarrow> torn R S D D []"
  by (simp add: torn_def)

lemma torn_mono: "torn R S D D' evs \<Longrightarrow> S \<subseteq> T \<Longrightarrow> torn R T D D' evs"
  unfolding torn_def by (intro conjI; (blast | simp))

text \<open>Two teardowns in a row compose when nothing the second handles is inside what the first handles.\<close>

lemma torn_seq:
  assumes 1: "torn R S D D1 e1" and 2: "torn R T D1 D2 e2" and dis: "S \<inter> T = {}"
    and apart: "\<And>a b. a \<in> S \<Longrightarrow> b \<in> T \<Longrightarrow> (b, a) \<notin> (parent_rel R)\<^sup>+"
  shows "torn R (S \<union> T) D D2 (e1 @ e2)"
proof -
  note t1 = tornD [OF 1] and t2 = tornD [OF 2]
  have "distinct (destroy_ids (e1 @ e2))" using t1(5,10) t2(5,10) dis by auto
  moreover have "sorted_wrt (\<lambda>a b. (b, a) \<notin> (parent_rel R)\<^sup>+) (destroy_ids (e1 @ e2))"
    using t1(6,10) t2(6,10) apart by (simp add: sorted_wrt_append subset_eq)
  moreover have "event_id ` set (e1 @ e2) \<subseteq> S \<union> T" using t1(4) t2(4) by (simp add: image_Un le_supI1 le_supI2)
  moreover have "D \<subseteq> D2" and "D2 \<subseteq> D \<union> (S \<union> T)" using t1(1,2) t2(1,2) by blast+
  moreover have "(D2 - D) \<inter> destroyable R \<subseteq> set (destroy_ids (e1 @ e2))" using t1(8) t2(8) by auto
  moreover have "set (destroy_ids (e1 @ e2)) \<subseteq> destroyable R" using t1(7) t2(7) by simp
  moreover have "c \<in> D2" if "p \<in> set (destroy_ids (e1 @ e2))" and "(c, p) \<in> (parent_rel R)\<^sup>+" for p c
    using that t1(9) t2(1,9) by (auto simp: subset_eq)
  ultimately show ?thesis using t2(3) by (simp add: torn_def)
qed

section \<open>Lookups in what is left\<close>

lemma map_of_unflag: "map_of (map (map_prod id unflag) es) k = map_option unflag (map_of es k)"
  by (induction es) auto

lemma left_of_get:
  assumes "left_of R D reg"
  shows "map_option unflag (dict_get (entries reg) k) = (if k \<in> D then None else map_option unflag (dict_get (entries R) k))"
proof -
  have "map_of (filter (\<lambda>(k, e). k \<notin> D) es) k = (if k \<in> D then None else dict_get es k)" for es :: "(py_str, ResourceEntry) dict"
    by (induction es) auto
  then show ?thesis using assms map_of_unflag [of "entries reg" k] map_of_unflag [of _ k]
    by (auto simp: left_of_def)
qed

lemma links_unflag: "links (map (map_prod id unflag) es) = links es"
  by (simp add: links_def unflag_def comp_def case_prod_unfold map_prod_def)

lemma left_of_links:
  assumes "left_of R D reg" shows "links (entries reg) = filter (\<lambda>(k, q). k \<notin> D) (links (entries R))"
proof -
  have "links (entries reg) = links (map (map_prod id unflag) (filter (\<lambda>(k, e). k \<notin> D) (entries R)))"
    using assms links_unflag [of "entries reg"] by (simp add: left_of_def)
  also have "\<dots> = filter (\<lambda>(k, q). k \<notin> D) (links (entries R))"
    unfolding links_unflag by (simp add: links_def filter_map comp_def case_prod_unfold)
  finally show ?thesis .
qed

lemma left_of_children:
  assumes "left_of R D reg" and "reg_wf reg" and "reg_wf R"
  shows "dict_get_default (children reg) p [] = filter (\<lambda>c. c \<notin> D) (kids p (links (entries R)))"
proof -
  have "kids p (filter (\<lambda>(k, q). k \<notin> D) ls) = filter (\<lambda>c. c \<notin> D) (kids p ls)" for ls
    by (induction ls) (auto simp: kids_def)
  then show ?thesis using assms(2) left_of_links [OF assms(1)] by (simp add: reg_wf_def)
qed

lemma left_of_refl [simp]: "left_of R {} R"
  by (simp add: left_of_def)

section \<open>The teardown of one resource\<close>

lemma unflag_set_logs:
  assumes "dict_ok es" and "dict_get es k = Some e"
  shows "map (map_prod id unflag) (dict_set k (e\<lparr>logs_collected := True\<rparr>) es) = map (map_prod id unflag) es"
proof -
  have "b = e" if "(k, b) \<in> set es" for b using that assms dict_mem_get by fastforce
  then show ?thesis using assms by (auto simp: dict_set_present unflag_def)
qed

lemma collect_logs_left:
  assumes "collect_logs env h reg = (x, reg')" and "reg_wf reg" and "left_of R D reg"
  obtains evs where "reg_wf reg'" and "left_of R D reg'" and "trace reg' = trace reg @ evs"
    and "\<forall>ev \<in> set evs. \<exists>c. ev = CollectCall c (resource_id h)"
proof -
  have "reg_wf reg'" using collect_logs_wf [OF assms(2), of env h] assms(1) by simp
  moreover have "left_of R D reg'"
    using assms unflag_set_logs [of "entries reg"]
    by (auto simp: collect_logs_def Let_def left_of_def reg_wf_def split: option.splits prod.splits)
  moreover have "\<exists>evs. trace reg' = trace reg @ evs \<and> (\<forall>ev \<in> set evs. \<exists>c. ev = CollectCall c (resource_id h))"
  proof (cases "dict_get (entries reg) (resource_id h)")
    case None
    then show ?thesis using assms(1) by (simp add: collect_logs_def)
  next
    case (Some e)
    obtain y tr where r: "run_collectors env h (filter (\<lambda>c. supports env c h) (collectors e)
        @ filter (\<lambda>c. supports env c h) (global_collectors reg)) (trace reg) = (y, tr)" by fastforce
    then have "trace reg' = tr" using assms(1) Some by (auto simp: collect_logs_def Let_def split: option.splits)
    then show ?thesis using run_collectors_result [OF r] by simp
  qed
  ultimately show ?thesis using that by blast
qed

lemma filter_dict_set: "filter (\<lambda>(j, x). j \<noteq> k) (dict_set k v d) = filter (\<lambda>(j, x). j \<noteq> k) d"
  by (induction d) auto

text \<open>Deregistering a resource without registered children takes just its entry away.\<close>

lemma deregister_leaf:
  assumes wf: "reg_wf reg" and e: "dict_get (entries reg) (resource_id h) = Some e"
    and leaf: "kids (resource_id h) (links (entries reg)) = []"
  shows "entries (deregister h reg) = filter (\<lambda>(k, x). k \<noteq> resource_id h) (entries reg)"
proof -
  have "parent_id x \<noteq> Some (resource_id h)" if "(k, x) \<in> set (entries reg)" for k x
    using that leaf in_kids [of k "resource_id h" "links (entries reg)"] by (auto simp: in_links)
  then show ?thesis unfolding deregister_entries [OF wf e] by (auto intro!: map_idI)
qed

lemma destroy_entry_result:
  assumes "destroy_entry env entry i reg = (x, reg')" and "reg_wf reg" and "dict_get (entries reg) i = Some e"
  obtains evs where "reg_wf reg'" and "filter (\<lambda>(k, x). k \<noteq> i) (entries reg') = filter (\<lambda>(k, x). k \<noteq> i) (entries reg)"
    and "links (entries reg') = links (entries reg)" and "\<exists>e'. dict_get (entries reg') i = Some e'"
    and "trace reg' = trace reg @ evs" and "evs = (if destroyer entry \<noteq> None \<and> \<not> destroyed entry then [DestroyCall i] else [])"
    and "x \<noteq> None \<longrightarrow> entries reg' = entries reg"
proof -
  have "reg_wf reg'"
    using assms reg_wf_set_flag [of "reg\<lparr>trace := t\<rparr>" i e for t]
    by (auto simp: destroy_entry_def Let_def split: if_splits option.splits)
  moreover have "links (entries reg') = links (entries reg)"
    using assms links_set_flag [of "entries reg" i e]
    by (auto simp: destroy_entry_def Let_def reg_wf_def split: if_splits option.splits)
  ultimately show ?thesis using assms that
    by (auto simp: destroy_entry_def Let_def filter_dict_set dict_get_set split: if_splits option.splits)
qed

lemma left_of_remove:
  assumes "left_of R D reg" and "entries reg' = filter (\<lambda>(k, x). k \<noteq> i) (entries reg)"
  shows "left_of R (insert i D) reg'"
proof -
  have f: "map (map_prod id unflag) (filter (\<lambda>(k, x). k \<notin> E) es) = filter (\<lambda>(k, x). k \<notin> E) (map (map_prod id unflag) es)"
    for E and es :: "(py_str, ResourceEntry) dict" by (simp add: filter_map comp_def case_prod_unfold)
  have "map (map_prod id unflag) (entries reg') = filter (\<lambda>(k, x). k \<notin> {i}) (map (map_prod id unflag) (entries reg))"
    unfolding assms(2) using f [of "{i}"] by simp
  also have "\<dots> = map (map_prod id unflag) (filter (\<lambda>(k, x). k \<notin> insert i D) (entries R))"
    using assms(1) by (simp add: left_of_def filter_map comp_def case_prod_unfold conj_commute)
  finally show ?thesis by (simp add: left_of_def)
qed

lemma left_of_same_entries: "left_of R D reg \<Longrightarrow> entries reg' = entries reg \<Longrightarrow> left_of R D reg'"
  by (simp add: left_of_def)

lemma left_of_registered:
  assumes "left_of R D reg" and "dict_get (entries R) i = Some e" and "i \<notin> D"
  obtains e' where "dict_get (entries reg) i = Some e'" and "unflag e' = unflag e"
  using left_of_get [OF assms(1), of i] assms(2,3) by auto

definition can_destroy :: "ResourceEntry \<Rightarrow> bool" where
  "can_destroy e \<longleftrightarrow> destroyer e \<noteq> None \<and> \<not> destroyed e"

lemma can_destroy_unflag: "unflag e = unflag e' \<Longrightarrow> can_destroy e = can_destroy e'"
  by (metis ResourceEntry.simps(2,6) ResourceEntry.ext_inject ResourceEntry.surjective ResourceEntry.update_convs(5) can_destroy_def unflag_def)

lemma torn_self:
  assumes closed: "below_closed R D" and kids: "\<And>c. (c, i) \<in> parent_rel R \<Longrightarrow> c \<in> D"
    and e: "dict_get (entries R) i = Some e" and i: "i \<notin> D"
    and logs: "\<forall>ev \<in> set l. \<exists>c. ev = CollectCall c i" and d: "d = (if can_destroy e then [DestroyCall i] else [])"
  shows "torn R {i} D (insert i D) (l @ d)" and "torn R {i} D D l" and "torn R {i} D D (l @ d)"
proof -
  have below: "c \<in> D" if "(c, i) \<in> (parent_rel R)\<^sup>+" for c
    using that
  proof (cases rule: tranclE)
    case base
    then show ?thesis using kids by simp
  next
    case (step b)
    then show ?thesis using below_closed_trancl [OF _ closed kids] by simp
  qed
  have ids: "event_id ` set l \<subseteq> {i}" using logs by auto
  have ds: "destroy_ids l = []" using logs by (rule destroy_ids_collect)
  have dd: "destroy_ids d = (if can_destroy e then [i] else [])" and di: "event_id ` set d \<subseteq> {i}" using d by auto
  have can: "i \<in> destroyable R \<longleftrightarrow> can_destroy e" using e by (auto simp: destroyable_def can_destroy_def)
  have ci: "below_closed R (insert i D)" using closed kids by (auto simp: below_closed_def)
  show "torn R {i} D (insert i D) (l @ d)" and "torn R {i} D D l" and "torn R {i} D D (l @ d)"
    using closed ci ids di can below i by (auto simp: torn_def ds dd image_Un)
qed

lemma teardown_self_result:
  assumes wfR: "reg_wf R" and wf: "reg_wf reg" and left: "left_of R D reg" and closed: "below_closed R D"
    and kids: "\<And>c. (c, resource_id h) \<in> parent_rel R \<Longrightarrow> c \<in> D"
    and e: "dict_get (entries R) (resource_id h) = Some e" and i: "resource_id h \<notin> D"
    and entry: "unflag entry = unflag e" and td: "teardown_self env entry h reg = (x, reg')"
  obtains D' evs where "reg_wf reg'" and "left_of R D' reg'" and "trace reg' = trace reg @ evs"
    and "torn R {resource_id h} D D' evs" and "D' = insert (resource_id h) D \<or> (\<exists>a. x = Some (AbortExc a, None))"
proof -
  let ?i = "resource_id h"
  obtain log_exc reg1 where c: "(if logs_collected entry then (None, reg) else collect_logs env h reg) = (log_exc, reg1)" by fastforce
  obtain l where wf1: "reg_wf reg1" and left1: "left_of R D reg1" and tr1: "trace reg1 = trace reg @ l"
    and l: "\<forall>ev \<in> set l. \<exists>c. ev = CollectCall c ?i"
  proof (cases "logs_collected entry")
    case True
    with c wf left that [of "[]"] show ?thesis by simp
  next
    case False
    with c have "collect_logs env h reg = (log_exc, reg1)" by simp
    from collect_logs_left [OF this wf left] that show ?thesis by blast
  qed
  obtain e1 where e1: "dict_get (entries reg1) ?i = Some e1" using left_of_registered [OF left1 e i] by blast
  have leaf1: "kids ?i (links (entries reg1)) = []"
  proof -
    have "(c, Some ?i) \<notin> set (links (entries reg1))" for c
      using kids left_of_links [OF left1] wfR by (auto simp: parent_rel_links reg_wf_def)
    then show ?thesis by (auto simp: kids_def filter_empty_conv)
  qed
  obtain y reg2 where d: "destroy_entry env entry ?i reg1 = (y, reg2)" by fastforce
  obtain dv where wf2: "reg_wf reg2" and f2: "filter (\<lambda>(k, x). k \<noteq> ?i) (entries reg2) = filter (\<lambda>(k, x). k \<noteq> ?i) (entries reg1)"
    and l2: "links (entries reg2) = links (entries reg1)" and e2: "\<exists>e'. dict_get (entries reg2) ?i = Some e'"
    and tr2: "trace reg2 = trace reg1 @ dv" and dv: "dv = (if destroyer entry \<noteq> None \<and> \<not> destroyed entry then [DestroyCall ?i] else [])"
    and same: "y \<noteq> None \<longrightarrow> entries reg2 = entries reg1"
    by (rule destroy_entry_result [OF d wf1 e1])
  have dv': "dv = (if can_destroy e then [DestroyCall ?i] else [])" using dv can_destroy_unflag [OF entry] by (simp add: can_destroy_def)
  note t = torn_self [OF closed kids e i l dv']
  have left3: "left_of R (insert ?i D) (deregister h reg2)"
    using left_of_remove [OF left1] deregister_leaf [OF wf2] e2 leaf1 l2 f2 by metis
  have tr3: "trace (deregister h reg2) = trace reg2" by (simp add: deregister_def Let_def split: option.splits)
  consider (log) a where "log_exc = Some (AbortExc a)" "x = Some (AbortExc a, None)" "reg' = reg1"
    | (abort) a where "y = Some (AbortExc a)" "x = Some (AbortExc a, None)" "reg' = reg2"
    | (gone) "reg' = deregister h reg2"
    using td c d by (auto simp: teardown_self_def split: option.splits callback_exc.splits)
  then show ?thesis
  proof cases
    case log
    then show ?thesis using that [of D l] wf1 left1 tr1 t(2) by simp
  next
    case abort
    then show ?thesis using that [of D "l @ dv"] wf2 left_of_same_entries [OF left1] same tr1 tr2 t(3) by simp
  next
    case gone
    then show ?thesis using that [of "insert ?i D" "l @ dv"] deregister_wf [OF wf2] left3 tr1 tr2 tr3 t(1) by simp
  qed
qed

section \<open>The recursion\<close>

text \<open>
  What one call of \<open>teardown\<close> does, relative to the registry \<open>R\<close> at the start of the outermost
  call: \<open>S\<close> is the subtree it is for. Unless it raises, all of \<open>S\<close> is gone.
\<close>

definition tears :: "registry \<Rightarrow> py_str set \<Rightarrow> py_str set \<Rightarrow> registry \<Rightarrow> (raised option \<times> registry) option \<Rightarrow> bool" where
  "tears R S D reg r \<longleftrightarrow> (\<exists>x reg' D' evs. r = Some (x, reg') \<and> reg_wf reg' \<and> left_of R D' reg'
     \<and> trace reg' = trace reg @ evs \<and> torn R S D D' evs \<and> (x = None \<longrightarrow> S \<subseteq> D'))"

lemma tearsE:
  assumes "tears R S D reg r"
  obtains x reg' D' evs where "r = Some (x, reg')" and "reg_wf reg'" and "left_of R D' reg'"
    and "trace reg' = trace reg @ evs" and "torn R S D D' evs" and "x = None \<longrightarrow> S \<subseteq> D'"
  using assms unfolding tears_def by blast

lemma tearsI:
  assumes "r = Some (x, reg')" and "reg_wf reg'" and "left_of R D' reg'"
    and "trace reg' = trace reg @ evs" and "torn R S D D' evs" and "x = None \<longrightarrow> S \<subseteq> D'"
  shows "tears R S D reg r"
  using assms unfolding tears_def by blast

lemma teardown_children_result:
  assumes wfR: "reg_wf R"
    and td: "\<And>h e D reg. resource_id h \<in> set cs \<Longrightarrow> dict_get (entries R) (resource_id h) = Some e \<Longrightarrow> reg_wf reg
      \<Longrightarrow> left_of R D reg \<Longrightarrow> below_closed R D \<Longrightarrow> resource_id h \<notin> D \<Longrightarrow> tears R (subtree R (resource_id h)) D reg (td h reg)"
    and "distinct cs" and "set cs \<subseteq> {c. (c, i) \<in> parent_rel R}" and "reg_wf reg" and "left_of R D reg"
    and "below_closed R D" and "set cs \<inter> D = {}"
  shows "tears R (\<Union>c \<in> set cs. subtree R c) D reg (teardown_children td cs reg)"
  using td assms(3-8)
proof (induction cs arbitrary: D reg)
  case Nil
  then show ?case by (intro tearsI [of _ None reg R D _ "[]"]) (simp_all add: torn_refl)
next
  case (Cons c cs)
  obtain e where e: "dict_get (entries R) c = Some e" using Cons.prems(3) by (auto simp: parent_rel_def)
  obtain e' where e': "dict_get (entries reg) c = Some e'" using left_of_registered [OF Cons.prems(5) e] Cons.prems(7) by auto
  have hid: "resource_id (handle e') = c" using Cons.prems(4) e' by (force simp: reg_wf_def dest: map_of_SomeD)
  have "tears R (subtree R c) D reg (td (handle e') reg)"
    using Cons.prems(1) [of "handle e'" e reg D] hid e Cons.prems(4-7) by simp
  then obtain x reg1 D1 evs where r: "td (handle e') reg = Some (x, reg1)" and wf1: "reg_wf reg1" and left1: "left_of R D1 reg1"
    and tr1: "trace reg1 = trace reg @ evs" and t1: "torn R (subtree R c) D D1 evs" and full: "x = None \<longrightarrow> subtree R c \<subseteq> D1"
    by (rule tearsE)
  let ?T = "\<Union>c \<in> set cs. subtree R c"
  show ?case
  proof (cases x)
    case (Some y)
    show ?thesis
    proof (rule tearsI [OF _ wf1 left1 tr1])
      show "teardown_children td (c # cs) reg = Some (Some y, reg1)" using e' r Some by simp
      show "torn R (\<Union>c \<in> set (c # cs). subtree R c) D D1 evs" by (rule torn_mono [OF t1]) auto
    qed simp
  next
    case None
    have sib: "d \<noteq> c" "(c, i) \<in> parent_rel R" "(d, i) \<in> parent_rel R" if "d \<in> set cs" for d
      using that Cons.prems(2,3) by auto
    note apart = siblings_apart [OF wfR sib(2,3) sib(1) [symmetric]]
    have self: "d \<in> subtree R d" for d by (simp add: subtree_def)
    have "set cs \<inter> D1 = {}" using tornD(2) [OF t1] Cons.prems(7) apart(1) self by fastforce
    then have "tears R ?T D1 reg1 (teardown_children td cs reg1)"
      using Cons.prems tornD(3) [OF t1] wf1 left1 by (intro Cons.IH) auto
    then obtain z reg2 D2 evs2 where r2: "teardown_children td cs reg1 = Some (z, reg2)" and wf2: "reg_wf reg2" and left2: "left_of R D2 reg2"
      and tr2: "trace reg2 = trace reg1 @ evs2" and t2: "torn R ?T D1 D2 evs2" and full2: "z = None \<longrightarrow> ?T \<subseteq> D2"
      by (rule tearsE)
    show ?thesis
    proof (rule tearsI [OF _ wf2 left2])
      show "teardown_children td (c # cs) reg = Some (z, reg2)" using e' r None r2 by simp
      show "trace reg2 = trace reg @ (evs @ evs2)" using tr1 tr2 by simp
      have "torn R (subtree R c \<union> ?T) D D2 (evs @ evs2)"
        using apart by (intro torn_seq [OF t1 t2]) blast+
      then show "torn R (\<Union>c \<in> set (c # cs). subtree R c) D D2 (evs @ evs2)" by simp
      show "z = None \<longrightarrow> (\<Union>c \<in> set (c # cs). subtree R c) \<subseteq> D2" using full full2 None tornD(1) [OF t2] by auto
    qed
  qed
qed

lemma below_closed_subtree: "below_closed R D \<Longrightarrow> c \<in> D \<Longrightarrow> subtree R c \<subseteq> D"
  by (auto simp: subtree_def rtrancl_eq_or_trancl dest: below_closed_trancl)

lemma not_inside_child:
  assumes "reg_wf R" and "(c, i) \<in> parent_rel R" and "a \<in> subtree R c"
  shows "(i, a) \<notin> (parent_rel R)\<^sup>*"
proof
  assume "(i, a) \<in> (parent_rel R)\<^sup>*"
  then have "(i, c) \<in> (parent_rel R)\<^sup>*" using assms(3) by (simp add: subtree_def)
  then show False using assms(2) forest_acyclic [OF assms(1)] by (meson rtrancl_into_trancl1)
qed

lemma teardown_at_result:
  assumes wfR: "reg_wf R"
  shows "reg_wf reg \<Longrightarrow> left_of R D reg \<Longrightarrow> below_closed R D \<Longrightarrow> resource_id h \<notin> D \<Longrightarrow>
    dict_get (entries R) (resource_id h) = Some e \<Longrightarrow> rank (dict_keys (entries R)) (resource_id h) \<le> n \<Longrightarrow>
    tears R (subtree R (resource_id h)) D reg (teardown_at env n h reg)"
proof (induction n arbitrary: h e D reg)
  case 0
  have "resource_id h \<in> set (dict_keys (entries R))" using 0 by (simp add: in_dict_keys_iff)
  then have "0 < rank (dict_keys (entries R)) (resource_id h)" by (auto simp: rank_def dropWhile_eq_Nil_conv)
  then show ?case using 0 by simp
next
  case (Suc n)
  let ?i = "resource_id h"
  let ?cs = "filter (\<lambda>c. c \<notin> D) (kids ?i (links (entries R)))"
  have ok: "dict_ok (entries R)" using wfR by (simp add: reg_wf_def)
  have cs: "dict_get_default (children reg) ?i [] = ?cs" by (rule left_of_children [OF Suc.prems(2,1) wfR])
  have mem: "c \<in> set ?cs \<longleftrightarrow> (c, ?i) \<in> parent_rel R \<and> c \<notin> D" for c
    by (auto simp: in_kids parent_rel_links [OF ok])
  have "distinct (kids ?i (links (entries R)))"
    using ok map_fst_links [of "entries R"] by (simp add: kids_def dict_ok_def distinct_map_filter)
  then have "tears R (\<Union>c \<in> set ?cs. subtree R c) D reg (teardown_children (teardown_at env n) ?cs reg)"
    using Suc.prems(1-3) mem Suc.IH parent_rank [OF wfR] Suc.prems(6)
    by (intro teardown_children_result [OF wfR, where i = ?i]) fastforce+
  then obtain x reg1 D1 evs where r: "teardown_children (teardown_at env n) ?cs reg = Some (x, reg1)" and wf1: "reg_wf reg1"
    and left1: "left_of R D1 reg1" and tr1: "trace reg1 = trace reg @ evs" and t1: "torn R (\<Union>c \<in> set ?cs. subtree R c) D D1 evs"
    and full: "x = None \<longrightarrow> (\<Union>c \<in> set ?cs. subtree R c) \<subseteq> D1"
    by (rule tearsE)
  obtain entry where entry: "dict_get (entries reg) ?i = Some entry" "unflag entry = unflag e"
    using left_of_registered [OF Suc.prems(2,5,4)] by blast
  have sub: "(\<Union>c \<in> set ?cs. subtree R c) \<union> {?i} \<subseteq> subtree R ?i" using mem subtree_unfold [of R ?i] by auto
  have apart: "(?i, a) \<notin> (parent_rel R)\<^sup>*" if "a \<in> (\<Union>c \<in> set ?cs. subtree R c)" for a
    using that mem not_inside_child [OF wfR] by blast
  then have noti: "?i \<notin> (\<Union>c \<in> set ?cs. subtree R c)" by blast
  show ?case
  proof (cases x)
    case (Some y)
    show ?thesis
    proof (rule tearsI [OF _ wf1 left1 tr1])
      show "teardown_at env (Suc n) h reg = Some (Some y, reg1)" using entry(1) cs r Some by simp
      show "torn R (subtree R ?i) D D1 evs" using sub by (intro torn_mono [OF t1]) blast
    qed simp
  next
    case None
    have kids: "c \<in> D1" if "(c, ?i) \<in> parent_rel R" for c
      using that mem [of c] full None tornD(1) [OF t1] by (auto simp: subtree_def)
    have i1: "?i \<notin> D1" using tornD(2) [OF t1] noti Suc.prems(4) by blast
    obtain z reg2 where ts: "teardown_self env entry h reg1 = (z, reg2)" by fastforce
    obtain D2 evs2 where wf2: "reg_wf reg2" and left2: "left_of R D2 reg2" and tr2: "trace reg2 = trace reg1 @ evs2"
      and t2: "torn R {?i} D1 D2 evs2" and fin: "D2 = insert ?i D1 \<or> (\<exists>a. z = Some (AbortExc a, None))"
      by (rule teardown_self_result [OF wfR wf1 left1 tornD(3) [OF t1] kids Suc.prems(5) i1 entry(2) ts])
    show ?thesis
    proof (rule tearsI [OF _ wf2 left2])
      show "teardown_at env (Suc n) h reg = Some (z, reg2)" using entry(1) cs r None ts by simp
      show "trace reg2 = trace reg @ (evs @ evs2)" using tr1 tr2 by simp
      have "torn R ((\<Union>c \<in> set ?cs. subtree R c) \<union> {?i}) D D2 (evs @ evs2)"
        using noti apart by (intro torn_seq [OF t1 t2]) (auto dest: trancl_into_rtrancl)
      then show "torn R (subtree R ?i) D D2 (evs @ evs2)" using sub by (rule torn_mono)
      show "z = None \<longrightarrow> subtree R ?i \<subseteq> D2"
        using fin kids below_closed_subtree [OF tornD(3) [OF t1]] subtree_unfold [of R ?i] by auto
    qed
  qed
qed

text \<open>More fuel does not change a result.\<close>

lemma teardown_children_mono:
  assumes "\<And>h reg r. td h reg = Some r \<Longrightarrow> td' h reg = Some r" and "teardown_children td cs reg = Some r"
  shows "teardown_children td' cs reg = Some r"
  using assms(2)
proof (induction cs arbitrary: reg)
  case (Cons c cs)
  then show ?case using assms(1) by (auto split: option.splits prod.splits)
qed simp

lemma teardown_at_Suc: "teardown_at env n h reg = Some r \<Longrightarrow> teardown_at env (Suc n) h reg = Some r"
proof (induction n arbitrary: h reg r)
  case (Suc n)
  have m: "teardown_children (teardown_at env (Suc n)) cs reg = Some q" if "teardown_children (teardown_at env n) cs reg = Some q" for cs q
    using Suc.IH that by (rule teardown_children_mono)
  show ?case
  proof (cases "dict_get (entries reg) (resource_id h)")
    case (Some e)
    obtain q where q: "teardown_children (teardown_at env n) (dict_get_default (children reg) (resource_id h) []) reg = Some q"
      using Suc.prems Some by (auto split: option.splits)
    show ?thesis using Suc.prems Some q m [OF q] by (subst teardown_at.simps) simp
  qed (use Suc.prems in simp)
qed simp

lemma teardown_at_mono: "teardown_at env n h reg = Some r \<Longrightarrow> n \<le> m \<Longrightarrow> teardown_at env m h reg = Some r"
  by (induction m) (auto simp: le_Suc_eq teardown_at_Suc simp del: teardown_at.simps)

lemma teardown_tears:
  assumes wfR: "reg_wf R" and wf: "reg_wf reg" and left: "left_of R D reg" and closed: "below_closed R D"
    and i: "resource_id h \<notin> D" and e: "dict_get (entries R) (resource_id h) = Some e"
  shows "tears R (subtree R (resource_id h)) D reg (teardown env h reg)"
proof -
  obtain e' where e': "dict_get (entries reg) (resource_id h) = Some e'" using left_of_registered [OF left e i] by blast
  have len: "rank (dict_keys (entries reg')) (resource_id h) \<le> Suc (length (entries reg'))" for reg'
    using rank_le [of "dict_keys (entries reg')"] by (simp add: dict_keys_def le_Suc_eq)
  have bc: "below_closed reg {}" by (simp add: below_closed_def)
  have "tears reg (subtree reg (resource_id h)) {} reg (teardown env h reg)"
    unfolding teardown_def using bc e' len by (intro teardown_at_result [OF wf wf left_of_refl]) auto
  then obtain r where r: "teardown env h reg = Some r" by (auto simp: tears_def)
  let ?m = "max (Suc (length (entries reg))) (Suc (length (entries R)))"
  have "rank (dict_keys (entries R)) (resource_id h) \<le> ?m" using len [of R] by linarith
  then have "tears R (subtree R (resource_id h)) D reg (teardown_at env ?m h reg)"
    by (rule teardown_at_result [OF wfR wf left closed i e])
  moreover have "teardown_at env ?m h reg = Some r" using r unfolding teardown_def by (rule teardown_at_mono) simp
  ultimately show ?thesis using r by simp
qed

section \<open>Which exceptions escape\<close>

definition raises_only :: "(callback_exc \<Rightarrow> bool) \<Rightarrow> callbacks \<Rightarrow> bool" where
  "raises_only P env \<longleftrightarrow> (\<forall>c h tr x. collect_raises env c h tr = Some x \<longrightarrow> P x)
     \<and> (\<forall>d tr x. destroy_raises env d tr = Some x \<longrightarrow> P x)"

lemma run_collectors_raises:
  "raises_only P env \<Longrightarrow> run_collectors env h cs tr = (Some x, tr') \<Longrightarrow> P x"
  by (induction cs arbitrary: tr) (auto simp: raises_only_def split: option.splits)

lemma teardown_self_raises:
  assumes "raises_only P env" and "teardown_self env entry h reg = (Some (x, c), reg')" shows "P x"
proof -
  have l: "P y" if "(if logs_collected entry then (None, reg) else collect_logs env h reg) = (Some y, r)" for y r
    using that run_collectors_raises [OF assms(1)]
    by (auto simp: collect_logs_def Let_def split: if_splits option.splits prod.splits)
  have d: "P y" if "destroy_entry env entry (resource_id h) r = (Some y, r')" for y r r'
    using that assms(1) by (auto simp: destroy_entry_def raises_only_def Let_def split: if_splits option.splits)
  show ?thesis using assms(2) l d
    by (auto simp: teardown_self_def split: prod.splits option.splits callback_exc.splits)
qed

lemma teardown_children_raises:
  assumes "\<And>h reg x c reg'. td h reg = Some (Some (x, c), reg') \<Longrightarrow> P x"
  shows "teardown_children td cs reg = Some (Some (x, c), reg') \<Longrightarrow> P x"
  by (induction cs arbitrary: reg) (auto split: option.splits prod.splits dest: assms)

lemma teardown_at_raises:
  assumes "raises_only P env"
  shows "teardown_at env n h reg = Some (Some (x, c), reg') \<Longrightarrow> P x"
proof (induction n arbitrary: h reg x c reg')
  case (Suc n)
  show ?case using Suc.prems teardown_children_raises [of "teardown_at env n" P, OF Suc.IH] teardown_self_raises [OF assms]
    by (auto split: option.splits)
qed simp

section \<open>Tearing everything down\<close>

lemma root_ids_iff: "dict_ok (entries reg) \<Longrightarrow> i \<in> set (root_ids reg) \<longleftrightarrow> (\<exists>e. dict_get (entries reg) i = Some e \<and> parent_id e = None)"
  by (force simp: root_ids_def dict_mem_get)

lemma root_top: "dict_ok (entries reg) \<Longrightarrow> i \<in> set (root_ids reg) \<Longrightarrow> (i, a) \<in> (parent_rel reg)\<^sup>* \<Longrightarrow> a = i"
  by (erule converse_rtranclE) (auto simp: root_ids_iff parent_rel_def)

lemma roots_apart:
  assumes wf: "reg_wf reg" and i: "i \<in> set (root_ids reg)" and j: "j \<in> set (root_ids reg)" and ne: "i \<noteq> j"
  shows "subtree reg i \<inter> subtree reg j = {}"
    and "a \<in> subtree reg i \<Longrightarrow> b \<in> subtree reg j \<Longrightarrow> (b, a) \<notin> (parent_rel reg)\<^sup>+"
proof -
  have ok: "dict_ok (entries reg)" using wf by (simp add: reg_wf_def)
  show apart: "subtree reg i \<inter> subtree reg j = {}"
    using ancestors_chain [of _ i reg j] root_top [OF ok i] root_top [OF ok j] ne by (auto simp: subtree_def)
  assume a: "a \<in> subtree reg i" and b: "b \<in> subtree reg j"
  show "(b, a) \<notin> (parent_rel reg)\<^sup>+"
  proof
    assume "(b, a) \<in> (parent_rel reg)\<^sup>+"
    then have "b \<in> subtree reg i" using a by (auto simp: subtree_def)
    with b apart show False by blast
  qed
qed

text \<open>Every registered resource lives in the tree of some root.\<close>

lemma under_a_root:
  assumes wf: "reg_wf reg" and "dict_get (entries reg) c = Some e"
  shows "\<exists>i \<in> set (root_ids reg). c \<in> subtree reg i"
  using assms(2)
proof (induction "length (entries reg) - rank (dict_keys (entries reg)) c" arbitrary: c e rule: less_induct)
  case less
  have ok: "dict_ok (entries reg)" using wf by (simp add: reg_wf_def)
  show ?case
  proof (cases "parent_id e")
    case None
    then show ?thesis using less.prems root_ids_iff [OF ok] by (auto simp: subtree_def intro!: bexI [of _ c])
  next
    case (Some p)
    then have cp: "(c, p) \<in> parent_rel reg" using less.prems by (auto simp: parent_rel_def)
    then have "p \<in> fst ` set (links (entries reg))"
      using parents_first_parent [of "{}" "links (entries reg)" c p] wf parent_rel_links [OF ok] by (simp add: reg_wf_def)
    then obtain ep where ep: "dict_get (entries reg) p = Some ep"
      by (metis list.set_map map_fst_links map_of_eq_None_iff option.exhaust)
    have "rank (dict_keys (entries reg)) p \<le> length (entries reg)" using rank_le [of "dict_keys (entries reg)" p] by (simp add: dict_keys_def)
    then obtain i where "i \<in> set (root_ids reg)" and "p \<in> subtree reg i"
      using less.hyps [OF _ ep] parent_rank [OF wf cp] by fastforce
    then show ?thesis using cp by (auto simp: subtree_def intro: converse_rtrancl_into_rtrancl)
  qed
qed

lemma torn_warning: "torn R S D D' evs \<Longrightarrow> i \<in> S \<Longrightarrow> torn R S D D' (evs @ [TeardownWarning i x])"
  by (simp add: torn_def)

definition tears_roots :: "callbacks \<Rightarrow> registry \<Rightarrow> py_str set \<Rightarrow> py_str set \<Rightarrow> registry \<Rightarrow> (raised option \<times> registry) option \<Rightarrow> bool" where
  "tears_roots env R S D reg r \<longleftrightarrow> (\<exists>x reg' D' evs. r = Some (x, reg') \<and> reg_wf reg' \<and> left_of R D' reg'
     \<and> trace reg' = trace reg @ evs \<and> torn R S D D' evs
     \<and> (raises_only (\<lambda>_. False) env \<longrightarrow> S \<subseteq> D') \<and> (raises_only (\<lambda>x. \<exists>n. x = CaughtExc n) env \<longrightarrow> x = None))"

lemma tears_roots_Cons:
  assumes t1: "torn R S D D1 e1" and r: "tears_roots env R T D1 reg1 r" and tr: "trace reg1 = trace reg @ e1"
    and full: "raises_only (\<lambda>_. False) env \<longrightarrow> S \<subseteq> D1" and dis: "S \<inter> T = {}"
    and apart: "\<And>a b. a \<in> S \<Longrightarrow> b \<in> T \<Longrightarrow> (b, a) \<notin> (parent_rel R)\<^sup>+"
  shows "tears_roots env R (S \<union> T) D reg r"
proof -
  obtain x reg' D' evs where x: "r = Some (x, reg')" "reg_wf reg'" "left_of R D' reg'" "trace reg' = trace reg1 @ evs"
    and t2: "torn R T D1 D' evs" and f: "raises_only (\<lambda>_. False) env \<longrightarrow> T \<subseteq> D'"
    "raises_only (\<lambda>x. \<exists>n. x = CaughtExc n) env \<longrightarrow> x = None"
    using r unfolding tears_roots_def by (elim exE conjE) (rule that)
  have "torn R (S \<union> T) D D' (e1 @ evs)" using dis apart by (rule torn_seq [OF t1 t2])
  moreover have "raises_only (\<lambda>_. False) env \<longrightarrow> S \<union> T \<subseteq> D'" using full f(1) tornD(1) [OF t2] by blast
  ultimately show ?thesis using x f(2) tr unfolding tears_roots_def by fastforce
qed

lemma teardown_roots_result:
  assumes wfR: "reg_wf R"
  shows "distinct is \<Longrightarrow> set is \<subseteq> set (root_ids R) \<Longrightarrow> set is \<inter> D = {} \<Longrightarrow> reg_wf reg \<Longrightarrow> left_of R D reg \<Longrightarrow> below_closed R D
    \<Longrightarrow> tears_roots env R (\<Union>i \<in> set is. subtree R i) D reg (teardown_roots env is reg)"
proof (induction "is" arbitrary: D reg)
  case Nil
  then show ?case using torn_refl [of R D] by (auto simp: tears_roots_def)
next
  case (Cons i "is")
  have ok: "dict_ok (entries R)" using wfR by (simp add: reg_wf_def)
  obtain e where e: "dict_get (entries R) i = Some e" using Cons.prems(2) root_ids_iff [OF ok] by auto
  obtain e' where e': "dict_get (entries reg) i = Some e'" using left_of_registered [OF Cons.prems(5) e] Cons.prems(3) by auto
  have hid: "resource_id (handle e') = i" using Cons.prems(4) e' by (force simp: reg_wf_def dest: map_of_SomeD)
  have "tears R (subtree R i) D reg (teardown env (handle e') reg)"
    using teardown_tears [OF wfR Cons.prems(4,5,6), of "handle e'" e env] hid e Cons.prems(3) by simp
  then obtain x reg1 D1 evs where r: "teardown env (handle e') reg = Some (x, reg1)" and wf1: "reg_wf reg1" and left1: "left_of R D1 reg1"
    and tr1: "trace reg1 = trace reg @ evs" and t1: "torn R (subtree R i) D D1 evs" and full: "x = None \<longrightarrow> subtree R i \<subseteq> D1"
    by (rule tearsE)
  have raise: "P y" if "raises_only P env" "x = Some (y, c)" for P y c
    using teardown_at_raises that r unfolding teardown_def by blast
  let ?T = "\<Union>i \<in> set is. subtree R i"
  have sib: "j \<noteq> i" "i \<in> set (root_ids R)" "j \<in> set (root_ids R)" if "j \<in> set is" for j using that Cons.prems(1,2) by auto
  note apart = roots_apart [OF wfR sib(2,3) sib(1) [symmetric]]
  have self: "j \<in> subtree R j" for j by (simp add: subtree_def)
  have dis: "set is \<inter> D1 = {}" using tornD(2) [OF t1] Cons.prems(3) apart(1) self by fastforce
  have dT: "subtree R i \<inter> ?T = {}" and aT: "\<And>a b. a \<in> subtree R i \<Longrightarrow> b \<in> ?T \<Longrightarrow> (b, a) \<notin> (parent_rel R)\<^sup>+"
    using apart by blast+
  have none: "raises_only (\<lambda>_. False) env \<longrightarrow> subtree R i \<subseteq> D1" using full raise [of "\<lambda>_. False"] by (cases x) auto
  have go: "tears_roots env R (subtree R i \<union> ?T) D reg (teardown_roots env is reg2)"
    if "torn R (subtree R i) D D1 ev2" "trace reg2 = trace reg @ ev2" "reg_wf reg2" "left_of R D1 reg2" for reg2 ev2
    using that dis Cons.prems(1,2) tornD(3) [OF t1] none
    by (intro tears_roots_Cons [OF that(1) Cons.IH that(2) none dT aT]) auto
  consider (ok) "x = None" | (caught) n c where "x = Some (CaughtExc n, c)" | (abort) n c where "x = Some (AbortExc n, c)"
    by (metis callback_exc.exhaust option.exhaust surj_pair)
  then show ?case
  proof cases
    case ok
    then show ?thesis using go [OF t1 tr1 wf1 left1] e' r by simp
  next
    case caught
    let ?reg = "reg1\<lparr>trace := trace reg1 @ [TeardownWarning i (CaughtExc n)]\<rparr>"
    have "tears_roots env R (subtree R i \<union> ?T) D reg (teardown_roots env is ?reg)"
      using go [OF torn_warning [OF t1 self], of ?reg] tr1 wf1 left1 by (simp add: left_of_def)
    then show ?thesis using e' r caught by simp
  next
    case abort
    have "torn R (subtree R i \<union> ?T) D D1 evs" by (rule torn_mono [OF t1]) simp
    then show ?thesis using abort e' r wf1 left1 tr1 raise [of _ "AbortExc n" c] unfolding tears_roots_def by fastforce
  qed
qed

lemma teardown_all_tears:
  assumes wf: "reg_wf reg"
  shows "tears_roots env reg (\<Union>i \<in> set (root_ids reg). subtree reg i) {} reg (teardown_all env reg)"
proof -
  have "distinct (root_ids reg)" using wf by (simp add: root_ids_def reg_wf_def dict_ok_def distinct_map_filter)
  then have "tears_roots env reg (\<Union>i \<in> set (rev (root_ids reg)). subtree reg i) {} reg (teardown_all env reg)"
    unfolding teardown_all_def using wf by (intro teardown_roots_result) (simp_all add: below_closed_def)
  then show ?thesis by simp
qed

lemma teardown_total:
  assumes wf: "reg_wf reg" shows "\<exists>x reg'. teardown env h reg = Some (x, reg') \<and> reg_wf reg'"
proof (cases "dict_get (entries reg) (resource_id h)")
  case None
  then show ?thesis using wf by (simp add: teardown_def)
next
  case (Some e)
  have "tears reg (subtree reg (resource_id h)) {} reg (teardown env h reg)"
    using wf Some by (intro teardown_tears) (simp_all add: below_closed_def)
  then show ?thesis unfolding tears_def by blast
qed

lemma left_of_keys:
  assumes "left_of R D reg" shows "dict_keys (entries reg) = filter (\<lambda>k. k \<notin> D) (dict_keys (entries R))"
proof -
  have "map fst (map (map_prod id unflag) es) = map fst es" for es by (simp add: comp_def)
  then have "dict_keys (entries reg) = map fst (filter (\<lambda>(k, e). k \<notin> D) (entries R))"
    using assms unfolding left_of_def dict_keys_def by metis
  then show ?thesis by (simp add: dict_keys_def filter_map comp_def case_prod_unfold)
qed

lemma children_of_kids:
  assumes wf: "reg_wf reg"
  shows "children_of h reg = map (handle \<circ> snd) (filter (\<lambda>(k, e). parent_id e = Some (resource_id h)) (entries reg))"
proof -
  have ok: "dict_ok (entries reg)" using wf by (simp add: reg_wf_def)
  have eq: "kids p (links es) = map fst (filter (\<lambda>(k, e). parent_id e = Some p) es)" for p es
    by (induction es) (auto simp: kids_def links_def)
  have "List.map_filter (\<lambda>c. map_option handle (dict_get (entries reg) c)) (map fst xs) = map (handle \<circ> snd) xs"
    if "set xs \<subseteq> set (entries reg)" for xs
    using that dict_mem_get [OF ok] by (induction xs) (auto simp: List.map_filter_simps)
  then show ?thesis using wf by (simp add: children_of_def reg_wf_def eq)
qed

section \<open>Properties\<close>

text \<open>
  C35. The registry always holds a forest: starting from the empty registry, every operation,
  also a teardown that raises, ends and keeps the invariant that parents are registered before
  their children and that the children lists are exact; so \<open>children_of\<close> returns the handles of
  the direct children in registration order.
\<close>

theorem registry_keeps_forest:
  "reg_wf (empty_registry gs) \<and> (reg_wf reg \<longrightarrow>
     (case register h d cs parent reg of Inr reg' \<Rightarrow> reg_wf reg'
        | Inl AlreadyRegistered \<Rightarrow> is_registered h reg
        | Inl ParentNotRegistered \<Rightarrow> (\<exists>p. parent = Some p \<and> \<not> is_registered p reg))
     \<and> reg_wf (deregister h reg) \<and> reg_wf (snd (collect_logs env h reg))
     \<and> (\<exists>x reg'. teardown env h reg = Some (x, reg') \<and> reg_wf reg')
     \<and> (\<exists>x reg'. teardown_all env reg = Some (x, reg') \<and> reg_wf reg')
     \<and> children_of h reg = map (handle \<circ> snd) (filter (\<lambda>(k, e). parent_id e = Some (resource_id h)) (entries reg)))"
proof (intro conjI impI)
  show "reg_wf (empty_registry gs)" by (rule reg_wf_empty)
  assume wf: "reg_wf reg"
  show "case register h d cs parent reg of Inr reg' \<Rightarrow> reg_wf reg' | Inl AlreadyRegistered \<Rightarrow> is_registered h reg
      | Inl ParentNotRegistered \<Rightarrow> (\<exists>p. parent = Some p \<and> \<not> is_registered p reg)"
    using register_wf [OF wf, of h d cs parent] by (auto simp: register_def is_registered_def Let_def split: sum.splits)
  show "reg_wf (deregister h reg)" and "reg_wf (snd (collect_logs env h reg))"
    using wf by (rule deregister_wf, rule collect_logs_wf)
  show "\<exists>x reg'. teardown env h reg = Some (x, reg') \<and> reg_wf reg'" using wf by (rule teardown_total)
  show "\<exists>x reg'. teardown_all env reg = Some (x, reg') \<and> reg_wf reg'"
    using teardown_all_tears [OF wf, of env] unfolding tears_roots_def by blast
  show "children_of h reg = map (handle \<circ> snd) (filter (\<lambda>(k, e). parent_id e = Some (resource_id h)) (entries reg))"
    using wf by (rule children_of_kids)
qed

definition demo_handle :: "py_str \<Rightarrow> ResourceHandle" where
  "demo_handle i = \<lparr>resource_id = i, resource_type = ''stub''\<rparr>"

text \<open>Callbacks none of which raises, and callbacks whose only collector fails.\<close>

definition quiet_callbacks :: callbacks where
  "quiet_callbacks = \<lparr>supports = \<lambda>_ _. True, collect_raises = \<lambda>_ _ _. None, destroy_raises = \<lambda>_ _. None\<rparr>"

definition failing_collector :: callbacks where
  "failing_collector = quiet_callbacks\<lparr>collect_raises := \<lambda>_ _ _. Some (CaughtExc 0)\<rparr>"

text \<open>A controller with a destroyer, and a model inside it with a log collector of its own.\<close>

definition demo_registry :: registry where
  "demo_registry = (case register (demo_handle ''ctrl'') (Some 1) None None (empty_registry []) of
     Inl _ \<Rightarrow> empty_registry []
   | Inr r \<Rightarrow> (case register (demo_handle ''model'') None (Some [7]) (Some (demo_handle ''ctrl'')) r of
       Inl _ \<Rightarrow> empty_registry [] | Inr r' \<Rightarrow> r'))"

lemma demo_registry_wf: "reg_wf demo_registry"
  by (simp add: demo_registry_def split: sum.splits) (meson register_wf reg_wf_empty)

theorem registry_keeps_forest_witness:
  "reg_wf demo_registry \<and> children_of (demo_handle ''ctrl'') demo_registry = [demo_handle ''model'']
    \<and> reg_wf (deregister (demo_handle ''ctrl'') demo_registry)"
proof -
  have "map (handle \<circ> snd) (filter (\<lambda>(k, e). parent_id e = Some (resource_id (demo_handle ''ctrl''))) (entries demo_registry))
      = [demo_handle ''model'']" by code_simp
  then show ?thesis
    using demo_registry_wf registry_keeps_forest [of "[]" demo_registry "demo_handle ''ctrl''" None None None quiet_callbacks]
    by simp
qed

text \<open>
  C27. Teardown of a resource ends and stays inside its subtree: it only ever removes resources
  of the subtree, keeps the others in order and untouched, and unless it raises, the whole subtree
  is gone. Each destroyer is called at most once, only for resources that have one, never
  before those of the resources inside, which are deregistered by then; and no resource is
  removed without its destroyer having been called.
\<close>

theorem teardown_subtree:
  assumes "reg_wf reg" and "is_registered h reg"
  shows "\<exists>x reg' gone evs. teardown env h reg = Some (x, reg') \<and> trace reg' = trace reg @ evs
    \<and> gone \<subseteq> subtree reg (resource_id h) \<and> (x = None \<longrightarrow> gone = subtree reg (resource_id h))
    \<and> dict_keys (entries reg') = filter (\<lambda>k. k \<notin> gone) (dict_keys (entries reg))
    \<and> (\<forall>k. k \<notin> gone \<longrightarrow> map_option unflag (dict_get (entries reg') k) = map_option unflag (dict_get (entries reg) k))
    \<and> event_id ` set evs \<subseteq> subtree reg (resource_id h)
    \<and> distinct (destroy_ids evs) \<and> sorted_wrt (\<lambda>a b. (b, a) \<notin> (parent_rel reg)\<^sup>+) (destroy_ids evs)
    \<and> gone \<inter> destroyable reg \<subseteq> set (destroy_ids evs) \<and> set (destroy_ids evs) \<subseteq> destroyable reg
    \<and> (\<forall>p \<in> set (destroy_ids evs). subtree reg p - {p} \<subseteq> gone)"
proof -
  obtain e where e: "dict_get (entries reg) (resource_id h) = Some e" using assms(2) by (auto simp: is_registered_def)
  have "tears reg (subtree reg (resource_id h)) {} reg (teardown env h reg)"
    using assms(1) e by (intro teardown_tears) (simp_all add: below_closed_def)
  then obtain x reg' D evs where r: "teardown env h reg = Some (x, reg')" and left: "left_of reg D reg'"
    and tr: "trace reg' = trace reg @ evs" and t: "torn reg (subtree reg (resource_id h)) {} D evs"
    and full: "x = None \<longrightarrow> subtree reg (resource_id h) \<subseteq> D"
    by (rule tearsE)
  note f = tornD [OF t]
  have D: "D \<subseteq> subtree reg (resource_id h)" "D \<inter> destroyable reg \<subseteq> set (destroy_ids evs)" using f(2,8) by auto
  have "subtree reg p - {p} \<subseteq> D" if "p \<in> set (destroy_ids evs)" for p
    using f(9) [OF that] by (auto simp: subtree_def rtrancl_eq_or_trancl)
  then show ?thesis using r tr D f(4-7) left_of_keys [OF left] left_of_get [OF left] full
    by (intro exI [of _ x] exI [of _ reg'] exI [of _ D] exI [of _ evs]) auto
qed

theorem teardown_subtree_witness:
  "\<exists>x reg'. teardown quiet_callbacks (demo_handle ''ctrl'') demo_registry = Some (x, reg')
    \<and> destroy_ids (trace reg') = [''ctrl''] \<and> dict_keys (entries reg') = []"
proof -
  have t: "trace demo_registry = []" by code_simp
  have "case teardown quiet_callbacks (demo_handle ''ctrl'') demo_registry of
      Some (x, reg') \<Rightarrow> destroy_ids (trace reg') = [''ctrl''] \<and> dict_keys (entries reg') = [] | None \<Rightarrow> False"
    by code_simp
  moreover have "is_registered (demo_handle ''ctrl'') demo_registry" by code_simp
  ultimately show ?thesis
    using teardown_subtree [OF demo_registry_wf, of "demo_handle ''ctrl''" quiet_callbacks] t by (auto split: option.splits)
qed

text \<open>
  C36. Tearing everything down: \<open>teardown_all\<close> ends and never raises as long as the callbacks
  raise ordinary exceptions only; it calls each destroyer at most once and never one before those
  of the resources inside. If no callback raises, the registry is empty afterwards and exactly
  the destroyers of the registered, not yet destroyed resources have been called.
\<close>

theorem teardown_all_complete:
  assumes "reg_wf reg"
  shows "\<exists>x reg' evs. teardown_all env reg = Some (x, reg') \<and> trace reg' = trace reg @ evs
    \<and> (raises_only (\<lambda>x. \<exists>n. x = CaughtExc n) env \<longrightarrow> x = None)
    \<and> distinct (destroy_ids evs) \<and> sorted_wrt (\<lambda>a b. (b, a) \<notin> (parent_rel reg)\<^sup>+) (destroy_ids evs)
    \<and> (raises_only (\<lambda>_. False) env \<longrightarrow> entries reg' = [] \<and> children reg' = [] \<and> set (destroy_ids evs) = destroyable reg)"
proof -
  let ?S = "\<Union>i \<in> set (root_ids reg). subtree reg i"
  obtain x reg' D evs where r: "teardown_all env reg = Some (x, reg')" and wf: "reg_wf reg'" and left: "left_of reg D reg'"
    and tr: "trace reg' = trace reg @ evs" and t: "torn reg ?S {} D evs" and full: "raises_only (\<lambda>_. False) env \<longrightarrow> ?S \<subseteq> D"
    and caught: "raises_only (\<lambda>x. \<exists>n. x = CaughtExc n) env \<longrightarrow> x = None"
    using teardown_all_tears [OF assms, of env] unfolding tears_roots_def by (elim exE conjE) (rule that)
  have all: "k \<in> ?S" if "k \<in> set (dict_keys (entries reg))" for k
    using that under_a_root [OF assms] by (auto simp: in_dict_keys_iff)
  have quiet: "entries reg' = [] \<and> children reg' = [] \<and> set (destroy_ids evs) = destroyable reg" if n: "raises_only (\<lambda>_. False) env"
  proof -
    have D: "k \<in> D" if "k \<in> set (dict_keys (entries reg))" for k using that all full n by blast
    then have "dict_keys (entries reg') = []" using left_of_keys [OF left] by (simp add: filter_empty_conv)
    then have es: "entries reg' = []" by (simp add: dict_keys_def)
    have "children reg' = []"
    proof (cases "children reg'")
      case (Cons a ch)
      then have "dict_get_default (children reg') (fst a) [] = snd a" by (simp add: dict_get_default_def)
      moreover have "dict_get_default (children reg') (fst a) [] = []" using wf es by (simp add: reg_wf_def links_def kids_def)
      ultimately show ?thesis using wf Cons by (auto simp: reg_wf_def)
    qed
    moreover have "destroyable reg \<subseteq> D" using D by (auto simp: destroyable_def in_dict_keys_iff)
    ultimately show ?thesis using es tornD(7,8) [OF t] by auto
  qed
  show ?thesis by (rule exI [of _ x], rule exI [of _ reg'], rule exI [of _ evs]) (simp add: r tr tornD(5,6) [OF t] caught quiet)
qed

theorem teardown_all_complete_witness:
  "(\<exists>x reg'. teardown_all quiet_callbacks demo_registry = Some (x, reg') \<and> entries reg' = [])"
proof -
  have "raises_only (\<lambda>_. False) quiet_callbacks" by (simp add: raises_only_def quiet_callbacks_def)
  then show ?thesis using teardown_all_complete [OF demo_registry_wf, of quiet_callbacks] by blast
qed

text \<open>
  One failing log collector of a child keeps its parent alive: the exception of the child
  ends the parent's teardown before its destroyer runs, \<open>teardown_all\<close> turns it into a warning and
  does not come back, so the controller stays registered and is never destroyed.
\<close>

theorem failed_child_leaks_parent:
  "case teardown_all failing_collector demo_registry of
     Some (x, reg') \<Rightarrow> x = None \<and> trace reg' = [CollectCall 7 ''model'', TeardownWarning ''ctrl'' (CaughtExc 0)]
       \<and> registered_handles reg' = [demo_handle ''ctrl'']
   | None \<Rightarrow> False"
  by code_simp

end
