(* ===== verification/Juju_Registry.thy ===== *)
theory Juju_Registry
  imports Resource_Registry_Correct
begin

text \<open>
  The Juju side of the resource registry: the handles of controllers and models
  (\<^verbatim>\<open>juju/handles.py\<close>) and the extension that mirrors what happens to them in the registry
  (\<^verbatim>\<open>juju/resource_registry/extension.py\<close>). The destroyer of a bootstrapped controller is the
  call of the backend that kills it; \<open>kill\<close> numbers these calls. A hook that raises may have
  changed the registry before, so its result carries both.
\<close>

section \<open>Handles\<close>

record JujuControllerHandle =
  controller_name :: py_str

record JujuModelHandle =
  model_name :: py_str
  model_controller :: py_str
  model_owner :: "py_str option"

definition controller_resource_id :: "JujuControllerHandle \<Rightarrow> py_str" where
  "controller_resource_id h = ''juju:controller:'' @ controller_name h"

definition controller_path_segment :: "JujuControllerHandle \<Rightarrow> py_str" where
  "controller_path_segment h = ''juju-controller-'' @ sanitize_path_segment (controller_name h)"

definition model_uri :: "JujuModelHandle \<Rightarrow> py_str" where
  "model_uri h = model_controller h @ '':'' @
     (case model_owner h of None \<Rightarrow> model_name h | Some ow \<Rightarrow> ow @ ''/'' @ model_name h)"

definition model_resource_id :: "JujuModelHandle \<Rightarrow> py_str" where
  "model_resource_id h = ''juju:model:'' @ model_controller h @ '':'' @ model_name h"

definition model_path_segment :: "JujuModelHandle \<Rightarrow> py_str" where
  "model_path_segment h = ''juju-model-'' @ sanitize_path_segment (model_controller h) @ ''-'' @ sanitize_path_segment (model_name h)"

definition controller_handle :: "py_str \<Rightarrow> ResourceHandle" where
  "controller_handle c = \<lparr>resource_id = controller_resource_id \<lparr>controller_name = c\<rparr>, resource_type = ''juju:controller''\<rparr>"

definition model_handle :: "py_str \<Rightarrow> py_str \<Rightarrow> ResourceHandle" where
  "model_handle c m = \<lparr>resource_id = model_resource_id \<lparr>model_name = m, model_controller = c, model_owner = None\<rparr>,
     resource_type = ''juju:model''\<rparr>"

section \<open>The hooks of the extension\<close>

type_synonym hook_result = "registry_error option \<times> registry"

definition try_register :: "ResourceHandle \<Rightarrow> nat option \<Rightarrow> ResourceHandle option \<Rightarrow> registry \<Rightarrow> hook_result" where
  "try_register h d parent reg = (case register h d None parent reg of Inl e \<Rightarrow> (Some e, reg) | Inr reg' \<Rightarrow> (None, reg'))"

definition post_bootstrap_controller :: "(py_str \<Rightarrow> nat) \<Rightarrow> py_str \<Rightarrow> registry \<Rightarrow> hook_result" where
  "post_bootstrap_controller kill c reg = try_register (controller_handle c) (Some (kill c)) None reg"

text \<open>A controller that the session did not create is registered without a destroyer.\<close>

definition ensure_controller :: "py_str \<Rightarrow> registry \<Rightarrow> hook_result" where
  "ensure_controller c reg =
     (if is_registered (controller_handle c) reg then (None, reg) else try_register (controller_handle c) None None reg)"

definition register_model :: "py_str \<Rightarrow> py_str \<Rightarrow> registry \<Rightarrow> hook_result" where
  "register_model c m reg =
     (case ensure_controller c reg of
        (Some e, reg') \<Rightarrow> (Some e, reg')
      | (None, reg') \<Rightarrow> try_register (model_handle c m) None (Some (controller_handle c)) reg')"

definition post_add_model_with_cloud :: "py_str \<Rightarrow> py_str \<Rightarrow> registry \<Rightarrow> hook_result" where
  "post_add_model_with_cloud c m reg = register_model c m reg"

fun teardown_handles :: "callbacks \<Rightarrow> ResourceHandle list \<Rightarrow> registry \<Rightarrow> (raised option \<times> registry) option" where
  "teardown_handles env [] reg = Some (None, reg)"
| "teardown_handles env (h # hs) reg =
     (case teardown env h reg of
        None \<Rightarrow> None
      | Some (Some x, reg') \<Rightarrow> Some (Some x, reg')
      | Some (None, reg') \<Rightarrow> teardown_handles env hs reg')"

definition pre_kill_controller :: "callbacks \<Rightarrow> py_str \<Rightarrow> registry \<Rightarrow> (raised option \<times> registry) option" where
  "pre_kill_controller env c reg =
     (case teardown_handles env (children_of (controller_handle c) reg) reg of
        None \<Rightarrow> None
      | Some (Some x, reg') \<Rightarrow> Some (Some x, reg')
      | Some (None, reg') \<Rightarrow>
          (let (x, reg'') = collect_logs env (controller_handle c) reg' in Some (map_option (\<lambda>e. (e, None)) x, reg'')))"

definition post_kill_controller :: "py_str \<Rightarrow> registry \<Rightarrow> registry" where
  "post_kill_controller c reg = deregister (controller_handle c) reg"

definition post_migrate_model :: "py_str \<Rightarrow> py_str \<Rightarrow> py_str \<Rightarrow> registry \<Rightarrow> hook_result" where
  "post_migrate_model m source target reg =
     register_model target m
       (if is_registered (model_handle source m) reg then deregister (model_handle source m) reg else reg)"

section \<open>Identifiers\<close>

lemma model_id_inject:
  assumes "CHR '':'' \<notin> set c" and "CHR '':'' \<notin> set d" and "resource_id (model_handle c m) = resource_id (model_handle d n)"
  shows "c = d \<and> m = n"
proof -
  have eq: "c @ CHR '':'' # m = d @ CHR '':'' # n" using assms(3) by (simp add: model_handle_def model_resource_id_def)
  have "takeWhile (\<lambda>x. x \<noteq> CHR '':'') (c @ CHR '':'' # m) = c" "takeWhile (\<lambda>x. x \<noteq> CHR '':'') (d @ CHR '':'' # n) = d"
    using assms(1,2) by (auto simp: takeWhile_append)
  with eq have "c = d" by simp
  with eq show ?thesis by simp
qed

lemma controller_id_inject [simp]: "resource_id (controller_handle c) = resource_id (controller_handle d) \<longleftrightarrow> c = d"
  by (simp add: controller_handle_def controller_resource_id_def)

lemma model_not_controller [simp]: "resource_id (model_handle c m) \<noteq> resource_id (controller_handle d)"
  by (simp add: controller_handle_def controller_resource_id_def model_handle_def model_resource_id_def)

section \<open>The hooks keep the registry a forest\<close>

lemma try_register_wf: "reg_wf reg \<Longrightarrow> reg_wf (snd (try_register h d p reg))"
  by (auto simp: try_register_def register_wf split: sum.splits)

lemma ensure_controller_wf: "reg_wf reg \<Longrightarrow> reg_wf (snd (ensure_controller c reg))"
  by (simp add: ensure_controller_def try_register_wf)

lemma register_model_wf: "reg_wf reg \<Longrightarrow> reg_wf (snd (register_model c m reg))"
  using ensure_controller_wf [of reg c] by (auto simp: register_model_def try_register_wf split: prod.splits option.splits)

lemma get_register:
  assumes "register h d cs p reg = Inr reg'"
  shows "dict_get (entries reg') k = (if k = resource_id h then Some \<lparr>handle = h, destroyer = d, parent_id = map_option resource_id p,
      collectors = (case cs of None \<Rightarrow> [] | Some l \<Rightarrow> l), logs_collected = False, destroyed = False\<rparr> else dict_get (entries reg) k)"
  using assms by (auto simp: register_def Let_def dict_get_set split: if_splits option.splits)

lemma ensure_controller_get:
  "fst (ensure_controller c reg) = None \<and> is_registered (controller_handle c) (snd (ensure_controller c reg))
     \<and> (\<forall>k. k \<noteq> resource_id (controller_handle c) \<longrightarrow> dict_get (entries (snd (ensure_controller c reg))) k = dict_get (entries reg) k)
     \<and> (is_registered (controller_handle c) reg \<longrightarrow> snd (ensure_controller c reg) = reg)"
proof (cases "is_registered (controller_handle c) reg")
  case True
  then show ?thesis by (simp add: ensure_controller_def)
next
  case False
  then obtain reg' where r: "register (controller_handle c) None None None reg = Inr reg'"
    by (simp add: register_def is_registered_def)
  show ?thesis using False get_register [OF r] by (simp add: ensure_controller_def try_register_def is_registered_def r)
qed

text \<open>
  Adding a model to a registry: it fails exactly if the model is registered already; otherwise
  the model is a child of its controller and every other resource is as before.
\<close>

lemma register_model_get:
  assumes "register_model c m reg = (x, reg')"
  shows "x = (if is_registered (model_handle c m) reg then Some AlreadyRegistered else None)"
    and "is_registered (controller_handle c) reg'"
    and "x = None \<Longrightarrow> map_option parent_id (dict_get (entries reg') (resource_id (model_handle c m)))
      = Some (Some (resource_id (controller_handle c)))"
    and "k \<noteq> resource_id (controller_handle c) \<Longrightarrow> k \<noteq> resource_id (model_handle c m) \<Longrightarrow>
      dict_get (entries reg') k = dict_get (entries reg) k"
proof -
  obtain reg1 where e: "ensure_controller c reg = (None, reg1)" using ensure_controller_get [of c reg] by (metis prod.collapse)
  note g = ensure_controller_get [of c reg, unfolded e, simplified]
  have r: "try_register (model_handle c m) None (Some (controller_handle c)) reg1 = (x, reg')" using assms e by (simp add: register_model_def)
  have same: "is_registered (model_handle c m) reg1 = is_registered (model_handle c m) reg" using g by (simp add: is_registered_def)
  consider (dup) "is_registered (model_handle c m) reg" "x = Some AlreadyRegistered" "reg' = reg1"
    | (new) "\<not> is_registered (model_handle c m) reg" "x = None"
      "register (model_handle c m) None None (Some (controller_handle c)) reg1 = Inr reg'"
    using r same g by (fastforce simp: try_register_def register_def is_registered_def Let_def split: sum.splits if_splits)
  then show "x = (if is_registered (model_handle c m) reg then Some AlreadyRegistered else None)"
    and "is_registered (controller_handle c) reg'"
    and "x = None \<Longrightarrow> map_option parent_id (dict_get (entries reg') (resource_id (model_handle c m)))
      = Some (Some (resource_id (controller_handle c)))"
    and "k \<noteq> resource_id (controller_handle c) \<Longrightarrow> k \<noteq> resource_id (model_handle c m) \<Longrightarrow>
      dict_get (entries reg') k = dict_get (entries reg) k"
    using g by (cases; auto simp: get_register is_registered_def)+
qed

lemma register_model_keeps:
  assumes "is_registered h reg" and "register_model c m reg = (x, reg')" shows "is_registered h reg'"
proof -
  have keep: "is_registered h (snd (try_register h' d p r))" if "is_registered h r" for h' d p r
    using that get_register by (fastforce simp: try_register_def is_registered_def split: sum.splits)
  have "is_registered h (snd (ensure_controller c reg))" using assms(1) keep by (simp add: ensure_controller_def)
  then show ?thesis using assms(2) keep
    by (auto simp: register_model_def split: prod.splits option.splits) (metis snd_conv)
qed

section \<open>Killing a controller\<close>

lemma teardown_absent: "dict_get (entries reg) (resource_id h) = None \<Longrightarrow> teardown env h reg = Some (None, reg)"
  by (simp add: teardown_def)

text \<open>The loop over the child handles is the registry's loop over the child identifiers.\<close>

lemma teardown_handles_children:
  assumes "\<forall>h \<in> set hs. look (resource_id h) = h" and "reg_wf reg"
  shows "teardown_handles env hs reg = teardown_children (\<lambda>h. teardown env (look (resource_id h))) (map resource_id hs) reg"
  using assms
proof (induction hs arbitrary: reg)
  case (Cons h hs)
  obtain x reg' where t: "teardown env h reg = Some (x, reg')" and wf': "reg_wf reg'" using teardown_total [OF Cons.prems(2)] by blast
  show ?case
  proof (cases "dict_get (entries reg) (resource_id h)")
    case None
    then show ?thesis using Cons by (simp add: teardown_absent)
  next
    case (Some e)
    have "resource_id (handle e) = resource_id h" using Some Cons.prems(2) by (force simp: reg_wf_def dest: map_of_SomeD)
    then show ?thesis using Cons wf' t Some by (simp split: option.splits)
  qed
qed simp

lemma kill_children:
  assumes wf: "reg_wf reg"
  shows "tears reg (subtree reg (resource_id h) - {resource_id h}) {} reg (teardown_handles env (children_of h reg) reg)"
proof -
  let ?i = "resource_id h"
  let ?hs = "children_of h reg"
  let ?es = "filter (\<lambda>(k, e). parent_id e = Some ?i) (entries reg)"
  have ok: "dict_ok (entries reg)" using wf by (simp add: reg_wf_def)
  have ids: "map resource_id ?hs = map fst ?es"
    using wf by (auto simp: children_of_kids [OF wf] reg_wf_def)
  have d: "distinct (map fst ?es)" using ok by (simp add: dict_ok_def distinct_map_filter)
  have mem: "c \<in> set (map fst ?es) \<longleftrightarrow> (c, ?i) \<in> parent_rel reg" for c
    using dict_mem_get [OF ok] by (force simp: parent_rel_def)
  let ?look = "inv_into (set ?hs) resource_id"
  have inj: "inj_on resource_id (set ?hs)" using d ids by (metis distinct_map)
  then have look: "\<forall>h \<in> set ?hs. ?look (resource_id h) = h" by simp
  have rid: "resource_id (?look c) = c" if "c \<in> set (map resource_id ?hs)" for c
    using that by (auto intro: f_inv_into_f)
  have "tears reg (\<Union>c \<in> set (map resource_id ?hs). subtree reg c) {} reg
      (teardown_children (\<lambda>h. teardown env (?look (resource_id h))) (map resource_id ?hs) reg)"
  proof (rule teardown_children_result [OF wf, where i = ?i])
    fix h' e D reg'
    assume "resource_id h' \<in> set (map resource_id ?hs)" and "dict_get (entries reg) (resource_id h') = Some e"
      and "reg_wf reg'" and "left_of reg D reg'" and "below_closed reg D" and "resource_id h' \<notin> D"
    then show "tears reg (subtree reg (resource_id h')) D reg' (teardown env (?look (resource_id h')) reg')"
      using teardown_tears [OF wf, of reg' D "?look (resource_id h')" e env] rid by simp
  qed (use d ids mem wf in \<open>auto simp: below_closed_def\<close>)
  moreover have "(\<Union>c \<in> set (map resource_id ?hs). subtree reg c) = subtree reg ?i - {?i}"
  proof -
    have "set (map fst ?es) = {c. (c, ?i) \<in> parent_rel reg}" using mem by blast
    then show ?thesis unfolding ids using subtree_unfold [of reg ?i] not_inside_child [OF wf, of _ ?i ?i] by auto
  qed
  ultimately show ?thesis using teardown_handles_children [OF look wf] by simp
qed

text \<open>Looking up a resource after a deregistration: the children have become roots.\<close>

lemma deregister_get:
  assumes wf: "reg_wf reg"
  shows "dict_get (entries (deregister h reg)) k = (if k = resource_id h then None else
      map_option (\<lambda>e. if parent_id e = Some (resource_id h) then e\<lparr>parent_id := None\<rparr> else e) (dict_get (entries reg) k))"
proof (cases "dict_get (entries reg) (resource_id h)")
  case None
  then have "resource_id h \<notin> fst ` set (links (entries reg))"
    by (metis list.set_map map_fst_links map_of_eq_None_iff)
  then have "kids (resource_id h) (links (entries reg)) = []"
    using wf by (intro parents_first_registered) (simp_all add: reg_wf_def)
  then have "parent_id e \<noteq> Some (resource_id h)" if "dict_get (entries reg) k = Some e" for e
    using map_of_SomeD [OF that] in_kids [of k "resource_id h" "links (entries reg)"] by (auto simp: in_links)
  then show ?thesis using None by (cases "dict_get (entries reg) k") (auto simp: deregister_def)
next
  case (Some e)
  have "map_of (map (\<lambda>(k, x). (k, f x)) (filter (\<lambda>(k, x). k \<noteq> i) es)) k = (if k = i then None else map_option f (map_of es k))"
    for f :: "ResourceEntry \<Rightarrow> ResourceEntry" and i and es :: "(py_str, ResourceEntry) dict"
    by (induction es) auto
  then show ?thesis unfolding deregister_entries [OF wf Some] .
qed

section \<open>Properties\<close>

text \<open>
  The identifiers of handles tell resources apart: controllers by name, a model from every
  controller, and models by controller and name as long as controller names have no colon.
\<close>

theorem handle_ids_distinct:
  assumes "CHR '':'' \<notin> set c" and "CHR '':'' \<notin> set d"
  shows "(resource_id (model_handle c m) = resource_id (model_handle d n) \<longleftrightarrow> c = d \<and> m = n)
    \<and> (resource_id (controller_handle c) = resource_id (controller_handle d) \<longleftrightarrow> c = d)
    \<and> resource_id (model_handle c m) \<noteq> resource_id (controller_handle d)
    \<and> list_all safe_path_char (model_path_segment \<lparr>model_name = m, model_controller = c, model_owner = None\<rparr>)
    \<and> list_all safe_path_char (controller_path_segment \<lparr>controller_name = c\<rparr>)"
proof -
  have "safe_path_char (CHR ''-'')" by (simp add: safe_path_char_def)
  then have "list_all safe_path_char (sanitize_path_segment s)" for s
    by (auto simp: sanitize_path_segment_def list_all_iff)
  then show ?thesis using model_id_inject [OF assms]
    by (auto simp: model_path_segment_def controller_path_segment_def) (simp_all add: safe_path_char_def)
qed

theorem handle_ids_distinct_witness:
  "resource_id (model_handle ''k8s'' ''a'') \<noteq> resource_id (model_handle ''lxd'' ''a'')"
  using handle_ids_distinct [of "''k8s''" "''lxd''" "''a''" "''a''"] by simp

text \<open>
  Killing a controller forgets exactly what lived in it: if the preparing hook does not
  raise, then after the controller is gone the registry holds the other resources, in their
  order, and neither the controller nor anything inside it.
\<close>

theorem kill_controller_forgets:
  assumes "reg_wf reg" and "is_registered (controller_handle c) reg" and "pre_kill_controller env c reg = Some (None, reg1)"
  shows "reg_wf (post_kill_controller c reg1)
    \<and> dict_keys (entries (post_kill_controller c reg1))
      = filter (\<lambda>k. k \<notin> subtree reg (resource_id (controller_handle c))) (dict_keys (entries reg))"
proof -
  let ?h = "controller_handle c"
  let ?i = "resource_id ?h"
  obtain x reg' D evs where r: "teardown_handles env (children_of ?h reg) reg = Some (x, reg')" and wf': "reg_wf reg'"
    and left: "left_of reg D reg'" and t: "torn reg (subtree reg ?i - {?i}) {} D evs" and full: "x = None \<longrightarrow> subtree reg ?i - {?i} \<subseteq> D"
    using kill_children [OF assms(1), of ?h env] by (rule tearsE)
  have "x = None" using assms(3) r by (cases x) (auto simp: pre_kill_controller_def)
  then have D: "D = subtree reg ?i - {?i}" using full tornD(2) [OF t] by auto
  have "collect_logs env ?h reg' = (None, reg1)"
    using assms(3) r \<open>x = None\<close> by (auto simp: pre_kill_controller_def split: prod.splits)
  then obtain evs1 where wf1: "reg_wf reg1" and left1: "left_of reg D reg1"
    using collect_logs_left wf' left by blast
  obtain e0 where e0: "dict_get (entries reg) ?i = Some e0" using assms(2) by (auto simp: is_registered_def)
  obtain e1 where e1: "dict_get (entries reg1) ?i = Some e1" using left_of_registered [OF left1 e0] D by auto
  have "kids ?i (links (entries reg1)) = []"
  proof -
    have "(k, Some ?i) \<notin> set (links (entries reg1))" for k
      using left_of_links [OF left1] D assms(1) not_inside_child [OF assms(1), of k ?i]
      by (auto simp: parent_rel_links reg_wf_def subtree_def)
    then show ?thesis by (auto simp: kids_def filter_empty_conv)
  qed
  then have "left_of reg (insert ?i D) (post_kill_controller c reg1)"
    unfolding post_kill_controller_def using left_of_remove [OF left1] deregister_leaf [OF wf1 e1] by blast
  moreover have "insert ?i D = subtree reg ?i" using D by (auto simp: subtree_def)
  ultimately show ?thesis using left_of_keys deregister_wf [OF wf1] by (auto simp: post_kill_controller_def)
qed

definition demo_juju :: registry where
  "demo_juju = snd (post_add_model_with_cloud ''c'' ''m'' (snd (post_bootstrap_controller (\<lambda>_. 1) ''d'' (empty_registry []))))"

lemma demo_juju_wf: "reg_wf demo_juju"
  by (simp add: demo_juju_def post_add_model_with_cloud_def post_bootstrap_controller_def register_model_wf try_register_wf)

theorem kill_controller_forgets_witness:
  "\<exists>reg1. pre_kill_controller quiet_callbacks ''c'' demo_juju = Some (None, reg1) \<and> reg_wf (post_kill_controller ''c'' reg1)"
proof -
  have "case pre_kill_controller quiet_callbacks ''c'' demo_juju of Some (None, _) \<Rightarrow> True | _ \<Rightarrow> False" by code_simp
  then obtain reg1 where r: "pre_kill_controller quiet_callbacks ''c'' demo_juju = Some (None, reg1)"
    by (auto split: option.splits)
  have "is_registered (controller_handle ''c'') demo_juju" by code_simp
  then show ?thesis using kill_controller_forgets [OF demo_juju_wf _ r] r by blast
qed

text \<open>
  C37. Migrating a model moves it: the hook fails exactly if the target controller already has
  the model, and even then the source is forgotten. Otherwise the model is registered under the
  target controller, which is registered, and the source no longer has it. Resources other than
  these three and the models inside the migrated one are as before.
\<close>

theorem migrate_model_moves:
  assumes "reg_wf reg" and "CHR '':'' \<notin> set source" and "CHR '':'' \<notin> set target" and "source \<noteq> target"
    and "post_migrate_model m source target reg = (x, reg')"
  shows "reg_wf reg' \<and> x = (if is_registered (model_handle target m) reg then Some AlreadyRegistered else None)
    \<and> \<not> is_registered (model_handle source m) reg'
    \<and> is_registered (model_handle target m) reg' \<and> is_registered (controller_handle target) reg'
    \<and> (x = None \<longrightarrow> map_option parent_id (dict_get (entries reg') (resource_id (model_handle target m)))
        = Some (Some (resource_id (controller_handle target))))
    \<and> (\<forall>k. k \<noteq> resource_id (controller_handle target) \<and> k \<noteq> resource_id (model_handle target m)
        \<and> k \<noteq> resource_id (model_handle source m) \<and> (k, resource_id (model_handle source m)) \<notin> parent_rel reg
        \<longrightarrow> dict_get (entries reg') k = dict_get (entries reg) k)"
proof -
  let ?s = "model_handle source m"
  define reg0 where "reg0 = (if is_registered ?s reg then deregister ?s reg else reg)"
  have r: "register_model target m reg0 = (x, reg')" using assms(5) by (simp add: post_migrate_model_def reg0_def)
  have wf0: "reg_wf reg0" using assms(1) by (simp add: reg0_def deregister_wf)
  have ne: "resource_id (model_handle target m) \<noteq> resource_id ?s" using model_id_inject [OF assms(3,2)] assms(4) by metis
  have gone: "dict_get (entries reg0) (resource_id ?s) = None"
    using deregister_get [OF assms(1)] by (simp add: reg0_def is_registered_def)
  have keep: "dict_get (entries reg0) k = dict_get (entries reg) k"
    if "k \<noteq> resource_id ?s" and "(k, resource_id ?s) \<notin> parent_rel reg" for k
    using that deregister_get [OF assms(1), of ?s k] by (cases "dict_get (entries reg) k") (auto simp: reg0_def parent_rel_def)
  have reg: "is_registered (model_handle target m) reg0 = is_registered (model_handle target m) reg"
    using ne deregister_get [OF assms(1), of ?s] by (simp add: reg0_def is_registered_def)
  note g = register_model_get [OF r]
  have "is_registered (model_handle target m) reg'"
  proof (cases x)
    case None
    then show ?thesis using g(3) by (auto simp: is_registered_def)
  next
    case (Some y)
    then have "is_registered (model_handle target m) reg0" using g(1) by (simp split: if_splits)
    then show ?thesis using r by (rule register_model_keeps)
  qed
  moreover have "\<not> is_registered ?s reg'"
    using g(4) [of "resource_id ?s"] ne gone by (metis is_registered_def model_not_controller)
  moreover have "reg_wf reg'" using register_model_wf [OF wf0, of target m] r by simp
  ultimately show ?thesis using g reg keep by (intro conjI) auto
qed

theorem migrate_model_moves_witness:
  "reg_wf (snd (post_migrate_model ''m'' ''c'' ''d'' demo_juju)) \<and> \<not> is_registered (model_handle ''c'' ''m'') (snd (post_migrate_model ''m'' ''c'' ''d'' demo_juju))"
  using migrate_model_moves [OF demo_juju_wf, of "''c''" "''d''" "''m''" "fst (post_migrate_model ''m'' ''c'' ''d'' demo_juju)"
      "snd (post_migrate_model ''m'' ''c'' ''d'' demo_juju)"] by simp

end
