(* ===== verification/Juju_Version.thy ===== *)
theory Juju_Version
  imports Prelude
begin

text \<open>
  Juju versions (\<^verbatim>\<open>juju/version.py\<close>) and the choice of an upgrade target among the published
  releases (\<^verbatim>\<open>utils/juju_releases.py\<close>). The list of releases is what the GitHub API answered;
  the request itself is not modelled. Version numbers are natural numbers: all of them come from
  strings of digits.
\<close>

section \<open>Versions\<close>

datatype JujuVersion = JujuVersion (major: nat) (minor: nat) (patch: nat)

text \<open>The order a frozen dataclass with \<open>order=True\<close> has: that of the tuple of its fields.\<close>

definition version_le :: "JujuVersion \<Rightarrow> JujuVersion \<Rightarrow> bool" where
  "version_le v w \<longleftrightarrow> major v < major w \<or> major v = major w \<and> (minor v < minor w \<or> minor v = minor w \<and> patch v \<le> patch w)"

definition version_lt :: "JujuVersion \<Rightarrow> JujuVersion \<Rightarrow> bool" where
  "version_lt v w \<longleftrightarrow> major v < major w \<or> major v = major w \<and> (minor v < minor w \<or> minor v = minor w \<and> patch v < patch w)"

instantiation JujuVersion :: linorder
begin

definition less_eq_JujuVersion :: "JujuVersion \<Rightarrow> JujuVersion \<Rightarrow> bool" where "v \<le> w \<longleftrightarrow> version_le v w"

definition less_JujuVersion :: "JujuVersion \<Rightarrow> JujuVersion \<Rightarrow> bool" where "v < w \<longleftrightarrow> version_lt v w"

instance
  by standard (auto simp: less_eq_JujuVersion_def less_JujuVersion_def version_le_def version_lt_def JujuVersion.expand)

end

datatype version_error = CannotParse

definition suffix_char :: "char \<Rightarrow> bool" where
  "suffix_char c \<longleftrightarrow> c \<in> set ''abcdefghijklmnopqrstuvwxyzABCDEFGHIJKLMNOPQRSTUVWXYZ0123456789.+-''"

text \<open>
  The regular expression, matched against the whole string. Its parts never overlap: a run of
  digits is followed by a dot, a suffix or the end, so taking the longest run each time is
  what the backtracking matcher ends with.
\<close>

definition suffix_ok :: "py_str \<Rightarrow> bool" where
  "suffix_ok s = (case s of [] \<Rightarrow> True | c # cs \<Rightarrow> (c = CHR ''-'' \<or> c = CHR ''+'') \<and> cs \<noteq> [] \<and> list_all suffix_char cs)"

definition digits :: "py_str \<Rightarrow> (py_str \<times> py_str) option" where
  "digits s = (let d = takeWhile is_digit s in if d = [] then None else Some (d, dropWhile is_digit s))"

definition dot_digits :: "py_str \<Rightarrow> (py_str \<times> py_str) option" where
  "dot_digits s = (case s of c # cs \<Rightarrow> if c = CHR ''.'' then digits cs else None | [] \<Rightarrow> None)"

definition match_version :: "py_str \<Rightarrow> (py_str \<times> py_str option \<times> py_str option) option" where
  "match_version s =
     (case digits s of
        None \<Rightarrow> None
      | Some (g1, r1) \<Rightarrow>
          (case dot_digits r1 of
             None \<Rightarrow> if suffix_ok r1 then Some (g1, None, None) else None
           | Some (g2, r2) \<Rightarrow>
               (case dot_digits r2 of
                  None \<Rightarrow> if suffix_ok r2 then Some (g1, Some g2, None) else None
                | Some (g3, r3) \<Rightarrow> if suffix_ok r3 then Some (g1, Some g2, Some g3) else None)))"

definition group_value :: "py_str option \<Rightarrow> nat" where
  "group_value g = (case g of None \<Rightarrow> 0 | Some d \<Rightarrow> str_nat d)"

definition version_parse :: "py_str \<Rightarrow> version_error + JujuVersion" where
  "version_parse s =
     (case match_version s of
        None \<Rightarrow> Inl CannotParse
      | Some (g1, g2, g3) \<Rightarrow> Inr (JujuVersion (str_nat g1) (group_value g2) (group_value g3)))"

definition version_str :: "JujuVersion \<Rightarrow> py_str" where
  "version_str v = nat_str (major v) @ ''.'' @ nat_str (minor v) @ ''.'' @ nat_str (patch v)"

section \<open>Releases and upgrade targets\<close>

datatype UpgradeMode = PATCH | MIGRATION

record release =
  prerelease :: bool
  draft :: bool
  tag_name :: "py_str option"

definition stable_version :: "release \<Rightarrow> JujuVersion option" where
  "stable_version r =
     (if prerelease r \<or> draft r then None
      else
        let tag = dropWhile (\<lambda>c. c = CHR ''v'') (case tag_name r of None \<Rightarrow> [] | Some t \<Rightarrow> t)
        in if tag = [] then None else case version_parse tag of Inl _ \<Rightarrow> None | Inr v \<Rightarrow> Some v)"

definition fetch_stable_juju_versions :: "release list \<Rightarrow> JujuVersion list" where
  "fetch_stable_juju_versions rs = rev (sort (List.map_filter stable_version rs))"

record tiers =
  same_minor :: "JujuVersion option"
  same_major :: "JujuVersion option"
  higher_major :: "JujuVersion option"

definition set_first :: "'a \<Rightarrow> 'a option \<Rightarrow> 'a option" where
  "set_first v o' = (case o' of None \<Rightarrow> Some v | Some w \<Rightarrow> Some w)"

definition scan_version :: "JujuVersion \<Rightarrow> bool \<Rightarrow> JujuVersion \<Rightarrow> tiers \<Rightarrow> tiers" where
  "scan_version current allow v t =
     (if v \<le> current then t
      else if major v = major current \<and> minor v = minor current then t\<lparr>same_minor := set_first v (same_minor t)\<rparr>
      else if major v = major current then t\<lparr>same_major := set_first v (same_major t)\<rparr>
      else if allow then t\<lparr>higher_major := set_first v (higher_major t)\<rparr>
      else t)"

definition or_else :: "'a option \<Rightarrow> 'a option \<Rightarrow> 'a option" where
  "or_else a b = (case a of None \<Rightarrow> b | Some x \<Rightarrow> Some x)"

definition select_upgrade_target :: "JujuVersion \<Rightarrow> JujuVersion list \<Rightarrow> bool \<Rightarrow> JujuVersion option" where
  "select_upgrade_target current available allow =
     (let t = fold (scan_version current allow) (rev (sort available))
                \<lparr>same_minor = None, same_major = None, higher_major = None\<rparr>
      in or_else (same_minor t) (or_else (same_major t) (higher_major t)))"

definition classify_upgrade_mode :: "JujuVersion \<Rightarrow> JujuVersion \<Rightarrow> UpgradeMode" where
  "classify_upgrade_mode current target =
     (if major current = major target \<and> minor current = minor target then PATCH else MIGRATION)"

section \<open>Parsing\<close>

text \<open>What the regular expression says, as a relation between a string and its groups.\<close>

definition digit_run :: "py_str \<Rightarrow> bool" where
  "digit_run d \<longleftrightarrow> d \<noteq> [] \<and> list_all is_digit d"

inductive version_string :: "py_str \<Rightarrow> py_str \<Rightarrow> py_str option \<Rightarrow> py_str option \<Rightarrow> bool" where
  major_only: "digit_run a \<Longrightarrow> suffix_ok s \<Longrightarrow> version_string (a @ s) a None None"
| major_minor: "digit_run a \<Longrightarrow> digit_run b \<Longrightarrow> suffix_ok s \<Longrightarrow> version_string (a @ ''.'' @ b @ s) a (Some b) None"
| full: "digit_run a \<Longrightarrow> digit_run b \<Longrightarrow> digit_run c \<Longrightarrow> suffix_ok s \<Longrightarrow>
    version_string (a @ ''.'' @ b @ ''.'' @ c @ s) a (Some b) (Some c)"

lemma not_digit [simp]: "\<not> is_digit (CHR ''.'')" "\<not> is_digit (CHR ''-'')" "\<not> is_digit (CHR ''+'')"
  by (simp_all add: is_digit_def)

lemma digits_run:
  assumes "digit_run d" and "s = [] \<or> \<not> is_digit (hd s)" shows "digits (d @ s) = Some (d, s)"
proof -
  have "takeWhile is_digit (d @ s) = d \<and> dropWhile is_digit (d @ s) = s"
    using assms by (cases s) (auto simp: digit_run_def list_all_iff takeWhile_append dropWhile_append)
  then show ?thesis using assms(1) by (simp add: digits_def digit_run_def)
qed

lemma digits_all: "digit_run d \<Longrightarrow> digits d = Some (d, [])"
  using digits_run [of d "[]"] by simp

lemma digitsD: "digits s = Some (d, r) \<Longrightarrow> s = d @ r \<and> digit_run d"
  by (auto simp: digits_def digit_run_def Let_def list_all_iff dest: set_takeWhileD split: if_splits)

lemma dot_digitsD: "dot_digits s = Some (d, r) \<Longrightarrow> s = ''.'' @ d @ r \<and> digit_run d"
  by (auto simp: dot_digits_def dest: digitsD split: list.splits if_splits)

lemma suffix_start: "suffix_ok s \<Longrightarrow> s = [] \<or> \<not> is_digit (hd s) \<and> hd s \<noteq> CHR ''.''"
  by (auto simp: suffix_ok_def split: list.splits)

lemma suffix_no_dot: "suffix_ok s \<Longrightarrow> dot_digits s = None"
  by (auto simp: suffix_ok_def dot_digits_def split: list.splits)

lemma match_version_iff: "match_version s = Some (a, b, c) \<longleftrightarrow> version_string s a b c"
proof
  assume "match_version s = Some (a, b, c)"
  then show "version_string s a b c"
    using version_string.major_only version_string.major_minor version_string.full
    by (simp add: match_version_def split: option.splits if_splits prod.splits) (force dest!: digitsD dot_digitsD)+
next
  assume "version_string s a b c"
  then show "match_version s = Some (a, b, c)"
  proof cases
    case (major_only r)
    then have "digits s = Some (a, r)" using suffix_start [of r] digits_run [of a r] by auto
    then show ?thesis using major_only by (simp add: match_version_def suffix_no_dot)
  next
    case (major_minor b' r)
    then have "digits s = Some (a, ''.'' @ b' @ r)" and "dot_digits (''.'' @ b' @ r) = Some (b', r)"
      using suffix_start [of r] digits_run [of b' r] by (auto simp: digits_run digits_all dot_digits_def)
    then show ?thesis using major_minor by (simp add: match_version_def suffix_no_dot)
  next
    case (full b' c' r)
    then have "digits s = Some (a, ''.'' @ b' @ ''.'' @ c' @ r)"
      and "dot_digits (''.'' @ b' @ ''.'' @ c' @ r) = Some (b', ''.'' @ c' @ r)"
      and "dot_digits (''.'' @ c' @ r) = Some (c', r)"
      using suffix_start [of r] digits_run [of c' r] by (auto simp: digits_run digits_all dot_digits_def)
    then show ?thesis using full by (simp add: match_version_def)
  qed
qed

lemma digit_run_nat_str [simp]: "digit_run (nat_str n)"
  using nat_str_digits by (simp add: digit_run_def list_all_iff)

section \<open>Choosing the target\<close>

text \<open>The three tiers of the policy: a higher patch first, then a higher minor, then a higher major.\<close>

definition tier :: "JujuVersion \<Rightarrow> JujuVersion \<Rightarrow> nat" where
  "tier current v = (if major v \<noteq> major current then 3 else if minor v \<noteq> minor current then 2 else 1)"

definition candidate :: "JujuVersion \<Rightarrow> bool \<Rightarrow> JujuVersion \<Rightarrow> bool" where
  "candidate current allow v \<longleftrightarrow> current < v \<and> (allow \<or> major v = major current)"

lemma scan_versions:
  "fold (scan_version current allow) vs t =
     \<lparr>same_minor = or_else (same_minor t) (List.find (\<lambda>v. candidate current allow v \<and> tier current v = 1) vs),
      same_major = or_else (same_major t) (List.find (\<lambda>v. candidate current allow v \<and> tier current v = 2) vs),
      higher_major = or_else (higher_major t) (List.find (\<lambda>v. candidate current allow v \<and> tier current v = 3) vs)\<rparr>"
proof (induction vs arbitrary: t)
  case Nil
  then show ?case by (cases t) (auto simp: or_else_def split: option.splits)
next
  case (Cons v vs)
  have "scan_version current allow v t =
     \<lparr>same_minor = or_else (same_minor t) (if candidate current allow v \<and> tier current v = 1 then Some v else None),
      same_major = or_else (same_major t) (if candidate current allow v \<and> tier current v = 2 then Some v else None),
      higher_major = or_else (higher_major t) (if candidate current allow v \<and> tier current v = 3 then Some v else None)\<rparr>"
    by (cases t) (auto simp: scan_version_def set_first_def or_else_def candidate_def tier_def not_le split: option.splits)
  then show ?case using Cons by (auto simp: or_else_def split: option.splits)
qed

lemma find_first_sorted:
  fixes xs :: "'a::linorder list"
  shows "sorted (rev xs) \<Longrightarrow> List.find P xs = Some v \<Longrightarrow> v \<in> set xs \<and> P v \<and> (\<forall>w \<in> set xs. P w \<longrightarrow> w \<le> v)"
  by (induction xs) (auto simp: sorted_append split: if_splits)

lemma find_highest:
  "List.find P (rev (sort vs)) = Some v \<Longrightarrow> v \<in> set vs \<and> P v \<and> (\<forall>w \<in> set vs. P w \<longrightarrow> w \<le> v)"
  using find_first_sorted [of "rev (sort vs)" P v] by simp

lemma find_none: "List.find P (rev (sort vs)) = None \<longleftrightarrow> (\<forall>v \<in> set vs. \<not> P v)"
  by (auto simp: find_None_iff)

section \<open>Properties\<close>

text \<open>
  Parsing a version accepts exactly the strings of the regular expression and reads its
  groups, missing ones as zero; printing a version and parsing it again gives the version back,
  also with a build suffix behind it.
\<close>

theorem version_parse_correct:
  "(\<forall>v. version_parse s = Inr v \<longleftrightarrow> (\<exists>a b c. version_string s a b c \<and> v = JujuVersion (str_nat a) (group_value b) (group_value c)))
   \<and> (version_parse s = Inl CannotParse \<longleftrightarrow> (\<nexists>a b c. version_string s a b c))
   \<and> (suffix_ok r \<longrightarrow> version_parse (version_str v @ r) = Inr v)"
proof (intro conjI impI allI)
  show "version_parse s = Inr v \<longleftrightarrow> (\<exists>a b c. version_string s a b c \<and> v = JujuVersion (str_nat a) (group_value b) (group_value c))" for v
    by (auto simp: version_parse_def match_version_iff [symmetric] split: option.splits)
  show "version_parse s = Inl CannotParse \<longleftrightarrow> (\<nexists>a b c. version_string s a b c)"
    by (auto simp: version_parse_def match_version_iff [symmetric] split: option.splits)
  assume "suffix_ok r"
  then have "version_string (version_str v @ r) (nat_str (major v)) (Some (nat_str (minor v))) (Some (nat_str (patch v)))"
    using version_string.full [of "nat_str (major v)" "nat_str (minor v)" "nat_str (patch v)" r] by (simp add: version_str_def)
  then show "version_parse (version_str v @ r) = Inr v"
    by (simp add: version_parse_def match_version_iff [symmetric] group_value_def)
qed

theorem version_parse_correct_witness:
  "suffix_ok ''-genericlinux-amd64'' \<and> version_parse (version_str (JujuVersion 3 6 21) @ ''-genericlinux-amd64'') = Inr (JujuVersion 3 6 21)"
proof -
  have "suffix_ok ''-genericlinux-amd64''" by code_simp
  then show ?thesis using version_parse_correct [of "''3''" "''-genericlinux-amd64''" "JujuVersion 3 6 21"] by blast
qed

text \<open>
  C38. The upgrade target is the best one: there is none exactly if no published version is
  newer (and, unless a higher major is allowed, of the same major); otherwise it is a
  newer published version of the best tier there is, the highest of that tier. The mode is a
  patch exactly for a target of the first tier.
\<close>

theorem upgrade_target_best:
  "case select_upgrade_target current available allow of
     None \<Rightarrow> \<forall>v \<in> set available. \<not> candidate current allow v
   | Some t \<Rightarrow> t \<in> set available \<and> candidate current allow t
       \<and> (\<forall>v \<in> set available. candidate current allow v \<longrightarrow>
            tier current t < tier current v \<or> tier current t = tier current v \<and> v \<le> t)
       \<and> (classify_upgrade_mode current t = PATCH \<longleftrightarrow> tier current t = 1)"
proof -
  let ?f = "\<lambda>i. List.find (\<lambda>v. candidate current allow v \<and> tier current v = i) (rev (sort available))"
  have sel: "select_upgrade_target current available allow = or_else (?f 1) (or_else (?f 2) (?f 3))"
    by (auto simp: select_upgrade_target_def scan_versions Let_def or_else_def split: option.splits)
  have tiers: "tier current v \<in> {1, 2, 3}" for v by (simp add: tier_def)
  have none: "?f i = None \<Longrightarrow> v \<in> set available \<Longrightarrow> candidate current allow v \<Longrightarrow> tier current v \<noteq> i" for i v
    by (auto simp: find_none)
  show ?thesis
  proof (cases "select_upgrade_target current available allow")
    case None
    then have "?f 1 = None" "?f 2 = None" "?f 3 = None" by (auto simp: sel or_else_def split: option.splits)
    then have "\<not> candidate current allow v" if "v \<in> set available" for v
      using that tiers [of v] none [of _ v] by (metis empty_iff insert_iff)
    then show ?thesis using None by simp
  next
    case (Some t)
    then obtain i where i: "?f i = Some t" "\<forall>j < i. j > 0 \<longrightarrow> ?f j = None"
    proof -
      consider "?f 1 = Some t" | "?f 1 = None" "?f 2 = Some t" | "?f 1 = None" "?f 2 = None" "?f 3 = Some t"
        using Some by (auto simp: sel or_else_def split: option.splits)
      then show thesis using that [of 1] that [of 2] that [of 3]
        by cases (auto simp: less_Suc_eq numeral_eq_Suc)
    qed
    have t: "t \<in> set available" "candidate current allow t" "tier current t = i"
      and high: "\<forall>v \<in> set available. candidate current allow v \<and> tier current v = i \<longrightarrow> v \<le> t"
      using find_highest [OF i(1)] by auto
    have "tier current t < tier current v \<or> tier current t = tier current v \<and> v \<le> t"
      if "v \<in> set available" "candidate current allow v" for v
      using that t(3) high none [OF i(2) [rule_format]] tiers [of v] by (metis insertE linorder_neqE_nat singletonD zero_less_numeral zero_less_one)
    moreover have "classify_upgrade_mode current t = PATCH \<longleftrightarrow> tier current t = 1"
      by (auto simp: classify_upgrade_mode_def tier_def)
    ultimately show ?thesis using Some t(1,2) by simp
  qed
qed

theorem upgrade_target_best_witness:
  "select_upgrade_target (JujuVersion 3 6 2) [JujuVersion 3 6 5, JujuVersion 4 0 0, JujuVersion 3 7 0, JujuVersion 3 6 9] True = Some (JujuVersion 3 6 9)
   \<and> candidate (JujuVersion 3 6 2) True (JujuVersion 3 6 9)"
proof -
  have s: "select_upgrade_target (JujuVersion 3 6 2) [JujuVersion 3 6 5, JujuVersion 4 0 0, JujuVersion 3 7 0, JujuVersion 3 6 9] True
      = Some (JujuVersion 3 6 9)" by code_simp
  show ?thesis using upgrade_target_best [where current = "JujuVersion 3 6 2" and allow = True
      and available = "[JujuVersion 3 6 5, JujuVersion 4 0 0, JujuVersion 3 7 0, JujuVersion 3 6 9]"]
    by (simp only: s option.case simp_thms)
qed

end
