(* ===== verification/Track_Snapshot.thy ===== *)
theory Track_Snapshot
  imports Prelude
begin

text \<open>
  The snapshots of tracked resources (\<^verbatim>\<open>resource_tracking/snapshot.py\<close>): one constructor per
  snapshot class, with the fields in the order of the class, and the members of the structural
  interface \<open>ResourceSnapshot\<close> as functions by cases on the class.
\<close>

record InconsistencyCheck =
  qualifier :: py_str
  attribute :: py_str
  ignore_empty_transition :: bool

datatype ResourceSnapshot =
    PvcSnapshot (snap_name: py_str) (namespace: py_str) (storage_class: py_str) (requested_storage: py_str)
      (phase: py_str) (application: py_str)
  | StatefulSetSnapshot (snap_name: py_str) (namespace: py_str) (replicas: py_str) (image: py_str) (application: py_str)
  | DeploymentSnapshot (snap_name: py_str) (namespace: py_str) (replicas: py_str) (image: py_str) (application: py_str)
  | ServiceSnapshot (snap_name: py_str) (namespace: py_str) (service_type: py_str) (cluster_ip: py_str) (ports: py_str)
      (application: py_str)
  | ConfigMapSnapshot (snap_name: py_str) (namespace: py_str) (data_keys: py_str) (application: py_str)
  | SecretSnapshot (snap_name: py_str) (namespace: py_str) (secret_type: py_str) (data_keys: py_str) (application: py_str)
  | ServiceAccountSnapshot (snap_name: py_str) (namespace: py_str) (application: py_str)
  | RoleSnapshot (snap_name: py_str) (namespace: py_str) (rules: py_str) (application: py_str)
  | RoleBindingSnapshot (snap_name: py_str) (namespace: py_str) (role_ref: py_str) (subjects: py_str) (application: py_str)
  | NetworkPolicySnapshot (snap_name: py_str) (namespace: py_str) (policy_types: py_str) (application: py_str)
  | IngressSnapshot (snap_name: py_str) (namespace: py_str) (ingress_class: py_str) (hosts: py_str) (application: py_str)

fun resource_kind :: "ResourceSnapshot \<Rightarrow> py_str" where
  "resource_kind (PvcSnapshot _ _ _ _ _ _) = ''pvc''"
| "resource_kind (StatefulSetSnapshot _ _ _ _ _) = ''statefulset''"
| "resource_kind (DeploymentSnapshot _ _ _ _ _) = ''deployment''"
| "resource_kind (ServiceSnapshot _ _ _ _ _ _) = ''service''"
| "resource_kind (ConfigMapSnapshot _ _ _ _) = ''configmap''"
| "resource_kind (SecretSnapshot _ _ _ _ _) = ''secret''"
| "resource_kind (ServiceAccountSnapshot _ _ _) = ''serviceaccount''"
| "resource_kind (RoleSnapshot _ _ _ _) = ''role''"
| "resource_kind (RoleBindingSnapshot _ _ _ _ _) = ''rolebinding''"
| "resource_kind (NetworkPolicySnapshot _ _ _ _) = ''networkpolicy''"
| "resource_kind (IngressSnapshot _ _ _ _ _) = ''ingress''"

definition identity :: "ResourceSnapshot \<Rightarrow> py_str \<times> py_str" where
  "identity s = (namespace s, snap_name s)"

definition check :: "py_str \<Rightarrow> py_str \<Rightarrow> InconsistencyCheck" where
  "check q a = \<lparr>qualifier = q, attribute = a, ignore_empty_transition = False\<rparr>"

fun inconsistency_checks :: "ResourceSnapshot \<Rightarrow> InconsistencyCheck list" where
  "inconsistency_checks (PvcSnapshot _ _ _ _ _ _) =
     [check ''resized'' ''requested_storage'', check ''storage_class_changed'' ''storage_class'']"
| "inconsistency_checks (StatefulSetSnapshot _ _ _ _ _) = [check ''scaled'' ''replicas'', check ''image_changed'' ''image'']"
| "inconsistency_checks (DeploymentSnapshot _ _ _ _ _) = [check ''scaled'' ''replicas'', check ''image_changed'' ''image'']"
| "inconsistency_checks (ServiceSnapshot _ _ _ _ _ _) =
     [check ''type_changed'' ''type'', (check ''ports_changed'' ''ports'')\<lparr>ignore_empty_transition := True\<rparr>]"
| "inconsistency_checks (ConfigMapSnapshot _ _ _ _) = [check ''keys_changed'' ''data_keys'']"
| "inconsistency_checks (SecretSnapshot _ _ _ _ _) = [check ''type_changed'' ''type'', check ''keys_changed'' ''data_keys'']"
| "inconsistency_checks (ServiceAccountSnapshot _ _ _) = []"
| "inconsistency_checks (RoleSnapshot _ _ _ _) = [check ''rules_changed'' ''rules'']"
| "inconsistency_checks (RoleBindingSnapshot _ _ _ _ _) =
     [check ''role_ref_changed'' ''role_ref'', check ''subjects_changed'' ''subjects'']"
| "inconsistency_checks (NetworkPolicySnapshot _ _ _ _) = [check ''policy_types_changed'' ''policy_types'']"
| "inconsistency_checks (IngressSnapshot _ _ _ _ _) =
     [check ''class_changed'' ''ingress_class'', check ''hosts_changed'' ''hosts'']"

fun report_attributes :: "ResourceSnapshot \<Rightarrow> (py_str, py_str) dict" where
  "report_attributes (PvcSnapshot _ _ sc rs _ _) = [(''storage_class'', sc), (''requested_storage'', rs)]"
| "report_attributes (StatefulSetSnapshot _ _ r i _) = [(''replicas'', r), (''image'', i)]"
| "report_attributes (DeploymentSnapshot _ _ r i _) = [(''replicas'', r), (''image'', i)]"
| "report_attributes (ServiceSnapshot _ _ t _ p _) = [(''type'', t), (''ports'', p)]"
| "report_attributes (ConfigMapSnapshot _ _ k _) = [(''data_keys'', k)]"
| "report_attributes (SecretSnapshot _ _ t k _) = [(''type'', t), (''data_keys'', k)]"
| "report_attributes (ServiceAccountSnapshot _ _ _) = []"
| "report_attributes (RoleSnapshot _ _ r _) = [(''rules'', r)]"
| "report_attributes (RoleBindingSnapshot _ _ r s _) = [(''role_ref'', r), (''subjects'', s)]"
| "report_attributes (NetworkPolicySnapshot _ _ p _) = [(''policy_types'', p)]"
| "report_attributes (IngressSnapshot _ _ c h _) = [(''ingress_class'', c), (''hosts'', h)]"

text \<open>The key by which two visits are compared: \<open>(s.resource_type, s.identity)\<close>.\<close>

definition snap_key :: "ResourceSnapshot \<Rightarrow> py_str \<times> py_str \<times> py_str" where
  "snap_key s = (resource_kind s, identity s)"

section \<open>Facts about the snapshot classes\<close>

text \<open>
  Every check names an attribute that snapshots of its class report, no two checks of a class
  share a qualifier, and none is called like the presence qualifiers.
\<close>

lemma check_attribute_reported:
  "c \<in> set (inconsistency_checks s) \<Longrightarrow> dict_get (report_attributes s) (attribute c) \<noteq> None"
  by (cases s) (auto simp: check_def)

lemma check_qualifiers_distinct: "distinct (map qualifier (inconsistency_checks s))"
  by (cases s) (simp_all add: check_def)

lemma check_qualifiers_fresh: "c \<in> set (inconsistency_checks s) \<Longrightarrow> qualifier c \<noteq> ''missing'' \<and> qualifier c \<noteq> ''extra''"
  by (cases s) (auto simp: check_def)

lemma kind_determines_checks: "resource_kind s = resource_kind t \<Longrightarrow> inconsistency_checks s = inconsistency_checks t"
  by (cases s; cases t) simp_all

lemma same_key: "snap_key s = snap_key t \<longleftrightarrow> resource_kind s = resource_kind t \<and> namespace s = namespace t \<and> snap_name s = snap_name t"
  by (auto simp: snap_key_def identity_def)

text \<open>
  Two snapshots of one resource report equal attributes exactly if they differ in the phase of
  a claim, the cluster address of a service and the owning application at most.
\<close>

fun declared :: "ResourceSnapshot \<Rightarrow> ResourceSnapshot" where
  "declared (PvcSnapshot n ns sc rs _ _) = PvcSnapshot n ns sc rs [] []"
| "declared (StatefulSetSnapshot n ns r i _) = StatefulSetSnapshot n ns r i []"
| "declared (DeploymentSnapshot n ns r i _) = DeploymentSnapshot n ns r i []"
| "declared (ServiceSnapshot n ns t _ p _) = ServiceSnapshot n ns t [] p []"
| "declared (ConfigMapSnapshot n ns k _) = ConfigMapSnapshot n ns k []"
| "declared (SecretSnapshot n ns t k _) = SecretSnapshot n ns t k []"
| "declared (ServiceAccountSnapshot n ns _) = ServiceAccountSnapshot n ns []"
| "declared (RoleSnapshot n ns r _) = RoleSnapshot n ns r []"
| "declared (RoleBindingSnapshot n ns r s _) = RoleBindingSnapshot n ns r s []"
| "declared (NetworkPolicySnapshot n ns p _) = NetworkPolicySnapshot n ns p []"
| "declared (IngressSnapshot n ns c h _) = IngressSnapshot n ns c h []"

lemma declared_eq_iff:
  "declared s = declared t \<longleftrightarrow> snap_key s = snap_key t \<and> report_attributes s = report_attributes t"
  by (cases s; cases t) (auto simp: same_key)

end
