(* ===== verification/Track_Discrepancy.thy ===== *)
theory Track_Discrepancy
  imports Track_Snapshot Sched_States "HOL-Library.Product_Lexorder" "HOL-Library.Multiset"
begin

text \<open>
  Recording what was observed in each scheduler state (\<^verbatim>\<open>resource_tracking/tracker.py\<close>) and
  comparing repeated visits (\<^verbatim>\<open>resource_tracking/discrepancy.py\<close>). A \<open>frozenset\<close> of snapshots
  is the list of its elements in iteration order. Python does not say what that order is; where
  the code builds such a set, the order is the argument \<open>order\<close>. A \<open>frozenset\<close> of strings, of
  which the code only asks membership, is a set.
\<close>

section \<open>The tracker\<close>

type_synonym scope = "py_str \<times> py_str"
type_synonym skip_key = "py_str \<times> py_str \<times> py_str"

record ResourceObservation =
  obs_state :: State
  obs_controller :: py_str
  obs_model :: py_str
  obs_snapshots :: "ResourceSnapshot list"
  skips_by_application :: "(py_str \<times> py_str set) list"

record CollectedResources =
  col_controller :: py_str
  col_model :: py_str
  col_snapshots :: "ResourceSnapshot list"

definition record_observation :: "State \<Rightarrow> py_str \<Rightarrow> py_str \<Rightarrow> ResourceSnapshot list \<Rightarrow> (py_str, py_str set) dict \<Rightarrow>
    ResourceObservation list \<Rightarrow> ResourceObservation list" where
  "record_observation state controller model snapshots skips observations =
     observations @
       [\<lparr>obs_state = state, obs_controller = controller, obs_model = model, obs_snapshots = snapshots,
         skips_by_application = sort_key fst (filter (\<lambda>(app, kinds). kinds \<noteq> {}) skips)\<rparr>]"

definition skips_for :: "(skip_key, py_str set) dict \<Rightarrow> py_str \<Rightarrow> py_str \<Rightarrow> (py_str, py_str set) dict" where
  "skips_for skips c m = fold (\<lambda>((c', m', app), kinds) d. if c' = c \<and> m' = m then dict_set app kinds d else d) skips []"

definition collect_observations :: "State \<Rightarrow> CollectedResources list list \<Rightarrow> (skip_key, py_str set) dict \<Rightarrow>
    ResourceObservation list \<Rightarrow> ResourceObservation list" where
  "collect_observations state collected skips observations =
     fold (fold (\<lambda>c. record_observation state (col_controller c) (col_model c) (col_snapshots c)
             (skips_for skips (col_controller c) (col_model c)))) collected observations"

section \<open>Comparing two visits\<close>

record QualifiedSnapshot =
  q_snapshot :: ResourceSnapshot
  q_baseline :: "ResourceSnapshot option"

definition modified :: "ResourceSnapshot \<Rightarrow> ResourceSnapshot \<Rightarrow> InconsistencyCheck \<Rightarrow> bool" where
  "modified baseline current c =
     (let b = dict_get (report_attributes baseline) (attribute c);
          v = dict_get (report_attributes current) (attribute c)
      in b \<noteq> v \<and> \<not> (ignore_empty_transition c \<and> (b = None \<or> b = Some [] \<or> v = None \<or> v = Some [])))"

definition modifications :: "ResourceSnapshot \<Rightarrow> ResourceSnapshot \<Rightarrow> (py_str \<times> QualifiedSnapshot) list" where
  "modifications baseline current =
     map (\<lambda>c. (qualifier c, \<lparr>q_snapshot = current, q_baseline = Some baseline\<rparr>))
       (filter (modified baseline current) (inconsistency_checks current))"

definition by_key :: "ResourceSnapshot list \<Rightarrow> (py_str \<times> py_str \<times> py_str, ResourceSnapshot) dict" where
  "by_key ss = fold (\<lambda>s. dict_set (snap_key s) s) ss []"

type_synonym groups = "(py_str, QualifiedSnapshot list) dict"

definition add_missing :: "(py_str \<times> py_str \<times> py_str, ResourceSnapshot) dict \<Rightarrow>
    (py_str \<times> py_str \<times> py_str) \<times> ResourceSnapshot \<Rightarrow> groups \<Rightarrow> groups" where
  "add_missing current_by_key = (\<lambda>(k, s) g.
     if dict_get current_by_key k = None then dict_append ''missing'' \<lparr>q_snapshot = s, q_baseline = None\<rparr> g else g)"

definition add_current :: "(py_str \<times> py_str \<times> py_str, ResourceSnapshot) dict \<Rightarrow>
    (py_str \<times> py_str \<times> py_str) \<times> ResourceSnapshot \<Rightarrow> groups \<Rightarrow> groups" where
  "add_current baseline_by_key = (\<lambda>(k, s) g.
     case dict_get baseline_by_key k of
       None \<Rightarrow> dict_append ''extra'' \<lparr>q_snapshot = s, q_baseline = None\<rparr> g
     | Some b \<Rightarrow> fold (\<lambda>(q, item). dict_append q item) (modifications b s) g)"

definition sort_items :: "QualifiedSnapshot list \<Rightarrow> QualifiedSnapshot list" where
  "sort_items = sort_key (\<lambda>item. snap_key (q_snapshot item))"

definition group_drift :: "ResourceSnapshot list \<Rightarrow> ResourceSnapshot list \<Rightarrow> groups" where
  "group_drift baseline current =
     (let bk = by_key baseline; ck = by_key current;
          g = fold (add_missing ck) bk [(''missing'', []), (''extra'', [])]
      in fold (add_current bk) ck g)"

definition presence_first :: "groups \<Rightarrow> groups" where
  "presence_first sorted_grouped =
     (let front = List.map_filter (\<lambda>q. map_option (\<lambda>items. (q, items)) (dict_get sorted_grouped q)) [''missing'', ''extra''];
          rest = filter (\<lambda>(q, items). q \<noteq> ''missing'' \<and> q \<noteq> ''extra'') sorted_grouped
      in front @ map (\<lambda>q. (q, the (dict_get rest q))) (sort (map fst rest)))"

definition diff_snapshots :: "ResourceSnapshot list \<Rightarrow> ResourceSnapshot list \<Rightarrow> groups" where
  "diff_snapshots baseline current =
     presence_first (map (\<lambda>(q, items). (q, sort_items items))
       (filter (\<lambda>(q, items). items \<noteq> []) (group_drift baseline current)))"

section \<open>Comparing all observations\<close>

record ModelResourceDiscrepancy =
  dis_state :: State
  dis_controller :: py_str
  dis_model :: py_str
  dis_qualified :: groups

record DiscrepancyEntry =
  ent_type :: py_str
  ent_qualifier :: py_str
  ent_state :: py_str
  ent_controller :: py_str
  ent_model :: py_str
  ent_snapshot :: ResourceSnapshot
  ent_baseline :: "ResourceSnapshot option"

definition discrepancy_entries :: "ModelResourceDiscrepancy \<Rightarrow> DiscrepancyEntry list" where
  "discrepancy_entries d = concat (map (\<lambda>(q, items). map (\<lambda>item.
     \<lparr>ent_type = resource_kind (q_snapshot item), ent_qualifier = q, ent_state = state_value (dis_state d),
      ent_controller = dis_controller d, ent_model = dis_model d,
      ent_snapshot = q_snapshot item, ent_baseline = q_baseline item\<rparr>) items) (dis_qualified d))"

definition discrepancy_summary :: "ModelResourceDiscrepancy \<Rightarrow> py_str" where
  "discrepancy_summary d = ''state='' @ state_value (dis_state d) @ '' controller='' @ dis_controller d
     @ '' model='' @ dis_model d @ '': '' @
     join '', '' (concat (map (\<lambda>(q, items). map (\<lambda>item.
       resource_kind (q_snapshot item) @ ''='' @ snap_name (q_snapshot item) @ '' ('' @ q @ '')'') items) (dis_qualified d)))"

definition without_skipped :: "(ResourceSnapshot list \<Rightarrow> ResourceSnapshot list) \<Rightarrow> ResourceSnapshot list \<Rightarrow> py_str \<Rightarrow> py_str
    \<Rightarrow> (skip_key, py_str set) dict \<Rightarrow> ResourceSnapshot list" where
  "without_skipped order snapshots c m skips =
     order (filter (\<lambda>s. resource_kind s \<notin> dict_get_default skips (c, m, application s) {}) snapshots)"

definition add_skips :: "ResourceObservation \<Rightarrow> (skip_key, py_str set) dict \<Rightarrow> (skip_key, py_str set) dict" where
  "add_skips obs = fold (\<lambda>(app, kinds) d.
     let k = (obs_controller obs, obs_model obs, app) in dict_set k (dict_get_default d k {} \<union> kinds) d) (skips_by_application obs)"

definition resolve_skips :: "ResourceObservation list \<Rightarrow> (skip_key, py_str set) dict" where
  "resolve_skips observations = fold add_skips observations []"

type_synonym baselines = "(State \<times> py_str \<times> py_str, ResourceSnapshot list) dict"

definition visit :: "(ResourceSnapshot list \<Rightarrow> ResourceSnapshot list) \<Rightarrow> (skip_key, py_str set) dict \<Rightarrow> ResourceObservation \<Rightarrow>
    baselines \<times> ModelResourceDiscrepancy list \<Rightarrow> baselines \<times> ModelResourceDiscrepancy list" where
  "visit order skips obs = (\<lambda>(baselines, discrepancies).
     let snapshots = without_skipped order (obs_snapshots obs) (obs_controller obs) (obs_model obs) skips;
         key = (obs_state obs, obs_controller obs, obs_model obs)
     in case dict_get baselines key of
          None \<Rightarrow> (dict_set key snapshots baselines, discrepancies)
        | Some b \<Rightarrow>
            let q = diff_snapshots b snapshots
            in (baselines,
                if q = [] then discrepancies
                else discrepancies @ [\<lparr>dis_state = obs_state obs, dis_controller = obs_controller obs,
                                       dis_model = obs_model obs, dis_qualified = q\<rparr>]))"

definition calculate_discrepancies :: "(ResourceSnapshot list \<Rightarrow> ResourceSnapshot list) \<Rightarrow> ResourceObservation list
    \<Rightarrow> ModelResourceDiscrepancy list" where
  "calculate_discrepancies order observations =
     snd (fold (visit order (resolve_skips observations)) observations ([], []))"

end
