(* ===== verification/Track_Sources.thy ===== *)
theory Track_Sources
  imports Track_Discrepancy
begin

text \<open>
  From raw Kubernetes objects to snapshots (\<^verbatim>\<open>resource_tracking/sources.py\<close>) and from the
  registered models to collected resources (\<^verbatim>\<open>resource_tracking/collectors.py\<close>). The records
  hold the fields of the API objects that the code reads; a field that may be \<open>None\<close> is an
  option. What the cluster and the Juju backend answer is an argument: the objects of a kind
  in a namespace, or an \<open>ApiException\<close>. Object names are never \<open>None\<close> in the answers of the
  API server and counts are natural numbers. A missing \<open>metadata\<close> raises an \<open>AttributeError\<close>.
\<close>

section \<open>Kubernetes objects\<close>

type_synonym labels = "(py_str, py_str) dict"

record metadata =
  meta_name :: py_str
  generate_name :: "py_str option"
  labels :: "labels option"

record workload_spec =
  spec_replicas :: "nat option"
  containers :: "py_str option list option"

record workload =
  wl_metadata :: "metadata option"
  wl_spec :: "workload_spec option"

record pvc_spec =
  storage_class_name :: "py_str option"
  requests :: "(py_str, py_str) dict option"

record pvc =
  pvc_metadata :: "metadata option"
  pvc_spec_of :: "pvc_spec option"
  pvc_phase :: "py_str option"

record service_spec =
  spec_type :: "py_str option"
  spec_cluster_ip :: "py_str option"
  spec_ports :: "(nat \<times> py_str option) list option"

record service =
  svc_metadata :: "metadata option"
  svc_spec :: "service_spec option"

record config_map =
  cm_metadata :: "metadata option"
  cm_data :: "(py_str, py_str) dict option"

record secret =
  sec_metadata :: "metadata option"
  sec_type :: "py_str option"
  sec_data :: "(py_str, py_str) dict option"

record policy_rule =
  rule_verbs :: "py_str list option"
  rule_resources :: "py_str list option"

record role =
  role_metadata :: "metadata option"
  role_rules :: "policy_rule list option"

record role_binding =
  rb_metadata :: "metadata option"
  rb_role_ref :: "(py_str \<times> py_str) option"
  rb_subjects :: "(py_str \<times> py_str) list option"

record network_policy =
  np_metadata :: "metadata option"
  np_policy_types :: "py_str list option"

record ingress =
  ing_metadata :: "metadata option"
  ing_spec :: "(py_str option \<times> py_str option list option) option"

text \<open>What the API answers for one namespace, by kind.\<close>

datatype k8s_error = ApiException | AttributeError

record cluster =
  pvcs :: "k8s_error + pvc list"
  stateful_sets :: "k8s_error + workload list"
  deployments :: "k8s_error + workload list"
  services :: "k8s_error + service list"
  config_maps :: "k8s_error + config_map list"
  secrets :: "k8s_error + secret list"
  service_accounts :: "k8s_error + metadata option list"
  roles :: "k8s_error + role list"
  role_bindings :: "k8s_error + role_binding list"
  network_policies :: "k8s_error + network_policy list"
  ingresses :: "k8s_error + ingress list"

section \<open>Fields\<close>

definition or_empty :: "py_str option \<Rightarrow> py_str" where
  "or_empty x = (case x of None \<Rightarrow> [] | Some s \<Rightarrow> s)"

definition or_none :: "'a list option \<Rightarrow> 'a list" where
  "or_none x = (case x of None \<Rightarrow> [] | Some l \<Rightarrow> l)"

definition application_of :: "labels option \<Rightarrow> py_str" where
  "application_of l = dict_get_default (or_none l) ''app.kubernetes.io/name'' []"

definition images :: "workload_spec option \<Rightarrow> py_str" where
  "images spec = join '','' (sort (map or_empty (or_none (Option.bind spec containers))))"

definition JUJU_PLACEHOLDER_PORT :: nat where
  "JUJU_PLACEHOLDER_PORT = 65535"

definition port_str :: "nat \<times> py_str option \<Rightarrow> py_str" where
  "port_str = (\<lambda>(p, proto). nat_str p @ ''/'' @ (case proto of None \<Rightarrow> ''TCP'' | Some t \<Rightarrow> if t = [] then ''TCP'' else t))"

definition ports_of :: "service_spec option \<Rightarrow> py_str" where
  "ports_of spec = join '','' (sort (map port_str (filter (\<lambda>(p, proto). p \<noteq> JUJU_PLACEHOLDER_PORT) (or_none (Option.bind spec spec_ports)))))"

definition keys_of :: "(py_str, py_str) dict option \<Rightarrow> py_str" where
  "keys_of data = join '','' (sort (dict_keys (or_none data)))"

definition rule_summary :: "policy_rule \<Rightarrow> py_str" where
  "rule_summary r = join '','' (sort (or_none (rule_verbs r))) @ '':'' @ join '','' (sort (or_none (rule_resources r)))"

definition rules_of :: "policy_rule list option \<Rightarrow> py_str" where
  "rules_of rs = join '';'' (sort (map rule_summary (or_none rs)))"

definition kind_name :: "py_str \<times> py_str \<Rightarrow> py_str" where
  "kind_name = (\<lambda>(k, n). k @ ''/'' @ n)"

definition subjects_of :: "(py_str \<times> py_str) list option \<Rightarrow> py_str" where
  "subjects_of ss = join '','' (sort (map kind_name (or_none ss)))"

definition hosts_of :: "(py_str option \<times> py_str option list option) option \<Rightarrow> py_str" where
  "hosts_of spec = join '','' (sort (filter (\<lambda>h. h \<noteq> []) (map or_empty (or_none (Option.bind spec snd)))))"

section \<open>Volatile names\<close>

definition is_hex :: "char \<Rightarrow> bool" where
  "is_hex c \<longleftrightarrow> c \<in> set ''0123456789abcdef''"

definition is_xid_char :: "char \<Rightarrow> bool" where
  "is_xid_char c \<longleftrightarrow> c \<in> set ''0123456789abcdefghijklmnopqrstuv''"

definition is_lower_alnum :: "char \<Rightarrow> bool" where
  "is_lower_alnum c \<longleftrightarrow> c \<in> set ''0123456789abcdefghijklmnopqrstuvwxyz''"

text \<open>The dollar sign of a regular expression: the end, or before a line feed at the end.\<close>

definition at_end :: "py_str \<Rightarrow> bool" where
  "at_end s \<longleftrightarrow> s = [] \<or> s = [CHR 0x0A]"

definition strip_newline :: "py_str \<Rightarrow> py_str" where
  "strip_newline s = (if s \<noteq> [] \<and> last s = CHR 0x0A then butlast s else s)"

text \<open>A block of exactly \<open>n\<close> characters of a class; what follows it.\<close>

definition block :: "nat \<Rightarrow> (char \<Rightarrow> bool) \<Rightarrow> py_str \<Rightarrow> py_str option" where
  "block n P s = (if n \<le> length s \<and> list_all P (take n s) then Some (drop n s) else None)"

fun dash :: "py_str \<Rightarrow> py_str option" where
  "dash (c # s) = (if c = CHR ''-'' then Some s else None)"
| "dash [] = None"

fun blocks :: "nat list \<Rightarrow> py_str \<Rightarrow> py_str option" where
  "blocks [] s = Some s"
| "blocks [n] s = block n is_hex s"
| "blocks (n # m # ns) s = (case Option.bind (block n is_hex s) dash of None \<Rightarrow> None | Some r \<Rightarrow> blocks (m # ns) r)"

definition RBAC_PREFIX :: py_str where
  "RBAC_PREFIX = ''juju-secret-consumer-''"

definition is_juju_managed_rbac_name :: "py_str \<Rightarrow> bool" where
  "is_juju_managed_rbac_name name =
     (take (length RBAC_PREFIX) name = RBAC_PREFIX \<and>
      (case blocks [8, 4, 4, 4, 12] (drop (length RBAC_PREFIX) name) of None \<Rightarrow> False | Some r \<Rightarrow> at_end r))"

definition is_juju_secret_content_name :: "py_str \<Rightarrow> bool" where
  "is_juju_secret_content_name name =
     (case Option.bind (block 20 is_xid_char name) dash of
        None \<Rightarrow> False
      | Some r \<Rightarrow> takeWhile is_digit r \<noteq> [] \<and> at_end (dropWhile is_digit r))"

definition SERVICE_ACCOUNT_TOKEN :: py_str where
  "SERVICE_ACCOUNT_TOKEN = ''kubernetes.io/service-account-token''"

definition has_volatile_name :: "secret \<Rightarrow> bool" where
  "has_volatile_name s =
     (let m = sec_metadata s in
      (case m of None \<Rightarrow> False | Some md \<Rightarrow> or_empty (generate_name md) \<noteq> [])
      \<or> sec_type s = Some SERVICE_ACCOUNT_TOKEN
      \<or> application_of (Option.bind m labels) = []
        \<and> is_juju_secret_content_name (case m of None \<Rightarrow> [] | Some md \<Rightarrow> meta_name md))"

definition is_cluster_provisioned_config_map :: "config_map \<Rightarrow> bool" where
  "is_cluster_provisioned_config_map cm =
     (case cm_metadata cm of
        None \<Rightarrow> False
      | Some md \<Rightarrow> meta_name md = ''istio-ca-root-cert'' \<and> application_of (labels md) = [])"

text \<open>
  The names of claims. The suffix is a chain of lower-case segments of which the last is a
  number; the prefix is greedy, so the longest one for which the rest matches is taken.
\<close>

fun segments :: "py_str \<Rightarrow> py_str list" where
  "segments [] = [[]]"
| "segments (c # s) = (if c = CHR ''-'' then [] # segments s else (case segments s of [] \<Rightarrow> [[c]] | g # gs \<Rightarrow> (c # g) # gs))"

definition pod_suffix :: "py_str \<Rightarrow> bool" where
  "pod_suffix s =
     (let gs = segments s in
      2 \<le> length gs \<and> list_all (\<lambda>g. g \<noteq> [] \<and> list_all is_lower_alnum g) gs \<and> list_all is_digit (last gs))"

definition volume_rest :: "py_str \<Rightarrow> py_str option" where
  "volume_rest s =
     (case Option.bind (Option.bind (dash s) (block 8 is_hex)) dash of
        None \<Rightarrow> None
      | Some r \<Rightarrow> if pod_suffix (strip_newline r) then Some (strip_newline r) else None)"

fun pvc_match :: "nat \<Rightarrow> py_str \<Rightarrow> (py_str \<times> py_str) option" where
  "pvc_match 0 s = None"
| "pvc_match (Suc n) s =
     (if CHR 0x0A \<notin> set (take (Suc n) s) then
        (case volume_rest (drop (Suc n) s) of Some r \<Rightarrow> Some (take (Suc n) s, r) | None \<Rightarrow> pvc_match n s)
      else pvc_match n s)"

definition normalize_pvc_name :: "py_str \<Rightarrow> py_str" where
  "normalize_pvc_name name =
     (case pvc_match (length name) name of
        None \<Rightarrow> name
      | Some (prefix, suffix) \<Rightarrow> prefix @ ''-<volume-id>-'' @ suffix)"

section \<open>Sources\<close>

definition with_meta :: "metadata option \<Rightarrow> (metadata \<Rightarrow> 'a) \<Rightarrow> k8s_error + 'a" where
  "with_meta m f = (case m of None \<Rightarrow> Inl AttributeError | Some md \<Rightarrow> Inr (f md))"

fun map_result :: "('a \<Rightarrow> 'e + 'b) \<Rightarrow> 'a list \<Rightarrow> 'e + 'b list" where
  "map_result f [] = Inr []"
| "map_result f (x # xs) = bind_result (f x) (\<lambda>y. bind_result (map_result f xs) (\<lambda>ys. Inr (y # ys)))"

definition pvc_source :: "py_str \<Rightarrow> cluster \<Rightarrow> k8s_error + ResourceSnapshot list" where
  "pvc_source model k = bind_result (pvcs k) (map_result (\<lambda>p.
     with_meta (pvc_metadata p) (\<lambda>md.
       PvcSnapshot (normalize_pvc_name (meta_name md)) model
         (or_empty (Option.bind (pvc_spec_of p) storage_class_name))
         (dict_get_default (or_none (Option.bind (pvc_spec_of p) requests)) ''storage'' [])
         (or_empty (pvc_phase p)) (application_of (labels md)))))"

definition replicas_str :: "workload_spec option \<Rightarrow> py_str" where
  "replicas_str spec = (case Option.bind spec spec_replicas of None \<Rightarrow> [] | Some n \<Rightarrow> nat_str n)"

definition stateful_set_source :: "py_str \<Rightarrow> cluster \<Rightarrow> k8s_error + ResourceSnapshot list" where
  "stateful_set_source model k = bind_result (stateful_sets k) (map_result (\<lambda>w.
     with_meta (wl_metadata w) (\<lambda>md.
       StatefulSetSnapshot (meta_name md) model (replicas_str (wl_spec w)) (images (wl_spec w)) (application_of (labels md)))))"

definition deployment_source :: "py_str \<Rightarrow> cluster \<Rightarrow> k8s_error + ResourceSnapshot list" where
  "deployment_source model k = bind_result (deployments k) (map_result (\<lambda>w.
     with_meta (wl_metadata w) (\<lambda>md.
       DeploymentSnapshot (meta_name md) model (replicas_str (wl_spec w)) (images (wl_spec w)) (application_of (labels md)))))"

definition service_source :: "py_str \<Rightarrow> cluster \<Rightarrow> k8s_error + ResourceSnapshot list" where
  "service_source model k = bind_result (services k) (map_result (\<lambda>s.
     with_meta (svc_metadata s) (\<lambda>md.
       ServiceSnapshot (meta_name md) model (or_empty (Option.bind (svc_spec s) spec_type))
         (or_empty (Option.bind (svc_spec s) spec_cluster_ip)) (ports_of (svc_spec s)) (application_of (labels md)))))"

definition config_map_source :: "py_str \<Rightarrow> cluster \<Rightarrow> k8s_error + ResourceSnapshot list" where
  "config_map_source model k = bind_result (config_maps k) (\<lambda>cms.
     map_result (\<lambda>c. with_meta (cm_metadata c) (\<lambda>md.
       ConfigMapSnapshot (meta_name md) model (keys_of (cm_data c)) (application_of (labels md))))
     (filter (\<lambda>c. \<not> is_cluster_provisioned_config_map c) cms))"

definition secret_source :: "py_str \<Rightarrow> cluster \<Rightarrow> k8s_error + ResourceSnapshot list" where
  "secret_source model k = bind_result (secrets k) (\<lambda>ss.
     map_result (\<lambda>s. with_meta (sec_metadata s) (\<lambda>md.
       SecretSnapshot (meta_name md) model (or_empty (sec_type s)) (keys_of (sec_data s)) (application_of (labels md))))
     (filter (\<lambda>s. \<not> has_volatile_name s) ss))"

text \<open>The loop of the three RBAC kinds: reading the name comes first, then volatile names are dropped.\<close>

fun rbac_loop :: "('a \<Rightarrow> metadata option) \<Rightarrow> ('a \<Rightarrow> metadata \<Rightarrow> ResourceSnapshot) \<Rightarrow> 'a list \<Rightarrow> k8s_error + ResourceSnapshot list" where
  "rbac_loop meta f [] = Inr []"
| "rbac_loop meta f (x # xs) =
     (case meta x of
        None \<Rightarrow> Inl AttributeError
      | Some md \<Rightarrow>
          if is_juju_managed_rbac_name (meta_name md) then rbac_loop meta f xs
          else bind_result (rbac_loop meta f xs) (\<lambda>ys. Inr (f x md # ys)))"

definition service_account_source :: "py_str \<Rightarrow> cluster \<Rightarrow> k8s_error + ResourceSnapshot list" where
  "service_account_source model k = bind_result (service_accounts k)
     (rbac_loop id (\<lambda>_ md. ServiceAccountSnapshot (meta_name md) model (application_of (labels md))))"

definition role_source :: "py_str \<Rightarrow> cluster \<Rightarrow> k8s_error + ResourceSnapshot list" where
  "role_source model k = bind_result (roles k)
     (rbac_loop role_metadata (\<lambda>r md. RoleSnapshot (meta_name md) model (rules_of (role_rules r)) (application_of (labels md))))"

definition role_binding_source :: "py_str \<Rightarrow> cluster \<Rightarrow> k8s_error + ResourceSnapshot list" where
  "role_binding_source model k = bind_result (role_bindings k)
     (rbac_loop rb_metadata (\<lambda>r md. RoleBindingSnapshot (meta_name md) model
        (case rb_role_ref r of None \<Rightarrow> [] | Some kn \<Rightarrow> kind_name kn) (subjects_of (rb_subjects r)) (application_of (labels md))))"

definition network_policy_source :: "py_str \<Rightarrow> cluster \<Rightarrow> k8s_error + ResourceSnapshot list" where
  "network_policy_source model k = bind_result (network_policies k) (map_result (\<lambda>p.
     with_meta (np_metadata p) (\<lambda>md.
       NetworkPolicySnapshot (meta_name md) model (join '','' (sort (or_none (np_policy_types p)))) (application_of (labels md)))))"

definition ingress_source :: "py_str \<Rightarrow> cluster \<Rightarrow> k8s_error + ResourceSnapshot list" where
  "ingress_source model k = bind_result (ingresses k) (map_result (\<lambda>i.
     with_meta (ing_metadata i) (\<lambda>md.
       IngressSnapshot (meta_name md) model (or_empty (Option.bind (ing_spec i) fst)) (hosts_of (ing_spec i)) (application_of (labels md)))))"

type_synonym k8s_source = "py_str \<Rightarrow> cluster \<Rightarrow> k8s_error + ResourceSnapshot list"

definition DEFAULT_KUBERNETES_SOURCES :: "k8s_source list" where
  "DEFAULT_KUBERNETES_SOURCES = [pvc_source, stateful_set_source, deployment_source, service_source, config_map_source,
     secret_source, service_account_source, role_source, role_binding_source, network_policy_source, ingress_source]"

section \<open>The collector\<close>

text \<open>
  For every registered model, given by its controller and name: the backend's answer for its cloud (an exception, no Kubernetes
  cloud, or a cloud), the client for the cloud (or an exception), and the sources in order. An
  \<open>ApiException\<close> of a source skips the model; any other exception ends the collection.
\<close>

record k8s_world =
  cloud_for_model :: "py_str \<Rightarrow> py_str \<Rightarrow> (unit + py_str option)"
  client_for_cloud :: "py_str \<Rightarrow> (unit + (py_str \<Rightarrow> cluster))"

fun run_sources :: "k8s_source list \<Rightarrow> py_str \<Rightarrow> cluster \<Rightarrow> ResourceSnapshot list \<Rightarrow> k8s_error + ResourceSnapshot list" where
  "run_sources [] model k acc = Inr acc"
| "run_sources (src # srcs) model k acc = bind_result (src model k) (\<lambda>ss. run_sources srcs model k (acc @ ss))"

fun collect_models :: "(ResourceSnapshot list \<Rightarrow> ResourceSnapshot list) \<Rightarrow> k8s_world \<Rightarrow> k8s_source list \<Rightarrow> (py_str \<times> py_str) list
    \<Rightarrow> k8s_error + CollectedResources list" where
  "collect_models order w srcs [] = Inr []"
| "collect_models order w srcs ((c, m) # ms) =
     (case cloud_for_model w c m of
        Inr (Some cloud) \<Rightarrow>
          (case client_for_cloud w cloud of
             Inl _ \<Rightarrow> collect_models order w srcs ms
           | Inr client \<Rightarrow>
               (case run_sources srcs m (client m) [] of
                  Inl ApiException \<Rightarrow> collect_models order w srcs ms
                | Inl e \<Rightarrow> Inl e
                | Inr ss \<Rightarrow> bind_result (collect_models order w srcs ms)
                    (\<lambda>rest. Inr (\<lparr>col_controller = c, col_model = m, col_snapshots = order (remdups ss)\<rparr> # rest))))
      | _ \<Rightarrow> collect_models order w srcs ms)"

end
