(* ===== verification/Track_Correct.thy ===== *)
theory Track_Correct
  imports Track_Discrepancy
begin

text \<open>
  What the comparison of visits reports, and that it does not depend on the iteration order of
  the snapshot sets as long as no two snapshots of a visit stand for the same resource.
\<close>

section \<open>Grouping as a fold over events\<close>

definition append_all :: "('k \<times> 'a) list \<Rightarrow> ('k, 'a list) dict \<Rightarrow> ('k, 'a list) dict" where
  "append_all = fold (\<lambda>(q, item). dict_append q item)"

definition items_of :: "('k \<times> 'a) list \<Rightarrow> 'k \<Rightarrow> 'a list" where
  "items_of evs q = map snd (filter (\<lambda>(q', item). q' = q) evs)"

lemma items_of_append [simp]: "items_of (xs @ ys) q = items_of xs q @ items_of ys q"
  by (simp add: items_of_def)

lemma items_of_nonempty: "items_of evs q \<noteq> [] \<longleftrightarrow> q \<in> fst ` set evs"
  by (force simp: items_of_def filter_empty_conv)

lemma append_all_append: "append_all (xs @ ys) g = append_all ys (append_all xs g)"
  by (simp add: append_all_def)

lemma append_all_get: "dict_get_default (append_all evs g) q [] = dict_get_default g q [] @ items_of evs q"
proof (induction evs arbitrary: g)
  case (Cons a evs)
  then show ?case by (cases a) (simp add: append_all_def items_of_def dict_get_append)
qed (simp add: append_all_def items_of_def)

lemma append_all_ok: "dict_ok g \<Longrightarrow> dict_ok (append_all evs g)"
  by (induction evs arbitrary: g) (auto simp: append_all_def dict_append_def)

lemma append_all_keys: "set (dict_keys (append_all evs g)) = set (dict_keys g) \<union> fst ` set evs"
proof (induction evs arbitrary: g)
  case (Cons a evs)
  then show ?case by (cases a) (auto simp: append_all_def dict_append_def dict_keys_set)
qed (simp add: append_all_def)

definition missing_events :: "(py_str \<times> py_str \<times> py_str, ResourceSnapshot) dict \<Rightarrow>
    (py_str \<times> py_str \<times> py_str) \<times> ResourceSnapshot \<Rightarrow> (py_str \<times> QualifiedSnapshot) list" where
  "missing_events ck = (\<lambda>(k, s). if dict_get ck k = None then [(''missing'', \<lparr>q_snapshot = s, q_baseline = None\<rparr>)] else [])"

definition current_events :: "(py_str \<times> py_str \<times> py_str, ResourceSnapshot) dict \<Rightarrow>
    (py_str \<times> py_str \<times> py_str) \<times> ResourceSnapshot \<Rightarrow> (py_str \<times> QualifiedSnapshot) list" where
  "current_events bk = (\<lambda>(k, s). case dict_get bk k of
     None \<Rightarrow> [(''extra'', \<lparr>q_snapshot = s, q_baseline = None\<rparr>)] | Some b \<Rightarrow> modifications b s)"

definition drift_events :: "ResourceSnapshot list \<Rightarrow> ResourceSnapshot list \<Rightarrow> (py_str \<times> QualifiedSnapshot) list" where
  "drift_events b c = concat (map (missing_events (by_key c)) (by_key b)) @ concat (map (current_events (by_key b)) (by_key c))"

lemma fold_events:
  assumes "\<And>x g. f x g = append_all (ev x) g"
  shows "fold f xs g = append_all (concat (map ev xs)) g"
  using assms by (induction xs arbitrary: g) (simp_all add: append_all_append, simp add: append_all_def)

lemma group_drift_events: "group_drift b c = append_all (drift_events b c) [(''missing'', []), (''extra'', [])]"
proof -
  have m: "add_missing ck x g = append_all (missing_events ck x) g" for ck x g
    by (cases x) (simp add: add_missing_def missing_events_def append_all_def)
  have c: "add_current bk x g = append_all (current_events bk x) g" for bk x g
    by (cases x) (auto simp: add_current_def current_events_def append_all_def split: option.splits)
  show ?thesis
    by (simp add: group_drift_def Let_def drift_events_def append_all_append
        fold_events [of "add_missing _", OF m] fold_events [of "add_current _", OF c])
qed

section \<open>The result in closed form\<close>

definition other_qualifiers :: "(py_str \<times> 'a) list \<Rightarrow> py_str list" where
  "other_qualifiers evs = sorted_list_of_set (fst ` set evs - {''missing'', ''extra''})"

lemma fst_mem: "q \<in> fst ` S \<longleftrightarrow> (\<exists>x. (q, x) \<in> S)"
  by force

lemma fst_filter_key: "fst ` set (filter (\<lambda>(q, items). P q) xs) = {q. P q \<and> q \<in> fst ` set xs}"
  by force

lemma sorted_groups_mem:
  assumes ok: "dict_ok g" and keys: "fst ` set evs \<subseteq> fst ` set g"
    and get: "\<And>q. dict_get_default g q [] = items_of evs q"
  shows "(q, xs) \<in> set (map (\<lambda>(q, items). (q, f items)) (filter (\<lambda>(q, items). items \<noteq> []) g))
    \<longleftrightarrow> q \<in> fst ` set evs \<and> xs = f (items_of evs q)"
proof -
  have item: "ys = items_of evs q" if "(q, ys) \<in> set g" for ys
    using that get [of q] dict_mem_get [OF ok, of q ys] by (simp add: dict_get_default_def)
  have in_sg: "(q, xs) \<in> set (map (\<lambda>(q, items). (q, f items)) (filter (\<lambda>(q, items). items \<noteq> []) g))
      \<longleftrightarrow> (\<exists>ys. (q, ys) \<in> set g \<and> ys \<noteq> [] \<and> xs = f ys)" by force
  show ?thesis
  proof
    assume "(q, xs) \<in> set (map (\<lambda>(q, items). (q, f items)) (filter (\<lambda>(q, items). items \<noteq> []) g))"
    then show "q \<in> fst ` set evs \<and> xs = f (items_of evs q)"
      unfolding in_sg using item items_of_nonempty [of evs q] by auto
  next
    assume q: "q \<in> fst ` set evs \<and> xs = f (items_of evs q)"
    then obtain ys where "(q, ys) \<in> set g" using keys by force
    then show "(q, xs) \<in> set (map (\<lambda>(q, items). (q, f items)) (filter (\<lambda>(q, items). items \<noteq> []) g))"
      unfolding in_sg using q item items_of_nonempty [of evs q] by auto
  qed
qed

lemma presence_first_sorted:
  assumes d: "distinct (map fst sg)" and mem: "\<And>q xs. (q, xs) \<in> set sg \<longleftrightarrow> q \<in> fst ` set evs \<and> xs = h q"
  shows "presence_first sg = map (\<lambda>q. (q, h q)) (filter (\<lambda>q. q \<in> fst ` set evs) [''missing'', ''extra''] @ other_qualifiers evs)"
proof -
  define rest where "rest = filter (\<lambda>(q, items). q \<noteq> ''missing'' \<and> q \<noteq> ''extra'') sg"
  have get: "dict_get sg q = (if q \<in> fst ` set evs then Some (h q) else None)" for q
    using mem [of q] map_of_eq_Some_iff [OF d] by (metis option.exhaust)
  have keys: "fst ` set sg = fst ` set evs" 
  proof (rule set_eqI)
    fix q
    have "q \<in> fst ` set sg \<longleftrightarrow> (\<exists>xs. (q, xs) \<in> set sg)" by (rule fst_mem)
    also have "\<dots> \<longleftrightarrow> q \<in> fst ` set evs" unfolding mem by blast
    finally show "q \<in> fst ` set sg \<longleftrightarrow> q \<in> fst ` set evs" .
  qed
  have drest: "distinct (map fst rest)" unfolding rest_def by (rule distinct_map_filter [OF d])
  have srest: "fst ` set rest = fst ` set evs - {''missing'', ''extra''}"
    unfolding rest_def fst_filter_key [of "\<lambda>q. q \<noteq> ''missing'' \<and> q \<noteq> ''extra''"] keys by blast
  have sorted: "sort (map fst rest) = other_qualifiers evs"
    using sorted_list_of_set_sort_remdups [of "map fst rest"] drest
    by (simp only: other_qualifiers_def srest [symmetric] set_map distinct_remdups_id)
  have getrest: "the (dict_get rest q) = h q" if "q \<in> set (other_qualifiers evs)" for q
  proof -
    have "q \<in> fst ` set rest" using that srest by (simp add: other_qualifiers_def)
    then obtain xs where xs: "(q, xs) \<in> set rest" by force
    then have "xs = h q" using mem by (simp add: rest_def)
    then have "dict_get rest q = Some (h q)" using xs map_of_eq_Some_iff [OF drest] by blast
    then show ?thesis by simp
  qed
  have front: "List.map_filter (\<lambda>q. map_option (\<lambda>items. (q, items)) (dict_get sg q)) qs
      = map (\<lambda>q. (q, h q)) (filter (\<lambda>q. q \<in> fst ` set evs) qs)" for qs
    by (induction qs) (auto simp: List.map_filter_simps get)
  show ?thesis unfolding presence_first_def Let_def rest_def [symmetric] sorted map_append front
    using getrest by (intro arg_cong2 [of _ _ _ _ "(@)"] map_cong) simp_all
qed

lemma diff_closed_form:
  "diff_snapshots b c = map (\<lambda>q. (q, sort_items (items_of (drift_events b c) q)))
     (filter (\<lambda>q. q \<in> fst ` set (drift_events b c)) [''missing'', ''extra''] @ other_qualifiers (drift_events b c))"
proof -
  have ok: "dict_ok (group_drift b c)" unfolding group_drift_events by (rule append_all_ok) (simp add: dict_ok_def)
  have keys: "fst ` set (drift_events b c) \<subseteq> fst ` set (group_drift b c)"
    using append_all_keys [of "drift_events b c" "[(''missing'', []), (''extra'', [])]"]
    by (simp add: group_drift_events dict_keys_def subset_insertI2)
  have get: "dict_get_default (group_drift b c) q [] = items_of (drift_events b c) q" for q
    by (simp add: group_drift_events append_all_get) (simp add: dict_get_default_def)
  have "distinct (map fst (map (\<lambda>(q, items). (q, sort_items items)) (filter (\<lambda>(q, items). items \<noteq> []) (group_drift b c))))"
    using ok by (simp add: dict_ok_def case_prod_unfold comp_def distinct_map_filter)
  then show ?thesis unfolding diff_snapshots_def by (rule presence_first_sorted) (rule sorted_groups_mem [OF ok keys get])
qed

section \<open>Visits without ambiguous snapshots\<close>

definition unique_keys :: "ResourceSnapshot list \<Rightarrow> bool" where
  "unique_keys ss \<longleftrightarrow> distinct (map snap_key ss)"

text \<open>What it means that a resource drifted between two sets of snapshots.\<close>

definition drifted :: "ResourceSnapshot set \<Rightarrow> ResourceSnapshot set \<Rightarrow> py_str \<Rightarrow> QualifiedSnapshot \<Rightarrow> bool" where
  "drifted B C q item \<longleftrightarrow>
     (case q_baseline item of
        None \<Rightarrow> q = ''missing'' \<and> q_snapshot item \<in> B \<and> snap_key (q_snapshot item) \<notin> snap_key ` C
             \<or> q = ''extra'' \<and> q_snapshot item \<in> C \<and> snap_key (q_snapshot item) \<notin> snap_key ` B
      | Some t \<Rightarrow> t \<in> B \<and> q_snapshot item \<in> C \<and> snap_key t = snap_key (q_snapshot item)
             \<and> (\<exists>ch \<in> set (inconsistency_checks (q_snapshot item)). qualifier ch = q \<and> modified t (q_snapshot item) ch))"

lemma by_key_unique: "unique_keys ss \<Longrightarrow> by_key ss = map (\<lambda>s. (snap_key s, s)) ss"
proof -
  have "distinct (map snap_key ss) \<Longrightarrow> fst ` set d \<inter> snap_key ` set ss = {} \<Longrightarrow>
      fold (\<lambda>s. dict_set (snap_key s) s) ss d = d @ map (\<lambda>s. (snap_key s, s)) ss" for d
  proof (induction ss arbitrary: d)
    case (Cons s ss)
    have "dict_set (snap_key s) s d = d @ [(snap_key s, s)]"
      using Cons.prems(2) by (induction d) auto
    then show ?case using Cons by auto
  qed simp
  then show "unique_keys ss \<Longrightarrow> by_key ss = map (\<lambda>s. (snap_key s, s)) ss" by (simp add: by_key_def unique_keys_def)
qed

lemma by_key_get:
  assumes "unique_keys ss"
  shows "dict_get (by_key ss) k = Some s \<longleftrightarrow> s \<in> set ss \<and> snap_key s = k" and "dict_get (by_key ss) k = None \<longleftrightarrow> k \<notin> snap_key ` set ss"
proof -
  have "distinct (map fst (map (\<lambda>s. (snap_key s, s)) ss))" using assms by (simp add: unique_keys_def comp_def)
  then have "dict_get (by_key ss) k = Some s \<longleftrightarrow> (k, s) \<in> set (map (\<lambda>s. (snap_key s, s)) ss)"
    unfolding by_key_unique [OF assms] by (rule map_of_eq_Some_iff)
  then show "dict_get (by_key ss) k = Some s \<longleftrightarrow> s \<in> set ss \<and> snap_key s = k" by auto
  show "dict_get (by_key ss) k = None \<longleftrightarrow> k \<notin> snap_key ` set ss"
    using assms by (simp add: by_key_unique map_of_eq_None_iff image_image)
qed

lemma drift_events_mem:
  assumes "unique_keys b" and "unique_keys c"
  shows "(q, item) \<in> set (drift_events b c) \<longleftrightarrow> drifted (set b) (set c) q item"
proof -
  have m: "(q, item) \<in> set (concat (map (missing_events (by_key c)) (by_key b)))
      \<longleftrightarrow> q = ''missing'' \<and> q_baseline item = None \<and> q_snapshot item \<in> set b \<and> snap_key (q_snapshot item) \<notin> snap_key ` set c"
    using assms by (cases item) (auto simp: by_key_unique [OF assms(1)] missing_events_def by_key_get(2))
  have e: "(q, item) \<in> set (current_events (by_key b) (snap_key s, s)) \<longleftrightarrow> q_snapshot item = s \<and>
      (case q_baseline item of None \<Rightarrow> q = ''extra'' \<and> snap_key s \<notin> snap_key ` set b
       | Some t \<Rightarrow> t \<in> set b \<and> snap_key t = snap_key s \<and> (\<exists>ch \<in> set (inconsistency_checks s). qualifier ch = q \<and> modified t s ch))" for s
  proof (cases "dict_get (by_key b) (snap_key s)")
    case None
    then have "snap_key s \<notin> snap_key ` set b" and "\<And>t. t \<in> set b \<Longrightarrow> snap_key t \<noteq> snap_key s"
      using by_key_get(2) [OF assms(1)] by (auto, metis imageI)
    moreover have "current_events (by_key b) (snap_key s, s) = [(''extra'', \<lparr>q_snapshot = s, q_baseline = None\<rparr>)]"
      using None by (simp add: current_events_def)
    ultimately show ?thesis by (cases item) (auto split: option.splits)
  next
    case (Some t)
    then have t: "t \<in> set b" "snap_key t = snap_key s" and u: "\<And>t'. t' \<in> set b \<Longrightarrow> snap_key t' = snap_key s \<Longrightarrow> t' = t"
      using by_key_get(1) [OF assms(1), of "snap_key s"] by (simp, simp, metis option.inject)
    then have n: "snap_key s \<in> snap_key ` set b" by (metis imageI)
    have ev: "current_events (by_key b) (snap_key s, s) = modifications t s" using Some by (simp add: current_events_def)
    have mods: "(q, item) \<in> set (modifications t s) \<longleftrightarrow> q_snapshot item = s \<and> q_baseline item = Some t
        \<and> (\<exists>ch \<in> set (inconsistency_checks s). qualifier ch = q \<and> modified t s ch)"
      by (cases item) (auto simp: modifications_def)
    show ?thesis
    proof (cases "q_baseline item")
      case None
      then show ?thesis unfolding ev mods using n by simp
    next
      case (Some t')
      then have "t' \<in> set b \<and> snap_key t' = snap_key s \<longleftrightarrow> t' = t" using t u by blast
      then show ?thesis unfolding ev mods using Some by auto
    qed
  qed
  show ?thesis unfolding drift_events_def set_append Un_iff m
    by (cases "q_baseline item") (auto simp: drifted_def by_key_unique [OF assms(2)] e split: option.splits)
qed

text \<open>For each qualifier, the snapshots that exhibit it have different keys.\<close>

lemma distinct_single_items:
  assumes "\<And>x. x \<in> set xs \<Longrightarrow> f x = [] \<or> (\<exists>i. f x = [i] \<and> k i = g x)" and "distinct (map g xs)"
  shows "distinct (map k (concat (map f xs)))"
  using assms
proof (induction xs)
  case (Cons x xs)
  have "k ` set (f y) \<subseteq> {g y}" if "y \<in> set (x # xs)" for y using Cons.prems(1) [OF that] by auto
  then have "k ` set (concat (map f xs)) \<subseteq> g ` set xs" by fastforce
  then have "g x \<notin> set (map k (concat (map f xs)))" using Cons.prems(2) by auto
  moreover have "distinct (map k (concat (map f xs)))" using Cons by simp
  moreover have "f x = [] \<or> (\<exists>i. f x = [i] \<and> k i = g x)" by (rule Cons.prems(1)) simp
  ultimately show ?case by auto
qed simp

lemma items_of_concat: "items_of (concat (map ev xs)) q = concat (map (\<lambda>x. items_of (ev x) q) xs)"
  by (induction xs) (simp_all, simp add: items_of_def)

lemma items_of_modifications: "items_of (modifications t s) q = [] \<or> items_of (modifications t s) q = [\<lparr>q_snapshot = s, q_baseline = Some t\<rparr>]"
proof -
  have d: "distinct (map qualifier cs) \<Longrightarrow> length (filter (\<lambda>c. qualifier c = q) cs) \<le> 1" for cs
    by (induction cs) (auto simp: filter_empty_conv image_iff)
  have "distinct (map qualifier (filter (modified t s) (inconsistency_checks s)))"
    using check_qualifiers_distinct by (rule distinct_map_filter)
  from d [OF this] show ?thesis
    by (cases "filter (\<lambda>c. qualifier c = q) (filter (modified t s) (inconsistency_checks s))")
      (auto simp: items_of_def modifications_def filter_map comp_def case_prod_unfold simp del: filter_filter)
qed

lemma drift_items_distinct:
  assumes "unique_keys b" and "unique_keys c"
  shows "distinct (map (\<lambda>i. snap_key (q_snapshot i)) (items_of (drift_events b c) q))"
proof -
  have m: "distinct (map (\<lambda>i. snap_key (q_snapshot i)) (items_of (concat (map (missing_events (by_key c)) (by_key b))) q))"
    unfolding items_of_concat
  proof (rule distinct_single_items [where g = fst])
    fix x assume "x \<in> set (by_key b)"
    then obtain s where x: "x = (snap_key s, s)" using assms(1) by (auto simp: by_key_unique)
    show "items_of (missing_events (by_key c) x) q = [] \<or> (\<exists>i. items_of (missing_events (by_key c) x) q = [i] \<and> snap_key (q_snapshot i) = fst x)"
      by (simp add: x missing_events_def items_of_def)
  qed (use assms(1) in \<open>simp add: by_key_unique unique_keys_def comp_def\<close>)
  have e: "distinct (map (\<lambda>i. snap_key (q_snapshot i)) (items_of (concat (map (current_events (by_key b)) (by_key c))) q))"
    unfolding items_of_concat
  proof (rule distinct_single_items [where g = fst])
    fix x assume "x \<in> set (by_key c)"
    then obtain s where x: "x = (snap_key s, s)" using assms(2) by (auto simp: by_key_unique)
    show "items_of (current_events (by_key b) x) q = [] \<or> (\<exists>i. items_of (current_events (by_key b) x) q = [i] \<and> snap_key (q_snapshot i) = fst x)"
    proof (cases "dict_get (by_key b) (snap_key s)")
      case None
      then show ?thesis by (auto simp: x current_events_def items_of_def)
    next
      case (Some t)
      then show ?thesis using items_of_modifications [of t s q] by (auto simp: x current_events_def)
    qed
  qed (use assms(2) in \<open>simp add: by_key_unique unique_keys_def comp_def\<close>)
  have "items_of (concat (map (missing_events (by_key c)) (by_key b))) q = []" if "q \<noteq> ''missing''"
    unfolding items_of_concat using that by (auto simp: missing_events_def items_of_def)
  moreover have "items_of (concat (map (current_events (by_key b)) (by_key c))) ''missing'' = []"
    unfolding items_of_concat
    by (fastforce simp: current_events_def items_of_def modifications_def filter_empty_conv
        dest: check_qualifiers_fresh split: option.splits)
  ultimately show ?thesis using m e by (cases "q = ''missing''") (simp_all add: drift_events_def)
qed

lemma sort_items_sorted:
  assumes "distinct (map (\<lambda>i. snap_key (q_snapshot i)) xs)"
  shows "sorted_wrt (<) (map (\<lambda>i. snap_key (q_snapshot i)) (sort_items xs))"
proof -
  have "distinct (map (\<lambda>i. snap_key (q_snapshot i)) (sort_items xs))"
    using assms by (metis mset_map mset_eq_imp_distinct_iff mset_sort sort_items_def)
  then show ?thesis unfolding sort_items_def by (simp add: strict_sorted_iff sorted_sort_key)
qed

lemma sort_items_unique:
  assumes "distinct (map (\<lambda>i. snap_key (q_snapshot i)) xs)" and "distinct (map (\<lambda>i. snap_key (q_snapshot i)) ys)" and "set xs = set ys"
  shows "sort_items xs = sort_items ys"
proof -
  have "mset xs = mset (sort_items ys)"
    using assms by (simp add: sort_items_def set_eq_iff_mset_eq_distinct [symmetric] distinct_map)
  moreover have "inj_on (\<lambda>i. snap_key (q_snapshot i)) (set xs)" using assms(1) by (simp add: distinct_map)
  ultimately show ?thesis unfolding sort_items_def by (rule sort_key_inj_key_eq) simp
qed

section \<open>No drift\<close>

text \<open>
  Two snapshots of one resource agree in everything declared, where the ports of a service may
  still be unset in one of them.
\<close>

definition settled :: "ResourceSnapshot \<Rightarrow> ResourceSnapshot \<Rightarrow> bool" where
  "settled t s \<longleftrightarrow> declared t = declared s \<or>
     (\<exists>n ns ty ip p a ip' p' a'. t = ServiceSnapshot n ns ty ip p a \<and> s = ServiceSnapshot n ns ty ip' p' a' \<and> (p = [] \<or> p' = []))"

lemma unmodified_iff:
  "snap_key t = snap_key s \<Longrightarrow> (\<forall>ch \<in> set (inconsistency_checks s). \<not> modified t s ch) \<longleftrightarrow> settled t s"
  by (cases t; cases s) (auto simp: same_key settled_def modified_def check_def Let_def)

lemma set_qualifiers:
  "set (filter (\<lambda>q. q \<in> fst ` set evs) [''missing'', ''extra''] @ other_qualifiers evs) = fst ` set evs"
  by (simp only: other_qualifiers_def set_append set_filter set_sorted_list_of_set finite_imageI finite_Diff finite_set list.set) blast

lemma in_diff:
  "(q, items) \<in> set (diff_snapshots b c) \<longleftrightarrow> q \<in> fst ` set (drift_events b c) \<and> items = sort_items (items_of (drift_events b c) q)"
  unfolding diff_closed_form set_map set_qualifiers by blast

lemma in_items_of: "item \<in> set (items_of evs q) \<longleftrightarrow> (q, item) \<in> set evs"
  by (force simp: items_of_def)

lemma event_qualifier: "q \<in> fst ` set evs \<longleftrightarrow> (\<exists>item. (q, item) \<in> set evs)"
  by (rule fst_mem)

lemma diff_order_irrelevant:
  assumes "unique_keys b" "unique_keys c" "unique_keys b'" "unique_keys c'" "set b' = set b" "set c' = set c"
  shows "diff_snapshots b' c' = diff_snapshots b c"
proof -
  have ev: "(q, i) \<in> set (drift_events b' c') \<longleftrightarrow> (q, i) \<in> set (drift_events b c)" for q i
    using assms by (simp add: drift_events_mem)
  have q: "fst ` set (drift_events b' c') = fst ` set (drift_events b c)" unfolding set_eq_iff event_qualifier ev by blast
  have "sort_items (items_of (drift_events b' c') q) = sort_items (items_of (drift_events b c) q)" for q
    using assms ev by (intro sort_items_unique drift_items_distinct) (auto simp: in_items_of)
  then show ?thesis by (simp add: diff_closed_form other_qualifiers_def q)
qed

lemma diff_empty_iff:
  assumes b: "unique_keys b" and c: "unique_keys c"
  shows "diff_snapshots b c = [] \<longleftrightarrow> snap_key ` set b = snap_key ` set c
     \<and> (\<forall>t \<in> set b. \<forall>s \<in> set c. snap_key t = snap_key s \<longrightarrow> settled t s)"
proof -
  have "diff_snapshots b c = [] \<longleftrightarrow> fst ` set (drift_events b c) = {}"
    unfolding diff_closed_form set_empty [symmetric] set_map set_qualifiers by (simp only: image_is_empty)
  also have "\<dots> \<longleftrightarrow> (\<forall>q item. (q, item) \<notin> set (drift_events b c))"
    unfolding set_eq_iff event_qualifier by blast
  also have "\<dots> \<longleftrightarrow> (\<forall>q s. \<not> drifted (set b) (set c) q \<lparr>q_snapshot = s, q_baseline = None\<rparr>)
      \<and> (\<forall>q s t. \<not> drifted (set b) (set c) q \<lparr>q_snapshot = s, q_baseline = Some t\<rparr>)"
    unfolding drift_events_mem [OF b c] by (metis (full_types) QualifiedSnapshot.cases option.exhaust)
  also have "(\<forall>q s. \<not> drifted (set b) (set c) q \<lparr>q_snapshot = s, q_baseline = None\<rparr>)
      \<longleftrightarrow> snap_key ` set b = snap_key ` set c"
    by (auto simp: drifted_def)
  also have "(\<forall>q s t. \<not> drifted (set b) (set c) q \<lparr>q_snapshot = s, q_baseline = Some t\<rparr>)
      \<longleftrightarrow> (\<forall>t \<in> set b. \<forall>s \<in> set c. snap_key t = snap_key s \<longrightarrow> settled t s)"
    using unmodified_iff by (auto simp: drifted_def) blast+
  finally show ?thesis .
qed

section \<open>All observations\<close>

definition obs_key :: "ResourceObservation \<Rightarrow> State \<times> py_str \<times> py_str" where
  "obs_key obs = (obs_state obs, obs_controller obs, obs_model obs)"

text \<open>An application opts out of a kind if some observation of its model says so.\<close>

definition opted_out :: "ResourceObservation list \<Rightarrow> py_str \<Rightarrow> py_str \<Rightarrow> ResourceSnapshot \<Rightarrow> bool" where
  "opted_out observations c m s \<longleftrightarrow> (\<exists>obs \<in> set observations. obs_controller obs = c \<and> obs_model obs = m
     \<and> (\<exists>kinds. (application s, kinds) \<in> set (skips_by_application obs) \<and> resource_kind s \<in> kinds))"

definition visible :: "(ResourceSnapshot list \<Rightarrow> ResourceSnapshot list) \<Rightarrow> ResourceObservation list \<Rightarrow> ResourceObservation
    \<Rightarrow> ResourceSnapshot list" where
  "visible order observations obs = order (filter (\<lambda>s. \<not> opted_out observations (obs_controller obs) (obs_model obs) s) (obs_snapshots obs))"

lemma fold_union_get:
  fixes ps :: "('a \<times> 'b set) list"
  shows "dict_get_default (fold (\<lambda>(a, s) d. dict_set (f a) (dict_get_default d (f a) {} \<union> s) d) ps d) k {}
    = dict_get_default d k {} \<union> \<Union> {s. \<exists>a. (a, s) \<in> set ps \<and> f a = k}"
proof (induction ps arbitrary: d)
  case (Cons p ps)
  have "dict_get_default (dict_set (f a) (dict_get_default d (f a) {} \<union> s) d) k {}
      = dict_get_default d k {} \<union> (if f a = k then s else {})" for a s
    by (auto simp: dict_get_default_def dict_get_set)
  then show ?case using Cons by (cases p) auto
qed (simp add: dict_get_default_def)

lemma add_skips_get:
  "dict_get_default (add_skips obs d) (c, m, app) {} = dict_get_default d (c, m, app) {} \<union>
     \<Union> {kinds. obs_controller obs = c \<and> obs_model obs = m \<and> (app, kinds) \<in> set (skips_by_application obs)}"
  using fold_union_get [of "\<lambda>app. (obs_controller obs, obs_model obs, app)" "skips_by_application obs" d "(c, m, app)"]
  by (auto simp: add_skips_def Let_def)

lemma resolve_skips_get:
  "resource_kind s \<in> dict_get_default (resolve_skips observations) (c, m, application s) {} \<longleftrightarrow> opted_out observations c m s"
proof -
  have "dict_get_default (fold add_skips os d) (c, m, app) {} = dict_get_default d (c, m, app) {} \<union>
     \<Union> {kinds. \<exists>obs \<in> set os. obs_controller obs = c \<and> obs_model obs = m \<and> (app, kinds) \<in> set (skips_by_application obs)}" for os d app
    by (induction os arbitrary: d) (auto simp: add_skips_get)
  then show ?thesis by (auto simp: resolve_skips_def opted_out_def dict_get_default_def)
qed

lemma without_skipped_visible:
  "without_skipped order (obs_snapshots obs) (obs_controller obs) (obs_model obs) (resolve_skips observations) = visible order observations obs"
  by (simp add: without_skipped_def visible_def resolve_skips_get)

text \<open>What the later visits of a state report against its first visit.\<close>

fun reports :: "(ResourceObservation \<Rightarrow> ResourceSnapshot list) \<Rightarrow> ResourceObservation list \<Rightarrow> ResourceObservation list
    \<Rightarrow> ModelResourceDiscrepancy list" where
  "reports vis before [] = []"
| "reports vis before (obs # rest) =
     (case List.find (\<lambda>f. obs_key f = obs_key obs) before of
        None \<Rightarrow> []
      | Some f \<Rightarrow> if diff_snapshots (vis f) (vis obs) = [] then []
          else [\<lparr>dis_state = obs_state obs, dis_controller = obs_controller obs, dis_model = obs_model obs,
                 dis_qualified = diff_snapshots (vis f) (vis obs)\<rparr>])
     @ reports vis (before @ [obs]) rest"

lemma find_append: "List.find P (xs @ ys) = (case List.find P xs of None \<Rightarrow> List.find P ys | Some x \<Rightarrow> Some x)"
  by (induction xs) auto

lemma visits_report:
  assumes "\<And>k. dict_get bl k = map_option (visible order observations) (List.find (\<lambda>f. obs_key f = k) before)"
  shows "snd (fold (visit order (resolve_skips observations)) rest (bl, ds)) = ds @ reports (visible order observations) before rest"
  using assms
proof (induction rest arbitrary: bl ds before)
  case (Cons obs rest)
  let ?vis = "visible order observations"
  have key: "obs_key obs = (obs_state obs, obs_controller obs, obs_model obs)" by (simp add: obs_key_def)
  show ?case
  proof (cases "List.find (\<lambda>f. obs_key f = obs_key obs) before")
    case None
    have "dict_get (dict_set (obs_key obs) (?vis obs) bl) k = map_option ?vis (List.find (\<lambda>f. obs_key f = k) (before @ [obs]))" for k
      using Cons.prems [of k] None by (auto simp: dict_get_set find_append split: option.splits)
    from Cons.IH [OF this, of ds] show ?thesis
      using None Cons.prems [of "obs_key obs"] by (simp add: visit_def Let_def without_skipped_visible key)
  next
    case (Some f)
    have "dict_get bl k = map_option ?vis (List.find (\<lambda>f. obs_key f = k) (before @ [obs]))" for k
      using Cons.prems [of k] Some by (auto simp: find_append split: option.splits)
    from Cons.IH [OF this] show ?thesis
      using Some Cons.prems [of "obs_key obs"] by (simp add: visit_def Let_def without_skipped_visible key)
  qed
qed simp

lemma calculate_reports: "calculate_discrepancies order observations = reports (visible order observations) [] observations"
  using visits_report [of "[]" order observations "[]" observations "[]"] by (simp add: calculate_discrepancies_def)

lemma split_Cons:
  "(\<exists>mid y after. x # xs = mid @ y # after \<and> P mid y) \<longleftrightarrow> P [] x \<or> (\<exists>mid y after. xs = mid @ y # after \<and> P (x # mid) y)"
  by (auto simp: Cons_eq_append_conv)

definition reported :: "(ResourceObservation \<Rightarrow> ResourceSnapshot list) \<Rightarrow> ResourceObservation list \<Rightarrow> ResourceObservation
    \<Rightarrow> ModelResourceDiscrepancy \<Rightarrow> bool" where
  "reported vis before obs d \<longleftrightarrow> (\<exists>f. List.find (\<lambda>f. obs_key f = obs_key obs) before = Some f \<and> diff_snapshots (vis f) (vis obs) \<noteq> []
     \<and> d = \<lparr>dis_state = obs_state obs, dis_controller = obs_controller obs, dis_model = obs_model obs,
            dis_qualified = diff_snapshots (vis f) (vis obs)\<rparr>)"

lemma in_reports:
  "d \<in> set (reports vis before rest) \<longleftrightarrow> (\<exists>mid obs after. rest = mid @ obs # after \<and> reported vis (before @ mid) obs d)"
proof (induction rest arbitrary: before)
  case (Cons obs rest)
  have "d \<in> set (reports vis before (obs # rest)) \<longleftrightarrow> reported vis before obs d \<or> d \<in> set (reports vis (before @ [obs]) rest)"
    by (cases "List.find (\<lambda>f. obs_key f = obs_key obs) before") (simp_all add: reported_def)
  then show ?case using Cons.IH [of "before @ [obs]"]
    by (simp only: split_Cons append_Nil2 append_assoc append_Cons append_Nil)
qed simp

section \<open>Properties\<close>

text \<open>
  C28. Comparing two visits in which no two snapshots stand for one resource is exact: under each
  qualifier stand precisely the resources that are missing, extra or changed in that way, each
  with its counterpart, strictly sorted; \<open>missing\<close> and \<open>extra\<close> come first and the other
  qualifiers follow in alphabetic order; and the result does not depend on the iteration order.
\<close>

theorem diff_snapshots_exact:
  assumes "unique_keys b" and "unique_keys c"
  shows "(\<forall>(q, items) \<in> set (diff_snapshots b c). items \<noteq> []
        \<and> sorted_wrt (<) (map (\<lambda>i. snap_key (q_snapshot i)) items) \<and> set items = {item. drifted (set b) (set c) q item})
    \<and> (\<exists>rest. dict_keys (diff_snapshots b c) = filter (\<lambda>q. \<exists>item. drifted (set b) (set c) q item) [''missing'', ''extra''] @ rest
        \<and> sorted_wrt (<) rest \<and> set rest = {q. \<exists>item. drifted (set b) (set c) q item} - {''missing'', ''extra''})
    \<and> (\<forall>b' c'. unique_keys b' \<and> unique_keys c' \<and> set b' = set b \<and> set c' = set c \<longrightarrow> diff_snapshots b' c' = diff_snapshots b c)"
proof (intro conjI allI impI)
  note ev = drift_events_mem [OF assms]
  have q: "q \<in> fst ` set (drift_events b c) \<longleftrightarrow> (\<exists>item. drifted (set b) (set c) q item)" for q
    unfolding event_qualifier ev ..
  have "items \<noteq> [] \<and> sorted_wrt (<) (map (\<lambda>i. snap_key (q_snapshot i)) items) \<and> set items = {item. drifted (set b) (set c) q item}"
    if "(q, items) \<in> set (diff_snapshots b c)" for q items
  proof -
    have "q \<in> fst ` set (drift_events b c)" and i: "items = sort_items (items_of (drift_events b c) q)"
      using that unfolding in_diff by blast+
    then have "items_of (drift_events b c) q \<noteq> []" by (simp only: items_of_nonempty)
    moreover have "set items = {item. drifted (set b) (set c) q item}"
      unfolding i by (auto simp: sort_items_def in_items_of ev)
    ultimately show ?thesis using sort_items_sorted [OF drift_items_distinct [OF assms]]
      unfolding i by (metis mset_sort mset_zero_iff sort_items_def)
  qed
  then show "\<forall>(q, items) \<in> set (diff_snapshots b c). items \<noteq> []
      \<and> sorted_wrt (<) (map (\<lambda>i. snap_key (q_snapshot i)) items) \<and> set items = {item. drifted (set b) (set c) q item}" by blast
  have "dict_keys (diff_snapshots b c)
      = filter (\<lambda>q. \<exists>item. drifted (set b) (set c) q item) [''missing'', ''extra''] @ other_qualifiers (drift_events b c)"
    unfolding dict_keys_def diff_closed_form map_map by (simp only: q comp_def fst_conv map_ident)
  moreover have "set (other_qualifiers (drift_events b c)) = {q. \<exists>item. drifted (set b) (set c) q item} - {''missing'', ''extra''}"
    unfolding other_qualifiers_def using q by auto
  moreover have "sorted_wrt (<) (other_qualifiers (drift_events b c))" by (simp add: other_qualifiers_def)
  ultimately show "\<exists>rest. dict_keys (diff_snapshots b c) = filter (\<lambda>q. \<exists>item. drifted (set b) (set c) q item) [''missing'', ''extra''] @ rest
      \<and> sorted_wrt (<) rest \<and> set rest = {q. \<exists>item. drifted (set b) (set c) q item} - {''missing'', ''extra''}"
    by blast
  show "diff_snapshots b' c' = diff_snapshots b c"
    if "unique_keys b' \<and> unique_keys c' \<and> set b' = set b \<and> set c' = set c" for b' c'
    using that assms by (intro diff_order_irrelevant) auto
qed

definition demo_pvc :: "py_str \<Rightarrow> ResourceSnapshot" where
  "demo_pvc sz = PvcSnapshot ''data'' ''m'' ''ceph'' sz ''Bound'' ''db''"

theorem diff_snapshots_exact_witness:
  "diff_snapshots [demo_pvc ''1Gi'', ServiceAccountSnapshot ''sa'' ''m'' ''db''] [ServiceAccountSnapshot ''sa'' ''m'' ''db'', demo_pvc ''2Gi'']
     = [(''resized'', [\<lparr>q_snapshot = demo_pvc ''2Gi'', q_baseline = Some (demo_pvc ''1Gi'')\<rparr>])]
   \<and> diff_snapshots [demo_pvc ''1Gi'', ServiceAccountSnapshot ''sa'' ''m'' ''db''] [demo_pvc ''2Gi'', ServiceAccountSnapshot ''sa'' ''m'' ''db'']
     = [(''resized'', [\<lparr>q_snapshot = demo_pvc ''2Gi'', q_baseline = Some (demo_pvc ''1Gi'')\<rparr>])]"
proof -
  let ?b = "[demo_pvc ''1Gi'', ServiceAccountSnapshot ''sa'' ''m'' ''db'']"
  let ?c = "[ServiceAccountSnapshot ''sa'' ''m'' ''db'', demo_pvc ''2Gi'']"
  let ?c' = "[demo_pvc ''2Gi'', ServiceAccountSnapshot ''sa'' ''m'' ''db'']"
  have u: "unique_keys ?b" "unique_keys ?c" "unique_keys ?c'" by (code_simp, code_simp, code_simp)
  have d: "diff_snapshots ?b ?c = [(''resized'', [\<lparr>q_snapshot = demo_pvc ''2Gi'', q_baseline = Some (demo_pvc ''1Gi'')\<rparr>])]"
    by code_simp
  have "set ?c' = set ?c" by auto
  then have "diff_snapshots ?b ?c' = diff_snapshots ?b ?c" using diff_snapshots_exact [OF u(1,2)] u by blast
  with d show ?thesis by simp
qed

text \<open>
  No drift is reported exactly for visits that show the same resources with the same declared
  attributes: the phase of a claim, the address of a service and the owning application do not
  count, nor do the ports of a service while one of the visits saw none.
\<close>

theorem no_drift_iff_settled:
  assumes "unique_keys b" and "unique_keys c"
  shows "diff_snapshots b c = [] \<longleftrightarrow> snap_key ` set b = snap_key ` set c
     \<and> (\<forall>t \<in> set b. \<forall>s \<in> set c. snap_key t = snap_key s \<longrightarrow> settled t s)"
  using assms by (rule diff_empty_iff)

theorem no_drift_iff_settled_witness:
  "diff_snapshots [ServiceSnapshot ''db'' ''m'' ''ClusterIP'' ''10.0.0.1'' [] ''db''] [ServiceSnapshot ''db'' ''m'' ''ClusterIP'' ''10.0.0.2'' ''80/TCP'' ''db''] = []"
  by (subst no_drift_iff_settled) (simp_all add: unique_keys_def settled_def same_key)

text \<open>
  The assumption of unique keys matters: with two claims of one normalized name in a visit,
  the same two snapshots in another iteration order read as a change.
\<close>

lemma ambiguous_keys_order_dependent:
  "diff_snapshots [demo_pvc ''1Gi'', demo_pvc ''2Gi''] [demo_pvc ''2Gi'', demo_pvc ''1Gi'']
     = [(''resized'', [\<lparr>q_snapshot = demo_pvc ''1Gi'', q_baseline = Some (demo_pvc ''2Gi'')\<rparr>])]"
  by code_simp

text \<open>
  C29. The discrepancies of a run: an entry stands for an observation that is not the first of
  its state, controller and model and whose difference to that first observation is not
  empty. Both are taken without the kinds their applications opted out of, and an opt-out
  counts for the whole model whichever of its observations carries it.
\<close>

theorem discrepancies_against_first_visit:
  assumes "\<And>xs. set (order xs) = set xs"
  shows "(\<forall>d. d \<in> set (calculate_discrepancies order observations) \<longleftrightarrow>
       (\<exists>before obs after first. observations = before @ obs # after
          \<and> List.find (\<lambda>f. obs_key f = obs_key obs) before = Some first
          \<and> diff_snapshots (visible order observations first) (visible order observations obs) \<noteq> []
          \<and> d = \<lparr>dis_state = obs_state obs, dis_controller = obs_controller obs, dis_model = obs_model obs,
              dis_qualified = diff_snapshots (visible order observations first) (visible order observations obs)\<rparr>))
   \<and> (\<forall>obs. set (visible order observations obs)
        = {s \<in> set (obs_snapshots obs). \<not> opted_out observations (obs_controller obs) (obs_model obs) s})"
  using assms by (auto simp: calculate_reports in_reports reported_def visible_def)

definition demo_visit :: "ResourceSnapshot list \<Rightarrow> (py_str \<times> py_str set) list \<Rightarrow> ResourceObservation" where
  "demo_visit ss skips = \<lparr>obs_state = DEPLOYED, obs_controller = ''c'', obs_model = ''m'', obs_snapshots = ss, skips_by_application = skips\<rparr>"

theorem discrepancies_against_first_visit_witness:
  "demo_pvc ''2Gi'' \<notin> set (visible id [demo_visit [demo_pvc ''1Gi''] [], demo_visit [demo_pvc ''2Gi''] [(''db'', {''pvc''})]]
      (demo_visit [demo_pvc ''2Gi''] [(''db'', {''pvc''})]))"
proof -
  have "opted_out [demo_visit [demo_pvc ''1Gi''] [], demo_visit [demo_pvc ''2Gi''] [(''db'', {''pvc''})]] ''c'' ''m'' (demo_pvc ''2Gi'')"
    by (simp add: opted_out_def demo_visit_def demo_pvc_def)
  then show ?thesis
    using discrepancies_against_first_visit [of id "[demo_visit [demo_pvc ''1Gi''] [], demo_visit [demo_pvc ''2Gi''] [(''db'', {''pvc''})]]"]
    by (simp add: demo_visit_def)
qed

end
