(* ===== verification/Track_Sources_Correct.thy ===== *)
theory Track_Sources_Correct
  imports Track_Sources Track_Correct
begin

text \<open>
  Volatile data does not reach the comparison: the names of claims are stable across volume ids,
  and two views of a cluster that differ in volatile data only show no drift.
\<close>

section \<open>Segments of a name\<close>

lemma segments_nonempty [simp]: "segments s \<noteq> []"
  by (induction s) (auto split: list.splits)

lemma segments_append: "segments (a @ CHR ''-'' # b) = segments a @ segments b"
  by (induction a) (auto split: list.splits)

lemma segments_plain: "CHR ''-'' \<notin> set g \<Longrightarrow> segments g = [g]"
  by (induction g) auto

lemma in_some_segment: "c \<in> set s \<Longrightarrow> c \<noteq> CHR ''-'' \<Longrightarrow> \<exists>g \<in> set (segments s). c \<in> set g"
proof (induction s)
  case (Cons d s)
  then show ?case by (cases "segments s") auto
qed simp

lemma pod_suffix_chars:
  assumes "pod_suffix s" shows "\<forall>c \<in> set s. c = CHR ''-'' \<or> is_lower_alnum c"
proof -
  have "\<forall>g \<in> set (segments s). \<forall>c \<in> set g. is_lower_alnum c"
    using assms by (auto simp: pod_suffix_def Let_def list_all_iff)
  then show ?thesis using in_some_segment by blast
qed

lemma no_newline: "\<not> is_lower_alnum (CHR 0x0A)" "\<not> is_hex (CHR 0x0A)" "\<not> is_hex (CHR ''-'')" "\<not> is_hex (CHR ''<'')" "\<not> is_hex (CHR ''>'')"
  "\<not> is_lower_alnum (CHR ''<'')" "\<not> is_lower_alnum (CHR ''>'')"
  by (simp_all add: is_lower_alnum_def is_hex_def)

lemma strip_newline_pod:
  assumes "pod_suffix s" shows "strip_newline s = s"
proof (cases "s = []")
  case False
  have "last s = CHR ''-'' \<or> is_lower_alnum (last s)" using pod_suffix_chars [OF assms] last_in_set [OF False] by blast
  then have "last s \<noteq> CHR 0x0A" using no_newline(1) by auto
  then show ?thesis by (simp add: strip_newline_def)
qed (simp add: strip_newline_def)

section \<open>The greedy match\<close>

text \<open>What a volume id with its surroundings looks like.\<close>

lemma volume_restD:
  assumes "volume_rest t = Some r"
  obtains v u where "t = CHR ''-'' # v @ CHR ''-'' # u" and "length v = 8" and "list_all is_hex v" and "r = strip_newline u" and "pod_suffix r"
proof -
  obtain x y u where x: "dash t = Some x" and y: "block 8 is_hex x = Some y" and u: "dash y = Some u"
    and r: "r = strip_newline u" "pod_suffix r"
    using assms by (auto simp: volume_rest_def bind_eq_Some_conv split: option.splits if_splits)
  have "t = CHR ''-'' # x" using x by (cases t) (auto split: if_splits)
  moreover have "y = CHR ''-'' # u" using u by (cases y) (auto split: if_splits)
  moreover have "x = take 8 x @ y" "length (take 8 x) = 8" "list_all is_hex (take 8 x)"
    using y by (auto simp: block_def split: if_splits)
  ultimately show ?thesis using that [of "take 8 x" u] r by simp
qed

lemma volume_rest_tail:
  assumes "length v = 8" and "list_all is_hex v" and "strip_newline w = s" and "pod_suffix s"
  shows "volume_rest (CHR ''-'' # v @ CHR ''-'' # w) = Some s"
  using assms by (simp add: volume_rest_def block_def)

lemma volume_restI:
  assumes "length v = 8" and "list_all is_hex v" and "pod_suffix s"
  shows "volume_rest (CHR ''-'' # v @ CHR ''-'' # s) = Some s"
  using assms strip_newline_pod by (intro volume_rest_tail) auto

definition match_at :: "py_str \<Rightarrow> nat \<Rightarrow> py_str option" where
  "match_at s n = (if 0 < n \<and> n \<le> length s \<and> CHR 0x0A \<notin> set (take n s) then volume_rest (drop n s) else None)"

lemma pvc_match_Suc:
  "Suc n \<le> length s \<Longrightarrow>
    pvc_match (Suc n) s = (case match_at s (Suc n) of Some r \<Rightarrow> Some (take (Suc n) s, r) | None \<Rightarrow> pvc_match n s)"
  by (simp add: match_at_def split: option.splits)

declare pvc_match.simps(2) [simp del]

text \<open>The match takes the longest prefix that fits.\<close>

lemma pvc_match_longest:
  "n \<le> length s \<Longrightarrow> k \<le> n \<Longrightarrow> match_at s k = Some r \<Longrightarrow> (\<And>j. k < j \<Longrightarrow> j \<le> n \<Longrightarrow> match_at s j = None)
    \<Longrightarrow> pvc_match n s = Some (take k s, r)"
proof (induction n)
  case 0
  then show ?case by (simp add: match_at_def)
next
  case (Suc n)
  then show ?case by (cases "k = Suc n") (simp_all add: pvc_match_Suc)
qed

lemma pvc_match_SomeD:
  "n \<le> length s \<Longrightarrow> pvc_match n s = Some (p, r) \<Longrightarrow>
    \<exists>k \<le> n. match_at s k = Some r \<and> p = take k s \<and> (\<forall>j. k < j \<and> j \<le> n \<longrightarrow> match_at s j = None)"
proof (induction n)
  case (Suc n)
  show ?case
  proof (cases "match_at s (Suc n)")
    case None
    then obtain k where "k \<le> n" "match_at s k = Some r" "p = take k s" "\<forall>j. k < j \<and> j \<le> n \<longrightarrow> match_at s j = None"
      using Suc by (auto simp: pvc_match_Suc)
    then show ?thesis using None by (intro exI [of _ k]) (auto simp: le_Suc_eq)
  next
    case (Some r')
    then show ?thesis using Suc.prems by (intro exI [of _ "Suc n"]) (auto simp: pvc_match_Suc)
  qed
qed simp

lemma pvc_match_None: "n \<le> length s \<Longrightarrow> (\<And>k. k \<le> n \<Longrightarrow> match_at s k = None) \<Longrightarrow> pvc_match n s = None"
  by (induction n) (simp_all add: pvc_match_Suc)

section \<open>Stable claim names\<close>

definition volume_id :: "py_str \<Rightarrow> bool" where
  "volume_id v \<longleftrightarrow> length v = 8 \<and> list_all is_hex v"

lemma volume_id_plain: "volume_id v \<Longrightarrow> CHR ''-'' \<notin> set v \<and> CHR 0x0A \<notin> set v"
  using no_newline by (auto simp: volume_id_def list_all_iff)

lemma later_dash:
  assumes "CHR ''-'' \<notin> set v" and "drop i (v @ CHR ''-'' # s) = CHR ''-'' # w"
  shows "w = s \<or> (\<exists>a. s = a @ CHR ''-'' # w)"
proof (cases "i < length v")
  case True
  then have "drop i (v @ CHR ''-'' # s) = v ! i # drop (Suc i) v @ CHR ''-'' # s" by (simp add: Cons_nth_drop_Suc [symmetric])
  then show ?thesis using assms True nth_mem [OF True] by auto
next
  case False
  then show ?thesis using assms(2)
    by (cases "i - length v") (auto, metis append_take_drop_id)
qed

lemma segment_of: "volume_id v \<Longrightarrow> s = v @ CHR ''-'' # u \<or> (\<exists>a. s = a @ CHR ''-'' # v @ CHR ''-'' # u) \<Longrightarrow> v \<in> set (segments s)"
  using volume_id_plain [of v] by (auto simp: segments_append segments_plain)

lemma normalize_match:
  assumes p: "p \<noteq> []" "CHR 0x0A \<notin> set p" and v: "volume_id v" and s: "pod_suffix s"
    and last: "\<forall>g \<in> set (segments s). \<not> volume_id g"
  shows "normalize_pvc_name (p @ CHR ''-'' # v @ CHR ''-'' # s) = p @ ''-<volume-id>-'' @ s"
proof -
  let ?n = "p @ CHR ''-'' # v @ CHR ''-'' # s"
  have at: "match_at ?n (length p) = Some s"
    using p v s volume_restI [of v s] by (simp add: match_at_def volume_id_def)
  have later: "match_at ?n j = None" if j: "length p < j" for j
  proof (rule ccontr)
    assume "match_at ?n j \<noteq> None"
    then obtain r where "volume_rest (drop j ?n) = Some r" by (auto simp: match_at_def split: if_splits)
    then obtain v' u where d: "drop j ?n = CHR ''-'' # v' @ CHR ''-'' # u" and v': "length v' = 8" "list_all is_hex v'" by (rule volume_restD)
    obtain i where "j = Suc (length p + i)" using j less_iff_Suc_add by auto
    then have "drop i (v @ CHR ''-'' # s) = CHR ''-'' # v' @ CHR ''-'' # u" using d by simp
    then have "v' @ CHR ''-'' # u = s \<or> (\<exists>a. s = a @ CHR ''-'' # v' @ CHR ''-'' # u)" using later_dash volume_id_plain [OF v] by blast
    then have "v' \<in> set (segments s)" using segment_of [of v' s u] v' by (auto simp: volume_id_def)
    then show False using last v' by (auto simp: volume_id_def)
  qed
  have "pvc_match (length ?n) ?n = Some (take (length p) ?n, s)" using at later by (intro pvc_match_longest) auto
  then show ?thesis by (simp add: normalize_pvc_name_def)
qed

lemma suffix_after: "c \<notin> set (drop j (a @ c # b)) \<Longrightarrow> \<exists>a'. b = a' @ drop j (a @ c # b)"
proof -
  assume n: "c \<notin> set (drop j (a @ c # b))"
  have "length a < j" using n by (cases "length a < j") auto
  then obtain i where "j = Suc (length a + i)" using less_iff_Suc_add by auto
  then show ?thesis by simp (metis append_take_drop_id)
qed

lemma strip_newline_cases: "u = strip_newline u \<or> u = strip_newline u @ [CHR 0x0A]"
  by (auto simp: strip_newline_def) (metis append_butlast_last_id)

lemma normalize_idem: "normalize_pvc_name (normalize_pvc_name n) = normalize_pvc_name n"
proof (cases "pvc_match (length n) n")
  case None
  then show ?thesis by (simp add: normalize_pvc_name_def)
next
  case (Some pr)
  obtain p r where pr: "pr = (p, r)" by fastforce
  obtain k where k: "match_at n k = Some r" "p = take k n" and max: "\<forall>j. k < j \<and> j \<le> length n \<longrightarrow> match_at n j = None"
    using pvc_match_SomeD [of "length n" n p r] Some pr by auto
  have kn: "k \<le> length n" "CHR 0x0A \<notin> set p" and vr: "volume_rest (drop k n) = Some r"
    using k by (auto simp: match_at_def split: if_splits)
  obtain v u where d: "drop k n = CHR ''-'' # v @ CHR ''-'' # u" and v: "length v = 8" "list_all is_hex v"
    and r: "r = strip_newline u" "pod_suffix r" using vr by (rule volume_restD)
  have n: "n = p @ CHR ''-'' # v @ CHR ''-'' # u" using d k(2) by (metis append_take_drop_id)
  let ?n' = "p @ ''-<volume-id>-'' @ r"
  have norm: "normalize_pvc_name n = ?n'" using Some pr by (simp add: normalize_pvc_name_def)
  have "match_at ?n' j = None" for j
  proof (rule ccontr)
    assume "match_at ?n' j \<noteq> None"
    then obtain r' where "volume_rest (drop j ?n') = Some r'" by (auto simp: match_at_def split: if_splits)
    then obtain v' u' where d': "drop j ?n' = CHR ''-'' # v' @ CHR ''-'' # u'" and v': "length v' = 8" "list_all is_hex v'"
      and r': "r' = strip_newline u'" "pod_suffix r'" by (rule volume_restD)
    have "CHR ''>'' \<notin> set r'" using pod_suffix_chars [OF r'(2)] no_newline(7) by auto
    moreover have u': "u' = r' \<or> u' = r' @ [CHR 0x0A]" using strip_newline_cases [of u'] unfolding r'(1) [symmetric] .
    ultimately have "CHR ''>'' \<notin> set u'" by auto
    then have "CHR ''>'' \<notin> set (drop j ?n')" unfolding d' using v'(2) no_newline(5) by (auto simp: list_all_iff)
    then have "\<exists>a'. CHR ''-'' # r = a' @ drop j ?n'" using suffix_after [of "CHR ''>''" j "p @ ''-<volume-id''" "CHR ''-'' # r"] by simp
    then obtain a' where a': "CHR ''-'' # r = a' @ CHR ''-'' # v' @ CHR ''-'' # u'" unfolding d' by blast
    have nl: "CHR 0x0A \<notin> set (CHR ''-'' # r)" using pod_suffix_chars [OF r(2)] no_newline(1) by auto
    then have "CHR 0x0A \<notin> set u'" and nla: "CHR 0x0A \<notin> set a'" unfolding a' by simp_all
    then have ur: "u' = r'" using u' by auto
    let ?q = "p @ CHR ''-'' # v @ a'"
    obtain tl where tl: "u = r @ tl" "tl = [] \<or> tl = [CHR 0x0A]"
      using strip_newline_cases [of u] unfolding r(1) [symmetric] by auto
    have nq: "n = ?q @ CHR ''-'' # v' @ CHR ''-'' # u' @ tl" using a' by (simp add: n tl(1))
    have "strip_newline (u' @ tl) = u'" using tl(2) strip_newline_pod [OF r'(2)] ur by (auto simp: strip_newline_def)
    then have "volume_rest (CHR ''-'' # v' @ CHR ''-'' # u' @ tl) = Some u'"
      using v' r'(2) ur by (intro volume_rest_tail) auto
    moreover have "drop (length ?q) n = CHR ''-'' # v' @ CHR ''-'' # u' @ tl" unfolding nq by (rule append_eq_conv_conj [THEN iffD1, THEN conjunct2, symmetric]) (rule refl)
    moreover have "CHR 0x0A \<notin> set ?q" using kn(2) v nla no_newline by (auto simp: list_all_iff)
    moreover have "take (length ?q) n = ?q" unfolding nq by (rule append_eq_conv_conj [THEN iffD1, THEN conjunct1, symmetric]) (rule refl)
    moreover have le: "length ?q \<le> length n" unfolding nq by simp
    ultimately have "match_at n (length ?q) = Some u'" by (simp add: match_at_def)
    moreover have "k < length ?q" using kn(1) k(2) by simp
    ultimately show False using max le by simp
  qed
  then have "pvc_match (length ?n') ?n' = None" by (intro pvc_match_None) simp_all
  then show ?thesis unfolding norm by (simp add: normalize_pvc_name_def)
qed

section \<open>Volatile data\<close>


























section \<open>Properties\<close>

text \<open>
  The name of a storage claim does not depend on its volume id: for a claim named by a
  storage label, a volume id and a pod suffix no segment of which looks like a volume id
  itself, the id is replaced by a placeholder and the rest is kept. Normalizing twice changes
  nothing more, for any name.
\<close>

theorem pvc_names_stable:
  assumes "label \<noteq> []" and "CHR 0x0A \<notin> set label" and "volume_id v" and "volume_id w"
    and "pod_suffix s" and "\<forall>g \<in> set (segments s). \<not> volume_id g"
  shows "normalize_pvc_name (label @ ''-'' @ v @ ''-'' @ s) = label @ ''-<volume-id>-'' @ s
    \<and> normalize_pvc_name (label @ ''-'' @ v @ ''-'' @ s) = normalize_pvc_name (label @ ''-'' @ w @ ''-'' @ s)
    \<and> (\<forall>n. normalize_pvc_name (normalize_pvc_name n) = normalize_pvc_name n)"
  using normalize_match [OF assms(1,2,3,5,6)] normalize_match [OF assms(1,2,4,5,6)] normalize_idem by simp

theorem pvc_names_stable_witness:
  "normalize_pvc_name (''postgresql-k8s-pgdata'' @ ''-'' @ ''b0ba0188'' @ ''-'' @ ''postgresql-k8s-0'')
    = ''postgresql-k8s-pgdata'' @ ''-<volume-id>-'' @ ''postgresql-k8s-0''"
proof -
  have "volume_id ''b0ba0188''" "pod_suffix ''postgresql-k8s-0''" "list_all (\<lambda>g. \<not> volume_id g) (segments ''postgresql-k8s-0'')"
    by (code_simp, code_simp, code_simp)
  then show ?thesis
    using pvc_names_stable [of "''postgresql-k8s-pgdata''" "''b0ba0188''" "''b0ba0188''" "''postgresql-k8s-0''"]
    by (simp only: list_all_iff) (simp del: append.simps)
qed





end
