(* ===== verification/Bundle_Charm.thy ===== *)
theory Bundle_Charm
  imports DSL_Types Juju_Version Complex_Main
begin

text \<open>
  Charms as the bundle builder sees them (\<^verbatim>\<open>bundle_builder_x/charm.py\<close>): the requirements a
  charm states about its environment, channels, endpoints and the charm record itself.
  The module has its own copy of \<open>JujuVersion\<close> (\<^verbatim>\<open>juju_version.py\<close>), which parses, prints and
  compares like the one of \<open>Juju_Version\<close>. Frozen sets that are only iterated over are lists
  without repetition, in the order of the iteration. A float is the rational number its
  decimal text denotes.
\<close>

section \<open>Requirements on the environment\<close>

datatype assumes_op = GeOp' | GtOp' | LeOp' | LtOp' | EqOp'

definition ASSUMES_OPS :: "(py_str, assumes_op) dict" where
  "ASSUMES_OPS = [(''>='', GeOp'), (''>'', GtOp'), (''<='', LeOp'), (''<'', LtOp'), (''=='', EqOp')]"

fun assumes_holds :: "assumes_op \<Rightarrow> JujuVersion \<Rightarrow> JujuVersion \<Rightarrow> bool" where
  "assumes_holds GeOp' v w \<longleftrightarrow> w \<le> v"
| "assumes_holds GtOp' v w \<longleftrightarrow> w < v"
| "assumes_holds LeOp' v w \<longleftrightarrow> v \<le> w"
| "assumes_holds LtOp' v w \<longleftrightarrow> v < w"
| "assumes_holds EqOp' v w \<longleftrightarrow> v = w"

fun assumes_op_str :: "assumes_op \<Rightarrow> py_str" where
  "assumes_op_str GeOp' = ''>=''" | "assumes_op_str GtOp' = ''>''" | "assumes_op_str LeOp' = ''<=''"
| "assumes_op_str LtOp' = ''<''" | "assumes_op_str EqOp' = ''==''"

text \<open>The field validator: only the five operators are accepted.\<close>

definition validate_op :: "py_str option \<Rightarrow> py_error + assumes_op option" where
  "validate_op v =
     (case v of None \<Rightarrow> Inr None
      | Some s \<Rightarrow> (case dict_get ASSUMES_OPS s of None \<Rightarrow> Inl ValueError | Some op \<Rightarrow> Inr (Some op)))"

datatype CharmAssumesEntry =
  CharmAssumesEntry
    (all_of: "CharmAssumesEntry list option")
    (any_of: "CharmAssumesEntry list option")
    (assumes_op: "assumes_op option")
    (required_version: "JujuVersion option")
    (assumes_feature: "py_str option")

fun describe :: "CharmAssumesEntry \<Rightarrow> py_str" where
  "describe (CharmAssumesEntry alls anys op v f) =
     (case alls of
        Some es \<Rightarrow> ''all-of('' @ join '','' (sort (map describe es)) @ '')''
      | None \<Rightarrow>
          (case anys of
             Some es \<Rightarrow> ''any-of('' @ join '','' (sort (map describe es)) @ '')''
           | None \<Rightarrow>
               (case (op, v) of
                  (Some o', Some w) \<Rightarrow> ''juju'' @ assumes_op_str o' @ version_str w
                | _ \<Rightarrow> (case f of Some x \<Rightarrow> ''feature='' @ x | None \<Rightarrow> ''empty''))))"

text \<open>\<open>tuple(sorted(set(xs)))\<close>.\<close>

definition sorted_set :: "'a::linorder list \<Rightarrow> 'a list" where
  "sorted_set xs = sort (remdups xs)"

text \<open>
  The explanation of what an environment lacks; \<open>satisfied_by\<close> is that nothing is lacking and
  is unfolded in the test on \<open>any_of\<close>.
\<close>

fun unsatisfied_requirements :: "JujuVersion option \<Rightarrow> py_str set \<Rightarrow> CharmAssumesEntry \<Rightarrow> py_str list" where
  "unsatisfied_requirements jv fs (CharmAssumesEntry alls anys op v f) =
     (let self = CharmAssumesEntry alls anys op v f;
          from_all = (case alls of None \<Rightarrow> [] | Some es \<Rightarrow> concat (map (unsatisfied_requirements jv fs) es));
          from_any = (case anys of None \<Rightarrow> []
                      | Some es \<Rightarrow> if list_ex (\<lambda>e. unsatisfied_requirements jv fs e = []) es then [] else [describe self]);
          from_version = (case (op, v, jv) of
                            (Some o', Some w, Some u) \<Rightarrow> if assumes_holds o' u w then [] else [describe self]
                          | _ \<Rightarrow> []);
          from_feature = (case f of None \<Rightarrow> [] | Some x \<Rightarrow> if x \<in> fs then [] else [describe self])
      in sorted_set (from_all @ from_any @ from_version @ from_feature))"

definition satisfied_by :: "JujuVersion option \<Rightarrow> py_str set \<Rightarrow> CharmAssumesEntry \<Rightarrow> bool" where
  "satisfied_by jv fs e \<longleftrightarrow> unsatisfied_requirements jv fs e = []"

section \<open>Channels\<close>

record CharmChannel =
  track :: py_str
  risk :: py_str
  branch :: py_str

definition CHANNEL_RISK_ORDER :: "(py_str, nat) dict" where
  "CHANNEL_RISK_ORDER = [(''stable'', 0), (''candidate'', 1), (''beta'', 2), (''edge'', 3)]"

text \<open>\<open>s.split(sep)\<close> for a separator of one character.\<close>

fun split_on :: "char \<Rightarrow> py_str \<Rightarrow> py_str list" where
  "split_on c [] = [[]]"
| "split_on c (x # xs) =
     (if x = c then [] # split_on c xs
      else case split_on c xs of [] \<Rightarrow> [[x]] | p # ps \<Rightarrow> (x # p) # ps)"

definition channel_from_string :: "py_str \<Rightarrow> py_error + CharmChannel" where
  "channel_from_string s =
     (case split_on (CHR ''/'') s of
        [r] \<Rightarrow> Inr \<lparr>track = [], risk = r, branch = []\<rparr>
      | [a, b] \<Rightarrow> if dict_get CHANNEL_RISK_ORDER a \<noteq> None
                  then Inr \<lparr>track = [], risk = a, branch = b\<rparr>
                  else Inr \<lparr>track = a, risk = b, branch = []\<rparr>
      | [t, r, b] \<Rightarrow> Inr \<lparr>track = t, risk = r, branch = b\<rparr>
      | _ \<Rightarrow> Inl ValueError)"

definition channel_str :: "CharmChannel \<Rightarrow> py_str" where
  "channel_str c = join ''/'' (filter (\<lambda>p. p \<noteq> []) [track c, risk c, branch c])"

definition explicit_track :: "CharmChannel \<Rightarrow> py_str" where
  "explicit_track c = (if track c \<noteq> [] then track c else ''latest'')"

definition risk_rank :: "CharmChannel \<Rightarrow> nat" where
  "risk_rank c = dict_get_default CHANNEL_RISK_ORDER (risk c) 99"

definition channel_less :: "CharmChannel \<Rightarrow> CharmChannel \<Rightarrow> bool" where
  "channel_less a b \<longleftrightarrow>
     explicit_track a < explicit_track b
     \<or> explicit_track a = explicit_track b
       \<and> (risk_rank a < risk_rank b \<or> risk_rank a = risk_rank b \<and> branch a < branch b)"

section \<open>Endpoints and charms\<close>

datatype EndpointType = PEERS | REQUIRES | PROVIDES
datatype EndpointScope = CONTAINER | GLOBAL

record CharmEndpoint =
  ep_type :: EndpointType
  interface :: py_str
  optional :: bool
  limit :: "int option"
  scope :: "EndpointScope option"
  cyclic :: bool
  ep_features :: "py_str list"
  removable :: bool

record CharmEndpointProxy =
  proxy_interface :: py_str
  proxy_requires :: py_str
  proxy_provides :: py_str

datatype config_value = CStr py_str | CInt int | CFloat rat | CBool bool

text \<open>\<open>CharmConfigValue\<close> and \<open>CharmResourceValue\<close> add \<open>None\<close> to these and to strings.\<close>

record Charm =
  charm_name :: py_str
  channel :: CharmChannel
  revision :: int
  ubuntu_version :: py_str
  ubuntu_arch :: py_str
  subordinate :: bool
  charm_endpoints :: "(py_str, CharmEndpoint) dict"
  proxies :: "CharmEndpointProxy list"
  priority :: rat
  configs :: "(py_str, config_value option list) dict"
  config_defaults :: "(py_str, config_value option) dict"
  charm_resources :: "(py_str, py_str option list) dict"
  charm_assumes :: CharmAssumesEntry
  constraints :: "expr list"
  ha_units :: nat
  scale_down :: bool
  platforms :: "py_str list"

section \<open>What the requirements mean\<close>

lemma sorted_set_Nil_iff [simp]: "sorted_set xs = [] \<longleftrightarrow> xs = []"
  unfolding sorted_set_def by (metis remdups_eq_nil_iff set_empty set_sort)

lemma set_sorted_set [simp]: "set (sorted_set xs) = set xs"
  by (simp add: sorted_set_def)

text \<open>
  The requirements read as a formula. A missing Juju version satisfies every version bound, and
  an empty \<open>any_of\<close> cannot be satisfied.
\<close>

fun assumes_formula :: "JujuVersion option \<Rightarrow> py_str set \<Rightarrow> CharmAssumesEntry \<Rightarrow> bool" where
  "assumes_formula jv fs (CharmAssumesEntry alls anys op v f) \<longleftrightarrow>
     (case alls of None \<Rightarrow> True | Some es \<Rightarrow> list_all (assumes_formula jv fs) es)
     \<and> (case anys of None \<Rightarrow> True | Some es \<Rightarrow> list_ex (assumes_formula jv fs) es)
     \<and> (case (op, v, jv) of (Some o', Some w, Some u) \<Rightarrow> assumes_holds o' u w | _ \<Rightarrow> True)
     \<and> (case f of None \<Rightarrow> True | Some x \<Rightarrow> x \<in> fs)"

lemma satisfied_by_formula: "satisfied_by jv fs e \<longleftrightarrow> assumes_formula jv fs e"
  unfolding satisfied_by_def
proof (induction e rule: assumes_formula.induct)
  case (1 jv fs alls anys op v f)
  have alls: "alls = Some es \<Longrightarrow> list_all (\<lambda>e. unsatisfied_requirements jv fs e = []) es \<longleftrightarrow> list_all (assumes_formula jv fs) es" for es
    by (simp add: list_all_iff 1(1))
  have anys: "anys = Some es \<Longrightarrow> list_ex (\<lambda>e. unsatisfied_requirements jv fs e = []) es \<longleftrightarrow> list_ex (assumes_formula jv fs) es" for es
    by (simp add: list_ex_iff 1(2))
  have "(case alls of None \<Rightarrow> [] | Some es \<Rightarrow> concat (map (unsatisfied_requirements jv fs) es)) = []
      \<longleftrightarrow> (case alls of None \<Rightarrow> True | Some es \<Rightarrow> list_all (assumes_formula jv fs) es)"
    using alls by (auto simp: list_all_iff split: option.split)
  moreover have "(case anys of None \<Rightarrow> [] | Some es \<Rightarrow> if list_ex (\<lambda>e. unsatisfied_requirements jv fs e = []) es then [] else [d]) = []
      \<longleftrightarrow> (case anys of None \<Rightarrow> True | Some es \<Rightarrow> list_ex (assumes_formula jv fs) es)" for d :: py_str
    using anys by (simp split: option.split)
  moreover have "(case (op, v, jv) of (Some o', Some w, Some u) \<Rightarrow> if assumes_holds o' u w then [] else [d] | _ \<Rightarrow> []) = []
      \<longleftrightarrow> (case (op, v, jv) of (Some o', Some w, Some u) \<Rightarrow> assumes_holds o' u w | _ \<Rightarrow> True)" for d :: py_str
    by (simp split: option.split)
  moreover have "(case f of None \<Rightarrow> [] | Some x \<Rightarrow> if x \<in> fs then [] else [d]) = []
      \<longleftrightarrow> (case f of None \<Rightarrow> True | Some x \<Rightarrow> x \<in> fs)" for d :: py_str
    by (simp split: option.split)
  ultimately show ?case
    by (simp only: unsatisfied_requirements.simps assumes_formula.simps Let_def sorted_set_Nil_iff append_is_Nil_conv)
qed

text \<open>What is reported is what fails: a description of a part of the requirements.\<close>

fun assumes_parts :: "CharmAssumesEntry \<Rightarrow> CharmAssumesEntry set" where
  "assumes_parts (CharmAssumesEntry alls anys op v f) =
     insert (CharmAssumesEntry alls anys op v f)
       (case alls of None \<Rightarrow> {} | Some es \<Rightarrow> \<Union> (set (map assumes_parts es)))"

lemma unsatisfied_parts:
  "d \<in> set (unsatisfied_requirements jv fs e) \<Longrightarrow> \<exists>p \<in> assumes_parts e. d = describe p \<and> \<not> satisfied_by jv fs p"
proof (induction jv fs e rule: unsatisfied_requirements.induct)
  case (1 jv fs alls anys op v f)
  let ?e = "CharmAssumesEntry alls anys op v f"
  show ?case
  proof (cases "\<exists>es e'. alls = Some es \<and> e' \<in> set es \<and> d \<in> set (unsatisfied_requirements jv fs e')")
    case True
    then obtain es e' where "alls = Some es" "e' \<in> set es" "d \<in> set (unsatisfied_requirements jv fs e')"
      by blast
    with 1(1) [OF refl] show ?thesis by auto
  next
    case False
    then have "d = describe ?e"
      using "1.prems" by (auto simp: Let_def simp del: describe.simps split: option.splits if_splits)
    moreover have "\<not> satisfied_by jv fs ?e"
      using "1.prems" unfolding satisfied_by_def by (metis empty_iff empty_set)
    ultimately show ?thesis by auto
  qed
qed

section \<open>Reading channels back\<close>

lemma split_on_plain: "c \<notin> set p \<Longrightarrow> split_on c p = [p]"
  by (induction p) auto

lemma split_on_append: "c \<notin> set p \<Longrightarrow> split_on c (p @ c # s) = p # split_on c s"
  by (induction p) auto

text \<open>
  The channels that come from a string: no part contains a slash, the risk is not empty, a
  branch without track stands after a known risk, a track without branch is not named like
  one.
\<close>

definition channel_ok :: "CharmChannel \<Rightarrow> bool" where
  "channel_ok c \<longleftrightarrow>
     CHR ''/'' \<notin> set (track c) \<and> CHR ''/'' \<notin> set (risk c) \<and> CHR ''/'' \<notin> set (branch c) \<and> risk c \<noteq> []
     \<and> (track c = [] \<and> branch c \<noteq> [] \<longrightarrow> dict_get CHANNEL_RISK_ORDER (risk c) \<noteq> None)
     \<and> (track c \<noteq> [] \<and> branch c = [] \<longrightarrow> dict_get CHANNEL_RISK_ORDER (track c) = None)"

lemma channel_roundtrip: "channel_ok c \<Longrightarrow> channel_from_string (channel_str c) = Inr c"
  by (cases c) (auto simp: channel_ok_def channel_str_def channel_from_string_def split_on_plain split_on_append)

text \<open>
  The strict order of channels is irreflexive and transitive, but \<open>stable\<close> and
  \<open>latest/stable\<close> differ as values and neither is below the other.
\<close>

lemma channel_less_trans: "channel_less a b \<Longrightarrow> channel_less b c \<Longrightarrow> channel_less a c"
  unfolding channel_less_def by (metis less_trans)

lemma channel_order_not_total:
  "\<exists>a b. a \<noteq> b \<and> \<not> channel_less a b \<and> \<not> channel_less b a
     \<and> channel_from_string ''stable'' = Inr a \<and> channel_from_string ''latest/stable'' = Inr b"
proof (intro exI conjI)
  let ?a = "\<lparr>track = [], risk = ''stable'', branch = []\<rparr>"
  let ?b = "\<lparr>track = ''latest'', risk = ''stable'', branch = []\<rparr>"
  show "?a \<noteq> ?b" "\<not> channel_less ?a ?b" "\<not> channel_less ?b ?a"
    by (simp_all add: channel_less_def explicit_track_def risk_rank_def)
  show "channel_from_string ''stable'' = Inr ?a" "channel_from_string ''latest/stable'' = Inr ?b"
    by (simp_all add: channel_from_string_def CHANNEL_RISK_ORDER_def)
qed

end
