(* ===== verification/Bundle_Overrides.thy ===== *)
theory Bundle_Overrides
  imports Bundle_Charm
begin

text \<open>
  The override files that correct and complete charm metadata
  (\<^verbatim>\<open>bundle_builder_x/overrides.py\<close>): the criteria that select an override block, and the
  client that answers questions about a charm from the first block that applies. The directory
  of override files is the list of its entries with their parsed contents; reading YAML and the
  caching of the answers are not modelled.
\<close>

section \<open>Override blocks\<close>

datatype CharmOverridesCriteria =
  CharmOverridesCriteria
    (crit_any_of: "CharmOverridesCriteria list option")
    (crit_all_of: "CharmOverridesCriteria list option")
    (crit_none_of: "CharmOverridesCriteria list option")
    (crit_track: "py_str option")
    (crit_risk: "py_str option")
    (crit_ubuntu_version: "py_str option")

text \<open>An optional string that is missing or empty poses no condition.\<close>

definition str_cond :: "py_str option \<Rightarrow> py_str \<Rightarrow> bool" where
  "str_cond o' s \<longleftrightarrow> (case o' of None \<Rightarrow> True | Some x \<Rightarrow> x = [] \<or> s = x)"

fun criteria_meets :: "CharmChannel \<Rightarrow> py_str \<Rightarrow> CharmOverridesCriteria \<Rightarrow> bool" where
  "criteria_meets ch ubuntu (CharmOverridesCriteria anys alls nones t r u) \<longleftrightarrow>
     (case alls of None \<Rightarrow> True | Some cs \<Rightarrow> list_all (criteria_meets ch ubuntu) cs)
     \<and> (case nones of None \<Rightarrow> True | Some cs \<Rightarrow> \<not> list_ex (criteria_meets ch ubuntu) cs)
     \<and> (case anys of None \<Rightarrow> True | Some cs \<Rightarrow> cs = [] \<or> list_ex (criteria_meets ch ubuntu) cs)
     \<and> str_cond t (explicit_track ch) \<and> str_cond r (risk ch) \<and> str_cond u ubuntu"

record CharmEndpointOverrides =
  ov_optional :: "bool option"
  ov_limit :: "int option"
  ov_cyclic :: "bool option"
  ov_features :: "py_str list"
  ov_removable :: "bool option"

text \<open>One entry of an \<open>assumes\<close> list is a string or a nested mapping, kept as it is.\<close>

record CharmOverrides =
  ov_criteria :: "CharmOverridesCriteria list"
  ov_requires :: "(py_str, CharmEndpointOverrides) dict"
  ov_provides :: "(py_str, CharmEndpointOverrides) dict"
  ov_proxies :: "CharmEndpointProxy list"
  ov_configs :: "(py_str, config_value option list) dict"
  ov_resources :: "(py_str, py_str option list) dict"
  ov_constraints :: "py_str list"
  ov_assumes :: "py_val list option"
  ov_tracking_skip :: "py_str set"
  ov_ha_units :: nat
  ov_scale_down :: bool

definition default_overrides :: CharmOverrides where
  "default_overrides = \<lparr>ov_criteria = [], ov_requires = [], ov_provides = [], ov_proxies = [], ov_configs = [],
     ov_resources = [], ov_constraints = [], ov_assumes = None, ov_tracking_skip = {}, ov_ha_units = 3,
     ov_scale_down = True\<rparr>"

definition overrides_meets :: "CharmChannel \<Rightarrow> py_str \<Rightarrow> CharmOverrides \<Rightarrow> bool" where
  "overrides_meets ch ubuntu ov \<longleftrightarrow> list_all (criteria_meets ch ubuntu) (ov_criteria ov)"

record CharmGlobalOverrides =
  g_platforms :: "py_str list option"
  g_priority :: "rat option"
  g_listed :: "bool option"
  g_default_channel :: "py_str option"
  g_default_revision :: "int option"
  g_overrides :: "CharmOverrides list"

definition default_global_overrides :: CharmGlobalOverrides where
  "default_global_overrides = \<lparr>g_platforms = None, g_priority = None, g_listed = None, g_default_channel = None,
     g_default_revision = None, g_overrides = []\<rparr>"

section \<open>The client\<close>

text \<open>
  An entry of the overrides directory: stem and suffix of its name, whether it is a file,
  and the overrides its text stands for (the defaults for an empty text).
\<close>

record dir_entry =
  stem :: py_str
  suffix :: py_str
  is_file :: bool
  content :: CharmGlobalOverrides

type_synonym overrides_dir = "dir_entry list option"

definition yaml_named :: "py_str \<Rightarrow> dir_entry \<Rightarrow> bool" where
  "yaml_named charm e \<longleftrightarrow> stem e = charm \<and> suffix e = ''.yaml''"

definition get_charm_global_overrides :: "overrides_dir \<Rightarrow> py_str \<Rightarrow> CharmGlobalOverrides" where
  "get_charm_global_overrides dir charm =
     (case dir of
        None \<Rightarrow> default_global_overrides
      | Some es \<Rightarrow> (case find (yaml_named charm) es of None \<Rightarrow> default_global_overrides | Some e \<Rightarrow> content e))"

definition get_all_charm_global_overrides :: "overrides_dir \<Rightarrow> (py_str, CharmGlobalOverrides) dict" where
  "get_all_charm_global_overrides dir =
     (case dir of
        None \<Rightarrow> []
      | Some es \<Rightarrow>
          fold (\<lambda>e d. if \<not> is_file e \<or> suffix e \<noteq> ''.yaml'' then d
                      else dict_set (stem e) (get_charm_global_overrides dir (stem e)) d) es [])"

definition get_charm_overrides :: "overrides_dir \<Rightarrow> py_str \<Rightarrow> CharmChannel \<Rightarrow> py_str \<Rightarrow> CharmOverrides" where
  "get_charm_overrides dir charm ch ubuntu =
     (case find (overrides_meets ch ubuntu) (g_overrides (get_charm_global_overrides dir charm)) of
        None \<Rightarrow> default_overrides | Some ov \<Rightarrow> ov)"

definition get_charm_endpoint_overrides ::
    "overrides_dir \<Rightarrow> py_str \<Rightarrow> CharmChannel \<Rightarrow> py_str \<Rightarrow> (EndpointType, (py_str, CharmEndpointOverrides) dict) dict" where
  "get_charm_endpoint_overrides dir charm ch ubuntu =
     (let ov = get_charm_overrides dir charm ch ubuntu in [(REQUIRES, ov_requires ov), (PROVIDES, ov_provides ov)])"

definition get_charm_proxy_overrides :: "overrides_dir \<Rightarrow> py_str \<Rightarrow> CharmChannel \<Rightarrow> py_str \<Rightarrow> CharmEndpointProxy list" where
  "get_charm_proxy_overrides dir charm ch ubuntu = ov_proxies (get_charm_overrides dir charm ch ubuntu)"

definition get_charm_config_overrides ::
    "overrides_dir \<Rightarrow> py_str \<Rightarrow> CharmChannel \<Rightarrow> py_str \<Rightarrow> (py_str, config_value option list) dict" where
  "get_charm_config_overrides dir charm ch ubuntu = ov_configs (get_charm_overrides dir charm ch ubuntu)"

definition get_charm_resource_overrides ::
    "overrides_dir \<Rightarrow> py_str \<Rightarrow> CharmChannel \<Rightarrow> py_str \<Rightarrow> (py_str, py_str option list) dict" where
  "get_charm_resource_overrides dir charm ch ubuntu = ov_resources (get_charm_overrides dir charm ch ubuntu)"

definition get_charm_constraints_overrides :: "overrides_dir \<Rightarrow> py_str \<Rightarrow> CharmChannel \<Rightarrow> py_str \<Rightarrow> py_str list" where
  "get_charm_constraints_overrides dir charm ch ubuntu = ov_constraints (get_charm_overrides dir charm ch ubuntu)"

definition get_charm_resource_tracking_skips :: "overrides_dir \<Rightarrow> py_str \<Rightarrow> CharmChannel \<Rightarrow> py_str \<Rightarrow> py_str set" where
  "get_charm_resource_tracking_skips dir charm ch ubuntu = ov_tracking_skip (get_charm_overrides dir charm ch ubuntu)"

definition get_charm_ha_units :: "overrides_dir \<Rightarrow> py_str \<Rightarrow> CharmChannel \<Rightarrow> py_str \<Rightarrow> nat" where
  "get_charm_ha_units dir charm ch ubuntu = ov_ha_units (get_charm_overrides dir charm ch ubuntu)"

definition get_charm_scale_down :: "overrides_dir \<Rightarrow> py_str \<Rightarrow> CharmChannel \<Rightarrow> py_str \<Rightarrow> bool" where
  "get_charm_scale_down dir charm ch ubuntu = ov_scale_down (get_charm_overrides dir charm ch ubuntu)"

definition declared_removable :: "py_str \<Rightarrow> (py_str, CharmEndpointOverrides) dict \<Rightarrow> bool option" where
  "declared_removable endpoint endpoint_map =
     (case dict_get endpoint_map endpoint of None \<Rightarrow> None | Some o' \<Rightarrow> ov_removable o')"

definition get_charm_endpoint_removable :: "overrides_dir \<Rightarrow> py_str \<Rightarrow> CharmChannel \<Rightarrow> py_str \<Rightarrow> py_str \<Rightarrow> bool" where
  "get_charm_endpoint_removable dir charm ch endpoint ubuntu =
     (let ov = get_charm_overrides dir charm ch ubuntu in
      case declared_removable endpoint (ov_requires ov) of
        Some b \<Rightarrow> b
      | None \<Rightarrow> (case declared_removable endpoint (ov_provides ov) of Some b \<Rightarrow> b | None \<Rightarrow> True))"

definition get_charm_assumes_overrides :: "overrides_dir \<Rightarrow> py_str \<Rightarrow> CharmChannel \<Rightarrow> py_str \<Rightarrow> py_val list option" where
  "get_charm_assumes_overrides dir charm ch ubuntu = ov_assumes (get_charm_overrides dir charm ch ubuntu)"

definition get_charm_platform_overrides :: "overrides_dir \<Rightarrow> py_str \<Rightarrow> py_str list option" where
  "get_charm_platform_overrides dir charm = g_platforms (get_charm_global_overrides dir charm)"

definition get_charm_listing_overrides :: "overrides_dir \<Rightarrow> py_str set" where
  "get_charm_listing_overrides dir =
     set (map fst (filter (\<lambda>(c, g). g_listed g = Some True) (get_all_charm_global_overrides dir)))"

definition get_charm_delisting_overrides :: "overrides_dir \<Rightarrow> py_str set" where
  "get_charm_delisting_overrides dir =
     set (map fst (filter (\<lambda>(c, g). g_listed g = Some False) (get_all_charm_global_overrides dir)))"

definition get_charm_priority :: "overrides_dir \<Rightarrow> py_str \<Rightarrow> rat" where
  "get_charm_priority dir charm =
     (case g_priority (get_charm_global_overrides dir charm) of Some p \<Rightarrow> p | None \<Rightarrow> 1)"

definition get_charm_default_channel :: "overrides_dir \<Rightarrow> py_str \<Rightarrow> py_str option" where
  "get_charm_default_channel dir charm = g_default_channel (get_charm_global_overrides dir charm)"

definition get_charm_default_revision :: "overrides_dir \<Rightarrow> py_str \<Rightarrow> int option" where
  "get_charm_default_revision dir charm = g_default_revision (get_charm_global_overrides dir charm)"

section \<open>Lemmas\<close>

text \<open>The two listings are disjoint and name charms with a file of their own.\<close>

lemma all_overrides_get:
  assumes "dict_get (get_all_charm_global_overrides dir) c = Some g"
  shows "g = get_charm_global_overrides dir c \<and> (\<exists>es. dir = Some es \<and> (\<exists>e \<in> set es. is_file e \<and> yaml_named c e))"
proof -
  have "dict_get (fold (\<lambda>e d. if \<not> is_file e \<or> suffix e \<noteq> ''.yaml'' then d
                 else dict_set (stem e) (get_charm_global_overrides dir (stem e)) d) es d0) c = Some g \<Longrightarrow>
        dict_get d0 c = Some g \<or> g = get_charm_global_overrides dir c \<and> (\<exists>e \<in> set es. is_file e \<and> yaml_named c e)" for es d0
    by (induction es arbitrary: d0) (fastforce simp: dict_get_set yaml_named_def split: if_splits)+
  with assms show ?thesis by (fastforce simp: get_all_charm_global_overrides_def split: option.splits)
qed

lemma all_overrides_ok: "dict_ok (get_all_charm_global_overrides dir)"
proof -
  have "dict_ok d \<Longrightarrow> dict_ok (fold (\<lambda>e d. if \<not> is_file e \<or> suffix e \<noteq> ''.yaml'' then d
                 else dict_set (stem e) (get_charm_global_overrides dir (stem e)) d) es d)" for es :: "dir_entry list" and d
    by (induction es arbitrary: d) auto
  then show ?thesis by (simp add: get_all_charm_global_overrides_def split: option.split)
qed

lemma listings_disjoint: "get_charm_listing_overrides dir \<inter> get_charm_delisting_overrides dir = {}"
  using dict_mem_get [OF all_overrides_ok]
  by (fastforce simp: get_charm_listing_overrides_def get_charm_delisting_overrides_def)

text \<open>The block that answers is the first one whose criteria hold.\<close>

lemma get_charm_overrides_first:
  assumes "g_overrides (get_charm_global_overrides dir charm) = before @ ov # after"
    and "list_all (\<lambda>o'. \<not> overrides_meets ch ubuntu o') before" and "overrides_meets ch ubuntu ov"
  shows "get_charm_overrides dir charm ch ubuntu = ov"
proof -
  have "find (overrides_meets ch ubuntu) (before @ ov # after) = Some ov"
    using assms(2,3) by (induction before) auto
  with assms(1) show ?thesis by (simp add: get_charm_overrides_def)
qed

end
