(* ===== verification/Bundle_Z3.thy ===== *)
theory Bundle_Z3
  imports Bundle_Charm
begin

text \<open>
  The interface to the Z3 solver library. The program builds expressions with the constructors
  of the library and reads a model by evaluating expressions in it; both are parameters here:
  a record of constructors over an unknown type of expressions and an evaluation function.
  The locale states what the library documents about them. An expression has a sort, and a model
  gives it a value of this sort; relations and connectives are boolean. What an operation
  means is assumed for operands of the right sorts only, since the library raises an exception for
  others. Equality also accepts operands that the library converts, a boolean for a number and an integer for a
  real number; which ones is the parameter \<open>comparable\<close>, of which only is
  assumed that operands of the same sort are among them. A model interprets every constant by its name and its sort.
\<close>

section \<open>The constructors\<close>

datatype z3_sort = BoolSort | IntSort | RealSort | StringSort | SetSort z3_sort

record 'e z3 =
  zBool :: "py_str \<Rightarrow> 'e"
  zInt :: "py_str \<Rightarrow> 'e"
  zReal :: "py_str \<Rightarrow> 'e"
  zString :: "py_str \<Rightarrow> 'e"
  BoolVal :: "bool \<Rightarrow> 'e"
  IntVal :: "int \<Rightarrow> 'e"
  RealVal :: "rat \<Rightarrow> 'e"
  StringVal :: "py_str \<Rightarrow> 'e"
  zAnd :: "'e list \<Rightarrow> 'e"
  zOr :: "'e list \<Rightarrow> 'e"
  zNot :: "'e \<Rightarrow> 'e"
  zImplies :: "'e \<Rightarrow> 'e \<Rightarrow> 'e"
  zIf :: "'e \<Rightarrow> 'e \<Rightarrow> 'e \<Rightarrow> 'e"
  zSum :: "'e list \<Rightarrow> 'e"
  zEq :: "'e \<Rightarrow> 'e \<Rightarrow> 'e"
  zNe :: "'e \<Rightarrow> 'e \<Rightarrow> 'e"
  zLt :: "'e \<Rightarrow> 'e \<Rightarrow> 'e"
  zLe :: "'e \<Rightarrow> 'e \<Rightarrow> 'e"
  zGt :: "'e \<Rightarrow> 'e \<Rightarrow> 'e"
  zGe :: "'e \<Rightarrow> 'e \<Rightarrow> 'e"
  zAdd :: "'e \<Rightarrow> 'e \<Rightarrow> 'e"
  zSub :: "'e \<Rightarrow> 'e \<Rightarrow> 'e"
  zMul :: "'e \<Rightarrow> 'e \<Rightarrow> 'e"
  EmptySet :: "z3_sort \<Rightarrow> 'e"
  SetAdd :: "'e \<Rightarrow> 'e \<Rightarrow> 'e"
  SetUnion :: "'e \<Rightarrow> 'e \<Rightarrow> 'e"
  SetIntersect :: "'e \<Rightarrow> 'e \<Rightarrow> 'e"
  SetDifference :: "'e \<Rightarrow> 'e \<Rightarrow> 'e"
  IsMember :: "'e \<Rightarrow> 'e \<Rightarrow> 'e"
  IsSubset :: "'e \<Rightarrow> 'e \<Rightarrow> 'e"
  Contains :: "'e \<Rightarrow> 'e \<Rightarrow> 'e"
  sort_of :: "'e \<Rightarrow> z3_sort"
  comparable :: "'e \<Rightarrow> 'e \<Rightarrow> bool"

section \<open>Models and what the constructors mean\<close>

datatype zval = VBool bool | VInt int | VReal real | VStr py_str | VInts "int set" | VStrs "py_str set"

primrec val_sort :: "zval \<Rightarrow> z3_sort" where
  "val_sort (VBool b) = BoolSort" | "val_sort (VInt i) = IntSort" | "val_sort (VReal r) = RealSort"
| "val_sort (VStr s) = StringSort" | "val_sort (VInts A) = SetSort IntSort" | "val_sort (VStrs A) = SetSort StringSort"

record z3_model =
  m_bools :: "py_str \<Rightarrow> bool"
  m_ints :: "py_str \<Rightarrow> int"
  m_reals :: "py_str \<Rightarrow> real"
  m_strs :: "py_str \<Rightarrow> py_str"

definition is_substring :: "py_str \<Rightarrow> py_str \<Rightarrow> bool" where
  "is_substring x s \<longleftrightarrow> list_ex (\<lambda>i. take (length x) (drop i s) = x) [0..<Suc (length s)]"

locale z3_api =
  fixes Z :: "'e z3" and ev :: "z3_model \<Rightarrow> 'e \<Rightarrow> zval"
  assumes ev_Bool: "ev m (zBool Z n) = VBool (m_bools m n)"
    and ev_Int: "ev m (zInt Z n) = VInt (m_ints m n)"
    and ev_Real: "ev m (zReal Z n) = VReal (m_reals m n)"
    and ev_String: "ev m (zString Z n) = VStr (m_strs m n)"
    and ev_BoolVal: "ev m (BoolVal Z b) = VBool b"
    and ev_IntVal: "ev m (IntVal Z i) = VInt i"
    and ev_RealVal: "ev m (RealVal Z q) = VReal (of_rat q)"
    and ev_StringVal: "ev m (StringVal Z u) = VStr u"
    and ev_And: "list_all2 (\<lambda>e b. ev m e = VBool b) es bs \<Longrightarrow> ev m (zAnd Z es) = VBool (list_all id bs)"
    and ev_Or: "list_all2 (\<lambda>e b. ev m e = VBool b) es bs \<Longrightarrow> ev m (zOr Z es) = VBool (list_ex id bs)"
    and ev_Not: "ev m x = VBool b \<Longrightarrow> ev m (zNot Z x) = VBool (\<not> b)"
    and ev_Implies: "ev m x = VBool b \<Longrightarrow> ev m y = VBool b' \<Longrightarrow> ev m (zImplies Z x y) = VBool (b \<longrightarrow> b')"
    and ev_If: "ev m z = VBool b \<Longrightarrow> val_sort (ev m x) = val_sort (ev m y) \<Longrightarrow>
      ev m (zIf Z z x y) = (if b then ev m x else ev m y)"
    and ev_Sum: "list_all2 (\<lambda>e i. ev m e = VInt i) es ns \<Longrightarrow> ev m (zSum Z es) = VInt (sum_list ns)"
    and ev_Eq: "val_sort (ev m x) = val_sort (ev m y) \<Longrightarrow> ev m (zEq Z x y) = VBool (ev m x = ev m y)"
    and ev_Ne: "val_sort (ev m x) = val_sort (ev m y) \<Longrightarrow> ev m (zNe Z x y) = VBool (ev m x \<noteq> ev m y)"
    and ev_Lt: "ev m x = VInt i \<Longrightarrow> ev m y = VInt j \<Longrightarrow> ev m (zLt Z x y) = VBool (i < j)"
    and ev_Le: "ev m x = VInt i \<Longrightarrow> ev m y = VInt j \<Longrightarrow> ev m (zLe Z x y) = VBool (i \<le> j)"
    and ev_Gt: "ev m x = VInt i \<Longrightarrow> ev m y = VInt j \<Longrightarrow> ev m (zGt Z x y) = VBool (i > j)"
    and ev_Ge: "ev m x = VInt i \<Longrightarrow> ev m y = VInt j \<Longrightarrow> ev m (zGe Z x y) = VBool (i \<ge> j)"
    and ev_Add: "ev m x = VInt i \<Longrightarrow> ev m y = VInt j \<Longrightarrow> ev m (zAdd Z x y) = VInt (i + j)"
    and ev_Sub: "ev m x = VInt i \<Longrightarrow> ev m y = VInt j \<Longrightarrow> ev m (zSub Z x y) = VInt (i - j)"
    and ev_Mul: "ev m x = VInt i \<Longrightarrow> ev m y = VInt j \<Longrightarrow> ev m (zMul Z x y) = VInt (i * j)"
    and ev_EmptyInts: "ev m (EmptySet Z IntSort) = VInts {}"
    and ev_EmptyStrs: "ev m (EmptySet Z StringSort) = VStrs {}"
    and ev_AddInt: "ev m x = VInts A \<Longrightarrow> ev m y = VInt i \<Longrightarrow> ev m (SetAdd Z x y) = VInts (insert i A)"
    and ev_AddStr: "ev m x = VStrs B \<Longrightarrow> ev m y = VStr u \<Longrightarrow> ev m (SetAdd Z x y) = VStrs (insert u B)"
    and ev_UnionInts: "ev m x = VInts A \<Longrightarrow> ev m y = VInts A' \<Longrightarrow> ev m (SetUnion Z x y) = VInts (A \<union> A')"
    and ev_UnionStrs: "ev m x = VStrs B \<Longrightarrow> ev m y = VStrs B' \<Longrightarrow> ev m (SetUnion Z x y) = VStrs (B \<union> B')"
    and ev_InterInts: "ev m x = VInts A \<Longrightarrow> ev m y = VInts A' \<Longrightarrow> ev m (SetIntersect Z x y) = VInts (A \<inter> A')"
    and ev_InterStrs: "ev m x = VStrs B \<Longrightarrow> ev m y = VStrs B' \<Longrightarrow> ev m (SetIntersect Z x y) = VStrs (B \<inter> B')"
    and ev_DiffInts: "ev m x = VInts A \<Longrightarrow> ev m y = VInts A' \<Longrightarrow> ev m (SetDifference Z x y) = VInts (A - A')"
    and ev_DiffStrs: "ev m x = VStrs B \<Longrightarrow> ev m y = VStrs B' \<Longrightarrow> ev m (SetDifference Z x y) = VStrs (B - B')"
    and ev_MemInt: "ev m x = VInt i \<Longrightarrow> ev m y = VInts A \<Longrightarrow> ev m (IsMember Z x y) = VBool (i \<in> A)"
    and ev_MemStr: "ev m x = VStr u \<Longrightarrow> ev m y = VStrs B \<Longrightarrow> ev m (IsMember Z x y) = VBool (u \<in> B)"
    and ev_SubInts: "ev m x = VInts A \<Longrightarrow> ev m y = VInts A' \<Longrightarrow> ev m (IsSubset Z x y) = VBool (A \<subseteq> A')"
    and ev_SubStrs: "ev m x = VStrs B \<Longrightarrow> ev m y = VStrs B' \<Longrightarrow> ev m (IsSubset Z x y) = VBool (B \<subseteq> B')"
    and ev_Contains: "ev m x = VStr v \<Longrightarrow> ev m y = VStr u \<Longrightarrow> ev m (Contains Z x y) = VBool (is_substring u v)"
    and ev_sort: "val_sort (ev m x) = sort_of Z x"
    and same_sort_comparable: "sort_of Z x = sort_of Z y \<Longrightarrow> comparable Z x y"
    and sort_And: "sort_of Z (zAnd Z es) = BoolSort"
    and sort_Or: "sort_of Z (zOr Z es) = BoolSort"
    and sort_Not: "sort_of Z (zNot Z x) = BoolSort"
    and sort_Implies: "sort_of Z (zImplies Z x y) = BoolSort"
    and sort_Eq: "sort_of Z (zEq Z x y) = BoolSort"
    and sort_Ne: "sort_of Z (zNe Z x y) = BoolSort"
    and sort_Lt: "sort_of Z (zLt Z x y) = BoolSort"
    and sort_Le: "sort_of Z (zLe Z x y) = BoolSort"
    and sort_Gt: "sort_of Z (zGt Z x y) = BoolSort"
    and sort_Ge: "sort_of Z (zGe Z x y) = BoolSort"
    and sort_IsMember: "sort_of Z (IsMember Z x y) = BoolSort"
    and sort_IsSubset: "sort_of Z (IsSubset Z x y) = BoolSort"
    and sort_Contains: "sort_of Z (Contains Z x y) = BoolSort"
begin

lemma sort_eq: "ev m x = v \<Longrightarrow> sort_of Z x = val_sort v"
  using ev_sort by metis

lemma sort_consts:
  "sort_of Z (zBool Z n) = BoolSort" "sort_of Z (zInt Z n) = IntSort" "sort_of Z (zReal Z n) = RealSort" "sort_of Z (zString Z n) = StringSort"
  "sort_of Z (BoolVal Z b) = BoolSort" "sort_of Z (IntVal Z i) = IntSort" "sort_of Z (StringVal Z u) = StringSort"
  using sort_eq [OF ev_Bool] sort_eq [OF ev_Int] sort_eq [OF ev_Real] sort_eq [OF ev_String] sort_eq [OF ev_BoolVal]
    sort_eq [OF ev_IntVal] sort_eq [OF ev_StringVal] by simp_all

lemmas sort_relations = sort_And sort_Or sort_Not sort_Implies sort_Eq sort_Ne sort_Lt sort_Le sort_Gt sort_Ge sort_IsMember sort_IsSubset sort_Contains

lemmas ev_vals = ev_Bool ev_Int ev_Real ev_String ev_BoolVal ev_IntVal ev_RealVal ev_StringVal ev_EmptyInts ev_EmptyStrs
lemmas ev_ops = ev_Not ev_Implies ev_Lt ev_Le ev_Gt ev_Ge ev_Add ev_Sub ev_Mul ev_AddInt ev_AddStr
  ev_UnionInts ev_UnionStrs ev_InterInts ev_InterStrs ev_DiffInts ev_DiffStrs ev_MemInt ev_MemStr ev_SubInts ev_SubStrs
  ev_Contains

text \<open>The list constructors over mapped lists, and their binary uses.\<close>

lemma ev_And_map:
  "(\<And>x. x \<in> set xs \<Longrightarrow> ev m (f x) = VBool (P x)) \<Longrightarrow> ev m (zAnd Z (map f xs)) = VBool (\<forall>x \<in> set xs. P x)"
  by (subst ev_And [where bs = "map P xs"]) (auto simp: list_all2_conv_all_nth list_all_iff)

lemma ev_Or_map:
  "(\<And>x. x \<in> set xs \<Longrightarrow> ev m (f x) = VBool (P x)) \<Longrightarrow> ev m (zOr Z (map f xs)) = VBool (\<exists>x \<in> set xs. P x)"
  by (subst ev_Or [where bs = "map P xs"]) (auto simp: list_all2_conv_all_nth list_ex_iff)

lemma ev_Sum_map:
  "(\<And>x. x \<in> set xs \<Longrightarrow> ev m (f x) = VInt (g x)) \<Longrightarrow> ev m (zSum Z (map f xs)) = VInt (sum_list (map g xs))"
  by (rule ev_Sum) (auto simp: list_all2_conv_all_nth)

lemma ev_Sum_map_zero:
  "(\<And>x. x \<in> set xs \<Longrightarrow> ev m (f x) = VInt (g x)) \<Longrightarrow>
   ev m (zSum Z (map f xs @ [IntVal Z 0])) = VInt (sum_list (map g xs))"
  by (subst ev_Sum [where ns = "map g xs @ [0]"])
    (auto simp: list_all2_conv_all_nth nth_append ev_IntVal less_Suc_eq)

lemma ev_And2: "ev m x = VBool b \<Longrightarrow> ev m y = VBool c \<Longrightarrow> ev m (zAnd Z [x, y]) = VBool (b \<and> c)"
  by (subst ev_And [where bs = "[b, c]"]) auto

lemma ev_Or2: "ev m x = VBool b \<Longrightarrow> ev m y = VBool c \<Longrightarrow> ev m (zOr Z [x, y]) = VBool (b \<or> c)"
  by (subst ev_Or [where bs = "[b, c]"]) auto

lemma ev_If_Int: "ev m c = VBool b \<Longrightarrow> ev m x = VInt i \<Longrightarrow> ev m y = VInt j \<Longrightarrow>
    ev m (zIf Z c x y) = VInt (if b then i else j)"
  by (simp add: ev_If)

lemma ev_If_Ints: "ev m c = VBool b \<Longrightarrow> ev m x = VInts A \<Longrightarrow> ev m y = VInts B \<Longrightarrow>
    ev m (zIf Z c x y) = VInts (if b then A else B)"
  by (simp add: ev_If)

lemma ev_If_Strs: "ev m c = VBool b \<Longrightarrow> ev m x = VStrs A \<Longrightarrow> ev m y = VStrs B \<Longrightarrow>
    ev m (zIf Z c x y) = VStrs (if b then A else B)"
  by (simp add: ev_If)

end

section \<open>Terms as expressions\<close>

text \<open>An implementation of the interface: syntax trees and their evaluation.\<close>

datatype zterm =
    ZVar z3_sort py_str | ZVal zval
  | ZAnd "zterm list" | ZOr "zterm list" | ZSum "zterm list" | ZNot zterm | ZImplies zterm zterm | ZIf zterm zterm zterm
  | ZEq zterm zterm | ZLt zterm zterm | ZLe zterm zterm | ZAdd zterm zterm | ZSub zterm zterm | ZMul zterm zterm
  | ZSetAdd zterm zterm | ZUnion zterm zterm | ZInter zterm zterm | ZDiff zterm zterm
  | ZMember zterm zterm | ZSubset zterm zterm | ZContains zterm zterm

fun as_bool :: "zval \<Rightarrow> bool" where "as_bool (VBool b) = b" | "as_bool v = False"
fun as_int :: "zval \<Rightarrow> int" where "as_int (VInt i) = i" | "as_int v = 0"
fun as_str :: "zval \<Rightarrow> py_str" where "as_str (VStr s) = s" | "as_str v = []"

fun on_sets :: "(int set \<Rightarrow> int set \<Rightarrow> int set) \<Rightarrow> (py_str set \<Rightarrow> py_str set \<Rightarrow> py_str set) \<Rightarrow> zval \<Rightarrow> zval \<Rightarrow> zval" where
  "on_sets f g (VInts A) (VInts B) = VInts (f A B)"
| "on_sets f g (VStrs A) (VStrs B) = VStrs (g A B)"
| "on_sets f g v w = v"

fun subset_val :: "zval \<Rightarrow> zval \<Rightarrow> bool" where
  "subset_val (VInts A) (VInts B) \<longleftrightarrow> A \<subseteq> B"
| "subset_val (VStrs A) (VStrs B) \<longleftrightarrow> A \<subseteq> B"
| "subset_val v w \<longleftrightarrow> False"

fun add_val :: "zval \<Rightarrow> zval \<Rightarrow> zval" where
  "add_val (VInts A) (VInt i) = VInts (insert i A)"
| "add_val (VStrs A) (VStr s) = VStrs (insert s A)"
| "add_val v w = v"

fun member_val :: "zval \<Rightarrow> zval \<Rightarrow> bool" where
  "member_val (VInt i) (VInts A) \<longleftrightarrow> i \<in> A"
| "member_val (VStr s) (VStrs A) \<longleftrightarrow> s \<in> A"
| "member_val v w \<longleftrightarrow> False"

fun var_val :: "z3_model \<Rightarrow> z3_sort \<Rightarrow> py_str \<Rightarrow> zval" where
  "var_val m BoolSort n = VBool (m_bools m n)"
| "var_val m IntSort n = VInt (m_ints m n)"
| "var_val m RealSort n = VReal (m_reals m n)"
| "var_val m StringSort n = VStr (m_strs m n)"
| "var_val m (SetSort s) n = VInts {}"

fun zterm_sort :: "zterm \<Rightarrow> z3_sort" where
  "zterm_sort (ZVar s n) = (case s of SetSort _ \<Rightarrow> SetSort IntSort | _ \<Rightarrow> s)"
| "zterm_sort (ZVal v) = val_sort v"
| "zterm_sort (ZSum ts) = IntSort"
| "zterm_sort (ZAdd s t) = IntSort" | "zterm_sort (ZSub s t) = IntSort" | "zterm_sort (ZMul s t) = IntSort"
| "zterm_sort (ZIf c s t) = zterm_sort s"
| "zterm_sort (ZSetAdd s t) = zterm_sort s"
| "zterm_sort (ZUnion s t) = zterm_sort s" | "zterm_sort (ZInter s t) = zterm_sort s" | "zterm_sort (ZDiff s t) = zterm_sort s"
| "zterm_sort t = BoolSort"

fun zeval :: "z3_model \<Rightarrow> zterm \<Rightarrow> zval" where
  "zeval m (ZVar s n) = var_val m s n"
| "zeval m (ZVal v) = v"
| "zeval m (ZAnd ts) = VBool (list_all (\<lambda>t. as_bool (zeval m t)) ts)"
| "zeval m (ZOr ts) = VBool (list_ex (\<lambda>t. as_bool (zeval m t)) ts)"
| "zeval m (ZSum ts) = VInt (sum_list (map (\<lambda>t. as_int (zeval m t)) ts))"
| "zeval m (ZNot t) = VBool (\<not> as_bool (zeval m t))"
| "zeval m (ZImplies s t) = VBool (as_bool (zeval m s) \<longrightarrow> as_bool (zeval m t))"
| "zeval m (ZIf c s t) = (if as_bool (zeval m c) \<or> zterm_sort t \<noteq> zterm_sort s then zeval m s else zeval m t)"
| "zeval m (ZEq s t) = VBool (zeval m s = zeval m t)"
| "zeval m (ZLt s t) = VBool (as_int (zeval m s) < as_int (zeval m t))"
| "zeval m (ZLe s t) = VBool (as_int (zeval m s) \<le> as_int (zeval m t))"
| "zeval m (ZAdd s t) = VInt (as_int (zeval m s) + as_int (zeval m t))"
| "zeval m (ZSub s t) = VInt (as_int (zeval m s) - as_int (zeval m t))"
| "zeval m (ZMul s t) = VInt (as_int (zeval m s) * as_int (zeval m t))"
| "zeval m (ZSetAdd s t) = add_val (zeval m s) (zeval m t)"
| "zeval m (ZUnion s t) = on_sets (\<union>) (\<union>) (zeval m s) (zeval m t)"
| "zeval m (ZInter s t) = on_sets (\<inter>) (\<inter>) (zeval m s) (zeval m t)"
| "zeval m (ZDiff s t) = on_sets (-) (-) (zeval m s) (zeval m t)"
| "zeval m (ZMember s t) = VBool (member_val (zeval m s) (zeval m t))"
| "zeval m (ZSubset s t) = VBool (subset_val (zeval m s) (zeval m t))"
| "zeval m (ZContains s t) = VBool (is_substring (as_str (zeval m t)) (as_str (zeval m s)))"

lemma add_val_sort: "val_sort (add_val v w) = val_sort v"
  by (cases v; cases w) simp_all

lemma on_sets_sort: "val_sort (on_sets f g v w) = val_sort v"
  by (cases v; cases w) simp_all

lemma zeval_sort: "val_sort (zeval m t) = zterm_sort t"
proof (induction t)
  case (ZVar s n)
  then show ?case by (cases s) simp_all
qed (simp_all add: add_val_sort on_sets_sort)

definition numeric :: "z3_sort \<Rightarrow> bool" where
  "numeric s \<longleftrightarrow> s = BoolSort \<or> s = IntSort \<or> s = RealSort"

definition empty_set_val :: "z3_sort \<Rightarrow> zval" where
  "empty_set_val s = (if s = StringSort then VStrs {} else VInts {})"

definition zterms :: "zterm z3" where
  "zterms = \<lparr>zBool = ZVar BoolSort, zInt = ZVar IntSort, zReal = ZVar RealSort, zString = ZVar StringSort,
     BoolVal = (\<lambda>b. ZVal (VBool b)), IntVal = (\<lambda>i. ZVal (VInt i)), RealVal = (\<lambda>q. ZVal (VReal (of_rat q))),
     StringVal = (\<lambda>s. ZVal (VStr s)), zAnd = ZAnd, zOr = ZOr, zNot = ZNot, zImplies = ZImplies, zIf = ZIf, zSum = ZSum,
     zEq = ZEq, zNe = (\<lambda>s t. ZNot (ZEq s t)), zLt = ZLt, zLe = ZLe, zGt = (\<lambda>s t. ZLt t s), zGe = (\<lambda>s t. ZLe t s),
     zAdd = ZAdd, zSub = ZSub, zMul = ZMul, EmptySet = (\<lambda>s. ZVal (empty_set_val s)), SetAdd = ZSetAdd,
     SetUnion = ZUnion, SetIntersect = ZInter, SetDifference = ZDiff, IsMember = ZMember, IsSubset = ZSubset,
     Contains = ZContains, sort_of = zterm_sort,
     comparable = (\<lambda>s t. zterm_sort s = zterm_sort t \<or> numeric (zterm_sort s) \<and> numeric (zterm_sort t))\<rparr>"

lemma zterms_sel:
  "zBool zterms = ZVar BoolSort" "zInt zterms = ZVar IntSort" "zReal zterms = ZVar RealSort" "zString zterms = ZVar StringSort"
  "BoolVal zterms b = ZVal (VBool b)" "IntVal zterms i = ZVal (VInt i)" "RealVal zterms q = ZVal (VReal (of_rat q))"
  "StringVal zterms u = ZVal (VStr u)" "zAnd zterms = ZAnd" "zOr zterms = ZOr" "zNot zterms = ZNot" "zImplies zterms = ZImplies"
  "zIf zterms = ZIf" "zSum zterms = ZSum" "zEq zterms = ZEq" "zNe zterms s t = ZNot (ZEq s t)" "zLt zterms = ZLt" "zLe zterms = ZLe"
  "zGt zterms s t = ZLt t s" "zGe zterms s t = ZLe t s" "zAdd zterms = ZAdd" "zSub zterms = ZSub" "zMul zterms = ZMul"
  "EmptySet zterms z = ZVal (empty_set_val z)" "SetAdd zterms = ZSetAdd" "SetUnion zterms = ZUnion" "SetIntersect zterms = ZInter"
  "SetDifference zterms = ZDiff" "IsMember zterms = ZMember" "IsSubset zterms = ZSubset" "Contains zterms = ZContains"
  "sort_of zterms = zterm_sort"
  "comparable zterms s t \<longleftrightarrow> zterm_sort s = zterm_sort t \<or> numeric (zterm_sort s) \<and> numeric (zterm_sort t)"
  by (simp_all only: zterms_def z3.select_convs)

lemma zeval_and: "list_all2 (\<lambda>e b. zeval m e = VBool b) es bs \<Longrightarrow> list_all (\<lambda>t. as_bool (zeval m t)) es = list_all id bs"
  by (induction rule: list_all2_induct) auto

lemma zeval_or: "list_all2 (\<lambda>e b. zeval m e = VBool b) es bs \<Longrightarrow> list_ex (\<lambda>t. as_bool (zeval m t)) es = list_ex id bs"
  by (induction rule: list_all2_induct) auto

lemma zeval_sum: "list_all2 (\<lambda>e i. zeval m e = VInt i) es ns \<Longrightarrow> (\<Sum>t\<leftarrow>es. as_int (zeval m t)) = sum_list ns"
  by (induction rule: list_all2_induct) auto

interpretation zt: z3_api zterms zeval
  by unfold_locales (simp_all add: zterms_sel zeval_and zeval_or zeval_sum empty_set_val_def zeval_sort)

end
