(* ===== verification/Bundle_Domain.thy ===== *)
theory Bundle_Domain
  imports Bundle_Z3 "HOL-Library.Product_Lexorder"
begin

text \<open>
  The solver domain of the bundle builder (\<^verbatim>\<open>bundle_builder_x/domain.py\<close>): models with their
  applications and declared integrations, the pool of candidate charms, the possible
  integrations between them, and the solver variables that stand for each of these.
  The type \<open>'e\<close> is that of solver expressions; every function that creates variables takes the
  solver's constructors. Charm and integration ids are positions in the lists; they are
  always in range (see \<open>domain_ok\<close>), so that indexing is plain.
\<close>

section \<open>Data\<close>

record ModelRef =
  mr_name :: "py_str option"
  mr_controller :: "py_str option"

definition this_model :: ModelRef where
  "this_model = \<lparr>mr_name = None, mr_controller = None\<rparr>"

definition model_key :: "ModelRef \<Rightarrow> py_str" where
  "model_key r =
     (case mr_controller r of
        Some c \<Rightarrow> c @ ''/'' @ (case mr_name r of None \<Rightarrow> ''None'' | Some n \<Rightarrow> n)
      | None \<Rightarrow> (case mr_name r of None \<Rightarrow> [] | Some n \<Rightarrow> n))"

record DomainApplicationEndpoint =
  dae_application :: py_str
  dae_endpoint :: py_str
  dae_model :: ModelRef

record 'e DomainApplicationIntegration =
  endpoint_1 :: DomainApplicationEndpoint
  endpoint_2 :: DomainApplicationEndpoint
  offer_name :: "py_str option"
  url :: "py_str option"
  charm_integration_ids :: "(nat, 'e) dict"

record 'e DomainApplication =
  app_charm :: py_str
  app_channel :: "CharmChannel option"
  app_revision :: "int option"
  app_base :: "py_str option"
  charm_ids :: "(nat, 'e) dict"
  app_charms_added :: "nat list"

record 'e DomainModel =
  arch :: py_str
  platform :: py_str
  juju_version :: JujuVersion
  admin :: py_str
  ref :: ModelRef
  applications :: "(py_str, 'e DomainApplication) dict"
  application_integrations :: "'e DomainApplicationIntegration list"

record 'e DomainCharmEndpoint =
  ep_count :: 'e
  ep_integrated :: 'e
  cross_model_count :: 'e
  feature_vars :: "(py_str, 'e) dict"

record 'e DomainCharmConfig =
  cfg_var :: "'e option"
  cfg_isset_var :: "'e option"
  cfg_default :: "config_value option"
  cfg_fixed_value :: bool
  bool_as_int :: bool

record 'e DomainCharmResource =
  res_var :: "'e option"
  res_isset_var :: "'e option"
  res_default :: "py_str option"
  res_fixed_value :: bool

record 'e DomainCharm =
  charm_exists :: 'e
  num_units :: 'e
  spec :: Charm
  charm_model :: ModelRef
  endpoints :: "(py_str, 'e DomainCharmEndpoint) dict"
  config :: "(py_str, 'e DomainCharmConfig) dict"
  resources :: "(py_str, 'e DomainCharmResource) dict"
  charms_added :: "nat list"

record 'e DomainCharmIntegration =
  int_exists :: 'e
  requires_charm_id :: nat
  requires_endpoint :: py_str
  provides_charm_id :: nat
  provides_endpoint :: py_str

record 'e Domain =
  models :: "(ModelRef, 'e DomainModel) dict"
  charms :: "'e DomainCharm list"
  charm_integrations :: "'e DomainCharmIntegration list"

section \<open>Queries\<close>

definition is_cross_model :: "'e Domain \<Rightarrow> 'e DomainCharmIntegration \<Rightarrow> bool" where
  "is_cross_model d i \<longleftrightarrow>
     charm_model (charms d ! requires_charm_id i) \<noteq> charm_model (charms d ! provides_charm_id i)"

definition is_external_cmr :: "'e Domain \<Rightarrow> 'e DomainApplicationIntegration \<Rightarrow> bool" where
  "is_external_cmr d ai =
     (let ep1_model = dae_model (endpoint_1 ai); ep2_model = dae_model (endpoint_2 ai) in
      if ep1_model = ep2_model then False
      else dict_get (models d) (if ep1_model \<noteq> this_model then ep1_model else ep2_model) = None)"

definition local_ep :: "'e DomainApplicationIntegration \<Rightarrow> DomainApplicationEndpoint" where
  "local_ep ai = (if dae_model (endpoint_1 ai) = this_model then endpoint_1 ai else endpoint_2 ai)"

definition remote_ep :: "'e DomainApplicationIntegration \<Rightarrow> DomainApplicationEndpoint" where
  "remote_ep ai = (if dae_model (endpoint_1 ai) = this_model then endpoint_2 ai else endpoint_1 ai)"

definition external_cmr_integrations ::
    "'e Domain \<Rightarrow> (ModelRef \<times> DomainApplicationEndpoint \<times> DomainApplicationEndpoint) list" where
  "external_cmr_integrations d =
     concat (map (\<lambda>(model_ref, mc).
       map (\<lambda>ai. (model_ref, local_ep ai, remote_ep ai)) (filter (is_external_cmr d) (application_integrations mc))) (models d))"

definition external_cmr_peer_ids :: "'e Domain \<Rightarrow> (py_str \<times> py_str, nat) dict" where
  "external_cmr_peer_ids d =
     (let peer_keys = sorted_set (map (\<lambda>(_, _, r). (model_key (dae_model r), dae_application r)) (external_cmr_integrations d))
      in zip peer_keys [length (charms d)..<length (charms d) + length peer_keys])"

definition app_to_charm_map :: "'e Domain \<Rightarrow> (py_str \<times> nat, 'e) dict" where
  "app_to_charm_map d =
     fold (\<lambda>(k, v). dict_set k v)
       (concat (map (\<lambda>(_, mc).
          concat (map (\<lambda>(app, da). map (\<lambda>(cid, var). ((app, cid), var)) (charm_ids da)) (applications mc))) (models d))) []"

definition spec_endpoint :: "'e Domain \<Rightarrow> nat \<Rightarrow> py_str \<Rightarrow> CharmEndpoint" where
  "spec_endpoint d cid ep = the (dict_get (charm_endpoints (spec (charms d ! cid))) ep)"

definition integration_interface :: "'e Domain \<Rightarrow> 'e DomainCharmIntegration \<Rightarrow> py_str" where
  "integration_interface d i = interface (spec_endpoint d (requires_charm_id i) (requires_endpoint i))"

section \<open>Offers\<close>

text \<open>
  A solver model is what \<open>evaluate(x, model_completion=True)\<close> answers; \<open>active\<close> is its use as a
  truth value. Two cross-model integrations between the same two charms in the same direction
  share one offer.
\<close>

type_synonym 'e evaluation = "'e \<Rightarrow> zval"

definition active :: "'e evaluation \<Rightarrow> 'e \<Rightarrow> bool" where
  "active ev x \<longleftrightarrow> ev x = VBool True"

definition shares_offer :: "'e Domain \<Rightarrow> 'e DomainCharmIntegration \<Rightarrow> 'e DomainCharmIntegration \<Rightarrow> bool" where
  "shares_offer d i other \<longleftrightarrow>
     is_cross_model d other \<and> provides_charm_id other = provides_charm_id i \<and> requires_charm_id other = requires_charm_id i"

definition matching_user_app_integrations ::
    "'e Domain \<Rightarrow> 'e DomainCharmIntegration \<Rightarrow> 'e evaluation option \<Rightarrow> 'e DomainApplicationIntegration list" where
  "matching_user_app_integrations d i z3m =
     (case z3m of
        None \<Rightarrow> []
      | Some ev \<Rightarrow>
          let group_idxs = filter (\<lambda>k. let other = charm_integrations d ! k in shares_offer d i other \<and> active ev (int_exists other))
                             [0..<length (charm_integrations d)]
          in concat (map (\<lambda>idx. concat (map (\<lambda>(_, mc).
               filter (\<lambda>ai. case dict_get (charm_integration_ids ai) idx of None \<Rightarrow> False | Some v \<Rightarrow> active ev v)
                 (application_integrations mc)) (models d))) group_idxs))"

text \<open>The only declared value of a field, or an error if the declarations disagree.\<close>

definition sole_value :: "py_str option list \<Rightarrow> py_error + py_str option" where
  "sole_value vs =
     (case remdups (List.map_filter id vs) of [] \<Rightarrow> Inr None | [v] \<Rightarrow> Inr (Some v) | _ \<Rightarrow> Inl ValueError)"

definition user_offer_name :: "'e Domain \<Rightarrow> 'e DomainCharmIntegration \<Rightarrow> 'e evaluation option \<Rightarrow> py_error + py_str option" where
  "user_offer_name d i z3m = sole_value (map offer_name (matching_user_app_integrations d i z3m))"

definition integration_offer_url :: "'e Domain \<Rightarrow> 'e DomainCharmIntegration \<Rightarrow> 'e evaluation option \<Rightarrow> py_error + py_str option" where
  "integration_offer_url d i z3m = sole_value (map url (matching_user_app_integrations d i z3m))"

text \<open>\<open>min(xs, key=f)\<close>: the first element with the least key.\<close>

fun min_by :: "('a \<Rightarrow> 'k::linorder) \<Rightarrow> 'a \<Rightarrow> 'a list \<Rightarrow> 'a" where
  "min_by f x [] = x"
| "min_by f x (y # ys) = min_by f (if f y < f x then y else x) ys"

definition endpoint_pair :: "'e DomainCharmIntegration \<Rightarrow> py_str \<times> py_str" where
  "endpoint_pair i = (provides_endpoint i, requires_endpoint i)"

definition offer_sharing_anchor ::
    "'e Domain \<Rightarrow> 'e DomainCharmIntegration \<Rightarrow> 'e evaluation option \<Rightarrow> 'e DomainCharmIntegration" where
  "offer_sharing_anchor d i z3m =
     (case filter (\<lambda>other. shares_offer d i other \<and> (case z3m of None \<Rightarrow> True | Some ev \<Rightarrow> active ev (int_exists other)))
             (charm_integrations d) of
        [] \<Rightarrow> i
      | c # cs \<Rightarrow> min_by endpoint_pair c cs)"

definition dashes :: "py_str \<Rightarrow> py_str" where
  "dashes s = map (\<lambda>c. if c = CHR ''_'' then CHR ''-'' else c) s"

definition integration_offer_name ::
    "'e Domain \<Rightarrow> 'e DomainCharmIntegration \<Rightarrow> 'e evaluation option \<Rightarrow> py_error + py_str" where
  "integration_offer_name d i z3m =
     (let anchor = offer_sharing_anchor d i z3m in
      bind_result (user_offer_name d i z3m) (\<lambda>u.
        case u of
          Some n \<Rightarrow> Inr n
        | None \<Rightarrow> Inr (dashes (charm_name (spec (charms d ! provides_charm_id anchor)) @ ''-'' @ provides_endpoint anchor
                               @ ''-'' @ integration_interface d anchor @ ''-offer''))))"

section \<open>Linking declared integrations to charm integrations\<close>

definition has_charm :: "'e DomainModel \<Rightarrow> py_str \<Rightarrow> nat \<Rightarrow> bool" where
  "has_charm mc app cid \<longleftrightarrow>
     (case dict_get (applications mc) app of None \<Rightarrow> False | Some da \<Rightarrow> dict_get (charm_ids da) cid \<noteq> None)"

definition app_ep_str :: "py_str \<Rightarrow> py_str \<Rightarrow> py_str" where
  "app_ep_str app ep = app @ '':'' @ ep"

definition id_ep_str :: "nat \<Rightarrow> py_str \<Rightarrow> py_str" where
  "id_ep_str cid ep = nat_str cid @ '':'' @ ep"

definition local_mapping_name :: "'e DomainApplicationIntegration \<Rightarrow> 'e DomainCharmIntegration \<Rightarrow> py_str" where
  "local_mapping_name ai i =
     ''app_integration_'' @ app_ep_str (dae_application (endpoint_1 ai)) (dae_endpoint (endpoint_1 ai))
     @ ''__'' @ app_ep_str (dae_application (endpoint_2 ai)) (dae_endpoint (endpoint_2 ai))
     @ ''_maps_to_charm_integration_'' @ id_ep_str (requires_charm_id i) (requires_endpoint i)
     @ ''__'' @ id_ep_str (provides_charm_id i) (provides_endpoint i)"

definition cmr_mapping_name :: "'e DomainApplicationIntegration \<Rightarrow> nat \<Rightarrow> py_str" where
  "cmr_mapping_name ai i_idx =
     ''app_integration_'' @ app_ep_str (dae_application (local_ep ai)) (dae_endpoint (local_ep ai))
     @ ''__cmr__'' @ model_key (dae_model (remote_ep ai)) @ ''_''
     @ app_ep_str (dae_application (remote_ep ai)) (dae_endpoint (remote_ep ai)) @ ''__integration_'' @ nat_str i_idx"

text \<open>
  Whether application endpoints \<open>r\<close> (requiring) and \<open>p\<close> (providing) of a local integration fit a
  charm integration.
\<close>

definition local_fits :: "'e DomainModel \<Rightarrow> 'e DomainCharmIntegration \<Rightarrow> DomainApplicationEndpoint \<Rightarrow> DomainApplicationEndpoint \<Rightarrow> bool" where
  "local_fits mc i r p \<longleftrightarrow>
     dae_endpoint r = requires_endpoint i \<and> dae_endpoint p = provides_endpoint i
     \<and> has_charm mc (dae_application r) (requires_charm_id i) \<and> has_charm mc (dae_application p) (provides_charm_id i)"

definition cmr_charms ::
    "'e Domain \<Rightarrow> ModelRef \<Rightarrow> 'e DomainApplicationIntegration \<Rightarrow> 'e DomainCharmIntegration \<Rightarrow> (nat \<times> nat) option" where
  "cmr_charms d mc_model_ref ai i =
     (let req_model_ref = charm_model (charms d ! requires_charm_id i);
          prov_model_ref = charm_model (charms d ! provides_charm_id i);
          l = local_ep ai; r = remote_ep ai
      in if req_model_ref = mc_model_ref \<and> requires_endpoint i = dae_endpoint l
            \<and> prov_model_ref = dae_model r \<and> provides_endpoint i = dae_endpoint r
         then Some (requires_charm_id i, provides_charm_id i)
         else if prov_model_ref = mc_model_ref \<and> provides_endpoint i = dae_endpoint l
            \<and> req_model_ref = dae_model r \<and> requires_endpoint i = dae_endpoint r
         then Some (provides_charm_id i, requires_charm_id i)
         else None)"

text \<open>One round of the innermost loop: the declared integration \<open>ai\<close> and the charm integration number \<open>i_idx\<close>.\<close>

definition link_integration :: "'e z3 \<Rightarrow> 'e Domain \<Rightarrow> ModelRef \<Rightarrow> 'e DomainModel \<Rightarrow> nat \<times> 'e DomainCharmIntegration \<Rightarrow>
    'e DomainApplicationIntegration \<Rightarrow> 'e DomainApplicationIntegration" where
  "link_integration Z d mc_model_ref mc = (\<lambda>(i_idx, i) ai.
     let is_cmr = dae_model (endpoint_1 ai) \<noteq> dae_model (endpoint_2 ai);
         link = (\<lambda>name. ai\<lparr>charm_integration_ids := dict_set i_idx (zBool Z name) (charm_integration_ids ai)\<rparr>)
     in if dict_get (charm_integration_ids ai) i_idx \<noteq> None then ai
        else if is_cross_model d i \<noteq> is_cmr then ai
        else if \<not> is_cmr then
          if charm_model (charms d ! requires_charm_id i) \<noteq> mc_model_ref
             \<or> charm_model (charms d ! provides_charm_id i) \<noteq> mc_model_ref then ai
          else if local_fits mc i (endpoint_1 ai) (endpoint_2 ai) \<or> local_fits mc i (endpoint_2 ai) (endpoint_1 ai)
          then link (local_mapping_name ai i)
          else ai
        else
          case dict_get (models d) (dae_model (remote_ep ai)) of
            None \<Rightarrow> ai
          | Some remote_mc \<Rightarrow>
              (case cmr_charms d mc_model_ref ai i of
                 None \<Rightarrow> ai
               | Some (local_charm_id, remote_charm_id) \<Rightarrow>
                   if \<not> has_charm mc (dae_application (local_ep ai)) local_charm_id then ai
                   else if \<not> has_charm remote_mc (dae_application (remote_ep ai)) remote_charm_id then ai
                   else link (cmr_mapping_name ai i_idx)))"

definition link_all :: "'e z3 \<Rightarrow> 'e Domain \<Rightarrow> ModelRef \<Rightarrow> 'e DomainModel \<Rightarrow> 'e DomainApplicationIntegration \<Rightarrow> 'e DomainApplicationIntegration" where
  "link_all Z d mc_model_ref mc ai =
     fold (link_integration Z d mc_model_ref mc) (enumerate 0 (charm_integrations d)) ai"

definition refresh_application_integration_mappings :: "'e z3 \<Rightarrow> 'e Domain \<Rightarrow> 'e Domain" where
  "refresh_application_integration_mappings Z d =
     d\<lparr>models := map (\<lambda>(r, mc).
        (r, mc\<lparr>application_integrations := map (link_all Z d r mc) (application_integrations mc)\<rparr>)) (models d)\<rparr>"

section \<open>Adding charms\<close>

definition is_CBool :: "config_value \<Rightarrow> bool" where "is_CBool v \<longleftrightarrow> (case v of CBool _ \<Rightarrow> True | _ \<Rightarrow> False)"
definition is_CInt :: "config_value \<Rightarrow> bool" where "is_CInt v \<longleftrightarrow> (case v of CInt _ \<Rightarrow> True | _ \<Rightarrow> False)"
definition is_CFloat :: "config_value \<Rightarrow> bool" where "is_CFloat v \<longleftrightarrow> (case v of CFloat _ \<Rightarrow> True | _ \<Rightarrow> False)"
definition is_CStr :: "config_value \<Rightarrow> bool" where "is_CStr v \<longleftrightarrow> (case v of CStr _ \<Rightarrow> True | _ \<Rightarrow> False)"

text \<open>
  The solver variable of a configuration key with allowed values \<open>non_none\<close>, and whether it is
  an integer that stands for a truth value.
\<close>

definition config_var :: "'e z3 \<Rightarrow> py_str \<Rightarrow> bool \<Rightarrow> config_value option \<Rightarrow> config_value list \<Rightarrow> py_error + 'e \<times> bool" where
  "config_var Z prefix is_optional dflt non_none =
     (if list_all is_CBool non_none then
        (if is_optional \<and> dflt = None \<and> set non_none = {CBool True, CBool False}
         then Inr (zInt Z prefix, True) else Inr (zBool Z prefix, False))
      else if list_all is_CInt non_none then Inr (zInt Z prefix, False)
      else if list_all is_CFloat non_none then Inr (zReal Z prefix, False)
      else if list_all is_CStr non_none then Inr (zString Z prefix, False)
      else Inl ValueError)"

definition fixed_config :: "config_value \<Rightarrow> 'e DomainCharmConfig" where
  "fixed_config v = \<lparr>cfg_var = None, cfg_isset_var = None, cfg_default = Some v, cfg_fixed_value = True, bool_as_int = False\<rparr>"

definition default_config :: "config_value option \<Rightarrow> 'e DomainCharmConfig" where
  "default_config v = \<lparr>cfg_var = None, cfg_isset_var = None, cfg_default = v, cfg_fixed_value = False, bool_as_int = False\<rparr>"

definition add_config :: "'e z3 \<Rightarrow> py_str \<Rightarrow> py_str \<times> config_value option list \<Rightarrow> (py_str, 'e DomainCharmConfig) dict \<Rightarrow>
    py_error + (py_str, 'e DomainCharmConfig) dict" where
  "add_config Z charm_prefix = (\<lambda>(key, allowed) charm_config.
     let non_none = List.map_filter id allowed in
     if non_none = [] then Inr charm_config
     else if length non_none = 1 \<and> None \<notin> set allowed
     then Inr (dict_set key (fixed_config (hd non_none)) charm_config)
     else
       let prefix = charm_prefix @ ''_config_'' @ key;
           dflt = (case dict_get charm_config key of None \<Rightarrow> None | Some e \<Rightarrow> cfg_default e);
           is_optional = None \<in> set allowed
       in bind_result (config_var Z prefix is_optional dflt non_none) (\<lambda>(var, as_int).
            Inr (dict_set key \<lparr>cfg_var = Some var,
                               cfg_isset_var = (if is_optional then Some (zBool Z (prefix @ ''_is_set'')) else None),
                               cfg_default = dflt, cfg_fixed_value = False, bool_as_int = as_int\<rparr> charm_config)))"

fun add_configs :: "'e z3 \<Rightarrow> py_str \<Rightarrow> (py_str \<times> config_value option list) list \<Rightarrow> (py_str, 'e DomainCharmConfig) dict \<Rightarrow>
    py_error + (py_str, 'e DomainCharmConfig) dict" where
  "add_configs Z prefix [] c = Inr c"
| "add_configs Z prefix (x # xs) c = bind_result (add_config Z prefix x c) (add_configs Z prefix xs)"

definition add_resource :: "'e z3 \<Rightarrow> py_str \<Rightarrow> py_str \<times> py_str option list \<Rightarrow> (py_str, 'e DomainCharmResource) dict \<Rightarrow>
    (py_str, 'e DomainCharmResource) dict" where
  "add_resource Z charm_prefix = (\<lambda>(key, allowed) rs.
     let non_none = List.map_filter id allowed in
     if non_none = [] then rs
     else if length non_none = 1 \<and> None \<notin> set allowed
     then dict_set key \<lparr>res_var = None, res_isset_var = None, res_default = Some (hd non_none), res_fixed_value = True\<rparr> rs
     else
       let prefix = charm_prefix @ ''_resource_'' @ key
       in dict_set key \<lparr>res_var = Some (zString Z prefix),
                        res_isset_var = (if None \<in> set allowed then Some (zBool Z (prefix @ ''_is_set'')) else None),
                        res_default = None, res_fixed_value = False\<rparr> rs)"

definition charm_prefix :: "Charm \<Rightarrow> nat \<Rightarrow> py_str" where
  "charm_prefix c cid = ''charm_'' @ charm_name c @ ''_'' @ nat_str cid"

definition new_endpoint :: "'e z3 \<Rightarrow> py_str \<Rightarrow> py_str \<Rightarrow> CharmEndpoint \<Rightarrow> 'e DomainCharmEndpoint" where
  "new_endpoint Z prefix name endpoint =
     (let p = prefix @ ''_endpoint_'' @ name in
      \<lparr>ep_count = zInt Z (p @ ''_count''), ep_integrated = zBool Z (p @ ''_integrated''),
       cross_model_count = zInt Z (p @ ''_cross_model_count''),
       feature_vars = map (\<lambda>f. (f, zBool Z (p @ ''_feature_'' @ f))) (ep_features endpoint)\<rparr>)"

definition new_charm :: "'e z3 \<Rightarrow> Charm \<Rightarrow> nat \<Rightarrow> ModelRef \<Rightarrow> (py_str, 'e DomainCharmConfig) dict \<Rightarrow> 'e DomainCharm" where
  "new_charm Z c cid model_ref cfg =
     (let p = charm_prefix c cid in
      \<lparr>charm_exists = zBool Z (p @ ''_exists''), num_units = zInt Z (p @ ''_num_units''), spec = c, charm_model = model_ref,
       endpoints = map (\<lambda>(name, e). (name, new_endpoint Z p name e)) (charm_endpoints c),
       config = cfg, resources = fold (add_resource Z p) (charm_resources c) [], charms_added = []\<rparr>)"

definition app_accepts :: "'e DomainApplication \<Rightarrow> Charm \<Rightarrow> bool" where
  "app_accepts da c \<longleftrightarrow>
     app_charm da = charm_name c
     \<and> (case app_channel da of None \<Rightarrow> True | Some ch \<Rightarrow> ch = channel c)
     \<and> (case app_revision da of None \<Rightarrow> True | Some r \<Rightarrow> r = revision c)
     \<and> (case app_base da of None \<Rightarrow> True | Some b \<Rightarrow> b = ubuntu_version c)"

definition map_app :: "'e z3 \<Rightarrow> Charm \<Rightarrow> nat \<Rightarrow> py_str \<times> 'e DomainApplication \<Rightarrow> py_str \<times> 'e DomainApplication" where
  "map_app Z c cid = (\<lambda>(app, da).
     if \<not> app_accepts da c then (app, da)
     else (app, da\<lparr>charm_ids := dict_set cid (zBool Z (''app_'' @ app @ ''_maps_to_charm_'' @ charm_name c @ ''_'' @ nat_str cid)) (charm_ids da)\<rparr>))"

definition resolve_model_ref :: "'e Domain \<Rightarrow> ModelRef option \<Rightarrow> py_error + ModelRef" where
  "resolve_model_ref d model_ref =
     (case model_ref of
        Some r \<Rightarrow> Inr r
      | None \<Rightarrow> (case models d of [(r, _)] \<Rightarrow> Inr r | _ \<Rightarrow> Inl ValueError))"

definition add_charm_to_domain :: "'e z3 \<Rightarrow> Charm \<Rightarrow> 'e Domain \<Rightarrow> ModelRef option \<Rightarrow> py_error + 'e Domain \<times> nat" where
  "add_charm_to_domain Z c d model_ref =
     bind_result (resolve_model_ref d model_ref) (\<lambda>r.
       case dict_get (models d) r of
         None \<Rightarrow> Inl KeyError
       | Some mc \<Rightarrow>
           let charm_id = length (charms d)
           in bind_result (add_configs Z (charm_prefix c charm_id) (configs c)
                             (map (\<lambda>(key, dv). (key, default_config dv)) (config_defaults c))) (\<lambda>cfg.
                let d1 = d\<lparr>charms := charms d @ [new_charm Z c charm_id r cfg]\<rparr>;
                    mc1 = mc\<lparr>applications := map (map_app Z c charm_id) (applications mc)\<rparr>;
                    d2 = d1\<lparr>models := dict_set r mc1 (models d1)\<rparr>
                in Inr (refresh_application_integration_mappings Z d2, charm_id)))"

section \<open>Pairing charms\<close>

type_synonym int_key = "nat \<times> py_str \<times> nat \<times> py_str"

definition int_key :: "'e DomainCharmIntegration \<Rightarrow> int_key" where
  "int_key i = (requires_charm_id i, requires_endpoint i, provides_charm_id i, provides_endpoint i)"

definition platform_of :: "'e Domain \<Rightarrow> ModelRef \<Rightarrow> py_str option" where
  "platform_of d r = map_option platform (dict_get (models d) r)"

text \<open>Requirer and provider of a compatible pair of endpoints.\<close>

definition orient :: "nat \<Rightarrow> nat \<Rightarrow> py_str \<times> CharmEndpoint \<Rightarrow> py_str \<times> CharmEndpoint \<Rightarrow> int_key option" where
  "orient a b = (\<lambda>(na, ea) (nb, eb).
     if interface ea \<noteq> interface eb then None
     else if ep_type ea = REQUIRES \<and> ep_type eb = PROVIDES then Some (a, na, b, nb)
     else if ep_type ea = PROVIDES \<and> ep_type eb = REQUIRES then Some (b, nb, a, na)
     else None)"

definition scope_ok :: "'e Domain \<Rightarrow> nat \<Rightarrow> nat \<Rightarrow> CharmEndpoint \<Rightarrow> CharmEndpoint \<Rightarrow> bool" where
  "scope_ok d req prov ea eb \<longleftrightarrow>
     (scope ea = Some CONTAINER \<or> scope eb = Some CONTAINER \<longrightarrow>
        charm_model (charms d ! req) = charm_model (charms d ! prov)
        \<and> platform_of d (charm_model (charms d ! req)) = Some ''machine''
        \<and> platform_of d (charm_model (charms d ! prov)) = Some ''machine'')"

definition integration_var_name :: "'e Domain \<Rightarrow> int_key \<Rightarrow> py_str" where
  "integration_var_name d = (\<lambda>(req_cid, req_ep, prov_cid, prov_ep).
     let req_model = charm_model (charms d ! req_cid); prov_model = charm_model (charms d ! prov_cid) in
     if req_model = prov_model
     then ''charm_integration_'' @ id_ep_str prov_cid prov_ep @ ''__'' @ id_ep_str req_cid req_ep @ ''_exists''
     else ''cmr__'' @ model_key prov_model @ ''__'' @ id_ep_str prov_cid prov_ep @ ''__'' @ model_key req_model
          @ ''__'' @ id_ep_str req_cid req_ep @ ''__exists'')"

definition new_integration :: "'e z3 \<Rightarrow> 'e Domain \<Rightarrow> int_key \<Rightarrow> 'e DomainCharmIntegration" where
  "new_integration Z d k =
     (case k of (req_cid, req_ep, prov_cid, prov_ep) \<Rightarrow>
        \<lparr>int_exists = zBool Z (integration_var_name d k), requires_charm_id = req_cid, requires_endpoint = req_ep,
         provides_charm_id = prov_cid, provides_endpoint = prov_ep\<rparr>)"

text \<open>
  The body of the two loops over the endpoints: \<open>ks\<close> are the keys of the integrations created so
  far; together with those in the domain they are the known keys.
\<close>

definition pair_endpoints :: "'e Domain \<Rightarrow> nat \<Rightarrow> nat \<Rightarrow> (py_str \<times> CharmEndpoint) \<times> (py_str \<times> CharmEndpoint) \<Rightarrow> int_key list \<Rightarrow> int_key list" where
  "pair_endpoints d a b = (\<lambda>(ea, eb) ks.
     case orient a b ea eb of
       None \<Rightarrow> ks
     | Some k \<Rightarrow>
         if \<not> scope_ok d (fst k) (fst (snd (snd k))) (snd ea) (snd eb) then ks
         else if k \<in> int_key ` set (charm_integrations d) \<or> k \<in> set ks then ks
         else ks @ [k])"

definition new_keys :: "'e Domain \<Rightarrow> nat \<Rightarrow> nat \<Rightarrow> int_key list" where
  "new_keys d a b =
     fold (pair_endpoints d a b)
       (concat (map (\<lambda>ea. map (\<lambda>eb. (ea, eb)) (charm_endpoints (spec (charms d ! b)))) (charm_endpoints (spec (charms d ! a))))) []"

definition pair_charms_in_domain :: "'e z3 \<Rightarrow> 'e Domain \<Rightarrow> nat \<Rightarrow> nat \<Rightarrow> py_error + 'e Domain \<times> bool" where
  "pair_charms_in_domain Z d a b =
     (if a = b then Inr (d, False)
      else if a \<ge> length (charms d) \<or> b \<ge> length (charms d) then Inl IndexError
      else
        let ks = new_keys d a b;
            d' = d\<lparr>charm_integrations := charm_integrations d @ map (new_integration Z d) ks\<rparr>
        in if ks = [] then Inr (d, False) else Inr (refresh_application_integration_mappings Z d', True))"

end
