(* ===== verification/Bundle_Errors.thy ===== *)
theory Bundle_Errors
  imports Bundle_Domain
begin

text \<open>
  Why a bundle could not be built: the errors of a release lookup
  (\<^verbatim>\<open>bundle_builder_x/release_errors.py\<close>) and the diagnostics of the builder
  (\<^verbatim>\<open>bundle_builder_x/bundle_diagnostics.py\<close>), with the nested tuples by which they are compared,
  made unique and sorted. The texts shown to a user are not modelled, except the message an
  error of the base class is compared by.
\<close>

section \<open>Tuples as keys\<close>

text \<open>
  Nested tuples of integers and strings with Python's order. Values of different kinds are
  never compared in the program (Python would raise); here integers come first, tuples last.
\<close>

datatype key = KInt int | KStr py_str | KTup "key list"

fun key_le :: "key \<Rightarrow> key \<Rightarrow> bool" and keys_le :: "key list \<Rightarrow> key list \<Rightarrow> bool" where
  "key_le (KInt a) k = (case k of KInt b \<Rightarrow> a \<le> b | _ \<Rightarrow> True)"
| "key_le (KStr a) k = (case k of KInt _ \<Rightarrow> False | KStr b \<Rightarrow> a \<le> b | KTup _ \<Rightarrow> True)"
| "key_le (KTup xs) k = (case k of KTup ys \<Rightarrow> keys_le xs ys | _ \<Rightarrow> False)"
| "keys_le [] ys = True"
| "keys_le (x # xs) [] = False"
| "keys_le (x # xs) (y # ys) = (if x = y then keys_le xs ys else key_le x y)"

lemma keys_le_refl: "keys_le xs xs"
  by (induction xs) simp_all

lemma key_le_refl: "key_le a a"
  by (cases a) (simp_all add: keys_le_refl)

lemma key_le_total: "key_le a b \<or> key_le b a" and keys_le_total: "keys_le xs ys \<or> keys_le ys xs"
proof (induction a b and xs ys rule: key_le_keys_le.induct)
  case (4 ys)
  show ?case by simp
next
  case (5 x xs)
  show ?case by simp
qed (auto split: key.splits)

lemma key_le_antisym: "key_le a b \<Longrightarrow> key_le b a \<Longrightarrow> a = b"
  and keys_le_antisym: "keys_le xs ys \<Longrightarrow> keys_le ys xs \<Longrightarrow> xs = ys"
proof (induction a b and xs ys rule: key_le_keys_le.induct)
  case (4 ys)
  then show ?case by (cases ys) simp_all
next
  case (6 x xs y ys)
  then show ?case by (cases "x = y") auto
qed (auto split: key.splits)

lemma key_le_trans: "key_le a b \<Longrightarrow> key_le b c \<Longrightarrow> key_le a c"
  and keys_le_trans: "keys_le xs ys \<Longrightarrow> keys_le ys zs \<Longrightarrow> keys_le xs zs"
proof (induction a b and xs ys arbitrary: c and zs rule: key_le_keys_le.induct)
  case (6 x xs y ys)
  show ?case
  proof (cases zs)
    case Nil
    then show ?thesis using "6.prems"(2) by simp
  next
    case (Cons z zs')
    show ?thesis
    proof (cases "x = y")
      case True
      then show ?thesis using 6 Cons by (cases "y = z") auto
    next
      case False
      then have xy: "key_le x y" using "6.prems"(1) by simp
      show ?thesis
      proof (cases "y = z")
        case True
        then show ?thesis using xy False Cons by simp
      next
        case yz: False
        then have "key_le y z" using "6.prems"(2) Cons by simp
        then have "key_le x z" using "6.IH"(2) False xy by blast
        moreover have "x \<noteq> z" using xy \<open>key_le y z\<close> key_le_antisym False by blast
        ultimately show ?thesis using Cons by simp
      qed
    qed
  qed
qed (auto split: key.splits)

instantiation key :: linorder
begin

definition less_eq_key :: "key \<Rightarrow> key \<Rightarrow> bool" where
  "less_eq_key = key_le"

definition less_key :: "key \<Rightarrow> key \<Rightarrow> bool" where
  "less_key a b \<longleftrightarrow> key_le a b \<and> a \<noteq> b"

instance
proof
  fix a b c :: key
  show "a < b \<longleftrightarrow> a \<le> b \<and> \<not> b \<le> a" using key_le_antisym key_le_refl by (auto simp: less_eq_key_def less_key_def)
  show "a \<le> a" by (simp add: less_eq_key_def key_le_refl)
  show "a \<le> b \<Longrightarrow> b \<le> c \<Longrightarrow> a \<le> c" using key_le_trans by (simp add: less_eq_key_def)
  show "a \<le> b \<Longrightarrow> b \<le> a \<Longrightarrow> a = b" using key_le_antisym by (simp add: less_eq_key_def)
  show "a \<le> b \<or> b \<le> a" using key_le_total by (simp add: less_eq_key_def)
qed

end

text \<open>\<open>x or ""\<close> on optional strings.\<close>

definition or_empty :: "py_str option \<Rightarrow> py_str" where
  "or_empty x = (case x of None \<Rightarrow> [] | Some s \<Rightarrow> s)"

definition int_str :: "int \<Rightarrow> py_str" where
  "int_str i = (if i < 0 then CHR ''-'' # nat_str (nat (- i)) else nat_str (nat i))"

section \<open>Release errors\<close>

datatype ReleaseUnavailableKind =
    MISSING_BASES | CHANNEL_BASE_UNSUPPORTED | REVISION_NOT_FOUND | NO_SUITABLE_CHANNEL | CHANNEL_NOT_FOUND
  | TRACK_NOT_FOUND | DEFAULT_RELEASE_NOT_FOUND | UNEXPECTED_STORE_RESPONSE

fun release_kind_value :: "ReleaseUnavailableKind \<Rightarrow> py_str" where
  "release_kind_value MISSING_BASES = ''missing_bases''"
| "release_kind_value CHANNEL_BASE_UNSUPPORTED = ''channel_base_unsupported''"
| "release_kind_value REVISION_NOT_FOUND = ''revision_not_found''"
| "release_kind_value NO_SUITABLE_CHANNEL = ''no_suitable_channel''"
| "release_kind_value CHANNEL_NOT_FOUND = ''channel_not_found''"
| "release_kind_value TRACK_NOT_FOUND = ''track_not_found''"
| "release_kind_value DEFAULT_RELEASE_NOT_FOUND = ''default_release_not_found''"
| "release_kind_value UNEXPECTED_STORE_RESPONSE = ''unexpected_store_response''"

record ReleaseRequest =
  rq_charm_name :: py_str
  rq_architecture :: "py_str option"
  rq_platform :: "py_str option"
  rq_juju_version :: "py_str option"
  rq_base :: "py_str option"
  rq_channel :: "py_str option"
  rq_track :: "py_str option"
  rq_risk :: "py_str option"
  rq_revision :: "int option"

text \<open>\<open>CharmReleaseNotFoundException\<close> and its subclasses; the constructors of the source sort the tuples.\<close>

datatype release_error =
    CharmReleaseNotFound py_str "ReleaseRequest option"
  | PlatformMismatch ReleaseRequest py_str "py_str list"
  | AssumesMismatch ReleaseRequest "py_str list" "py_str list"
  | BaseMismatch ReleaseRequest py_str "py_str list"
  | ArchitectureMismatch ReleaseRequest "py_str list"
  | ReleaseUnavailable ReleaseUnavailableKind ReleaseRequest "py_str option" "release_error list"

definition PlatformMismatchError :: "ReleaseRequest \<Rightarrow> py_str \<Rightarrow> py_str list \<Rightarrow> release_error" where
  "PlatformMismatchError r p supported = PlatformMismatch r p (sort supported)"

definition AssumesMismatchError :: "ReleaseRequest \<Rightarrow> py_str list \<Rightarrow> py_str list \<Rightarrow> release_error" where
  "AssumesMismatchError r unmet available = AssumesMismatch r (sort unmet) (sort available)"

definition BaseMismatchError :: "ReleaseRequest \<Rightarrow> py_str \<Rightarrow> py_str list \<Rightarrow> release_error" where
  "BaseMismatchError r b supported = BaseMismatch r b (sort supported)"

definition ArchitectureMismatchError :: "ReleaseRequest \<Rightarrow> py_str list \<Rightarrow> release_error" where
  "ArchitectureMismatchError r supported = ArchitectureMismatch r (sort supported)"

definition request_key :: "ReleaseRequest \<Rightarrow> key" where
  "request_key r = KTup (map KStr [or_empty (rq_architecture r), or_empty (rq_platform r), or_empty (rq_juju_version r),
     or_empty (rq_base r), or_empty (rq_channel r), or_empty (rq_track r), or_empty (rq_risk r),
     (case rq_revision r of None \<Rightarrow> [] | Some i \<Rightarrow> int_str i)])"

fun release_error_key :: "release_error \<Rightarrow> key" where
  "release_error_key (CharmReleaseNotFound message request) =
     KTup [KStr ''CharmReleaseNotFoundException'', (case request of None \<Rightarrow> KTup [] | Some r \<Rightarrow> request_key r), KTup [KStr message]]"
| "release_error_key (PlatformMismatch r p supported) =
     KTup [KStr ''PlatformMismatchError'', request_key r, KTup [KStr p, KTup (map KStr supported)]]"
| "release_error_key (AssumesMismatch r unmet available) =
     KTup [KStr ''AssumesMismatchError'', request_key r, KTup [KTup (map KStr unmet), KTup (map KStr available)]]"
| "release_error_key (BaseMismatch r b supported) =
     KTup [KStr ''BaseMismatchError'', request_key r, KTup [KStr b, KTup (map KStr supported)]]"
| "release_error_key (ArchitectureMismatch r supported) =
     KTup [KStr ''ArchitectureMismatchError'', request_key r, KTup [KTup (map KStr supported)]]"
| "release_error_key (ReleaseUnavailable k r code causes) =
     KTup [KStr ''ReleaseUnavailableError'', request_key r,
       KTup [KStr (release_kind_value k), KStr (or_empty code), KTup (map release_error_key causes)]]"

fun leaf_release_errors :: "release_error \<Rightarrow> release_error list" where
  "leaf_release_errors (ReleaseUnavailable k r code causes) =
     (if causes \<noteq> [] then sort_key release_error_key (concat (map leaf_release_errors causes))
      else [ReleaseUnavailable k r code causes])"
| "leaf_release_errors e = [e]"

lemma leaf_release_errors_leaves:
  "leaf_release_errors e \<noteq> [] \<and> sorted (map release_error_key (leaf_release_errors e)) \<and> (\<forall>x \<in> set (leaf_release_errors e). leaf_release_errors x = [x])"
proof (induction e rule: leaf_release_errors.induct)
  case (1 k r code causes)
  show ?case
  proof (cases causes)
    case (Cons c cs)
    with 1 [of c] have "leaf_release_errors c \<noteq> []" by simp
    then obtain x where "x \<in> set (concat (map leaf_release_errors causes))" unfolding Cons by (cases "leaf_release_errors c") auto
    then have "sort_key release_error_key (concat (map leaf_release_errors causes)) \<noteq> []" by (metis empty_iff list.set(1) set_sort)
    then show ?thesis using 1 by (auto simp: Cons)
  qed simp
qed simp_all

section \<open>Diagnostics\<close>

record DiagnosticEndpoint =
  de_charm_name :: py_str
  de_endpoint :: py_str
  de_application :: "py_str option"

definition endpoint_identity :: "DiagnosticEndpoint \<Rightarrow> key list" where
  "endpoint_identity e = [KStr (de_charm_name e), KStr (de_endpoint e), KStr (or_empty (de_application e))]"

datatype BundleBuildFailureKind =
    EMPTY_UNSAT_CORE | SOLVER_TIMEOUT | UNEXPANDABLE_ASSERTIONS | OPTIMIZATION_UNSATISFIABLE | OPTIMIZATION_TIMEOUT

fun failure_kind_value :: "BundleBuildFailureKind \<Rightarrow> py_str" where
  "failure_kind_value EMPTY_UNSAT_CORE = ''empty_unsat_core''"
| "failure_kind_value SOLVER_TIMEOUT = ''solver_timeout''"
| "failure_kind_value UNEXPANDABLE_ASSERTIONS = ''unexpandable_assertions''"
| "failure_kind_value OPTIMIZATION_UNSATISFIABLE = ''optimization_unsatisfiable''"
| "failure_kind_value OPTIMIZATION_TIMEOUT = ''optimization_timeout''"

datatype BundleDiagnostic =
    UnfulfilledEndpointDiagnostic DiagnosticEndpoint "py_str option"
  | FeatureMismatchDiagnostic DiagnosticEndpoint DiagnosticEndpoint py_str
  | PeerChannelMismatchDiagnostic py_str py_str py_str "py_str option" "py_str option" "py_str option" "int option"
  | SubordinateBaseMismatchDiagnostic py_str py_str py_str py_str py_str py_str
  | UnresolvedApplicationDiagnostic py_str py_str
  | UnresolvedIntegrationDiagnostic "DiagnosticEndpoint list"
  | ApplicationReleaseDiagnostic py_str py_str py_str release_error
  | BundleBuildFailureDiagnostic BundleBuildFailureKind py_str

text \<open>\<open>UnresolvedIntegrationDiagnostic\<close> sorts its endpoints when it is made.\<close>

definition unresolved_integration :: "DiagnosticEndpoint list \<Rightarrow> py_error + BundleDiagnostic" where
  "unresolved_integration eps =
     (if eps = [] then Inl ValueError
      else Inr (UnresolvedIntegrationDiagnostic (sort_key (\<lambda>e. KTup (endpoint_identity e)) eps)))"

fun diagnostic_identity :: "BundleDiagnostic \<Rightarrow> key" where
  "diagnostic_identity (UnfulfilledEndpointDiagnostic e i) = KTup (endpoint_identity e @ [KStr (or_empty i)])"
| "diagnostic_identity (FeatureMismatchDiagnostic r p f) = KTup (endpoint_identity r @ endpoint_identity p @ [KStr f])"
| "diagnostic_identity (PeerChannelMismatchDiagnostic c e p t r ch v) =
     KTup [KStr c, KStr e, KStr p, KStr (or_empty t), KStr (or_empty r), KStr (or_empty ch), KInt (case v of None \<Rightarrow> -1 | Some i \<Rightarrow> i)]"
| "diagnostic_identity (SubordinateBaseMismatchDiagnostic a b c d e f) = KTup (map KStr [a, b, c, d, e, f])"
| "diagnostic_identity (UnresolvedApplicationDiagnostic a c) = KTup [KStr a, KStr c]"
| "diagnostic_identity (UnresolvedIntegrationDiagnostic eps) = KTup (map (\<lambda>e. KTup (endpoint_identity e)) eps)"
| "diagnostic_identity (ApplicationReleaseDiagnostic a c m e) = KTup [KStr m, KStr a, KStr c, release_error_key e]"
| "diagnostic_identity (BundleBuildFailureDiagnostic k d) = KTup [KStr (failure_kind_value k), KStr d]"

text \<open>The position of the class in \<open>diagnostic_order\<close>.\<close>

fun diagnostic_rank :: "BundleDiagnostic \<Rightarrow> nat" where
  "diagnostic_rank (UnfulfilledEndpointDiagnostic _ _) = 0"
| "diagnostic_rank (FeatureMismatchDiagnostic _ _ _) = 1"
| "diagnostic_rank (PeerChannelMismatchDiagnostic _ _ _ _ _ _ _) = 2"
| "diagnostic_rank (SubordinateBaseMismatchDiagnostic _ _ _ _ _ _) = 3"
| "diagnostic_rank (UnresolvedApplicationDiagnostic _ _) = 4"
| "diagnostic_rank (UnresolvedIntegrationDiagnostic _) = 5"
| "diagnostic_rank (ApplicationReleaseDiagnostic _ _ _ _) = 6"
| "diagnostic_rank (BundleBuildFailureDiagnostic _ _) = 7"

definition diagnostic_key :: "BundleDiagnostic \<Rightarrow> nat \<times> key" where
  "diagnostic_key d = (diagnostic_rank d, diagnostic_identity d)"

definition canonicalize_diagnostics :: "BundleDiagnostic list \<Rightarrow> BundleDiagnostic list" where
  "canonicalize_diagnostics ds = sort_key diagnostic_key (map snd (fold (\<lambda>d u. dict_set (diagnostic_key d) d u) ds []))"

lemma unique_diagnostics:
  assumes "\<forall>(k, d) \<in> set u. k = diagnostic_key d" "dict_ok u"
  shows "let v = fold (\<lambda>d u. dict_set (diagnostic_key d) d u) ds u in
    (\<forall>(k, d) \<in> set v. k = diagnostic_key d) \<and> dict_ok v \<and> fst ` set v = fst ` set u \<union> diagnostic_key ` set ds
    \<and> snd ` set v \<subseteq> snd ` set u \<union> set ds"
  using assms
proof (induction ds arbitrary: u)
  case (Cons d ds)
  let ?u = "dict_set (diagnostic_key d) d u"
  have 1: "\<forall>(k, d) \<in> set ?u. k = diagnostic_key d" "snd ` set ?u \<subseteq> insert d (snd ` set u)"
    using Cons.prems(1) set_update_mem [of _ _ "diagnostic_key d" d u] by fastforce+
  have 2: "fst ` set ?u = insert (diagnostic_key d) (fst ` set u)" by (metis dom_map_of_conv_image_fst dom_fun_upd option.distinct(1) dict_get_set)
  let ?v = "fold (\<lambda>d u. dict_set (diagnostic_key d) d u) ds ?u"
  have v: "\<forall>(k, d) \<in> set ?v. k = diagnostic_key d" "dict_ok ?v" "fst ` set ?v = fst ` set ?u \<union> diagnostic_key ` set ds"
    "snd ` set ?v \<subseteq> snd ` set ?u \<union> set ds"
    using Cons.IH [OF 1(1) dict_ok_set [OF Cons.prems(2)]] unfolding Let_def by argo+
  have "snd ` set ?v \<subseteq> snd ` set u \<union> set (d # ds)" using subset_trans [OF v(4) Un_mono [OF 1(2) subset_refl]] by simp
  then show ?case unfolding Let_def fold_simps using v(1,2) unfolding v(3) 2 by (intro conjI) simp_all
qed auto

text \<open>
  The result is sorted, has one diagnostic for every identity given, and only diagnostics
  that were given; doing it twice changes nothing.
\<close>

lemma canonicalize_diagnostics:
  "sorted_wrt (<) (map diagnostic_key (canonicalize_diagnostics ds))"
  "diagnostic_key ` set (canonicalize_diagnostics ds) = diagnostic_key ` set ds" "set (canonicalize_diagnostics ds) \<subseteq> set ds"
proof -
  let ?v = "fold (\<lambda>d u. dict_set (diagnostic_key d) d u) ds []"
  have v: "\<forall>(k, d) \<in> set ?v. k = diagnostic_key d" "dict_ok ?v" "fst ` set ?v = diagnostic_key ` set ds" "snd ` set ?v \<subseteq> set ds"
    using unique_diagnostics [of "[]" ds] by (simp_all add: Let_def)
  have keys: "map diagnostic_key (map snd ?v) = map fst ?v" using v(1) by auto
  have "set (map diagnostic_key (map snd ?v)) = set (map fst ?v)" unfolding keys ..
  then show "diagnostic_key ` set (canonicalize_diagnostics ds) = diagnostic_key ` set ds"
    unfolding canonicalize_diagnostics_def using v(3) by (simp add: image_image)
  show "set (canonicalize_diagnostics ds) \<subseteq> set ds" using v(4) by (simp add: canonicalize_diagnostics_def)
  have "distinct (map diagnostic_key (map snd ?v))" unfolding keys using v(2) by (simp add: dict_ok_def)
  then have "distinct (map diagnostic_key (canonicalize_diagnostics ds))"
    unfolding canonicalize_diagnostics_def distinct_map by (simp add: distinct_map)
  then show "sorted_wrt (<) (map diagnostic_key (canonicalize_diagnostics ds))"
    by (simp add: canonicalize_diagnostics_def strict_sorted_iff)
qed

lemma canonicalize_nonempty: "ds \<noteq> [] \<Longrightarrow> canonicalize_diagnostics ds \<noteq> []"
  using canonicalize_diagnostics(2) [of ds] by (metis image_is_empty set_empty)

end
