(* ===== verification/Bundle_Lower.thy ===== *)
theory Bundle_Lower
  imports Bundle_Domain
begin

text \<open>
  The tags of solver assertions (\<^verbatim>\<open>bundle_builder_x/assertion_tags.py\<close>, as data; their encoding as
  JSON text is not modelled) and the translation of constraint trees to solver expressions
  (\<^verbatim>\<open>bundle_builder_x/dsl_lowering.py\<close>). The list of expansion hints that the code keeps in the
  context is threaded through as a state. Where the code iterates over a set, an order is
  fixed: ascending for literals, left operand first for feature names.
\<close>

section \<open>Tags\<close>

record CharmPayload =
  cp_charm_name :: py_str
  cp_charm_id :: nat

record CharmEndpointPayload =
  cep_charm_name :: py_str
  cep_charm_id :: nat
  cep_endpoint :: py_str

record AppEndpointPayload =
  aep_application :: py_str
  aep_endpoint :: py_str
  aep_model :: ModelRef

datatype AssertionTag =
    ApplicationExistsTag ModelRef py_str
  | CharmMappedToSingleApplicationTag CharmPayload
  | CharmExistsFromApplicationTag py_str CharmPayload
  | ApplicationIntegrationExistsTag ModelRef "AppEndpointPayload list"
  | CharmDependencyCyclicTag CharmEndpointPayload CharmEndpointPayload
  | CharmIntegrationMappedToSingleApplicationIntegrationTag "CharmEndpointPayload list"
  | CharmIntegrationExistsFromApplicationIntegrationTag "AppEndpointPayload list" "CharmEndpointPayload list"
  | ApplicationIntegrationAppsMapToCharmsTag "AppEndpointPayload list" "CharmEndpointPayload list"
  | CharmExistsFromIntegrationTag CharmPayload "CharmEndpointPayload list"
  | EndpointCountMatchesIntegrationsTag CharmEndpointPayload nat
  | CrossModelEndpointCountMatchesIntegrationsTag CharmEndpointPayload nat
  | EndpointIntegratedMatchesCountTag CharmEndpointPayload
  | CharmEndpointNonOptionalTag CharmEndpointPayload py_str
  | EndpointRespectsLimitTag CharmEndpointPayload int
  | CharmCustomConstraintTag CharmPayload nat
  | PeerChannelMismatchTag CharmPayload py_str py_str nat "py_str option" "py_str option" "py_str option" "int option"
  | CharmRankBoundedTag CharmPayload
  | SubordinateBaseMismatchTag py_str nat py_str py_str nat py_str py_str py_str
  | IntegrationFeatureMismatchTag CharmEndpointPayload CharmEndpointPayload py_str

section \<open>Values of the lowering\<close>

record EndpointRef =
  er_name :: py_str
  cross_model_only :: bool

datatype set_value = SVStr py_str | SVInt int

record 'e ChannelSetEntry =
  cse_charm_id :: nat
  cse_charm_name :: py_str
  cse_value :: set_value
  cse_condition :: 'e
  cse_endpoint :: "py_str option"

datatype set_kind = KTrack | KRisk | KChannel | KRevision

record 'e ChannelSet =
  cs_z3_set :: 'e
  cs_entries :: "'e ChannelSetEntry list"
  cs_kind :: set_kind

datatype 'e lowered =
    LExpr 'e
  | LEndpoints "EndpointRef list"
  | LFeatures "(py_str, 'e) dict"
  | LChannels "'e ChannelSet"

text \<open>
  \<open>Z3Exception\<close> is what the solver library raises for operands whose sorts do not fit. Configuration
  and resource values get a sort in the domain only, so the type checker cannot rule it out.
  \<open>Z3Misuse\<close> is a value that is no solver expression handed to the library; it needs an ill-typed tree.
\<close>

datatype lowering_error = DSLLoweringError | Z3Exception | Z3Misuse

record 'e SubAssertion =
  sub_expr :: 'e
  sub_tag :: AssertionTag

record 'e LoweringContext =
  ctx_charm_id :: nat
  ctx_charm :: "'e DomainCharm"
  ctx_domain :: "'e Domain"

type_synonym ('e, 'a) lowering = "lowering_error + 'a \<times> 'e SubAssertion list"

definition config_value_to_z3 :: "'e z3 \<Rightarrow> 'e \<Rightarrow> config_value \<Rightarrow> 'e" where
  "config_value_to_z3 Z var v =
     (case v of
        CBool b \<Rightarrow> if sort_of Z var = IntSort then zEq Z var (IntVal Z (if b then 1 else 0)) else zEq Z var (BoolVal Z b)
      | CInt i \<Rightarrow> zEq Z var (IntVal Z i)
      | CFloat q \<Rightarrow> zEq Z var (RealVal Z q)
      | CStr s \<Rightarrow> zEq Z var (StringVal Z s))"

section \<open>Helpers\<close>

text \<open>A call of the library, which raises unless the sorts of the operands are right.\<close>

definition checked :: "bool \<Rightarrow> 'e \<Rightarrow> 'e SubAssertion list \<Rightarrow> ('e, 'e lowered) lowering" where
  "checked sorts_right e s = (if sorts_right then Inr (LExpr e, s) else Inl Z3Exception)"

lemma checked_iff [simp]:
  "checked c e s = Inr (v, s') \<longleftrightarrow> c \<and> v = LExpr e \<and> s' = s"
  "checked c e s = Inl x \<longleftrightarrow> \<not> c \<and> x = Z3Exception"
  by (auto simp: checked_def)

definition as_z3 :: "('e, 'e lowered) lowering \<Rightarrow> ('e, 'e) lowering" where
  "as_z3 r = bind_result r (\<lambda>(v, s).
     case v of LChannels cs \<Rightarrow> Inr (cs_z3_set cs, s) | LExpr e \<Rightarrow> Inr (e, s) | _ \<Rightarrow> Inl DSLLoweringError)"

definition consistent_cross_model_tags :: "EndpointRef list \<Rightarrow> bool" where
  "consistent_cross_model_tags refs \<longleftrightarrow>
     (\<forall>r \<in> set refs. \<forall>r' \<in> set refs. er_name r = er_name r' \<longrightarrow> cross_model_only r = cross_model_only r')"

definition as_endpoints :: "('e, 'e lowered) lowering \<Rightarrow> ('e, EndpointRef list) lowering" where
  "as_endpoints r = bind_result r (\<lambda>(v, s).
     case v of
       LEndpoints refs \<Rightarrow> if consistent_cross_model_tags refs then Inr (refs, s) else Inl DSLLoweringError
     | _ \<Rightarrow> Inl DSLLoweringError)"

definition as_features :: "('e, 'e lowered) lowering \<Rightarrow> ('e, (py_str, 'e) dict) lowering" where
  "as_features r = bind_result r (\<lambda>(v, s). case v of LFeatures fs \<Rightarrow> Inr (fs, s) | _ \<Rightarrow> Inl DSLLoweringError)"

text \<open>The peer an integration gives the charm \<open>cid\<close> on one of the named endpoints, with the endpoint.\<close>

definition peer_on :: "nat \<Rightarrow> py_str set \<Rightarrow> 'e DomainCharmIntegration \<Rightarrow> (nat \<times> py_str) option" where
  "peer_on cid names i =
     (if requires_charm_id i = cid \<and> requires_endpoint i \<in> names then Some (provides_charm_id i, requires_endpoint i)
      else if provides_charm_id i = cid \<and> provides_endpoint i \<in> names then Some (requires_charm_id i, provides_endpoint i)
      else None)"

definition add_peer :: "'e z3 \<Rightarrow> 'e Domain \<Rightarrow> nat \<Rightarrow> EndpointRef list \<Rightarrow> 'e DomainCharmIntegration \<Rightarrow> 'e \<Rightarrow> 'e" where
  "add_peer Z d cid refs i res =
     (case peer_on cid (er_name ` set refs) i of
        None \<Rightarrow> res
      | Some (peer_id, matched) \<Rightarrow>
          if matched \<in> er_name ` {r \<in> set refs. cross_model_only r} \<and> \<not> is_cross_model d i then res
          else zIf Z (int_exists i) (SetAdd Z res (IntVal Z (int peer_id))) res)"

definition add_external_peer :: "'e z3 \<Rightarrow> 'e Domain \<Rightarrow> nat \<Rightarrow> EndpointRef list \<Rightarrow>
    ModelRef \<times> DomainApplicationEndpoint \<times> DomainApplicationEndpoint \<Rightarrow> 'e \<Rightarrow> 'e" where
  "add_external_peer Z d cid refs = (\<lambda>(model_ref, l, r) res.
     if model_ref \<noteq> charm_model (charms d ! cid) \<or> dae_endpoint l \<notin> er_name ` set refs then res
     else
       case dict_get (app_to_charm_map d) (dae_application l, cid) of
         None \<Rightarrow> res
       | Some mapping_var \<Rightarrow>
           zIf Z mapping_var
             (SetAdd Z res (IntVal Z (int (the (dict_get (external_cmr_peer_ids d) (model_key (dae_model r), dae_application r)))))) res)"

definition charm_set_for_endpoints :: "'e z3 \<Rightarrow> nat \<Rightarrow> EndpointRef list \<Rightarrow> 'e Domain \<Rightarrow> bool \<Rightarrow> 'e" where
  "charm_set_for_endpoints Z cid refs d include_external_cmr_peers =
     (let res = fold (add_peer Z d cid refs) (charm_integrations d) (EmptySet Z IntSort)
      in if \<not> include_external_cmr_peers then res
         else fold (add_external_peer Z d cid refs) (external_cmr_integrations d) res)"

definition chain_step :: "'e z3 \<Rightarrow> 'e Domain \<Rightarrow> 'e \<Rightarrow> nat \<Rightarrow> CharmEndpointProxy \<Rightarrow> 'e DomainCharmIntegration \<Rightarrow> 'e \<Rightarrow> 'e" where
  "chain_step Z d res peer_id proxy i peer_in_chain =
     (if is_cross_model d i then peer_in_chain
      else
        case peer_on peer_id {proxy_requires proxy} i of
          None \<Rightarrow> peer_in_chain
        | Some (other_id, _) \<Rightarrow>
            zOr Z [peer_in_chain, zAnd Z [int_exists i, IsMember Z (IntVal Z (int other_id)) res]])"

definition extend_by_proxy :: "'e z3 \<Rightarrow> 'e Domain \<Rightarrow> 'e \<Rightarrow> nat \<times> CharmEndpointProxy \<Rightarrow> 'e \<Rightarrow> 'e" where
  "extend_by_proxy Z d res = (\<lambda>(peer_id, proxy) extended.
     zIf Z (fold (chain_step Z d res peer_id proxy) (charm_integrations d) (BoolVal Z False))
       (SetAdd Z extended (IntVal Z (int peer_id))) extended)"

definition domain_proxies :: "'e Domain \<Rightarrow> (nat \<times> CharmEndpointProxy) list" where
  "domain_proxies d = concat (map (\<lambda>(i, c). map (\<lambda>p. (i, p)) (proxies (spec c))) (enumerate 0 (charms d)))"

definition reach_round :: "'e z3 \<Rightarrow> 'e Domain \<Rightarrow> 'e \<Rightarrow> 'e" where
  "reach_round Z d res = fold (extend_by_proxy Z d res) (domain_proxies d) res"

definition proxy_charm_count :: "'e Domain \<Rightarrow> nat" where
  "proxy_charm_count d = length (filter (\<lambda>c. proxies (spec c) \<noteq> []) (charms d))"

definition reachable_set :: "'e z3 \<Rightarrow> nat \<Rightarrow> py_str \<Rightarrow> 'e Domain \<Rightarrow> 'e" where
  "reachable_set Z cid endpoint d =
     (reach_round Z d ^^ proxy_charm_count d)
       (charm_set_for_endpoints Z cid [\<lparr>er_name = endpoint, cross_model_only = False\<rparr>] d False)"

definition merge_feature :: "'e z3 \<Rightarrow> py_str \<times> 'e \<Rightarrow> (py_str, 'e) dict \<Rightarrow> (py_str, 'e) dict" where
  "merge_feature Z = (\<lambda>(f, v) merged.
     dict_set f (case dict_get merged f of Some w \<Rightarrow> zOr Z [w, v] | None \<Rightarrow> v) merged)"

definition merge_feature_dicts :: "'e z3 \<Rightarrow> (py_str, 'e) dict list \<Rightarrow> (py_str, 'e) dict" where
  "merge_feature_dicts Z ds = fold (merge_feature Z) (concat ds) []"

definition set_op_features :: "'e z3 \<Rightarrow> set_op \<Rightarrow> (py_str, 'e) dict \<Rightarrow> (py_str, 'e) dict \<Rightarrow> (py_str, 'e) dict" where
  "set_op_features Z op left right =
     map (\<lambda>f.
       let l = dict_get_default left f (BoolVal Z False); r = dict_get_default right f (BoolVal Z False)
       in (f, case op of UnionOp \<Rightarrow> zOr Z [l, r] | InterOp \<Rightarrow> zAnd Z [l, r] | DiffOp \<Rightarrow> zAnd Z [l, zNot Z r]))
       (remdups (dict_keys left @ dict_keys right))"

definition z3_set_op :: "'e z3 \<Rightarrow> set_op \<Rightarrow> 'e \<Rightarrow> 'e \<Rightarrow> 'e" where
  "z3_set_op Z op l r = (case op of UnionOp \<Rightarrow> SetUnion Z l r | InterOp \<Rightarrow> SetIntersect Z l r | DiffOp \<Rightarrow> SetDifference Z l r)"

definition channel_set_op :: "'e z3 \<Rightarrow> set_op \<Rightarrow> 'e lowered \<Rightarrow> 'e lowered \<Rightarrow> 'e SubAssertion list \<Rightarrow> ('e, 'e lowered) lowering" where
  "channel_set_op Z op l_val r_val s =
     bind_result (as_z3 (Inr (l_val, s))) (\<lambda>(l_z3, s). bind_result (as_z3 (Inr (r_val, s))) (\<lambda>(r_z3, s).
       let l_entries = (case l_val of LChannels cs \<Rightarrow> cs_entries cs | _ \<Rightarrow> []);
           r_entries = (case r_val of LChannels cs \<Rightarrow> cs_entries cs | _ \<Rightarrow> []);
           kind = (case l_val of LChannels cs \<Rightarrow> cs_kind cs | _ \<Rightarrow> (case r_val of LChannels cs \<Rightarrow> cs_kind cs | _ \<Rightarrow> KTrack))
       in Inr (LChannels \<lparr>cs_z3_set = z3_set_op Z op l_z3 r_z3,
                          cs_entries = (if op = DiffOp then l_entries else l_entries @ r_entries), cs_kind = kind\<rparr>, s)))"

definition extract_endpoint_name :: "expr \<Rightarrow> py_str option" where
  "extract_endpoint_name e = (case e of CharmsExpr a \<Rightarrow> (case a of EndpointExpr n \<Rightarrow> Some n | _ \<Rightarrow> None) | _ \<Rightarrow> None)"

section \<open>Expansion hints\<close>

definition build_mismatch_tag :: "'e ChannelSetEntry \<Rightarrow> set_kind \<Rightarrow> set_value \<Rightarrow> CharmPayload \<Rightarrow> AssertionTag" where
  "build_mismatch_tag entry kind v anchor =
     (let str = (case v of SVStr s \<Rightarrow> s | SVInt i \<Rightarrow> []) in
      PeerChannelMismatchTag anchor (case cse_endpoint entry of None \<Rightarrow> [] | Some e \<Rightarrow> e)
        (cse_charm_name entry) (cse_charm_id entry)
        (if kind = KTrack then Some str else None) (if kind = KRisk then Some str else None)
        (if kind = KChannel then Some str else None)
        (if kind = KRevision then Some (case v of SVInt i \<Rightarrow> i | SVStr s \<Rightarrow> 0) else None))"

definition self_value :: "nat \<Rightarrow> 'e lowered \<Rightarrow> set_value option" where
  "self_value cid v =
     (case v of
        LChannels cs \<Rightarrow> map_option cse_value (find (\<lambda>e. cse_charm_id e = cid \<and> cse_endpoint e = None) (cs_entries cs))
      | _ \<Rightarrow> None)"

definition hints_for_self :: "'e z3 \<Rightarrow> 'e LoweringContext \<Rightarrow> set_value \<Rightarrow> 'e ChannelSet \<Rightarrow> 'e SubAssertion list" where
  "hints_for_self Z ctx required cs =
     map (\<lambda>e. \<lparr>sub_expr = zImplies Z (cse_condition e) (BoolVal Z False),
               sub_tag = build_mismatch_tag e (cs_kind cs) required
                  \<lparr>cp_charm_name = charm_name (spec (ctx_charm ctx)), cp_charm_id = ctx_charm_id ctx\<rparr>\<rparr>)
       (filter (\<lambda>e. cse_charm_id e \<noteq> ctx_charm_id ctx \<and> cse_value e \<noteq> required) (cs_entries cs))"

definition cross_hints_entry :: "'e z3 \<Rightarrow> 'e ChannelSet \<Rightarrow> 'e ChannelSetEntry \<Rightarrow> 'e SubAssertion list" where
  "cross_hints_entry Z tgt entry =
     (let matching = filter (\<lambda>e. cse_value e = cse_value entry) (cs_entries tgt);
          coverage = (if matching \<noteq> [] then zOr Z (map cse_condition matching) else BoolVal Z False);
          block_cond = zAnd Z [cse_condition entry, zNot Z coverage];
          anchor = \<lparr>cp_charm_name = cse_charm_name entry, cp_charm_id = cse_charm_id entry\<rparr>
      in map (\<lambda>t. \<lparr>sub_expr = zImplies Z block_cond (BoolVal Z False),
                   sub_tag = build_mismatch_tag t (cs_kind tgt) (cse_value entry) anchor\<rparr>) (cs_entries tgt))"

definition cross_hints :: "'e z3 \<Rightarrow> 'e ChannelSet \<Rightarrow> 'e ChannelSet \<Rightarrow> 'e SubAssertion list" where
  "cross_hints Z src tgt = concat (map (cross_hints_entry Z tgt) (cs_entries src))"

definition first_some :: "'a option \<Rightarrow> 'a option \<Rightarrow> 'a option" where
  "first_some a b = (case a of Some x \<Rightarrow> Some x | None \<Rightarrow> b)"

definition channel_mismatch_hints :: "'e z3 \<Rightarrow> 'e LoweringContext \<Rightarrow> cmp_op \<Rightarrow> 'e lowered \<Rightarrow> 'e lowered \<Rightarrow> 'e SubAssertion list" where
  "channel_mismatch_hints Z ctx op l r =
     (if op \<notin> {EqOp, GeOp, LeOp} then []
      else
        case first_some (self_value (ctx_charm_id ctx) r) (self_value (ctx_charm_id ctx) l) of
          Some required \<Rightarrow>
            (if op \<noteq> GeOp then (case l of LChannels cs \<Rightarrow> hints_for_self Z ctx required cs | _ \<Rightarrow> []) else [])
            @ (if op \<noteq> LeOp then (case r of LChannels cs \<Rightarrow> hints_for_self Z ctx required cs | _ \<Rightarrow> []) else [])
        | None \<Rightarrow>
            (case (l, r) of
               (LChannels lcs, LChannels rcs) \<Rightarrow>
                 (if op \<noteq> GeOp then cross_hints Z lcs rcs else []) @ (if op \<noteq> LeOp then cross_hints Z rcs lcs else [])
             | _ \<Rightarrow> []))"

definition is_self_channel_expr :: "expr \<Rightarrow> bool" where
  "is_self_channel_expr e =
     (case e of TracksExpr a \<Rightarrow> a = SelfExpr | RisksExpr a \<Rightarrow> a = SelfExpr | ChannelsExpr a \<Rightarrow> a = SelfExpr
      | RevisionsExpr a \<Rightarrow> a = SelfExpr | _ \<Rightarrow> False)"

section \<open>Comparisons\<close>

definition lower_features_eq :: "'e z3 \<Rightarrow> (py_str, 'e) dict \<Rightarrow> py_str set \<Rightarrow> 'e" where
  "lower_features_eq Z fs expected =
     (let conditions = map (\<lambda>(f, v). if f \<in> expected then v else zNot Z v) fs
            @ map (\<lambda>f. BoolVal Z False) (filter (\<lambda>f. f \<notin> set (dict_keys fs)) (sorted_list_of_set expected))
      in if conditions = [] then BoolVal Z (expected = {}) else zAnd Z conditions)"

definition set_compare :: "'e z3 \<Rightarrow> cmp_op \<Rightarrow> 'e \<Rightarrow> 'e \<Rightarrow> 'e" where
  "set_compare Z op l r =
     (let eq = zAnd Z [IsSubset Z l r, IsSubset Z r l] in
      case op of
        EqOp \<Rightarrow> eq
      | NeqOp \<Rightarrow> zNot Z eq
      | GeOp \<Rightarrow> IsSubset Z r l
      | LeOp \<Rightarrow> IsSubset Z l r
      | GtOp \<Rightarrow> zAnd Z [IsSubset Z r l, zNot Z eq]
      | LtOp \<Rightarrow> zAnd Z [IsSubset Z l r, zNot Z eq])"

definition scalar_compare :: "'e z3 \<Rightarrow> cmp_op \<Rightarrow> 'e \<Rightarrow> 'e \<Rightarrow> 'e" where
  "scalar_compare Z op l r =
     (case op of EqOp \<Rightarrow> zEq Z l r | NeqOp \<Rightarrow> zNe Z l r | LtOp \<Rightarrow> zLt Z l r | LeOp \<Rightarrow> zLe Z l r
      | GtOp \<Rightarrow> zGt Z l r | GeOp \<Rightarrow> zGe Z l r)"

definition str_set_lit :: "expr \<Rightarrow> py_str set option" where
  "str_set_lit e = (case e of StrLiteralSet ss \<Rightarrow> Some ss | _ \<Rightarrow> None)"

text \<open>The part of a comparison after both sides are lowered.\<close>

definition compare_values :: "'e z3 \<Rightarrow> 'e LoweringContext \<Rightarrow> cmp_op \<Rightarrow> expr \<Rightarrow> expr \<Rightarrow> 'e lowered \<Rightarrow> 'e lowered \<Rightarrow>
    'e SubAssertion list \<Rightarrow> ('e, 'e lowered) lowering" where
  "compare_values Z ctx op left right l_lowered r_lowered s =
     (case (r_lowered, str_set_lit left) of
        (LFeatures fs, Some expected) \<Rightarrow> Inr (LExpr (lower_features_eq Z fs expected), s)
      | _ \<Rightarrow>
          let s1 = s @ channel_mismatch_hints Z ctx op l_lowered r_lowered in
          if op = EqOp \<and> (is_self_channel_expr left \<or> is_self_channel_expr right) then Inr (LExpr (BoolVal Z True), s1)
          else
            bind_result (as_z3 (Inr (l_lowered, s1))) (\<lambda>(l, s2). bind_result (as_z3 (Inr (r_lowered, s2))) (\<lambda>(r, s3).
              if dsl_type left \<in> {TY_CHARM_SET, TY_SET_STR, TY_SET_INT}
              then checked (sort_of Z l = sort_of Z r) (set_compare Z op l r) s3
              else checked (op \<in> {EqOp, NeqOp} \<longrightarrow> comparable Z l r) (scalar_compare Z op l r) s3)))"

definition lower_compare :: "'e z3 \<Rightarrow> 'e LoweringContext \<Rightarrow> cmp_op \<Rightarrow> expr \<Rightarrow> expr \<Rightarrow> ('e, 'e lowered) lowering \<Rightarrow>
    ('e SubAssertion list \<Rightarrow> ('e, 'e lowered) lowering) \<Rightarrow> ('e, 'e lowered) lowering" where
  "lower_compare Z ctx op left right l_result r_lower =
     bind_result l_result (\<lambda>(l_lowered, s).
       case (l_lowered, str_set_lit right) of
         (LFeatures fs, Some expected) \<Rightarrow> Inr (LExpr (lower_features_eq Z fs expected), s)
       | _ \<Rightarrow> bind_result (r_lower s) (\<lambda>(r_lowered, s'). compare_values Z ctx op left right l_lowered r_lowered s'))"

section \<open>The dispatcher\<close>

definition config_expr :: "'e z3 \<Rightarrow> 'e DomainCharm \<Rightarrow> py_str \<Rightarrow> lowering_error + 'e" where
  "config_expr Z charm key =
     (case dict_get (config charm) key of
        None \<Rightarrow> Inl DSLLoweringError
      | Some cfg \<Rightarrow>
          (case cfg_var cfg of
             Some var \<Rightarrow> Inr (if bool_as_int cfg then zEq Z var (IntVal Z 1) else var)
           | None \<Rightarrow>
               (case cfg_default cfg of
                  None \<Rightarrow> Inl DSLLoweringError
                | Some (CBool b) \<Rightarrow> Inr (BoolVal Z b)
                | Some (CInt i) \<Rightarrow> Inr (IntVal Z i)
                | Some (CFloat q) \<Rightarrow> Inr (RealVal Z q)
                | Some (CStr str) \<Rightarrow> Inr (StringVal Z str))))"

definition set_config_expr :: "'e z3 \<Rightarrow> 'e DomainCharm \<Rightarrow> py_str \<Rightarrow> lowering_error + 'e" where
  "set_config_expr Z charm key =
     (case dict_get (config charm) key of
        None \<Rightarrow> Inl DSLLoweringError
      | Some cfg \<Rightarrow>
          (case cfg_var cfg of
             Some _ \<Rightarrow> Inr (case cfg_isset_var cfg of Some v \<Rightarrow> v | None \<Rightarrow> BoolVal Z True)
           | None \<Rightarrow> Inr (BoolVal Z (cfg_default cfg \<noteq> None))))"

definition resource_expr :: "'e z3 \<Rightarrow> 'e DomainCharm \<Rightarrow> py_str \<Rightarrow> lowering_error + 'e" where
  "resource_expr Z charm key =
     (case dict_get (resources charm) key of
        None \<Rightarrow> Inl DSLLoweringError
      | Some res \<Rightarrow>
          (case res_var res of
             Some var \<Rightarrow> Inr var
           | None \<Rightarrow> (case res_default res of None \<Rightarrow> Inl DSLLoweringError | Some v \<Rightarrow> Inr (StringVal Z v))))"

definition set_resource_expr :: "'e z3 \<Rightarrow> 'e DomainCharm \<Rightarrow> py_str \<Rightarrow> lowering_error + 'e" where
  "set_resource_expr Z charm key =
     (case dict_get (resources charm) key of
        None \<Rightarrow> Inl DSLLoweringError
      | Some res \<Rightarrow>
          (case res_var res of
             Some _ \<Rightarrow> Inr (case res_isset_var res of Some v \<Rightarrow> v | None \<Rightarrow> BoolVal Z True)
           | None \<Rightarrow> Inr (BoolVal Z (res_default res \<noteq> None))))"

definition scalar :: "lowering_error + 'e \<Rightarrow> 'e SubAssertion list \<Rightarrow> ('e, 'e lowered) lowering" where
  "scalar r s = bind_result r (\<lambda>e. Inr (LExpr e, s))"

definition domain_endpoint :: "'e LoweringContext \<Rightarrow> EndpointRef \<Rightarrow> 'e DomainCharmEndpoint" where
  "domain_endpoint ctx r = the (dict_get (endpoints (ctx_charm ctx)) (er_name r))"

definition member_condition :: "'e z3 \<Rightarrow> 'e \<Rightarrow> nat \<times> 'e DomainCharm \<Rightarrow> 'e" where
  "member_condition Z charm_set = (\<lambda>(i, dc). zAnd Z [charm_exists dc, IsMember Z (IntVal Z (int i)) charm_set])"

definition len_units :: "'e z3 \<Rightarrow> 'e Domain \<Rightarrow> 'e \<Rightarrow> 'e" where
  "len_units Z d charm_set =
     zSum Z (map (\<lambda>ic. zIf Z (member_condition Z charm_set ic) (num_units (snd ic)) (IntVal Z 0)) (enumerate 0 (charms d))
             @ [IntVal Z 0])"

definition len_endpoints :: "'e z3 \<Rightarrow> 'e LoweringContext \<Rightarrow> EndpointRef list \<Rightarrow> 'e" where
  "len_endpoints Z ctx refs =
     zSum Z (map (\<lambda>r. if cross_model_only r then cross_model_count (domain_endpoint ctx r) else ep_count (domain_endpoint ctx r)) refs
             @ [IntVal Z 0])"

definition bool_endpoints :: "'e z3 \<Rightarrow> 'e LoweringContext \<Rightarrow> EndpointRef list \<Rightarrow> 'e" where
  "bool_endpoints Z ctx refs =
     (if refs = [] then BoolVal Z False
      else zOr Z (map (\<lambda>r. if cross_model_only r then zGe Z (cross_model_count (domain_endpoint ctx r)) (IntVal Z 1)
                           else ep_integrated (domain_endpoint ctx r)) refs))"

definition kind_value :: "set_kind \<Rightarrow> Charm \<Rightarrow> set_value" where
  "kind_value k c =
     (case k of KTrack \<Rightarrow> SVStr (explicit_track (channel c)) | KRisk \<Rightarrow> SVStr (risk (channel c))
      | KChannel \<Rightarrow> SVStr (channel_str (channel c)) | KRevision \<Rightarrow> SVInt (revision c))"

definition value_z3 :: "'e z3 \<Rightarrow> set_value \<Rightarrow> 'e" where
  "value_z3 Z v = (case v of SVStr str \<Rightarrow> StringVal Z str | SVInt i \<Rightarrow> IntVal Z i)"

text \<open>\<open>tracks\<close>, \<open>risks\<close>, \<open>channels\<close> and \<open>revisions\<close> differ in the value they read only.\<close>

definition channel_accessor :: "'e z3 \<Rightarrow> 'e LoweringContext \<Rightarrow> set_kind \<Rightarrow> expr \<Rightarrow> 'e \<Rightarrow> 'e ChannelSet" where
  "channel_accessor Z ctx k arg charm_set =
     (let ics = enumerate 0 (charms (ctx_domain ctx)) in
      \<lparr>cs_z3_set = fold (\<lambda>ic res. zIf Z (member_condition Z charm_set ic) (SetAdd Z res (value_z3 Z (kind_value k (spec (snd ic))))) res)
                     ics (EmptySet Z (if k = KRevision then IntSort else StringSort)),
       cs_entries = map (\<lambda>ic. \<lparr>cse_charm_id = fst ic, cse_charm_name = charm_name (spec (snd ic)),
                               cse_value = kind_value k (spec (snd ic)), cse_condition = member_condition Z charm_set ic,
                               cse_endpoint = extract_endpoint_name arg\<rparr>) ics,
       cs_kind = k\<rparr>)"

definition lower_accessor :: "'e z3 \<Rightarrow> 'e LoweringContext \<Rightarrow> set_kind \<Rightarrow> expr \<Rightarrow> ('e, 'e lowered) lowering \<Rightarrow> ('e, 'e lowered) lowering" where
  "lower_accessor Z ctx k arg r = bind_result (as_z3 r) (\<lambda>(cs, s). Inr (LChannels (channel_accessor Z ctx k arg cs), s))"

definition relation_set_op :: "set_op \<Rightarrow> EndpointRef list \<Rightarrow> EndpointRef list \<Rightarrow> EndpointRef list" where
  "relation_set_op op l r =
     (case op of
        UnionOp \<Rightarrow> l @ filter (\<lambda>e. e \<notin> set l) r
      | InterOp \<Rightarrow> filter (\<lambda>e. e \<in> set r) l
      | DiffOp \<Rightarrow> filter (\<lambda>e. e \<notin> set r) l)"

definition is_channels :: "'e lowered \<Rightarrow> bool" where
  "is_channels v = (case v of LChannels _ \<Rightarrow> True | _ \<Rightarrow> False)"

definition set_op_values :: "'e z3 \<Rightarrow> DSLType \<Rightarrow> set_op \<Rightarrow> 'e lowered \<Rightarrow> 'e lowered \<Rightarrow> 'e SubAssertion list \<Rightarrow> ('e, 'e lowered) lowering" where
  "set_op_values Z ty op l_val r_val s =
     (if is_channels l_val \<or> is_channels r_val then channel_set_op Z op l_val r_val s
      else if ty = TY_SET_STR then
        (case (l_val, r_val) of
           (LFeatures l, LFeatures r) \<Rightarrow> Inr (LFeatures (set_op_features Z op l r), s)
         | _ \<Rightarrow> Inl DSLLoweringError)
      else
        bind_result (as_z3 (Inr (l_val, s))) (\<lambda>(l, s). bind_result (as_z3 (Inr (r_val, s))) (\<lambda>(r, s).
          Inr (LExpr (z3_set_op Z op l r), s))))"

definition literal_clauses :: "'e z3 \<Rightarrow> 'e \<Rightarrow> expr \<Rightarrow> 'e list option" where
  "literal_clauses Z elem collection =
     (case collection of
        IntLiteralSet ns \<Rightarrow> Some (map (\<lambda>v. zEq Z elem (IntVal Z v)) (sorted_list_of_set ns))
      | StrLiteralSet ss \<Rightarrow> Some (map (\<lambda>v. zEq Z elem (StringVal Z v)) (sorted_list_of_set ss))
      | _ \<Rightarrow> None)"

definition is_literal_set :: "expr \<Rightarrow> bool" where
  "is_literal_set e = (case e of IntLiteralSet _ \<Rightarrow> True | StrLiteralSet _ \<Rightarrow> True | _ \<Rightarrow> False)"

definition str_lit :: "expr \<Rightarrow> py_str option" where
  "str_lit e = (case e of StrLit str \<Rightarrow> Some str | _ \<Rightarrow> None)"

text \<open>A value is compared with each element.\<close>

definition literals_comparable :: "'e z3 \<Rightarrow> 'e \<Rightarrow> expr \<Rightarrow> bool" where
  "literals_comparable Z elem collection \<longleftrightarrow>
     (case collection of
        IntLiteralSet ns \<Rightarrow> (\<forall>v \<in> ns. comparable Z elem (IntVal Z v))
      | StrLiteralSet ss \<Rightarrow> (\<forall>v \<in> ss. comparable Z elem (StringVal Z v))
      | _ \<Rightarrow> True)"

text \<open>\<open>_lower_in\<close>: neither operand is a literal set.\<close>

definition in_values :: "'e z3 \<Rightarrow> expr \<Rightarrow> 'e lowered \<Rightarrow> 'e lowered \<Rightarrow> lowering_error + 'e" where
  "in_values Z element elem coll =
     (case (elem, coll) of
        (LExpr x, LExpr c) \<Rightarrow> if sort_of Z c = StringSort \<and> sort_of Z x = StringSort then Inr (Contains Z c x) else Inl Z3Exception
      | (LExpr x, LFeatures fs) \<Rightarrow>
          (case str_lit element of Some str \<Rightarrow> Inr (dict_get_default fs str (BoolVal Z False)) | None \<Rightarrow> Inl DSLLoweringError)
      | (LExpr x, LChannels cs) \<Rightarrow>
          if sort_of Z (cs_z3_set cs) = SetSort (sort_of Z x) then Inr (IsMember Z x (cs_z3_set cs)) else Inl Z3Exception
      | _ \<Rightarrow> Inl DSLLoweringError)"

definition negate_if :: "'e z3 \<Rightarrow> bool \<Rightarrow> 'e \<Rightarrow> 'e" where
  "negate_if Z negated e = (if negated then zNot Z e else e)"

text \<open>
  Arithmetic and the set operations, whose operands are never configuration values in a tree
  that the type checker accepts, are written without a check of the sorts.
\<close>

fun lower_expr :: "'e z3 \<Rightarrow> 'e LoweringContext \<Rightarrow> expr \<Rightarrow> 'e SubAssertion list \<Rightarrow> ('e, 'e lowered) lowering" where
  "lower_expr Z ctx (IntLit n) s = Inr (LExpr (IntVal Z n), s)"
| "lower_expr Z ctx (StrLit str) s = Inr (LExpr (StringVal Z str), s)"
| "lower_expr Z ctx (IntLiteralSet ns) s = Inl DSLLoweringError"
| "lower_expr Z ctx (StrLiteralSet ss) s = Inl DSLLoweringError"
| "lower_expr Z ctx SelfExpr s = Inr (LExpr (SetAdd Z (EmptySet Z IntSort) (IntVal Z (int (ctx_charm_id ctx)))), s)"
| "lower_expr Z ctx (EndpointExpr name) s =
     (if dict_get (endpoints (ctx_charm ctx)) name = None then Inl DSLLoweringError
      else Inr (LEndpoints [\<lparr>er_name = name, cross_model_only = False\<rparr>], s))"
| "lower_expr Z ctx (ConfigExpr key) s = scalar (config_expr Z (ctx_charm ctx) key) s"
| "lower_expr Z ctx (SetConfigExpr key) s = scalar (set_config_expr Z (ctx_charm ctx) key) s"
| "lower_expr Z ctx (ResourceExpr key) s = scalar (resource_expr Z (ctx_charm ctx) key) s"
| "lower_expr Z ctx (SetResourceExpr key) s = scalar (set_resource_expr Z (ctx_charm ctx) key) s"
| "lower_expr Z ctx (LenExpr a) s =
     (case a of
        UnitsExpr inner \<Rightarrow>
          if inner = SelfExpr then Inr (LExpr (num_units (ctx_charm ctx)), s)
          else bind_result (lower_expr Z ctx inner s) (\<lambda>(v, s').
                 case v of LExpr cs \<Rightarrow> Inr (LExpr (len_units Z (ctx_domain ctx) cs), s') | _ \<Rightarrow> Inl Z3Misuse)
      | _ \<Rightarrow> bind_result (as_endpoints (lower_expr Z ctx a s)) (\<lambda>(refs, s'). Inr (LExpr (len_endpoints Z ctx refs), s')))"
| "lower_expr Z ctx (BoolFunc a) s =
     bind_result (as_endpoints (lower_expr Z ctx a s)) (\<lambda>(refs, s'). Inr (LExpr (bool_endpoints Z ctx refs), s'))"
| "lower_expr Z ctx (CrossModelExpr a) s =
     bind_result (as_endpoints (lower_expr Z ctx a s)) (\<lambda>(refs, s').
       Inr (LEndpoints (map (\<lambda>r. \<lparr>er_name = er_name r, cross_model_only = True\<rparr>) refs), s'))"
| "lower_expr Z ctx (CharmsExpr a) s =
     bind_result (as_endpoints (lower_expr Z ctx a s)) (\<lambda>(refs, s').
       Inr (LExpr (charm_set_for_endpoints Z (ctx_charm_id ctx) refs (ctx_domain ctx) True), s'))"
| "lower_expr Z ctx (ReachableExpr a) s =
     (case a of EndpointExpr name \<Rightarrow> Inr (LExpr (reachable_set Z (ctx_charm_id ctx) name (ctx_domain ctx)), s)
      | _ \<Rightarrow> Inl DSLLoweringError)"
| "lower_expr Z ctx (FeaturesExpr a) s =
     bind_result (as_endpoints (lower_expr Z ctx a s)) (\<lambda>(refs, s').
       if list_ex cross_model_only refs then Inl DSLLoweringError
       else Inr (LFeatures (merge_feature_dicts Z (map (\<lambda>r. feature_vars (domain_endpoint ctx r)) refs)), s'))"
| "lower_expr Z ctx (TracksExpr a) s = lower_accessor Z ctx KTrack a (lower_expr Z ctx a s)"
| "lower_expr Z ctx (RisksExpr a) s = lower_accessor Z ctx KRisk a (lower_expr Z ctx a s)"
| "lower_expr Z ctx (ChannelsExpr a) s = lower_accessor Z ctx KChannel a (lower_expr Z ctx a s)"
| "lower_expr Z ctx (RevisionsExpr a) s = lower_accessor Z ctx KRevision a (lower_expr Z ctx a s)"
| "lower_expr Z ctx (UnitsExpr a) s = Inl DSLLoweringError"
| "lower_expr Z ctx (ArithExpr op l r) s =
     bind_result (as_z3 (lower_expr Z ctx l s)) (\<lambda>(a, s1). bind_result (as_z3 (lower_expr Z ctx r s1)) (\<lambda>(b, s2).
       Inr (LExpr (case op of AddOp \<Rightarrow> zAdd Z a b | SubOp \<Rightarrow> zSub Z a b | MulOp \<Rightarrow> zMul Z a b), s2)))"
| "lower_expr Z ctx (CompareExpr op l r) s =
     lower_compare Z ctx op l r (lower_expr Z ctx l s) (\<lambda>s'. lower_expr Z ctx r s')"
| "lower_expr Z ctx (SetOpExpr ty op l r) s =
     (if ty = TY_RELATION_SET then
        bind_result (as_endpoints (lower_expr Z ctx l s)) (\<lambda>(a, s1). bind_result (as_endpoints (lower_expr Z ctx r s1)) (\<lambda>(b, s2).
          if \<not> consistent_cross_model_tags (a @ b) then Inl DSLLoweringError
          else Inr (LEndpoints (relation_set_op op a b), s2)))
      else
        bind_result (lower_expr Z ctx l s) (\<lambda>(a, s1). bind_result (lower_expr Z ctx r s1) (\<lambda>(b, s2).
          set_op_values Z ty op a b s2)))"
| "lower_expr Z ctx (InExpr element collection negated) s =
     (if is_literal_set collection then
        bind_result (as_z3 (lower_expr Z ctx element s)) (\<lambda>(x, s').
          case literal_clauses Z x collection of
            None \<Rightarrow> Inl DSLLoweringError
          | Some clauses \<Rightarrow>
              checked (literals_comparable Z x collection) (negate_if Z negated (if clauses = [] then BoolVal Z False else zOr Z clauses)) s')
      else
        case (str_lit element, dsl_type collection = TY_SET_STR) of
          (Some str, True) \<Rightarrow>
            bind_result (as_features (lower_expr Z ctx collection s)) (\<lambda>(fs, s').
              Inr (LExpr (negate_if Z negated (dict_get_default fs str (BoolVal Z False))), s'))
        | _ \<Rightarrow>
            bind_result (lower_expr Z ctx element s) (\<lambda>(x, s1). bind_result (lower_expr Z ctx collection s1) (\<lambda>(c, s2).
              bind_result (in_values Z element x c) (\<lambda>e. Inr (LExpr (negate_if Z negated e), s2)))))"
| "lower_expr Z ctx (NotExpr a) s =
     bind_result (as_z3 (lower_expr Z ctx a s)) (\<lambda>(x, s'). checked (sort_of Z x = BoolSort) (zNot Z x) s')"
| "lower_expr Z ctx (AndExpr l r) s =
     bind_result (as_z3 (lower_expr Z ctx l s)) (\<lambda>(a, s1). bind_result (as_z3 (lower_expr Z ctx r s1)) (\<lambda>(b, s2).
       checked (sort_of Z a = BoolSort \<and> sort_of Z b = BoolSort) (zAnd Z [a, b]) s2))"
| "lower_expr Z ctx (OrExpr l r) s =
     bind_result (as_z3 (lower_expr Z ctx l s)) (\<lambda>(a, s1). bind_result (as_z3 (lower_expr Z ctx r s1)) (\<lambda>(b, s2).
       checked (sort_of Z a = BoolSort \<and> sort_of Z b = BoolSort) (zOr Z [a, b]) s2))"
| "lower_expr Z ctx (ImpliesExpr l r) s =
     bind_result (as_z3 (lower_expr Z ctx l s)) (\<lambda>(a, s1). bind_result (as_z3 (lower_expr Z ctx r s1)) (\<lambda>(b, s2).
       checked (sort_of Z a = BoolSort \<and> sort_of Z b = BoolSort) (zImplies Z a b) s2))"

record 'e LoweringResult =
  lr_expr :: 'e
  lr_sub_assertions :: "'e SubAssertion list"

definition lower :: "'e z3 \<Rightarrow> expr \<Rightarrow> 'e LoweringContext \<Rightarrow> lowering_error + 'e LoweringResult" where
  "lower Z e ctx =
     bind_result (lower_expr Z ctx e []) (\<lambda>(v, s).
       case v of LExpr x \<Rightarrow> Inr \<lparr>lr_expr = x, lr_sub_assertions = s\<rparr> | _ \<Rightarrow> Inl DSLLoweringError)"

end
