(* ===== verification/Bundle_Constraints.thy ===== *)
theory Bundle_Constraints
  imports Bundle_Lower
begin

text \<open>
  The constraints of the solver (\<^verbatim>\<open>bundle_builder_x/constraints.py\<close>). A solver is the list of the
  assertions made so far, each with its tag if it is tracked (\<open>assert_and_track\<close>) or without
  one (\<open>add\<close>). Tags are compared as values here and as their JSON encodings in the source.
  Look-ups of endpoints and allowed values that the construction of the domain guarantees are
  plain.
\<close>

section \<open>Payloads\<close>

type_synonym 'e solver = "(AssertionTag option \<times> 'e) list"

definition app_endpoints_from_integration :: "'e DomainApplicationIntegration \<Rightarrow> AppEndpointPayload list" where
  "app_endpoints_from_integration ai =
     map (\<lambda>e. \<lparr>aep_application = dae_application e, aep_endpoint = dae_endpoint e, aep_model = dae_model e\<rparr>) [endpoint_1 ai, endpoint_2 ai]"

definition charm_payload :: "'e DomainCharm \<Rightarrow> nat \<Rightarrow> CharmPayload" where
  "charm_payload c cid = \<lparr>cp_charm_name = charm_name (spec c), cp_charm_id = cid\<rparr>"

definition charm_endpoint_payload :: "'e DomainCharm \<Rightarrow> nat \<Rightarrow> py_str \<Rightarrow> CharmEndpointPayload" where
  "charm_endpoint_payload c cid ep = \<lparr>cep_charm_name = charm_name (spec c), cep_charm_id = cid, cep_endpoint = ep\<rparr>"

definition charm_endpoints_from_integration :: "'e DomainCharmIntegration \<Rightarrow> CharmEndpointPayload list" where
  "charm_endpoints_from_integration i =
     [\<lparr>cep_charm_name = [], cep_charm_id = requires_charm_id i, cep_endpoint = requires_endpoint i\<rparr>,
      \<lparr>cep_charm_name = [], cep_charm_id = provides_charm_id i, cep_endpoint = provides_endpoint i\<rparr>]"

text \<open>\<open>z3.Sum([z3.If(m, 1, 0) for m in vars] + [z3.IntVal(0)])\<close>\<close>

definition count_terms :: "'e z3 \<Rightarrow> 'e list \<Rightarrow> 'e list" where
  "count_terms Z vars = map (\<lambda>m. zIf Z m (IntVal Z 1) (IntVal Z 0)) vars"

definition sum_terms :: "'e z3 \<Rightarrow> 'e list \<Rightarrow> 'e" where
  "sum_terms Z terms = zSum Z (terms @ [IntVal Z 0])"

section \<open>Applications\<close>

definition application_exists :: "'e z3 \<Rightarrow> 'e Domain \<Rightarrow> 'e solver" where
  "application_exists Z d = concat (map (\<lambda>(model_ref, mc).
     map (\<lambda>(app, da). (Some (ApplicationExistsTag model_ref app), zEq Z (sum_terms Z (count_terms Z (map snd (charm_ids da)))) (IntVal Z 1)))
       (applications mc)) (models d))"

definition charm_mapped_once :: "'e z3 \<Rightarrow> 'e Domain \<Rightarrow> (py_str \<times> nat, 'e) dict \<Rightarrow> 'e solver" where
  "charm_mapped_once Z d app_to_charm = map (\<lambda>(cid, c).
     (Some (CharmMappedToSingleApplicationTag (charm_payload c cid)),
      zLe Z (sum_terms Z (count_terms Z (map snd (filter (\<lambda>((_, k), _). k = cid) app_to_charm)))) (IntVal Z 1)))
     (enumerate 0 (charms d))"

definition mapped_charm_exists :: "'e z3 \<Rightarrow> 'e Domain \<Rightarrow> (py_str \<times> nat, 'e) dict \<Rightarrow> 'e solver" where
  "mapped_charm_exists Z d app_to_charm = map (\<lambda>((app, cid), var).
     (Some (CharmExistsFromApplicationTag app (charm_payload (charms d ! cid) cid)), zImplies Z var (charm_exists (charms d ! cid)))) app_to_charm"

definition application_integration_exists :: "'e z3 \<Rightarrow> 'e Domain \<Rightarrow> 'e solver" where
  "application_integration_exists Z d = concat (map (\<lambda>(model_ref, mc).
     map (\<lambda>ai. (Some (ApplicationIntegrationExistsTag model_ref (app_endpoints_from_integration ai)),
                zEq Z (sum_terms Z (count_terms Z (map snd (charm_integration_ids ai)))) (IntVal Z 1)))
       (filter (\<lambda>ai. \<not> is_external_cmr d ai) (application_integrations mc))) (models d))"

definition integration_links :: "'e Domain \<Rightarrow> nat \<Rightarrow> 'e list" where
  "integration_links d idx = concat (map (\<lambda>(_, mc). concat (map (\<lambda>ai.
     map snd (filter (\<lambda>(k, _). k = idx) (charm_integration_ids ai))) (application_integrations mc))) (models d))"

definition integration_mapped_once :: "'e z3 \<Rightarrow> 'e Domain \<Rightarrow> 'e solver" where
  "integration_mapped_once Z d = map (\<lambda>(idx, i).
     (Some (CharmIntegrationMappedToSingleApplicationIntegrationTag (charm_endpoints_from_integration i)),
      zLe Z (sum_terms Z (count_terms Z (integration_links d idx))) (IntVal Z 1)))
     (enumerate 0 (charm_integrations d))"

text \<open>
  The orderings of the two endpoints that fit a charm integration. Only an integration of an
  application with itself on equal endpoints gives the same ordering twice.
\<close>

definition ordering_keys :: "(py_str \<times> nat, 'e) dict \<Rightarrow> 'e DomainApplicationIntegration \<Rightarrow> 'e DomainCharmIntegration \<Rightarrow>
    ((py_str \<times> nat) \<times> (py_str \<times> nat)) list" where
  "ordering_keys app_to_charm ai i =
     remdups (concat (map (\<lambda>(q, p).
       let req_key = (dae_application q, requires_charm_id i); prov_key = (dae_application p, provides_charm_id i) in
       if dae_endpoint q \<noteq> requires_endpoint i \<or> dae_endpoint p \<noteq> provides_endpoint i then []
       else if dict_get app_to_charm req_key \<noteq> None \<and> dict_get app_to_charm prov_key \<noteq> None then [(req_key, prov_key)]
       else []) [(endpoint_1 ai, endpoint_2 ai), (endpoint_2 ai, endpoint_1 ai)]))"

definition valid_orderings :: "'e z3 \<Rightarrow> (py_str \<times> nat, 'e) dict \<Rightarrow> 'e DomainApplicationIntegration \<Rightarrow> 'e DomainCharmIntegration \<Rightarrow> 'e list" where
  "valid_orderings Z app_to_charm ai i =
     map (\<lambda>(rk, pk). zAnd Z [the (dict_get app_to_charm rk), the (dict_get app_to_charm pk)]) (ordering_keys app_to_charm ai i)"

definition link_assertions :: "'e z3 \<Rightarrow> 'e Domain \<Rightarrow> (py_str \<times> nat, 'e) dict \<Rightarrow> 'e DomainApplicationIntegration \<Rightarrow> nat \<times> 'e \<Rightarrow> py_error + 'e solver" where
  "link_assertions Z d app_to_charm ai = (\<lambda>(idx, var).
     let i = charm_integrations d ! idx;
         aps = app_endpoints_from_integration ai; cps = charm_endpoints_from_integration i;
         vos = valid_orderings Z app_to_charm ai i
     in if vos = [] then Inl ValueError
        else Inr [(Some (CharmIntegrationExistsFromApplicationIntegrationTag aps cps), zImplies Z var (int_exists i)),
                  (Some (ApplicationIntegrationAppsMapToCharmsTag aps cps), zImplies Z var (zOr Z vos))])"

fun concat_results :: "('a \<Rightarrow> 'x + 'b list) \<Rightarrow> 'a list \<Rightarrow> 'x + 'b list" where
  "concat_results f [] = Inr []"
| "concat_results f (x # xs) = bind_result (f x) (\<lambda>ys. bind_result (concat_results f xs) (\<lambda>zs. Inr (ys @ zs)))"

definition all_link_assertions :: "'e z3 \<Rightarrow> 'e Domain \<Rightarrow> (py_str \<times> nat, 'e) dict \<Rightarrow> py_error + 'e solver" where
  "all_link_assertions Z d app_to_charm =
     concat_results (\<lambda>(_, mc). concat_results (\<lambda>ai. concat_results (link_assertions Z d app_to_charm ai) (charm_integration_ids ai))
       (application_integrations mc)) (models d)"

definition add_application_constraints :: "'e z3 \<Rightarrow> 'e Domain \<Rightarrow> 'e solver \<Rightarrow> py_error + 'e solver" where
  "add_application_constraints Z d s =
     (let app_to_charm = app_to_charm_map d in
      bind_result (all_link_assertions Z d app_to_charm) (\<lambda>links.
        Inr (s @ application_exists Z d @ charm_mapped_once Z d app_to_charm @ mapped_charm_exists Z d app_to_charm
             @ application_integration_exists Z d @ integration_mapped_once Z d @ links)))"

section \<open>Charms and endpoints\<close>

definition integrated_charms_exist :: "'e z3 \<Rightarrow> 'e Domain \<Rightarrow> 'e solver" where
  "integrated_charms_exist Z d = concat (map (\<lambda>i.
     map (\<lambda>cid. (Some (CharmExistsFromIntegrationTag (charm_payload (charms d ! cid) cid) (charm_endpoints_from_integration i)),
                zImplies Z (int_exists i) (charm_exists (charms d ! cid)))) [requires_charm_id i, provides_charm_id i]) (charm_integrations d))"

definition count_external :: "ModelRef \<times> DomainApplicationEndpoint \<times> DomainApplicationEndpoint \<Rightarrow>
    (ModelRef \<times> py_str \<times> py_str, nat) dict \<Rightarrow> (ModelRef \<times> py_str \<times> py_str, nat) dict" where
  "count_external = (\<lambda>(model_ref, l, _) counts.
     let key = (model_ref, dae_application l, dae_endpoint l) in dict_set key (dict_get_default counts key 0 + 1) counts)"

definition cmr_counts :: "'e Domain \<Rightarrow> (ModelRef \<times> py_str \<times> py_str, nat) dict" where
  "cmr_counts d = fold count_external (external_cmr_integrations d) []"

definition uses_endpoint :: "nat \<Rightarrow> py_str \<Rightarrow> 'e DomainCharmIntegration \<Rightarrow> bool" where
  "uses_endpoint cid ep i \<longleftrightarrow>
     requires_charm_id i = cid \<and> requires_endpoint i = ep \<or> provides_charm_id i = cid \<and> provides_endpoint i = ep"

definition cmr_terms :: "'e z3 \<Rightarrow> 'e Domain \<Rightarrow> (py_str \<times> nat, 'e) dict \<Rightarrow> nat \<Rightarrow> py_str \<Rightarrow> 'e list" where
  "cmr_terms Z d app_to_charm cid ep = List.map_filter (\<lambda>((model_ref, app, e), n).
     if e \<noteq> ep \<or> model_ref \<noteq> charm_model (charms d ! cid) then None
     else map_option (\<lambda>var. zIf Z var (IntVal Z (int n)) (IntVal Z 0)) (dict_get app_to_charm (app, cid))) (cmr_counts d)"

definition endpoint_counts :: "'e z3 \<Rightarrow> 'e Domain \<Rightarrow> (py_str \<times> nat, 'e) dict \<Rightarrow> nat \<Rightarrow> 'e DomainCharm \<Rightarrow> py_str \<times> 'e DomainCharmEndpoint \<Rightarrow> 'e solver" where
  "endpoint_counts Z d app_to_charm cid c = (\<lambda>(ep, e).
     let users = filter (uses_endpoint cid ep) (charm_integrations d);
         cross = filter (is_cross_model d) users;
         cmrs = cmr_terms Z d app_to_charm cid ep;
         payload = charm_endpoint_payload c cid ep
     in [(Some (EndpointCountMatchesIntegrationsTag payload (length users + length cmrs)),
          zEq Z (ep_count e) (sum_terms Z (count_terms Z (map int_exists users) @ cmrs))),
         (Some (EndpointIntegratedMatchesCountTag payload), zEq Z (ep_integrated e) (zGe Z (ep_count e) (IntVal Z 1))),
         (Some (CrossModelEndpointCountMatchesIntegrationsTag payload (length cross + length cmrs)),
          zEq Z (cross_model_count e) (sum_terms Z (count_terms Z (map int_exists cross) @ cmrs)))])"

definition add_charm_constraints :: "'e z3 \<Rightarrow> 'e Domain \<Rightarrow> 'e solver \<Rightarrow> 'e solver" where
  "add_charm_constraints Z d s =
     (let app_to_charm = app_to_charm_map d in
      s @ integrated_charms_exist Z d
        @ concat (map (\<lambda>(cid, c). concat (map (endpoint_counts Z d app_to_charm cid c) (endpoints c))) (enumerate 0 (charms d))))"

section \<open>Charm metadata\<close>

definition unit_bounds :: "'e z3 \<Rightarrow> 'e Domain \<Rightarrow> 'e solver" where
  "unit_bounds Z d = map (\<lambda>c. (None, zImplies Z (charm_exists c) (zGe Z (num_units c) (IntVal Z 1)))) (charms d)"

definition charm_endpoint :: "'e DomainCharm \<Rightarrow> py_str \<Rightarrow> 'e DomainCharmEndpoint" where
  "charm_endpoint c ep = the (dict_get (endpoints c) ep)"

definition required_endpoints :: "'e z3 \<Rightarrow> 'e Domain \<Rightarrow> 'e solver" where
  "required_endpoints Z d = concat (map (\<lambda>(cid, c).
     map (\<lambda>(ep, se). (Some (CharmEndpointNonOptionalTag (charm_endpoint_payload c cid ep) (interface se)),
                    zImplies Z (charm_exists c) (zGe Z (ep_count (charm_endpoint c ep)) (IntVal Z 1))))
       (filter (\<lambda>(ep, se). \<not> optional se) (charm_endpoints (spec c)))) (enumerate 0 (charms d)))"

definition endpoint_limits :: "'e z3 \<Rightarrow> 'e Domain \<Rightarrow> 'e solver" where
  "endpoint_limits Z d = concat (map (\<lambda>(cid, c).
     List.map_filter (\<lambda>(ep, se). map_option (\<lambda>l. (Some (EndpointRespectsLimitTag (charm_endpoint_payload c cid ep) l),
                    zImplies Z (charm_exists c) (zLe Z (ep_count (charm_endpoint c ep)) (IntVal Z l)))) (limit se))
       (charm_endpoints (spec c))) (enumerate 0 (charms d)))"

definition feature_coherence :: "'e z3 \<Rightarrow> 'e Domain \<Rightarrow> 'e DomainCharmIntegration \<Rightarrow> 'e solver" where
  "feature_coherence Z d i =
     (let rc = charms d ! requires_charm_id i; pc = charms d ! provides_charm_id i;
          req_fs = feature_vars (charm_endpoint rc (requires_endpoint i));
          prov_fs = feature_vars (charm_endpoint pc (provides_endpoint i));
          tag = (\<lambda>f. IntegrationFeatureMismatchTag (charm_endpoint_payload rc (requires_charm_id i) (requires_endpoint i))
                       (charm_endpoint_payload pc (provides_charm_id i) (provides_endpoint i)) f)
      in map (\<lambda>(f, v). (Some (tag f), zImplies Z (int_exists i)
             (case dict_get prov_fs f of None \<Rightarrow> zNot Z v | Some pv \<Rightarrow> zEq Z v pv))) req_fs
         @ map (\<lambda>(f, v). (Some (tag f), zImplies Z (int_exists i) (zNot Z v))) (filter (\<lambda>(f, v). dict_get req_fs f = None) prov_fs))"

definition config_domain :: "'e z3 \<Rightarrow> 'e DomainCharm \<Rightarrow> py_str \<times> 'e DomainCharmConfig \<Rightarrow> 'e solver" where
  "config_domain Z c = (\<lambda>(key, cfg).
     case cfg_var cfg of
       None \<Rightarrow> []
     | Some var \<Rightarrow>
         let allowed = List.map_filter id (the (dict_get (configs (spec c)) key));
             value_constraint = zOr Z (map (config_value_to_z3 Z var) allowed)
         in if allowed = [] then []
            else case cfg_isset_var cfg of
                None \<Rightarrow> [(None, zImplies Z (charm_exists c) value_constraint)]
              | Some isset \<Rightarrow>
                  [(None, zImplies Z (zAnd Z [charm_exists c, isset]) value_constraint),
                   (None, zImplies Z (zAnd Z [charm_exists c, zNot Z isset])
                      (case cfg_default cfg of Some dv \<Rightarrow> config_value_to_z3 Z var dv | None \<Rightarrow> zNot Z value_constraint))])"

definition resource_domain :: "'e z3 \<Rightarrow> 'e DomainCharm \<Rightarrow> py_str \<times> 'e DomainCharmResource \<Rightarrow> 'e solver" where
  "resource_domain Z c = (\<lambda>(key, res).
     case res_var res of
       None \<Rightarrow> []
     | Some var \<Rightarrow>
         let allowed = List.map_filter id (the (dict_get (charm_resources (spec c)) key));
             value_constraint = zOr Z (map (\<lambda>v. zEq Z var (StringVal Z v)) allowed)
         in if allowed = [] then []
            else case res_isset_var res of
                None \<Rightarrow> [(None, zImplies Z (charm_exists c) value_constraint)]
              | Some isset \<Rightarrow>
                  [(None, zImplies Z (zAnd Z [charm_exists c, isset]) value_constraint),
                   (None, zImplies Z (zAnd Z [charm_exists c, zNot Z isset]) (zNot Z value_constraint))])"

text \<open>The hints of one constraint, without those whose tag was seen before.\<close>

fun new_hints :: "'e z3 \<Rightarrow> 'e DomainCharm \<Rightarrow> 'e SubAssertion list \<Rightarrow> AssertionTag list \<Rightarrow> 'e solver \<times> AssertionTag list" where
  "new_hints Z c [] seen = ([], seen)"
| "new_hints Z c (h # hs) seen =
     (if sub_tag h \<in> set seen then new_hints Z c hs seen
      else let (out, seen') = new_hints Z c hs (seen @ [sub_tag h])
           in ((Some (sub_tag h), zImplies Z (charm_exists c) (sub_expr h)) # out, seen'))"

text \<open>Only a \<open>DSLLoweringError\<close> is caught; an exception of the solver library passes.\<close>

definition lowering_exception :: "lowering_error \<Rightarrow> py_error" where
  "lowering_exception e = (if e = DSLLoweringError then ValueError else LibraryError)"

fun custom_loop :: "'e z3 \<Rightarrow> 'e LoweringContext \<Rightarrow> (nat \<times> expr) list \<Rightarrow> AssertionTag list \<Rightarrow> py_error + 'e solver" where
  "custom_loop Z ctx [] seen = Inr []"
| "custom_loop Z ctx ((idx, e) # rest) seen =
     (case lower Z e ctx of
        Inl x \<Rightarrow> Inl (lowering_exception x)
      | Inr r \<Rightarrow>
          let c = ctx_charm ctx; (hints, seen') = new_hints Z c (lr_sub_assertions r) seen in
          bind_result (custom_loop Z ctx rest seen') (\<lambda>out.
            Inr ((Some (CharmCustomConstraintTag (charm_payload c (ctx_charm_id ctx)) idx), zImplies Z (charm_exists c) (lr_expr r)) # hints @ out)))"

definition custom_constraints :: "'e z3 \<Rightarrow> 'e Domain \<Rightarrow> py_error + 'e solver" where
  "custom_constraints Z d =
     concat_results (\<lambda>(cid, c). custom_loop Z \<lparr>ctx_charm_id = cid, ctx_charm = c, ctx_domain = d\<rparr> (enumerate 0 (constraints (spec c))) [])
       (enumerate 0 (charms d))"

definition add_charm_metadata_constraints :: "'e z3 \<Rightarrow> 'e Domain \<Rightarrow> 'e solver \<Rightarrow> py_error + 'e solver" where
  "add_charm_metadata_constraints Z d s =
     bind_result (custom_constraints Z d) (\<lambda>custom.
       Inr (s @ unit_bounds Z d @ required_endpoints Z d @ endpoint_limits Z d
            @ concat (map (feature_coherence Z d) (charm_integrations d))
            @ concat (map (\<lambda>c. concat (map (config_domain Z c) (config c))) (charms d))
            @ concat (map (\<lambda>c. concat (map (resource_domain Z c) (resources c))) (charms d)) @ custom))"

section \<open>Dependencies and subordinates\<close>

definition rank_var :: "'e z3 \<Rightarrow> nat \<Rightarrow> 'e" where
  "rank_var Z cid = zInt Z (''charm_'' @ nat_str cid @ ''_rank'')"

definition rank_bounds :: "'e z3 \<Rightarrow> 'e Domain \<Rightarrow> 'e solver" where
  "rank_bounds Z d = map (\<lambda>(cid, c).
     (Some (CharmRankBoundedTag (charm_payload c cid)),
      zAnd Z [zGe Z (rank_var Z cid) (IntVal Z 0), zLe Z (rank_var Z cid) (IntVal Z (int (length (charms d))))])) (enumerate 0 (charms d))"

definition ordered_integration :: "'e Domain \<Rightarrow> 'e DomainCharmIntegration \<Rightarrow> bool" where
  "ordered_integration d i \<longleftrightarrow>
     \<not> (cyclic (spec_endpoint d (requires_charm_id i) (requires_endpoint i)) \<or> cyclic (spec_endpoint d (provides_charm_id i) (provides_endpoint i)))"

definition rank_order :: "'e z3 \<Rightarrow> 'e Domain \<Rightarrow> 'e solver" where
  "rank_order Z d = map (\<lambda>i.
     (Some (CharmDependencyCyclicTag (charm_endpoint_payload (charms d ! requires_charm_id i) (requires_charm_id i) (requires_endpoint i))
              (charm_endpoint_payload (charms d ! provides_charm_id i) (provides_charm_id i) (provides_endpoint i))),
      zImplies Z (int_exists i) (zGt Z (rank_var Z (requires_charm_id i)) (rank_var Z (provides_charm_id i)))))
     (filter (ordered_integration d) (charm_integrations d))"

definition add_charm_dependency_constraints :: "'e z3 \<Rightarrow> 'e Domain \<Rightarrow> 'e solver \<Rightarrow> 'e solver" where
  "add_charm_dependency_constraints Z d s = s @ rank_bounds Z d @ rank_order Z d"

definition subordinate_base :: "'e z3 \<Rightarrow> 'e Domain \<Rightarrow> 'e DomainCharmIntegration \<Rightarrow> 'e solver" where
  "subordinate_base Z d i =
     (let rq = (requires_charm_id i, requires_endpoint i); pv = (provides_charm_id i, provides_endpoint i);
          req_scope = scope (spec_endpoint d (requires_charm_id i) (requires_endpoint i));
          prov_scope = scope (spec_endpoint d (provides_charm_id i) (provides_endpoint i));
          (sub, pri) = (if req_scope = Some CONTAINER then (rq, pv) else (pv, rq));
          sub_spec = spec (charms d ! fst sub); pri_spec = spec (charms d ! fst pri)
      in if req_scope \<noteq> Some CONTAINER \<and> prov_scope \<noteq> Some CONTAINER then []
         else if ubuntu_version sub_spec = ubuntu_version pri_spec then []
         else [(Some (SubordinateBaseMismatchTag (charm_name sub_spec) (fst sub) (snd sub) (charm_name pri_spec) (fst pri) (snd pri)
                        (ubuntu_version sub_spec) (ubuntu_version pri_spec)), zNot Z (int_exists i))])"

definition add_subordinate_constraints :: "'e z3 \<Rightarrow> 'e Domain \<Rightarrow> 'e solver \<Rightarrow> 'e solver" where
  "add_subordinate_constraints Z d s = s @ concat (map (subordinate_base Z d) (charm_integrations d))"

definition add_constraints :: "'e z3 \<Rightarrow> 'e Domain \<Rightarrow> 'e solver \<Rightarrow> py_error + 'e solver" where
  "add_constraints Z d s =
     bind_result (add_application_constraints Z d s) (\<lambda>s1.
     bind_result (add_charm_metadata_constraints Z d (add_charm_constraints Z d s1)) (\<lambda>s3.
     Inr (add_subordinate_constraints Z d (add_charm_dependency_constraints Z d s3))))"

end
