(* ===== verification/Bundle_Meaning.thy ===== *)
theory Bundle_Meaning
  imports Bundle_Lower
begin

text \<open>
  What constraints mean: the value of a tree in a solver model, by sets and
  quantifiers instead of solver expressions. An evaluation \<open>E\<close> gives the values of the
  solver variables of the domain. The meaning follows the language reference
  (\<^verbatim>\<open>docs/reference/constraint-dsl.rst\<close>) except where the code means something else:

  \<^item> A substring test \<open>s in t\<close> says that \<open>t\<close> contains \<open>s\<close>, as the code and the example of the
    reference have it; the sentence before the example says the opposite.
  \<^item> \<open>reachable\<close> follows every proxy of a charm; the reference restricts it to proxies
    for the interface of the endpoint.
\<close>

section \<open>Peers and reachability\<close>

definition connects :: "'e DomainCharmIntegration \<Rightarrow> nat \<Rightarrow> py_str \<Rightarrow> nat \<Rightarrow> bool" where
  "connects i cid ep peer \<longleftrightarrow>
     requires_charm_id i = cid \<and> requires_endpoint i = ep \<and> provides_charm_id i = peer
     \<or> provides_charm_id i = cid \<and> provides_endpoint i = ep \<and> requires_charm_id i = peer"

text \<open>The charms integrated on the endpoints \<open>R\<close>.\<close>

definition peers :: "'e evaluation \<Rightarrow> 'e Domain \<Rightarrow> nat \<Rightarrow> EndpointRef set \<Rightarrow> int set" where
  "peers E d cid R =
     {int p |p. \<exists>i \<in> set (charm_integrations d). active E (int_exists i)
        \<and> (\<exists>r \<in> R. connects i cid (er_name r) p \<and> (cross_model_only r \<longrightarrow> is_cross_model d i))}"

text \<open>The applications outside the domain integrated on them, by their synthetic ids.\<close>

definition external_peers :: "'e evaluation \<Rightarrow> 'e Domain \<Rightarrow> nat \<Rightarrow> EndpointRef set \<Rightarrow> int set" where
  "external_peers E d cid R =
     {int k |k. \<exists>l r v. (charm_model (charms d ! cid), l, r) \<in> set (external_cmr_integrations d)
        \<and> dae_endpoint l \<in> er_name ` R \<and> dict_get (app_to_charm_map d) (dae_application l, cid) = Some v \<and> active E v
        \<and> dict_get (external_cmr_peer_ids d) (model_key (dae_model r), dae_application r) = Some k}"

text \<open>
  A charm with a proxy is reachable if one of its local integrations on the requiring
  endpoint of the proxy leads to a reachable charm. As in the code, the interface the proxy is
  declared for plays no role.
\<close>

inductive_set reach :: "'e evaluation \<Rightarrow> 'e Domain \<Rightarrow> int set \<Rightarrow> int set"
  for E d S where
  reach_base: "x \<in> S \<Longrightarrow> x \<in> reach E d S"
| reach_proxy: "i < length (charms d) \<Longrightarrow> p \<in> set (proxies (spec (charms d ! i))) \<Longrightarrow>
    it \<in> set (charm_integrations d) \<Longrightarrow> active E (int_exists it) \<Longrightarrow> \<not> is_cross_model d it \<Longrightarrow>
    connects it i (proxy_requires p) other \<Longrightarrow> int other \<in> reach E d S \<Longrightarrow> int i \<in> reach E d S"

section \<open>The meaning of a tree\<close>

text \<open>The relation set a tree stands for: endpoints, with the restriction to cross-model relations.\<close>

fun op_set :: "set_op \<Rightarrow> 'a set \<Rightarrow> 'a set \<Rightarrow> 'a set" where
  "op_set UnionOp A B = A \<union> B" | "op_set InterOp A B = A \<inter> B" | "op_set DiffOp A B = A - B"

fun relations :: "expr \<Rightarrow> EndpointRef set" where
  "relations (EndpointExpr n) = {\<lparr>er_name = n, cross_model_only = False\<rparr>}"
| "relations (CrossModelExpr a) = (\<lambda>r. \<lparr>er_name = er_name r, cross_model_only = True\<rparr>) ` relations a"
| "relations (SetOpExpr ty op l r) = op_set op (relations l) (relations r)"
| "relations _ = {}"

definition int_of :: "zval \<Rightarrow> int" where "int_of v = (case v of VInt i \<Rightarrow> i | _ \<Rightarrow> 0)"
definition ints_of :: "zval \<Rightarrow> int set" where "ints_of v = (case v of VInts A \<Rightarrow> A | _ \<Rightarrow> {})"
definition bool_of :: "zval \<Rightarrow> bool" where "bool_of v \<longleftrightarrow> v = VBool True"

definition ref_count :: "'e evaluation \<Rightarrow> 'e LoweringContext \<Rightarrow> EndpointRef \<Rightarrow> int" where
  "ref_count E ctx r =
     int_of (E (if cross_model_only r then cross_model_count (domain_endpoint ctx r) else ep_count (domain_endpoint ctx r)))"

definition ref_used :: "'e evaluation \<Rightarrow> 'e LoweringContext \<Rightarrow> EndpointRef \<Rightarrow> bool" where
  "ref_used E ctx r \<longleftrightarrow>
     (if cross_model_only r then ref_count E ctx r \<ge> 1 else active E (ep_integrated (domain_endpoint ctx r)))"

definition active_features :: "'e evaluation \<Rightarrow> 'e LoweringContext \<Rightarrow> EndpointRef set \<Rightarrow> py_str set" where
  "active_features E ctx R =
     {f. \<exists>r \<in> R. \<exists>v. dict_get (feature_vars (domain_endpoint ctx r)) f = Some v \<and> active E v}"

text \<open>The deployed charms of a charm set.\<close>

definition members :: "'e evaluation \<Rightarrow> 'e Domain \<Rightarrow> int set \<Rightarrow> nat set" where
  "members E d A = {i. i < length (charms d) \<and> active E (charm_exists (charms d ! i)) \<and> int i \<in> A}"

definition value_set :: "'e evaluation \<Rightarrow> 'e Domain \<Rightarrow> set_kind \<Rightarrow> int set \<Rightarrow> zval" where
  "value_set E d k A =
     (if k = KRevision then VInts ((\<lambda>i. revision (spec (charms d ! i))) ` members E d A)
      else VStrs {t. \<exists>i \<in> members E d A. kind_value k (spec (charms d ! i)) = SVStr t})"

definition config_meaning :: "'e evaluation \<Rightarrow> 'e DomainCharmConfig \<Rightarrow> zval" where
  "config_meaning E cfg =
     (case cfg_var cfg of
        Some var \<Rightarrow> if bool_as_int cfg then VBool (E var = VInt 1) else E var
      | None \<Rightarrow> (case cfg_default cfg of
                    Some (CBool b) \<Rightarrow> VBool b | Some (CInt i) \<Rightarrow> VInt i | Some (CFloat q) \<Rightarrow> VReal (of_rat q)
                  | Some (CStr t) \<Rightarrow> VStr t | None \<Rightarrow> VBool False))"

definition is_set_meaning :: "'e evaluation \<Rightarrow> bool \<Rightarrow> 'e option \<Rightarrow> 'e option \<Rightarrow> bool" where
  "is_set_meaning E has_value var isset =
     (case var of Some _ \<Rightarrow> (case isset of Some v \<Rightarrow> active E v | None \<Rightarrow> True) | None \<Rightarrow> has_value)"

fun compare_meaning :: "cmp_op \<Rightarrow> zval \<Rightarrow> zval \<Rightarrow> bool" where
  "compare_meaning EqOp v w \<longleftrightarrow> v = w"
| "compare_meaning NeqOp v w \<longleftrightarrow> v \<noteq> w"
| "compare_meaning LtOp v w \<longleftrightarrow> int_of v < int_of w"
| "compare_meaning GtOp v w \<longleftrightarrow> int_of v > int_of w"
| "compare_meaning LeOp v w \<longleftrightarrow>
     (case (v, w) of (VInts A, VInts B) \<Rightarrow> A \<subseteq> B | (VStrs A, VStrs B) \<Rightarrow> A \<subseteq> B | _ \<Rightarrow> int_of v \<le> int_of w)"
| "compare_meaning GeOp v w \<longleftrightarrow>
     (case (v, w) of (VInts A, VInts B) \<Rightarrow> A \<supseteq> B | (VStrs A, VStrs B) \<Rightarrow> A \<supseteq> B | _ \<Rightarrow> int_of v \<ge> int_of w)"

fun op_meaning :: "set_op \<Rightarrow> zval \<Rightarrow> zval \<Rightarrow> zval" where
  "op_meaning op (VInts A) (VInts B) = VInts (op_set op A B)"
| "op_meaning op (VStrs A) (VStrs B) = VStrs (op_set op A B)"
| "op_meaning op v w = v"

fun in_meaning :: "zval \<Rightarrow> zval \<Rightarrow> bool" where
  "in_meaning (VInt i) (VInts A) \<longleftrightarrow> i \<in> A"
| "in_meaning (VStr t) (VStrs A) \<longleftrightarrow> t \<in> A"
| "in_meaning (VStr t) (VStr u) \<longleftrightarrow> is_substring t u"
| "in_meaning v w \<longleftrightarrow> False"

fun arith_meaning :: "arith_op \<Rightarrow> int \<Rightarrow> int \<Rightarrow> int" where
  "arith_meaning AddOp i j = i + j" | "arith_meaning SubOp i j = i - j" | "arith_meaning MulOp i j = i * j"

definition units_meaning :: "'e evaluation \<Rightarrow> 'e Domain \<Rightarrow> int set \<Rightarrow> int" where
  "units_meaning E d A = (\<Sum>i \<in> members E d A. int_of (E (num_units (charms d ! i))))"

primrec meaning :: "'e evaluation \<Rightarrow> 'e LoweringContext \<Rightarrow> expr \<Rightarrow> zval" where
  "meaning E ctx (IntLit n) = VInt n"
| "meaning E ctx (StrLit t) = VStr t"
| "meaning E ctx (IntLiteralSet ns) = VInts ns"
| "meaning E ctx (StrLiteralSet ss) = VStrs ss"
| "meaning E ctx SelfExpr = VInts {int (ctx_charm_id ctx)}"
| "meaning E ctx (EndpointExpr n) = VBool False"
| "meaning E ctx (ConfigExpr k) =
     (case dict_get (config (ctx_charm ctx)) k of Some cfg \<Rightarrow> config_meaning E cfg | None \<Rightarrow> VBool False)"
| "meaning E ctx (SetConfigExpr k) =
     VBool (case dict_get (config (ctx_charm ctx)) k of
              Some cfg \<Rightarrow> is_set_meaning E (cfg_default cfg \<noteq> None) (cfg_var cfg) (cfg_isset_var cfg) | None \<Rightarrow> False)"
| "meaning E ctx (ResourceExpr k) =
     (case dict_get (resources (ctx_charm ctx)) k of
        Some res \<Rightarrow> (case res_var res of Some v \<Rightarrow> E v | None \<Rightarrow> VStr (the (res_default res))) | None \<Rightarrow> VBool False)"
| "meaning E ctx (SetResourceExpr k) =
     VBool (case dict_get (resources (ctx_charm ctx)) k of
              Some res \<Rightarrow> is_set_meaning E (res_default res \<noteq> None) (res_var res) (res_isset_var res) | None \<Rightarrow> False)"
| "meaning E ctx (LenExpr a) =
     (if dsl_type a = TY_UNIT_SET then meaning E ctx a else VInt (\<Sum>r \<in> relations a. ref_count E ctx r))"
| "meaning E ctx (BoolFunc a) = VBool (\<exists>r \<in> relations a. ref_used E ctx r)"
| "meaning E ctx (CharmsExpr a) =
     VInts (peers E (ctx_domain ctx) (ctx_charm_id ctx) (relations a)
            \<union> external_peers E (ctx_domain ctx) (ctx_charm_id ctx) (relations a))"
| "meaning E ctx (FeaturesExpr a) = VStrs (active_features E ctx (relations a))"
| "meaning E ctx (ReachableExpr a) =
     VInts (reach E (ctx_domain ctx) (peers E (ctx_domain ctx) (ctx_charm_id ctx) (relations a)))"
| "meaning E ctx (CrossModelExpr a) = VBool False"
| "meaning E ctx (TracksExpr a) = value_set E (ctx_domain ctx) KTrack (ints_of (meaning E ctx a))"
| "meaning E ctx (RisksExpr a) = value_set E (ctx_domain ctx) KRisk (ints_of (meaning E ctx a))"
| "meaning E ctx (ChannelsExpr a) = value_set E (ctx_domain ctx) KChannel (ints_of (meaning E ctx a))"
| "meaning E ctx (RevisionsExpr a) = value_set E (ctx_domain ctx) KRevision (ints_of (meaning E ctx a))"
| "meaning E ctx (UnitsExpr a) = VInt (units_meaning E (ctx_domain ctx) (ints_of (meaning E ctx a)))"
| "meaning E ctx (ArithExpr op l r) = VInt (arith_meaning op (int_of (meaning E ctx l)) (int_of (meaning E ctx r)))"
| "meaning E ctx (CompareExpr op l r) = VBool (compare_meaning op (meaning E ctx l) (meaning E ctx r))"
| "meaning E ctx (SetOpExpr ty op l r) = op_meaning op (meaning E ctx l) (meaning E ctx r)"
| "meaning E ctx (InExpr e c neg) = VBool (in_meaning (meaning E ctx e) (meaning E ctx c) \<noteq> neg)"
| "meaning E ctx (NotExpr a) = VBool (\<not> bool_of (meaning E ctx a))"
| "meaning E ctx (AndExpr l r) = VBool (bool_of (meaning E ctx l) \<and> bool_of (meaning E ctx r))"
| "meaning E ctx (OrExpr l r) = VBool (bool_of (meaning E ctx l) \<or> bool_of (meaning E ctx r))"
| "meaning E ctx (ImpliesExpr l r) = VBool (bool_of (meaning E ctx l) \<longrightarrow> bool_of (meaning E ctx r))"

section \<open>When the translation is expected to agree\<close>

text \<open>
  The sorts of configuration and resource values are known with the domain only. This is
  the condition that a constraint uses them at their sorts, in terms of its meaning; in terms of
  the solver expressions it is \<open>fits\<close> of \<open>Bundle_Lower_Sorts\<close>.
\<close>

primrec sorts_ok :: "'e evaluation \<Rightarrow> 'e LoweringContext \<Rightarrow> expr \<Rightarrow> bool" where
  "sorts_ok E ctx (IntLit n) = True" | "sorts_ok E ctx (StrLit t) = True" | "sorts_ok E ctx (IntLiteralSet ns) = True"
| "sorts_ok E ctx (StrLiteralSet ss) = True" | "sorts_ok E ctx SelfExpr = True" | "sorts_ok E ctx (EndpointExpr n) = True"
| "sorts_ok E ctx (ConfigExpr k) = True" | "sorts_ok E ctx (SetConfigExpr k) = True" | "sorts_ok E ctx (ResourceExpr k) = True"
| "sorts_ok E ctx (SetResourceExpr k) = True"
| "sorts_ok E ctx (LenExpr a) = sorts_ok E ctx a" | "sorts_ok E ctx (BoolFunc a) = sorts_ok E ctx a"
| "sorts_ok E ctx (CharmsExpr a) = sorts_ok E ctx a" | "sorts_ok E ctx (FeaturesExpr a) = sorts_ok E ctx a"
| "sorts_ok E ctx (ReachableExpr a) = sorts_ok E ctx a" | "sorts_ok E ctx (CrossModelExpr a) = sorts_ok E ctx a"
| "sorts_ok E ctx (TracksExpr a) = sorts_ok E ctx a" | "sorts_ok E ctx (RisksExpr a) = sorts_ok E ctx a"
| "sorts_ok E ctx (ChannelsExpr a) = sorts_ok E ctx a" | "sorts_ok E ctx (RevisionsExpr a) = sorts_ok E ctx a"
| "sorts_ok E ctx (UnitsExpr a) = sorts_ok E ctx a"
| "sorts_ok E ctx (ArithExpr op l r) = (sorts_ok E ctx l \<and> sorts_ok E ctx r)"
| "sorts_ok E ctx (CompareExpr op l r) =
     (sorts_ok E ctx l \<and> sorts_ok E ctx r \<and> val_sort (meaning E ctx l) = val_sort (meaning E ctx r))"
| "sorts_ok E ctx (SetOpExpr ty op l r) = (sorts_ok E ctx l \<and> sorts_ok E ctx r)"
| "sorts_ok E ctx (InExpr e c neg) =
     (sorts_ok E ctx e \<and> sorts_ok E ctx c
      \<and> (dsl_type e = TY_RUNTIME \<longrightarrow> val_sort (meaning E ctx c) = SetSort (val_sort (meaning E ctx e))))"
| "sorts_ok E ctx (NotExpr a) = (sorts_ok E ctx a \<and> val_sort (meaning E ctx a) = BoolSort)"
| "sorts_ok E ctx (AndExpr l r) = (sorts_ok E ctx l \<and> sorts_ok E ctx r)"
| "sorts_ok E ctx (OrExpr l r) = (sorts_ok E ctx l \<and> sorts_ok E ctx r)"
| "sorts_ok E ctx (ImpliesExpr l r) = (sorts_ok E ctx l \<and> sorts_ok E ctx r)"

text \<open>
  Two kinds of comparisons are translated to something else than what they say: equality with
  a property of \<open>{self}\<close>, and any comparison of features with a literal set, which is always
  translated as equality.
\<close>

definition plain_compare :: "cmp_op \<Rightarrow> expr \<Rightarrow> expr \<Rightarrow> bool" where
  "plain_compare op l r \<longleftrightarrow>
     \<not> (op = EqOp \<and> (is_self_channel_expr l \<or> is_self_channel_expr r)) \<and> (str_set_lit r \<noteq> None \<longrightarrow> op = EqOp)"

primrec plain :: "expr \<Rightarrow> bool" where
  "plain (IntLit n) = True" | "plain (StrLit t) = True" | "plain (IntLiteralSet ns) = finite ns" | "plain (StrLiteralSet ss) = finite ss"
| "plain SelfExpr = True" | "plain (EndpointExpr n) = True" | "plain (ConfigExpr k) = True" | "plain (SetConfigExpr k) = True"
| "plain (ResourceExpr k) = True" | "plain (SetResourceExpr k) = True" | "plain (LenExpr a) = plain a" | "plain (BoolFunc a) = plain a"
| "plain (CharmsExpr a) = plain a" | "plain (FeaturesExpr a) = plain a" | "plain (ReachableExpr a) = plain a"
| "plain (CrossModelExpr a) = plain a" | "plain (TracksExpr a) = plain a" | "plain (RisksExpr a) = plain a"
| "plain (ChannelsExpr a) = plain a" | "plain (RevisionsExpr a) = plain a" | "plain (UnitsExpr a) = plain a"
| "plain (ArithExpr op l r) = (plain l \<and> plain r)"
| "plain (CompareExpr op l r) = (plain l \<and> plain r \<and> plain_compare op l r)"
| "plain (SetOpExpr ty op l r) = (plain l \<and> plain r)"
| "plain (InExpr e c neg) = (plain e \<and> plain c)" | "plain (NotExpr a) = plain a" | "plain (AndExpr l r) = (plain l \<and> plain r)"
| "plain (OrExpr l r) = (plain l \<and> plain r)" | "plain (ImpliesExpr l r) = (plain l \<and> plain r)"

end
