(* ===== verification/Bundle_Lower_Correct.thy ===== *)
theory Bundle_Lower_Correct
  imports Bundle_Meaning
begin

text \<open>
  The translation of constraints to solver expressions computes their meaning. The proofs
  rest on the solver's documented semantics only, the assumptions of \<open>z3_api\<close>.
\<close>

section \<open>Sorts of the variables of a domain\<close>

definition is_bool_val :: "zval \<Rightarrow> bool" where "is_bool_val v \<longleftrightarrow> val_sort v = BoolSort"
definition is_int_val :: "zval \<Rightarrow> bool" where "is_int_val v \<longleftrightarrow> val_sort v = IntSort"
definition is_scalar_val :: "zval \<Rightarrow> bool" where "is_scalar_val v \<longleftrightarrow> val_sort v \<in> {BoolSort, IntSort, RealSort, StringSort}"

definition typed_endpoint :: "'e evaluation \<Rightarrow> 'e DomainCharmEndpoint \<Rightarrow> bool" where
  "typed_endpoint E e \<longleftrightarrow>
     is_int_val (E (ep_count e)) \<and> is_bool_val (E (ep_integrated e)) \<and> is_int_val (E (cross_model_count e))
     \<and> dict_ok (feature_vars e) \<and> (\<forall>(f, v) \<in> set (feature_vars e). is_bool_val (E v))"

definition typed_config :: "'e evaluation \<Rightarrow> 'e DomainCharmConfig \<Rightarrow> bool" where
  "typed_config E cfg \<longleftrightarrow>
     (case cfg_var cfg of None \<Rightarrow> True
      | Some v \<Rightarrow> if bool_as_int cfg then is_int_val (E v) else is_scalar_val (E v))
     \<and> (case cfg_isset_var cfg of None \<Rightarrow> True | Some v \<Rightarrow> is_bool_val (E v))"

definition typed_resource :: "'e evaluation \<Rightarrow> 'e DomainCharmResource \<Rightarrow> bool" where
  "typed_resource E res \<longleftrightarrow>
     (case res_var res of None \<Rightarrow> True | Some v \<Rightarrow> val_sort (E v) = StringSort)
     \<and> (case res_isset_var res of None \<Rightarrow> True | Some v \<Rightarrow> is_bool_val (E v))"

definition typed_charm :: "'e evaluation \<Rightarrow> 'e DomainCharm \<Rightarrow> bool" where
  "typed_charm E c \<longleftrightarrow>
     is_bool_val (E (charm_exists c)) \<and> is_int_val (E (num_units c))
     \<and> (\<forall>(n, e) \<in> set (endpoints c). typed_endpoint E e)
     \<and> (\<forall>(k, cfg) \<in> set (config c). typed_config E cfg) \<and> (\<forall>(k, res) \<in> set (resources c). typed_resource E res)"

definition typed_domain :: "'e evaluation \<Rightarrow> 'e Domain \<Rightarrow> bool" where
  "typed_domain E d \<longleftrightarrow>
     (\<forall>c \<in> set (charms d). typed_charm E c)
     \<and> (\<forall>i \<in> set (charm_integrations d). is_bool_val (E (int_exists i)) \<and> requires_charm_id i \<noteq> provides_charm_id i)
     \<and> (\<forall>(k, v) \<in> set (app_to_charm_map d). is_bool_val (E v))"

lemma is_bool_valE: "is_bool_val (E x) \<Longrightarrow> E x = VBool (active E x)"
  by (cases "E x") (auto simp: is_bool_val_def active_def)

lemma is_int_valE: "is_int_val v \<Longrightarrow> v = VInt (int_of v)"
  by (cases v) (auto simp: is_int_val_def int_of_def)

lemma dict_get_mem: "dict_get d k = Some v \<Longrightarrow> (k, v) \<in> set d"
  by (rule map_of_SomeD)

section \<open>Peers\<close>

lemma consistent_tagsD:
  "consistent_cross_model_tags refs \<Longrightarrow> r \<in> set refs \<Longrightarrow> r' \<in> set refs \<Longrightarrow> er_name r = er_name r' \<Longrightarrow> r = r'"
  unfolding consistent_cross_model_tags_def by (cases r; cases r') fastforce

text \<open>The peers one integration contributes.\<close>

definition peers_of :: "'e Domain \<Rightarrow> nat \<Rightarrow> EndpointRef set \<Rightarrow> 'e DomainCharmIntegration \<Rightarrow> nat set" where
  "peers_of d cid R i = {p. \<exists>r \<in> R. connects i cid (er_name r) p \<and> (cross_model_only r \<longrightarrow> is_cross_model d i)}"

lemma peers_alt:
  "peers E d cid R = int ` (\<Union>i \<in> {i \<in> set (charm_integrations d). active E (int_exists i)}. peers_of d cid R i)"
  by (auto simp: peers_def peers_of_def)

lemma peers_of_single:
  assumes "consistent_cross_model_tags refs" "r \<in> set refs" "er_name r = n" "\<And>n' p'. connects i cid n' p' \<longleftrightarrow> n' = n \<and> p' = p"
  shows "peers_of d cid (set refs) i =
    (if n \<in> er_name ` {r \<in> set refs. cross_model_only r} \<and> \<not> is_cross_model d i then {} else {p})"
proof -
  have unique: "r' = r" if "r' \<in> set refs" "er_name r' = n" for r'
    using consistent_tagsD [OF assms(1) that(1) assms(2)] that assms(3) by simp
  have "n \<in> er_name ` {r \<in> set refs. cross_model_only r} \<longleftrightarrow> cross_model_only r"
    using unique assms(2,3) by blast
  moreover have "peers_of d cid (set refs) i = {p'. p' = p \<and> (cross_model_only r \<longrightarrow> is_cross_model d i)}"
    unfolding peers_of_def assms(4) using unique assms(2,3) by blast
  ultimately show ?thesis by auto
qed

lemma peer_on_peers_of:
  assumes "consistent_cross_model_tags refs" "requires_charm_id i \<noteq> provides_charm_id i"
  shows "peers_of d cid (set refs) i =
    (case peer_on cid (er_name ` set refs) i of
       None \<Rightarrow> {}
     | Some (p, matched) \<Rightarrow>
         if matched \<in> er_name ` {r \<in> set refs. cross_model_only r} \<and> \<not> is_cross_model d i then {} else {p})"
proof -
  consider r where "r \<in> set refs" "er_name r = requires_endpoint i" "requires_charm_id i = cid"
    | r where "r \<in> set refs" "er_name r = provides_endpoint i" "provides_charm_id i = cid"
    | "\<not> (requires_charm_id i = cid \<and> requires_endpoint i \<in> er_name ` set refs)"
      "\<not> (provides_charm_id i = cid \<and> provides_endpoint i \<in> er_name ` set refs)"
    by (metis imageE)
  then show ?thesis
  proof cases
    case (1 r)
    then have c: "connects i cid n' p' \<longleftrightarrow> n' = requires_endpoint i \<and> p' = provides_charm_id i" for n' p'
      using assms(2) by (auto simp: connects_def)
    have "peer_on cid (er_name ` set refs) i = Some (provides_charm_id i, requires_endpoint i)"
      unfolding peer_on_def using 1 by (metis imageI)
    then show ?thesis using peers_of_single [OF assms(1) 1(1,2) c, of d] by simp
  next
    case (2 r)
    then have c: "connects i cid n' p' \<longleftrightarrow> n' = provides_endpoint i \<and> p' = requires_charm_id i" for n' p'
      using assms(2) by (auto simp: connects_def)
    have "peer_on cid (er_name ` set refs) i = Some (requires_charm_id i, provides_endpoint i)"
      unfolding peer_on_def using 2 assms(2) by (metis imageI)
    then show ?thesis using peers_of_single [OF assms(1) 2(1,2) c, of d] by simp
  next
    case 3
    then have "peer_on cid (er_name ` set refs) i = None" by (simp only: peer_on_def if_False)
    moreover have "\<not> connects i cid (er_name r) p" if "r \<in> set refs" for r p
      using 3 imageI [OF that, of er_name] unfolding connects_def by argo
    then have "peers_of d cid (set refs) i = {}" unfolding peers_of_def by simp
    ultimately show ?thesis by simp
  qed
qed

context z3_api
begin

lemma ev_add_peer:
  assumes "consistent_cross_model_tags refs" "requires_charm_id i \<noteq> provides_charm_id i" "is_bool_val (ev m (int_exists i))"
    and "ev m res = VInts A"
  shows "ev m (add_peer Z d cid refs i res) =
    VInts (A \<union> (if active (ev m) (int_exists i) then int ` peers_of d cid (set refs) i else {}))"
  using is_bool_valE [where E = "ev m", OF assms(3)] assms(4)
  by (auto simp: add_peer_def peer_on_peers_of [OF assms(1,2)] ev_If ev_AddInt ev_IntVal split: option.split)

lemma ev_fold_add_peer:
  assumes "consistent_cross_model_tags refs"
    and "\<forall>i \<in> set is. is_bool_val (ev m (int_exists i)) \<and> requires_charm_id i \<noteq> provides_charm_id i"
    and "ev m res = VInts A"
  shows "ev m (fold (add_peer Z d cid refs) is res) =
    VInts (A \<union> int ` (\<Union>i \<in> {i \<in> set is. active (ev m) (int_exists i)}. peers_of d cid (set refs) i))"
  using assms(2,3)
proof (induction "is" arbitrary: res A)
  case (Cons i "is")
  have "ev m (add_peer Z d cid refs i res) =
      VInts (A \<union> (if active (ev m) (int_exists i) then int ` peers_of d cid (set refs) i else {}))"
    using Cons.prems by (intro ev_add_peer assms(1)) auto
  then show ?case using Cons.IH Cons.prems(1) by (simp add: image_Un image_UN) (auto simp: image_iff)
qed simp

lemma ev_charm_set_internal:
  assumes "consistent_cross_model_tags refs" "typed_domain (ev m) d"
  shows "ev m (charm_set_for_endpoints Z cid refs d False) = VInts (peers (ev m) d cid (set refs))"
  using assms(2) by (simp add: charm_set_for_endpoints_def peers_alt typed_domain_def ev_fold_add_peer [OF assms(1)] ev_EmptyInts)

end

text \<open>The synthetic ids exist for all external peers.\<close>

lemma external_peer_id:
  assumes "(mr, l, r) \<in> set (external_cmr_integrations d)"
  shows "\<exists>k. dict_get (external_cmr_peer_ids d) (model_key (dae_model r), dae_application r) = Some k"
proof -
  have "(model_key (dae_model r), dae_application r)
      \<in> set (sorted_set (map (\<lambda>(_, _, r). (model_key (dae_model r), dae_application r)) (external_cmr_integrations d)))"
    using assms by force
  then show ?thesis
    by (simp add: external_cmr_peer_ids_def Let_def map_of_zip_is_Some [symmetric])
qed

definition external_peers_of :: "'e evaluation \<Rightarrow> 'e Domain \<Rightarrow> nat \<Rightarrow> EndpointRef set \<Rightarrow>
    ModelRef \<times> DomainApplicationEndpoint \<times> DomainApplicationEndpoint \<Rightarrow> int set" where
  "external_peers_of E d cid R x =
     {int k |k. \<exists>v. fst x = charm_model (charms d ! cid) \<and> dae_endpoint (fst (snd x)) \<in> er_name ` R
        \<and> dict_get (app_to_charm_map d) (dae_application (fst (snd x)), cid) = Some v \<and> active E v
        \<and> dict_get (external_cmr_peer_ids d) (model_key (dae_model (snd (snd x))), dae_application (snd (snd x))) = Some k}"

lemma external_peers_alt:
  "external_peers E d cid R = (\<Union>x \<in> set (external_cmr_integrations d). external_peers_of E d cid R x)"
proof (intro equalityI subsetI)
  fix y assume "y \<in> external_peers E d cid R"
  then obtain k l r v where "y = int k" "(charm_model (charms d ! cid), l, r) \<in> set (external_cmr_integrations d)"
    "dae_endpoint l \<in> er_name ` R" "dict_get (app_to_charm_map d) (dae_application l, cid) = Some v" "active E v"
    "dict_get (external_cmr_peer_ids d) (model_key (dae_model r), dae_application r) = Some k"
    unfolding external_peers_def by blast
  then have "y \<in> external_peers_of E d cid R (charm_model (charms d ! cid), l, r)" unfolding external_peers_of_def by auto
  then show "y \<in> (\<Union>x \<in> set (external_cmr_integrations d). external_peers_of E d cid R x)"
    using \<open>(charm_model (charms d ! cid), l, r) \<in> _\<close> by blast
next
  fix y assume "y \<in> (\<Union>x \<in> set (external_cmr_integrations d). external_peers_of E d cid R x)"
  then obtain mr l r where "(mr, l, r) \<in> set (external_cmr_integrations d)" "y \<in> external_peers_of E d cid R (mr, l, r)"
    by auto
  then show "y \<in> external_peers E d cid R" unfolding external_peers_of_def external_peers_def by auto
qed

context z3_api
begin

lemma ev_add_external:
  assumes vars: "\<forall>(k, v) \<in> set (app_to_charm_map d). is_bool_val (ev m v)"
    and x: "x \<in> set (external_cmr_integrations d)" and res: "ev m res = VInts A"
  shows "ev m (add_external_peer Z d cid refs x res) = VInts (A \<union> external_peers_of (ev m) d cid (set refs) x)"
proof (cases x)
  case (fields mr l r)
  show ?thesis
  proof (cases "mr = charm_model (charms d ! cid) \<and> dae_endpoint l \<in> er_name ` set refs
      \<and> dict_get (app_to_charm_map d) (dae_application l, cid) \<noteq> None")
    case True
    then obtain v where v: "dict_get (app_to_charm_map d) (dae_application l, cid) = Some v" by auto
    then have b: "ev m v = VBool (active (ev m) v)"
      using vars dict_get_mem is_bool_valE [where E = "ev m" and x = v] by fastforce
    obtain k where k: "dict_get (external_cmr_peer_ids d) (model_key (dae_model r), dae_application r) = Some k"
      using external_peer_id [of mr l r d] x fields by auto
    have "external_peers_of (ev m) d cid (set refs) x = (if active (ev m) v then {int k} else {})"
      using True v k fields by (auto simp: external_peers_of_def)
    then show ?thesis
      using True v k res b by (simp add: fields add_external_peer_def ev_If ev_AddInt ev_IntVal)
  next
    case False
    then have "external_peers_of (ev m) d cid (set refs) x = {}" by (auto simp: external_peers_of_def fields)
    then show ?thesis using False res by (auto simp: fields add_external_peer_def split: option.split)
  qed
qed

lemma ev_fold_external:
  assumes "\<forall>(k, v) \<in> set (app_to_charm_map d). is_bool_val (ev m v)"
    and "set xs \<subseteq> set (external_cmr_integrations d)" and "ev m res = VInts A"
  shows "ev m (fold (add_external_peer Z d cid refs) xs res) = VInts (A \<union> (\<Union>x \<in> set xs. external_peers_of (ev m) d cid (set refs) x))"
  using assms(2,3)
proof (induction xs arbitrary: res A)
  case (Cons x xs)
  have "ev m (add_external_peer Z d cid refs x res) = VInts (A \<union> external_peers_of (ev m) d cid (set refs) x)"
    using Cons.prems by (intro ev_add_external assms(1)) auto
  from Cons.IH [OF _ this] Cons.prems(1) show ?case by (simp add: Un_assoc)
qed simp

lemma ev_charm_set:
  assumes "consistent_cross_model_tags refs" "typed_domain (ev m) d"
  shows "ev m (charm_set_for_endpoints Z cid refs d True) =
    VInts (peers (ev m) d cid (set refs) \<union> external_peers (ev m) d cid (set refs))"
proof -
  have "ev m (charm_set_for_endpoints Z cid refs d True) =
      ev m (fold (add_external_peer Z d cid refs) (external_cmr_integrations d) (charm_set_for_endpoints Z cid refs d False))"
    by (simp add: charm_set_for_endpoints_def Let_def)
  also have "\<dots> = VInts (peers (ev m) d cid (set refs) \<union> external_peers (ev m) d cid (set refs))"
    using assms(2) unfolding external_peers_alt
    by (intro ev_fold_external subset_refl ev_charm_set_internal assms) (auto simp: typed_domain_def)
  finally show ?thesis .
qed

end

section \<open>Reachability\<close>

text \<open>One integration leads the proxy endpoint of a charm into the set \<open>X\<close>.\<close>

definition chain_link :: "'e evaluation \<Rightarrow> 'e Domain \<Rightarrow> int set \<Rightarrow> nat \<Rightarrow> CharmEndpointProxy \<Rightarrow> 'e DomainCharmIntegration \<Rightarrow> bool" where
  "chain_link E d X i p it \<longleftrightarrow>
     active E (int_exists it) \<and> \<not> is_cross_model d it \<and> (\<exists>other. connects it i (proxy_requires p) other \<and> int other \<in> X)"

definition linked :: "'e evaluation \<Rightarrow> 'e Domain \<Rightarrow> int set \<Rightarrow> nat \<times> CharmEndpointProxy \<Rightarrow> bool" where
  "linked E d X = (\<lambda>(i, p). \<exists>it \<in> set (charm_integrations d). chain_link E d X i p it)"

definition reach_step :: "'e evaluation \<Rightarrow> 'e Domain \<Rightarrow> int set \<Rightarrow> int set" where
  "reach_step E d X = X \<union> {int (fst ip) |ip. ip \<in> set (domain_proxies d) \<and> linked E d X ip}"

lemma in_domain_proxies: "(i, p) \<in> set (domain_proxies d) \<longleftrightarrow> i < length (charms d) \<and> p \<in> set (proxies (spec (charms d ! i)))"
  unfolding domain_proxies_def set_concat set_map
  by (auto simp: in_set_enumerate_eq intro!: bexI [of _ "(i, charms d ! i)"])

lemma linked_mono: "X \<subseteq> Y \<Longrightarrow> linked E d X ip \<Longrightarrow> linked E d Y ip"
  unfolding linked_def chain_link_def by (cases ip) blast

lemma reach_step_mono: "X \<subseteq> Y \<Longrightarrow> reach_step E d X \<subseteq> reach_step E d Y"
  unfolding reach_step_def using linked_mono [of X Y E d] by blast

lemma reach_step_reach: "reach_step E d (reach E d S) \<subseteq> reach E d S"
  by (auto simp: reach_step_def linked_def chain_link_def in_domain_proxies intro: reach_proxy)

lemma reach_least: "S \<subseteq> X \<Longrightarrow> reach_step E d X \<subseteq> X \<Longrightarrow> reach E d S \<subseteq> X"
proof
  fix x assume "S \<subseteq> X" "reach_step E d X \<subseteq> X" "x \<in> reach E d S"
  from this(3) show "x \<in> X"
  proof induction
    case (reach_proxy i p it other)
    then have "linked E d X (i, p)" unfolding linked_def chain_link_def by blast
    then have "int i \<in> reach_step E d X" unfolding reach_step_def using reach_proxy(1,2) in_domain_proxies by fastforce
    with \<open>reach_step E d X \<subseteq> X\<close> show ?case by blast
  qed (use \<open>S \<subseteq> X\<close> in blast)
qed

definition proxy_ids :: "'e Domain \<Rightarrow> nat set" where
  "proxy_ids d = {i. i < length (charms d) \<and> proxies (spec (charms d ! i)) \<noteq> []}"

lemma card_proxy_ids: "card (proxy_ids d) = proxy_charm_count d"
  unfolding proxy_ids_def proxy_charm_count_def by (simp add: length_filter_conv_card)

lemma finite_proxy_ids: "finite (proxy_ids d)"
  by (simp add: proxy_ids_def)

lemma reach_step_new: "reach_step E d X \<subseteq> X \<union> int ` proxy_ids d"
  by (auto simp: reach_step_def in_domain_proxies proxy_ids_def)

lemma reach_step_increasing: "X \<subseteq> reach_step E d X"
  by (auto simp: reach_step_def)

text \<open>
  As long as the rounds have not come to an end, each of them adds a charm with a proxy: after
  as many rounds as there are such charms nothing is left to add.
\<close>

lemma reach_rounds_progress:
  "reach_step E d ((reach_step E d ^^ n) S) = (reach_step E d ^^ n) S
   \<or> n \<le> card ({i \<in> proxy_ids d. int i \<in> (reach_step E d ^^ n) S})"
proof (induction n)
  case (Suc n)
  let ?X = "(reach_step E d ^^ n) S" and ?f = "reach_step E d"
  show ?case
  proof (cases "?f ?X = ?X")
    case False
    have sub: "?X \<subseteq> ?f ?X" by (rule reach_step_increasing)
    with False reach_step_new [of E d ?X] obtain i where i: "i \<in> proxy_ids d" "int i \<in> ?f ?X" "int i \<notin> ?X"
      by blast
    have "{i \<in> proxy_ids d. int i \<in> ?X} \<subset> {i \<in> proxy_ids d. int i \<in> ?f ?X}" using sub i by blast
    then have "card {i \<in> proxy_ids d. int i \<in> ?X} < card {i \<in> proxy_ids d. int i \<in> ?f ?X}"
      by (intro psubset_card_mono) (simp_all add: finite_proxy_ids)
    with Suc False show ?thesis by simp
  qed simp
qed simp

lemma reach_rounds_fixed:
  "reach_step E d ((reach_step E d ^^ proxy_charm_count d) S) = (reach_step E d ^^ proxy_charm_count d) S"
proof (rule ccontr)
  let ?X = "(reach_step E d ^^ proxy_charm_count d) S"
  assume neq: "reach_step E d ?X \<noteq> ?X"
  then have "card (proxy_ids d) \<le> card {i \<in> proxy_ids d. int i \<in> ?X}"
    using reach_rounds_progress [of E d "proxy_charm_count d" S] by (simp add: card_proxy_ids)
  then have "{i \<in> proxy_ids d. int i \<in> ?X} = proxy_ids d"
    by (intro card_seteq finite_proxy_ids) auto
  then have "int ` proxy_ids d \<subseteq> ?X" by blast
  with reach_step_new [of E d ?X] reach_step_increasing [of ?X E d] neq show False by blast
qed

lemma reach_rounds: "(reach_step E d ^^ proxy_charm_count d) S = reach E d S"
proof
  have "(reach_step E d ^^ n) S \<subseteq> reach E d S" for n
  proof (induction n)
    case (Suc n)
    then show ?case using reach_step_mono [OF Suc, of E d] reach_step_reach [of E d S] by simp
  qed (auto intro: reach_base)
  then show "(reach_step E d ^^ proxy_charm_count d) S \<subseteq> reach E d S" .
  have "S \<subseteq> (reach_step E d ^^ n) S" for n
  proof (induction n)
    case (Suc n)
    then show ?case using reach_step_increasing [of "(reach_step E d ^^ n) S" E d] by simp
  qed simp
  then show "reach E d S \<subseteq> (reach_step E d ^^ proxy_charm_count d) S"
    by (rule reach_least) (simp add: reach_rounds_fixed)
qed

context z3_api
begin

lemma ev_chain_step:
  assumes "is_bool_val (ev m (int_exists it))" "requires_charm_id it \<noteq> provides_charm_id it"
    and "ev m res = VInts X" "ev m acc = VBool b"
  shows "ev m (chain_step Z d res i p it acc) = VBool (b \<or> chain_link (ev m) d X i p it)"
proof -
  have e: "ev m (int_exists it) = VBool (active (ev m) (int_exists it))"
    using is_bool_valE [where E = "ev m", OF assms(1)] .
  have c: "(\<exists>other. connects it i n other \<and> P other) \<longleftrightarrow>
      (case peer_on i {n} it of None \<Rightarrow> False | Some (other, _) \<Rightarrow> P other)" for n P
    using assms(2) by (auto simp: connects_def peer_on_def)
  show ?thesis
    using assms(4) e by (auto simp: chain_step_def chain_link_def c split: option.split
      intro!: ev_Or2 [THEN trans] ev_And2 ev_MemInt [OF ev_IntVal assms(3)])
qed

lemma ev_fold_chain:
  assumes "\<forall>it \<in> set its. is_bool_val (ev m (int_exists it)) \<and> requires_charm_id it \<noteq> provides_charm_id it"
    and "ev m res = VInts X" "ev m acc = VBool b"
  shows "ev m (fold (chain_step Z d res i p) its acc) = VBool (b \<or> (\<exists>it \<in> set its. chain_link (ev m) d X i p it))"
  using assms(1,3)
proof (induction its arbitrary: acc b)
  case (Cons it its)
  have "ev m (chain_step Z d res i p it acc) = VBool (b \<or> chain_link (ev m) d X i p it)"
    using Cons.prems by (intro ev_chain_step assms(2)) auto
  from Cons.IH [OF _ this] Cons.prems(1) show ?case by simp
qed simp

lemma ev_fold_extend:
  assumes "typed_domain (ev m) d" "ev m res = VInts X" "ev m acc = VInts Y"
  shows "ev m (fold (extend_by_proxy Z d res) ips acc) = VInts (Y \<union> {int (fst ip) |ip. ip \<in> set ips \<and> linked (ev m) d X ip})"
  using assms(3)
proof (induction ips arbitrary: acc Y)
  case (Cons ip ips)
  obtain i p where ip: "ip = (i, p)" by (cases ip)
  have "ev m (fold (chain_step Z d res i p) (charm_integrations d) (BoolVal Z False)) = VBool (linked (ev m) d X ip)"
    using ev_fold_chain [OF _ assms(2) ev_BoolVal, of "charm_integrations d" d i p False] assms(1)
    by (simp add: typed_domain_def linked_def ip)
  then have "ev m (extend_by_proxy Z d res ip acc) = VInts (Y \<union> (if linked (ev m) d X ip then {int i} else {}))"
    using Cons.prems by (simp add: extend_by_proxy_def ip ev_If ev_AddInt ev_IntVal)
  from Cons.IH [OF this] show ?case by (auto simp: ip)
qed simp

lemma ev_reach_round:
  assumes "typed_domain (ev m) d" "ev m res = VInts X"
  shows "ev m (reach_round Z d res) = VInts (reach_step (ev m) d X)"
  unfolding reach_round_def reach_step_def by (rule ev_fold_extend [OF assms assms(2)])

lemma ev_reach_rounds:
  assumes "typed_domain (ev m) d" "ev m res = VInts X"
  shows "ev m ((reach_round Z d ^^ n) res) = VInts ((reach_step (ev m) d ^^ n) X)"
  by (induction n) (simp_all add: assms ev_reach_round)

lemma ev_reachable_set:
  assumes "typed_domain (ev m) d"
  shows "ev m (reachable_set Z cid n d) =
    VInts (reach (ev m) d (peers (ev m) d cid {\<lparr>er_name = n, cross_model_only = False\<rparr>}))"
proof -
  have "consistent_cross_model_tags [\<lparr>er_name = n, cross_model_only = False\<rparr>]"
    by (simp add: consistent_cross_model_tags_def)
  from ev_reach_rounds [OF assms ev_charm_set_internal [OF this assms]] show ?thesis
    by (simp add: reachable_set_def reach_rounds)
qed

end

end
