(* ===== verification/Bundle_Domain_Correct.thy ===== *)
theory Bundle_Domain_Correct
  imports Bundle_Lower_Correct
begin

text \<open>
  The invariant of the solver domain and that adding charms and pairing them keep it: every
  variable belongs to what its name says, the integrations are exactly compatible endpoint
  pairs of two different charms, each application knows exactly the charms that may stand for
  it, and each declared integration exactly the charm integrations that fit it.
\<close>

section \<open>What a declared integration fits\<close>

definition serves :: "'e Domain \<Rightarrow> ModelRef \<Rightarrow> py_str \<Rightarrow> nat \<Rightarrow> bool" where
  "serves d r app cid \<longleftrightarrow> (case dict_get (models d) r of None \<Rightarrow> False | Some mc \<Rightarrow> has_charm mc app cid)"

definition is_cmr :: "'e DomainApplicationIntegration \<Rightarrow> bool" where
  "is_cmr ai \<longleftrightarrow> dae_model (endpoint_1 ai) \<noteq> dae_model (endpoint_2 ai)"

text \<open>The endpoint \<open>e\<close> of an application in the model \<open>r\<close> may be the charm endpoint \<open>ep\<close> of charm \<open>cid\<close>.\<close>

definition stands_for :: "'e Domain \<Rightarrow> ModelRef \<Rightarrow> DomainApplicationEndpoint \<Rightarrow> nat \<Rightarrow> py_str \<Rightarrow> bool" where
  "stands_for d r e cid ep \<longleftrightarrow>
     charm_model (charms d ! cid) = r \<and> dae_endpoint e = ep \<and> serves d r (dae_application e) cid"

definition fits_ends :: "'e Domain \<Rightarrow> ModelRef \<Rightarrow> ModelRef \<Rightarrow> DomainApplicationEndpoint \<Rightarrow> DomainApplicationEndpoint \<Rightarrow>
    'e DomainCharmIntegration \<Rightarrow> bool" where
  "fits_ends d rq rp q p i \<longleftrightarrow>
     stands_for d rq q (requires_charm_id i) (requires_endpoint i) \<and> stands_for d rp p (provides_charm_id i) (provides_endpoint i)"

definition fits :: "'e Domain \<Rightarrow> ModelRef \<Rightarrow> 'e DomainApplicationIntegration \<Rightarrow> 'e DomainCharmIntegration \<Rightarrow> bool" where
  "fits d r ai i \<longleftrightarrow>
     is_cross_model d i = is_cmr ai
     \<and> (if is_cmr ai then
          let l = local_ep ai; rm = remote_ep ai in
          fits_ends d r (dae_model rm) l rm i \<or> fits_ends d (dae_model rm) r rm l i
        else fits_ends d r r (endpoint_1 ai) (endpoint_2 ai) i \<or> fits_ends d r r (endpoint_2 ai) (endpoint_1 ai) i)"

definition mapping_var :: "'e z3 \<Rightarrow> 'e DomainApplicationIntegration \<Rightarrow> nat \<Rightarrow> 'e DomainCharmIntegration \<Rightarrow> 'e" where
  "mapping_var Z ai idx i = zBool Z (if is_cmr ai then cmr_mapping_name ai idx else local_mapping_name ai i)"

lemma link_integration_fits:
  assumes "dict_get (models d) r = Some mc"
  shows "link_integration Z d r mc (idx, i) ai =
    (if dict_get (charm_integration_ids ai) idx \<noteq> None \<or> \<not> fits d r ai i then ai
     else ai\<lparr>charm_integration_ids := dict_set idx (mapping_var Z ai idx i) (charm_integration_ids ai)\<rparr>)"
proof (cases "is_cmr ai")
  case False
  then have "fits d r ai i \<longleftrightarrow> \<not> is_cross_model d i \<and> charm_model (charms d ! requires_charm_id i) = r
      \<and> charm_model (charms d ! provides_charm_id i) = r
      \<and> (local_fits mc i (endpoint_1 ai) (endpoint_2 ai) \<or> local_fits mc i (endpoint_2 ai) (endpoint_1 ai))"
    using assms by (auto simp: fits_def fits_ends_def stands_for_def serves_def local_fits_def)
  with False show ?thesis by (auto simp: link_integration_def is_cmr_def mapping_var_def Let_def)
next
  case True
  let ?l = "local_ep ai" and ?rm = "remote_ep ai"
  have mc: "serves d r app cid \<longleftrightarrow> has_charm mc app cid" for app cid using assms by (simp add: serves_def)
  have "fits d r ai i \<longleftrightarrow> is_cross_model d i \<and> (case dict_get (models d) (dae_model ?rm) of None \<Rightarrow> False
      | Some rmc \<Rightarrow> (case cmr_charms d r ai i of None \<Rightarrow> False
         | Some (l, c) \<Rightarrow> has_charm mc (dae_application ?l) l \<and> has_charm rmc (dae_application ?rm) c))"
  proof (cases "dict_get (models d) (dae_model ?rm)")
    case None
    then have "\<not> serves d (dae_model ?rm) app cid" for app cid by (simp add: serves_def)
    with True None show ?thesis by (simp add: fits_def fits_ends_def stands_for_def Let_def)
  next
    case (Some rmc)
    then have rmc: "serves d (dae_model ?rm) app cid \<longleftrightarrow> has_charm rmc app cid" for app cid by (simp add: serves_def)
    show ?thesis
    proof (cases "is_cross_model d i")
      case cross: True
      then have ne: "charm_model (charms d ! requires_charm_id i) \<noteq> charm_model (charms d ! provides_charm_id i)"
        by (simp add: is_cross_model_def)
      have "\<not> (requires_charm_id i = provides_charm_id i)" using ne by auto
      have "fits d r ai i \<longleftrightarrow> fits_ends d r (dae_model ?rm) ?l ?rm i \<or> fits_ends d (dae_model ?rm) r ?rm ?l i"
        using True cross by (simp add: fits_def Let_def)
      also have "\<dots> \<longleftrightarrow> (case cmr_charms d r ai i of None \<Rightarrow> False
         | Some (l, c) \<Rightarrow> has_charm mc (dae_application ?l) l \<and> has_charm rmc (dae_application ?rm) c)"
      proof (cases "charm_model (charms d ! requires_charm_id i) = r \<and> requires_endpoint i = dae_endpoint ?l
          \<and> charm_model (charms d ! provides_charm_id i) = dae_model ?rm \<and> provides_endpoint i = dae_endpoint ?rm")
        case True
        then show ?thesis using ne unfolding fits_ends_def stands_for_def mc rmc cmr_charms_def Let_def by simp
      next
        case False
        then have no: "\<not> fits_ends d r (dae_model ?rm) ?l ?rm i" unfolding fits_ends_def stands_for_def by metis
        show ?thesis unfolding cmr_charms_def Let_def if_not_P [OF False]
          using no unfolding fits_ends_def stands_for_def mc rmc by (simp split: if_split) metis
      qed
      finally show ?thesis using Some cross by simp
    qed (use True Some in \<open>simp add: fits_def\<close>)
  qed
  with True show ?thesis
    by (auto simp: link_integration_def is_cmr_def mapping_var_def Let_def split: option.splits prod.splits)
qed

lemma link_all_endpoints [simp]:
  "endpoint_1 (link_all Z d r mc ai) = endpoint_1 ai" "endpoint_2 (link_all Z d r mc ai) = endpoint_2 ai"
  "offer_name (link_all Z d r mc ai) = offer_name ai" "url (link_all Z d r mc ai) = url ai"
proof -
  have step: "endpoint_1 (link_integration Z d r mc x ai) = endpoint_1 ai \<and> endpoint_2 (link_integration Z d r mc x ai) = endpoint_2 ai
      \<and> offer_name (link_integration Z d r mc x ai) = offer_name ai \<and> url (link_integration Z d r mc x ai) = url ai" for x ai
    by (cases x) (simp add: link_integration_def Let_def split: option.split prod.split)
  have "endpoint_1 (fold (link_integration Z d r mc) xs ai) = endpoint_1 ai \<and> endpoint_2 (fold (link_integration Z d r mc) xs ai) = endpoint_2 ai
      \<and> offer_name (fold (link_integration Z d r mc) xs ai) = offer_name ai \<and> url (fold (link_integration Z d r mc) xs ai) = url ai" for xs
    by (induction xs arbitrary: ai) (simp_all add: step)
  then show "endpoint_1 (link_all Z d r mc ai) = endpoint_1 ai" "endpoint_2 (link_all Z d r mc ai) = endpoint_2 ai"
    "offer_name (link_all Z d r mc ai) = offer_name ai" "url (link_all Z d r mc ai) = url ai"
    by (simp_all add: link_all_def)
qed

lemma fits_cong:
  "endpoint_1 ai' = endpoint_1 ai \<Longrightarrow> endpoint_2 ai' = endpoint_2 ai \<Longrightarrow> fits d r ai' i = fits d r ai i"
  by (simp add: fits_def is_cmr_def local_ep_def remote_ep_def)

lemma mapping_var_cong:
  "endpoint_1 ai' = endpoint_1 ai \<Longrightarrow> endpoint_2 ai' = endpoint_2 ai \<Longrightarrow> mapping_var Z ai' idx i = mapping_var Z ai idx i"
  by (simp add: mapping_var_def is_cmr_def cmr_mapping_name_def local_mapping_name_def local_ep_def remote_ep_def)

text \<open>The links of a declared integration.\<close>

definition links_sound :: "'e z3 \<Rightarrow> 'e Domain \<Rightarrow> ModelRef \<Rightarrow> 'e DomainApplicationIntegration \<Rightarrow> bool" where
  "links_sound Z d r ai \<longleftrightarrow>
     dict_ok (charm_integration_ids ai)
     \<and> (\<forall>idx v. dict_get (charm_integration_ids ai) idx = Some v \<longrightarrow>
          idx < length (charm_integrations d) \<and> fits d r ai (charm_integrations d ! idx) \<and> v = mapping_var Z ai idx (charm_integrations d ! idx))"

definition links_complete :: "'e Domain \<Rightarrow> ModelRef \<Rightarrow> 'e DomainApplicationIntegration \<Rightarrow> bool" where
  "links_complete d r ai \<longleftrightarrow>
     (\<forall>idx < length (charm_integrations d). fits d r ai (charm_integrations d ! idx) \<longrightarrow> dict_get (charm_integration_ids ai) idx \<noteq> None)"

lemma links_fold:
  assumes "dict_get (models d) r = Some mc" "links_sound Z d r ai" "n + length xs \<le> length (charm_integrations d)"
    "\<And>j. j < length xs \<Longrightarrow> xs ! j = charm_integrations d ! (n + j)"
  shows "links_sound Z d r (fold (link_integration Z d r mc) (enumerate n xs) ai)
    \<and> (\<forall>idx. dict_get (charm_integration_ids ai) idx \<noteq> None \<or> (n \<le> idx \<and> idx < n + length xs \<and> fits d r ai (charm_integrations d ! idx)) \<longrightarrow>
         dict_get (charm_integration_ids (fold (link_integration Z d r mc) (enumerate n xs) ai)) idx \<noteq> None)"
  using assms(2-)
proof (induction xs arbitrary: n ai)
  case (Cons i rest)
  let ?ai = "link_integration Z d r mc (n, i) ai"
  have i: "i = charm_integrations d ! n" and n: "n < length (charm_integrations d)" using Cons.prems(2) Cons.prems(3) [of 0] by simp_all
  have eqs: "endpoint_1 ?ai = endpoint_1 ai" "endpoint_2 ?ai = endpoint_2 ai"
    unfolding link_integration_fits [OF assms(1)] by simp_all
  have sound: "links_sound Z d r ?ai"
    using Cons.prems(1) n unfolding links_sound_def fits_cong [OF eqs] mapping_var_cong [OF eqs]
    unfolding link_integration_fits [OF assms(1)] i by (simp add: dict_get_set)
  have keys: "dict_get (charm_integration_ids ai) idx \<noteq> None \<or> idx = n \<and> fits d r ai i \<Longrightarrow> dict_get (charm_integration_ids ?ai) idx \<noteq> None" for idx
    unfolding link_integration_fits [OF assms(1)] by (auto simp: dict_get_set)
  have rest: "j < length rest \<Longrightarrow> rest ! j = charm_integrations d ! (Suc n + j)" for j using Cons.prems(3) [of "Suc j"] by simp
  have len: "Suc n + length rest \<le> length (charm_integrations d)" using Cons.prems(2) by simp
  let ?out = "fold (link_integration Z d r mc) (enumerate (Suc n) rest) ?ai"
  from Cons.IH [OF sound len rest] have IH: "links_sound Z d r ?out"
    "\<And>idx. dict_get (charm_integration_ids ?ai) idx \<noteq> None \<or> (Suc n \<le> idx \<and> idx < Suc n + length rest \<and> fits d r ai (charm_integrations d ! idx))
       \<Longrightarrow> dict_get (charm_integration_ids ?out) idx \<noteq> None"
    unfolding fits_cong [OF eqs] by blast+
  have "dict_get (charm_integration_ids ?out) idx \<noteq> None"
    if "dict_get (charm_integration_ids ai) idx \<noteq> None \<or> (n \<le> idx \<and> idx < n + length (i # rest) \<and> fits d r ai (charm_integrations d ! idx))" for idx
  proof (cases "idx = n \<or> dict_get (charm_integration_ids ai) idx \<noteq> None")
    case True
    with that have "dict_get (charm_integration_ids ?ai) idx \<noteq> None" using keys [of idx] i by blast
    then show ?thesis using IH(2) by blast
  next
    case False
    with that have "Suc n \<le> idx" "idx < Suc n + length rest" "fits d r ai (charm_integrations d ! idx)" by auto
    then show ?thesis using IH(2) by blast
  qed
  with IH(1) show ?case by (simp del: not_None_eq)
qed auto

lemma link_all_links:
  assumes "dict_get (models d) r = Some mc" "links_sound Z d r ai"
  shows "links_sound Z d r (link_all Z d r mc ai)" "links_complete d r (link_all Z d r mc ai)"
  using links_fold [OF assms, of 0 "charm_integrations d"]
  unfolding link_all_def links_complete_def fits_cong [OF link_all_endpoints(1,2), unfolded link_all_def] by auto

section \<open>The invariant\<close>

text \<open>What holds of the dictionaries and sets of a charm by their types in the source.\<close>

definition charm_wf :: "Charm \<Rightarrow> bool" where
  "charm_wf c \<longleftrightarrow>
     dict_ok (charm_endpoints c) \<and> list_all (\<lambda>(n, e). distinct (ep_features e)) (charm_endpoints c)
     \<and> dict_ok (configs c) \<and> dict_ok (config_defaults c) \<and> dict_ok (charm_resources c)"

definition built_charm :: "'e z3 \<Rightarrow> nat \<Rightarrow> 'e DomainCharm \<Rightarrow> bool" where
  "built_charm Z cid c \<longleftrightarrow>
     charm_wf (spec c)
     \<and> (\<exists>cfg. add_configs Z (charm_prefix (spec c) cid) (configs (spec c)) (map (\<lambda>(key, dv). (key, default_config dv)) (config_defaults (spec c))) = Inr cfg
          \<and> c = (new_charm Z (spec c) cid (charm_model c) cfg)\<lparr>charms_added := charms_added c\<rparr>)"

text \<open>Requirer and provider of an integration are endpoints that match.\<close>

definition compatible :: "'e Domain \<Rightarrow> int_key \<Rightarrow> bool" where
  "compatible d = (\<lambda>(rq, rep, pv, pep).
     rq \<noteq> pv \<and> (case (dict_get (charm_endpoints (spec (charms d ! rq))) rep, dict_get (charm_endpoints (spec (charms d ! pv))) pep) of
       (Some er, Some ep) \<Rightarrow> ep_type er = REQUIRES \<and> ep_type ep = PROVIDES \<and> interface er = interface ep \<and> scope_ok d rq pv er ep
     | _ \<Rightarrow> False))"

definition integration_ok :: "'e z3 \<Rightarrow> 'e Domain \<Rightarrow> 'e DomainCharmIntegration \<Rightarrow> bool" where
  "integration_ok Z d i \<longleftrightarrow>
     requires_charm_id i < length (charms d) \<and> provides_charm_id i < length (charms d)
     \<and> compatible d (int_key i) \<and> int_exists i = zBool Z (integration_var_name d (int_key i))"

definition app_ok :: "'e z3 \<Rightarrow> 'e Domain \<Rightarrow> ModelRef \<Rightarrow> py_str \<Rightarrow> 'e DomainApplication \<Rightarrow> bool" where
  "app_ok Z d r app da \<longleftrightarrow>
     dict_ok (charm_ids da)
     \<and> (\<forall>cid. dict_get (charm_ids da) cid =
          (if cid < length (charms d) \<and> charm_model (charms d ! cid) = r \<and> app_accepts da (spec (charms d ! cid))
           then Some (zBool Z (''app_'' @ app @ ''_maps_to_charm_'' @ charm_name (spec (charms d ! cid)) @ ''_'' @ nat_str cid)) else None))"

definition domain_pre :: "'e z3 \<Rightarrow> 'e Domain \<Rightarrow> bool" where
  "domain_pre Z d \<longleftrightarrow>
     dict_ok (models d)
     \<and> (\<forall>cid < length (charms d). built_charm Z cid (charms d ! cid) \<and> charm_model (charms d ! cid) \<in> fst ` set (models d))
     \<and> (\<forall>i \<in> set (charm_integrations d). integration_ok Z d i) \<and> distinct (map int_key (charm_integrations d))
     \<and> (\<forall>(r, mc) \<in> set (models d). dict_ok (applications mc)
          \<and> (\<forall>(app, da) \<in> set (applications mc). app_ok Z d r app da)
          \<and> (\<forall>ai \<in> set (application_integrations mc). links_sound Z d r ai))"

definition domain_ok :: "'e z3 \<Rightarrow> 'e Domain \<Rightarrow> bool" where
  "domain_ok Z d \<longleftrightarrow>
     domain_pre Z d \<and> (\<forall>(r, mc) \<in> set (models d). \<forall>ai \<in> set (application_integrations mc). links_complete d r ai)"

lemma domain_preD:
  assumes "domain_pre Z d"
  shows "dict_ok (models d)" "distinct (map int_key (charm_integrations d))"
    "cid < length (charms d) \<Longrightarrow> built_charm Z cid (charms d ! cid)"
    "cid < length (charms d) \<Longrightarrow> charm_model (charms d ! cid) \<in> fst ` set (models d)"
    "i \<in> set (charm_integrations d) \<Longrightarrow> integration_ok Z d i"
    "(r, mc) \<in> set (models d) \<Longrightarrow> dict_ok (applications mc)"
    "(r, mc) \<in> set (models d) \<Longrightarrow> (app, da) \<in> set (applications mc) \<Longrightarrow> app_ok Z d r app da"
    "(r, mc) \<in> set (models d) \<Longrightarrow> ai \<in> set (application_integrations mc) \<Longrightarrow> links_sound Z d r ai"
  using assms unfolding domain_pre_def by blast+

lemma domain_preI:
  assumes "dict_ok (models d)"
    "\<And>cid. cid < length (charms d) \<Longrightarrow> built_charm Z cid (charms d ! cid) \<and> charm_model (charms d ! cid) \<in> fst ` set (models d)"
    "\<And>i. i \<in> set (charm_integrations d) \<Longrightarrow> integration_ok Z d i" "distinct (map int_key (charm_integrations d))"
    "\<And>r mc. (r, mc) \<in> set (models d) \<Longrightarrow> dict_ok (applications mc) \<and> (\<forall>(app, da) \<in> set (applications mc). app_ok Z d r app da)
       \<and> (\<forall>ai \<in> set (application_integrations mc). links_sound Z d r ai)"
  shows "domain_pre Z d"
  unfolding domain_pre_def using assms by blast

section \<open>Refreshing the links\<close>

lemma map_of_map_snd: "map_of (map (\<lambda>(k, v). (k, f k v)) xs) k = map_option (f k) (map_of xs k)"
  by (induction xs) auto

lemma refresh_fields [simp]:
  "charms (refresh_application_integration_mappings Z d) = charms d"
  "charm_integrations (refresh_application_integration_mappings Z d) = charm_integrations d"
  by (simp_all add: refresh_application_integration_mappings_def)

lemma refresh_models:
  "dict_get (models (refresh_application_integration_mappings Z d)) r =
    map_option (\<lambda>mc. mc\<lparr>application_integrations := map (link_all Z d r mc) (application_integrations mc)\<rparr>) (dict_get (models d) r)"
  by (simp add: refresh_application_integration_mappings_def
      map_of_map_snd [where f = "\<lambda>r mc. mc\<lparr>application_integrations := map (link_all Z d r mc) (application_integrations mc)\<rparr>"])

lemma refresh_mem:
  "(r, mc') \<in> set (models (refresh_application_integration_mappings Z d)) \<longleftrightarrow>
    (\<exists>mc. (r, mc) \<in> set (models d) \<and> mc' = mc\<lparr>application_integrations := map (link_all Z d r mc) (application_integrations mc)\<rparr>)"
  by (auto simp: refresh_application_integration_mappings_def)

lemma refresh_keys: "map fst (models (refresh_application_integration_mappings Z d)) = map fst (models d)"
  by (simp add: refresh_application_integration_mappings_def comp_def case_prod_beta')

lemma has_charm_cong: "applications mc' = applications mc \<Longrightarrow> has_charm mc' = has_charm mc"
  by (simp add: has_charm_def fun_eq_iff)

lemma serves_refresh [simp]: "serves (refresh_application_integration_mappings Z d) = serves d"
  by (simp add: serves_def refresh_models fun_eq_iff has_charm_def split: option.split)

text \<open>Two domains with the same charms and applications fit the same integrations.\<close>

lemma fits_domain_cong:
  assumes "charms d' = charms d" "serves d' = serves d"
  shows "fits d' = fits d"
  by (simp add: fits_def fits_ends_def stands_for_def is_cross_model_def assms fun_eq_iff)

lemma fits_refresh [simp]: "fits (refresh_application_integration_mappings Z d) = fits d"
  by (rule fits_domain_cong) simp_all

lemma platform_refresh [simp]: "platform_of (refresh_application_integration_mappings Z d) = platform_of d"
  by (simp add: platform_of_def refresh_models fun_eq_iff option.map_comp comp_def)

lemma compatible_refresh [simp]: "compatible (refresh_application_integration_mappings Z d) = compatible d"
  by (simp add: compatible_def scope_ok_def fun_eq_iff split: option.split)

lemma refresh_ok:
  assumes "domain_pre Z d"
  shows "domain_ok Z (refresh_application_integration_mappings Z d)"
proof -
  let ?d = "refresh_application_integration_mappings Z d"
  note pre = domain_preD [OF assms]
  have get: "dict_get (models d) r = Some mc" if "(r, mc) \<in> set (models d)" for r mc
    using that pre(1) by (simp add: dict_mem_get)
  have links: "links_sound Z ?d r (link_all Z d r mc ai)" "links_complete ?d r (link_all Z d r mc ai)"
    if "(r, mc) \<in> set (models d)" "ai \<in> set (application_integrations mc)" for r mc ai
    using link_all_links [OF get [OF that(1)] pre(8) [OF that]] by (simp_all add: links_sound_def links_complete_def)
  have "dict_ok (models ?d)" using pre(1) by (simp add: dict_ok_def refresh_keys)
  moreover have "fst ` set (models ?d) = fst ` set (models d)" by (metis refresh_keys list.set_map)
  moreover have "integration_ok Z ?d i" if "i \<in> set (charm_integrations d)" for i
    using pre(5) [OF that] by (simp add: integration_ok_def integration_var_name_def)
  moreover have "app_ok Z ?d r app da \<longleftrightarrow> app_ok Z d r app da" for r app da by (simp add: app_ok_def)
  ultimately have "domain_pre Z ?d" using pre(2-4,6,7) links(1)
    unfolding domain_pre_def refresh_fields by (auto simp: refresh_mem)
  moreover have "\<forall>(r, mc) \<in> set (models ?d). \<forall>ai \<in> set (application_integrations mc). links_complete ?d r ai"
    using links(2) by (auto simp: refresh_mem)
  ultimately show ?thesis by (simp add: domain_ok_def)
qed

section \<open>Growing domains\<close>

text \<open>What the specification asks for: nothing that is done to a domain changes it.\<close>

definition app_request :: "'e DomainApplication \<Rightarrow> py_str \<times> CharmChannel option \<times> int option \<times> py_str option" where
  "app_request da = (app_charm da, app_channel da, app_revision da, app_base da)"

definition int_request :: "'e DomainApplicationIntegration \<Rightarrow> DomainApplicationEndpoint \<times> DomainApplicationEndpoint \<times> py_str option \<times> py_str option" where
  "int_request ai = (endpoint_1 ai, endpoint_2 ai, offer_name ai, url ai)"

definition model_request where
  "model_request mc = (map (\<lambda>(n, da). (n, app_request da)) (applications mc), map int_request (application_integrations mc))"

definition requested where
  "requested d = map (\<lambda>(r, mc). (r, model_request mc)) (models d)"

lemma requested_refresh: "requested (refresh_application_integration_mappings Z d) = requested d"
  by (simp add: requested_def refresh_application_integration_mappings_def model_request_def int_request_def comp_def case_prod_beta)

lemma map_dict_set: "dict_get m r = Some x \<Longrightarrow> f x' = f x \<Longrightarrow> map (\<lambda>(r, x). (r, f x)) (dict_set r x' m) = map (\<lambda>(r, x). (r, f x)) m"
  by (induction m) auto

lemma requested_map_app: "model_request (mc\<lparr>applications := map (map_app Z c cid) (applications mc)\<rparr>) = model_request mc"
  by (auto simp: model_request_def map_app_def app_request_def)

definition grows :: "'e Domain \<Rightarrow> 'e Domain \<Rightarrow> bool" where
  "grows d d' \<longleftrightarrow>
     length (charms d) \<le> length (charms d')
     \<and> (\<forall>cid < length (charms d). spec (charms d' ! cid) = spec (charms d ! cid) \<and> charm_model (charms d' ! cid) = charm_model (charms d ! cid))
     \<and> (\<exists>new. charm_integrations d' = charm_integrations d @ new)
     \<and> platform_of d' = platform_of d \<and> (\<forall>r app cid. serves d r app cid \<longrightarrow> serves d' r app cid)
     \<and> requested d' = requested d"

lemma growsD:
  assumes "grows d d'"
  shows "length (charms d) \<le> length (charms d')" "platform_of d' = platform_of d"
    "cid < length (charms d) \<Longrightarrow> spec (charms d' ! cid) = spec (charms d ! cid)"
    "cid < length (charms d) \<Longrightarrow> charm_model (charms d' ! cid) = charm_model (charms d ! cid)"
    "serves d r app cid \<Longrightarrow> serves d' r app cid"
    "idx < length (charm_integrations d) \<Longrightarrow> charm_integrations d' ! idx = charm_integrations d ! idx"
    "length (charm_integrations d) \<le> length (charm_integrations d')" "requested d' = requested d"
  using assms unfolding grows_def by (auto simp: nth_append)

lemma grows_refl: "grows d d"
  by (simp add: grows_def)

lemma grows_trans: "grows d1 d2 \<Longrightarrow> grows d2 d3 \<Longrightarrow> grows d1 d3"
  unfolding grows_def by (auto intro: order_trans dest: less_le_trans)

lemma grows_refresh: "grows d (refresh_application_integration_mappings Z d)"
  by (simp add: grows_def requested_refresh)

lemma compatible_grows:
  assumes "grows d d'" "rq < length (charms d)" "pv < length (charms d)"
  shows "compatible d' (rq, rep, pv, pep) = compatible d (rq, rep, pv, pep)"
proof -
  have "scope_ok d' rq pv = scope_ok d rq pv" unfolding scope_ok_def
    growsD(2) [OF assms(1)] growsD(4) [OF assms(1,2)] growsD(4) [OF assms(1,3)] ..
  then show ?thesis unfolding compatible_def growsD(3) [OF assms(1,2)] growsD(3) [OF assms(1,3)] prod.case by presburger
qed

lemma integration_ok_grows: "grows d d' \<Longrightarrow> integration_ok Z d i \<Longrightarrow> integration_ok Z d' i"
  using growsD(1,4) [of d d'] by (auto simp: integration_ok_def int_key_def compatible_grows integration_var_name_def Let_def)

lemma fits_grows:
  assumes "grows d d'" "requires_charm_id i < length (charms d)" "provides_charm_id i < length (charms d)" "fits d r ai i"
  shows "fits d' r ai i"
proof -
  have ends: "fits_ends d' q p e f i" if "fits_ends d q p e f i" for q p e f
    using that growsD(4,5) [OF assms(1)] assms(2,3) by (simp add: fits_ends_def stands_for_def)
  have "is_cross_model d' i = is_cross_model d i"
    using growsD(4) [OF assms(1)] assms(2,3) by (simp add: is_cross_model_def)
  with assms(4) ends show ?thesis unfolding fits_def Let_def by (auto split: if_splits)
qed

lemma links_sound_grows:
  assumes "grows d d'" "\<forall>i \<in> set (charm_integrations d). integration_ok Z d i" "links_sound Z d r ai"
  shows "links_sound Z d' r ai"
proof -
  have "idx < length (charm_integrations d') \<and> fits d' r ai (charm_integrations d' ! idx) \<and> v = mapping_var Z ai idx (charm_integrations d' ! idx)"
    if "dict_get (charm_integration_ids ai) idx = Some v" for idx v
  proof -
    from assms(3) that have idx: "idx < length (charm_integrations d)" "fits d r ai (charm_integrations d ! idx)"
      "v = mapping_var Z ai idx (charm_integrations d ! idx)" by (auto simp: links_sound_def)
    with assms(2) have "requires_charm_id (charm_integrations d ! idx) < length (charms d)" "provides_charm_id (charm_integrations d ! idx) < length (charms d)"
      by (auto simp: integration_ok_def)
    from fits_grows [OF assms(1) this idx(2)] show ?thesis
      using idx growsD(6) [OF assms(1) idx(1)] growsD(7) [OF assms(1)] by simp
  qed
  with assms(3) show ?thesis by (simp add: links_sound_def)
qed

section \<open>Adding a charm\<close>

lemma map_of_map_app:
  "map_of (map (map_app Z c cid) apps) app = map_option (\<lambda>da. snd (map_app Z c cid (app, da))) (map_of apps app)"
  by (induction apps) (auto simp: map_app_def)

lemma map_app_keys: "map fst (map (map_app Z c cid) apps) = map fst apps"
  by (auto simp: map_app_def)

lemma app_ok_map_app:
  assumes ok: "app_ok Z d r app da" and cid: "cid = length (charms d)"
    and new: "charms d' = charms d @ [dc]" "spec dc = c" "charm_model dc = r"
  shows "app_ok Z d' r app (snd (map_app Z c cid (app, da)))"
proof -
  have none: "dict_get (charm_ids da) cid = None" using ok cid by (simp add: app_ok_def)
  have acc: "app_accepts (snd (map_app Z c cid (app, da))) = app_accepts da" by (simp add: map_app_def app_accepts_def fun_eq_iff)
  show ?thesis unfolding app_ok_def acc using ok none cid new
    by (auto simp: app_ok_def map_app_def dict_get_set nth_append less_Suc_eq)
qed

lemma app_ok_other:
  assumes "app_ok Z d r app da" "charms d' = charms d @ [dc]" "charm_model dc \<noteq> r"
  shows "app_ok Z d' r app da"
  using assms by (auto simp: app_ok_def nth_append less_Suc_eq)

lemma add_charm_cases:
  assumes "add_charm_to_domain Z c d mr = Inr (d', cid)"
  obtains r mc cfg where "resolve_model_ref d mr = Inr r" "dict_get (models d) r = Some mc" "cid = length (charms d)"
    "add_configs Z (charm_prefix c cid) (configs c) (map (\<lambda>(key, dv). (key, default_config dv)) (config_defaults c)) = Inr cfg"
    "d' = refresh_application_integration_mappings Z
       (d\<lparr>charms := charms d @ [new_charm Z c cid r cfg],
          models := dict_set r (mc\<lparr>applications := map (map_app Z c cid) (applications mc)\<rparr>) (models d)\<rparr>)"
  using assms by (auto simp: add_charm_to_domain_def result_simps Let_def split: option.splits)

lemma new_charm_fields [simp]:
  "spec (new_charm Z c cid r cfg) = c" "charm_model (new_charm Z c cid r cfg) = r" "charms_added (new_charm Z c cid r cfg) = []"
  by (simp_all add: new_charm_def Let_def)

lemma map_app_ids: "dict_get (charm_ids da) k \<noteq> None \<Longrightarrow> dict_get (charm_ids (snd (map_app Z c cid (app, da)))) k \<noteq> None"
  by (simp add: map_app_def dict_get_set)

lemma has_charm_map_app:
  "has_charm mc app k \<Longrightarrow> has_charm (mc\<lparr>applications := map (map_app Z c cid) (applications mc)\<rparr>) app k"
  by (auto simp: has_charm_def map_of_map_app split: option.splits) (metis map_app_ids option.simps(3) not_None_eq)

lemma grows_add:
  assumes "dict_get (models d) r = Some mc"
  shows "grows d (d\<lparr>charms := charms d @ [dc], models := dict_set r (mc\<lparr>applications := map (map_app Z c cid) (applications mc)\<rparr>) (models d)\<rparr>)"
  using assms map_dict_set [where f = model_request, OF assms requested_map_app [where mc = mc and Z = Z and c = c and cid = cid]]
  by (auto simp: grows_def nth_append platform_of_def serves_def fun_eq_iff dict_get_set has_charm_map_app requested_def split: option.splits)

lemma add_charm_grows: "add_charm_to_domain Z c d mr = Inr (d', cid) \<Longrightarrow> grows d d'"
  by (erule add_charm_cases) (auto intro: grows_trans [OF grows_add grows_refresh])

lemma dict_set_mem:
  assumes "dict_ok d" "(k, v) \<in> set (dict_set j w d)"
  shows "k = j \<and> v = w \<or> k \<noteq> j \<and> (k, v) \<in> set d"
  using assms by (auto simp: dict_mem_get dict_get_set split: if_splits)

lemma add_charm_ok:
  assumes ok: "domain_ok Z d" and wf: "charm_wf c" and add: "add_charm_to_domain Z c d mr = Inr (d', cid)"
  shows "domain_ok Z d'"
  using add
proof (rule add_charm_cases)
  fix r cfg and mc :: "'a DomainModel"
  let ?dc = "new_charm Z c cid r cfg" and ?mc = "mc\<lparr>applications := map (map_app Z c cid) (applications mc)\<rparr>"
  let ?d = "d\<lparr>charms := charms d @ [?dc], models := dict_set r ?mc (models d)\<rparr>"
  assume mc: "dict_get (models d) r = Some mc" and cid: "cid = length (charms d)"
    and cfg: "add_configs Z (charm_prefix c cid) (configs c) (map (\<lambda>(key, dv). (key, default_config dv)) (config_defaults c)) = Inr cfg"
    and d': "d' = refresh_application_integration_mappings Z ?d"
  have "domain_pre Z d" using ok by (simp add: domain_ok_def)
  note pre = domain_preD [OF this]
  have mem: "(r, mc) \<in> set (models d)" using mc by (rule map_of_SomeD)
  note g = grows_add [OF mc, where dc = ?dc and Z = Z and c = c and cid = cid]
  have sub: "links_sound Z ?d r' ai" if "links_sound Z d r' ai" for r' ai
    using links_sound_grows [OF g _ that] pre(5) by blast
  have "built_charm Z cid ?dc" using wf cfg by (simp add: built_charm_def)
  then have charms: "built_charm Z k ((charms d @ [?dc]) ! k) \<and> charm_model ((charms d @ [?dc]) ! k) \<in> fst ` set (dict_set r ?mc (models d))"
    if "k < Suc (length (charms d))" for k
    using that pre(3,4) cid by (auto simp: nth_append less_Suc_eq dom_update)
  have models: "dict_ok (applications mc') \<and> (\<forall>(app, da) \<in> set (applications mc'). app_ok Z ?d r' app da)
      \<and> (\<forall>ai \<in> set (application_integrations mc'). links_sound Z ?d r' ai)"
    if "(r', mc') \<in> set (dict_set r ?mc (models d))" for r' mc'
  proof (cases "r' = r")
    case True
    then have mc': "mc' = ?mc" using dict_set_mem [OF pre(1) that] by simp
    have "app_ok Z ?d r app da" if "(app, da) \<in> set (applications ?mc)" for app da
    proof -
      from that obtain da0 where da0: "(app, da0) \<in> set (applications mc)" "da = snd (map_app Z c cid (app, da0))"
        by (auto simp: map_app_def split: if_splits)
      show ?thesis unfolding da0(2) by (rule app_ok_map_app [where dc = ?dc, OF pre(7) [OF mem da0(1)] cid]) simp_all
    qed
    moreover have "dict_ok (applications ?mc)" using pre(6) [OF mem] by (simp add: dict_ok_def map_app_keys del: map_map)
    moreover have "links_sound Z ?d r ai" if "ai \<in> set (application_integrations ?mc)" for ai
      using that by (intro sub pre(8) [OF mem]) simp
    ultimately show ?thesis unfolding True mc' by blast
  next
    case False
    then have mem': "(r', mc') \<in> set (models d)" using dict_set_mem [OF pre(1) that] by simp
    have "app_ok Z ?d r' app da" if "(app, da) \<in> set (applications mc')" for app da
      by (rule app_ok_other [where dc = ?dc, OF pre(7) [OF mem' that]]) (use False in simp_all)
    then show ?thesis using pre(6,8) [OF mem'] sub by blast
  qed
  have ints: "integration_ok Z ?d i" if "i \<in> set (charm_integrations d)" for i by (rule integration_ok_grows [OF g pre(5) [OF that]])
  have "domain_pre Z ?d"
  proof (rule domain_preI)
    show "built_charm Z k (charms ?d ! k) \<and> charm_model (charms ?d ! k) \<in> fst ` set (models ?d)" if "k < length (charms ?d)" for k
      using charms [of k] that by simp
  qed (use pre(1,2) models ints in simp_all)
  then show ?thesis unfolding d' by (rule refresh_ok)
qed

section \<open>Pairing two charms\<close>

definition orient_key :: "'e Domain \<Rightarrow> nat \<Rightarrow> nat \<Rightarrow> (py_str \<times> CharmEndpoint) \<times> (py_str \<times> CharmEndpoint) \<Rightarrow> int_key option" where
  "orient_key d a b = (\<lambda>(ea, eb). case orient a b ea eb of None \<Rightarrow> None
     | Some k \<Rightarrow> if scope_ok d (fst k) (fst (snd (snd k))) (snd ea) (snd eb) then Some k else None)"

lemma pair_fold:
  "set (fold (pair_endpoints d a b) ps ks) =
     set ks \<union> ({k. \<exists>p \<in> set ps. orient_key d a b p = Some k} - int_key ` set (charm_integrations d))
   \<and> (distinct ks \<and> set ks \<inter> int_key ` set (charm_integrations d) = {} \<longrightarrow>
      distinct (fold (pair_endpoints d a b) ps ks) \<and> set (fold (pair_endpoints d a b) ps ks) \<inter> int_key ` set (charm_integrations d) = {})"
proof (induction ps arbitrary: ks)
  case (Cons p ps)
  obtain ea eb where p: "p = (ea, eb)" by (cases p)
  have "pair_endpoints d a b p ks = (case orient_key d a b p of None \<Rightarrow> ks
      | Some k \<Rightarrow> if k \<in> int_key ` set (charm_integrations d) \<or> k \<in> set ks then ks else ks @ [k])"
    by (simp add: p pair_endpoints_def orient_key_def split: option.split)
  with Cons.IH show ?case by (cases "orient_key d a b p") auto
qed auto

lemma orient_key_Some:
  assumes "dict_ok (charm_endpoints (spec (charms d ! a)))" "dict_ok (charm_endpoints (spec (charms d ! b)))" "a \<noteq> b"
  shows "(\<exists>p \<in> set (charm_endpoints (spec (charms d ! a))) \<times> set (charm_endpoints (spec (charms d ! b))). orient_key d a b p = Some k) \<longleftrightarrow>
    compatible d k \<and> (\<exists>n n'. k = (a, n, b, n') \<or> k = (b, n, a, n'))"
proof -
  have sym: "scope_ok d x y ea eb = scope_ok d x y eb ea" for x y ea eb by (auto simp: scope_ok_def)
  have "(\<exists>p \<in> set (charm_endpoints (spec (charms d ! a))) \<times> set (charm_endpoints (spec (charms d ! b))). orient_key d a b p = Some k) \<longleftrightarrow>
    (\<exists>na ea nb eb. dict_get (charm_endpoints (spec (charms d ! a))) na = Some ea \<and> dict_get (charm_endpoints (spec (charms d ! b))) nb = Some eb
      \<and> orient_key d a b ((na, ea), (nb, eb)) = Some k)"
    using assms(1,2) by (fastforce simp: dict_mem_get)
  also have "\<dots> \<longleftrightarrow> compatible d k \<and> (\<exists>n n'. k = (a, n, b, n') \<or> k = (b, n, a, n'))"
  proof
    assume "\<exists>na ea nb eb. dict_get (charm_endpoints (spec (charms d ! a))) na = Some ea \<and> dict_get (charm_endpoints (spec (charms d ! b))) nb = Some eb
      \<and> orient_key d a b ((na, ea), (nb, eb)) = Some k"
    then show "compatible d k \<and> (\<exists>n n'. k = (a, n, b, n') \<or> k = (b, n, a, n'))"
      using assms(3) sym by (auto simp: orient_key_def orient_def compatible_def split: if_splits)
  next
    assume k: "compatible d k \<and> (\<exists>n n'. k = (a, n, b, n') \<or> k = (b, n, a, n'))"
    then obtain n n' where "k = (a, n, b, n') \<or> k = (b, n, a, n')" by blast
    then show "\<exists>na ea nb eb. dict_get (charm_endpoints (spec (charms d ! a))) na = Some ea \<and> dict_get (charm_endpoints (spec (charms d ! b))) nb = Some eb
      \<and> orient_key d a b ((na, ea), (nb, eb)) = Some k"
    proof
      assume n: "k = (a, n, b, n')"
      with k obtain er ep where "dict_get (charm_endpoints (spec (charms d ! a))) n = Some er"
        "dict_get (charm_endpoints (spec (charms d ! b))) n' = Some ep" "orient_key d a b ((n, er), (n', ep)) = Some k"
        by (auto simp: compatible_def orient_key_def orient_def split: option.splits)
      then show ?thesis by blast
    next
      assume n: "k = (b, n, a, n')"
      with k obtain er ep where "dict_get (charm_endpoints (spec (charms d ! b))) n = Some er"
        "dict_get (charm_endpoints (spec (charms d ! a))) n' = Some ep" "orient_key d a b ((n', ep), (n, er)) = Some k"
        using sym by (auto simp: compatible_def orient_key_def orient_def split: option.splits)
      then show ?thesis by blast
    qed
  qed
  finally show ?thesis .
qed

lemma new_keys_exact:
  assumes "dict_ok (charm_endpoints (spec (charms d ! a)))" "dict_ok (charm_endpoints (spec (charms d ! b)))" "a \<noteq> b"
  shows "set (new_keys d a b) = {k. compatible d k \<and> (\<exists>n n'. k = (a, n, b, n') \<or> k = (b, n, a, n'))} - int_key ` set (charm_integrations d)"
    and "distinct (new_keys d a b)"
proof -
  let ?A = "charm_endpoints (spec (charms d ! a))" and ?B = "charm_endpoints (spec (charms d ! b))"
  let ?ps = "concat (map (\<lambda>ea. map (\<lambda>eb. (ea, eb)) ?B) ?A)"
  have "set ?ps = set ?A \<times> set ?B" by auto
  with pair_fold [of d a b ?ps "[]"] orient_key_Some [OF assms] show
    "set (new_keys d a b) = {k. compatible d k \<and> (\<exists>n n'. k = (a, n, b, n') \<or> k = (b, n, a, n'))} - int_key ` set (charm_integrations d)"
    "distinct (new_keys d a b)" unfolding new_keys_def by simp_all
qed

lemma built_charmD:
  "built_charm Z cid c \<Longrightarrow> dict_ok (charm_endpoints (spec c))"
  by (simp add: built_charm_def charm_wf_def)

lemma grows_pair: "grows d (d\<lparr>charm_integrations := charm_integrations d @ new\<rparr>)"
  by (simp add: grows_def platform_of_def serves_def fun_eq_iff requested_def)

lemma int_key_new [simp]: "int_key (new_integration Z d k) = k"
  by (cases k) (simp add: new_integration_def int_key_def)

lemma pair_charms_grows: "pair_charms_in_domain Z d a b = Inr (d', t) \<Longrightarrow> grows d d'"
  by (auto simp: pair_charms_in_domain_def Let_def split: if_splits intro: grows_refl grows_trans [OF grows_pair grows_refresh])

lemma pair_charms_ok:
  assumes ok: "domain_ok Z d" and pair: "pair_charms_in_domain Z d a b = Inr (d', t)"
  shows "domain_ok Z d'"
proof -
  let ?new = "map (new_integration Z d) (new_keys d a b)"
  let ?d = "d\<lparr>charm_integrations := charm_integrations d @ ?new\<rparr>"
  consider "d' = d" | "a \<noteq> b" "a < length (charms d)" "b < length (charms d)" "d' = refresh_application_integration_mappings Z ?d"
    using pair by (auto simp: pair_charms_in_domain_def Let_def split: if_splits)
  then show ?thesis
  proof cases
    case 2
    have "domain_pre Z d" using ok by (simp add: domain_ok_def)
    note pre = domain_preD [OF this]
    note keys = new_keys_exact [OF built_charmD [OF pre(3) [OF 2(2)]] built_charmD [OF pre(3) [OF 2(3)]] 2(1)]
    have new: "integration_ok Z ?d i" if "i \<in> set ?new" for i
    proof (rule integration_ok_grows [OF grows_pair])
      from that obtain k where k: "k \<in> set (new_keys d a b)" "i = new_integration Z d k" by auto
      with keys(1) have "compatible d k" "\<exists>n n'. k = (a, n, b, n') \<or> k = (b, n, a, n')" by auto
      then show "integration_ok Z d i" using 2(2,3) unfolding k(2) integration_ok_def int_key_new
        by (auto simp: new_integration_def)
    qed
    have "distinct (map int_key (charm_integrations ?d))"
      using pre(2) keys by (auto simp: comp_def)
    moreover have "links_sound Z ?d r ai" if "links_sound Z d r ai" for r ai
      using links_sound_grows [OF grows_pair _ that] pre(5) by blast
    moreover have "app_ok Z ?d = app_ok Z d" by (simp add: app_ok_def fun_eq_iff)
    ultimately have "domain_pre Z ?d" unfolding domain_pre_def
      using pre(1,3,4,6-8) new integration_ok_grows [OF grows_pair pre(5)] by auto
    then show ?thesis unfolding 2(4) by (rule refresh_ok)
  qed (use ok in simp)
qed

section \<open>The charms of the applications\<close>

definition app_var :: "'e z3 \<Rightarrow> 'e Domain \<Rightarrow> py_str \<Rightarrow> nat \<Rightarrow> 'e" where
  "app_var Z d app cid = zBool Z (''app_'' @ app @ ''_maps_to_charm_'' @ charm_name (spec (charms d ! cid)) @ ''_'' @ nat_str cid)"

lemma dict_get_fold_set:
  "dict_get (fold (\<lambda>(k, v). dict_set k v) kvs d) k = (case map_of (rev kvs) k of Some v \<Rightarrow> Some v | None \<Rightarrow> dict_get d k)"
  by (induction kvs arbitrary: d) (auto simp: dict_get_set map_add_def split: option.split)

definition app_entries :: "'e Domain \<Rightarrow> ((py_str \<times> nat) \<times> 'e) list" where
  "app_entries d = concat (map (\<lambda>(_, mc).
     concat (map (\<lambda>(app, da). map (\<lambda>(cid, var). ((app, cid), var)) (charm_ids da)) (applications mc))) (models d))"

lemma app_entries_iff:
  assumes "domain_pre Z d"
  shows "((app, cid), v) \<in> set (app_entries d) \<longleftrightarrow>
    cid < length (charms d) \<and> serves d (charm_model (charms d ! cid)) app cid \<and> v = app_var Z d app cid"
proof -
  note pre = domain_preD [OF assms]
  have "((app, cid), v) \<in> set (app_entries d) \<longleftrightarrow>
      (\<exists>r mc da. (r, mc) \<in> set (models d) \<and> (app, da) \<in> set (applications mc) \<and> (cid, v) \<in> set (charm_ids da))"
    by (fastforce simp: app_entries_def)
  also have "\<dots> \<longleftrightarrow> (\<exists>r mc da. dict_get (models d) r = Some mc \<and> dict_get (applications mc) app = Some da \<and> dict_get (charm_ids da) cid = Some v)"
    using pre(1,6,7) by (meson app_ok_def dict_mem_get)
  also have "\<dots> \<longleftrightarrow> (\<exists>r mc da. dict_get (models d) r = Some mc \<and> dict_get (applications mc) app = Some da \<and> dict_get (charm_ids da) cid \<noteq> None
      \<and> cid < length (charms d) \<and> r = charm_model (charms d ! cid) \<and> v = app_var Z d app cid)"
  proof -
    have "dict_get (charm_ids da) cid = Some v \<longleftrightarrow> dict_get (charm_ids da) cid \<noteq> None \<and> cid < length (charms d) \<and> r = charm_model (charms d ! cid) \<and> v = app_var Z d app cid"
      if "dict_get (models d) r = Some mc" "dict_get (applications mc) app = Some da" for r mc da
      using pre(7) [OF map_of_SomeD [OF that(1)] map_of_SomeD [OF that(2)]] by (auto simp: app_ok_def app_var_def)
    then show ?thesis by blast
  qed
  also have "\<dots> \<longleftrightarrow> cid < length (charms d) \<and> serves d (charm_model (charms d ! cid)) app cid \<and> v = app_var Z d app cid"
    by (auto simp: serves_def has_charm_def split: option.splits)
  finally show ?thesis .
qed

lemma app_to_charm_map_get:
  assumes "domain_pre Z d"
  shows "dict_get (app_to_charm_map d) (app, cid) =
    (if cid < length (charms d) \<and> serves d (charm_model (charms d ! cid)) app cid then Some (app_var Z d app cid) else None)"
proof -
  have eq: "dict_get (app_to_charm_map d) (app, cid) = map_of (rev (app_entries d)) (app, cid)"
    by (simp add: app_to_charm_map_def dict_get_fold_set app_entries_def split: option.split)
  show ?thesis
  proof (cases "map_of (rev (app_entries d)) (app, cid)")
    case None
    then have "((app, cid), app_var Z d app cid) \<notin> set (app_entries d)" by (metis map_of_eq_None_iff set_rev fst_conv image_eqI)
    then show ?thesis using None app_entries_iff [OF assms] by (simp add: eq)
  next
    case (Some v)
    then have "((app, cid), v) \<in> set (app_entries d)" by (metis map_of_SomeD set_rev)
    then show ?thesis using Some app_entries_iff [OF assms] by (simp add: eq)
  qed
qed

lemma dict_ok_app_to_charm_map: "dict_ok (app_to_charm_map d)"
proof -
  have "dict_ok (fold (\<lambda>(k, v). dict_set k v) kvs m)" if "dict_ok m" for kvs :: "((py_str \<times> nat) \<times> 'a) list" and m
    using that by (induction kvs arbitrary: m) auto
  then show ?thesis by (simp add: app_to_charm_map_def)
qed

lemma app_to_charm_map_mem:
  assumes "domain_pre Z d"
  shows "((app, cid), v) \<in> set (app_to_charm_map d) \<longleftrightarrow>
    cid < length (charms d) \<and> serves d (charm_model (charms d ! cid)) app cid \<and> v = app_var Z d app cid"
  using app_to_charm_map_get [OF assms] dict_ok_app_to_charm_map [of d] by (auto simp: dict_mem_get split: if_splits)

section \<open>Sorts of the variables\<close>

definition var_config :: "'e z3 \<Rightarrow> py_str \<Rightarrow> py_str \<Rightarrow> config_value option list \<Rightarrow> 'e DomainCharmConfig \<Rightarrow> bool" where
  "var_config Z pre k allowed e \<longleftrightarrow>
     List.map_filter id allowed \<noteq> []
     \<and> (\<exists>dflt var b_int. config_var Z (pre @ ''_config_'' @ k) (None \<in> set allowed) dflt (List.map_filter id allowed) = Inr (var, b_int)
     \<and> e = \<lparr>cfg_var = Some var, cfg_isset_var = (if None \<in> set allowed then Some (zBool Z ((pre @ ''_config_'' @ k) @ ''_is_set'')) else None),
            cfg_default = dflt, cfg_fixed_value = False, bool_as_int = b_int\<rparr>)"

lemma add_config_result:
  assumes "add_config Z pre (key, allowed) c = Inr c1"
  shows "c1 = c \<or> (\<exists>w. c1 = dict_set key w c \<and> ((\<exists>v. w = fixed_config v) \<or> var_config Z pre key allowed w))"
proof (cases "List.map_filter id allowed = [] \<or> length (List.map_filter id allowed) = 1 \<and> None \<notin> set allowed")
  case True
  then show ?thesis using assms by (auto simp: add_config_def Let_def split: if_splits)
next
  case False
  let ?prefix = "pre @ ''_config_'' @ key" and ?opt = "None \<in> set allowed"
  let ?dflt = "case dict_get c key of None \<Rightarrow> None | Some e \<Rightarrow> cfg_default e"
  let ?w = "\<lambda>var b_int. \<lparr>cfg_var = Some var, cfg_isset_var = (if ?opt then Some (zBool Z (?prefix @ ''_is_set'')) else None),
      cfg_default = ?dflt, cfg_fixed_value = False, bool_as_int = b_int\<rparr>"
  have "add_config Z pre (key, allowed) c =
      bind_result (config_var Z ?prefix ?opt ?dflt (List.map_filter id allowed)) (\<lambda>(var, b_int). Inr (dict_set key (?w var b_int) c))"
    using False unfolding add_config_def Let_def prod.case by presburger
  with assms obtain var b_int where v: "config_var Z ?prefix ?opt ?dflt (List.map_filter id allowed) = Inr (var, b_int)"
    and c1: "c1 = dict_set key (?w var b_int) c" by (auto simp: bind_result_Inr_iff)
  have "var_config Z pre key allowed (?w var b_int)" unfolding var_config_def using v False by blast
  with c1 show ?thesis by blast
qed

lemma config_entry:
  assumes "add_configs Z pre kvs c = Inr cfg" "(k, e) \<in> set cfg"
  shows "(k, e) \<in> set c \<or> (\<exists>v. e = fixed_config v) \<or> (\<exists>allowed. (k, allowed) \<in> set kvs \<and> var_config Z pre k allowed e)"
  using assms
proof (induction kvs arbitrary: c)
  case (Cons x xs)
  obtain key allowed where x: "x = (key, allowed)" by (cases x)
  from Cons.prems(1) obtain c1 where c1: "add_config Z pre x c = Inr c1" "add_configs Z pre xs c1 = Inr cfg"
    by (auto simp: bind_result_Inr_iff)
  have "c1 = c \<or> (\<exists>w. c1 = dict_set key w c \<and> ((\<exists>v. w = fixed_config v) \<or> var_config Z pre key allowed w))"
    by (rule add_config_result [OF c1(1) [unfolded x]])
  then have step: "(k, e) \<in> set c \<or> (\<exists>v. e = fixed_config v) \<or> k = key \<and> var_config Z pre key allowed e" if "(k, e) \<in> set c1"
  proof (elim disjE exE conjE)
    fix w v assume "c1 = dict_set key w c" "w = fixed_config v"
    then show ?thesis using set_update_mem [of k e key w c] that by blast
  next
    fix w assume "c1 = dict_set key w c" "var_config Z pre key allowed w"
    then show ?thesis using set_update_mem [of k e key w c] that by blast
  qed (use that in simp)
  from Cons.IH [OF c1(2) Cons.prems(2)] show ?case unfolding x using step by (elim disjE exE conjE) auto
qed simp

definition var_resource :: "'e z3 \<Rightarrow> py_str \<Rightarrow> py_str \<Rightarrow> py_str option list \<Rightarrow> 'e DomainCharmResource \<Rightarrow> bool" where
  "var_resource Z pre k allowed e \<longleftrightarrow>
     List.map_filter id allowed \<noteq> []
     \<and> e = \<lparr>res_var = Some (zString Z (pre @ ''_resource_'' @ k)),
            res_isset_var = (if None \<in> set allowed then Some (zBool Z ((pre @ ''_resource_'' @ k) @ ''_is_set'')) else None),
            res_default = None, res_fixed_value = False\<rparr>"

lemma resource_entry:
  assumes "(k, e) \<in> set (fold (add_resource Z pre) kvs c)"
  shows "(k, e) \<in> set c \<or> res_var e = None \<and> res_isset_var e = None \<or> (\<exists>allowed. (k, allowed) \<in> set kvs \<and> var_resource Z pre k allowed e)"
  using assms
proof (induction kvs arbitrary: c)
  case (Cons x xs)
  obtain key allowed where x: "x = (key, allowed)" by (cases x)
  have "(k, e) \<in> set c \<or> res_var e = None \<and> res_isset_var e = None \<or> k = key \<and> var_resource Z pre k allowed e"
    if "(k, e) \<in> set (add_resource Z pre x c)"
    using that unfolding x add_resource_def Let_def
    by (auto simp: var_resource_def split: if_splits dest!: set_update_mem)
  with Cons.IH [of "add_resource Z pre x c"] Cons.prems show ?case unfolding x by fastforce
qed simp

context z3_api
begin

lemma ev_var_vals [simp]:
  "is_bool_val (ev m (zBool Z n))" "is_int_val (ev m (zInt Z n))" "is_scalar_val (ev m (zBool Z n))" "is_scalar_val (ev m (zInt Z n))"
  "is_scalar_val (ev m (zReal Z n))" "is_scalar_val (ev m (zString Z n))" "val_sort (ev m (zString Z n)) = StringSort"
  by (simp_all add: is_bool_val_def is_int_val_def is_scalar_val_def ev_vals)

lemma config_var_typed:
  "config_var Z p opt dflt vs = Inr (v, b_int) \<Longrightarrow> if b_int then is_int_val (ev m v) else is_scalar_val (ev m v)"
  unfolding config_var_def
  by (cases "list_all is_CBool vs"; cases "opt \<and> dflt = None \<and> set vs = {CBool True, CBool False}";
      cases "list_all is_CInt vs"; cases "list_all is_CFloat vs"; cases "list_all is_CStr vs"; force)

lemma typed_var_config:
  assumes "var_config Z pre k allowed e"
  shows "typed_config (ev m) e"
proof -
  from assms obtain dflt var b_int where v: "config_var Z (pre @ ''_config_'' @ k) (None \<in> set allowed) dflt (List.map_filter id allowed) = Inr (var, b_int)"
    and e: "cfg_var e = Some var" "bool_as_int e = b_int" "cfg_isset_var e \<in> {None, Some (zBool Z ((pre @ ''_config_'' @ k) @ ''_is_set''))}"
    unfolding var_config_def by force
  then show ?thesis using config_var_typed [OF v, of m] by (auto simp: typed_config_def simp del: append_Cons)
qed

lemma built_charm_typed:
  assumes "built_charm Z cid c"
  shows "typed_charm (ev m) c"
proof -
  let ?p = "charm_prefix (spec c) cid"
  from assms obtain cfg where wf: "charm_wf (spec c)"
    and cfg: "add_configs Z ?p (configs (spec c)) (map (\<lambda>(key, dv). (key, default_config dv)) (config_defaults (spec c))) = Inr cfg"
    and c: "c = (new_charm Z (spec c) cid (charm_model c) cfg)\<lparr>charms_added := charms_added c\<rparr>"
    unfolding built_charm_def by blast
  have fields: "charm_exists c = zBool Z (?p @ ''_exists'')" "num_units c = zInt Z (?p @ ''_num_units'')"
    "endpoints c = map (\<lambda>(name, e). (name, new_endpoint Z ?p name e)) (charm_endpoints (spec c))"
    "config c = cfg" "resources c = fold (add_resource Z ?p) (charm_resources (spec c)) []"
    by (subst c, simp add: new_charm_def Let_def)+
  have "typed_endpoint (ev m) (new_endpoint Z ?p n e)" if "(n, e) \<in> set (charm_endpoints (spec c))" for n e
    using that wf by (auto simp: typed_endpoint_def new_endpoint_def Let_def charm_wf_def list_all_iff dict_ok_def comp_def)
  moreover have "typed_config (ev m) e" if "(k, e) \<in> set cfg" for k e
  proof -
    have "typed_config (ev m) (default_config v :: 'e DomainCharmConfig)" "typed_config (ev m) (fixed_config w :: 'e DomainCharmConfig)" for v w
      by (simp_all add: default_config_def fixed_config_def typed_config_def)
    then show ?thesis using config_entry [OF cfg that] typed_var_config by (elim disjE exE conjE) auto
  qed
  moreover have "typed_resource (ev m) e" if "(k, e) \<in> set (resources c)" for k e
    using resource_entry [OF that [unfolded fields(5)]] by (auto simp: typed_resource_def var_resource_def)
  ultimately show ?thesis by (auto simp: typed_charm_def fields(1-4))
qed

lemma domain_ok_typed:
  assumes "domain_ok Z d"
  shows "typed_domain (ev m) d"
proof -
  have "domain_pre Z d" using assms by (simp add: domain_ok_def)
  note pre = domain_preD [OF this]
  have "typed_charm (ev m) c" if "c \<in> set (charms d)" for c
    using that pre(3) built_charm_typed by (metis in_set_conv_nth)
  moreover have "is_bool_val (ev m (int_exists i)) \<and> requires_charm_id i \<noteq> provides_charm_id i" if "i \<in> set (charm_integrations d)" for i
    using pre(5) [OF that] by (auto simp: integration_ok_def compatible_def int_key_def)
  moreover have "is_bool_val (ev m v)" if "(k, v) \<in> set (app_to_charm_map d)" for k v
    using that app_to_charm_map_mem [OF \<open>domain_pre Z d\<close>] by (cases k) (simp add: app_var_def)
  ultimately show ?thesis unfolding typed_domain_def by blast
qed

end

end
