(* ===== verification/Bundle_Steps.thy ===== *)
theory Bundle_Steps
  imports Bundle_Domain_Correct
begin

text \<open>
  The changes the bundle builder makes to a domain, as a step relation, and that they keep the
  invariant of the domain and only extend it.
\<close>

section \<open>Steps of a domain\<close>

text \<open>The changes the bundle builder makes to a domain: it adds a charm, pairs two charms, or records which charms were fetched for another or for an application.\<close>

definition note_charm :: "nat \<Rightarrow> nat list \<Rightarrow> 'e Domain \<Rightarrow> 'e Domain" where
  "note_charm cid ids d = d\<lparr>charms := (charms d)[cid := (charms d ! cid)\<lparr>charms_added := ids\<rparr>]\<rparr>"

definition note_app :: "ModelRef \<Rightarrow> py_str \<Rightarrow> nat list \<Rightarrow> 'e Domain \<Rightarrow> 'e Domain" where
  "note_app r app ids d = d\<lparr>models := map (\<lambda>(r', mc). (r', if r' = r then mc\<lparr>applications :=
     map (\<lambda>(a, da). (a, if a = app then da\<lparr>app_charms_added := ids\<rparr> else da)) (applications mc)\<rparr> else mc)) (models d)\<rparr>"

inductive domain_step :: "'e z3 \<Rightarrow> 'e Domain \<Rightarrow> 'e Domain \<Rightarrow> bool" for Z where
  step_add: "charm_wf c \<Longrightarrow> add_charm_to_domain Z c d mr = Inr (d', cid) \<Longrightarrow> domain_step Z d d'"
| step_pair: "pair_charms_in_domain Z d a b = Inr (d', t) \<Longrightarrow> domain_step Z d d'"
| step_note_charm: "cid < length (charms d) \<Longrightarrow> domain_step Z d (note_charm cid ids d)"
| step_note_app: "domain_step Z d (note_app r app ids d)"

lemma note_charm_nth:
  "cid < length (charms d) \<Longrightarrow> charms (note_charm cid ids d) ! k = (if k = cid then (charms d ! cid)\<lparr>charms_added := ids\<rparr> else charms d ! k)"
  by (simp add: note_charm_def nth_list_update)

lemma note_charm_fields [simp]:
  "length (charms (note_charm cid ids d)) = length (charms d)" "models (note_charm cid ids d) = models d"
  "charm_integrations (note_charm cid ids d) = charm_integrations d"
  by (simp_all add: note_charm_def)

lemma note_charm_grows: "cid < length (charms d) \<Longrightarrow> grows d (note_charm cid ids d) \<and> grows (note_charm cid ids d) d"
  by (auto simp: grows_def note_charm_nth platform_of_def serves_def requested_def)

lemma note_app_fields [simp]:
  "charms (note_app r app ids d) = charms d" "charm_integrations (note_app r app ids d) = charm_integrations d"
  by (simp_all add: note_app_def)

lemma note_app_models:
  "dict_get (models (note_app r app ids d)) r' = map_option (\<lambda>mc. if r' = r then mc\<lparr>applications :=
     map (\<lambda>(a, da). (a, if a = app then da\<lparr>app_charms_added := ids\<rparr> else da)) (applications mc)\<rparr> else mc) (dict_get (models d) r')"
  by (simp add: note_app_def map_of_map_snd)

lemma note_app_grows: "grows d (note_app r app ids d) \<and> grows (note_app r app ids d) d"
proof -
  have "platform_of (note_app r app ids d) = platform_of d"
    unfolding platform_of_def fun_eq_iff note_app_models option.map_comp by (auto intro!: map_option_cong)
  moreover have "serves (note_app r app ids d) = serves d"
    by (auto simp: serves_def fun_eq_iff note_app_models has_charm_def map_of_map_snd split: option.splits)
  moreover have "requested (note_app r app ids d) = requested d"
    by (auto simp: requested_def note_app_def model_request_def app_request_def)
  ultimately show ?thesis by (simp add: grows_def)
qed

lemma links_both:
  assumes "grows d d'" "grows d' d" "charm_integrations d' = charm_integrations d" "\<forall>i \<in> set (charm_integrations d). integration_ok Z d i"
    "links_complete d r ai"
  shows "links_complete d' r ai"
  unfolding links_complete_def assms(3)
proof (intro allI impI)
  fix idx
  let ?i = "charm_integrations d ! idx"
  assume idx: "idx < length (charm_integrations d)" "fits d' r ai ?i"
  then have "integration_ok Z d' ?i" using assms(4) by (intro integration_ok_grows [OF assms(1)]) simp
  then have "fits d r ai ?i" using fits_grows [OF assms(2) _ _ idx(2)] by (simp add: integration_ok_def)
  with idx(1) assms(5) show "dict_get (charm_integration_ids ai) idx \<noteq> None" unfolding links_complete_def by blast
qed

lemma added_self: "\<exists>ids. c = c\<lparr>charms_added := ids\<rparr>" "\<exists>ids. da = da\<lparr>app_charms_added := ids\<rparr>"
  by (rule exI [of _ "charms_added c"], simp) (rule exI [of _ "app_charms_added da"], simp)

lemma built_charm_added [simp]: "built_charm Z cid (c\<lparr>charms_added := ids\<rparr>) = built_charm Z cid c"
proof -
  have "c\<lparr>charms_added := ids\<rparr> = n\<lparr>charms_added := ids\<rparr> \<longleftrightarrow> c = n\<lparr>charms_added := charms_added c\<rparr>" for n :: "'a DomainCharm"
    by (cases c; cases n) simp
  then show ?thesis by (simp add: built_charm_def)
qed

text \<open>A change that keeps everything but the records of fetched charms keeps the invariant.\<close>

lemma notes_ok:
  assumes ok: "domain_ok Z d" and g: "grows d d'" "grows d' d" "charm_integrations d' = charm_integrations d"
    and c: "\<And>cid. cid < length (charms d) \<Longrightarrow> \<exists>ids. charms d' ! cid = (charms d ! cid)\<lparr>charms_added := ids\<rparr>"
    and m: "map fst (models d') = map fst (models d)"
      "\<And>r mc. (r, mc) \<in> set (models d') \<Longrightarrow> \<exists>mc0. (r, mc0) \<in> set (models d)
         \<and> application_integrations mc = application_integrations mc0 \<and> map fst (applications mc) = map fst (applications mc0)
         \<and> (\<forall>(a, da) \<in> set (applications mc). \<exists>ids. \<exists>da0. (a, da0) \<in> set (applications mc0) \<and> da = da0\<lparr>app_charms_added := ids\<rparr>)"
  shows "domain_ok Z d'"
proof -
  have pre0: "domain_pre Z d" and complete: "\<And>r mc ai. (r, mc) \<in> set (models d) \<Longrightarrow> ai \<in> set (application_integrations mc) \<Longrightarrow> links_complete d r ai"
    using ok by (auto simp: domain_ok_def)
  note pre = domain_preD [OF pre0]
  have len: "length (charms d') = length (charms d)" using growsD(1) [OF g(1)] growsD(1) [OF g(2)] by simp
  have ints: "\<forall>i \<in> set (charm_integrations d). integration_ok Z d i" using pre(5) by blast
  have app: "app_ok Z d' r a (da\<lparr>app_charms_added := ids\<rparr>)" if "app_ok Z d r a da" for r a da ids
    using that growsD(3,4) [OF g(1)] by (simp add: app_ok_def app_accepts_def len cong: if_cong conj_cong)
  have "domain_pre Z d'"
  proof (rule domain_preI)
    show "dict_ok (models d')" using pre(1) m(1) by (simp add: dict_ok_def)
    show "built_charm Z cid (charms d' ! cid) \<and> charm_model (charms d' ! cid) \<in> fst ` set (models d')" if "cid < length (charms d')" for cid
    proof -
      from that c obtain ids where e: "charms d' ! cid = (charms d ! cid)\<lparr>charms_added := ids\<rparr>" by (auto simp: len)
      have "fst ` set (models d') = fst ` set (models d)" using m(1) by (metis list.set_map)
      then show ?thesis using pre(3,4) [of cid] that unfolding e len by simp
    qed
    show "integration_ok Z d' i" if "i \<in> set (charm_integrations d')" for i
      using that pre(5) integration_ok_grows [OF g(1)] by (simp add: g(3))
    show "distinct (map int_key (charm_integrations d'))" using pre(2) by (simp add: g(3))
    fix r mc assume "(r, mc) \<in> set (models d')"
    from m(2) [OF this] obtain mc0 where mc0: "(r, mc0) \<in> set (models d)" "application_integrations mc = application_integrations mc0"
      "map fst (applications mc) = map fst (applications mc0)"
      "\<And>a da. (a, da) \<in> set (applications mc) \<Longrightarrow> \<exists>ids da0. (a, da0) \<in> set (applications mc0) \<and> da = da0\<lparr>app_charms_added := ids\<rparr>" by blast
    show "dict_ok (applications mc) \<and> (\<forall>(app, da) \<in> set (applications mc). app_ok Z d' r app da) \<and> (\<forall>ai \<in> set (application_integrations mc). links_sound Z d' r ai)"
    proof (intro conjI)
      show "dict_ok (applications mc)" using pre(6) [OF mc0(1)] mc0(3) by (simp add: dict_ok_def)
      show "\<forall>(app, da) \<in> set (applications mc). app_ok Z d' r app da" using mc0(4) app pre(7) [OF mc0(1)] by blast
      show "\<forall>ai \<in> set (application_integrations mc). links_sound Z d' r ai"
        unfolding mc0(2) using links_sound_grows [OF g(1) ints] pre(8) [OF mc0(1)] by blast
    qed
  qed
  moreover have "links_complete d' r ai" if "(r, mc) \<in> set (models d')" "ai \<in> set (application_integrations mc)" for r mc ai
  proof -
    from m(2) [OF that(1)] obtain mc0 where "(r, mc0) \<in> set (models d)" "application_integrations mc = application_integrations mc0" by blast
    with that(2) complete have "links_complete d r ai" by simp
    then show ?thesis by (rule links_both [OF g ints])
  qed
  ultimately show ?thesis unfolding domain_ok_def by blast
qed

lemma note_charm_ok:
  assumes "domain_ok Z d" "cid < length (charms d)"
  shows "domain_ok Z (note_charm cid ids d)"
proof (rule notes_ok [OF assms(1)])
  show "\<exists>ids'. charms (note_charm cid ids d) ! k = (charms d ! k)\<lparr>charms_added := ids'\<rparr>" for k
    using added_self(1) [of "charms d ! k"] by (auto simp: note_charm_nth [OF assms(2)])
  show "\<exists>mc0. (r, mc0) \<in> set (models d)
         \<and> application_integrations mc = application_integrations mc0 \<and> map fst (applications mc) = map fst (applications mc0)
         \<and> (\<forall>(a, da) \<in> set (applications mc). \<exists>ids. \<exists>da0. (a, da0) \<in> set (applications mc0) \<and> da = da0\<lparr>app_charms_added := ids\<rparr>)"
    if "(r, mc) \<in> set (models (note_charm cid ids d))" for r mc
    using that added_self(2) by (intro exI [of _ mc]) (simp, blast)
qed (use note_charm_grows [OF assms(2)] in auto)

lemma note_app_ok:
  assumes "domain_ok Z d"
  shows "domain_ok Z (note_app r app ids d)"
proof (rule notes_ok [OF assms])
  show "\<exists>ids'. charms (note_app r app ids d) ! cid = (charms d ! cid)\<lparr>charms_added := ids'\<rparr>" for cid
    by (rule exI [of _ "charms_added (charms d ! cid)"]) simp
  show "map fst (models (note_app r app ids d)) = map fst (models d)" by (auto simp: note_app_def)
  fix r' mc assume "(r', mc) \<in> set (models (note_app r app ids d))"
  then obtain mc0 where "(r', mc0) \<in> set (models d)" "mc = (if r' = r then mc0\<lparr>applications :=
     map (\<lambda>(a, da). (a, if a = app then da\<lparr>app_charms_added := ids\<rparr> else da)) (applications mc0)\<rparr> else mc0)" by (auto simp: note_app_def)
  then show "\<exists>mc0. (r', mc0) \<in> set (models d)
         \<and> application_integrations mc = application_integrations mc0 \<and> map fst (applications mc) = map fst (applications mc0)
         \<and> (\<forall>(a, da) \<in> set (applications mc). \<exists>ids. \<exists>da0. (a, da0) \<in> set (applications mc0) \<and> da = da0\<lparr>app_charms_added := ids\<rparr>)"
    using added_self(2) by (intro exI [of _ mc0]) (fastforce split: if_splits)
qed (use note_app_grows in auto)

lemma domain_step_ok:
  assumes "domain_step Z d d'" "domain_ok Z d"
  shows "domain_ok Z d' \<and> grows d d'"
  using assms
proof (cases rule: domain_step.cases)
  case (step_add c mr cid)
  then show ?thesis using add_charm_ok [OF assms(2)] add_charm_grows by blast
next
  case (step_pair a b t)
  then show ?thesis using pair_charms_ok [OF assms(2)] pair_charms_grows by blast
next
  case (step_note_charm cid ids)
  then show ?thesis using note_charm_ok [OF assms(2)] note_charm_grows by blast
next
  case (step_note_app r app ids)
  then show ?thesis using note_app_ok [OF assms(2)] note_app_grows by blast
qed

lemma domain_steps_ok:
  assumes "(domain_step Z)\<^sup>*\<^sup>* d d'" "domain_ok Z d"
  shows "domain_ok Z d' \<and> grows d d'"
  using assms(1)
proof (induction rule: rtranclp_induct)
  case base
  show ?case using assms(2) grows_refl by blast
next
  case (step y z)
  then show ?case using domain_step_ok [OF step.hyps(2)] grows_trans by blast
qed

end
