(* ===== verification/Bundle_Builder.thy ===== *)
theory Bundle_Builder
  imports Bundle_Errors Bundle_Constraints Bundle_Steps
begin

text \<open>
  The expansion of the domain after an unsatisfiable check (\<^verbatim>\<open>bundle_builder_x/bundle_builder.py\<close>):
  the tags of the unsatisfiable core are handled one by one, and a handler fetches a charm from
  the store, or pairs charms that are already there. The store client, the iteration order of
  sets and the text of a tag are parameters (a record of functions). A handler takes the
  domain and gives the changed one with the information whether it was expanded.
\<close>

section \<open>The store client\<close>

record Fetch =
  f_charm :: py_str
  f_arch :: py_str
  f_juju :: JujuVersion
  f_platform :: py_str
  f_track :: "py_str option"
  f_risk :: "py_str option"
  f_revision :: "int option"
  f_branch :: "py_str option"
  f_base :: "py_str option"

datatype store_error = ReleaseNotFound release_error | StoreError py_error

record charmhub =
  charm_from_store :: "Fetch \<Rightarrow> store_error + Charm"
  find_charms :: "EndpointType \<Rightarrow> py_str \<Rightarrow> py_str \<Rightarrow> py_error + py_str list"
  charm_priority :: "py_str \<Rightarrow> rat"
  set_order :: "nat list \<Rightarrow> nat list"
  tag_str :: "AssertionTag \<Rightarrow> py_str"

text \<open>A fetch in a \<open>try\<close> block that catches the release errors.\<close>

definition try_fetch :: "charmhub \<Rightarrow> Fetch \<Rightarrow> py_error + (release_error + Charm)" where
  "try_fetch H f =
     (case charm_from_store H f of
        Inr c \<Rightarrow> Inr (Inr c)
      | Inl (ReleaseNotFound e) \<Rightarrow> Inr (Inl e)
      | Inl (StoreError x) \<Rightarrow> Inl x)"

definition fetch_for :: "'e DomainModel \<Rightarrow> py_str \<Rightarrow> Fetch" where
  "fetch_for mc n = \<lparr>f_charm = n, f_arch = arch mc, f_juju = juju_version mc, f_platform = platform mc,
     f_track = None, f_risk = None, f_revision = None, f_branch = None, f_base = None\<rparr>"

text \<open>\<open>s or None\<close> on strings.\<close>

definition or_none :: "py_str \<Rightarrow> py_str option" where
  "or_none s = (if s = [] then None else Some s)"

section \<open>Lookups that may raise\<close>

definition charm_at :: "'e Domain \<Rightarrow> nat \<Rightarrow> py_error + 'e DomainCharm" where
  "charm_at d cid = (if cid < length (charms d) then Inr (charms d ! cid) else Inl IndexError)"

definition lookup :: "('k, 'v) dict \<Rightarrow> 'k \<Rightarrow> py_error + 'v" where
  "lookup m k = (case dict_get m k of None \<Rightarrow> Inl KeyError | Some v \<Rightarrow> Inr v)"

abbreviation model_at :: "'e Domain \<Rightarrow> ModelRef \<Rightarrow> py_error + 'e DomainModel" where
  "model_at d r \<equiv> lookup (models d) r"

abbreviation endpoint_at :: "'e DomainCharm \<Rightarrow> py_str \<Rightarrow> py_error + CharmEndpoint" where
  "endpoint_at c ep \<equiv> lookup (charm_endpoints (spec c)) ep"

section \<open>Queries\<close>

definition has_compatible_endpoint :: "CharmEndpoint \<Rightarrow> CharmEndpoint list \<Rightarrow> bool" where
  "has_compatible_endpoint e others \<longleftrightarrow>
     list_ex (\<lambda>o'. interface o' = interface e
       \<and> (ep_type e = REQUIRES \<and> ep_type o' = PROVIDES \<or> ep_type e = PROVIDES \<and> ep_type o' = REQUIRES)) others"

definition can_serve_multiple_required_endpoints :: "Charm \<Rightarrow> Charm \<Rightarrow> bool" where
  "can_serve_multiple_required_endpoints c counterpart \<longleftrightarrow>
     length (filter (\<lambda>(_, e). \<not> optional e \<and> has_compatible_endpoint e (map snd (charm_endpoints c))) (charm_endpoints counterpart)) > 1"

definition is_application_charm :: "nat \<Rightarrow> 'e Domain \<Rightarrow> bool" where
  "is_application_charm cid d \<longleftrightarrow>
     list_ex (\<lambda>(_, mc). list_ex (\<lambda>(_, da). dict_get (charm_ids da) cid \<noteq> None) (applications mc)) (models d)"

definition is_endpoint_connected_to :: "nat \<Rightarrow> py_str \<Rightarrow> nat \<Rightarrow> 'e Domain \<Rightarrow> bool" where
  "is_endpoint_connected_to cid ep other d \<longleftrightarrow>
     list_ex (\<lambda>i. (requires_charm_id i, requires_endpoint i, provides_charm_id i) = (cid, ep, other)
                \<or> (provides_charm_id i, provides_endpoint i, requires_charm_id i) = (cid, ep, other)) (charm_integrations d)"

definition application_charm_name :: "'e Domain \<Rightarrow> ModelRef \<Rightarrow> py_str \<Rightarrow> py_str" where
  "application_charm_name d r app =
     (case dict_get (models d) r of
        None \<Rightarrow> app
      | Some mc \<Rightarrow> (case dict_get (applications mc) app of None \<Rightarrow> app | Some da \<Rightarrow> app_charm da))"

section \<open>Adding a charm for another\<close>

text \<open>
  The walk from a charm to the charms it was fetched for: is the charm \<open>c\<close> in model \<open>r\<close> among
  them? The top of the stack is the head of the list.
\<close>

definition parents :: "'e Domain \<Rightarrow> nat \<Rightarrow> nat list" where
  "parents d a = filter (\<lambda>pid. a \<in> set (charms_added (charms d ! pid))) [0..<length (charms d)]"

function in_chain :: "'e Domain \<Rightarrow> Charm \<Rightarrow> ModelRef \<Rightarrow> nat list \<Rightarrow> nat set \<Rightarrow> bool" where
  "in_chain d c r [] visited = False"
| "in_chain d c r (a # stack) visited =
     (if a \<in> visited then in_chain d c r stack visited
      else if spec (charms d ! a) = c \<and> charm_model (charms d ! a) = r then True
      else in_chain d c r (rev (parents d a) @ stack) (insert a visited))"
  by pat_completeness auto
termination
proof (relation "measures [\<lambda>(d, c, r, stack, visited). card (({..<length (charms d)} \<union> set stack) - visited), \<lambda>(d, c, r, stack, visited). length stack]")
  fix d :: "'e Domain" and c r and a :: nat and stack visited
  let ?n = "length (charms d)"
  assume "a \<in> visited"
  then have "({..<?n} \<union> set (a # stack)) - visited = ({..<?n} \<union> set stack) - visited" by auto
  then show "((d, c, r, stack, visited), d, c, r, a # stack, visited) \<in> measures [\<lambda>(d, c, r, stack, visited). card (({..<length (charms d)} \<union> set stack) - visited), \<lambda>(d, c, r, stack, visited). length stack]"
    by simp
next
  fix d :: "'e Domain" and c r and a :: nat and stack visited
  let ?n = "length (charms d)"
  assume "a \<notin> visited"
  then have "({..<?n} \<union> set (rev (parents d a) @ stack)) - insert a visited \<subset> ({..<?n} \<union> set (a # stack)) - visited"
    by (auto simp: parents_def)
  then have "card (({..<?n} \<union> set (rev (parents d a) @ stack)) - insert a visited) < card (({..<?n} \<union> set (a # stack)) - visited)"
    by (intro psubset_card_mono) auto
  then show "((d, c, r, rev (parents d a) @ stack, insert a visited), d, c, r, a # stack, visited) \<in> measures [\<lambda>(d, c, r, stack, visited). card (({..<length (charms d)} \<union> set stack) - visited), \<lambda>(d, c, r, stack, visited). length stack]"
    by simp
qed simp

fun pair_each :: "'e z3 \<Rightarrow> nat \<Rightarrow> nat list \<Rightarrow> 'e Domain \<Rightarrow> py_error + 'e Domain" where
  "pair_each Z new [] d = Inr d"
| "pair_each Z new (other # rest) d = bind_result (pair_charms_in_domain Z d other new) (\<lambda>(d', _). pair_each Z new rest d')"

definition counterparts :: "'e Domain \<Rightarrow> nat \<Rightarrow> py_str option \<Rightarrow> nat list" where
  "counterparts d cid iface =
     remdups (map (\<lambda>i. if requires_charm_id i = cid then provides_charm_id i else requires_charm_id i)
       (filter (\<lambda>i. cid \<in> {requires_charm_id i, provides_charm_id i}
                  \<and> (case iface of None \<Rightarrow> True | Some f \<Rightarrow> integration_interface d i = f)) (charm_integrations d)))"

definition add_charm_for_charm_id :: "charmhub \<Rightarrow> 'e z3 \<Rightarrow> Charm \<Rightarrow> nat \<Rightarrow> 'e Domain \<Rightarrow> ModelRef \<Rightarrow>
    nat option \<Rightarrow> bool \<Rightarrow> py_str option \<Rightarrow> py_error + 'e Domain \<times> bool" where
  "add_charm_for_charm_id H Z c cid d r connect_to connect_to_neighbors iface =
     bind_result (charm_at d cid) (\<lambda>parent.
       if list_ex (\<lambda>a. spec (charms d ! a) = c \<and> charm_model (charms d ! a) = r) (charms_added parent) then Inr (d, False)
       else if in_chain d c r [cid] {} then Inr (d, False)
       else
         bind_result (add_charm_to_domain Z c d (Some r)) (\<lambda>(d1, new).
           let others = (if connect_to_neighbors
                         then set_order H (case connect_to of
                                             None \<Rightarrow> counterparts d1 cid iface
                                           | Some o' \<Rightarrow> List.insert o' (counterparts d1 cid iface))
                         else [case connect_to of None \<Rightarrow> cid | Some o' \<Rightarrow> o'])
           in bind_result (pair_each Z new others d1) (\<lambda>d2.
                Inr (note_charm cid (charms_added (charms d2 ! cid) @ [new]) d2, True))))"

section \<open>Expanding for an endpoint\<close>

fun connect_loop :: "'e z3 \<Rightarrow> nat \<Rightarrow> py_str \<Rightarrow> CharmEndpoint \<Rightarrow> ModelRef \<Rightarrow> nat list \<Rightarrow> 'e Domain \<Rightarrow> py_error + 'e Domain \<times> bool" where
  "connect_loop Z cid ep e r [] d = Inr (d, False)"
| "connect_loop Z cid ep e r (other # rest) d =
     (if other = cid \<or> charm_model (charms d ! other) \<noteq> r
         \<or> \<not> has_compatible_endpoint e (map snd (charm_endpoints (spec (charms d ! other))))
         \<or> is_endpoint_connected_to cid ep other d
      then connect_loop Z cid ep e r rest d
      else bind_result (pair_charms_in_domain Z d cid other) (\<lambda>(d', _).
             if is_endpoint_connected_to cid ep other d' then Inr (d', True)
             else connect_loop Z cid ep e r rest d'))"

definition connect_existing_for_endpoint :: "'e z3 \<Rightarrow> nat \<Rightarrow> py_str \<Rightarrow> 'e Domain \<Rightarrow> ModelRef \<Rightarrow> py_error + 'e Domain \<times> bool" where
  "connect_existing_for_endpoint Z cid ep d r =
     bind_result (charm_at d cid) (\<lambda>c. bind_result (endpoint_at c ep) (\<lambda>e.
       connect_loop Z cid ep e r [0..<length (charms d)] d))"

definition get_charms_for_endpoint :: "charmhub \<Rightarrow> nat \<Rightarrow> py_str \<Rightarrow> 'e Domain \<Rightarrow> ModelRef \<Rightarrow> py_error + py_str list" where
  "get_charms_for_endpoint H cid ep d r =
     bind_result (model_at d r) (\<lambda>mc. bind_result (charm_at d cid) (\<lambda>c. bind_result (endpoint_at c ep) (\<lambda>e.
       if scope e = Some CONTAINER \<and> platform mc \<noteq> ''machine'' then Inr []
       else bind_result
         (case ep_type e of
            REQUIRES \<Rightarrow> find_charms H PROVIDES (interface e) (platform mc)
          | PROVIDES \<Rightarrow> find_charms H REQUIRES (interface e) (platform mc)
          | PEERS \<Rightarrow> Inr [])
         (\<lambda>names. Inr (sort_key (\<lambda>n. (- charm_priority H n, n)) names)))))"

fun available_loop :: "charmhub \<Rightarrow> 'e z3 \<Rightarrow> nat \<Rightarrow> CharmEndpoint \<Rightarrow> 'e DomainModel \<Rightarrow> ModelRef \<Rightarrow> py_str option \<Rightarrow> bool \<Rightarrow>
    py_str list \<Rightarrow> bool \<Rightarrow> 'e Domain \<Rightarrow> py_error + 'e Domain \<times> bool" where
  "available_loop H Z cid e mc r base stop [] added d = Inr (d, added)"
| "available_loop H Z cid e mc r base stop (n # rest) added d =
     bind_result (try_fetch H ((fetch_for mc n)\<lparr>f_base := base\<rparr>)) (\<lambda>x.
       case x of
         Inl _ \<Rightarrow> available_loop H Z cid e mc r base stop rest added d
       | Inr c \<Rightarrow>
           if \<not> has_compatible_endpoint e (map snd (charm_endpoints c))
           then available_loop H Z cid e mc r base stop rest added d
           else bind_result (add_charm_for_charm_id H Z c cid d r None False None) (\<lambda>(d', ok).
                  if ok \<and> stop then Inr (d', True)
                  else available_loop H Z cid e mc r base stop rest (added \<or> ok) d'))"

definition add_available_charms :: "charmhub \<Rightarrow> 'e z3 \<Rightarrow> py_str list \<Rightarrow> nat \<Rightarrow> py_str \<Rightarrow> 'e Domain \<Rightarrow> ModelRef \<Rightarrow> bool \<Rightarrow>
    py_error + 'e Domain \<times> bool" where
  "add_available_charms H Z names cid ep d r stop =
     bind_result (model_at d r) (\<lambda>mc. bind_result (charm_at d cid) (\<lambda>c. bind_result (endpoint_at c ep) (\<lambda>e.
       available_loop H Z cid e mc r (if scope e = Some CONTAINER then Some (ubuntu_version (spec c)) else None) stop names False d)))"

fun expand_models :: "charmhub \<Rightarrow> 'e z3 \<Rightarrow> nat \<Rightarrow> py_str \<Rightarrow> ModelRef list \<Rightarrow> 'e Domain \<Rightarrow> py_error + 'e Domain \<times> bool" where
  "expand_models H Z cid ep [] d = Inr (d, False)"
| "expand_models H Z cid ep (r # rest) d =
     bind_result (connect_existing_for_endpoint Z cid ep d r) (\<lambda>(d1, ok).
       if ok then Inr (d1, True)
       else bind_result (get_charms_for_endpoint H cid ep d1 r) (\<lambda>names.
            bind_result (add_available_charms H Z names cid ep d1 r (\<not> is_application_charm cid d1)) (\<lambda>(d2, ok).
              if ok then Inr (d2, True) else expand_models H Z cid ep rest d2)))"

definition expand_for_endpoint :: "charmhub \<Rightarrow> 'e z3 \<Rightarrow> nat \<Rightarrow> py_str \<Rightarrow> 'e Domain \<Rightarrow> py_error + 'e Domain \<times> bool" where
  "expand_for_endpoint H Z cid ep d =
     bind_result (charm_at d cid) (\<lambda>c. bind_result (endpoint_at c ep) (\<lambda>e.
       let own = charm_model c in
       expand_models H Z cid ep
         (if scope e = Some CONTAINER then [own] else own # filter (\<lambda>m. m \<noteq> own) (map fst (models d))) d))"

section \<open>Expanding for an application\<close>

definition get_charm_for_application :: "charmhub \<Rightarrow> py_str \<Rightarrow> 'e Domain \<Rightarrow> ModelRef \<Rightarrow> py_error + (release_error + Charm)" where
  "get_charm_for_application H app d r =
     bind_result (model_at d r) (\<lambda>mc. bind_result (lookup (applications mc) app) (\<lambda>da.
       try_fetch H ((fetch_for mc (app_charm da))\<lparr>f_track := map_option track (app_channel da), f_risk := map_option risk (app_channel da),
         f_revision := app_revision da, f_base := app_base da, f_branch := map_option branch (app_channel da)\<rparr>)))"

definition add_charm_for_application :: "'e z3 \<Rightarrow> Charm \<Rightarrow> py_str \<Rightarrow> 'e Domain \<Rightarrow> ModelRef \<Rightarrow> py_error + 'e Domain \<times> bool" where
  "add_charm_for_application Z c app d r =
     bind_result (model_at d r) (\<lambda>mc. bind_result (lookup (applications mc) app) (\<lambda>da.
       if list_ex (\<lambda>a. spec (charms d ! a) = c) (app_charms_added da) then Inr (d, False)
       else bind_result (add_charm_to_domain Z c d (Some r)) (\<lambda>(d1, new).
              Inr (note_app r app (app_charms_added da @ [new]) d1, True))))"

fun connect_pairs :: "'e z3 \<Rightarrow> (nat \<times> nat) list \<Rightarrow> 'e Domain \<Rightarrow> py_error + 'e Domain \<times> bool" where
  "connect_pairs Z [] d = Inr (d, False)"
| "connect_pairs Z ((a, b) # rest) d =
     (if a = b then connect_pairs Z rest d
      else bind_result (pair_charms_in_domain Z d a b) (\<lambda>(d1, changed).
           bind_result (connect_pairs Z rest d1) (\<lambda>(d2, changed'). Inr (d2, changed \<or> changed'))))"

text \<open>The model an endpoint of a declared integration is in; \<open>r\<close> is the model of the declaration.\<close>

definition payload_model :: "ModelRef \<Rightarrow> AppEndpointPayload \<Rightarrow> ModelRef" where
  "payload_model r e = (if mr_name (aep_model e) \<noteq> None then aep_model e else r)"

definition connect_apps_for_integration :: "'e z3 \<Rightarrow> ModelRef \<Rightarrow> AppEndpointPayload list \<Rightarrow> 'e Domain \<Rightarrow> py_error + 'e Domain \<times> bool" where
  "connect_apps_for_integration Z r eps d =
     (case eps of
        [a, b] \<Rightarrow>
          let ra = payload_model r a; rb = payload_model r b in
          if dict_get (models d) ra = None \<or> dict_get (models d) rb = None then Inr (d, False)
          else bind_result (model_at d ra) (\<lambda>ma. bind_result (lookup (applications ma) (aep_application a)) (\<lambda>da.
               bind_result (model_at d rb) (\<lambda>mb. bind_result (lookup (applications mb) (aep_application b)) (\<lambda>db.
                 connect_pairs Z (List.product (map fst (charm_ids da)) (map fst (charm_ids db))) d))))
      | _ \<Rightarrow> Inr (d, False))"

section \<open>Variants of charms\<close>

definition fetch_and_add_charm_variant :: "charmhub \<Rightarrow> 'e z3 \<Rightarrow> nat \<Rightarrow> py_str \<Rightarrow> 'e Domain \<Rightarrow> ModelRef \<Rightarrow>
    py_str option \<Rightarrow> py_str option \<Rightarrow> int option \<Rightarrow> py_str option \<Rightarrow> nat \<Rightarrow> py_error + 'e Domain \<times> bool" where
  "fetch_and_add_charm_variant H Z cid name d r tr rk rv br connect_to =
     bind_result (model_at d r) (\<lambda>mc.
     bind_result (try_fetch H ((fetch_for mc name)\<lparr>f_track := tr, f_risk := rk, f_revision := rv, f_branch := br\<rparr>)) (\<lambda>x.
       case x of
         Inl _ \<Rightarrow> Inr (d, False)
       | Inr c \<Rightarrow> add_charm_for_charm_id H Z c cid d r (Some connect_to) True None))"

text \<open>Track, risk and branch a mismatch tag asks for.\<close>

definition required_release :: "py_str option \<Rightarrow> py_str option \<Rightarrow> py_str option \<Rightarrow> py_error + py_str option \<times> py_str option \<times> py_str option" where
  "required_release tr rk ch =
     (case ch of
        Some s \<Rightarrow> bind_result (channel_from_string s) (\<lambda>c. Inr (or_none (track c), or_none (risk c), or_none (branch c)))
      | None \<Rightarrow> Inr (Option.bind tr or_none, Option.bind rk or_none, None))"

definition handle_peer_channel_mismatch :: "charmhub \<Rightarrow> 'e z3 \<Rightarrow> CharmPayload \<Rightarrow> py_str \<Rightarrow> nat \<Rightarrow>
    py_str option \<Rightarrow> py_str option \<Rightarrow> py_str option \<Rightarrow> int option \<Rightarrow> 'e Domain \<Rightarrow> py_error + 'e Domain \<times> bool" where
  "handle_peer_channel_mismatch H Z owner peer_name peer_id tr rk ch rv d =
     bind_result (charm_at d (cp_charm_id owner)) (\<lambda>oc. bind_result (charm_at d peer_id) (\<lambda>pc.
     bind_result (required_release tr rk ch) (\<lambda>(t, k, b).
     bind_result (fetch_and_add_charm_variant H Z peer_id peer_name d (charm_model pc) t k rv b (cp_charm_id owner)) (\<lambda>(d1, ok).
       if ok then Inr (d1, True)
       else let pch = channel (spec pc) in
            fetch_and_add_charm_variant H Z (cp_charm_id owner) (cp_charm_name owner) d1 (charm_model oc)
              (Some (track pch)) (Some (risk pch)) None (or_none (branch pch)) peer_id))))"

definition fetch_base_variant :: "charmhub \<Rightarrow> 'e z3 \<Rightarrow> 'e DomainModel \<Rightarrow> ModelRef \<Rightarrow> py_str \<Rightarrow> nat \<Rightarrow> py_str \<Rightarrow> nat \<Rightarrow> py_str \<Rightarrow> 'e Domain \<Rightarrow> py_error + 'e Domain \<times> bool" where
  "fetch_base_variant H Z mc r name cid base connect_to iface d =
     bind_result (charm_at d cid) (\<lambda>dc. let ch = channel (spec dc) in
     bind_result (try_fetch H ((fetch_for mc name)\<lparr>f_track := or_none (track ch), f_risk := or_none (risk ch),
         f_branch := or_none (branch ch), f_base := Some base\<rparr>)) (\<lambda>x.
       case x of
         Inl _ \<Rightarrow> Inr (d, False)
       | Inr c \<Rightarrow> add_charm_for_charm_id H Z c cid d r (Some connect_to) True (Some iface)))"

definition handle_subordinate_base_mismatch :: "charmhub \<Rightarrow> 'e z3 \<Rightarrow> py_str \<Rightarrow> nat \<Rightarrow> py_str \<Rightarrow> py_str \<Rightarrow> nat \<Rightarrow> py_str \<Rightarrow> py_str \<Rightarrow>
    'e Domain \<Rightarrow> py_error + 'e Domain \<times> bool" where
  "handle_subordinate_base_mismatch H Z sub_name sub_id sub_ep prin_name prin_id sub_base prin_base d =
     bind_result (charm_at d sub_id) (\<lambda>sc. let r = charm_model sc in
     bind_result (model_at d r) (\<lambda>mc. bind_result (endpoint_at sc sub_ep) (\<lambda>e.
     bind_result (fetch_base_variant H Z mc r sub_name sub_id prin_base prin_id (interface e) d) (\<lambda>(d1, ok1).
     bind_result (fetch_base_variant H Z mc r prin_name prin_id sub_base sub_id (interface e) d1) (\<lambda>(d2, ok2).
       Inr (d2, ok1 \<or> ok2))))))"

section \<open>Handling an unsatisfiable core\<close>

text \<open>\<open>a or b\<close> on optional strings and on optional integers, where 0 counts as false.\<close>

definition or_str :: "py_str option \<Rightarrow> py_str option \<Rightarrow> py_str option" where
  "or_str a b = (case a of Some (x # xs) \<Rightarrow> a | _ \<Rightarrow> b)"

definition or_int :: "int option \<Rightarrow> int option \<Rightarrow> int option" where
  "or_int a b = (case a of Some i \<Rightarrow> if i \<noteq> 0 then a else b | None \<Rightarrow> b)"

fun merge_two :: "AssertionTag \<Rightarrow> AssertionTag \<Rightarrow> AssertionTag" where
  "merge_two (PeerChannelMismatchTag c e pn p t k ch v) (PeerChannelMismatchTag c' e' pn' p' t' k' ch' v') =
     PeerChannelMismatchTag c e pn p (or_str t t') (or_str k k') (or_str ch ch') (or_int v v')"
| "merge_two a b = a"

definition merge_step :: "AssertionTag \<Rightarrow> (nat \<times> py_str, nat) dict \<times> AssertionTag list \<Rightarrow> (nat \<times> py_str, nat) dict \<times> AssertionTag list" where
  "merge_step tag = (\<lambda>(seen, merged).
     case tag of
       PeerChannelMismatchTag c e pn p t k ch v \<Rightarrow>
         (case dict_get seen (cp_charm_id c, e) of
            Some i \<Rightarrow> (seen, merged[i := merge_two (merged ! i) tag])
          | None \<Rightarrow> (dict_set (cp_charm_id c, e) (length merged) seen, merged @ [tag]))
     | _ \<Rightarrow> (seen, merged @ [tag]))"

definition merge_mismatch_tags :: "AssertionTag list \<Rightarrow> AssertionTag list" where
  "merge_mismatch_tags tags = snd (fold merge_step tags ([], []))"

fun expansion_priority :: "AssertionTag \<Rightarrow> nat" where
  "expansion_priority (ApplicationExistsTag _ _) = 0"
| "expansion_priority (ApplicationIntegrationExistsTag _ _) = 1"
| "expansion_priority (CharmEndpointNonOptionalTag _ _) = 2"
| "expansion_priority (EndpointCountMatchesIntegrationsTag _ _) = 3"
| "expansion_priority (CrossModelEndpointCountMatchesIntegrationsTag _ _) = 3"
| "expansion_priority (PeerChannelMismatchTag _ _ _ _ _ _ _ _) = 4"
| "expansion_priority (SubordinateBaseMismatchTag _ _ _ _ _ _ _ _) = 5"
| "expansion_priority _ = 7"

definition application_release_diagnostic :: "py_str \<Rightarrow> ModelRef \<Rightarrow> 'e Domain \<Rightarrow> release_error \<Rightarrow> BundleDiagnostic" where
  "application_release_diagnostic app r d err = ApplicationReleaseDiagnostic app (application_charm_name d r app) (model_key r) err"

text \<open>The loop over the endpoints of a declared integration: new charms for its applications.\<close>

fun integration_charms :: "charmhub \<Rightarrow> 'e z3 \<Rightarrow> ModelRef \<Rightarrow> AppEndpointPayload list \<Rightarrow> 'e Domain \<Rightarrow>
    py_error + 'e Domain \<times> bool \<times> BundleDiagnostic list" where
  "integration_charms H Z r [] d = Inr (d, False, [])"
| "integration_charms H Z r (e # rest) d =
     (let re = payload_model r e in
      bind_result (get_charm_for_application H (aep_application e) d re) (\<lambda>x.
        case x of
          Inl err \<Rightarrow> bind_result (integration_charms H Z r rest d) (\<lambda>(d', ok, ds).
                       Inr (d', ok, application_release_diagnostic (aep_application e) re d err # ds))
        | Inr c \<Rightarrow> bind_result (add_charm_for_application Z c (aep_application e) d re) (\<lambda>(d1, ok1).
                     bind_result (integration_charms H Z r rest d1) (\<lambda>(d2, ok2, ds). Inr (d2, ok1 \<or> ok2, ds)))))"

definition without_diagnostics :: "py_error + 'e Domain \<times> bool \<Rightarrow> py_error + 'e Domain \<times> bool \<times> BundleDiagnostic list" where
  "without_diagnostics r = bind_result r (\<lambda>(d, ok). Inr (d, ok, []))"

definition handle_failed_assertion :: "charmhub \<Rightarrow> 'e z3 \<Rightarrow> AssertionTag \<Rightarrow> 'e Domain \<Rightarrow>
    py_error + 'e Domain \<times> bool \<times> BundleDiagnostic list" where
  "handle_failed_assertion H Z tag d =
     (case tag of
        CharmEndpointNonOptionalTag c _ \<Rightarrow> without_diagnostics (expand_for_endpoint H Z (cep_charm_id c) (cep_endpoint c) d)
      | ApplicationExistsTag r app \<Rightarrow>
          bind_result (get_charm_for_application H app d r) (\<lambda>x.
            case x of
              Inl err \<Rightarrow> Inr (d, False, [application_release_diagnostic app r d err])
            | Inr c \<Rightarrow> without_diagnostics (add_charm_for_application Z c app d r))
      | ApplicationIntegrationExistsTag r eps \<Rightarrow>
          bind_result (integration_charms H Z r eps d) (\<lambda>(d1, ok, ds).
            if ok then Inr (d1, True, ds)
            else if ds \<noteq> [] then Inr (d1, False, ds)
            else without_diagnostics (connect_apps_for_integration Z r eps d1))
      | EndpointCountMatchesIntegrationsTag c _ \<Rightarrow> without_diagnostics (expand_for_endpoint H Z (cep_charm_id c) (cep_endpoint c) d)
      | CrossModelEndpointCountMatchesIntegrationsTag c _ \<Rightarrow> without_diagnostics (expand_for_endpoint H Z (cep_charm_id c) (cep_endpoint c) d)
      | PeerChannelMismatchTag c e pn p t k ch v \<Rightarrow> without_diagnostics (handle_peer_channel_mismatch H Z c pn p t k ch v d)
      | SubordinateBaseMismatchTag sn s se pn p pe sb pb \<Rightarrow>
          without_diagnostics (handle_subordinate_base_mismatch H Z sn s se pn p sb pb d)
      | _ \<Rightarrow> Inr (d, False, []))"

text \<open>Translating the tags of a core that could not be expanded.\<close>

definition tag_diagnostics :: "'e Domain \<Rightarrow> (py_str \<times> py_str) set \<Rightarrow> AssertionTag \<Rightarrow> py_error + BundleDiagnostic list" where
  "tag_diagnostics d failed tag =
     (case tag of
        CharmEndpointNonOptionalTag c i \<Rightarrow>
          Inr [UnfulfilledEndpointDiagnostic \<lparr>de_charm_name = cep_charm_name c, de_endpoint = cep_endpoint c, de_application = None\<rparr> (Some i)]
      | IntegrationFeatureMismatchTag r p f \<Rightarrow>
          Inr [FeatureMismatchDiagnostic \<lparr>de_charm_name = cep_charm_name r, de_endpoint = cep_endpoint r, de_application = None\<rparr>
                 \<lparr>de_charm_name = cep_charm_name p, de_endpoint = cep_endpoint p, de_application = None\<rparr> f]
      | PeerChannelMismatchTag c e pn p t k ch v \<Rightarrow> Inr [PeerChannelMismatchDiagnostic (cp_charm_name c) e pn t k ch v]
      | SubordinateBaseMismatchTag sn s se pn p pe sb pb \<Rightarrow> Inr [SubordinateBaseMismatchDiagnostic sn se pn pe sb pb]
      | ApplicationExistsTag r app \<Rightarrow>
          Inr (if (model_key r, app) \<notin> failed then [UnresolvedApplicationDiagnostic app (application_charm_name d r app)] else [])
      | ApplicationIntegrationExistsTag r eps \<Rightarrow>
          if list_ex (\<lambda>e. (model_key (payload_model r e), aep_application e) \<in> failed) eps then Inr []
          else bind_result (unresolved_integration (sort_key (\<lambda>e. KTup (endpoint_identity e))
                 (map (\<lambda>e. \<lparr>de_charm_name = application_charm_name d (payload_model r e) (aep_application e),
                            de_endpoint = aep_endpoint e, de_application = Some (aep_application e)\<rparr>) eps))) (\<lambda>x. Inr [x])
      | _ \<Rightarrow> Inr [])"

definition unexpandable :: BundleDiagnostic where
  "unexpandable = BundleBuildFailureDiagnostic UNEXPANDABLE_ASSERTIONS ''Cannot expand the domain to handle failed assertion tags''"

definition collect_unsat_diagnostics :: "AssertionTag list \<Rightarrow> 'e Domain \<Rightarrow> BundleDiagnostic list \<Rightarrow> py_error + BundleDiagnostic list" where
  "collect_unsat_diagnostics tags d provisional =
     (let failed = set (List.map_filter (\<lambda>x. case x of ApplicationReleaseDiagnostic a c m e \<Rightarrow> Some (m, a) | _ \<Rightarrow> None) provisional)
      in bind_result (concat_results (tag_diagnostics d failed) tags) (\<lambda>ds.
           Inr (canonicalize_diagnostics (if provisional @ ds = [] then [unexpandable] else provisional @ ds))))"

datatype build_error = PyError py_error | UncompletableBundleError "BundleDiagnostic list"

definition uncompletable :: "BundleDiagnostic list \<Rightarrow> build_error" where
  "uncompletable ds =
     (let c = canonicalize_diagnostics ds in if c = [] then PyError ValueError else UncompletableBundleError c)"

fun handle_tags :: "charmhub \<Rightarrow> 'e z3 \<Rightarrow> AssertionTag list \<Rightarrow> 'e Domain \<Rightarrow> py_error + 'e Domain \<times> bool \<times> BundleDiagnostic list" where
  "handle_tags H Z [] d = Inr (d, False, [])"
| "handle_tags H Z (tag # rest) d =
     bind_result (handle_failed_assertion H Z tag d) (\<lambda>(d1, ok1, ds1).
     bind_result (handle_tags H Z rest d1) (\<lambda>(d2, ok2, ds2). Inr (d2, ok1 \<or> ok2, ds1 @ ds2)))"

definition handle_unsat_core :: "charmhub \<Rightarrow> 'e z3 \<Rightarrow> AssertionTag list \<Rightarrow> 'e Domain \<Rightarrow> build_error + 'e Domain" where
  "handle_unsat_core H Z core d =
     (let tags = sort_key (\<lambda>t. (expansion_priority t, tag_str H t)) (merge_mismatch_tags core) in
      case handle_tags H Z tags d of
        Inl x \<Rightarrow> Inl (PyError x)
      | Inr (d', expanded, ds) \<Rightarrow>
          if expanded then Inr d'
          else (case collect_unsat_diagnostics tags d' ds of
                  Inl x \<Rightarrow> Inl (PyError x)
                | Inr out \<Rightarrow> Inl (uncompletable out)))"

end
