(* ===== verification/Bundle_Solve.thy ===== *)
theory Bundle_Solve
  imports Bundle_Builder
begin

text \<open>
  The refinement loop and the optimization of the bundle builder
  (\<^verbatim>\<open>bundle_builder_x/bundle_builder.py\<close>). The solver is a parameter: its check of a list of
  assertions, its optimizer, and the floating-point division used for the costs. The loops are
  partial functions into \<open>option\<close>; \<open>None\<close> would be a loop that does not end.
\<close>

datatype check_result = Sat z3_model | Unsat "AssertionTag list" | Unknown

record 'e smt =
  smt_check :: "'e solver \<Rightarrow> check_result"
  smt_optimize :: "'e solver \<Rightarrow> 'e list \<Rightarrow> check_result"
  smt_div :: "rat \<Rightarrow> rat \<Rightarrow> rat"
  smt_timeout :: py_str

section \<open>Alternatives for the optimization\<close>

definition active_charm_ids :: "'e evaluation \<Rightarrow> 'e Domain \<Rightarrow> nat list" where
  "active_charm_ids E d = filter (\<lambda>cid. active E (charm_exists (charms d ! cid))) [0..<length (charms d)]"

fun upper_pairs :: "'a list \<Rightarrow> ('a \<times> 'a) list" where
  "upper_pairs [] = []"
| "upper_pairs (x # xs) = map (Pair x) xs @ upper_pairs xs"

definition replacement_ids :: "'e Domain \<Rightarrow> nat \<Rightarrow> nat list" where
  "replacement_ids d cid =
     filter (\<lambda>a. charm_model (charms d ! a) = charm_model (charms d ! cid) \<and> charm_name (spec (charms d ! a)) = charm_name (spec (charms d ! cid)))
       (charms_added (charms d ! cid))"

definition active_interfaces :: "'e evaluation \<Rightarrow> 'e Domain \<Rightarrow> nat \<Rightarrow> py_str set" where
  "active_interfaces E d cid =
     set (map (integration_interface d) (filter (\<lambda>i. active E (int_exists i) \<and> cid \<in> {requires_charm_id i, provides_charm_id i}) (charm_integrations d)))"

definition endpoint_interfaces :: "EndpointType \<Rightarrow> Charm \<Rightarrow> py_str set" where
  "endpoint_interfaces ty c = set (map (\<lambda>(_, e). interface e) (filter (\<lambda>(_, e). ep_type e = ty) (charm_endpoints c)))"

definition same_charm :: "'e Domain \<Rightarrow> nat \<Rightarrow> nat \<Rightarrow> bool" where
  "same_charm d a b \<longleftrightarrow> charm_model (charms d ! a) = charm_model (charms d ! b) \<and> spec (charms d ! a) = spec (charms d ! b)"

text \<open>Whether a second instance of the charm may give a cheaper solution.\<close>

definition wants_duplicate :: "'e Domain \<Rightarrow> nat list \<Rightarrow> (nat \<Rightarrow> py_str set) \<Rightarrow> nat \<Rightarrow> bool" where
  "wants_duplicate d act ifaces cid \<longleftrightarrow>
     (let c = spec (charms d ! cid) in
      ifaces cid \<inter> endpoint_interfaces REQUIRES c \<inter> endpoint_interfaces PROVIDES c \<noteq> {}
      \<or> list_ex (\<lambda>other. other \<in> set act \<and> other \<noteq> cid \<and> charm_model (charms d ! other) = charm_model (charms d ! cid)
                  \<and> can_serve_multiple_required_endpoints c (spec (charms d ! other))) [0..<length (charms d)])"

fun duplicate_loop :: "'e z3 \<Rightarrow> nat list \<Rightarrow> (nat \<Rightarrow> py_str set) \<Rightarrow> nat list \<Rightarrow> nat list \<Rightarrow> nat list \<Rightarrow> 'e Domain \<Rightarrow> py_error + 'e Domain" where
  "duplicate_loop Z act ifaces [] dups processed d = Inr d"
| "duplicate_loop Z act ifaces (cid # rest) dups processed d =
     (if list_ex (\<lambda>other. same_charm d other cid) processed then duplicate_loop Z act ifaces rest dups processed d
      else if \<not> wants_duplicate d act ifaces cid then duplicate_loop Z act ifaces rest dups (processed @ [cid]) d
      else
        let equivalent = filter (\<lambda>other. same_charm d other cid) [0..<length (charms d)];
            active_equivalent = filter (\<lambda>x. x \<in> set act) equivalent
        in bind_result (connect_pairs Z (filter (\<lambda>(a, b). b \<noteq> a) (List.product active_equivalent act)) d) (\<lambda>(d1, _).
           if length active_equivalent > 1 then duplicate_loop Z act ifaces rest dups (processed @ [cid]) d1
           else
             bind_result
               (case find (\<lambda>x. x \<notin> set act) equivalent of
                  Some x \<Rightarrow> Inr (d1, x)
                | None \<Rightarrow> add_charm_to_domain Z (spec (charms d ! cid)) d1 (Some (charm_model (charms d ! cid))))
               (\<lambda>(d2, dup).
                  bind_result (connect_pairs Z (map (Pair dup) (filter (\<lambda>other. other \<noteq> dup) (act @ dups))) d2) (\<lambda>(d3, _).
                    duplicate_loop Z act ifaces rest (dups @ [dup]) (processed @ [cid]) d3))))"

definition add_optimization_duplicates :: "'e z3 \<Rightarrow> 'e evaluation \<Rightarrow> 'e Domain \<Rightarrow> py_error + 'e Domain" where
  "add_optimization_duplicates Z E d =
     (let act = active_charm_ids E d in duplicate_loop Z act (active_interfaces E d) act [] [] d)"

definition prepare_optimization_domain :: "'e z3 \<Rightarrow> 'e evaluation \<Rightarrow> 'e Domain \<Rightarrow> py_error + 'e Domain" where
  "prepare_optimization_domain Z E d =
     (let act = active_charm_ids E d in
      bind_result (connect_pairs Z (upper_pairs act) d) (\<lambda>(d1, _).
      bind_result (connect_pairs Z (concat (map (\<lambda>cid. List.product (replacement_ids d1 cid) (filter (\<lambda>other. other \<noteq> cid) act)) act)) d1) (\<lambda>(d2, _).
        add_optimization_duplicates Z E d2)))"

section \<open>Costs\<close>

text \<open>\<open>int(x)\<close> rounds towards zero.\<close>

definition py_int :: "rat \<Rightarrow> int" where
  "py_int q = (if q < 0 then \<lceil>q\<rceil> else \<lfloor>q\<rfloor>)"

definition charm_cost :: "'e smt \<Rightarrow> 'e DomainCharm \<Rightarrow> int" where
  "charm_cost S c = py_int (smt_div S 1000000 (max (priority (spec c)) (1 / 1000000)))"

definition integration_cost :: "'e Domain \<Rightarrow> 'e DomainCharmIntegration \<Rightarrow> int" where
  "integration_cost d i = (if is_cross_model d i then 2 else 1)"

definition build_cost_exprs :: "'e smt \<Rightarrow> 'e z3 \<Rightarrow> 'e Domain \<Rightarrow> 'e \<times> 'e \<times> 'e" where
  "build_cost_exprs S Z d =
     (zSum Z (map (\<lambda>c. zIf Z (charm_exists c) (IntVal Z (charm_cost S c)) (IntVal Z 0)) (charms d) @ [IntVal Z 0]),
      zSum Z (map (\<lambda>i. zIf Z (int_exists i) (IntVal Z (integration_cost d i)) (IntVal Z 0)) (charm_integrations d) @ [IntVal Z 0]),
      zSum Z (map (\<lambda>c. zIf Z (charm_exists c) (num_units c) (IntVal Z 0)) (charms d) @ [IntVal Z 0]))"

definition eval_charm_cost :: "'e smt \<Rightarrow> 'e evaluation \<Rightarrow> 'e Domain \<Rightarrow> int" where
  "eval_charm_cost S E d = sum_list (map (charm_cost S) (filter (\<lambda>c. active E (charm_exists c)) (charms d)))"

definition eval_integration_cost :: "'e evaluation \<Rightarrow> 'e Domain \<Rightarrow> int" where
  "eval_integration_cost E d = sum_list (map (integration_cost d) (filter (\<lambda>i. active E (int_exists i)) (charm_integrations d)))"

definition eval_units_cost :: "'e evaluation \<Rightarrow> 'e Domain \<Rightarrow> int" where
  "eval_units_cost E d = sum_list (map (\<lambda>c. as_int (E (num_units c))) (filter (\<lambda>c. active E (charm_exists c)) (charms d)))"

section \<open>Descent\<close>

text \<open>One phase: ask for a model with a smaller cost until there is none.\<close>

partial_function (option) descend :: "('e solver \<Rightarrow> check_result) \<Rightarrow> 'e z3 \<Rightarrow> (z3_model \<Rightarrow> int) \<Rightarrow> 'e \<Rightarrow> 'e solver \<Rightarrow> z3_model \<Rightarrow> z3_model option" where
  "descend chk Z cost expr s m =
     (case chk (s @ [(None, zLt Z expr (IntVal Z (cost m)))]) of
        Sat m' \<Rightarrow> descend chk Z cost expr s m'
      | _ \<Rightarrow> Some m)"

definition build_failure :: "BundleBuildFailureKind \<Rightarrow> py_str \<Rightarrow> build_error" where
  "build_failure k detail = uncompletable [BundleBuildFailureDiagnostic k detail]"

definition descent_seed :: "'e smt \<Rightarrow> 'e solver \<Rightarrow> z3_model option \<Rightarrow> build_error + z3_model" where
  "descent_seed S s initial =
     (case initial of
        Some m \<Rightarrow> Inr m
      | None \<Rightarrow>
          (case smt_check S s of
             Unsat _ \<Rightarrow> Inl (build_failure OPTIMIZATION_UNSATISFIABLE ''Optimization failed because the problem became unsatisfiable'')
           | Unknown \<Rightarrow> Inl (build_failure OPTIMIZATION_TIMEOUT ''Optimization failed because the initial solve timed out'')
           | Sat m \<Rightarrow> Inr m))"

definition descent_phases :: "'e smt \<Rightarrow> 'e z3 \<Rightarrow> (z3_model \<Rightarrow> 'e evaluation) \<Rightarrow> 'e Domain \<Rightarrow> 'e solver \<Rightarrow> z3_model \<Rightarrow> z3_model option" where
  "descent_phases S Z ev d s m =
     (let (charm_expr, integration_expr, units_expr) = build_cost_exprs S Z d in
      Option.bind (descend (smt_check S) Z (\<lambda>m. eval_charm_cost S (ev m) d) charm_expr s m) (\<lambda>m1.
      let s1 = s @ [(None, zEq Z charm_expr (IntVal Z (eval_charm_cost S (ev m1) d)))] in
      Option.bind (descend (smt_check S) Z (\<lambda>m. eval_integration_cost (ev m) d) integration_expr s1 m1) (\<lambda>m2.
      let s2 = s1 @ [(None, zEq Z integration_expr (IntVal Z (eval_integration_cost (ev m2) d)))] in
      descend (smt_check S) Z (\<lambda>m. eval_units_cost (ev m) d) units_expr s2 m2)))"

definition iterative_descent :: "'e smt \<Rightarrow> 'e z3 \<Rightarrow> (z3_model \<Rightarrow> 'e evaluation) \<Rightarrow> 'e Domain \<Rightarrow> z3_model option \<Rightarrow> 'e list \<Rightarrow>
    (build_error + z3_model) option" where
  "iterative_descent S Z ev d initial extra =
     (case add_constraints Z d [] of
        Inl x \<Rightarrow> Some (Inl (PyError x))
      | Inr s0 \<Rightarrow>
          let s = s0 @ map (Pair None) extra in
          (case descent_seed S s initial of
             Inl e \<Rightarrow> Some (Inl e)
           | Inr m \<Rightarrow> map_option Inr (descent_phases S Z ev d s m)))"

definition try_z3_optimize :: "'e smt \<Rightarrow> 'e z3 \<Rightarrow> 'e Domain \<Rightarrow> 'e list \<Rightarrow> build_error + z3_model option" where
  "try_z3_optimize S Z d extra =
     (case add_constraints Z d [] of
        Inl x \<Rightarrow> Inl (PyError x)
      | Inr s \<Rightarrow>
          (case build_cost_exprs S Z d of (a, b, c) \<Rightarrow>
             (case smt_optimize S (s @ map (Pair None) extra) [a, b, c] of
                Sat m \<Rightarrow> Inr (Some m)
              | Unsat _ \<Rightarrow> Inl (build_failure OPTIMIZATION_UNSATISFIABLE ''Optimization failed because the problem became unsatisfiable'')
              | Unknown \<Rightarrow> Inr None)))"

definition optimize_solution :: "'e smt \<Rightarrow> 'e z3 \<Rightarrow> (z3_model \<Rightarrow> 'e evaluation) \<Rightarrow> 'e Domain \<Rightarrow> z3_model option \<Rightarrow> 'e list \<Rightarrow>
    (build_error + z3_model) option" where
  "optimize_solution S Z ev d initial extra =
     (case try_z3_optimize S Z d extra of
        Inl e \<Rightarrow> Some (Inl e)
      | Inr (Some m) \<Rightarrow> Some (Inr m)
      | Inr None \<Rightarrow> iterative_descent S Z ev d initial extra)"

section \<open>The loop\<close>

definition timeout_failure :: "'e smt \<Rightarrow> nat \<Rightarrow> build_error" where
  "timeout_failure S iteration = build_failure SOLVER_TIMEOUT
     (''Solver timed out after '' @ smt_timeout S @ '' at iteration '' @ nat_str iteration @ ''; the domain may be too large to solve'')"

definition finish :: "'e smt \<Rightarrow> 'e z3 \<Rightarrow> (z3_model \<Rightarrow> 'e evaluation) \<Rightarrow> 'e Domain \<Rightarrow> z3_model \<Rightarrow> (build_error + 'e Domain \<times> z3_model) option" where
  "finish S Z ev d m =
     (case prepare_optimization_domain Z (ev m) d of
        Inl x \<Rightarrow> Some (Inl (PyError x))
      | Inr d' \<Rightarrow> map_option (\<lambda>r. bind_result r (\<lambda>m'. Inr (d', m'))) (optimize_solution S Z ev d' (Some m) []))"

partial_function (option) solve_loop :: "charmhub \<Rightarrow> 'e smt \<Rightarrow> 'e z3 \<Rightarrow> (z3_model \<Rightarrow> 'e evaluation) \<Rightarrow> nat \<Rightarrow> 'e Domain \<Rightarrow>
    (build_error + 'e Domain \<times> z3_model) option" where
  "solve_loop H S Z ev iteration d =
     (case add_constraints Z d [] of
        Inl x \<Rightarrow> Some (Inl (PyError x))
      | Inr s \<Rightarrow>
          (case smt_check S s of
             Sat m \<Rightarrow> finish S Z ev d m
           | Unsat core \<Rightarrow>
               if core = [] then Some (Inl (build_failure EMPTY_UNSAT_CORE ''Solver returned unsat but the unsat core was empty''))
               else (case handle_unsat_core H Z core d of
                       Inl e \<Rightarrow> Some (Inl e)
                     | Inr d' \<Rightarrow> solve_loop H S Z ev (iteration + 1) d')
           | Unknown \<Rightarrow> Some (Inl (timeout_failure S iteration))))"

definition solve :: "charmhub \<Rightarrow> 'e smt \<Rightarrow> 'e z3 \<Rightarrow> (z3_model \<Rightarrow> 'e evaluation) \<Rightarrow> 'e Domain \<Rightarrow> (build_error + 'e Domain \<times> z3_model) option" where
  "solve H S Z ev d = solve_loop H S Z ev 1 d"

end
