(* ===== verification/Bundle_Spec.thy ===== *)
theory Bundle_Spec
  imports Bundle_Domain
begin

text \<open>
  Specification files of the bundle builder and how they become a solver domain
  (\<^verbatim>\<open>bundle_builder_x/spec.py\<close>, \<^verbatim>\<open>domain_builder.py\<close> and the lookup of \<^verbatim>\<open>snapstore.py\<close>). Decoding a
  file into these records is done by libraries. A specification that violates a rule is
  rejected with an error that carries what its message names. The answer of the snap store
  is a parameter.
\<close>

section \<open>Specifications\<close>

record AppSpec =
  as_charm :: py_str
  as_channel :: "py_str option"
  as_revision :: "int option"
  as_base :: "py_str option"

record IntegrationSpec =
  is_application :: py_str
  is_endpoint_name :: py_str
  is_remote_application :: py_str
  is_remote_endpoint :: py_str
  is_remote_model :: "py_str option"
  is_remote_controller :: "py_str option"
  is_offer_name :: "py_str option"
  is_url :: "py_str option"

record ModelSpec =
  ms_name :: "py_str option"
  ms_arch :: py_str
  ms_platform :: py_str
  ms_juju :: py_str
  ms_controller :: "py_str option"
  ms_admin :: py_str
  ms_applications :: "(py_str, AppSpec) dict"
  ms_integrations :: "IntegrationSpec list"

type_synonym app_endpoint = "py_str \<times> py_str"

datatype spec_error =
  RemoteControllerWithoutModel | EmptyRemoteModel
| NoModels | NamelessModel nat | DuplicateModelName "py_str option" py_str | NoApplications py_str
| UnknownLocalApplication py_str py_str | SelfIntegration py_str app_endpoint
| DuplicateLocalIntegration py_str app_endpoint app_endpoint
| RemoteIsCurrentModel py_str | DuplicateCrossModelIntegration py_str app_endpoint py_str app_endpoint
| UnknownRemoteApplication py_str py_str py_str | RemoteWithoutController py_str py_str
| ExternalWithoutUrl py_str py_str | UrlWithoutOfferName py_str py_str
| OfferNameNotInUrl py_str py_str py_str
| UrlWithTwoOffers py_str py_str py_str py_str | OfferWithTwoUrls py_str py_str py_str py_str

definition offer_name_from_url :: "py_str \<Rightarrow> py_str" where
  "offer_name_from_url u = last (split_on (CHR ''.'') u)"

definition validate_remote_model_fields :: "IntegrationSpec \<Rightarrow> spec_error + unit" where
  "validate_remote_model_fields i =
     (if is_remote_controller i \<noteq> None \<and> is_remote_model i = None then Inl RemoteControllerWithoutModel
      else if is_remote_model i = Some [] then Inl EmptyRemoteModel
      else Inr ())"

definition is_cross_model_spec :: "IntegrationSpec \<Rightarrow> bool" where
  "is_cross_model_spec i \<longleftrightarrow> is_remote_model i \<noteq> None"

definition remote_model_key :: "IntegrationSpec \<Rightarrow> py_str option" where
  "remote_model_key i =
     (case is_remote_model i of
        None \<Rightarrow> None
      | Some m \<Rightarrow> (case is_remote_controller i of Some c \<Rightarrow> Some (c @ ''/'' @ m) | None \<Rightarrow> Some m))"

definition resolved_offer_name :: "IntegrationSpec \<Rightarrow> py_str" where
  "resolved_offer_name i = (case is_offer_name i of Some n \<Rightarrow> n | None \<Rightarrow> is_remote_application i @ ''-offer'')"

text \<open>The key is \<open>None\<close> only for a model without name and controller, which validation rejects.\<close>

definition spec_key :: "ModelSpec \<Rightarrow> py_str option" where
  "spec_key m =
     (case ms_controller m of
        Some c \<Rightarrow> Some (c @ ''/'' @ (case ms_name m of None \<Rightarrow> ''None'' | Some n \<Rightarrow> n))
      | None \<Rightarrow> ms_name m)"

text \<open>A plain name is an alias if only one model has it.\<close>

definition has_name :: "ModelSpec \<Rightarrow> bool" where
  "has_name m \<longleftrightarrow> ms_name m \<noteq> None \<and> ms_name m \<noteq> Some []"

definition name_counts :: "ModelSpec list \<Rightarrow> (py_str option, nat) dict" where
  "name_counts ms = fold (\<lambda>m c. if has_name m then dict_set (ms_name m) (dict_get_default c (ms_name m) 0 + 1) c else c) ms []"

definition add_model :: "(py_str option, nat) dict \<Rightarrow> ModelSpec \<Rightarrow> (py_str option, ModelSpec) dict \<Rightarrow> (py_str option, ModelSpec) dict" where
  "add_model counts m res =
     (let res1 = dict_set (spec_key m) m res in
      if has_name m \<and> dict_get counts (ms_name m) = Some 1 \<and> spec_key m \<noteq> ms_name m then dict_set (ms_name m) m res1 else res1)"

definition models_by_name :: "ModelSpec list \<Rightarrow> (py_str option, ModelSpec) dict" where
  "models_by_name ms = fold (add_model (name_counts ms)) ms []"

section \<open>Validation\<close>

fun check_models :: "nat \<Rightarrow> py_str option list \<Rightarrow> ModelSpec list \<Rightarrow> spec_error + unit" where
  "check_models i seen [] = Inr ()"
| "check_models i seen (m # ms) =
     (case ms_name m of
        None \<Rightarrow> Inl (NamelessModel i)
      | Some n \<Rightarrow>
          if spec_key m \<in> set seen then Inl (DuplicateModelName (ms_controller m) n)
          else if ms_applications m = [] then Inl (NoApplications n)
          else check_models (i + 1) (spec_key m # seen) ms)"

record seen_integrations =
  seen_local :: "(app_endpoint \<times> app_endpoint) list"
  seen_cmrs :: "(app_endpoint \<times> py_str \<times> app_endpoint) list"
  seen_cmr_urls :: "(py_str, py_str) dict"
  seen_cmr_offer_names :: "(py_str, py_str) dict"

text \<open>A value seen before that is not the given one.\<close>

definition conflicting :: "'v option \<Rightarrow> 'v \<Rightarrow> bool" where
  "conflicting prior v \<longleftrightarrow> prior \<noteq> None \<and> prior \<noteq> Some v"

definition check_cmr_offer_consistency :: "py_str \<Rightarrow> py_str \<Rightarrow> py_str \<Rightarrow> seen_integrations \<Rightarrow> spec_error + seen_integrations" where
  "check_cmr_offer_consistency model u offer seen =
     (let prior_offer_name = dict_get (seen_cmr_urls seen) u; prior_url = dict_get (seen_cmr_offer_names seen) offer in
      if conflicting prior_offer_name offer then Inl (UrlWithTwoOffers model u (the prior_offer_name) offer)
      else if conflicting prior_url u then Inl (OfferWithTwoUrls model offer (the prior_url) u)
      else Inr (seen\<lparr>seen_cmr_urls := dict_set u offer (seen_cmr_urls seen), seen_cmr_offer_names := dict_set offer u (seen_cmr_offer_names seen)\<rparr>))"

definition validate_in_spec_cmr :: "py_str \<Rightarrow> py_str \<Rightarrow> ModelSpec \<Rightarrow> IntegrationSpec \<Rightarrow> seen_integrations \<Rightarrow> spec_error + seen_integrations" where
  "validate_in_spec_cmr model remote_key remote i seen =
     (if dict_get (ms_applications remote) (is_remote_application i) = None
      then Inl (UnknownRemoteApplication model remote_key (is_remote_application i))
      else
        (case is_url i of
           None \<Rightarrow> if ms_controller remote = None then Inl (RemoteWithoutController model remote_key) else Inr seen
         | Some u \<Rightarrow>
             (case is_offer_name i of
                None \<Rightarrow> Inl (UrlWithoutOfferName model remote_key)
              | Some offer \<Rightarrow>
                  if offer_name_from_url u \<noteq> offer then Inl (OfferNameNotInUrl model remote_key offer)
                  else check_cmr_offer_consistency model u offer seen)))"

text \<open>\<open>offer_name or default\<close>: here the empty name counts as omitted.\<close>

definition external_offer_name :: "IntegrationSpec \<Rightarrow> py_str" where
  "external_offer_name i =
     (if is_offer_name i = None \<or> is_offer_name i = Some [] then is_remote_application i @ ''-offer'' else the (is_offer_name i))"

definition check_local :: "py_str \<Rightarrow> ModelSpec \<Rightarrow> IntegrationSpec \<Rightarrow> seen_integrations \<Rightarrow> spec_error + seen_integrations" where
  "check_local model m i seen =
     (let ep_a = (is_application i, is_endpoint_name i); ep_b = (is_remote_application i, is_remote_endpoint i);
          local_key = (min ep_a ep_b, max ep_a ep_b) in
      if dict_get (ms_applications m) (is_application i) = None then Inl (UnknownLocalApplication model (is_application i))
      else if dict_get (ms_applications m) (is_remote_application i) = None then Inl (UnknownLocalApplication model (is_remote_application i))
      else if ep_a = ep_b then Inl (SelfIntegration model ep_a)
      else if local_key \<in> set (seen_local seen) then Inl (DuplicateLocalIntegration model ep_a ep_b)
      else Inr (seen\<lparr>seen_local := local_key # seen_local seen\<rparr>))"

definition check_cross_model :: "(py_str option, ModelSpec) dict \<Rightarrow> py_str \<Rightarrow> ModelSpec \<Rightarrow> py_str \<Rightarrow> IntegrationSpec \<Rightarrow> seen_integrations \<Rightarrow>
    spec_error + seen_integrations" where
  "check_cross_model all_models model m remote_key i seen =
     (let resolved_key = (case dict_get all_models (Some remote_key) of Some r \<Rightarrow> spec_key r | None \<Rightarrow> Some remote_key);
          cmr_key = ((is_application i, is_endpoint_name i), remote_key, (is_remote_application i, is_remote_endpoint i)) in
      if resolved_key = Some model \<or> remote_key = model then Inl (RemoteIsCurrentModel model)
      else if cmr_key \<in> set (seen_cmrs seen)
      then Inl (DuplicateCrossModelIntegration model (is_application i, is_endpoint_name i) remote_key (is_remote_application i, is_remote_endpoint i))
      else
        let seen1 = seen\<lparr>seen_cmrs := cmr_key # seen_cmrs seen\<rparr> in
        if dict_get (ms_applications m) (is_application i) = None then Inl (UnknownLocalApplication model (is_application i))
        else
          (case dict_get all_models (Some remote_key) of
             Some remote \<Rightarrow> validate_in_spec_cmr model remote_key remote i seen1
           | None \<Rightarrow>
               (case is_url i of
                  None \<Rightarrow> Inl (ExternalWithoutUrl model remote_key)
                | Some u \<Rightarrow> check_cmr_offer_consistency model u (external_offer_name i) seen1)))"

definition check_integration :: "(py_str option, ModelSpec) dict \<Rightarrow> ModelSpec \<Rightarrow> IntegrationSpec \<Rightarrow> seen_integrations \<Rightarrow> spec_error + seen_integrations" where
  "check_integration all_models m i seen =
     (case remote_model_key i of
        None \<Rightarrow> check_local (the (spec_key m)) m i seen
      | Some remote_key \<Rightarrow> check_cross_model all_models (the (spec_key m)) m remote_key i seen)"

fun check_integrations :: "(py_str option, ModelSpec) dict \<Rightarrow> ModelSpec \<Rightarrow> IntegrationSpec list \<Rightarrow> seen_integrations \<Rightarrow> spec_error + seen_integrations" where
  "check_integrations all_models m [] seen = Inr seen"
| "check_integrations all_models m (i # is) seen =
     bind_result (check_integration all_models m i seen) (check_integrations all_models m is)"

definition nothing_seen :: seen_integrations where
  "nothing_seen = \<lparr>seen_local = [], seen_cmrs = [], seen_cmr_urls = [], seen_cmr_offer_names = []\<rparr>"

fun check_each_model :: "(py_str option, ModelSpec) dict \<Rightarrow> ModelSpec list \<Rightarrow> spec_error + unit" where
  "check_each_model all_models [] = Inr ()"
| "check_each_model all_models (m # ms) =
     bind_result (check_integrations all_models m (ms_integrations m) nothing_seen) (\<lambda>_. check_each_model all_models ms)"

definition validate_models :: "ModelSpec list \<Rightarrow> spec_error + unit" where
  "validate_models ms =
     (if ms = [] then Inl NoModels
      else bind_result (check_models 0 [] ms) (\<lambda>_. check_each_model (models_by_name ms) ms))"

text \<open>The fields of every integration are validated before the file as a whole.\<close>

fun validate_fields :: "IntegrationSpec list \<Rightarrow> spec_error + unit" where
  "validate_fields [] = Inr ()"
| "validate_fields (i # is) = bind_result (validate_remote_model_fields i) (\<lambda>_. validate_fields is)"

definition SpecFile :: "ModelSpec list \<Rightarrow> spec_error + ModelSpec list" where
  "SpecFile ms =
     bind_result (validate_fields (concat (map ms_integrations ms))) (\<lambda>_.
     bind_result (validate_models ms) (\<lambda>_. Inr ms))"

section \<open>The domain of a specification\<close>

definition classify_integration :: "(py_str option, ModelSpec) dict \<Rightarrow> IntegrationSpec \<Rightarrow> 'e DomainApplicationIntegration" where
  "classify_integration all_models i =
     (case is_remote_model i of
        None \<Rightarrow>
          (let eps = sort_key (\<lambda>e. (fst e, snd e)) [(is_application i, is_endpoint_name i), (is_remote_application i, is_remote_endpoint i)];
               ep = (\<lambda>e. \<lparr>dae_application = fst e, dae_endpoint = snd e, dae_model = this_model\<rparr>) in
           \<lparr>endpoint_1 = ep (eps ! 0), endpoint_2 = ep (eps ! 1), offer_name = None, url = None, charm_integration_ids = []\<rparr>)
      | Some remote_name \<Rightarrow>
          (let remote_model = \<lparr>mr_name = Some remote_name, mr_controller = is_remote_controller i\<rparr>;
               remote_ref = (case dict_get all_models (Some (model_key remote_model)) of
                               Some rs \<Rightarrow> if ms_name rs \<noteq> None then \<lparr>mr_name = ms_name rs, mr_controller = ms_controller rs\<rparr> else remote_model
                             | None \<Rightarrow> remote_model);
               eps = sort_key (\<lambda>e. (model_key (dae_model e), dae_application e, dae_endpoint e))
                       [\<lparr>dae_application = is_application i, dae_endpoint = is_endpoint_name i, dae_model = this_model\<rparr>,
                        \<lparr>dae_application = is_remote_application i, dae_endpoint = is_remote_endpoint i, dae_model = remote_ref\<rparr>] in
           \<lparr>endpoint_1 = eps ! 0, endpoint_2 = eps ! 1, offer_name = is_offer_name i, url = is_url i, charm_integration_ids = []\<rparr>))"

definition classify_integrations :: "ModelSpec \<Rightarrow> (py_str option, ModelSpec) dict \<Rightarrow> 'e DomainApplicationIntegration list" where
  "classify_integrations m all_models = map (classify_integration all_models) (ms_integrations m)"

text \<open>The channel of an application is parsed when the domain is built.\<close>

definition application_from_spec :: "AppSpec \<Rightarrow> py_error + 'e DomainApplication" where
  "application_from_spec a =
     bind_result (case as_channel a of None \<Rightarrow> Inr None | Some c \<Rightarrow> bind_result (channel_from_string c) (\<lambda>ch. Inr (Some ch))) (\<lambda>ch.
       Inr \<lparr>app_charm = as_charm a, app_channel = ch, app_revision = as_revision a, app_base = as_base a, charm_ids = [], app_charms_added = []\<rparr>)"

fun applications_from_spec :: "(py_str, AppSpec) dict \<Rightarrow> py_error + (py_str, 'e DomainApplication) dict" where
  "applications_from_spec [] = Inr []"
| "applications_from_spec ((name, a) # apps) =
     bind_result (application_from_spec a) (\<lambda>da. bind_result (applications_from_spec apps) (\<lambda>rest. Inr ((name, da) # rest)))"

datatype domain_error = SpecPyError py_error | SnapVersionNotFound py_str py_str | SnapStoreFailure

definition lift_error :: "('a \<Rightarrow> 'b) \<Rightarrow> 'a + 'c \<Rightarrow> 'b + 'c" where
  "lift_error f r = (case r of Inl e \<Rightarrow> Inl (f e) | Inr x \<Rightarrow> Inr x)"

text \<open>The channels of a snap with the version released in each; the parameter is the store's answer.\<close>

definition resolve_snap_version :: "(py_str \<Rightarrow> domain_error + (py_str \<times> py_str) list) \<Rightarrow> py_str \<Rightarrow> py_str \<Rightarrow> domain_error + py_str" where
  "resolve_snap_version snap_info snap ch =
     bind_result (snap_info snap) (\<lambda>channel_map.
       case find (\<lambda>entry. fst entry = ch) channel_map of
         Some entry \<Rightarrow> Inr (snd entry)
       | None \<Rightarrow> Inl (SnapVersionNotFound snap ch))"

definition resolve_juju_version :: "(py_str \<Rightarrow> domain_error + (py_str \<times> py_str) list) \<Rightarrow> py_str \<Rightarrow> domain_error + JujuVersion" where
  "resolve_juju_version snap_info juju =
     bind_result (if CHR ''/'' \<in> set juju then resolve_snap_version snap_info ''juju'' juju else Inr juju) (\<lambda>v.
       lift_error (\<lambda>_. SpecPyError ValueError) (version_parse v))"

definition spec_ref :: "ModelSpec \<Rightarrow> ModelRef" where
  "spec_ref m = \<lparr>mr_name = ms_name m, mr_controller = ms_controller m\<rparr>"

definition domain_model :: "(py_str \<Rightarrow> domain_error + (py_str \<times> py_str) list) \<Rightarrow> (py_str option, ModelSpec) dict \<Rightarrow> ModelSpec \<Rightarrow>
    domain_error + 'e DomainModel" where
  "domain_model snap_info all_models m =
     bind_result (lift_error SpecPyError (applications_from_spec (ms_applications m))) (\<lambda>apps.
     bind_result (resolve_juju_version snap_info (ms_juju m)) (\<lambda>v.
       Inr \<lparr>arch = ms_arch m, platform = ms_platform m, juju_version = v, admin = ms_admin m, ref = spec_ref m,
            applications = apps, application_integrations = classify_integrations m all_models\<rparr>))"

fun build_models :: "(py_str \<Rightarrow> domain_error + (py_str \<times> py_str) list) \<Rightarrow> (py_str option, ModelSpec) dict \<Rightarrow> ModelSpec list \<Rightarrow>
    'e Domain \<Rightarrow> domain_error + 'e Domain" where
  "build_models snap_info all_models [] d = Inr d"
| "build_models snap_info all_models (m # ms) d =
     bind_result (domain_model snap_info all_models m) (\<lambda>mc.
       build_models snap_info all_models ms (d\<lparr>models := dict_set (spec_ref m) mc (models d)\<rparr>))"

definition build_domain :: "(py_str \<Rightarrow> domain_error + (py_str \<times> py_str) list) \<Rightarrow> ModelSpec list \<Rightarrow> domain_error + 'e Domain" where
  "build_domain snap_info ms = build_models snap_info (models_by_name ms) ms \<lparr>models = [], charms = [], charm_integrations = []\<rparr>"

end
