(* ===== verification/Bundle_Extract.thy ===== *)
theory Bundle_Extract
  imports Bundle_Spec
begin

text \<open>
  From a solver model to the bundles that are deployed (\<^verbatim>\<open>bundle_builder_x/extract.py\<close>), with
  the data of bundles from \<^verbatim>\<open>bundle.py\<close>. A solver model is what it evaluates expressions to. How a
  real number is rendered is a parameter, \<open>None\<close> if it is not rational.
\<close>

section \<open>Bundles\<close>

record Application =
  ap_charm :: Charm
  ap_num_units :: int
  ap_config :: "(py_str, config_value option) dict"
  ap_resources :: "(py_str, py_str) dict"

text \<open>An application endpoint is a pair of names, an integration its two endpoints in order.\<close>

type_synonym Integration = "app_endpoint \<times> app_endpoint"

definition integration_create :: "app_endpoint \<Rightarrow> app_endpoint \<Rightarrow> Integration" where
  "integration_create a b = (let eps = sort [a, b] in (eps ! 0, eps ! 1))"

record CrossModelIntegration =
  cmi_local :: app_endpoint
  local_role :: EndpointType
  remote_model :: py_str
  remote_application :: py_str
  remote_endpoint :: py_str
  cmi_offer :: py_str
  cmi_url :: "py_str option"

record Bundle =
  b_model :: py_str
  b_controller :: "py_str option"
  b_admin :: py_str
  b_applications :: "(py_str, Application) dict"
  b_integrations :: "Integration set"
  cross_model_integrations :: "CrossModelIntegration list"
  b_platform :: py_str
  b_arch :: py_str
  b_juju_version :: JujuVersion

section \<open>Names\<close>

text \<open>The suffixes \<open>a\<close>, ..., \<open>z\<close>, \<open>aa\<close>, \<open>ab\<close>, ...\<close>

function suffix :: "nat \<Rightarrow> py_str" where
  "suffix n = (if n div 26 = 0 then [] else suffix (n div 26 - 1)) @ [char_of (97 + n mod 26)]"
  by pat_completeness auto
termination by (relation "measure id") auto

declare suffix.simps [simp del]

lemma suffix_inject: "suffix m = suffix n \<longleftrightarrow> m = n"
proof
  show "suffix m = suffix n \<Longrightarrow> m = n"
  proof (induction m arbitrary: n rule: less_induct)
    case (less m)
    from less.prems have c: "char_of (97 + m mod 26) = (char_of (97 + n mod 26) :: char)"
      and pre: "(if m div 26 = 0 then [] else suffix (m div 26 - 1)) = (if n div 26 = 0 then [] else suffix (n div 26 - 1))"
      by (simp_all add: suffix.simps [of m] suffix.simps [of n])
    have "97 + m mod 26 < 256" "97 + n mod 26 < (256 :: nat)" by (simp_all add: less_trans [OF mod_less_divisor [of 26]])
    then have "m mod 26 = n mod 26" using c by (metis add_left_cancel char_of_eq_iff mod_less of_char_of take_bit_nat_eq_self)
    moreover have ne: "suffix k \<noteq> []" for k by (subst suffix.simps) simp
    have "m div 26 = n div 26"
    proof (cases "m div 26 = 0 \<or> n div 26 = 0")
      case True
      then show ?thesis using pre ne not_sym [OF ne] by (auto split: if_splits)
    next
      case False
      then have "m div 26 - 1 < m" by linarith
      from less.IH [OF this, of "n div 26 - 1"] have "m div 26 - 1 = n div 26 - 1" using pre False by simp
      then show ?thesis using False by linarith
    qed
    ultimately show ?case by (metis div_mult_mod_eq)
  qed
qed simp

text \<open>The next name: the plain one while it is free, then the suffixed ones in order.\<close>

definition suffixed :: "py_str \<Rightarrow> nat \<Rightarrow> py_str" where
  "suffixed base k = base @ ''-'' @ suffix k"

definition candidates_left :: "py_str list \<Rightarrow> py_str \<Rightarrow> nat \<Rightarrow> py_str set" where
  "candidates_left used base k = {x \<in> set used. \<exists>j \<ge> k. x = suffixed base j}"

lemma candidates_left_step:
  "card (candidates_left used base (k + 1)) + (if suffixed base k \<in> set used then 1 else 0) = card (candidates_left used base k)"
proof -
  have split: "candidates_left used base k = candidates_left used base (k + 1) \<union> (if suffixed base k \<in> set used then {suffixed base k} else {})"
  proof -
    have "(\<exists>j \<ge> k. x = suffixed base j) \<longleftrightarrow> x = suffixed base k \<or> (\<exists>j \<ge> k + 1. x = suffixed base j)" for x
      by (metis Suc_eq_plus1 le_eq_less_or_eq less_eq_Suc_le)
    then show ?thesis by (auto simp: candidates_left_def)
  qed
  have fin: "finite (candidates_left used base (k + 1))" by (simp add: candidates_left_def)
  have "suffixed base k \<notin> candidates_left used base (k + 1)" by (auto simp: candidates_left_def suffixed_def suffix_inject)
  then show ?thesis using fin by (simp add: split)
qed

function pick_name :: "py_str list \<Rightarrow> py_str \<Rightarrow> py_str \<Rightarrow> nat \<Rightarrow> py_str" where
  "pick_name used base name k = (if name \<in> set used then pick_name used base (suffixed base k) (k + 1) else name)"
  by pat_completeness auto
termination
proof (relation "measure (\<lambda>(used, base, name, k). card (candidates_left used base k) + (if name \<in> set used then 1 else 0))")
  fix used :: "py_str list" and base name :: py_str and k :: nat
  assume "name \<in> set used"
  then show "((used, base, suffixed base k, k + 1), (used, base, name, k))
      \<in> measure (\<lambda>(used, base, name, k). card (candidates_left used base k) + (if name \<in> set used then 1 else 0))"
    using candidates_left_step [of used base k] by simp
qed simp

declare pick_name.simps [simp del]

lemma pick_name_fresh: "pick_name used base name k \<notin> set used"
  by (induction used base name k rule: pick_name.induct) (subst pick_name.simps, simp)

section \<open>One model\<close>

definition active_charm_integration_for_app_int :: "'e evaluation \<Rightarrow> 'e Domain \<Rightarrow> 'e DomainApplicationIntegration \<Rightarrow> 'e DomainCharmIntegration option" where
  "active_charm_integration_for_app_int E d ai =
     map_option (\<lambda>(idx, _). charm_integrations d ! idx) (find (\<lambda>(_, v). active E v) (charm_integration_ids ai))"

definition existing_charm_ids :: "'e evaluation \<Rightarrow> 'e Domain \<Rightarrow> ModelRef \<Rightarrow> nat list" where
  "existing_charm_ids E d r =
     filter (\<lambda>cid. charm_model (charms d ! cid) = r \<and> active E (charm_exists (charms d ! cid))) [0..<length (charms d)]"

definition mapped_app :: "'e evaluation \<Rightarrow> 'e DomainModel \<Rightarrow> nat \<Rightarrow> py_str option" where
  "mapped_app E mc cid =
     map_option fst (find (\<lambda>(_, da). case dict_get (charm_ids da) cid of None \<Rightarrow> False | Some v \<Rightarrow> active E v) (applications mc))"

definition user_names :: "'e evaluation \<Rightarrow> 'e DomainModel \<Rightarrow> nat list \<Rightarrow> (nat, py_str) dict" where
  "user_names E mc ids = fold (\<lambda>cid names. case mapped_app E mc cid of None \<Rightarrow> names | Some app \<Rightarrow> dict_set cid app names) ids []"

text \<open>The names in use are those given so far.\<close>

fun other_names :: "'e Domain \<Rightarrow> nat list \<Rightarrow> py_str list \<Rightarrow> (nat, py_str) dict \<Rightarrow> (nat, py_str) dict" where
  "other_names d [] used names = names"
| "other_names d (cid # ids) used names =
     (if dict_get names cid \<noteq> None then other_names d ids used names
      else let base = charm_name (spec (charms d ! cid)); name = pick_name used base base 0
           in other_names d ids (name # used) (dict_set cid name names))"

definition charm_names :: "'e evaluation \<Rightarrow> 'e Domain \<Rightarrow> 'e DomainModel \<Rightarrow> ModelRef \<Rightarrow> (nat, py_str) dict" where
  "charm_names E d mc r =
     (let ids = existing_charm_ids E d r; names = user_names E mc ids in other_names d ids (map snd names) names)"

text \<open>Equality of Python values: numbers of different types are compared as numbers.\<close>

fun number_of :: "config_value \<Rightarrow> rat option" where
  "number_of (CStr s) = None"
| "number_of (CInt k) = Some (of_int k)"
| "number_of (CFloat q) = Some q"
| "number_of (CBool b) = Some (if b then 1 else 0)"

definition config_equal :: "config_value \<Rightarrow> config_value \<Rightarrow> bool" where
  "config_equal v w \<longleftrightarrow> (case (number_of v, number_of w) of (Some x, Some y) \<Rightarrow> x = y | (None, None) \<Rightarrow> v = w | _ \<Rightarrow> False)"

definition raw_config :: "(real \<Rightarrow> rat option) \<Rightarrow> bool \<Rightarrow> zval \<Rightarrow> config_value option" where
  "raw_config decimal encoded raw =
     (case raw of
        VInt k \<Rightarrow> Some (if encoded then CBool (k = 1) else CInt k)
      | VStr s \<Rightarrow> Some (CStr s)
      | VBool b \<Rightarrow> Some (CBool b)
      | VReal x \<Rightarrow> map_option CFloat (decimal x)
      | _ \<Rightarrow> None)"

definition extract_config :: "(real \<Rightarrow> rat option) \<Rightarrow> 'e evaluation \<Rightarrow> 'e DomainCharmConfig \<Rightarrow> config_value option option" where
  "extract_config decimal E cfg =
     (if cfg_fixed_value cfg then Some (cfg_default cfg)
      else case cfg_var cfg of
             None \<Rightarrow> None
           | Some v \<Rightarrow>
               if (case cfg_isset_var cfg of None \<Rightarrow> False | Some isset \<Rightarrow> \<not> active E isset) then None
               else (case raw_config decimal (bool_as_int cfg) (E v) of
                       None \<Rightarrow> None
                     | Some val \<Rightarrow>
                         if (case cfg_default cfg of None \<Rightarrow> False | Some dv \<Rightarrow> config_equal dv val) then None else Some (Some val)))"

definition extract_resource :: "'e evaluation \<Rightarrow> 'e DomainCharmResource \<Rightarrow> py_str option" where
  "extract_resource E res =
     (if res_fixed_value res then res_default res
      else case res_var res of
             None \<Rightarrow> None
           | Some v \<Rightarrow>
               if (case res_isset_var res of None \<Rightarrow> False | Some isset \<Rightarrow> \<not> active E isset) then None
               else (case E v of VStr s \<Rightarrow> Some s | _ \<Rightarrow> None))"

definition extract_application :: "(real \<Rightarrow> rat option) \<Rightarrow> 'e evaluation \<Rightarrow> 'e DomainCharm \<Rightarrow> Application" where
  "extract_application decimal E c =
     \<lparr>ap_charm = spec c, ap_num_units = (case E (num_units c) of VInt k \<Rightarrow> k | _ \<Rightarrow> 1),
      ap_config = List.map_filter (\<lambda>(key, cfg). map_option (Pair key) (extract_config decimal E cfg)) (config c),
      ap_resources = List.map_filter (\<lambda>(key, res). map_option (Pair key) (extract_resource E res)) (resources c)\<rparr>"

definition extract_applications :: "(real \<Rightarrow> rat option) \<Rightarrow> 'e evaluation \<Rightarrow> 'e Domain \<Rightarrow> (nat, py_str) dict \<Rightarrow> (py_str, Application) dict" where
  "extract_applications decimal E d names =
     fold (\<lambda>(cid, name) apps. dict_set name (extract_application decimal E (charms d ! cid)) apps) names []"

definition local_integration :: "'e evaluation \<Rightarrow> 'e Domain \<Rightarrow> (nat, py_str) dict \<Rightarrow> 'e DomainCharmIntegration \<Rightarrow> Integration option" where
  "local_integration E d names i =
     (if is_cross_model d i \<or> \<not> active E (int_exists i) then None
      else case (dict_get names (requires_charm_id i), dict_get names (provides_charm_id i)) of
             (Some a, Some b) \<Rightarrow> Some (integration_create (a, requires_endpoint i) (b, provides_endpoint i))
           | _ \<Rightarrow> None)"

definition saas_url :: "'e DomainModel \<Rightarrow> py_str option \<Rightarrow> py_str \<Rightarrow> py_str option" where
  "saas_url mc name offer =
     (case (mr_controller (ref mc), name) of
        (Some c, Some n) \<Rightarrow> Some (c @ '':'' @ admin mc @ ''/'' @ n @ ''.'' @ offer)
      | _ \<Rightarrow> None)"

definition or_default :: "py_str option \<Rightarrow> py_str \<Rightarrow> py_str" where
  "or_default x dflt = (case x of None \<Rightarrow> dflt | Some s \<Rightarrow> if s = [] then dflt else s)"

definition offer_of :: "'e evaluation \<Rightarrow> 'e Domain \<Rightarrow> 'e DomainApplicationIntegration \<Rightarrow> py_error + py_str \<times> py_str option" where
  "offer_of E d ai =
     (case active_charm_integration_for_app_int E d ai of
        Some i \<Rightarrow> bind_result (integration_offer_name d i (Some E)) (\<lambda>offer.
                    bind_result (integration_offer_url d i (Some E)) (\<lambda>u. Inr (offer, u)))
      | None \<Rightarrow> Inr (or_default (offer_name ai) (dae_application (remote_ep ai) @ ''-offer''), url ai))"

definition user_cmr :: "'e evaluation \<Rightarrow> 'e Domain \<Rightarrow> (py_str, Application) dict \<Rightarrow> 'e DomainApplicationIntegration \<Rightarrow>
    py_error + CrossModelIntegration option" where
  "user_cmr E d apps ai =
     (if dae_model (endpoint_1 ai) = dae_model (endpoint_2 ai) then Inr None
      else case dict_get apps (dae_application (local_ep ai)) of
             None \<Rightarrow> Inr None
           | Some app \<Rightarrow>
               (case dict_get (charm_endpoints (ap_charm app)) (dae_endpoint (local_ep ai)) of
                  None \<Rightarrow> Inr None
                | Some ep \<Rightarrow>
                    bind_result (offer_of E d ai) (\<lambda>(offer, resolved_url).
                      let remote = dae_model (remote_ep ai);
                          u = (if ep_type ep = REQUIRES
                               then (case resolved_url of
                                       Some x \<Rightarrow> Some x
                                     | None \<Rightarrow> (case dict_get (models d) remote of None \<Rightarrow> None | Some mc \<Rightarrow> saas_url mc (mr_name remote) offer))
                               else resolved_url)
                      in Inr (Some \<lparr>cmi_local = (dae_application (local_ep ai), dae_endpoint (local_ep ai)), local_role = ep_type ep,
                                remote_model = model_key remote, remote_application = dae_application (remote_ep ai),
                                remote_endpoint = dae_endpoint (remote_ep ai), cmi_offer = offer, cmi_url = u\<rparr>))))"

fun user_cmrs :: "'e evaluation \<Rightarrow> 'e Domain \<Rightarrow> (py_str, Application) dict \<Rightarrow> 'e DomainApplicationIntegration list \<Rightarrow>
    py_error + CrossModelIntegration list" where
  "user_cmrs E d apps [] = Inr []"
| "user_cmrs E d apps (ai # ais) =
     bind_result (user_cmr E d apps ai) (\<lambda>c. bind_result (user_cmrs E d apps ais) (\<lambda>cs.
       Inr (case c of None \<Rightarrow> cs | Some x \<Rightarrow> x # cs)))"

definition extract_single_model :: "(real \<Rightarrow> rat option) \<Rightarrow> 'e evaluation \<Rightarrow> 'e Domain \<Rightarrow> ModelRef \<Rightarrow> 'e DomainModel \<Rightarrow>
    py_error + Bundle \<times> (nat, py_str) dict" where
  "extract_single_model decimal E d r mc =
     (let names = charm_names E d mc r; apps = extract_applications decimal E d names in
      bind_result (user_cmrs E d apps (application_integrations mc)) (\<lambda>cmrs.
        Inr (\<lparr>b_model = model_key r, b_controller = mr_controller (ref mc), b_admin = admin mc, b_applications = apps,
              b_integrations = set (List.map_filter (local_integration E d names) (charm_integrations d)),
              cross_model_integrations = cmrs, b_platform = platform mc, b_arch = arch mc, b_juju_version = juju_version mc\<rparr>, names)))"

section \<open>All models\<close>

fun extract_models :: "(real \<Rightarrow> rat option) \<Rightarrow> 'e evaluation \<Rightarrow> 'e Domain \<Rightarrow> (ModelRef, 'e DomainModel) dict \<Rightarrow>
    py_error + (ModelRef, Bundle) dict \<times> (ModelRef, (nat, py_str) dict) dict" where
  "extract_models decimal E d [] = Inr ([], [])"
| "extract_models decimal E d ((r, mc) # ms) =
     bind_result (extract_single_model decimal E d r mc) (\<lambda>(b, names).
     bind_result (extract_models decimal E d ms) (\<lambda>(bs, maps). Inr ((r, b) # bs, (r, names) # maps)))"

text \<open>Integrations that back a declared cross-model integration are in the bundles already.\<close>

definition user_covered_idxs :: "'e evaluation \<Rightarrow> 'e Domain \<Rightarrow> nat list" where
  "user_covered_idxs E d = concat (map (\<lambda>(_, mc). concat (map (\<lambda>ai.
     if dae_model (endpoint_1 ai) = dae_model (endpoint_2 ai) then []
     else map fst (filter (\<lambda>(_, v). active E v) (charm_integration_ids ai))) (application_integrations mc))) (models d))"

definition append_cmr :: "CrossModelIntegration \<Rightarrow> ModelRef \<Rightarrow> (ModelRef, Bundle) dict \<Rightarrow> (ModelRef, Bundle) dict" where
  "append_cmr c r bs =
     (case dict_get bs r of
        None \<Rightarrow> bs
      | Some b \<Rightarrow> dict_set r (b\<lparr>cross_model_integrations := cross_model_integrations b @ [c]\<rparr>) bs)"

definition name_in :: "(ModelRef, (nat, py_str) dict) dict \<Rightarrow> ModelRef \<Rightarrow> nat \<Rightarrow> py_str option" where
  "name_in maps r cid = (case dict_get maps r of None \<Rightarrow> None | Some names \<Rightarrow> dict_get names cid)"

definition add_discovered :: "'e evaluation \<Rightarrow> 'e Domain \<Rightarrow> (ModelRef, (nat, py_str) dict) dict \<Rightarrow> 'e DomainCharmIntegration \<Rightarrow>
    (ModelRef, Bundle) dict \<Rightarrow> py_error + (ModelRef, Bundle) dict" where
  "add_discovered E d maps i bs =
     (let req = charm_model (charms d ! requires_charm_id i); prov = charm_model (charms d ! provides_charm_id i) in
      case (name_in maps req (requires_charm_id i), name_in maps prov (provides_charm_id i)) of
        (Some req_app, Some prov_app) \<Rightarrow>
          bind_result (integration_offer_name d i (Some E)) (\<lambda>offer.
          bind_result (integration_offer_url d i (Some E)) (\<lambda>declared_url.
            let u = (case declared_url of
                       Some x \<Rightarrow> Some x
                     | None \<Rightarrow>
                         (case dict_get (models d) prov of
                            None \<Rightarrow> None
                          | Some mc \<Rightarrow> saas_url mc (Some (case mr_name (ref mc) of None \<Rightarrow> ''None'' | Some n \<Rightarrow> n)) offer));
                requiring = \<lparr>cmi_local = (req_app, requires_endpoint i), local_role = REQUIRES, remote_model = model_key prov,
                             remote_application = prov_app, remote_endpoint = provides_endpoint i, cmi_offer = offer, cmi_url = u\<rparr>;
                providing = \<lparr>cmi_local = (prov_app, provides_endpoint i), local_role = PROVIDES, remote_model = model_key req,
                             remote_application = req_app, remote_endpoint = requires_endpoint i, cmi_offer = offer, cmi_url = None\<rparr>
            in Inr (append_cmr providing prov (append_cmr requiring req bs))))
      | _ \<Rightarrow> Inr bs)"

fun discovered_loop :: "'e evaluation \<Rightarrow> 'e Domain \<Rightarrow> (ModelRef, (nat, py_str) dict) dict \<Rightarrow> (nat \<times> 'e DomainCharmIntegration) list \<Rightarrow>
    (ModelRef, Bundle) dict \<Rightarrow> py_error + (ModelRef, Bundle) dict" where
  "discovered_loop E d maps [] bs = Inr bs"
| "discovered_loop E d maps ((idx, i) # is) bs =
     (if \<not> is_cross_model d i \<or> \<not> active E (int_exists i) \<or> idx \<in> set (user_covered_idxs E d) then discovered_loop E d maps is bs
      else bind_result (add_discovered E d maps i bs) (discovered_loop E d maps is))"

text \<open>Mirrored entries: the remote bundle is found by its key and gets the counterpart unless it has one.\<close>

definition counterpart_of :: "EndpointType \<Rightarrow> py_str \<Rightarrow> CrossModelIntegration \<Rightarrow> CrossModelIntegration \<Rightarrow> bool" where
  "counterpart_of to_role model c c' \<longleftrightarrow>
     local_role c' = to_role \<and> fst (cmi_local c') = remote_application c \<and> snd (cmi_local c') = remote_endpoint c
     \<and> remote_model c' = model \<and> remote_application c' = fst (cmi_local c) \<and> remote_endpoint c' = snd (cmi_local c)
     \<and> cmi_offer c' = cmi_offer c"

definition mirrored :: "EndpointType \<Rightarrow> ModelRef \<Rightarrow> Bundle \<Rightarrow> CrossModelIntegration \<Rightarrow> CrossModelIntegration" where
  "mirrored to_role r b c =
     \<lparr>cmi_local = (remote_application c, remote_endpoint c), local_role = to_role, remote_model = model_key r,
      remote_application = fst (cmi_local c), remote_endpoint = snd (cmi_local c), cmi_offer = cmi_offer c,
      cmi_url = (if to_role = REQUIRES
                 then (if cmi_url c \<noteq> None \<and> cmi_url c \<noteq> Some [] then cmi_url c
                       else case (b_controller b, mr_name r) of
                              (Some ctrl, Some n) \<Rightarrow> Some (ctrl @ '':'' @ b_admin b @ ''/'' @ n @ ''.'' @ cmi_offer c)
                            | _ \<Rightarrow> None)
                 else None)\<rparr>"

definition mirror_entry :: "(py_str, ModelRef) dict \<Rightarrow> EndpointType \<Rightarrow> EndpointType \<Rightarrow> ModelRef \<Rightarrow> CrossModelIntegration \<Rightarrow>
    (ModelRef, Bundle) dict \<Rightarrow> (ModelRef, Bundle) dict" where
  "mirror_entry by_key from_role to_role r c bs =
     (if local_role c \<noteq> from_role then bs
      else case dict_get by_key (remote_model c) of
             None \<Rightarrow> bs
           | Some r' \<Rightarrow>
               (case (dict_get bs r, dict_get bs r') of
                  (Some b, Some b') \<Rightarrow>
                    if list_ex (counterpart_of to_role (model_key r) c) (cross_model_integrations b') then bs
                    else if dict_get (b_applications b') (remote_application c) = None then bs
                    else append_cmr (mirrored to_role r b c) r' bs
                | _ \<Rightarrow> bs))"

definition mirror_bundle :: "(py_str, ModelRef) dict \<Rightarrow> EndpointType \<Rightarrow> EndpointType \<Rightarrow> ModelRef \<Rightarrow> (ModelRef, Bundle) dict \<Rightarrow> (ModelRef, Bundle) dict" where
  "mirror_bundle by_key from_role to_role r bs =
     (case dict_get bs r of
        None \<Rightarrow> bs
      | Some b \<Rightarrow> fold (mirror_entry by_key from_role to_role r) (cross_model_integrations b) bs)"

definition mirror_cmr_entries :: "(py_str, ModelRef) dict \<Rightarrow> EndpointType \<Rightarrow> EndpointType \<Rightarrow> (ModelRef, Bundle) dict \<Rightarrow> (ModelRef, Bundle) dict" where
  "mirror_cmr_entries by_key from_role to_role bs = fold (mirror_bundle by_key from_role to_role) (dict_keys bs) bs"

definition refs_by_key :: "(ModelRef, Bundle) dict \<Rightarrow> (py_str, ModelRef) dict" where
  "refs_by_key bs = fold (\<lambda>(r, _) m. dict_set (model_key r) r m) bs []"

record seen_offers =
  seen_urls :: "(py_str, py_str) dict"
  seen_offer_names :: "(py_str, py_str) dict"
  seen_offer_owners :: "(py_str, py_str) dict"

definition check_cmr :: "CrossModelIntegration \<Rightarrow> seen_offers \<Rightarrow> py_error + seen_offers" where
  "check_cmr c seen =
     (if local_role c = PROVIDES
      then (if conflicting (dict_get (seen_offer_owners seen) (cmi_offer c)) (fst (cmi_local c)) then Inl ValueError
            else Inr (seen\<lparr>seen_offer_owners := dict_set (cmi_offer c) (fst (cmi_local c)) (seen_offer_owners seen)\<rparr>))
      else
        (case cmi_url c of
           None \<Rightarrow> Inr seen
         | Some u \<Rightarrow>
             if local_role c \<noteq> REQUIRES then Inr seen
             else if conflicting (dict_get (seen_urls seen) u) (cmi_offer c) then Inl ValueError
             else if conflicting (dict_get (seen_offer_names seen) (cmi_offer c)) u then Inl ValueError
             else Inr (seen\<lparr>seen_urls := dict_set u (cmi_offer c) (seen_urls seen), seen_offer_names := dict_set (cmi_offer c) u (seen_offer_names seen)\<rparr>)))"

fun check_cmrs :: "CrossModelIntegration list \<Rightarrow> seen_offers \<Rightarrow> py_error + unit" where
  "check_cmrs [] seen = Inr ()"
| "check_cmrs (c # cs) seen = bind_result (check_cmr c seen) (check_cmrs cs)"

fun validate_resolved_cmr_offer_consistency :: "(ModelRef, Bundle) dict \<Rightarrow> py_error + unit" where
  "validate_resolved_cmr_offer_consistency [] = Inr ()"
| "validate_resolved_cmr_offer_consistency ((_, b) # bs) =
     bind_result (check_cmrs (cross_model_integrations b) \<lparr>seen_urls = [], seen_offer_names = [], seen_offer_owners = []\<rparr>)
       (\<lambda>_. validate_resolved_cmr_offer_consistency bs)"

definition extract_solution :: "(real \<Rightarrow> rat option) \<Rightarrow> 'e evaluation \<Rightarrow> 'e Domain \<Rightarrow> py_error + Bundle list" where
  "extract_solution decimal E d =
     bind_result (extract_models decimal E d (models d)) (\<lambda>(bs0, maps).
     bind_result (discovered_loop E d maps (enumerate 0 (charm_integrations d)) bs0) (\<lambda>bs1.
       let by_key = refs_by_key bs1;
           bs2 = mirror_cmr_entries by_key PROVIDES REQUIRES (mirror_cmr_entries by_key REQUIRES PROVIDES bs1)
       in bind_result (validate_resolved_cmr_offer_consistency bs2) (\<lambda>_. Inr (map snd bs2))))"

end
