(* ===== verification/Bundle_Export.thy ===== *)
theory Bundle_Export
  imports Bundle_Extract Bundle_Errors
begin

text \<open>
  The exported forms of a solution (\<^verbatim>\<open>bundle_builder_x/bundle.py\<close>): the documents of a bundle, the
  second one with the offers, and the Mermaid graph of all models. Documents are trees;
  a library writes them as YAML, with sorted keys.
\<close>

section \<open>Documents\<close>

datatype doc = DBool bool | DInt int | DFloat rat | DStr py_str | DList "doc list" | DMap "(py_str, doc) dict"

fun config_doc :: "config_value \<Rightarrow> doc" where
  "config_doc (CStr s) = DStr s" | "config_doc (CInt k) = DInt k" | "config_doc (CFloat q) = DFloat q" | "config_doc (CBool b) = DBool b"

definition endpoint_str :: "app_endpoint \<Rightarrow> py_str" where
  "endpoint_str e = fst e @ '':'' @ snd e"

text \<open>Offers by application and name: the endpoints in the order of their first use.\<close>

definition add_offer :: "CrossModelIntegration \<Rightarrow> (py_str, (py_str, py_str list) dict) dict \<Rightarrow> (py_str, (py_str, py_str list) dict) dict" where
  "add_offer c offers =
     (if local_role c = PROVIDES
      then let of_app = dict_get_default offers (fst (cmi_local c)) []; eps = dict_get_default of_app (cmi_offer c) [];
               eps' = (if snd (cmi_local c) \<in> set eps then eps else eps @ [snd (cmi_local c)])
           in dict_set (fst (cmi_local c)) (dict_set (cmi_offer c) eps' of_app) offers
      else offers)"

definition offers_by_app :: "Bundle \<Rightarrow> (py_str, (py_str, py_str list) dict) dict" where
  "offers_by_app b = fold add_offer (cross_model_integrations b) []"

definition saas_entries :: "Bundle \<Rightarrow> (py_str, py_str) dict" where
  "saas_entries b = fold (\<lambda>c m. case cmi_url c of
      Some u \<Rightarrow> if local_role c = REQUIRES then dict_set (cmi_offer c) u m else m
    | None \<Rightarrow> m) (cross_model_integrations b) []"

definition application_doc :: "py_str \<Rightarrow> Application \<Rightarrow> doc" where
  "application_doc scale_key a = DMap (
     [(''charm'', DStr (charm_name (ap_charm a))), (''channel'', DStr (channel_str (channel (ap_charm a)))),
      (''revision'', DInt (revision (ap_charm a))), (''base'', DStr (''ubuntu@'' @ ubuntu_version (ap_charm a))), (''trust'', DBool True),
      (''options'', DMap (List.map_filter (\<lambda>(k, v). map_option (\<lambda>x. (k, config_doc x)) v) (ap_config a)))]
     @ (if subordinate (ap_charm a) then [] else [(scale_key, DInt (ap_num_units a))])
     @ (if ap_resources a = [] then [] else [(''resources'', DMap (map (\<lambda>(k, v). (k, DStr v)) (ap_resources a)))]))"

definition local_relations :: "Bundle \<Rightarrow> py_str list list" where
  "local_relations b = sort (map (\<lambda>(e, e'). sort [endpoint_str e, endpoint_str e']) (sorted_list_of_set (b_integrations b)))"

definition cmr_relations :: "Bundle \<Rightarrow> py_str list list" where
  "cmr_relations b = sort (map (\<lambda>c. sort [endpoint_str (cmi_local c), cmi_offer c @ '':'' @ remote_endpoint c])
     (filter (\<lambda>c. local_role c = REQUIRES) (cross_model_integrations b)))"

definition overlay :: "Bundle \<Rightarrow> doc" where
  "overlay b = DMap [(''applications'', DMap (map (\<lambda>(app, offers).
     (app, DMap [(''offers'', DMap (map (\<lambda>(offer, eps). (offer, DMap [(''endpoints'', DList (map DStr (sort eps)))])) (sort_key fst offers)))]))
     (sort_key fst (offers_by_app b))))]"

definition export :: "Bundle \<Rightarrow> py_error + doc list" where
  "export b =
     (if b_platform b \<notin> {''kubernetes'', ''machine''} then Inl ValueError
      else
        let scale_key = (if b_platform b = ''kubernetes'' then ''scale'' else ''num_units'');
            base = DMap (
              [(''applications'', DMap (map (\<lambda>(n, a). (n, application_doc scale_key a)) (b_applications b))),
               (''relations'', DList (map (\<lambda>r. DList (map DStr r)) (local_relations b @ cmr_relations b)))]
              @ (if b_platform b = ''kubernetes'' then [(''bundle'', DStr (b_platform b))] else [])
              @ (if saas_entries b = [] then [] else [(''saas'', DMap (map (\<lambda>(n, u). (n, DMap [(''url'', DStr u)])) (sort_key fst (saas_entries b))))]))
        in Inr (if offers_by_app b = [] then [base] else [base, overlay b]))"

section \<open>The graph\<close>

definition MERMAID_RESERVED :: "py_str list" where
  "MERMAID_RESERVED = [''default'', ''end'', ''subgraph'', ''graph'', ''class'', ''click'', ''style'', ''linkstyle'', ''classDef'']"

text \<open>Lower case is needed for comparisons with words over the letters a to z only.\<close>

definition lower_char :: "char \<Rightarrow> char" where
  "lower_char c = (if CHR ''A'' \<le> c \<and> c \<le> CHR ''Z'' then char_of (of_char c + (32 :: nat)) else c)"

definition mermaid_id :: "py_str \<Rightarrow> py_str" where
  "mermaid_id name = (if map lower_char name \<in> set MERMAID_RESERVED then ''m_'' @ name else name)"

definition mermaid_node_id :: "py_str \<Rightarrow> py_str \<Rightarrow> py_str" where
  "mermaid_node_id model_id app = model_id @ ''__'' @ app"

definition IND :: py_str where "IND = replicate 4 (CHR 0x20)"
definition DQ :: py_str where "DQ = [CHR 0x22]"

definition node_line :: "py_str \<Rightarrow> py_str \<Rightarrow> Application \<Rightarrow> py_str" where
  "node_line model_id app a =
     (let charm_info = channel_str (channel (ap_charm a)) @ '' rev:'' @ int_str (revision (ap_charm a));
          label = (if app = charm_name (ap_charm a) then app @ ''<br/>'' @ charm_info
                   else app @ ''<br/>('' @ charm_name (ap_charm a) @ '')<br/>'' @ charm_info)
      in IND @ IND @ mermaid_node_id model_id app @ ''['' @ DQ @ label @ DQ @ '']:::app'')"

definition edge_label :: "py_str \<Rightarrow> py_str \<Rightarrow> py_str \<Rightarrow> py_str" where
  "edge_label provider i requirer = provider @ ''<br/>&lt;'' @ i @ ''&gt;<br/>'' @ requirer"

text \<open>The lookups raise for an integration of an application or endpoint the bundle does not have.\<close>

definition bundle_endpoint :: "Bundle \<Rightarrow> app_endpoint \<Rightarrow> py_error + CharmEndpoint" where
  "bundle_endpoint b e =
     (case dict_get (b_applications b) (fst e) of
        None \<Rightarrow> Inl KeyError
      | Some a \<Rightarrow> (case dict_get (charm_endpoints (ap_charm a)) (snd e) of None \<Rightarrow> Inl KeyError | Some ep \<Rightarrow> Inr ep))"

definition edge_line :: "Bundle \<Rightarrow> py_str \<Rightarrow> Integration \<Rightarrow> py_error + py_str" where
  "edge_line b model_id i =
     (let eps = sort [fst i, snd i]; ep_1 = eps ! 0; ep_2 = eps ! 1 in
      bind_result (bundle_endpoint b ep_1) (\<lambda>charm_ep.
        let (requirer, provider) = (if ep_type charm_ep = REQUIRES then (ep_1, ep_2) else (ep_2, ep_1)) in
        Inr (IND @ IND @ mermaid_node_id model_id (fst provider) @ '' -->|'' @ DQ @ edge_label (snd provider) (interface charm_ep) (snd requirer)
             @ DQ @ ''| '' @ mermaid_node_id model_id (fst requirer))))"

fun map_result :: "('a \<Rightarrow> 'e + 'b) \<Rightarrow> 'a list \<Rightarrow> 'e + 'b list" where
  "map_result f [] = Inr []"
| "map_result f (x # xs) = bind_result (f x) (\<lambda>y. bind_result (map_result f xs) (\<lambda>ys. Inr (y # ys)))"

definition mermaid_subgraph_lines :: "Bundle \<Rightarrow> py_str \<Rightarrow> py_str \<Rightarrow> py_error + py_str list" where
  "mermaid_subgraph_lines b model_name model_id =
     bind_result (map_result (edge_line b model_id) (sorted_list_of_set (b_integrations b))) (\<lambda>edges.
       Inr ([IND @ ''subgraph '' @ model_id @ ''['' @ model_name @ '']'', IND @ IND @ ''direction TB'']
            @ map (\<lambda>(app, a). node_line model_id app a) (sort_key fst (b_applications b)) @ [[]] @ edges @ [IND @ ''end'']))"

definition cmr_edge_line :: "Bundle \<Rightarrow> py_str \<Rightarrow> CrossModelIntegration \<Rightarrow> py_error + py_str" where
  "cmr_edge_line b model_id c =
     bind_result (bundle_endpoint b (cmi_local c)) (\<lambda>ep.
       Inr (IND @ mermaid_node_id model_id (fst (cmi_local c)) @ '' -.->|'' @ DQ @ edge_label (snd (cmi_local c)) (interface ep) (remote_endpoint c)
            @ DQ @ ''| '' @ mermaid_node_id (mermaid_id (remote_model c)) (remote_application c)))"

definition mermaid_cmr_edge_lines :: "Bundle \<Rightarrow> py_str \<Rightarrow> py_error + py_str list" where
  "mermaid_cmr_edge_lines b model_id = map_result (cmr_edge_line b model_id)
     (filter (\<lambda>c. local_role c = PROVIDES)
       (sort_key (\<lambda>c. (fst (cmi_local c), snd (cmi_local c), remote_model c, remote_application c)) (cross_model_integrations b)))"

definition bundle_name :: "Bundle \<Rightarrow> py_str" where
  "bundle_name b = or_default (Some (b_model b)) ''_default''"

definition model_lines :: "Bundle \<Rightarrow> py_error + py_str list" where
  "model_lines b =
     (let model_id = mermaid_id (bundle_name b) in
      bind_result (mermaid_subgraph_lines b (bundle_name b) model_id) (\<lambda>ls.
        Inr (ls @ [IND @ ''style '' @ model_id @ '' fill:#f0f9ff,stroke:#0ea5e9,color:#0c4a6e'', []])))"

definition anchor_node :: "Bundle \<Rightarrow> py_str option" where
  "anchor_node b =
     (case sort (dict_keys (b_applications b)) of
        [] \<Rightarrow> None
      | app # _ \<Rightarrow> Some (mermaid_node_id (mermaid_id (bundle_name b)) app))"

definition mermaid_header :: "py_str list" where
  "mermaid_header =
     [''%%{init: {'' @ [CHR 0x27] @ ''theme'' @ [CHR 0x27] @ '': '' @ [CHR 0x27] @ ''base'' @ [CHR 0x27] @ '', '' @ [CHR 0x27] @ ''themeVariables'' @ [CHR 0x27]
        @ '': {'' @ [CHR 0x27] @ ''lineColor'' @ [CHR 0x27] @ '': '' @ [CHR 0x27] @ ''#64748b'' @ [CHR 0x27] @ '', '' @ [CHR 0x27] @ ''edgeLabelBackground''
        @ [CHR 0x27] @ '': '' @ [CHR 0x27] @ ''#f8fafc'' @ [CHR 0x27] @ ''}}}%%'',
      ''graph TB'', IND @ ''classDef app fill:#dbeafe,stroke:#3b82f6,color:#1e3a5f'', []]"

definition export_mermaid :: "Bundle list \<Rightarrow> bool \<Rightarrow> py_error + py_str" where
  "export_mermaid bundles markdown =
     (let bs = sort_key b_model bundles; anchors = List.map_filter anchor_node bs in
      bind_result (map_result model_lines bs) (\<lambda>subgraphs.
      bind_result (map_result (\<lambda>b. mermaid_cmr_edge_lines b (mermaid_id (bundle_name b))) bs) (\<lambda>cmrs.
        let ls = mermaid_header @ concat subgraphs @ map (\<lambda>(top, bottom). IND @ top @ '' ~~~ '' @ bottom) (zip anchors (tl anchors))
               @ (if length anchors > 1 then [[]] else []) @ concat cmrs @ (if concat cmrs = [] then [] else [[]]);
            text = join [CHR 0x0A] ls @ [CHR 0x0A]; fence = replicate 3 (CHR 0x60)
        in Inr (if markdown then fence @ ''mermaid'' @ [CHR 0x0A] @ text @ fence @ [CHR 0x0A] else text))))"

end
