(* ===== verification/Bundle_Build.thy ===== *)
theory Bundle_Build
  imports Bundle_Solve Bundle_Export
begin

text \<open>
  The whole of the bundle builder (\<open>BundleBuilder.build\<close> in \<^verbatim>\<open>bundle_builder.py\<close>): from a specification to
  the bundles. \<open>None\<close> would be a run that does not end.
\<close>

datatype failure = SpecFailure domain_error | BuildFailure build_error | ExtractFailure py_error

definition build :: "(py_str \<Rightarrow> domain_error + (py_str \<times> py_str) list) \<Rightarrow> charmhub \<Rightarrow> 'e smt \<Rightarrow> 'e z3 \<Rightarrow> (z3_model \<Rightarrow> 'e evaluation) \<Rightarrow>
    (real \<Rightarrow> rat option) \<Rightarrow> ModelSpec list \<Rightarrow> (failure + Bundle list) option" where
  "build snap_info H S Z ev decimal ms =
     (case build_domain snap_info ms of
        Inl x \<Rightarrow> Some (Inl (SpecFailure x))
      | Inr d \<Rightarrow>
          (case solve H S Z ev d of
             None \<Rightarrow> None
           | Some (Inl e) \<Rightarrow> Some (Inl (BuildFailure e))
           | Some (Inr (d', m)) \<Rightarrow> Some (lift_error ExtractFailure (extract_solution decimal (ev m) d'))))"

end
