(* ===== verification/Bundle_Forest.thy ===== *)
theory Bundle_Forest
  imports Main
begin

text \<open>
  Forests of labelled nodes that grow by leaves, as the charms of a domain do: every charm is
  fetched for an application or for another charm. If siblings differ in their labels and so do
  the nodes of a branch, a forest over finitely many roots and labels is finite. This is what
  bounds the refinement loop of the bundle builder.
\<close>

definition edges :: "nat \<Rightarrow> (nat \<Rightarrow> nat set) \<Rightarrow> (nat \<times> nat) set" where
  "edges n kids = {(p, c). p < n \<and> c \<in> kids p}"

definition forest :: "'k set \<Rightarrow> ('k \<Rightarrow> nat set) \<Rightarrow> nat \<Rightarrow> (nat \<Rightarrow> 'l) \<Rightarrow> (nat \<Rightarrow> nat set) \<Rightarrow> bool" where
  "forest K roots n lab kids \<longleftrightarrow>
     (\<forall>p < n. \<forall>c \<in> kids p. p < c \<and> c < n) \<and> (\<forall>k \<in> K. \<forall>c \<in> roots k. c < n)
     \<and> (\<forall>c < n. (\<exists>k \<in> K. c \<in> roots k) \<or> (\<exists>p < n. c \<in> kids p))
     \<and> (\<forall>p < n. inj_on lab (kids p)) \<and> (\<forall>k \<in> K. inj_on lab (roots k))
     \<and> (\<forall>(a, c) \<in> (edges n kids)\<^sup>+. lab a \<noteq> lab c)"

lemma forestD:
  assumes "forest K roots n lab kids"
  shows "p < n \<Longrightarrow> c \<in> kids p \<Longrightarrow> p < c \<and> c < n" "k \<in> K \<Longrightarrow> c \<in> roots k \<Longrightarrow> c < n"
    "c < n \<Longrightarrow> (\<exists>k \<in> K. c \<in> roots k) \<or> (\<exists>p < n. c \<in> kids p)" "p < n \<Longrightarrow> inj_on lab (kids p)" "k \<in> K \<Longrightarrow> inj_on lab (roots k)"
    "(a, c) \<in> (edges n kids)\<^sup>+ \<Longrightarrow> lab a \<noteq> lab c"
  using assms unfolding forest_def by blast+

lemma forestI:
  assumes "\<And>p c. p < n \<Longrightarrow> c \<in> kids p \<Longrightarrow> p < c \<and> c < n" "\<And>k c. k \<in> K \<Longrightarrow> c \<in> roots k \<Longrightarrow> c < n"
    "\<And>c. c < n \<Longrightarrow> (\<exists>k \<in> K. c \<in> roots k) \<or> (\<exists>p < n. c \<in> kids p)"
    "\<And>p. p < n \<Longrightarrow> inj_on lab (kids p)" "\<And>k. k \<in> K \<Longrightarrow> inj_on lab (roots k)"
    "\<And>a c. (a, c) \<in> (edges n kids)\<^sup>+ \<Longrightarrow> lab a \<noteq> lab c"
  shows "forest K roots n lab kids"
  using assms unfolding forest_def by blast

lemma edges_range:
  assumes "(a, c) \<in> (edges n kids)\<^sup>+" "forest K roots n lab kids"
  shows "a < n \<and> c < n"
  using assms(1)
proof (induction rule: trancl_induct)
  case (base y)
  then show ?case using forestD(1) [OF assms(2), of a y] by (simp add: edges_def)
next
  case (step y z)
  then show ?case using forestD(1) [OF assms(2), of y z] by (simp add: edges_def)
qed

lemma inj_on_relabel: "inj_on lab A \<Longrightarrow> (\<And>c. c \<in> A \<Longrightarrow> lab' c = lab c) \<Longrightarrow> inj_on lab' A"
  by (simp add: inj_on_def)

lemma inj_on_fresh: "inj_on lab A \<Longrightarrow> (\<And>c. c \<in> A \<Longrightarrow> c < (n :: nat)) \<Longrightarrow> inj_on (lab(n := l)) A"
  using inj_on_relabel [of lab A "lab(n := l)"] by fastforce

lemma forest_cong:
  assumes "forest K roots n lab kids" "\<And>c. c < n \<Longrightarrow> lab' c = lab c" "\<And>p. p < n \<Longrightarrow> kids' p = kids p" "\<And>k. k \<in> K \<Longrightarrow> roots' k = roots k"
  shows "forest K roots' n lab' kids'"
proof (rule forestI)
  note f = forestD [OF assms(1)]
  show "p < c \<and> c < n" if "p < n" "c \<in> kids' p" for p c using f(1) [of p c] that assms(3) by simp
  show "c < n" if "k \<in> K" "c \<in> roots' k" for k c using f(2) [of k c] that assms(4) by simp
  show "(\<exists>k \<in> K. c \<in> roots' k) \<or> (\<exists>p < n. c \<in> kids' p)" if "c < n" for c using f(3) [OF that] assms(3,4) by auto
  show "inj_on lab' (kids' p)" if "p < n" for p
    unfolding assms(3) [OF that] by (rule inj_on_relabel [OF f(4) [OF that]]) (use assms(2) f(1) [OF that] in blast)
  show "inj_on lab' (roots' k)" if "k \<in> K" for k
    unfolding assms(4) [OF that] by (rule inj_on_relabel [OF f(5) [OF that]]) (use assms(2) f(2) [OF that] in blast)
  have e: "edges n kids' = edges n kids" using assms(3) by (auto simp: edges_def)
  show "lab' a \<noteq> lab' c" if "(a, c) \<in> (edges n kids')\<^sup>+" for a c
    using f(6) [of a c] edges_range [of a c, OF _ assms(1)] that assms(2) unfolding e by simp
qed

section \<open>New leaves\<close>

lemma forest_root:
  assumes "forest K roots n lab kids" "k \<in> K" "l \<notin> lab ` roots k"
  shows "forest K (roots(k := insert n (roots k))) (Suc n) (lab(n := l)) (kids(n := {}))"
proof (rule forestI)
  let ?kids = "kids(n := {})" and ?lab = "lab(n := l)" and ?roots = "roots(k := insert n (roots k))"
  note f = forestD [OF assms(1)]
  show "p < c \<and> c < Suc n" if "p < Suc n" "c \<in> ?kids p" for p c using f(1) [of p c] that by (simp split: if_splits)
  show "c < Suc n" if "k' \<in> K" "c \<in> ?roots k'" for k' c using f(2) [of k' c] that by (auto split: if_splits)
  show "(\<exists>k \<in> K. c \<in> ?roots k) \<or> (\<exists>p < Suc n. c \<in> ?kids p)" if c: "c < Suc n" for c
  proof (cases "c = n")
    case True
    then show ?thesis using assms(2) by auto
  next
    case False
    then have "c < n" using c by simp
    from f(3) [OF this] show ?thesis
    proof
      assume "\<exists>p < n. c \<in> kids p"
      then obtain p where "p < n" "c \<in> kids p" by blast
      then have "p < Suc n \<and> c \<in> ?kids p" by auto
      then show ?thesis by blast
    qed auto
  qed
  show "inj_on ?lab (?kids p)" if "p < Suc n" for p
  proof (cases "p = n")
    case False
    then have "p < n" using that by simp
    then have "inj_on ?lab (kids p)" using inj_on_fresh [OF f(4)] f(1) by blast
    then show ?thesis using False by simp
  qed simp
  show "inj_on ?lab (?roots k')" if k': "k' \<in> K" for k'
  proof -
    have old: "inj_on ?lab (roots k')" by (rule inj_on_fresh [OF f(5) [OF k'] f(2) [OF k']])
    show ?thesis
    proof (cases "k' = k")
      case True
      have "?lab n \<notin> ?lab ` (roots k - {n})" using assms(3) by auto
      then show ?thesis using old unfolding True by (simp only: fun_upd_same inj_on_insert simp_thms)
    next
      case False
      then show ?thesis using old by simp
    qed
  qed
  have e: "edges (Suc n) ?kids = edges n kids" by (auto simp: edges_def less_Suc_eq)
  show "?lab a \<noteq> ?lab c" if "(a, c) \<in> (edges (Suc n) ?kids)\<^sup>+" for a c
    using f(6) [of a c] edges_range [of a c, OF _ assms(1)] that unfolding e by simp
qed

lemma trancl_new_leaf:
  assumes "(a, c) \<in> (insert (p, n) (edges n kids))\<^sup>+"
  shows "(a, c) \<in> (edges n kids)\<^sup>+ \<or> (a, p) \<in> (edges n kids)\<^sup>* \<and> c = n"
  using assms
proof (induction rule: trancl_induct)
  case (step y z)
  have "(n, x) \<notin> edges n kids" for x by (simp add: edges_def)
  with step show ?case by (auto intro: trancl_into_trancl trancl_into_rtrancl)
qed auto

lemma forest_child:
  assumes "forest K roots n lab kids" "p < n" "l \<notin> lab ` kids p" "\<And>a. (a, p) \<in> (edges n kids)\<^sup>* \<Longrightarrow> lab a \<noteq> l"
  shows "forest K roots (Suc n) (lab(n := l)) (kids(n := {}, p := insert n (kids p)))"
proof (rule forestI)
  let ?kids = "kids(n := {}, p := insert n (kids p))" and ?lab = "lab(n := l)"
  note f = forestD [OF assms(1)]
  show "q < c \<and> c < Suc n" if "q < Suc n" "c \<in> ?kids q" for q c using f(1) [of q c] that assms(2) by (auto split: if_splits)
  show "c < Suc n" if "k \<in> K" "c \<in> roots k" for k c using f(2) [OF that] by simp
  show "(\<exists>k \<in> K. c \<in> roots k) \<or> (\<exists>q < Suc n. c \<in> ?kids q)" if c: "c < Suc n" for c
  proof (cases "c = n")
    case True
    then have "c \<in> ?kids p" "p < Suc n" using assms(2) by auto
    then show ?thesis by blast
  next
    case False
    then have "c < n" using c by simp
    from f(3) [OF this] show ?thesis
    proof
      assume "\<exists>q < n. c \<in> kids q"
      then obtain q where "q < n" "c \<in> kids q" by blast
      then have "q < Suc n \<and> c \<in> ?kids q" by auto
      then show ?thesis by blast
    qed simp
  qed
  show "inj_on ?lab (?kids q)" if q: "q < Suc n" for q
  proof (cases "q = n")
    case True
    then show ?thesis using assms(2) by simp
  next
    case False
    then have q': "q < n" using q by simp
    then have "inj_on ?lab (kids q)" using inj_on_fresh [OF f(4)] f(1) by blast
    moreover have "?lab n \<notin> ?lab ` (kids p - {n})" using assms(3) by auto
    ultimately show ?thesis using False by (cases "q = p") (simp_all add: inj_on_insert)
  qed
  show "inj_on ?lab (roots k)" if "k \<in> K" for k by (rule inj_on_fresh [OF f(5) [OF that] f(2) [OF that]])
  have e: "edges (Suc n) ?kids = insert (p, n) (edges n kids)" using assms(2) by (auto simp: edges_def less_Suc_eq split: if_splits)
  show "?lab a \<noteq> ?lab c" if "(a, c) \<in> (edges (Suc n) ?kids)\<^sup>+" for a c
    using trancl_new_leaf [OF that [unfolded e]]
  proof
    assume ac: "(a, c) \<in> (edges n kids)\<^sup>+"
    then show ?thesis using f(6) edges_range [OF ac assms(1)] by simp
  next
    assume c: "(a, p) \<in> (edges n kids)\<^sup>* \<and> c = n"
    then have "a < n" using assms(2) edges_range [of a p, OF _ assms(1)] by (auto simp: rtrancl_eq_or_trancl)
    then show ?thesis using assms(4) c by auto
  qed
qed

section \<open>Forests are finite\<close>

inductive stem :: "'k set \<Rightarrow> ('k \<Rightarrow> nat set) \<Rightarrow> nat \<Rightarrow> (nat \<Rightarrow> 'l) \<Rightarrow> (nat \<Rightarrow> nat set) \<Rightarrow> nat \<Rightarrow> 'k \<Rightarrow> 'l list \<Rightarrow> bool"
  for K roots n lab kids where
  stem_root: "k \<in> K \<Longrightarrow> c \<in> roots k \<Longrightarrow> stem K roots n lab kids c k [lab c]"
| stem_child: "p < n \<Longrightarrow> c \<in> kids p \<Longrightarrow> stem K roots n lab kids p k ls \<Longrightarrow> stem K roots n lab kids c k (lab c # ls)"

inductive_cases stemE: "stem K roots n lab kids c k ls"

lemma stem_exists:
  assumes "forest K roots n lab kids" "c < n"
  shows "\<exists>k ls. stem K roots n lab kids c k ls"
  using assms(2)
proof (induction c rule: less_induct)
  case (less c)
  then show ?case using forestD(1,3) [OF assms(1)] stem_root stem_child by (metis (no_types, lifting))
qed

lemma stem_unique:
  assumes "forest K roots n lab kids" "stem K roots n lab kids c k ls" "stem K roots n lab kids c' k ls"
  shows "c = c'"
  using assms(2,3)
proof (induction arbitrary: c' rule: stem.induct)
  case (stem_root k c)
  from stem_root(3) show ?case
  proof (cases rule: stem.cases)
    case stem_root
    then show ?thesis using forestD(5) [OF assms(1)] \<open>k \<in> K\<close> \<open>c \<in> roots k\<close> by (auto simp: inj_on_def)
  next
    case (stem_child p)
    then show ?thesis by (auto elim: stem.cases)
  qed
next
  case (stem_child p c k ls)
  from stem_child.prems show ?case
  proof (cases rule: stem.cases)
    case stem_root
    then show ?thesis using stem_child.hyps by (auto elim: stem.cases)
  next
    case (stem_child p')
    then have "p = p'" using stem_child.IH by simp
    then show ?thesis using stem_child forestD(4) [OF assms(1)] \<open>c \<in> kids p\<close> \<open>p < n\<close> by (auto simp: inj_on_def)
  qed
qed

lemma stem_labels:
  assumes "forest K roots n lab kids" "stem K roots n lab kids c k ls"
  shows "k \<in> K \<and> distinct ls \<and> (\<forall>l \<in> set ls. \<exists>a. (a, c) \<in> (edges n kids)\<^sup>* \<and> lab a = l)"
  using assms(2)
proof (induction rule: stem.induct)
  case (stem_child p c k ls)
  have pc: "(p, c) \<in> edges n kids" using stem_child.hyps by (simp add: edges_def)
  have "lab c \<notin> set ls"
  proof
    assume "lab c \<in> set ls"
    with stem_child.IH obtain a where "(a, p) \<in> (edges n kids)\<^sup>*" "lab a = lab c" by blast
    moreover from this(1) pc have "(a, c) \<in> (edges n kids)\<^sup>+" by (rule rtrancl_into_trancl1)
    ultimately show False using forestD(6) [OF assms(1)] by blast
  qed
  then show ?case using stem_child.IH pc by (auto intro: rtrancl_into_rtrancl)
qed auto

text \<open>The number of nodes is at most the number of branches: a root and a list of different labels.\<close>

definition branches :: "'k set \<Rightarrow> 'l set \<Rightarrow> ('k \<times> 'l list) set" where
  "branches K L = K \<times> {ls. set ls \<subseteq> L \<and> distinct ls}"

lemma finite_branches: "finite K \<Longrightarrow> finite L \<Longrightarrow> finite (branches K L)"
  by (simp add: branches_def finite_subset_distinct)

lemma forest_bound:
  assumes f: "forest K roots n lab kids" and fin: "finite K" "finite L" and lab: "\<And>c. c < n \<Longrightarrow> lab c \<in> L"
  shows "n \<le> card (branches K L)"
proof -
  from stem_exists [OF f] have "\<forall>c \<in> {..<n}. \<exists>b. stem K roots n lab kids c (fst b) (snd b)" by simp
  from bchoice [OF this] obtain b where b: "\<And>c. c < n \<Longrightarrow> stem K roots n lab kids c (fst (b c)) (snd (b c))" by auto
  have "inj_on b {..<n}" by (rule inj_onI) (metis b stem_unique [OF f] lessThan_iff)
  moreover have "b ` {..<n} \<subseteq> branches K L"
  proof
    fix x assume "x \<in> b ` {..<n}"
    then obtain c where c: "c < n" "x = b c" by auto
    have "set (snd (b c)) \<subseteq> L"
    proof
      fix l assume "l \<in> set (snd (b c))"
      with stem_labels [OF f b [OF c(1)]] obtain a where a: "(a, c) \<in> (edges n kids)\<^sup>*" "lab a = l" by blast
      then have "a < n" using c(1) edges_range [of a c, OF _ f] by (auto simp: rtrancl_eq_or_trancl)
      then show "l \<in> L" using lab a(2) by blast
    qed
    then show "x \<in> branches K L" using stem_labels [OF f b [OF c(1)]] unfolding c(2) branches_def by (simp add: mem_Times_iff)
  qed
  ultimately have "card {..<n} \<le> card (branches K L)" by (intro card_inj_on_le finite_branches fin) auto
  then show ?thesis by simp
qed

end
