(* ===== verification/Bundle_Builder_Correct.thy ===== *)
theory Bundle_Builder_Correct
  imports Bundle_Solve Bundle_Forest
begin

text \<open>
  The expansion keeps the invariant of the domain and the forest of fetched charms, and makes the
  domain larger whenever it reports so. Hence the refinement loop ends for every store with
  finitely many charms.
\<close>

section \<open>The forest of a domain\<close>

text \<open>The application \<open>a\<close> of model \<open>r\<close>.\<close>

definition app_of :: "'e Domain \<Rightarrow> ModelRef \<times> py_str \<Rightarrow> 'e DomainApplication option" where
  "app_of d k = (case dict_get (models d) (fst k) of None \<Rightarrow> None | Some mc \<Rightarrow> dict_get (applications mc) (snd k))"

definition app_keys :: "'e Domain \<Rightarrow> (ModelRef \<times> py_str) set" where
  "app_keys d = {k. app_of d k \<noteq> None}"

definition added_for :: "'e Domain \<Rightarrow> ModelRef \<times> py_str \<Rightarrow> nat set" where
  "added_for d k = (case app_of d k of None \<Rightarrow> {} | Some da \<Rightarrow> set (app_charms_added da))"

definition label :: "'e Domain \<Rightarrow> nat \<Rightarrow> Charm \<times> ModelRef" where
  "label d c = (spec (charms d ! c), charm_model (charms d ! c))"

definition kids :: "'e Domain \<Rightarrow> nat \<Rightarrow> nat set" where
  "kids d p = set (charms_added (charms d ! p))"

definition tree :: "'e Domain \<Rightarrow> bool" where
  "tree d \<longleftrightarrow> forest (app_keys d) (added_for d) (length (charms d)) (label d) (kids d)"

text \<open>The applications have the same charms fetched for them.\<close>

definition same_roots :: "'e Domain \<Rightarrow> 'e Domain \<Rightarrow> bool" where
  "same_roots d d' \<longleftrightarrow> (\<forall>k. map_option app_charms_added (app_of d' k) = map_option app_charms_added (app_of d k))
     \<and> fst ` set (models d') = fst ` set (models d)"

lemma same_rootsD:
  assumes "same_roots d d'"
  shows "app_keys d' = app_keys d" "added_for d' = added_for d"
proof -
  have eq: "map_option app_charms_added (app_of d' k) = map_option app_charms_added (app_of d k)" for k using assms unfolding same_roots_def by blast
  have "app_of d' k = None \<longleftrightarrow> app_of d k = None" for k using eq [of k] by (metis option.map_disc_iff)
  then show "app_keys d' = app_keys d" by (simp add: app_keys_def)
  show "added_for d' = added_for d"
  proof
    fix k
    show "added_for d' k = added_for d k" using eq [of k] by (cases "app_of d k"; cases "app_of d' k") (simp_all add: added_for_def)
  qed
qed

lemma same_roots_trans: "same_roots d1 d2 \<Longrightarrow> same_roots d2 d3 \<Longrightarrow> same_roots d1 d3"
  by (simp add: same_roots_def)

lemma same_roots_integrations: "same_roots d (d\<lparr>charm_integrations := is\<rparr>)"
  by (simp add: same_roots_def app_of_def)

lemma app_of_refresh [simp]: "app_of (refresh_application_integration_mappings Z d) k = app_of d k"
  by (cases "dict_get (models d) (fst k)") (simp_all add: app_of_def refresh_models)

lemma same_roots_refresh: "same_roots d (refresh_application_integration_mappings Z d)"
  unfolding same_roots_def using refresh_keys [of Z d] by (metis app_of_refresh list.set_map)

lemma pair_result:
  assumes "pair_charms_in_domain Z d a b = Inr (d', t)"
  shows "same_roots d d' \<and> charms d' = charms d \<and> (t \<longrightarrow> length (charm_integrations d) < length (charm_integrations d'))"
proof (cases "t")
  case True
  then obtain ks where "ks \<noteq> []" "d' = refresh_application_integration_mappings Z (d\<lparr>charm_integrations := charm_integrations d @ map (new_integration Z d) ks\<rparr>)"
    using assms by (auto simp: pair_charms_in_domain_def Let_def split: if_splits)
  then show ?thesis using same_roots_trans [OF same_roots_integrations same_roots_refresh] by simp
next
  case False
  then have "d' = d" using assms by (auto simp: pair_charms_in_domain_def Let_def split: if_splits)
  with False show ?thesis by (simp add: same_roots_def)
qed

lemma add_result:
  assumes "add_charm_to_domain Z c d (Some r) = Inr (d', new)"
  shows "same_roots d d' \<and> charm_integrations d' = charm_integrations d \<and> new = length (charms d)
    \<and> (\<exists>x. charms d' = charms d @ [x] \<and> spec x = c \<and> charm_model x = r \<and> charms_added x = [])"
proof -
  from add_charm_cases [OF assms] obtain r' mc cfg where d': "resolve_model_ref d (Some r) = Inr r'" "dict_get (models d) r' = Some mc"
    "new = length (charms d)"
    "d' = refresh_application_integration_mappings Z
       (d\<lparr>charms := charms d @ [new_charm Z c new r' cfg],
          models := dict_set r' (mc\<lparr>applications := map (map_app Z c new) (applications mc)\<rparr>) (models d)\<rparr>)" .
  let ?d = "d\<lparr>charms := charms d @ [new_charm Z c new r' cfg],
          models := dict_set r' (mc\<lparr>applications := map (map_app Z c new) (applications mc)\<rparr>) (models d)\<rparr>"
  have added: "app_charms_added (snd (map_app Z c new (a, da))) = app_charms_added da" for a da by (simp add: map_app_def)
  have "map_option app_charms_added (app_of ?d k) = map_option app_charms_added (app_of d k)" for k
  proof (cases "fst k = r'")
    case True
    then show ?thesis using d'(2) by (simp add: app_of_def dict_get_set map_of_map_app option.map_comp comp_def added)
  next
    case False
    then show ?thesis by (simp add: app_of_def dict_get_set)
  qed
  moreover have "fst ` set (models ?d) = fst ` set (models d)" using d'(2)
    by (simp add: dom_map_of_conv_image_fst [symmetric] dict_get_set insert_absorb domI)
  ultimately have "same_roots d ?d" by (simp add: same_roots_def)
  then have "same_roots d d'" unfolding d'(4) using same_roots_trans same_roots_refresh by blast
  then show ?thesis using d'(1,3) unfolding d'(4) by (simp add: resolve_model_ref_def)
qed

section \<open>The walk to the ancestors\<close>

lemma in_parents: "p \<in> set (parents d a) \<longleftrightarrow> (p, a) \<in> edges (length (charms d)) (kids d)"
  by (auto simp: parents_def edges_def kids_def)

text \<open>If the walk does not find the charm, it has seen a set that is closed under parents.\<close>

lemma in_chain_closed:
  assumes "\<not> in_chain d c r stack visited" "\<And>v. v \<in> visited \<Longrightarrow> label d v \<noteq> (c, r) \<and> set (parents d v) \<subseteq> visited \<union> set stack"
  shows "\<exists>W. visited \<union> set stack \<subseteq> W \<and> (\<forall>v \<in> W. label d v \<noteq> (c, r) \<and> set (parents d v) \<subseteq> W)"
  using assms
proof (induction d c r stack visited rule: in_chain.induct)
  case (1 d c r visited)
  then show ?case by (intro exI [of _ visited]) simp
next
  case (2 d c r a stack visited)
  show ?case
  proof (cases "a \<in> visited")
    case True
    then have "\<not> in_chain d c r stack visited" using "2.prems"(1) by simp
    moreover have "label d v \<noteq> (c, r) \<and> set (parents d v) \<subseteq> visited \<union> set stack" if "v \<in> visited" for v
      using "2.prems"(2) [OF that] True by auto
    ultimately obtain W where "visited \<union> set stack \<subseteq> W" "\<forall>v \<in> W. label d v \<noteq> (c, r) \<and> set (parents d v) \<subseteq> W"
      using "2.IH"(1) [OF True] by blast
    then show ?thesis using True by (intro exI [of _ W]) auto
  next
    case False
    then have a: "label d a \<noteq> (c, r)" "\<not> in_chain d c r (rev (parents d a) @ stack) (insert a visited)"
      using "2.prems"(1) by (auto simp: label_def split: if_splits)
    then have "\<not> (spec (charms d ! a) = c \<and> charm_model (charms d ! a) = r)" by (simp add: label_def)
    moreover have "label d v \<noteq> (c, r) \<and> set (parents d v) \<subseteq> insert a visited \<union> set (rev (parents d a) @ stack)" if "v \<in> insert a visited" for v
      using "2.prems"(2) [of v] that a(1) by auto
    ultimately obtain W where "insert a visited \<union> set (rev (parents d a) @ stack) \<subseteq> W" "\<forall>v \<in> W. label d v \<noteq> (c, r) \<and> set (parents d v) \<subseteq> W"
      using "2.IH"(2) [OF False _ a(2)] by blast
    then show ?thesis by (intro exI [of _ W]) auto
  qed
qed

lemma in_chain_complete:
  assumes "\<not> in_chain d c r [cid] {}" "(a, cid) \<in> (edges (length (charms d)) (kids d))\<^sup>*"
  shows "label d a \<noteq> (c, r)"
proof -
  from in_chain_closed [OF assms(1)] obtain W where W: "cid \<in> W" "\<And>v. v \<in> W \<Longrightarrow> label d v \<noteq> (c, r) \<and> set (parents d v) \<subseteq> W" by auto
  from assms(2) have "a \<in> W"
    by (induction rule: converse_rtrancl_induct) (use W in \<open>auto simp: in_parents [symmetric]\<close>)
  then show ?thesis using W(2) by blast
qed

section \<open>Operations that extend a domain\<close>

definition domain_size :: "'e Domain \<Rightarrow> nat" where
  "domain_size d = length (charms d) + length (charm_integrations d)"

definition pool :: "Charm set \<Rightarrow> 'e z3 \<Rightarrow> 'e Domain \<Rightarrow> bool" where
  "pool C Z d \<longleftrightarrow> domain_ok Z d \<and> tree d \<and> (\<forall>c < length (charms d). spec (charms d ! c) \<in> C)"

definition extends :: "Charm set \<Rightarrow> 'e z3 \<Rightarrow> 'e Domain \<Rightarrow> 'e Domain \<Rightarrow> bool \<Rightarrow> bool" where
  "extends C Z d d' ok \<longleftrightarrow> (pool C Z d \<longrightarrow> pool C Z d' \<and> grows d d' \<and> app_keys d' = app_keys d
     \<and> fst ` set (models d') = fst ` set (models d) \<and> (ok \<longrightarrow> domain_size d < domain_size d'))"

lemma extends_refl: "extends C Z d d False"
  by (simp add: extends_def grows_refl)

lemma domain_size_grows: "grows d d' \<Longrightarrow> domain_size d \<le> domain_size d'"
  using growsD(1,7) by (fastforce simp: domain_size_def)

lemma extends_trans:
  assumes "extends C Z d1 d2 ok1" "extends C Z d2 d3 ok2" "ok \<Longrightarrow> ok1 \<or> ok2"
  shows "extends C Z d1 d3 ok"
  unfolding extends_def
proof
  assume "pool C Z d1"
  with assms(1) have 1: "pool C Z d2" "grows d1 d2" "app_keys d2 = app_keys d1" "fst ` set (models d2) = fst ` set (models d1)" "ok1 \<longrightarrow> domain_size d1 < domain_size d2"
    by (simp_all add: extends_def)
  with assms(2) have 2: "pool C Z d3" "grows d2 d3" "app_keys d3 = app_keys d2" "fst ` set (models d3) = fst ` set (models d2)" "ok2 \<longrightarrow> domain_size d2 < domain_size d3"
    by (simp_all add: extends_def)
  have "domain_size d1 \<le> domain_size d2" "domain_size d2 \<le> domain_size d3" using domain_size_grows 1(2) 2(2) by blast+
  then have "ok \<longrightarrow> domain_size d1 < domain_size d3" using assms(3) 1(5) 2(5) by linarith
  then show "pool C Z d3 \<and> grows d1 d3 \<and> app_keys d3 = app_keys d1 \<and> fst ` set (models d3) = fst ` set (models d1) \<and> (ok \<longrightarrow> domain_size d1 < domain_size d3)"
    using 1 2 grows_trans by simp
qed

lemma extends_weaken: "extends C Z d d' ok \<Longrightarrow> (ok' \<Longrightarrow> ok) \<Longrightarrow> extends C Z d d' ok'"
  by (auto simp: extends_def)

lemma tree_cong:
  assumes "tree d" "same_roots d d'" "length (charms d') = length (charms d)"
    "\<And>c. c < length (charms d) \<Longrightarrow> label d' c = label d c \<and> kids d' c = kids d c"
  shows "tree d'"
  using forest_cong [OF assms(1) [unfolded tree_def], of "label d'" "kids d'" "added_for d'"] assms(3,4) same_rootsD [OF assms(2)]
  by (simp add: tree_def)

lemma extends_pair:
  assumes "pair_charms_in_domain Z d a b = Inr (d', t)"
  shows "extends C Z d d' t"
proof -
  note p = pair_result [OF assms]
  then have "tree d \<Longrightarrow> tree d'" using tree_cong [of d d'] by (simp add: label_def kids_def)
  then show ?thesis using p pair_charms_ok [OF _ assms] pair_charms_grows [OF assms] same_rootsD(1) [of d d']
    by (simp add: extends_def pool_def same_roots_def domain_size_def)
qed

section \<open>Adding charms\<close>

definition only_paired :: "'e z3 \<Rightarrow> 'e Domain \<Rightarrow> 'e Domain \<Rightarrow> bool" where
  "only_paired Z d d' \<longleftrightarrow> same_roots d d' \<and> charms d' = charms d \<and> grows d d' \<and> (domain_ok Z d \<longrightarrow> domain_ok Z d')"

lemma only_paired_refl: "only_paired Z d d"
  by (simp add: only_paired_def same_roots_def grows_refl)

lemma only_paired_trans: "only_paired Z d1 d2 \<Longrightarrow> only_paired Z d2 d3 \<Longrightarrow> only_paired Z d1 d3"
  unfolding only_paired_def using same_roots_trans grows_trans by metis

lemma only_paired_pair: "pair_charms_in_domain Z d a b = Inr (d', t) \<Longrightarrow> only_paired Z d d'"
  using pair_result pair_charms_ok pair_charms_grows unfolding only_paired_def by blast

lemma pair_each_only_paired: "pair_each Z new others d = Inr d' \<Longrightarrow> only_paired Z d d'"
proof (induction others arbitrary: d)
  case (Cons o' others)
  then obtain d1 t where "pair_charms_in_domain Z d o' new = Inr (d1, t)" "pair_each Z new others d1 = Inr d'"
    by (auto simp: bind_result_Inr_iff)
  then show ?case using Cons.IH only_paired_pair only_paired_trans by blast
qed (simp add: only_paired_refl)

lemma note_charm_roots: "same_roots d (note_charm cid ids d)"
  by (simp add: same_roots_def app_of_def)

text \<open>A new charm for the charm \<open>cid\<close>, which is recorded after it was paired.\<close>

lemma extends_child:
  assumes c: "c \<in> C" "charm_wf c" and cid: "cid < length (charms d)"
    and dedup: "\<forall>a \<in> kids d cid. label d a \<noteq> (c, r)" and chain: "\<not> in_chain d c r [cid] {}"
    and add: "add_charm_to_domain Z c d (Some r) = Inr (d1, new)" and pairs: "only_paired Z d1 d2"
  shows "extends C Z d (note_charm cid (charms_added (charms d2 ! cid) @ [new]) d2) True"
  unfolding extends_def
proof
  assume pool: "pool C Z d"
  let ?n = "length (charms d)" and ?d = "note_charm cid (charms_added (charms d2 ! cid) @ [new]) d2"
  note a = add_result [OF add]
  from pairs have p: "same_roots d1 d2" "charms d2 = charms d1" "grows d1 d2" "domain_ok Z d1 \<Longrightarrow> domain_ok Z d2" by (simp_all add: only_paired_def)
  obtain x where x: "charms d2 = charms d @ [x]" "spec x = c" "charm_model x = r" "charms_added x = []" "new = ?n"
    unfolding p(2) using a by blast
  have cid2: "cid < length (charms d2)" using cid x(1) by simp
  have roots: "same_roots d ?d" using a p(1) note_charm_roots same_roots_trans by blast
  have nth: "charms ?d ! k = (if k = cid then (charms d ! cid)\<lparr>charms_added := charms_added (charms d ! cid) @ [?n]\<rparr>
      else if k < ?n then charms d ! k else x)" if "k < Suc ?n" for k
    using that cid x by (cases "k < ?n") (simp_all add: note_charm_nth nth_append)
  have "forest (app_keys d) (added_for d) (Suc ?n) ((label d)(?n := (c, r))) ((kids d)(?n := {}, cid := insert ?n (kids d cid)))"
  proof (rule forest_child [OF _ cid])
    show "forest (app_keys d) (added_for d) ?n (label d) (kids d)" using pool by (simp add: pool_def tree_def)
    show "(c, r) \<notin> label d ` kids d cid" using dedup by auto
    show "label d a \<noteq> (c, r)" if "(a, cid) \<in> (edges ?n (kids d))\<^sup>*" for a using in_chain_complete [OF chain that] .
  qed
  then have "forest (app_keys d) (added_for d) (Suc ?n) (label ?d) (kids ?d)"
  proof (rule forest_cong)
    fix k assume k: "k < Suc ?n"
    show "label ?d k = ((label d)(?n := (c, r))) k" using nth [OF k] x k cid by (auto simp: label_def less_Suc_eq)
    show "kids ?d k = ((kids d)(?n := {}, cid := insert ?n (kids d cid))) k" using nth [OF k] x k cid by (auto simp: kids_def less_Suc_eq)
  qed simp
  then have "tree ?d" unfolding tree_def same_rootsD [OF roots] using x(1) by simp
  moreover have "domain_ok Z ?d"
    using note_charm_ok [OF p(4) [OF add_charm_ok [OF _ c(2) add]] cid2] pool by (simp add: pool_def)
  moreover have "spec (charms ?d ! k) \<in> C" if "k < Suc ?n" for k
    unfolding nth [OF that] using pool c(1) x(2) cid by (simp add: pool_def)
  moreover have "grows d ?d" using add_charm_grows [OF add] p(3) note_charm_grows [OF cid2] grows_trans by blast
  moreover have "domain_size d < domain_size ?d"
    using x(1) growsD(7) [OF p(3)] a by (simp add: domain_size_def)
  ultimately show "pool C Z ?d \<and> grows d ?d \<and> app_keys ?d = app_keys d \<and> fst ` set (models ?d) = fst ` set (models d) \<and> (True \<longrightarrow> domain_size d < domain_size ?d)"
    using x(1) same_rootsD(1) [OF roots] roots by (simp add: pool_def same_roots_def)
qed

lemma app_of_note_app:
  "app_of (note_app r app ids d) k = (if k = (r, app) then map_option (\<lambda>da. da\<lparr>app_charms_added := ids\<rparr>) (app_of d k) else app_of d k)"
proof (cases "dict_get (models d) (fst k)")
  case None
  then show ?thesis by (cases k) (auto simp: app_of_def note_app_models)
next
  case (Some mc)
  have "map_option (\<lambda>da. da) x = x" for x :: "'a DomainApplication option" by (cases x) simp_all
  then show ?thesis using Some by (cases k) (auto simp: app_of_def note_app_models map_of_map_snd)
qed

lemma extends_root:
  assumes c: "c \<in> C" "charm_wf c" and app: "app_of d (r, app) = Some da" and dedup: "\<forall>a \<in> set (app_charms_added da). spec (charms d ! a) \<noteq> c"
    and add: "add_charm_to_domain Z c d (Some r) = Inr (d1, new)"
  shows "extends C Z d (note_app r app (app_charms_added da @ [new]) d1) True"
  unfolding extends_def
proof
  assume pool: "pool C Z d"
  let ?n = "length (charms d)" and ?d = "note_app r app (app_charms_added da @ [new]) d1" and ?k = "(r, app)"
  note a = add_result [OF add]
  then obtain x where x: "charms d1 = charms d @ [x]" "spec x = c" "charm_model x = r" "charms_added x = []" "new = ?n" by blast
  have roots: "same_roots d d1" using a by blast
  have some: "app_of d1 ?k \<noteq> None" using app same_rootsD(1) [OF roots] by (auto simp: app_keys_def)
  have keys: "app_keys ?d = app_keys d" unfolding same_rootsD(1) [OF roots, symmetric] by (auto simp: app_keys_def app_of_note_app)
  have added: "added_for ?d = (added_for d)(?k := insert ?n (added_for d ?k))"
  proof
    fix k
    have "added_for d1 k = added_for d k" using same_rootsD(2) [OF roots] by simp
    then show "added_for ?d k = ((added_for d)(?k := insert ?n (added_for d ?k))) k"
      using some app x(5) by (auto simp: added_for_def app_of_note_app)
  qed
  have nth: "charms ?d ! k = (if k < ?n then charms d ! k else x)" if "k < Suc ?n" for k using that x by (cases "k < ?n") (simp_all add: nth_append)
  have "forest (app_keys d) ((added_for d)(?k := insert ?n (added_for d ?k))) (Suc ?n) ((label d)(?n := (c, r))) ((kids d)(?n := {}))"
  proof (rule forest_root)
    show "forest (app_keys d) (added_for d) ?n (label d) (kids d)" using pool by (simp add: pool_def tree_def)
    show "?k \<in> app_keys d" using app by (simp add: app_keys_def)
    show "(c, r) \<notin> label d ` added_for d ?k" using dedup app by (auto simp: added_for_def label_def)
  qed
  then have "forest (app_keys d) ((added_for d)(?k := insert ?n (added_for d ?k))) (Suc ?n) (label ?d) (kids ?d)"
  proof (rule forest_cong)
    fix k assume k: "k < Suc ?n"
    show "label ?d k = ((label d)(?n := (c, r))) k" using nth [OF k] x k by (auto simp: label_def less_Suc_eq)
    show "kids ?d k = ((kids d)(?n := {})) k" using nth [OF k] x k by (auto simp: kids_def less_Suc_eq)
  qed simp
  then have "tree ?d" unfolding tree_def keys added using x(1) by simp
  moreover have "domain_ok Z ?d" using note_app_ok [OF add_charm_ok [OF _ c(2) add]] pool by (simp add: pool_def)
  moreover have "spec (charms ?d ! k) \<in> C" if "k < Suc ?n" for k unfolding nth [OF that] using pool c(1) x(2) by (simp add: pool_def)
  moreover have "grows d ?d" using add_charm_grows [OF add] note_app_grows grows_trans by blast
  moreover have "domain_size d < domain_size ?d" using x(1) a by (simp add: domain_size_def)
  moreover have "fst ` set (models ?d) = fst ` set (models d)"
  proof -
    have "map fst (models ?d) = map fst (models d1)" by (auto simp: note_app_def)
    then have "fst ` set (models ?d) = fst ` set (models d1)" by (metis list.set_map)
    then show ?thesis using roots by (simp add: same_roots_def)
  qed
  ultimately show "pool C Z ?d \<and> grows d ?d \<and> app_keys ?d = app_keys d \<and> fst ` set (models ?d) = fst ` set (models d) \<and> (True \<longrightarrow> domain_size d < domain_size ?d)"
    using x(1) keys by (simp add: pool_def)
qed

section \<open>The handlers\<close>

text \<open>What the store gives are well-formed charms of the set \<open>C\<close>.\<close>

definition store_ok :: "Charm set \<Rightarrow> charmhub \<Rightarrow> bool" where
  "store_ok C H \<longleftrightarrow> (\<forall>f c. charm_from_store H f = Inr c \<longrightarrow> c \<in> C \<and> charm_wf c)"

lemma try_fetch_ok: "store_ok C H \<Longrightarrow> try_fetch H f = Inr (Inr c) \<Longrightarrow> c \<in> C \<and> charm_wf c"
  by (auto simp: try_fetch_def store_ok_def split: sum.splits store_error.splits)

lemma extends_add_charm_for_charm_id:
  assumes "c \<in> C" "charm_wf c" "add_charm_for_charm_id H Z c cid d r connect neighbors iface = Inr (d', ok)"
  shows "extends C Z d d' ok"
proof (cases ok)
  case False
  then have "d' = d" using assms(3)
    by (auto simp: add_charm_for_charm_id_def charm_at_def bind_result_Inr_iff Let_def split: if_splits)
  then show ?thesis using False by (simp add: extends_refl)
next
  case True
  from assms(3) obtain parent where parent: "charm_at d cid = Inr parent" unfolding add_charm_for_charm_id_def by (auto simp: bind_result_Inr_iff)
  then have cid: "cid < length (charms d)" "parent = charms d ! cid" by (auto simp: charm_at_def split: if_splits)
  have dedup: "\<not> list_ex (\<lambda>a. spec (charms d ! a) = c \<and> charm_model (charms d ! a) = r) (charms_added parent)" and chain: "\<not> in_chain d c r [cid] {}"
    using assms(3) True unfolding add_charm_for_charm_id_def parent bind_result_simps by (auto split: if_splits)
  from assms(3) True dedup chain obtain d1 new others d2 where
    add: "add_charm_to_domain Z c d (Some r) = Inr (d1, new)" and pairs: "pair_each Z new others d1 = Inr d2"
    and d': "d' = note_charm cid (charms_added (charms d2 ! cid) @ [new]) d2"
    unfolding add_charm_for_charm_id_def parent bind_result_simps Let_def by (auto simp: bind_result_Inr_iff)
  have "\<forall>a \<in> kids d cid. label d a \<noteq> (c, r)" using dedup unfolding cid(2) list_ex_iff by (auto simp: kids_def label_def)
  from extends_child [OF assms(1,2) cid(1) this chain add pair_each_only_paired [OF pairs]] show ?thesis using True d' by simp
qed

lemma extends_connect_loop:
  "connect_loop Z cid ep e r others d = Inr (d', ok) \<Longrightarrow> extends C Z d d' ok"
proof (induction Z cid ep e r others d arbitrary: d' ok rule: connect_loop.induct)
  case (2 Z cid ep e r other rest d)
  show ?case
  proof (cases "other = cid \<or> charm_model (charms d ! other) \<noteq> r \<or> \<not> has_compatible_endpoint e (map snd (charm_endpoints (spec (charms d ! other))))
      \<or> is_endpoint_connected_to cid ep other d")
    case True
    then show ?thesis using "2.IH"(1) "2.prems" by simp
  next
    case False
    with "2.prems" obtain d1 t where p: "pair_charms_in_domain Z d cid other = Inr (d1, t)"
      and rest: "(if is_endpoint_connected_to cid ep other d1 then Inr (d1, True) else connect_loop Z cid ep e r rest d1) = Inr (d', ok)"
      by (auto simp: bind_result_Inr_iff)
    show ?thesis
    proof (cases "is_endpoint_connected_to cid ep other d1")
      case True
      with False have "d1 \<noteq> d" by auto
      then have "t" using p by (auto simp: pair_charms_in_domain_def Let_def split: if_splits)
      then show ?thesis using True rest extends_pair [OF p, of C] by simp
    next
      case c: False
      then have "extends C Z d1 d' ok" using "2.IH"(2) [OF False p refl c] rest by simp
      then show ?thesis by (rule extends_trans [OF extends_pair [OF p]]) blast
    qed
  qed
qed (simp add: extends_refl)

lemma extends_available_loop:
  assumes "store_ok C H" "available_loop H Z cid e mc r base stop names added d = Inr (d', ok)"
  shows "extends C Z d d' (ok \<and> \<not> added)"
  using assms
proof (induction H Z cid e mc r base stop names added d arbitrary: d' ok rule: available_loop.induct)
  case (2 H Z cid e mc r base stop n rest added d)
  let ?f = "(fetch_for mc n)\<lparr>f_base := base\<rparr>"
  from "2.prems"(2) obtain x where x: "try_fetch H ?f = Inr x" by (auto simp: bind_result_Inr_iff)
  show ?case
  proof (cases x)
    case (Inl y)
    then show ?thesis using "2.prems" "2.IH"(1) [OF x] x by simp
  next
    case (Inr c)
    show ?thesis
    proof (cases "has_compatible_endpoint e (map snd (charm_endpoints c))")
      case False
      then show ?thesis using "2.prems" "2.IH"(2) [OF x Inr] x Inr by simp
    next
      case True
      with "2.prems"(2) x Inr obtain d1 ok1 where a: "add_charm_for_charm_id H Z c cid d r None False None = Inr (d1, ok1)"
        and rest: "(if ok1 \<and> stop then Inr (d1, True) else available_loop H Z cid e mc r base stop rest (added \<or> ok1) d1) = Inr (d', ok)"
        by (auto simp: bind_result_Inr_iff)
      have c: "c \<in> C" "charm_wf c" using try_fetch_ok [OF "2.prems"(1)] x Inr by auto
      note e = extends_add_charm_for_charm_id [OF c a]
      show ?thesis
      proof (cases "ok1 \<and> stop")
        case s: True
        then show ?thesis using rest e by (auto intro: extends_weaken)
      next
        case s: False
        have "extends C Z d1 d' (ok \<and> \<not> (added \<or> ok1))" using "2.IH"(3) [OF x Inr _ a refl s "2.prems"(1)] rest True s by simp
        then show ?thesis by (rule extends_trans [OF e]) blast
      qed
    qed
  qed
qed (simp add: extends_refl)

lemma extends_expand_models:
  assumes "store_ok C H" "expand_models H Z cid ep rs d = Inr (d', ok)"
  shows "extends C Z d d' ok"
  using assms(2)
proof (induction rs arbitrary: d)
  case (Cons r rs)
  from Cons.prems obtain d1 ok1 where 1: "connect_existing_for_endpoint Z cid ep d r = Inr (d1, ok1)"
    and rest: "(if ok1 then Inr (d1, True) else bind_result (get_charms_for_endpoint H cid ep d1 r) (\<lambda>names.
            bind_result (add_available_charms H Z names cid ep d1 r (\<not> is_application_charm cid d1)) (\<lambda>(d2, ok).
              if ok then Inr (d2, True) else expand_models H Z cid ep rs d2))) = Inr (d', ok)"
    by (auto simp: bind_result_Inr_iff)
  have e1: "extends C Z d d1 ok1" using 1 by (auto simp: connect_existing_for_endpoint_def bind_result_Inr_iff intro: extends_connect_loop)
  show ?case
  proof (cases ok1)
    case True
    then show ?thesis using e1 rest by simp
  next
    case False
    with rest obtain names d2 ok2 where 2: "add_available_charms H Z names cid ep d1 r (\<not> is_application_charm cid d1) = Inr (d2, ok2)"
      and rest2: "(if ok2 then Inr (d2, True) else expand_models H Z cid ep rs d2) = Inr (d', ok)"
      by (auto simp: bind_result_Inr_iff)
    have e2: "extends C Z d1 d2 ok2" using 2 extends_available_loop [OF assms(1)]
      unfolding add_available_charms_def by (fastforce simp: bind_result_Inr_iff)
    show ?thesis
    proof (cases ok2)
      case True
      then show ?thesis using rest2 extends_trans [OF e1 e2] by auto
    next
      case no: False
      then have "extends C Z d2 d' ok" using rest2 Cons.IH by simp
      then show ?thesis using extends_trans [OF extends_trans [OF e1 e2, of False]] by blast
    qed
  qed
qed (simp add: extends_refl)

lemma extends_expand_for_endpoint:
  "store_ok C H \<Longrightarrow> expand_for_endpoint H Z cid ep d = Inr (d', ok) \<Longrightarrow> extends C Z d d' ok"
  unfolding expand_for_endpoint_def Let_def bind_result_Inr_iff using extends_expand_models by blast

lemma extends_add_charm_for_application:
  assumes "c \<in> C" "charm_wf c" "add_charm_for_application Z c app d r = Inr (d', ok)"
  shows "extends C Z d d' ok"
proof -
  from assms(3) obtain mc da where mc: "dict_get (models d) r = Some mc" "dict_get (applications mc) app = Some da"
    and rest: "(if list_ex (\<lambda>a. spec (charms d ! a) = c) (app_charms_added da) then Inr (d, False)
       else bind_result (add_charm_to_domain Z c d (Some r)) (\<lambda>(d1, new). Inr (note_app r app (app_charms_added da @ [new]) d1, True))) = Inr (d', ok)"
    unfolding add_charm_for_application_def lookup_def by (auto simp: bind_result_Inr_iff split: option.splits)
  show ?thesis
  proof (cases "list_ex (\<lambda>a. spec (charms d ! a) = c) (app_charms_added da)")
    case True
    then show ?thesis using rest by (simp add: extends_refl)
  next
    case False
    with rest obtain d1 new where add: "add_charm_to_domain Z c d (Some r) = Inr (d1, new)"
      and d': "d' = note_app r app (app_charms_added da @ [new]) d1" "ok" by (auto simp: bind_result_Inr_iff)
    have "app_of d (r, app) = Some da" using mc by (simp add: app_of_def)
    moreover have "\<forall>a \<in> set (app_charms_added da). spec (charms d ! a) \<noteq> c" using False by (simp add: list_ex_iff)
    ultimately have "extends C Z d d' True" unfolding d'(1) by (intro extends_root [OF assms(1,2) _ _ add])
    then show ?thesis using d'(2) by simp
  qed
qed

lemma extends_connect_pairs: "connect_pairs Z ps d = Inr (d', ok) \<Longrightarrow> extends C Z d d' ok"
proof (induction Z ps d arbitrary: d' ok rule: connect_pairs.induct)
  case (2 Z a b rest d)
  show ?case
  proof (cases "a = b")
    case True
    then show ?thesis using 2 by simp
  next
    case False
    with "2.prems" obtain d1 t1 t2 where p: "pair_charms_in_domain Z d a b = Inr (d1, t1)" "connect_pairs Z rest d1 = Inr (d', t2)" "ok = (t1 \<or> t2)"
      by (auto simp: bind_result_Inr_iff)
    show ?thesis by (rule extends_trans [OF extends_pair [OF p(1)] "2.IH"(2) [OF False p(1) refl p(2)]]) (simp add: p(3))
  qed
qed (simp add: extends_refl)

lemma connect_pairs_only_paired: "connect_pairs Z ps d = Inr (d', ok) \<Longrightarrow> only_paired Z d d'"
proof (induction Z ps d arbitrary: d' ok rule: connect_pairs.induct)
  case (2 Z a b rest d)
  show ?case
  proof (cases "a = b")
    case True
    then show ?thesis using 2 by simp
  next
    case False
    with "2.prems" obtain d1 t1 t2 where p: "pair_charms_in_domain Z d a b = Inr (d1, t1)" "connect_pairs Z rest d1 = Inr (d', t2)"
      by (auto simp: bind_result_Inr_iff)
    show ?thesis by (rule only_paired_trans [OF only_paired_pair [OF p(1)] "2.IH"(2) [OF False p(1) refl p(2)]])
  qed
qed (simp add: only_paired_refl)

lemma extends_connect_apps: "connect_apps_for_integration Z r eps d = Inr (d', ok) \<Longrightarrow> extends C Z d d' ok"
  unfolding connect_apps_for_integration_def Let_def
  by (auto simp: bind_result_Inr_iff extends_refl intro: extends_connect_pairs split: list.splits if_splits)

lemma extends_variant:
  assumes "store_ok C H" "bind_result (try_fetch H f) (\<lambda>x. case x of Inl _ \<Rightarrow> Inr (d, False)
    | Inr c \<Rightarrow> add_charm_for_charm_id H Z c cid d r connect neighbors iface) = Inr (d', ok)"
  shows "extends C Z d d' ok"
proof -
  from assms(2) obtain x where x: "try_fetch H f = Inr x" "(case x of Inl _ \<Rightarrow> Inr (d, False)
    | Inr c \<Rightarrow> add_charm_for_charm_id H Z c cid d r connect neighbors iface) = Inr (d', ok)" by (auto simp: bind_result_Inr_iff)
  show ?thesis
  proof (cases x)
    case (Inl y)
    then show ?thesis using x by (simp add: extends_refl)
  next
    case (Inr c)
    then show ?thesis using x try_fetch_ok [OF assms(1), of f c] extends_add_charm_for_charm_id by auto
  qed
qed

lemma extends_fetch_and_add:
  "store_ok C H \<Longrightarrow> fetch_and_add_charm_variant H Z cid name d r tr rk rv br connect = Inr (d', ok) \<Longrightarrow> extends C Z d d' ok"
  unfolding fetch_and_add_charm_variant_def bind_result_Inr_iff [of "lookup _ _"] using extends_variant by blast

lemma extends_fetch_base:
  "store_ok C H \<Longrightarrow> fetch_base_variant H Z mc r name cid base connect iface d = Inr (d', ok) \<Longrightarrow> extends C Z d d' ok"
  unfolding fetch_base_variant_def Let_def bind_result_Inr_iff [of "charm_at _ _"] using extends_variant by blast

lemma extends_peer_mismatch:
  fixes Z :: "'e z3"
  assumes "store_ok C H" "handle_peer_channel_mismatch H Z owner pn p tr rk ch rv d = Inr (d', ok)"
  shows "extends C Z d d' ok"
proof -
  from assms(2) obtain oc pc :: "'e DomainCharm" and t k b where "bind_result (fetch_and_add_charm_variant H Z p pn d (charm_model pc) t k rv b (cp_charm_id owner)) (\<lambda>(d1, ok).
       if ok then Inr (d1, True)
       else let pch = channel (spec pc) in
            fetch_and_add_charm_variant H Z (cp_charm_id owner) (cp_charm_name owner) d1 (charm_model oc)
              (Some (track pch)) (Some (risk pch)) None (or_none (branch pch)) p) = Inr (d', ok)"
    unfolding handle_peer_channel_mismatch_def bind_result_Inr_iff [of "charm_at _ _"] bind_result_Inr_iff [of "required_release _ _ _"] by auto
  then obtain d1 ok1 where 1: "fetch_and_add_charm_variant H Z p pn d (charm_model pc) t k rv b (cp_charm_id owner) = Inr (d1, ok1)"
    and rest: "(if ok1 then Inr (d1, True) else let pch = channel (spec pc) in
            fetch_and_add_charm_variant H Z (cp_charm_id owner) (cp_charm_name owner) d1 (charm_model oc)
              (Some (track pch)) (Some (risk pch)) None (or_none (branch pch)) p) = Inr (d', ok)"
    unfolding bind_result_Inr_iff by auto
  note e1 = extends_fetch_and_add [OF assms(1) 1]
  show ?thesis
  proof (cases ok1)
    case True
    then show ?thesis using e1 rest by simp
  next
    case False
    then have "extends C Z d1 d' ok" using rest extends_fetch_and_add [OF assms(1)] by (simp add: Let_def)
    then show ?thesis by (rule extends_trans [OF e1]) blast
  qed
qed

lemma extends_base_mismatch:
  assumes "store_ok C H" "handle_subordinate_base_mismatch H Z sn s se pn p sb pb d = Inr (d', ok)"
  shows "extends C Z d d' ok"
proof -
  from assms(2) obtain mc r iface where "bind_result (fetch_base_variant H Z mc r sn s pb p iface d) (\<lambda>(d1, ok1).
     bind_result (fetch_base_variant H Z mc r pn p sb s iface d1) (\<lambda>(d2, ok2). Inr (d2, ok1 \<or> ok2))) = Inr (d', ok)"
    unfolding handle_subordinate_base_mismatch_def Let_def bind_result_Inr_iff [of "charm_at _ _"] bind_result_Inr_iff [of "lookup _ _"] by blast
  then obtain d1 ok1 where 1: "fetch_base_variant H Z mc r sn s pb p iface d = Inr (d1, ok1)"
    "bind_result (fetch_base_variant H Z mc r pn p sb s iface d1) (\<lambda>(d2, ok2). Inr (d2, ok1 \<or> ok2)) = Inr (d', ok)"
    unfolding bind_result_Inr_iff [of "fetch_base_variant H Z mc r sn s pb p iface d"] by auto
  from 1(2) obtain ok2 where 2: "fetch_base_variant H Z mc r pn p sb s iface d1 = Inr (d', ok2)" "ok = (ok1 \<or> ok2)"
    by (auto simp: bind_result_Inr_iff)
  show ?thesis by (rule extends_trans [OF extends_fetch_base [OF assms(1) 1(1)] extends_fetch_base [OF assms(1) 2(1)]]) (simp add: 2(2))
qed

lemma get_charm_ok:
  "store_ok C H \<Longrightarrow> get_charm_for_application H app d r = Inr (Inr c) \<Longrightarrow> c \<in> C \<and> charm_wf c"
  unfolding get_charm_for_application_def bind_result_Inr_iff using try_fetch_ok by blast

lemma extends_integration_charms:
  assumes "store_ok C H" "integration_charms H Z r eps d = Inr (d', ok, ds)"
  shows "extends C Z d d' ok"
  using assms(2)
proof (induction eps arbitrary: d ok ds)
  case (Cons e eps)
  let ?r = "payload_model r e"
  from Cons.prems obtain x where x: "get_charm_for_application H (aep_application e) d ?r = Inr x" by (auto simp: Let_def bind_result_Inr_iff)
  show ?case
  proof (cases x)
    case (Inl err)
    with Cons.prems x obtain ds' where "integration_charms H Z r eps d = Inr (d', ok, ds')" by (auto simp: Let_def bind_result_Inr_iff)
    then show ?thesis by (rule Cons.IH)
  next
    case (Inr c)
    with Cons.prems x obtain d1 ok1 ok2 where 1: "add_charm_for_application Z c (aep_application e) d ?r = Inr (d1, ok1)"
      "integration_charms H Z r eps d1 = Inr (d', ok2, ds)" "ok = (ok1 \<or> ok2)"
      by (auto simp: Let_def bind_result_Inr_iff)
    have c: "c \<in> C" "charm_wf c" using get_charm_ok [OF assms(1)] x Inr by auto
    show ?thesis by (rule extends_trans [OF extends_add_charm_for_application [OF c 1(1)] Cons.IH [OF 1(2)]]) (simp add: 1(3))
  qed
qed (simp add: extends_refl)

lemma without_diagnosticsD: "without_diagnostics x = Inr (d', ok, ds) \<Longrightarrow> x = Inr (d', ok)"
  by (auto simp: without_diagnostics_def bind_result_Inr_iff)

lemma extends_handle:
  assumes H: "store_ok C H" and h: "handle_failed_assertion H Z tag d = Inr (d', ok, ds)"
  shows "extends C Z d d' ok"
proof (cases tag)
  case (ApplicationExistsTag r app)
  with h obtain x where x: "get_charm_for_application H app d r = Inr x" by (auto simp: handle_failed_assertion_def bind_result_Inr_iff)
  show ?thesis
  proof (cases x)
    case (Inl err)
    then show ?thesis using h x ApplicationExistsTag by (simp add: handle_failed_assertion_def extends_refl)
  next
    case (Inr c)
    then have "add_charm_for_application Z c app d r = Inr (d', ok)"
      using h x ApplicationExistsTag without_diagnosticsD by (simp add: handle_failed_assertion_def)
    then show ?thesis using extends_add_charm_for_application get_charm_ok [OF H] x Inr by blast
  qed
next
  case (ApplicationIntegrationExistsTag r eps)
  with h obtain d1 ok1 ds1 where 1: "integration_charms H Z r eps d = Inr (d1, ok1, ds1)"
    and rest: "(if ok1 then Inr (d1, True, ds1) else if ds1 \<noteq> [] then Inr (d1, False, ds1)
      else without_diagnostics (connect_apps_for_integration Z r eps d1)) = Inr (d', ok, ds)"
    by (auto simp: handle_failed_assertion_def bind_result_Inr_iff)
  note e1 = extends_integration_charms [OF H 1]
  show ?thesis
  proof (cases "ok1 \<or> ds1 \<noteq> []")
    case True
    then show ?thesis using rest e1 by (auto split: if_splits)
  next
    case False
    then have "connect_apps_for_integration Z r eps d1 = Inr (d', ok)" using rest without_diagnosticsD by simp
    from extends_connect_apps [OF this] show ?thesis by (rule extends_trans [OF e1]) blast
  qed
next
  case (EndpointCountMatchesIntegrationsTag c k)
  then show ?thesis using extends_expand_for_endpoint [OF H without_diagnosticsD] h by (simp add: handle_failed_assertion_def)
next
  case (CrossModelEndpointCountMatchesIntegrationsTag c k)
  then show ?thesis using extends_expand_for_endpoint [OF H without_diagnosticsD] h by (simp add: handle_failed_assertion_def)
next
  case (CharmEndpointNonOptionalTag c k)
  then show ?thesis using extends_expand_for_endpoint [OF H without_diagnosticsD] h by (simp add: handle_failed_assertion_def)
next
  case PeerChannelMismatchTag
  then show ?thesis using extends_peer_mismatch [OF H without_diagnosticsD] h by (simp add: handle_failed_assertion_def)
next
  case SubordinateBaseMismatchTag
  then show ?thesis using extends_base_mismatch [OF H without_diagnosticsD] h by (simp add: handle_failed_assertion_def)
qed (use h in \<open>simp_all add: handle_failed_assertion_def extends_refl\<close>)

lemma extends_handle_tags:
  assumes "store_ok C H" "handle_tags H Z tags d = Inr (d', ok, ds)"
  shows "extends C Z d d' ok"
  using assms(2)
proof (induction tags arbitrary: d ok ds)
  case (Cons tag tags)
  from Cons.prems obtain d1 ok1 ds1 where 1: "handle_failed_assertion H Z tag d = Inr (d1, ok1, ds1)"
    "bind_result (handle_tags H Z tags d1) (\<lambda>(d2, ok2, ds2). Inr (d2, ok1 \<or> ok2, ds1 @ ds2)) = Inr (d', ok, ds)"
    unfolding handle_tags.simps bind_result_Inr_iff [of "handle_failed_assertion H Z tag d"] by auto
  from 1(2) obtain ok2 ds2 where 2: "handle_tags H Z tags d1 = Inr (d', ok2, ds2)" "ok = (ok1 \<or> ok2)" by (auto simp: bind_result_Inr_iff)
  show ?case by (rule extends_trans [OF extends_handle [OF assms(1) 1(1)] Cons.IH [OF 2(1)]]) (simp add: 2(2))
qed (simp add: extends_refl)

lemma extends_handle_unsat_core:
  assumes "store_ok C H" "handle_unsat_core H Z core d = Inr d'"
  shows "extends C Z d d' True"
  using assms(2) extends_handle_tags [OF assms(1)]
  by (fastforce simp: handle_unsat_core_def Let_def split: sum.splits if_splits)

end
