(* ===== verification/Bundle_Lower_Main.thy ===== *)
theory Bundle_Lower_Main
  imports Bundle_Lower_Correct
begin

text \<open>
  The main theorem about the translation of constraints: its result means what the
  constraint means. One lemma per form of expression, put together by induction on the
  typing rules.
\<close>

section \<open>What a lowered value has to represent\<close>

definition features_of :: "'e evaluation \<Rightarrow> (py_str, 'e) dict \<Rightarrow> py_str set" where
  "features_of E fs = {f. \<exists>v. dict_get fs f = Some v \<and> active E v}"

definition bool_dict :: "'e evaluation \<Rightarrow> (py_str, 'e) dict \<Rightarrow> bool" where
  "bool_dict E fs \<longleftrightarrow> dict_ok fs \<and> (\<forall>(f, v) \<in> set fs. is_bool_val (E v))"

definition represents :: "'e evaluation \<Rightarrow> 'e LoweringContext \<Rightarrow> expr \<Rightarrow> 'e lowered \<Rightarrow> bool" where
  "represents E ctx e v \<longleftrightarrow>
     (case v of
        LExpr x \<Rightarrow> E x = meaning E ctx e
      | LEndpoints refs \<Rightarrow>
          set refs = relations e \<and> distinct refs \<and> (\<forall>r \<in> set refs. dict_get (endpoints (ctx_charm ctx)) (er_name r) \<noteq> None)
      | LFeatures fs \<Rightarrow> bool_dict E fs \<and> meaning E ctx e = VStrs (features_of E fs)
      | LChannels cs \<Rightarrow> E (cs_z3_set cs) = meaning E ctx e)"

fun shape :: "DSLType \<Rightarrow> 'e lowered \<Rightarrow> bool" where
  "shape t (LExpr x) \<longleftrightarrow> t \<in> {TY_INT, TY_BOOL, TY_STR, TY_RUNTIME, TY_CHARM_SET}"
| "shape t (LEndpoints refs) \<longleftrightarrow> t = TY_RELATION_SET"
| "shape t (LFeatures fs) \<longleftrightarrow> t = TY_SET_STR"
| "shape t (LChannels cs) \<longleftrightarrow> t \<in> {TY_SET_STR, TY_SET_INT}"

definition good_context :: "'e evaluation \<Rightarrow> 'e LoweringContext \<Rightarrow> bool" where
  "good_context E ctx \<longleftrightarrow>
     typed_domain E (ctx_domain ctx) \<and> ctx_charm_id ctx < length (charms (ctx_domain ctx))
     \<and> ctx_charm ctx = charms (ctx_domain ctx) ! ctx_charm_id ctx \<and> active E (charm_exists (ctx_charm ctx))"

definition lowers :: "'e z3 \<Rightarrow> 'e evaluation \<Rightarrow> 'e LoweringContext \<Rightarrow> expr \<Rightarrow> bool" where
  "lowers Z E ctx e \<longleftrightarrow>
     (\<forall>s v s'. plain e \<longrightarrow> sorts_ok E ctx e \<longrightarrow> lower_expr Z ctx e s = Inr (v, s') \<longrightarrow>
        represents E ctx e v \<and> shape (dsl_type e) v)"

lemma lowersI:
  "(\<And>s v s'. plain e \<Longrightarrow> sorts_ok E ctx e \<Longrightarrow> lower_expr Z ctx e s = Inr (v, s') \<Longrightarrow>
      represents E ctx e v \<and> shape (dsl_type e) v) \<Longrightarrow> lowers Z E ctx e"
  by (simp add: lowers_def)

lemma lowersD:
  "lowers Z E ctx e \<Longrightarrow> plain e \<Longrightarrow> sorts_ok E ctx e \<Longrightarrow> lower_expr Z ctx e s = Inr (v, s') \<Longrightarrow>
   represents E ctx e v \<and> shape (dsl_type e) v"
  unfolding lowers_def by blast

lemma as_z3_Inr:
  "as_z3 r = Inr (x, s') \<longleftrightarrow> r = Inr (LExpr x, s') \<or> (\<exists>cs. r = Inr (LChannels cs, s') \<and> x = cs_z3_set cs)"
proof (cases r)
  case (Inr p)
  then show ?thesis by (cases p; cases "fst p") (auto simp: as_z3_def)
qed (simp add: as_z3_def)

lemma as_endpoints_Inr:
  "as_endpoints r = Inr (refs, s') \<longleftrightarrow> r = Inr (LEndpoints refs, s') \<and> consistent_cross_model_tags refs"
proof (cases r)
  case (Inr p)
  then show ?thesis by (cases p; cases "fst p") (auto simp: as_endpoints_def)
qed (simp add: as_endpoints_def)

lemma as_features_Inr: "as_features r = Inr (fs, s') \<longleftrightarrow> r = Inr (LFeatures fs, s')"
proof (cases r)
  case (Inr p)
  then show ?thesis by (cases p; cases "fst p") (auto simp: as_features_def)
qed (simp add: as_features_def)

lemma scalar_Inr: "scalar r s = Inr (v, s') \<longleftrightarrow> (\<exists>x. r = Inr x \<and> v = LExpr x) \<and> s' = s"
  by (auto simp: scalar_def bind_result_Inr_iff)

lemma represents_z3:
  "lowers Z E ctx e \<Longrightarrow> plain e \<Longrightarrow> sorts_ok E ctx e \<Longrightarrow> as_z3 (lower_expr Z ctx e s) = Inr (x, s') \<Longrightarrow> E x = meaning E ctx e"
  by (auto simp: as_z3_Inr represents_def dest: lowersD)

lemma represents_endpoints:
  assumes "lowers Z E ctx e" "plain e" "sorts_ok E ctx e" "as_endpoints (lower_expr Z ctx e s) = Inr (refs, s')"
  shows "set refs = relations e" "distinct refs" "consistent_cross_model_tags refs"
    "\<And>r. r \<in> set refs \<Longrightarrow> dict_get (endpoints (ctx_charm ctx)) (er_name r) \<noteq> None"
proof -
  have l: "lower_expr Z ctx e s = Inr (LEndpoints refs, s')" and c: "consistent_cross_model_tags refs"
    using assms(4) by (auto simp: as_endpoints_Inr)
  then show "set refs = relations e" "distinct refs" "consistent_cross_model_tags refs"
    "\<And>r. r \<in> set refs \<Longrightarrow> dict_get (endpoints (ctx_charm ctx)) (er_name r) \<noteq> None"
    using lowersD [OF assms(1-3) l] by (auto simp: represents_def)
qed

lemma meaning_sort:
  "has_type e t \<Longrightarrow>
     (t = TY_INT \<longrightarrow> val_sort (meaning E ctx e) = IntSort) \<and> (t = TY_BOOL \<longrightarrow> val_sort (meaning E ctx e) = BoolSort)
     \<and> (t = TY_STR \<longrightarrow> val_sort (meaning E ctx e) = StringSort) \<and> (t = TY_CHARM_SET \<longrightarrow> val_sort (meaning E ctx e) = SetSort IntSort)
     \<and> (t = TY_SET_STR \<longrightarrow> val_sort (meaning E ctx e) = SetSort StringSort)
     \<and> (t = TY_SET_INT \<longrightarrow> val_sort (meaning E ctx e) = SetSort IntSort) \<and> (t = TY_UNIT_SET \<longrightarrow> val_sort (meaning E ctx e) = IntSort)"
proof (induction rule: has_type.induct)
  case (ty_len_unit e)
  with has_type_unique [OF ty_len_unit(1)] show ?case by simp
next
  case (ty_len_rel e)
  with has_type_unique [OF ty_len_rel(1)] show ?case by simp
next
  case (ty_set_op l t r op)
  then show ?case
    by (cases "meaning E ctx l"; cases "meaning E ctx r") (auto simp: is_set_type_def)
qed (simp_all add: value_set_def)

lemma good_contextD:
  assumes "good_context E ctx"
  shows "typed_domain E (ctx_domain ctx)" "typed_charm E (ctx_charm ctx)" "active E (charm_exists (ctx_charm ctx))"
    "ctx_charm_id ctx < length (charms (ctx_domain ctx))" "ctx_charm ctx = charms (ctx_domain ctx) ! ctx_charm_id ctx"
  using assms by (auto simp: good_context_def typed_domain_def)

lemma good_endpoint:
  assumes "good_context E ctx" "dict_get (endpoints (ctx_charm ctx)) (er_name r) \<noteq> None"
  shows "typed_endpoint E (domain_endpoint ctx r)"
proof -
  obtain ep where ep: "dict_get (endpoints (ctx_charm ctx)) (er_name r) = Some ep" using assms(2) by auto
  with good_contextD(2) [OF assms(1)] dict_get_mem [OF ep] show ?thesis
    by (auto simp: typed_charm_def domain_endpoint_def)
qed

lemma enumerate_map: "enumerate 0 xs = map (\<lambda>i. (i, xs ! i)) [0..<length xs]"
  by (rule nth_equalityI) (simp_all add: nth_enumerate_eq)

lemma typed_enumerate: "typed_domain E d \<Longrightarrow> ic \<in> set (enumerate 0 (charms d)) \<Longrightarrow> typed_charm E (snd ic)"
  unfolding typed_domain_def in_set_enumerate_eq by (metis add.right_neutral diff_zero nth_mem)

section \<open>Charm properties\<close>

context z3_api
begin

lemma ev_member_condition:
  assumes "is_bool_val (ev m (charm_exists dc))" "ev m cs = VInts A"
  shows "ev m (member_condition Z cs (i, dc)) = VBool (active (ev m) (charm_exists dc) \<and> int i \<in> A)"
  unfolding member_condition_def using is_bool_valE [where E = "ev m", OF assms(1)]
  by (simp add: ev_And2 ev_MemInt [OF ev_IntVal assms(2)])

lemma ev_collect_strs:
  assumes "\<And>x. x \<in> set xs \<Longrightarrow> ev m (c x) = VBool (P x)" "\<And>x. x \<in> set xs \<Longrightarrow> \<exists>t. f x = SVStr t" "ev m res = VStrs B"
  shows "ev m (fold (\<lambda>x r. zIf Z (c x) (SetAdd Z r (value_z3 Z (f x))) r) xs res) = VStrs (B \<union> {t. \<exists>x \<in> set xs. P x \<and> f x = SVStr t})"
  using assms
proof (induction xs arbitrary: res B)
  case (Cons x xs)
  obtain t where t: "f x = SVStr t" using Cons.prems(2) [of x] by auto
  have "ev m (zIf Z (c x) (SetAdd Z res (value_z3 Z (f x))) res) = VStrs (B \<union> {t'. P x \<and> f x = SVStr t'})"
    using Cons.prems(1) [of x] Cons.prems(3) by (simp add: t value_z3_def ev_If ev_AddStr ev_StringVal)
  from Cons.IH [OF _ _ this] Cons.prems(1,2) show ?case by auto
qed simp

lemma ev_collect_ints:
  assumes "\<And>x. x \<in> set xs \<Longrightarrow> ev m (c x) = VBool (P x)" "\<And>x. x \<in> set xs \<Longrightarrow> f x = SVInt (g x)" "ev m res = VInts B"
  shows "ev m (fold (\<lambda>x r. zIf Z (c x) (SetAdd Z r (value_z3 Z (f x))) r) xs res) = VInts (B \<union> g ` {x \<in> set xs. P x})"
  using assms
proof (induction xs arbitrary: res B)
  case (Cons x xs)
  have "ev m (zIf Z (c x) (SetAdd Z res (value_z3 Z (f x))) res) = VInts (B \<union> (if P x then {g x} else {}))"
    using Cons.prems(1,2) [of x] Cons.prems(3) by (simp add: value_z3_def ev_If ev_AddInt ev_IntVal)
  from Cons.IH [OF _ _ this] Cons.prems(1,2) show ?case by auto
qed simp

lemma ev_channel_accessor:
  assumes "typed_domain (ev m) (ctx_domain ctx)" "ev m cs = VInts A"
  shows "ev m (cs_z3_set (channel_accessor Z ctx k arg cs)) = value_set (ev m) (ctx_domain ctx) k A"
proof -
  let ?d = "ctx_domain ctx" and ?ics = "enumerate 0 (charms (ctx_domain ctx))"
  let ?P = "\<lambda>ic. active (ev m) (charm_exists (snd ic)) \<and> int (fst ic) \<in> A"
  have c: "ev m (member_condition Z cs ic) = VBool (?P ic)" if "ic \<in> set ?ics" for ic
  proof -
    have "is_bool_val (ev m (charm_exists (snd ic)))"
      using typed_enumerate [OF assms(1) that] by (simp add: typed_charm_def)
    from ev_member_condition [OF this assms(2), of "fst ic"] show ?thesis by simp
  qed
  show ?thesis
  proof (cases "k = KRevision")
    case True
    have "ev m (fold (\<lambda>ic r. zIf Z (member_condition Z cs ic) (SetAdd Z r (value_z3 Z (kind_value KRevision (spec (snd ic))))) r)
        ?ics (EmptySet Z IntSort)) = VInts ({} \<union> (\<lambda>ic. revision (spec (snd ic))) ` {ic \<in> set ?ics. ?P ic})"
      by (rule ev_collect_ints [OF c _ ev_EmptyInts]) (auto simp: kind_value_def)
    moreover have "(\<lambda>ic. revision (spec (snd ic))) ` {ic \<in> set ?ics. ?P ic} = (\<lambda>i. revision (spec (charms ?d ! i))) ` members (ev m) ?d A"
      by (auto simp: members_def enumerate_map image_iff)
    ultimately show ?thesis using True by (simp add: channel_accessor_def Let_def value_set_def)
  next
    case False
    have "ev m (fold (\<lambda>ic r. zIf Z (member_condition Z cs ic) (SetAdd Z r (value_z3 Z (kind_value k (spec (snd ic))))) r)
        ?ics (EmptySet Z StringSort)) = VStrs ({} \<union> {t. \<exists>ic \<in> set ?ics. ?P ic \<and> kind_value k (spec (snd ic)) = SVStr t})"
      using False by (intro ev_collect_strs [OF c _ ev_EmptyStrs]) (auto simp: kind_value_def split: set_kind.split)
    moreover have "{t. \<exists>ic \<in> set ?ics. ?P ic \<and> kind_value k (spec (snd ic)) = SVStr t}
        = {t. \<exists>i \<in> members (ev m) ?d A. kind_value k (spec (charms ?d ! i)) = SVStr t}"
      by (auto simp: members_def enumerate_map)
    ultimately show ?thesis using False by (simp add: channel_accessor_def Let_def value_set_def)
  qed
qed

lemma lowers_accessor:
  assumes "good_context (ev m) ctx" "lowers Z (ev m) ctx a" "has_type a TY_CHARM_SET" "plain a" "sorts_ok (ev m) ctx a"
    and "lower_accessor Z ctx k a (lower_expr Z ctx a s) = Inr (v, s')"
  shows "\<exists>cs. v = LChannels cs \<and> ev m (cs_z3_set cs) = value_set (ev m) (ctx_domain ctx) k (ints_of (meaning (ev m) ctx a))"
proof -
  obtain x s1 where x: "as_z3 (lower_expr Z ctx a s) = Inr (x, s1)" "v = LChannels (channel_accessor Z ctx k a x)"
    using assms(6) by (auto simp: lower_accessor_def bind_result_Inr_iff)
  have "ev m x = meaning (ev m) ctx a" using represents_z3 [OF assms(2,4,5) x(1)] .
  moreover have "val_sort (meaning (ev m) ctx a) = SetSort IntSort" using meaning_sort [OF assms(3)] by blast
  then have "meaning (ev m) ctx a = VInts (ints_of (meaning (ev m) ctx a))"
    by (cases "meaning (ev m) ctx a") (auto simp: ints_of_def)
  ultimately have "ev m x = VInts (ints_of (meaning (ev m) ctx a))" by simp
  from ev_channel_accessor [OF good_contextD(1) [OF assms(1)] this] x(2) show ?thesis by blast
qed

end

section \<open>Endpoints and units\<close>

context z3_api
begin

lemma ev_len_endpoints:
  assumes "good_context (ev m) ctx" "\<And>r. r \<in> set refs \<Longrightarrow> dict_get (endpoints (ctx_charm ctx)) (er_name r) \<noteq> None" "distinct refs"
  shows "ev m (len_endpoints Z ctx refs) = VInt (\<Sum>r \<in> set refs. ref_count (ev m) ctx r)"
proof -
  have "ev m (if cross_model_only r then cross_model_count (domain_endpoint ctx r) else ep_count (domain_endpoint ctx r))
      = VInt (ref_count (ev m) ctx r)" if "r \<in> set refs" for r
    using good_endpoint [OF assms(1) assms(2) [OF that]] by (auto simp: ref_count_def typed_endpoint_def dest: is_int_valE)
  then have "ev m (len_endpoints Z ctx refs) = VInt (sum_list (map (ref_count (ev m) ctx) refs))"
    unfolding len_endpoints_def by (rule ev_Sum_map_zero)
  then show ?thesis using assms(3) by (simp add: sum_list_distinct_conv_sum_set)
qed

lemma ev_bool_endpoints:
  assumes "good_context (ev m) ctx" "\<And>r. r \<in> set refs \<Longrightarrow> dict_get (endpoints (ctx_charm ctx)) (er_name r) \<noteq> None"
  shows "ev m (bool_endpoints Z ctx refs) = VBool (\<exists>r \<in> set refs. ref_used (ev m) ctx r)"
proof (cases "refs = []")
  case False
  have "ev m (if cross_model_only r then zGe Z (cross_model_count (domain_endpoint ctx r)) (IntVal Z 1)
       else ep_integrated (domain_endpoint ctx r)) = VBool (ref_used (ev m) ctx r)" if "r \<in> set refs" for r
  proof -
    have t: "typed_endpoint (ev m) (domain_endpoint ctx r)" using good_endpoint [OF assms(1) assms(2) [OF that]] .
    then have c: "ev m (cross_model_count (domain_endpoint ctx r)) = VInt (int_of (ev m (cross_model_count (domain_endpoint ctx r))))"
      by (auto simp: typed_endpoint_def dest: is_int_valE)
    have "ev m (ep_integrated (domain_endpoint ctx r)) = VBool (active (ev m) (ep_integrated (domain_endpoint ctx r)))"
      using t is_bool_valE [where E = "ev m"] by (simp add: typed_endpoint_def)
    then show ?thesis by (simp add: ref_used_def ref_count_def ev_Ge [OF c ev_IntVal])
  qed
  then show ?thesis using False by (simp add: bool_endpoints_def ev_Or_map)
qed (simp add: bool_endpoints_def ev_BoolVal)

lemma ev_len_units:
  assumes "typed_domain (ev m) d" "ev m cs = VInts A"
  shows "ev m (len_units Z d cs) = VInt (units_meaning (ev m) d A)"
proof -
  let ?P = "\<lambda>ic. active (ev m) (charm_exists (snd ic)) \<and> int (fst ic) \<in> A"
  let ?u = "\<lambda>ic. if ?P ic then int_of (ev m (num_units (snd ic))) else 0"
  have "ev m (zIf Z (member_condition Z cs ic) (num_units (snd ic)) (IntVal Z 0)) = VInt (?u ic)"
    if "ic \<in> set (enumerate 0 (charms d))" for ic
  proof -
    have t: "typed_charm (ev m) (snd ic)" using typed_enumerate [OF assms(1) that] .
    then have "ev m (member_condition Z cs ic) = VBool (?P ic)"
      using ev_member_condition [OF _ assms(2), of "snd ic" "fst ic"] by (simp add: typed_charm_def)
    moreover have "ev m (num_units (snd ic)) = VInt (int_of (ev m (num_units (snd ic))))"
      using t by (auto simp: typed_charm_def dest: is_int_valE)
    ultimately show ?thesis by (simp add: ev_If_Int ev_IntVal)
  qed
  then have "ev m (len_units Z d cs) = VInt (sum_list (map ?u (enumerate 0 (charms d))))"
    unfolding len_units_def by (rule ev_Sum_map_zero)
  also have "sum_list (map ?u (enumerate 0 (charms d))) = (\<Sum>i \<in> {0..<length (charms d)}. ?u (i, charms d ! i))"
    unfolding enumerate_map map_map o_def by (simp only: sum_list_distinct_conv_sum_set [OF distinct_upt] set_upt)
  also have "\<dots> = units_meaning (ev m) d A"
    unfolding units_meaning_def members_def fst_conv snd_conv
    by (rule sum.mono_neutral_cong_right) auto
  finally show ?thesis .
qed

end

section \<open>Features\<close>

lemma features_of_set:
  assumes "dict_ok fs"
  shows "features_of E fs = {f. \<exists>v. (f, v) \<in> set fs \<and> active E v}"
  using assms by (simp add: features_of_def dict_mem_get)

lemma features_of_eq_iff:
  assumes ok: "dict_ok fs"
  shows "features_of E fs = A \<longleftrightarrow> (\<forall>(f, v) \<in> set fs. active E v \<longleftrightarrow> f \<in> A) \<and> A \<subseteq> set (dict_keys fs)"
proof
  assume A: "features_of E fs = A"
  have "active E v \<longleftrightarrow> f \<in> A" if "(f, v) \<in> set fs" for f v
    using that A dict_mem_get [OF ok] by (auto simp: features_of_def)
  moreover have "A \<subseteq> set (dict_keys fs)"
    using A by (auto simp: features_of_def in_dict_keys_iff)
  ultimately show "(\<forall>(f, v) \<in> set fs. active E v \<longleftrightarrow> f \<in> A) \<and> A \<subseteq> set (dict_keys fs)" by blast
next
  assume *: "(\<forall>(f, v) \<in> set fs. active E v \<longleftrightarrow> f \<in> A) \<and> A \<subseteq> set (dict_keys fs)"
  show "features_of E fs = A"
  proof (intro equalityI subsetI)
    fix f assume "f \<in> features_of E fs"
    then show "f \<in> A" using * by (auto simp: features_of_set [OF ok])
  next
    fix f assume f: "f \<in> A"
    with * have "f \<in> set (dict_keys fs)" by blast
    then obtain v where "dict_get fs f = Some v" by (auto simp: in_dict_keys_iff)
    with * f dict_get_mem [OF this] show "f \<in> features_of E fs" by (auto simp: features_of_def)
  qed
qed

context z3_api
begin

lemma ev_merge_feature:
  assumes "bool_dict (ev m) fs" "is_bool_val (ev m v)"
  shows "bool_dict (ev m) (merge_feature Z (f, v) fs)"
    "features_of (ev m) (merge_feature Z (f, v) fs) = features_of (ev m) fs \<union> (if active (ev m) v then {f} else {})"
proof -
  define w where "w = (case dict_get fs f of Some w \<Rightarrow> zOr Z [w, v] | None \<Rightarrow> v)"
  have v: "ev m v = VBool (active (ev m) v)" using is_bool_valE [where E = "ev m", OF assms(2)] .
  have old: "ev m u = VBool (active (ev m) u)" if "dict_get fs f = Some u" for u
    using dict_get_mem [OF that] assms(1) is_bool_valE [where E = "ev m" and x = u] by (auto simp: bool_dict_def)
  have w: "ev m w = VBool (active (ev m) v \<or> f \<in> features_of (ev m) fs)"
    using v old by (auto simp: w_def features_of_def ev_Or2 split: option.split)
  have upd: "merge_feature Z (f, v) fs = dict_set f w fs" by (simp add: merge_feature_def w_def)
  have "(f', v') \<in> set (dict_set f w fs) \<Longrightarrow> v' = w \<or> (f', v') \<in> set fs" for f' v'
    using dict_mem_get [OF dict_ok_set] assms(1) by (fastforce simp: bool_dict_def dict_get_set dict_mem_get split: if_splits)
  then show "bool_dict (ev m) (merge_feature Z (f, v) fs)"
    using assms(1) w unfolding upd bool_dict_def by (fastforce simp: is_bool_val_def)
  show "features_of (ev m) (merge_feature Z (f, v) fs) = features_of (ev m) fs \<union> (if active (ev m) v then {f} else {})"
    using w unfolding upd by (auto simp: features_of_def dict_get_set active_def)
qed

lemma ev_merge_features:
  assumes "\<forall>(f, v) \<in> set fvs. is_bool_val (ev m v)" "bool_dict (ev m) fs"
  shows "bool_dict (ev m) (fold (merge_feature Z) fvs fs)
    \<and> features_of (ev m) (fold (merge_feature Z) fvs fs) = features_of (ev m) fs \<union> {f. \<exists>v. (f, v) \<in> set fvs \<and> active (ev m) v}"
  using assms
proof (induction fvs arbitrary: fs)
  case (Cons fv fvs)
  obtain f v where fv: "fv = (f, v)" by (cases fv)
  have "is_bool_val (ev m v)" using Cons.prems(1) fv by simp
  note step = ev_merge_feature [OF Cons.prems(2) this, of f]
  show ?case using Cons.IH [OF _ step(1)] Cons.prems(1) by (auto simp: fv step(2))
qed simp

lemma ev_features_eq:
  assumes "bool_dict (ev m) fs" "finite expected"
  shows "ev m (lower_features_eq Z fs expected) = VBool (features_of (ev m) fs = expected)"
proof -
  let ?c1 = "map (\<lambda>(f, v). if f \<in> expected then v else zNot Z v) fs"
  let ?missing = "filter (\<lambda>f. f \<notin> set (dict_keys fs)) (sorted_list_of_set expected)"
  let ?bs = "map (\<lambda>(f, v). active (ev m) v \<longleftrightarrow> f \<in> expected) fs @ map (\<lambda>f. False) ?missing"
  have b: "ev m v = VBool (active (ev m) v)" if "(f, v) \<in> set fs" for f v
    using that assms(1) is_bool_valE [where E = "ev m" and x = v] by (auto simp: bool_dict_def)
  have "list_all2 (\<lambda>e b. ev m e = VBool b) (?c1 @ map (\<lambda>f. BoolVal Z False) ?missing) ?bs"
    by (rule list_all2_appendI) (auto simp: list_all2_map1 list_all2_map2 list_all2_same ev_BoolVal b ev_Not [OF b])
  from ev_And [OF this] have conj: "ev m (zAnd Z (?c1 @ map (\<lambda>f. BoolVal Z False) ?missing)) = VBool (list_all id ?bs)" .
  have "list_all id ?bs \<longleftrightarrow> (\<forall>(f, v) \<in> set fs. active (ev m) v \<longleftrightarrow> f \<in> expected) \<and> expected \<subseteq> set (dict_keys fs)"
    using assms(2) by (auto simp: list_all_iff filter_empty_conv)
  also have "\<dots> \<longleftrightarrow> features_of (ev m) fs = expected"
    using assms(1) by (intro features_of_eq_iff [symmetric]) (simp add: bool_dict_def)
  finally show ?thesis
    using conj assms(2) by (auto simp: lower_features_eq_def Let_def ev_BoolVal features_of_def dict_keys_def)
qed

lemma ev_set_op_features:
  assumes "bool_dict (ev m) l" "bool_dict (ev m) r"
  shows "bool_dict (ev m) (set_op_features Z op l r)"
    "features_of (ev m) (set_op_features Z op l r) = op_set op (features_of (ev m) l) (features_of (ev m) r)"
proof -
  have get: "ev m (dict_get_default fs f (BoolVal Z False)) = VBool (f \<in> features_of (ev m) fs)" if "bool_dict (ev m) fs" for fs f
    using that is_bool_valE [where E = "ev m"]
    by (fastforce simp: dict_get_default_def features_of_def ev_BoolVal bool_dict_def dest: dict_get_mem split: option.split)
  define comb where "comb f = (let a = dict_get_default l f (BoolVal Z False); b = dict_get_default r f (BoolVal Z False)
       in case op of UnionOp \<Rightarrow> zOr Z [a, b] | InterOp \<Rightarrow> zAnd Z [a, b] | DiffOp \<Rightarrow> zAnd Z [a, zNot Z b])" for f
  have comb: "ev m (comb f) = VBool (f \<in> op_set op (features_of (ev m) l) (features_of (ev m) r))" for f
    by (cases op) (simp_all add: comb_def Let_def get [OF assms(1)] get [OF assms(2)] ev_Or2 ev_And2 ev_Not)
  have eq: "set_op_features Z op l r = map (\<lambda>f. (f, comb f)) (remdups (dict_keys l @ dict_keys r))"
    by (simp add: set_op_features_def comb_def Let_def)
  have dict_ok: "dict_ok (set_op_features Z op l r)" by (simp add: eq dict_ok_def o_def)
  then show "bool_dict (ev m) (set_op_features Z op l r)"
    unfolding bool_dict_def by (auto simp: eq comb is_bool_val_def)
  have "features_of (ev m) fs \<subseteq> set (dict_keys fs)" for fs
    by (auto simp: features_of_def in_dict_keys_iff)
  then have "op_set op (features_of (ev m) l) (features_of (ev m) r) \<subseteq> set (dict_keys l) \<union> set (dict_keys r)"
    by (cases op) fastforce+
  then show "features_of (ev m) (set_op_features Z op l r) = op_set op (features_of (ev m) l) (features_of (ev m) r)"
    unfolding features_of_set [OF dict_ok] by (auto simp: eq comb active_def image_iff)
qed

end

section \<open>The cases\<close>

context z3_api
begin

lemma lowers_config:
  assumes "good_context (ev m) ctx"
  shows "lowers Z (ev m) ctx (ConfigExpr k)"
proof (rule lowersI)
  fix s v s'
  assume "lower_expr Z ctx (ConfigExpr k) s = Inr (v, s')"
  then obtain x where x: "config_expr Z (ctx_charm ctx) k = Inr x" "v = LExpr x" by (auto simp: scalar_Inr)
  then obtain cfg where cfg: "dict_get (config (ctx_charm ctx)) k = Some cfg"
    by (auto simp: config_expr_def split: option.splits)
  have t: "typed_config (ev m) cfg"
    using dict_get_mem [OF cfg] good_contextD(2) [OF assms] by (auto simp: typed_charm_def)
  have eq: "ev m (zEq Z var (IntVal Z 1)) = VBool (ev m var = VInt 1)" if "is_int_val (ev m var)" for var
    using that by (subst ev_Eq) (simp_all add: ev_IntVal is_int_val_def)
  have "ev m x = config_meaning (ev m) cfg"
    using x(1) t eq by (auto simp: config_expr_def cfg config_meaning_def typed_config_def ev_BoolVal ev_IntVal ev_RealVal ev_StringVal
      split: option.splits config_value.splits if_splits)
  then show "represents (ev m) ctx (ConfigExpr k) v \<and> shape (dsl_type (ConfigExpr k)) v"
    by (simp add: x(2) represents_def cfg)
qed

lemma lowers_set_config:
  assumes "good_context (ev m) ctx"
  shows "lowers Z (ev m) ctx (SetConfigExpr k)"
proof (rule lowersI)
  fix s v s'
  assume "lower_expr Z ctx (SetConfigExpr k) s = Inr (v, s')"
  then obtain x where x: "set_config_expr Z (ctx_charm ctx) k = Inr x" "v = LExpr x" by (auto simp: scalar_Inr)
  then obtain cfg where cfg: "dict_get (config (ctx_charm ctx)) k = Some cfg"
    by (auto simp: set_config_expr_def split: option.splits)
  have t: "typed_config (ev m) cfg"
    using dict_get_mem [OF cfg] good_contextD(2) [OF assms] by (auto simp: typed_charm_def)
  have "ev m x = VBool (is_set_meaning (ev m) (cfg_default cfg \<noteq> None) (cfg_var cfg) (cfg_isset_var cfg))"
    using x(1) t by (auto simp: set_config_expr_def cfg is_set_meaning_def typed_config_def ev_BoolVal
      split: option.splits intro: is_bool_valE [where E = "ev m"])
  then show "represents (ev m) ctx (SetConfigExpr k) v \<and> shape (dsl_type (SetConfigExpr k)) v"
    by (simp add: x(2) represents_def cfg)
qed

lemma lowers_resource:
  assumes "good_context (ev m) ctx"
  shows "lowers Z (ev m) ctx (ResourceExpr k)"
proof (rule lowersI)
  fix s v s'
  assume "lower_expr Z ctx (ResourceExpr k) s = Inr (v, s')"
  then obtain x where x: "resource_expr Z (ctx_charm ctx) k = Inr x" "v = LExpr x" by (auto simp: scalar_Inr)
  then obtain res where res: "dict_get (resources (ctx_charm ctx)) k = Some res"
    by (auto simp: resource_expr_def split: option.splits)
  have "ev m x = (case res_var res of Some v \<Rightarrow> ev m v | None \<Rightarrow> VStr (the (res_default res)))"
    using x(1) by (auto simp: resource_expr_def res ev_StringVal split: option.splits)
  then show "represents (ev m) ctx (ResourceExpr k) v \<and> shape (dsl_type (ResourceExpr k)) v"
    by (simp add: x(2) represents_def res)
qed

lemma lowers_set_resource:
  assumes "good_context (ev m) ctx"
  shows "lowers Z (ev m) ctx (SetResourceExpr k)"
proof (rule lowersI)
  fix s v s'
  assume "lower_expr Z ctx (SetResourceExpr k) s = Inr (v, s')"
  then obtain x where x: "set_resource_expr Z (ctx_charm ctx) k = Inr x" "v = LExpr x" by (auto simp: scalar_Inr)
  then obtain res where res: "dict_get (resources (ctx_charm ctx)) k = Some res"
    by (auto simp: set_resource_expr_def split: option.splits)
  have t: "typed_resource (ev m) res"
    using dict_get_mem [OF res] good_contextD(2) [OF assms] by (auto simp: typed_charm_def)
  have "ev m x = VBool (is_set_meaning (ev m) (res_default res \<noteq> None) (res_var res) (res_isset_var res))"
    using x(1) t by (auto simp: set_resource_expr_def res is_set_meaning_def typed_resource_def ev_BoolVal
      split: option.splits intro: is_bool_valE [where E = "ev m"])
  then show "represents (ev m) ctx (SetResourceExpr k) v \<and> shape (dsl_type (SetResourceExpr k)) v"
    by (simp add: x(2) represents_def res)
qed

lemma lowers_len:
  assumes good: "good_context (ev m) ctx" and a: "lowers Z (ev m) ctx a" and ty: "has_type a TY_RELATION_SET"
  shows "lowers Z (ev m) ctx (LenExpr a)"
proof (rule lowersI)
  fix s v s'
  assume ok: "plain (LenExpr a)" "sorts_ok (ev m) ctx (LenExpr a)" and low: "lower_expr Z ctx (LenExpr a) s = Inr (v, s')"
  have t: "dsl_type a = TY_RELATION_SET" using has_type_unique [OF ty] by simp
  then obtain refs where refs: "as_endpoints (lower_expr Z ctx a s) = Inr (refs, s')" "v = LExpr (len_endpoints Z ctx refs)"
    using low by (cases a) (auto simp: bind_result_Inr_iff)
  note r = represents_endpoints [OF a _ _ refs(1)]
  have "ev m (len_endpoints Z ctx refs) = VInt (\<Sum>r \<in> relations a. ref_count (ev m) ctx r)"
    using ev_len_endpoints [OF good, of refs] r ok by simp
  then show "represents (ev m) ctx (LenExpr a) v \<and> shape (dsl_type (LenExpr a)) v"
    by (simp add: refs(2) represents_def t)
qed

lemma units_self:
  assumes "good_context E ctx"
  shows "units_meaning E (ctx_domain ctx) {int (ctx_charm_id ctx)} = int_of (E (num_units (ctx_charm ctx)))"
proof -
  have "members E (ctx_domain ctx) {int (ctx_charm_id ctx)} = {ctx_charm_id ctx}"
    using assms by (auto simp: members_def good_context_def)
  then show ?thesis using good_contextD(5) [OF assms] by (simp add: units_meaning_def)
qed

lemma lowers_len_units:
  assumes good: "good_context (ev m) ctx" and b: "lowers Z (ev m) ctx b" and ty: "has_type b TY_CHARM_SET"
  shows "lowers Z (ev m) ctx (LenExpr (UnitsExpr b))"
proof (rule lowersI)
  fix s v s'
  assume ok: "plain (LenExpr (UnitsExpr b))" "sorts_ok (ev m) ctx (LenExpr (UnitsExpr b))"
    and low: "lower_expr Z ctx (LenExpr (UnitsExpr b)) s = Inr (v, s')"
  have "\<exists>x. v = LExpr x \<and> ev m x = VInt (units_meaning (ev m) (ctx_domain ctx) (ints_of (meaning (ev m) ctx b)))"
  proof (cases "b = SelfExpr")
    case True
    have "ev m (num_units (ctx_charm ctx)) = VInt (int_of (ev m (num_units (ctx_charm ctx))))"
      using good_contextD(2) [OF good] by (auto simp: typed_charm_def dest: is_int_valE)
    then show ?thesis using low True by (auto simp: units_self [OF good] ints_of_def)
  next
    case False
    then obtain cs where cs: "lower_expr Z ctx b s = Inr (LExpr cs, s')" "v = LExpr (len_units Z (ctx_domain ctx) cs)"
      using low by (auto simp: bind_result_Inr_iff split: lowered.splits) (metis lowered.exhaust)
    have "ev m cs = meaning (ev m) ctx b" using lowersD [OF b _ _ cs(1)] ok by (simp add: represents_def)
    moreover have "val_sort (meaning (ev m) ctx b) = SetSort IntSort" using meaning_sort [OF ty] by blast
    ultimately have "ev m cs = VInts (ints_of (meaning (ev m) ctx b))"
      by (cases "meaning (ev m) ctx b") (auto simp: ints_of_def)
    from ev_len_units [OF good_contextD(1) [OF good] this] cs(2) show ?thesis by simp
  qed
  then show "represents (ev m) ctx (LenExpr (UnitsExpr b)) v \<and> shape (dsl_type (LenExpr (UnitsExpr b))) v"
    by (auto simp: represents_def)
qed

lemma lowers_bool:
  assumes good: "good_context (ev m) ctx" and a: "lowers Z (ev m) ctx a"
  shows "lowers Z (ev m) ctx (BoolFunc a)"
proof (rule lowersI)
  fix s v s'
  assume ok: "plain (BoolFunc a)" "sorts_ok (ev m) ctx (BoolFunc a)" and low: "lower_expr Z ctx (BoolFunc a) s = Inr (v, s')"
  then obtain refs where refs: "as_endpoints (lower_expr Z ctx a s) = Inr (refs, s')" "v = LExpr (bool_endpoints Z ctx refs)"
    by (auto simp: bind_result_Inr_iff)
  note r = represents_endpoints [OF a _ _ refs(1)]
  have "ev m (bool_endpoints Z ctx refs) = VBool (\<exists>r \<in> relations a. ref_used (ev m) ctx r)"
    using ev_bool_endpoints [OF good, of refs] r ok by simp
  then show "represents (ev m) ctx (BoolFunc a) v \<and> shape (dsl_type (BoolFunc a)) v"
    by (simp add: refs(2) represents_def)
qed

lemma lowers_charms:
  assumes good: "good_context (ev m) ctx" and a: "lowers Z (ev m) ctx a"
  shows "lowers Z (ev m) ctx (CharmsExpr a)"
proof (rule lowersI)
  fix s v s'
  assume ok: "plain (CharmsExpr a)" "sorts_ok (ev m) ctx (CharmsExpr a)" and low: "lower_expr Z ctx (CharmsExpr a) s = Inr (v, s')"
  then obtain refs where refs: "as_endpoints (lower_expr Z ctx a s) = Inr (refs, s')"
    "v = LExpr (charm_set_for_endpoints Z (ctx_charm_id ctx) refs (ctx_domain ctx) True)"
    by (auto simp: bind_result_Inr_iff)
  note r = represents_endpoints [OF a _ _ refs(1)]
  from ev_charm_set [OF r(3) good_contextD(1) [OF good]] r(1) ok
  show "represents (ev m) ctx (CharmsExpr a) v \<and> shape (dsl_type (CharmsExpr a)) v"
    by (simp add: refs(2) represents_def)
qed

lemma lowers_reachable:
  assumes good: "good_context (ev m) ctx"
  shows "lowers Z (ev m) ctx (ReachableExpr (EndpointExpr n))"
  by (rule lowersI) (auto simp: represents_def ev_reachable_set [OF good_contextD(1) [OF good]])

lemma lowers_cross:
  assumes a: "lowers Z (ev m) ctx a"
  shows "lowers Z (ev m) ctx (CrossModelExpr a)"
proof (rule lowersI)
  fix s v s'
  let ?f = "\<lambda>r. \<lparr>er_name = er_name r, cross_model_only = True\<rparr>"
  assume ok: "plain (CrossModelExpr a)" "sorts_ok (ev m) ctx (CrossModelExpr a)"
    and low: "lower_expr Z ctx (CrossModelExpr a) s = Inr (v, s')"
  then obtain refs where refs: "as_endpoints (lower_expr Z ctx a s) = Inr (refs, s')" "v = LEndpoints (map ?f refs)"
    by (auto simp: bind_result_Inr_iff)
  have ok': "plain a" "sorts_ok (ev m) ctx a" using ok by simp_all
  note r = represents_endpoints [OF a ok' refs(1)]
  have "inj_on ?f (set refs)"
    using consistent_tagsD [OF r(3)] by (auto simp: inj_on_def)
  then have "distinct (map ?f refs)" using r(2) by (simp add: distinct_map)
  then show "represents (ev m) ctx (CrossModelExpr a) v \<and> shape (dsl_type (CrossModelExpr a)) v"
    using r(1,4) by (simp add: refs(2) represents_def)
qed

lemma lowers_features:
  assumes good: "good_context (ev m) ctx" and a: "lowers Z (ev m) ctx a"
  shows "lowers Z (ev m) ctx (FeaturesExpr a)"
proof (rule lowersI)
  fix s v s'
  assume ok: "plain (FeaturesExpr a)" "sorts_ok (ev m) ctx (FeaturesExpr a)"
    and low: "lower_expr Z ctx (FeaturesExpr a) s = Inr (v, s')"
  then obtain refs where refs: "as_endpoints (lower_expr Z ctx a s) = Inr (refs, s')"
    "v = LFeatures (merge_feature_dicts Z (map (\<lambda>r. feature_vars (domain_endpoint ctx r)) refs))"
    by (auto simp: bind_result_Inr_iff split: if_splits)
  have ok': "plain a" "sorts_ok (ev m) ctx a" using ok by simp_all
  note r = represents_endpoints [OF a ok' refs(1)]
  let ?fvs = "concat (map (\<lambda>r. feature_vars (domain_endpoint ctx r)) refs)"
  have t: "typed_endpoint (ev m) (domain_endpoint ctx r')" if "r' \<in> set refs" for r'
    using good_endpoint [OF good r(4) [OF that]] .
  then have "\<forall>(f, v) \<in> set ?fvs. is_bool_val (ev m v)" by (fastforce simp: typed_endpoint_def)
  from ev_merge_features [OF this, of "[]"]
  have *: "bool_dict (ev m) (fold (merge_feature Z) ?fvs [])"
    "features_of (ev m) (fold (merge_feature Z) ?fvs []) = {f. \<exists>v. (f, v) \<in> set ?fvs \<and> active (ev m) v}"
    by (simp_all add: bool_dict_def features_of_def)
  have "{f. \<exists>v. (f, v) \<in> set ?fvs \<and> active (ev m) v} = active_features (ev m) ctx (relations a)"
    unfolding active_features_def r(1) [symmetric] using t dict_mem_get by (fastforce simp: typed_endpoint_def)
  with * show "represents (ev m) ctx (FeaturesExpr a) v \<and> shape (dsl_type (FeaturesExpr a)) v"
    by (simp add: refs(2) represents_def merge_feature_dicts_def)
qed

lemma lowers_arith:
  assumes l: "lowers Z (ev m) ctx l" and r: "lowers Z (ev m) ctx r" and ty: "has_type l TY_INT" "has_type r TY_INT"
  shows "lowers Z (ev m) ctx (ArithExpr op l r)"
proof (rule lowersI)
  fix s v s'
  assume ok: "plain (ArithExpr op l r)" "sorts_ok (ev m) ctx (ArithExpr op l r)"
    and low: "lower_expr Z ctx (ArithExpr op l r) s = Inr (v, s')"
  then obtain a s1 b where ab: "as_z3 (lower_expr Z ctx l s) = Inr (a, s1)" "as_z3 (lower_expr Z ctx r s1) = Inr (b, s')"
    "v = LExpr (case op of AddOp \<Rightarrow> zAdd Z a b | SubOp \<Rightarrow> zSub Z a b | MulOp \<Rightarrow> zMul Z a b)"
    by (auto simp: bind_result_Inr_iff)
  have "ev m a = meaning (ev m) ctx l" "ev m b = meaning (ev m) ctx r"
    using represents_z3 [OF l _ _ ab(1)] represents_z3 [OF r _ _ ab(2)] ok by simp_all
  moreover have "is_int_val (meaning (ev m) ctx l)" "is_int_val (meaning (ev m) ctx r)"
    using meaning_sort [OF ty(1)] meaning_sort [OF ty(2)] by (simp_all add: is_int_val_def)
  ultimately have "ev m a = VInt (int_of (meaning (ev m) ctx l))" "ev m b = VInt (int_of (meaning (ev m) ctx r))"
    by (auto dest: is_int_valE)
  then show "represents (ev m) ctx (ArithExpr op l r) v \<and> shape (dsl_type (ArithExpr op l r)) v"
    by (cases op) (simp_all add: ab(3) represents_def ev_Add ev_Sub ev_Mul)
qed

lemma bool_operand:
  assumes "lowers Z (ev m) ctx a" "plain a" "sorts_ok (ev m) ctx a" "val_sort (meaning (ev m) ctx a) = BoolSort"
    and "as_z3 (lower_expr Z ctx a s) = Inr (x, s')"
  shows "ev m x = VBool (bool_of (meaning (ev m) ctx a))"
  using represents_z3 [OF assms(1-3,5)] assms(4) by (cases "meaning (ev m) ctx a") (auto simp: bool_of_def)

lemma lowers_not:
  assumes a: "lowers Z (ev m) ctx a"
  shows "lowers Z (ev m) ctx (NotExpr a)"
proof (rule lowersI)
  fix s v s'
  assume ok: "plain (NotExpr a)" "sorts_ok (ev m) ctx (NotExpr a)" and low: "lower_expr Z ctx (NotExpr a) s = Inr (v, s')"
  then obtain x where x: "as_z3 (lower_expr Z ctx a s) = Inr (x, s')" "v = LExpr (zNot Z x)"
    by (auto simp: bind_result_Inr_iff)
  have "ev m x = VBool (bool_of (meaning (ev m) ctx a))" using bool_operand [OF a _ _ _ x(1)] ok by simp
  then show "represents (ev m) ctx (NotExpr a) v \<and> shape (dsl_type (NotExpr a)) v"
    by (simp add: x(2) represents_def ev_Not)
qed

lemma lowers_connectives:
  assumes l: "lowers Z (ev m) ctx l" and r: "lowers Z (ev m) ctx r" and ty: "has_type l TY_BOOL" "has_type r TY_BOOL"
  shows "lowers Z (ev m) ctx (AndExpr l r)" "lowers Z (ev m) ctx (OrExpr l r)" "lowers Z (ev m) ctx (ImpliesExpr l r)"
proof -
  have ops: "ev m a = VBool (bool_of (meaning (ev m) ctx l)) \<and> ev m b = VBool (bool_of (meaning (ev m) ctx r))"
    if "plain l" "plain r" "sorts_ok (ev m) ctx l" "sorts_ok (ev m) ctx r"
      "as_z3 (lower_expr Z ctx l s) = Inr (a, s1)" "as_z3 (lower_expr Z ctx r s1) = Inr (b, s')" for a b s s1 s'
    using bool_operand [OF l that(1,3) _ that(5)] bool_operand [OF r that(2,4) _ that(6)]
      meaning_sort [OF ty(1)] meaning_sort [OF ty(2)] by blast
  show "lowers Z (ev m) ctx (AndExpr l r)" "lowers Z (ev m) ctx (OrExpr l r)" "lowers Z (ev m) ctx (ImpliesExpr l r)"
    by (rule lowersI; auto simp: bind_result_Inr_iff represents_def ev_And2 ev_Or2 ev_Implies dest!: ops)+
qed

lemma ev_set_compare:
  assumes "val_sort (ev m x) = val_sort (ev m y)" "val_sort (ev m x) \<in> {SetSort IntSort, SetSort StringSort}" "op \<noteq> LtOp" "op \<noteq> GtOp"
  shows "ev m (set_compare Z op x y) = VBool (compare_meaning op (ev m x) (ev m y))"
proof -
  consider A B where "ev m x = VInts A" "ev m y = VInts B" | A B where "ev m x = VStrs A" "ev m y = VStrs B"
    using assms(1,2) by (cases "ev m x"; cases "ev m y") auto
  then show ?thesis
  proof cases
    case 1
    have eq: "ev m (zAnd Z [IsSubset Z x y, IsSubset Z y x]) = VBool (A = B)"
      using ev_And2 [OF ev_SubInts [OF 1] ev_SubInts [OF 1(2,1)]] by (simp only: set_eq_subset)
    show ?thesis using assms(3,4) 1
      by (cases op) (simp_all add: set_compare_def Let_def ev_SubInts [OF 1] ev_SubInts [OF 1(2,1)] eq ev_Not [OF eq])
  next
    case 2
    have eq: "ev m (zAnd Z [IsSubset Z x y, IsSubset Z y x]) = VBool (A = B)"
      using ev_And2 [OF ev_SubStrs [OF 2] ev_SubStrs [OF 2(2,1)]] by (simp only: set_eq_subset)
    show ?thesis using assms(3,4) 2
      by (cases op) (simp_all add: set_compare_def Let_def ev_SubStrs [OF 2] ev_SubStrs [OF 2(2,1)] eq ev_Not [OF eq])
  qed
qed

lemma ev_scalar_compare:
  assumes "val_sort (ev m x) = val_sort (ev m y)" "op \<notin> {EqOp, NeqOp} \<Longrightarrow> val_sort (ev m x) = IntSort"
  shows "ev m (scalar_compare Z op x y) = VBool (compare_meaning op (ev m x) (ev m y))"
proof (cases "op \<in> {EqOp, NeqOp}")
  case True
  then show ?thesis by (auto simp: scalar_compare_def ev_Eq [OF assms(1)] ev_Ne [OF assms(1)])
next
  case False
  with assms obtain i j where "ev m x = VInt i" "ev m y = VInt j"
    by (cases "ev m x"; cases "ev m y") auto
  then show ?thesis using False
    by (cases op) (simp_all add: scalar_compare_def ev_Lt ev_Le ev_Gt ev_Ge int_of_def)
qed

lemma lowers_compare:
  assumes l: "lowers Z (ev m) ctx l" and r: "lowers Z (ev m) ctx r" and ty: "has_type l tyl" "has_type r tyr"
    and ord: "op \<notin> {EqOp, NeqOp} \<Longrightarrow> tyl = TY_INT \<or> is_set_type tyl \<and> op \<in> {LeOp, GeOp}"
  shows "lowers Z (ev m) ctx (CompareExpr op l r)"
proof (rule lowersI)
  fix s v s'
  assume ok: "plain (CompareExpr op l r)" "sorts_ok (ev m) ctx (CompareExpr op l r)"
    and low: "lower_expr Z ctx (CompareExpr op l r) s = Inr (v, s')"
  have ok': "plain l" "plain r" "sorts_ok (ev m) ctx l" "sorts_ok (ev m) ctx r" "plain_compare op l r"
    and sorts: "val_sort (meaning (ev m) ctx l) = val_sort (meaning (ev m) ctx r)" using ok by simp_all
  obtain lv s1 where lv: "lower_expr Z ctx l s = Inr (lv, s1)" using low by (auto simp: lower_compare_def bind_result_Inr_iff)
  have lrep: "represents (ev m) ctx l lv" "shape (dsl_type l) lv" using lowersD [OF l ok'(1,3) lv] by blast+
  have "\<exists>x. v = LExpr x \<and> ev m x = VBool (compare_meaning op (meaning (ev m) ctx l) (meaning (ev m) ctx r))"
  proof (cases "\<exists>fs expected. lv = LFeatures fs \<and> r = StrLiteralSet expected")
    case True
    then obtain fs expected where fe: "lv = LFeatures fs" "r = StrLiteralSet expected" by blast
    then have "op = EqOp" using ok'(5) by (simp add: plain_compare_def str_set_lit_def)
    moreover have "v = LExpr (lower_features_eq Z fs expected)" using low lv fe by (simp add: lower_compare_def str_set_lit_def)
    moreover have "bool_dict (ev m) fs" "meaning (ev m) ctx l = VStrs (features_of (ev m) fs)"
      using lrep fe by (simp_all add: represents_def)
    moreover have "finite expected" using ok'(2) fe by simp
    ultimately show ?thesis using ev_features_eq by (simp add: fe)
  next
    case False
    then have "\<not> (\<exists>fs expected. lv = LFeatures fs \<and> str_set_lit r = Some expected)"
      by (auto simp: str_set_lit_def split: expr.splits)
    then have "lower_expr Z ctx (CompareExpr op l r) s =
        bind_result (lower_expr Z ctx r s1) (\<lambda>(rv, s'). compare_values Z ctx op l r lv rv s')"
      by (auto simp: lower_compare_def lv split: lowered.split option.split)
    with low have "bind_result (lower_expr Z ctx r s1) (\<lambda>(rv, s'). compare_values Z ctx op l r lv rv s') = Inr (v, s')" by simp
    then obtain rv s2 where rv: "lower_expr Z ctx r s1 = Inr (rv, s2)"
      and cv: "compare_values Z ctx op l r lv rv s2 = Inr (v, s')" by (auto simp: bind_result_Inr_iff)
    have "str_set_lit l = None" using lv by (cases l) (auto simp: str_set_lit_def)
    then obtain x y s3 where xy: "as_z3 (Inr (lv, s3)) = Inr (x, s3)" "as_z3 (Inr (rv, s3)) = Inr (y, s3)"
      "v = LExpr (if dsl_type l \<in> {TY_CHARM_SET, TY_SET_STR, TY_SET_INT} then set_compare Z op x y else scalar_compare Z op x y)"
      using cv ok'(5) by (auto simp: compare_values_def plain_compare_def bind_result_Inr_iff Let_def as_z3_def split: lowered.splits if_splits)
    have x: "ev m x = meaning (ev m) ctx l" using lrep(1) xy(1) by (auto simp: as_z3_Inr represents_def)
    have y: "ev m y = meaning (ev m) ctx r" using lowersD [OF r ok'(2,4) rv] xy(2) by (auto simp: as_z3_Inr represents_def)
    have tle: "dsl_type l = tyl" using has_type_unique [OF ty(1)] by simp
    show ?thesis
    proof (cases "tyl \<in> {TY_CHARM_SET, TY_SET_STR, TY_SET_INT}")
      case True
      then have "op \<noteq> LtOp" "op \<noteq> GtOp" using ord by auto
      moreover have "val_sort (ev m x) \<in> {SetSort IntSort, SetSort StringSort}"
        using meaning_sort [OF ty(1)] True x by auto
      ultimately show ?thesis using ev_set_compare [of m x y op] True sorts x y by (simp add: xy(3) tle)
    next
      case False
      have "tyl \<noteq> TY_RELATION_SET" using lrep(2) xy(1) tle by (auto simp: as_z3_Inr)
      then have "val_sort (ev m x) = IntSort" if "op \<notin> {EqOp, NeqOp}"
        using ord [OF that] False meaning_sort [OF ty(1)] x by (auto simp: is_set_type_def)
      then show ?thesis using ev_scalar_compare [of m x y op] False sorts x y by (simp add: xy(3) tle)
    qed
  qed
  then show "represents (ev m) ctx (CompareExpr op l r) v \<and> shape (dsl_type (CompareExpr op l r)) v"
    by (auto simp: represents_def)
qed

lemma ev_z3_set_op:
  assumes "val_sort (ev m x) = val_sort (ev m y)" "val_sort (ev m x) \<in> {SetSort IntSort, SetSort StringSort}"
  shows "ev m (z3_set_op Z op x y) = op_meaning op (ev m x) (ev m y)"
proof -
  consider A B where "ev m x = VInts A" "ev m y = VInts B" | A B where "ev m x = VStrs A" "ev m y = VStrs B"
    using assms by (cases "ev m x"; cases "ev m y") auto
  then show ?thesis
    by cases (cases op; simp add: z3_set_op_def ev_UnionInts ev_UnionStrs ev_InterInts ev_InterStrs ev_DiffInts ev_DiffStrs)+
qed

lemma represents_relation_op:
  assumes "represents E ctx l (LEndpoints a)" "represents E ctx r (LEndpoints b)"
  shows "represents E ctx (SetOpExpr ty op l r) (LEndpoints (relation_set_op op a b))"
  using assms by (cases op) (auto simp: represents_def relation_set_op_def)

lemma lowers_set_op:
  assumes l: "lowers Z (ev m) ctx l" and r: "lowers Z (ev m) ctx r" and ty: "has_type l t" "has_type r t" "is_set_type t"
  shows "lowers Z (ev m) ctx (SetOpExpr t op l r)"
proof (rule lowersI)
  fix s v s'
  assume ok: "plain (SetOpExpr t op l r)" "sorts_ok (ev m) ctx (SetOpExpr t op l r)"
    and low: "lower_expr Z ctx (SetOpExpr t op l r) s = Inr (v, s')"
  have ok': "plain l" "plain r" "sorts_ok (ev m) ctx l" "sorts_ok (ev m) ctx r" using ok by simp_all
  have tt: "dsl_type l = t" "dsl_type r = t" using has_type_unique ty(1,2) by blast+
  show "represents (ev m) ctx (SetOpExpr t op l r) v \<and> shape (dsl_type (SetOpExpr t op l r)) v"
  proof (cases "t = TY_RELATION_SET")
    case True
    then obtain a s1 b where ab: "lower_expr Z ctx l s = Inr (LEndpoints a, s1)" "lower_expr Z ctx r s1 = Inr (LEndpoints b, s')"
      "v = LEndpoints (relation_set_op op a b)"
      using low by (auto simp: bind_result_Inr_iff as_endpoints_Inr split: if_splits)
    with lowersD [OF l ok'(1,3) ab(1)] lowersD [OF r ok'(2,4) ab(2)] True show ?thesis
      by (simp add: represents_relation_op)
  next
    case False
    then obtain a s1 b s2 where ab: "lower_expr Z ctx l s = Inr (a, s1)" "lower_expr Z ctx r s1 = Inr (b, s2)"
      "set_op_values Z t op a b s2 = Inr (v, s')"
      using low by (auto simp: bind_result_Inr_iff)
    have rep: "represents (ev m) ctx l a" "shape t a" "represents (ev m) ctx r b" "shape t b"
      using lowersD [OF l ok'(1,3) ab(1)] lowersD [OF r ok'(2,4) ab(2)] tt by auto
    have sorts: "val_sort (meaning (ev m) ctx l) = val_sort (meaning (ev m) ctx r)"
      "val_sort (meaning (ev m) ctx l) \<in> {SetSort IntSort, SetSort StringSort}"
      using meaning_sort [OF ty(1), of "ev m" ctx] meaning_sort [OF ty(2), of "ev m" ctx] ty(3) False by (cases t; simp add: is_set_type_def)+
    note z3 = ev_z3_set_op [of m _ _ op]
    show ?thesis
    proof (cases a)
      case (LFeatures fl)
      then obtain fr where "b = LFeatures fr" "v = LFeatures (set_op_features Z op fl fr)"
        using ab(3) rep by (cases b) (auto simp: set_op_values_def is_channels_def channel_set_op_def as_z3_def)
      then show ?thesis
        using rep LFeatures ev_set_op_features [of m fl fr op] by (simp add: represents_def)
    next
      case (LChannels cl)
      then obtain cr cs where "b = LChannels cr" "v = LChannels cs" "cs_z3_set cs = z3_set_op Z op (cs_z3_set cl) (cs_z3_set cr)"
        using ab(3) rep by (cases b) (auto simp: set_op_values_def is_channels_def channel_set_op_def as_z3_def Let_def)
      then show ?thesis
        using rep LChannels z3 [of "cs_z3_set cl" "cs_z3_set cr"] sorts by (simp add: represents_def)
    next
      case (LExpr x)
      then obtain y where "b = LExpr y" "v = LExpr (z3_set_op Z op x y)"
        using ab(3) rep ty(3) by (cases b) (auto simp: set_op_values_def is_channels_def as_z3_def is_set_type_def)
      then show ?thesis
        using rep LExpr z3 [of x y] sorts by (simp add: represents_def)
    next
      case (LEndpoints refs)
      then show ?thesis using rep False by simp
    qed
  qed
qed

lemma ev_negate_if: "ev m x = VBool b \<Longrightarrow> ev m (negate_if Z neg x) = VBool (b \<noteq> neg)"
  by (auto simp: negate_if_def ev_Not)

text \<open>Membership in a literal set.\<close>

lemma ev_Or_list:
  assumes "\<And>x. x \<in> set xs \<Longrightarrow> ev m (f x) = VBool (P x)"
  shows "ev m (if map f xs = [] then BoolVal Z False else zOr Z (map f xs)) = VBool (\<exists>x \<in> set xs. P x)"
  using ev_Or_map [OF assms] by (auto simp: ev_BoolVal)

lemma ev_clauses:
  assumes "literal_clauses Z x c = Some clauses" "plain c" "val_sort (meaning (ev m) ctx c) = SetSort (val_sort (ev m x))"
  shows "ev m (if clauses = [] then BoolVal Z False else zOr Z clauses) = VBool (in_meaning (ev m x) (meaning (ev m) ctx c))"
proof -
  show ?thesis
  proof (cases c)
    case (IntLiteralSet ns)
    then obtain i where i: "ev m x = VInt i" using assms(3) by (cases "ev m x") auto
    have "ev m (zEq Z x (IntVal Z n)) = VBool (i = n)" for n
      by (subst ev_Eq) (simp_all add: ev_IntVal i)
    from ev_Or_list [of "sorted_list_of_set ns" m "\<lambda>n. zEq Z x (IntVal Z n)" "\<lambda>n. i = n", OF this] assms(1,2) show ?thesis
      by (cases "ns = {}") (auto simp: IntLiteralSet literal_clauses_def i ev_BoolVal)
  next
    case (StrLiteralSet ss)
    then obtain t where t: "ev m x = VStr t" using assms(3) by (cases "ev m x") auto
    have "ev m (zEq Z x (StringVal Z n)) = VBool (t = n)" for n
      by (subst ev_Eq) (simp_all add: ev_StringVal t)
    from ev_Or_list [of "sorted_list_of_set ss" m "\<lambda>n. zEq Z x (StringVal Z n)" "\<lambda>n. t = n", OF this] assms(1,2) show ?thesis
      by (cases "ss = {}") (auto simp: StrLiteralSet literal_clauses_def t ev_BoolVal)
  qed (use assms(1) in \<open>simp_all add: literal_clauses_def\<close>)
qed

lemma ev_in_values:
  assumes e: "represents (ev m) ctx e (LExpr x)" and c: "represents (ev m) ctx c cv" "shape (dsl_type c) cv"
    and sorts: "val_sort (meaning (ev m) ctx c) = StringSort \<and> val_sort (meaning (ev m) ctx e) = StringSort
      \<or> val_sort (meaning (ev m) ctx c) = SetSort (val_sort (meaning (ev m) ctx e))"
    and no_lit: "str_lit e = None \<or> dsl_type c \<noteq> TY_SET_STR" and ct: "dsl_type c \<in> {TY_STR, TY_SET_INT, TY_SET_STR}"
    and ty: "has_type c (dsl_type c)"
    and low: "in_values Z e (LExpr x) cv = Inr r"
  shows "ev m r = VBool (in_meaning (meaning (ev m) ctx e) (meaning (ev m) ctx c))"
proof (cases cv)
  case (LExpr y)
  then have "dsl_type c = TY_STR" using c(2) ct by auto
  then have "val_sort (meaning (ev m) ctx c) = StringSort" using meaning_sort [OF ty] by blast
  moreover have eqs: "ev m y = meaning (ev m) ctx c" "ev m x = meaning (ev m) ctx e"
    using e c(1) LExpr by (simp_all add: represents_def)
  ultimately have "val_sort (ev m y) = StringSort" "val_sort (ev m x) = StringSort" using sorts by auto
  then obtain t u where "ev m y = VStr t" "ev m x = VStr u"
    by (cases "ev m y"; cases "ev m x") simp_all
  then have "ev m (Contains Z y x) = VBool (in_meaning (ev m x) (ev m y))" by (simp add: ev_Contains)
  then show ?thesis using low LExpr by (auto simp: in_values_def eqs split: if_splits)
next
  case (LChannels cs)
  then have "val_sort (meaning (ev m) ctx c) \<noteq> StringSort"
    using c(2) meaning_sort [OF ty, of "ev m" ctx] by auto
  then have s: "val_sort (ev m (cs_z3_set cs)) = SetSort (val_sort (ev m x))"
    using sorts e c(1) LChannels by (auto simp: represents_def)
  then have "ev m (IsMember Z x (cs_z3_set cs)) = VBool (in_meaning (ev m x) (ev m (cs_z3_set cs)))"
    by (cases "ev m x"; cases "ev m (cs_z3_set cs)") (simp_all add: ev_MemInt ev_MemStr)
  then show ?thesis using low e c(1) LChannels by (auto simp: in_values_def represents_def split: if_splits)
next
  case (LFeatures fs)
  then show ?thesis using low no_lit c(2) by (auto simp: in_values_def split: option.splits)
next
  case (LEndpoints refs)
  then show ?thesis using low by (simp add: in_values_def)
qed

lemma lowers_in:
  assumes e: "lowers Z (ev m) ctx e" and c: "lowers Z (ev m) ctx c" and ty: "has_type e te" "has_type c tc"
    and ins: "te = TY_STR \<and> tc = TY_STR \<or> tc = TY_SET_INT \<and> te \<in> {TY_INT, TY_RUNTIME} \<or> tc = TY_SET_STR \<and> te \<in> {TY_STR, TY_RUNTIME}"
  shows "lowers Z (ev m) ctx (InExpr e c neg)"
proof (rule lowersI)
  fix s v s'
  assume ok: "plain (InExpr e c neg)" "sorts_ok (ev m) ctx (InExpr e c neg)"
    and low: "lower_expr Z ctx (InExpr e c neg) s = Inr (v, s')"
  have ok': "plain e" "plain c" "sorts_ok (ev m) ctx e" "sorts_ok (ev m) ctx c" using ok by simp_all
  have tt: "dsl_type e = te" "dsl_type c = tc" using has_type_unique ty by blast+
  let ?E = "meaning (ev m) ctx e" and ?C = "meaning (ev m) ctx c"
  have sorts: "val_sort ?C = StringSort \<and> val_sort ?E = StringSort \<or> val_sort ?C = SetSort (val_sort ?E)"
  proof -
    have "te = TY_RUNTIME \<Longrightarrow> val_sort ?C = SetSort (val_sort ?E)" using ok(2) tt(1) by simp
    with ins meaning_sort [OF ty(1), of "ev m" ctx] meaning_sort [OF ty(2), of "ev m" ctx] show ?thesis
      by (elim disjE conjE insertE emptyE) simp_all
  qed
  have "\<exists>x. v = LExpr (negate_if Z neg x) \<and> ev m x = VBool (in_meaning ?E ?C)"
  proof (cases "is_literal_set c")
    case True
    then obtain x clauses where x: "as_z3 (lower_expr Z ctx e s) = Inr (x, s')" "literal_clauses Z x c = Some clauses"
      "v = LExpr (negate_if Z neg (if clauses = [] then BoolVal Z False else zOr Z clauses))"
      using low by (auto simp: bind_result_Inr_iff split: option.splits)
    have ev: "ev m x = ?E" using represents_z3 [OF e ok'(1,3) x(1)] .
    have "val_sort ?C \<noteq> StringSort" using True by (cases c) (simp_all add: is_literal_set_def)
    then have "val_sort ?C = SetSort (val_sort (ev m x))" using sorts ev by simp
    from ev_clauses [OF x(2) ok'(2) this] x(3) ev show ?thesis by auto
  next
    case lit: False
    show ?thesis
    proof (cases "\<exists>str. str_lit e = Some str \<and> tc = TY_SET_STR")
      case True
      then obtain str where str: "str_lit e = Some str" "tc = TY_SET_STR" by blast
      have e_eq: "e = StrLit str" using str(1) by (cases e) (simp_all add: str_lit_def)
      obtain fs where fs: "lower_expr Z ctx c s = Inr (LFeatures fs, s')" "v = LExpr (negate_if Z neg (dict_get_default fs str (BoolVal Z False)))"
        using low lit str tt by (auto simp: bind_result_Inr_iff as_features_Inr)
      have rep: "bool_dict (ev m) fs" "?C = VStrs (features_of (ev m) fs)"
        using lowersD [OF c ok'(2,4) fs(1)] by (simp_all add: represents_def)
      have "ev m (dict_get_default fs str (BoolVal Z False)) = VBool (str \<in> features_of (ev m) fs)"
        using rep(1) is_bool_valE [where E = "ev m"]
        by (fastforce simp: dict_get_default_def features_of_def ev_BoolVal bool_dict_def dest: dict_get_mem split: option.split)
      then show ?thesis using fs(2) rep(2) e_eq by auto
    next
      case False
      then have "lower_expr Z ctx (InExpr e c neg) s =
          bind_result (lower_expr Z ctx e s) (\<lambda>(x, s1). bind_result (lower_expr Z ctx c s1) (\<lambda>(cv, s2).
              bind_result (in_values Z e x cv) (\<lambda>r. Inr (LExpr (negate_if Z neg r), s2))))"
        using lit tt by (auto split: option.split)
      with low have "bind_result (lower_expr Z ctx e s) (\<lambda>(x, s1). bind_result (lower_expr Z ctx c s1) (\<lambda>(cv, s2).
              bind_result (in_values Z e x cv) (\<lambda>r. Inr (LExpr (negate_if Z neg r), s2)))) = Inr (v, s')" by simp
      then obtain xv s1 cv r where xc: "lower_expr Z ctx e s = Inr (xv, s1)" "lower_expr Z ctx c s1 = Inr (cv, s')"
        "in_values Z e xv cv = Inr r" "v = LExpr (negate_if Z neg r)" by (auto simp: bind_result_Inr_iff)
      obtain x where x: "xv = LExpr x" using xc(3) by (cases xv) (simp_all add: in_values_def)
      have "ev m r = VBool (in_meaning ?E ?C)"
        using ev_in_values [of m ctx e x c cv r] lowersD [OF e ok'(1,3) xc(1)] lowersD [OF c ok'(2,4) xc(2)]
          sorts False tt ins xc(3) ty(2) x by (cases "str_lit e") auto
      then show ?thesis using xc(4) by blast
    qed
  qed
  then show "represents (ev m) ctx (InExpr e c neg) v \<and> shape (dsl_type (InExpr e c neg)) v"
    using ev_negate_if by (auto simp: represents_def)
qed

lemma lowers_accessors:
  assumes good: "good_context (ev m) ctx" and a: "lowers Z (ev m) ctx a" and ty: "has_type a TY_CHARM_SET"
  shows "lowers Z (ev m) ctx (TracksExpr a)" "lowers Z (ev m) ctx (RisksExpr a)"
    "lowers Z (ev m) ctx (ChannelsExpr a)" "lowers Z (ev m) ctx (RevisionsExpr a)"
  by (rule lowersI; auto simp: represents_def dest!: lowers_accessor [OF good a ty, rotated 2])+

lemma lowers_leaves:
  "lowers Z (ev m) ctx (IntLit n)" "lowers Z (ev m) ctx (StrLit t)" "lowers Z (ev m) ctx (IntLiteralSet ns)"
  "lowers Z (ev m) ctx (StrLiteralSet ss)" "lowers Z (ev m) ctx SelfExpr" "lowers Z (ev m) ctx (EndpointExpr ep)"
  by (rule lowersI; auto simp: represents_def ev_IntVal ev_StringVal ev_AddInt [OF ev_EmptyInts ev_IntVal] split: if_splits)+

lemma lowers_all:
  assumes good: "good_context (ev m) ctx" and ty: "has_type e t"
  shows "lowers Z (ev m) ctx e \<and> (\<forall>b. e = UnitsExpr b \<longrightarrow> has_type b TY_CHARM_SET \<and> lowers Z (ev m) ctx b)"
  using ty
proof (induction rule: has_type.induct)
  case (ty_len_unit e)
  then obtain b where "e = UnitsExpr b" by (cases e) (auto elim: has_type.cases simp: is_set_type_def)
  with ty_len_unit.IH lowers_len_units [OF good] show ?case by blast
next
  case (ty_units e)
  then show ?case by (auto intro: lowersI)
next
  case (ty_less l r op)
  then show ?case using lowers_compare [OF _ _ ty_less(1,2)] by auto
next
  case (ty_subset l t r op)
  then show ?case using lowers_compare [OF _ _ ty_subset(1,2)] by auto
next
  case (ty_equal l t r t' op)
  then show ?case using lowers_compare [OF _ _ ty_equal(1,2)] by auto
next
  case (ty_substring e c neg)
  then show ?case using lowers_in [OF _ _ ty_substring(1,2)] by auto
next
  case (ty_in_ints e t c neg)
  then show ?case using lowers_in [OF _ _ ty_in_ints(1,3)] by auto
next
  case (ty_in_strs e t c neg)
  then show ?case using lowers_in [OF _ _ ty_in_strs(1,3)] by auto
qed (use good in \<open>auto intro: lowers_leaves lowers_config lowers_set_config lowers_resource lowers_set_resource lowers_len lowers_bool
   lowers_charms lowers_features lowers_reachable lowers_cross lowers_accessors lowers_arith lowers_set_op lowers_not lowers_connectives\<close>)

lemma lower_meaning:
  assumes "good_context (ev m) ctx" "has_type e TY_BOOL" "plain e" "sorts_ok (ev m) ctx e" "lower Z e ctx = Inr r"
  shows "ev m (lr_expr r) = meaning (ev m) ctx e"
proof -
  obtain x s where low: "lower_expr Z ctx e [] = Inr (LExpr x, s)" and r: "lr_expr r = x"
    using assms(5) by (auto simp: lower_def bind_result_Inr_iff split: lowered.splits) (metis LoweringResult.select_convs(1) lowered.exhaust)
  with lowersD [OF conjunct1 [OF lowers_all [OF assms(1,2)]] assms(3,4) low] show ?thesis by (simp add: represents_def)
qed

end

end
