(* ===== verification/Bundle_Constraints_Correct.thy ===== *)
theory Bundle_Constraints_Correct
  imports Bundle_Constraints Bundle_Domain_Correct Bundle_Lower_Main
begin

text \<open>
  What the solver constraints mean: a model satisfies the assertions of a domain exactly if it
  describes a valid deployment. The conditions of a valid deployment are stated here with
  quantifiers and sets; each group of assertions is shown to express its condition.
\<close>

section \<open>Holding assertions\<close>

definition holds :: "'e evaluation \<Rightarrow> 'e solver \<Rightarrow> bool" where
  "holds E s \<longleftrightarrow> (\<forall>(t, e) \<in> set s. active E e)"

lemma holds_simps [simp]:
  "holds E []" "holds E ((t, e) # s) \<longleftrightarrow> active E e \<and> holds E s" "holds E (s @ s') \<longleftrightarrow> holds E s \<and> holds E s'"
  "holds E (concat ss) \<longleftrightarrow> (\<forall>s \<in> set ss. holds E s)"
  by (auto simp: holds_def)

lemma holds_map: "holds E (map (\<lambda>x. (t x, f x)) xs) \<longleftrightarrow> (\<forall>x \<in> set xs. active E (f x))"
  by (auto simp: holds_def)

lemma holds_map2: "holds E (map (\<lambda>(x, y). (t x y, f x y)) xs) \<longleftrightarrow> (\<forall>(x, y) \<in> set xs. active E (f x y))"
  by (auto simp: holds_def)

lemma ball_enumerate: "(\<forall>x \<in> set (enumerate 0 xs). P x) \<longleftrightarrow> (\<forall>k < length xs. P (k, xs ! k))"
  by (auto simp: enumerate_map)

lemma count_dict:
  assumes "dict_ok dct"
  shows "length (filter P (map snd dct)) = card {k. \<exists>v. dict_get dct k = Some v \<and> P v}"
proof -
  have "{k. \<exists>v. dict_get dct k = Some v \<and> P v} = fst ` set (filter (P \<circ> snd) dct)"
    using assms by (force simp: dict_mem_get [symmetric])
  also have "card \<dots> = length (filter (P \<circ> snd) dct)"
    using assms distinct_map_filter [of fst dct "P \<circ> snd"] distinct_card [of "map fst (filter (P \<circ> snd) dct)"] by (simp add: dict_ok_def)
  finally show ?thesis by (simp add: filter_map comp_def)
qed

lemma count_dict_finite: "finite {k. \<exists>v. dict_get dct k = Some v \<and> P v}"
  by (rule finite_subset [OF _ finite_dom_map_of [of dct]]) auto

lemma card_1_ex1: "finite A \<Longrightarrow> card A = 1 \<longleftrightarrow> (\<exists>!x. x \<in> A)"
  by (auto simp: card_1_singleton_iff)

lemma card_le_1: "finite A \<Longrightarrow> card A \<le> 1 \<longleftrightarrow> (\<forall>x \<in> A. \<forall>y \<in> A. x = y)"
  using card_le_Suc0_iff_eq [of A] by simp

lemma filter_dict_key:
  assumes "dict_ok dct"
  shows "filter (\<lambda>(k, _). k = idx) dct = (case dict_get dct idx of None \<Rightarrow> [] | Some v \<Rightarrow> [(idx, v)])"
  using assms
proof (induction dct)
  case (Cons a dct)
  obtain k v where a: "a = (k, v)" by (cases a)
  show ?case
  proof (cases "k = idx")
    case True
    then have "dict_get dct idx = None" using Cons.prems by (auto simp: dict_ok_def a map_of_eq_None_iff)
    then show ?thesis using True Cons by (simp add: a dict_ok_def)
  qed (use Cons in \<open>auto simp: a dict_ok_def\<close>)
qed simp

context z3_api
begin

lemma ev_sum_terms:
  "list_all2 (\<lambda>t n. ev m t = VInt n) ts ns \<Longrightarrow> ev m (sum_terms Z ts) = VInt (sum_list ns)"
  unfolding sum_terms_def by (subst ev_Sum [where ns = "ns @ [0]"]) (auto simp: ev_IntVal intro: list_all2_appendI)

lemma count_terms_values:
  "\<forall>v \<in> set vs. is_bool_val (ev m v) \<Longrightarrow>
   list_all2 (\<lambda>t n. ev m t = VInt n) (count_terms Z vs) (map (\<lambda>v. if active (ev m) v then 1 else 0) vs)"
  by (induction vs) (auto simp: count_terms_def ev_If_Int [OF is_bool_valE [where E = "ev m"] ev_IntVal ev_IntVal])

lemma sum_list_filter: "sum_list (map (\<lambda>v. if P v then 1 else (0::int)) vs) = int (length (filter P vs))"
  by (induction vs) simp_all

lemma ev_count:
  "\<forall>v \<in> set vs. is_bool_val (ev m v) \<Longrightarrow> ev m (sum_terms Z (count_terms Z vs)) = VInt (int (length (filter (active (ev m)) vs)))"
  using ev_sum_terms [OF count_terms_values, of vs m] by (simp add: sum_list_filter)

lemma active_implies:
  assumes "is_bool_val (ev m x)" "is_bool_val (ev m y)"
  shows "active (ev m) (zImplies Z x y) \<longleftrightarrow> (active (ev m) x \<longrightarrow> active (ev m) y)" "is_bool_val (ev m (zImplies Z x y))"
  using ev_Implies [OF is_bool_valE [where E = "ev m", OF assms(1)] is_bool_valE [where E = "ev m", OF assms(2)]]
  by (simp_all add: active_def is_bool_val_def)

lemma active_not:
  assumes "is_bool_val (ev m x)"
  shows "active (ev m) (zNot Z x) \<longleftrightarrow> \<not> active (ev m) x" "is_bool_val (ev m (zNot Z x))"
  using ev_Not [OF is_bool_valE [where E = "ev m", OF assms]] by (simp_all add: active_def is_bool_val_def)

lemma active_eq:
  assumes "val_sort (ev m x) = val_sort (ev m y)"
  shows "active (ev m) (zEq Z x y) \<longleftrightarrow> ev m x = ev m y" "is_bool_val (ev m (zEq Z x y))"
  using ev_Eq [OF assms] by (simp_all add: active_def is_bool_val_def)

lemma active_and2:
  assumes "is_bool_val (ev m x)" "is_bool_val (ev m y)"
  shows "active (ev m) (zAnd Z [x, y]) \<longleftrightarrow> active (ev m) x \<and> active (ev m) y" "is_bool_val (ev m (zAnd Z [x, y]))"
  using ev_And2 [OF is_bool_valE [where E = "ev m", OF assms(1)] is_bool_valE [where E = "ev m", OF assms(2)]]
  by (simp_all add: active_def is_bool_val_def)

lemma active_or_map:
  assumes "\<And>x. x \<in> set xs \<Longrightarrow> is_bool_val (ev m (f x))"
  shows "active (ev m) (zOr Z (map f xs)) \<longleftrightarrow> (\<exists>x \<in> set xs. active (ev m) (f x))" "is_bool_val (ev m (zOr Z (map f xs)))"
proof -
  have "ev m (zOr Z (map f xs)) = VBool (\<exists>x \<in> set xs. active (ev m) (f x))"
    by (rule ev_Or_map) (rule is_bool_valE [where E = "ev m", OF assms])
  then show "active (ev m) (zOr Z (map f xs)) \<longleftrightarrow> (\<exists>x \<in> set xs. active (ev m) (f x))" "is_bool_val (ev m (zOr Z (map f xs)))"
    unfolding active_def is_bool_val_def by (simp_all only: zval.inject simp_thms val_sort.simps)
qed

lemma active_compare:
  assumes "ev m x = VInt i" "ev m y = VInt j"
  shows "active (ev m) (zGe Z x y) \<longleftrightarrow> i \<ge> j" "is_bool_val (ev m (zGe Z x y))"
    "active (ev m) (zLe Z x y) \<longleftrightarrow> i \<le> j" "is_bool_val (ev m (zLe Z x y))"
    "active (ev m) (zGt Z x y) \<longleftrightarrow> i > j" "is_bool_val (ev m (zGt Z x y))"
  using ev_Ge [OF assms] ev_Le [OF assms] ev_Gt [OF assms] by (simp_all add: active_def is_bool_val_def)

lemma active_count_eq:
  assumes "\<forall>v \<in> set vs. is_bool_val (ev m v)"
  shows "active (ev m) (zEq Z (sum_terms Z (count_terms Z vs)) (IntVal Z 1)) \<longleftrightarrow> length (filter (active (ev m)) vs) = 1"
    and "active (ev m) (zLe Z (sum_terms Z (count_terms Z vs)) (IntVal Z 1)) \<longleftrightarrow> length (filter (active (ev m)) vs) \<le> 1"
  using active_eq(1) [of m "sum_terms Z (count_terms Z vs)" "IntVal Z 1"]
    active_compare(3) [OF ev_count [OF assms] ev_IntVal [of m 1]] ev_count [OF assms] by (auto simp: ev_IntVal)

end

section \<open>Applications and declared integrations\<close>

text \<open>The charm \<open>cid\<close> stands for the application.\<close>

definition stands :: "'e z3 \<Rightarrow> 'e evaluation \<Rightarrow> 'e Domain \<Rightarrow> ModelRef \<Rightarrow> py_str \<Rightarrow> nat \<Rightarrow> bool" where
  "stands Z E d r app cid \<longleftrightarrow> serves d r app cid \<and> active E (app_var Z d app cid)"

abbreviation model_of :: "'e Domain \<Rightarrow> nat \<Rightarrow> ModelRef" where
  "model_of d cid \<equiv> charm_model (charms d ! cid)"

definition realized :: "'e z3 \<Rightarrow> 'e evaluation \<Rightarrow> 'e Domain \<Rightarrow> ModelRef \<Rightarrow> 'e DomainApplicationIntegration \<Rightarrow> nat \<Rightarrow> bool" where
  "realized Z E d r ai idx \<longleftrightarrow>
     idx < length (charm_integrations d) \<and> fits d r ai (charm_integrations d ! idx) \<and> active E (mapping_var Z ai idx (charm_integrations d ! idx))"

definition declared :: "'e Domain \<Rightarrow> (ModelRef \<times> 'e DomainApplicationIntegration) list" where
  "declared d = concat (map (\<lambda>(r, mc). map (Pair r) (application_integrations mc)) (models d))"

text \<open>The applications of the two ends of a declared integration have the charms of the charm integration.\<close>

definition ends_stand :: "'e z3 \<Rightarrow> 'e evaluation \<Rightarrow> 'e Domain \<Rightarrow> 'e DomainApplicationIntegration \<Rightarrow> 'e DomainCharmIntegration \<Rightarrow> bool" where
  "ends_stand Z E d ai i \<longleftrightarrow>
     (\<exists>(q, p) \<in> {(endpoint_1 ai, endpoint_2 ai), (endpoint_2 ai, endpoint_1 ai)}.
        dae_endpoint q = requires_endpoint i \<and> dae_endpoint p = provides_endpoint i
        \<and> stands Z E d (model_of d (requires_charm_id i)) (dae_application q) (requires_charm_id i)
        \<and> stands Z E d (model_of d (provides_charm_id i)) (dae_application p) (provides_charm_id i))"

definition applications_placed :: "'e z3 \<Rightarrow> 'e evaluation \<Rightarrow> 'e Domain \<Rightarrow> bool" where
  "applications_placed Z E d \<longleftrightarrow>
     (\<forall>(r, mc) \<in> set (models d). \<forall>(app, da) \<in> set (applications mc). \<exists>!cid. stands Z E d r app cid)
     \<and> (\<forall>cid < length (charms d). \<forall>app app'. stands Z E d (model_of d cid) app cid \<longrightarrow> stands Z E d (model_of d cid) app' cid \<longrightarrow> app = app')
     \<and> (\<forall>cid < length (charms d). \<forall>app. stands Z E d (model_of d cid) app cid \<longrightarrow> active E (charm_exists (charms d ! cid)))"

definition declarations_met :: "'e z3 \<Rightarrow> 'e evaluation \<Rightarrow> 'e Domain \<Rightarrow> bool" where
  "declarations_met Z E d \<longleftrightarrow>
     (\<forall>(r, ai) \<in> set (declared d). \<not> is_external_cmr d ai \<longrightarrow> (\<exists>!idx. realized Z E d r ai idx))
     \<and> (\<forall>idx < length (charm_integrations d). length (filter (\<lambda>(r, ai). realized Z E d r ai idx) (declared d)) \<le> 1)
     \<and> (\<forall>(r, ai) \<in> set (declared d). \<forall>idx. realized Z E d r ai idx \<longrightarrow>
          active E (int_exists (charm_integrations d ! idx)) \<and> ends_stand Z E d ai (charm_integrations d ! idx))"

lemma declared_mem: "(r, ai) \<in> set (declared d) \<longleftrightarrow> (\<exists>mc. (r, mc) \<in> set (models d) \<and> ai \<in> set (application_integrations mc))"
  by (auto simp: declared_def)

lemma charm_ids_stands:
  assumes "domain_pre Z d" "(r, mc) \<in> set (models d)" "(app, da) \<in> set (applications mc)"
  shows "(\<exists>v. dict_get (charm_ids da) cid = Some v \<and> active E v) \<longleftrightarrow> stands Z E d r app cid"
proof -
  note pre = domain_preD [OF assms(1)]
  have "dict_get (models d) r = Some mc" "dict_get (applications mc) app = Some da"
    using assms(2,3) pre(1) pre(6) [OF assms(2)] by (simp_all add: dict_mem_get)
  then have "serves d r app cid \<longleftrightarrow> dict_get (charm_ids da) cid \<noteq> None" by (simp add: serves_def has_charm_def)
  with pre(7) [OF assms(2,3)] show ?thesis unfolding stands_def by (auto simp: app_ok_def app_var_def)
qed

lemma app_map_stands:
  assumes "domain_pre Z d"
  shows "(\<exists>v. dict_get (app_to_charm_map d) (app, cid) = Some v \<and> active E v) \<longleftrightarrow>
    cid < length (charms d) \<and> stands Z E d (model_of d cid) app cid"
  using app_to_charm_map_get [OF assms, of app cid] by (auto simp: stands_def)

lemma link_linked:
  assumes "domain_ok Z d" "(r, ai) \<in> set (declared d)"
  shows "(\<exists>v. dict_get (charm_integration_ids ai) idx = Some v \<and> active E v) \<longleftrightarrow> realized Z E d r ai idx"
    and "dict_get (charm_integration_ids ai) idx = Some v \<Longrightarrow>
      idx < length (charm_integrations d) \<and> fits d r ai (charm_integrations d ! idx) \<and> v = mapping_var Z ai idx (charm_integrations d ! idx)"
    and "dict_ok (charm_integration_ids ai)"
proof -
  from assms have "links_sound Z d r ai" "links_complete d r ai"
    unfolding domain_ok_def domain_pre_def declared_mem by blast+
  then show ok: "dict_ok (charm_integration_ids ai)"
    and get: "dict_get (charm_integration_ids ai) idx = Some v \<Longrightarrow>
      idx < length (charm_integrations d) \<and> fits d r ai (charm_integrations d ! idx) \<and> v = mapping_var Z ai idx (charm_integrations d ! idx)" for v
    unfolding links_sound_def by blast+
  show "(\<exists>v. dict_get (charm_integration_ids ai) idx = Some v \<and> active E v) \<longleftrightarrow> realized Z E d r ai idx"
  proof (cases "dict_get (charm_integration_ids ai) idx")
    case None
    then show ?thesis using \<open>links_complete d r ai\<close> by (auto simp: links_complete_def realized_def)
  qed (use get in \<open>auto simp: realized_def\<close>)
qed

context z3_api
begin

lemma bool_vars:
  assumes "domain_ok Z d"
  shows "(r, mc) \<in> set (models d) \<Longrightarrow> (app, da) \<in> set (applications mc) \<Longrightarrow> v \<in> set (map snd (charm_ids da)) \<Longrightarrow> is_bool_val (ev m v)"
    and "v \<in> set (map snd (app_to_charm_map d)) \<Longrightarrow> is_bool_val (ev m v)"
    and "(r, ai) \<in> set (declared d) \<Longrightarrow> v \<in> set (map snd (charm_integration_ids ai)) \<Longrightarrow> is_bool_val (ev m v)"
    and "cid < length (charms d) \<Longrightarrow> is_bool_val (ev m (charm_exists (charms d ! cid)))"
    and "i \<in> set (charm_integrations d) \<Longrightarrow> is_bool_val (ev m (int_exists i))"
proof -
  have pre: "domain_pre Z d" using assms by (simp add: domain_ok_def)
  note typed = domain_ok_typed [OF assms, of m]
  show "is_bool_val (ev m v)" if "(r, mc) \<in> set (models d)" "(app, da) \<in> set (applications mc)" "v \<in> set (map snd (charm_ids da))"
  proof -
    from that(3) obtain cid where "(cid, v) \<in> set (charm_ids da)" by auto
    note ok = domain_preD(7) [OF pre that(1,2)]
    have "dict_get (charm_ids da) cid = Some v" using ok \<open>(cid, v) \<in> set (charm_ids da)\<close> by (simp add: app_ok_def dict_mem_get)
    then obtain name where "v = zBool Z name" using ok unfolding app_ok_def by (metis option.distinct(1) option.inject)
    then show ?thesis by simp
  qed
  show "is_bool_val (ev m v)" if "v \<in> set (map snd (app_to_charm_map d))"
    using that typed by (auto simp: typed_domain_def)
  show "is_bool_val (ev m v)" if "(r, ai) \<in> set (declared d)" "v \<in> set (map snd (charm_integration_ids ai))"
  proof -
    from that(2) obtain idx where "(idx, v) \<in> set (charm_integration_ids ai)" by auto
    then have "dict_get (charm_integration_ids ai) idx = Some v" using link_linked(3) [OF assms that(1)] by (simp add: dict_mem_get)
    from link_linked(2) [OF assms that(1) this] show ?thesis by (simp add: mapping_var_def)
  qed
  show "is_bool_val (ev m (charm_exists (charms d ! cid)))" if "cid < length (charms d)"
    using typed that by (simp add: typed_domain_def typed_charm_def)
  show "is_bool_val (ev m (int_exists i))" if "i \<in> set (charm_integrations d)"
    using typed that by (simp add: typed_domain_def)
qed

lemma holds_application_exists:
  assumes "domain_ok Z d"
  shows "holds (ev m) (application_exists Z d) \<longleftrightarrow>
    (\<forall>(r, mc) \<in> set (models d). \<forall>(app, da) \<in> set (applications mc). \<exists>!cid. stands Z (ev m) d r app cid)"
proof -
  have pre: "domain_pre Z d" using assms by (simp add: domain_ok_def)
  have "active (ev m) (zEq Z (sum_terms Z (count_terms Z (map snd (charm_ids da)))) (IntVal Z 1)) \<longleftrightarrow> (\<exists>!cid. stands Z (ev m) d r app cid)"
    if "(r, mc) \<in> set (models d)" "(app, da) \<in> set (applications mc)" for r mc app da
  proof -
    have "dict_ok (charm_ids da)" using domain_preD(7) [OF pre that] by (simp add: app_ok_def)
    from count_dict [OF this, of "active (ev m)"] count_dict_finite [of "charm_ids da" "active (ev m)"]
    have n: "length (filter (active (ev m)) (map snd (charm_ids da))) = card {cid. stands Z (ev m) d r app cid}"
      and fin: "finite {cid. stands Z (ev m) d r app cid}" unfolding charm_ids_stands [OF pre that] by blast+
    have "\<forall>v \<in> set (map snd (charm_ids da)). is_bool_val (ev m v)" using bool_vars(1) [OF assms that] by blast
    from active_count_eq(1) [OF this] show ?thesis unfolding n card_1_ex1 [OF fin] mem_Collect_eq .
  qed
  then show ?thesis by (fastforce simp: application_exists_def holds_map2)
qed

lemma holds_charm_mapped_once:
  assumes "domain_ok Z d"
  shows "holds (ev m) (charm_mapped_once Z d (app_to_charm_map d)) \<longleftrightarrow>
    (\<forall>cid < length (charms d). \<forall>app app'. stands Z (ev m) d (model_of d cid) app cid \<longrightarrow> stands Z (ev m) d (model_of d cid) app' cid \<longrightarrow> app = app')"
proof -
  have pre: "domain_pre Z d" using assms by (simp add: domain_ok_def)
  have one: "active (ev m) (zLe Z (sum_terms Z (count_terms Z (map snd (filter (\<lambda>((_, k), _). k = cid) (app_to_charm_map d))))) (IntVal Z 1)) \<longleftrightarrow>
      (\<forall>app app'. stands Z (ev m) d (model_of d cid) app cid \<longrightarrow> stands Z (ev m) d (model_of d cid) app' cid \<longrightarrow> app = app')"
    if "cid < length (charms d)" for cid
  proof -
    let ?dct = "filter (\<lambda>((_, k), _). k = cid) (app_to_charm_map d)"
    have dct: "dict_ok ?dct" using dict_ok_app_to_charm_map [of d] by (simp add: dict_ok_def distinct_map_filter)
    have "(\<exists>v. dict_get ?dct k = Some v \<and> active (ev m) v) \<longleftrightarrow> snd k = cid \<and> stands Z (ev m) d (model_of d cid) (fst k) cid" for k
      using app_map_stands [OF pre, of "fst k" cid "ev m"] that dct dict_ok_app_to_charm_map [of d]
      by (cases k) (auto simp: dict_mem_get [symmetric])
    then have "length (filter (active (ev m)) (map snd ?dct)) = card {k. snd k = cid \<and> stands Z (ev m) d (model_of d cid) (fst k) cid}"
      and "finite {k. snd k = cid \<and> stands Z (ev m) d (model_of d cid) (fst k) cid}"
      using count_dict [OF dct, of "active (ev m)"] count_dict_finite [of ?dct "active (ev m)"] by simp_all
    moreover have "\<forall>v \<in> set (map snd ?dct). is_bool_val (ev m v)" using bool_vars(2) [OF assms] by auto
    ultimately have "active (ev m) (zLe Z (sum_terms Z (count_terms Z (map snd ?dct))) (IntVal Z 1)) \<longleftrightarrow>
        (\<forall>x \<in> {k. snd k = cid \<and> stands Z (ev m) d (model_of d cid) (fst k) cid}.
         \<forall>y \<in> {k. snd k = cid \<and> stands Z (ev m) d (model_of d cid) (fst k) cid}. x = y)"
      using active_count_eq(2) [of "map snd ?dct" m] by (simp only: card_le_1)
    also have "\<dots> \<longleftrightarrow> (\<forall>app app'. stands Z (ev m) d (model_of d cid) app cid \<longrightarrow> stands Z (ev m) d (model_of d cid) app' cid \<longrightarrow> app = app')"
      by auto
    finally show ?thesis .
  qed
  show ?thesis unfolding charm_mapped_once_def holds_map2 ball_enumerate prod.case using one by blast
qed

lemma holds_mapped_charm_exists:
  assumes "domain_ok Z d"
  shows "holds (ev m) (mapped_charm_exists Z d (app_to_charm_map d)) \<longleftrightarrow>
    (\<forall>cid < length (charms d). \<forall>app. stands Z (ev m) d (model_of d cid) app cid \<longrightarrow> active (ev m) (charm_exists (charms d ! cid)))"
proof -
  have pre: "domain_pre Z d" using assms by (simp add: domain_ok_def)
  have imp: "active (ev m) (zImplies Z v (charm_exists (charms d ! cid))) \<longleftrightarrow> (active (ev m) v \<longrightarrow> active (ev m) (charm_exists (charms d ! cid)))"
    if "((app, cid), v) \<in> set (app_to_charm_map d)" for app cid v
    using that bool_vars(2) [OF assms, of v] bool_vars(4) [OF assms, of cid] app_to_charm_map_mem [OF pre, of app cid v]
    by (intro active_implies(1)) force+
  have "holds (ev m) (mapped_charm_exists Z d (app_to_charm_map d)) \<longleftrightarrow>
      (\<forall>app cid v. ((app, cid), v) \<in> set (app_to_charm_map d) \<longrightarrow> active (ev m) v \<longrightarrow> active (ev m) (charm_exists (charms d ! cid)))"
    using imp by (fastforce simp: mapped_charm_exists_def holds_def)
  then show ?thesis by (auto simp: app_to_charm_map_mem [OF pre] stands_def)
qed

lemma holds_integration_exists:
  assumes "domain_ok Z d"
  shows "holds (ev m) (application_integration_exists Z d) \<longleftrightarrow>
    (\<forall>(r, ai) \<in> set (declared d). \<not> is_external_cmr d ai \<longrightarrow> (\<exists>!idx. realized Z (ev m) d r ai idx))"
proof -
  have one: "active (ev m) (zEq Z (sum_terms Z (count_terms Z (map snd (charm_integration_ids ai)))) (IntVal Z 1)) \<longleftrightarrow>
      (\<exists>!idx. realized Z (ev m) d r ai idx)" if "(r, ai) \<in> set (declared d)" for r ai
  proof -
    note links = link_linked [OF assms that]
    from count_dict [OF links(3), of "active (ev m)"] count_dict_finite [of "charm_integration_ids ai" "active (ev m)"]
    have n: "length (filter (active (ev m)) (map snd (charm_integration_ids ai))) = card {idx. realized Z (ev m) d r ai idx}"
      and fin: "finite {idx. realized Z (ev m) d r ai idx}" unfolding links(1) by blast+
    have "\<forall>v \<in> set (map snd (charm_integration_ids ai)). is_bool_val (ev m v)" using bool_vars(3) [OF assms that] by blast
    from active_count_eq(1) [OF this] show ?thesis unfolding n card_1_ex1 [OF fin] mem_Collect_eq .
  qed
  have "holds (ev m) (application_integration_exists Z d) \<longleftrightarrow> (\<forall>(r, ai) \<in> set (declared d). \<not> is_external_cmr d ai \<longrightarrow>
      active (ev m) (zEq Z (sum_terms Z (count_terms Z (map snd (charm_integration_ids ai)))) (IntVal Z 1)))"
    by (fastforce simp: application_integration_exists_def holds_map declared_mem)
  then show ?thesis using one by blast
qed

lemma integration_links_linked:
  assumes "domain_ok Z d"
  shows "length (filter (active (ev m)) (integration_links d idx)) = length (filter (\<lambda>(r, ai). realized Z (ev m) d r ai idx) (declared d))"
    and "v \<in> set (integration_links d idx) \<Longrightarrow> is_bool_val (ev m v)"
proof -
  have links: "integration_links d idx = concat (map (\<lambda>(r, ai). map snd (filter (\<lambda>(k, _). k = idx) (charm_integration_ids ai))) (declared d))"
  proof -
    have "concat (map (\<lambda>(_, mc). concat (map g (application_integrations mc))) ms)
        = concat (map (\<lambda>(r, ai). g ai) (concat (map (\<lambda>(r, mc). map (Pair r) (application_integrations mc)) ms)))"
      for g :: "'e DomainApplicationIntegration \<Rightarrow> 'e list" and ms :: "(ModelRef \<times> 'e DomainModel) list"
      by (induction ms) (auto simp: comp_def)
    then show ?thesis by (simp add: integration_links_def declared_def)
  qed
  have one: "length (filter (active (ev m)) (map snd (filter (\<lambda>(k, _). k = idx) (charm_integration_ids ai)))) =
      (if realized Z (ev m) d r ai idx then 1 else 0)" if "(r, ai) \<in> set (declared d)" for r ai
    using link_linked(1) [OF assms that, of idx "ev m"]
    by (cases "dict_get (charm_integration_ids ai) idx") (auto simp: filter_dict_key [OF link_linked(3) [OF assms that]])
  have "length (filter (active (ev m)) (concat (map (\<lambda>(r, ai). map snd (filter (\<lambda>(k, _). k = idx) (charm_integration_ids ai))) xs)))
      = length (filter (\<lambda>(r, ai). realized Z (ev m) d r ai idx) xs)" if "set xs \<subseteq> set (declared d)" for xs
    using that
  proof (induction xs)
    case (Cons x xs)
    obtain r ai where x: "x = (r, ai)" by (cases x)
    from Cons one [of r ai] show ?case by (simp add: x)
  qed simp
  then show "length (filter (active (ev m)) (integration_links d idx)) = length (filter (\<lambda>(r, ai). realized Z (ev m) d r ai idx) (declared d))"
    unfolding links by blast
  show "is_bool_val (ev m v)" if "v \<in> set (integration_links d idx)"
    using that bool_vars(3) [OF assms] unfolding links by fastforce
qed

lemma holds_integration_mapped_once:
  assumes "domain_ok Z d"
  shows "holds (ev m) (integration_mapped_once Z d) \<longleftrightarrow>
    (\<forall>idx < length (charm_integrations d). length (filter (\<lambda>(r, ai). realized Z (ev m) d r ai idx) (declared d)) \<le> 1)"
proof -
  have "active (ev m) (zLe Z (sum_terms Z (count_terms Z (integration_links d idx))) (IntVal Z 1)) \<longleftrightarrow>
      length (filter (\<lambda>(r, ai). realized Z (ev m) d r ai idx) (declared d)) \<le> 1" for idx
    using active_count_eq(2) [of "integration_links d idx" m] integration_links_linked [OF assms] by simp
  then show ?thesis unfolding integration_mapped_once_def holds_map2 ball_enumerate prod.case by blast
qed

end

lemma concat_results_ok:
  assumes "\<And>x. x \<in> set xs \<Longrightarrow> \<exists>s. f x = Inr s \<and> (holds E s \<longleftrightarrow> P x)"
  shows "\<exists>s. concat_results f xs = Inr s \<and> (holds E s \<longleftrightarrow> (\<forall>x \<in> set xs. P x))"
  using assms
proof (induction xs)
  case (Cons x xs)
  obtain s where "f x = Inr s" "holds E s \<longleftrightarrow> P x" using Cons.prems [of x] by auto
  moreover obtain s' where "concat_results f xs = Inr s'" "holds E s' \<longleftrightarrow> (\<forall>x \<in> set xs. P x)" using Cons by auto
  ultimately show ?case by simp
qed simp

definition ordering_pairs :: "'e DomainApplicationIntegration \<Rightarrow> (DomainApplicationEndpoint \<times> DomainApplicationEndpoint) set" where
  "ordering_pairs ai = {(endpoint_1 ai, endpoint_2 ai), (endpoint_2 ai, endpoint_1 ai)}"

lemma ordering_keys_mem:
  assumes "domain_pre Z d" "requires_charm_id i < length (charms d)" "provides_charm_id i < length (charms d)"
  shows "k \<in> set (ordering_keys (app_to_charm_map d) ai i) \<longleftrightarrow>
    (\<exists>(q, p) \<in> ordering_pairs ai. k = ((dae_application q, requires_charm_id i), (dae_application p, provides_charm_id i))
       \<and> dae_endpoint q = requires_endpoint i \<and> dae_endpoint p = provides_endpoint i
       \<and> serves d (model_of d (requires_charm_id i)) (dae_application q) (requires_charm_id i)
       \<and> serves d (model_of d (provides_charm_id i)) (dae_application p) (provides_charm_id i))"
proof -
  let ?g = "\<lambda>(q, p). let req_key = (dae_application q, requires_charm_id i); prov_key = (dae_application p, provides_charm_id i) in
       if dae_endpoint q \<noteq> requires_endpoint i \<or> dae_endpoint p \<noteq> provides_endpoint i then []
       else if dict_get (app_to_charm_map d) req_key \<noteq> None \<and> dict_get (app_to_charm_map d) prov_key \<noteq> None then [(req_key, prov_key)]
       else []"
  have g: "k \<in> set (?g (q, p)) \<longleftrightarrow> k = ((dae_application q, requires_charm_id i), (dae_application p, provides_charm_id i))
       \<and> dae_endpoint q = requires_endpoint i \<and> dae_endpoint p = provides_endpoint i
       \<and> serves d (model_of d (requires_charm_id i)) (dae_application q) (requires_charm_id i)
       \<and> serves d (model_of d (provides_charm_id i)) (dae_application p) (provides_charm_id i)" for q p
    using assms(2,3) by (auto simp: app_to_charm_map_get [OF assms(1)] Let_def)
  have "set (ordering_keys (app_to_charm_map d) ai i) = (\<Union>x \<in> ordering_pairs ai. set (?g x))"
    by (simp add: ordering_keys_def ordering_pairs_def)
  then have "k \<in> set (ordering_keys (app_to_charm_map d) ai i) \<longleftrightarrow> (\<exists>x \<in> ordering_pairs ai. k \<in> set (?g x))" by (simp only: UN_iff)
  also have "\<dots> \<longleftrightarrow> (\<exists>(q, p) \<in> ordering_pairs ai. k = ((dae_application q, requires_charm_id i), (dae_application p, provides_charm_id i))
       \<and> dae_endpoint q = requires_endpoint i \<and> dae_endpoint p = provides_endpoint i
       \<and> serves d (model_of d (requires_charm_id i)) (dae_application q) (requires_charm_id i)
       \<and> serves d (model_of d (provides_charm_id i)) (dae_application p) (provides_charm_id i))"
    by (rule bex_cong [OF refl]) (simp only: split_paired_all prod.case g [unfolded prod.case])
  finally show ?thesis .
qed

lemma fits_ordering:
  assumes "fits d r ai i"
  shows "\<exists>(q, p) \<in> ordering_pairs ai. dae_endpoint q = requires_endpoint i \<and> dae_endpoint p = provides_endpoint i
       \<and> serves d (model_of d (requires_charm_id i)) (dae_application q) (requires_charm_id i)
       \<and> serves d (model_of d (provides_charm_id i)) (dae_application p) (provides_charm_id i)"
proof -
  obtain rq rp q p where "(q, p) \<in> ordering_pairs ai" "fits_ends d rq rp q p i"
    using assms unfolding fits_def ordering_pairs_def local_ep_def remote_ep_def Let_def by (auto split: if_splits)
  then show ?thesis by (intro bexI [of _ "(q, p)"]) (auto simp: fits_ends_def stands_for_def)
qed

context z3_api
begin

lemma holds_link_assertions:
  assumes "domain_ok Z d" "(r, ai) \<in> set (declared d)" "(idx, v) \<in> set (charm_integration_ids ai)"
  shows "\<exists>s. link_assertions Z d (app_to_charm_map d) ai (idx, v) = Inr s
    \<and> (holds (ev m) s \<longleftrightarrow> (realized Z (ev m) d r ai idx \<longrightarrow>
         active (ev m) (int_exists (charm_integrations d ! idx)) \<and> ends_stand Z (ev m) d ai (charm_integrations d ! idx)))"
proof -
  have pre: "domain_pre Z d" using assms(1) by (simp add: domain_ok_def)
  let ?i = "charm_integrations d ! idx" and ?amap = "app_to_charm_map d"
  have "dict_get (charm_integration_ids ai) idx = Some v" using link_linked(3) [OF assms(1,2)] assms(3) by (simp add: dict_mem_get)
  note link = link_linked(2) [OF assms(1,2) this]
  have vr: "active (ev m) v \<longleftrightarrow> realized Z (ev m) d r ai idx" using link by (simp add: realized_def)
  have mem: "?i \<in> set (charm_integrations d)" using link by simp
  then have ids: "requires_charm_id ?i < length (charms d)" "provides_charm_id ?i < length (charms d)"
    using domain_preD(5) [OF pre] by (auto simp: integration_ok_def)
  note keys = ordering_keys_mem [OF pre ids, of _ ai]
  have vb: "is_bool_val (ev m v)" using bool_vars(3) [OF assms(1,2)] assms(3) by force
  have ne: "ordering_keys ?amap ai ?i \<noteq> []"
  proof -
    from link fits_ordering obtain q p where "(q, p) \<in> ordering_pairs ai" "dae_endpoint q = requires_endpoint ?i \<and> dae_endpoint p = provides_endpoint ?i
       \<and> serves d (model_of d (requires_charm_id ?i)) (dae_application q) (requires_charm_id ?i)
       \<and> serves d (model_of d (provides_charm_id ?i)) (dae_application p) (provides_charm_id ?i)" by blast
    then have "((dae_application q, requires_charm_id ?i), (dae_application p, provides_charm_id ?i)) \<in> set (ordering_keys ?amap ai ?i)"
      unfolding keys by blast
    then show ?thesis by auto
  qed
  let ?f = "\<lambda>(rk, pk). zAnd Z [the (dict_get ?amap rk), the (dict_get ?amap pk)]"
  have f: "active (ev m) (?f k) \<longleftrightarrow> active (ev m) (the (dict_get ?amap (fst k))) \<and> active (ev m) (the (dict_get ?amap (snd k)))"
      "is_bool_val (ev m (?f k))" if "k \<in> set (ordering_keys ?amap ai ?i)" for k
  proof -
    from that keys ids have "\<exists>app. fst k = (app, requires_charm_id ?i) \<and> dict_get ?amap (fst k) = Some (app_var Z d app (requires_charm_id ?i))"
      "\<exists>app. snd k = (app, provides_charm_id ?i) \<and> dict_get ?amap (snd k) = Some (app_var Z d app (provides_charm_id ?i))"
      by (auto simp: app_to_charm_map_get [OF pre])
    then have b: "is_bool_val (ev m (the (dict_get ?amap (fst k))))" "is_bool_val (ev m (the (dict_get ?amap (snd k))))"
      by (auto simp: app_var_def)
    show "active (ev m) (?f k) \<longleftrightarrow> active (ev m) (the (dict_get ?amap (fst k))) \<and> active (ev m) (the (dict_get ?amap (snd k)))"
      "is_bool_val (ev m (?f k))" using active_and2 [OF b] by (simp_all add: case_prod_unfold)
  qed
  have "(\<exists>k \<in> set (ordering_keys ?amap ai ?i). active (ev m) (?f k)) \<longleftrightarrow> ends_stand Z (ev m) d ai ?i"
  proof -
    have "(\<exists>k \<in> set (ordering_keys ?amap ai ?i). active (ev m) (?f k)) \<longleftrightarrow>
        (\<exists>k \<in> set (ordering_keys ?amap ai ?i). active (ev m) (the (dict_get ?amap (fst k))) \<and> active (ev m) (the (dict_get ?amap (snd k))))"
      using f(1) by blast
    also have "\<dots> \<longleftrightarrow> (\<exists>(q, p) \<in> ordering_pairs ai.
        let k = ((dae_application q, requires_charm_id ?i), (dae_application p, provides_charm_id ?i)) in
        dae_endpoint q = requires_endpoint ?i \<and> dae_endpoint p = provides_endpoint ?i
         \<and> serves d (model_of d (requires_charm_id ?i)) (dae_application q) (requires_charm_id ?i)
         \<and> serves d (model_of d (provides_charm_id ?i)) (dae_application p) (provides_charm_id ?i)
         \<and> active (ev m) (the (dict_get ?amap (fst k))) \<and> active (ev m) (the (dict_get ?amap (snd k))))"
      unfolding Bex_def keys Let_def by blast
    also have "\<dots> \<longleftrightarrow> ends_stand Z (ev m) d ai ?i"
      unfolding ends_stand_def ordering_pairs_def [symmetric] stands_def Let_def
      by (intro bex_cong refl) (use ids in \<open>auto simp: app_to_charm_map_get [OF pre]\<close>)
    finally show ?thesis .
  qed
  with active_or_map [of "ordering_keys ?amap ai ?i" m ?f] f(2)
  have vos: "active (ev m) (zOr Z (valid_orderings Z ?amap ai ?i)) \<longleftrightarrow> ends_stand Z (ev m) d ai ?i"
    "is_bool_val (ev m (zOr Z (valid_orderings Z ?amap ai ?i)))" unfolding valid_orderings_def by blast+
  show ?thesis using ne active_implies(1) [OF vb bool_vars(5) [OF assms(1) mem]] active_implies(1) [OF vb vos(2)] vos(1) vr
    by (simp add: link_assertions_def Let_def valid_orderings_def) blast
qed

lemma holds_all_links:
  assumes "domain_ok Z d"
  shows "\<exists>s. all_link_assertions Z d (app_to_charm_map d) = Inr s
    \<and> (holds (ev m) s \<longleftrightarrow> (\<forall>(r, ai) \<in> set (declared d). \<forall>idx. realized Z (ev m) d r ai idx \<longrightarrow>
          active (ev m) (int_exists (charm_integrations d ! idx)) \<and> ends_stand Z (ev m) d ai (charm_integrations d ! idx)))"
proof -
  let ?ok = "\<lambda>r ai idx. realized Z (ev m) d r ai idx \<longrightarrow>
      active (ev m) (int_exists (charm_integrations d ! idx)) \<and> ends_stand Z (ev m) d ai (charm_integrations d ! idx)"
  let ?link = "link_assertions Z d (app_to_charm_map d)"
  have one: "\<exists>s. concat_results (?link ai) (charm_integration_ids ai) = Inr s \<and> (holds (ev m) s \<longleftrightarrow> (\<forall>idx. ?ok r ai idx))"
    if "(r, ai) \<in> set (declared d)" for r ai
  proof -
    have "\<exists>s. concat_results (?link ai) (charm_integration_ids ai) = Inr s \<and> (holds (ev m) s \<longleftrightarrow> (\<forall>x \<in> set (charm_integration_ids ai). ?ok r ai (fst x)))"
      by (rule concat_results_ok) (use holds_link_assertions [OF assms that] in force)
    moreover have "(\<forall>x \<in> set (charm_integration_ids ai). ?ok r ai (fst x)) \<longleftrightarrow> (\<forall>idx. ?ok r ai idx)"
    proof -
      have "\<exists>x \<in> set (charm_integration_ids ai). fst x = idx" if "realized Z (ev m) d r ai idx" for idx
        using link_linked(1) [OF assms \<open>(r, ai) \<in> set (declared d)\<close>, of idx "ev m"] that by (metis fst_conv map_of_SomeD)
      then show ?thesis by blast
    qed
    ultimately show ?thesis by simp
  qed
  have "\<exists>s. concat_results (\<lambda>ai. concat_results (?link ai) (charm_integration_ids ai)) (application_integrations mc) = Inr s
      \<and> (holds (ev m) s \<longleftrightarrow> (\<forall>ai \<in> set (application_integrations mc). \<forall>idx. ?ok r ai idx))" if "(r, mc) \<in> set (models d)" for r mc
    by (rule concat_results_ok) (use one that declared_mem in blast)
  then have "\<exists>s. all_link_assertions Z d (app_to_charm_map d) = Inr s \<and> (holds (ev m) s \<longleftrightarrow>
      (\<forall>x \<in> set (models d). \<forall>ai \<in> set (application_integrations (snd x)). \<forall>idx. ?ok (fst x) ai idx))"
    unfolding all_link_assertions_def by (intro concat_results_ok) fastforce
  moreover have "(\<forall>x \<in> set (models d). \<forall>ai \<in> set (application_integrations (snd x)). \<forall>idx. ?ok (fst x) ai idx) \<longleftrightarrow>
      (\<forall>(r, ai) \<in> set (declared d). \<forall>idx. ?ok r ai idx)"
    by (fastforce simp: declared_mem)
  ultimately show ?thesis by simp
qed

text \<open>The assertions about applications never fail to be made, and say what they should.\<close>

lemma holds_application_constraints:
  assumes "domain_ok Z d"
  shows "\<exists>s'. add_application_constraints Z d s = Inr s'
    \<and> (holds (ev m) s' \<longleftrightarrow> holds (ev m) s \<and> applications_placed Z (ev m) d \<and> declarations_met Z (ev m) d)"
proof -
  from holds_all_links [OF assms, of m] obtain links where "all_link_assertions Z d (app_to_charm_map d) = Inr links"
    "holds (ev m) links \<longleftrightarrow> (\<forall>(r, ai) \<in> set (declared d). \<forall>idx. realized Z (ev m) d r ai idx \<longrightarrow>
       active (ev m) (int_exists (charm_integrations d ! idx)) \<and> ends_stand Z (ev m) d ai (charm_integrations d ! idx))" by blast
  note links = this
  let ?out = "s @ application_exists Z d @ charm_mapped_once Z d (app_to_charm_map d) @ mapped_charm_exists Z d (app_to_charm_map d)
      @ application_integration_exists Z d @ integration_mapped_once Z d @ links"
  have "add_application_constraints Z d s = Inr ?out"
    unfolding add_application_constraints_def Let_def links(1) bind_result_simps ..
  moreover have "holds (ev m) ?out \<longleftrightarrow> holds (ev m) s \<and> applications_placed Z (ev m) d \<and> declarations_met Z (ev m) d"
    unfolding holds_simps links(2) holds_application_exists [OF assms] holds_charm_mapped_once [OF assms]
      holds_mapped_charm_exists [OF assms] holds_integration_exists [OF assms] holds_integration_mapped_once [OF assms]
      applications_placed_def declarations_met_def conj_assoc ..
  ultimately show ?thesis by (intro exI conjI)
qed

end

end
