(* ===== verification/Bundle_Constraints_Charms.thy ===== *)
theory Bundle_Constraints_Charms
  imports Bundle_Constraints_Correct
begin

text \<open>
  What the assertions about charms, their endpoints and their metadata mean: endpoint counts
  are the numbers of relations, including those to applications outside the domain, and
  limits, features, configuration and bases are respected.
\<close>

lemma holds_enumerate: "holds E (concat (map f (enumerate 0 xs))) \<longleftrightarrow> (\<forall>k < length xs. holds E (f (k, xs ! k)))"
  by (simp add: ball_enumerate [of xs "\<lambda>x. holds E (f x)"])

lemma ball_dict: "dict_ok dct \<Longrightarrow> (\<forall>(k, v) \<in> set dct. Q k v) \<longleftrightarrow> (\<forall>k v. dict_get dct k = Some v \<longrightarrow> Q k v)"
  by (fastforce simp: dict_mem_get [symmetric])

section \<open>Counting relations\<close>

definition external_count :: "'e z3 \<Rightarrow> 'e evaluation \<Rightarrow> 'e Domain \<Rightarrow> nat \<Rightarrow> py_str \<Rightarrow> nat" where
  "external_count Z E d cid ep =
     length (filter (\<lambda>(r, l, _). r = model_of d cid \<and> dae_endpoint l = ep \<and> stands Z E d r (dae_application l) cid) (external_cmr_integrations d))"

definition relation_count :: "'e z3 \<Rightarrow> 'e evaluation \<Rightarrow> 'e Domain \<Rightarrow> ('e DomainCharmIntegration \<Rightarrow> bool) \<Rightarrow> nat \<Rightarrow> py_str \<Rightarrow> nat" where
  "relation_count Z E d P cid ep =
     length (filter (\<lambda>i. uses_endpoint cid ep i \<and> P i \<and> active E (int_exists i)) (charm_integrations d)) + external_count Z E d cid ep"

definition counts_right :: "'e z3 \<Rightarrow> 'e evaluation \<Rightarrow> 'e Domain \<Rightarrow> bool" where
  "counts_right Z E d \<longleftrightarrow> (\<forall>cid < length (charms d). \<forall>(ep, e) \<in> set (endpoints (charms d ! cid)).
     E (ep_count e) = VInt (int (relation_count Z E d (\<lambda>_. True) cid ep))
     \<and> (active E (ep_integrated e) \<longleftrightarrow> relation_count Z E d (\<lambda>_. True) cid ep \<ge> 1)
     \<and> E (cross_model_count e) = VInt (int (relation_count Z E d (is_cross_model d) cid ep)))"

definition integrations_between_deployed :: "'e evaluation \<Rightarrow> 'e Domain \<Rightarrow> bool" where
  "integrations_between_deployed E d \<longleftrightarrow> (\<forall>i \<in> set (charm_integrations d). active E (int_exists i) \<longrightarrow>
     active E (charm_exists (charms d ! requires_charm_id i)) \<and> active E (charm_exists (charms d ! provides_charm_id i)))"

definition weight :: "('k \<Rightarrow> bool) \<Rightarrow> ('k, nat) dict \<Rightarrow> nat" where
  "weight P dct = sum_list (map (\<lambda>(k, n). if P k then n else 0) dct)"

lemma weight_set:
  assumes "dict_ok dct"
  shows "weight P (dict_set k (dict_get_default dct k 0 + 1) dct) = weight P dct + (if P k then 1 else 0)"
  using assms
proof (induction dct)
  case (Cons x dct)
  obtain j n where x: "x = (j, n)" by (cases x)
  from Cons.prems have ok: "dict_ok dct" by (simp add: dict_ok_def x)
  show ?case
  proof (cases "j = k")
    case True
    then show ?thesis by (simp add: x weight_def dict_get_default_def)
  next
    case False
    then show ?thesis using Cons.IH [OF ok] by (simp add: x weight_def dict_get_default_def)
  qed
qed (simp add: weight_def dict_get_default_def)

lemma weight_fold:
  assumes "dict_ok dct"
  shows "dict_ok (fold count_external xs dct)
    \<and> weight P (fold count_external xs dct) = weight P dct + length (filter (\<lambda>(r, l, _). P (r, dae_application l, dae_endpoint l)) xs)"
  using assms
proof (induction xs arbitrary: dct)
  case (Cons x xs)
  obtain r l q where x: "x = (r, l, q)" by (cases x)
  let ?k = "(r, dae_application l, dae_endpoint l)"
  have step: "count_external x dct = dict_set ?k (dict_get_default dct ?k 0 + 1) dct" by (simp add: count_external_def x Let_def)
  have "dict_ok (count_external x dct)" using Cons.prems unfolding step by blast
  from Cons.IH [OF this] weight_set [OF Cons.prems, of P ?k] show ?case by (simp add: x step [unfolded x])
qed simp

lemma weight_cmr_counts:
  "weight P (cmr_counts d) = length (filter (\<lambda>(r, l, _). P (r, dae_application l, dae_endpoint l)) (external_cmr_integrations d))"
  using weight_fold [of "[]" "external_cmr_integrations d" P] by (simp add: cmr_counts_def weight_def)

lemma external_count_weight:
  "external_count Z E d cid ep = weight (\<lambda>(r, app, e). e = ep \<and> r = model_of d cid \<and> stands Z E d (model_of d cid) app cid) (cmr_counts d)"
  unfolding weight_cmr_counts external_count_def by (rule arg_cong [where f = length], rule filter_cong) auto

context z3_api
begin

lemma ev_cmr_terms:
  assumes "domain_ok Z d" "cid < length (charms d)"
  shows "\<exists>ns. list_all2 (\<lambda>t n. ev m t = VInt n) (cmr_terms Z d (app_to_charm_map d) cid ep) ns
    \<and> sum_list ns = int (external_count Z (ev m) d cid ep)"
proof -
  have pre: "domain_pre Z d" using assms(1) by (simp add: domain_ok_def)
  let ?P = "\<lambda>(r, app, e). e = ep \<and> r = model_of d cid \<and> stands Z (ev m) d (model_of d cid) app cid"
  let ?f = "\<lambda>((model_ref, app, e), n). if e \<noteq> ep \<or> model_ref \<noteq> model_of d cid then None
     else map_option (\<lambda>var. zIf Z var (IntVal Z (int n)) (IntVal Z 0)) (dict_get (app_to_charm_map d) (app, cid))"
  have val: "ev m (zIf Z (app_var Z d app cid) (IntVal Z (int n)) (IntVal Z 0)) = VInt (if active (ev m) (app_var Z d app cid) then int n else 0)" for app n
    by (rule ev_If_Int [OF is_bool_valE [where E = "ev m"] ev_IntVal ev_IntVal]) (simp add: app_var_def)
  have "\<exists>ns. list_all2 (\<lambda>t n. ev m t = VInt n) (List.map_filter ?f dct) ns \<and> sum_list ns = int (weight ?P dct)" for dct
  proof (induction dct)
    case (Cons x dct)
    obtain r app e n where x: "x = ((r, app, e), n)" by (metis surj_pair)
    from Cons obtain ns where ns: "list_all2 (\<lambda>t n. ev m t = VInt n) (List.map_filter ?f dct) ns" "sum_list ns = int (weight ?P dct)" by blast
    show ?case
    proof (cases "e = ep \<and> r = model_of d cid \<and> serves d (model_of d cid) app cid")
      case True
      then have "List.map_filter ?f (x # dct) = zIf Z (app_var Z d app cid) (IntVal Z (int n)) (IntVal Z 0) # List.map_filter ?f dct"
        using assms(2) by (simp add: x map_filter_simps app_to_charm_map_get [OF pre])
      moreover have "int (weight ?P (x # dct)) = (if active (ev m) (app_var Z d app cid) then int n else 0) + int (weight ?P dct)"
        using True by (simp add: x weight_def stands_def)
      ultimately show ?thesis using ns val [of app n]
        by (intro exI [of _ "(if active (ev m) (app_var Z d app cid) then int n else 0) # ns"]) simp
    next
      case False
      then have "List.map_filter ?f (x # dct) = List.map_filter ?f dct"
        using assms(2) by (auto simp: x map_filter_simps app_to_charm_map_get [OF pre])
      moreover have "weight ?P (x # dct) = weight ?P dct" using False by (auto simp: x weight_def stands_def)
      ultimately show ?thesis using ns by auto
    qed
  qed (simp add: map_filter_simps weight_def)
  then show ?thesis unfolding cmr_terms_def external_count_weight .
qed

lemma ev_relation_count:
  assumes "domain_ok Z d" "cid < length (charms d)"
  shows "ev m (sum_terms Z (count_terms Z (map int_exists (filter P (filter (uses_endpoint cid ep) (charm_integrations d))))
      @ cmr_terms Z d (app_to_charm_map d) cid ep)) = VInt (int (relation_count Z (ev m) d P cid ep))"
proof -
  let ?is = "filter P (filter (uses_endpoint cid ep) (charm_integrations d))"
  obtain ns where ns: "list_all2 (\<lambda>t n. ev m t = VInt n) (cmr_terms Z d (app_to_charm_map d) cid ep) ns"
    "sum_list ns = int (external_count Z (ev m) d cid ep)" using ev_cmr_terms [OF assms] by blast
  have "\<forall>v \<in> set (map int_exists ?is). is_bool_val (ev m v)" using bool_vars(5) [OF assms(1)] by auto
  from ev_sum_terms [OF list_all2_appendI [OF count_terms_values [OF this] ns(1)]]
  have "ev m (sum_terms Z (count_terms Z (map int_exists ?is) @ cmr_terms Z d (app_to_charm_map d) cid ep)) =
      VInt (int (length (filter (active (ev m)) (map int_exists ?is))) + int (external_count Z (ev m) d cid ep))"
    by (simp only: sum_list_append sum_list_filter ns(2))
  moreover have "length (filter (active (ev m)) (map int_exists ?is)) =
      length (filter (\<lambda>i. uses_endpoint cid ep i \<and> P i \<and> active (ev m) (int_exists i)) (charm_integrations d))"
    by (simp add: filter_map comp_def)
  ultimately show ?thesis by (simp add: relation_count_def)
qed

lemma holds_endpoint_counts:
  assumes "domain_ok Z d" "cid < length (charms d)" "(ep, e) \<in> set (endpoints (charms d ! cid))"
  shows "holds (ev m) (endpoint_counts Z d (app_to_charm_map d) cid (charms d ! cid) (ep, e)) \<longleftrightarrow>
    ev m (ep_count e) = VInt (int (relation_count Z (ev m) d (\<lambda>_. True) cid ep))
     \<and> (active (ev m) (ep_integrated e) \<longleftrightarrow> relation_count Z (ev m) d (\<lambda>_. True) cid ep \<ge> 1)
     \<and> ev m (cross_model_count e) = VInt (int (relation_count Z (ev m) d (is_cross_model d) cid ep))"
proof -
  have "typed_endpoint (ev m) e"
    using domain_ok_typed [OF assms(1), of m] assms(2,3) unfolding typed_domain_def typed_charm_def by fastforce
  then have ty: "is_int_val (ev m (ep_count e))" "is_int_val (ev m (cross_model_count e))" "is_bool_val (ev m (ep_integrated e))"
    by (simp_all add: typed_endpoint_def)
  note cnt = ev_relation_count [OF assms(1,2), where P = "\<lambda>_. True" and ep = ep and m = m, unfolded filter_True]
  note cross = ev_relation_count [OF assms(1,2), where P = "is_cross_model d" and ep = ep and m = m]
  let ?users = "filter (uses_endpoint cid ep) (charm_integrations d)" and ?cmrs = "cmr_terms Z d (app_to_charm_map d) cid ep"
  have 1: "active (ev m) (zEq Z (ep_count e) (sum_terms Z (count_terms Z (map int_exists ?users) @ ?cmrs))) \<longleftrightarrow>
      ev m (ep_count e) = VInt (int (relation_count Z (ev m) d (\<lambda>_. True) cid ep))"
    using active_eq(1) [of m "ep_count e" "sum_terms Z (count_terms Z (map int_exists ?users) @ ?cmrs)"] cnt ty(1) by (simp add: is_int_val_def)
  have 2: "active (ev m) (zEq Z (cross_model_count e) (sum_terms Z (count_terms Z (map int_exists (filter (is_cross_model d) ?users)) @ ?cmrs))) \<longleftrightarrow>
      ev m (cross_model_count e) = VInt (int (relation_count Z (ev m) d (is_cross_model d) cid ep))"
    using active_eq(1) [of m "cross_model_count e" "sum_terms Z (count_terms Z (map int_exists (filter (is_cross_model d) ?users)) @ ?cmrs)"] cross ty(2)
    by (simp add: is_int_val_def)
  have 3: "active (ev m) (zEq Z (ep_integrated e) (zGe Z (ep_count e) (IntVal Z 1))) \<longleftrightarrow> (active (ev m) (ep_integrated e) \<longleftrightarrow> n \<ge> 1)"
    if "ev m (ep_count e) = VInt (int n)" for n
  proof -
    have ge: "ev m (zGe Z (ep_count e) (IntVal Z 1)) = VBool (int n \<ge> 1)" using ev_Ge [OF that ev_IntVal] .
    have "active (ev m) (zEq Z (ep_integrated e) (zGe Z (ep_count e) (IntVal Z 1))) \<longleftrightarrow> ev m (ep_integrated e) = VBool (int n \<ge> 1)"
      using active_eq(1) [of m "ep_integrated e" "zGe Z (ep_count e) (IntVal Z 1)"] ge ty(3) by (simp add: is_bool_val_def)
    then show ?thesis using is_bool_valE [where E = "ev m", OF ty(3)] by auto
  qed
  show ?thesis unfolding endpoint_counts_def Let_def prod.case holds_simps 1 2
    using 3 [of "relation_count Z (ev m) d (\<lambda>_. True) cid ep"] holds_simps(1) [of "ev m"] by argo
qed

lemma holds_charm_constraints:
  assumes "domain_ok Z d"
  shows "holds (ev m) (add_charm_constraints Z d s) \<longleftrightarrow> holds (ev m) s \<and> integrations_between_deployed (ev m) d \<and> counts_right Z (ev m) d"
proof -
  have ids: "requires_charm_id i < length (charms d)" "provides_charm_id i < length (charms d)" if "i \<in> set (charm_integrations d)" for i
    using assms that unfolding domain_ok_def domain_pre_def integration_ok_def by blast+
  have "holds (ev m) (integrated_charms_exist Z d) \<longleftrightarrow> (\<forall>i \<in> set (charm_integrations d). \<forall>cid \<in> {requires_charm_id i, provides_charm_id i}.
      active (ev m) (zImplies Z (int_exists i) (charm_exists (charms d ! cid))))"
    by (simp add: integrated_charms_exist_def)
  also have "\<dots> \<longleftrightarrow> integrations_between_deployed (ev m) d"
    unfolding integrations_between_deployed_def using ids bool_vars(4,5) [OF assms, of _ m]
    by (auto simp: active_implies)
  finally have 1: "holds (ev m) (integrated_charms_exist Z d) \<longleftrightarrow> integrations_between_deployed (ev m) d" .
  have "holds (ev m) (concat (map (\<lambda>(cid, c). concat (map (endpoint_counts Z d (app_to_charm_map d) cid c) (endpoints c))) (enumerate 0 (charms d)))) \<longleftrightarrow>
      (\<forall>cid < length (charms d). \<forall>x \<in> set (endpoints (charms d ! cid)). holds (ev m) (endpoint_counts Z d (app_to_charm_map d) cid (charms d ! cid) x))"
    unfolding holds_enumerate by simp
  also have "\<dots> \<longleftrightarrow> counts_right Z (ev m) d"
    unfolding counts_right_def
    by (intro all_cong ball_cong refl) (simp only: split_paired_all prod.case holds_endpoint_counts [OF assms])
  finally show ?thesis using 1 unfolding add_charm_constraints_def Let_def holds_simps(3) by blast
qed

end

section \<open>Units, limits and features\<close>

definition limits_respected :: "'e evaluation \<Rightarrow> 'e Domain \<Rightarrow> bool" where
  "limits_respected E d \<longleftrightarrow> (\<forall>cid < length (charms d). let c = charms d ! cid in active E (charm_exists c) \<longrightarrow>
     int_of (E (num_units c)) \<ge> 1
     \<and> (\<forall>(ep, se) \<in> set (charm_endpoints (spec c)).
          (\<not> optional se \<longrightarrow> int_of (E (ep_count (charm_endpoint c ep))) \<ge> 1)
          \<and> (case limit se of None \<Rightarrow> True | Some l \<Rightarrow> int_of (E (ep_count (charm_endpoint c ep))) \<le> l)))"

text \<open>Integrated endpoints agree on their active features.\<close>

definition endpoint_features :: "'e evaluation \<Rightarrow> 'e Domain \<Rightarrow> nat \<Rightarrow> py_str \<Rightarrow> py_str set" where
  "endpoint_features E d cid ep =
     {f. \<exists>v. dict_get (feature_vars (charm_endpoint (charms d ! cid) ep)) f = Some v \<and> active E v}"

definition features_agree :: "'e evaluation \<Rightarrow> 'e Domain \<Rightarrow> bool" where
  "features_agree E d \<longleftrightarrow> (\<forall>i \<in> set (charm_integrations d). active E (int_exists i) \<longrightarrow>
     endpoint_features E d (requires_charm_id i) (requires_endpoint i) = endpoint_features E d (provides_charm_id i) (provides_endpoint i))"

lemma built_endpoints:
  assumes "built_charm Z cid c"
  shows "endpoints c = map (\<lambda>(name, e). (name, new_endpoint Z (charm_prefix (spec c) cid) name e)) (charm_endpoints (spec c))"
    and "(ep, se) \<in> set (charm_endpoints (spec c)) \<Longrightarrow> charm_endpoint c ep = new_endpoint Z (charm_prefix (spec c) cid) ep se"
    and "dict_get (charm_endpoints (spec c)) ep \<noteq> None \<Longrightarrow> (ep, charm_endpoint c ep) \<in> set (endpoints c)"
proof -
  from assms obtain cfg where wf: "charm_wf (spec c)" and c: "c = (new_charm Z (spec c) cid (charm_model c) cfg)\<lparr>charms_added := charms_added c\<rparr>"
    unfolding built_charm_def by blast
  show eps: "endpoints c = map (\<lambda>(name, e). (name, new_endpoint Z (charm_prefix (spec c) cid) name e)) (charm_endpoints (spec c))"
    by (subst c) (simp add: new_charm_def Let_def)
  show se: "charm_endpoint c ep = new_endpoint Z (charm_prefix (spec c) cid) ep se" if "(ep, se) \<in> set (charm_endpoints (spec c))" for ep se
    using that wf unfolding charm_endpoint_def eps map_of_map_snd by (simp add: charm_wf_def dict_mem_get)
  show "(ep, charm_endpoint c ep) \<in> set (endpoints c)" if "dict_get (charm_endpoints (spec c)) ep \<noteq> None"
  proof -
    from that obtain e where "(ep, e) \<in> set (charm_endpoints (spec c))" using map_of_SomeD by fast
    with se [OF this] show ?thesis unfolding eps by force
  qed
qed

context z3_api
begin

lemma domain_charm:
  assumes "domain_ok Z d" "cid < length (charms d)"
  shows "built_charm Z cid (charms d ! cid)" "typed_charm (ev m) (charms d ! cid)"
  using assms built_charm_typed unfolding domain_ok_def domain_pre_def by blast+

lemma charm_endpoint_typed:
  assumes "domain_ok Z d" "cid < length (charms d)" "dict_get (charm_endpoints (spec (charms d ! cid))) ep \<noteq> None"
  shows "typed_endpoint (ev m) (charm_endpoint (charms d ! cid) ep)"
  using built_endpoints(3) [OF domain_charm(1) [OF assms(1,2)] assms(3)] domain_charm(2) [OF assms(1,2), of m]
  unfolding typed_charm_def by fast

lemma holds_limits:
  assumes "domain_ok Z d"
  shows "holds (ev m) (unit_bounds Z d @ required_endpoints Z d @ endpoint_limits Z d) \<longleftrightarrow> limits_respected (ev m) d"
proof -
  let ?c = "\<lambda>cid. charms d ! cid" and ?ex = "\<lambda>cid. active (ev m) (charm_exists (charms d ! cid))"
  let ?n = "\<lambda>cid ep. int_of (ev m (ep_count (charm_endpoint (charms d ! cid) ep)))"
  have bound: "active (ev m) (zImplies Z (charm_exists (?c cid)) (zGe Z x (IntVal Z k))) \<longleftrightarrow> (?ex cid \<longrightarrow> int_of (ev m x) \<ge> k)"
    "active (ev m) (zImplies Z (charm_exists (?c cid)) (zLe Z x (IntVal Z k))) \<longleftrightarrow> (?ex cid \<longrightarrow> int_of (ev m x) \<le> k)"
    if "cid < length (charms d)" "is_int_val (ev m x)" for cid x k
    using active_compare [OF is_int_valE [OF that(2)] ev_IntVal [of m k]] active_implies(1) [OF bool_vars(4) [OF assms that(1)]] by blast+
  have ep: "is_int_val (ev m (ep_count (charm_endpoint (?c cid) ep)))" if "cid < length (charms d)" "(ep, se) \<in> set (charm_endpoints (spec (?c cid)))" for cid ep se
    using charm_endpoint_typed [OF assms that(1), of ep m] that(2) by (force simp: typed_endpoint_def map_of_eq_None_iff)
  have units: "is_int_val (ev m (num_units (?c cid)))" if "cid < length (charms d)" for cid
    using domain_charm(2) [OF assms that, of m] by (simp add: typed_charm_def)
  have "holds (ev m) (unit_bounds Z d) \<longleftrightarrow> (\<forall>cid < length (charms d). ?ex cid \<longrightarrow> int_of (ev m (num_units (?c cid))) \<ge> 1)"
    unfolding unit_bounds_def holds_map all_set_conv_all_nth using bound(1) units by simp
  moreover have "holds (ev m) (required_endpoints Z d) \<longleftrightarrow> (\<forall>cid < length (charms d). \<forall>(ep, se) \<in> set (charm_endpoints (spec (?c cid))).
      \<not> optional se \<longrightarrow> ?ex cid \<longrightarrow> ?n cid ep \<ge> 1)"
    unfolding required_endpoints_def holds_enumerate prod.case holds_map2 using bound(1) ep by fastforce
  moreover have "holds (ev m) (endpoint_limits Z d) \<longleftrightarrow> (\<forall>cid < length (charms d). \<forall>(ep, se) \<in> set (charm_endpoints (spec (?c cid))).
      \<forall>l. limit se = Some l \<longrightarrow> ?ex cid \<longrightarrow> ?n cid ep \<le> l)"
  proof -
    have "holds (ev m) (List.map_filter (\<lambda>(ep, se). map_option (\<lambda>l. (Some (t ep l), zImplies Z x (zLe Z (y ep) (IntVal Z l)))) (limit se)) eps) \<longleftrightarrow>
       (\<forall>(ep, se) \<in> set eps. \<forall>l. limit se = Some l \<longrightarrow> active (ev m) (zImplies Z x (zLe Z (y ep) (IntVal Z l))))" for t x y eps
      by (induction eps) (auto simp: map_filter_simps split: option.splits)
    then show ?thesis unfolding endpoint_limits_def holds_enumerate prod.case using bound(2) ep by fastforce
  qed
  ultimately show ?thesis unfolding holds_simps(3) limits_respected_def Let_def
    by (simp only: option.split [of "\<lambda>x. x"] simp_thms case_prod_unfold) blast
qed

lemma holds_feature_coherence:
  assumes "domain_ok Z d" "i \<in> set (charm_integrations d)"
  shows "holds (ev m) (feature_coherence Z d i) \<longleftrightarrow> (active (ev m) (int_exists i) \<longrightarrow>
     endpoint_features (ev m) d (requires_charm_id i) (requires_endpoint i) = endpoint_features (ev m) d (provides_charm_id i) (provides_endpoint i))"
proof -
  let ?R = "feature_vars (charm_endpoint (charms d ! requires_charm_id i) (requires_endpoint i))"
  let ?P = "feature_vars (charm_endpoint (charms d ! provides_charm_id i) (provides_endpoint i))"
  let ?A = "active (ev m)"
  have ok: "integration_ok Z d i" using assms unfolding domain_ok_def domain_pre_def by blast
  then have ids: "requires_charm_id i < length (charms d)" "provides_charm_id i < length (charms d)"
    and eps: "dict_get (charm_endpoints (spec (charms d ! requires_charm_id i))) (requires_endpoint i) \<noteq> None"
      "dict_get (charm_endpoints (spec (charms d ! provides_charm_id i))) (provides_endpoint i) \<noteq> None"
    by (auto simp: integration_ok_def compatible_def int_key_def split: option.splits)
  have tr: "dict_ok ?R" "\<And>f v. (f, v) \<in> set ?R \<Longrightarrow> is_bool_val (ev m v)"
    using charm_endpoint_typed [OF assms(1) ids(1) eps(1), of m] unfolding typed_endpoint_def by blast+
  have tp: "dict_ok ?P" "\<And>f v. (f, v) \<in> set ?P \<Longrightarrow> is_bool_val (ev m v)"
    using charm_endpoint_typed [OF assms(1) ids(2) eps(2), of m] unfolding typed_endpoint_def by blast+
  note ie = bool_vars(5) [OF assms, of m]
  have b: "is_bool_val (ev m v)" "is_bool_val (ev m w)" if "dict_get ?R f = Some v" "dict_get ?P f' = Some w" for f f' v w
    using that tr tp by (simp_all add: dict_mem_get [symmetric])
  have eq: "?A (zEq Z v w) \<longleftrightarrow> (?A v \<longleftrightarrow> ?A w)" "is_bool_val (ev m (zEq Z v w))" if "is_bool_val (ev m v)" "is_bool_val (ev m w)" for v w
    using active_eq [of m v w] that is_bool_valE [where E = "ev m", OF that(1)] is_bool_valE [where E = "ev m", OF that(2)] by (auto simp: is_bool_val_def)
  have r: "?A (zImplies Z (int_exists i) (case dict_get ?P f of None \<Rightarrow> zNot Z v | Some pv \<Rightarrow> zEq Z v pv)) \<longleftrightarrow>
      (?A (int_exists i) \<longrightarrow> (?A v \<longleftrightarrow> (\<exists>w. dict_get ?P f = Some w \<and> ?A w)))" if "(f, v) \<in> set ?R" for f v
    using tr(2) [OF that] tp(2) [OF dict_get_mem, of f] eq [OF tr(2) [OF that]]
    by (cases "dict_get ?P f") (simp_all add: active_implies [OF ie] active_not)
  have p: "?A (zImplies Z (int_exists i) (zNot Z v)) \<longleftrightarrow> (?A (int_exists i) \<longrightarrow> \<not> ?A v)" if "(f, v) \<in> set ?P" for f v
    using tp(2) [OF that] by (simp add: active_implies [OF ie] active_not)
  have "holds (ev m) (feature_coherence Z d i) \<longleftrightarrow>
      (\<forall>(f, v) \<in> set ?R. ?A (zImplies Z (int_exists i) (case dict_get ?P f of None \<Rightarrow> zNot Z v | Some pv \<Rightarrow> zEq Z v pv)))
      \<and> (\<forall>(f, v) \<in> {(f, v) \<in> set ?P. dict_get ?R f = None}. ?A (zImplies Z (int_exists i) (zNot Z v)))"
    unfolding feature_coherence_def Let_def holds_simps(3) holds_map2 set_filter by blast
  also have "\<dots> \<longleftrightarrow> (?A (int_exists i) \<longrightarrow> (\<forall>(f, v) \<in> set ?R. ?A v \<longleftrightarrow> (\<exists>w. dict_get ?P f = Some w \<and> ?A w))
      \<and> (\<forall>(f, v) \<in> set ?P. dict_get ?R f = None \<longrightarrow> \<not> ?A v))"
    using r p by blast
  also have "\<dots> \<longleftrightarrow> (?A (int_exists i) \<longrightarrow> (\<forall>f v. dict_get ?R f = Some v \<longrightarrow> (?A v \<longleftrightarrow> (\<exists>w. dict_get ?P f = Some w \<and> ?A w)))
      \<and> (\<forall>f v. dict_get ?P f = Some v \<longrightarrow> dict_get ?R f = None \<longrightarrow> \<not> ?A v))"
    unfolding ball_dict [OF tr(1)] ball_dict [OF tp(1)] ..
  also have "\<dots> \<longleftrightarrow> (?A (int_exists i) \<longrightarrow> {f. \<exists>v. dict_get ?R f = Some v \<and> ?A v} = {f. \<exists>v. dict_get ?P f = Some v \<and> ?A v})"
  proof -
    have "(\<forall>v. r = Some v \<longrightarrow> (?A v \<longleftrightarrow> (\<exists>w. p = Some w \<and> ?A w))) \<and> (\<forall>v. p = Some v \<longrightarrow> r = None \<longrightarrow> \<not> ?A v)
      \<longleftrightarrow> ((\<exists>v. r = Some v \<and> ?A v) \<longleftrightarrow> (\<exists>v. p = Some v \<and> ?A v))" for r p by (cases r; cases p) auto
    then show ?thesis unfolding set_eq_iff mem_Collect_eq all_conj_distrib [symmetric] by presburger
  qed
  finally show ?thesis unfolding endpoint_features_def .
qed

end

end
