(* ===== verification/Bundle_Constraints_Values.thy ===== *)
theory Bundle_Constraints_Values
  imports Bundle_Constraints_Charms
begin

text \<open>
  What the assertions about configuration values and resources mean. An optional truth value
  without a default is an integer for the solver; unset values lie outside the allowed ones
  unless the charm has a default.
\<close>

section \<open>Values of variables\<close>

definition encode :: "bool \<Rightarrow> config_value \<Rightarrow> zval" where
  "encode b v = (case v of CBool x \<Rightarrow> if b then VInt (if x then 1 else 0) else VBool x | CInt i \<Rightarrow> VInt i
     | CFloat q \<Rightarrow> VReal (of_rat q) | CStr t \<Rightarrow> VStr t)"

fun same_kind :: "config_value \<Rightarrow> config_value \<Rightarrow> bool" where
  "same_kind (CBool _) (CBool _) = True" | "same_kind (CInt _) (CInt _) = True" | "same_kind (CFloat _) (CFloat _) = True"
| "same_kind (CStr _) (CStr _) = True" | "same_kind _ _ = False"

definition allowed_values :: "'e DomainCharm \<Rightarrow> py_str \<Rightarrow> config_value list" where
  "allowed_values c k = List.map_filter id (the (dict_get (configs (spec c)) k))"

definition allowed_resources :: "'e DomainCharm \<Rightarrow> py_str \<Rightarrow> py_str list" where
  "allowed_resources c k = List.map_filter id (the (dict_get (charm_resources (spec c)) k))"

definition value_respected :: "'e evaluation \<Rightarrow> 'e \<Rightarrow> 'e option \<Rightarrow> zval option \<Rightarrow> zval set \<Rightarrow> bool" where
  "value_respected E var isset dflt vals \<longleftrightarrow>
     (if isset = None \<or> active E (the isset) then E var \<in> vals
      else case dflt of Some v \<Rightarrow> E var = v | None \<Rightarrow> E var \<notin> vals)"

definition values_respected :: "'e evaluation \<Rightarrow> 'e Domain \<Rightarrow> bool" where
  "values_respected E d \<longleftrightarrow> (\<forall>c \<in> set (charms d). active E (charm_exists c) \<longrightarrow>
     (\<forall>(k, cfg) \<in> set (config c). \<forall>var. cfg_var cfg = Some var \<longrightarrow>
        value_respected E var (cfg_isset_var cfg) (map_option (encode (bool_as_int cfg)) (cfg_default cfg)) (encode (bool_as_int cfg) ` set (allowed_values c k)))
     \<and> (\<forall>(k, res) \<in> set (resources c). \<forall>var. res_var res = Some var \<longrightarrow>
        value_respected E var (res_isset_var res) None (VStr ` set (allowed_resources c k))))"

text \<open>Defaults have the type of the declared values; otherwise the solver library raises.\<close>

definition defaults_match :: "'e Domain \<Rightarrow> bool" where
  "defaults_match d \<longleftrightarrow> list_all (\<lambda>c. list_all (\<lambda>(k, cfg). case (cfg_var cfg, cfg_default cfg) of
     (Some _, Some dv) \<Rightarrow> list_all (\<lambda>v. same_kind v dv) (allowed_values c k) | _ \<Rightarrow> True) (config c)) (charms d)"

lemma config_var_cases:
  assumes "config_var Z p opt dflt vs = Inr (var, b)" "w \<in> set vs"
  shows "is_CBool w \<and> var = (if b then zInt Z p else zBool Z p) \<or> is_CInt w \<and> var = zInt Z p \<and> \<not> b
    \<or> is_CFloat w \<and> var = zReal Z p \<and> \<not> b \<or> is_CStr w \<and> var = zString Z p \<and> \<not> b"
proof -
  have all: "list_all P vs \<Longrightarrow> P w" for P using assms(2) by (simp add: list_all_iff)
  show ?thesis using assms(1) all unfolding config_var_def by (simp split: if_split_asm) blast+
qed

context z3_api
begin

lemma active_config_value:
  assumes "config_var Z p opt dflt vs = Inr (var, b)" "w \<in> set vs" "same_kind w v"
  shows "active (ev m) (config_value_to_z3 Z var v) \<longleftrightarrow> ev m var = encode b v" "is_bool_val (ev m (config_value_to_z3 Z var v))"
proof -
  have eq: "val_sort (ev m var) = val_sort (encode b v) \<and> (\<exists>x. config_value_to_z3 Z var v = zEq Z var x \<and> ev m x = encode b v)"
    using config_var_cases [OF assms(1,2)] assms(3)
    by (cases v; cases w) (auto simp: config_value_to_z3_def encode_def ev_vals sort_consts is_CBool_def is_CInt_def is_CFloat_def is_CStr_def)
  then show "active (ev m) (config_value_to_z3 Z var v) \<longleftrightarrow> ev m var = encode b v" "is_bool_val (ev m (config_value_to_z3 Z var v))"
    using active_eq [of m var] by metis+
qed

text \<open>The two assertions about an optional value, or the one about a required one.\<close>

lemma holds_value:
  assumes "is_bool_val (ev m ex)" "\<And>v. isset = Some v \<Longrightarrow> is_bool_val (ev m v)"
    "is_bool_val (ev m vc)" "active (ev m) vc \<longleftrightarrow> ev m var \<in> vals"
    "is_bool_val (ev m uc)" "active (ev m) uc \<longleftrightarrow> (case dflt of Some v \<Rightarrow> ev m var = v | None \<Rightarrow> ev m var \<notin> vals)"
  shows "holds (ev m) (case isset of None \<Rightarrow> [(None, zImplies Z ex vc)]
       | Some v \<Rightarrow> [(None, zImplies Z (zAnd Z [ex, v]) vc), (None, zImplies Z (zAnd Z [ex, zNot Z v]) uc)])
     \<longleftrightarrow> (active (ev m) ex \<longrightarrow> value_respected (ev m) var isset dflt vals)"
proof (cases isset)
  case None
  then show ?thesis using active_implies(1) [OF assms(1,3)] assms(4) by (simp add: value_respected_def)
next
  case (Some v)
  note b = assms(2) [OF Some]
  have "active (ev m) (zImplies Z (zAnd Z [ex, v]) vc) \<longleftrightarrow> (active (ev m) ex \<and> active (ev m) v \<longrightarrow> ev m var \<in> vals)"
    using active_implies(1) [OF active_and2(2) [OF assms(1) b] assms(3)] active_and2(1) [OF assms(1) b] assms(4) by simp
  moreover have "active (ev m) (zImplies Z (zAnd Z [ex, zNot Z v]) uc) \<longleftrightarrow>
      (active (ev m) ex \<and> \<not> active (ev m) v \<longrightarrow> (case dflt of Some v \<Rightarrow> ev m var = v | None \<Rightarrow> ev m var \<notin> vals))"
    using active_implies(1) [OF active_and2(2) [OF assms(1) active_not(2) [OF b]] assms(5)]
      active_and2(1) [OF assms(1) active_not(2) [OF b]] active_not(1) [OF b] assms(6) by simp
  ultimately show ?thesis by (simp add: Some value_respected_def)
qed

lemma holds_config_domain:
  assumes "built_charm Z cid c" "(k, cfg) \<in> set (config c)" "cfg_var cfg = Some var"
    "\<And>dv. cfg_default cfg = Some dv \<Longrightarrow> \<forall>v \<in> set (allowed_values c k). same_kind v dv"
  shows "holds (ev m) (config_domain Z c (k, cfg)) \<longleftrightarrow> (active (ev m) (charm_exists c) \<longrightarrow>
    value_respected (ev m) var (cfg_isset_var cfg) (map_option (encode (bool_as_int cfg)) (cfg_default cfg)) (encode (bool_as_int cfg) ` set (allowed_values c k)))"
proof -
  let ?b = "bool_as_int cfg" and ?vals = "allowed_values c k"
  let ?vc = "zOr Z (map (config_value_to_z3 Z var) ?vals)"
  let ?uc = "case cfg_default cfg of Some dv \<Rightarrow> config_value_to_z3 Z var dv | None \<Rightarrow> zNot Z ?vc"
  from assms(1) obtain cfgs where wf: "charm_wf (spec c)"
    and cfgs: "add_configs Z (charm_prefix (spec c) cid) (configs (spec c)) (map (\<lambda>(key, dv). (key, default_config dv)) (config_defaults (spec c))) = Inr cfgs"
    and c: "c = (new_charm Z (spec c) cid (charm_model c) cfgs)\<lparr>charms_added := charms_added c\<rparr>"
    unfolding built_charm_def by blast
  have "config c = cfgs" by (subst c) (simp add: new_charm_def Let_def)
  from config_entry [OF cfgs, of k cfg] this assms(2,3) obtain allowed where al: "(k, allowed) \<in> set (configs (spec c))"
    "var_config Z (charm_prefix (spec c) cid) k allowed cfg"
    by (auto simp: default_config_def fixed_config_def)
  have vals: "?vals = List.map_filter id allowed" using al(1) wf by (simp add: allowed_values_def charm_wf_def dict_mem_get)
  with al(2) assms(3) obtain p opt dflt where cv: "config_var Z p opt dflt ?vals = Inr (var, ?b)" and ne: "?vals \<noteq> []"
    unfolding var_config_def by force
  have typed: "typed_config (ev m) cfg" by (rule typed_var_config [OF al(2)])
  have refl: "same_kind v v" for v by (cases v) simp_all
  have vc: "is_bool_val (ev m ?vc)" "active (ev m) ?vc \<longleftrightarrow> ev m var \<in> encode ?b ` set ?vals"
    using active_or_map [of ?vals m "config_value_to_z3 Z var"] active_config_value [OF cv _ refl, of _ m] by auto
  obtain w where w: "w \<in> set ?vals" using ne by (cases ?vals) auto
  have uc: "is_bool_val (ev m ?uc) \<and> (active (ev m) ?uc \<longleftrightarrow>
      (case map_option (encode ?b) (cfg_default cfg) of Some v \<Rightarrow> ev m var = v | None \<Rightarrow> ev m var \<notin> encode ?b ` set ?vals))"
  proof (cases "cfg_default cfg")
    case None
    then show ?thesis using active_not [OF vc(1)] vc(2) by simp
  next
    case (Some dv)
    then show ?thesis using active_config_value [OF cv w, of dv m] assms(4) w by simp
  qed
  have ex: "is_bool_val (ev m (charm_exists c))" using built_charm_typed [OF assms(1), of m] by (simp add: typed_charm_def)
  have iv: "is_bool_val (ev m v)" if "cfg_isset_var cfg = Some v" for v using typed that by (simp add: typed_config_def)
  have "config_domain Z c (k, cfg) = (case cfg_isset_var cfg of None \<Rightarrow> [(None, zImplies Z (charm_exists c) ?vc)]
      | Some isset \<Rightarrow> [(None, zImplies Z (zAnd Z [charm_exists c, isset]) ?vc), (None, zImplies Z (zAnd Z [charm_exists c, zNot Z isset]) ?uc)])"
    unfolding config_domain_def prod.case assms(3) option.case Let_def allowed_values_def [symmetric] using ne by simp
  then show ?thesis using holds_value [OF ex iv vc conjunct1 [OF uc] conjunct2 [OF uc]] by simp
qed

lemma holds_resource_domain:
  assumes "built_charm Z cid c" "(k, res) \<in> set (resources c)" "res_var res = Some var"
  shows "holds (ev m) (resource_domain Z c (k, res)) \<longleftrightarrow> (active (ev m) (charm_exists c) \<longrightarrow>
    value_respected (ev m) var (res_isset_var res) None (VStr ` set (allowed_resources c k)))"
proof -
  let ?vals = "allowed_resources c k"
  let ?vc = "zOr Z (map (\<lambda>v. zEq Z var (StringVal Z v)) ?vals)"
  from assms(1) obtain cfgs where wf: "charm_wf (spec c)"
    and c: "c = (new_charm Z (spec c) cid (charm_model c) cfgs)\<lparr>charms_added := charms_added c\<rparr>"
    unfolding built_charm_def by blast
  have rs: "resources c = fold (add_resource Z (charm_prefix (spec c) cid)) (charm_resources (spec c)) []"
    by (subst c) (simp add: new_charm_def Let_def)
  from resource_entry [OF assms(2) [unfolded rs]] assms(3) obtain allowed where al: "(k, allowed) \<in> set (charm_resources (spec c))"
    "var_resource Z (charm_prefix (spec c) cid) k allowed res" by auto
  have vals: "?vals = List.map_filter id allowed" using al(1) wf by (simp add: allowed_resources_def charm_wf_def dict_mem_get)
  obtain p where var: "var = zString Z p" and ne: "?vals \<noteq> []" using al(2) assms(3) unfolding var_resource_def vals by force
  have one: "active (ev m) (zEq Z var (StringVal Z v)) \<longleftrightarrow> ev m var = VStr v" "is_bool_val (ev m (zEq Z var (StringVal Z v)))" for v
    using active_eq [of m var "StringVal Z v"] by (simp_all add: var ev_vals)
  have vc: "is_bool_val (ev m ?vc)" "active (ev m) ?vc \<longleftrightarrow> ev m var \<in> VStr ` set ?vals"
    using active_or_map [of ?vals m "\<lambda>v. zEq Z var (StringVal Z v)"] one by auto
  have uc: "is_bool_val (ev m (zNot Z ?vc))" "active (ev m) (zNot Z ?vc) \<longleftrightarrow> (case None of Some v \<Rightarrow> ev m var = v | None \<Rightarrow> ev m var \<notin> VStr ` set ?vals)"
    using active_not [OF vc(1)] vc(2) by simp_all
  have typed: "typed_charm (ev m) c" by (rule built_charm_typed [OF assms(1)])
  then have ex: "is_bool_val (ev m (charm_exists c))" by (simp add: typed_charm_def)
  have iv: "is_bool_val (ev m v)" if "res_isset_var res = Some v" for v
    using typed that assms(2) by (auto simp: typed_charm_def typed_resource_def dest!: bspec)
  have "resource_domain Z c (k, res) = (case res_isset_var res of None \<Rightarrow> [(None, zImplies Z (charm_exists c) ?vc)]
      | Some isset \<Rightarrow> [(None, zImplies Z (zAnd Z [charm_exists c, isset]) ?vc), (None, zImplies Z (zAnd Z [charm_exists c, zNot Z isset]) (zNot Z ?vc))])"
    unfolding resource_domain_def prod.case assms(3) option.case Let_def allowed_resources_def [symmetric] using ne by simp
  then show ?thesis using holds_value [OF ex iv vc uc] by simp
qed

lemma holds_values:
  assumes "domain_ok Z d" "defaults_match d"
  shows "holds (ev m) (concat (map (\<lambda>c. concat (map (config_domain Z c) (config c))) (charms d))
      @ concat (map (\<lambda>c. concat (map (resource_domain Z c) (resources c))) (charms d))) \<longleftrightarrow> values_respected (ev m) d"
proof -
  have built: "\<exists>cid. built_charm Z cid c" if "c \<in> set (charms d)" for c
    using that assms(1) unfolding domain_ok_def domain_pre_def by (metis in_set_conv_nth)
  have cfg: "holds (ev m) (config_domain Z c x) \<longleftrightarrow> (active (ev m) (charm_exists c) \<longrightarrow> (case x of (k, cfg) \<Rightarrow> \<forall>var. cfg_var cfg = Some var \<longrightarrow>
      value_respected (ev m) var (cfg_isset_var cfg) (map_option (encode (bool_as_int cfg)) (cfg_default cfg)) (encode (bool_as_int cfg) ` set (allowed_values c k))))"
    if "c \<in> set (charms d)" "x \<in> set (config c)" for c x
  proof -
    obtain k cfg where x: "x = (k, cfg)" by (cases x)
    from built [OF that(1)] obtain cid where b: "built_charm Z cid c" by blast
    show ?thesis
    proof (cases "cfg_var cfg")
      case (Some var)
      have "\<forall>v \<in> set (allowed_values c k). same_kind v dv" if "cfg_default cfg = Some dv" for dv
        using assms(2) \<open>c \<in> set (charms d)\<close> \<open>x \<in> set (config c)\<close> that Some unfolding x defaults_match_def list_all_iff by fastforce
      from holds_config_domain [OF b that(2) [unfolded x] Some this] show ?thesis unfolding x prod.case by (simp add: Some)
    qed (simp add: x config_domain_def)
  qed
  have res: "holds (ev m) (resource_domain Z c x) \<longleftrightarrow> (active (ev m) (charm_exists c) \<longrightarrow> (case x of (k, res) \<Rightarrow> \<forall>var. res_var res = Some var \<longrightarrow>
      value_respected (ev m) var (res_isset_var res) None (VStr ` set (allowed_resources c k))))"
    if "c \<in> set (charms d)" "x \<in> set (resources c)" for c x
  proof -
    obtain k r where x: "x = (k, r)" by (cases x)
    from built [OF that(1)] obtain cid where b: "built_charm Z cid c" by blast
    show ?thesis
    proof (cases "res_var r")
      case (Some var)
      from holds_resource_domain [OF b that(2) [unfolded x] Some] show ?thesis unfolding x prod.case by (simp add: Some)
    qed (simp add: x resource_domain_def)
  qed
  have "holds (ev m) (concat (map (\<lambda>c. concat (map (config_domain Z c) (config c))) (charms d))
      @ concat (map (\<lambda>c. concat (map (resource_domain Z c) (resources c))) (charms d))) \<longleftrightarrow>
      (\<forall>c \<in> set (charms d). (\<forall>x \<in> set (config c). holds (ev m) (config_domain Z c x)) \<and> (\<forall>x \<in> set (resources c). holds (ev m) (resource_domain Z c x)))"
    by auto
  also have "\<dots> \<longleftrightarrow> values_respected (ev m) d" unfolding values_respected_def
    by (rule ball_cong [OF refl]) (simp only: cfg res cong: ball_cong, blast)
  finally show ?thesis .
qed

end

end
