(* ===== verification/Bundle_Constraints_Main.thy ===== *)
theory Bundle_Constraints_Main
  imports Bundle_Constraints_Values
begin

text \<open>
  Dependencies, subordinates and custom constraints, and the meaning of all assertions together.
\<close>

section \<open>Acyclic dependencies\<close>

definition dependencies :: "'e evaluation \<Rightarrow> 'e Domain \<Rightarrow> (nat \<times> nat) set" where
  "dependencies E d = (\<lambda>i. (requires_charm_id i, provides_charm_id i)) `
     {i \<in> set (charm_integrations d). ordered_integration d i \<and> active E (int_exists i)}"

text \<open>A finite relation on \<open>n\<close> elements is acyclic exactly if it has a rank function into \<open>0..n\<close>.\<close>

lemma acyclic_rank:
  assumes "acyclic r" "r \<subseteq> {..<n} \<times> {..<n}"
  shows "\<exists>f. (\<forall>x. f x \<le> n) \<and> (\<forall>(x, y) \<in> r. f x > (f y :: nat))"
proof (intro exI conjI allI ballI)
  let ?f = "\<lambda>x. card {y. (x, y) \<in> r\<^sup>+}"
  have sub: "{y. (x, y) \<in> r\<^sup>+} \<subseteq> {..<n}" for x
    using trancl_mono [OF _ assms(2), of "(x, _)"] trancl_subset_Sigma [OF assms(2)] by blast
  show "?f x \<le> n" for x using card_mono [OF _ sub [of x]] by simp
  show "case p of (x, y) \<Rightarrow> ?f x > ?f y" if "p \<in> r" for p
  proof -
    obtain x y where p: "p = (x, y)" by (cases p)
    have "{z. (y, z) \<in> r\<^sup>+} \<subset> {z. (x, z) \<in> r\<^sup>+}"
    proof
      show "{z. (y, z) \<in> r\<^sup>+} \<subseteq> {z. (x, z) \<in> r\<^sup>+}" using that unfolding p by (auto intro: trancl_into_trancl2)
      have "y \<in> {z. (x, z) \<in> r\<^sup>+}" "y \<notin> {z. (y, z) \<in> r\<^sup>+}" using that assms(1) unfolding p by (auto simp: acyclic_def)
      then show "{z. (y, z) \<in> r\<^sup>+} \<noteq> {z. (x, z) \<in> r\<^sup>+}" by blast
    qed
    then show ?thesis unfolding p prod.case by (intro psubset_card_mono finite_subset [OF sub]) auto
  qed
qed

lemma ranked_acyclic:
  assumes "\<And>x y. (x, y) \<in> r \<Longrightarrow> f x > (f y :: nat)"
  shows "acyclic r"
proof -
  have "r\<inverse> \<subseteq> measure f" using assms by auto
  then have "wf (r\<inverse>)" by (rule wf_subset [OF wf_measure])
  then show ?thesis by (metis acyclic_converse wf_acyclic)
qed

definition rank_name :: "nat \<Rightarrow> py_str" where
  "rank_name cid = ''charm_'' @ nat_str cid @ ''_rank''"

lemma rank_name_inject [simp]: "rank_name a = rank_name b \<longleftrightarrow> a = b"
  by (simp add: rank_name_def)

text \<open>The ranks of a model are in range and decrease along dependencies.\<close>

definition ranked :: "z3_model \<Rightarrow> (nat \<times> nat) set \<Rightarrow> nat \<Rightarrow> bool" where
  "ranked m deps n \<longleftrightarrow>
     (\<forall>cid < n. 0 \<le> m_ints m (rank_name cid) \<and> m_ints m (rank_name cid) \<le> int n)
     \<and> (\<forall>(x, y) \<in> deps. m_ints m (rank_name x) > m_ints m (rank_name y))"

context z3_api
begin

lemma holds_dependencies:
  assumes "domain_ok Z d"
  shows "holds (ev m) (add_charm_dependency_constraints Z d s) \<longleftrightarrow> holds (ev m) s \<and> ranked m (dependencies (ev m) d) (length (charms d))"
proof -
  have rank: "ev m (rank_var Z cid) = VInt (m_ints m (rank_name cid))" for cid by (simp add: rank_var_def rank_name_def ev_Int)
  have b: "active (ev m) (zAnd Z [zGe Z (rank_var Z cid) (IntVal Z 0), zLe Z (rank_var Z cid) (IntVal Z n)]) \<longleftrightarrow>
      0 \<le> m_ints m (rank_name cid) \<and> m_ints m (rank_name cid) \<le> n" for cid n
    using active_compare [OF rank ev_IntVal [of m 0], of cid] active_compare [OF rank ev_IntVal [of m n], of cid]
      active_and2(1) [of m "zGe Z (rank_var Z cid) (IntVal Z 0)" "zLe Z (rank_var Z cid) (IntVal Z n)"] by blast
  have o: "active (ev m) (zImplies Z (int_exists i) (zGt Z (rank_var Z x) (rank_var Z y))) \<longleftrightarrow>
      (active (ev m) (int_exists i) \<longrightarrow> m_ints m (rank_name x) > m_ints m (rank_name y))" if "i \<in> set (charm_integrations d)" for i x y
    using active_implies(1) [OF bool_vars(5) [OF assms that]] active_compare(5,6) [OF rank [of x] rank [of y]] by blast
  have "holds (ev m) (rank_bounds Z d) \<longleftrightarrow> (\<forall>cid < length (charms d). 0 \<le> m_ints m (rank_name cid) \<and> m_ints m (rank_name cid) \<le> int (length (charms d)))"
    unfolding rank_bounds_def holds_map2 ball_enumerate prod.case b ..
  moreover have "holds (ev m) (rank_order Z d) \<longleftrightarrow> (\<forall>(x, y) \<in> dependencies (ev m) d. m_ints m (rank_name x) > m_ints m (rank_name y))"
    unfolding rank_order_def holds_map dependencies_def using o by auto
  ultimately show ?thesis unfolding add_charm_dependency_constraints_def holds_simps ranked_def by blast
qed

lemma dependencies_bools:
  assumes "domain_ok Z d" "m_bools m' = m_bools m"
  shows "dependencies (ev m') d = dependencies (ev m) d"
proof -
  have "ev m' (int_exists i) = ev m (int_exists i)" if "i \<in> set (charm_integrations d)" for i
  proof -
    have "\<exists>n. int_exists i = zBool Z n" using assms(1) that unfolding domain_ok_def domain_pre_def integration_ok_def by blast
    then show ?thesis using assms(2) by (auto simp: ev_Bool)
  qed
  then have "{i \<in> set (charm_integrations d). ordered_integration d i \<and> active (ev m') (int_exists i)} =
      {i \<in> set (charm_integrations d). ordered_integration d i \<and> active (ev m) (int_exists i)}" by (auto simp: active_def)
  then show ?thesis by (simp add: dependencies_def)
qed

lemma dependencies_range:
  assumes "domain_ok Z d"
  shows "dependencies E d \<subseteq> {..<length (charms d)} \<times> {..<length (charms d)}"
  using assms unfolding dependencies_def domain_ok_def domain_pre_def integration_ok_def by blast

lemma ranked_iff_acyclic:
  assumes "domain_ok Z d"
  shows "(\<exists>m'. m_bools m' = m_bools m \<and> m_reals m' = m_reals m \<and> m_strs m' = m_strs m
      \<and> (\<forall>n. n \<notin> range rank_name \<longrightarrow> m_ints m' n = m_ints m n) \<and> holds (ev m') (add_charm_dependency_constraints Z d []))
    \<longleftrightarrow> acyclic (dependencies (ev m) d)"
proof
  assume "\<exists>m'. m_bools m' = m_bools m \<and> m_reals m' = m_reals m \<and> m_strs m' = m_strs m
      \<and> (\<forall>n. n \<notin> range rank_name \<longrightarrow> m_ints m' n = m_ints m n) \<and> holds (ev m') (add_charm_dependency_constraints Z d [])"
  then obtain m' where bools: "m_bools m' = m_bools m" and "holds (ev m') (add_charm_dependency_constraints Z d [])" by blast
  then have ranked: "ranked m' (dependencies (ev m) d) (length (charms d))"
    using holds_dependencies [OF assms, of m' "[]"] by (simp add: dependencies_bools [OF assms bools])
  have "nat (m_ints m' (rank_name y)) < nat (m_ints m' (rank_name x))" if "(x, y) \<in> dependencies (ev m) d" for x y
  proof -
    have "m_ints m' (rank_name x) > m_ints m' (rank_name y)" "0 \<le> m_ints m' (rank_name y)"
      using ranked that dependencies_range [OF assms, of "ev m"] unfolding ranked_def by blast+
    then show ?thesis by simp
  qed
  then show "acyclic (dependencies (ev m) d)" by (rule ranked_acyclic [where f = "\<lambda>x. nat (m_ints m' (rank_name x))"])
next
  assume "acyclic (dependencies (ev m) d)"
  from acyclic_rank [OF this dependencies_range [OF assms]] obtain f :: "nat \<Rightarrow> nat" where
    f: "\<forall>x. f x \<le> length (charms d)" "\<forall>(x, y) \<in> dependencies (ev m) d. f x > f y" by blast
  let ?m = "m\<lparr>m_ints := \<lambda>n. if n \<in> range rank_name then int (f (inv rank_name n)) else m_ints m n\<rparr>"
  have inv: "inv rank_name (rank_name k) = k" for k by (rule inv_f_f) (simp add: inj_def)
  have "ranked ?m (dependencies (ev ?m) d) (length (charms d))"
    unfolding dependencies_bools [OF assms, of ?m m, simplified] ranked_def using f by (auto simp: inv)
  then show "\<exists>m'. m_bools m' = m_bools m \<and> m_reals m' = m_reals m \<and> m_strs m' = m_strs m
      \<and> (\<forall>n. n \<notin> range rank_name \<longrightarrow> m_ints m' n = m_ints m n) \<and> holds (ev m') (add_charm_dependency_constraints Z d [])"
    using holds_dependencies [OF assms, of ?m "[]"] by (intro exI [of _ ?m]) simp
qed

end

section \<open>Subordinates\<close>

definition container_scoped :: "'e Domain \<Rightarrow> 'e DomainCharmIntegration \<Rightarrow> bool" where
  "container_scoped d i \<longleftrightarrow>
     scope (spec_endpoint d (requires_charm_id i) (requires_endpoint i)) = Some CONTAINER
     \<or> scope (spec_endpoint d (provides_charm_id i) (provides_endpoint i)) = Some CONTAINER"

definition bases_match :: "'e evaluation \<Rightarrow> 'e Domain \<Rightarrow> bool" where
  "bases_match E d \<longleftrightarrow> (\<forall>i \<in> set (charm_integrations d). active E (int_exists i) \<and> container_scoped d i \<longrightarrow>
     ubuntu_version (spec (charms d ! requires_charm_id i)) = ubuntu_version (spec (charms d ! provides_charm_id i)))"

context z3_api
begin

lemma holds_subordinates:
  assumes "domain_ok Z d"
  shows "holds (ev m) (add_subordinate_constraints Z d s) \<longleftrightarrow> holds (ev m) s \<and> bases_match (ev m) d"
proof -
  have "holds (ev m) (subordinate_base Z d i) \<longleftrightarrow> (active (ev m) (int_exists i) \<and> container_scoped d i \<longrightarrow>
     ubuntu_version (spec (charms d ! requires_charm_id i)) = ubuntu_version (spec (charms d ! provides_charm_id i)))"
    if "i \<in> set (charm_integrations d)" for i
    using active_not(1) [OF bool_vars(5) [OF assms that, of m]]
    by (auto simp: subordinate_base_def Let_def container_scoped_def)
  then show ?thesis by (auto simp: add_subordinate_constraints_def bases_match_def)
qed

end

section \<open>Custom constraints\<close>

abbreviation charm_ctx :: "'e Domain \<Rightarrow> nat \<Rightarrow> 'e LoweringContext" where
  "charm_ctx d cid \<equiv> \<lparr>ctx_charm_id = cid, ctx_charm = charms d ! cid, ctx_domain = d\<rparr>"

lemma custom_loop_Inr:
  assumes "custom_loop Z ctx es seen = Inr s" "(idx, e) \<in> set es"
  shows "\<exists>r t. lower Z e ctx = Inr r \<and> (t, zImplies Z (charm_exists (ctx_charm ctx)) (lr_expr r)) \<in> set s"
  using assms
proof (induction Z ctx es seen arbitrary: s rule: custom_loop.induct)
  case (2 Z ctx i e' rest seen)
  obtain r where r: "lower Z e' ctx = Inr r" using "2.prems"(1) by (auto split: sum.splits)
  obtain hints seen' where h: "new_hints Z (ctx_charm ctx) (lr_sub_assertions r) seen = (hints, seen')" by fastforce
  obtain out where out: "custom_loop Z ctx rest seen' = Inr out"
    "s = (Some (CharmCustomConstraintTag (charm_payload (ctx_charm ctx) (ctx_charm_id ctx)) i), zImplies Z (charm_exists (ctx_charm ctx)) (lr_expr r)) # hints @ out"
    using "2.prems"(1) r h by (auto simp: Let_def bind_result_Inr_iff)
  show ?case
  proof (cases "(idx, e) = (i, e')")
    case True
    then show ?thesis using r out(2) by auto
  next
    case False
    then have "(idx, e) \<in> set rest" using "2.prems"(2) by auto
    from "2.IH" [OF r refl refl h [symmetric] out(1) this] show ?thesis unfolding out(2) by fastforce
  qed
qed simp

lemma custom_loop_error:
  "(\<forall>x. custom_loop Z ctx es seen = Inl x \<longrightarrow> (\<exists>(idx, e) \<in> set es. \<exists>er. lower Z e ctx = Inl er \<and> x = lowering_exception er)) \<and>
   (isl (custom_loop Z ctx es seen) \<longleftrightarrow> (\<exists>(idx, e) \<in> set es. isl (lower Z e ctx)))"
proof (induction Z ctx es seen rule: custom_loop.induct)
  case (2 Z ctx i e rest seen)
  show ?case
  proof (cases "lower Z e ctx")
    case (Inr r)
    obtain hints seen' where h: "new_hints Z (ctx_charm ctx) (lr_sub_assertions r) seen = (hints, seen')" by fastforce
    from "2.IH" [OF Inr refl] h have IH:
      "(\<forall>x. custom_loop Z ctx rest seen' = Inl x \<longrightarrow> (\<exists>(idx, e) \<in> set rest. \<exists>er. lower Z e ctx = Inl er \<and> x = lowering_exception er)) \<and>
        (isl (custom_loop Z ctx rest seen') \<longleftrightarrow> (\<exists>(idx, e) \<in> set rest. isl (lower Z e ctx)))" by simp
    then show ?thesis using Inr h by (cases "custom_loop Z ctx rest seen'") (auto simp: Let_def)
  qed simp
qed simp

lemma concat_results_error:
  "(\<forall>e. concat_results f xs = Inl e \<longrightarrow> (\<exists>x \<in> set xs. f x = Inl e)) \<and> (isl (concat_results f xs) \<longleftrightarrow> (\<exists>x \<in> set xs. isl (f x)))"
proof (induction xs)
  case (Cons x xs)
  then show ?case by (cases "f x"; cases "concat_results f xs") auto
qed simp

lemma concat_results_mem:
  "concat_results f xs = Inr s \<Longrightarrow> x \<in> set xs \<Longrightarrow> \<exists>t. f x = Inr t \<and> set t \<subseteq> set s"
  by (induction xs arbitrary: s) (fastforce simp: bind_result_Inr_iff)+

lemma bex_enumerate: "(\<exists>(k, x) \<in> set (enumerate n xs). P x) \<longleftrightarrow> (\<exists>x \<in> set xs. P x)"
proof -
  have "(\<exists>(k, x) \<in> set (enumerate n xs). P x) \<longleftrightarrow> (\<exists>x \<in> set (map snd (enumerate n xs)). P x)"
    unfolding set_map bex_simps(7) by (simp add: case_prod_beta)
  then show ?thesis by (simp only: map_snd_enumerate)
qed

lemma custom_constraints_error:
  "isl (custom_constraints Z d) \<longleftrightarrow> (\<exists>cid < length (charms d). \<exists>e \<in> set (constraints (spec (charms d ! cid))). isl (lower Z e (charm_ctx d cid)))"
  "custom_constraints Z d = Inl x \<Longrightarrow>
    \<exists>cid < length (charms d). \<exists>e \<in> set (constraints (spec (charms d ! cid))). \<exists>er. lower Z e (charm_ctx d cid) = Inl er \<and> x = lowering_exception er"
proof -
  let ?f = "\<lambda>(cid, c). custom_loop Z \<lparr>ctx_charm_id = cid, ctx_charm = c, ctx_domain = d\<rparr> (enumerate 0 (constraints (spec c))) []"
  note loop = custom_loop_error [of Z "charm_ctx d cid" "enumerate 0 (constraints (spec (charms d ! cid)))" "[]" for cid, unfolded bex_enumerate]
  note all = concat_results_error [of ?f "enumerate 0 (charms d)"]
  have one: "isl (?f (cid, charms d ! cid)) \<longleftrightarrow> (\<exists>e \<in> set (constraints (spec (charms d ! cid))). isl (lower Z e (charm_ctx d cid)))" for cid
    using loop [of cid] unfolding prod.case by blast
  have "isl (custom_constraints Z d) \<longleftrightarrow> (\<exists>cid < length (charms d). isl (?f (cid, charms d ! cid)))"
    using all unfolding custom_constraints_def by (auto simp: enumerate_map)
  then show "isl (custom_constraints Z d) \<longleftrightarrow> (\<exists>cid < length (charms d). \<exists>e \<in> set (constraints (spec (charms d ! cid))). isl (lower Z e (charm_ctx d cid)))"
    unfolding one .
  assume "custom_constraints Z d = Inl x"
  then obtain y where "y \<in> set (enumerate 0 (charms d))" "?f y = Inl x"
    using all unfolding custom_constraints_def by blast
  then obtain cid where "cid < length (charms d)" "?f (cid, charms d ! cid) = Inl x" by (auto simp: enumerate_map)
  then show "\<exists>cid < length (charms d). \<exists>e \<in> set (constraints (spec (charms d ! cid))). \<exists>er. lower Z e (charm_ctx d cid) = Inl er \<and> x = lowering_exception er"
    using loop [of cid] unfolding prod.case by blast
qed

section \<open>All assertions\<close>

definition valid_deployment :: "'e z3 \<Rightarrow> 'e evaluation \<Rightarrow> 'e Domain \<Rightarrow> bool" where
  "valid_deployment Z E d \<longleftrightarrow>
     applications_placed Z E d \<and> declarations_met Z E d \<and> integrations_between_deployed E d \<and> counts_right Z E d
     \<and> limits_respected E d \<and> features_agree E d \<and> values_respected E d \<and> bases_match E d"

context z3_api
begin

lemma holds_metadata:
  assumes "domain_ok Z d" "defaults_match d" "custom_constraints Z d = Inr custom"
  shows "\<exists>s'. add_charm_metadata_constraints Z d s = Inr s'
    \<and> (holds (ev m) s' \<longleftrightarrow> holds (ev m) s \<and> limits_respected (ev m) d \<and> features_agree (ev m) d \<and> values_respected (ev m) d \<and> holds (ev m) custom)"
proof -
  let ?out = "s @ unit_bounds Z d @ required_endpoints Z d @ endpoint_limits Z d
            @ concat (map (feature_coherence Z d) (charm_integrations d))
            @ concat (map (\<lambda>c. concat (map (config_domain Z c) (config c))) (charms d))
            @ concat (map (\<lambda>c. concat (map (resource_domain Z c) (resources c))) (charms d)) @ custom"
  have "holds (ev m) (concat (map (feature_coherence Z d) (charm_integrations d))) \<longleftrightarrow> features_agree (ev m) d"
    unfolding features_agree_def holds_simps(4) set_map ball_simps
    by (rule ball_cong [OF refl]) (rule holds_feature_coherence [OF assms(1)])
  with holds_limits [OF assms(1), of m] holds_values [OF assms(1,2), of m]
  have "holds (ev m) ?out \<longleftrightarrow> holds (ev m) s \<and> limits_respected (ev m) d \<and> features_agree (ev m) d \<and> values_respected (ev m) d \<and> holds (ev m) custom"
    unfolding holds_simps(3) by argo
  moreover have "add_charm_metadata_constraints Z d s = Inr ?out" unfolding add_charm_metadata_constraints_def assms(3) bind_result_simps ..
  ultimately show ?thesis by (intro exI conjI)
qed

lemma add_constraints_meaning:
  assumes "domain_ok Z d" "defaults_match d" "add_constraints Z d [] = Inr s"
  shows "\<exists>custom. custom_constraints Z d = Inr custom \<and> (holds (ev m) s \<longleftrightarrow>
    valid_deployment Z (ev m) d \<and> ranked m (dependencies (ev m) d) (length (charms d)) \<and> holds (ev m) custom)"
proof -
  obtain s1 where s1: "add_application_constraints Z d [] = Inr s1" "holds (ev m) s1 \<longleftrightarrow> applications_placed Z (ev m) d \<and> declarations_met Z (ev m) d"
    using holds_application_constraints [OF assms(1), of "[]" m] by auto
  let ?s2 = "add_charm_constraints Z d s1"
  obtain custom where custom: "custom_constraints Z d = Inr custom"
  proof (cases "custom_constraints Z d")
    case (Inl x)
    then show ?thesis using assms(3) unfolding add_constraints_def s1(1) bind_result_simps add_charm_metadata_constraints_def Inl by simp
  next
    case (Inr r)
    then show ?thesis by (rule that)
  qed
  obtain s3 where s3: "add_charm_metadata_constraints Z d ?s2 = Inr s3" "holds (ev m) s3 \<longleftrightarrow>
      holds (ev m) ?s2 \<and> limits_respected (ev m) d \<and> features_agree (ev m) d \<and> values_respected (ev m) d \<and> holds (ev m) custom"
    using holds_metadata [OF assms(1,2) custom, of ?s2 m] by blast
  have s: "s = add_subordinate_constraints Z d (add_charm_dependency_constraints Z d s3)"
    using assms(3) unfolding add_constraints_def s1(1) bind_result_simps s3(1) by simp
  have "holds (ev m) s \<longleftrightarrow> valid_deployment Z (ev m) d \<and> ranked m (dependencies (ev m) d) (length (charms d)) \<and> holds (ev m) custom"
    unfolding s holds_subordinates [OF assms(1)] holds_dependencies [OF assms(1)] s3(2) holds_charm_constraints [OF assms(1)] s1(2) valid_deployment_def
    by argo
  with custom show ?thesis by blast
qed

lemma add_constraints_error:
  assumes "domain_ok Z d"
  shows "(isl (add_constraints Z d s) \<longleftrightarrow>
      (\<exists>cid < length (charms d). \<exists>e \<in> set (constraints (spec (charms d ! cid))). isl (lower Z e (charm_ctx d cid)))) \<and>
    (add_constraints Z d s = Inl x \<longrightarrow>
      (\<exists>cid < length (charms d). \<exists>e \<in> set (constraints (spec (charms d ! cid))). \<exists>er.
        lower Z e (charm_ctx d cid) = Inl er \<and> x = lowering_exception er))"
proof -
  obtain s1 where s1: "add_application_constraints Z d s = Inr s1" using holds_application_constraints [OF assms, of s] by blast
  have "isl (add_constraints Z d s) = isl (custom_constraints Z d) \<and> (add_constraints Z d s = Inl x \<longleftrightarrow> custom_constraints Z d = Inl x)"
  proof (cases "custom_constraints Z d")
    case (Inl y)
    show ?thesis unfolding add_constraints_def s1 bind_result_simps add_charm_metadata_constraints_def Inl by simp
  next
    case (Inr r)
    show ?thesis unfolding add_constraints_def s1 bind_result_simps add_charm_metadata_constraints_def Inr by simp
  qed
  then show ?thesis using custom_constraints_error by blast
qed

lemma custom_met:
  assumes "domain_ok Z d" "custom_constraints Z d = Inr custom" "holds (ev m) custom" "cid < length (charms d)"
    "active (ev m) (charm_exists (charms d ! cid))" "e \<in> set (constraints (spec (charms d ! cid)))"
    "has_type e TY_BOOL" "plain e" "sorts_ok (ev m) (charm_ctx d cid) e"
  shows "meaning (ev m) (charm_ctx d cid) e = VBool True"
proof -
  have "(cid, charms d ! cid) \<in> set (enumerate 0 (charms d))" using assms(4) by (auto simp: enumerate_map)
  from concat_results_mem [OF assms(2) [unfolded custom_constraints_def] this] obtain t where
    t: "custom_loop Z (charm_ctx d cid) (enumerate 0 (constraints (spec (charms d ! cid)))) [] = Inr t" "set t \<subseteq> set custom" by auto
  from bex_enumerate [of 0 "constraints (spec (charms d ! cid))" "\<lambda>x. x = e"] assms(6)
  obtain idx where "(idx, e) \<in> set (enumerate 0 (constraints (spec (charms d ! cid))))" by auto
  from custom_loop_Inr [OF t(1) this] t(2) obtain r tag where r: "lower Z e (charm_ctx d cid) = Inr r"
    "(tag, zImplies Z (charm_exists (charms d ! cid)) (lr_expr r)) \<in> set custom" by auto
  have good: "good_context (ev m) (charm_ctx d cid)"
    using domain_ok_typed [OF assms(1)] assms(4,5) by (simp add: good_context_def)
  note mean = lower_meaning [OF good assms(7-9) r(1)]
  have sort: "val_sort (meaning (ev m) (charm_ctx d cid) e) = BoolSort" using meaning_sort [OF assms(7)] by blast
  then have "is_bool_val (ev m (lr_expr r))" by (simp add: is_bool_val_def mean)
  moreover have "active (ev m) (zImplies Z (charm_exists (charms d ! cid)) (lr_expr r))" using assms(3) r(2) unfolding holds_def by blast
  ultimately have "active (ev m) (lr_expr r)" using active_implies(1) [OF bool_vars(4) [OF assms(1,4)]] assms(5) by blast
  then show ?thesis by (simp add: active_def mean)
qed

end

end
