(* ===== verification/Bundle_Solve_Correct.thy ===== *)
theory Bundle_Solve_Correct
  imports Bundle_Builder_Correct Bundle_Constraints_Main
begin

text \<open>
  The refinement loop ends, what it returns satisfies the assertions, and the result of the
  optimization is minimal. What the solver promises is the locale \<open>smt_solver\<close>.
\<close>

section \<open>A bound for the domain\<close>

lemma finite_app_keys: "finite (app_keys d)"
proof (rule finite_subset)
  show "app_keys d \<subseteq> (\<Union>(r, mc) \<in> set (models d). {r} \<times> fst ` set (applications mc))"
  proof
    fix k assume "k \<in> app_keys d"
    then obtain mc da where "dict_get (models d) (fst k) = Some mc" "dict_get (applications mc) (snd k) = Some da"
      by (auto simp: app_keys_def app_of_def split: option.splits)
    then have "(fst k, mc) \<in> set (models d)" "(snd k, da) \<in> set (applications mc)" by (auto dest: map_of_SomeD)
    then show "k \<in> (\<Union>(r, mc) \<in> set (models d). {r} \<times> fst ` set (applications mc))" by (cases k) force
  qed
qed auto

definition max_charms :: "Charm set \<Rightarrow> 'e Domain \<Rightarrow> nat" where
  "max_charms C d = card (branches (app_keys d) (C \<times> fst ` set (models d)))"

definition endpoint_names :: "Charm set \<Rightarrow> py_str set" where
  "endpoint_names C = (\<Union>c \<in> C. fst ` set (charm_endpoints c))"

definition max_size :: "Charm set \<Rightarrow> 'e Domain \<Rightarrow> nat" where
  "max_size C d = max_charms C d + card ({..<max_charms C d} \<times> endpoint_names C \<times> {..<max_charms C d} \<times> endpoint_names C)"

lemma charms_bound:
  assumes "pool C Z d" "finite C"
  shows "length (charms d) \<le> max_charms C d"
  unfolding max_charms_def
proof (rule forest_bound)
  show "forest (app_keys d) (added_for d) (length (charms d)) (label d) (kids d)" using assms(1) by (simp add: pool_def tree_def)
  have pre: "domain_pre Z d" using assms(1) by (simp add: pool_def domain_ok_def)
  show "label d c \<in> C \<times> fst ` set (models d)" if "c < length (charms d)" for c
    using assms(1) domain_preD(4) [OF pre that] that by (simp add: pool_def label_def)
qed (use assms(2) finite_app_keys in auto)

lemma size_bound:
  assumes "pool C Z d" "finite C"
  shows "domain_size d \<le> max_size C d"
proof -
  let ?n = "max_charms C d" and ?E = "endpoint_names C"
  have pre: "domain_pre Z d" using assms(1) by (simp add: pool_def domain_ok_def)
  have "int_key i \<in> {..<?n} \<times> ?E \<times> {..<?n} \<times> ?E" if "i \<in> set (charm_integrations d)" for i
  proof -
    have ok: "requires_charm_id i < length (charms d)" "provides_charm_id i < length (charms d)" "compatible d (int_key i)"
      using domain_preD(5) [OF pre that] by (simp_all add: integration_ok_def)
    have "requires_endpoint i \<in> fst ` set (charm_endpoints (spec (charms d ! requires_charm_id i)))"
      "provides_endpoint i \<in> fst ` set (charm_endpoints (spec (charms d ! provides_charm_id i)))"
      using ok(3) by (auto simp: compatible_def int_key_def dom_map_of_conv_image_fst [symmetric] split: option.splits)
    then have "requires_endpoint i \<in> ?E" "provides_endpoint i \<in> ?E"
      using assms(1) ok(1,2) unfolding endpoint_names_def pool_def by blast+
    then show ?thesis using ok(1,2) charms_bound [OF assms] by (simp add: int_key_def)
  qed
  then have "set (map int_key (charm_integrations d)) \<subseteq> {..<?n} \<times> ?E \<times> {..<?n} \<times> ?E"
    unfolding set_map image_subset_iff by blast
  moreover have "finite ({..<?n} \<times> ?E \<times> {..<?n} \<times> ?E)" using assms(2) by (simp add: endpoint_names_def)
  ultimately have "card (set (map int_key (charm_integrations d))) \<le> card ({..<?n} \<times> ?E \<times> {..<?n} \<times> ?E)" by (rule card_mono [rotated])
  then have "length (charm_integrations d) \<le> card ({..<?n} \<times> ?E \<times> {..<?n} \<times> ?E)"
    using distinct_card [OF domain_preD(2) [OF pre]] by simp
  then show ?thesis using charms_bound [OF assms] by (simp add: domain_size_def max_size_def)
qed

lemma max_size_extends:
  assumes "extends C Z d d' ok" "pool C Z d"
  shows "max_size C d' = max_size C d"
  using assms by (simp add: extends_def max_size_def max_charms_def)

text \<open>The costs in the order of their importance.\<close>

definition costs :: "'e smt \<Rightarrow> 'e evaluation \<Rightarrow> 'e Domain \<Rightarrow> int list" where
  "costs S E d = [eval_charm_cost S E d, eval_integration_cost E d, eval_units_cost E d]"

section \<open>The solver\<close>

text \<open>
  What the solver library documents: a model it gives satisfies the assertions, without a model there is
  none, and the core consists of tags of assertions; the optimizer gives a model whose
  objectives are minimal in lexicographic order. The quotient of the cost and a
  positive number is not negative.
\<close>

locale smt_solver = z3_api Z ev for Z :: "'e z3" and ev +
  fixes S :: "'e smt"
  assumes check_sat: "smt_check S s = Sat m \<Longrightarrow> holds (ev m) s"
    and check_unsat: "smt_check S s = Unsat core \<Longrightarrow> \<not> holds (ev m) s"
    and check_core: "smt_check S s = Unsat core \<Longrightarrow> Some ` set core \<subseteq> fst ` set s"
    and optimize_sat: "smt_optimize S s es = Sat m \<Longrightarrow> holds (ev m) s"
    and optimize_least: "smt_optimize S s es = Sat m \<Longrightarrow> holds (ev m') s \<Longrightarrow> map (\<lambda>e. as_int (ev m e)) es \<le> map (\<lambda>e. as_int (ev m' e)) es"
    and div_nonneg: "0 < q \<Longrightarrow> 0 \<le> smt_div S 1000000 q"
begin

lemma descend_ends:
  assumes "\<And>m. holds (ev m) s \<Longrightarrow> ev m expr = VInt (cost m) \<and> 0 \<le> cost m"
  shows "\<exists>m'. descend (smt_check S) Z cost expr s m = Some m' \<and> (m' = m \<or> holds (ev m') s) \<and> cost m' \<le> cost m
    \<and> ((\<forall>s. smt_check S s \<noteq> Unknown) \<longrightarrow> (\<forall>m''. holds (ev m'') s \<longrightarrow> cost m' \<le> cost m''))"
proof (induction "nat (cost m)" arbitrary: m rule: less_induct)
  case less
  let ?q = "s @ [(None, zLt Z expr (IntVal Z (cost m)))]"
  have lt: "holds (ev m') ?q \<longleftrightarrow> holds (ev m') s \<and> cost m' < cost m" for m'
    using assms [of m'] ev_Lt [OF _ ev_IntVal, of m' expr "cost m'" "cost m"] by (auto simp: active_def)
  show ?case
  proof (cases "smt_check S ?q")
    case (Sat m')
    with check_sat lt have m': "holds (ev m') s" "cost m' < cost m" "0 \<le> cost m'" using assms by blast+
    then have "nat (cost m') < nat (cost m)" by simp
    from less.hyps [OF this] obtain m1 where "descend (smt_check S) Z cost expr s m' = Some m1" "m1 = m' \<or> holds (ev m1) s" "cost m1 \<le> cost m'"
      "(\<forall>s. smt_check S s \<noteq> Unknown) \<longrightarrow> (\<forall>m''. holds (ev m'') s \<longrightarrow> cost m1 \<le> cost m'')" by blast
    then show ?thesis using m' Sat by (subst descend.simps) auto
  next
    case (Unsat core)
    then have "\<not> holds (ev m'') ?q" for m'' by (rule check_unsat)
    then have "cost m \<le> cost m''" if "holds (ev m'') s" for m'' using lt that by (meson not_less)
    then show ?thesis using Unsat by (subst descend.simps) auto
  next
    case Unknown
    then show ?thesis by (subst descend.simps) auto
  qed
qed

lemma int_value: "is_int_val v \<Longrightarrow> v = VInt (as_int v)"
  by (cases v) (simp_all add: is_int_val_def)

lemma sum_active:
  assumes "\<And>x. x \<in> set xs \<Longrightarrow> is_bool_val (ev m (f x)) \<and> ev m (g x) = VInt (w x)"
  shows "ev m (zSum Z (map (\<lambda>x. zIf Z (f x) (g x) (IntVal Z 0)) xs @ [IntVal Z 0])) = VInt (sum_list (map w (filter (\<lambda>x. active (ev m) (f x)) xs)))"
proof -
  have "ev m (zIf Z (f x) (g x) (IntVal Z 0)) = VInt (if active (ev m) (f x) then w x else 0)" if "x \<in> set xs" for x
    using assms [OF that] is_bool_valE [of "ev m" "f x"] ev_If_Int [OF _ _ ev_IntVal] by blast
  from ev_Sum_map_zero [OF this] show ?thesis by (simp add: sum_list_map_filter')
qed

lemma cost_exprs:
  assumes "domain_ok Z d" "build_cost_exprs S Z d = (a, b, c)"
  shows "ev m a = VInt (eval_charm_cost S (ev m) d)" "ev m b = VInt (eval_integration_cost (ev m) d)" "ev m c = VInt (eval_units_cost (ev m) d)"
proof -
  have typed: "typed_domain (ev m) d" by (rule domain_ok_typed [OF assms(1)])
  have c: "is_bool_val (ev m (charm_exists x))" "ev m (num_units x) = VInt (as_int (ev m (num_units x)))" if "x \<in> set (charms d)" for x
    using typed that int_value by (simp_all add: typed_domain_def typed_charm_def)
  have i: "is_bool_val (ev m (int_exists x))" if "x \<in> set (charm_integrations d)" for x using typed that by (simp add: typed_domain_def)
  have abc: "a = zSum Z (map (\<lambda>c. zIf Z (charm_exists c) (IntVal Z (charm_cost S c)) (IntVal Z 0)) (charms d) @ [IntVal Z 0])"
    "b = zSum Z (map (\<lambda>i. zIf Z (int_exists i) (IntVal Z (integration_cost d i)) (IntVal Z 0)) (charm_integrations d) @ [IntVal Z 0])"
    "c = zSum Z (map (\<lambda>c. zIf Z (charm_exists c) (num_units c) (IntVal Z 0)) (charms d) @ [IntVal Z 0])"
    using assms(2) by (simp_all add: build_cost_exprs_def)
  show "ev m a = VInt (eval_charm_cost S (ev m) d)"
    unfolding abc(1) eval_charm_cost_def by (rule sum_active) (simp add: c ev_IntVal)
  show "ev m b = VInt (eval_integration_cost (ev m) d)"
    unfolding abc(2) eval_integration_cost_def by (rule sum_active) (simp add: i ev_IntVal)
  show "ev m c = VInt (eval_units_cost (ev m) d)"
    unfolding abc(3) eval_units_cost_def by (rule sum_active) (use c in blast)
qed

lemma costs_nonneg:
  "0 \<le> eval_charm_cost S E d" "0 \<le> eval_integration_cost E d"
proof -
  have "0 \<le> charm_cost S c" for c
  proof -
    have "0 < max (priority (spec c)) (1 / 1000000)" by (simp add: less_max_iff_disj)
    from div_nonneg [OF this] show ?thesis by (simp add: charm_cost_def py_int_def)
  qed
  then show "0 \<le> eval_charm_cost S E d" by (auto simp: eval_charm_cost_def intro!: sum_list_nonneg)
  show "0 \<le> eval_integration_cost E d" by (auto simp: eval_integration_cost_def integration_cost_def intro!: sum_list_nonneg)
qed

text \<open>Deployed charms have a unit, so the number of units is not negative.\<close>

lemma units_nonneg:
  assumes "domain_ok Z d" "add_constraints Z d [] = Inr s" "holds (ev m) s"
  shows "0 \<le> eval_units_cost (ev m) d"
proof -
  from assms(2) obtain s1 s2 where "add_charm_metadata_constraints Z d s1 = Inr s2"
    "s = add_subordinate_constraints Z d (add_charm_dependency_constraints Z d s2)" by (auto simp: add_constraints_def bind_result_Inr_iff)
  then have "set (unit_bounds Z d) \<subseteq> set s"
    by (auto simp: add_charm_metadata_constraints_def bind_result_Inr_iff add_subordinate_constraints_def add_charm_dependency_constraints_def)
  with assms(3) have units: "active (ev m) (zImplies Z (charm_exists c) (zGe Z (num_units c) (IntVal Z 1)))" if "c \<in> set (charms d)" for c
    using that by (auto simp: unit_bounds_def holds_def)
  have "0 \<le> as_int (ev m (num_units c))" if c: "c \<in> set (charms d)" and a: "active (ev m) (charm_exists c)" for c
  proof -
    have typed: "is_bool_val (ev m (charm_exists c))" "is_int_val (ev m (num_units c))"
      using domain_ok_typed [OF assms(1), of m] c by (simp_all add: typed_domain_def typed_charm_def)
    then obtain k where k: "ev m (num_units c) = VInt k" using int_value by blast
    from active_compare [OF k ev_IntVal [of m 1]] active_implies(1) [OF typed(1)] units [OF c] a have "1 \<le> k" by blast
    then show ?thesis using k by simp
  qed
  then show ?thesis by (auto simp: eval_units_cost_def intro!: sum_list_nonneg)
qed

lemma lex3: "[a, b, c] \<le> [a', b', c' :: int] \<longleftrightarrow> a < a' \<or> a = a' \<and> (b < b' \<or> b = b' \<and> c \<le> c')"
  by (auto simp: list_le_def list_less_def)

lemma holds_eq: "ev m e = VInt k \<Longrightarrow> active (ev m) (zEq Z e (IntVal Z v)) \<longleftrightarrow> k = v"
  using ev_Eq [of m e "IntVal Z v"] by (simp add: ev_IntVal active_def)

lemma descent_phases_minimal:
  assumes ok: "domain_ok Z d" and s0: "add_constraints Z d [] = Inr s0"
  shows "\<exists>m'. descent_phases S Z ev d (s0 @ x) m = Some m' \<and> (m' = m \<or> holds (ev m') (s0 @ x))
    \<and> ((\<forall>s. smt_check S s \<noteq> Unknown) \<longrightarrow> (\<forall>m''. holds (ev m'') (s0 @ x) \<longrightarrow> costs S (ev m') d \<le> costs S (ev m'') d))"
proof -
  obtain a b c where abc: "build_cost_exprs S Z d = (a, b, c)" by (cases "build_cost_exprs S Z d") auto
  let ?s = "s0 @ x" and ?A = "\<lambda>m. eval_charm_cost S (ev m) d" and ?B = "\<lambda>m. eval_integration_cost (ev m) d" and ?C = "\<lambda>m. eval_units_cost (ev m) d"
  note e = cost_exprs [OF ok abc]
  have units: "0 \<le> ?C m" if "holds (ev m) ?s" for m using that units_nonneg [OF ok s0] by simp
  obtain m1 where m1: "descend (smt_check S) Z ?A a ?s m = Some m1" "m1 = m \<or> holds (ev m1) ?s"
    "(\<forall>s. smt_check S s \<noteq> Unknown) \<longrightarrow> (\<forall>m''. holds (ev m'') ?s \<longrightarrow> ?A m1 \<le> ?A m'')"
    using descend_ends [of ?s a ?A m] e(1) costs_nonneg(1) by blast
  let ?s1 = "?s @ [(None, zEq Z a (IntVal Z (?A m1)))]"
  have h1: "holds (ev m) ?s1 \<longleftrightarrow> holds (ev m) ?s \<and> ?A m = ?A m1" for m using holds_eq [OF e(1)] by simp
  obtain m2 where m2: "descend (smt_check S) Z ?B b ?s1 m1 = Some m2" "m2 = m1 \<or> holds (ev m2) ?s1"
    "(\<forall>s. smt_check S s \<noteq> Unknown) \<longrightarrow> (\<forall>m''. holds (ev m'') ?s1 \<longrightarrow> ?B m2 \<le> ?B m'')"
    using descend_ends [of ?s1 b ?B m1] e(2) costs_nonneg(2) by blast
  let ?s2 = "?s1 @ [(None, zEq Z b (IntVal Z (?B m2)))]"
  have "holds (ev m) ?s2 \<longleftrightarrow> holds (ev m) ?s1 \<and> ?B m = ?B m2" for m using holds_eq [OF e(2)] by simp
  then have h2: "holds (ev m) ?s2 \<longleftrightarrow> holds (ev m) ?s \<and> ?A m = ?A m1 \<and> ?B m = ?B m2" for m unfolding h1 by blast
  obtain m3 where m3: "descend (smt_check S) Z ?C c ?s2 m2 = Some m3" "m3 = m2 \<or> holds (ev m3) ?s2"
    "(\<forall>s. smt_check S s \<noteq> Unknown) \<longrightarrow> (\<forall>m''. holds (ev m'') ?s2 \<longrightarrow> ?C m3 \<le> ?C m'')"
    using descend_ends [of ?s2 c ?C m2] e(3) units h2 by blast
  have "descent_phases S Z ev d ?s m = Some m3" using m1(1) m2(1) m3(1) by (simp add: descent_phases_def abc)
  moreover have "m3 = m \<or> holds (ev m3) ?s" using m1(2) m2(2) m3(2) h1 h2 by blast
  moreover have "costs S (ev m3) d \<le> costs S (ev m'') d" if "\<forall>s. smt_check S s \<noteq> Unknown" "holds (ev m'') ?s" for m''
  proof -
    have "?A m2 = ?A m1" "?A m3 = ?A m1" "?B m3 = ?B m2" using m2(2) m3(2) h1 h2 by auto
    moreover have "?A m1 \<le> ?A m''" "?A m'' = ?A m1 \<Longrightarrow> ?B m2 \<le> ?B m''" "?A m'' = ?A m1 \<Longrightarrow> ?B m'' = ?B m2 \<Longrightarrow> ?C m3 \<le> ?C m''"
      using m1(3) m2(3) m3(3) h1 h2 that by blast+
    ultimately show ?thesis unfolding costs_def lex3 by linarith
  qed
  ultimately show ?thesis by blast
qed

end

end
