(* ===== verification/Bundle_Lower_Sorts.thy ===== *)
theory Bundle_Lower_Sorts
  imports Bundle_Lower_Main
begin

text \<open>
  The sorts of translated constraints. For a well-typed tree that uses configuration and
  resource values at the sorts they have in the domain, every operand handed to the solver
  library has the sort its type says, so that the library raises nothing.
\<close>

section \<open>Sorts of trees\<close>

fun type_sort :: "DSLType \<Rightarrow> z3_sort option" where
  "type_sort TY_INT = Some IntSort"
| "type_sort TY_BOOL = Some BoolSort"
| "type_sort TY_STR = Some StringSort"
| "type_sort TY_CHARM_SET = Some (SetSort IntSort)"
| "type_sort TY_SET_INT = Some (SetSort IntSort)"
| "type_sort TY_SET_STR = Some (SetSort StringSort)"
| "type_sort _ = None"

text \<open>Values of configuration and resources have the sort of their expression in the domain, if they have one.\<close>

definition result_sort :: "'e z3 \<Rightarrow> lowering_error + 'e \<Rightarrow> z3_sort option" where
  "result_sort Z r = (case r of Inl _ \<Rightarrow> None | Inr x \<Rightarrow> Some (sort_of Z x))"

definition tree_sort :: "'e z3 \<Rightarrow> 'e LoweringContext \<Rightarrow> expr \<Rightarrow> z3_sort option" where
  "tree_sort Z ctx e =
     (case e of
        ConfigExpr k \<Rightarrow> result_sort Z (config_expr Z (ctx_charm ctx) k)
      | ResourceExpr k \<Rightarrow> result_sort Z (resource_expr Z (ctx_charm ctx) k)
      | _ \<Rightarrow> type_sort (dsl_type e))"

definition agree :: "z3_sort option \<Rightarrow> z3_sort option \<Rightarrow> bool" where
  "agree s t \<longleftrightarrow> s = None \<or> t = None \<or> s = t"

text \<open>
  The two sides of a comparison have one sort, what is negated is boolean, and a value
  is looked up in a set of its sort.
\<close>

primrec fits :: "'e z3 \<Rightarrow> 'e LoweringContext \<Rightarrow> expr \<Rightarrow> bool" where
  "fits Z ctx (IntLit n) = True" | "fits Z ctx (StrLit t) = True" | "fits Z ctx (IntLiteralSet ns) = True"
| "fits Z ctx (StrLiteralSet ss) = True" | "fits Z ctx SelfExpr = True" | "fits Z ctx (EndpointExpr n) = True"
| "fits Z ctx (ConfigExpr k) = True" | "fits Z ctx (SetConfigExpr k) = True" | "fits Z ctx (ResourceExpr k) = True"
| "fits Z ctx (SetResourceExpr k) = True"
| "fits Z ctx (LenExpr a) = fits Z ctx a" | "fits Z ctx (BoolFunc a) = fits Z ctx a"
| "fits Z ctx (CharmsExpr a) = fits Z ctx a" | "fits Z ctx (FeaturesExpr a) = fits Z ctx a"
| "fits Z ctx (ReachableExpr a) = fits Z ctx a" | "fits Z ctx (CrossModelExpr a) = fits Z ctx a"
| "fits Z ctx (TracksExpr a) = fits Z ctx a" | "fits Z ctx (RisksExpr a) = fits Z ctx a"
| "fits Z ctx (ChannelsExpr a) = fits Z ctx a" | "fits Z ctx (RevisionsExpr a) = fits Z ctx a"
| "fits Z ctx (UnitsExpr a) = fits Z ctx a"
| "fits Z ctx (ArithExpr op l r) = (fits Z ctx l \<and> fits Z ctx r)"
| "fits Z ctx (CompareExpr op l r) = (fits Z ctx l \<and> fits Z ctx r \<and> agree (tree_sort Z ctx l) (tree_sort Z ctx r))"
| "fits Z ctx (SetOpExpr ty op l r) = (fits Z ctx l \<and> fits Z ctx r)"
| "fits Z ctx (InExpr e c neg) =
     (fits Z ctx e \<and> fits Z ctx c \<and> (dsl_type e = TY_RUNTIME \<longrightarrow> agree (map_option SetSort (tree_sort Z ctx e)) (tree_sort Z ctx c)))"
| "fits Z ctx (NotExpr a) = (fits Z ctx a \<and> agree (tree_sort Z ctx a) (Some BoolSort))"
| "fits Z ctx (AndExpr l r) = (fits Z ctx l \<and> fits Z ctx r)"
| "fits Z ctx (OrExpr l r) = (fits Z ctx l \<and> fits Z ctx r)"
| "fits Z ctx (ImpliesExpr l r) = (fits Z ctx l \<and> fits Z ctx r)"

lemma agree_Some [simp]: "agree (Some s) (Some t) \<longleftrightarrow> s = t"
  by (simp add: agree_def)

lemma tree_sort_typed: "has_type e t \<Longrightarrow> t \<noteq> TY_RUNTIME \<Longrightarrow> tree_sort Z ctx e = type_sort t"
  using has_type_unique [of e t] by (cases e) (simp_all add: tree_sort_def)

section \<open>Results of the translation\<close>

text \<open>The documented error or a value with a property.\<close>

definition sound :: "('a \<Rightarrow> bool) \<Rightarrow> ('e, 'a) lowering \<Rightarrow> bool" where
  "sound P r \<longleftrightarrow> (\<forall>x. r = Inl x \<longrightarrow> x = DSLLoweringError) \<and> (\<forall>v s. r = Inr (v, s) \<longrightarrow> P v)"

lemma sound_simps [simp]: "sound P (Inr (v, s)) \<longleftrightarrow> P v" "sound P (Inl x) \<longleftrightarrow> x = DSLLoweringError"
  by (auto simp: sound_def)

lemma sound_checked [simp]: "sound P (checked c e s) \<longleftrightarrow> c \<and> P (LExpr e)"
  by (simp add: checked_def)

lemma sound_bind: "sound P r \<Longrightarrow> (\<And>v s. P v \<Longrightarrow> sound Q (f (v, s))) \<Longrightarrow> sound Q (bind_result r f)"
  by (cases r) auto

lemma sound_mono: "sound P r \<Longrightarrow> (\<And>v. P v \<Longrightarrow> Q v) \<Longrightarrow> sound Q r"
  by (auto simp: sound_def)

definition known_endpoints :: "'e LoweringContext \<Rightarrow> EndpointRef list \<Rightarrow> bool" where
  "known_endpoints ctx refs \<longleftrightarrow> (\<forall>r \<in> set refs. dict_get (endpoints (ctx_charm ctx)) (er_name r) \<noteq> None)"

definition sorted_value :: "'e z3 \<Rightarrow> 'e LoweringContext \<Rightarrow> expr \<Rightarrow> 'e lowered \<Rightarrow> bool" where
  "sorted_value Z ctx e v \<longleftrightarrow> shape (dsl_type e) v \<and>
     (case v of
        LExpr x \<Rightarrow> tree_sort Z ctx e = Some (sort_of Z x)
      | LChannels cs \<Rightarrow> tree_sort Z ctx e = Some (sort_of Z (cs_z3_set cs))
      | LFeatures fs \<Rightarrow> (\<forall>(f, x) \<in> set fs. sort_of Z x = BoolSort)
      | LEndpoints refs \<Rightarrow> known_endpoints ctx refs)"

lemma sorted_value_simps [simp]:
  "sorted_value Z ctx e (LExpr x) \<longleftrightarrow> shape (dsl_type e) (LExpr x) \<and> tree_sort Z ctx e = Some (sort_of Z x)"
  "sorted_value Z ctx e (LChannels cs) \<longleftrightarrow> shape (dsl_type e) (LChannels cs) \<and> tree_sort Z ctx e = Some (sort_of Z (cs_z3_set cs))"
  "sorted_value Z ctx e (LFeatures fs) \<longleftrightarrow> shape (dsl_type e) (LFeatures fs) \<and> (\<forall>(f, x) \<in> set fs. sort_of Z x = BoolSort)"
  "sorted_value Z ctx e (LEndpoints refs) \<longleftrightarrow> dsl_type e = TY_RELATION_SET \<and> known_endpoints ctx refs"
  by (simp_all add: sorted_value_def)

lemma sound_as_z3:
  "sound (sorted_value Z ctx e) r \<Longrightarrow> sound (\<lambda>x. tree_sort Z ctx e = Some (sort_of Z x)) (as_z3 r)"
  unfolding as_z3_def by (erule sound_bind) (auto split: lowered.split)

lemma sound_as_endpoints:
  "sound (sorted_value Z ctx e) r \<Longrightarrow> sound (\<lambda>refs. known_endpoints ctx refs \<and> consistent_cross_model_tags refs) (as_endpoints r)"
  unfolding as_endpoints_def by (erule sound_bind) (auto split: lowered.split)

lemma sound_as_features:
  "sound (sorted_value Z ctx e) r \<Longrightarrow> sound (\<lambda>fs. \<forall>(f, x) \<in> set fs. sort_of Z x = BoolSort) (as_features r)"
  unfolding as_features_def by (erule sound_bind) (auto split: lowered.split)

lemma sound_scalar:
  assumes "\<And>x. r = Inl x \<Longrightarrow> x = DSLLoweringError" "\<And>x. r = Inr x \<Longrightarrow> P (LExpr x)"
  shows "sound P (scalar r s)"
  using assms by (cases r) (simp_all add: scalar_def)

definition typed_context :: "'e evaluation \<Rightarrow> 'e LoweringContext \<Rightarrow> bool" where
  "typed_context E ctx \<longleftrightarrow> typed_domain E (ctx_domain ctx) \<and> ctx_charm ctx \<in> set (charms (ctx_domain ctx))"

lemma typed_contextD:
  assumes "typed_context E ctx"
  shows "typed_domain E (ctx_domain ctx)" "typed_charm E (ctx_charm ctx)"
  using assms by (auto simp: typed_context_def typed_domain_def)

lemma typed_context_endpoint:
  assumes "typed_context E ctx" "dict_get (endpoints (ctx_charm ctx)) (er_name r) \<noteq> None"
  shows "typed_endpoint E (domain_endpoint ctx r)"
proof -
  obtain ep where ep: "dict_get (endpoints (ctx_charm ctx)) (er_name r) = Some ep" using assms(2) by auto
  with typed_contextD(2) [OF assms(1)] dict_get_mem [OF ep] show ?thesis by (auto simp: typed_charm_def domain_endpoint_def)
qed

section \<open>Every construct\<close>

lemma config_expr_error: "config_expr Z c k = Inl x \<Longrightarrow> x = DSLLoweringError"
  by (auto simp: config_expr_def split: option.splits config_value.splits)

lemma set_config_expr_error: "set_config_expr Z c k = Inl x \<Longrightarrow> x = DSLLoweringError"
  by (auto simp: set_config_expr_def split: option.splits)

lemma resource_expr_error: "resource_expr Z c k = Inl x \<Longrightarrow> x = DSLLoweringError"
  by (auto simp: resource_expr_def split: option.splits)

lemma set_resource_expr_error: "set_resource_expr Z c k = Inl x \<Longrightarrow> x = DSLLoweringError"
  by (auto simp: set_resource_expr_def split: option.splits)

text \<open>What is proved for each tree by induction on the typing rules.\<close>

definition sound_expr :: "'e z3 \<Rightarrow> 'e LoweringContext \<Rightarrow> expr \<Rightarrow> bool" where
  "sound_expr Z ctx e \<longleftrightarrow> (fits Z ctx e \<longrightarrow> (\<forall>s. sound (sorted_value Z ctx e) (lower_expr Z ctx e s)))"

lemma sound_exprI: "(\<And>s. fits Z ctx e \<Longrightarrow> sound (sorted_value Z ctx e) (lower_expr Z ctx e s)) \<Longrightarrow> sound_expr Z ctx e"
  by (simp add: sound_expr_def)

lemma sound_exprD: "sound_expr Z ctx e \<Longrightarrow> fits Z ctx e \<Longrightarrow> sound (sorted_value Z ctx e) (lower_expr Z ctx e s)"
  by (simp add: sound_expr_def)

lemmas sound_z3 = sound_as_z3 [OF sound_exprD]
lemmas sound_endpoints = sound_as_endpoints [OF sound_exprD]
lemmas sound_features = sound_as_features [OF sound_exprD]

lemma tree_sort_simps [simp]:
  "tree_sort Z ctx (CompareExpr op l r) = Some BoolSort" "tree_sort Z ctx (InExpr l r neg) = Some BoolSort"
  "tree_sort Z ctx (NotExpr l) = Some BoolSort" "tree_sort Z ctx (AndExpr l r) = Some BoolSort" "tree_sort Z ctx (OrExpr l r) = Some BoolSort"
  "tree_sort Z ctx (ImpliesExpr l r) = Some BoolSort" "tree_sort Z ctx (BoolFunc l) = Some BoolSort" "tree_sort Z ctx (LenExpr l) = Some IntSort"
  "tree_sort Z ctx (IntLit n) = Some IntSort" "tree_sort Z ctx (StrLit t) = Some StringSort" "tree_sort Z ctx (SetConfigExpr k) = Some BoolSort"
  "tree_sort Z ctx (SetResourceExpr k) = Some BoolSort" "tree_sort Z ctx SelfExpr = Some (SetSort IntSort)"
  "tree_sort Z ctx (CharmsExpr l) = Some (SetSort IntSort)" "tree_sort Z ctx (ReachableExpr l) = Some (SetSort IntSort)"
  "tree_sort Z ctx (TracksExpr l) = Some (SetSort StringSort)" "tree_sort Z ctx (RisksExpr l) = Some (SetSort StringSort)"
  "tree_sort Z ctx (ChannelsExpr l) = Some (SetSort StringSort)" "tree_sort Z ctx (RevisionsExpr l) = Some (SetSort IntSort)"
  "tree_sort Z ctx (ArithExpr aop l r) = Some IntSort" "tree_sort Z ctx (SetOpExpr ty sop l r) = type_sort ty"
  "tree_sort Z ctx (ConfigExpr k) = result_sort Z (config_expr Z (ctx_charm ctx) k)"
  "tree_sort Z ctx (ResourceExpr k) = result_sort Z (resource_expr Z (ctx_charm ctx) k)"
  by (simp_all add: tree_sort_def)

context z3_api
begin

lemma int_set_value: "sort_of Z x = SetSort IntSort \<Longrightarrow> \<exists>A. ev m x = VInts A"
  using ev_sort [of m x] by (cases "ev m x") auto

lemma str_set_value: "sort_of Z x = SetSort StringSort \<Longrightarrow> \<exists>A. ev m x = VStrs A"
  using ev_sort [of m x] by (cases "ev m x") auto

lemma int_value: "sort_of Z x = IntSort \<Longrightarrow> \<exists>i. ev m x = VInt i"
  using ev_sort [of m x] by (cases "ev m x") auto

lemma sort_bool_val: "is_bool_val (ev m x) \<longleftrightarrow> sort_of Z x = BoolSort"
  by (simp add: is_bool_val_def ev_sort)

lemma sort_int_val: "is_int_val (ev m x) \<longleftrightarrow> sort_of Z x = IntSort"
  by (simp add: is_int_val_def ev_sort)

lemma sort_features_eq: "sort_of Z (lower_features_eq Z fs expected) = BoolSort"
  by (simp add: lower_features_eq_def Let_def sort_relations sort_consts)

lemma sort_set_compare: "sort_of Z (set_compare Z op x y) = BoolSort"
  by (cases op) (simp_all add: set_compare_def Let_def sort_relations)

lemma sort_scalar_compare: "sort_of Z (scalar_compare Z op x y) = BoolSort"
  by (cases op) (simp_all add: scalar_compare_def sort_relations)

lemma sort_negate_if: "sort_of Z (negate_if Z neg x) = (if neg then BoolSort else sort_of Z x)"
  by (simp add: negate_if_def sort_relations)

lemma sort_len_endpoints:
  assumes "typed_context (ev m) ctx" "known_endpoints ctx refs"
  shows "sort_of Z (len_endpoints Z ctx refs) = IntSort"
proof -
  let ?f = "\<lambda>r. if cross_model_only r then cross_model_count (domain_endpoint ctx r) else ep_count (domain_endpoint ctx r)"
  have "ev m (?f r) = VInt (int_of (ev m (?f r)))" if "r \<in> set refs" for r
  proof -
    have "typed_endpoint (ev m) (domain_endpoint ctx r)"
      using typed_context_endpoint [OF assms(1)] assms(2) that by (auto simp: known_endpoints_def)
    then show ?thesis by (intro is_int_valE) (simp add: typed_endpoint_def)
  qed
  then have "ev m (len_endpoints Z ctx refs) = VInt (sum_list (map (\<lambda>r. int_of (ev m (?f r))) refs))"
    unfolding len_endpoints_def by (rule ev_Sum_map_zero)
  from sort_eq [OF this] show ?thesis by simp
qed

lemma sort_len_units:
  assumes "typed_domain (ev m) d" "sort_of Z cs = SetSort IntSort"
  shows "sort_of Z (len_units Z d cs) = IntSort"
proof -
  obtain A where "ev m cs = VInts A" using int_set_value [OF assms(2)] by blast
  from sort_eq [OF ev_len_units [OF assms(1) this]] show ?thesis by simp
qed

lemma sort_bool_endpoints: "sort_of Z (bool_endpoints Z ctx refs) = BoolSort"
  by (simp add: bool_endpoints_def sort_relations sort_consts)

lemma sort_accessor:
  assumes "typed_domain (ev m) (ctx_domain ctx)" "sort_of Z cs = SetSort IntSort"
  shows "sort_of Z (cs_z3_set (channel_accessor Z ctx k arg cs)) = SetSort (if k = KRevision then IntSort else StringSort)"
proof -
  obtain A where "ev m cs = VInts A" using int_set_value [OF assms(2)] by blast
  from sort_eq [OF ev_channel_accessor [OF assms(1) this]] show ?thesis by (simp add: value_set_def)
qed

lemma sort_set_op:
  assumes "sort_of Z x = sort_of Z y" "sort_of Z x = SetSort IntSort \<or> sort_of Z x = SetSort StringSort"
  shows "sort_of Z (z3_set_op Z op x y) = sort_of Z x"
proof -
  have "val_sort (ev m x) = val_sort (ev m y)" "val_sort (ev m x) \<in> {SetSort IntSort, SetSort StringSort}" for m using assms by (auto simp: ev_sort)
  note mean = ev_z3_set_op [OF this]
  have "val_sort (op_meaning op (ev m x) (ev m y)) = val_sort (ev m x)" for m by (cases "ev m x"; cases "ev m y") simp_all
  with mean ev_sort show ?thesis by metis
qed

lemma sort_merged_features:
  assumes "typed_context (ev m) ctx" "known_endpoints ctx refs"
  shows "\<forall>(f, x) \<in> set (merge_feature_dicts Z (map (\<lambda>r. feature_vars (domain_endpoint ctx r)) refs)). sort_of Z x = BoolSort"
proof -
  let ?fvs = "concat (map (\<lambda>r. feature_vars (domain_endpoint ctx r)) refs)"
  have "typed_endpoint (ev m) (domain_endpoint ctx r)" if "r \<in> set refs" for r
    using typed_context_endpoint [OF assms(1)] assms(2) that by (auto simp: known_endpoints_def)
  then have "\<forall>(f, v) \<in> set ?fvs. is_bool_val (ev m v)" by (fastforce simp: typed_endpoint_def)
  from ev_merge_features(1) [OF this, of "[]"] show ?thesis
    by (auto simp: bool_dict_def merge_feature_dicts_def sort_bool_val)
qed

lemma sort_set_op_features: "\<forall>(f, x) \<in> set (set_op_features Z op l r). sort_of Z x = BoolSort"
  by (cases op) (auto simp: set_op_features_def Let_def sort_relations)

lemma sound_compare_values:
  assumes "sorted_value Z ctx l a" "sorted_value Z ctx r b" "agree (tree_sort Z ctx l) (tree_sort Z ctx r)"
  shows "sound (sorted_value Z ctx (CompareExpr op l r)) (compare_values Z ctx op l r a b s)"
proof (cases "\<exists>fs expected. b = LFeatures fs \<and> str_set_lit l = Some expected")
  case True
  then show ?thesis by (auto simp: compare_values_def sort_features_eq)
next
  case False
  let ?s1 = "s @ channel_mismatch_hints Z ctx op a b"
  show ?thesis
  proof (cases "op = EqOp \<and> (is_self_channel_expr l \<or> is_self_channel_expr r)")
    case True
    then have "compare_values Z ctx op l r a b s = Inr (LExpr (BoolVal Z True), ?s1)"
      using False by (auto simp: compare_values_def Let_def split: lowered.split option.split)
    then show ?thesis by (simp add: sort_consts)
  next
    case plain: False
    have "compare_values Z ctx op l r a b s = bind_result (as_z3 (Inr (a, ?s1))) (\<lambda>(x, s2). bind_result (as_z3 (Inr (b, s2))) (\<lambda>(y, s3).
        if dsl_type l \<in> {TY_CHARM_SET, TY_SET_STR, TY_SET_INT} then checked (sort_of Z x = sort_of Z y) (set_compare Z op x y) s3
        else checked (op \<in> {EqOp, NeqOp} \<longrightarrow> comparable Z x y) (scalar_compare Z op x y) s3))"
      using False plain by (auto simp: compare_values_def Let_def split: lowered.split option.split)
    also have "sound (sorted_value Z ctx (CompareExpr op l r)) \<dots>"
    proof -
      have a: "sound (\<lambda>x. tree_sort Z ctx l = Some (sort_of Z x)) (as_z3 (Inr (a, s')))"
        and b: "sound (\<lambda>x. tree_sort Z ctx r = Some (sort_of Z x)) (as_z3 (Inr (b, s')))" for s'
        by (rule sound_as_z3; simp add: assms(1,2))+
      show ?thesis
      proof (rule sound_bind [OF a], unfold prod.case, rule sound_bind [OF b], unfold prod.case)
        fix x y s3
        assume "tree_sort Z ctx l = Some (sort_of Z x)" "tree_sort Z ctx r = Some (sort_of Z y)"
        then have "sort_of Z x = sort_of Z y" using assms(3) by simp
        then show "sound (sorted_value Z ctx (CompareExpr op l r))
            (if dsl_type l \<in> {TY_CHARM_SET, TY_SET_STR, TY_SET_INT} then checked (sort_of Z x = sort_of Z y) (set_compare Z op x y) s3
             else checked (op \<in> {EqOp, NeqOp} \<longrightarrow> comparable Z x y) (scalar_compare Z op x y) s3)"
          by (simp add: sort_set_compare sort_scalar_compare same_sort_comparable)
      qed
    qed
    finally show ?thesis .
  qed
qed

lemma sound_compare:
  assumes "sound_expr Z ctx l" "sound_expr Z ctx r"
  shows "sound_expr Z ctx (CompareExpr op l r)"
proof (rule sound_exprI)
  fix s
  assume fits: "fits Z ctx (CompareExpr op l r)"
  let ?good = "sound (sorted_value Z ctx (CompareExpr op l r))"
  show "?good (lower_expr Z ctx (CompareExpr op l r) s)"
    unfolding lower_expr.simps lower_compare_def
  proof (rule sound_bind [OF sound_exprD [OF assms(1)]])
    fix a s1
    assume a: "sorted_value Z ctx l a"
    have "?good (bind_result (lower_expr Z ctx r s1) (\<lambda>(b, s'). compare_values Z ctx op l r a b s'))"
      by (rule sound_bind [OF sound_exprD [OF assms(2)]]) (use fits a sound_compare_values in simp_all)
    then show "?good (case (a, s1) of (a, s) \<Rightarrow> case (a, str_set_lit r) of
         (LFeatures fs, Some expected) \<Rightarrow> Inr (LExpr (lower_features_eq Z fs expected), s)
       | _ \<Rightarrow> bind_result (lower_expr Z ctx r s) (\<lambda>(b, s'). compare_values Z ctx op l r a b s'))"
      by (auto simp: sort_features_eq split: lowered.split option.split)
  qed (use fits in simp)
qed

lemma sound_in:
  assumes "sound_expr Z ctx e" "sound_expr Z ctx c" "has_type e te" "has_type c tc"
    and "te = TY_STR \<and> tc = TY_STR \<or> tc = TY_SET_INT \<and> te \<in> {TY_INT, TY_RUNTIME} \<or> tc = TY_SET_STR \<and> te \<in> {TY_STR, TY_RUNTIME}"
  shows "sound_expr Z ctx (InExpr e c neg)"
proof (rule sound_exprI)
  fix s
  assume fits: "fits Z ctx (InExpr e c neg)"
  have tt: "dsl_type e = te" "dsl_type c = tc" using has_type_unique assms(3,4) by blast+
  have c_sort: "tree_sort Z ctx c = type_sort tc" by (rule tree_sort_typed [OF assms(4)]) (use assms(5) in auto)
  have e_sort: "te \<noteq> TY_RUNTIME \<Longrightarrow> tree_sort Z ctx e = type_sort te" using tree_sort_typed [OF assms(3)] .
  have elem: "tc = TY_SET_INT \<Longrightarrow> s = IntSort" "tc = TY_SET_STR \<Longrightarrow> s = StringSort" "tc = TY_STR \<Longrightarrow> s = StringSort"
    if "tree_sort Z ctx e = Some s" for s
    using that e_sort c_sort fits assms(5) tt by (cases "te = TY_RUNTIME"; auto)+
  let ?good = "sound (sorted_value Z ctx (InExpr e c neg))"
  have e_sound: "sound (sorted_value Z ctx e) (lower_expr Z ctx e s)" "sound (sorted_value Z ctx c) (lower_expr Z ctx c s)" for s
    using fits by (auto intro: sound_exprD [OF assms(1)] sound_exprD [OF assms(2)])
  show "?good (lower_expr Z ctx (InExpr e c neg) s)"
  proof (cases "is_literal_set c")
    case lit: True
    have ok: "literals_comparable Z x c" if "tree_sort Z ctx e = Some (sort_of Z x)" for x
      using elem [OF that] assms(4) tt lit
      by (cases c) (auto simp: is_literal_set_def literals_comparable_def sort_consts intro!: same_sort_comparable)
    have "?good (case literal_clauses Z x c of None \<Rightarrow> Inl DSLLoweringError
        | Some clauses \<Rightarrow> checked (literals_comparable Z x c) (negate_if Z neg (if clauses = [] then BoolVal Z False else zOr Z clauses)) s')"
      if "tree_sort Z ctx e = Some (sort_of Z x)" for x s'
      using ok [OF that] by (auto simp: sort_negate_if sort_relations sort_consts split: option.split)
    then show ?thesis using lit by (simp, intro sound_bind [OF sound_as_z3 [OF e_sound(1)]]) simp
  next
    case lit: False
    show ?thesis
    proof (cases "\<exists>str. str_lit e = Some str \<and> dsl_type c = TY_SET_STR")
      case True
      then obtain str where str: "str_lit e = Some str" "dsl_type c = TY_SET_STR" by blast
      have "?good (bind_result (as_features (lower_expr Z ctx c s)) (\<lambda>(fs, s').
              Inr (LExpr (negate_if Z neg (dict_get_default fs str (BoolVal Z False))), s')))"
        by (rule sound_bind [OF sound_as_features [OF e_sound(2)]])
          (auto simp: dict_get_default_def sort_consts sort_negate_if dest!: dict_get_mem split: option.split)
      then show ?thesis using lit str by simp
    next
      case False
      then have eq: "lower_expr Z ctx (InExpr e c neg) s =
          bind_result (lower_expr Z ctx e s) (\<lambda>(x, s1). bind_result (lower_expr Z ctx c s1) (\<lambda>(cv, s2).
              bind_result (in_values Z e x cv) (\<lambda>r. Inr (LExpr (negate_if Z neg r), s2))))"
        using lit by (auto split: option.split)
      have "?good (bind_result (in_values Z e x cv) (\<lambda>r. Inr (LExpr (negate_if Z neg r), s2)))"
        if x: "sorted_value Z ctx e x" and cv: "sorted_value Z ctx c cv" for x cv s2
        using x cv c_sort elem False assms(5) tt
        by (cases x; cases cv) (auto simp: in_values_def sort_relations sort_negate_if split: option.split)
      then show ?thesis unfolding eq
        by (intro sound_bind [OF e_sound(1)], simp only: prod.case, intro sound_bind [OF e_sound(2)], simp)
    qed
  qed
qed

lemma sound_set_op_expr:
  assumes "sound_expr Z ctx l" "sound_expr Z ctx r" "has_type l t" "has_type r t" "is_set_type t"
  shows "sound_expr Z ctx (SetOpExpr t op l r)"
proof (rule sound_exprI)
  fix s
  assume fits: "fits Z ctx (SetOpExpr t op l r)"
  let ?good = "sound (sorted_value Z ctx (SetOpExpr t op l r))"
  have lr: "sound (sorted_value Z ctx l) (lower_expr Z ctx l s)" "sound (sorted_value Z ctx r) (lower_expr Z ctx r s)" for s
    using fits by (auto intro: sound_exprD [OF assms(1)] sound_exprD [OF assms(2)])
  have tt: "dsl_type l = t" "dsl_type r = t" using has_type_unique assms(3,4) by blast+
  show "?good (lower_expr Z ctx (SetOpExpr t op l r) s)"
  proof (cases "t = TY_RELATION_SET")
    case True
    then show ?thesis
      by (simp, intro sound_bind [OF sound_as_endpoints [OF lr(1)]], simp, intro sound_bind [OF sound_as_endpoints [OF lr(2)]])
        (cases op; auto simp: known_endpoints_def relation_set_op_def)
  next
    case False
    then have sort: "tree_sort Z ctx l = type_sort t" "tree_sort Z ctx r = type_sort t" "type_sort t = Some (SetSort IntSort) \<or> type_sort t = Some (SetSort StringSort)"
      using tree_sort_typed [OF assms(3)] tree_sort_typed [OF assms(4)] assms(5) by (auto simp: is_set_type_def)
    have op: "sort_of Z (z3_set_op Z op x y) = sort_of Z x" if "type_sort t = Some (sort_of Z x)" "type_sort t = Some (sort_of Z y)" for x y
      using that sort(3) by (intro sort_set_op) auto
    have "?good (set_op_values Z t op a b s')" if "sorted_value Z ctx l a" "sorted_value Z ctx r b" for a b s'
      using that sort(1,2) op assms(5) False tt sort_set_op_features [of op]
      by (cases a; cases b) (auto simp: set_op_values_def channel_set_op_def as_z3_def is_channels_def is_set_type_def Let_def)
    with False show ?thesis
      by (simp, intro sound_bind [OF lr(1)], simp only: prod.case, intro sound_bind [OF lr(2)], simp)
  qed
qed

lemma sound_accessor:
  assumes "typed_context (ev m) ctx" "sound_expr Z ctx a" "has_type a TY_CHARM_SET" "fits Z ctx a"
    and "tree_sort Z ctx e = Some (SetSort (if k = KRevision then IntSort else StringSort))" "dsl_type e \<in> {TY_SET_STR, TY_SET_INT}"
  shows "sound (sorted_value Z ctx e) (lower_accessor Z ctx k a (lower_expr Z ctx a s))"
  unfolding lower_accessor_def
proof (rule sound_bind [OF sound_as_z3 [OF sound_exprD [OF assms(2,4)]]])
  fix x s'
  assume "tree_sort Z ctx a = Some (sort_of Z x)"
  then have "sort_of Z x = SetSort IntSort" using tree_sort_typed [OF assms(3), of Z ctx] by simp
  from sort_accessor [OF typed_contextD(1) [OF assms(1)] this, of k a] assms(5,6)
  show "sound (sorted_value Z ctx e) (case (x, s') of (cs, s) \<Rightarrow> Inr (LChannels (channel_accessor Z ctx k a cs), s))" by auto
qed

lemma sound_leaves:
  "sound_expr Z ctx (IntLit n)" "sound_expr Z ctx (StrLit t)" "sound_expr Z ctx (IntLiteralSet ns)"
  "sound_expr Z ctx (StrLiteralSet ss)" "sound_expr Z ctx SelfExpr" "sound_expr Z ctx (EndpointExpr ep)"
  using sort_eq [OF ev_AddInt [OF ev_EmptyInts ev_IntVal]]
  by - (rule sound_exprI; simp add: sort_consts known_endpoints_def)+

lemma sound_config:
  assumes "typed_context (ev m) ctx"
  shows "sound_expr Z ctx (ConfigExpr k)" "sound_expr Z ctx (SetConfigExpr k)" "sound_expr Z ctx (ResourceExpr k)" "sound_expr Z ctx (SetResourceExpr k)"
proof -
  note typed = typed_contextD(2) [OF assms]
  have cfg: "typed_config (ev m) c" if "dict_get (config (ctx_charm ctx)) k = Some c" for c
    using dict_get_mem [OF that] typed by (auto simp: typed_charm_def)
  have res: "typed_resource (ev m) c" if "dict_get (resources (ctx_charm ctx)) k = Some c" for c
    using dict_get_mem [OF that] typed by (auto simp: typed_charm_def)
  have "sort_of Z x = BoolSort" if "set_config_expr Z (ctx_charm ctx) k = Inr x" for x
    using that cfg by (fastforce simp: set_config_expr_def typed_config_def sort_bool_val sort_consts split: option.splits)
  moreover have "sort_of Z x = BoolSort" if "set_resource_expr Z (ctx_charm ctx) k = Inr x" for x
    using that res by (fastforce simp: set_resource_expr_def typed_resource_def sort_bool_val sort_consts split: option.splits)
  ultimately show "sound_expr Z ctx (ConfigExpr k)" "sound_expr Z ctx (SetConfigExpr k)" "sound_expr Z ctx (ResourceExpr k)" "sound_expr Z ctx (SetResourceExpr k)"
    by (auto intro!: sound_exprI sound_scalar simp: result_sort_def
        dest: config_expr_error set_config_expr_error resource_expr_error set_resource_expr_error)
qed

lemma sound_len:
  assumes "typed_context (ev m) ctx" "sound_expr Z ctx a" "has_type a TY_RELATION_SET"
  shows "sound_expr Z ctx (LenExpr a)"
proof (rule sound_exprI)
  fix s
  assume "fits Z ctx (LenExpr a)"
  then have a: "sound (sorted_value Z ctx a) (lower_expr Z ctx a s)" using sound_exprD [OF assms(2)] by simp
  have "lower_expr Z ctx (LenExpr a) s = bind_result (as_endpoints (lower_expr Z ctx a s)) (\<lambda>(refs, s'). Inr (LExpr (len_endpoints Z ctx refs), s'))"
    using has_type_unique [OF assms(3)] by (cases a) simp_all
  then show "sound (sorted_value Z ctx (LenExpr a)) (lower_expr Z ctx (LenExpr a) s)"
    using sort_len_endpoints [OF assms(1)] by (simp only:, intro sound_bind [OF sound_as_endpoints [OF a]]) simp
qed

lemma sound_len_units:
  assumes "typed_context (ev m) ctx" "sound_expr Z ctx b" "has_type b TY_CHARM_SET"
  shows "sound_expr Z ctx (LenExpr (UnitsExpr b))"
proof (rule sound_exprI)
  fix s
  assume fits: "fits Z ctx (LenExpr (UnitsExpr b))"
  then have b: "sound (sorted_value Z ctx b) (lower_expr Z ctx b s)" using sound_exprD [OF assms(2)] by simp
  let ?good = "sound (sorted_value Z ctx (LenExpr (UnitsExpr b)))"
  have t: "dsl_type b = TY_CHARM_SET" "tree_sort Z ctx b = Some (SetSort IntSort)"
    using has_type_unique [OF assms(3)] tree_sort_typed [OF assms(3), of Z ctx] by simp_all
  have units: "sort_of Z (num_units (ctx_charm ctx)) = IntSort"
    using typed_contextD(2) [OF assms(1)] by (simp add: typed_charm_def sort_int_val)
  have "?good (case v of LExpr cs \<Rightarrow> Inr (LExpr (len_units Z (ctx_domain ctx) cs), s') | _ \<Rightarrow> Inl Z3Misuse)" if "sorted_value Z ctx b v" for v s'
    using that t sort_len_units [OF typed_contextD(1) [OF assms(1)]] by (cases v) auto
  then have "?good (bind_result (lower_expr Z ctx b s) (\<lambda>(v, s').
      case v of LExpr cs \<Rightarrow> Inr (LExpr (len_units Z (ctx_domain ctx) cs), s') | _ \<Rightarrow> Inl Z3Misuse))"
    by (intro sound_bind [OF b]) simp
  with units show "?good (lower_expr Z ctx (LenExpr (UnitsExpr b)) s)" by simp
qed

lemma sound_reducers:
  assumes "typed_context (ev m) ctx" "sound_expr Z ctx a"
  shows "sound_expr Z ctx (BoolFunc a)" "sound_expr Z ctx (CharmsExpr a)" "sound_expr Z ctx (CrossModelExpr a)" "sound_expr Z ctx (FeaturesExpr a)"
proof -
  note eps = sound_bind [OF sound_endpoints [OF assms(2)]]
  have "sort_of Z (charm_set_for_endpoints Z (ctx_charm_id ctx) refs (ctx_domain ctx) True) = SetSort IntSort" if "consistent_cross_model_tags refs" for refs
    using sort_eq [OF ev_charm_set [OF that typed_contextD(1) [OF assms(1)]]] by simp
  then show "sound_expr Z ctx (BoolFunc a)" "sound_expr Z ctx (CharmsExpr a)" "sound_expr Z ctx (CrossModelExpr a)"
    by - (rule sound_exprI; simp; intro eps; auto simp: sort_bool_endpoints known_endpoints_def)+
  show "sound_expr Z ctx (FeaturesExpr a)"
    using sort_merged_features [OF assms(1)] by - (rule sound_exprI; simp; intro eps; simp; blast)
qed

lemma sound_arith:
  assumes "sound_expr Z ctx l" "sound_expr Z ctx r" "has_type l TY_INT" "has_type r TY_INT"
  shows "sound_expr Z ctx (ArithExpr op l r)"
proof (rule sound_exprI)
  fix s
  assume "fits Z ctx (ArithExpr op l r)"
  then have lr: "sound (sorted_value Z ctx l) (lower_expr Z ctx l s)" "sound (sorted_value Z ctx r) (lower_expr Z ctx r s)" for s
    by (auto intro: sound_exprD [OF assms(1)] sound_exprD [OF assms(2)])
  have "sort_of Z (case op of AddOp \<Rightarrow> zAdd Z x y | SubOp \<Rightarrow> zSub Z x y | MulOp \<Rightarrow> zMul Z x y) = IntSort"
    if "sort_of Z x = IntSort" "sort_of Z y = IntSort" for x y
  proof -
    from int_value [OF that(1), of undefined] obtain i where "ev undefined x = VInt i" by blast
    moreover from int_value [OF that(2), of undefined] obtain j where "ev undefined y = VInt j" by blast
    ultimately
    show ?thesis using sort_eq [OF ev_Add] sort_eq [OF ev_Sub] sort_eq [OF ev_Mul] by (cases op) fastforce+
  qed
  then show "sound (sorted_value Z ctx (ArithExpr op l r)) (lower_expr Z ctx (ArithExpr op l r) s)"
    using tree_sort_typed [OF assms(3), of Z ctx] tree_sort_typed [OF assms(4), of Z ctx]
    by (simp, intro sound_bind [OF sound_as_z3 [OF lr(1)]], simp, intro sound_bind [OF sound_as_z3 [OF lr(2)]], simp)
qed

lemma sound_not:
  assumes "sound_expr Z ctx a"
  shows "sound_expr Z ctx (NotExpr a)"
proof (rule sound_exprI)
  fix s
  assume fits: "fits Z ctx (NotExpr a)"
  then have a: "sound (sorted_value Z ctx a) (lower_expr Z ctx a s)" using sound_exprD [OF assms] by simp
  show "sound (sorted_value Z ctx (NotExpr a)) (lower_expr Z ctx (NotExpr a) s)"
    using fits by (simp, intro sound_bind [OF sound_as_z3 [OF a]]) (simp add: sort_relations)
qed

lemma sound_connectives:
  assumes "sound_expr Z ctx l" "sound_expr Z ctx r" "has_type l TY_BOOL" "has_type r TY_BOOL"
  shows "sound_expr Z ctx (AndExpr l r)" "sound_expr Z ctx (OrExpr l r)" "sound_expr Z ctx (ImpliesExpr l r)"
proof -
  have "tree_sort Z ctx l = Some BoolSort" "tree_sort Z ctx r = Some BoolSort"
    using tree_sort_typed [OF assms(3), of Z ctx] tree_sort_typed [OF assms(4), of Z ctx] by simp_all
  then show "sound_expr Z ctx (AndExpr l r)" "sound_expr Z ctx (OrExpr l r)" "sound_expr Z ctx (ImpliesExpr l r)"
    by - (rule sound_exprI; simp; intro sound_bind [OF sound_z3 [OF assms(1)]]; simp;
        intro sound_bind [OF sound_z3 [OF assms(2)]]; simp add: sort_relations)+
qed

lemma sound_all:
  assumes "typed_context (ev m) ctx" "has_type e t"
  shows "sound_expr Z ctx e \<and> (\<forall>b. e = UnitsExpr b \<longrightarrow> has_type b TY_CHARM_SET \<and> sound_expr Z ctx b)"
  using assms(2)
proof (induction rule: has_type.induct)
  case (ty_len_unit e)
  then obtain b where "e = UnitsExpr b" by (cases e) (auto elim: has_type.cases simp: is_set_type_def)
  with ty_len_unit.IH sound_len_units [OF assms(1)] show ?case by blast
next
  case (ty_reachable n)
  show ?case using sort_eq [OF ev_reachable_set [OF typed_contextD(1) [OF assms(1)]]] by (auto intro!: sound_exprI)
next
  case (ty_units e)
  then show ?case by (auto intro!: sound_exprI)
next
  case (ty_tracks e)
  then show ?case by (auto intro!: sound_exprI sound_accessor [OF assms(1)])
next
  case (ty_risks e)
  then show ?case by (auto intro!: sound_exprI sound_accessor [OF assms(1)])
next
  case (ty_channels e)
  then show ?case by (auto intro!: sound_exprI sound_accessor [OF assms(1)])
next
  case (ty_revisions e)
  then show ?case by (auto intro!: sound_exprI sound_accessor [OF assms(1)])
next
  case (ty_substring e c neg)
  then show ?case using sound_in [OF _ _ ty_substring(1,2)] by auto
next
  case (ty_in_ints e t c neg)
  then show ?case using sound_in [OF _ _ ty_in_ints(1,3)] by auto
next
  case (ty_in_strs e t c neg)
  then show ?case using sound_in [OF _ _ ty_in_strs(1,3)] by auto
qed (use assms(1) in \<open>auto intro: sound_leaves sound_config sound_len sound_reducers sound_arith sound_compare sound_set_op_expr sound_not sound_connectives\<close>)

lemma lower_sorts:
  assumes "typed_context (ev m) ctx" "has_type e TY_BOOL" "fits Z ctx e"
  shows "lower Z e ctx = Inl DSLLoweringError \<or> (\<exists>r. lower Z e ctx = Inr r \<and> sort_of Z (lr_expr r) = BoolSort)"
proof -
  have "sound (sorted_value Z ctx e) (lower_expr Z ctx e [])" using sound_all [OF assms(1,2)] assms(3) by (simp add: sound_expr_def)
  moreover have "dsl_type e = TY_BOOL" "tree_sort Z ctx e = Some BoolSort"
    using has_type_unique [OF assms(2)] tree_sort_typed [OF assms(2), of Z ctx] by simp_all
  ultimately show ?thesis
    by (cases "lower_expr Z ctx e []") (auto simp: lower_def sorted_value_def split: lowered.splits)
qed

end

end
