(* ===== verification/Bundle_Lower_Props.thy ===== *)
theory Bundle_Lower_Props
  imports Bundle_Lower_Sorts
begin

text \<open>
  The properties of the constraint translation: for constraints that use values at their sorts it
  produces a boolean solver expression or the documented error, its result means what the
  constraint says, reachability is the closure over proxies, and what equality with a property of
  \<open>{self}\<close> is turned into.
\<close>

section \<open>A small deployment\<close>

text \<open>
  An application that needs a database and a certificate authority, and a database that
  passes on the certificates it gets; everything is deployed and integrated.
\<close>

definition demo_channel :: CharmChannel where
  "demo_channel = \<lparr>track = [], risk = ''stable'', branch = []\<rparr>"

definition demo_endpoint :: "EndpointType \<Rightarrow> py_str \<Rightarrow> CharmEndpoint" where
  "demo_endpoint ty i = \<lparr>ep_type = ty, interface = i, optional = False, limit = None, scope = None, cyclic = False,
     ep_features = [], removable = True\<rparr>"

definition demo_charm :: "py_str \<Rightarrow> (py_str, CharmEndpoint) dict \<Rightarrow> CharmEndpointProxy list \<Rightarrow> Charm" where
  "demo_charm n eps ps = \<lparr>charm_name = n, channel = demo_channel, revision = 1, ubuntu_version = ''24.04'', ubuntu_arch = ''amd64'',
     subordinate = False, charm_endpoints = eps, proxies = ps, priority = 1, configs = [], config_defaults = [], charm_resources = [],
     charm_assumes = CharmAssumesEntry None None None None None, constraints = [], ha_units = 3, scale_down = True,
     platforms = [''kubernetes'']\<rparr>"

definition demo_ref :: ModelRef where
  "demo_ref = \<lparr>mr_name = Some ''m'', mr_controller = None\<rparr>"

definition demo_application :: "py_str \<Rightarrow> zterm DomainApplication" where
  "demo_application c = \<lparr>app_charm = c, app_channel = None, app_revision = None, app_base = None, charm_ids = [], app_charms_added = []\<rparr>"

definition demo_integration :: "zterm DomainApplicationIntegration" where
  "demo_integration = \<lparr>endpoint_1 = \<lparr>dae_application = ''web'', dae_endpoint = ''db'', dae_model = demo_ref\<rparr>,
     endpoint_2 = \<lparr>dae_application = ''database'', dae_endpoint = ''db'', dae_model = demo_ref\<rparr>,
     offer_name = None, url = None, charm_integration_ids = []\<rparr>"

definition demo_empty :: "zterm Domain" where
  "demo_empty = \<lparr>models = [(demo_ref, \<lparr>arch = ''amd64'', platform = ''kubernetes'', juju_version = JujuVersion 3 6 0, admin = ''admin'',
     ref = demo_ref, applications = [(''web'', demo_application ''app''), (''database'', demo_application ''pg'')],
     application_integrations = [demo_integration]\<rparr>)], charms = [], charm_integrations = []\<rparr>"

definition demo_constraint :: expr where
  "demo_constraint = CompareExpr GeOp (ReachableExpr (EndpointExpr ''ca'')) (CharmsExpr (EndpointExpr ''db''))"

definition demo_charms :: "Charm list" where
  "demo_charms =
     [(demo_charm ''app'' [(''db'', demo_endpoint REQUIRES ''pg''), (''ca'', demo_endpoint REQUIRES ''tls'')] [])
        \<lparr>constraints := [demo_constraint]\<rparr>,
      demo_charm ''pg'' [(''db'', demo_endpoint PROVIDES ''pg''), (''cert'', demo_endpoint REQUIRES ''tls'')]
        [\<lparr>proxy_interface = ''tls'', proxy_requires = ''cert'', proxy_provides = ''db''\<rparr>],
      demo_charm ''ca'' [(''certs'', demo_endpoint PROVIDES ''tls'')] []]"

definition add_all :: "Charm list \<Rightarrow> zterm Domain \<Rightarrow> py_error + zterm Domain" where
  "add_all cs d = fold (\<lambda>c r. bind_result r (\<lambda>d. bind_result (add_charm_to_domain zterms c d None) (\<lambda>(d, _). Inr d))) cs (Inr d)"

definition pair_all :: "(nat \<times> nat) list \<Rightarrow> zterm Domain \<Rightarrow> py_error + zterm Domain" where
  "pair_all ps d = fold (\<lambda>(a, b) r. bind_result r (\<lambda>d. bind_result (pair_charms_in_domain zterms d a b) (\<lambda>(d, _). Inr d))) ps (Inr d)"

definition demo_domain :: "zterm Domain" where
  "demo_domain = projr (bind_result (add_all demo_charms demo_empty) (pair_all [(0, 1), (0, 2), (1, 2)]))"

definition demo_ctx :: "zterm LoweringContext" where
  "demo_ctx = \<lparr>ctx_charm_id = 0, ctx_charm = charms demo_domain ! 0, ctx_domain = demo_domain\<rparr>"

text \<open>Everything exists, once.\<close>

definition demo_model :: z3_model where
  "demo_model = \<lparr>m_bools = (\<lambda>_. True), m_ints = (\<lambda>_. 1), m_reals = (\<lambda>_. 0), m_strs = (\<lambda>_. [])\<rparr>"

lemma demo_len: "length (charms demo_domain) = 3 \<and> length (charm_integrations demo_domain) = 3"
  by code_simp

lemma demo_good: "good_context (zeval demo_model) demo_ctx"
  by code_simp

lemma demo_low: "\<not> isl (lower zterms demo_constraint demo_ctx)"
  by code_simp

lemma demo_context: "typed_context (zeval demo_model) demo_ctx"
  using demo_good by (auto simp: good_context_def typed_context_def)

lemma demo_typed: "typed_domain (zeval demo_model) demo_domain"
  using demo_good by (simp add: good_context_def demo_ctx_def)

lemma demo_constraint_typed: "has_type demo_constraint TY_BOOL"
  unfolding demo_constraint_def by (rule ty_subset [where t = TY_CHARM_SET]) (auto intro: has_type.intros simp: is_set_type_def)

section \<open>Equality with a property of the charm itself\<close>

fun accessor :: "set_kind \<Rightarrow> expr \<Rightarrow> expr" where
  "accessor KTrack a = TracksExpr a" | "accessor KRisk a = RisksExpr a"
| "accessor KChannel a = ChannelsExpr a" | "accessor KRevision a = RevisionsExpr a"

lemma lower_expr_accessor: "lower_expr Z ctx (accessor k a) s = lower_accessor Z ctx k a (lower_expr Z ctx a s)"
  by (cases k) simp_all

lemma lower_expr_compare:
  "lower_expr Z ctx (CompareExpr op l r) s = lower_compare Z ctx op l r (lower_expr Z ctx l s) (lower_expr Z ctx r)"
  by simp

lemma is_self_accessor: "is_self_channel_expr (accessor k SelfExpr)"
  by (cases k) (simp_all add: is_self_channel_expr_def)

lemma find_enumerate:
  "n \<le> k \<Longrightarrow> k < n + length xs \<Longrightarrow> find (\<lambda>ic. fst ic = k) (enumerate n xs) = Some (k, xs ! (k - n))"
proof (induction xs arbitrary: n)
  case (Cons x xs)
  then show ?case by (cases "k = n") (auto simp: nth_Cons' Suc_diff_le)
qed simp

lemma self_value_accessor:
  assumes "ctx_charm_id ctx < length (charms (ctx_domain ctx))"
  shows "self_value (ctx_charm_id ctx) (LChannels (channel_accessor Z ctx k SelfExpr cs))
    = Some (kind_value k (spec (charms (ctx_domain ctx) ! ctx_charm_id ctx)))"
proof -
  let ?f = "\<lambda>ic. \<lparr>cse_charm_id = fst ic, cse_charm_name = charm_name (spec (snd ic)), cse_value = kind_value k (spec (snd ic)),
      cse_condition = member_condition Z cs ic, cse_endpoint = None\<rparr>"
  have "find (\<lambda>e. cse_charm_id e = ctx_charm_id ctx \<and> cse_endpoint e = None) (map ?f ics)
      = map_option ?f (find (\<lambda>ic. fst ic = ctx_charm_id ctx) ics)" for ics
    by (induction ics) simp_all
  then show ?thesis using assms find_enumerate [of 0 "ctx_charm_id ctx" "charms (ctx_domain ctx)"]
    by (simp add: self_value_def channel_accessor_def Let_def extract_endpoint_name_def)
qed

context z3_api
begin

text \<open>When the hints of an accessor with a required value hold.\<close>

lemma hints_hold:
  assumes "typed_domain (ev m) (ctx_domain ctx)" "ev m cs = VInts A"
  shows "(\<forall>h \<in> set (hints_for_self Z ctx req (channel_accessor Z ctx k a cs)). active (ev m) (sub_expr h)) \<longleftrightarrow>
    (\<forall>i \<in> members (ev m) (ctx_domain ctx) A. i \<noteq> ctx_charm_id ctx \<longrightarrow> kind_value k (spec (charms (ctx_domain ctx) ! i)) = req)"
proof -
  let ?d = "ctx_domain ctx" and ?n = "length (charms (ctx_domain ctx))"
  have cond: "ev m (zImplies Z (member_condition Z cs (i, charms ?d ! i)) (BoolVal Z False)) =
      VBool (\<not> i \<in> members (ev m) ?d A)" if "i < ?n" for i
  proof -
    have "is_bool_val (ev m (charm_exists (charms ?d ! i)))"
      using assms(1) that by (simp add: typed_domain_def typed_charm_def)
    from ev_member_condition [OF this assms(2)] have
      "ev m (member_condition Z cs (i, charms ?d ! i)) = VBool (i \<in> members (ev m) ?d A)" using that by (simp add: members_def)
    from ev_Implies [OF this ev_BoolVal] show ?thesis by simp
  qed
  have "(\<forall>h \<in> set (hints_for_self Z ctx req (channel_accessor Z ctx k a cs)). active (ev m) (sub_expr h)) \<longleftrightarrow>
    (\<forall>i \<in> {0..<?n}. i \<noteq> ctx_charm_id ctx \<and> kind_value k (spec (charms ?d ! i)) \<noteq> req \<longrightarrow>
       active (ev m) (zImplies Z (member_condition Z cs (i, charms ?d ! i)) (BoolVal Z False)))"
    by (auto simp: hints_for_self_def channel_accessor_def Let_def enumerate_map)
  also have "\<dots> \<longleftrightarrow> (\<forall>i \<in> members (ev m) ?d A. i \<noteq> ctx_charm_id ctx \<longrightarrow> kind_value k (spec (charms ?d ! i)) = req)"
    by (auto simp: cond active_def members_def)
  finally show ?thesis .
qed

lemma self_equality:
  assumes good: "good_context (ev m) ctx" and n: "dict_get (endpoints (ctx_charm ctx)) n \<noteq> None"
  shows "\<exists>r. lower Z (CompareExpr EqOp (accessor k (CharmsExpr (EndpointExpr n))) (accessor k SelfExpr)) ctx = Inr r
    \<and> ev m (lr_expr r) = VBool True
    \<and> ((\<forall>h \<in> set (lr_sub_assertions r). active (ev m) (sub_expr h)) \<longleftrightarrow>
        (\<forall>i \<in> members (ev m) (ctx_domain ctx) (ints_of (meaning (ev m) ctx (CharmsExpr (EndpointExpr n)))).
           i \<noteq> ctx_charm_id ctx \<longrightarrow> kind_value k (spec (charms (ctx_domain ctx) ! i)) = kind_value k (spec (ctx_charm ctx))))"
proof -
  let ?d = "ctx_domain ctx" and ?ref = "\<lparr>er_name = n, cross_model_only = False\<rparr>" and ?ch = "CharmsExpr (EndpointExpr n)"
  let ?cs = "charm_set_for_endpoints Z (ctx_charm_id ctx) [?ref] ?d True"
  let ?self = "SetAdd Z (EmptySet Z IntSort) (IntVal Z (int (ctx_charm_id ctx)))"
  let ?req = "kind_value k (spec (ctx_charm ctx))"
  let ?L = "channel_accessor Z ctx k ?ch ?cs" and ?R = "channel_accessor Z ctx k SelfExpr ?self"
  let ?hints = "hints_for_self Z ctx ?req ?L @ hints_for_self Z ctx ?req ?R"
  have typed: "typed_domain (ev m) ?d" and cid: "ctx_charm_id ctx < length (charms ?d)" and ch: "charms ?d ! ctx_charm_id ctx = ctx_charm ctx"
    using good by (auto simp: good_context_def)
  have cons: "consistent_cross_model_tags [?ref]" by (simp add: consistent_cross_model_tags_def)
  have l: "lower_expr Z ctx ?ch s = Inr (LExpr ?cs, s)" for s
    using n cons by (simp add: as_endpoints_def)
  have hints: "channel_mismatch_hints Z ctx EqOp (LChannels ?L) (LChannels ?R) = ?hints"
    using self_value_accessor [OF cid, of Z k ?self] by (simp add: channel_mismatch_hints_def first_some_def ch)
  have L: "lower_expr Z ctx (accessor k ?ch) [] = Inr (LChannels ?L, [])"
    unfolding lower_expr_accessor l by (simp add: lower_accessor_def as_z3_def)
  have R: "lower_expr Z ctx (accessor k SelfExpr) [] = Inr (LChannels ?R, [])"
    unfolding lower_expr_accessor by (simp add: lower_accessor_def as_z3_def)
  have low: "lower Z (CompareExpr EqOp (accessor k ?ch) (accessor k SelfExpr)) ctx = Inr \<lparr>lr_expr = BoolVal Z True, lr_sub_assertions = ?hints\<rparr>"
    unfolding lower_def lower_expr_compare L
    by (simp add: R lower_compare_def compare_values_def Let_def hints is_self_accessor)
  have A: "ev m ?cs = VInts (ints_of (meaning (ev m) ctx ?ch))"
    using ev_charm_set [OF cons typed] cid by (simp add: ints_of_def)
  have S: "ev m ?self = VInts {int (ctx_charm_id ctx)}" by (simp add: ev_AddInt [OF ev_EmptyInts ev_IntVal])
  have "i = ctx_charm_id ctx" if "i \<in> members (ev m) ?d {int (ctx_charm_id ctx)}" for i using that by (simp add: members_def)
  with hints_hold [OF typed S, of ?req k SelfExpr] have self: "\<forall>h \<in> set (hints_for_self Z ctx ?req ?R). active (ev m) (sub_expr h)" by blast
  from hints_hold [OF typed A, of ?req k ?ch] self show ?thesis
    unfolding low by (simp only: sum.inject ex_simps simp_thms LoweringResult.select_convs set_append ball_Un ev_BoolVal ex1_eq) blast
qed

end

section \<open>Values at another sort\<close>

text \<open>A runtime value is accepted by the type checker under every operator; the solver library is not that lenient.\<close>

lemma config_used_at_other_sort:
  assumes "dict_get (config (ctx_charm ctx)) k = Some cfg" "cfg_var cfg = Some x" "\<not> bool_as_int cfg" "sort_of Z x \<noteq> BoolSort"
  shows "has_type (NotExpr (ConfigExpr k)) TY_BOOL \<and> lower Z (NotExpr (ConfigExpr k)) ctx = Inl Z3Exception"
  using assms by (auto intro: has_type.intros simp: lower_def config_expr_def as_z3_def scalar_def checked_def)

section \<open>Properties\<close>



text \<open>
  C40. A well-typed constraint that uses configuration and resource values at the sorts they
  have in the domain is translated to a boolean solver expression or ends in the documented
  error: no operand of another sort is handed to the solver library, so the library raises
  nothing. Without the condition on sorts its exception escapes, as
  \<open>config_used_at_other_sort\<close> shows for a negated integer option.
\<close>

theorem lower_type_safe:
  assumes "z3_api Z ev" "typed_context (ev m) ctx" "has_type e TY_BOOL" "fits Z ctx e"
  shows "lower Z e ctx = Inl DSLLoweringError \<or> (\<exists>r. lower Z e ctx = Inr r \<and> sort_of Z (lr_expr r) = BoolSort)"
  using z3_api.lower_sorts [OF assms] .

theorem lower_type_safe_witness:
  "fits zterms demo_ctx demo_constraint \<and> (\<exists>r. lower zterms demo_constraint demo_ctx = Inr r \<and> sort_of zterms (lr_expr r) = BoolSort)"
proof -
  have fits: "fits zterms demo_ctx demo_constraint" by (simp add: demo_constraint_def)
  show ?thesis
    using lower_type_safe [OF zt.z3_api_axioms demo_context demo_constraint_typed fits] demo_low fits by auto
qed

text \<open>
  C21. Iterating once per charm with a proxy is enough: the solver set built for reachable(...)
  has in every model exactly the charms in the closure of the peers of the endpoint under the
  proxy rule of the code, which follows every proxy over local integrations. The language reference
  restricts the rule to proxies declared for the interface of the endpoint; the code does not look
  at the interface, so the set can be larger than documented.
\<close>

theorem reachable_set_closure:
  assumes "z3_api Z ev" "typed_domain (ev m) d"
  shows "ev m (reachable_set Z cid n d) =
    VInts (reach (ev m) d (peers (ev m) d cid {\<lparr>er_name = n, cross_model_only = False\<rparr>}))"
  using z3_api.ev_reachable_set [OF assms] .

theorem reachable_set_closure_witness:
  "zeval demo_model (reachable_set zterms 0 ''ca'' demo_domain) =
    VInts (reach (zeval demo_model) demo_domain (peers (zeval demo_model) demo_domain 0 {\<lparr>er_name = ''ca'', cross_model_only = False\<rparr>}))
   \<and> zeval demo_model (reachable_set zterms 0 ''ca'' demo_domain) = VInts {1, 2}"
proof
  show "zeval demo_model (reachable_set zterms 0 ''ca'' demo_domain) =
    VInts (reach (zeval demo_model) demo_domain (peers (zeval demo_model) demo_domain 0 {\<lparr>er_name = ''ca'', cross_model_only = False\<rparr>}))"
    by (rule reachable_set_closure [OF zt.z3_api_axioms demo_typed])
  show "zeval demo_model (reachable_set zterms 0 ''ca'' demo_domain) = VInts {1, 2}" by code_simp
qed

text \<open>
  C32. Equality of a channel property of the peers with that of the charm itself, as in
  \<open>tracks(charms(endpoint[n])) == tracks({self})\<close>, is translated to True; the hints added
  beside it say that every deployed peer has the property of the charm. So an endpoint
  without a deployed peer is accepted, although the two sets differ then.
\<close>

theorem self_equality_means_subset:
  assumes "z3_api Z ev" "good_context (ev m) ctx" "dict_get (endpoints (ctx_charm ctx)) n \<noteq> None"
  shows "\<exists>r. lower Z (CompareExpr EqOp (accessor k (CharmsExpr (EndpointExpr n))) (accessor k SelfExpr)) ctx = Inr r
    \<and> ev m (lr_expr r) = VBool True
    \<and> ((\<forall>h \<in> set (lr_sub_assertions r). active (ev m) (sub_expr h)) \<longleftrightarrow>
        (\<forall>i \<in> members (ev m) (ctx_domain ctx) (ints_of (meaning (ev m) ctx (CharmsExpr (EndpointExpr n)))).
           i \<noteq> ctx_charm_id ctx \<longrightarrow> kind_value k (spec (charms (ctx_domain ctx) ! i)) = kind_value k (spec (ctx_charm ctx))))"
  using z3_api.self_equality [OF assms] .

theorem self_equality_means_subset_witness:
  "\<exists>r. lower zterms (CompareExpr EqOp (accessor KTrack (CharmsExpr (EndpointExpr ''db''))) (accessor KTrack SelfExpr)) demo_ctx = Inr r
    \<and> zeval demo_model (lr_expr r) = VBool True"
proof -
  have "dict_get (endpoints (ctx_charm demo_ctx)) ''db'' \<noteq> None" by code_simp
  from self_equality_means_subset [OF zt.z3_api_axioms demo_good this, of KTrack] show ?thesis by blast
qed

end
