(* ===== verification/Bundle_Constraints_Props.thy ===== *)
theory Bundle_Constraints_Props
  imports Bundle_Lower_Props Bundle_Constraints_Main Bundle_Steps
begin

text \<open>
  What the solver domain keeps while charms are added and paired, and what the assertions over it
  mean: the properties of the domain and of the solver constraints.
\<close>

section \<open>An example\<close>

lemma demo_empty_ok: "domain_ok zterms demo_empty"
  by (simp add: domain_ok_def domain_pre_def demo_empty_def demo_application_def demo_integration_def links_sound_def links_complete_def
      app_ok_def dict_ok_def)

lemma fold_Inl: "(\<And>x. f x (Inl e) = Inl e) \<Longrightarrow> fold f xs (Inl e) = Inl e"
  by (induction xs) simp_all

lemma add_all_ok: "domain_ok zterms d \<Longrightarrow> list_all charm_wf cs \<Longrightarrow> add_all cs d = Inr d' \<Longrightarrow> domain_ok zterms d'"
proof (induction cs arbitrary: d)
  case (Cons c cs)
  show ?case
  proof (cases "add_charm_to_domain zterms c d None")
    case (Inl e)
    then show ?thesis using Cons.prems(3) by (simp add: add_all_def fold_Inl)
  next
    case (Inr x)
    then obtain d1 k where d1: "add_charm_to_domain zterms c d None = Inr (d1, k)" by (cases x) simp
    with Cons.prems(3) have "add_all cs d1 = Inr d'" by (simp add: add_all_def)
    with Cons.IH [OF add_charm_ok [OF Cons.prems(1) _ d1]] Cons.prems(2) show ?thesis by simp
  qed
qed (simp add: add_all_def)

lemma pair_all_ok: "domain_ok zterms d \<Longrightarrow> pair_all ps d = Inr d' \<Longrightarrow> domain_ok zterms d'"
proof (induction ps arbitrary: d)
  case (Cons p ps)
  obtain a b where p: "p = (a, b)" by (cases p)
  show ?case
  proof (cases "pair_charms_in_domain zterms d a b")
    case (Inl e)
    then show ?thesis using Cons.prems(2) by (simp add: pair_all_def fold_Inl p split_beta)
  next
    case (Inr x)
    then obtain d1 k where d1: "pair_charms_in_domain zterms d a b = Inr (d1, k)" by (cases x) simp
    with Cons.prems(2) have "pair_all ps d1 = Inr d'" by (simp add: pair_all_def p)
    with Cons.IH [OF pair_charms_ok [OF Cons.prems(1) d1]] show ?thesis by simp
  qed
qed (simp add: pair_all_def)

lemma demo_wf: "list_all charm_wf demo_charms"
  by code_simp

lemma demo_ok: "domain_ok zterms demo_domain"
proof -
  have "\<not> isl (bind_result (add_all demo_charms demo_empty) (pair_all [(0, 1), (0, 2), (1, 2)]))" by code_simp
  then obtain d1 d2 where d: "add_all demo_charms demo_empty = Inr d1" "pair_all [(0, 1), (0, 2), (1, 2)] d1 = Inr d2"
    by (cases "add_all demo_charms demo_empty"; cases "bind_result (add_all demo_charms demo_empty) (pair_all [(0, 1), (0, 2), (1, 2)])") auto
  from pair_all_ok [OF add_all_ok [OF demo_empty_ok demo_wf d(1)] d(2)] show ?thesis
    unfolding demo_domain_def d(1) bind_result_simps d(2) by simp
qed

text \<open>The solver model of the deployment: both applications, the certificate authority, and all integrations.\<close>

definition demo_solution :: z3_model where
  "demo_solution = \<lparr>m_bools = (\<lambda>_. True),
     m_ints = (\<lambda>n. if n = ''charm_0_rank'' \<or> n = ''charm_ca_2_endpoint_certs_count'' then 2
                  else if n = ''charm_2_rank'' \<or> take 17 (rev n) = rev ''cross_model_count'' then 0 else 1),
     m_reals = (\<lambda>_. 0), m_strs = (\<lambda>_. [])\<rparr>"

lemma demo_defaults: "defaults_match demo_domain"
  by code_simp

lemma demo_asserts: "\<not> isl (add_constraints zterms demo_domain [])"
  by code_simp

lemma demo_holds: "case add_constraints zterms demo_domain [] of Inl _ \<Rightarrow> False | Inr s \<Rightarrow> list_all (\<lambda>(_, e). zeval demo_solution e = VBool True) s"
  by code_simp

section \<open>Properties\<close>

text \<open>
  C17. The invariant of the solver domain: from a domain in which it holds, every sequence of
  added charms, pairings and records of fetched charms gives a domain in which it holds, that
  keeps all charms (with their specification and model), all integrations at their indices and
  all charms of the applications.
\<close>

theorem domain_invariant:
  assumes "domain_ok Z d" "(domain_step Z)\<^sup>*\<^sup>* d d'"
  shows "domain_ok Z d' \<and> grows d d'"
  using domain_steps_ok [OF assms(2,1)] .

lemma demo_add: "\<not> isl (add_charm_to_domain zterms (hd demo_charms) demo_empty None)"
  by code_simp

theorem domain_invariant_witness:
  "\<exists>d. (domain_step zterms)\<^sup>*\<^sup>* demo_empty d \<and> d \<noteq> demo_empty \<and> domain_ok zterms d \<and> grows demo_empty d"
proof -
  from demo_add obtain d cid where d: "add_charm_to_domain zterms (hd demo_charms) demo_empty None = Inr (d, cid)"
    by (cases "add_charm_to_domain zterms (hd demo_charms) demo_empty None") auto
  have "charm_wf (hd demo_charms)" using demo_wf by (simp add: demo_charms_def)
  from step_add [OF this d] have step: "(domain_step zterms)\<^sup>*\<^sup>* demo_empty d" by blast
  have "charms (fst (projr (add_charm_to_domain zterms (hd demo_charms) demo_empty None))) \<noteq> charms demo_empty" by code_simp
  then have "d \<noteq> demo_empty" unfolding d by auto
  with step domain_invariant [OF demo_empty_ok step] show ?thesis by blast
qed

text \<open>
  C18. Pairing two charms adds exactly the missing integrations: afterwards there is one integration for every
  pair of matching endpoints of the two charms, in the right direction, once; other integrations
  are as before, and the result says whether there was a new one.
\<close>

theorem pairing_exact:
  assumes "domain_ok Z d" "pair_charms_in_domain Z d a b = Inr (d', changed)" "a \<noteq> b"
  shows "int_key ` set (charm_integrations d') =
      int_key ` set (charm_integrations d) \<union> {k. compatible d k \<and> (\<exists>n n'. k = (a, n, b, n') \<or> k = (b, n, a, n'))}
    \<and> distinct (map int_key (charm_integrations d')) \<and> (changed \<longleftrightarrow> charm_integrations d' \<noteq> charm_integrations d)"
proof (intro conjI)
  have ab: "a < length (charms d)" "b < length (charms d)"
    and d': "charm_integrations d' = charm_integrations d @ map (new_integration Z d) (new_keys d a b)" "changed \<longleftrightarrow> new_keys d a b \<noteq> []"
    using assms(2,3) by (auto simp: pair_charms_in_domain_def Let_def split: if_splits)
  have "domain_pre Z d" using assms(1) by (simp add: domain_ok_def)
  note built = built_charmD [OF domain_preD(3) [OF this]]
  show "int_key ` set (charm_integrations d') =
      int_key ` set (charm_integrations d) \<union> {k. compatible d k \<and> (\<exists>n n'. k = (a, n, b, n') \<or> k = (b, n, a, n'))}"
    unfolding d'(1) set_append image_Un set_map image_image int_key_new image_ident new_keys_exact(1) [OF built [OF ab(1)] built [OF ab(2)] assms(3)]
    by blast
  show "distinct (map int_key (charm_integrations d'))"
    using pair_charms_ok [OF assms(1,2)] by (simp add: domain_ok_def domain_pre_def)
  show "changed \<longleftrightarrow> charm_integrations d' \<noteq> charm_integrations d" unfolding d' by simp
qed

theorem pairing_exact_witness:
  "\<exists>d'. pair_charms_in_domain zterms demo_domain 0 1 = Inr (d', False) \<and> int_key ` set (charm_integrations d') \<supseteq> {k. compatible demo_domain k \<and> (\<exists>n n'. k = (0, n, 1, n') \<or> k = (1, n, 0, n'))}"
proof -
  have "\<not> isl (pair_charms_in_domain zterms demo_domain 0 1) \<and> \<not> snd (projr (pair_charms_in_domain zterms demo_domain 0 1))" by code_simp
  then obtain d' where d': "pair_charms_in_domain zterms demo_domain 0 1 = Inr (d', False)"
    by (cases "pair_charms_in_domain zterms demo_domain 0 1") auto
  from pairing_exact [OF demo_ok this] have "int_key ` set (charm_integrations d') \<supseteq> {k. compatible demo_domain k \<and> (\<exists>n n'. k = (0, n, 1, n') \<or> k = (1, n, 0, n'))}"
    using zero_neq_one by blast
  with d' show ?thesis by blast
qed

text \<open>
  C7. The solver assertions characterise the valid deployments: a solver model satisfies all of
  them exactly if the deployment it describes is valid (applications and declared
  integrations are placed, integrations join deployed charms, counts, limits, features,
  configuration, resources and bases are right), its ranks decrease along the dependencies and
  the assertions of the constraints of the charms hold. Configuration defaults must match the
  declared values. Right features means that integrated endpoints agree on their active features
  and no more: the rule of the documentation that an integrated endpoint has all its declared
  features active is asserted nowhere, so a valid deployment may break it.
\<close>

theorem constraints_characterise_deployments:
  assumes "z3_api Z ev" "domain_ok Z d" "defaults_match d" "add_constraints Z d [] = Inr s"
  shows "\<exists>custom. custom_constraints Z d = Inr custom \<and> (\<forall>m. holds (ev m) s \<longleftrightarrow>
    valid_deployment Z (ev m) d \<and> ranked m (dependencies (ev m) d) (length (charms d)) \<and> holds (ev m) custom)"
proof -
  obtain custom where c: "custom_constraints Z d = Inr custom" using z3_api.add_constraints_meaning [OF assms(1-4)] by blast
  have "holds (ev m) s \<longleftrightarrow> valid_deployment Z (ev m) d \<and> ranked m (dependencies (ev m) d) (length (charms d)) \<and> holds (ev m) custom" for m
    using z3_api.add_constraints_meaning [OF assms(1-4), of m] unfolding c by simp
  with c show ?thesis by blast
qed

lemma demo_assertions: "\<exists>s. add_constraints zterms demo_domain [] = Inr s \<and> holds (zeval demo_solution) s"
  using demo_holds unfolding holds_def active_def list_all_iff by (cases "add_constraints zterms demo_domain []") auto

theorem constraints_characterise_deployments_witness:
  "valid_deployment zterms (zeval demo_solution) demo_domain"
proof -
  from demo_assertions obtain s where s: "add_constraints zterms demo_domain [] = Inr s" "holds (zeval demo_solution) s" by blast
  from constraints_characterise_deployments [OF zt.z3_api_axioms demo_ok demo_defaults s(1)] s(2) show ?thesis by blast
qed

text \<open>
  C19. The rank variables express acyclicity exactly: for every choice of charms and
  integrations, ranks that satisfy the dependency assertions exist if and only if
  the dependencies between the chosen integrations have no cycle. One rank per charm is enough.
\<close>

theorem ranks_express_acyclicity:
  assumes "z3_api Z ev" "domain_ok Z d"
  shows "(\<exists>m'. m_bools m' = m_bools m \<and> m_reals m' = m_reals m \<and> m_strs m' = m_strs m
      \<and> (\<forall>n. n \<notin> range rank_name \<longrightarrow> m_ints m' n = m_ints m n) \<and> holds (ev m') (add_charm_dependency_constraints Z d []))
    \<longleftrightarrow> acyclic (dependencies (ev m) d)"
  using z3_api.ranked_iff_acyclic [OF assms] .

theorem ranks_express_acyclicity_witness:
  "acyclic (dependencies (zeval demo_solution) demo_domain)"
  unfolding ranks_express_acyclicity [OF zt.z3_api_axioms demo_ok, symmetric]
proof (intro exI conjI)
  have "list_all (\<lambda>(_, e). zeval demo_solution e = VBool True) (add_charm_dependency_constraints zterms demo_domain [])" by code_simp
  then show "holds (zeval demo_solution) (add_charm_dependency_constraints zterms demo_domain [])"
    by (auto simp: holds_def active_def list_all_iff)
qed simp_all

text \<open>
  The only way the construction of the assertions fails is a constraint of a charm that
  cannot be translated; it raises a ValueError for the documented error of the translation and lets
  an exception of the solver library through.
\<close>

theorem constraints_fail_only_on_translation:
  assumes "z3_api Z ev" "domain_ok Z d"
  shows "(isl (add_constraints Z d s) \<longleftrightarrow>
      (\<exists>cid < length (charms d). \<exists>e \<in> set (constraints (spec (charms d ! cid))). isl (lower Z e (charm_ctx d cid)))) \<and>
    (add_constraints Z d s = Inl x \<longrightarrow>
      (\<exists>cid < length (charms d). \<exists>e \<in> set (constraints (spec (charms d ! cid))). \<exists>er.
        lower Z e (charm_ctx d cid) = Inl er \<and> x = lowering_exception er))"
  using z3_api.add_constraints_error [OF assms] .

theorem constraints_fail_only_on_translation_witness:
  "\<not> isl (add_constraints zterms demo_domain [])"
proof -
  have "list_all (\<lambda>cid. list_all (\<lambda>e. \<not> isl (lower zterms e (charm_ctx demo_domain cid))) (constraints (spec (charms demo_domain ! cid)))) [0..<length (charms demo_domain)]"
    by code_simp
  then show ?thesis
    unfolding conjunct1 [OF constraints_fail_only_on_translation [OF zt.z3_api_axioms demo_ok]] by (auto simp: list_all_iff)
qed

text \<open>
  C20. Constraints of charms are enforced: in a model of the assertions a
  constraint of a deployed charm holds in the described deployment, if it is well typed, uses
  configuration and resource values at their sorts and has none of the two comparisons that are
  translated differently, equality with a property of \<open>{self}\<close> and comparisons of features with a
  literal set other than equality. The first of them is not enforced as written; what is, is shown
  by \<open>self_equality_means_subset\<close>. What a constraint says is \<open>Bundle_Meaning.meaning\<close>, whose text lists
  where it follows the code and not the documentation.
\<close>

theorem custom_constraints_enforced:
  assumes "z3_api Z ev" "domain_ok Z d" "defaults_match d" "add_constraints Z d [] = Inr s" "holds (ev m) s"
    "cid < length (charms d)" "active (ev m) (charm_exists (charms d ! cid))" "e \<in> set (constraints (spec (charms d ! cid)))"
    "has_type e TY_BOOL" "plain e" "sorts_ok (ev m) (charm_ctx d cid) e"
  shows "meaning (ev m) (charm_ctx d cid) e = VBool True"
proof -
  obtain custom where "custom_constraints Z d = Inr custom" "holds (ev m) custom"
    using z3_api.add_constraints_meaning [OF assms(1-4), of m] assms(5) by blast
  from z3_api.custom_met [OF assms(1,2) this assms(6-)] show ?thesis .
qed

theorem custom_constraints_enforced_witness:
  "meaning (zeval demo_solution) (charm_ctx demo_domain 0) demo_constraint = VBool True"
proof -
  from demo_assertions obtain s where s: "add_constraints zterms demo_domain [] = Inr s" "holds (zeval demo_solution) s" by blast
  have "active (zeval demo_solution) (charm_exists (charms demo_domain ! 0)) \<and> demo_constraint \<in> set (constraints (spec (charms demo_domain ! 0)))"
    unfolding active_def by code_simp
  moreover have "plain demo_constraint" by (simp add: demo_constraint_def plain_compare_def str_set_lit_def)
  moreover have "sorts_ok (zeval demo_solution) (charm_ctx demo_domain 0) demo_constraint" by (simp add: demo_constraint_def)
  ultimately show ?thesis
    using custom_constraints_enforced [OF zt.z3_api_axioms demo_ok demo_defaults s _ _ _ demo_constraint_typed, of 0] demo_len by simp
qed

end
