(* ===== verification/Bundle_Solve_Props.thy ===== *)
theory Bundle_Solve_Props
  imports Bundle_Solve_Correct Bundle_Constraints_Props
begin

text \<open>
  The properties of the refinement loop: it ends, its result satisfies the assertions and is
  minimal, every round makes the domain larger within a bound, and a failure is explained.
\<close>

section \<open>Preparing the optimization\<close>

lemma only_pairedD: "only_paired Z d d' \<Longrightarrow> domain_ok Z d \<Longrightarrow> domain_ok Z d' \<and> grows d d' \<and> charms d' = charms d"
  by (simp add: only_paired_def)

lemma domain_charm_wf: "domain_ok Z d \<Longrightarrow> cid < length (charms d) \<Longrightarrow> charm_wf (spec (charms d ! cid))"
  using domain_preD(3) [of Z d cid] by (simp add: domain_ok_def built_charm_def)

lemma duplicate_loop_ok:
  assumes "duplicate_loop Z act ifaces ids dups processed d = Inr d'" "domain_ok Z d" "set ids \<subseteq> {..<length (charms d)}"
  shows "domain_ok Z d' \<and> grows d d'"
  using assms
proof (induction ids arbitrary: dups processed d)
  case (Cons cid ids)
  have cid: "cid < length (charms d)" using Cons.prems(3) by simp
  have sub: "set ids \<subseteq> {..<length (charms e)}" if "grows d e" for e using Cons.prems(3) growsD(1) [OF that] by auto
  let ?eq = "filter (\<lambda>other. same_charm d other cid) [0..<length (charms d)]"
  let ?act = "filter (\<lambda>x. x \<in> set act) ?eq"
  show ?case
  proof (cases "list_ex (\<lambda>other. same_charm d other cid) processed \<or> \<not> wants_duplicate d act ifaces cid")
    case True
    then obtain p where "duplicate_loop Z act ifaces ids dups p d = Inr d'" using Cons.prems(1) by (auto split: if_splits)
    then show ?thesis using Cons.IH Cons.prems(2) sub [OF grows_refl] by blast
  next
    case False
    with Cons.prems(1) obtain d1 t where 1: "connect_pairs Z (filter (\<lambda>(a, b). b \<noteq> a) (List.product ?act act)) d = Inr (d1, t)"
      and rest: "(if length ?act > 1 then duplicate_loop Z act ifaces ids dups (processed @ [cid]) d1
           else bind_result (case find (\<lambda>x. x \<notin> set act) ?eq of Some x \<Rightarrow> Inr (d1, x)
                | None \<Rightarrow> add_charm_to_domain Z (spec (charms d ! cid)) d1 (Some (charm_model (charms d ! cid))))
               (\<lambda>(d2, dup). bind_result (connect_pairs Z (map (Pair dup) (filter (\<lambda>other. other \<noteq> dup) (act @ dups))) d2) (\<lambda>(d3, _).
                    duplicate_loop Z act ifaces ids (dups @ [dup]) (processed @ [cid]) d3))) = Inr d'"
      by (auto simp: Let_def bind_result_Inr_iff [of "connect_pairs Z (filter _ _) d"])
    note d1 = only_pairedD [OF connect_pairs_only_paired [OF 1] Cons.prems(2)]
    show ?thesis
    proof (cases "length ?act > 1")
      case True
      then have "duplicate_loop Z act ifaces ids dups (processed @ [cid]) d1 = Inr d'" using rest by simp
      then show ?thesis using Cons.IH d1 sub grows_trans by blast
    next
      case no: False
      from rest [unfolded if_not_P [OF no] bind_result_Inr_iff] obtain d2 dup d3 t2 where
        2: "(case find (\<lambda>x. x \<notin> set act) ?eq of Some x \<Rightarrow> Inr (d1, x)
                | None \<Rightarrow> add_charm_to_domain Z (spec (charms d ! cid)) d1 (Some (charm_model (charms d ! cid)))) = Inr (d2, dup)"
        and 3: "connect_pairs Z (map (Pair dup) (filter (\<lambda>other. other \<noteq> dup) (act @ dups))) d2 = Inr (d3, t2)"
        "duplicate_loop Z act ifaces ids (dups @ [dup]) (processed @ [cid]) d3 = Inr d'"
        by (auto simp: bind_result_Inr_iff)
      have d2: "domain_ok Z d2 \<and> grows d1 d2"
      proof (cases "find (\<lambda>x. x \<notin> set act) ?eq")
        case None
        then have add: "add_charm_to_domain Z (spec (charms d ! cid)) d1 (Some (charm_model (charms d ! cid))) = Inr (d2, dup)" using 2 by simp
        show ?thesis using add_charm_ok [OF _ domain_charm_wf [OF Cons.prems(2) cid] add] add_charm_grows [OF add] d1 by blast
      next
        case (Some x)
        then show ?thesis using 2 d1 grows_refl by simp
      qed
      note d3 = only_pairedD [OF connect_pairs_only_paired [OF 3(1)] conjunct1 [OF d2]]
      have "grows d d3" using d1 d2 d3 grows_trans by blast
      then show ?thesis using Cons.IH [OF 3(2)] d3 sub grows_trans by blast
    qed
  qed
qed (simp add: grows_refl)

lemma prepare_ok:
  assumes "prepare_optimization_domain Z E d = Inr d'" "domain_ok Z d"
  shows "domain_ok Z d' \<and> grows d d'"
proof -
  from assms(1) obtain ps1 d1 t1 ps2 d2 t2 where 1: "connect_pairs Z ps1 d = Inr (d1, t1)" "connect_pairs Z ps2 d1 = Inr (d2, t2)"
    "add_optimization_duplicates Z E d2 = Inr d'"
    by (auto simp: prepare_optimization_domain_def Let_def bind_result_Inr_iff)
  note d1 = only_pairedD [OF connect_pairs_only_paired [OF 1(1)] assms(2)]
  note d2 = only_pairedD [OF connect_pairs_only_paired [OF 1(2)] conjunct1 [OF d1]]
  have "set (active_charm_ids E d2) \<subseteq> {..<length (charms d2)}" by (auto simp: active_charm_ids_def)
  from duplicate_loop_ok [OF 1(3) [unfolded add_optimization_duplicates_def Let_def] conjunct1 [OF d2] this]
  show ?thesis using d1 d2 grows_trans by blast
qed

section \<open>The end of the loop\<close>

text \<open>
  What a result must satisfy: the domain extends the given one, the model satisfies the
  assertions over it (or, when the optimizer timed out, those over a part of it), and
  it is minimal unless the optimizer timed out.
\<close>

definition objectives :: "'e smt \<Rightarrow> 'e z3 \<Rightarrow> 'e Domain \<Rightarrow> 'e list" where
  "objectives S Z d = (case build_cost_exprs S Z d of (a, b, c) \<Rightarrow> [a, b, c])"

definition solution :: "'e smt \<Rightarrow> 'e z3 \<Rightarrow> (z3_model \<Rightarrow> 'e evaluation) \<Rightarrow> 'e Domain \<Rightarrow> 'e Domain \<Rightarrow> z3_model \<Rightarrow> bool" where
  "solution S Z ev d d' m \<longleftrightarrow> domain_ok Z d' \<and> grows d d' \<and> (\<exists>s. add_constraints Z d' [] = Inr s
     \<and> (holds (ev m) s \<or> (\<exists>d0 s0. grows d0 d' \<and> add_constraints Z d0 [] = Inr s0 \<and> holds (ev m) s0))
     \<and> (smt_optimize S s (objectives S Z d') \<noteq> Unknown \<longrightarrow>
          holds (ev m) s \<and> (\<forall>m'. holds (ev m') s \<longrightarrow> costs S (ev m) d' \<le> costs S (ev m') d')))"

context smt_solver
begin

text \<open>
  A model fits a domain if it satisfies the assertions. Only when the optimizer timed out may the
  loop return the model it started from, which satisfies the assertions before the preparation.
\<close>

lemma finish_result:
  assumes "domain_ok Z d" "add_constraints Z d [] = Inr s" "holds (ev m) s"
  shows "\<exists>y. finish S Z ev d m = Some y \<and> (\<forall>d' m'. y = Inr (d', m') \<longrightarrow> solution S Z ev d d' m')"
proof (cases "prepare_optimization_domain Z (ev m) d")
  case (Inl x)
  then show ?thesis by (simp add: finish_def)
next
  case p: (Inr d')
  note d' = prepare_ok [OF p assms(1)]
  obtain a b c where abc: "build_cost_exprs S Z d' = (a, b, c)" by (cases "build_cost_exprs S Z d'") auto
  have costs: "map (\<lambda>e. as_int (ev m e)) [a, b, c] = costs S (ev m) d'" for m
    using cost_exprs [OF conjunct1 [OF d'] abc] by (simp add: costs_def)
  show ?thesis
  proof (cases "add_constraints Z d' []")
    case (Inl x)
    then show ?thesis using p by (simp add: finish_def optimize_solution_def try_z3_optimize_def)
  next
    case s': (Inr s')
    show ?thesis
    proof (cases "smt_optimize S s' [a, b, c]")
      case (Sat m')
      have "finish S Z ev d m = Some (Inr (d', m'))" using p s' Sat abc by (simp add: finish_def optimize_solution_def try_z3_optimize_def)
      moreover have "solution S Z ev d d' m'"
        unfolding solution_def using d' s' optimize_sat [OF Sat] optimize_least [OF Sat, unfolded costs] by blast
      ultimately show ?thesis by simp
    next
      case (Unsat core)
      then show ?thesis using p s' abc by (simp add: finish_def optimize_solution_def try_z3_optimize_def)
    next
      case Unknown
      from descent_phases_minimal [OF conjunct1 [OF d'] s', of "[]" m] obtain m' where
        m': "descent_phases S Z ev d' s' m = Some m'" "m' = m \<or> holds (ev m') s'" by auto
      then have "finish S Z ev d m = Some (Inr (d', m'))" using p s' Unknown abc
        by (simp add: finish_def optimize_solution_def try_z3_optimize_def iterative_descent_def descent_seed_def Let_def)
      moreover have "smt_optimize S s' (objectives S Z d') = Unknown" using Unknown abc by (simp add: objectives_def)
      then have "solution S Z ev d d' m'" unfolding solution_def using d' s' m'(2) assms(2,3) by metis
      ultimately show ?thesis by simp
    qed
  qed
qed

lemma solve_loop_result:
  assumes "store_ok C H" "finite C" "pool C Z d"
  shows "\<exists>y. solve_loop H S Z ev it d = Some y \<and> (\<forall>d' m. y = Inr (d', m) \<longrightarrow> solution S Z ev d d' m)"
  using assms(3)
proof (induction "max_size C d - domain_size d" arbitrary: d it rule: less_induct)
  case less
  note loop = solve_loop.simps [of H S Z ev it d]
  show ?case
  proof (cases "add_constraints Z d []")
    case (Inl x)
    then show ?thesis by (simp add: loop)
  next
    case s: (Inr s)
    show ?thesis
    proof (cases "smt_check S s")
      case (Sat m)
      have "domain_ok Z d" using less.prems by (simp add: pool_def)
      from finish_result [OF this s check_sat [OF Sat]] show ?thesis by (simp add: loop s Sat)
    next
      case (Unsat core)
      show ?thesis
      proof (cases "core = [] \<or> isl (handle_unsat_core H Z core d)")
        case True
        then show ?thesis using s Unsat by (auto simp: loop isl_def)
      next
        case False
        then obtain d' where d': "handle_unsat_core H Z core d = Inr d'" by (cases "handle_unsat_core H Z core d") auto
        note e = extends_handle_unsat_core [OF assms(1) d']
        with less.prems have pool: "pool C Z d'" and size: "domain_size d < domain_size d'" and g: "grows d d'" by (simp_all add: extends_def)
        have "domain_size d' \<le> max_size C d'" using size_bound [OF pool assms(2)] .
        then have "max_size C d' - domain_size d' < max_size C d - domain_size d" using size max_size_extends [OF e less.prems] by simp
        from less.hyps [OF this pool, of "it + 1"] obtain y where y: "solve_loop H S Z ev (it + 1) d' = Some y"
          "\<forall>d'' m. y = Inr (d'', m) \<longrightarrow> solution S Z ev d' d'' m" by blast
        have "solution S Z ev d d'' m" if "solution S Z ev d' d'' m" for d'' m using that g grows_trans unfolding solution_def by blast
        with y show ?thesis using False s Unsat d' by (simp add: loop)
      qed
    next
      case Unknown
      then show ?thesis using s by (simp add: loop)
    qed
  qed
qed

end

section \<open>A solver\<close>

text \<open>A solver over syntax trees that always answers, with a given model where it fits.\<close>

definition least_model :: "zterm solver \<Rightarrow> zterm list \<Rightarrow> z3_model \<Rightarrow> bool" where
  "least_model s es m \<longleftrightarrow> holds (zeval m) s
     \<and> (\<forall>m'. holds (zeval m') s \<longrightarrow> map (\<lambda>e. as_int (zeval m e)) es \<le> map (\<lambda>e. as_int (zeval m' e)) es)"

definition ideal_smt :: "z3_model \<Rightarrow> zterm smt" where
  "ideal_smt c = \<lparr>smt_check = (\<lambda>s. if holds (zeval c) s then Sat c
                                  else if \<exists>m. holds (zeval m) s then Sat (SOME m. holds (zeval m) s) else Unsat (List.map_filter fst s)),
     smt_optimize = (\<lambda>s es. if \<exists>m. least_model s es m then Sat (SOME m. least_model s es m)
                            else if \<exists>m. holds (zeval m) s then Unknown else Unsat []),
     smt_div = (/), smt_timeout = ''0:01:00''\<rparr>"

interpretation ideal: smt_solver zterms zeval "ideal_smt c" for c
proof
  fix s :: "zterm solver" and m core
  show "smt_check (ideal_smt c) s = Sat m \<Longrightarrow> holds (zeval m) s"
    by (auto simp: ideal_smt_def split: if_splits) (rule someI)
  show "smt_check (ideal_smt c) s = Unsat core \<Longrightarrow> \<not> holds (zeval m) s" by (auto simp: ideal_smt_def split: if_splits)
  have "Some t \<in> fst ` set s" if "t \<in> set (List.map_filter fst s)" for t
    using that by (auto simp: List.map_filter_def) force
  then show "smt_check (ideal_smt c) s = Unsat core \<Longrightarrow> Some ` set core \<subseteq> fst ` set s" by (auto simp: ideal_smt_def split: if_splits)
  fix es
  have least: "smt_optimize (ideal_smt c) s es = Sat m \<Longrightarrow> least_model s es m"
    by (auto simp: ideal_smt_def split: if_splits) (rule someI)
  then show "smt_optimize (ideal_smt c) s es = Sat m \<Longrightarrow> holds (zeval m) s" by (simp add: least_model_def)
  show "smt_optimize (ideal_smt c) s es = Sat m \<Longrightarrow> holds (zeval m') s \<Longrightarrow> map (\<lambda>e. as_int (zeval m e)) es \<le> map (\<lambda>e. as_int (zeval m' e)) es" for m'
    using least by (simp add: least_model_def)
  show "0 < q \<Longrightarrow> 0 \<le> smt_div (ideal_smt c) 1000000 q" for q by (simp add: ideal_smt_def)
qed

section \<open>A store\<close>

definition demo_hub :: charmhub where
  "demo_hub = \<lparr>charm_from_store = (\<lambda>f. case find (\<lambda>c. charm_name c = f_charm f) demo_charms of
       Some c \<Rightarrow> Inr c | None \<Rightarrow> Inl (ReleaseNotFound (CharmReleaseNotFound (f_charm f) None))),
     find_charms = (\<lambda>ty i p. Inr (map charm_name (filter (\<lambda>c. list_ex (\<lambda>(_, e). ep_type e = ty \<and> interface e = i) (charm_endpoints c)) demo_charms))),
     charm_priority = (\<lambda>_. 1), set_order = id, tag_str = (\<lambda>_. [])\<rparr>"

lemma demo_hub_ok: "store_ok (set demo_charms) demo_hub"
proof -
  have "c \<in> set demo_charms \<and> charm_wf c" if "charm_from_store demo_hub f = Inr c" for f c
    using that demo_wf by (auto simp: demo_hub_def list_all_iff dest: find_Some_iff [THEN iffD1] split: option.splits)
  then show ?thesis by (simp add: store_ok_def)
qed

text \<open>A domain to which nothing was added yet.\<close>

definition unexpanded :: "'e Domain \<Rightarrow> bool" where
  "unexpanded d \<longleftrightarrow> charms d = [] \<and> list_all (\<lambda>(_, mc). list_all (\<lambda>(_, da). app_charms_added da = []) (applications mc)) (models d)"

lemma unexpanded_pool:
  assumes "unexpanded d" "domain_ok Z d"
  shows "pool C Z d"
proof -
  have "app_charms_added da = []" if "app_of d k = Some da" for k da
    using that assms(1) by (fastforce simp: unexpanded_def list_all_iff app_of_def split: option.splits dest: map_of_SomeD)
  then have none: "added_for d k = {}" for k by (simp add: added_for_def split: option.splits)
  have "edges 0 (kids d) = {}" by (simp add: edges_def)
  then have "tree d" using assms(1) by (simp add: tree_def forest_def none unexpanded_def)
  then show ?thesis using assms by (simp add: pool_def unexpanded_def)
qed

lemma demo_unexpanded: "unexpanded demo_empty"
  by (simp add: unexpanded_def demo_empty_def demo_application_def)

text \<open>A run of the loop with one expansion: an application whose charm has no endpoints.\<close>

definition solo_charm :: Charm where
  "solo_charm = demo_charm ''solo'' [] []"

definition solo_hub :: charmhub where
  "solo_hub = demo_hub\<lparr>charm_from_store := (\<lambda>f. Inr solo_charm)\<rparr>"

definition solo_empty :: "zterm Domain" where
  "solo_empty = \<lparr>models = [(demo_ref, \<lparr>arch = ''amd64'', platform = ''kubernetes'', juju_version = JujuVersion 3 6 0, admin = ''admin'',
     ref = demo_ref, applications = [(''web'', demo_application ''solo'')], application_integrations = []\<rparr>)],
     charms = [], charm_integrations = []\<rparr>"

definition solo_domain :: "zterm Domain" where
  "solo_domain = projr (handle_unsat_core solo_hub zterms [ApplicationExistsTag demo_ref ''web''] solo_empty)"

lemma solo_hub_ok: "store_ok {solo_charm} solo_hub"
proof -
  have "charm_wf solo_charm" by code_simp
  then show ?thesis by (simp add: store_ok_def solo_hub_def)
qed

lemma solo_ok: "domain_ok zterms solo_empty"
  by (simp add: domain_ok_def domain_pre_def solo_empty_def demo_application_def links_sound_def links_complete_def app_ok_def dict_ok_def)

lemma solo_unexpanded: "unexpanded solo_empty"
  by (simp add: unexpanded_def solo_empty_def demo_application_def)

lemma solo_assertions:
  "add_constraints zterms solo_empty [] = Inr [(Some (ApplicationExistsTag demo_ref ''web''), zEq zterms (sum_terms zterms []) (IntVal zterms 1))]"
  by code_simp

lemma solo_unsat: "smt_check (ideal_smt c) [(Some t, zEq zterms (sum_terms zterms []) (IntVal zterms 1))] = Unsat [t]"
  by (simp add: ideal_smt_def holds_def active_def sum_terms_def zterms_def List.map_filter_def)

lemma solo_expands: "handle_unsat_core solo_hub zterms [ApplicationExistsTag demo_ref ''web''] solo_empty = Inr solo_domain"
proof -
  have "\<not> isl (handle_unsat_core solo_hub zterms [ApplicationExistsTag demo_ref ''web''] solo_empty)" by code_simp
  then show ?thesis by (simp add: solo_domain_def)
qed

lemma solo_sat: "case add_constraints zterms solo_domain [] of Inl _ \<Rightarrow> False | Inr s \<Rightarrow> list_all (\<lambda>(_, e). zeval demo_model e = VBool True) s"
  by code_simp

lemma solo_prepared: "case prepare_optimization_domain zterms (zeval demo_model) solo_domain of Inl _ \<Rightarrow> False
    | Inr d \<Rightarrow> (case add_constraints zterms d [] of Inl _ \<Rightarrow> False | Inr s \<Rightarrow> list_all (\<lambda>(_, e). zeval demo_model e = VBool True) s)"
  by code_simp

lemma finish_returns:
  assumes "domain_ok zterms d" "prepare_optimization_domain zterms (zeval c) d = Inr d'" "add_constraints zterms d' [] = Inr s" "holds (zeval c) s"
  shows "\<exists>m. finish (ideal_smt c) zterms zeval d c = Some (Inr (d', m))"
proof -
  note d' = conjunct1 [OF prepare_ok [OF assms(2,1)]]
  obtain x y z where xyz: "build_cost_exprs (ideal_smt c) zterms d' = (x, y, z)" by (cases "build_cost_exprs (ideal_smt c) zterms d'") auto
  from ideal.descent_phases_minimal [OF d' assms(3), where x = "[]" and m = c and c = c] obtain m where "descent_phases (ideal_smt c) zterms zeval d' s c = Some m" by auto
  moreover have "smt_optimize (ideal_smt c) s [x, y, z] \<notin> range Unsat" using assms(4) by (auto simp: ideal_smt_def)
  ultimately show ?thesis using assms(2,3) xyz
    by (cases "smt_optimize (ideal_smt c) s [x, y, z]")
      (simp_all add: finish_def optimize_solution_def try_z3_optimize_def iterative_descent_def descent_seed_def)
qed

definition solo_final :: "zterm Domain" where
  "solo_final = projr (prepare_optimization_domain zterms (zeval demo_model) solo_domain)"

lemma solo_run: "\<exists>m. solve solo_hub (ideal_smt demo_model) zterms zeval solo_empty = Some (Inr (solo_final, m))"
proof -
  from solo_sat obtain s where s: "add_constraints zterms solo_domain [] = Inr s" "holds (zeval demo_model) s"
    unfolding holds_def active_def list_all_iff by (cases "add_constraints zterms solo_domain []") auto
  from solo_prepared have d': "prepare_optimization_domain zterms (zeval demo_model) solo_domain = Inr solo_final"
    by (cases "prepare_optimization_domain zterms (zeval demo_model) solo_domain") (auto simp: solo_final_def)
  with solo_prepared obtain s' where s': "add_constraints zterms solo_final [] = Inr s'" "holds (zeval demo_model) s'"
    unfolding holds_def active_def list_all_iff by (cases "add_constraints zterms solo_final []") auto
  have "domain_ok zterms solo_domain"
    using extends_handle_unsat_core [OF solo_hub_ok solo_expands] unexpanded_pool [OF solo_unexpanded solo_ok, of "{solo_charm}"] by (simp add: extends_def pool_def)
  from finish_returns [OF this d' s'] obtain m where m: "finish (ideal_smt demo_model) zterms zeval solo_domain demo_model = Some (Inr (solo_final, m))" by blast
  have "smt_check (ideal_smt demo_model) s = Sat demo_model" using s(2) by (simp add: ideal_smt_def)
  with m s have "solve_loop solo_hub (ideal_smt demo_model) zterms zeval 2 solo_domain = Some (Inr (solo_final, m))" by (simp add: solve_loop.simps)
  then show ?thesis unfolding solve_def
    by (subst solve_loop.simps) (simp add: solo_assertions solo_unsat solo_expands numeral_2_eq_2)
qed

section \<open>Properties\<close>

text \<open>
  The refinement loop of the bundle builder ends, with a result or an error, for every store
  with finitely many charms and every sound solver, although it has no limit on the
  number of iterations.
\<close>

theorem solve_terminates:
  assumes "smt_solver Z ev S" "store_ok C H" "finite C" "domain_ok Z d" "unexpanded d"
  shows "\<exists>y. solve H S Z ev d = Some y"
  using smt_solver.solve_loop_result [OF assms(1-3) unexpanded_pool [OF assms(5,4)]] unfolding solve_def by blast

theorem solve_terminates_witness:
  "\<exists>y. solve demo_hub (ideal_smt demo_model) zterms zeval demo_empty = Some y"
  by (rule solve_terminates [OF ideal.smt_solver_axioms demo_hub_ok _ demo_empty_ok demo_unexpanded]) simp

text \<open>
  C3. What the loop returns is a solution: the domain still has its invariant and extends the
  given one; unless the optimizer timed out, the model satisfies all assertions over that
  domain and its costs (of charms, then integrations, then units) are minimal among all models.
\<close>

theorem solve_sound:
  assumes "smt_solver Z ev S" "store_ok C H" "finite C" "domain_ok Z d" "unexpanded d" "solve H S Z ev d = Some (Inr (d', m))"
  shows "solution S Z ev d d' m"
  using smt_solver.solve_loop_result [OF assms(1-3) unexpanded_pool [OF assms(5,4)], of 1] assms(6) unfolding solve_def by auto

theorem solve_sound_witness:
  "\<exists>d' m. solve solo_hub (ideal_smt demo_model) zterms zeval solo_empty = Some (Inr (d', m)) \<and> solution (ideal_smt demo_model) zterms zeval solo_empty d' m"
proof -
  obtain d' m where r: "solve solo_hub (ideal_smt demo_model) zterms zeval solo_empty = Some (Inr (d', m))" using solo_run by blast
  from solve_sound [OF ideal.smt_solver_axioms solo_hub_ok _ solo_ok solo_unexpanded r] r show ?thesis by blast
qed

text \<open>
  C16. Every round of the loop makes progress within a bound: if a core is handled without an error,
  the domain has more charms or integrations than before, and never more than a number that
  depends only on the charms of the store, the models and the applications.
\<close>

theorem expansion_bounded:
  assumes "store_ok C H" "finite C" "pool C Z d" "handle_unsat_core H Z core d = Inr d'"
  shows "domain_size d < domain_size d' \<and> domain_size d' \<le> max_size C d \<and> pool C Z d' \<and> grows d d'"
proof -
  note e = extends_handle_unsat_core [OF assms(1,4)]
  with assms(3) have d': "pool C Z d'" "domain_size d < domain_size d'" "grows d d'" by (simp_all add: extends_def)
  then show ?thesis using size_bound [OF d'(1) assms(2)] max_size_extends [OF e assms(3)] by simp
qed

lemma demo_core: "\<not> isl (handle_unsat_core demo_hub zterms [ApplicationExistsTag demo_ref ''web''] demo_empty)"
  by code_simp

theorem expansion_bounded_witness:
  "\<exists>d'. handle_unsat_core demo_hub zterms [ApplicationExistsTag demo_ref ''web''] demo_empty = Inr d' \<and> domain_size demo_empty < domain_size d'"
proof -
  from demo_core obtain d' where d': "handle_unsat_core demo_hub zterms [ApplicationExistsTag demo_ref ''web''] demo_empty = Inr d'"
    by (cases "handle_unsat_core demo_hub zterms [ApplicationExistsTag demo_ref ''web''] demo_empty") auto
  with expansion_bounded [OF demo_hub_ok _ unexpanded_pool [OF demo_unexpanded demo_empty_ok] d'] show ?thesis by auto
qed

text \<open>
  C14. The iterative descent ends, and if the solver answers every question its result is minimal:
  no model of the assertions has lower costs, compared in the order charms, integrations, units.
\<close>

theorem descent_minimal:
  assumes "smt_solver Z ev S" "domain_ok Z d" "add_constraints Z d [] = Inr s" "\<forall>s. smt_check S s \<noteq> Unknown" "holds (ev m) s"
  shows "\<exists>m'. iterative_descent S Z ev d (Some m) [] = Some (Inr m') \<and> holds (ev m') s
    \<and> (\<forall>m''. holds (ev m'') s \<longrightarrow> costs S (ev m') d \<le> costs S (ev m'') d)"
  using smt_solver.descent_phases_minimal [OF assms(1-3), of "[]" m] assms(3-5)
  by (auto simp: iterative_descent_def descent_seed_def)

theorem descent_minimal_witness:
  "\<exists>m s. add_constraints zterms demo_domain [] = Inr s \<and> iterative_descent (ideal_smt demo_solution) zterms zeval demo_domain (Some demo_solution) [] = Some (Inr m)
    \<and> holds (zeval m) s \<and> costs (ideal_smt demo_solution) (zeval m) demo_domain \<le> costs (ideal_smt demo_solution) (zeval demo_solution) demo_domain"
proof -
  from demo_assertions obtain s where s: "add_constraints zterms demo_domain [] = Inr s" "holds (zeval demo_solution) s" by blast
  have "\<forall>s. smt_check (ideal_smt demo_solution) s \<noteq> Unknown" by (simp add: ideal_smt_def)
  from descent_minimal [OF ideal.smt_solver_axioms demo_ok s(1) this s(2)] s show ?thesis by blast
qed

section \<open>Explaining a failure\<close>

lemma sort_key_Nil_iff: "sort_key f xs = [] \<longleftrightarrow> xs = []"
  by (metis length_0_conv length_sort)

lemma tag_diagnostics_total:
  "(\<And>r eps. t = ApplicationIntegrationExistsTag r eps \<Longrightarrow> eps \<noteq> []) \<Longrightarrow> \<exists>ds. tag_diagnostics d failed t = Inr ds"
  by (cases t) (simp_all add: tag_diagnostics_def unresolved_integration_def sort_key_Nil_iff)

lemma concat_results_total: "(\<And>x. x \<in> set xs \<Longrightarrow> \<exists>y. f x = Inr y) \<Longrightarrow> \<exists>ys. concat_results f xs = Inr ys"
  by (induction xs) (fastforce simp: bind_result_Inr_iff)+

text \<open>Merging keeps the tags of the other kinds.\<close>

definition is_mismatch :: "AssertionTag \<Rightarrow> bool" where
  "is_mismatch t \<longleftrightarrow> (case t of PeerChannelMismatchTag _ _ _ _ _ _ _ _ \<Rightarrow> True | _ \<Rightarrow> False)"

lemma merge_two_mismatch: "is_mismatch a \<Longrightarrow> is_mismatch (merge_two a b)"
  by (cases "(a, b)" rule: merge_two.cases) (simp_all add: is_mismatch_def)

lemma set_update_other: "i < length xs \<Longrightarrow> t \<noteq> xs ! i \<Longrightarrow> t \<noteq> x \<Longrightarrow> t \<in> set (xs[i := x]) \<longleftrightarrow> t \<in> set xs"
  by (auto simp: in_set_conv_nth nth_list_update)

lemma merge_step_keeps:
  assumes "\<forall>(k, i) \<in> set seen. i < length merged \<and> is_mismatch (merged ! i)" "merge_step tag (seen, merged) = (seen', merged')"
  shows "(\<forall>(k, i) \<in> set seen'. i < length merged' \<and> is_mismatch (merged' ! i))
    \<and> (\<forall>t. \<not> is_mismatch t \<longrightarrow> (t \<in> set merged' \<longleftrightarrow> t \<in> set merged \<or> t = tag))"
proof (cases "is_mismatch tag")
  case False
  then have "seen' = seen" "merged' = merged @ [tag]" using assms(2) by (cases tag; simp add: merge_step_def is_mismatch_def)+
  then show ?thesis using assms(1) by (auto simp: nth_append)
next
  case True
  then obtain c e pn p t k ch v where tag: "tag = PeerChannelMismatchTag c e pn p t k ch v" by (cases tag) (simp_all add: is_mismatch_def)
  show ?thesis
  proof (cases "dict_get seen (cp_charm_id c, e)")
    case None
    then have "seen' = dict_set (cp_charm_id c, e) (length merged) seen" "merged' = merged @ [tag]" using assms(2) by (simp_all add: merge_step_def tag)
    then show ?thesis using assms(1) True by (fastforce simp: nth_append dest: set_update_mem)
  next
    case (Some i)
    then have eq: "seen' = seen" "merged' = merged[i := merge_two (merged ! i) tag]" using assms(2) by (simp_all add: merge_step_def tag)
    have i: "i < length merged" "is_mismatch (merged ! i)" using assms(1) map_of_SomeD [OF Some] by auto
    have "t' \<in> set merged' \<longleftrightarrow> t' \<in> set merged" if "\<not> is_mismatch t'" for t'
      unfolding eq(2) using set_update_other [OF i(1)] that i(2) merge_two_mismatch [OF i(2)] by metis
    then show ?thesis using assms(1) i True merge_two_mismatch [OF i(2)] unfolding eq by (auto simp: nth_list_update)
  qed
qed

lemma merge_mismatch_tags_keeps:
  assumes "\<not> is_mismatch t"
  shows "t \<in> set (merge_mismatch_tags tags) \<longleftrightarrow> t \<in> set tags"
proof -
  have "t \<in> set (snd (fold merge_step tags (seen, merged))) \<longleftrightarrow> t \<in> set merged \<or> t \<in> set tags"
    if "\<forall>(k, i) \<in> set seen. i < length merged \<and> is_mismatch (merged ! i)" for seen merged
    using that
  proof (induction tags arbitrary: seen merged)
    case (Cons tag tags)
    obtain seen' merged' where m: "merge_step tag (seen, merged) = (seen', merged')" by fastforce
    note k = merge_step_keeps [OF Cons.prems m]
    with Cons.IH [of seen' merged'] assms show ?case by (auto simp: m)
  qed simp
  from this [of "[]" "[]"] show ?thesis by (simp add: merge_mismatch_tags_def)
qed

section \<open>Properties of failures\<close>

definition core_tags :: "charmhub \<Rightarrow> AssertionTag list \<Rightarrow> AssertionTag list" where
  "core_tags H core = sort_key (\<lambda>t. (expansion_priority t, tag_str H t)) (merge_mismatch_tags core)"

text \<open>
  C15. A core that cannot be expanded is explained: if the handlers raise nothing and expand nothing,
  the builder raises its own error with at least one diagnostic, without duplicates and in
  canonical order, among them one for every endpoint that must be integrated and
  for every release that was not found.
\<close>

theorem core_failure_explained:
  assumes "handle_tags H Z (core_tags H core) d = Inr (d', False, prov)"
    "\<forall>r eps. ApplicationIntegrationExistsTag r eps \<in> set core \<longrightarrow> eps \<noteq> []"
  shows "\<exists>ds. handle_unsat_core H Z core d = Inl (UncompletableBundleError ds) \<and> ds \<noteq> []
    \<and> sorted_wrt (<) (map diagnostic_key ds) \<and> diagnostic_key ` set prov \<subseteq> diagnostic_key ` set ds
    \<and> (\<forall>c i. CharmEndpointNonOptionalTag c i \<in> set core \<longrightarrow>
         diagnostic_key (UnfulfilledEndpointDiagnostic \<lparr>de_charm_name = cep_charm_name c, de_endpoint = cep_endpoint c, de_application = None\<rparr> (Some i))
           \<in> diagnostic_key ` set ds)"
proof -
  define failed where "failed = set (List.map_filter (\<lambda>x. case x of ApplicationReleaseDiagnostic a c m e \<Rightarrow> Some (m, a) | _ \<Rightarrow> None) prov)"
  have mem: "t \<in> set (core_tags H core) \<longleftrightarrow> t \<in> set core" if "\<not> is_mismatch t" for t
    using merge_mismatch_tags_keeps [OF that] by (simp add: core_tags_def)
  have "\<exists>ds. tag_diagnostics d' failed t = Inr ds" if "t \<in> set (core_tags H core)" for t
    using that mem [of t] assms(2) by (intro tag_diagnostics_total) (auto simp: is_mismatch_def)
  from this concat_results_total [of "core_tags H core" "tag_diagnostics d' failed"] obtain ds where ds: "concat_results (tag_diagnostics d' failed) (core_tags H core) = Inr ds" by blast
  let ?all = "if prov @ ds = [] then [unexpandable] else prov @ ds"
  let ?out = "canonicalize_diagnostics (canonicalize_diagnostics ?all)"
  have collect: "collect_unsat_diagnostics (core_tags H core) d' prov = Inr (canonicalize_diagnostics ?all)"
    unfolding collect_unsat_diagnostics_def failed_def [symmetric] Let_def ds by simp
  have keys: "diagnostic_key ` set ?out = diagnostic_key ` set ?all" by (simp only: canonicalize_diagnostics(2))
  have "?out \<noteq> []" by (intro canonicalize_nonempty) simp
  then have "handle_unsat_core H Z core d = Inl (UncompletableBundleError ?out)"
    using assms(1) collect unfolding handle_unsat_core_def Let_def core_tags_def [symmetric] by (simp add: uncompletable_def Let_def)
  moreover have "diagnostic_key ` set prov \<subseteq> diagnostic_key ` set ?out" unfolding keys by auto
  moreover have "diagnostic_key (UnfulfilledEndpointDiagnostic \<lparr>de_charm_name = cep_charm_name c, de_endpoint = cep_endpoint c, de_application = None\<rparr> (Some i))
      \<in> diagnostic_key ` set ?out" if "CharmEndpointNonOptionalTag c i \<in> set core" for c i
  proof -
    have "CharmEndpointNonOptionalTag c i \<in> set (core_tags H core)" using mem that by (simp add: is_mismatch_def)
    from concat_results_mem [OF ds this] have "UnfulfilledEndpointDiagnostic \<lparr>de_charm_name = cep_charm_name c, de_endpoint = cep_endpoint c, de_application = None\<rparr> (Some i) \<in> set ds"
      by (simp add: tag_diagnostics_def)
    then show ?thesis unfolding keys by auto
  qed
  ultimately show ?thesis using \<open>?out \<noteq> []\<close> canonicalize_diagnostics(1) [of "canonicalize_diagnostics ?all"] by blast
qed

lemma demo_failure:
  "handle_tags (demo_hub\<lparr>charm_from_store := (\<lambda>f. Inl (ReleaseNotFound (CharmReleaseNotFound [] None)))\<rparr>) zterms
     (core_tags (demo_hub\<lparr>charm_from_store := (\<lambda>f. Inl (ReleaseNotFound (CharmReleaseNotFound [] None)))\<rparr>) [ApplicationExistsTag demo_ref ''web'']) demo_empty
   = Inr (demo_empty, False, [ApplicationReleaseDiagnostic ''web'' ''app'' ''m'' (CharmReleaseNotFound [] None)])"
  by (simp add: core_tags_def merge_mismatch_tags_def merge_step_def handle_failed_assertion_def get_charm_for_application_def lookup_def try_fetch_def
      demo_empty_def demo_ref_def demo_application_def application_release_diagnostic_def application_charm_name_def model_key_def)

theorem core_failure_explained_witness:
  "\<exists>ds. handle_unsat_core (demo_hub\<lparr>charm_from_store := (\<lambda>f. Inl (ReleaseNotFound (CharmReleaseNotFound [] None)))\<rparr>) zterms
     [ApplicationExistsTag demo_ref ''web''] demo_empty = Inl (UncompletableBundleError ds) \<and> ds \<noteq> []"
  using core_failure_explained [OF demo_failure] by auto

end
