(* ===== verification/Bundle_Spec_Correct.thy ===== *)
theory Bundle_Spec_Correct
  imports Bundle_Spec Bundle_Solve_Props
begin

text \<open>
  What validation accepts, stated without its bookkeeping, and what the domain of an
  accepted specification is like: it has the invariant of the solver and nothing was
  added to it yet.
\<close>

section \<open>Rules for one integration\<close>

text \<open>Rules that do not depend on the other integrations of the model.\<close>

definition local_pair :: "IntegrationSpec \<Rightarrow> app_endpoint set" where
  "local_pair i = {(is_application i, is_endpoint_name i), (is_remote_application i, is_remote_endpoint i)}"

definition local_rule :: "ModelSpec \<Rightarrow> IntegrationSpec \<Rightarrow> bool" where
  "local_rule m i \<longleftrightarrow>
     is_application i \<in> fst ` set (ms_applications m) \<and> is_remote_application i \<in> fst ` set (ms_applications m) \<and> card (local_pair i) = 2"

definition remote_of :: "(py_str option, ModelSpec) dict \<Rightarrow> IntegrationSpec \<Rightarrow> ModelSpec option" where
  "remote_of all_models i = dict_get all_models (remote_model_key i)"

definition cmr_rule :: "(py_str option, ModelSpec) dict \<Rightarrow> ModelSpec \<Rightarrow> IntegrationSpec \<Rightarrow> bool" where
  "cmr_rule all_models m i \<longleftrightarrow>
     remote_model_key i \<noteq> spec_key m \<and> is_application i \<in> fst ` set (ms_applications m)
     \<and> (case remote_of all_models i of
          None \<Rightarrow> is_url i \<noteq> None
        | Some r \<Rightarrow> spec_key r \<noteq> spec_key m \<and> is_remote_application i \<in> fst ` set (ms_applications r)
            \<and> (case is_url i of None \<Rightarrow> ms_controller r \<noteq> None | Some u \<Rightarrow> is_offer_name i = Some (offer_name_from_url u)))"

definition cmr_id :: "IntegrationSpec \<Rightarrow> app_endpoint \<times> py_str \<times> app_endpoint" where
  "cmr_id i = ((is_application i, is_endpoint_name i), the (remote_model_key i), (is_remote_application i, is_remote_endpoint i))"

text \<open>The offers with their urls, as far as they are declared.\<close>

definition declared_offer :: "(py_str option, ModelSpec) dict \<Rightarrow> IntegrationSpec \<Rightarrow> (py_str \<times> py_str) option" where
  "declared_offer all_models i =
     (case is_url i of None \<Rightarrow> None
      | Some u \<Rightarrow> Some (u, case remote_of all_models i of None \<Rightarrow> external_offer_name i | Some _ \<Rightarrow> the (is_offer_name i)))"

definition one_to_one :: "('a \<times> 'b) set \<Rightarrow> bool" where
  "one_to_one R \<longleftrightarrow> (\<forall>(a, b) \<in> R. \<forall>(c, d) \<in> R. a = c \<longleftrightarrow> b = d)"

definition cross_models :: "IntegrationSpec list \<Rightarrow> IntegrationSpec list" where
  "cross_models is = filter is_cross_model_spec is"

definition locals :: "IntegrationSpec list \<Rightarrow> IntegrationSpec list" where
  "locals is = filter (\<lambda>i. \<not> is_cross_model_spec i) is"

definition offers :: "(py_str option, ModelSpec) dict \<Rightarrow> IntegrationSpec list \<Rightarrow> (py_str \<times> py_str) set" where
  "offers all_models is = set (List.map_filter (declared_offer all_models) (cross_models is))"

definition integrations_ok :: "(py_str option, ModelSpec) dict \<Rightarrow> ModelSpec \<Rightarrow> bool" where
  "integrations_ok all_models m \<longleftrightarrow>
     (\<forall>i \<in> set (locals (ms_integrations m)). local_rule m i) \<and> distinct (map local_pair (locals (ms_integrations m)))
     \<and> (\<forall>i \<in> set (cross_models (ms_integrations m)). cmr_rule all_models m i) \<and> distinct (map cmr_id (cross_models (ms_integrations m)))
     \<and> one_to_one (offers all_models (ms_integrations m))"

section \<open>The bookkeeping\<close>

definition seen_rel :: "app_endpoint set set \<Rightarrow> (app_endpoint \<times> py_str \<times> app_endpoint) set \<Rightarrow> (py_str \<times> py_str) set \<Rightarrow> seen_integrations \<Rightarrow> bool" where
  "seen_rel L C R seen \<longleftrightarrow>
     L = (\<lambda>(a, b). {a, b}) ` set (seen_local seen) \<and> (\<forall>(a, b) \<in> set (seen_local seen). a \<le> b) \<and> C = set (seen_cmrs seen)
     \<and> (\<forall>u x. dict_get (seen_cmr_urls seen) u = Some x \<longleftrightarrow> (u, x) \<in> R) \<and> (\<forall>u x. dict_get (seen_cmr_offer_names seen) x = Some u \<longleftrightarrow> (u, x) \<in> R)"

lemma ordered_pair_eq:
  fixes a b c d :: "'a::linorder"
  assumes "a \<le> b" "c \<le> d"
  shows "(a, b) = (c, d) \<longleftrightarrow> {a, b} = {c, d}"
  using assms by (auto simp: doubleton_eq_iff)

lemma min_max_pair: "{min a b, max a b} = {a, b :: 'a::linorder}"
  by (auto simp: min_def max_def)

lemma seen_local_mem:
  assumes "seen_rel L C R seen"
  shows "(min a b, max a b) \<in> set (seen_local seen) \<longleftrightarrow> {a, b} \<in> L"
proof -
  have le: "min a b \<le> max a b" by (simp add: min_le_iff_disj)
  have "{a, b} \<in> L \<longleftrightarrow> (\<exists>p \<in> set (seen_local seen). {min a b, max a b} = {fst p, snd p})"
    using assms unfolding seen_rel_def min_max_pair by (auto simp: image_iff case_prod_beta)
  also have "\<dots> \<longleftrightarrow> (min a b, max a b) \<in> set (seen_local seen)"
    using ordered_pair_eq [OF le] assms unfolding seen_rel_def by (metis (no_types, lifting) case_prodD prod.collapse)
  finally show ?thesis by simp
qed

lemma dict_get_mem_iff: "dict_get d k = None \<longleftrightarrow> k \<notin> fst ` set d"
  by (rule map_of_eq_None_iff)

lemma check_local_exact:
  assumes "seen_rel L C R seen"
  shows "(\<exists>seen'. check_local model m i seen = Inr seen') \<longleftrightarrow> local_rule m i \<and> local_pair i \<notin> L"
    "check_local model m i seen = Inr seen' \<Longrightarrow> seen_rel (insert (local_pair i) L) C R seen'"
proof -
  let ?a = "(is_application i, is_endpoint_name i)" and ?b = "(is_remote_application i, is_remote_endpoint i)"
  have card: "card (local_pair i) = 2 \<longleftrightarrow> ?a \<noteq> ?b" by (simp add: local_pair_def card_insert_if)
  have "(min ?a ?b, max ?a ?b) \<in> set (seen_local seen) \<longleftrightarrow> local_pair i \<in> L" unfolding local_pair_def by (rule seen_local_mem [OF assms])
  then show "(\<exists>seen'. check_local model m i seen = Inr seen') \<longleftrightarrow> local_rule m i \<and> local_pair i \<notin> L"
    unfolding check_local_def Let_def local_rule_def card by (simp add: dict_get_mem_iff)
  assume "check_local model m i seen = Inr seen'"
  then have s: "seen' = seen\<lparr>seen_local := (min ?a ?b, max ?a ?b) # seen_local seen\<rparr>" unfolding check_local_def Let_def by (simp split: if_splits)
  have "min ?a ?b \<le> max ?a ?b" by (simp add: min_le_iff_disj)
  then show "seen_rel (insert (local_pair i) L) C R seen'"
    using assms min_max_pair [of ?a ?b] unfolding seen_rel_def s local_pair_def by simp
qed

lemma check_offer_exact:
  assumes "seen_rel L C R seen" "one_to_one R"
  shows "(\<exists>seen'. check_cmr_offer_consistency model u x seen = Inr seen') \<longleftrightarrow> one_to_one (insert (u, x) R)"
    "check_cmr_offer_consistency model u x seen = Inr seen' \<Longrightarrow> seen_rel L C (insert (u, x) R) seen'"
proof -
  have urls: "dict_get (seen_cmr_urls seen) v = Some y \<longleftrightarrow> (v, y) \<in> R" "dict_get (seen_cmr_offer_names seen) y = Some v \<longleftrightarrow> (v, y) \<in> R" for v y
    using assms(1) by (simp_all add: seen_rel_def)
  have ok: "\<not> conflicting (dict_get (seen_cmr_urls seen) u) x \<and> \<not> conflicting (dict_get (seen_cmr_offer_names seen) x) u
      \<longleftrightarrow> (\<forall>(v, y) \<in> R. v = u \<longleftrightarrow> y = x)"
  proof -
    have "\<not> conflicting (dict_get (seen_cmr_urls seen) u) x \<longleftrightarrow> (\<forall>y. (u, y) \<in> R \<longrightarrow> y = x)"
      unfolding conflicting_def urls [symmetric] by (cases "dict_get (seen_cmr_urls seen) u") auto
    moreover have "\<not> conflicting (dict_get (seen_cmr_offer_names seen) x) u \<longleftrightarrow> (\<forall>v. (v, x) \<in> R \<longrightarrow> v = u)"
      unfolding conflicting_def urls(2) [symmetric] by (cases "dict_get (seen_cmr_offer_names seen) x") auto
    ultimately show ?thesis by auto
  qed
  have one: "one_to_one (insert (u, x) R) \<longleftrightarrow> (\<forall>(v, y) \<in> R. v = u \<longleftrightarrow> y = x)"
    using assms(2) unfolding one_to_one_def by auto
  then show "(\<exists>seen'. check_cmr_offer_consistency model u x seen = Inr seen') \<longleftrightarrow> one_to_one (insert (u, x) R)"
    using ok unfolding check_cmr_offer_consistency_def Let_def by auto
  assume r: "check_cmr_offer_consistency model u x seen = Inr seen'"
  then have s: "seen' = seen\<lparr>seen_cmr_urls := dict_set u x (seen_cmr_urls seen), seen_cmr_offer_names := dict_set x u (seen_cmr_offer_names seen)\<rparr>"
    and all: "\<forall>(v, y) \<in> R. v = u \<longleftrightarrow> y = x"
    using ok unfolding check_cmr_offer_consistency_def Let_def by (auto split: if_splits)
  have "dict_get (dict_set u x (seen_cmr_urls seen)) v = Some y \<longleftrightarrow> (v, y) \<in> insert (u, x) R" for v y
    using all urls(1) [of v y] by (auto simp: update_conv)
  moreover have "dict_get (dict_set x u (seen_cmr_offer_names seen)) y = Some v \<longleftrightarrow> (v, y) \<in> insert (u, x) R" for v y
    using all urls(2) [of y v] by (auto simp: update_conv)
  ultimately show "seen_rel L C (insert (u, x) R) seen'" using assms(1) unfolding seen_rel_def s by simp
qed

lemma check_cross_model_exact:
  assumes "seen_rel L C R seen" "one_to_one R" "spec_key m = Some model" "remote_model_key i = Some rk"
  shows "(\<exists>seen'. check_cross_model all_models model m rk i seen = Inr seen')
      \<longleftrightarrow> cmr_rule all_models m i \<and> cmr_id i \<notin> C \<and> one_to_one (R \<union> set_option (declared_offer all_models i))" (is ?exact)
    "check_cross_model all_models model m rk i seen = Inr seen' \<Longrightarrow>
      seen_rel L (insert (cmr_id i) C) (R \<union> set_option (declared_offer all_models i)) seen'" (is "?ok \<Longrightarrow> ?rel")
proof -
  let ?seen1 = "seen\<lparr>seen_cmrs := cmr_id i # seen_cmrs seen\<rparr>"
  let ?r = "dict_get all_models (Some rk)"
  have id: "cmr_id i = ((is_application i, is_endpoint_name i), rk, (is_remote_application i, is_remote_endpoint i))" using assms(4) by (simp add: cmr_id_def)
  have C: "cmr_id i \<in> set (seen_cmrs seen) \<longleftrightarrow> cmr_id i \<in> C" using assms(1) by (simp add: seen_rel_def)
  have rel1: "seen_rel L (insert (cmr_id i) C) R ?seen1" using assms(1) by (simp add: seen_rel_def)
  note offer = check_offer_exact [OF rel1 assms(2), where model = model]
  have self: "(case ?r of Some r \<Rightarrow> spec_key r | None \<Rightarrow> Some rk) = Some model \<or> rk = model \<longleftrightarrow>
      remote_model_key i = spec_key m \<or> (\<exists>r. ?r = Some r \<and> spec_key r = spec_key m)"
    using assms(3,4) by (auto split: option.splits)
  define tail where "tail = (case ?r of Some remote \<Rightarrow> validate_in_spec_cmr model rk remote i ?seen1
      | None \<Rightarrow> (case is_url i of None \<Rightarrow> Inl (ExternalWithoutUrl model rk) | Some u \<Rightarrow> check_cmr_offer_consistency model u (external_offer_name i) ?seen1))"
  have tail: "((\<exists>seen'. tail = Inr seen') \<longleftrightarrow> one_to_one (R \<union> set_option (declared_offer all_models i))
      \<and> (case ?r of None \<Rightarrow> is_url i \<noteq> None
         | Some r \<Rightarrow> is_remote_application i \<in> fst ` set (ms_applications r)
            \<and> (case is_url i of None \<Rightarrow> ms_controller r \<noteq> None | Some u \<Rightarrow> is_offer_name i = Some (offer_name_from_url u))))
    \<and> (\<forall>seen'. tail = Inr seen' \<longrightarrow> seen_rel L (insert (cmr_id i) C) (R \<union> set_option (declared_offer all_models i)) seen')"
  proof (cases ?r)
    case None
    then show ?thesis using offer assms(4) by (cases "is_url i") (auto simp: tail_def declared_offer_def remote_of_def)
  next
    case (Some r)
    show ?thesis
    proof (cases "is_url i")
      case None
      then show ?thesis using Some rel1 assms(2)
        by (simp add: tail_def validate_in_spec_cmr_def declared_offer_def dict_get_mem_iff [of "ms_applications r"])
    next
      case u: (Some u)
      then show ?thesis using Some offer [of u "offer_name_from_url u"] assms(4)
        by (cases "is_offer_name i")
          (auto simp: tail_def validate_in_spec_cmr_def declared_offer_def remote_of_def dict_get_mem_iff [of "ms_applications r"])
    qed
  qed
  have eq: "check_cross_model all_models model m rk i seen =
      (if remote_model_key i = spec_key m \<or> (\<exists>r. ?r = Some r \<and> spec_key r = spec_key m) then Inl (RemoteIsCurrentModel model)
       else if cmr_id i \<in> C then Inl (DuplicateCrossModelIntegration model (is_application i, is_endpoint_name i) rk (is_remote_application i, is_remote_endpoint i))
       else if is_application i \<notin> fst ` set (ms_applications m) then Inl (UnknownLocalApplication model (is_application i)) else tail)"
    unfolding check_cross_model_def Let_def self id [symmetric] C dict_get_mem_iff tail_def ..
  show ?exact unfolding eq cmr_rule_def using tail assms(4) by (auto simp: remote_of_def split: option.splits)
  show "?ok \<Longrightarrow> ?rel" unfolding eq using tail by (simp split: if_splits)
qed

lemma is_cross_model_key: "is_cross_model_spec i \<longleftrightarrow> remote_model_key i \<noteq> None"
  by (auto simp: is_cross_model_spec_def remote_model_key_def split: option.splits)

lemma offers_Cons: "offers all_models (i # is) = (if is_cross_model_spec i then set_option (declared_offer all_models i) else {}) \<union> offers all_models is"
  by (auto simp: offers_def cross_models_def map_filter_simps split: option.splits)

lemma one_to_one_subset: "one_to_one R \<Longrightarrow> S \<subseteq> R \<Longrightarrow> one_to_one S"
  unfolding one_to_one_def by fast

lemma check_integrations_exact:
  assumes "seen_rel L C R seen" "one_to_one R" "spec_key m \<noteq> None"
  shows "(\<exists>seen'. check_integrations all_models m is seen = Inr seen') \<longleftrightarrow>
    (\<forall>i \<in> set (locals is). local_rule m i) \<and> distinct (map local_pair (locals is)) \<and> local_pair ` set (locals is) \<inter> L = {}
    \<and> (\<forall>i \<in> set (cross_models is). cmr_rule all_models m i) \<and> distinct (map cmr_id (cross_models is)) \<and> cmr_id ` set (cross_models is) \<inter> C = {}
    \<and> one_to_one (R \<union> offers all_models is)"
  using assms(1,2)
proof (induction "is" arbitrary: L C R seen)
  case Nil
  then show ?case by (simp add: locals_def cross_models_def offers_def map_filter_simps)
next
  case (Cons i "is")
  obtain model where model: "spec_key m = Some model" using assms(3) by auto
  show ?case
  proof (cases "remote_model_key i")
    case None
    then have i: "\<not> is_cross_model_spec i" by (simp add: is_cross_model_key)
    have step: "check_integration all_models m i seen = check_local model m i seen" using None model by (simp add: check_integration_def)
    note exact = check_local_exact [OF Cons.prems(1), of model m i]
    show ?thesis
    proof (cases "check_local model m i seen")
      case (Inl e)
      then have "\<not> (local_rule m i \<and> local_pair i \<notin> L)" using exact(1) by auto
      then show ?thesis using i Inl step by (auto simp: locals_def)
    next
      case (Inr seen1)
      then have "local_rule m i" "local_pair i \<notin> L" using exact(1) by blast+
      then show ?thesis using Cons.IH [OF exact(2) [OF Inr] Cons.prems(2)] i Inr step
        by (auto simp: locals_def cross_models_def offers_Cons)
    qed
  next
    case (Some rk)
    then have i: "is_cross_model_spec i" by (simp add: is_cross_model_key)
    have step: "check_integration all_models m i seen = check_cross_model all_models model m rk i seen" using Some model by (simp add: check_integration_def)
    note exact = check_cross_model_exact [OF Cons.prems model Some, where all_models = all_models]
    have R: "R \<union> offers all_models (i # is) = (R \<union> set_option (declared_offer all_models i)) \<union> offers all_models is" using i by (auto simp: offers_Cons)
    show ?thesis
    proof (cases "check_cross_model all_models model m rk i seen")
      case (Inl e)
      then have "\<not> (cmr_rule all_models m i \<and> cmr_id i \<notin> C \<and> one_to_one (R \<union> set_option (declared_offer all_models i)))" using exact(1) by auto
      moreover have "one_to_one (R \<union> offers all_models (i # is)) \<Longrightarrow> one_to_one (R \<union> set_option (declared_offer all_models i))"
        unfolding R by (rule one_to_one_subset) blast+
      ultimately show ?thesis using i Inl step by (auto simp: cross_models_def)
    next
      case (Inr seen1)
      then have "cmr_rule all_models m i" "cmr_id i \<notin> C" "one_to_one (R \<union> set_option (declared_offer all_models i))" using exact(1) by blast+
      then show ?thesis using Cons.IH [OF exact(2) [OF Inr]] i Inr step unfolding R
        by (auto simp: locals_def cross_models_def)
    qed
  qed
qed

lemma check_model_exact:
  assumes "spec_key m \<noteq> None"
  shows "(\<exists>seen'. check_integrations all_models m (ms_integrations m) nothing_seen = Inr seen') \<longleftrightarrow> integrations_ok all_models m"
proof -
  have "seen_rel {} {} {} nothing_seen" "one_to_one {}" by (simp_all add: seen_rel_def nothing_seen_def one_to_one_def)
  from check_integrations_exact [OF this assms] show ?thesis by (simp add: integrations_ok_def)
qed

section \<open>Whole specifications\<close>

definition field_rule :: "IntegrationSpec \<Rightarrow> bool" where
  "field_rule i \<longleftrightarrow> (is_remote_controller i \<noteq> None \<longrightarrow> is_remote_model i \<noteq> None) \<and> is_remote_model i \<noteq> Some []"

text \<open>
  The rules of the code. A name has to be there but may be empty, and the keys must differ, in
  which the controller is a part; the documentation asks for unique non-empty names.
\<close>

definition well_formed_spec :: "ModelSpec list \<Rightarrow> bool" where
  "well_formed_spec ms \<longleftrightarrow>
     ms \<noteq> [] \<and> (\<forall>m \<in> set ms. ms_name m \<noteq> None \<and> ms_applications m \<noteq> [] \<and> (\<forall>i \<in> set (ms_integrations m). field_rule i))
     \<and> distinct (map spec_key ms) \<and> (\<forall>m \<in> set ms. integrations_ok (models_by_name ms) m)"

lemma check_models_exact:
  "check_models k seen ms = Inr () \<longleftrightarrow>
    (\<forall>m \<in> set ms. ms_name m \<noteq> None \<and> ms_applications m \<noteq> []) \<and> distinct (map spec_key ms) \<and> spec_key ` set ms \<inter> set seen = {}"
  by (induction ms arbitrary: k seen) (auto split: option.splits)

lemma spec_key_Some: "ms_name m \<noteq> None \<Longrightarrow> spec_key m \<noteq> None"
  by (auto simp: spec_key_def split: option.splits)

lemma check_each_exact:
  assumes "\<forall>m \<in> set ms. ms_name m \<noteq> None"
  shows "check_each_model all_models ms = Inr () \<longleftrightarrow> (\<forall>m \<in> set ms. integrations_ok all_models m)"
  using assms
proof (induction ms)
  case (Cons m ms)
  then have "spec_key m \<noteq> None" by (simp add: spec_key_Some)
  from check_model_exact [OF this, of all_models] Cons show ?case by (auto simp: bind_result_Inr_iff)
qed simp

lemma validate_fields_exact: "validate_fields is = Inr () \<longleftrightarrow> (\<forall>i \<in> set is. field_rule i)"
  by (induction "is") (auto simp: validate_remote_model_fields_def field_rule_def bind_result_Inr_iff)

lemma SpecFile_exact: "SpecFile ms = Inr ms' \<longleftrightarrow> ms' = ms \<and> well_formed_spec ms"
proof -
  have "validate_models ms = Inr () \<longleftrightarrow> ms \<noteq> [] \<and> (\<forall>m \<in> set ms. ms_name m \<noteq> None \<and> ms_applications m \<noteq> [])
      \<and> distinct (map spec_key ms) \<and> (\<forall>m \<in> set ms. integrations_ok (models_by_name ms) m)"
    using check_models_exact [of 0 "[]" ms] check_each_exact [of ms "models_by_name ms"]
    unfolding validate_models_def by (auto simp: bind_result_Inr_iff)
  then show ?thesis using validate_fields_exact [of "concat (map ms_integrations ms)"]
    unfolding SpecFile_def well_formed_spec_def bind_result_Inr_iff by auto
qed

section \<open>Names of models\<close>

definition known_as :: "(py_str option, nat) dict \<Rightarrow> ModelSpec \<Rightarrow> py_str option set" where
  "known_as counts m = {spec_key m} \<union> (if has_name m \<and> dict_get counts (ms_name m) = Some 1 then {ms_name m} else {})"

lemma add_model_get: "dict_get (add_model counts m res) k = (if k \<in> known_as counts m then Some m else dict_get res k)"
  by (auto simp: add_model_def known_as_def Let_def update_conv)

lemma fold_add_model:
  assumes "\<And>m m'. m \<in> set ms \<Longrightarrow> m' \<in> set ms \<Longrightarrow> k \<in> known_as counts m \<Longrightarrow> k \<in> known_as counts m' \<Longrightarrow> m = m'"
  shows "dict_get (fold (add_model counts) ms res) k = Some r \<longleftrightarrow>
    (r \<in> set ms \<and> k \<in> known_as counts r) \<or> ((\<forall>m \<in> set ms. k \<notin> known_as counts m) \<and> dict_get res k = Some r)"
  using assms
proof (induction ms arbitrary: res)
  case (Cons m ms)
  have "dict_get (fold (add_model counts) ms (add_model counts m res)) k = Some r \<longleftrightarrow>
      (r \<in> set ms \<and> k \<in> known_as counts r) \<or> ((\<forall>m \<in> set ms. k \<notin> known_as counts m) \<and> dict_get (add_model counts m res) k = Some r)"
    using Cons.prems by (intro Cons.IH) auto
  then show ?case using Cons.prems [of m] by (auto simp: add_model_get)
qed simp

lemma name_counts_get:
  "dict_get (fold (\<lambda>m c. if has_name m then dict_set (ms_name m) (dict_get_default c (ms_name m) 0 + 1) c else c) ms c) n
    = (let k = length (filter (\<lambda>m. has_name m \<and> ms_name m = n) ms) in if k = 0 then dict_get c n else Some (dict_get_default c n 0 + k))"
  by (induction ms arbitrary: c) (auto simp: Let_def update_conv dict_get_default_def split: option.splits)

lemma filter_single:
  assumes "length (filter P xs) = 1" "x \<in> set xs" "y \<in> set xs" "P x" "P y"
  shows "x = y"
proof -
  from assms(1) obtain z where "filter P xs = [z]" by (auto simp: length_Suc_conv)
  then have "set (filter P xs) = {z}" by simp
  moreover have "x \<in> set (filter P xs)" "y \<in> set (filter P xs)" using assms(2-) by simp_all
  ultimately show ?thesis by (metis singletonD)
qed

lemma unique_name:
  assumes "dict_get (name_counts ms) (ms_name m) = Some 1" "m \<in> set ms" "m' \<in> set ms" "has_name m" "ms_name m' = ms_name m"
  shows "m' = m"
proof -
  have "length (filter (\<lambda>x. has_name x \<and> ms_name x = ms_name m) ms) = 1"
    using assms(1) name_counts_get [of ms "[]" "ms_name m"] by (auto simp: name_counts_def Let_def dict_get_default_def split: if_splits)
  from filter_single [OF this assms(3,2)] assms(4,5) show ?thesis by (simp add: has_name_def)
qed

text \<open>A reference to a model: by its key, or by its plain name when no other model has that name.\<close>

definition refers_to :: "ModelSpec list \<Rightarrow> py_str \<Rightarrow> ModelSpec \<Rightarrow> bool" where
  "refers_to ms k r \<longleftrightarrow>
     r \<in> set ms \<and> (spec_key r = Some k \<or> (k \<noteq> [] \<and> ms_name r = Some k \<and> length (filter (\<lambda>m. ms_name m = Some k) ms) = 1))"

definition plain_names :: "ModelSpec list \<Rightarrow> bool" where
  "plain_names ms \<longleftrightarrow> (\<forall>m \<in> set ms. \<forall>n. ms_name m = Some n \<longrightarrow> CHR ''/'' \<notin> set n)"

lemma models_by_name_get:
  assumes "distinct (map spec_key ms)" "plain_names ms"
  shows "dict_get (models_by_name ms) (Some k) = Some r \<longleftrightarrow> refers_to ms k r"
proof -
  let ?c = "name_counts ms"
  have key: "m = m'" if "m \<in> set ms" "m' \<in> set ms" "spec_key m = spec_key m'" for m m'
    using assms(1) that by (simp add: distinct_map inj_on_def)
  have by_name: "m = m'" if m: "m \<in> set ms" "m' \<in> set ms" "spec_key m = Some k" "has_name m'" "dict_get ?c (ms_name m') = Some 1" "ms_name m' = Some k" for m m' k
  proof -
    have "CHR ''/'' \<notin> set k" using assms(2) m by (simp add: plain_names_def)
    then have "ms_name m = Some k" using m(3) by (auto simp: spec_key_def split: option.splits)
    then show ?thesis using unique_name [OF m(5,2,1,4)] m(6) by simp
  qed
  have known: "spec_key m = Some k \<or> (has_name m \<and> dict_get ?c (ms_name m) = Some 1 \<and> ms_name m = Some k)" if "Some k \<in> known_as ?c m" for m
    using that by (auto simp: known_as_def split: if_splits)
  have "m = m'" if m: "m \<in> set ms" "m' \<in> set ms" and k: "Some k \<in> known_as ?c m" "Some k \<in> known_as ?c m'" for m m'
    using known [OF k(1)] known [OF k(2)] key [OF m] by_name [OF m] by_name [OF m(2,1)] unique_name [OF _ m] by metis
  from fold_add_model [of ms "Some k" ?c "[]" r, OF this]
  have "dict_get (models_by_name ms) (Some k) = Some r \<longleftrightarrow> r \<in> set ms \<and> Some k \<in> known_as ?c r" by (simp add: models_by_name_def)
  moreover have "has_name r \<and> dict_get ?c (ms_name r) = Some 1 \<and> ms_name r = Some k \<longleftrightarrow>
      k \<noteq> [] \<and> ms_name r = Some k \<and> length (filter (\<lambda>m. ms_name m = Some k) ms) = 1"
  proof -
    have "filter (\<lambda>m. has_name m \<and> ms_name m = Some k) ms = filter (\<lambda>m. ms_name m = Some k) ms" if "k \<noteq> []"
      using that by (intro filter_cong) (auto simp: has_name_def)
    then show ?thesis using name_counts_get [of ms "[]" "Some k"]
      by (auto simp: name_counts_def Let_def dict_get_default_def has_name_def split: if_splits)
  qed
  ultimately show ?thesis by (auto simp: refers_to_def known_as_def)
qed

section \<open>The domain\<close>

lemma dict_set_new: "k \<notin> fst ` set d \<Longrightarrow> dict_set k v d = d @ [(k, v)]"
  by (induction d) auto

lemma spec_ref_key: "spec_ref m = spec_ref m' \<Longrightarrow> spec_key m = spec_key m'"
  by (auto simp: spec_ref_def spec_key_def split: option.splits)

lemma distinct_refs: "distinct (map spec_key ms) \<Longrightarrow> distinct (map spec_ref ms)"
  by (auto simp: distinct_map inj_on_def dest: spec_ref_key)

lemma build_models_result:
  assumes "build_models snap all_models ms d = Inr d'" "distinct (map spec_ref ms)" "spec_ref ` set ms \<inter> fst ` set (models d) = {}"
  shows "\<exists>new. models d' = models d @ new \<and> list_all2 (\<lambda>m (r, mc). r = spec_ref m \<and> domain_model snap all_models m = Inr mc) ms new
    \<and> charms d' = charms d \<and> charm_integrations d' = charm_integrations d"
  using assms
proof (induction ms arbitrary: d)
  case (Cons m ms)
  then obtain mc :: "'a DomainModel" where mc: "domain_model snap all_models m = Inr mc" by (auto simp: bind_result_Inr_iff)
  let ?d = "d\<lparr>models := dict_set (spec_ref m) mc (models d)\<rparr>"
  have upd: "models ?d = models d @ [(spec_ref m, mc)]" using Cons.prems(3) by (simp add: dict_set_new)
  have "build_models snap all_models ms ?d = Inr d'" using Cons.prems(1) mc by simp
  from Cons.IH [OF this] obtain new where "models d' = models ?d @ new"
    "list_all2 (\<lambda>m (r, mc). r = spec_ref m \<and> domain_model snap all_models m = Inr mc) ms new" "charms d' = charms d" "charm_integrations d' = charm_integrations d"
    using Cons.prems(2,3) unfolding upd by auto
  then show ?case using mc upd by (intro exI [of _ "(spec_ref m, mc) # new"]) simp
qed simp

lemma applications_from_spec_result:
  "applications_from_spec as = Inr apps \<Longrightarrow>
    map (\<lambda>(n, da). (n, app_charm da)) apps = map (\<lambda>(n, a). (n, as_charm a)) as \<and> (\<forall>(n, da) \<in> set apps. charm_ids da = [] \<and> app_charms_added da = [])"
  by (induction "as" arbitrary: apps) (fastforce simp: application_from_spec_def bind_result_Inr_iff)+

lemma build_domain_models:
  fixes d :: "'e Domain"
  assumes "build_domain snap ms = Inr d" "distinct (map spec_key ms)"
  shows "list_all2 (\<lambda>m (r, mc). r = spec_ref m \<and> domain_model snap (models_by_name ms) m = Inr mc) ms (models d)"
    "charms d = []" "charm_integrations d = []"
  using build_models_result [OF assms(1) [unfolded build_domain_def] distinct_refs [OF assms(2)]] by auto

lemma build_domain_refs:
  assumes "build_domain snap ms = Inr d" "distinct (map spec_key ms)"
  shows "map fst (models d) = map spec_ref ms"
  using build_domain_models(1) [OF assms] by (induction rule: list_all2_induct) auto

lemma build_domain_get:
  fixes d :: "'e Domain"
  assumes "build_domain snap ms = Inr d" "distinct (map spec_key ms)" "m \<in> set ms"
  shows "\<exists>mc. dict_get (models d) (spec_ref m) = Some mc \<and> domain_model snap (models_by_name ms) m = Inr mc"
proof -
  note refs = build_domain_refs [OF assms(1,2)]
  from assms(3) obtain k where k: "k < length ms" "m = ms ! k" by (auto simp: in_set_conv_nth)
  have len: "length (models d) = length ms" using refs by (metis length_map)
  obtain r mc where x: "models d ! k = (r, mc)" by fastforce
  with list_all2_nthD [OF build_domain_models(1) [OF assms(1,2)] k(1)] k(2)
  have mc: "r = spec_ref m" "domain_model snap (models_by_name ms) m = Inr mc" by simp_all
  have "distinct (map fst (models d))" unfolding refs using distinct_refs [OF assms(2)] .
  moreover have "(spec_ref m, mc) \<in> set (models d)" using x mc(1) k(1) len by (metis nth_mem)
  ultimately show ?thesis using mc(2) by (metis map_of_eq_Some_iff)
qed

lemma domain_model_result:
  fixes mc :: "'e DomainModel"
  assumes "domain_model snap all_models m = Inr mc"
  shows "map (\<lambda>(n, da). (n, app_charm da)) (applications mc) = map (\<lambda>(n, a). (n, as_charm a)) (ms_applications m)"
    "(n, da) \<in> set (applications mc) \<Longrightarrow> charm_ids da = [] \<and> app_charms_added da = []"
    "application_integrations mc = map (classify_integration all_models) (ms_integrations m)" "map fst (applications mc) = map fst (ms_applications m)"
proof -
  from assms obtain apps :: "(py_str, 'e DomainApplication) dict" where apps: "applications_from_spec (ms_applications m) = Inr apps"
      "applications mc = apps" "application_integrations mc = map (classify_integration all_models) (ms_integrations m)"
    by (auto simp: domain_model_def bind_result_Inr_iff lift_error_def classify_integrations_def split: sum.splits)
  note res = applications_from_spec_result [OF apps(1)]
  then show charms: "map (\<lambda>(n, da). (n, app_charm da)) (applications mc) = map (\<lambda>(n, a). (n, as_charm a)) (ms_applications m)"
    and "(n, da) \<in> set (applications mc) \<Longrightarrow> charm_ids da = [] \<and> app_charms_added da = []" using apps(2) by auto
  show "application_integrations mc = map (classify_integration all_models) (ms_integrations m)" by (rule apps(3))
  from arg_cong [where f = "map fst", OF charms] show "map fst (applications mc) = map fst (ms_applications m)" by (simp add: comp_def case_prod_beta)
qed

lemma classify_ids: "charm_integration_ids (classify_integration all_models i :: 'e DomainApplicationIntegration) = []"
  by (simp add: classify_integration_def Let_def split: option.splits)

lemma build_domain_ready:
  fixes d :: "'e Domain"
  assumes "distinct (map spec_key ms)" "\<forall>m \<in> set ms. dict_ok (ms_applications m)" "build_domain snap ms = Inr d"
  shows "domain_ok Z d \<and> unexpanded d"
proof -
  note b = build_domain_models [OF assms(3,1)]
  have mem: "\<exists>m \<in> set ms. domain_model snap (models_by_name ms) m = Inr mc" if "(r, mc) \<in> set (models d)" for r mc
  proof -
    from that obtain k where k: "k < length (models d)" "models d ! k = (r, mc)" by (auto simp: in_set_conv_nth)
    then have "k < length ms" using list_all2_lengthD [OF b(1)] by simp
    then show ?thesis using list_all2_nthD2 [OF b(1) k(1)] k(2) nth_mem by fastforce
  qed
  have model: "dict_ok (applications mc) \<and> (\<forall>(n, da) \<in> set (applications mc). charm_ids da = [] \<and> app_charms_added da = [])
      \<and> (\<forall>ai \<in> set (application_integrations mc). charm_integration_ids ai = [])" if mc: "(r, mc) \<in> set (models d)" for r mc
  proof -
    from mem [OF mc] obtain m where m: "m \<in> set ms" "domain_model snap (models_by_name ms) m = Inr mc" by blast
    note r = domain_model_result [OF m(2)]
    have "dict_ok (applications mc)" using assms(2) m(1) r(4) by (simp add: dict_ok_def)
    then show ?thesis using r(2,3) by (auto simp: classify_ids)
  qed
  have "dict_ok (models d)" using build_domain_refs [OF assms(3,1)] distinct_refs [OF assms(1)] by (simp add: dict_ok_def)
  moreover have "app_ok Z d r n da" if "(r, mc) \<in> set (models d)" "(n, da) \<in> set (applications mc)" for r mc n da
    using model [OF that(1)] that(2) b(2) by (fastforce simp: app_ok_def dict_ok_def)
  moreover have "links_sound Z d r ai \<and> links_complete d r ai" if "(r, mc) \<in> set (models d)" "ai \<in> set (application_integrations mc)" for r mc ai
    using model [OF that(1)] that(2) b(3) by (simp add: links_sound_def links_complete_def dict_ok_def)
  ultimately have "domain_ok Z d" using b(2,3) model unfolding domain_ok_def domain_pre_def by fastforce
  moreover have "unexpanded d" using b(2) model unfolding unexpanded_def list_all_iff by fastforce
  ultimately show ?thesis by simp
qed

lemma classify_ends:
  fixes all_models :: "(py_str option, ModelSpec) dict"
  assumes "is_remote_model i = Some n"
  defines "r \<equiv> (case dict_get all_models (remote_model_key i) of
      Some rs \<Rightarrow> if ms_name rs \<noteq> None then spec_ref rs else \<lparr>mr_name = Some n, mr_controller = is_remote_controller i\<rparr>
    | None \<Rightarrow> \<lparr>mr_name = Some n, mr_controller = is_remote_controller i\<rparr>)"
  shows "local_ep (classify_integration all_models i :: 'e DomainApplicationIntegration) = \<lparr>dae_application = is_application i, dae_endpoint = is_endpoint_name i, dae_model = this_model\<rparr>"
    "remote_ep (classify_integration all_models i :: 'e DomainApplicationIntegration) = \<lparr>dae_application = is_remote_application i, dae_endpoint = is_remote_endpoint i, dae_model = r\<rparr>"
    "is_cmr (classify_integration all_models i :: 'e DomainApplicationIntegration)" "url (classify_integration all_models i :: 'e DomainApplicationIntegration) = is_url i"
proof -
  let ?l = "\<lparr>dae_application = is_application i, dae_endpoint = is_endpoint_name i, dae_model = this_model\<rparr>"
  let ?r = "\<lparr>dae_application = is_remote_application i, dae_endpoint = is_remote_endpoint i, dae_model = r\<rparr>"
  have key: "Some (model_key \<lparr>mr_name = Some n, mr_controller = is_remote_controller i\<rparr>) = remote_model_key i"
    using assms(1) by (simp add: model_key_def remote_model_key_def split: option.splits)
  have "mr_name r \<noteq> None" by (auto simp: r_def spec_ref_def split: option.splits)
  then have ne: "r \<noteq> this_model" by (auto simp: this_model_def)
  let ?ai = "classify_integration all_models i :: 'e DomainApplicationIntegration"
  have "(endpoint_1 ?ai = ?l \<and> endpoint_2 ?ai = ?r) \<or> (endpoint_1 ?ai = ?r \<and> endpoint_2 ?ai = ?l)" "url ?ai = is_url i"
    unfolding classify_integration_def assms(1) option.case Let_def key r_def [unfolded spec_ref_def, symmetric] by simp_all
  with ne show "local_ep ?ai = ?l" "remote_ep ?ai = ?r" "is_cmr ?ai" "url ?ai = is_url i"
    by (auto simp: local_ep_def remote_ep_def is_cmr_def)
qed

section \<open>Properties\<close>

text \<open>
  C5. A specification is accepted exactly if it is well formed: there is a model, models are named with
  different keys and have applications, local integrations join different endpoints of known
  applications and no pair twice, cross-model integrations refer to known applications of other
  models or give a url, none occurs twice, and within a model the urls and offer names that
  are declared correspond one to one. Two of these rules are weaker than those of
  \<^verbatim>\<open>docs/reference/spec-file.rst\<close>, which asks for unique non-empty model names: the code accepts
  the empty text as a name, and one name twice on different controllers, because it compares the
  keys, in which the controller is a part.
\<close>

theorem validation_exact: "SpecFile ms = Inr ms' \<longleftrightarrow> ms' = ms \<and> well_formed_spec ms"
  by (rule SpecFile_exact)

text \<open>
  C13. The domain built from an accepted specification is one the refinement loop can start from: it has
  the invariant of the solver domain and nothing was added to it. It has the models of
  the specification in their order, with the applications and their charms.
\<close>

theorem spec_domain_ready:
  fixes d :: "'e Domain"
  assumes "SpecFile ms = Inr ms'" "\<forall>m \<in> set ms. dict_ok (ms_applications m)" "build_domain snap ms = Inr d"
  shows "domain_ok Z d \<and> unexpanded d \<and> map fst (models d) = map spec_ref ms
    \<and> (\<forall>m \<in> set ms. \<exists>mc. dict_get (models d) (spec_ref m) = Some mc
        \<and> map (\<lambda>(n, da). (n, app_charm da)) (applications mc) = map (\<lambda>(n, a). (n, as_charm a)) (ms_applications m)
        \<and> length (application_integrations mc) = length (ms_integrations m))"
proof -
  have dist: "distinct (map spec_key ms)" using assms(1) by (simp add: SpecFile_exact well_formed_spec_def)
  have "\<exists>mc. dict_get (models d) (spec_ref m) = Some mc
        \<and> map (\<lambda>(n, da). (n, app_charm da)) (applications mc) = map (\<lambda>(n, a). (n, as_charm a)) (ms_applications m)
        \<and> length (application_integrations mc) = length (ms_integrations m)" if "m \<in> set ms" for m
    using build_domain_get [OF assms(3) dist that] domain_model_result by (metis length_map)
  then show ?thesis using build_domain_ready [OF dist assms(2,3)] build_domain_refs [OF assms(3) dist] by blast
qed

text \<open>A web application in one model that uses a database of another, and an external log server.\<close>

definition demo_specs :: "ModelSpec list" where
  "demo_specs =
     [\<lparr>ms_name = Some ''front'', ms_arch = ''amd64'', ms_platform = ''kubernetes'', ms_juju = ''3/stable'', ms_controller = Some ''east'', ms_admin = ''admin'',
       ms_applications = [(''web'', \<lparr>as_charm = ''app'', as_channel = Some ''stable'', as_revision = None, as_base = None\<rparr>)],
       ms_integrations =
         [\<lparr>is_application = ''web'', is_endpoint_name = ''db'', is_remote_application = ''store'', is_remote_endpoint = ''db'',
           is_remote_model = Some ''data'', is_remote_controller = None, is_offer_name = None, is_url = None\<rparr>,
          \<lparr>is_application = ''web'', is_endpoint_name = ''log'', is_remote_application = ''loki'', is_remote_endpoint = ''log'',
           is_remote_model = Some ''ops'', is_remote_controller = None, is_offer_name = None, is_url = Some ''west:admin/ops.loki''\<rparr>]\<rparr>,
      \<lparr>ms_name = Some ''data'', ms_arch = ''amd64'', ms_platform = ''machine'', ms_juju = ''3.6'', ms_controller = Some ''west'', ms_admin = ''admin'',
       ms_applications = [(''store'', \<lparr>as_charm = ''pg'', as_channel = None, as_revision = None, as_base = None\<rparr>)], ms_integrations = []\<rparr>]"

definition demo_snaps :: "py_str \<Rightarrow> domain_error + (py_str \<times> py_str) list" where
  "demo_snaps snap = Inr [(''3/stable'', ''3.6.1'')]"

definition demo_built :: "zterm Domain" where
  "demo_built = projr (build_domain demo_snaps demo_specs)"

lemma demo_specs_accepted: "SpecFile demo_specs = Inr demo_specs"
proof -
  have "case SpecFile demo_specs of Inl _ \<Rightarrow> False | Inr _ \<Rightarrow> True" by code_simp
  then show ?thesis using SpecFile_exact [of demo_specs] by (cases "SpecFile demo_specs") auto
qed

lemma demo_specs_built: "build_domain demo_snaps demo_specs = Inr demo_built"
proof -
  have "\<not> isl (build_domain demo_snaps demo_specs :: domain_error + zterm Domain)" by code_simp
  then show ?thesis by (simp add: demo_built_def)
qed

lemma demo_specs_dicts: "\<forall>m \<in> set demo_specs. dict_ok (ms_applications m)"
  by (simp add: demo_specs_def dict_ok_def)

theorem spec_domain_ready_witness:
  "domain_ok zterms demo_built \<and> unexpanded demo_built \<and> map fst (models demo_built) = map spec_ref demo_specs"
  using spec_domain_ready [OF demo_specs_accepted demo_specs_dicts demo_specs_built] by blast

text \<open>
  C34. References between models are resolved: in the domain of an accepted specification, whose model names have no
  slash, a cross-model integration that names a model of the specification, by its key or by a
  name that only one model has, leads to that model and an application of it; any
  other one is external and has a url.
\<close>

theorem references_resolved:
  fixes d :: "'e Domain"
  assumes "SpecFile ms = Inr ms'" "plain_names ms" "build_domain snap ms = Inr d" "m \<in> set ms" "i \<in> set (ms_integrations m)" "remote_model_key i = Some k"
  shows "\<exists>mc ai. dict_get (models d) (spec_ref m) = Some mc \<and> ai \<in> set (application_integrations mc)
    \<and> dae_application (local_ep ai) = is_application i \<and> dae_application (remote_ep ai) = is_remote_application i
    \<and> (if \<exists>r. refers_to ms k r
       then \<not> is_external_cmr d ai \<and> (\<exists>r mr. refers_to ms k r \<and> r \<noteq> m \<and> dae_model (remote_ep ai) = spec_ref r
              \<and> dict_get (models d) (spec_ref r) = Some mr \<and> is_remote_application i \<in> fst ` set (applications mr))
       else is_external_cmr d ai \<and> url ai = is_url i \<and> is_url i \<noteq> None)"
proof -
  let ?all = "models_by_name ms"
  let ?ai = "classify_integration ?all i :: 'e DomainApplicationIntegration"
  have wf: "well_formed_spec ms" using assms(1) by (simp add: SpecFile_exact)
  then have dist: "distinct (map spec_key ms)" by (simp add: well_formed_spec_def)
  note get = models_by_name_get [OF dist assms(2)]
  from build_domain_get [OF assms(3) dist assms(4)] obtain mc where mc: "dict_get (models d) (spec_ref m) = Some mc" "domain_model snap ?all m = Inr mc" by blast
  have ai: "?ai \<in> set (application_integrations mc)" using domain_model_result(3) [OF mc(2)] assms(5) by simp
  from assms(6) obtain n where n: "is_remote_model i = Some n" by (auto simp: remote_model_key_def split: option.splits)
  note ends = classify_ends [OF n, where all_models = ?all and ?'e = 'e]
  have rule: "cmr_rule ?all m i" using wf assms(4-6) by (simp add: well_formed_spec_def integrations_ok_def cross_models_def is_cross_model_key)
  have external: "is_external_cmr d ?ai \<longleftrightarrow> dict_get (models d) (dae_model (remote_ep ?ai)) = None"
    using ends(1-3) by (auto simp: is_external_cmr_def Let_def is_cmr_def local_ep_def remote_ep_def split: if_splits)
  have keys: "fst ` set (models d) = spec_ref ` set ms" using build_domain_refs [OF assms(3) dist] by (metis set_map)
  show ?thesis
  proof (cases "\<exists>r. refers_to ms k r")
    case True
    then obtain r where r: "refers_to ms k r" by blast
    then have all: "dict_get ?all (remote_model_key i) = Some r" using get assms(6) by simp
    have rm: "r \<in> set ms" "ms_name r \<noteq> None" using r wf by (auto simp: refers_to_def well_formed_spec_def)
    have remote: "dae_model (remote_ep ?ai) = spec_ref r" using ends(2) rm(2) by (simp add: all)
    from build_domain_get [OF assms(3) dist rm(1)] obtain mr where mr: "dict_get (models d) (spec_ref r) = Some mr" "domain_model snap ?all r = Inr mr" by blast
    have "r \<noteq> m" "is_remote_application i \<in> fst ` set (ms_applications r)" using rule all by (auto simp: cmr_rule_def remote_of_def)
    moreover have "fst ` set (applications mr) = fst ` set (ms_applications r)" using domain_model_result(4) [OF mr(2)] by (metis set_map)
    ultimately have "refers_to ms k r \<and> r \<noteq> m \<and> dae_model (remote_ep ?ai) = spec_ref r
        \<and> dict_get (models d) (spec_ref r) = Some mr \<and> is_remote_application i \<in> fst ` set (applications mr)" using r remote mr(1) by simp
    moreover have "\<not> is_external_cmr d ?ai" unfolding external remote using mr(1) by simp
    ultimately show ?thesis unfolding if_P [OF True] using mc(1) ai ends(1,2)
      by (intro exI [of _ mc] exI [of _ ?ai] conjI) (simp_all, blast)
  next
    case False
    then have all: "dict_get ?all (remote_model_key i) = None" using get assms(6) by (metis not_None_eq)
    then have remote: "dae_model (remote_ep ?ai) = \<lparr>mr_name = Some n, mr_controller = is_remote_controller i\<rparr>" using ends(2) by simp
    have "\<lparr>mr_name = Some n, mr_controller = is_remote_controller i\<rparr> \<noteq> spec_ref r" if "r \<in> set ms" for r
    proof
      assume "\<lparr>mr_name = Some n, mr_controller = is_remote_controller i\<rparr> = spec_ref r"
      then have "spec_key r = Some k" using n assms(6) by (auto simp: spec_ref_def spec_key_def remote_model_key_def split: option.splits)
      then show False using False that by (auto simp: refers_to_def)
    qed
    then have "is_external_cmr d ?ai" unfolding external remote map_of_eq_None_iff keys by auto
    moreover have "is_url i \<noteq> None" using rule all by (simp add: cmr_rule_def remote_of_def)
    ultimately show ?thesis using False mc(1) ai ends by (intro exI [of _ mc] exI [of _ ?ai]) simp
  qed
qed

theorem references_resolved_witness:
  "\<exists>mc ai r. dict_get (models demo_built) (spec_ref (demo_specs ! 0)) = Some mc \<and> ai \<in> set (application_integrations mc)
     \<and> \<not> is_external_cmr demo_built ai \<and> refers_to demo_specs ''data'' r \<and> dae_model (remote_ep ai) = spec_ref r"
proof -
  have plain: "plain_names demo_specs" by (simp add: plain_names_def demo_specs_def)
  have "refers_to demo_specs ''data'' (demo_specs ! 1)" by (simp add: refers_to_def demo_specs_def)
  then have ex: "\<exists>r. refers_to demo_specs ''data'' r" by blast
  have mem: "demo_specs ! 0 \<in> set demo_specs" "ms_integrations (demo_specs ! 0) ! 0 \<in> set (ms_integrations (demo_specs ! 0))"
    "remote_model_key (ms_integrations (demo_specs ! 0) ! 0) = Some ''data''"
    by (simp_all add: demo_specs_def remote_model_key_def)
  from references_resolved [OF demo_specs_accepted plain demo_specs_built mem, unfolded if_P [OF ex]] show ?thesis by blast
qed

end
