(* ===== verification/Bundle_Extract_Correct.thy ===== *)
theory Bundle_Extract_Correct
  imports Bundle_Spec_Correct Bundle_Export
begin

text \<open>
  The bundles of a valid deployment: every charm that exists in a model is one application of its
  bundle, under the name of the application it stands for; cross-model integrations are
  listed on both sides; offers are unambiguous, so that the exported documents lose none.
\<close>

section \<open>Names of charms\<close>

lemma mapped_app_stands:
  assumes "domain_ok Z d" "applications_placed Z E d" "(r, mc) \<in> set (models d)" "cid < length (charms d)" "charm_model (charms d ! cid) = r"
  shows "mapped_app E mc cid = Some app \<longleftrightarrow> app \<in> fst ` set (applications mc) \<and> stands Z E d r app cid"
proof -
  have pre: "domain_pre Z d" using assms(1) by (simp add: domain_ok_def)
  let ?P = "\<lambda>(_, da). case dict_get (charm_ids da) cid of None \<Rightarrow> False | Some v \<Rightarrow> active E v"
  have P: "?P (n, da) \<longleftrightarrow> stands Z E d r n cid" if "(n, da) \<in> set (applications mc)" for n da
    using charm_ids_stands [OF pre assms(3) that, of cid E] by (auto split: option.splits)
  have one: "n = n'" if "stands Z E d r n cid" "stands Z E d r n' cid" for n n'
    using assms(2,4,5) that unfolding applications_placed_def by blast
  show ?thesis
  proof
    assume "mapped_app E mc cid = Some app"
    then obtain da where "find ?P (applications mc) = Some (app, da)" by (auto simp: mapped_app_def)
    then have "(app, da) \<in> set (applications mc)" "?P (app, da)" using find_SomeD by fast+
    then show "app \<in> fst ` set (applications mc) \<and> stands Z E d r app cid" using P by force
  next
    assume a: "app \<in> fst ` set (applications mc) \<and> stands Z E d r app cid"
    then obtain da where da: "(app, da) \<in> set (applications mc)" by auto
    show "mapped_app E mc cid = Some app"
    proof (cases "find ?P (applications mc)")
      case None
      then show ?thesis using da a P [OF da] by (auto simp: find_None_iff)
    next
      case (Some x)
      then have "x \<in> set (applications mc)" "?P x" using find_SomeD by fast+
      then have "stands Z E d r (fst x) cid" using P [of "fst x" "snd x"] by simp
      then show ?thesis using one a Some by (auto simp: mapped_app_def)
    qed
  qed
qed

lemma user_names_fold:
  "dict_get (fold (\<lambda>cid names. case mapped_app E mc cid of None \<Rightarrow> names | Some app \<Rightarrow> dict_set cid app names) ids names) k
    = (if k \<in> set ids \<and> mapped_app E mc k \<noteq> None then mapped_app E mc k else dict_get names k)"
  "dict_ok names \<Longrightarrow> dict_ok (fold (\<lambda>cid names. case mapped_app E mc cid of None \<Rightarrow> names | Some app \<Rightarrow> dict_set cid app names) ids names)"
  by (induction ids arbitrary: names) (auto simp: update_conv dict_ok_set split: option.splits)

lemma user_names_get: "dict_get (user_names E mc ids) k = (if k \<in> set ids then mapped_app E mc k else None)"
  by (auto simp: user_names_def user_names_fold(1))

lemma user_names_ok: "dict_ok (user_names E mc ids)"
  by (simp add: user_names_def user_names_fold(2))

text \<open>Giving names to the remaining charms keeps the names that are there and all names different.\<close>

lemma distinct_values:
  assumes "dict_ok m" "\<And>k k' v. dict_get m k = Some v \<Longrightarrow> dict_get m k' = Some v \<Longrightarrow> k = k'"
  shows "distinct (map snd m)"
  using assms
proof (induction m)
  case (Cons x m)
  obtain k v where x: "x = (k, v)" by (cases x)
  have k: "k \<notin> fst ` set m" and ok: "dict_ok m" using Cons.prems(1) by (simp_all add: dict_ok_def x)
  have get: "dict_get (x # m) j = Some w" if "dict_get m j = Some w" for j w
    using that k by (auto simp: x dest: map_of_SomeD) (metis fst_conv imageI map_of_SomeD)
  have "k' = k''" if "dict_get m k' = Some w" "dict_get m k'' = Some w" for k' k'' w using Cons.prems(2) get that by blast
  then have "distinct (map snd m)" using Cons.IH ok by blast
  moreover have "v \<notin> snd ` set m"
  proof
    assume "v \<in> snd ` set m"
    then obtain k' where k': "(k', v) \<in> set m" by auto
    then have "dict_get m k' = Some v" using ok by (simp add: dict_ok_def)
    then have "k' = k" using Cons.prems(2) [of k' v k] get by (simp add: x)
    then show False using k k' by (metis fst_conv imageI)
  qed
  ultimately show ?case by (simp add: x)
qed simp

lemma other_names_ok:
  assumes "dict_ok names" "distinct (map snd names)" "snd ` set names \<subseteq> set used"
  shows "dict_ok (other_names d ids used names) \<and> distinct (map snd (other_names d ids used names))
    \<and> fst ` set (other_names d ids used names) = fst ` set names \<union> set ids
    \<and> (\<forall>k v. dict_get names k = Some v \<longrightarrow> dict_get (other_names d ids used names) k = Some v)"
  using assms
proof (induction ids arbitrary: used names)
  case (Cons cid ids)
  show ?case
  proof (cases "dict_get names cid")
    case None
    define name where "name = pick_name used (charm_name (spec (charms d ! cid))) (charm_name (spec (charms d ! cid))) 0"
    have cid: "cid \<notin> fst ` set names" using None by (simp add: map_of_eq_None_iff)
    have upd: "dict_set cid name names = names @ [(cid, name)]" using cid by (rule dict_set_new)
    have fresh: "name \<notin> snd ` set names" using pick_name_fresh Cons.prems(3) by (metis name_def subsetD)
    have "dict_ok (names @ [(cid, name)])" "distinct (map snd (names @ [(cid, name)]))" "snd ` set (names @ [(cid, name)]) \<subseteq> set (name # used)"
      using Cons.prems cid fresh by (auto simp: dict_ok_def)
    from Cons.IH [OF this] show ?thesis using None by (auto simp: Let_def name_def [symmetric] upd map_add_def)
  next
    case (Some v)
    then have "cid \<in> fst ` set names" by (metis fst_conv imageI map_of_SomeD)
    then show ?thesis using Cons.IH [OF Cons.prems] Some by auto
  qed
qed simp

text \<open>What the names of the charms of a model must be.\<close>

definition names_right :: "'e z3 \<Rightarrow> 'e evaluation \<Rightarrow> 'e Domain \<Rightarrow> ModelRef \<Rightarrow> 'e DomainModel \<Rightarrow> (nat, py_str) dict \<Rightarrow> bool" where
  "names_right Z E d r mc names \<longleftrightarrow>
     dict_ok names \<and> distinct (map snd names) \<and> fst ` set names = set (existing_charm_ids E d r)
     \<and> (\<forall>app \<in> fst ` set (applications mc). \<forall>cid. stands Z E d r app cid \<longrightarrow> dict_get names cid = Some app)"

lemma stands_exists:
  assumes "domain_ok Z d" "applications_placed Z E d" "stands Z E d r app cid"
  shows "cid < length (charms d) \<and> charm_model (charms d ! cid) = r \<and> active E (charm_exists (charms d ! cid)) \<and> cid \<in> set (existing_charm_ids E d r)"
proof -
  have pre: "domain_pre Z d" using assms(1) by (simp add: domain_ok_def)
  from assms(3) obtain mc da where mc: "dict_get (models d) r = Some mc" "dict_get (applications mc) app = Some da" "dict_get (charm_ids da) cid \<noteq> None"
    by (auto simp: stands_def serves_def has_charm_def split: option.splits)
  have "app_ok Z d r app da" using domain_preD(7) [OF pre map_of_SomeD [OF mc(1)] map_of_SomeD [OF mc(2)]] .
  then have "cid < length (charms d)" "charm_model (charms d ! cid) = r" using mc(3) by (auto simp: app_ok_def split: if_splits)
  moreover from this have "active E (charm_exists (charms d ! cid))" using assms(2,3) unfolding applications_placed_def by blast
  ultimately show ?thesis by (simp add: existing_charm_ids_def)
qed

lemma charm_names_right:
  assumes "domain_ok Z d" "applications_placed Z E d" "(r, mc) \<in> set (models d)"
  shows "names_right Z E d r mc (charm_names E d mc r)"
proof -
  let ?ids = "existing_charm_ids E d r"
  let ?user = "user_names E mc ?ids"
  have ids: "cid < length (charms d) \<and> charm_model (charms d ! cid) = r" if "cid \<in> set ?ids" for cid using that by (simp add: existing_charm_ids_def)
  have user: "dict_get ?user cid = Some app \<longleftrightarrow> cid \<in> set ?ids \<and> app \<in> fst ` set (applications mc) \<and> stands Z E d r app cid" for cid app
    using mapped_app_stands [OF assms] ids [of cid] by (auto simp: user_names_get)
  have "cid = cid'" if c: "dict_get ?user cid = Some app" "dict_get ?user cid' = Some app" for cid cid' app
  proof -
    obtain da where "(app, da) \<in> set (applications mc)" using c(1) user by auto
    then have "\<exists>!cid. stands Z E d r app cid" using assms(2,3) unfolding applications_placed_def by blast
    then show ?thesis using c user by blast
  qed
  from distinct_values [OF user_names_ok this] have "distinct (map snd ?user)" .
  from other_names_ok [OF user_names_ok this, of "map snd ?user" d ?ids]
  have o: "dict_ok (charm_names E d mc r)" "distinct (map snd (charm_names E d mc r))"
    "fst ` set (charm_names E d mc r) = fst ` set ?user \<union> set ?ids"
    "\<And>k v. dict_get ?user k = Some v \<Longrightarrow> dict_get (charm_names E d mc r) k = Some v"
    by (simp_all add: charm_names_def Let_def)
  have "fst ` set ?user \<subseteq> set ?ids" using user by (metis (no_types, opaque_lifting) map_of_eq_None_iff not_None_eq subsetI)
  then have "fst ` set (charm_names E d mc r) = set ?ids" using o(3) by blast
  moreover have "dict_get (charm_names E d mc r) cid = Some app" if "app \<in> fst ` set (applications mc)" "stands Z E d r app cid" for app cid
    using o(4) user that stands_exists [OF assms(1,2) that(2)] by blast
  ultimately show ?thesis using o(1,2) unfolding names_right_def by blast
qed

section \<open>Applications and local integrations\<close>

lemma extract_applications_fold:
  assumes "distinct (map snd names)" "snd ` set names \<inter> fst ` set apps = {}"
  shows "fold (\<lambda>(cid, name) apps. dict_set name (f cid) apps) names apps = apps @ map (\<lambda>(cid, name). (name, f cid)) names"
  using assms
proof (induction names arbitrary: apps)
  case (Cons x names)
  obtain cid name where x: "x = (cid, name)" by (cases x)
  have "name \<notin> fst ` set apps" using Cons.prems(2) by (auto simp: x)
  then have "dict_set name (f cid) apps = apps @ [(name, f cid)]" by (rule dict_set_new)
  moreover have "distinct (map snd names)" "snd ` set names \<inter> fst ` set (apps @ [(name, f cid)]) = {}" using Cons.prems by (auto simp: x)
  ultimately show ?case using Cons.IH by (simp add: x)
qed simp

lemma extract_applications_map:
  assumes "distinct (map snd names)"
  shows "extract_applications decimal E d names = map (\<lambda>(cid, name). (name, extract_application decimal E (charms d ! cid))) names"
  using extract_applications_fold [OF assms, of "[]"] by (simp add: extract_applications_def)

lemma map_filter_mem: "y \<in> set (List.map_filter f xs) \<longleftrightarrow> (\<exists>x \<in> set xs. f x = Some y)"
  by (induction xs) (auto simp: map_filter_simps split: option.splits)

text \<open>What a bundle must be, given the names of the charms.\<close>

definition bundle_right :: "'e z3 \<Rightarrow> 'e evaluation \<Rightarrow> 'e Domain \<Rightarrow> ModelRef \<Rightarrow> 'e DomainModel \<Rightarrow> Bundle \<Rightarrow> bool" where
  "bundle_right Z E d r mc b \<longleftrightarrow>
     b_model b = model_key r \<and> dict_ok (b_applications b)
     \<and> (\<exists>names. names_right Z E d r mc names
          \<and> (\<forall>name a. dict_get (b_applications b) name = Some a \<longrightarrow> (\<exists>cid. dict_get names cid = Some name \<and> ap_charm a = spec (charms d ! cid)))
          \<and> (\<forall>cid name. dict_get names cid = Some name \<longrightarrow> (\<exists>a. dict_get (b_applications b) name = Some a \<and> ap_charm a = spec (charms d ! cid)))
          \<and> (\<forall>i \<in> set (charm_integrations d). active E (int_exists i) \<longrightarrow> model_of d (requires_charm_id i) = r \<longrightarrow> model_of d (provides_charm_id i) = r \<longrightarrow>
               (\<exists>p q. dict_get names (requires_charm_id i) = Some p \<and> dict_get names (provides_charm_id i) = Some q
                  \<and> integration_create (p, requires_endpoint i) (q, provides_endpoint i) \<in> b_integrations b)))"

lemma extract_single_right:
  assumes "domain_ok Z d" "applications_placed Z E d" "integrations_between_deployed E d" "(r, mc) \<in> set (models d)"
    "extract_single_model decimal E d r mc = Inr (b, names)"
  shows "bundle_right Z E d r mc b \<and> b_controller b = mr_controller (ref mc)"
proof -
  have names: "names = charm_names E d mc r" and b: "b_applications b = extract_applications decimal E d names" "b_model b = model_key r"
      "b_integrations b = set (List.map_filter (local_integration E d names) (charm_integrations d))" "b_controller b = mr_controller (ref mc)"
    using assms(5) by (auto simp: extract_single_model_def Let_def bind_result_Inr_iff)
  note right = charm_names_right [OF assms(1,2,4), folded names]
  then have n: "dict_ok names" "distinct (map snd names)" "fst ` set names = set (existing_charm_ids E d r)" by (simp_all add: names_right_def)
  note apps = extract_applications_map [OF n(2), of decimal E d, folded b(1)]
  have ok: "dict_ok (b_applications b)" using n(2) by (simp add: apps dict_ok_def comp_def case_prod_beta)
  have get: "dict_get (b_applications b) name = Some a \<longleftrightarrow> (\<exists>cid. (cid, name) \<in> set names \<and> a = extract_application decimal E (charms d ! cid))" for name a
  proof -
    have "dict_get (b_applications b) name = Some a \<longleftrightarrow> (name, a) \<in> set (b_applications b)" using ok by (simp add: dict_ok_def)
    then show ?thesis by (auto simp: apps)
  qed
  have mem: "dict_get names cid = Some name \<longleftrightarrow> (cid, name) \<in> set names" for cid name using n(1) by (simp add: dict_ok_def)
  have ints: "\<exists>p q. dict_get names (requires_charm_id i) = Some p \<and> dict_get names (provides_charm_id i) = Some q
      \<and> integration_create (p, requires_endpoint i) (q, provides_endpoint i) \<in> b_integrations b"
    if i: "i \<in> set (charm_integrations d)" "active E (int_exists i)" "model_of d (requires_charm_id i) = r" "model_of d (provides_charm_id i) = r" for i
  proof -
    have "integration_ok Z d i" using domain_preD(5) [of Z d i] assms(1) i(1) by (simp add: domain_ok_def)
    then have range: "requires_charm_id i < length (charms d)" "provides_charm_id i < length (charms d)"
      by (auto simp: integration_ok_def compatible_def int_key_def)
    have "requires_charm_id i \<in> fst ` set names" "provides_charm_id i \<in> fst ` set names"
      using n(3) i assms(3) range unfolding integrations_between_deployed_def existing_charm_ids_def by auto
    then obtain p q where pq: "dict_get names (requires_charm_id i) = Some p" "dict_get names (provides_charm_id i) = Some q"
      using n(1) mem by auto
    have "local_integration E d names i = Some (integration_create (p, requires_endpoint i) (q, provides_endpoint i))"
      using i(2-4) pq by (simp add: local_integration_def is_cross_model_def)
    then show ?thesis using pq i(1) unfolding b(3) map_filter_mem by blast
  qed
  show ?thesis unfolding bundle_right_def
    using right ok b(2,4) get mem ints by (intro conjI exI [of _ names]) (auto simp: extract_application_def)
qed

section \<open>Adding cross-model integrations\<close>

text \<open>Bundles to which only cross-model integrations were added, each satisfying a condition.\<close>

definition enlarged :: "(ModelRef \<Rightarrow> CrossModelIntegration \<Rightarrow> bool) \<Rightarrow> (ModelRef, Bundle) dict \<Rightarrow> (ModelRef, Bundle) dict \<Rightarrow> bool" where
  "enlarged P bs bs' \<longleftrightarrow>
     map fst bs' = map fst bs
     \<and> (\<forall>r b. dict_get bs r = Some b \<longrightarrow> (\<exists>extra. dict_get bs' r = Some (b\<lparr>cross_model_integrations := cross_model_integrations b @ extra\<rparr>)
          \<and> (\<forall>c \<in> set extra. P r c)))"

lemma enlarged_refl: "enlarged P bs bs"
  by (auto simp: enlarged_def intro!: exI [of _ "[]"])

lemma enlarged_trans:
  assumes "enlarged P bs bs'" "enlarged P bs' bs''"
  shows "enlarged P bs bs''"
proof -
  have "\<exists>extra. dict_get bs'' r = Some (b\<lparr>cross_model_integrations := cross_model_integrations b @ extra\<rparr>) \<and> (\<forall>c \<in> set extra. P r c)"
    if "dict_get bs r = Some b" for r b
  proof -
    from assms(1) that obtain e where e: "dict_get bs' r = Some (b\<lparr>cross_model_integrations := cross_model_integrations b @ e\<rparr>)" "\<forall>c \<in> set e. P r c"
      unfolding enlarged_def by blast
    with assms(2) obtain e' where "dict_get bs'' r = Some (b\<lparr>cross_model_integrations := (cross_model_integrations b @ e) @ e'\<rparr>)" "\<forall>c \<in> set e'. P r c"
      unfolding enlarged_def by fastforce
    with e(2) show ?thesis by (intro exI [of _ "e @ e'"]) auto
  qed
  then show ?thesis using assms by (simp add: enlarged_def)
qed

lemma enlarged_get:
  assumes "enlarged P bs bs'" "dict_get bs' r = Some b'"
  shows "\<exists>b extra. dict_get bs r = Some b \<and> b' = b\<lparr>cross_model_integrations := cross_model_integrations b @ extra\<rparr> \<and> (\<forall>c \<in> set extra. P r c)"
proof -
  have "r \<in> set (map fst bs)" using assms by (metis enlarged_def fst_conv image_eqI map_of_SomeD set_map)
  then obtain b where "dict_get bs r = Some b" by (metis map_of_eq_None_iff not_None_eq set_map)
  with assms show ?thesis unfolding enlarged_def by fastforce
qed

lemma enlarged_None: "enlarged P bs bs' \<Longrightarrow> dict_get bs' r = None \<longleftrightarrow> dict_get bs r = None"
  unfolding enlarged_def by (metis map_of_eq_None_iff set_map)

lemma enlarged_weaken: "enlarged P bs bs' \<Longrightarrow> (\<And>r c. P r c \<Longrightarrow> Q r c) \<Longrightarrow> enlarged Q bs bs'"
  unfolding enlarged_def by blast

lemma enlarged_append: "P r c \<Longrightarrow> enlarged P bs (append_cmr c r bs)"
proof (cases "dict_get bs r")
  case None
  then show ?thesis by (simp add: append_cmr_def enlarged_refl)
next
  case (Some b)
  assume c: "P r c"
  have "r \<in> set (map fst bs)" using Some by (metis map_of_eq_None_iff not_None_eq option.distinct(1) set_map)
  then have "map fst (append_cmr c r bs) = map fst bs" using Some by (simp add: append_cmr_def update_keys)
  moreover have "\<exists>extra. dict_get (append_cmr c r bs) r' = Some (b'\<lparr>cross_model_integrations := cross_model_integrations b' @ extra\<rparr>) \<and> (\<forall>c \<in> set extra. P r' c)"
    if b': "dict_get bs r' = Some b'" for r' b'
  proof (cases "r' = r")
    case True
    then show ?thesis using b' Some c by (intro exI [of _ "[c]"]) (simp add: append_cmr_def update_conv)
  next
    case False
    then show ?thesis using b' Some by (intro exI [of _ "[]"]) (simp add: append_cmr_def update_conv)
  qed
  ultimately show ?thesis unfolding enlarged_def by blast
qed

lemma discovered_enlarged: "discovered_loop E d maps is bs = Inr bs' \<Longrightarrow> enlarged (\<lambda>_ _. True) bs bs'"
proof (induction "is" arbitrary: bs)
  case (Cons x "is")
  obtain idx i where x: "x = (idx, i)" by (cases x)
  show ?case
  proof (cases "\<not> is_cross_model d i \<or> \<not> active E (int_exists i) \<or> idx \<in> set (user_covered_idxs E d)")
    case True
    then show ?thesis using Cons by (simp add: x)
  next
    case False
    with Cons.prems obtain bs1 where 1: "add_discovered E d maps i bs = Inr bs1" "discovered_loop E d maps is bs1 = Inr bs'"
      by (auto simp: x bind_result_Inr_iff)
    have "enlarged (\<lambda>_ _. True) bs bs1"
      using 1(1) by (auto simp: add_discovered_def Let_def bind_result_Inr_iff enlarged_refl split: option.splits intro!: enlarged_trans [OF enlarged_append enlarged_append])
    then show ?thesis using Cons.IH [OF 1(2)] enlarged_trans by blast
  qed
qed (simp add: enlarged_refl)

section \<open>Mirroring\<close>

text \<open>A cross-model integration of the model \<open>r\<close> has its counterpart in the bundle it refers to.\<close>

definition answered :: "(py_str, ModelRef) dict \<Rightarrow> (ModelRef, Bundle) dict \<Rightarrow> EndpointType \<Rightarrow> EndpointType \<Rightarrow> ModelRef \<Rightarrow> CrossModelIntegration \<Rightarrow> bool" where
  "answered by_key bs from_role to_role r c \<longleftrightarrow>
     (local_role c = from_role \<longrightarrow> (\<forall>r' b'. dict_get by_key (remote_model c) = Some r' \<longrightarrow> dict_get bs r' = Some b' \<longrightarrow>
        dict_get (b_applications b') (remote_application c) \<noteq> None \<longrightarrow> (\<exists>c' \<in> set (cross_model_integrations b'). counterpart_of to_role (model_key r) c c')))"

lemma answered_enlarged:
  assumes "answered by_key bs f t r c" "enlarged P bs bs'"
  shows "answered by_key bs' f t r c"
  unfolding answered_def
proof (intro impI allI)
  fix r' b'
  assume a: "local_role c = f" "dict_get by_key (remote_model c) = Some r'" "dict_get bs' r' = Some b'" "dict_get (b_applications b') (remote_application c) \<noteq> None"
  from enlarged_get [OF assms(2) a(3)] obtain b extra where b: "dict_get bs r' = Some b" "b' = b\<lparr>cross_model_integrations := cross_model_integrations b @ extra\<rparr>" by blast
  with assms(1) a obtain c' where "c' \<in> set (cross_model_integrations b)" "counterpart_of t (model_key r) c c'" unfolding answered_def by fastforce
  then show "\<exists>c' \<in> set (cross_model_integrations b'). counterpart_of t (model_key r) c c'" using b(2) by auto
qed

definition has_cmr :: "(ModelRef, Bundle) dict \<Rightarrow> ModelRef \<Rightarrow> CrossModelIntegration \<Rightarrow> bool" where
  "has_cmr bs r c \<longleftrightarrow> (\<exists>b. dict_get bs r = Some b \<and> c \<in> set (cross_model_integrations b))"

text \<open>Where a mirrored entry comes from.\<close>

definition mirror_of :: "(py_str, ModelRef) dict \<Rightarrow> (ModelRef, Bundle) dict \<Rightarrow> EndpointType \<Rightarrow> EndpointType \<Rightarrow> ModelRef \<Rightarrow> CrossModelIntegration \<Rightarrow> bool" where
  "mirror_of by_key bs from_role to_role r' c' \<longleftrightarrow>
     (\<exists>r b c. c' = mirrored to_role r b c \<and> local_role c = from_role \<and> has_cmr bs r c \<and> dict_get by_key (remote_model c) = Some r')"

lemma counterpart_mirrored: "counterpart_of to_role (model_key r) c (mirrored to_role r b c)"
  by (simp add: counterpart_of_def mirrored_def)

lemma mirror_entry_ok:
  assumes "has_cmr bs r c" "has_cmr bs0 r c"
  shows "enlarged (mirror_of by_key bs0 f t) bs (mirror_entry by_key f t r c bs) \<and> answered by_key (mirror_entry by_key f t r c bs) f t r c"
proof (cases "local_role c = f \<and> dict_get by_key (remote_model c) \<noteq> None")
  case False
  then show ?thesis by (auto simp: mirror_entry_def answered_def enlarged_refl split: option.splits)
next
  case True
  then obtain r' where r': "dict_get by_key (remote_model c) = Some r'" by auto
  obtain b where b: "dict_get bs r = Some b" using assms(1) by (auto simp: has_cmr_def)
  show ?thesis
  proof (cases "dict_get bs r'")
    case None
    then have "mirror_entry by_key f t r c bs = bs" using True r' b by (simp add: mirror_entry_def)
    then show ?thesis using None r' by (simp add: answered_def enlarged_refl)
  next
    case (Some b')
    consider (present) "list_ex (counterpart_of t (model_key r) c) (cross_model_integrations b')"
      | (gone) "dict_get (b_applications b') (remote_application c) = None"
      | (new) "mirror_entry by_key f t r c bs = append_cmr (mirrored t r b c) r' bs"
      using True r' b Some by (fastforce simp: mirror_entry_def)
    then show ?thesis
    proof cases
      case present
      then have "mirror_entry by_key f t r c bs = bs" using True r' b Some by (simp add: mirror_entry_def)
      then show ?thesis using present r' Some by (auto simp: answered_def enlarged_refl list_ex_iff)
    next
      case gone
      then have "mirror_entry by_key f t r c bs = bs" using True r' b Some by (simp add: mirror_entry_def)
      then show ?thesis using gone r' Some by (auto simp: answered_def enlarged_refl)
    next
      case new
      have "mirror_of by_key bs0 f t r' (mirrored t r b c)" using True r' assms(2) unfolding mirror_of_def by blast
      then have "enlarged (mirror_of by_key bs0 f t) bs (append_cmr (mirrored t r b c) r' bs)" by (rule enlarged_append)
      moreover have "answered by_key (append_cmr (mirrored t r b c) r' bs) f t r c"
        using r' Some counterpart_mirrored by (auto simp: answered_def append_cmr_def update_conv)
      ultimately show ?thesis by (simp add: new)
    qed
  qed
qed

lemma has_cmr_enlarged: "has_cmr bs r c \<Longrightarrow> enlarged P bs bs' \<Longrightarrow> has_cmr bs' r c"
  unfolding has_cmr_def enlarged_def by fastforce

lemma has_cmr_before: "has_cmr bs' r c \<Longrightarrow> enlarged P bs bs' \<Longrightarrow> has_cmr bs r c \<or> P r c"
proof -
  assume "has_cmr bs' r c" and e: "enlarged P bs bs'"
  then obtain b' where b': "dict_get bs' r = Some b'" "c \<in> set (cross_model_integrations b')" by (auto simp: has_cmr_def)
  from enlarged_get [OF e b'(1)] b'(2) show ?thesis by (auto simp: has_cmr_def)
qed

lemma mirror_entries_ok:
  assumes "\<forall>c \<in> set cs. has_cmr bs r c \<and> has_cmr bs0 r c"
  shows "enlarged (mirror_of by_key bs0 f t) bs (fold (mirror_entry by_key f t r) cs bs)
    \<and> (\<forall>c \<in> set cs. answered by_key (fold (mirror_entry by_key f t r) cs bs) f t r c)"
  using assms
proof (induction cs arbitrary: bs)
  case (Cons c cs)
  let ?bs = "mirror_entry by_key f t r c bs"
  have c: "enlarged (mirror_of by_key bs0 f t) bs ?bs" "answered by_key ?bs f t r c" using mirror_entry_ok [of bs r c bs0] Cons.prems by auto
  then have "\<forall>c \<in> set cs. has_cmr ?bs r c \<and> has_cmr bs0 r c" using Cons.prems has_cmr_enlarged by auto
  from Cons.IH [OF this] c show ?case using enlarged_trans answered_enlarged by fastforce
qed (simp add: enlarged_refl)

lemma mirrored_role: "mirror_of by_key bs f t r c \<Longrightarrow> local_role c = t"
  by (auto simp: mirror_of_def mirrored_def)

lemma mirror_bundle_ok:
  assumes "f \<noteq> t" "enlarged (mirror_of by_key bs0 f t) bs0 bs"
  shows "enlarged (mirror_of by_key bs0 f t) bs (mirror_bundle by_key f t r bs)
    \<and> (\<forall>c. has_cmr bs r c \<longrightarrow> answered by_key (mirror_bundle by_key f t r bs) f t r c)"
proof (cases "dict_get bs r")
  case None
  then show ?thesis by (simp add: mirror_bundle_def enlarged_refl has_cmr_def)
next
  case (Some b)
  let ?cs = "cross_model_integrations b"
  let ?from = "filter (\<lambda>c. local_role c = f) ?cs"
  have skip: "fold (mirror_entry by_key f t r) cs x = fold (mirror_entry by_key f t r) (filter (\<lambda>c. local_role c = f) cs) x" for cs x
    by (induction cs arbitrary: x) (simp_all add: mirror_entry_def [of by_key f t r])
  have eq: "mirror_bundle by_key f t r bs = fold (mirror_entry by_key f t r) ?from bs" using Some skip by (simp add: mirror_bundle_def)
  have "has_cmr bs r c \<and> has_cmr bs0 r c" if "c \<in> set ?from" for c
  proof -
    have "has_cmr bs r c" using that Some by (simp add: has_cmr_def)
    then show ?thesis using has_cmr_before [OF _ assms(2)] mirrored_role that assms(1) by fastforce
  qed
  then have "enlarged (mirror_of by_key bs0 f t) bs (mirror_bundle by_key f t r bs)"
    "\<forall>c \<in> set ?from. answered by_key (mirror_bundle by_key f t r bs) f t r c"
    using mirror_entries_ok [of ?from bs r bs0 by_key f t] unfolding eq by blast+
  then show ?thesis using Some by (auto simp: has_cmr_def answered_def)
qed

lemma mirror_fold_ok:
  assumes "f \<noteq> t" "enlarged (mirror_of by_key bs0 f t) bs0 bs"
  shows "enlarged (mirror_of by_key bs0 f t) bs (fold (mirror_bundle by_key f t) rs bs)
    \<and> (\<forall>r \<in> set rs. \<forall>c. has_cmr (fold (mirror_bundle by_key f t) rs bs) r c \<longrightarrow> answered by_key (fold (mirror_bundle by_key f t) rs bs) f t r c)"
  using assms(2)
proof (induction rs arbitrary: bs)
  case (Cons r rs)
  let ?bs = "mirror_bundle by_key f t r bs" and ?final = "fold (mirror_bundle by_key f t) (r # rs) bs"
  note step = mirror_bundle_ok [OF assms(1) Cons.prems, of r]
  have IH: "enlarged (mirror_of by_key bs0 f t) ?bs ?final"
    "\<And>r' c. r' \<in> set rs \<Longrightarrow> has_cmr ?final r' c \<Longrightarrow> answered by_key ?final f t r' c"
    using Cons.IH [of ?bs] step enlarged_trans [OF Cons.prems] by auto
  have all: "enlarged (mirror_of by_key bs0 f t) bs ?final" using step IH(1) enlarged_trans by blast
  have "answered by_key ?final f t r c" if "has_cmr ?final r c" for c
  proof (cases "local_role c = f")
    case True
    then have "has_cmr bs r c" using has_cmr_before [OF that all] mirrored_role assms(1) by fastforce
    then show ?thesis using step answered_enlarged [OF _ IH(1)] by blast
  qed (simp add: answered_def)
  then show ?case using all IH(2) by auto
qed (simp add: enlarged_refl)

lemma mirror_ok:
  assumes "f \<noteq> t"
  shows "enlarged (mirror_of by_key bs f t) bs (mirror_cmr_entries by_key f t bs)"
    "has_cmr (mirror_cmr_entries by_key f t bs) r c \<Longrightarrow> answered by_key (mirror_cmr_entries by_key f t bs) f t r c"
proof -
  note ok = mirror_fold_ok [OF assms enlarged_refl, of by_key bs "dict_keys bs"]
  then show e: "enlarged (mirror_of by_key bs f t) bs (mirror_cmr_entries by_key f t bs)" by (simp add: mirror_cmr_entries_def)
  assume c: "has_cmr (mirror_cmr_entries by_key f t bs) r c"
  then have "dict_get bs r \<noteq> None" using enlarged_None [OF e, of r] by (auto simp: has_cmr_def)
  then have "r \<in> set (dict_keys bs)" by (simp add: in_dict_keys_iff)
  then show "answered by_key (mirror_cmr_entries by_key f t bs) f t r c" using ok c by (simp add: mirror_cmr_entries_def)
qed

lemma refs_by_key_fold:
  "dict_get (fold (\<lambda>(r, _) m. dict_set (model_key r) r m) bs m) k = Some r \<Longrightarrow> dict_get m k = Some r \<or> (r \<in> fst ` set bs \<and> model_key r = k)"
  "r \<in> fst ` set bs \<or> dict_get m (model_key r) \<noteq> None \<Longrightarrow> dict_get (fold (\<lambda>(r, _) m. dict_set (model_key r) r m) bs m) (model_key r) \<noteq> None"
proof (induction bs arbitrary: m)
  case (Cons x bs)
  obtain r0 b0 where x: "x = (r0, b0)" by (cases x)
  {
    case 1
    then have "dict_get (dict_set (model_key r0) r0 m) k = Some r \<or> (r \<in> fst ` set bs \<and> model_key r = k)" using Cons.IH(1) by (simp add: x)
    then show ?case by (auto simp: x update_conv split: if_splits)
  next
    case 2
    then have "r \<in> fst ` set bs \<or> dict_get (dict_set (model_key r0) r0 m) (model_key r) \<noteq> None" by (auto simp: x update_conv)
    then show ?case using Cons.IH(2) by (simp add: x)
  }
qed simp_all

lemma refs_by_key_mem:
  assumes "inj_on model_key (fst ` set bs)"
  shows "dict_get (refs_by_key bs) k = Some r \<longleftrightarrow> r \<in> fst ` set bs \<and> model_key r = k"
proof -
  have sound: "r \<in> fst ` set bs \<and> model_key r = k" if "dict_get (refs_by_key bs) k = Some r" for r
    using refs_by_key_fold(1) [of bs "[]" k r] that by (simp add: refs_by_key_def)
  have "dict_get (refs_by_key bs) k = Some r" if r: "r \<in> fst ` set bs" "model_key r = k"
  proof -
    obtain r' where r': "dict_get (refs_by_key bs) k = Some r'" using refs_by_key_fold(2) [of r bs "[]"] r by (auto simp: refs_by_key_def)
    have "r' = r" using inj_onD [OF assms, of r' r] sound [OF r'] r by simp
    then show ?thesis using r' by simp
  qed
  then show ?thesis using sound by blast
qed

section \<open>Offers\<close>

definition offer_urls :: "CrossModelIntegration list \<Rightarrow> (py_str \<times> py_str) set" where
  "offer_urls cs = {(u, cmi_offer c) | u c. c \<in> set cs \<and> local_role c = REQUIRES \<and> cmi_url c = Some u}"

definition offer_owners :: "CrossModelIntegration list \<Rightarrow> (py_str \<times> py_str) set" where
  "offer_owners cs = {(cmi_offer c, fst (cmi_local c)) | c. c \<in> set cs \<and> local_role c = PROVIDES}"

lemma offer_sets_Cons:
  "offer_urls (c # cs) = (case cmi_url c of Some u \<Rightarrow> if local_role c = REQUIRES then {(u, cmi_offer c)} else {} | None \<Rightarrow> {}) \<union> offer_urls cs"
  "offer_owners (c # cs) = (if local_role c = PROVIDES then {(cmi_offer c, fst (cmi_local c))} else {}) \<union> offer_owners cs"
  by (auto simp: offer_urls_def offer_owners_def split: option.splits)

definition offers_seen :: "(py_str \<times> py_str) set \<Rightarrow> (py_str \<times> py_str) set \<Rightarrow> seen_offers \<Rightarrow> bool" where
  "offers_seen R O' seen \<longleftrightarrow>
     (\<forall>u x. dict_get (seen_urls seen) u = Some x \<longleftrightarrow> (u, x) \<in> R) \<and> (\<forall>u x. dict_get (seen_offer_names seen) x = Some u \<longleftrightarrow> (u, x) \<in> R)
     \<and> (\<forall>x a. dict_get (seen_offer_owners seen) x = Some a \<longleftrightarrow> (x, a) \<in> O')"

lemma not_conflicting: "\<not> conflicting (dict_get m k) v \<longleftrightarrow> (\<forall>w. dict_get m k = Some w \<longrightarrow> w = v)"
  by (cases "dict_get m k") (auto simp: conflicting_def)

lemma seen_update:
  assumes "\<forall>u x. dict_get m u = Some x \<longleftrightarrow> (u, x) \<in> R" "\<not> conflicting (dict_get m k) v"
  shows "dict_get (dict_set k v m) u = Some x \<longleftrightarrow> (u, x) \<in> insert (k, v) R"
  using assms by (auto simp: update_conv not_conflicting)

lemma seen_update_inverse:
  assumes "\<forall>u x. dict_get m x = Some u \<longleftrightarrow> (u, x) \<in> R" "\<not> conflicting (dict_get m k) v"
  shows "dict_get (dict_set k v m) x = Some u \<longleftrightarrow> (u, x) \<in> insert (v, k) R"
  using assms by (auto simp: update_conv not_conflicting)

lemma check_cmrs_ok:
  assumes "check_cmrs cs seen = Inr ()" "offers_seen R O' seen" "one_to_one R" "single_valued O'"
  shows "one_to_one (R \<union> offer_urls cs) \<and> single_valued (O' \<union> offer_owners cs)"
  using assms
proof (induction cs arbitrary: seen R O')
  case Nil
  then show ?case by (simp add: offer_urls_def offer_owners_def)
next
  case (Cons c cs)
  from Cons.prems(1) obtain seen' where seen': "check_cmr c seen = Inr seen'" "check_cmrs cs seen' = Inr ()" by (auto simp: bind_result_Inr_iff)
  note rel = Cons.prems(2) [unfolded offers_seen_def]
  consider (provides) "local_role c = PROVIDES" | (requires) u where "local_role c = REQUIRES" "cmi_url c = Some u"
    | (other) "local_role c \<noteq> PROVIDES" "local_role c \<noteq> REQUIRES \<or> cmi_url c = None"
    by (cases "local_role c"; cases "cmi_url c") auto
  then show ?case
  proof cases
    case provides
    let ?a = "fst (cmi_local c)"
    have ok: "\<not> conflicting (dict_get (seen_offer_owners seen) (cmi_offer c)) ?a"
      and s: "seen' = seen\<lparr>seen_offer_owners := dict_set (cmi_offer c) ?a (seen_offer_owners seen)\<rparr>"
      using seen'(1) provides by (auto simp: check_cmr_def split: if_splits)
    have 1: "offers_seen R (insert (cmi_offer c, ?a) O') seen'"
      using rel seen_update [OF _ ok, of O'] unfolding offers_seen_def s by simp
    have 2: "single_valued (insert (cmi_offer c, ?a) O')"
      using Cons.prems(4) ok rel unfolding not_conflicting single_valued_def by blast
    show ?thesis using Cons.IH [OF seen'(2) 1 Cons.prems(3) 2] provides by (simp add: offer_sets_Cons split: option.splits)
  next
    case requires
    have ok: "\<not> conflicting (dict_get (seen_urls seen) u) (cmi_offer c)" "\<not> conflicting (dict_get (seen_offer_names seen) (cmi_offer c)) u"
      and s: "seen' = seen\<lparr>seen_urls := dict_set u (cmi_offer c) (seen_urls seen), seen_offer_names := dict_set (cmi_offer c) u (seen_offer_names seen)\<rparr>"
      using seen'(1) requires by (auto simp: check_cmr_def split: if_splits)
    have 1: "offers_seen (insert (u, cmi_offer c) R) O' seen'"
      using rel seen_update [OF _ ok(1), of R] seen_update_inverse [OF _ ok(2), of R] unfolding offers_seen_def s by simp
    have 2: "one_to_one (insert (u, cmi_offer c) R)"
    proof -
      have "v = u \<longleftrightarrow> y = cmi_offer c" if "(v, y) \<in> R" for v y using ok rel that unfolding not_conflicting by blast
      then show ?thesis using Cons.prems(3) unfolding one_to_one_def by blast
    qed
    show ?thesis using Cons.IH [OF seen'(2) 1 2 Cons.prems(4)] requires by (simp add: offer_sets_Cons)
  next
    case other
    then have "seen' = seen" using seen'(1) by (auto simp: check_cmr_def split: option.splits)
    then show ?thesis using Cons.IH [OF _ Cons.prems(2-4)] seen'(2) other by (auto simp: offer_sets_Cons split: option.splits)
  qed
qed

lemma validated_offers:
  assumes "validate_resolved_cmr_offer_consistency bs = Inr ()" "(r, b) \<in> set bs"
  shows "one_to_one (offer_urls (cross_model_integrations b)) \<and> single_valued (offer_owners (cross_model_integrations b))"
proof -
  have "check_cmrs (cross_model_integrations b) \<lparr>seen_urls = [], seen_offer_names = [], seen_offer_owners = []\<rparr> = Inr ()"
    using assms by (induction bs) (auto simp: bind_result_Inr_iff)
  moreover have "offers_seen {} {} \<lparr>seen_urls = [], seen_offer_names = [], seen_offer_owners = []\<rparr>" by (simp add: offers_seen_def)
  ultimately show ?thesis using check_cmrs_ok [of "cross_model_integrations b" _ "{}" "{}"] by (simp add: one_to_one_def)
qed

section \<open>Exported offers\<close>

lemma saas_fold:
  fixes step :: "CrossModelIntegration \<Rightarrow> (py_str, py_str) dict \<Rightarrow> (py_str, py_str) dict"
  defines "step \<equiv> \<lambda>c m. case cmi_url c of Some u \<Rightarrow> if local_role c = REQUIRES then dict_set (cmi_offer c) u m else m | None \<Rightarrow> m"
  assumes "\<And>v. (v, x) \<in> offer_urls cs \<Longrightarrow> v = u" "(u, x) \<in> offer_urls cs \<or> dict_get m x = Some u"
  shows "dict_get (fold step cs m) x = Some u"
  using assms(2,3)
proof (induction cs arbitrary: m)
  case Nil
  then show ?case by (simp add: offer_urls_def)
next
  case (Cons c cs)
  have "v = u" if "(v, x) \<in> offer_urls cs" for v using Cons.prems(1) that by (simp add: offer_sets_Cons)
  moreover have "(u, x) \<in> offer_urls cs \<or> dict_get (step c m) x = Some u"
    using Cons.prems by (auto simp: offer_sets_Cons step_def update_conv split: option.splits if_splits)
  ultimately show ?case using Cons.IH by simp
qed

lemma saas_complete:
  assumes "one_to_one (offer_urls (cross_model_integrations b))" "(u, x) \<in> offer_urls (cross_model_integrations b)"
  shows "dict_get (saas_entries b) x = Some u"
  unfolding saas_entries_def using assms by (intro saas_fold) (auto simp: one_to_one_def)

definition listed :: "(py_str, (py_str, py_str list) dict) dict \<Rightarrow> py_str \<Rightarrow> py_str \<Rightarrow> py_str \<Rightarrow> bool" where
  "listed tab app offer ep \<longleftrightarrow> ep \<in> set (dict_get_default (dict_get_default tab app []) offer [])"

lemma add_offer_listed:
  "listed (add_offer c tab) app offer ep \<longleftrightarrow> listed tab app offer ep \<or> (local_role c = PROVIDES \<and> cmi_local c = (app, ep) \<and> cmi_offer c = offer)"
  by (cases "cmi_local c") (auto simp: listed_def add_offer_def Let_def dict_get_default_def update_conv)

lemma offers_listed:
  "listed (offers_by_app b) app offer ep \<longleftrightarrow> (\<exists>c \<in> set (cross_model_integrations b). local_role c = PROVIDES \<and> cmi_local c = (app, ep) \<and> cmi_offer c = offer)"
proof -
  have "listed (fold add_offer cs tab) app offer ep \<longleftrightarrow> listed tab app offer ep \<or> (\<exists>c \<in> set cs. local_role c = PROVIDES \<and> cmi_local c = (app, ep) \<and> cmi_offer c = offer)" for cs tab
    by (induction cs arbitrary: tab) (auto simp: add_offer_listed)
  from this [of "cross_model_integrations b" "[]"] show ?thesis by (simp add: offers_by_app_def listed_def dict_get_default_def)
qed

end
