(* ===== verification/Bundle_Main.thy ===== *)
theory Bundle_Main
  imports Bundle_Build Bundle_Extract_Correct
begin

text \<open>
  The properties of the bundles and of the bundle builder as a whole.
\<close>

section \<open>The steps of the extraction\<close>

lemma extract_models_right:
  assumes "domain_ok Z d" "applications_placed Z E d" "integrations_between_deployed E d" "set ms \<subseteq> set (models d)"
    "extract_models decimal E d ms = Inr (bs, maps)"
  shows "list_all2 (\<lambda>(r, mc) (r', b). r' = r \<and> bundle_right Z E d r mc b) ms bs"
  using assms(4,5)
proof (induction ms arbitrary: bs maps)
  case (Cons x ms)
  obtain r mc where x: "x = (r, mc)" by (cases x)
  from Cons.prems(2) obtain b names bs1 maps1 where b: "extract_single_model decimal E d r mc = Inr (b, names)"
    and rest: "extract_models decimal E d ms = Inr (bs1, maps1)" "bs = (r, b) # bs1"
    by (auto simp: x bind_result_Inr_iff)
  have "bundle_right Z E d r mc b" using extract_single_right [OF assms(1-3) _ b] Cons.prems(1) by (simp add: x)
  then show ?case using Cons.IH [OF _ rest(1)] Cons.prems(1) rest(2) by (simp add: x)
qed simp

lemma extract_models_keys:
  "extract_models decimal E d ms = Inr (bs, maps) \<Longrightarrow> map fst bs = map fst ms \<and> (\<forall>(r, b) \<in> set bs. b_model b = model_key r)"
  by (induction ms arbitrary: bs maps) (fastforce simp: bind_result_Inr_iff extract_single_model_def Let_def)+

lemma extract_solution_steps:
  assumes "extract_solution decimal E d = Inr bundles"
  shows "\<exists>bs0 maps bs1. extract_models decimal E d (models d) = Inr (bs0, maps) \<and> enlarged (\<lambda>_ _. True) bs0 bs1
    \<and> (let bs2 = mirror_cmr_entries (refs_by_key bs1) PROVIDES REQUIRES (mirror_cmr_entries (refs_by_key bs1) REQUIRES PROVIDES bs1) in
       enlarged (\<lambda>_ _. True) bs0 bs2 \<and> validate_resolved_cmr_offer_consistency bs2 = Inr () \<and> bundles = map snd bs2)"
proof -
  from assms obtain bs0 maps bs1 where 1: "extract_models decimal E d (models d) = Inr (bs0, maps)"
    "discovered_loop E d maps (enumerate 0 (charm_integrations d)) bs0 = Inr bs1"
    and 2: "validate_resolved_cmr_offer_consistency (mirror_cmr_entries (refs_by_key bs1) PROVIDES REQUIRES (mirror_cmr_entries (refs_by_key bs1) REQUIRES PROVIDES bs1)) = Inr ()"
      "bundles = map snd (mirror_cmr_entries (refs_by_key bs1) PROVIDES REQUIRES (mirror_cmr_entries (refs_by_key bs1) REQUIRES PROVIDES bs1))"
    by (auto simp: extract_solution_def bind_result_Inr_iff Let_def)
  note e1 = discovered_enlarged [OF 1(2)]
  have mirror: "enlarged (\<lambda>_ _. True) bs (mirror_cmr_entries k f t bs)" if "f \<noteq> t" for bs k f t
    by (rule enlarged_weaken [OF mirror_ok(1) [OF that]]) simp
  have "enlarged (\<lambda>_ _. True) bs0 (mirror_cmr_entries (refs_by_key bs1) PROVIDES REQUIRES (mirror_cmr_entries (refs_by_key bs1) REQUIRES PROVIDES bs1))"
    by (rule enlarged_trans [OF e1 enlarged_trans [OF mirror mirror]]) simp_all
  with 1(1) e1 2 show ?thesis unfolding Let_def by blast
qed

lemma bundle_right_more: "bundle_right Z E d r mc (b\<lparr>cross_model_integrations := cs\<rparr>) \<longleftrightarrow> bundle_right Z E d r mc b"
  by (simp add: bundle_right_def)

lemma extract_solution_right:
  assumes "domain_ok Z d" "applications_placed Z E d" "integrations_between_deployed E d" "extract_solution decimal E d = Inr bundles"
  shows "list_all2 (\<lambda>(r, mc) b. bundle_right Z E d r mc b) (models d) bundles"
proof -
  from extract_solution_steps [OF assms(4)] obtain bs0 maps bs2 where 1: "extract_models decimal E d (models d) = Inr (bs0, maps)"
    "enlarged (\<lambda>_ _. True) bs0 bs2" "bundles = map snd bs2" unfolding Let_def by blast
  have right: "list_all2 (\<lambda>(r, mc) (r', b). r' = r \<and> bundle_right Z E d r mc b) (models d) bs0"
    by (rule extract_models_right [OF assms(1-3) _ 1(1)]) simp
  have keys: "map fst bs0 = map fst (models d)" "map fst bs2 = map fst bs0" using extract_models_keys [OF 1(1)] 1(2) by (simp_all add: enlarged_def)
  have ok: "dict_ok (models d)" using domain_preD(1) [of Z d] assms(1) by (simp add: domain_ok_def)
  show ?thesis
  proof (rule list_all2I)
    show len: "length (models d) = length bundles" using keys 1(3) by (metis length_map)
    show "\<forall>x \<in> set (zip (models d) bundles). (case x of (rm, b) \<Rightarrow> (case rm of (r, mc) \<Rightarrow> bundle_right Z E d r mc) b)"
    proof
      fix x assume "x \<in> set (zip (models d) bundles)"
      then obtain k where k: "k < length (models d)" "k < length bundles" "x = (models d ! k, bundles ! k)" by (auto simp: set_zip)
      obtain r mc where m: "models d ! k = (r, mc)" by fastforce
      have lens: "k < length bs0" "k < length bs2" using k keys by (metis length_map)+
      obtain b0 where b0: "bs0 ! k = (r, b0)" "bundle_right Z E d r mc b0" using list_all2_nthD [OF right k(1)] by (auto simp: m split: prod.splits)
      have "fst (bs2 ! k) = r" using keys lens k(1) m by (metis fst_conv nth_map)
      then obtain b2 where b2: "bs2 ! k = (r, b2)" by (metis prod.collapse)
      have "distinct (map fst bs0)" "distinct (map fst bs2)" using ok keys by (simp_all add: dict_ok_def)
      then have "dict_get bs0 r = Some b0" "dict_get bs2 r = Some b2" using b0(1) b2 lens nth_mem by (metis map_of_eq_Some_iff)+
      then obtain extra where "b2 = b0\<lparr>cross_model_integrations := cross_model_integrations b0 @ extra\<rparr>" using 1(2) unfolding enlarged_def by fastforce
      then have "bundle_right Z E d r mc b2" using b0(2) by (simp add: bundle_right_more)
      then show "case x of (rm, b) \<Rightarrow> (case rm of (r, mc) \<Rightarrow> bundle_right Z E d r mc) b" using k(2,3) m b2 lens(2) 1(3) by simp
    qed
  qed
qed

section \<open>From the solver to the bundles\<close>

context z3_api
begin

lemma assertions_placed:
  assumes "domain_ok Z d" "add_constraints Z d [] = Inr s" "holds (ev m) s"
  shows "applications_placed Z (ev m) d \<and> declarations_met Z (ev m) d \<and> integrations_between_deployed (ev m) d"
proof -
  from assms(2) obtain s1 s3 where s1: "add_application_constraints Z d [] = Inr s1"
    and s3: "add_charm_metadata_constraints Z d (add_charm_constraints Z d s1) = Inr s3"
    and s: "s = add_subordinate_constraints Z d (add_charm_dependency_constraints Z d s3)"
    by (auto simp: add_constraints_def bind_result_Inr_iff)
  have "holds (ev m) s3" using assms(3) by (simp add: s add_subordinate_constraints_def add_charm_dependency_constraints_def)
  then have "holds (ev m) (add_charm_constraints Z d s1)" using s3 by (auto simp: add_charm_metadata_constraints_def bind_result_Inr_iff)
  then have "holds (ev m) s1" "integrations_between_deployed (ev m) d" using holds_charm_constraints [OF assms(1)] by blast+
  then show ?thesis using holds_application_constraints [OF assms(1), of "[]" m] s1 by auto
qed

end

lemma requested_model:
  assumes "requested d' = requested d" "(r, mc) \<in> set (models d)"
  shows "\<exists>mc'. (r, mc') \<in> set (models d') \<and> model_request mc' = model_request mc"
proof -
  have "(r, model_request mc) \<in> set (requested d)" using assms(2) by (auto simp: requested_def)
  then have "(r, model_request mc) \<in> set (requested d')" using assms(1) by simp
  then show ?thesis by (auto simp: requested_def)
qed

text \<open>The application that a specification asks for is in the bundle.\<close>

definition fulfils :: "AppSpec \<Rightarrow> Charm \<Rightarrow> bool" where
  "fulfils a c \<longleftrightarrow> charm_name c = as_charm a \<and> (\<forall>ch. as_channel a = Some ch \<longrightarrow> channel_from_string ch = Inr (channel c))
     \<and> (\<forall>k. as_revision a = Some k \<longrightarrow> revision c = k) \<and> (\<forall>u. as_base a = Some u \<longrightarrow> ubuntu_version c = u)"

lemma applications_from_spec_request:
  "applications_from_spec apps = Inr das \<Longrightarrow> (name, a) \<in> set apps \<Longrightarrow> \<exists>da :: 'e DomainApplication. (name, da) \<in> set das \<and> application_from_spec a = Inr da"
  by (induction apps arbitrary: das) (auto simp: bind_result_Inr_iff)

lemma accepts_fulfils:
  assumes "application_from_spec a = Inr (da :: 'e DomainApplication)" "app_request da' = app_request da" "app_accepts da' c"
  shows "fulfils a c"
proof -
  from assms(1) obtain ch where ch: "(case as_channel a of None \<Rightarrow> Inr None | Some c \<Rightarrow> bind_result (channel_from_string c) (\<lambda>ch. Inr (Some ch))) = Inr ch"
    and da: "da = \<lparr>app_charm = as_charm a, app_channel = ch, app_revision = as_revision a, app_base = as_base a, charm_ids = [], app_charms_added = []\<rparr>"
    by (auto simp: application_from_spec_def bind_result_Inr_iff)
  have da': "app_charm da' = as_charm a" "app_channel da' = ch" "app_revision da' = as_revision a" "app_base da' = as_base a"
    using assms(2) by (simp_all add: app_request_def da)
  then have "charm_name c = as_charm a" "\<And>x. ch = Some x \<Longrightarrow> x = channel c" "\<And>k. as_revision a = Some k \<Longrightarrow> revision c = k"
    "\<And>u. as_base a = Some u \<Longrightarrow> ubuntu_version c = u"
    using assms(3) by (auto simp: app_accepts_def)
  moreover have "\<exists>x. channel_from_string t = Inr x \<and> ch = Some x" if "as_channel a = Some t" for t using ch that by (auto simp: bind_result_Inr_iff)
  ultimately show ?thesis by (fastforce simp: fulfils_def)
qed

lemma bundle_has_application:
  assumes "domain_ok Z d'" "applications_placed Z E d'" "bundle_right Z E d' r mc' b" "(r, mc') \<in> set (models d')"
    "model_request mc' = model_request mc" "domain_model snap all_models m = Inr (mc :: 'e DomainModel)" "(name, a) \<in> set (ms_applications m)"
  shows "\<exists>ap. dict_get (b_applications b) name = Some ap \<and> fulfils a (ap_charm ap)"
proof -
  obtain das where das: "applications_from_spec (ms_applications m) = Inr das" "applications mc = das"
    using assms(6) by (auto simp: domain_model_def lift_error_def bind_result_Inr_iff split: sum.splits)
  from applications_from_spec_request [OF das(1) assms(7)] obtain da where da: "(name, da) \<in> set (applications mc)" "application_from_spec a = Inr da"
    unfolding das(2) by blast
  have "(name, app_request da) \<in> set (map (\<lambda>(n, da). (n, app_request da)) (applications mc'))"
    using assms(5) da(1) by (auto simp: model_request_def)
  then obtain da' where da': "(name, da') \<in> set (applications mc')" "app_request da' = app_request da" by auto
  have pre: "domain_pre Z d'" using assms(1) by (simp add: domain_ok_def)
  obtain cid where cid: "stands Z E d' r name cid" using assms(2,4) da'(1) unfolding applications_placed_def by blast
  obtain names where names: "names_right Z E d' r mc' names"
    "\<forall>cid name. dict_get names cid = Some name \<longrightarrow> (\<exists>a. dict_get (b_applications b) name = Some a \<and> ap_charm a = spec (charms d' ! cid))"
    using assms(3) unfolding bundle_right_def by blast
  have "name \<in> fst ` set (applications mc')" using da'(1) by (metis fst_conv imageI)
  then have "dict_get names cid = Some name" using names(1) cid unfolding names_right_def by blast
  with names(2) obtain ap where ap: "dict_get (b_applications b) name = Some ap" "ap_charm ap = spec (charms d' ! cid)" by blast
  from charm_ids_stands [OF pre assms(4) da'(1), of cid E] cid obtain v where "dict_get (charm_ids da') cid = Some v" by blast
  then have "app_accepts da' (spec (charms d' ! cid))" using domain_preD(7) [OF pre assms(4) da'(1)] by (auto simp: app_ok_def split: if_splits)
  then show ?thesis using accepts_fulfils [OF da(2) da'(2)] ap by auto
qed

lemma spec_ref_key_name: "ms_name m \<noteq> None \<Longrightarrow> Some (model_key (spec_ref m)) = spec_key m"
  by (auto simp: model_key_def spec_ref_def spec_key_def split: option.splits)

lemma delivered_model:
  fixes d :: "'e Domain"
  assumes "domain_ok Z d'" "applications_placed Z E d'" "list_all2 (\<lambda>(r, mc) b. bundle_right Z E d' r mc b) (models d') bundles"
    "map fst (models d') = map spec_ref ms" "requested d' = requested d" "build_domain snap ms = Inr d" "distinct (map spec_key ms)" "k < length ms"
    "ms_name (ms ! k) \<noteq> None"
  shows "Some (b_model (bundles ! k)) = spec_key (ms ! k)
    \<and> (\<forall>(name, a) \<in> set (ms_applications (ms ! k)). \<exists>ap. dict_get (b_applications (bundles ! k)) name = Some ap \<and> fulfils a (ap_charm ap))"
proof -
  let ?r = "spec_ref (ms ! k)"
  have k: "k < length (models d')" using assms(4,8) by (metis length_map)
  have "fst (models d' ! k) = ?r" using assms(4,8) k by (metis nth_map)
  then obtain mc' where mc': "models d' ! k = (?r, mc')" by (metis prod.collapse)
  then have mem: "(?r, mc') \<in> set (models d')" using k by (metis nth_mem)
  have right: "bundle_right Z E d' ?r mc' (bundles ! k)" using list_all2_nthD [OF assms(3) k] by (simp add: mc')
  from build_domain_get [OF assms(6,7) nth_mem [OF assms(8)]] obtain mc where mc: "dict_get (models d) ?r = Some mc" "domain_model snap (models_by_name ms) (ms ! k) = Inr mc" by blast
  from requested_model [OF assms(5) map_of_SomeD [OF mc(1)]] obtain mc'' where mc'': "(?r, mc'') \<in> set (models d')" "model_request mc'' = model_request mc" by blast
  have "dict_ok (models d')" using assms(1) domain_preD(1) by (auto simp: domain_ok_def)
  then have "mc'' = mc'" using mem mc''(1) by (metis dict_ok_def eq_key_imp_eq_value)
  then have "\<exists>ap. dict_get (b_applications (bundles ! k)) name = Some ap \<and> fulfils a (ap_charm ap)" if "(name, a) \<in> set (ms_applications (ms ! k))" for name a
    using bundle_has_application [OF assms(1,2) right mem _ mc(2) that] mc''(2) by blast
  moreover have "b_model (bundles ! k) = model_key ?r" using right by (simp add: bundle_right_def)
  ultimately show ?thesis using spec_ref_key_name [OF assms(9)] by auto
qed

section \<open>Both sides of a cross-model integration\<close>

fun opposite :: "EndpointType \<Rightarrow> EndpointType" where
  "opposite REQUIRES = PROVIDES" | "opposite PROVIDES = REQUIRES" | "opposite PEERS = PEERS"

lemma counterpart_back:
  assumes "counterpart_of t model c c'" "local_role c = f" "remote_model c = model'"
  shows "counterpart_of f model' c' c"
  using assms by (auto simp: counterpart_of_def prod_eq_iff)

lemma mirrored_both:
  assumes "inj_on model_key (fst ` set bs1)"
  defines "k \<equiv> refs_by_key bs1" and "bs' \<equiv> mirror_cmr_entries (refs_by_key bs1) REQUIRES PROVIDES bs1"
  defines "bs2 \<equiv> mirror_cmr_entries (refs_by_key bs1) PROVIDES REQUIRES bs'"
  assumes "has_cmr bs2 r c" "local_role c \<noteq> PEERS"
  shows "answered k bs2 (local_role c) (opposite (local_role c)) r c"
proof -
  have e1: "enlarged (mirror_of k bs1 REQUIRES PROVIDES) bs1 bs'" and a1: "\<And>r c. has_cmr bs' r c \<Longrightarrow> answered k bs' REQUIRES PROVIDES r c"
    using mirror_ok [of REQUIRES PROVIDES k bs1] by (simp_all add: bs'_def k_def)
  have e2: "enlarged (mirror_of k bs' PROVIDES REQUIRES) bs' bs2" and a2: "answered k bs2 PROVIDES REQUIRES r c"
    using mirror_ok [of PROVIDES REQUIRES k bs'] assms(5) by (simp_all add: bs2_def k_def)
  consider (prov) "local_role c = PROVIDES" | (req) "local_role c = REQUIRES" using assms(6) by (cases "local_role c") auto
  then show ?thesis
  proof cases
    case prov
    then show ?thesis using a2 by simp
  next
    case req
    have "answered k bs2 REQUIRES PROVIDES r c"
    proof (cases "has_cmr bs' r c")
      case True
      then show ?thesis using a1 answered_enlarged [OF _ e2] by blast
    next
      case False
      then have "mirror_of k bs' PROVIDES REQUIRES r c" using has_cmr_before [OF assms(5) e2] by blast
      then obtain r0 b0 c0 where c0: "c = mirrored REQUIRES r0 b0 c0" "local_role c0 = PROVIDES" "has_cmr bs' r0 c0" "dict_get k (remote_model c0) = Some r"
        unfolding mirror_of_def by blast
      have reverse: "counterpart_of PROVIDES (model_key r) c c0"
        using counterpart_back [OF counterpart_mirrored c0(2), of _ REQUIRES r0 b0] c0(4) refs_by_key_mem [OF assms(1)] by (auto simp: c0(1) k_def)
      have "r' = r0" if "dict_get k (remote_model c) = Some r'" for r'
      proof -
        have "r0 \<in> fst ` set bs1" using c0(3) e1 unfolding has_cmr_def enlarged_def by (metis fst_conv image_eqI map_of_SomeD set_map)
        moreover have "r' \<in> fst ` set bs1" "model_key r' = model_key r0"
          using that refs_by_key_mem [OF assms(1)] by (simp_all add: k_def c0(1) mirrored_def)
        ultimately show ?thesis using assms(1) by (blast dest: inj_onD)
      qed
      moreover have "has_cmr bs2 r0 c0" using has_cmr_enlarged [OF c0(3) e2] .
      ultimately show ?thesis using reverse unfolding answered_def has_cmr_def by fastforce
    qed
    then show ?thesis by (simp add: req)
  qed
qed

lemma extract_two_sided:
  assumes "extract_solution decimal E d = Inr bundles" "distinct (map (model_key \<circ> fst) (models d))"
    "b \<in> set bundles" "c \<in> set (cross_model_integrations b)" "local_role c \<noteq> PEERS"
    "b' \<in> set bundles" "b_model b' = remote_model c" "dict_get (b_applications b') (remote_application c) \<noteq> None"
  shows "\<exists>c' \<in> set (cross_model_integrations b'). counterpart_of (opposite (local_role c)) (b_model b) c c'"
proof -
  from extract_solution_steps [OF assms(1)] obtain bs0 maps bs1 where 1: "extract_models decimal E d (models d) = Inr (bs0, maps)" "enlarged (\<lambda>_ _. True) bs0 bs1"
    and 2: "enlarged (\<lambda>_ _. True) bs0 (mirror_cmr_entries (refs_by_key bs1) PROVIDES REQUIRES (mirror_cmr_entries (refs_by_key bs1) REQUIRES PROVIDES bs1))"
      "bundles = map snd (mirror_cmr_entries (refs_by_key bs1) PROVIDES REQUIRES (mirror_cmr_entries (refs_by_key bs1) REQUIRES PROVIDES bs1))" unfolding Let_def by blast
  define bs2 where "bs2 = mirror_cmr_entries (refs_by_key bs1) PROVIDES REQUIRES (mirror_cmr_entries (refs_by_key bs1) REQUIRES PROVIDES bs1)"
  note 2 = 2 [folded bs2_def]
  have keys: "map fst bs0 = map fst (models d)" "map fst bs1 = map fst (models d)" "map fst bs2 = map fst (models d)"
    using extract_models_keys [OF 1(1)] 1(2) 2(1) by (simp_all add: enlarged_def)
  have "distinct (map model_key (map fst (models d)))" using assms(2) by simp
  then have dm: "distinct (map fst (models d))" "inj_on model_key (set (map fst (models d)))" unfolding distinct_map [of model_key] by blast+
  then have inj: "inj_on model_key (fst ` set bs1)" and dist: "distinct (map fst bs2)" using keys by (simp_all flip: set_map)
  have entry: "\<exists>r. dict_get bs2 r = Some x \<and> b_model x = model_key r" if x: "x \<in> set bundles" for x
  proof -
    from x 2(2) obtain r where r: "(r, x) \<in> set bs2" by auto
    then have get: "dict_get bs2 r = Some x" using dist by simp
    from enlarged_get [OF 2(1) get] obtain x0 extra where x0: "dict_get bs0 r = Some x0" "x = x0\<lparr>cross_model_integrations := cross_model_integrations x0 @ extra\<rparr>" by blast
    then have "b_model x0 = model_key r" using extract_models_keys [OF 1(1)] map_of_SomeD [OF x0(1)] by fastforce
    then show ?thesis using get x0(2) by auto
  qed
  from entry [OF assms(3)] obtain r where r: "dict_get bs2 r = Some b" "b_model b = model_key r" by blast
  from entry [OF assms(6)] obtain r' where r': "dict_get bs2 r' = Some b'" "b_model b' = model_key r'" by blast
  have "has_cmr bs2 r c" using r(1) assms(4) by (simp add: has_cmr_def)
  from mirrored_both [OF inj this [unfolded bs2_def] assms(5), folded bs2_def]
  have ans: "answered (refs_by_key bs1) bs2 (local_role c) (opposite (local_role c)) r c" .
  have "r' \<in> fst ` set bs1" using map_of_SomeD [OF r'(1)] keys by (metis fst_conv image_eqI set_map)
  then have "dict_get (refs_by_key bs1) (remote_model c) = Some r'" using refs_by_key_mem [OF inj] r'(2) assms(7) by simp
  then show ?thesis using ans r' r(2) assms(8) unfolding answered_def by metis
qed

lemma listed_owner: "listed (offers_by_app b) app offer ep \<Longrightarrow> (offer, app) \<in> offer_owners (cross_model_integrations b)"
  unfolding offers_listed offer_owners_def by (metis (mono_tags, lifting) fst_conv mem_Collect_eq)

lemma extract_offers:
  assumes "extract_solution decimal E d = Inr bundles" "b \<in> set bundles"
  shows "one_to_one (offer_urls (cross_model_integrations b)) \<and> single_valued (offer_owners (cross_model_integrations b))"
proof -
  from extract_solution_steps [OF assms(1)] obtain bs2 where "validate_resolved_cmr_offer_consistency bs2 = Inr ()" "bundles = map snd bs2" unfolding Let_def by blast
  then show ?thesis using validated_offers assms(2) by auto
qed

section \<open>Examples\<close>

text \<open>Two models with one application each and an integration between them.\<close>

definition duo :: "zterm Domain" where
  "duo = projr (
     bind_result (add_charm_to_domain zterms (demo_charm ''app'' [(''db'', demo_endpoint REQUIRES ''pg''), (''log'', demo_endpoint REQUIRES ''loki'')] []) demo_built
       (Some (spec_ref (demo_specs ! 0)))) (\<lambda>(d1, a).
     bind_result (add_charm_to_domain zterms (demo_charm ''pg'' [(''db'', demo_endpoint PROVIDES ''pg'')] []) d1 (Some (spec_ref (demo_specs ! 1)))) (\<lambda>(d2, b).
     bind_result (pair_charms_in_domain zterms d2 a b) (\<lambda>(d3, _). Inr d3))))"

definition duo_bundles :: "Bundle list" where
  "duo_bundles = projr (extract_solution (\<lambda>_. None) (zeval demo_model) duo)"

lemma duo_extracted: "extract_solution (\<lambda>_. None) (zeval demo_model) duo = Inr duo_bundles"
proof -
  have "\<not> isl (extract_solution (\<lambda>_. None) (zeval demo_model) duo)" by code_simp
  then show ?thesis by (simp add: duo_bundles_def)
qed

lemma duo_sides:
  "distinct (map (model_key \<circ> fst) (models duo)) \<and> length duo_bundles = 2 \<and> length (cross_model_integrations (duo_bundles ! 0)) = 2
    \<and> local_role (cross_model_integrations (duo_bundles ! 0) ! 0) = REQUIRES \<and> cmi_url (cross_model_integrations (duo_bundles ! 0) ! 0) \<noteq> None
    \<and> b_model (duo_bundles ! 1) = remote_model (cross_model_integrations (duo_bundles ! 0) ! 0)
    \<and> dict_get (b_applications (duo_bundles ! 1)) (remote_application (cross_model_integrations (duo_bundles ! 0) ! 0)) \<noteq> None"
  by code_simp

lemma solo_placed: "domain_ok zterms solo_domain \<and> applications_placed zterms (zeval demo_model) solo_domain \<and> integrations_between_deployed (zeval demo_model) solo_domain"
proof -
  from solo_sat obtain s where s: "add_constraints zterms solo_domain [] = Inr s" "holds (zeval demo_model) s"
    unfolding holds_def active_def list_all_iff by (cases "add_constraints zterms solo_domain []") auto
  have "domain_ok zterms solo_domain"
    using extends_handle_unsat_core [OF solo_hub_ok solo_expands] unexpanded_pool [OF solo_unexpanded solo_ok, of "{solo_charm}"] by (simp add: extends_def pool_def)
  with zt.assertions_placed [OF this s] show ?thesis by blast
qed

text \<open>A specification for one application, built with the store and the solver of the example run.\<close>

definition solo_specs :: "ModelSpec list" where
  "solo_specs = [\<lparr>ms_name = Some ''m'', ms_arch = ''amd64'', ms_platform = ''kubernetes'', ms_juju = ''3.6'', ms_controller = None, ms_admin = ''admin'',
     ms_applications = [(''web'', \<lparr>as_charm = ''solo'', as_channel = None, as_revision = None, as_base = None\<rparr>)], ms_integrations = []\<rparr>]"

lemma solo_accepted: "SpecFile solo_specs = Inr solo_specs"
proof -
  have "case SpecFile solo_specs of Inl _ \<Rightarrow> False | Inr _ \<Rightarrow> True" by code_simp
  then show ?thesis using SpecFile_exact [of solo_specs] by (cases "SpecFile solo_specs") auto
qed

lemma solo_built: "build_domain demo_snaps solo_specs = Inr solo_empty"
  by code_simp

lemma solo_dicts: "\<forall>m \<in> set solo_specs. dict_ok (ms_applications m)"
  by (simp add: solo_specs_def dict_ok_def)

lemma extract_without_integrations:
  assumes "charm_integrations d = []" "\<forall>(r, mc) \<in> set (models d). application_integrations mc = []"
  shows "\<exists>bundles. extract_solution decimal E d = Inr bundles"
proof -
  have "\<exists>bs maps. extract_models decimal E d ms = Inr (bs, maps) \<and> (\<forall>(r, b) \<in> set bs. cross_model_integrations b = [])"
    if "\<forall>(r, mc) \<in> set ms. application_integrations mc = []" for ms
    using that by (induction ms) (fastforce simp: extract_single_model_def Let_def)+
  from this [OF assms(2)] obtain bs maps where bs: "extract_models decimal E d (models d) = Inr (bs, maps)" "\<forall>(r, b) \<in> set bs. cross_model_integrations b = []" by blast
  have "mirror_bundle k f t r bs = bs" for k f t r 
    using bs(2) map_of_SomeD [of bs r] by (fastforce simp: mirror_bundle_def split: option.splits)
  then have "fold (mirror_bundle k f t) rs bs = bs" for k f t rs by (induction rs) simp_all
  then have "mirror_cmr_entries k f t bs = bs" for k f t by (simp add: mirror_cmr_entries_def)
  moreover have "validate_resolved_cmr_offer_consistency bs = Inr ()" using bs(2) by (induction bs) auto
  ultimately show ?thesis using bs(1) assms(1) by (simp add: extract_solution_def Let_def)
qed

lemma solo_bundles: "\<exists>bundles. build demo_snaps solo_hub (ideal_smt demo_model) zterms zeval (\<lambda>_. None) solo_specs = Some (Inr bundles)"
proof -
  obtain m where m: "solve solo_hub (ideal_smt demo_model) zterms zeval solo_empty = Some (Inr (solo_final, m))" using solo_run by blast
  have "charm_integrations solo_final = [] \<and> list_all (\<lambda>(r, mc). application_integrations mc = []) (models solo_final)" by code_simp
  then obtain bundles where "extract_solution (\<lambda>_. None) (zeval m) solo_final = Inr bundles"
    using extract_without_integrations by (fastforce simp: list_all_iff)
  then show ?thesis using m by (simp add: build_def solo_built lift_error_def)
qed

section \<open>An optimizer that answers\<close>

definition optimizes :: "'e smt \<Rightarrow> 'e z3 \<Rightarrow> bool" where
  "optimizes S Z \<longleftrightarrow> (\<forall>d s. domain_ok Z d \<longrightarrow> add_constraints Z d [] = Inr s \<longrightarrow> smt_optimize S s (objectives S Z d) \<noteq> Unknown)"

lemma ideal_optimizes: "optimizes (ideal_smt c) zterms"
  unfolding optimizes_def
proof (intro allI impI)
  fix d s
  assume d: "domain_ok zterms d" "add_constraints zterms d [] = Inr s"
  obtain x y z where xyz: "build_cost_exprs (ideal_smt c) zterms d = (x, y, z)" by (cases "build_cost_exprs (ideal_smt c) zterms d") auto
  have costs: "map (\<lambda>e. as_int (zeval m e)) [x, y, z] = costs (ideal_smt c) (zeval m) d" for m
    using ideal.cost_exprs [OF d(1) xyz] by (simp add: costs_def)
  show "smt_optimize (ideal_smt c) s (objectives (ideal_smt c) zterms d) \<noteq> Unknown"
  proof (cases "\<exists>m. holds (zeval m) s")
    case True
    then obtain m0 where m0: "holds (zeval m0) s" by blast
    have "\<forall>s. smt_check (ideal_smt c) s \<noteq> Unknown" by (simp add: ideal_smt_def)
    with ideal.descent_phases_minimal [OF d, where x = "[]" and m = m0 and c = c] obtain m where
      "m = m0 \<or> holds (zeval m) s" "\<forall>m'. holds (zeval m') s \<longrightarrow> costs (ideal_smt c) (zeval m) d \<le> costs (ideal_smt c) (zeval m') d" by auto
    then have "least_model s [x, y, z] m" using m0 unfolding least_model_def costs by blast
    then show ?thesis by (auto simp: ideal_smt_def objectives_def xyz [unfolded ideal_smt_def])
  next
    case False
    then show ?thesis by (auto simp: ideal_smt_def least_model_def)
  qed
qed

section \<open>Properties\<close>

text \<open>
  C4. The bundles of a deployment are complete: for a solver model that places the applications and integrates
  deployed charms only, there is one bundle per model. Its applications are exactly the
  charms that exist in the model, each under a name of its own, which is that of the declared
  application it stands for if there is one, and every active integration inside
  the model is in the bundle.
\<close>

theorem bundles_complete:
  assumes "domain_ok Z d" "applications_placed Z E d" "integrations_between_deployed E d" "extract_solution decimal E d = Inr bundles"
  shows "list_all2 (\<lambda>(r, mc) b. bundle_right Z E d r mc b) (models d) bundles"
  by (rule extract_solution_right [OF assms])

theorem bundles_complete_witness:
  "\<exists>bundles. extract_solution (\<lambda>_. None) (zeval demo_model) solo_domain = Inr bundles
    \<and> list_all2 (\<lambda>(r, mc) b. bundle_right zterms (zeval demo_model) solo_domain r mc b) (models solo_domain) bundles"
proof -
  have "\<not> isl (extract_solution (\<lambda>_. None) (zeval demo_model) solo_domain)" by code_simp
  then obtain bundles where b: "extract_solution (\<lambda>_. None) (zeval demo_model) solo_domain = Inr bundles"
    by (cases "extract_solution (\<lambda>_. None) (zeval demo_model) solo_domain") auto
  from bundles_complete [OF conjunct1 [OF solo_placed] conjunct1 [OF conjunct2 [OF solo_placed]] conjunct2 [OF conjunct2 [OF solo_placed]] b] b
  show ?thesis by blast
qed

text \<open>
  C6. Cross-model integrations have two sides: if the models have different keys, every cross-model integration of a bundle
  whose remote application is in another bundle of the solution has its counterpart there, with
  the roles and ends swapped and the same offer.
\<close>

theorem cmrs_two_sided:
  assumes "extract_solution decimal E d = Inr bundles" "distinct (map (model_key \<circ> fst) (models d))"
    "b \<in> set bundles" "c \<in> set (cross_model_integrations b)" "local_role c \<noteq> PEERS"
    "b' \<in> set bundles" "b_model b' = remote_model c" "dict_get (b_applications b') (remote_application c) \<noteq> None"
  shows "\<exists>c' \<in> set (cross_model_integrations b'). counterpart_of (opposite (local_role c)) (b_model b) c c'"
  by (rule extract_two_sided [OF assms])

theorem cmrs_two_sided_witness:
  "\<exists>c' \<in> set (cross_model_integrations (duo_bundles ! 1)).
     counterpart_of PROVIDES (b_model (duo_bundles ! 0)) (cross_model_integrations (duo_bundles ! 0) ! 0) c'"
proof -
  note d = duo_sides
  have "duo_bundles ! 0 \<in> set duo_bundles" "duo_bundles ! 1 \<in> set duo_bundles"
    "cross_model_integrations (duo_bundles ! 0) ! 0 \<in> set (cross_model_integrations (duo_bundles ! 0))" using d by (simp_all add: nth_mem)
  from cmrs_two_sided [OF duo_extracted _ this(1,3) _ this(2)] d show ?thesis by simp
qed

text \<open>
  C12. Exported offers are unambiguous: in an extracted bundle every consumed offer with a url keeps that url in the
  exported document, the offers of the second document list exactly the provided
  endpoints, and no two applications provide an offer of the same name.
\<close>

theorem exports_unambiguous:
  assumes "extract_solution decimal E d = Inr bundles" "b \<in> set bundles"
  shows "(\<forall>c \<in> set (cross_model_integrations b). \<forall>u. local_role c = REQUIRES \<longrightarrow> cmi_url c = Some u \<longrightarrow> dict_get (saas_entries b) (cmi_offer c) = Some u)
    \<and> (\<forall>app offer ep. listed (offers_by_app b) app offer ep \<longleftrightarrow>
         (\<exists>c \<in> set (cross_model_integrations b). local_role c = PROVIDES \<and> cmi_local c = (app, ep) \<and> cmi_offer c = offer))
    \<and> (\<forall>app app' offer ep ep'. listed (offers_by_app b) app offer ep \<longrightarrow> listed (offers_by_app b) app' offer ep' \<longrightarrow> app = app')"
proof -
  note o = extract_offers [OF assms]
  have "app = app'" if "listed (offers_by_app b) app offer ep" "listed (offers_by_app b) app' offer ep'" for app app' offer ep ep'
  proof -
    have "(offer, app) \<in> offer_owners (cross_model_integrations b)" "(offer, app') \<in> offer_owners (cross_model_integrations b)"
      using that listed_owner by blast+
    then show ?thesis using o unfolding single_valued_def by blast
  qed
  moreover have "dict_get (saas_entries b) (cmi_offer c) = Some u"
    if "c \<in> set (cross_model_integrations b)" "local_role c = REQUIRES" "cmi_url c = Some u" for c u
  proof -
    have "(u, cmi_offer c) \<in> offer_urls (cross_model_integrations b)" using that by (auto simp: offer_urls_def)
    then show ?thesis by (rule saas_complete [OF conjunct1 [OF o]])
  qed
  ultimately show ?thesis using offers_listed by blast
qed

theorem exports_unambiguous_witness:
  "\<exists>u. cmi_url (cross_model_integrations (duo_bundles ! 0) ! 0) = Some u
     \<and> dict_get (saas_entries (duo_bundles ! 0)) (cmi_offer (cross_model_integrations (duo_bundles ! 0) ! 0)) = Some u"
proof -
  note d = duo_sides
  have mem: "duo_bundles ! 0 \<in> set duo_bundles"
    "cross_model_integrations (duo_bundles ! 0) ! 0 \<in> set (cross_model_integrations (duo_bundles ! 0))" using d by (simp_all add: nth_mem)
  from d obtain u where "cmi_url (cross_model_integrations (duo_bundles ! 0) ! 0) = Some u" by blast
  with exports_unambiguous [OF duo_extracted mem(1)] mem(2) d show ?thesis by blast
qed

text \<open>
  C2. The bundle builder always ends: for an accepted specification, a store with finitely many charms and a sound
  solver, building returns bundles or an error.
\<close>

theorem build_ends:
  assumes "smt_solver Z ev S" "store_ok C H" "finite C" "SpecFile ms = Inr ms'" "\<forall>m \<in> set ms. dict_ok (ms_applications m)"
  shows "\<exists>y. build snap H S Z ev decimal ms = Some y"
proof (cases "build_domain snap ms :: domain_error + 'a Domain")
  case (Inl x)
  then show ?thesis by (simp add: build_def)
next
  case (Inr d)
  have "distinct (map spec_key ms)" using assms(4) by (simp add: SpecFile_exact well_formed_spec_def)
  from build_domain_ready [OF this assms(5) Inr, of Z] have d: "domain_ok Z d" "unexpanded d" by simp_all
  from smt_solver.solve_loop_result [OF assms(1-3) unexpanded_pool [OF d(2,1)], of 1] obtain y where "solve H S Z ev d = Some y" unfolding solve_def by blast
  then show ?thesis using Inr by (auto simp: build_def split: sum.splits prod.splits)
qed

theorem build_ends_witness:
  "\<exists>y. build demo_snaps solo_hub (ideal_smt demo_model) zterms zeval (\<lambda>_. None) solo_specs = Some y"
  by (rule build_ends [OF ideal.smt_solver_axioms solo_hub_ok _ solo_accepted solo_dicts]) simp

text \<open>
  C1. The bundle builder delivers what was asked for: if it returns bundles, and its optimizer did not time out, there is one bundle per
  model of the specification, in order, and every application of the specification is in the bundle of its model, with
  the charm it asks for and the channel, revision and base, where it states them.
\<close>

theorem build_delivers:
  assumes "smt_solver Z ev S" "store_ok C H" "finite C" "SpecFile ms = Inr ms'" "\<forall>m \<in> set ms. dict_ok (ms_applications m)"
    "optimizes S Z" "build snap H S Z ev decimal ms = Some (Inr bundles)"
  shows "list_all2 (\<lambda>m b. Some (b_model b) = spec_key m
    \<and> (\<forall>(name, a) \<in> set (ms_applications m). \<exists>ap. dict_get (b_applications b) name = Some ap \<and> fulfils a (ap_charm ap))) ms bundles"
proof -
  from assms(7) obtain d d' m where d: "build_domain snap ms = Inr d" and run: "solve H S Z ev d = Some (Inr (d', m))"
    and ex: "extract_solution decimal (ev m) d' = Inr bundles"
    by (auto simp: build_def lift_error_def split: sum.splits option.splits prod.splits)
  have wf: "well_formed_spec ms" using assms(4) by (simp add: SpecFile_exact)
  then have dist: "distinct (map spec_key ms)" by (simp add: well_formed_spec_def)
  from build_domain_ready [OF dist assms(5) d, of Z] have ready: "domain_ok Z d" "unexpanded d" by simp_all
  from smt_solver.solve_loop_result [OF assms(1-3) unexpanded_pool [OF ready(2,1)], of 1] run
  have sol: "solution S Z ev d d' m" unfolding solve_def by auto
  then obtain s where ok: "domain_ok Z d'" and g: "grows d d'" and s: "add_constraints Z d' [] = Inr s" "holds (ev m) s"
    using assms(6) unfolding solution_def optimizes_def by blast
  have api: "z3_api Z ev" using assms(1) by (simp add: smt_solver_def)
  note placed = z3_api.assertions_placed [OF api ok s]
  from extract_solution_right [OF ok _ _ ex] placed have right: "list_all2 (\<lambda>(r, mc) b. bundle_right Z (ev m) d' r mc b) (models d') bundles" by blast
  have req: "requested d' = requested d" using growsD(8) [OF g] .
  have refs: "map fst (models d') = map spec_ref ms" using arg_cong [where f = "map fst", OF req] build_domain_refs [OF d dist]
    by (simp add: requested_def comp_def case_prod_beta)
  show ?thesis
  proof (rule list_all2I)
    show len: "length ms = length bundles" using refs list_all2_lengthD [OF right] by (metis length_map)
    show "\<forall>x \<in> set (zip ms bundles). (case x of (m, b) \<Rightarrow> Some (b_model b) = spec_key m
        \<and> (\<forall>(name, a) \<in> set (ms_applications m). \<exists>ap. dict_get (b_applications b) name = Some ap \<and> fulfils a (ap_charm ap)))"
    proof
      fix x assume "x \<in> set (zip ms bundles)"
      then obtain k where k: "k < length ms" "k < length bundles" "x = (ms ! k, bundles ! k)" by (auto simp: set_zip)
      from delivered_model [OF ok conjunct1 [OF placed] right refs req d dist k(1)] wf k(1) show "case x of (m, b) \<Rightarrow> Some (b_model b) = spec_key m
        \<and> (\<forall>(name, a) \<in> set (ms_applications m). \<exists>ap. dict_get (b_applications b) name = Some ap \<and> fulfils a (ap_charm ap))"
        by (simp add: k(3) well_formed_spec_def)
    qed
  qed
qed

theorem build_delivers_witness:
  "\<exists>bundles ap. build demo_snaps solo_hub (ideal_smt demo_model) zterms zeval (\<lambda>_. None) solo_specs = Some (Inr bundles)
     \<and> dict_get (b_applications (bundles ! 0)) ''web'' = Some ap \<and> charm_name (ap_charm ap) = ''solo''"
proof -
  obtain bundles where b: "build demo_snaps solo_hub (ideal_smt demo_model) zterms zeval (\<lambda>_. None) solo_specs = Some (Inr bundles)" using solo_bundles by blast
  from build_delivers [OF ideal.smt_solver_axioms solo_hub_ok _ solo_accepted solo_dicts ideal_optimizes b]
  have "\<exists>ap. dict_get (b_applications (bundles ! 0)) ''web'' = Some ap \<and> charm_name (ap_charm ap) = ''solo''"
    by (auto simp: solo_specs_def list_all2_Cons1 fulfils_def)
  with b show ?thesis by blast
qed

end
