(* ===== verification/Spec2Isabelle.thy ===== *)
theory Spec2Isabelle
  imports Sched_Collect DSL_Correct Juju_Registry Juju_Version Track_Sources_Correct
    Bundle_Overrides Bundle_Main
begin

text \<open>
  A verification development for the charm integration testing framework: a pytest suite
  that drives Juju deployments of charms through a graph of environment states, with a
  bundle builder that chooses what to deploy.

  \<^bold>\<open>Parts of the program and the theories that model them.\<close>

  \<^item> \<open>Prelude\<close>: results of code that may raise (\<open>Inl\<close> the exception), insertion-ordered
    dictionaries with their interface locale \<open>ordered_store\<close>, decimal numerals, raw Python values.

  \<^item> The test scheduler, \<^verbatim>\<open>charm_integration_testing/test_suite/scheduler/\<close>.
    \<open>Sched_States\<close> is \<^verbatim>\<open>states.py\<close>; \<open>Sched_Graph\<close> is \<^verbatim>\<open>graph.py\<close>, the transition graph and
    its randomised Dijkstra search, whose heap is used through the locale \<open>min_heap\<close>;
    \<open>Sched_Graph_Correct\<close> shows that the search ends and is optimal. \<open>Sched_Markers\<close> is \<^verbatim>\<open>markers.py\<close>.
    \<^verbatim>\<open>plugin.py\<close> is in four theories: \<open>Sched_Items\<close> (duplicating and labelling test items over an
    explicit store of item objects), \<open>Sched_Plan\<close> (the backtracking planner), \<open>Sched_Runtime\<close> (the
    hooks called while tests run, over one record of the plugin's globals, with proofs in
    \<open>Sched_Runtime_Correct\<close>) and \<open>Sched_Collect\<close> (the collection hook and how planner and run-time
    hooks fit together).

  \<^item> The constraint language of the bundle builder,
    \<^verbatim>\<open>bundle_builder_x/bundle_builder_x/constraints_dsl.py\<close>. \<open>DSL_Syntax\<close> holds
    tokens, the tokenizer and the tree; \<open>DSL_Parser\<close> the recursive descent; \<open>DSL_Parser_Correct\<close>
    (through the locale \<open>safe_parser\<close>) that it never leaves the token list; \<open>DSL_Types\<close> the checker
    and the typing rules; \<open>DSL_Print\<close> and \<open>DSL_Correct\<close> the round trip and the top-level theorems.

  \<^item> The registry of created resources, \<^verbatim>\<open>resource_registry/\<close>: \<open>Resource_Registry\<close> and
    \<open>Resource_Registry_Correct\<close>; its use for Juju controllers and models (\<^verbatim>\<open>juju/handles.py\<close>,
    \<^verbatim>\<open>juju/resource_registry/extension.py\<close>): \<open>Juju_Registry\<close>.

  \<^item> Juju versions and upgrade targets (\<^verbatim>\<open>juju/version.py\<close>, \<^verbatim>\<open>utils/juju_releases.py\<close>): \<open>Juju_Version\<close>.

  \<^item> Resource tracking, \<^verbatim>\<open>resource_tracking/\<close>: \<open>Track_Snapshot\<close> (\<^verbatim>\<open>snapshot.py\<close>),
    \<open>Track_Discrepancy\<close> (\<^verbatim>\<open>tracker.py\<close>, \<^verbatim>\<open>discrepancy.py\<close>) with \<open>Track_Correct\<close>, and
    \<open>Track_Sources\<close> (\<^verbatim>\<open>sources.py\<close>, \<^verbatim>\<open>collectors.py\<close>) with \<open>Track_Sources_Correct\<close>.

  \<^item> The bundle builder, \<^verbatim>\<open>bundle_builder_x/bundle_builder_x/\<close>, which chooses with the Z3 solver the charms and
    integrations to deploy. \<open>Bundle_Charm\<close> is \<^verbatim>\<open>charm.py\<close>, \<open>Bundle_Overrides\<close> is \<^verbatim>\<open>overrides.py\<close>;
    \<open>Bundle_Z3\<close> is the interface to the solver library: the locale \<open>z3_api\<close>, interpreted on syntax
    trees. \<open>Bundle_Domain\<close> is \<^verbatim>\<open>domain.py\<close>, \<open>Bundle_Lower\<close> is \<^verbatim>\<open>dsl_lowering.py\<close>, \<open>Bundle_Constraints\<close>
    is \<^verbatim>\<open>constraints.py\<close>. \<open>Bundle_Meaning\<close> says what a constraint means in the deployment described
    by a solver model; \<open>Bundle_Lower_Correct\<close>, \<open>Bundle_Lower_Main\<close> and \<open>Bundle_Lower_Props\<close> show that the
    translation has this meaning. The library raises an exception for operands of different sorts;
    \<open>Bundle_Lower_Sorts\<close> says which constraints cannot run into it. \<open>Bundle_Domain_Correct\<close> has the invariant of the domain;
    \<open>Bundle_Constraints_Correct\<close>, \<open>_Charms\<close>, \<open>_Values\<close>, \<open>_Main\<close> and \<open>_Props\<close> what the assertions mean,
    group by group and together; \<open>Bundle_Steps\<close> the changes the builder makes to a domain.

  \<^item> The refinement loop of the bundle builder, \<^verbatim>\<open>bundle_builder.py\<close>. \<open>Bundle_Errors\<close> holds
    \<^verbatim>\<open>release_errors.py\<close> and \<^verbatim>\<open>bundle_diagnostics.py\<close>; \<open>Bundle_Builder\<close> the handling of an
    unsatisfiable core, which fetches charms from the store and enlarges the domain;
    \<open>Bundle_Solve\<close> the loop and the optimization. \<open>Bundle_Forest\<close> bounds the size of labelled forests,
    \<open>Bundle_Builder_Correct\<close> shows that what the builder adds is such a forest and that every handled
    core enlarges the domain, \<open>Bundle_Solve_Correct\<close> bounds the domain and treats the descent over a
    sound solver (locale \<open>smt_solver\<close>), \<open>Bundle_Solve_Props\<close> has the theorems: the loop ends, its
    result satisfies the assertions and is minimal, and a failure is explained.

  \<^item> What stands before and after this loop. \<open>Bundle_Spec\<close> is \<^verbatim>\<open>spec.py\<close>, the specification files and
    their validation, with \<^verbatim>\<open>domain_builder.py\<close>, which makes a domain of them, and the lookup of
    \<^verbatim>\<open>snapstore.py\<close>; \<open>Bundle_Spec_Correct\<close> shows which specifications are accepted and that their domain is
    ready for the loop. \<open>Bundle_Extract\<close> is \<^verbatim>\<open>extract.py\<close>, from a solver model to bundles, \<open>Bundle_Export\<close> is
    \<^verbatim>\<open>bundle.py\<close>, the exported documents and the Mermaid graph; \<open>Bundle_Extract_Correct\<close> has their
    lemmas. \<open>Bundle_Build\<close> is \<open>BundleBuilder.build\<close>, and \<open>Bundle_Main\<close> has the theorems about the whole: it
    ends, and the bundles hold what the specification asks for, both sides of every
    cross-model integration, and unambiguous offers.

  \<^bold>\<open>Bounds and fuel.\<close> The parser runs with fuel \<open>15 * length tokens + 15\<close>, teardown with one more
  than the number of registered entries; both are proved never to run out. The loops of the
  graph search, of the planner, of the bundle builder and of its descent are partial functions into
  \<open>option\<close> and are proved to end; the bound on the domain of the bundle builder is \<open>max_size\<close>.

  \<^bold>\<open>Parameters.\<close> Random draws, the iteration order of sets, log collectors, destroyers, the
  answers of the Kubernetes API and of the Juju backend are arguments of the definitions, and so are the store
  client (record \<open>charmhub\<close>), the solver library (records \<open>z3\<close> and \<open>smt\<close>, what a tag asserted
  twice does and which sorts it compares with each other included), floating-point division, the rendering of a real number, the text of a tag
  and the answer of the snap store. Reading specifications from YAML and writing documents as YAML is done by libraries.

  \<^bold>\<open>Where the code and its documentation differ.\<close> The definitions follow the code, and so do the notions the theorems
    are stated with, where the two differ: \<open>well_formed_spec\<close> allows an empty model name and one name
    on several controllers; \<open>has_type\<close> has no substring test in a configuration value and lets
    equality take such a value with anything; \<open>meaning\<close> lets the right operand of a substring test
    contain the left one and \<open>reach\<close> follows proxies of every interface; \<open>valid_deployment\<close> does not ask
    that an integrated endpoint has its features active; equality with a property of \<open>{self}\<close> holds for
    an endpoint without peers (\<open>self_equality_means_subset\<close>).

  \<^bold>\<open>Not modelled.\<close> Characters beyond code point 255, the digit limit of \<open>int()\<close> and the recursion
  limit of the interpreter; logging; the clients that only talk to a subprocess, to HTTP, to
  Kubernetes or to a chaos framework; the relation validators, which are such clients of databases
  and message queues; pytest fixtures and the test functions themselves.
\<close>

end
